(* ===== verification/Prelude.thy ===== *)
theory Prelude
  imports Main "HOL-Library.Sublist" "HOL-Library.Multiset"
begin

text \<open>
  Shared vocabulary of the development: the operations of Rust's \<open>str\<close> the code uses
  (a \<^typ>\<open>string\<close> is the UTF-8 byte sequence of a Rust \<open>str\<close>, so \<open>length\<close> is
  \<open>str::len\<close> and comparison of strings is comparison of bytes), saturating arithmetic on
  \<open>usize\<close>, \<open>collect\<close> over \<open>Result\<close>, and a locale for stable sorting by a
  comparator (\<open>slice::sort_by\<close> is a stable sort).
\<close>

named_theorems str_simps \<open>evaluation of the string operations\<close>
named_theorems wf_intros \<open>introduction rules of well-formedness predicates\<close>

subsection \<open>Options, results\<close>

definition opt_filter :: "('a \<Rightarrow> bool) \<Rightarrow> 'a option \<Rightarrow> 'a option" where
  "opt_filter p x = (case x of None \<Rightarrow> None | Some v \<Rightarrow> if p v then Some v else None)"

lemma opt_filter_simps [simp]:
  "opt_filter p None = None"
  "opt_filter p (Some v) = (if p v then Some v else None)"
  by (simp_all add: opt_filter_def)

lemma opt_filter_Some_iff: "opt_filter p x = Some v \<longleftrightarrow> x = Some v \<and> p v"
  by (cases x) auto

definition opt_or :: "'a option \<Rightarrow> 'a option \<Rightarrow> 'a option" where
  "opt_or x y = (case x of None \<Rightarrow> y | Some v \<Rightarrow> Some v)"

lemma opt_or_simps [simp]:
  "opt_or None y = y" "opt_or (Some v) y = Some v"
  by (simp_all add: opt_or_def)

definition opt_default :: "'a \<Rightarrow> 'a option \<Rightarrow> 'a" where
  "opt_default d x = (case x of None \<Rightarrow> d | Some v \<Rightarrow> v)"

lemma opt_default_simps [simp]:
  "opt_default d None = d" "opt_default d (Some v) = v"
  by (simp_all add: opt_default_def)

definition opt_list :: "'a option \<Rightarrow> 'a list" where
  "opt_list x = (case x of None \<Rightarrow> [] | Some v \<Rightarrow> [v])"

lemma opt_list_simps [simp]: "opt_list None = []" "opt_list (Some v) = [v]"
  by (simp_all add: opt_list_def)

definition is_some_and :: "('a \<Rightarrow> bool) \<Rightarrow> 'a option \<Rightarrow> bool" where
  "is_some_and p x = (case x of None \<Rightarrow> False | Some v \<Rightarrow> p v)"

lemma is_some_and_simps [simp]: "is_some_and p None = False" "is_some_and p (Some v) = p v"
  by (simp_all add: is_some_and_def)

text \<open>\<open>and_then\<close> on \<open>Result\<close>: the \<open>?\<close> operator.\<close>

definition res_bind :: "'e + 'a \<Rightarrow> ('a \<Rightarrow> 'e + 'b) \<Rightarrow> 'e + 'b" where
  "res_bind r f = (case r of Inl e \<Rightarrow> Inl e | Inr x \<Rightarrow> f x)"

lemma res_bind_simps [simp]:
  "res_bind (Inl e) f = Inl e" "res_bind (Inr x) f = f x"
  by (simp_all add: res_bind_def)

lemma res_bind_Inr_iff: "res_bind r f = Inr y \<longleftrightarrow> (\<exists>x. r = Inr x \<and> f x = Inr y)"
  by (cases r) auto

lemma res_bind_InrE:
  assumes "res_bind r f = Inr y"
  obtains x where "r = Inr x" "f x = Inr y"
  using assms by (auto simp: res_bind_Inr_iff)

definition ok_or :: "'e \<Rightarrow> 'a option \<Rightarrow> 'e + 'a" where
  "ok_or e x = (case x of None \<Rightarrow> Inl e | Some v \<Rightarrow> Inr v)"

lemma ok_or_simps [simp]: "ok_or e None = Inl e" "ok_or e (Some v) = Inr v"
  by (simp_all add: ok_or_def)

lemma ok_or_Inr_iff: "ok_or e x = Inr v \<longleftrightarrow> x = Some v"
  by (cases x) auto

text \<open>\<open>iter().map(f).collect::<Result<Vec<_>, _>>()\<close>: stops at the first error.\<close>

fun map_res :: "('a \<Rightarrow> 'e + 'b) \<Rightarrow> 'a list \<Rightarrow> 'e + 'b list" where
  "map_res f [] = Inr []"
| "map_res f (x # xs) = res_bind (f x) (\<lambda>y. res_bind (map_res f xs) (\<lambda>ys. Inr (y # ys)))"

lemma map_res_Inr_iff: "map_res f xs = Inr ys \<longleftrightarrow> list_all2 (\<lambda>x y. f x = Inr y) xs ys"
  by (induction xs arbitrary: ys) (auto simp: res_bind_Inr_iff list_all2_Cons1)

lemma map_res_length: "map_res f xs = Inr ys \<Longrightarrow> length ys = length xs"
  by (auto simp: map_res_Inr_iff dest: list_all2_lengthD)

lemma map_res_Inl: "map_res f xs = Inl e \<Longrightarrow> \<exists>x\<in>set xs. f x = Inl e"
  by (induction xs) (auto simp: res_bind_def split: sum.splits)

subsection \<open>Rust strings\<close>

text \<open>\<open>str::contains\<close> of a substring pattern.\<close>

fun contains_str :: "string \<Rightarrow> string \<Rightarrow> bool" where
  "contains_str needle [] = (needle = [])"
| "contains_str needle (c # cs) = (prefix needle (c # cs) \<or> contains_str needle cs)"

lemma contains_str_iff: "contains_str needle hay \<longleftrightarrow> (\<exists>a b. hay = a @ needle @ b)"
proof (induction hay)
  case Nil
  then show ?case by simp
next
  case (Cons c cs)
  show ?case
  proof
    assume "contains_str needle (c # cs)"
    then consider "prefix needle (c # cs)" | "contains_str needle cs" by auto
    then show "\<exists>a b. c # cs = a @ needle @ b"
    proof cases
      case 1
      then have "\<exists>b. c # cs = [] @ needle @ b" by (auto simp: prefix_def)
      then show ?thesis by blast
    next
      case 2
      then obtain a b where "cs = a @ needle @ b" using Cons.IH by blast
      then have "c # cs = (c # a) @ needle @ b" by simp
      then show ?thesis by blast
    qed
  next
    assume "\<exists>a b. c # cs = a @ needle @ b"
    then obtain a b where ab: "c # cs = a @ needle @ b" by blast
    show "contains_str needle (c # cs)"
    proof (cases a)
      case Nil
      with ab have "prefix needle (c # cs)" by (auto simp: prefix_def)
      then show ?thesis by simp
    next
      case (Cons x xs)
      with ab have "cs = xs @ needle @ b" by simp
      then show ?thesis using Cons.IH by auto
    qed
  qed
qed

lemma contains_str_self [simp]: "contains_str s s"
  unfolding contains_str_iff by (rule exI [of _ "[]"]) simp

lemma contains_str_append: "contains_str n h \<Longrightarrow> contains_str n (a @ h @ b)"
  unfolding contains_str_iff by (metis append.assoc)

lemma contains_str_trans: "contains_str a b \<Longrightarrow> contains_str b c \<Longrightarrow> contains_str a c"
  unfolding contains_str_iff by (metis append.assoc)

text \<open>\<open>str::strip_prefix\<close>.\<close>

definition strip_prefix :: "string \<Rightarrow> string \<Rightarrow> string option" where
  "strip_prefix p s = (if prefix p s then Some (drop (length p) s) else None)"

lemma strip_prefix_Some_iff: "strip_prefix p s = Some r \<longleftrightarrow> s = p @ r"
  by (auto simp: strip_prefix_def prefix_def)

lemma strip_prefix_append [simp]: "strip_prefix p (p @ r) = Some r"
  by (simp add: strip_prefix_Some_iff)

text \<open>\<open>str::split\<close> on one ASCII separator: always at least one piece.\<close>

fun split_char :: "char \<Rightarrow> string \<Rightarrow> string list" where
  "split_char d [] = [[]]"
| "split_char d (c # cs) =
     (if c = d then [] # split_char d cs
      else (case split_char d cs of [] \<Rightarrow> [[c]] | p # ps \<Rightarrow> (c # p) # ps))"

lemma split_char_ne [simp]: "split_char d s \<noteq> []"
  by (cases s) (auto split: list.splits)

text \<open>\<open>slice::join\<close>.\<close>

fun join :: "string \<Rightarrow> string list \<Rightarrow> string" where
  "join sep [] = []"
| "join sep [x] = x"
| "join sep (x # y # zs) = x @ sep @ join sep (y # zs)"

lemma join_Cons_ne: "xs \<noteq> [] \<Longrightarrow> join sep (x # xs) = x @ sep @ join sep xs"
  by (cases xs) auto

lemma join_append:
  "xs \<noteq> [] \<Longrightarrow> ys \<noteq> [] \<Longrightarrow> join sep (xs @ ys) = join sep xs @ sep @ join sep ys"
proof (induction xs)
  case Nil
  then show ?case by simp
next
  case (Cons x xs)
  then show ?case by (cases "xs = []") (auto simp: join_Cons_ne)
qed

lemma join_split_char [simp]: "join [d] (split_char d s) = s"
proof (induction s)
  case Nil
  then show ?case by simp
next
  case (Cons c cs)
  obtain p ps where p: "split_char d cs = p # ps"
    by (metis split_char_ne neq_Nil_conv)
  show ?case
  proof (cases "c = d")
    case True
    with Cons show ?thesis by (simp add: join_Cons_ne)
  next
    case False
    with Cons p show ?thesis by (cases ps) auto
  qed
qed

lemma split_char_no_sep: "d \<notin> set s \<Longrightarrow> split_char d s = [s]"
  by (induction s) auto

lemma split_char_sep: "d \<notin> set x \<Longrightarrow> split_char d (x @ d # s) = x # split_char d s"
  by (induction x) auto

lemma split_char_pieces: "p \<in> set (split_char d s) \<Longrightarrow> d \<notin> set p"
  by (induction s arbitrary: p) (auto split: if_splits list.splits)

lemma split_char_join:
  "xs \<noteq> [] \<Longrightarrow> \<forall>x\<in>set xs. d \<notin> set x \<Longrightarrow> split_char d (join [d] xs) = xs"
proof (induction xs)
  case Nil
  then show ?case by simp
next
  case (Cons x xs)
  then show ?case
    by (cases "xs = []") (auto simp: join_Cons_ne split_char_sep split_char_no_sep)
qed

text \<open>\<open>str::split_once\<close> on a string delimiter (the first occurrence).\<close>

fun split_once :: "string \<Rightarrow> string \<Rightarrow> (string \<times> string) option" where
  "split_once d [] = (if d = [] then Some ([], []) else None)"
| "split_once d (c # cs) =
     (if prefix d (c # cs) then Some ([], drop (length d) (c # cs))
      else map_option (\<lambda>(a, b). (c # a, b)) (split_once d cs))"

lemma split_once_Some: "split_once d s = Some (a, b) \<Longrightarrow> s = a @ d @ b"
  by (induction s arbitrary: a b) (auto simp: prefix_def split: if_splits)

lemma split_once_None: "split_once d s = None \<longleftrightarrow> \<not> contains_str d s"
  by (induction s) auto

text \<open>The lossless segmentation of a byte sequence into UTF-8 characters: a lead byte and
  the continuation bytes (\<open>10xxxxxx\<close>) that follow it.\<close>

definition is_continuation :: "char \<Rightarrow> bool" where
  "is_continuation c = (of_char c div 64 = (2::nat))"

function chars :: "string \<Rightarrow> string list" where
  "chars [] = []"
| "chars (c # cs) =
     (c # takeWhile is_continuation cs) # chars (dropWhile is_continuation cs)"
  by pat_completeness auto
termination
  by (relation "measure length") (auto simp: less_Suc_eq_le length_dropWhile_le)

lemma concat_chars [simp]: "concat (chars s) = s"
  by (induction s rule: chars.induct) auto

lemma chars_eq_Nil [simp]: "chars s = [] \<longleftrightarrow> s = []"
  by (cases s) auto

subsection \<open>Saturating arithmetic on usize\<close>

definition usize_max :: nat where
  "usize_max = 2 ^ 64 - 1"

definition sat_add :: "nat \<Rightarrow> nat \<Rightarrow> nat" where
  "sat_add a b = min usize_max (a + b)"

definition sat_mul :: "nat \<Rightarrow> nat \<Rightarrow> nat" where
  "sat_mul a b = min usize_max (a * b)"

lemma sat_add_exact: "a + b \<le> usize_max \<Longrightarrow> sat_add a b = a + b"
  by (simp add: sat_add_def)

lemma sat_add_le: "sat_add a b \<le> a + b" "sat_add a b \<le> usize_max"
  by (simp_all add: sat_add_def)

lemma sat_add_mono: "a \<le> a' \<Longrightarrow> b \<le> b' \<Longrightarrow> sat_add a b \<le> sat_add a' b'"
  unfolding sat_add_def by linarith

subsection \<open>Stable sorting by a comparator\<close>

fun stable_insert :: "('a \<Rightarrow> 'a \<Rightarrow> bool) \<Rightarrow> 'a \<Rightarrow> 'a list \<Rightarrow> 'a list" where
  "stable_insert le x [] = [x]"
| "stable_insert le x (y # ys) = (if le x y then x # y # ys else y # stable_insert le x ys)"

definition stable_sort :: "('a \<Rightarrow> 'a \<Rightarrow> bool) \<Rightarrow> 'a list \<Rightarrow> 'a list" where
  "stable_sort le xs = foldr (stable_insert le) xs []"

lemma stable_sort_simps [simp]:
  "stable_sort le [] = []"
  "stable_sort le (x # xs) = stable_insert le x (stable_sort le xs)"
  by (simp_all add: stable_sort_def)

lemma mset_stable_insert [simp]: "mset (stable_insert le x ys) = {#x#} + mset ys"
  by (induction ys) auto

lemma mset_stable_sort [simp]: "mset (stable_sort le xs) = mset xs"
  by (induction xs) auto

lemma set_stable_sort [simp]: "set (stable_sort le xs) = set xs"
  using mset_stable_sort by (rule mset_eq_setD)

lemma length_stable_sort [simp]: "length (stable_sort le xs) = length xs"
  using mset_stable_sort by (rule mset_eq_length)

lemma distinct_stable_sort [simp]: "distinct (stable_sort le xs) = distinct xs"
  using mset_stable_sort by (rule mset_eq_imp_distinct_iff)

text \<open>What a comparator passed to \<open>sort_by\<close> promises, and what the sort then gives.\<close>

locale comparator =
  fixes le :: "'a \<Rightarrow> 'a \<Rightarrow> bool"
  assumes total: "le x y \<or> le y x"
    and trans: "le x y \<Longrightarrow> le y z \<Longrightarrow> le x z"
begin

lemma refl: "le x x"
  using total by blast

lemma sorted_stable_insert:
  "sorted_wrt le ys \<Longrightarrow> sorted_wrt le (stable_insert le x ys)"
proof (induction ys)
  case Nil
  then show ?case by simp
next
  case (Cons y ys)
  show ?case
  proof (cases "le x y")
    case True
    with Cons.prems show ?thesis by (auto intro: trans)
  next
    case False
    then have "le y x" using total by blast
    moreover have "set (stable_insert le x ys) = insert x (set ys)"
      by (simp add: mset_eq_setD flip: set_mset_mset)
    ultimately show ?thesis using Cons False by auto
  qed
qed

lemma sorted_stable_sort: "sorted_wrt le (stable_sort le xs)"
  by (induction xs) (auto simp: sorted_stable_insert)

text \<open>Stability: elements of one equivalence class keep their relative order.\<close>

lemma filter_stable_insert:
  assumes "\<And>a b. p a \<Longrightarrow> p b \<Longrightarrow> le a b"
  shows "filter p (stable_insert le x ys) = filter p (x # ys)"
  using assms by (induction ys) auto

lemma stable: 
  assumes "\<And>a b. p a \<Longrightarrow> p b \<Longrightarrow> le a b"
  shows "filter p (stable_sort le xs) = filter p xs"
proof (induction xs)
  case Nil
  then show ?case by simp
next
  case (Cons x xs)
  then show ?case using filter_stable_insert [OF assms, where x = x and ys = "stable_sort le xs"] by simp
qed

lemma sort_sorted: "sorted_wrt le xs \<Longrightarrow> stable_sort le xs = xs"
proof (induction xs)
  case Nil
  then show ?case by simp
next
  case (Cons x xs)
  then have "stable_sort le xs = xs" by simp
  with Cons.prems show ?case by (cases xs) auto
qed

lemma hd_least:
  assumes "stable_sort le xs = y # ys" "x \<in> set xs"
  shows "le y x"
proof -
  have "sorted_wrt le (y # ys)" using sorted_stable_sort [of xs] assms(1) by simp
  moreover have "x \<in> set (y # ys)" using assms set_stable_sort [of le xs] by simp
  ultimately show ?thesis using refl by auto
qed

end

text \<open>Sorting by a key into a linear order (\<open>sort_by_key\<close>), ascending and descending.\<close>

definition by_key :: "('a \<Rightarrow> 'k::linorder) \<Rightarrow> 'a \<Rightarrow> 'a \<Rightarrow> bool" where
  "by_key f x y = (f x \<le> f y)"

definition by_key_desc :: "('a \<Rightarrow> 'k::linorder) \<Rightarrow> 'a \<Rightarrow> 'a \<Rightarrow> bool" where
  "by_key_desc f x y = (f y \<le> f x)"

text \<open>\<open>a.cmp(b).then_with(..)\<close>: compare by the first order, ties by the second.\<close>

definition then_by :: "('a \<Rightarrow> 'a \<Rightarrow> bool) \<Rightarrow> ('a \<Rightarrow> 'a \<Rightarrow> bool) \<Rightarrow> 'a \<Rightarrow> 'a \<Rightarrow> bool" where
  "then_by le1 le2 x y = (le1 x y \<and> (le1 y x \<longrightarrow> le2 x y))"

interpretation key_asc: comparator "by_key f" for f :: "'a \<Rightarrow> 'k::linorder"
  by unfold_locales (auto simp: by_key_def)

interpretation key_desc: comparator "by_key_desc f" for f :: "'a \<Rightarrow> 'k::linorder"
  by unfold_locales (auto simp: by_key_desc_def)

lemma comparator_then_by:
  assumes "comparator le1" "comparator le2"
  shows "comparator (then_by le1 le2)"
proof -
  show ?thesis
    unfolding comparator_def then_by_def
    using assms [unfolded comparator_def] by metis
qed

subsection \<open>Appended lists\<close>

lemma those_append: "those (xs @ ys) = Option.bind (those xs) (\<lambda>a. map_option (\<lambda>b. a @ b) (those ys))"
proof (cases "those ys")
  case None
  then show ?thesis by (induction xs) (auto split: option.split bind_split)
next
  case (Some zs)
  then show ?thesis by (induction xs) (auto split: option.split bind_split)
qed

lemma find_append: "List.find p (xs @ ys) = opt_or (List.find p xs) (List.find p ys)"
  by (induction xs) auto

end
