(* ===== verification/OrdDict.thy ===== *)
theory OrdDict
  imports Prelude
begin

text \<open>
  The insertion-ordered dictionary the engine builds in many places out of a \<open>Vec\<close> of
  keys in first-seen order and a \<open>HashMap\<close> of the latest values (Python \<open>dict\<close>
  semantics: last value wins, first slot kept): \<open>value.rs deduped_pairs\<close>,
  \<open>activity.rs result_index\<close>, \<open>buckets.rs bucket_events_refs\<close>, \<open>blame.rs
  session_writes\<close>, \<open>facts.rs Tally\<close>. The locale states its contract; the
  interpretation is the pair of a key list and a map that the code maintains.
\<close>

subsection \<open>The contract\<close>

text \<open>Distinct elements in order of first occurrence.\<close>

fun first_seen :: "'a list \<Rightarrow> 'a list \<Rightarrow> 'a list" where
  "first_seen acc [] = acc"
| "first_seen acc (x # xs) = first_seen (if x \<in> set acc then acc else acc @ [x]) xs"

lemma set_first_seen [simp]: "set (first_seen acc xs) = set acc \<union> set xs"
  by (induction xs arbitrary: acc) auto

lemma distinct_first_seen [simp]: "distinct (first_seen acc xs) = distinct acc"
  by (induction xs arbitrary: acc) auto

lemma first_seen_distinct:
  "distinct xs \<Longrightarrow> set acc \<inter> set xs = {} \<Longrightarrow> first_seen acc xs = acc @ xs"
  by (induction xs arbitrary: acc) auto

lemma first_seen_append: "first_seen acc (xs @ ys) = first_seen (first_seen acc xs) ys"
  by (induction xs arbitrary: acc) auto

lemma prefix_first_seen: "prefix acc (first_seen acc xs)"
proof (induction xs arbitrary: acc)
  case Nil
  then show ?case by simp
next
  case (Cons x xs)
  show ?case
  proof (cases "x \<in> set acc")
    case True
    then show ?thesis using Cons.IH by simp
  next
    case False
    have "prefix (acc @ [x]) (first_seen (acc @ [x]) xs)" by (rule Cons.IH)
    with False show ?thesis by (auto intro: append_prefixD)
  qed
qed

lemma alist_eqI:
  assumes "map fst xs = map fst ys" "distinct (map fst xs)" "map_of xs = map_of ys"
  shows "xs = ys"
proof (rule nth_equalityI)
  show len: "length xs = length ys" using assms(1) by (metis length_map)
  fix i assume i: "i < length xs"
  have fst: "fst (xs ! i) = fst (ys ! i)" using assms(1) i len by (metis nth_map)
  have "map_of xs (fst (xs ! i)) = Some (snd (xs ! i))"
    using assms(2) i by simp
  moreover have "map_of ys (fst (ys ! i)) = Some (snd (ys ! i))"
    using assms(1,2) i len by simp
  ultimately have "snd (xs ! i) = snd (ys ! i)" using assms(3) fst by simp
  with fst show "xs ! i = ys ! i" by (rule prod_eqI)
qed

locale ordered_dict =
  fixes empty :: "'d"
    and put :: "'k \<Rightarrow> 'v \<Rightarrow> 'd \<Rightarrow> 'd"
    and look :: "'d \<Rightarrow> 'k \<Rightarrow> 'v option"
    and items :: "'d \<Rightarrow> ('k \<times> 'v) list"
    and ok :: "'d \<Rightarrow> bool"
  assumes ok_empty: "ok empty"
    and ok_put: "ok d \<Longrightarrow> ok (put k v d)"
    and look_empty: "look empty k = None"
    and look_put: "look (put k v d) = (look d)(k \<mapsto> v)"
    and items_look: "ok d \<Longrightarrow> map_of (items d) = look d"
    and distinct_items: "ok d \<Longrightarrow> distinct (map fst (items d))"
    and keys_empty: "items empty = []"
    and keys_put: "ok d \<Longrightarrow> map fst (items (put k v d)) =
       (if look d k = None then map fst (items d) @ [k] else map fst (items d))"
begin

lemma dom_look: "ok d \<Longrightarrow> dom (look d) = set (map fst (items d))"
  by (simp add: dom_map_of_conv_image_fst flip: items_look)

lemma keys_put_first_seen:
  "ok d \<Longrightarrow> map fst (items (put k v d)) = first_seen (map fst (items d)) [k]"
  using dom_look [of d] keys_put [of d k v] by (auto simp: domIff)

lemma items_eqI:
  "ok d \<Longrightarrow> map fst (items d) = map fst (items d') \<Longrightarrow> map_of (items d) = map_of (items d')
   \<Longrightarrow> items d = items d'"
  by (rule alist_eqI [OF _ distinct_items])

text \<open>Feeding a whole list of pairs, as the loops do.\<close>

definition put_all :: "('k \<times> 'v) list \<Rightarrow> 'd \<Rightarrow> 'd" where
  "put_all ps d = foldl (\<lambda>d (k, v). put k v d) d ps"

lemma put_all_simps:
  "put_all [] d = d"
  "put_all ((k, v) # ps) d = put_all ps (put k v d)"
  by (simp_all add: put_all_def)

lemma ok_put_all: "ok d \<Longrightarrow> ok (put_all ps d)"
  by (induction ps arbitrary: d) (auto simp: put_all_simps ok_put)

lemma look_put_all: "look (put_all ps d) = look d ++ map_of (rev ps)"
proof (induction ps arbitrary: d)
  case Nil
  then show ?case by (simp add: put_all_simps)
next
  case (Cons p ps)
  obtain k v where p: "p = (k, v)" by force
  have "look (put_all (p # ps) d) = (look d)(k \<mapsto> v) ++ map_of (rev ps)"
    unfolding p put_all_simps Cons.IH look_put ..
  also have "\<dots> = look d ++ map_of (rev (p # ps))"
    by (simp add: p)
  finally show ?case .
qed

lemma keys_put_all:
  "ok d \<Longrightarrow> map fst (items (put_all ps d)) = first_seen (map fst (items d)) (map fst ps)"
proof (induction ps arbitrary: d)
  case Nil
  then show ?case by (simp add: put_all_simps)
next
  case (Cons p ps)
  obtain k v where p: "p = (k, v)" by force
  show ?case using Cons.IH [OF ok_put [OF Cons.prems]] keys_put_first_seen [OF Cons.prems]
    by (simp add: p put_all_simps)
qed

text \<open>The two facts the clients use: the slots are the distinct keys in first-seen order,
  the value in a slot is the last one put under its key.\<close>

lemma keys_from_empty: "map fst (items (put_all ps empty)) = first_seen [] (map fst ps)"
  using keys_put_all [OF ok_empty] by (simp add: keys_empty)

lemma look_from_empty: "look (put_all ps empty) = map_of (rev ps)"
  by (simp add: look_put_all fun_eq_iff look_empty map_add_def split: option.split)

lemma map_of_items_from_empty: "map_of (items (put_all ps empty)) = map_of (rev ps)"
  using items_look [OF ok_put_all [OF ok_empty]] look_from_empty by simp

lemma items_distinct_keys:
  assumes "distinct (map fst ps)"
  shows "items (put_all ps empty) = ps"
proof (rule alist_eqI)
  show "map fst (items (put_all ps empty)) = map fst ps"
    using assms by (simp add: keys_from_empty first_seen_distinct)
  show "distinct (map fst (items (put_all ps empty)))"
    by (rule distinct_items [OF ok_put_all [OF ok_empty]])
  show "map_of (items (put_all ps empty)) = map_of ps"
  proof -
    have "map_of (rev ps) = map_of ps" using assms
      by (intro map_of_eqI) (auto simp: rev_map [symmetric] map_of_eq_Some_iff)
    then show ?thesis by (simp add: map_of_items_from_empty)
  qed
qed

end

subsection \<open>The implementation: a key order and a map\<close>

type_synonym ('k, 'v) odict = "'k list \<times> ('k \<rightharpoonup> 'v)"

definition od_empty :: "('k, 'v) odict" where
  "od_empty = ([], Map.empty)"

definition od_put :: "'k \<Rightarrow> 'v \<Rightarrow> ('k, 'v) odict \<Rightarrow> ('k, 'v) odict" where
  "od_put k v d = (if snd d k = None then fst d @ [k] else fst d, (snd d)(k \<mapsto> v))"

definition od_look :: "('k, 'v) odict \<Rightarrow> 'k \<Rightarrow> 'v option" where
  "od_look d = snd d"

text \<open>Reading the map at the ordered keys; every key of the order is in the map
  (\<open>od_ok\<close>), so the code's indexing never misses.\<close>

definition od_items :: "('k, 'v) odict \<Rightarrow> ('k \<times> 'v) list" where
  "od_items d = List.map_filter (\<lambda>k. map_option (Pair k) (snd d k)) (fst d)"

definition od_ok :: "('k, 'v) odict \<Rightarrow> bool" where
  "od_ok d \<longleftrightarrow> distinct (fst d) \<and> set (fst d) = dom (snd d)"

lemma map_fst_od_items: "set ks \<subseteq> dom m \<Longrightarrow>
    map fst (List.map_filter (\<lambda>k. map_option (Pair k) (m k)) ks) = ks"
  by (induction ks) (auto simp: List.map_filter_simps)

lemma map_of_od_items:
  "map_of (List.map_filter (\<lambda>k. map_option (Pair k) (m k)) ks) =
     (\<lambda>k. if k \<in> set ks then m k else None)"
  by (induction ks) (auto simp: List.map_filter_simps fun_eq_iff split: option.splits)

interpretation od: ordered_dict od_empty od_put od_look od_items od_ok
proof
  fix d :: "('k, 'v) odict" and k v
  show "od_ok d \<Longrightarrow> od_ok (od_put k v d)"
    by (auto simp: od_ok_def od_put_def)
  show "od_ok d \<Longrightarrow> map_of (od_items d) = od_look d"
    by (auto simp: od_ok_def od_items_def od_look_def map_of_od_items fun_eq_iff)
  show keys: "od_ok d \<Longrightarrow> distinct (map fst (od_items d))"
    by (simp add: od_ok_def od_items_def map_fst_od_items)
  show "od_ok d \<Longrightarrow> map fst (od_items (od_put k v d)) =
     (if od_look d k = None then map fst (od_items d) @ [k] else map fst (od_items d))"
    unfolding od_ok_def od_items_def od_put_def od_look_def
    by (subst map_fst_od_items) (auto simp: map_fst_od_items)
qed (auto simp: od_ok_def od_empty_def od_look_def od_put_def od_items_def
      List.map_filter_simps)

text \<open>A loop that puts one pair after the other, and the two facts about it.\<close>

definition od_of :: "('k \<times> 'v) list \<Rightarrow> ('k, 'v) odict" where
  "od_of ps = foldl (\<lambda>d (k, v). od_put k v d) od_empty ps"

lemma od_of_put_all: "od_of ps = od.put_all ps od_empty"
  by (simp add: od_of_def od.put_all_def)

lemma keys_od_of: "map fst (od_items (od_of ps)) = first_seen [] (map fst ps)"
  by (simp add: od_of_put_all od.keys_from_empty)

lemma look_od_of: "od_look (od_of ps) = map_of (rev ps)"
  by (simp add: od_of_put_all od.look_from_empty)

lemma map_of_od_of: "map_of (od_items (od_of ps)) = map_of (rev ps)"
  by (simp add: od_of_put_all od.map_of_items_from_empty)

lemma od_of_distinct: "distinct (map fst ps) \<Longrightarrow> od_items (od_of ps) = ps"
  by (simp add: od_of_put_all od.items_distinct_keys)

lemma distinct_od_of: "distinct (map fst (od_items (od_of ps)))"
  by (simp add: keys_od_of)

end
