(* ===== verification/Json.thy ===== *)
theory Json
  imports OrdDict Complex_Main
begin

text \<open>
  \<open>value.rs\<close>: the JSON value a transcript line decodes to, its accessors, and the
  collapse of duplicate object keys to Python's last-wins semantics. The decoder is the
  sonic-rs crate: a number node carries the views its accessors answer (raw text, \<open>i64\<close>,
  \<open>u64\<close>, \<open>f64\<close> as the rational it denotes), an object keeps every pair of the
  source in order, duplicates included. What the code takes from other crates is a field of
  the record \<open>env\<close>, an argument of the definitions that use it.
\<close>

subsection \<open>Values\<close>

record jnumber =
  num_raw :: "string option"
  num_i64 :: "int option"
  num_u64 :: "nat option"
  num_f64 :: "rat option"

datatype json =
    JNull
  | JBool bool
  | JNumber jnumber
  | JString string
  | JArray "json list"
  | JObject "(string \<times> json) list"

definition as_str :: "json \<Rightarrow> string option" where
  "as_str v = (case v of JString s \<Rightarrow> Some s | _ \<Rightarrow> None)"

definition as_bool :: "json \<Rightarrow> bool option" where
  "as_bool v = (case v of JBool b \<Rightarrow> Some b | _ \<Rightarrow> None)"

definition as_i64 :: "json \<Rightarrow> int option" where
  "as_i64 v = (case v of JNumber n \<Rightarrow> num_i64 n | _ \<Rightarrow> None)"

definition as_u64 :: "json \<Rightarrow> nat option" where
  "as_u64 v = (case v of JNumber n \<Rightarrow> num_u64 n | _ \<Rightarrow> None)"

definition as_f64 :: "json \<Rightarrow> rat option" where
  "as_f64 v = (case v of JNumber n \<Rightarrow> num_f64 n | _ \<Rightarrow> None)"

definition as_raw_number :: "json \<Rightarrow> string option" where
  "as_raw_number v = (case v of JNumber n \<Rightarrow> num_raw n | _ \<Rightarrow> None)"

definition as_array :: "json \<Rightarrow> json list option" where
  "as_array v = (case v of JArray xs \<Rightarrow> Some xs | _ \<Rightarrow> None)"

definition as_object :: "json \<Rightarrow> (string \<times> json) list option" where
  "as_object v = (case v of JObject ps \<Rightarrow> Some ps | _ \<Rightarrow> None)"

definition is_object :: "json \<Rightarrow> bool" where
  "is_object v = (as_object v \<noteq> None)"

definition is_null :: "json \<Rightarrow> bool" where
  "is_null v = (v = JNull)"

lemmas json_accessors =
  as_str_def as_bool_def as_i64_def as_u64_def as_f64_def as_raw_number_def as_array_def
  as_object_def is_object_def is_null_def

lemma json_accessors_simps [simp]:
  "as_str (JString s) = Some s" "as_str JNull = None" "as_str (JBool b) = None"
  "as_str (JNumber n) = None" "as_str (JArray xs) = None" "as_str (JObject ps) = None"
  "as_array (JArray xs) = Some xs" "as_array JNull = None" "as_array (JBool b) = None"
  "as_array (JNumber n) = None" "as_array (JString s) = None" "as_array (JObject ps) = None"
  "as_object (JObject ps) = Some ps" "as_object JNull = None" "as_object (JBool b) = None"
  "as_object (JNumber n) = None" "as_object (JString s) = None" "as_object (JArray xs) = None"
  "as_bool (JBool b) = Some b" "as_i64 (JNumber n) = num_i64 n" "as_bool (JString s) = None"
  "is_object (JObject ps)" "\<not> is_object JNull" "\<not> is_object (JString s)" "\<not> is_object (JArray xs)"
  "is_null JNull" "\<not> is_null (JObject ps)" "\<not> is_null (JString s)" "\<not> is_null (JArray xs)"
  by (simp_all add: json_accessors)

text \<open>\<open>value_index_into\<close> of a key: the first pair under that key, nothing on a
  non-object.\<close>

definition field :: "json \<Rightarrow> string \<Rightarrow> json option" where
  "field data key = (case data of JObject ps \<Rightarrow> map_of ps key | _ \<Rightarrow> None)"

lemma field_simps [simp]:
  "field (JObject ps) k = map_of ps k" "field JNull k = None" "field (JBool b) k = None"
  "field (JNumber n) k = None" "field (JString s) k = None" "field (JArray xs) k = None"
  by (simp_all add: field_def)

definition field_str :: "json \<Rightarrow> string \<Rightarrow> string option" where
  "field_str data key = Option.bind (field data key) as_str"

definition field_bool :: "json \<Rightarrow> string \<Rightarrow> bool" where
  "field_bool data key = opt_default False (Option.bind (field data key) as_bool)"

text \<open>Python \<open>bool(x)\<close>.\<close>

definition is_py_truthy :: "json \<Rightarrow> bool" where
  "is_py_truthy v = (case v of
      JNull \<Rightarrow> False
    | JBool b \<Rightarrow> b
    | JNumber n \<Rightarrow> (case num_f64 n of None \<Rightarrow> True | Some f \<Rightarrow> f \<noteq> 0)
    | JString s \<Rightarrow> s \<noteq> []
    | JArray xs \<Rightarrow> xs \<noteq> []
    | JObject ps \<Rightarrow> ps \<noteq> [])"

definition field_truthy :: "json \<Rightarrow> string \<Rightarrow> bool" where
  "field_truthy data key = is_some_and is_py_truthy (field data key)"

definition block_type :: "json \<Rightarrow> string option" where
  "block_type block = field_str block ''type''"

lemma field_str_Some_iff: "field_str d k = Some s \<longleftrightarrow> field d k = Some (JString s)"
  by (cases "field d k") (auto simp: field_str_def as_str_def split: json.splits)

subsection \<open>The other crates\<close>

text \<open>A chrono \<open>DateTime<FixedOffset>\<close>: the UTC instant and the offset. Comparison is
  by the instant.\<close>

record datetime =
  dt_secs :: int
  dt_nanos :: nat
  dt_offset :: int

definition dt_instant :: "datetime \<Rightarrow> int" where
  "dt_instant t = dt_secs t * 10 ^ 9 + int (dt_nanos t)"

record env =
  e_encode :: "json \<Rightarrow> string"               \<comment> \<open>\<open>sonic_rs::to_string\<close> of a leaf value or key\<close>
  e_from_str :: "string \<Rightarrow> json option"      \<comment> \<open>\<open>sonic_rs::from_str\<close> and \<open>from_slice\<close>\<close>
  e_rfc3339 :: "string \<Rightarrow> datetime option"   \<comment> \<open>\<open>DateTime::parse_from_rfc3339\<close>\<close>
  e_year :: "datetime \<Rightarrow> int"                \<comment> \<open>\<open>Datelike::year\<close>\<close>
  e_interrupt_re :: "string \<Rightarrow> string option" \<comment> \<open>\<open>INTERRUPT_MARKER_RE.find\<close>\<close>
  e_injection_re :: "string \<Rightarrow> bool"         \<comment> \<open>\<open>AGENT_INJECTION_RE.is_match\<close>\<close>
  e_regex :: "string \<Rightarrow> (string \<Rightarrow> bool) option" \<comment> \<open>\<open>Regex::new\<close>, then \<open>is_match\<close>\<close>
  e_lower :: "string \<Rightarrow> string"              \<comment> \<open>\<open>str::to_lowercase\<close>, the Unicode tables\<close>

subsection \<open>Duplicate keys\<close>

text \<open>\<open>subtree_has_duplicate_keys\<close>: the object loop keeps the keys seen so far.\<close>

fun subtree_has_duplicate_keys :: "json \<Rightarrow> bool"
  and object_has_duplicate_keys :: "string list \<Rightarrow> (string \<times> json) list \<Rightarrow> bool"
  and any_has_duplicate_keys :: "json list \<Rightarrow> bool" where
  "subtree_has_duplicate_keys (JObject ps) = object_has_duplicate_keys [] ps"
| "subtree_has_duplicate_keys (JArray xs) = any_has_duplicate_keys xs"
| "subtree_has_duplicate_keys _ = False"
| "object_has_duplicate_keys seen [] = False"
| "object_has_duplicate_keys seen ((key, item) # ps) =
     (if key \<in> set seen \<or> subtree_has_duplicate_keys item then True
      else object_has_duplicate_keys (seen @ [key]) ps)"
| "any_has_duplicate_keys [] = False"
| "any_has_duplicate_keys (x # xs) = (subtree_has_duplicate_keys x \<or> any_has_duplicate_keys xs)"

definition deduped_pairs :: "(string \<times> json) list \<Rightarrow> (string \<times> json) list" where
  "deduped_pairs object = od_items (od_of object)"

text \<open>The structural specification of the collapse: last value wins, first slot kept, at
  every level. The code reaches it through a re-serialisation.\<close>

fun last_wins :: "json \<Rightarrow> json" where
  "last_wins (JObject ps) = JObject (deduped_pairs (map (\<lambda>(k, v). (k, last_wins v)) ps))"
| "last_wins (JArray xs) = JArray (map last_wins xs)"
| "last_wins v = v"

text \<open>\<open>write_deduped\<close>: the compact text of the collapsed value; leaves and keys through
  sonic's encoder.\<close>

definition write_comma :: "string list \<Rightarrow> string" where
  "write_comma = join '',''"

lemma deduped_pairs_subset:
  "set (deduped_pairs ps) \<subseteq> set ps"
proof
  fix x assume "x \<in> set (deduped_pairs ps)"
  moreover have "distinct (map fst (deduped_pairs ps))"
    by (simp add: deduped_pairs_def distinct_od_of)
  ultimately have "map_of (deduped_pairs ps) (fst x) = Some (snd x)"
    by (simp add: map_of_eq_Some_iff)
  then have "map_of (rev ps) (fst x) = Some (snd x)"
    by (simp add: deduped_pairs_def map_of_od_of)
  then have "(fst x, snd x) \<in> set (rev ps)" by (rule map_of_SomeD)
  then show "x \<in> set ps" by simp
qed

lemma size_deduped_pair:
  assumes "(k, v) \<in> set (deduped_pairs ps)"
  shows "size v < Suc (size_list (size_prod (\<lambda>_. 0) size) ps)"
proof -
  have "(k, v) \<in> set ps" using assms deduped_pairs_subset by blast
  then have "size_prod (\<lambda>_. 0) size (k, v) \<le> size_list (size_prod (\<lambda>_. 0) size) ps"
    by (rule size_list_estimation') simp
  then show ?thesis by simp
qed

function write_deduped :: "env \<Rightarrow> json \<Rightarrow> string" where
  "write_deduped env (JObject ps) =
     ''{'' @ write_comma (map (\<lambda>(key, item). e_encode env (JString key) @ '':'' @ write_deduped env item)
       (deduped_pairs ps)) @ ''}''"
| "write_deduped env (JArray xs) = ''['' @ write_comma (map (write_deduped env) xs) @ '']''"
| "write_deduped env JNull = e_encode env JNull"
| "write_deduped env (JBool b) = e_encode env (JBool b)"
| "write_deduped env (JNumber n) = e_encode env (JNumber n)"
| "write_deduped env (JString s) = e_encode env (JString s)"
  by pat_completeness auto
termination
  by (relation "measure (\<lambda>(env, v). size v)")
    (auto dest: size_deduped_pair simp: less_Suc_eq_le size_list_estimation')

text \<open>The compact printer of a value, for the statement: no collapse.\<close>

fun print_json :: "env \<Rightarrow> json \<Rightarrow> string" where
  "print_json env (JObject ps) =
     ''{'' @ write_comma (map (\<lambda>(key, item). e_encode env (JString key) @ '':'' @ print_json env item)
       ps) @ ''}''"
| "print_json env (JArray xs) = ''['' @ write_comma (map (print_json env) xs) @ '']''"
| "print_json env v = e_encode env v"

text \<open>The failure values of the parse: the two \<open>ParseError\<close> variants (the messages of
  \<open>Value\<close> as constructors) and the panic of \<open>expect("re-serialized JSON reparses")\<close>.\<close>

datatype value_error =
    InvalidTimestamp string
  | LeapSecond string
  | ContentShape
  | ResultContentShape string
  | EnvelopeNotArray
  | EnvelopeNoResult
  | NotConversational string

datatype parse_error =
    PKey string
  | PValue value_error
  | ReparsePanic

definition deduplicated :: "env \<Rightarrow> json \<Rightarrow> parse_error + (json \<times> nat) option" where
  "deduplicated env value =
     (if subtree_has_duplicate_keys value then
        (let out = write_deduped env value in
         case e_from_str env out of
           None \<Rightarrow> Inl ReparsePanic
         | Some normalized \<Rightarrow> Inr (Some (normalized, length out)))
      else Inr None)"

definition normalize_last_wins :: "env \<Rightarrow> json \<Rightarrow> parse_error + json" where
  "normalize_last_wins env value =
     res_bind (deduplicated env value) (\<lambda>r. case r of
       Some (normalized, _) \<Rightarrow> Inr normalized
     | None \<Rightarrow> Inr value)"

definition normalized_owned :: "env \<Rightarrow> json \<Rightarrow> parse_error + json" where
  "normalized_owned env value = normalize_last_wins env value"

subsection \<open>The collapse is the last-wins value\<close>

lemma first_seen_filter_map_of:
  "map fst (deduped_pairs ps) = first_seen [] (map fst ps)"
  by (simp add: deduped_pairs_def keys_od_of)

lemma map_of_deduped_pairs: "map_of (deduped_pairs ps) = map_of (rev ps)"
  by (simp add: deduped_pairs_def map_of_od_of)

lemma distinct_deduped_pairs: "distinct (map fst (deduped_pairs ps))"
  by (simp add: deduped_pairs_def distinct_od_of)

lemma deduped_pairs_distinct: "distinct (map fst ps) \<Longrightarrow> deduped_pairs ps = ps"
  by (simp add: deduped_pairs_def od_of_distinct)

lemma deduped_pairs_map:
  "deduped_pairs (map (\<lambda>(k, v). (k, f v)) ps) = map (\<lambda>(k, v). (k, f v)) (deduped_pairs ps)"
proof (rule alist_eqI)
  have fst: "map fst (map (\<lambda>(k, v). (k, f v)) qs) = map fst qs" for qs :: "(string \<times> json) list"
    by (induction qs) auto
  have mo: "map_of (map (\<lambda>(k, v). (k, f v)) qs) = map_option f \<circ> map_of qs"
    for qs :: "(string \<times> json) list"
    by (induction qs) (auto simp: fun_eq_iff)
  show "map fst (deduped_pairs (map (\<lambda>(k, v). (k, f v)) ps)) =
        map fst (map (\<lambda>(k, v). (k, f v)) (deduped_pairs ps))"
    by (simp only: fst first_seen_filter_map_of)
  show "distinct (map fst (deduped_pairs (map (\<lambda>(k, v). (k, f v)) ps)))"
    by (rule distinct_deduped_pairs)
  show "map_of (deduped_pairs (map (\<lambda>(k, v). (k, f v)) ps)) =
        map_of (map (\<lambda>(k, v). (k, f v)) (deduped_pairs ps))"
    by (simp only: map_of_deduped_pairs mo rev_map)
qed

lemma object_has_duplicate_keys_iff:
  "object_has_duplicate_keys seen ps \<longleftrightarrow>
     \<not> (distinct (map fst ps) \<and> set seen \<inter> set (map fst ps) = {} \<and>
        (\<forall>(k, v)\<in>set ps. \<not> subtree_has_duplicate_keys v))"
proof (induction ps arbitrary: seen)
  case Nil
  then show ?case by simp
next
  case (Cons p ps)
  obtain a b where p: "p = (a, b)" by force
  have "object_has_duplicate_keys seen (p # ps) \<longleftrightarrow>
      a \<in> set seen \<or> subtree_has_duplicate_keys b \<or> object_has_duplicate_keys (seen @ [a]) ps"
    by (simp add: p)
  then show ?case unfolding Cons.IH by (simp add: p) blast
qed

lemma any_has_duplicate_keys_iff:
  "any_has_duplicate_keys xs \<longleftrightarrow> (\<exists>x\<in>set xs. subtree_has_duplicate_keys x)"
  by (induction xs) auto

lemma last_wins_no_duplicates: "\<not> subtree_has_duplicate_keys (last_wins v)"
proof (induction v rule: last_wins.induct)
  case (1 ps)
  let ?qs = "map (\<lambda>(k, v). (k, last_wins v)) ps"
  have "\<not> subtree_has_duplicate_keys w" if "(k, w) \<in> set (deduped_pairs ?qs)" for k w
  proof -
    have "(k, w) \<in> set ?qs" using that deduped_pairs_subset by blast
    then show ?thesis using "1.IH" by auto
  qed
  then show ?case
    by (auto simp: object_has_duplicate_keys_iff distinct_deduped_pairs)
qed (auto simp: any_has_duplicate_keys_iff)

lemma last_wins_id: "\<not> subtree_has_duplicate_keys v \<Longrightarrow> last_wins v = v"
proof (induction v rule: last_wins.induct)
  case (1 ps)
  then have d: "distinct (map fst ps)" and n: "\<forall>(k, v)\<in>set ps. last_wins v = v"
    by (fastforce simp: object_has_duplicate_keys_iff)+
  from n have "map (\<lambda>(k, v). (k, last_wins v)) ps = ps"
    by (intro map_idI) auto
  with d show ?case by (simp add: deduped_pairs_distinct)
next
  case (2 xs)
  then show ?case by (auto simp: any_has_duplicate_keys_iff intro!: map_idI)
qed auto

lemma last_wins_idem: "last_wins (last_wins v) = last_wins v"
  by (rule last_wins_id [OF last_wins_no_duplicates])

lemma write_deduped_print: "write_deduped env v = print_json env (last_wins v)"
proof (induction env v rule: write_deduped.induct)
  case (1 env ps)
  have "map (\<lambda>(key, item). e_encode env (JString key) @ '':'' @ write_deduped env item) (deduped_pairs ps)
    = map (\<lambda>(key, item). e_encode env (JString key) @ '':'' @ print_json env (last_wins item))
        (deduped_pairs ps)"
    using "1.IH" by (intro map_cong) auto
  moreover have "last_wins (JObject ps) = JObject (map (\<lambda>(k, v). (k, last_wins v)) (deduped_pairs ps))"
    by (simp only: last_wins.simps deduped_pairs_map)
  ultimately show ?case by (simp add: comp_def case_prod_unfold cong: map_cong)
next
  case (2 env xs)
  then show ?case by (simp add: comp_def cong: map_cong)
qed auto

text \<open>What the code relies on of the JSON crate at one value: the compact text of a
  duplicate-free value parses back to it, in order.\<close>

definition reparses :: "env \<Rightarrow> json \<Rightarrow> bool" where
  "reparses env v \<longleftrightarrow> e_from_str env (print_json env v) = Some v"

lemma deduplicated_last_wins:
  assumes "reparses env (last_wins v)"
  shows "deduplicated env v =
     Inr (if subtree_has_duplicate_keys v
          then Some (last_wins v, length (print_json env (last_wins v))) else None)"
  using assms by (simp add: deduplicated_def write_deduped_print reparses_def Let_def)

lemma normalized_owned_last_wins:
  assumes "subtree_has_duplicate_keys v \<Longrightarrow> reparses env (last_wins v)"
  shows "normalized_owned env v = Inr (last_wins v)"
proof (cases "subtree_has_duplicate_keys v")
  case True
  with assms show ?thesis
    by (simp add: normalized_owned_def normalize_last_wins_def deduplicated_last_wins)
next
  case False
  then show ?thesis
    by (simp add: normalized_owned_def normalize_last_wins_def deduplicated_def last_wins_id)
qed

lemma field_last_wins:
  "field (last_wins (JObject ps)) k = map_option last_wins (map_of (rev ps) k)"
proof -
  have "map_of (map (\<lambda>(k, v). (k, last_wins v)) qs) = map_option last_wins \<circ> map_of qs"
    for qs :: "(string \<times> json) list"
    by (induction qs) (auto simp: fun_eq_iff)
  then show ?thesis by (simp add: map_of_deduped_pairs rev_map)
qed

text \<open>\<open>snapshot_memory.rs pins_arena\<close>: whether a clone of the value keeps its arena.\<close>

definition pins_arena :: "json \<Rightarrow> bool" where
  "pins_arena v = (case v of
      JNull \<Rightarrow> False | JBool _ \<Rightarrow> False
    | JArray xs \<Rightarrow> xs \<noteq> [] | JObject ps \<Rightarrow> ps \<noteq> []
    | JNumber _ \<Rightarrow> True | JString _ \<Rightarrow> True)"

end
