(* ===== verification/PyStr.thy ===== *)
theory PyStr
  imports Prelude
begin

text \<open>
  \<open>pystr.rs\<close>: Python \<open>str\<close> whitespace. A character is one UTF-8 chunk of
  \<^const>\<open>chars\<close>; \<open>char::is_whitespace\<close> is membership in Unicode's White_Space set,
  spelled out as its 25 UTF-8 sequences.
\<close>

definition byte :: "nat \<Rightarrow> char" where
  "byte n = char_of n"

lemmas byte_unfold = byte_def char_of_def bit_0

lemma byte_eval:
  "byte 9 = CHR 0x09" "byte 10 = CHR 0x0A" "byte 12 = CHR 0x0C" "byte 13 = CHR 0x0D"
  "byte 32 = CHR 0x20" "byte 34 = CHR 0x22" "byte 39 = CHR 0x27"
  by (simp_all add: byte_unfold)

definition unicode_white_space :: "string list" where
  "unicode_white_space =
     map (\<lambda>n. [byte n]) [9, 10, 11, 12, 13, 32] @
     [[byte 194, byte 133], [byte 194, byte 160], [byte 225, byte 154, byte 128]] @
     map (\<lambda>n. [byte 226, byte 128, byte n]) [128, 129, 130, 131, 132, 133, 134, 135, 136, 137, 138,
       168, 169, 175] @
     [[byte 226, byte 129, byte 159], [byte 227, byte 128, byte 128]]"

definition is_whitespace :: "string \<Rightarrow> bool" where
  "is_whitespace c = (c \<in> set unicode_white_space)"

definition is_space :: "string \<Rightarrow> bool" where
  "is_space c = (is_whitespace c \<or> c \<in> {[byte 28], [byte 29], [byte 30], [byte 31]})"

text \<open>\<open>trim_start_matches\<close>, \<open>trim_end_matches\<close>, \<open>trim_matches\<close> with a
  character predicate.\<close>

definition trim_start :: "(string \<Rightarrow> bool) \<Rightarrow> string \<Rightarrow> string" where
  "trim_start p s = concat (dropWhile p (chars s))"

definition trim_end :: "(string \<Rightarrow> bool) \<Rightarrow> string \<Rightarrow> string" where
  "trim_end p s = concat (rev (dropWhile p (rev (chars s))))"

definition trim_both :: "(string \<Rightarrow> bool) \<Rightarrow> string \<Rightarrow> string" where
  "trim_both p s = concat (rev (dropWhile p (rev (dropWhile p (chars s)))))"

definition strip :: "string \<Rightarrow> string" where
  "strip s = trim_both is_space s"

definition lstrip :: "string \<Rightarrow> string" where
  "lstrip s = trim_start is_space s"

definition rstrip :: "string \<Rightarrow> string" where
  "rstrip s = trim_end is_space s"

text \<open>\<open>str::trim\<close>: the Unicode White_Space trim.\<close>

definition trim :: "string \<Rightarrow> string" where
  "trim s = trim_both is_whitespace s"

text \<open>\<open>str::split\<close> with a character predicate, over the character chunks.\<close>

fun split_chunks :: "(string \<Rightarrow> bool) \<Rightarrow> string list \<Rightarrow> string list" where
  "split_chunks p [] = [[]]"
| "split_chunks p (c # cs) =
     (if p c then [] # split_chunks p cs
      else (case split_chunks p cs of [] \<Rightarrow> [c] | w # ws \<Rightarrow> (c @ w) # ws))"

definition split_pred :: "(string \<Rightarrow> bool) \<Rightarrow> string \<Rightarrow> string list" where
  "split_pred p s = split_chunks p (chars s)"

definition split_whitespace :: "string \<Rightarrow> string list" where
  "split_whitespace s = filter (\<lambda>w. w \<noteq> []) (split_pred is_space s)"

subsection \<open>Segmentation of a concatenation\<close>

text \<open>A well-formed character starts with a byte that is not a continuation byte.\<close>

definition starts_char :: "string \<Rightarrow> bool" where
  "starts_char s = (case s of [] \<Rightarrow> True | c # _ \<Rightarrow> \<not> is_continuation c)"

lemma takeWhile_all: "\<forall>x\<in>set xs. p x \<Longrightarrow> takeWhile p xs = xs"
  by (induction xs) auto

lemma takeWhile_idem: "takeWhile p (takeWhile p xs) = takeWhile p xs"
  by (rule takeWhile_all) (auto dest: set_takeWhileD)

lemma dropWhile_takeWhile_Nil: "dropWhile p (takeWhile p xs) = []"
  by (induction xs) auto

lemma starts_char_dropWhile: "starts_char (dropWhile is_continuation cs)"
  by (induction cs) (auto simp: starts_char_def)

lemma chars_append: "starts_char t \<Longrightarrow> chars (s @ t) = chars s @ chars t"
proof (induction s rule: chars.induct)
  case 1
  then show ?case by simp
next
  case (2 c cs)
  have tail: "takeWhile is_continuation t = []" "dropWhile is_continuation t = t"
    using 2 by (cases t; simp add: starts_char_def)+
  show ?case
  proof (cases "\<forall>x\<in>set cs. is_continuation x")
    case True
    then have d: "dropWhile is_continuation cs = []" by simp
    have t: "takeWhile is_continuation cs = cs" by (rule takeWhile_all [OF True])
    have "takeWhile is_continuation (cs @ t) = cs" "dropWhile is_continuation (cs @ t) = t"
      using tail True by (simp_all add: takeWhile_append dropWhile_append t)
    then show ?thesis by (simp only: append_Cons chars.simps d t) simp
  next
    case False
    then have "takeWhile is_continuation (cs @ t) = takeWhile is_continuation cs"
      "dropWhile is_continuation (cs @ t) = dropWhile is_continuation cs @ t"
      by (auto simp: takeWhile_append dropWhile_append)
    with 2 show ?thesis by simp
  qed
qed

lemma chars_chunk_starts: "starts_char s \<Longrightarrow> c \<in> set (chars s) \<Longrightarrow> starts_char c"
proof (induction s rule: chars.induct)
  case 1
  then show ?case by simp
next
  case (2 a cs)
  have "starts_char (dropWhile is_continuation cs)"
    by (rule starts_char_dropWhile)
  with 2 show ?case by (auto simp: starts_char_def)
qed

lemma chars_chunk_ne: "c \<in> set (chars s) \<Longrightarrow> c \<noteq> []"
  by (induction s rule: chars.induct) auto

lemma chars_chunk: "starts_char s \<Longrightarrow> c \<in> set (chars s) \<Longrightarrow> chars c = [c]"
proof (induction s rule: chars.induct)
  case 1
  then show ?case by simp
next
  case (2 a cs)
  have rest: "starts_char (dropWhile is_continuation cs)"
    by (rule starts_char_dropWhile)
  show ?case
  proof (cases "c = a # takeWhile is_continuation cs")
    case True
    show ?thesis unfolding True chars.simps takeWhile_idem dropWhile_takeWhile_Nil ..
  next
    case False
    with "2.prems"(2) have "c \<in> set (chars (dropWhile is_continuation cs))" by simp
    then show ?thesis by (rule "2.IH" [OF rest])
  qed
qed

text \<open>Re-segmenting a concatenation of characters gives those characters back.\<close>

definition char_list :: "string list \<Rightarrow> bool" where
  "char_list cs \<longleftrightarrow> (\<forall>c\<in>set cs. starts_char c \<and> chars c = [c])"

lemma char_list_chars: "starts_char s \<Longrightarrow> char_list (chars s)"
  unfolding char_list_def using chars_chunk chars_chunk_starts by blast

lemma starts_char_concat: "char_list cs \<Longrightarrow> starts_char (concat cs)"
proof (induction cs)
  case Nil
  then show ?case by (simp add: starts_char_def)
next
  case (Cons c cs)
  then have "c \<noteq> []" by (auto simp: char_list_def)
  with Cons.prems show ?case by (cases c) (auto simp: starts_char_def char_list_def)
qed

lemma chars_concat: "char_list cs \<Longrightarrow> chars (concat cs) = cs"
proof (induction cs)
  case Nil
  then show ?case by simp
next
  case (Cons c cs)
  then have "char_list cs" by (simp add: char_list_def)
  then show ?case using Cons by (simp add: chars_append starts_char_concat char_list_def)
qed

subsection \<open>Stripping\<close>

lemma dropWhile_idem: "dropWhile p (dropWhile p xs) = dropWhile p xs"
  by (induction xs) auto

lemma hd_dropWhile_not: "dropWhile p xs \<noteq> [] \<Longrightarrow> \<not> p (hd (dropWhile p xs))"
  by (rule hd_dropWhile)

lemma char_list_subset: "char_list cs \<Longrightarrow> set ds \<subseteq> set cs \<Longrightarrow> char_list ds"
  by (auto simp: char_list_def)

lemma set_trimmed:
  "set (rev (dropWhile p (rev (dropWhile p xs)))) \<subseteq> set xs"
  using set_dropWhileD [of _ p xs] set_dropWhileD [of _ p "rev (dropWhile p xs)"] by auto

lemma chars_trim_both:
  assumes "starts_char s"
  shows "chars (trim_both p s) = rev (dropWhile p (rev (dropWhile p (chars s))))"
  unfolding trim_both_def
  by (rule chars_concat, rule char_list_subset [OF char_list_chars [OF assms] set_trimmed])

lemma hd_rev_dropWhile_rev:
  assumes "dropWhile p (rev a) \<noteq> []"
  shows "hd (rev (dropWhile p (rev a))) = hd a"
proof -
  obtain t where t: "t = dropWhile p (rev a)" by blast
  have "rev a = takeWhile p (rev a) @ t" unfolding t by simp
  then have "a = rev t @ rev (takeWhile p (rev a))" by (metis rev_append rev_rev_ident)
  moreover have "rev t \<noteq> []" using assms t by simp
  ultimately show ?thesis unfolding t [symmetric] by (metis hd_append2)
qed

text \<open>The trimmed text neither starts nor ends with a matching character.\<close>

lemma trim_both_ends:
  assumes "starts_char s" "chars (trim_both p s) \<noteq> []"
  shows "\<not> p (hd (chars (trim_both p s))) \<and> \<not> p (last (chars (trim_both p s)))"
proof -
  let ?a = "dropWhile p (chars s)" and ?b = "dropWhile p (rev (dropWhile p (chars s)))"
  have b: "chars (trim_both p s) = rev ?b" by (rule chars_trim_both [OF assms(1)])
  with assms(2) have ne: "?b \<noteq> []" by simp
  have l: "\<not> p (last (rev ?b))" using ne hd_dropWhile [of p "rev ?a"] by (simp add: last_rev)
  have "?a \<noteq> []"
  proof
    assume "?a = []"
    then have "?b = []" by (simp only: rev.simps dropWhile.simps)
    with ne show False by contradiction
  qed
  then have ha: "\<not> p (hd ?a)" by (rule hd_dropWhile)
  have "hd (rev ?b) = hd ?a" by (rule hd_rev_dropWhile_rev [OF ne])
  then show ?thesis using ha l b by simp
qed

lemma trim_both_idem:
  assumes "starts_char s"
  shows "trim_both p (trim_both p s) = trim_both p s"
proof (cases "chars (trim_both p s) = []")
  case True
  then have "trim_both p s = []" by simp
  moreover have "trim_both p [] = []" by (simp add: trim_both_def)
  ultimately show ?thesis by (simp only:)
next
  case False
  let ?c = "chars (trim_both p s)"
  have ends: "\<not> p (hd ?c)" "\<not> p (last ?c)" using trim_both_ends [OF assms False] by auto
  have "dropWhile p ?c = ?c" using ends(1) False by (cases ?c) auto
  moreover have "dropWhile p (rev ?c) = rev ?c"
    using ends(2) False by (cases "rev ?c") (auto simp: hd_rev [symmetric])
  ultimately have "trim_both p (trim_both p s) = concat ?c"
    unfolding trim_both_def [of p "trim_both p s"] by simp
  then show ?thesis by simp
qed

lemma strip_idem: "starts_char s \<Longrightarrow> strip (strip s) = strip s"
  by (simp add: strip_def trim_both_idem)

lemma concat_ne_Nil: "\<forall>c\<in>set cs. c \<noteq> [] \<Longrightarrow> concat cs = [] \<longleftrightarrow> cs = []"
  by (cases cs) auto

lemma trimmed_eq_Nil:
  "dropWhile p (rev (dropWhile p xs)) = [] \<longleftrightarrow> (\<forall>x\<in>set xs. p x)"
proof
  assume a: "dropWhile p (rev (dropWhile p xs)) = []"
  show "\<forall>x\<in>set xs. p x"
  proof (cases "dropWhile p xs")
    case Nil
    then show ?thesis by (simp add: dropWhile_eq_Nil_conv)
  next
    case (Cons y ys)
    then have "\<not> p y" using hd_dropWhile [of p xs] by simp
    moreover have "\<forall>x\<in>set (rev (dropWhile p xs)). p x" using a by (simp only: dropWhile_eq_Nil_conv)
    ultimately show ?thesis using Cons by simp
  qed
next
  assume "\<forall>x\<in>set xs. p x"
  then have "dropWhile p xs = []" by (simp add: dropWhile_eq_Nil_conv)
  then show "dropWhile p (rev (dropWhile p xs)) = []" by (simp only: rev.simps dropWhile.simps)
qed

lemma strip_eq_Nil: "strip s = [] \<longleftrightarrow> (\<forall>c\<in>set (chars s). is_space c)"
proof -
  let ?t = "rev (dropWhile is_space (rev (dropWhile is_space (chars s))))"
  have ne: "\<forall>c\<in>set ?t. c \<noteq> []" using chars_chunk_ne [of _ s] set_trimmed [of is_space "chars s"] by (meson subsetD)
  then have "concat ?t = [] \<longleftrightarrow> ?t = []" by (rule concat_ne_Nil)
  then show ?thesis
    unfolding strip_def trim_both_def by (simp only: rev_is_Nil_conv trimmed_eq_Nil)
qed

subsection \<open>Splitting on whitespace\<close>

lemma concat_split_chunks:
  "concat (split_chunks p cs) = concat (filter (\<lambda>c. \<not> p c) cs)"
  by (induction cs) (auto split: list.splits)

lemma split_whitespace_content:
  "concat (split_whitespace s) = concat (filter (\<lambda>c. \<not> is_space c) (chars s))"
proof -
  have "concat (filter (\<lambda>w. w \<noteq> []) ws) = concat ws" for ws :: "string list"
    by (induction ws) auto
  then show ?thesis
    by (simp add: split_whitespace_def split_pred_def concat_split_chunks)
qed

lemma split_whitespace_ne: "w \<in> set (split_whitespace s) \<Longrightarrow> w \<noteq> []"
  by (auto simp: split_whitespace_def)

end
