(* ===== verification/Types.thy ===== *)
theory Types
  imports Json PyStr
begin

text \<open>
  \<open>types.rs\<close>: the typed transcript entry. One record per struct, one datatype per enum,
  in the order of the source; field names carry the struct's initials where two structs
  share a name. The second half holds the accessors (\<open>text\<close>, \<open>meta\<close>,
  \<open>tool_uses\<close>, the tool-use join) and what they satisfy.
\<close>

subsection \<open>The entry model\<close>

record entry_meta =
  uuid :: string
  parent_uuid :: "string option"
  em_session_id :: string
  timestamp :: datetime
  em_cwd :: "string option"
  git_branch :: "string option"
  version :: "string option"
  is_sidechain :: bool
  is_meta :: bool
  entrypoint :: "string option"
  is_compact_summary :: bool
  is_visible_in_transcript_only :: bool
  user_type :: "string option"
  slug :: "string option"

record attribution =
  plugin :: "string option"
  at_skill :: "string option"
  mcp_server :: "string option"
  mcp_tool :: "string option"

record api_error =
  ae_error :: "string option"
  ae_status :: "int option"
  ae_details :: "string option"

record question =
  q_question :: string
  q_header :: "string option"
  multi_select :: bool
  q_labels :: "string list"

record tool_use_block =
  tu_id :: string
  tu_name :: string
  tu_run_in_background :: "bool option"
  tu_subagent_type :: "string option"
  tu_file_path :: "string option"
  tu_questions :: "question list option"
  tu_input :: json

record tool_result_block =
  tr_tool_use_id :: string
  tr_content :: string
  tr_is_error :: bool
  tr_is_async :: bool
  tr_tool_use_result :: "json option"
  tr_denial_kind :: "string option"

record fallback_block =
  from_model :: string
  to_model :: string

datatype content_block =
    CText string
  | CThinking string
  | CToolUse tool_use_block
  | CToolResult tool_result_block
  | CFallback fallback_block
  | COther string json

datatype user_content = Plain string | Blocks "content_block list"

record user_entry =
  ue_meta :: entry_meta
  ue_content :: user_content
  prompt_id :: "string option"
  prompt_source :: "string option"
  queue_priority :: "string option"
  image_paste_ids :: "int list option"
  source_tool_use_id :: "string option"
  source_tool_assistant_uuid :: "string option"
  mcp_meta :: "json option"
  permission_mode :: "string option"
  interrupted_message_id :: "string option"

record cache_creation =
  ephemeral_5m_input_tokens :: int
  ephemeral_1h_input_tokens :: int

record server_tool_use =
  web_search_requests :: int
  web_fetch_requests :: int

record usage =
  input_tokens :: int
  output_tokens :: int
  cache_read_input_tokens :: int
  cache_creation_input_tokens :: int
  us_cache_creation :: "cache_creation option"
  service_tier :: "string option"
  inference_geo :: "string option"
  us_server_tool_use :: "server_tool_use option"

record assistant_entry =
  as_meta :: entry_meta
  as_model :: string
  as_blocks :: "content_block list"
  as_stop_reason :: "string option"
  as_usage :: "usage option"
  request_id :: "string option"
  forked_from :: "string option"
  as_attribution :: "attribution option"
  as_api_error :: "api_error option"

record hook_info =
  hi_command :: string
  hi_duration_ms :: "int option"

record stop_hook_summary =
  hook_count :: "int option"
  hook_infos :: "hook_info list"
  hook_errors :: "string list"
  hook_additional_context :: "string list"
  prevented_continuation :: bool
  sh_stop_reason :: "string option"
  has_output :: bool
  sh_tool_use_id :: "string option"

record preserved_segment =
  head_uuid :: "string option"
  ps_anchor_uuid :: "string option"
  tail_uuid :: "string option"

record preserved_messages =
  pm_anchor_uuid :: "string option"
  uuids :: "string list"
  all_uuids :: "string list"

record compact_boundary =
  cb_trigger :: "string option"
  pre_tokens :: "int option"
  post_tokens :: "int option"
  cb_duration_ms :: "int option"
  cumulative_dropped_tokens :: "int option"
  pre_compact_discovered_tools :: "string list"
  preserved_segment :: "preserved_segment option"
  preserved_messages :: "preserved_messages option"
  logical_parent_uuid :: "string option"
  precomputed :: "bool option"

record turn_duration =
  td_duration_ms :: "int option"
  message_count :: "int option"
  pending_workflow_count :: "int option"
  pending_background_agent_count :: "int option"

record model_refusal_fallback =
  api_refusal_category :: "string option"
  api_refusal_explanation :: "string option"
  mr_trigger :: "string option"
  direction :: "string option"
  original_model :: "string option"
  fallback_model :: "string option"
  retracted_message_uuids :: "string list"
  refused_user_message_uuid :: "string option"

datatype system_detail =
    SDStopHookSummary stop_hook_summary
  | SDCompactBoundary compact_boundary
  | SDTurnDuration turn_duration
  | SDModelRefusalFallback model_refusal_fallback
  | SDOther json

record system_entry =
  se_meta :: entry_meta
  subtype :: string
  se_content :: "string option"
  level :: "string option"
  se_detail :: system_detail

datatype mode_channel = ChannelMode | ChannelPermissionMode

record mode_entry =
  mo_session_id :: string
  channel :: mode_channel
  mo_value :: string

record other_entry =
  oe_ty :: string
  oe_raw :: json

record hook_success =
  hs_hook_name :: "string option"
  hs_hook_event :: "string option"
  hs_tool_use_id :: "string option"
  hs_command :: "string option"
  hs_content :: "string option"
  hs_stdout :: "string option"
  hs_stderr :: "string option"
  hs_exit_code :: "int option"
  hs_duration_ms :: "int option"

record hook_blocking_error =
  hb_hook_name :: "string option"
  hb_hook_event :: "string option"
  hb_tool_use_id :: "string option"
  blocking_error :: "json option"

record hook_non_blocking_error =
  hn_hook_name :: "string option"
  hn_hook_event :: "string option"
  hn_tool_use_id :: "string option"
  hn_command :: "string option"
  hn_stdout :: "string option"
  hn_stderr :: "string option"
  hn_exit_code :: "int option"
  hn_duration_ms :: "int option"

record hook_cancelled =
  hc_hook_name :: "string option"
  hc_hook_event :: "string option"
  hc_tool_use_id :: "string option"
  hc_command :: "string option"
  hc_duration_ms :: "int option"
  timed_out :: "bool option"
  timeout_ms :: "int option"

record hook_additional_context_detail =
  ha_hook_name :: "string option"
  ha_hook_event :: "string option"
  ha_tool_use_id :: "string option"
  ha_content :: "string list"

record async_hook_response =
  ah_hook_name :: "string option"
  ah_hook_event :: "string option"
  process_id :: "string option"
  ah_stdout :: "string option"
  ah_stderr :: "string option"
  ah_exit_code :: "int option"
  ah_response :: "json option"

record queued_command =
  qc_prompt :: "string option"
  command_mode :: "string option"
  origin :: "string option"

record deferred_tools_delta =
  added_names :: "string list"
  removed_names :: "string list"
  dt_raw :: json

datatype attachment_detail =
    ADHookSuccess hook_success
  | ADHookBlockingError hook_blocking_error
  | ADHookNonBlockingError hook_non_blocking_error
  | ADHookCancelled hook_cancelled
  | ADHookAdditionalContext hook_additional_context_detail
  | ADAsyncHookResponse async_hook_response
  | ADQueuedCommand queued_command
  | ADDeferredToolsDelta deferred_tools_delta
  | ADOther json

record attachment_entry =
  ate_meta :: entry_meta
  attachment_type :: string
  ate_detail :: attachment_detail

datatype entry =
    User user_entry
  | Assistant assistant_entry
  | System system_entry
  | Mode mode_entry
  | Other other_entry
  | Attachment attachment_entry

subsection \<open>Accessors\<close>

definition text_separator :: string where
  "text_separator = '' ''"

definition text_blocks :: "content_block list \<Rightarrow> string list" where
  "text_blocks blocks =
     List.map_filter (\<lambda>b. case b of CText t \<Rightarrow> Some t | _ \<Rightarrow> None) blocks"

text \<open>\<open>joined_text\<close>: the loop pushes a separator before every text but the first.\<close>

fun push_texts :: "nat \<Rightarrow> string list \<Rightarrow> string \<Rightarrow> string" where
  "push_texts index [] output = output"
| "push_texts index (t # ts) output =
     push_texts (Suc index) ts ((if index > 0 then output @ text_separator else output) @ t)"

definition joined_text :: "content_block list \<Rightarrow> string" where
  "joined_text blocks = push_texts 0 (text_blocks blocks) []"

definition joined_text_len :: "content_block list \<Rightarrow> nat" where
  "joined_text_len blocks =
     sum_list (map length (text_blocks blocks)) +
     (length (text_blocks blocks) - 1) * length text_separator"

definition user_text :: "user_content \<Rightarrow> string" where
  "user_text c = (case c of Plain s \<Rightarrow> s | Blocks blocks \<Rightarrow> joined_text blocks)"

definition user_text_len :: "user_content \<Rightarrow> nat" where
  "user_text_len c = (case c of Plain s \<Rightarrow> length s | Blocks blocks \<Rightarrow> joined_text_len blocks)"

definition user_blocks :: "user_entry \<Rightarrow> content_block list" where
  "user_blocks u = (case ue_content u of Plain _ \<Rightarrow> [] | Blocks blocks \<Rightarrow> blocks)"

definition block_tool_result :: "content_block \<Rightarrow> tool_result_block option" where
  "block_tool_result b = (case b of CToolResult tr \<Rightarrow> Some tr | _ \<Rightarrow> None)"

definition block_tool_use :: "content_block \<Rightarrow> tool_use_block option" where
  "block_tool_use b = (case b of CToolUse tu \<Rightarrow> Some tu | _ \<Rightarrow> None)"

definition user_tool_results :: "user_entry \<Rightarrow> tool_result_block list" where
  "user_tool_results u = List.map_filter block_tool_result (user_blocks u)"

definition meta :: "entry \<Rightarrow> entry_meta option" where
  "meta e = (case e of
      User u \<Rightarrow> Some (ue_meta u)
    | Assistant a \<Rightarrow> Some (as_meta a)
    | System s \<Rightarrow> Some (se_meta s)
    | Attachment a \<Rightarrow> Some (ate_meta a)
    | Mode _ \<Rightarrow> None
    | Other _ \<Rightarrow> None)"

definition session_id :: "entry \<Rightarrow> string option" where
  "session_id e = (case e of Mode m \<Rightarrow> Some (mo_session_id m) | _ \<Rightarrow> map_option em_session_id (meta e))"

definition blocks :: "entry \<Rightarrow> content_block list" where
  "blocks e = (case e of User u \<Rightarrow> user_blocks u | Assistant a \<Rightarrow> as_blocks a | _ \<Rightarrow> [])"

definition tool_uses :: "entry \<Rightarrow> tool_use_block list" where
  "tool_uses e = List.map_filter block_tool_use (blocks e)"

definition tool_results :: "entry \<Rightarrow> tool_result_block list" where
  "tool_results e = List.map_filter block_tool_result (blocks e)"

text \<open>\<open>tool_use_index\<close>: collecting pairs into a \<open>HashMap\<close>, the last one under an id
  stays.\<close>

definition collect_map :: "('k \<times> 'v) list \<Rightarrow> ('k \<rightharpoonup> 'v)" where
  "collect_map ps = foldl (\<lambda>m (k, v). m(k \<mapsto> v)) Map.empty ps"

definition tool_use_index :: "entry list \<Rightarrow> (string \<rightharpoonup> tool_use_block)" where
  "tool_use_index entries = collect_map (map (\<lambda>tu. (tu_id tu, tu)) (concat (map tool_uses entries)))"

lemma collect_map_rev: "collect_map ps = map_of (rev ps)"
proof -
  have "foldl (\<lambda>m (k, v). m(k \<mapsto> v)) m ps = m ++ map_of (rev ps)" for m
  proof (induction ps arbitrary: m)
    case Nil
    then show ?case by simp
  next
    case (Cons p ps)
    obtain k v where p: "p = (k, v)" by force
    show ?case unfolding p foldl_Cons Cons.IH prod.case rev.simps map_of_append map_add_assoc
      by simp
  qed
  then show ?thesis by (simp add: collect_map_def)
qed

subsection \<open>Facts about the accessors\<close>

lemma push_texts_join:
  "push_texts i ts out =
     (if ts = [] then out else (if i > 0 then out @ text_separator else out) @ join text_separator ts)"
proof (induction ts arbitrary: i out)
  case Nil
  then show ?case by simp
next
  case (Cons t ts)
  show ?case unfolding push_texts.simps Cons.IH by (cases ts) auto
qed

lemma joined_text_join: "joined_text bs = join text_separator (text_blocks bs)"
  by (simp add: joined_text_def push_texts_join)

lemma length_join:
  "length (join sep xs) = sum_list (map length xs) + (length xs - 1) * length sep"
proof (induction xs rule: induct_list012)
  case (3 x y zs)
  then show ?case by simp
qed auto

lemma joined_text_len_exact: "joined_text_len bs = length (joined_text bs)"
  by (simp add: joined_text_join joined_text_len_def length_join)

lemma user_text_len_exact: "user_text_len c = length (user_text c)"
  by (cases c) (simp_all add: user_text_len_def user_text_def joined_text_len_exact)

lemma text_blocks_append: "text_blocks (xs @ ys) = text_blocks xs @ text_blocks ys"
  by (simp add: text_blocks_def List.map_filter_def)

lemma meta_session_id: "meta e = Some m \<Longrightarrow> session_id e = Some (em_session_id m)"
  by (cases e) (auto simp: meta_def session_id_def)

lemma user_results_entry: "user_tool_results u = tool_results (User u)"
  by (simp add: user_tool_results_def tool_results_def blocks_def)

lemma tool_use_index_last:
  "tool_use_index entries i =
     (case filter (\<lambda>tu. tu_id tu = i) (concat (map tool_uses entries)) of
        [] \<Rightarrow> None | tus \<Rightarrow> Some (last tus))"
proof -
  have "map_of (rev (map (\<lambda>tu. (tu_id tu, tu)) tus)) i =
      (case filter (\<lambda>tu. tu_id tu = i) tus of [] \<Rightarrow> None | us \<Rightarrow> Some (last us))" for tus
    by (induction tus rule: rev_induct) (auto split: list.splits)
  then show ?thesis by (simp add: tool_use_index_def collect_map_rev)
qed

end
