(* ===== verification/Protocol.thy ===== *)
theory Protocol
  imports PyStr Json
begin

text \<open>
  \<open>protocol.rs\<close> and \<open>literals/protocol.rs\<close>: the marker strings of the transcript
  protocol and the recognisers built on them. The compiled regular expressions are fields
  of \<open>env\<close>.
\<close>

definition DENIAL_PREFIX :: string where
  "DENIAL_PREFIX = ''The user doesn'' @ [byte 39] @ ''t want to proceed with this tool use. The tool use was rejected''"

definition DENIAL_KIND_USER_REJECTED :: string where
  "DENIAL_KIND_USER_REJECTED = ''user-rejected''"

definition USER_SAID_MARKER :: string where
  "USER_SAID_MARKER = ''To tell you how to proceed, the user said:'' @ [byte 10]"

definition USER_SAID_TRAILER :: string where
  "USER_SAID_TRAILER = ''Note: The user'' @ [byte 39] @ ''s next message''"

definition TASK_NOTIFICATION_MARKER :: string where
  "TASK_NOTIFICATION_MARKER = ''<task-notification>''"

definition TOOL_USE_ID_PREFIX :: string where
  "TOOL_USE_ID_PREFIX = ''<tool-use-id>''"

definition TOOL_USE_ID_SUFFIX :: string where
  "TOOL_USE_ID_SUFFIX = ''</tool-use-id>''"

definition is_agent_injection :: "env \<Rightarrow> string \<Rightarrow> bool" where
  "is_agent_injection env text = e_injection_re env (lstrip text)"

text \<open>The text between the first marker and the first trailer after it, stripped.\<close>

definition embedded_user_text :: "string \<Rightarrow> string option" where
  "embedded_user_text content =
     map_option (\<lambda>(_, after).
         strip (case split_once USER_SAID_TRAILER after of Some (said, _) \<Rightarrow> said | None \<Rightarrow> after))
       (split_once USER_SAID_MARKER content)"

definition interrupt_marker :: "env \<Rightarrow> string \<Rightarrow> string option" where
  "interrupt_marker env text =
     (let stripped = lstrip text in
      case e_interrupt_re env stripped of
        None \<Rightarrow> None
      | Some matched \<Rightarrow>
          (if CHR '']'' \<in> set stripped
           then Some (takeWhile (\<lambda>c. c \<noteq> CHR '']'') stripped @ '']'')
           else Some matched))"

lemma interrupt_marker_prefix:
  assumes "interrupt_marker env text = Some m"
    and law: "\<And>s r. e_interrupt_re env s = Some r \<Longrightarrow> prefix r s"
  shows "prefix m (lstrip text)"
proof -
  obtain r where r: "e_interrupt_re env (lstrip text) = Some r"
    using assms(1) by (auto simp: interrupt_marker_def Let_def split: option.splits)
  show ?thesis
  proof (cases "CHR '']'' \<in> set (lstrip text)")
    case True
    obtain a rest where a: "lstrip text = a @ CHR '']'' # rest" "CHR '']'' \<notin> set a"
      using split_list_first [OF True] by blast
    then have "takeWhile (\<lambda>c. c \<noteq> CHR '']'') (lstrip text) = a"
      by (simp add: takeWhile_append takeWhile_all)
    then have "m = a @ '']''" using assms(1) r True by (simp add: interrupt_marker_def)
    with a(1) show ?thesis by simp
  next
    case False
    then show ?thesis using assms(1) r law by (simp add: interrupt_marker_def)
  qed
qed

lemma embedded_user_text_None: "embedded_user_text c = None \<longleftrightarrow> \<not> contains_str USER_SAID_MARKER c"
  by (simp add: embedded_user_text_def split_once_None)

end
