(* ===== verification/Samples.thy ===== *)
theory Samples
  imports Json
begin

text \<open>
  Concrete inputs for the witnesses: an instance of the record of the other crates whose
  encoder quotes strings without escapes, whose decoder is a finite table, and whose
  timestamps are recognised by their first character. Only the witnesses use it.
\<close>

definition sample_encode :: "json \<Rightarrow> string" where
  "sample_encode v = (case v of
      JNull \<Rightarrow> ''null''
    | JBool b \<Rightarrow> (if b then ''true'' else ''false'')
    | JNumber n \<Rightarrow> opt_default ''0'' (num_raw n)
    | JString s \<Rightarrow> [CHR 0x22] @ s @ [CHR 0x22]
    | JArray _ \<Rightarrow> []
    | JObject _ \<Rightarrow> [])"

definition sample_time :: "string \<Rightarrow> datetime option" where
  "sample_time raw = (case raw of
      [] \<Rightarrow> None
    | c # _ \<Rightarrow> if c = CHR ''2''
              then Some \<lparr>dt_secs = 60 * int (length raw), dt_nanos = 123456789, dt_offset = 0\<rparr>
              else None)"

definition sample_env :: "(string \<times> json) list \<Rightarrow> env" where
  "sample_env table = \<lparr>
     e_encode = sample_encode,
     e_from_str = map_of table,
     e_rfc3339 = sample_time,
     e_year = (\<lambda>t. 1970 + dt_secs t div 31557600),
     e_interrupt_re = (\<lambda>s. if prefix ''[Request interrupted by user'' s
                           then Some ''[Request interrupted by user'' else None),
     e_injection_re = prefix ''<teammate-message'',
     e_regex = (\<lambda>p. Some (contains_str p)),
     e_lower = map (\<lambda>c. if of_char c \<in> {65..(90::nat)} then char_of (of_char c + (32::nat)) else c)\<rparr>"

lemma sample_env_simps [simp]:
  "e_encode (sample_env t) = sample_encode"
  "e_from_str (sample_env t) = map_of t"
  "e_rfc3339 (sample_env t) = sample_time"
  "e_year (sample_env t) = (\<lambda>t. 1970 + dt_secs t div 31557600)"
  "e_regex (sample_env t) = (\<lambda>p. Some (contains_str p))"
  "e_interrupt_re (sample_env t) = (\<lambda>s. if prefix ''[Request interrupted by user'' s
                           then Some ''[Request interrupted by user'' else None)"
  "e_injection_re (sample_env t) = prefix ''<teammate-message''"
  by (simp_all add: sample_env_def)

end
