(* ===== verification/Parse.thy ===== *)
theory Parse
  imports Types Protocol Samples
begin

text \<open>
  \<open>parse.rs\<close>: from a JSON value to a typed entry, and from the bytes of a transcript to
  its entries. The parse threads \<open>Retained\<close>, the record of which sonic-rs arenas an entry
  keeps alive (the line's own, and one per re-serialised payload); a step is a function of
  it that returns an error or a result with the new record.
\<close>

subsection \<open>Retained arenas\<close>

record retained =
  ret_line :: bool
  ret_private :: "(json \<times> nat) list"

type_synonym 'a rparse = "retained \<Rightarrow> parse_error + ('a \<times> retained)"

definition retained_default :: retained where
  "retained_default = \<lparr>ret_line = False, ret_private = []\<rparr>"

definition rp_return :: "'a \<Rightarrow> 'a rparse" where
  "rp_return x r = Inr (x, r)"

definition rp_lift :: "parse_error + 'a \<Rightarrow> 'a rparse" where
  "rp_lift m r = res_bind m (\<lambda>x. Inr (x, r))"

definition rp_bind :: "'a rparse \<Rightarrow> ('a \<Rightarrow> 'b rparse) \<Rightarrow> 'b rparse" where
  "rp_bind m f r = res_bind (m r) (\<lambda>(x, r'). f x r')"

definition share :: "json \<Rightarrow> json rparse" where
  "share value r = Inr (value, r\<lparr>ret_line := ret_line r \<or> pins_arena value\<rparr>)"

definition normalized :: "env \<Rightarrow> json \<Rightarrow> json rparse" where
  "normalized env value r =
     res_bind (deduplicated env value) (\<lambda>d. case d of
       Some (n, source_len) \<Rightarrow> Inr (n, r\<lparr>ret_private := ret_private r @ [(n, source_len)]\<rparr>)
     | None \<Rightarrow> share value r)"

text \<open>\<open>Retained::arenas\<close>.\<close>

definition arenas :: "retained \<Rightarrow> json \<Rightarrow> nat \<Rightarrow> (json \<times> nat) list" where
  "arenas r root_value source_len =
     (if ret_line r then ret_private r @ [(root_value, source_len)] else ret_private r)"

text \<open>An optional payload: \<open>opt.map(|v| retained.share(v))\<close> and \<open>normalized\<close>.\<close>

definition share_opt :: "json option \<Rightarrow> json option rparse" where
  "share_opt v = (case v of None \<Rightarrow> rp_return None | Some x \<Rightarrow> rp_bind (share x) (\<lambda>y. rp_return (Some y)))"

definition normalized_opt :: "env \<Rightarrow> json option \<Rightarrow> json option rparse" where
  "normalized_opt env v =
     (case v of None \<Rightarrow> rp_return None | Some x \<Rightarrow> rp_bind (normalized env x) (\<lambda>y. rp_return (Some y)))"

subsection \<open>Field readers\<close>

definition truthy_str :: "json \<Rightarrow> string \<Rightarrow> string option" where
  "truthy_str data key = opt_filter (\<lambda>s. s \<noteq> []) (field_str data key)"

definition require :: "json \<Rightarrow> string \<Rightarrow> parse_error + json" where
  "require data key = ok_or (PKey key) (field data key)"

definition require_str :: "json \<Rightarrow> string \<Rightarrow> parse_error + string" where
  "require_str data key = res_bind (require data key) (\<lambda>v. ok_or (PKey key) (as_str v))"

definition require_i64 :: "json \<Rightarrow> string \<Rightarrow> parse_error + int" where
  "require_i64 data key = res_bind (require data key) (\<lambda>v. ok_or (PKey key) (as_i64 v))"

definition opt_i64 :: "json \<Rightarrow> string \<Rightarrow> int option" where
  "opt_i64 data key = Option.bind (field data key) as_i64"

definition opt_bool :: "json \<Rightarrow> string \<Rightarrow> bool option" where
  "opt_bool data key = Option.bind (field data key) as_bool"

definition array_items :: "json \<Rightarrow> string \<Rightarrow> json list" where
  "array_items data key = opt_default [] (Option.bind (field data key) as_array)"

definition str_array :: "json \<Rightarrow> string \<Rightarrow> string list" where
  "str_array data key = List.map_filter as_str (array_items data key)"

definition parse_timestamp :: "env \<Rightarrow> string \<Rightarrow> parse_error + datetime" where
  "parse_timestamp env raw =
     (case e_rfc3339 env raw of
        None \<Rightarrow> Inl (PValue (InvalidTimestamp raw))
      | Some dt \<Rightarrow>
          (if dt_nanos dt \<ge> 1000000000 then Inl (PValue (LeapSecond raw))
           else Inr (dt\<lparr>dt_nanos := dt_nanos dt div 1000 * 1000\<rparr>)))"

definition require_array :: "json \<Rightarrow> parse_error + json list" where
  "require_array content = ok_or (PValue ContentShape) (as_array content)"

definition py_type_name :: "json \<Rightarrow> string" where
  "py_type_name v = (case v of
      JNull \<Rightarrow> ''NoneType''
    | JBool _ \<Rightarrow> ''bool''
    | JNumber n \<Rightarrow> (if num_i64 n \<noteq> None \<or> num_u64 n \<noteq> None then ''int'' else ''float'')
    | JString _ \<Rightarrow> ''str''
    | JArray _ \<Rightarrow> ''list''
    | JObject _ \<Rightarrow> ''dict'')"

definition flatten_result_content :: "json \<Rightarrow> parse_error + string" where
  "flatten_result_content content =
     (case as_str content of
        Some s \<Rightarrow> Inr s
      | None \<Rightarrow>
          (case as_array content of
             Some bs \<Rightarrow> Inr (concat (List.map_filter (\<lambda>b. field_str b ''text'')
               (filter (\<lambda>b. block_type b = Some ''text'') bs)))
           | None \<Rightarrow> Inl (PValue (ResultContentShape (py_type_name content)))))"

subsection \<open>The envelope and the blocks\<close>

definition parse_meta :: "env \<Rightarrow> json \<Rightarrow> parse_error + entry_meta" where
  "parse_meta env data =
     res_bind (require_str data ''uuid'') (\<lambda>u.
     res_bind (require_str data ''sessionId'') (\<lambda>s.
     res_bind (require_str data ''timestamp'') (\<lambda>raw.
     res_bind (parse_timestamp env raw) (\<lambda>ts.
     Inr \<lparr>uuid = u,
       parent_uuid = truthy_str data ''parentUuid'',
       em_session_id = s,
       timestamp = ts,
       em_cwd = field_str data ''cwd'',
       git_branch = field_str data ''gitBranch'',
       version = truthy_str data ''version'',
       is_sidechain = field_truthy data ''isSidechain'',
       is_meta = field_truthy data ''isMeta'',
       entrypoint = field_str data ''entrypoint'',
       is_compact_summary = field_truthy data ''isCompactSummary'',
       is_visible_in_transcript_only = field_truthy data ''isVisibleInTranscriptOnly'',
       user_type = field_str data ''userType'',
       slug = field_str data ''slug''\<rparr>))))"

definition parse_image_paste_ids :: "json \<Rightarrow> int list option" where
  "parse_image_paste_ids data =
     map_option (List.map_filter as_i64) (Option.bind (field data ''imagePasteIds'') as_array)"

definition parse_attribution :: "json \<Rightarrow> attribution option" where
  "parse_attribution data =
     (let pl = field_str data ''attributionPlugin''; sk = field_str data ''attributionSkill'';
          ms = field_str data ''attributionMcpServer''; mt = field_str data ''attributionMcpTool'' in
      if pl = None \<and> sk = None \<and> ms = None \<and> mt = None then None
      else Some \<lparr>plugin = pl, at_skill = sk, mcp_server = ms, mcp_tool = mt\<rparr>)"

definition parse_api_error :: "json \<Rightarrow> api_error option" where
  "parse_api_error data =
     (if \<not> field_truthy data ''isApiErrorMessage'' then None
      else Some \<lparr>ae_error = field_str data ''error'', ae_status = opt_i64 data ''apiErrorStatus'',
                ae_details = field_str data ''errorDetails''\<rparr>)"

definition parse_tool_result ::
  "json \<Rightarrow> json option \<Rightarrow> string option \<Rightarrow> content_block rparse" where
  "parse_tool_result block tool_use_result tool_denial_kind =
     rp_bind (rp_lift (require block ''content'')) (\<lambda>raw.
     rp_bind (rp_lift (flatten_result_content raw)) (\<lambda>content.
     let is_error = field_truthy block ''is_error'';
         denial = opt_or tool_denial_kind
           (if is_error \<and> prefix DENIAL_PREFIX content then Some DENIAL_KIND_USER_REJECTED else None)
     in rp_bind (rp_lift (require_str block ''tool_use_id'')) (\<lambda>i.
        rp_bind (share_opt tool_use_result) (\<lambda>payload.
        rp_return (CToolResult \<lparr>tr_tool_use_id = i, tr_content = content, tr_is_error = is_error,
          tr_is_async = is_some_and (\<lambda>tur. field_bool tur ''isAsync'') tool_use_result,
          tr_tool_use_result = payload, tr_denial_kind = denial\<rparr>)))))"

fun parse_user_blocks ::
  "json option \<Rightarrow> string option \<Rightarrow> json list \<Rightarrow> content_block list rparse" where
  "parse_user_blocks tur tdk [] = rp_return []"
| "parse_user_blocks tur tdk (b # bs) =
     (if block_type b = Some ''text'' then
        (case field_str b ''text'' of
           Some t \<Rightarrow> rp_bind (parse_user_blocks tur tdk bs) (\<lambda>rest. rp_return (CText t # rest))
         | None \<Rightarrow> parse_user_blocks tur tdk bs)
      else if block_type b = Some ''tool_result'' then
        rp_bind (parse_tool_result b tur tdk) (\<lambda>c.
        rp_bind (parse_user_blocks tur tdk bs) (\<lambda>rest. rp_return (c # rest)))
      else parse_user_blocks tur tdk bs)"

definition parse_user_content ::
  "json \<Rightarrow> json option \<Rightarrow> string option \<Rightarrow> user_content rparse" where
  "parse_user_content content tur tdk =
     (case as_str content of
        Some s \<Rightarrow> rp_return (Plain s)
      | None \<Rightarrow>
          rp_bind (rp_lift (require_array content)) (\<lambda>items.
          rp_bind (parse_user_blocks tur tdk items) (\<lambda>bs. rp_return (Blocks bs))))"

definition parse_question :: "json \<Rightarrow> question option" where
  "parse_question q =
     map_option (\<lambda>text. \<lparr>q_question = text, q_header = field_str q ''header'',
         multi_select = field_bool q ''multiSelect'',
         q_labels = List.map_filter (\<lambda>option. field_str option ''label'') (array_items q ''options'')\<rparr>)
       (field_str q ''question'')"

definition parse_questions :: "json \<Rightarrow> question list option" where
  "parse_questions input =
     map_option (List.map_filter parse_question) (Option.bind (field input ''questions'') as_array)"

definition parse_assistant_block :: "env \<Rightarrow> json \<Rightarrow> content_block rparse" where
  "parse_assistant_block env block =
     (case block_type block of
        None \<Rightarrow> rp_lift (Inl (PKey ''type''))
      | Some ty \<Rightarrow>
          if ty = ''text'' then
            rp_bind (rp_lift (require_str block ''text'')) (\<lambda>t. rp_return (CText t))
          else if ty = ''thinking'' then
            rp_bind (rp_lift (require_str block ''thinking'')) (\<lambda>t. rp_return (CThinking t))
          else if ty = ''tool_use'' then
            rp_bind (rp_lift (require_str block ''id'')) (\<lambda>i.
            rp_bind (rp_lift (require_str block ''name'')) (\<lambda>n.
            rp_bind (rp_lift (require block ''input'')) (\<lambda>raw.
            rp_bind (normalized env raw) (\<lambda>input.
            rp_return (CToolUse \<lparr>tu_id = i, tu_name = n,
              tu_run_in_background = opt_bool input ''run_in_background'',
              tu_subagent_type = field_str input ''subagent_type'',
              tu_file_path = field_str input ''file_path'',
              tu_questions = parse_questions input, tu_input = input\<rparr>)))))
          else if ty = ''fallback'' then
            rp_bind (rp_lift (res_bind (require block ''from'') (\<lambda>f. require_str f ''model''))) (\<lambda>from_m.
            rp_bind (rp_lift (res_bind (require block ''to'') (\<lambda>t. require_str t ''model''))) (\<lambda>to_m.
            rp_return (CFallback \<lparr>from_model = from_m, to_model = to_m\<rparr>)))
          else rp_bind (normalized env block) (\<lambda>raw. rp_return (COther ty raw)))"

fun rp_map :: "('a \<Rightarrow> 'b rparse) \<Rightarrow> 'a list \<Rightarrow> 'b list rparse" where
  "rp_map f [] = rp_return []"
| "rp_map f (x # xs) = rp_bind (f x) (\<lambda>y. rp_bind (rp_map f xs) (\<lambda>ys. rp_return (y # ys)))"

definition parse_assistant_blocks :: "env \<Rightarrow> json \<Rightarrow> content_block list rparse" where
  "parse_assistant_blocks env content =
     rp_bind (rp_lift (require_array content)) (\<lambda>items. rp_map (parse_assistant_block env) items)"

definition parse_usage_value :: "json \<Rightarrow> parse_error + usage" where
  "parse_usage_value u =
     res_bind (case opt_filter is_object (field u ''cache_creation'') of
         None \<Rightarrow> Inr None
       | Some cc \<Rightarrow>
           res_bind (require_i64 cc ''ephemeral_5m_input_tokens'') (\<lambda>m5.
           res_bind (require_i64 cc ''ephemeral_1h_input_tokens'') (\<lambda>h1.
           Inr (Some \<lparr>ephemeral_5m_input_tokens = m5, ephemeral_1h_input_tokens = h1\<rparr>)))) (\<lambda>cc.
     res_bind (case opt_filter is_object (field u ''server_tool_use'') of
         None \<Rightarrow> Inr None
       | Some st \<Rightarrow>
           res_bind (require_i64 st ''web_search_requests'') (\<lambda>ws.
           res_bind (require_i64 st ''web_fetch_requests'') (\<lambda>wf.
           Inr (Some \<lparr>web_search_requests = ws, web_fetch_requests = wf\<rparr>)))) (\<lambda>st.
     res_bind (require_i64 u ''input_tokens'') (\<lambda>inp.
     res_bind (require_i64 u ''output_tokens'') (\<lambda>outp.
     res_bind (require_i64 u ''cache_read_input_tokens'') (\<lambda>crd.
     res_bind (require_i64 u ''cache_creation_input_tokens'') (\<lambda>ccr.
     Inr \<lparr>input_tokens = inp, output_tokens = outp, cache_read_input_tokens = crd,
       cache_creation_input_tokens = ccr, us_cache_creation = cc,
       service_tier = field_str u ''service_tier'', inference_geo = field_str u ''inference_geo'',
       us_server_tool_use = st\<rparr>))))))"

definition parse_usage :: "json \<Rightarrow> parse_error + usage option" where
  "parse_usage message =
     (case opt_filter is_py_truthy (field message ''usage'') of
        None \<Rightarrow> Inr None
      | Some u \<Rightarrow> res_bind (parse_usage_value u) (\<lambda>x. Inr (Some x)))"

subsection \<open>System and attachment details\<close>

definition parse_hook_infos :: "json \<Rightarrow> hook_info list" where
  "parse_hook_infos data =
     List.map_filter (\<lambda>info. map_option
         (\<lambda>c. \<lparr>hi_command = c, hi_duration_ms = opt_i64 info ''durationMs''\<rparr>) (field_str info ''command''))
       (array_items data ''hookInfos'')"

definition parse_preserved_segment :: "json option \<Rightarrow> preserved_segment option" where
  "parse_preserved_segment segment =
     map_option (\<lambda>v. \<lparr>head_uuid = truthy_str v ''headUuid'', ps_anchor_uuid = truthy_str v ''anchorUuid'',
         tail_uuid = truthy_str v ''tailUuid''\<rparr>) (opt_filter is_object segment)"

definition parse_preserved_messages :: "json option \<Rightarrow> preserved_messages option" where
  "parse_preserved_messages messages =
     map_option (\<lambda>v. \<lparr>pm_anchor_uuid = truthy_str v ''anchorUuid'', uuids = str_array v ''uuids'',
         all_uuids = str_array v ''allUuids''\<rparr>) (opt_filter is_object messages)"

definition parse_system_detail :: "json \<Rightarrow> system_detail rparse" where
  "parse_system_detail data =
     (let st = field_str data ''subtype'' in
      if st = Some ''stop_hook_summary'' then
        rp_return (SDStopHookSummary \<lparr>hook_count = opt_i64 data ''hookCount'',
          hook_infos = parse_hook_infos data, hook_errors = str_array data ''hookErrors'',
          hook_additional_context = str_array data ''hookAdditionalContext'',
          prevented_continuation = field_truthy data ''preventedContinuation'',
          sh_stop_reason = field_str data ''stopReason'', has_output = field_truthy data ''hasOutput'',
          sh_tool_use_id = truthy_str data ''toolUseID''\<rparr>)
      else if st = Some ''compact_boundary'' then
        (let metadata = opt_default JNull (field data ''compactMetadata'') in
         rp_return (SDCompactBoundary \<lparr>cb_trigger = field_str metadata ''trigger'',
          pre_tokens = opt_i64 metadata ''preTokens'', post_tokens = opt_i64 metadata ''postTokens'',
          cb_duration_ms = opt_i64 metadata ''durationMs'',
          cumulative_dropped_tokens = opt_i64 metadata ''cumulativeDroppedTokens'',
          pre_compact_discovered_tools = str_array metadata ''preCompactDiscoveredTools'',
          preserved_segment = parse_preserved_segment (field metadata ''preservedSegment''),
          preserved_messages = parse_preserved_messages (field metadata ''preservedMessages''),
          logical_parent_uuid = truthy_str data ''logicalParentUuid'',
          precomputed = opt_bool metadata ''precomputed''\<rparr>))
      else if st = Some ''turn_duration'' then
        rp_return (SDTurnDuration \<lparr>td_duration_ms = opt_i64 data ''durationMs'',
          message_count = opt_i64 data ''messageCount'',
          pending_workflow_count = opt_i64 data ''pendingWorkflowCount'',
          pending_background_agent_count = opt_i64 data ''pendingBackgroundAgentCount''\<rparr>)
      else if st = Some ''model_refusal_fallback'' then
        rp_return (SDModelRefusalFallback \<lparr>api_refusal_category = field_str data ''apiRefusalCategory'',
          api_refusal_explanation = field_str data ''apiRefusalExplanation'',
          mr_trigger = field_str data ''trigger'', direction = field_str data ''direction'',
          original_model = field_str data ''originalModel'', fallback_model = field_str data ''fallbackModel'',
          retracted_message_uuids = str_array data ''retractedMessageUuids'',
          refused_user_message_uuid = truthy_str data ''refusedUserMessageUuid''\<rparr>)
      else rp_bind (share data) (\<lambda>v. rp_return (SDOther v)))"

definition parse_attachment_detail :: "env \<Rightarrow> json \<Rightarrow> attachment_detail rparse" where
  "parse_attachment_detail env data =
     (let att = opt_default JNull (field data ''attachment''); ty = field_str att ''type'' in
      if ty = Some ''hook_success'' then
        rp_return (ADHookSuccess \<lparr>hs_hook_name = field_str att ''hookName'',
          hs_hook_event = field_str att ''hookEvent'', hs_tool_use_id = truthy_str att ''toolUseID'',
          hs_command = field_str att ''command'', hs_content = field_str att ''content'',
          hs_stdout = field_str att ''stdout'', hs_stderr = field_str att ''stderr'',
          hs_exit_code = opt_i64 att ''exitCode'', hs_duration_ms = opt_i64 att ''durationMs''\<rparr>)
      else if ty = Some ''hook_blocking_error'' then
        rp_bind (normalized_opt env (field att ''blockingError'')) (\<lambda>err.
        rp_return (ADHookBlockingError \<lparr>hb_hook_name = field_str att ''hookName'',
          hb_hook_event = field_str att ''hookEvent'', hb_tool_use_id = truthy_str att ''toolUseID'',
          blocking_error = err\<rparr>))
      else if ty = Some ''hook_non_blocking_error'' then
        rp_return (ADHookNonBlockingError \<lparr>hn_hook_name = field_str att ''hookName'',
          hn_hook_event = field_str att ''hookEvent'', hn_tool_use_id = truthy_str att ''toolUseID'',
          hn_command = field_str att ''command'', hn_stdout = field_str att ''stdout'',
          hn_stderr = field_str att ''stderr'', hn_exit_code = opt_i64 att ''exitCode'',
          hn_duration_ms = opt_i64 att ''durationMs''\<rparr>)
      else if ty = Some ''hook_cancelled'' then
        rp_return (ADHookCancelled \<lparr>hc_hook_name = field_str att ''hookName'',
          hc_hook_event = field_str att ''hookEvent'', hc_tool_use_id = truthy_str att ''toolUseID'',
          hc_command = field_str att ''command'', hc_duration_ms = opt_i64 att ''durationMs'',
          timed_out = opt_bool att ''timedOut'', timeout_ms = opt_i64 att ''timeoutMs''\<rparr>)
      else if ty = Some ''hook_additional_context'' then
        rp_return (ADHookAdditionalContext \<lparr>ha_hook_name = field_str att ''hookName'',
          ha_hook_event = field_str att ''hookEvent'', ha_tool_use_id = truthy_str att ''toolUseID'',
          ha_content = str_array att ''content''\<rparr>)
      else if ty = Some ''async_hook_response'' then
        rp_bind (normalized_opt env (field att ''response'')) (\<lambda>resp.
        rp_return (ADAsyncHookResponse \<lparr>ah_hook_name = field_str att ''hookName'',
          ah_hook_event = field_str att ''hookEvent'', process_id = field_str att ''processId'',
          ah_stdout = field_str att ''stdout'', ah_stderr = field_str att ''stderr'',
          ah_exit_code = opt_i64 att ''exitCode'', ah_response = resp\<rparr>))
      else if ty = Some ''queued_command'' then
        rp_return (ADQueuedCommand \<lparr>qc_prompt = field_str att ''prompt'',
          command_mode = field_str att ''commandMode'',
          origin = Option.bind (field att ''origin'') (\<lambda>org. field_str org ''kind'')\<rparr>)
      else if ty = Some ''deferred_tools_delta'' then
        rp_bind (share data) (\<lambda>raw.
        rp_return (ADDeferredToolsDelta \<lparr>added_names = str_array att ''addedNames'',
          removed_names = str_array att ''removedNames'', dt_raw = raw\<rparr>))
      else rp_bind (share data) (\<lambda>v. rp_return (ADOther v)))"

subsection \<open>Entries\<close>

definition parse_user_entry :: "env \<Rightarrow> json \<Rightarrow> entry rparse" where
  "parse_user_entry env data =
     rp_bind (rp_lift (res_bind (require data ''message'') (\<lambda>m. require m ''content''))) (\<lambda>raw.
     rp_bind (parse_user_content raw (field data ''toolUseResult'') (truthy_str data ''toolDenialKind''))
       (\<lambda>content.
     rp_bind (rp_lift (parse_meta env data)) (\<lambda>m.
     rp_bind (normalized_opt env (field data ''mcpMeta'')) (\<lambda>mcp.
     rp_return (User \<lparr>ue_meta = m, ue_content = content,
       prompt_id = field_str data ''promptId'', prompt_source = field_str data ''promptSource'',
       queue_priority = field_str data ''queuePriority'', image_paste_ids = parse_image_paste_ids data,
       source_tool_use_id = truthy_str data ''sourceToolUseID'',
       source_tool_assistant_uuid = truthy_str data ''sourceToolAssistantUUID'',
       mcp_meta = mcp, permission_mode = field_str data ''permissionMode'',
       interrupted_message_id = field_str data ''interruptedMessageId''\<rparr>)))))"

definition parse_assistant_entry :: "env \<Rightarrow> json \<Rightarrow> entry rparse" where
  "parse_assistant_entry env data =
     rp_bind (rp_lift (require data ''message'')) (\<lambda>message.
     rp_bind (rp_lift (require message ''content'')) (\<lambda>raw.
     rp_bind (parse_assistant_blocks env raw) (\<lambda>bs.
     rp_bind (rp_lift (parse_meta env data)) (\<lambda>m.
     rp_bind (rp_lift (require_str message ''model'')) (\<lambda>model.
     rp_bind (rp_lift (parse_usage message)) (\<lambda>u.
     rp_return (Assistant \<lparr>as_meta = m, as_model = model, as_blocks = bs,
       as_stop_reason = field_str message ''stop_reason'', as_usage = u,
       request_id = field_str data ''requestId'', forked_from = field_str data ''forkedFrom'',
       as_attribution = parse_attribution data, as_api_error = parse_api_error data\<rparr>)))))))"

definition parse_system_entry :: "env \<Rightarrow> json \<Rightarrow> entry rparse" where
  "parse_system_entry env data =
     rp_bind (rp_lift (parse_meta env data)) (\<lambda>m.
     rp_bind (rp_lift (require_str data ''subtype'')) (\<lambda>st.
     rp_bind (parse_system_detail data) (\<lambda>d.
     rp_return (System \<lparr>se_meta = m, subtype = st, se_content = field_str data ''content'',
       level = field_str data ''level'', se_detail = d\<rparr>))))"

definition parse_mode_entry :: "mode_channel \<Rightarrow> string \<Rightarrow> json \<Rightarrow> entry rparse" where
  "parse_mode_entry ch key data =
     rp_bind (rp_lift (require_str data ''sessionId'')) (\<lambda>s.
     rp_bind (rp_lift (require_str data key)) (\<lambda>v.
     rp_return (Mode \<lparr>mo_session_id = s, channel = ch, mo_value = v\<rparr>)))"

definition parse_attachment_entry :: "env \<Rightarrow> json \<Rightarrow> entry rparse" where
  "parse_attachment_entry env data =
     rp_bind (parse_attachment_detail env data) (\<lambda>d.
     rp_bind (rp_lift (parse_meta env data)) (\<lambda>m.
     rp_return (Attachment \<lparr>ate_meta = m,
       attachment_type = opt_default [] (Option.bind (field data ''attachment'')
         (\<lambda>att. field_str att ''type'')),
       ate_detail = d\<rparr>)))"

definition parse_entry_retained :: "env \<Rightarrow> json \<Rightarrow> entry rparse" where
  "parse_entry_retained env data =
     rp_bind (rp_lift (require_str data ''type'')) (\<lambda>ty.
     if ty = ''user'' then parse_user_entry env data
     else if ty = ''assistant'' then parse_assistant_entry env data
     else if ty = ''system'' then parse_system_entry env data
     else if ty = ''mode'' then parse_mode_entry ChannelMode ''mode'' data
     else if ty = ''permission-mode'' then parse_mode_entry ChannelPermissionMode ''permissionMode'' data
     else if ty = ''attachment'' then parse_attachment_entry env data
     else rp_bind (normalized env data) (\<lambda>raw. rp_return (Other \<lparr>oe_ty = ty, oe_raw = raw\<rparr>)))"

definition parse_entry :: "env \<Rightarrow> json \<Rightarrow> parse_error + entry" where
  "parse_entry env data =
     res_bind (parse_entry_retained env data retained_default) (\<lambda>(e, r). Inr e)"

text \<open>\<open>retained_arena_bound\<close>: the arena count reserved before the parse.\<close>

definition retained_arena_bound :: "json \<Rightarrow> nat" where
  "retained_arena_bound data =
     1 + (let ty = opt_default [] (field_str data ''type'') in
       if ty = ''assistant'' then
         (case Option.bind (Option.bind (field data ''message'') (\<lambda>m. field m ''content'')) as_array of
            None \<Rightarrow> 0 | Some bs \<Rightarrow> length bs)
       else if ty \<in> {''system'', ''mode'', ''permission-mode''} then 0
       else 1)"

subsection \<open>Lines and bytes\<close>

definition is_ascii_whitespace :: "char \<Rightarrow> bool" where
  "is_ascii_whitespace c = (c \<in> {byte 9, byte 10, byte 12, byte 13, byte 32})"

definition parse_line_dom :: "env \<Rightarrow> string \<Rightarrow> json option" where
  "parse_line_dom env line =
     (if \<forall>c\<in>set line. is_ascii_whitespace c then None
      else opt_filter is_object (e_from_str env line))"

definition entry_from_dom :: "env \<Rightarrow> (entry \<Rightarrow> bool) \<Rightarrow> json \<Rightarrow> parse_error + entry option" where
  "entry_from_dom env keep value =
     res_bind (parse_entry env value) (\<lambda>entry.
       if is_some_and (\<lambda>m. e_year env (timestamp m) < 1) (meta entry) then Inr None
       else Inr (if keep entry then Some entry else None))"

text \<open>\<open>parse_line\<close>: the vector of entries so far, extended by at most one entry.\<close>

definition parse_line ::
  "env \<Rightarrow> (entry \<Rightarrow> bool) \<Rightarrow> string \<Rightarrow> entry list \<Rightarrow> parse_error + entry list" where
  "parse_line env keep line lines =
     (case parse_line_dom env line of
        None \<Rightarrow> Inr lines
      | Some value \<Rightarrow>
          res_bind (entry_from_dom env keep value) (\<lambda>e. Inr (lines @ opt_list e)))"

text \<open>The newline walk of \<open>parse_bytes\<close>: \<open>cur\<close> is the line read so far, pushed at a
  newline; the tail counts when it is not empty.\<close>

fun parse_walk ::
  "env \<Rightarrow> (entry \<Rightarrow> bool) \<Rightarrow> string \<Rightarrow> string \<Rightarrow> entry list \<Rightarrow> parse_error + entry list" where
  "parse_walk env keep cur [] lines =
     (if cur = [] then Inr lines else parse_line env keep cur lines)"
| "parse_walk env keep cur (c # cs) lines =
     (if c = byte 10
      then res_bind (parse_line env keep cur lines) (parse_walk env keep [] cs)
      else parse_walk env keep (cur @ [c]) cs lines)"

definition parse_bytes :: "env \<Rightarrow> string \<Rightarrow> (entry \<Rightarrow> bool) \<Rightarrow> parse_error + entry list" where
  "parse_bytes env bytes keep = parse_walk env keep [] bytes []"


subsection \<open>The byte walk is line-wise\<close>

text \<open>One line on its own: what it adds to the entries.\<close>

definition line_entries :: "env \<Rightarrow> (entry \<Rightarrow> bool) \<Rightarrow> string \<Rightarrow> parse_error + entry list" where
  "line_entries env keep line = parse_line env keep line []"

lemma parse_line_acc:
  "parse_line env keep line lines = res_bind (line_entries env keep line) (\<lambda>es. Inr (lines @ es))"
  by (auto simp: line_entries_def parse_line_def res_bind_def split: option.splits sum.splits)

lemma line_entries_Nil [simp]: "line_entries env keep [] = Inr []"
  by (simp add: line_entries_def parse_line_def parse_line_dom_def)

lemma res_bind_assoc: "res_bind (res_bind m f) g = res_bind m (\<lambda>x. res_bind (f x) g)"
  by (cases m) auto

lemma split_char_snoc:
  "split_char d (s @ [c]) =
     (if c = d then split_char d s @ [[]]
      else butlast (split_char d s) @ [last (split_char d s) @ [c]])"
proof (induction s)
  case Nil
  then show ?case by simp
next
  case (Cons x s)
  obtain p ps where p: "split_char d s = p # ps" by (metis split_char_ne neq_Nil_conv)
  show ?case using Cons p by (cases ps) auto
qed

lemma parse_walk_lines:
  "byte 10 \<notin> set cur \<Longrightarrow> parse_walk env keep cur bytes lines =
     res_bind (map_res (line_entries env keep) (split_char (byte 10) (cur @ bytes)))
       (\<lambda>ess. Inr (lines @ concat ess))"
proof (induction bytes arbitrary: cur lines)
  case Nil
  have "split_char (byte 10) cur = [cur]" using Nil by (rule split_char_no_sep)
  then show ?case
    by (simp add: parse_line_acc res_bind_assoc)
next
  case (Cons c cs)
  show ?case
  proof (cases "c = byte 10")
    case True
    have "parse_walk env keep [] cs l =
       res_bind (map_res (line_entries env keep) (split_char (byte 10) cs))
         (\<lambda>ess. Inr (l @ concat ess))" for l
      using Cons.IH [of "[]" l] by simp
    then show ?thesis
      using Cons.prems by (simp add: True split_char_sep parse_line_acc res_bind_assoc)
  next
    case False
    with Cons.prems have "byte 10 \<notin> set (cur @ [c])" by simp
    from Cons.IH [OF this] False show ?thesis by simp
  qed
qed

lemma parse_bytes_split:
  "parse_bytes env bytes keep =
     res_bind (map_res (line_entries env keep) (split_char (byte 10) bytes)) (\<lambda>ess. Inr (concat ess))"
  by (simp add: parse_bytes_def parse_walk_lines)

lemma split_char_append_sep:
  "split_char d (a @ d # b) = split_char d a @ split_char d b"
proof (induction a)
  case Nil
  then show ?case by simp
next
  case (Cons x a)
  obtain p ps where p: "split_char d a = p # ps" by (metis split_char_ne neq_Nil_conv)
  show ?case using Cons p by simp
qed

lemma map_res_append:
  "map_res f (xs @ ys) = res_bind (map_res f xs) (\<lambda>as. res_bind (map_res f ys) (\<lambda>bs. Inr (as @ bs)))"
  by (induction xs) (auto simp: res_bind_assoc res_bind_def split: sum.splits)

lemma parse_bytes_lines:
  "parse_bytes env (a @ byte 10 # b) keep =
     res_bind (parse_bytes env a keep) (\<lambda>xs. res_bind (parse_bytes env b keep) (\<lambda>ys. Inr (xs @ ys)))"
  by (simp add: parse_bytes_split split_char_append_sep map_res_append res_bind_assoc)

lemma parse_bytes_newline: "parse_bytes env (a @ [byte 10]) keep = parse_bytes env a keep"
proof -
  have "parse_bytes env [] keep = Inr []" by (simp add: parse_bytes_split)
  then show ?thesis
    using parse_bytes_lines [of env a "[]" keep]
    by (simp add: res_bind_def split: sum.splits)
qed

text \<open>The keep predicate filters the entries of the unfiltered parse.\<close>

lemma line_entries_filter:
  "line_entries env keep line =
     res_bind (line_entries env (\<lambda>_. True) line) (\<lambda>es. Inr (filter keep es))"
  by (auto simp: line_entries_def parse_line_def entry_from_dom_def res_bind_def
      split: option.splits sum.splits)

lemma map_res_filter:
  "map_res (\<lambda>x. res_bind (f x) (\<lambda>y. Inr (g y))) xs = res_bind (map_res f xs) (\<lambda>ys. Inr (map g ys))"
  by (induction xs) (auto simp: res_bind_assoc res_bind_def split: sum.splits)

lemma parse_bytes_filter_all:
  "parse_bytes env bytes keep =
     res_bind (parse_bytes env bytes (\<lambda>_. True)) (\<lambda>es. Inr (filter keep es))"
proof -
  have "line_entries env keep = (\<lambda>l. res_bind (line_entries env (\<lambda>_. True) l) (\<lambda>es. Inr (filter keep es)))"
    by (rule ext) (rule line_entries_filter)
  then show ?thesis
    by (simp only: parse_bytes_split map_res_filter res_bind_assoc res_bind_simps filter_concat)
qed

subsection \<open>The retained arenas are bounded\<close>

definition pushes :: "nat \<Rightarrow> 'a rparse \<Rightarrow> bool" where
  "pushes n m \<longleftrightarrow> (\<forall>r x r'. m r = Inr (x, r') \<longrightarrow>
     length (ret_private r') \<le> length (ret_private r) + n)"

lemma pushes_weaken: "pushes n m \<Longrightarrow> n \<le> k \<Longrightarrow> pushes k m"
  unfolding pushes_def by (meson add_left_mono le_trans)

lemma pushes_return [wf_intros]: "pushes n (rp_return x)"
  by (simp add: pushes_def rp_return_def)

lemma pushes_lift [wf_intros]: "pushes n (rp_lift m)"
  by (auto simp: pushes_def rp_lift_def res_bind_Inr_iff)

lemma pushes_share [wf_intros]: "pushes n (share v)"
  by (simp add: pushes_def share_def)

lemma pushes_bind:
  assumes "pushes n m" "\<And>x. pushes k (f x)"
  shows "pushes (n + k) (rp_bind m f)"
  unfolding pushes_def
proof (intro allI impI)
  fix r y r' assume "rp_bind m f r = Inr (y, r')"
  then obtain x r1 where x: "m r = Inr (x, r1)" "f x r1 = Inr (y, r')"
    by (auto simp: rp_bind_def res_bind_Inr_iff)
  have "length (ret_private r1) \<le> length (ret_private r) + n" using assms(1) x(1) by (simp add: pushes_def)
  moreover have "length (ret_private r') \<le> length (ret_private r1) + k"
    using assms(2) [of x] x(2) by (simp add: pushes_def)
  ultimately show "length (ret_private r') \<le> length (ret_private r) + (n + k)" by simp
qed

lemma pushes_bind0 [wf_intros]:
  assumes "pushes 0 m" "\<And>x. pushes k (f x)"
  shows "pushes k (rp_bind m f)"
  using pushes_bind [OF assms] by simp

lemma pushes_bind_last:
  assumes "pushes n m" "\<And>x. pushes 0 (f x)"
  shows "pushes n (rp_bind m f)"
  using pushes_bind [OF assms] by simp

lemma pushes_normalized: "pushes 1 (normalized env v)"
  by (auto simp: pushes_def normalized_def share_def res_bind_Inr_iff split: option.splits)

lemma pushes_bind_norm: "(\<And>x. pushes 0 (f x)) \<Longrightarrow> pushes 1 (rp_bind (normalized env v) f)"
  by (rule pushes_bind_last [OF pushes_normalized])

lemma pushes_normalized_opt: "pushes 1 (normalized_opt env v)"
  unfolding normalized_opt_def
  by (cases v) (auto simp: pushes_return intro: pushes_bind_norm [simplified] pushes_return)

lemma pushes_share_opt [wf_intros]: "pushes n (share_opt v)"
  unfolding share_opt_def
  by (cases v) (auto intro!: wf_intros intro: pushes_weaken [of 0])

lemma pushes_if [wf_intros]: "pushes n a \<Longrightarrow> pushes n b \<Longrightarrow> pushes n (if c then a else b)"
  by simp

lemma pushes_map: "(\<And>x. pushes k (f x)) \<Longrightarrow> pushes (length xs * k) (rp_map f xs)"
proof (induction xs)
  case Nil
  then show ?case by (simp add: pushes_return)
next
  case (Cons x xs)
  have "pushes (k + (length xs * k + 0)) (rp_map f (x # xs))"
    unfolding rp_map.simps
    by (intro pushes_bind pushes_return Cons.IH Cons.prems)
  then show ?case by simp
qed

lemma pushes_user_blocks [wf_intros]: "pushes 0 (parse_user_blocks tur tdk bs)"
  by (induction bs)
    (auto simp: parse_tool_result_def Let_def split: option.splits intro!: wf_intros)

lemma pushes_user_content [wf_intros]: "pushes 0 (parse_user_content c tur tdk)"
  unfolding parse_user_content_def by (auto split: option.splits intro!: wf_intros)

lemma pushes_assistant_block: "pushes 1 (parse_assistant_block env b)"
proof (cases "block_type b")
  case None
  then show ?thesis by (simp add: parse_assistant_block_def pushes_lift)
next
  case (Some ty)
  show ?thesis
    unfolding parse_assistant_block_def Some option.case
    by (intro pushes_if pushes_bind_norm pushes_bind0 pushes_lift pushes_return)
qed

lemma pushes_user_entry: "pushes 1 (parse_user_entry env d)"
  unfolding parse_user_entry_def
  by (intro pushes_bind0 [OF pushes_lift] pushes_bind0 [OF pushes_user_content]
      pushes_bind_last [OF pushes_normalized_opt] pushes_return)

lemma pushes_attachment_detail: "pushes 1 (parse_attachment_detail env d)"
  unfolding parse_attachment_detail_def Let_def
  by (intro pushes_if pushes_bind_last pushes_normalized_opt pushes_return pushes_share)

lemma pushes_attachment_entry: "pushes 1 (parse_attachment_entry env d)"
  unfolding parse_attachment_entry_def
  by (intro pushes_bind_last [OF pushes_attachment_detail] pushes_bind0 pushes_lift pushes_return)

lemma pushes_system_entry: "pushes 0 (parse_system_entry env d)"
  unfolding parse_system_entry_def parse_system_detail_def Let_def
  by (intro pushes_bind0 pushes_if wf_intros)

lemma pushes_mode_entry: "pushes 0 (parse_mode_entry ch key d)"
  unfolding parse_mode_entry_def by (intro wf_intros)

text \<open>Unpacking a successful run, step by step and by entry type.\<close>

lemma rp_bind_Inr_iff:
  "rp_bind m f r = Inr (y, r') \<longleftrightarrow> (\<exists>x r1. m r = Inr (x, r1) \<and> f x r1 = Inr (y, r'))"
  by (auto simp: rp_bind_def res_bind_Inr_iff)

lemma rp_lift_Inr_iff: "rp_lift m r = Inr (x, r') \<longleftrightarrow> m = Inr x \<and> r' = r"
  by (auto simp: rp_lift_def res_bind_Inr_iff)

lemma rp_return_Inr_iff: "rp_return x r = Inr (y, r') \<longleftrightarrow> y = x \<and> r' = r"
  by (auto simp: rp_return_def)

lemmas rp_iffs = rp_bind_Inr_iff rp_lift_Inr_iff rp_return_Inr_iff

lemma require_str_Inr_iff: "require_str d k = Inr s \<longleftrightarrow> field_str d k = Some s"
  by (auto simp: require_str_def require_def field_str_def res_bind_Inr_iff ok_or_Inr_iff bind_eq_Some_conv)

lemma six_way:
  obtains "a" | "\<not> a" "b" | "\<not> a" "\<not> b" "c" | "\<not> a" "\<not> b" "\<not> c" "d"
  | "\<not> a" "\<not> b" "\<not> c" "\<not> d" "e" | "\<not> a" "\<not> b" "\<not> c" "\<not> d" "\<not> e" "f"
  | "\<not> a" "\<not> b" "\<not> c" "\<not> d" "\<not> e" "\<not> f"
  by blast

lemma parse_entry_retained_cases:
  assumes "parse_entry_retained env d r = Inr (e, r')"
  obtains (user) "field_str d ''type'' = Some ''user''" "parse_user_entry env d r = Inr (e, r')"
  | (assistant) "field_str d ''type'' = Some ''assistant''" "parse_assistant_entry env d r = Inr (e, r')"
  | (system) "field_str d ''type'' = Some ''system''" "parse_system_entry env d r = Inr (e, r')"
  | (mode) "field_str d ''type'' = Some ''mode''"
      "parse_mode_entry ChannelMode ''mode'' d r = Inr (e, r')"
  | (permission) "field_str d ''type'' = Some ''permission-mode''"
      "parse_mode_entry ChannelPermissionMode ''permissionMode'' d r = Inr (e, r')"
  | (attachment) "field_str d ''type'' = Some ''attachment''" "parse_attachment_entry env d r = Inr (e, r')"
  | (other) ty raw where "field_str d ''type'' = Some ty" "normalized env d r = Inr (raw, r')"
      "e = Other \<lparr>oe_ty = ty, oe_raw = raw\<rparr>"
      "ty \<notin> {''user'', ''assistant'', ''system'', ''mode'', ''permission-mode'', ''attachment''}"
proof -
  obtain ty where ty: "field_str d ''type'' = Some ty"
    and run: "(if ty = ''user'' then parse_user_entry env d
     else if ty = ''assistant'' then parse_assistant_entry env d
     else if ty = ''system'' then parse_system_entry env d
     else if ty = ''mode'' then parse_mode_entry ChannelMode ''mode'' d
     else if ty = ''permission-mode'' then parse_mode_entry ChannelPermissionMode ''permissionMode'' d
     else if ty = ''attachment'' then parse_attachment_entry env d
     else rp_bind (normalized env d) (\<lambda>raw. rp_return (Other \<lparr>oe_ty = ty, oe_raw = raw\<rparr>))) r
     = Inr (e, r')" (is "?run r = _")
    using assms unfolding parse_entry_retained_def rp_bind_Inr_iff rp_lift_Inr_iff require_str_Inr_iff
    by blast
  show thesis
  proof (cases rule: six_way [where a = "ty = ''user''" and b = "ty = ''assistant''" and c = "ty = ''system''" and d = "ty = ''mode''" and e = "ty = ''permission-mode''" and f = "ty = ''attachment''"])
    case 1
    with ty run show ?thesis by (intro that(1)) simp_all
  next
    case 2
    with ty run show ?thesis by (intro that(2)) simp_all
  next
    case 3
    with ty run show ?thesis by (intro that(3)) simp_all
  next
    case 4
    with ty run show ?thesis by (intro that(4)) simp_all
  next
    case 5
    with ty run show ?thesis by (intro that(5)) simp_all
  next
    case 6
    with ty run show ?thesis by (intro that(6)) simp_all
  next
    case 7
    then have "rp_bind (normalized env d) (\<lambda>raw. rp_return (Other \<lparr>oe_ty = ty, oe_raw = raw\<rparr>)) r
      = Inr (e, r')" using run by simp
    then obtain raw where "normalized env d r = Inr (raw, r')" "e = Other \<lparr>oe_ty = ty, oe_raw = raw\<rparr>"
      unfolding rp_iffs by blast
    with ty 7 show ?thesis by (intro that(7)) simp_all
  qed
qed

lemma parse_user_entry_shape:
  assumes "parse_user_entry env d r = Inr (e, r')"
  obtains u where "e = User u" "parse_meta env d = Inr (ue_meta u)"
  using assms that unfolding parse_user_entry_def rp_iffs by fastforce

lemma parse_assistant_entry_shape:
  assumes "parse_assistant_entry env d r = Inr (e, r')"
  obtains a where "e = Assistant a" "parse_meta env d = Inr (as_meta a)"
  using assms that unfolding parse_assistant_entry_def rp_iffs by fastforce

lemma parse_system_entry_shape:
  assumes "parse_system_entry env d r = Inr (e, r')"
  obtains x where "e = System x" "parse_meta env d = Inr (se_meta x)"
  using assms that unfolding parse_system_entry_def rp_iffs by fastforce

lemma parse_attachment_entry_shape:
  assumes "parse_attachment_entry env d r = Inr (e, r')"
  obtains x where "e = Attachment x" "parse_meta env d = Inr (ate_meta x)"
  using assms that unfolding parse_attachment_entry_def rp_iffs by fastforce

lemma parse_mode_entry_shape:
  assumes "parse_mode_entry ch key d r = Inr (e, r')"
  obtains m where "e = Mode m" "channel m = ch" "field_str d ''sessionId'' = Some (mo_session_id m)"
    "field_str d key = Some (mo_value m)"
  using assms that unfolding parse_mode_entry_def rp_iffs require_str_Inr_iff by fastforce

text \<open>The number of content blocks of an assistant value.\<close>

definition assistant_block_count :: "json \<Rightarrow> nat" where
  "assistant_block_count d =
     (case Option.bind (Option.bind (field d ''message'') (\<lambda>m. field m ''content'')) as_array of
        None \<Rightarrow> 0 | Some bs \<Rightarrow> length bs)"

lemma assistant_entry_pushes:
  assumes "parse_assistant_entry env d r = Inr (e, r')"
  shows "length (ret_private r') \<le> length (ret_private r) + assistant_block_count d"
proof -
  obtain m c bs items where
    m: "field d ''message'' = Some m" "field m ''content'' = Some c" "as_array c = Some items"
    and bs: "rp_map (parse_assistant_block env) items r = Inr (bs, r')"
    using assms
    unfolding parse_assistant_entry_def parse_assistant_blocks_def rp_iffs require_def
      require_array_def ok_or_Inr_iff
    by blast
  have "pushes (length items * 1) (rp_map (parse_assistant_block env) items)"
    by (intro pushes_map pushes_assistant_block)
  with bs have "length (ret_private r') \<le> length (ret_private r) + length items"
    by (simp add: pushes_def)
  then show ?thesis using m by (simp add: assistant_block_count_def)
qed

lemma pushesD: "pushes n m \<Longrightarrow> m r = Inr (x, r') \<Longrightarrow> length (ret_private r') \<le> length (ret_private r) + n"
  by (simp add: pushes_def)

lemma entry_pushes:
  assumes "parse_entry_retained env d r = Inr (e, r')"
  shows "length (ret_private r') + 1 \<le> length (ret_private r) + retained_arena_bound d"
  using assms
proof (cases rule: parse_entry_retained_cases)
  case user
  then show ?thesis using pushesD [OF pushes_user_entry user(2)] by (simp add: retained_arena_bound_def)
next
  case assistant
  then show ?thesis using assistant_entry_pushes [OF assistant(2)]
    by (simp add: retained_arena_bound_def assistant_block_count_def)
next
  case system
  then show ?thesis using pushesD [OF pushes_system_entry system(2)] by (simp add: retained_arena_bound_def)
next
  case mode
  then show ?thesis using pushesD [OF pushes_mode_entry mode(2)] by (simp add: retained_arena_bound_def)
next
  case permission
  then show ?thesis using pushesD [OF pushes_mode_entry permission(2)] by (simp add: retained_arena_bound_def)
next
  case attachment
  then show ?thesis using pushesD [OF pushes_attachment_entry attachment(2)]
    by (simp add: retained_arena_bound_def)
next
  case (other ty raw)
  then show ?thesis using pushesD [OF pushes_normalized other(2)]
    by (simp add: retained_arena_bound_def)
qed

lemma arenas_length: "length (arenas r v n) \<le> length (ret_private r) + 1"
  by (simp add: arenas_def)

subsection \<open>Timestamps\<close>

text \<open>A timestamp the parser accepts carries whole microseconds and no leap second.\<close>

definition micros_ok :: "datetime \<Rightarrow> bool" where
  "micros_ok t \<longleftrightarrow> dt_nanos t < 1000000000 \<and> dt_nanos t mod 1000 = 0"

lemma parse_timestamp_micros: "parse_timestamp env raw = Inr t \<Longrightarrow> micros_ok t"
proof -
  have "n div 1000 * 1000 \<le> (n::nat)" for n by simp
  then show "parse_timestamp env raw = Inr t \<Longrightarrow> micros_ok t"
    by (auto simp: parse_timestamp_def micros_ok_def intro: le_less_trans
        split: option.splits if_splits)
qed

lemma parse_meta_micros: "parse_meta env d = Inr m \<Longrightarrow> micros_ok (timestamp m)"
  by (auto simp: parse_meta_def res_bind_Inr_iff dest: parse_timestamp_micros)

text \<open>What a parsed entry carries of its envelope is the parsed envelope.\<close>

lemma entry_meta_parsed:
  assumes "parse_entry_retained env d r = Inr (e, r')" "meta e = Some m"
  shows "parse_meta env d = Inr m"
  using assms(1)
proof (cases rule: parse_entry_retained_cases)
  case user
  with assms(2) show ?thesis by (auto elim!: parse_user_entry_shape simp: meta_def)
next
  case assistant
  with assms(2) show ?thesis by (auto elim!: parse_assistant_entry_shape simp: meta_def)
next
  case system
  with assms(2) show ?thesis by (auto elim!: parse_system_entry_shape simp: meta_def)
next
  case attachment
  with assms(2) show ?thesis by (auto elim!: parse_attachment_entry_shape simp: meta_def)
next
  case mode
  with assms(2) show ?thesis by (auto elim!: parse_mode_entry_shape simp: meta_def)
next
  case permission
  with assms(2) show ?thesis by (auto elim!: parse_mode_entry_shape simp: meta_def)
next
  case other
  with assms(2) show ?thesis by (simp add: meta_def)
qed

text \<open>The constructor a line's \<open>type\<close> names, written from the six typed spellings: the
  catch-all constructor is allowed for no typed spelling, so a typed line is never an
  untyped entry.\<close>

definition typed_spellings :: "string set" where
  "typed_spellings = {''user'', ''assistant'', ''system'', ''mode'', ''permission-mode'', ''attachment''}"

definition entry_as_typed :: "json \<Rightarrow> string \<Rightarrow> entry \<Rightarrow> bool" where
  "entry_as_typed d t e = (case e of
      User _ \<Rightarrow> t = ''user''
    | Assistant _ \<Rightarrow> t = ''assistant''
    | System _ \<Rightarrow> t = ''system''
    | Attachment _ \<Rightarrow> t = ''attachment''
    | Mode m \<Rightarrow> field_str d ''sessionId'' = Some (mo_session_id m) \<and>
        (case channel m of
           ChannelMode \<Rightarrow> t = ''mode'' \<and> field_str d ''mode'' = Some (mo_value m)
         | ChannelPermissionMode \<Rightarrow>
             t = ''permission-mode'' \<and> field_str d ''permissionMode'' = Some (mo_value m))
    | Other x \<Rightarrow> t \<notin> typed_spellings \<and> oe_ty x = t \<and>
        (subtree_has_duplicate_keys d \<or> oe_raw x = d))"

lemma normalized_same:
  assumes "normalized env d r = Inr (raw, r')" "\<not> subtree_has_duplicate_keys d"
  shows "raw = d"
  using assms by (simp add: normalized_def deduplicated_def share_def)

lemma entry_typed:
  assumes "parse_entry_retained env d r = Inr (e, r')"
  shows "\<exists>t. field_str d ''type'' = Some t \<and> entry_as_typed d t e"
  using assms
proof (cases rule: parse_entry_retained_cases)
  case user
  then show ?thesis by (auto elim!: parse_user_entry_shape simp: entry_as_typed_def)
next
  case assistant
  then show ?thesis by (auto elim!: parse_assistant_entry_shape simp: entry_as_typed_def)
next
  case system
  then show ?thesis by (auto elim!: parse_system_entry_shape simp: entry_as_typed_def)
next
  case attachment
  then show ?thesis by (auto elim!: parse_attachment_entry_shape simp: entry_as_typed_def)
next
  case mode
  then show ?thesis by (auto elim!: parse_mode_entry_shape simp: entry_as_typed_def)
next
  case permission
  then show ?thesis by (auto elim!: parse_mode_entry_shape simp: entry_as_typed_def)
next
  case other
  then show ?thesis
    by (auto simp: entry_as_typed_def typed_spellings_def dest: normalized_same)
qed

subsection \<open>Properties\<close>

text \<open>C1: duplicate object keys. Whatever JSON object the decoder delivers, the value an entry
  keeps of it (\<open>normalized_owned\<close>) has no duplicate key at any level, its keys stand in the
  order of their first occurrence, and each key reads the last value written under it,
  itself collapsed: Python's semantics. The one fact used of the JSON crate is that the
  re-serialised text of the collapsed value parses back to it.\<close>

theorem duplicate_keys_last_wins:
  assumes "subtree_has_duplicate_keys (JObject ps) \<Longrightarrow> reparses env (last_wins (JObject ps))"
  shows "\<exists>qs. normalized_owned env (JObject ps) = Inr (JObject qs) \<and>
     \<not> subtree_has_duplicate_keys (JObject qs) \<and>
     map fst qs = first_seen [] (map fst ps) \<and>
     (\<forall>k. field (JObject qs) k = map_option last_wins (map_of (rev ps) k))"
proof -
  let ?qs = "deduped_pairs (map (\<lambda>(k, v). (k, last_wins v)) ps)"
  have lw: "last_wins (JObject ps) = JObject ?qs" by simp
  have "normalized_owned env (JObject ps) = Inr (JObject ?qs)"
    unfolding lw [symmetric] by (rule normalized_owned_last_wins [OF assms])
  moreover have "\<not> subtree_has_duplicate_keys (JObject ?qs)"
    using last_wins_no_duplicates [of "JObject ps"] by (simp only: lw not_False_eq_True)
  moreover have "map fst ?qs = first_seen [] (map fst ps)"
    by (simp add: first_seen_filter_map_of comp_def case_prod_unfold)
  moreover have "field (JObject ?qs) k = map_option last_wins (map_of (rev ps) k)" for k
    using field_last_wins [of ps k] by (simp only: lw)
  ultimately show ?thesis by blast
qed

definition sample_dup :: "(string \<times> json) list" where
  "sample_dup = [(''a'', JNull), (''b'', JBool True), (''a'', JString ''x'')]"

definition sample_dup_text :: string where
  "sample_dup_text = print_json (sample_env []) (JObject [(''a'', JString ''x''), (''b'', JBool True)])"

lemma last_wins_sample_dup:
  "last_wins (JObject sample_dup) = JObject [(''a'', JString ''x''), (''b'', JBool True)]"
  by (simp add: sample_dup_def deduped_pairs_def od_of_def od_put_def od_empty_def od_items_def
      List.map_filter_simps)

lemma print_sample_dup:
  "print_json (sample_env t) (JObject [(''a'', JString ''x''), (''b'', JBool True)]) = sample_dup_text"
  by (simp add: sample_dup_text_def)

theorem duplicate_keys_last_wins_witness:
  "\<exists>qs. normalized_owned (sample_env [(sample_dup_text, last_wins (JObject sample_dup))])
       (JObject sample_dup) = Inr (JObject qs) \<and>
     \<not> subtree_has_duplicate_keys (JObject qs) \<and>
     map fst qs = first_seen [] (map fst sample_dup) \<and>
     (\<forall>k. field (JObject qs) k = map_option last_wins (map_of (rev sample_dup) k))"
  by (rule duplicate_keys_last_wins)
    (simp only: reparses_def last_wins_sample_dup print_sample_dup sample_env_simps map_of.simps
      fun_upd_same fst_conv snd_conv)

text \<open>C2: the byte walk of \<open>parse_bytes\<close> is the line-wise parse. Its result is the
  concatenation, in file order, of what each newline-separated line contributes, restricted
  to the entries \<open>keep\<close> accepts; it fails exactly when some line fails, with the first
  such failure.\<close>

theorem parse_bytes_linewise:
  "parse_bytes env bytes keep =
     res_bind (map_res (line_entries env (\<lambda>_. True)) (split_char (byte 10) bytes))
       (\<lambda>ess. Inr (filter keep (concat ess)))"
  by (subst parse_bytes_filter_all) (simp add: parse_bytes_split res_bind_assoc)

text \<open>Incremental reads. Cutting the bytes at any newline and parsing the two halves
  separately gives the entries of the whole file, in order; so a reader may resume at the
  last newline it saw.\<close>

theorem parse_bytes_resume:
  "parse_bytes env (a @ [byte 10] @ b) keep =
     res_bind (parse_bytes env (a @ [byte 10]) keep) (\<lambda>xs.
     res_bind (parse_bytes env b keep) (\<lambda>ys. Inr (xs @ ys)))"
  unfolding parse_bytes_newline by (simp only: append_Cons append_Nil parse_bytes_lines)

text \<open>The arena count reserved before a line is parsed (\<open>retained_arena_bound\<close>) is never
  exceeded by the arenas the parse of that line retains.\<close>

theorem retained_arenas_bounded:
  assumes "parse_entry_retained env d retained_default = Inr (e, r)"
  shows "length (arenas r d n) \<le> retained_arena_bound d"
  using entry_pushes [OF assms] arenas_length [of r d n] by (simp add: retained_default_def)

definition sample_mode_line :: json where
  "sample_mode_line = JObject [(''type'', JString ''mode''), (''sessionId'', JString ''s1''),
     (''mode'', JString ''plan'')]"

definition sample_mode_entry :: mode_entry where
  "sample_mode_entry = \<lparr>mo_session_id = ''s1'', channel = ChannelMode, mo_value = ''plan''\<rparr>"

lemma parse_sample_mode:
  "parse_entry_retained env sample_mode_line retained_default =
     Inr (Mode sample_mode_entry, retained_default)"
  by (simp add: parse_entry_retained_def sample_mode_line_def rp_bind_def rp_lift_def rp_return_def
      require_str_def require_def parse_mode_entry_def sample_mode_entry_def)

theorem retained_arenas_bounded_witness:
  "length (arenas retained_default sample_mode_line 60) \<le> retained_arena_bound sample_mode_line"
  by (rule retained_arenas_bounded [OF parse_sample_mode [of "sample_env []"]])

text \<open>C8: every entry a line yields has the constructor its \<open>type\<close> field names: a user line
  is a \<open>User\<close> entry, an assistant line an \<open>Assistant\<close> entry and so on, a permission-mode line a
  \<open>Mode\<close> entry on the other channel with the mode value of its own key, and only a line of none
  of the six typed spellings is the catch-all \<open>Other\<close>, which keeps the type and, where the line
  repeats no key, the line itself. Its uuid and session are the line's, and its timestamp is in
  whole microseconds with no leap second, the precision Python's \<open>datetime\<close> has.\<close>

theorem parsed_entry_sound:
  assumes "parse_entry env d = Inr e"
  shows "(\<exists>t. field_str d ''type'' = Some t \<and> entry_as_typed d t e) \<and>
     (\<forall>m. meta e = Some m \<longrightarrow>
        field_str d ''uuid'' = Some (uuid m) \<and> field_str d ''sessionId'' = Some (em_session_id m) \<and>
        micros_ok (timestamp m))"
proof -
  obtain r where r: "parse_entry_retained env d retained_default = Inr (e, r)"
    using assms by (auto simp: parse_entry_def res_bind_Inr_iff)
  have "field_str d ''uuid'' = Some (uuid m)" "field_str d ''sessionId'' = Some (em_session_id m)"
    "micros_ok (timestamp m)" if "meta e = Some m" for m
    using entry_meta_parsed [OF r that]
    by (auto simp: parse_meta_def res_bind_Inr_iff require_str_Inr_iff dest: parse_timestamp_micros)
  then show ?thesis using entry_typed [OF r] by blast
qed

definition sample_system_line :: json where
  "sample_system_line = JObject [(''type'', JString ''system''), (''uuid'', JString ''u1''),
     (''sessionId'', JString ''s1''), (''timestamp'', JString ''2026''),
     (''subtype'', JString ''turn_duration'')]"

lemma parse_sample_system:
  "\<exists>e. parse_entry (sample_env []) sample_system_line = Inr e"
  by (simp add: parse_entry_def parse_entry_retained_def sample_system_line_def rp_bind_def rp_lift_def
      rp_return_def require_str_def require_def parse_system_entry_def parse_system_detail_def
      parse_meta_def parse_timestamp_def sample_time_def field_str_def Let_def)

theorem parsed_entry_sound_witness:
  "\<exists>e. parse_entry (sample_env []) sample_system_line = Inr e \<and>
     (\<exists>t. field_str sample_system_line ''type'' = Some t \<and> entry_as_typed sample_system_line t e) \<and>
     (\<forall>m. meta e = Some m \<longrightarrow>
        field_str sample_system_line ''uuid'' = Some (uuid m) \<and>
        field_str sample_system_line ''sessionId'' = Some (em_session_id m) \<and>
        micros_ok (timestamp m))"
  using parse_sample_system parsed_entry_sound by blast

end
