(* ===== verification/ToolCall.thy ===== *)
theory ToolCall
  imports Parse "HOL-Library.AList"
begin

text \<open>
  \<open>toolcall.rs\<close>: the typed tool calls and results, lowered from a tool name and its
  JSON input. The tool registry (the process-wide one behind an \<open>RwLock\<close> and the
  thread-local override) is an explicit state \<open>registry\<close>; the fingerprint of a
  snapshot, a digest of the specs, is left out. Record fields carry the initials of their
  struct.
\<close>

subsection \<open>Names and aliases\<close>

definition tool_aliases :: "string \<Rightarrow> string list" where
  "tool_aliases name =
     (if name = ''Bash'' then [''Execute'', ''exec_command'']
      else if name = ''Edit'' then [''apply_patch'']
      else if name = ''Write'' then [''Create'']
      else if name = ''Agent'' then [''Task'']
      else if name = ''WebFetch'' then [''FetchUrl'']
      else if name = ''ExitPlanMode'' then [''ExitSpecMode'']
      else [])"

definition tool_alias_reverse :: "string \<Rightarrow> string option" where
  "tool_alias_reverse name =
     (if name = ''Execute'' \<or> name = ''exec_command'' then Some ''Bash''
      else if name = ''Create'' then Some ''Write''
      else if name = ''Task'' then Some ''Agent''
      else if name = ''FetchUrl'' then Some ''WebFetch''
      else if name = ''ExitSpecMode'' then Some ''ExitPlanMode''
      else None)"

definition canonical_tool :: "string \<Rightarrow> string" where
  "canonical_tool name = opt_default name (tool_alias_reverse name)"

definition CODEX_VERBATIM_TOOLS :: "string list" where
  "CODEX_VERBATIM_TOOLS = [''exec_command'', ''exec'', ''apply_patch'', ''update_plan'', ''write_stdin'']"

definition requires_object_input :: "string \<Rightarrow> bool" where
  "requires_object_input canonical = (canonical \<in> {''Bash'', ''Edit'', ''MultiEdit'', ''Write'', ''Read'',
     ''NotebookEdit'', ''Grep'', ''Glob'', ''Agent'', ''Workflow'', ''Skill'', ''TaskCreate'',
     ''TaskUpdate'', ''ExitPlanMode''})"

definition READ_VERBS :: "string list" where
  "READ_VERBS = [''get'', ''list'', ''search'', ''read'', ''view'', ''fetch'', ''query'', ''describe'',
     ''show'', ''find'']"

definition mcp_parts :: "string \<Rightarrow> (string \<times> string) option" where
  "mcp_parts name = Option.bind (strip_prefix ''mcp__'' name) (split_once ''__'')"

definition mcp_access :: "env \<Rightarrow> string \<Rightarrow> string" where
  "mcp_access env tool =
     (let lowered = e_lower env tool in
      if (\<exists>verb\<in>set READ_VERBS. prefix verb lowered)
         \<or> (\<exists>t\<in>set (split_char CHR ''_'' lowered). t \<in> set READ_VERBS)
      then ''read'' else ''write'')"

subsection \<open>The registry\<close>

record span_edit_map =
  sm_path :: string
  sm_content :: string
  sm_delete :: "string option"

record mcp_tool_spec =
  behaves_like :: string
  span_edit :: "span_edit_map option"

record tool_registry_definition =
  rd_name :: string
  rd_behaves_like :: string
  rd_span_edit :: "span_edit_map option"

text \<open>A \<open>HashMap\<close> with unspecified iteration order: an association list of distinct
  keys, read as a map or as a set of pairs only.\<close>

type_synonym specs = "(string \<times> mcp_tool_spec) list"

record registry =
  mcp_registry :: specs
  registry_override :: "specs option"

definition capture_scoped :: "registry \<Rightarrow> specs option" where
  "capture_scoped st = registry_override st"

definition capture_current :: "registry \<Rightarrow> specs" where
  "capture_current st = opt_default (mcp_registry st) (capture_scoped st)"

text \<open>\<open>with_registry\<close>: the override for the run of the operation, the previous one restored
  when the scope is dropped.\<close>

definition with_registry :: "specs \<Rightarrow> (registry \<Rightarrow> 'a \<times> registry) \<Rightarrow> registry \<Rightarrow> 'a \<times> registry" where
  "with_registry reg operation st =
     (let previous = registry_override st;
          (x, st') = operation (st\<lparr>registry_override := Some reg\<rparr>)
      in (x, st'\<lparr>registry_override := previous\<rparr>))"

definition register_mcp_tool :: "string \<Rightarrow> mcp_tool_spec \<Rightarrow> registry \<Rightarrow> registry" where
  "register_mcp_tool tool spec st = st\<lparr>mcp_registry := AList.update tool spec (mcp_registry st)\<rparr>"

definition unregister_mcp_tool :: "string \<Rightarrow> registry \<Rightarrow> bool \<times> registry" where
  "unregister_mcp_tool tool st =
     (if map_of (mcp_registry st) tool = None then (False, st)
      else (True, st\<lparr>mcp_registry := AList.delete tool (mcp_registry st)\<rparr>))"

definition mcp_tool_alias :: "registry \<Rightarrow> string \<Rightarrow> string option" where
  "mcp_tool_alias st tool = map_option behaves_like (map_of (capture_current st) tool)"

definition registered_span_edit :: "registry \<Rightarrow> string \<Rightarrow> span_edit_map option" where
  "registered_span_edit st tool = Option.bind (map_of (capture_current st) tool) span_edit"

text \<open>\<open>types.rs matches_names\<close>.\<close>

definition matches_names :: "registry \<Rightarrow> string \<Rightarrow> string set \<Rightarrow> bool" where
  "matches_names st actual names =
     (actual \<in> names \<or>
      (case mcp_parts actual of
         None \<Rightarrow> False
       | Some (_, tool) \<Rightarrow> tool \<in> names \<or> is_some_and (\<lambda>b. b \<in> names) (mcp_tool_alias st tool)))"

fun expand_names :: "string list \<Rightarrow> string list" where
  "expand_names [] = []"
| "expand_names (name # rest) =
     name # canonical_tool name # tool_aliases (canonical_tool name) @ expand_names rest"

definition expand_tool_names :: "registry \<Rightarrow> string \<Rightarrow> string set" where
  "expand_tool_names st spec =
     (let names = set (expand_names (split_char CHR ''|'' spec));
          registered = map fst (filter (\<lambda>(_, sp). behaves_like sp \<in> names) (capture_current st))
      in names \<union> set registered)"

definition tool_name_matches :: "registry \<Rightarrow> string \<Rightarrow> string \<Rightarrow> bool" where
  "tool_name_matches st actual spec =
     fst (with_registry (capture_current st)
       (\<lambda>s. (matches_names s actual (expand_tool_names s spec), s)) st)"

text \<open>\<open>specs_from_json\<close>: the definitions are checked one by one, then decoded by the derived
  serde decoder, the parameter \<open>decode\<close>.\<close>

datatype registry_error =
    TokenNotString string
  | TokenLength string
  | DefinitionsNotList
  | TooManyDefinitions
  | DuplicateDefinition string
  | SpanEditRequired
  | SpanDeleteRequired
  | DecodeFailed

definition registry_token :: "json option \<Rightarrow> string \<Rightarrow> registry_error + string" where
  "registry_token value label =
     res_bind (ok_or (TokenNotString label) (Option.bind value as_str)) (\<lambda>token.
       if token = [] \<or> length (take 257 (chars token)) > 256 then Inl (TokenLength label)
       else Inr token)"

definition check_span :: "json \<Rightarrow> registry_error + unit" where
  "check_span d =
     res_bind (ok_or SpanEditRequired (field d ''span_edit'')) (\<lambda>span.
       if is_null span then Inr ()
       else res_bind (registry_token (field span ''path'') ''span_edit.path'') (\<lambda>_.
            res_bind (registry_token (field span ''content'') ''span_edit.content'') (\<lambda>_.
            res_bind (ok_or SpanDeleteRequired (field span ''delete'')) (\<lambda>delete.
              if is_null delete then Inr ()
              else res_bind (registry_token (Some delete) ''span_edit.delete'') (\<lambda>_. Inr ())))))"

fun check_definitions :: "string list \<Rightarrow> json list \<Rightarrow> registry_error + string list" where
  "check_definitions names [] = Inr names"
| "check_definitions names (d # ds) =
     res_bind (registry_token (field d ''name'') ''name'') (\<lambda>name.
       if name \<in> set names then Inl (DuplicateDefinition name)
       else res_bind (registry_token (field d ''behaves_like'') ''behaves_like'') (\<lambda>_.
            res_bind (check_span d) (\<lambda>_. check_definitions (names @ [name]) ds)))"

definition specs_from_json ::
  "(json \<Rightarrow> tool_registry_definition list option) \<Rightarrow> json \<Rightarrow> registry_error + specs" where
  "specs_from_json decode value =
     res_bind (ok_or DefinitionsNotList (as_array value)) (\<lambda>definitions.
       if length definitions > 256 then Inl TooManyDefinitions
       else res_bind (check_definitions [] definitions) (\<lambda>_.
            res_bind (ok_or DecodeFailed (decode value)) (\<lambda>decoded.
              Inr (foldl (\<lambda>m d. AList.update (rd_name d)
                     \<lparr>behaves_like = rd_behaves_like d, span_edit = rd_span_edit d\<rparr> m) [] decoded))))"

subsection \<open>Input readers\<close>

definition opt_value :: "json \<Rightarrow> string \<Rightarrow> json option" where
  "opt_value input key = opt_filter (\<lambda>v. \<not> is_null v) (field input key)"

fun opt_keys :: "json \<Rightarrow> string list \<Rightarrow> json option" where
  "opt_keys input [] = None"
| "opt_keys input (k # ks) = opt_or (opt_value input k) (opt_keys input ks)"

definition get_or_false :: "json \<Rightarrow> string \<Rightarrow> json" where
  "get_or_false input key = opt_default (JBool False) (field input key)"

definition opt_array :: "json \<Rightarrow> string \<Rightarrow> json option" where
  "opt_array input key = opt_filter (\<lambda>v. as_array v \<noteq> None) (field input key)"

definition present :: "json \<Rightarrow> string \<Rightarrow> bool" where
  "present input key = is_some_and (\<lambda>v. \<not> is_null v) (field input key)"

definition truthy :: "json \<Rightarrow> bool" where
  "truthy v = is_py_truthy v"

definition value_type_name :: "json \<Rightarrow> string" where
  "value_type_name v = (case v of
      JNull \<Rightarrow> ''NoneType''
    | JBool _ \<Rightarrow> ''bool''
    | JNumber n \<Rightarrow> (case num_raw n of
          Some raw \<Rightarrow> if \<exists>b\<in>set raw. b \<in> {CHR ''.'', CHR ''e'', CHR ''E''} then ''float'' else ''int''
        | None \<Rightarrow> ''dict'')
    | JString _ \<Rightarrow> ''str''
    | JArray _ \<Rightarrow> ''list''
    | JObject _ \<Rightarrow> ''dict'')"

datatype tool_input_error =
    NonMapping string
  | MissingKey string
  | WrongType string string
  | Malformed string

definition quote_char :: string where
  "quote_char = [byte 39]"

definition error_text :: "tool_input_error \<Rightarrow> string" where
  "error_text e = (case e of
      NonMapping py_type \<Rightarrow> ''input must be a mapping, got '' @ py_type
    | MissingKey key \<Rightarrow> ''input missing or malformed: '' @ quote_char @ key @ quote_char
    | WrongType key py_type \<Rightarrow>
        ''input missing or malformed: '' @ key @ '' must be a str, got '' @ py_type
    | Malformed detail \<Rightarrow> ''input missing or malformed: '' @ detail)"

definition req_str :: "json \<Rightarrow> string \<Rightarrow> tool_input_error + string" where
  "req_str input key =
     (case opt_value input key of
        Some v \<Rightarrow> ok_or (WrongType key (value_type_name v)) (as_str v)
      | None \<Rightarrow> Inl (MissingKey key))"

fun req_str_alternates :: "string \<Rightarrow> json \<Rightarrow> string list \<Rightarrow> tool_input_error + string" where
  "req_str_alternates key0 input [] = Inl (MissingKey key0)"
| "req_str_alternates key0 input (k # ks) =
     (case opt_value input k of
        Some v \<Rightarrow> ok_or (WrongType key0 (value_type_name v)) (as_str v)
      | None \<Rightarrow> req_str_alternates key0 input ks)"

definition req_str_keys :: "json \<Rightarrow> string list \<Rightarrow> tool_input_error + string" where
  "req_str_keys input keys = req_str_alternates (hd keys) input keys"

definition opt_list_of :: "json \<Rightarrow> string \<Rightarrow> tool_input_error + json option" where
  "opt_list_of input key =
     (case opt_value input key of
        None \<Rightarrow> Inr None
      | Some v \<Rightarrow> if as_array v \<noteq> None then Inr (Some v)
                 else Inl (Malformed (key @ '' must be a list, got '' @ value_type_name v)))"

definition opt_str_of :: "json \<Rightarrow> string \<Rightarrow> tool_input_error + string option" where
  "opt_str_of input key =
     (case opt_value input key of
        None \<Rightarrow> Inr None
      | Some v \<Rightarrow> ok_or (Malformed (key @ '' must be a str, got '' @ value_type_name v))
                   (map_option Some (as_str v)))"

definition req_i64 :: "json \<Rightarrow> string \<Rightarrow> tool_input_error + int" where
  "req_i64 input key =
     (case opt_value input key of
        Some v \<Rightarrow> ok_or (Malformed (key @ '' must be an int, got '' @ value_type_name v)) (as_i64 v)
      | None \<Rightarrow> Inl (MissingKey key))"

definition opt_i64_of :: "json \<Rightarrow> string \<Rightarrow> tool_input_error + int option" where
  "opt_i64_of input key =
     (case opt_value input key of
        None \<Rightarrow> Inr None
      | Some v \<Rightarrow> ok_or (Malformed (key @ '' must be an int, got '' @ value_type_name v))
                   (map_option Some (as_i64 v)))"

subsection \<open>Hunks and spans\<close>

record hunk =
  hk_old :: string
  hk_new :: string

record edit_span =
  es_old :: string
  es_new :: string
  es_replace_all :: bool

definition span_from_raw :: "json \<Rightarrow> tool_input_error + edit_span" where
  "span_from_raw sp =
     (case (field_str sp ''old_string'', field_str sp ''new_string'') of
        (Some before, Some after) \<Rightarrow> Inr \<lparr>es_old = before, es_new = after,
          es_replace_all = opt_default False (map_option truthy (field sp ''replace_all''))\<rparr>
      | _ \<Rightarrow> Inl (Malformed ''edit span''))"

definition edit_spans :: "json \<Rightarrow> tool_input_error + edit_span list" where
  "edit_spans v = (case v of
      JArray xs \<Rightarrow> map_res span_from_raw xs
    | JObject ps \<Rightarrow> if ps = [] then Inr [] else Inl (Malformed ''edit span'')
    | JString s \<Rightarrow> if s = [] then Inr [] else Inl (Malformed ''edit span'')
    | _ \<Rightarrow> Inl (Malformed ''edits not iterable''))"

datatype patch_edit_kind = PAdd | PUpdate | PDelete

record patch_edit =
  pt_file_path :: string
  pt_kind :: patch_edit_kind
  pt_move_path :: "string option"
  pt_hunks :: "hunk list"

subsection \<open>Tool calls\<close>

record bash_call =
  bc_name :: string
  bc_raw :: json
  bc_command :: string
  bc_timeout :: "json option"
  bc_description :: "json option"
  bc_run_in_background :: "json option"

record edit_call =
  ec_name :: string
  ec_raw :: json
  ec_file_path :: string
  ec_old :: string
  ec_new :: string
  ec_replace_all :: json

record multi_edit_call =
  mc_name :: string
  mc_raw :: json
  mc_file_path :: string
  mc_edits :: "edit_span list"

record write_call =
  wc_name :: string
  wc_raw :: json
  wc_file_path :: string
  wc_content :: string

record read_call =
  rc_name :: string
  rc_raw :: json
  rc_file_path :: string
  rc_offset :: "json option"
  rc_limit :: "json option"

record notebook_edit_call =
  nc_name :: string
  nc_raw :: json
  nc_notebook_path :: string
  nc_new_source :: string
  nc_cell_id :: "json option"
  nc_edit_mode :: "json option"

record grep_call =
  gc_name :: string
  gc_raw :: json
  gc_pattern :: string
  gc_path :: "json option"
  gc_glob :: "json option"
  gc_file_type :: "json option"
  gc_output_mode :: "json option"

record glob_call =
  lc_name :: string
  lc_raw :: json
  lc_pattern :: string
  lc_path :: "json option"

record task_call =
  kc_name :: string
  kc_raw :: json
  kc_prompt :: string
  kc_agent_type :: "json option"
  kc_model :: "json option"
  kc_agent_name :: "json option"
  kc_run_in_background :: "json option"

record workflow_call =
  fc_name :: string
  fc_raw :: json
  fc_script :: "json option"
  fc_script_path :: "json option"
  fc_workflow_name :: "json option"
  fc_args :: "json option"
  fc_resume_from_run_id :: "json option"

record skill_call =
  sc_name :: string
  sc_raw :: json
  sc_skill :: string
  sc_args :: "json option"

record task_create_call =
  tc_name :: string
  tc_raw :: json
  tc_subject :: string
  tc_description :: "json option"

record task_update_call =
  uc_name :: string
  uc_raw :: json
  uc_task_id :: string
  uc_status :: "json option"
  uc_subject :: "json option"
  uc_description :: "json option"

record exit_plan_mode_call =
  xc_name :: string
  xc_raw :: json
  xc_plan :: string

record code_mode_call =
  cc_name :: string
  cc_raw :: json
  cc_source :: string

record apply_patch_call =
  ac_name :: string
  ac_raw :: json
  ac_edits :: "patch_edit list"

record update_plan_call =
  pc_name :: string
  pc_raw :: json
  pc_plan :: "json option"
  pc_explanation :: "string option"

record write_stdin_call =
  ic_name :: string
  ic_raw :: json
  ic_chars :: "json option"
  ic_session_id :: int
  ic_yield_time_ms :: "int option"
  ic_max_output_tokens :: "int option"

record span_edit_call =
  se2_name :: string
  se2_raw :: json
  se2_file_path :: string
  se2_new :: "string option"

record other_call_rec =
  oc_name :: string
  oc_raw :: json
  oc_error :: "string option"

datatype tool_call =
    TBash bash_call
  | TEdit edit_call
  | TMultiEdit multi_edit_call
  | TWrite write_call
  | TRead read_call
  | TNotebookEdit notebook_edit_call
  | TGrep grep_call
  | TGlob glob_call
  | TTask task_call
  | TWorkflow workflow_call
  | TSkill skill_call
  | TTaskCreate task_create_call
  | TTaskUpdate task_update_call
  | TExitPlanMode exit_plan_mode_call
  | TCodeMode code_mode_call
  | TApplyPatch apply_patch_call
  | TUpdatePlan update_plan_call
  | TWriteStdin write_stdin_call
  | TSpanEdit span_edit_call
  | TOther other_call_rec

definition call_type_name :: "tool_call \<Rightarrow> string" where
  "call_type_name c = (case c of
      TBash _ \<Rightarrow> ''BashCall''
    | TEdit _ \<Rightarrow> ''EditCall''
    | TMultiEdit _ \<Rightarrow> ''MultiEditCall''
    | TWrite _ \<Rightarrow> ''WriteCall''
    | TRead _ \<Rightarrow> ''ReadCall''
    | TNotebookEdit _ \<Rightarrow> ''NotebookEditCall''
    | TGrep _ \<Rightarrow> ''GrepCall''
    | TGlob _ \<Rightarrow> ''GlobCall''
    | TTask _ \<Rightarrow> ''TaskCall''
    | TWorkflow _ \<Rightarrow> ''WorkflowCall''
    | TSkill _ \<Rightarrow> ''SkillCall''
    | TTaskCreate _ \<Rightarrow> ''TaskCreateCall''
    | TTaskUpdate _ \<Rightarrow> ''TaskUpdateCall''
    | TExitPlanMode _ \<Rightarrow> ''ExitPlanModeCall''
    | TCodeMode _ \<Rightarrow> ''CodeModeCall''
    | TApplyPatch _ \<Rightarrow> ''ApplyPatchCall''
    | TUpdatePlan _ \<Rightarrow> ''UpdatePlanCall''
    | TWriteStdin _ \<Rightarrow> ''WriteStdinCall''
    | TSpanEdit _ \<Rightarrow> ''SpanEditCall''
    | TOther _ \<Rightarrow> ''OtherCall'')"

definition call_name :: "tool_call \<Rightarrow> string" where
  "call_name t = (case t of
      TBash c \<Rightarrow> bc_name c
    | TEdit c \<Rightarrow> ec_name c
    | TMultiEdit c \<Rightarrow> mc_name c
    | TWrite c \<Rightarrow> wc_name c
    | TRead c \<Rightarrow> rc_name c
    | TNotebookEdit c \<Rightarrow> nc_name c
    | TGrep c \<Rightarrow> gc_name c
    | TGlob c \<Rightarrow> lc_name c
    | TTask c \<Rightarrow> kc_name c
    | TWorkflow c \<Rightarrow> fc_name c
    | TSkill c \<Rightarrow> sc_name c
    | TTaskCreate c \<Rightarrow> tc_name c
    | TTaskUpdate c \<Rightarrow> uc_name c
    | TExitPlanMode c \<Rightarrow> xc_name c
    | TCodeMode c \<Rightarrow> cc_name c
    | TApplyPatch c \<Rightarrow> ac_name c
    | TUpdatePlan c \<Rightarrow> pc_name c
    | TWriteStdin c \<Rightarrow> ic_name c
    | TSpanEdit c \<Rightarrow> se2_name c
    | TOther c \<Rightarrow> oc_name c)"

definition call_raw :: "tool_call \<Rightarrow> json" where
  "call_raw t = (case t of
      TBash c \<Rightarrow> bc_raw c
    | TEdit c \<Rightarrow> ec_raw c
    | TMultiEdit c \<Rightarrow> mc_raw c
    | TWrite c \<Rightarrow> wc_raw c
    | TRead c \<Rightarrow> rc_raw c
    | TNotebookEdit c \<Rightarrow> nc_raw c
    | TGrep c \<Rightarrow> gc_raw c
    | TGlob c \<Rightarrow> lc_raw c
    | TTask c \<Rightarrow> kc_raw c
    | TWorkflow c \<Rightarrow> fc_raw c
    | TSkill c \<Rightarrow> sc_raw c
    | TTaskCreate c \<Rightarrow> tc_raw c
    | TTaskUpdate c \<Rightarrow> uc_raw c
    | TExitPlanMode c \<Rightarrow> xc_raw c
    | TCodeMode c \<Rightarrow> cc_raw c
    | TApplyPatch c \<Rightarrow> ac_raw c
    | TUpdatePlan c \<Rightarrow> pc_raw c
    | TWriteStdin c \<Rightarrow> ic_raw c
    | TSpanEdit c \<Rightarrow> se2_raw c
    | TOther c \<Rightarrow> oc_raw c)"

definition call_hunks :: "tool_call \<Rightarrow> hunk list" where
  "call_hunks t = (case t of
      TEdit c \<Rightarrow> [\<lparr>hk_old = ec_old c, hk_new = ec_new c\<rparr>]
    | TMultiEdit c \<Rightarrow> map (\<lambda>s. \<lparr>hk_old = es_old s, hk_new = es_new s\<rparr>) (mc_edits c)
    | TWrite c \<Rightarrow> [\<lparr>hk_old = [], hk_new = wc_content c\<rparr>]
    | TNotebookEdit c \<Rightarrow> [\<lparr>hk_old = [], hk_new = nc_new_source c\<rparr>]
    | _ \<Rightarrow> [])"

definition call_file_path :: "tool_call \<Rightarrow> string option" where
  "call_file_path t = (case t of
      TEdit c \<Rightarrow> Some (ec_file_path c)
    | TMultiEdit c \<Rightarrow> Some (mc_file_path c)
    | TWrite c \<Rightarrow> Some (wc_file_path c)
    | TRead c \<Rightarrow> Some (rc_file_path c)
    | TNotebookEdit c \<Rightarrow> Some (nc_notebook_path c)
    | TSpanEdit c \<Rightarrow> Some (se2_file_path c)
    | _ \<Rightarrow> None)"

definition call_file_paths :: "tool_call \<Rightarrow> string list" where
  "call_file_paths t = (case t of
      TApplyPatch c \<Rightarrow> map pt_file_path (ac_edits c)
    | _ \<Rightarrow> opt_list (call_file_path t))"

definition call_edits :: "tool_call \<Rightarrow> (string \<times> hunk list) list" where
  "call_edits t = (case t of
      TApplyPatch c \<Rightarrow> map (\<lambda>e. (pt_file_path e, pt_hunks e)) (ac_edits c)
    | _ \<Rightarrow> (case call_file_path t of
        Some path \<Rightarrow> if call_hunks t \<noteq> [] then [(path, call_hunks t)] else []
      | None \<Rightarrow> []))"

subsection \<open>Patch envelopes\<close>

text \<open>\<open>str::lines\<close>: pieces ended by a newline lose a carriage return before it; the last
  piece counts when it is not empty.\<close>

definition strip_cr :: "string \<Rightarrow> string" where
  "strip_cr l = (if l \<noteq> [] \<and> last l = byte 13 then butlast l else l)"

definition lines :: "string \<Rightarrow> string list" where
  "lines text =
     (let ps = split_char (byte 10) text in
      map strip_cr (butlast ps) @ (if last ps = [] then [] else [last ps]))"

record pending_edit =
  pe_file_path :: string
  pe_kind :: patch_edit_kind
  pe_move_path :: "string option"
  pe_groups :: "string list list"

definition pending_new :: "string \<Rightarrow> patch_edit_kind \<Rightarrow> pending_edit" where
  "pending_new path kind =
     \<lparr>pe_file_path = path, pe_kind = kind, pe_move_path = None, pe_groups = [[]]\<rparr>"

definition push_body :: "pending_edit \<Rightarrow> string \<Rightarrow> pending_edit" where
  "push_body e line =
     (if pe_kind e = PUpdate \<and> prefix ''@@'' line
      then e\<lparr>pe_groups := pe_groups e @ [[]]\<rparr>
      else e\<lparr>pe_groups := butlast (pe_groups e) @ [last (pe_groups e) @ [line]]\<rparr>)"

definition side_lines :: "char \<Rightarrow> string list \<Rightarrow> string list" where
  "side_lines sign grp = List.map_filter (\<lambda>line. case line of
       [] \<Rightarrow> Some line
     | c # rest \<Rightarrow>
         if c = sign \<or> c = CHR '' '' then Some rest
         else if c = CHR ''-'' \<or> c = CHR ''+'' then None
         else Some line) grp"

text \<open>\<open>update_hunk\<close>: one pass that pushes a line on the old side, the new side or both.\<close>

fun update_sides :: "string list \<Rightarrow> string list \<Rightarrow> string list \<Rightarrow> string list \<times> string list" where
  "update_sides before after [] = (before, after)"
| "update_sides before after (line # grp) =
     (case line of
        c # rest \<Rightarrow>
          if c = CHR ''-'' then update_sides (before @ [rest]) after grp
          else if c = CHR ''+'' then update_sides before (after @ [rest]) grp
          else if c = CHR '' '' then update_sides (before @ [rest]) (after @ [rest]) grp
          else update_sides (before @ [line]) (after @ [line]) grp
      | [] \<Rightarrow> update_sides (before @ [line]) (after @ [line]) grp)"

definition update_hunk :: "string list \<Rightarrow> hunk" where
  "update_hunk grp =
     (let (before, after) = update_sides [] [] grp in
      \<lparr>hk_old = join [byte 10] before, hk_new = join [byte 10] after\<rparr>)"

definition add_hunk :: "string list \<Rightarrow> hunk option" where
  "add_hunk grp =
     (if grp = [] then None
      else Some \<lparr>hk_old = [],
        hk_new = join [byte 10] (map (\<lambda>l. opt_default l (strip_prefix ''+'' l)) grp)\<rparr>)"

definition finish_edit :: "pending_edit \<Rightarrow> patch_edit" where
  "finish_edit e =
     \<lparr>pt_file_path = pe_file_path e, pt_kind = pe_kind e, pt_move_path = pe_move_path e,
      pt_hunks = (case pe_kind e of
          PDelete \<Rightarrow> []
        | PAdd \<Rightarrow> List.map_filter add_hunk (pe_groups e)
        | PUpdate \<Rightarrow> map update_hunk (filter (\<lambda>g. g \<noteq> []) (pe_groups e)))\<rparr>"

definition marker_path :: "string \<Rightarrow> string option" where
  "marker_path rest =
     opt_filter (\<lambda>path. path \<noteq> []) (map_option (\<lambda>(_, p). trim p) (split_once '':'' rest))"

text \<open>The kind a file marker opens.\<close>

definition marker_kind :: "string \<Rightarrow> patch_edit_kind option" where
  "marker_kind rest =
     (if prefix ''Update File:'' rest then Some PUpdate
      else if prefix ''Add File:'' rest then Some PAdd
      else if prefix ''Delete File:'' rest then Some PDelete
      else None)"

text \<open>The loop of \<open>parse_patch_envelope\<close>; \<open>None\<close> is the \<open>Err(())\<close> of every
  malformed envelope.\<close>

fun patch_walk ::
  "pending_edit option \<Rightarrow> patch_edit list \<Rightarrow> string list \<Rightarrow> patch_edit list option" where
  "patch_walk current edits [] = None"
| "patch_walk current edits (line # rest_lines) =
     (case strip_prefix ''*** '' line of
        None \<Rightarrow> (case current of
            Some e \<Rightarrow> if pe_kind e \<noteq> PDelete then patch_walk (Some (push_body e line)) edits rest_lines
                     else None
          | None \<Rightarrow> None)
      | Some rest \<Rightarrow> (case strip_prefix ''Move to:'' rest of
            Some path \<Rightarrow> (case current of
                Some e \<Rightarrow> if pe_kind e = PUpdate \<and> trim path \<noteq> []
                         then patch_walk (Some (e\<lparr>pe_move_path := Some (trim path)\<rparr>)) edits rest_lines
                         else None
              | None \<Rightarrow> None)
          | None \<Rightarrow>
              if rest = ''End Patch'' then
                (if \<exists>l\<in>set rest_lines. l \<noteq> [] then None
                 else Some (edits @ map finish_edit (opt_list current)))
              else (case marker_kind rest of
                  None \<Rightarrow> None
                | Some kind \<Rightarrow> (case marker_path rest of
                      None \<Rightarrow> None
                    | Some path \<Rightarrow> patch_walk (Some (pending_new path kind))
                        (edits @ map finish_edit (opt_list current)) rest_lines))))"

definition parse_patch_envelope :: "string \<Rightarrow> patch_edit list option" where
  "parse_patch_envelope text =
     (case lines text of
        [] \<Rightarrow> None
      | first # rest \<Rightarrow> if first = ''*** Begin Patch'' then patch_walk None [] rest else None)"

subsection \<open>Lowering each tool\<close>

definition decode_string_arguments :: "env \<Rightarrow> json \<Rightarrow> tool_input_error + json" where
  "decode_string_arguments env raw =
     res_bind (ok_or (NonMapping (value_type_name raw)) (as_str raw)) (\<lambda>text.
     res_bind (ok_or (Malformed ''json arguments'') (e_from_str env text)) (\<lambda>decoded.
       if as_object decoded = None then Inl (NonMapping (value_type_name decoded)) else Inr decoded))"

definition bash_from_raw :: "env \<Rightarrow> string \<Rightarrow> json \<Rightarrow> tool_input_error + tool_call" where
  "bash_from_raw env name raw =
     res_bind (case as_str raw of
         Some text \<Rightarrow> res_bind (ok_or (Malformed ''exec_command arguments'') (e_from_str env text))
           (\<lambda>v. req_str v ''cmd'')
       | None \<Rightarrow> if as_object raw \<noteq> None then req_str raw ''command''
                else Inl (NonMapping (value_type_name raw))) (\<lambda>command.
     Inr (TBash \<lparr>bc_name = name, bc_raw = raw, bc_command = command,
       bc_timeout = opt_value raw ''timeout'', bc_description = opt_value raw ''description'',
       bc_run_in_background = opt_value raw ''run_in_background''\<rparr>))"

definition code_mode_from_raw :: "string \<Rightarrow> json \<Rightarrow> tool_input_error + tool_call" where
  "code_mode_from_raw name raw =
     res_bind (ok_or (NonMapping (value_type_name raw)) (as_str raw)) (\<lambda>source.
     Inr (TCodeMode \<lparr>cc_name = name, cc_raw = raw, cc_source = source\<rparr>))"

definition apply_patch_from_raw :: "string \<Rightarrow> json \<Rightarrow> tool_input_error + tool_call" where
  "apply_patch_from_raw name raw =
     res_bind (ok_or (NonMapping (value_type_name raw)) (as_str raw)) (\<lambda>text.
     Inr (TApplyPatch \<lparr>ac_name = name, ac_raw = raw,
       ac_edits = opt_default [] (parse_patch_envelope text)\<rparr>))"

definition update_plan_from_raw :: "env \<Rightarrow> string \<Rightarrow> json \<Rightarrow> tool_input_error + tool_call" where
  "update_plan_from_raw env name raw =
     res_bind (decode_string_arguments env raw) (\<lambda>decoded.
     res_bind (opt_list_of decoded ''plan'') (\<lambda>plan.
     res_bind (opt_str_of decoded ''explanation'') (\<lambda>explanation.
     Inr (TUpdatePlan \<lparr>pc_name = name, pc_raw = raw, pc_plan = plan, pc_explanation = explanation\<rparr>))))"

definition write_stdin_from_raw :: "env \<Rightarrow> string \<Rightarrow> json \<Rightarrow> tool_input_error + tool_call" where
  "write_stdin_from_raw env name raw =
     res_bind (decode_string_arguments env raw) (\<lambda>decoded.
     res_bind (req_i64 decoded ''session_id'') (\<lambda>sid.
     res_bind (opt_i64_of decoded ''yield_time_ms'') (\<lambda>y.
     res_bind (opt_i64_of decoded ''max_output_tokens'') (\<lambda>m.
     Inr (TWriteStdin \<lparr>ic_name = name, ic_raw = raw, ic_chars = opt_value decoded ''chars'',
       ic_session_id = sid, ic_yield_time_ms = y, ic_max_output_tokens = m\<rparr>)))))"

definition edit_from_raw :: "string \<Rightarrow> json \<Rightarrow> tool_input_error + tool_call" where
  "edit_from_raw name raw =
     res_bind (req_str raw ''file_path'') (\<lambda>x_file_path.
     res_bind (req_str raw ''old_string'') (\<lambda>x_old.
     res_bind (req_str raw ''new_string'') (\<lambda>x_new.
     Inr (TEdit \<lparr>ec_name = name, ec_raw = raw,
       ec_file_path = x_file_path,
       ec_old = x_old,
       ec_new = x_new,
       ec_replace_all = get_or_false raw ''replace_all''\<rparr>))))"

definition multiedit_from_raw :: "string \<Rightarrow> json \<Rightarrow> tool_input_error + tool_call" where
  "multiedit_from_raw name raw =
     res_bind (req_str raw ''file_path'') (\<lambda>x_file_path.
     res_bind (case field raw ''edits'' of Some v \<Rightarrow> edit_spans v | None \<Rightarrow> Inl (MissingKey ''edits'')) (\<lambda>x_edits.
     Inr (TMultiEdit \<lparr>mc_name = name, mc_raw = raw,
       mc_file_path = x_file_path,
       mc_edits = x_edits\<rparr>)))"

definition write_from_raw :: "string \<Rightarrow> json \<Rightarrow> tool_input_error + tool_call" where
  "write_from_raw name raw =
     res_bind (req_str raw ''file_path'') (\<lambda>x_file_path.
     res_bind (req_str raw ''content'') (\<lambda>x_content.
     Inr (TWrite \<lparr>wc_name = name, wc_raw = raw,
       wc_file_path = x_file_path,
       wc_content = x_content\<rparr>)))"

definition read_from_raw :: "string \<Rightarrow> json \<Rightarrow> tool_input_error + tool_call" where
  "read_from_raw name raw =
     res_bind (req_str raw ''file_path'') (\<lambda>x_file_path.
     Inr (TRead \<lparr>rc_name = name, rc_raw = raw,
       rc_file_path = x_file_path,
       rc_offset = opt_value raw ''offset'',
       rc_limit = opt_value raw ''limit''\<rparr>))"

definition notebook_edit_from_raw :: "string \<Rightarrow> json \<Rightarrow> tool_input_error + tool_call" where
  "notebook_edit_from_raw name raw =
     res_bind (req_str raw ''notebook_path'') (\<lambda>x_notebook_path.
     res_bind (req_str raw ''new_source'') (\<lambda>x_new_source.
     Inr (TNotebookEdit \<lparr>nc_name = name, nc_raw = raw,
       nc_notebook_path = x_notebook_path,
       nc_new_source = x_new_source,
       nc_cell_id = opt_value raw ''cell_id'',
       nc_edit_mode = opt_value raw ''edit_mode''\<rparr>)))"

definition grep_from_raw :: "string \<Rightarrow> json \<Rightarrow> tool_input_error + tool_call" where
  "grep_from_raw name raw =
     res_bind (req_str raw ''pattern'') (\<lambda>x_pattern.
     Inr (TGrep \<lparr>gc_name = name, gc_raw = raw,
       gc_pattern = x_pattern,
       gc_path = opt_value raw ''path'',
       gc_glob = opt_value raw ''glob'',
       gc_file_type = opt_value raw ''type'',
       gc_output_mode = opt_value raw ''output_mode''\<rparr>))"

definition glob_from_raw :: "string \<Rightarrow> json \<Rightarrow> tool_input_error + tool_call" where
  "glob_from_raw name raw =
     res_bind (req_str raw ''pattern'') (\<lambda>x_pattern.
     Inr (TGlob \<lparr>lc_name = name, lc_raw = raw,
       lc_pattern = x_pattern,
       lc_path = opt_value raw ''path''\<rparr>))"

definition task_from_raw :: "string \<Rightarrow> json \<Rightarrow> tool_input_error + tool_call" where
  "task_from_raw name raw =
     res_bind (req_str raw ''prompt'') (\<lambda>x_prompt.
     Inr (TTask \<lparr>kc_name = name, kc_raw = raw,
       kc_prompt = x_prompt,
       kc_agent_type = opt_keys raw [''subagent_type'', ''agent_type''],
       kc_model = opt_value raw ''model'',
       kc_agent_name = opt_value raw ''name'',
       kc_run_in_background = opt_value raw ''run_in_background''\<rparr>))"

definition workflow_from_raw :: "string \<Rightarrow> json \<Rightarrow> tool_input_error + tool_call" where
  "workflow_from_raw name raw =
     Inr (TWorkflow \<lparr>fc_name = name, fc_raw = raw,
       fc_script = opt_value raw ''script'',
       fc_script_path = opt_keys raw [''scriptPath'', ''script_path''],
       fc_workflow_name = opt_value raw ''name'',
       fc_args = opt_value raw ''args'',
       fc_resume_from_run_id = opt_keys raw [''resumeFromRunId'', ''resume_from_run_id'']\<rparr>)"

definition skill_from_raw :: "string \<Rightarrow> json \<Rightarrow> tool_input_error + tool_call" where
  "skill_from_raw name raw =
     res_bind (req_str raw ''skill'') (\<lambda>x_skill.
     Inr (TSkill \<lparr>sc_name = name, sc_raw = raw,
       sc_skill = x_skill,
       sc_args = opt_value raw ''args''\<rparr>))"

definition task_create_from_raw :: "string \<Rightarrow> json \<Rightarrow> tool_input_error + tool_call" where
  "task_create_from_raw name raw =
     res_bind (req_str raw ''subject'') (\<lambda>x_subject.
     Inr (TTaskCreate \<lparr>tc_name = name, tc_raw = raw,
       tc_subject = x_subject,
       tc_description = opt_value raw ''description''\<rparr>))"

definition task_update_from_raw :: "string \<Rightarrow> json \<Rightarrow> tool_input_error + tool_call" where
  "task_update_from_raw name raw =
     res_bind (req_str_keys raw [''taskId'', ''task_id'']) (\<lambda>x_task_id.
     Inr (TTaskUpdate \<lparr>uc_name = name, uc_raw = raw,
       uc_task_id = x_task_id,
       uc_status = opt_value raw ''status'',
       uc_subject = opt_value raw ''subject'',
       uc_description = opt_value raw ''description''\<rparr>))"

definition exit_plan_mode_from_raw :: "string \<Rightarrow> json \<Rightarrow> tool_input_error + tool_call" where
  "exit_plan_mode_from_raw name raw =
     res_bind (req_str raw ''plan'') (\<lambda>x_plan.
     Inr (TExitPlanMode \<lparr>xc_name = name, xc_raw = raw,
       xc_plan = x_plan\<rparr>))"

definition other_call :: "string \<Rightarrow> json \<Rightarrow> string option \<Rightarrow> tool_call" where
  "other_call name raw err = TOther \<lparr>oc_name = name, oc_raw = raw, oc_error = err\<rparr>"

definition span_edit_or_other ::
  "registry \<Rightarrow> string \<Rightarrow> json \<Rightarrow> tool_input_error + tool_call" where
  "span_edit_or_other st name input =
     (case Option.bind (mcp_parts name) (\<lambda>(_, tool). registered_span_edit st tool) of
        None \<Rightarrow> Inr (other_call name input None)
      | Some m \<Rightarrow>
          res_bind (req_str input (sm_path m)) (\<lambda>file_path.
          res_bind (if is_some_and (\<lambda>delete. is_some_and truthy (field input delete)) (sm_delete m)
                    then Inr None
                    else res_bind (req_str input (sm_content m)) (\<lambda>s. Inr (Some s))) (\<lambda>new.
          Inr (TSpanEdit \<lparr>se2_name = name, se2_raw = input, se2_file_path = file_path, se2_new = new\<rparr>))))"

text \<open>The dispatch of \<open>parse_tool_call_strict\<close> on the canonical name.\<close>

definition lower_tool ::
  "env \<Rightarrow> registry \<Rightarrow> string \<Rightarrow> string \<Rightarrow> json \<Rightarrow> tool_input_error + tool_call" where
  "lower_tool env st canonical name input =
     (if canonical = ''Bash'' then bash_from_raw env name input
      else if canonical = ''Edit'' then edit_from_raw name input
      else if canonical = ''MultiEdit'' then multiedit_from_raw name input
      else if canonical = ''Write'' then write_from_raw name input
      else if canonical = ''Read'' then read_from_raw name input
      else if canonical = ''NotebookEdit'' then notebook_edit_from_raw name input
      else if canonical = ''Grep'' then grep_from_raw name input
      else if canonical = ''Glob'' then glob_from_raw name input
      else if canonical = ''Agent'' then task_from_raw name input
      else if canonical = ''Workflow'' then workflow_from_raw name input
      else if canonical = ''Skill'' then skill_from_raw name input
      else if canonical = ''TaskCreate'' then task_create_from_raw name input
      else if canonical = ''TaskUpdate'' then task_update_from_raw name input
      else if canonical = ''ExitPlanMode'' then exit_plan_mode_from_raw name input
      else if canonical = ''exec'' then code_mode_from_raw name input
      else if canonical = ''apply_patch'' then apply_patch_from_raw name input
      else if canonical = ''update_plan'' then update_plan_from_raw env name input
      else if canonical = ''write_stdin'' then write_stdin_from_raw env name input
      else span_edit_or_other st name input)"

definition parse_tool_call_strict ::
  "env \<Rightarrow> registry \<Rightarrow> string \<Rightarrow> json \<Rightarrow> tool_input_error + tool_call" where
  "parse_tool_call_strict env st name input =
     (let canonical = canonical_tool name in
      if as_object input = None \<and> name \<notin> set CODEX_VERBATIM_TOOLS then
        (if requires_object_input canonical then Inl (NonMapping (value_type_name input))
         else if as_str input \<noteq> None then Inr (other_call name input None)
         else Inl (NonMapping (value_type_name input)))
      else lower_tool env st canonical name input)"

definition parse_tool_call :: "env \<Rightarrow> registry \<Rightarrow> string \<Rightarrow> json \<Rightarrow> tool_call" where
  "parse_tool_call env st name input =
     (case parse_tool_call_strict env st name input of
        Inr c \<Rightarrow> c
      | Inl err \<Rightarrow> other_call name input (Some (error_text err)))"
subsection \<open>Tool results\<close>

record question_annotation =
  qa_preview :: "string option"
  qa_notes :: "string option"

record bash_result_rec =
  br_name :: string
  br_raw :: json
  br_stdout :: "json option"
  br_stderr :: "json option"
  br_interrupted :: json
  br_is_image :: json
  br_no_output_expected :: json
  br_background_task_id :: "json option"
  br_return_code_interpretation :: "json option"

record edit_result_rec =
  er_name :: string
  er_raw :: json
  er_file_path :: "json option"
  er_old_string :: "json option"
  er_new_string :: "json option"
  er_replace_all :: json
  er_user_modified :: json
  er_stale_recovered :: json
  er_structured_patch :: "json option"
  er_original_file :: "json option"

record write_result_rec =
  wr_name :: string
  wr_raw :: json
  wr_content :: "json option"
  wr_file_path :: "json option"
  wr_original_file :: "json option"
  wr_structured_patch :: "json option"
  wr_user_modified :: json

record read_result_rec =
  rr_name :: string
  rr_raw :: json
  rr_file :: "json option"
  rr_file_type :: "json option"

record task_result_rec =
  kr_name :: string
  kr_raw :: json
  kr_agent_id :: "json option"
  kr_agent_type :: "json option"
  kr_status :: "json option"
  kr_total_duration_ms :: "json option"
  kr_total_tokens :: "json option"
  kr_total_tool_use_count :: "json option"
  kr_tool_stats :: "json option"
  kr_usage :: "json option"
  kr_content :: "json option"
  kr_prompt :: "json option"
  kr_resolved_model :: "json option"

record task_launch_result_rec =
  lr_name :: string
  lr_raw :: json
  lr_agent_id :: "json option"
  lr_output_file :: "json option"
  lr_is_async :: json
  lr_can_read_output_file :: json
  lr_description :: "json option"
  lr_prompt :: "json option"
  lr_status :: "json option"
  lr_resolved_model :: "json option"

record skill_result_rec =
  sr_name :: string
  sr_raw :: json
  sr_command_name :: "json option"
  sr_success :: json
  sr_allowed_tools :: "json option"

record ask_result_rec =
  qr_name :: string
  qr_raw :: json
  qr_answers :: "(string \<times> string) list"
  qr_annotations :: "(string \<times> question_annotation) list"

record text_result_rec =
  xr_name :: string
  xr_raw :: json
  xr_text :: string

record other_result_rec =
  or_name :: string
  or_raw :: json

datatype tool_result =
    RBash bash_result_rec
  | REdit edit_result_rec
  | RWrite write_result_rec
  | RRead read_result_rec
  | RTask task_result_rec
  | RTaskLaunch task_launch_result_rec
  | RSkill skill_result_rec
  | RAskUserQuestion ask_result_rec
  | RText text_result_rec
  | ROther other_result_rec

definition result_name :: "tool_result \<Rightarrow> string" where
  "result_name t = (case t of
      RBash r \<Rightarrow> br_name r
    | REdit r \<Rightarrow> er_name r
    | RWrite r \<Rightarrow> wr_name r
    | RRead r \<Rightarrow> rr_name r
    | RTask r \<Rightarrow> kr_name r
    | RTaskLaunch r \<Rightarrow> lr_name r
    | RSkill r \<Rightarrow> sr_name r
    | RAskUserQuestion r \<Rightarrow> qr_name r
    | RText r \<Rightarrow> xr_name r
    | ROther r \<Rightarrow> or_name r)"

definition result_type_name :: "tool_result \<Rightarrow> string" where
  "result_type_name t = (case t of
      RBash _ \<Rightarrow> ''BashResult''
    | REdit _ \<Rightarrow> ''EditResult''
    | RWrite _ \<Rightarrow> ''WriteResult''
    | RRead _ \<Rightarrow> ''ReadResult''
    | RTask _ \<Rightarrow> ''TaskResult''
    | RTaskLaunch _ \<Rightarrow> ''TaskLaunchResult''
    | RSkill _ \<Rightarrow> ''SkillResult''
    | RAskUserQuestion _ \<Rightarrow> ''AskUserQuestionResult''
    | RText _ \<Rightarrow> ''TextResult''
    | ROther _ \<Rightarrow> ''OtherResult'')"

definition result_raw :: "tool_result \<Rightarrow> json" where
  "result_raw t = (case t of
      RBash r \<Rightarrow> br_raw r
    | REdit r \<Rightarrow> er_raw r
    | RWrite r \<Rightarrow> wr_raw r
    | RRead r \<Rightarrow> rr_raw r
    | RTask r \<Rightarrow> kr_raw r
    | RTaskLaunch r \<Rightarrow> lr_raw r
    | RSkill r \<Rightarrow> sr_raw r
    | RAskUserQuestion r \<Rightarrow> qr_raw r
    | RText r \<Rightarrow> xr_raw r
    | ROther r \<Rightarrow> or_raw r)"

definition bash_result :: "string \<Rightarrow> json \<Rightarrow> tool_result" where
  "bash_result name raw =
     RBash \<lparr>br_name = name, br_raw = raw,
       br_stdout = opt_value raw ''stdout'',
       br_stderr = opt_value raw ''stderr'',
       br_interrupted = get_or_false raw ''interrupted'',
       br_is_image = get_or_false raw ''isImage'',
       br_no_output_expected = get_or_false raw ''noOutputExpected'',
       br_background_task_id = opt_value raw ''backgroundTaskId'',
       br_return_code_interpretation = opt_value raw ''returnCodeInterpretation''\<rparr>"

definition edit_result :: "string \<Rightarrow> json \<Rightarrow> tool_result" where
  "edit_result name raw =
     REdit \<lparr>er_name = name, er_raw = raw,
       er_file_path = opt_value raw ''filePath'',
       er_old_string = opt_value raw ''oldString'',
       er_new_string = opt_value raw ''newString'',
       er_replace_all = get_or_false raw ''replaceAll'',
       er_user_modified = get_or_false raw ''userModified'',
       er_stale_recovered = get_or_false raw ''staleRecovered'',
       er_structured_patch = opt_value raw ''structuredPatch'',
       er_original_file = opt_value raw ''originalFile''\<rparr>"

definition write_result :: "string \<Rightarrow> json \<Rightarrow> tool_result" where
  "write_result name raw =
     RWrite \<lparr>wr_name = name, wr_raw = raw,
       wr_content = opt_value raw ''content'',
       wr_file_path = opt_value raw ''filePath'',
       wr_original_file = opt_value raw ''originalFile'',
       wr_structured_patch = opt_value raw ''structuredPatch'',
       wr_user_modified = get_or_false raw ''userModified''\<rparr>"

definition read_result :: "string \<Rightarrow> json \<Rightarrow> tool_result" where
  "read_result name raw =
     RRead \<lparr>rr_name = name, rr_raw = raw,
       rr_file = opt_value raw ''file'',
       rr_file_type = opt_value raw ''type''\<rparr>"

definition skill_result :: "string \<Rightarrow> json \<Rightarrow> tool_result" where
  "skill_result name raw =
     RSkill \<lparr>sr_name = name, sr_raw = raw,
       sr_command_name = opt_value raw ''commandName'',
       sr_success = get_or_false raw ''success'',
       sr_allowed_tools = opt_array raw ''allowedTools''\<rparr>"

definition task_result :: "string \<Rightarrow> json \<Rightarrow> tool_result" where
  "task_result name raw =
     (if present raw ''totalDurationMs'' \<or> present raw ''usage'' then
        RTask \<lparr>kr_name = name, kr_raw = raw,
       kr_agent_id = opt_value raw ''agentId'',
       kr_agent_type = opt_value raw ''agentType'',
       kr_status = opt_value raw ''status'',
       kr_total_duration_ms = opt_value raw ''totalDurationMs'',
       kr_total_tokens = opt_value raw ''totalTokens'',
       kr_total_tool_use_count = opt_value raw ''totalToolUseCount'',
       kr_tool_stats = opt_value raw ''toolStats'',
       kr_usage = opt_value raw ''usage'',
       kr_content = opt_value raw ''content'',
       kr_prompt = opt_value raw ''prompt'',
       kr_resolved_model = opt_value raw ''resolvedModel''\<rparr>
      else if present raw ''outputFile'' then
        RTaskLaunch \<lparr>lr_name = name, lr_raw = raw,
       lr_agent_id = opt_value raw ''agentId'',
       lr_output_file = opt_value raw ''outputFile'',
       lr_is_async = get_or_false raw ''isAsync'',
       lr_can_read_output_file = get_or_false raw ''canReadOutputFile'',
       lr_description = opt_value raw ''description'',
       lr_prompt = opt_value raw ''prompt'',
       lr_status = opt_value raw ''status'',
       lr_resolved_model = opt_value raw ''resolvedModel''\<rparr>
      else ROther \<lparr>or_name = name, or_raw = raw\<rparr>)"

definition ask_user_question_result :: "string \<Rightarrow> json \<Rightarrow> tool_result" where
  "ask_user_question_result name raw =
     RAskUserQuestion \<lparr>qr_name = name, qr_raw = raw,
       qr_answers = opt_default [] (map_option
         (List.map_filter (\<lambda>(k, v). map_option (Pair k) (as_str v)))
         (Option.bind (field raw ''answers'') as_object)),
       qr_annotations = opt_default [] (map_option
         (\<lambda>obj. map (\<lambda>(k, v). (k, \<lparr>qa_preview = field_str v ''preview'', qa_notes = field_str v ''notes''\<rparr>))
           (filter (\<lambda>(_, v). as_object v \<noteq> None) obj))
         (Option.bind (field raw ''annotations'') as_object))\<rparr>"

definition ask_result_questions :: "ask_result_rec \<Rightarrow> question list" where
  "ask_result_questions r = opt_default [] (parse_questions (qr_raw r))"

definition lower_result :: "string \<Rightarrow> json \<Rightarrow> tool_result" where
  "lower_result name payload =
     (case as_str payload of
        Some text \<Rightarrow> RText \<lparr>xr_name = name, xr_raw = payload, xr_text = text\<rparr>
      | None \<Rightarrow>
          if as_object payload = None then ROther \<lparr>or_name = name, or_raw = payload\<rparr>
          else (let canonical = canonical_tool name in
            if canonical = ''Bash'' then bash_result name payload
            else if canonical = ''Edit'' then edit_result name payload
            else if canonical = ''Write'' then write_result name payload
            else if canonical = ''Read'' then read_result name payload
            else if canonical = ''Agent'' then task_result name payload
            else if canonical = ''Skill'' then skill_result name payload
            else if canonical = ''AskUserQuestion'' then ask_user_question_result name payload
            else ROther \<lparr>or_name = name, or_raw = payload\<rparr>))"

text \<open>The lift of a result normalises the payload first; the panic of a failed
  re-serialisation is its only error.\<close>

definition lift_tool_result :: "env \<Rightarrow> string \<Rightarrow> json \<Rightarrow> parse_error + tool_result" where
  "lift_tool_result env name payload =
     res_bind (normalized_owned env payload) (\<lambda>p. Inr (lower_result name p))"

end
