(* ===== verification/PatchFacts.thy ===== *)
theory PatchFacts
  imports ToolCall
begin

text \<open>
  The patch envelope of \<open>toolcall.rs\<close>: a printer of edits, the reference side of the
  format, and the round trip through \<open>parse_patch_envelope\<close>; the two sides of an update
  hunk as projections of its lines.
\<close>

subsection \<open>The two sides of a hunk\<close>

lemma update_sides_proj:
  "update_sides before after grp = (before @ side_lines CHR ''-'' grp, after @ side_lines CHR ''+'' grp)"
proof (induction before after grp rule: update_sides.induct)
  case (1 before after)
  then show ?case by (simp add: side_lines_def List.map_filter_simps)
next
  case (2 before after line grp)
  then show ?case by (cases line) (simp_all add: side_lines_def List.map_filter_simps)
qed

lemma update_hunk_proj:
  "update_hunk grp = \<lparr>hk_old = join [byte 10] (side_lines CHR ''-'' grp),
     hk_new = join [byte 10] (side_lines CHR ''+'' grp)\<rparr>"
  by (simp add: update_hunk_def update_sides_proj)

subsection \<open>Lines\<close>

definition clean_line :: "string \<Rightarrow> bool" where
  "clean_line l \<longleftrightarrow> byte 10 \<notin> set l \<and> (l = [] \<or> last l \<noteq> byte 13)"

lemma lines_join:
  assumes "ls \<noteq> []" "\<forall>l\<in>set ls. clean_line l" "last ls \<noteq> []"
  shows "lines (join [byte 10] ls) = ls"
proof -
  have sp: "split_char (byte 10) (join [byte 10] ls) = ls"
    using assms by (intro split_char_join) (auto simp: clean_line_def)
  have "map strip_cr (butlast ls) = butlast ls"
    using assms(2) by (intro map_idI) (auto simp: strip_cr_def clean_line_def dest: in_set_butlastD)
  then show ?thesis using assms(1,3) by (simp add: lines_def sp Let_def)
qed

subsection \<open>The printer\<close>

definition body_lines :: "string list list \<Rightarrow> string list" where
  "body_lines gs = hd gs @ concat (map (\<lambda>g. ''@@'' # g) (tl gs))"

definition edit_lines :: "pending_edit \<Rightarrow> string list" where
  "edit_lines e = (case pe_kind e of
      PUpdate \<Rightarrow> (''*** Update File: '' @ pe_file_path e)
        # (case pe_move_path e of None \<Rightarrow> [] | Some m \<Rightarrow> [''*** Move to: '' @ m])
        @ body_lines (pe_groups e)
    | PAdd \<Rightarrow> (''*** Add File: '' @ pe_file_path e) # hd (pe_groups e)
    | PDelete \<Rightarrow> [''*** Delete File: '' @ pe_file_path e])"

definition print_envelope :: "pending_edit list \<Rightarrow> string" where
  "print_envelope es =
     join [byte 10] (''*** Begin Patch'' # concat (map edit_lines es) @ [''*** End Patch''])"

definition path_ok :: "string \<Rightarrow> bool" where
  "path_ok p \<longleftrightarrow> p \<noteq> [] \<and> trim (CHR '' '' # p) = p \<and> clean_line p"

definition body_ok :: "string \<Rightarrow> bool" where
  "body_ok l \<longleftrightarrow> clean_line l \<and> \<not> prefix ''*** '' l"

definition pending_ok :: "pending_edit \<Rightarrow> bool" where
  "pending_ok e \<longleftrightarrow> path_ok (pe_file_path e) \<and> (case pe_kind e of
      PUpdate \<Rightarrow> pe_groups e \<noteq> [] \<and> (\<forall>g\<in>set (pe_groups e). \<forall>l\<in>set g. body_ok l \<and> \<not> prefix ''@@'' l)
        \<and> (\<forall>m\<in>set (opt_list (pe_move_path e)). path_ok m)
    | PAdd \<Rightarrow> pe_move_path e = None \<and> (\<exists>g. pe_groups e = [g] \<and> (\<forall>l\<in>set g. body_ok l))
    | PDelete \<Rightarrow> pe_move_path e = None \<and> pe_groups e = [[]])"

subsection \<open>Walking a printed envelope\<close>

lemma walk_body:
  assumes "pe_kind e \<noteq> PDelete" "\<forall>l\<in>set ls. \<not> prefix ''*** '' l"
  shows "patch_walk (Some e) edits (ls @ rest) = patch_walk (Some (foldl push_body e ls)) edits rest"
  using assms
proof (induction ls arbitrary: e)
  case Nil
  then show ?case by simp
next
  case (Cons l ls)
  have k: "pe_kind (push_body e l) = pe_kind e" by (simp add: push_body_def)
  have "strip_prefix ''*** '' l = None" using Cons.prems(2) by (simp add: strip_prefix_def)
  then have "patch_walk (Some e) edits ((l # ls) @ rest)
      = patch_walk (Some (push_body e l)) edits (ls @ rest)"
    using Cons.prems(1) by simp
  also have "\<dots> = patch_walk (Some (foldl push_body e (l # ls))) edits rest"
    using Cons by (simp add: k)
  finally show ?case .
qed

lemma push_group:
  assumes "pe_kind e = PUpdate \<longrightarrow> (\<forall>l\<in>set g. \<not> prefix ''@@'' l)" "pe_groups e \<noteq> []"
  shows "foldl push_body e g =
     e\<lparr>pe_groups := butlast (pe_groups e) @ [last (pe_groups e) @ g]\<rparr>"
  using assms
proof (induction g arbitrary: e)
  case Nil
  then show ?case by simp
next
  case (Cons l g)
  have p: "push_body e l = e\<lparr>pe_groups := butlast (pe_groups e) @ [last (pe_groups e) @ [l]]\<rparr>"
    using Cons.prems by (simp add: push_body_def)
  have "foldl push_body (push_body e l) g =
     (push_body e l)\<lparr>pe_groups := butlast (pe_groups (push_body e l)) @ [last (pe_groups (push_body e l)) @ g]\<rparr>"
    by (rule Cons.IH) (use Cons.prems in \<open>simp_all add: p\<close>)
  then show ?case by (simp add: p)
qed

lemma push_groups:
  assumes "pe_kind e = PUpdate" "\<forall>g\<in>set gs. \<forall>l\<in>set g. \<not> prefix ''@@'' l"
  shows "foldl push_body e (concat (map (\<lambda>g. ''@@'' # g) gs)) = e\<lparr>pe_groups := pe_groups e @ gs\<rparr>"
  using assms
proof (induction gs arbitrary: e)
  case Nil
  then show ?case by simp
next
  case (Cons g gs)
  have "push_body e ''@@'' = e\<lparr>pe_groups := pe_groups e @ [[]]\<rparr>"
    using Cons.prems by (simp add: push_body_def)
  then have "foldl push_body e (''@@'' # g) = e\<lparr>pe_groups := pe_groups e @ [g]\<rparr>"
    using Cons.prems by (simp add: push_group)
  then show ?case using Cons by simp
qed

lemma walk_marker:
  assumes "marker_kind rest = Some kind" "marker_path rest = Some path"
    "strip_prefix ''Move to:'' rest = None" "rest \<noteq> ''End Patch''"
  shows "patch_walk cur edits ((''*** '' @ rest) # ls) =
     patch_walk (Some (pending_new path kind)) (edits @ map finish_edit (opt_list cur)) ls"
  using assms by (simp add: strip_prefix_append del: append_Cons)

lemma marker_path_eval:
  assumes "path_ok p"
  shows "marker_path (''Update File: '' @ p) = Some p" "marker_path (''Add File: '' @ p) = Some p"
    "marker_path (''Delete File: '' @ p) = Some p"
  using assms by (simp_all add: marker_path_def path_ok_def)

lemma walk_edit:
  assumes "pending_ok e"
  shows "patch_walk cur edits (edit_lines e @ rest) =
     patch_walk (Some e) (edits @ map finish_edit (opt_list cur)) rest"
proof (cases "pe_kind e")
  case PAdd
  from assms PAdd obtain g where g: "pe_groups e = [g]" "\<forall>l\<in>set g. body_ok l" "pe_move_path e = None"
    and p: "path_ok (pe_file_path e)" by (auto simp: pending_ok_def)
  let ?e0 = "pending_new (pe_file_path e) PAdd"
  have e: "foldl push_body ?e0 g = e"
    using g PAdd by (subst push_group) (simp_all add: pending_new_def)
  have "patch_walk cur edits (edit_lines e @ rest) =
     patch_walk cur edits ((''*** '' @ (''Add File: '' @ pe_file_path e)) # (g @ rest))"
    by (simp add: edit_lines_def PAdd g(1))
  also have "\<dots> = patch_walk (Some ?e0) (edits @ map finish_edit (opt_list cur)) (g @ rest)"
    by (rule walk_marker [OF _ marker_path_eval(2) [OF p]]) (simp_all add: marker_kind_def strip_prefix_def)
  also have "\<dots> = patch_walk (Some e) (edits @ map finish_edit (opt_list cur)) rest"
    by (subst walk_body) (use g e in \<open>simp_all add: pending_new_def body_ok_def\<close>)
  finally show ?thesis .
next
  case PDelete
  from assms PDelete have g: "pe_groups e = [[]]" "pe_move_path e = None"
    and p: "path_ok (pe_file_path e)" by (auto simp: pending_ok_def)
  have e: "pending_new (pe_file_path e) PDelete = e"
    using g PDelete by (simp add: pending_new_def)
  have "patch_walk cur edits (edit_lines e @ rest) =
     patch_walk cur edits ((''*** '' @ (''Delete File: '' @ pe_file_path e)) # rest)"
    by (simp add: edit_lines_def PDelete)
  also have "\<dots> = patch_walk (Some (pending_new (pe_file_path e) PDelete))
       (edits @ map finish_edit (opt_list cur)) rest"
    by (rule walk_marker [OF _ marker_path_eval(3) [OF p]]) (simp_all add: marker_kind_def strip_prefix_def)
  also have "\<dots> = patch_walk (Some e) (edits @ map finish_edit (opt_list cur)) rest"
    by (simp only: e)
  finally show ?thesis .
next
  case PUpdate
  let ?gs = "pe_groups e" and ?e0 = "pending_new (pe_file_path e) PUpdate"
  let ?e1 = "?e0\<lparr>pe_move_path := pe_move_path e\<rparr>"
  let ?edits = "edits @ map finish_edit (opt_list cur)"
  from assms PUpdate have gs: "?gs \<noteq> []" "\<forall>g\<in>set ?gs. \<forall>l\<in>set g. body_ok l \<and> \<not> prefix ''@@'' l"
    and p: "path_ok (pe_file_path e)" and m: "\<forall>m\<in>set (opt_list (pe_move_path e)). path_ok m"
    by (auto simp: pending_ok_def)
  have e: "foldl push_body ?e1 (body_lines ?gs) = e"
  proof -
    obtain g gt where split: "?gs = g # gt" using gs(1) by (cases ?gs) auto
    have "foldl push_body ?e1 g = ?e1\<lparr>pe_groups := [g]\<rparr>"
      using gs(2) split by (subst push_group) (auto simp: pending_new_def)
    then show ?thesis
      using gs(2) split PUpdate by (simp add: body_lines_def push_groups pending_new_def)
  qed
  have body: "\<forall>l\<in>set (body_lines ?gs). \<not> prefix ''*** '' l"
    using gs by (cases ?gs) (auto simp: body_lines_def body_ok_def)
  have "patch_walk cur edits (edit_lines e @ rest) =
     patch_walk cur edits ((''*** '' @ (''Update File: '' @ pe_file_path e)) #
       ((case pe_move_path e of None \<Rightarrow> [] | Some m \<Rightarrow> [''*** Move to: '' @ m]) @ body_lines ?gs @ rest))"
    by (simp add: edit_lines_def PUpdate)
  also have "\<dots> = patch_walk (Some ?e0) ?edits
       ((case pe_move_path e of None \<Rightarrow> [] | Some m \<Rightarrow> [''*** Move to: '' @ m]) @ body_lines ?gs @ rest)"
    by (rule walk_marker [OF _ marker_path_eval(1) [OF p]]) (simp_all add: marker_kind_def strip_prefix_def)
  also have "\<dots> = patch_walk (Some ?e1) ?edits (body_lines ?gs @ rest)"
  proof (cases "pe_move_path e")
    case None
    then show ?thesis by (simp add: pending_new_def)
  next
    case (Some mv)
    have "strip_prefix ''*** '' (''*** Move to: '' @ mv) = Some (''Move to: '' @ mv)"
      "strip_prefix ''Move to:'' (''Move to: '' @ mv) = Some (CHR '' '' # mv)"
      by (simp_all add: strip_prefix_def)
    then show ?thesis using m Some by (simp add: pending_new_def path_ok_def)
  qed
  also have "\<dots> = patch_walk (Some e) ?edits rest"
    by (subst walk_body) (use body e in \<open>simp_all add: pending_new_def\<close>)
  finally show ?thesis .
qed

lemma walk_edits:
  "\<forall>e\<in>set es. pending_ok e \<Longrightarrow>
     patch_walk cur edits (concat (map edit_lines es) @ [''*** End Patch'']) =
       Some (edits @ map finish_edit (opt_list cur @ es))"
proof (induction es arbitrary: cur edits)
  case Nil
  then show ?case by (simp add: strip_prefix_def)
next
  case (Cons e es)
  then show ?case by (simp add: walk_edit)
qed

lemma clean_edit_lines:
  assumes "pending_ok e" "l \<in> set (edit_lines e)"
  shows "clean_line l"
proof -
  have pre: "clean_line (a @ p)" if "path_ok p" "byte 10 \<notin> set a" for a p
    using that by (auto simp: clean_line_def path_ok_def)
  show ?thesis
  proof (cases "pe_kind e")
    case PAdd
    have "clean_line (''*** Add File: '' @ pe_file_path e)"
      by (rule pre) (use assms(1) in \<open>simp_all add: pending_ok_def byte_eval\<close>)
    with PAdd assms show ?thesis by (auto simp: pending_ok_def edit_lines_def body_ok_def)
  next
    case PDelete
    have "clean_line (''*** Delete File: '' @ pe_file_path e)"
      by (rule pre) (use assms(1) in \<open>simp_all add: pending_ok_def byte_eval\<close>)
    with PDelete assms show ?thesis by (auto simp: pending_ok_def edit_lines_def)
  next
    case PUpdate
    then have ok: "path_ok (pe_file_path e)" "pe_groups e \<noteq> []"
      "\<forall>g\<in>set (pe_groups e). \<forall>l\<in>set g. body_ok l"
      "\<forall>m\<in>set (opt_list (pe_move_path e)). path_ok m" using assms(1) by (auto simp: pending_ok_def)
    have body: "clean_line l" if "l \<in> set (body_lines (pe_groups e))"
    proof -
      have "clean_line ''@@''" by (simp add: clean_line_def byte_eval)
      then show ?thesis using that ok(2,3)
        by (cases "pe_groups e") (auto simp: body_lines_def body_ok_def split: if_splits)
    qed
    consider "l = ''*** Update File: '' @ pe_file_path e"
      | mv where "pe_move_path e = Some mv" "l = ''*** Move to: '' @ mv"
      | "l \<in> set (body_lines (pe_groups e))"
      using assms(2) PUpdate by (cases "pe_move_path e") (auto simp: edit_lines_def)
    then show ?thesis
    proof cases
      case 1
      show ?thesis unfolding 1 by (rule pre [OF ok(1)]) (simp add: byte_eval)
    next
      case 2
      show ?thesis unfolding 2(2) by (rule pre) (use ok(4) 2(1) in \<open>simp_all add: byte_eval\<close>)
    next
      case 3
      then show ?thesis by (rule body)
    qed
  qed
qed

lemma lines_print_envelope:
  assumes "\<forall>e\<in>set es. pending_ok e"
  shows "lines (print_envelope es) = ''*** Begin Patch'' # concat (map edit_lines es) @ [''*** End Patch'']"
  unfolding print_envelope_def
proof (rule lines_join)
  have "clean_line ''*** Begin Patch''" "clean_line ''*** End Patch''"
    by (simp_all add: clean_line_def byte_eval)
  then show "\<forall>l\<in>set (''*** Begin Patch'' # concat (map edit_lines es) @ [''*** End Patch'']). clean_line l"
    using assms clean_edit_lines by auto
qed simp_all

lemma parse_print_envelope:
  assumes "\<forall>e\<in>set es. pending_ok e"
  shows "parse_patch_envelope (print_envelope es) = Some (map finish_edit es)"
  unfolding parse_patch_envelope_def lines_print_envelope [OF assms] list.case
  using walk_edits [OF assms, of None "[]"] by simp

subsection \<open>Properties\<close>

text \<open>C3: patch envelopes round-trip. Printing any list of well-formed edits (paths that a
  trim leaves alone, body lines that are no marker) and parsing the text gives exactly those
  edits: file by file, kind, move target and hunk groups.\<close>

theorem patch_envelope_roundtrip:
  assumes "\<forall>e\<in>set es. pending_ok e"
  shows "parse_patch_envelope (print_envelope es) = Some (map finish_edit es)"
  by (rule parse_print_envelope [OF assms])

definition sample_patch :: "pending_edit list" where
  "sample_patch =
     [\<lparr>pe_file_path = ''a.rs'', pe_kind = PUpdate, pe_move_path = Some ''b.rs'',
        pe_groups = [[], [''-x'', ''+y'', '' z'']]\<rparr>,
      \<lparr>pe_file_path = ''n'', pe_kind = PAdd, pe_move_path = None, pe_groups = [[''+l'']]\<rparr>,
      \<lparr>pe_file_path = ''d'', pe_kind = PDelete, pe_move_path = None, pe_groups = [[]]\<rparr>]"

theorem patch_envelope_roundtrip_witness:
  "parse_patch_envelope (print_envelope sample_patch) = Some (map finish_edit sample_patch)"
  by (rule patch_envelope_roundtrip)
    (simp add: sample_patch_def pending_ok_def path_ok_def body_ok_def clean_line_def byte_eval trim_def
      trim_both_def is_continuation_def is_whitespace_def unicode_white_space_def byte_unfold)

text \<open>The hunk an Update group lowers to: the old side is its context and removed lines,
  the new side its context and added lines, each in order and without the sign.\<close>

theorem update_hunk_sides:
  "update_hunk grp = \<lparr>hk_old = join [byte 10] (side_lines CHR ''-'' grp),
     hk_new = join [byte 10] (side_lines CHR ''+'' grp)\<rparr>"
  by (rule update_hunk_proj)

end
