(* ===== verification/ToolFacts.thy ===== *)
theory ToolFacts
  imports ToolCall
begin

text \<open>
  What the lowering of tool calls and results and the tool registry satisfy: totality and
  losslessness of the lowering, the matching of tool names against specs, the registry as a
  map behind a scoped override (a locale with its interpretation), and what an accepted
  registry document contains.
\<close>

subsection \<open>Canonical names\<close>

lemma canonical_idem: "canonical_tool (canonical_tool n) = canonical_tool n"
  by (simp add: canonical_tool_def tool_alias_reverse_def)

lemma alias_canonical:
  "a \<in> set (tool_aliases n) \<Longrightarrow> canonical_tool a = n \<or> (n = ''Edit'' \<and> a = ''apply_patch'')"
  by (auto simp: tool_aliases_def canonical_tool_def tool_alias_reverse_def split: if_splits)

subsection \<open>A lowered call keeps its name and its input\<close>

definition keeps_input :: "string \<Rightarrow> json \<Rightarrow> tool_input_error + tool_call \<Rightarrow> bool" where
  "keeps_input name raw r \<longleftrightarrow> (\<forall>c. r = Inr c \<longrightarrow> call_name c = name \<and> call_raw c = raw)"

lemma keeps_input_bind [wf_intros]: "(\<And>x. keeps_input name raw (f x)) \<Longrightarrow> keeps_input name raw (res_bind m f)"
  by (auto simp: keeps_input_def res_bind_Inr_iff)

lemma keeps_input_Inl [wf_intros]: "keeps_input name raw (Inl e)"
  by (simp add: keeps_input_def)

lemma keeps_input_if [wf_intros]:
  "keeps_input name raw a \<Longrightarrow> keeps_input name raw b \<Longrightarrow> keeps_input name raw (if c then a else b)"
  by simp

lemma keeps_input_Inr [wf_intros]:
  "call_name c = name \<Longrightarrow> call_raw c = raw \<Longrightarrow> keeps_input name raw (Inr c)"
  by (simp add: keeps_input_def)

lemmas lowering_defs = bash_from_raw_def edit_from_raw_def multiedit_from_raw_def write_from_raw_def
  read_from_raw_def notebook_edit_from_raw_def grep_from_raw_def glob_from_raw_def task_from_raw_def
  workflow_from_raw_def skill_from_raw_def task_create_from_raw_def task_update_from_raw_def
  exit_plan_mode_from_raw_def code_mode_from_raw_def apply_patch_from_raw_def update_plan_from_raw_def
  write_stdin_from_raw_def

lemma other_call_fields [simp]: "call_name (other_call n v e) = n" "call_raw (other_call n v e) = v"
  by (simp_all add: other_call_def call_name_def call_raw_def)

lemma span_edit_keeps [wf_intros]: "keeps_input name input (span_edit_or_other st name input)"
  unfolding span_edit_or_other_def
  by (auto split: option.splits intro!: wf_intros simp: call_name_def call_raw_def other_call_def)

lemma lower_tool_keeps: "keeps_input name input (lower_tool env st canonical name input)"
  unfolding lower_tool_def lowering_defs
  by (intro wf_intros) (simp_all add: call_name_def call_raw_def)

lemma strict_keeps: "keeps_input name input (parse_tool_call_strict env st name input)"
  unfolding parse_tool_call_strict_def Let_def
  by (intro wf_intros lower_tool_keeps) simp_all

subsection \<open>What each tool demands of its input\<close>

text \<open>The table of the built-in tools, independent of the readers: the call type, and in
  order what the input has to give. \<open>TextUnder ks\<close> is a string under the first of the alternate
  keys that is present and not null, \<open>SpanList\<close> the edit spans of a multi-edit.\<close>

datatype demand = TextUnder "string list" | SpanList

definition tool_row :: "string \<Rightarrow> (string \<times> demand list) option" where
  "tool_row = map_of [
     (''Bash'', ''BashCall'', [TextUnder [''command'']]),
     (''Edit'', ''EditCall'', [TextUnder [''file_path''], TextUnder [''old_string''], TextUnder [''new_string'']]),
     (''MultiEdit'', ''MultiEditCall'', [TextUnder [''file_path''], SpanList]),
     (''Write'', ''WriteCall'', [TextUnder [''file_path''], TextUnder [''content'']]),
     (''Read'', ''ReadCall'', [TextUnder [''file_path'']]),
     (''NotebookEdit'', ''NotebookEditCall'', [TextUnder [''notebook_path''], TextUnder [''new_source'']]),
     (''Grep'', ''GrepCall'', [TextUnder [''pattern'']]),
     (''Glob'', ''GlobCall'', [TextUnder [''pattern'']]),
     (''Agent'', ''TaskCall'', [TextUnder [''prompt'']]),
     (''Workflow'', ''WorkflowCall'', []),
     (''Skill'', ''SkillCall'', [TextUnder [''skill'']]),
     (''TaskCreate'', ''TaskCreateCall'', [TextUnder [''subject'']]),
     (''TaskUpdate'', ''TaskUpdateCall'', [TextUnder [''taskId'', ''task_id'']]),
     (''ExitPlanMode'', ''ExitPlanModeCall'', [TextUnder [''plan'']])]"

definition key_absent :: "json \<Rightarrow> string \<Rightarrow> bool" where
  "key_absent input k \<longleftrightarrow> field input k = None \<or> field input k = Some JNull"

text \<open>The complaint of a demand that is not met, under the name of its first key.\<close>

definition span_given :: "json \<Rightarrow> bool" where
  "span_given sp \<longleftrightarrow> (\<exists>a b. field sp ''old_string'' = Some (JString a) \<and> field sp ''new_string'' = Some (JString b))"

definition spans_complaint :: "json \<Rightarrow> tool_input_error option" where
  "spans_complaint v = (case v of
      JArray xs \<Rightarrow> if \<forall>sp\<in>set xs. span_given sp then None else Some (Malformed ''edit span'')
    | JObject ps \<Rightarrow> if ps = [] then None else Some (Malformed ''edit span'')
    | JString s \<Rightarrow> if s = [] then None else Some (Malformed ''edit span'')
    | _ \<Rightarrow> Some (Malformed ''edits not iterable''))"

fun complaint :: "json \<Rightarrow> demand \<Rightarrow> tool_input_error option" where
  "complaint input (TextUnder ks) =
     (case dropWhile (key_absent input) ks of
        [] \<Rightarrow> Some (MissingKey (hd ks))
      | k # _ \<Rightarrow> (case the (field input k) of
            JString _ \<Rightarrow> None
          | v \<Rightarrow> Some (WrongType (hd ks) (value_type_name v))))"
| "complaint input SpanList =
     (case field input ''edits'' of None \<Rightarrow> Some (MissingKey ''edits'') | Some v \<Rightarrow> spans_complaint v)"

fun first_complaint :: "json \<Rightarrow> demand list \<Rightarrow> tool_input_error option" where
  "first_complaint input [] = None"
| "first_complaint input (d # ds) = opt_or (complaint input d) (first_complaint input ds)"

text \<open>The strings the input gives, and those a call took.\<close>

definition gives_text :: "json \<Rightarrow> string list \<Rightarrow> string \<Rightarrow> bool" where
  "gives_text input ks s \<longleftrightarrow> (\<exists>pre k post. ks = pre @ k # post \<and> (\<forall>j\<in>set pre. key_absent input j) \<and>
     field input k = Some (JString s))"

definition text_demands :: "demand list \<Rightarrow> string list list" where
  "text_demands ds = concat (map (\<lambda>d. case d of TextUnder ks \<Rightarrow> [ks] | SpanList \<Rightarrow> []) ds)"

definition call_texts :: "tool_call \<Rightarrow> string list" where
  "call_texts t = (case t of
      TBash c \<Rightarrow> [bc_command c]
    | TEdit c \<Rightarrow> [ec_file_path c, ec_old c, ec_new c]
    | TMultiEdit c \<Rightarrow> [mc_file_path c]
    | TWrite c \<Rightarrow> [wc_file_path c, wc_content c]
    | TRead c \<Rightarrow> [rc_file_path c]
    | TNotebookEdit c \<Rightarrow> [nc_notebook_path c, nc_new_source c]
    | TGrep c \<Rightarrow> [gc_pattern c]
    | TGlob c \<Rightarrow> [lc_pattern c]
    | TTask c \<Rightarrow> [kc_prompt c]
    | TSkill c \<Rightarrow> [sc_skill c]
    | TTaskCreate c \<Rightarrow> [tc_subject c]
    | TTaskUpdate c \<Rightarrow> [uc_task_id c]
    | TExitPlanMode c \<Rightarrow> [xc_plan c]
    | _ \<Rightarrow> [])"

lemma as_str_Some_iff: "as_str v = Some s \<longleftrightarrow> v = JString s"
  by (cases v) auto

text \<open>The readers against the demands.\<close>

definition text_given :: "json \<Rightarrow> string list \<Rightarrow> string" where
  "text_given input ks = (case dropWhile (key_absent input) ks of
      [] \<Rightarrow> [] | k # _ \<Rightarrow> opt_default [] (field_str input k))"

lemma opt_value_absent: "opt_value input k = (if key_absent input k then None else field input k)"
  by (cases "field input k") (auto simp: opt_value_def key_absent_def is_null_def split: json.split)

lemma req_str_alternates_demand:
  "req_str_alternates k0 input ks = (case dropWhile (key_absent input) ks of
      [] \<Rightarrow> Inl (MissingKey k0)
    | k # _ \<Rightarrow> ok_or (WrongType k0 (value_type_name (the (field input k)))) (as_str (the (field input k))))"
  by (induction ks) (auto simp: opt_value_absent key_absent_def)

lemma req_str_keys_demand:
  "req_str_keys input ks =
     (case complaint input (TextUnder ks) of Some e \<Rightarrow> Inl e | None \<Rightarrow> Inr (text_given input ks))"
proof (cases "dropWhile (key_absent input) ks")
  case Nil
  show ?thesis by (simp add: req_str_keys_def req_str_alternates_demand Nil del: dropWhile_eq_Nil_conv)
next
  case (Cons k ks')
  then have "\<not> key_absent input k" by (simp add: dropWhile_eq_Cons_conv)
  then obtain v where v: "field input k = Some v" "v \<noteq> JNull" by (auto simp: key_absent_def)
  then show ?thesis using Cons
    by (cases v) (simp_all add: req_str_keys_def req_str_alternates_demand text_given_def field_str_def)
qed

lemma req_str_demand:
  "req_str input k =
     (case complaint input (TextUnder [k]) of Some e \<Rightarrow> Inl e | None \<Rightarrow> Inr (text_given input [k]))"
proof -
  have "req_str input k = req_str_keys input [k]"
    unfolding req_str_def req_str_keys_def list.sel req_str_alternates.simps ..
  then show ?thesis unfolding req_str_keys_demand .
qed

lemma span_from_raw_given: "case span_from_raw sp of
    Inl e \<Rightarrow> e = Malformed ''edit span'' \<and> \<not> span_given sp | Inr _ \<Rightarrow> span_given sp"
  by (auto simp: span_from_raw_def span_given_def field_str_def as_str_Some_iff bind_eq_Some_conv
      split: option.split)

lemma edit_spans_demand:
  "case edit_spans v of Inl e \<Rightarrow> spans_complaint v = Some e | Inr _ \<Rightarrow> spans_complaint v = None"
proof (cases v)
  case (JArray xs)
  have "case map_res span_from_raw xs of
      Inl e \<Rightarrow> e = Malformed ''edit span'' \<and> \<not> (\<forall>sp\<in>set xs. span_given sp)
    | Inr _ \<Rightarrow> \<forall>sp\<in>set xs. span_given sp"
  proof (induction xs)
    case (Cons x xs)
    then show ?case using span_from_raw_given [of x]
      by (auto split: sum.splits)
  qed simp
  with JArray show ?thesis by (auto simp: edit_spans_def spans_complaint_def split: sum.splits)
qed (simp_all add: edit_spans_def spans_complaint_def)

lemma text_given_gives:
  assumes "complaint input (TextUnder ks) = None"
  shows "gives_text input ks (text_given input ks)"
proof (cases "dropWhile (key_absent input) ks")
  case Nil
  with assms show ?thesis by simp
next
  case (Cons k post)
  have split: "ks = takeWhile (key_absent input) ks @ k # post"
    using takeWhile_dropWhile_id [of "key_absent input" ks] unfolding Cons by (rule sym)
  have "\<not> key_absent input k" using Cons by (simp add: dropWhile_eq_Cons_conv)
  then obtain v where v: "field input k = Some v" "v \<noteq> JNull" by (auto simp: key_absent_def)
  with assms Cons obtain s where "v = JString s" by (cases v) simp_all
  with v(1) Cons have "field input k = Some (JString (text_given input ks))"
    by (simp add: text_given_def field_str_def)
  moreover have "\<forall>j\<in>set (takeWhile (key_absent input) ks). key_absent input j"
    by (meson set_takeWhileD)
  ultimately show ?thesis unfolding gives_text_def using split by blast
qed

lemma opt_or_None_iff: "opt_or a b = None \<longleftrightarrow> a = None \<and> b = None"
  by (cases a) simp_all

lemma no_complaint_gives:
  assumes "first_complaint input ds = None"
  shows "list_all2 (gives_text input) (text_demands ds) (map (text_given input) (text_demands ds))"
  using assms
proof (induction ds)
  case (Cons d ds)
  then show ?case
    by (cases d) (simp_all add: text_demands_def opt_or_None_iff text_given_gives del: complaint.simps)
qed (simp add: text_demands_def)

lemma lower_tool_row:
  assumes "tool_row canonical = Some (type, ds)" "as_object input \<noteq> None"
  shows "case first_complaint input ds of
      Some e \<Rightarrow> lower_tool env st canonical name input = Inl e
    | None \<Rightarrow> (\<exists>c. lower_tool env st canonical name input = Inr c \<and> call_type_name c = type \<and>
        call_texts c = map (text_given input) (text_demands ds))"
proof -
  have nostr: "as_str input = None" using assms(2) by (cases input) simp_all
  have spans: "(case field input ''edits'' of Some v \<Rightarrow> edit_spans v | None \<Rightarrow> Inl (MissingKey ''edits'')) =
      (case complaint input SpanList of Some e \<Rightarrow> Inl e
       | None \<Rightarrow> Inr (projr (edit_spans (the (field input ''edits'')))))"
    using edit_spans_demand [of "the (field input ''edits'')"]
    by (auto split: option.splits sum.splits)
  show ?thesis
    using assms
    by (auto simp: tool_row_def lower_tool_def lowering_defs req_str_demand req_str_keys_demand
        call_type_name_def call_texts_def text_demands_def nostr spans
        simp del: complaint.simps split: if_splits option.splits)
qed

subsection \<open>Results\<close>

lemmas result_defs = bash_result_def edit_result_def write_result_def read_result_def task_result_def
  skill_result_def ask_user_question_result_def

lemma lower_result_keeps: "result_name (lower_result name v) = name \<and> result_raw (lower_result name v) = v"
  unfolding lower_result_def Let_def result_defs
  by (simp add: result_name_def result_raw_def split: option.split)

subsection \<open>Names and the registry\<close>

lemma expand_names_self:
  "n \<in> set ns \<Longrightarrow> {n, canonical_tool n} \<union> set (tool_aliases (canonical_tool n)) \<subseteq> set (expand_names ns)"
  by (induction ns) auto

lemma capture_scope [simp]: "capture_current (st\<lparr>registry_override := Some s\<rparr>) = s"
  by (simp add: capture_current_def capture_scoped_def)

lemma matches_names_capture:
  assumes "capture_current a = capture_current b"
  shows "matches_names a n s = matches_names b n s"
  unfolding matches_names_def mcp_tool_alias_def assms ..

lemma tool_name_matches_unscoped:
  "tool_name_matches st actual spec = matches_names st actual (expand_tool_names st spec)"
  by (simp add: tool_name_matches_def with_registry_def expand_tool_names_def
      matches_names_capture [of "st\<lparr>registry_override := Some (capture_current st)\<rparr>" st])

text \<open>The interface the matchers use of the registry: a finite map that answers the last
  registration of a name and nothing after its removal.\<close>

locale keyed_registry =
  fixes reg :: "'k \<Rightarrow> 'v \<Rightarrow> 's \<Rightarrow> 's"
    and unreg :: "'k \<Rightarrow> 's \<Rightarrow> bool \<times> 's"
    and look :: "'s \<Rightarrow> 'k \<Rightarrow> 'v option"
  assumes look_reg: "look (reg k v s) = (look s)(k \<mapsto> v)"
    and look_unreg: "look (snd (unreg k s)) = (look s)(k := None)"
    and unreg_found: "fst (unreg k s) \<longleftrightarrow> look s k \<noteq> None"
begin

lemma reg_unreg: "fst (unreg k (reg k v s)) \<and> look (snd (unreg k (reg k v s))) = (look s)(k := None)"
  by (simp add: unreg_found look_unreg look_reg)

lemma unreg_absent: "look s k = None \<Longrightarrow> look (snd (unreg k s)) = look s \<and> \<not> fst (unreg k s)"
  by (auto simp: look_unreg unreg_found)

definition reg_all :: "('k \<times> 'v) list \<Rightarrow> 's \<Rightarrow> 's" where
  "reg_all ps s = foldl (\<lambda>s (k, v). reg k v s) s ps"

lemma look_reg_all: "look (reg_all ps s) = look s ++ map_of (rev ps)"
proof (induction ps arbitrary: s)
  case Nil
  then show ?case by (simp add: reg_all_def)
next
  case (Cons p ps)
  obtain k v where p: "p = (k, v)" by force
  have "look (reg_all (p # ps) s) = look (reg_all ps (reg k v s))" by (simp add: reg_all_def p)
  then show ?case unfolding Cons.IH look_reg by (simp add: p)
qed

end

definition registry_look :: "registry \<Rightarrow> string \<Rightarrow> mcp_tool_spec option" where
  "registry_look st = map_of (mcp_registry st)"

interpretation tool_reg: keyed_registry register_mcp_tool unregister_mcp_tool registry_look
  by unfold_locales
    (auto simp: register_mcp_tool_def unregister_mcp_tool_def registry_look_def update_conv'
      delete_conv' map_of_eq_None_iff fun_eq_iff)

subsection \<open>The registry document\<close>

definition token_ok :: "json option \<Rightarrow> bool" where
  "token_ok v \<longleftrightarrow> (\<exists>s. v = Some (JString s) \<and> s \<noteq> [] \<and> length (chars s) \<le> 256)"

lemma registry_token_Inr: "registry_token v l = Inr s \<Longrightarrow> v = Some (JString s) \<and> token_ok v"
  by (cases v) (auto simp: registry_token_def token_ok_def as_str_Some_iff ok_or_Inr_iff
      res_bind_Inr_iff split: if_splits)

lemma check_definitions_Inr:
  assumes "check_definitions names ds = Inr all_names"
  shows "map Some all_names = map Some names @ map (\<lambda>d. field_str d ''name'') ds \<and>
     (distinct names \<longrightarrow> distinct all_names) \<and>
     (\<forall>d\<in>set ds. token_ok (field d ''name'') \<and> token_ok (field d ''behaves_like''))"
  using assms
proof (induction ds arbitrary: names)
  case Nil
  then show ?case by simp
next
  case (Cons d ds)
  obtain n b where n: "registry_token (field d ''name'') ''name'' = Inr n" "n \<notin> set names"
    and b: "registry_token (field d ''behaves_like'') ''behaves_like'' = Inr b"
    and rest: "check_definitions (names @ [n]) ds = Inr all_names"
    using Cons.prems by (auto simp: res_bind_Inr_iff split: if_splits)
  have "field_str d ''name'' = Some n" using registry_token_Inr [OF n(1)] by (simp add: field_str_def)
  then show ?case
    using Cons.IH [OF rest] registry_token_Inr [OF n(1)] registry_token_Inr [OF b] n(2) by auto
qed

subsection \<open>Properties\<close>

text \<open>Lowering a tool call is total and lossless. Whatever the name and input,
  \<open>parse_tool_call\<close> returns a call that carries that name and that input verbatim; it is
  the strict lowering when that succeeds, and otherwise an \<open>OtherCall\<close> with the error
  message.\<close>

theorem parse_tool_call_lossless:
  "call_name (parse_tool_call env st name input) = name \<and>
   call_raw (parse_tool_call env st name input) = input \<and>
   (case parse_tool_call_strict env st name input of
      Inr c \<Rightarrow> parse_tool_call env st name input = c
    | Inl e \<Rightarrow> parse_tool_call env st name input =
        TOther \<lparr>oc_name = name, oc_raw = input, oc_error = Some (error_text e)\<rparr>)"
  using strict_keeps [of name input env st]
  by (auto simp: parse_tool_call_def keeps_input_def other_call_def call_name_def call_raw_def
      split: sum.split)

text \<open>C10: what the strict lowering of a built-in tool demands of its input, and what it
  takes from it. A tool called under its own name or an alias, with an object, fails exactly
  when one of the demands of its table row is not met, with the complaint of the first one:
  a key that is absent or null is missing, and a key of another type than string is named
  with the Python type it has. Otherwise it lowers to the call type of that row, with the
  name and the input kept and each demanded text the string the input gives for it; and the
  total lowering returns that call, or an \<open>OtherCall\<close> that carries the complaint.\<close>

theorem tool_inputs_checked:
  assumes "tool_row (canonical_tool name) = Some (type, ds)" "as_object input \<noteq> None"
  shows "case first_complaint input ds of
      Some e \<Rightarrow> parse_tool_call_strict env st name input = Inl e \<and>
        parse_tool_call env st name input =
          TOther \<lparr>oc_name = name, oc_raw = input, oc_error = Some (error_text e)\<rparr>
    | None \<Rightarrow> (\<exists>c. parse_tool_call_strict env st name input = Inr c \<and>
        parse_tool_call env st name input = c \<and> call_type_name c = type \<and>
        call_name c = name \<and> call_raw c = input \<and>
        list_all2 (gives_text input) (text_demands ds) (call_texts c))"
proof -
  obtain ps where obj: "as_object input = Some ps" using assms(2) by blast
  show ?thesis
  proof (cases "first_complaint input ds")
    case None
    then obtain c where c: "lower_tool env st (canonical_tool name) name input = Inr c"
        "call_type_name c = type" "call_texts c = map (text_given input) (text_demands ds)"
      using lower_tool_row [OF assms, of env st name] by auto
    have "parse_tool_call_strict env st name input = Inr c"
      by (simp add: parse_tool_call_strict_def obj c(1))
    with None c show ?thesis using strict_keeps [of name input env st] no_complaint_gives [OF None]
      by (simp add: parse_tool_call_def keeps_input_def comp_def)
  next
    case (Some e)
    then have "parse_tool_call_strict env st name input = Inl e"
      using lower_tool_row [OF assms, of env st name]
      by (simp add: parse_tool_call_strict_def obj)
    with Some show ?thesis by (simp add: parse_tool_call_def other_call_def)
  qed
qed

definition sample_write_input :: json where
  "sample_write_input = JObject [(''file_path'', JString ''a''), (''content'', JBool True)]"

theorem tool_inputs_checked_witness:
  "parse_tool_call_strict (sample_env []) \<lparr>mcp_registry = [], registry_override = None\<rparr> ''Create'' sample_write_input
     = Inl (WrongType ''content'' ''bool'')"
proof -
  have "tool_row (canonical_tool ''Create'') = Some (''WriteCall'', [TextUnder [''file_path''], TextUnder [''content'']])"
    by (simp add: canonical_tool_def tool_alias_reverse_def tool_row_def)
  moreover have "as_object sample_write_input \<noteq> None" by (simp add: sample_write_input_def)
  ultimately show ?thesis
    using tool_inputs_checked [of "''Create''" "''WriteCall''"
        "[TextUnder [''file_path''], TextUnder [''content'']]" sample_write_input "sample_env []"
        "\<lparr>mcp_registry = [], registry_override = None\<rparr>"]
    by (simp add: sample_write_input_def value_type_name_def key_absent_def)
qed

text \<open>Tool-name specs. A tool matches a spec that lists it (\<open>A|B|...\<close>) under its own
  name, under the canonical name it aliases, or, for an MCP tool, whose registered
  \<open>behaves_like\<close> gate is listed; in each case whatever scope the registry is read in.\<close>

theorem tool_name_matches_listed:
  assumes "n \<in> set (split_char CHR ''|'' spec)"
  shows "tool_name_matches st n spec \<and> tool_name_matches st (canonical_tool n) spec \<and>
     (\<forall>a\<in>set (tool_aliases (canonical_tool n)). tool_name_matches st a spec) \<and>
     (\<forall>server tool sp. mcp_parts actual = Some (server, tool) \<and>
        map_of (capture_current st) tool = Some sp \<and> behaves_like sp = n \<longrightarrow>
        tool_name_matches st actual spec)"
proof -
  have sub: "{n, canonical_tool n} \<union> set (tool_aliases (canonical_tool n)) \<subseteq> expand_tool_names st spec"
    using expand_names_self [OF assms] by (auto simp: expand_tool_names_def Let_def)
  have self: "matches_names st x names" if "x \<in> names" for x names
    using that by (simp add: matches_names_def)
  have gate: "matches_names st actual names"
    if "mcp_parts actual = Some (server, tool)" "map_of (capture_current st) tool = Some sp"
      "behaves_like sp \<in> names" for server tool sp names
    using that by (simp add: matches_names_def mcp_tool_alias_def)
  show ?thesis
    using sub unfolding tool_name_matches_unscoped by (auto intro: self gate)
qed

theorem tool_name_matches_listed_witness:
  "tool_name_matches \<lparr>mcp_registry = [(''patch'', \<lparr>behaves_like = ''Edit'', span_edit = None\<rparr>)],
       registry_override = None\<rparr> ''mcp__files__patch'' ''Bash|Edit''"
proof -
  have "''Edit'' \<in> set (split_char CHR ''|'' ''Bash|Edit'')" by simp
  from tool_name_matches_listed [OF this,
      of "\<lparr>mcp_registry = [(''patch'', \<lparr>behaves_like = ''Edit'', span_edit = None\<rparr>)], registry_override = None\<rparr>"
        "''mcp__files__patch''"]
  show ?thesis
    by (auto simp: mcp_parts_def strip_prefix_def capture_current_def capture_scoped_def)
qed

text \<open>The process-wide tool registry is a map: after any sequence of registrations a
  name resolves to its last spec (or what it had before), and an unregistration removes
  exactly that name and reports whether it was there. A scoped registry
  (\<open>with_registry\<close>) answers every lookup inside its scope and leaves the override as it
  was.\<close>

theorem tool_registry_map:
  "registry_look (foldl (\<lambda>s (k, v). register_mcp_tool k v s) st ps) = registry_look st ++ map_of (rev ps) \<and>
   registry_look (snd (unregister_mcp_tool k st)) = (registry_look st)(k := None) \<and>
   (fst (unregister_mcp_tool k st) \<longleftrightarrow> registry_look st k \<noteq> None) \<and>
   fst (with_registry reg (\<lambda>s. (mcp_tool_alias s tool, s)) st) = map_option behaves_like (map_of reg tool) \<and>
   registry_override (snd (with_registry reg operation st)) = registry_override st"
  using tool_reg.look_reg_all [of ps st, unfolded tool_reg.reg_all_def] tool_reg.look_unreg tool_reg.unreg_found
  by (simp add: with_registry_def mcp_tool_alias_def Let_def split_beta)

text \<open>An accepted registry document: at most 256 definitions, every \<open>name\<close> and
  \<open>behaves_like\<close> a string of 1 to 256 characters, no two definitions of one name.\<close>

theorem specs_from_json_checked:
  assumes "specs_from_json decode doc = Inr sps"
  shows "\<exists>ds names. doc = JArray ds \<and> length ds \<le> 256 \<and> distinct names \<and>
     map (\<lambda>d. field_str d ''name'') ds = map Some names \<and>
     (\<forall>d\<in>set ds. token_ok (field d ''name'') \<and> token_ok (field d ''behaves_like''))"
proof -
  obtain ds names where ds: "as_array doc = Some ds" "length ds \<le> 256"
    and names: "check_definitions [] ds = Inr names"
    using assms by (auto simp: specs_from_json_def res_bind_Inr_iff ok_or_Inr_iff split: if_splits)
  have "doc = JArray ds" using ds(1) by (cases doc) auto
  then show ?thesis using check_definitions_Inr [OF names] ds(2) by auto
qed

definition sample_definition :: json where
  "sample_definition = JObject [(''name'', JString ''patch''), (''behaves_like'', JString ''Edit''),
     (''span_edit'', JNull)]"

theorem specs_from_json_checked_witness:
  "\<exists>ds names. JArray [sample_definition] = JArray ds \<and> length ds \<le> 256 \<and> distinct names \<and>
     map (\<lambda>d. field_str d ''name'') ds = map Some names \<and>
     (\<forall>d\<in>set ds. token_ok (field d ''name'') \<and> token_ok (field d ''behaves_like''))"
proof (rule specs_from_json_checked)
  show "specs_from_json (\<lambda>_. Some []) (JArray [sample_definition]) = Inr []"
    by (simp add: specs_from_json_def sample_definition_def registry_token_def check_span_def
        is_continuation_def)
qed

end
