(* ===== verification/Notifications.thy ===== *)
theory Notifications
  imports ToolCall
begin

text \<open>
  \<open>notifications.rs\<close> and the private copy in \<open>activity.rs\<close>: the harness
  notification-delivery queue replayed from the \<open>queue-operation\<close> records of a session.
  The two replays differ only in how they read a queue item's content, so the loop is one
  definition over that reader; the reader of \<open>notifications.rs\<close> renders a non-string value
  as Python \<open>repr\<close> (\<open>render.rs py_repr\<close>, the argument \<open>repr\<close>), the one of
  \<open>activity.rs\<close> takes it as empty.
\<close>

subsection \<open>The replay\<close>

record notifications =
  queued :: "string list"
  delivered :: "string list"
  enqueued :: "string list"

definition tool_use_marker :: "string \<Rightarrow> string" where
  "tool_use_marker tool_use_id = TOOL_USE_ID_PREFIX @ tool_use_id @ TOOL_USE_ID_SUFFIX"

text \<open>\<open>render.rs py_str\<close>: a string verbatim, anything else through \<open>repr\<close>.\<close>

definition py_str :: "(json \<Rightarrow> string) \<Rightarrow> json \<Rightarrow> string" where
  "py_str repr v = (case as_str v of Some s \<Rightarrow> s | None \<Rightarrow> repr v)"

definition content_py :: "(json \<Rightarrow> string) \<Rightarrow> json \<Rightarrow> string" where
  "content_py repr raw = (case field raw ''content'' of None \<Rightarrow> [] | Some v \<Rightarrow> py_str repr v)"

definition content_str :: "json \<Rightarrow> string" where
  "content_str raw = opt_default [] (field_str raw ''content'')"

text \<open>The queue records of a session, and one step of the queue.\<close>

definition queue_record :: "entry \<Rightarrow> json option" where
  "queue_record e = (case e of
      Other x \<Rightarrow> if oe_ty x = ''queue-operation'' then Some (oe_raw x) else None
    | _ \<Rightarrow> None)"

definition queue_step ::
  "(json \<Rightarrow> string) \<Rightarrow> json \<Rightarrow> string list \<times> string list \<Rightarrow> string list \<times> string list" where
  "queue_step content raw qe =
     (let (q, enq) = qe; operation = field_str raw ''operation'' in
      if operation = Some ''enqueue'' then (q @ [content raw], enq @ [content raw])
      else if (operation = Some ''dequeue'' \<or> operation = Some ''remove'') \<and> q \<noteq> [] then (tl q, enq)
      else if operation = Some ''popAll'' then (filter (\<lambda>item. \<not> contains_str item (content raw)) q, enq)
      else (q, enq))"

definition replay_queue_iter :: "(json \<Rightarrow> string) \<Rightarrow> entry list \<Rightarrow> string list \<times> string list" where
  "replay_queue_iter content entries =
     fold (\<lambda>e qe. case queue_record e of None \<Rightarrow> qe | Some raw \<Rightarrow> queue_step content raw qe) entries ([], [])"

text \<open>\<open>notifications.rs\<close>.\<close>

definition queued_prompt :: "attachment_detail \<Rightarrow> string option" where
  "queued_prompt d = (case d of ADQueuedCommand q \<Rightarrow> Some (opt_default [] (qc_prompt q)) | _ \<Rightarrow> None)"

definition delivered_text :: "entry \<Rightarrow> string option" where
  "delivered_text e = (case e of
      User u \<Rightarrow> (let text = user_text (ue_content u) in
        if contains_str TASK_NOTIFICATION_MARKER text then Some text else None)
    | Attachment att \<Rightarrow>
        if attachment_type att = ''queued_command'' then queued_prompt (ate_detail att) else None
    | _ \<Rightarrow> None)"

definition from_entry_refs :: "(json \<Rightarrow> string) \<Rightarrow> entry list \<Rightarrow> notifications" where
  "from_entry_refs repr entries =
     (let (q, enq) = replay_queue_iter (content_py repr) entries in
      \<lparr>queued = q, delivered = List.map_filter delivered_text entries, enqueued = enq\<rparr>)"

text \<open>The private copy of \<open>activity.rs\<close>: one loop that also collects the deliveries.\<close>

definition activity_delivered_text :: "entry \<Rightarrow> string option" where
  "activity_delivered_text e = (case e of
      User u \<Rightarrow> (let text = user_text (ue_content u) in
        if contains_str TASK_NOTIFICATION_MARKER text then Some text else None)
    | Attachment att \<Rightarrow> queued_prompt (ate_detail att)
    | _ \<Rightarrow> None)"

definition activity_step :: "entry \<Rightarrow> notifications \<Rightarrow> notifications" where
  "activity_step e n =
     (let (q, enq) = (case queue_record e of
             None \<Rightarrow> (queued n, enqueued n)
           | Some raw \<Rightarrow> queue_step content_str raw (queued n, enqueued n))
      in \<lparr>queued = q, delivered = delivered n @ opt_list (activity_delivered_text e), enqueued = enq\<rparr>)"

definition activity_notifications :: "entry list \<Rightarrow> notifications" where
  "activity_notifications entries =
     fold activity_step entries \<lparr>queued = [], delivered = [], enqueued = []\<rparr>"

text \<open>The queries; the two files spell them alike.\<close>

definition holds_marker :: "string \<Rightarrow> string list \<Rightarrow> bool" where
  "holds_marker marker texts = (\<exists>text\<in>set texts. contains_str marker text)"

definition completed :: "notifications \<Rightarrow> string \<Rightarrow> bool" where
  "completed n tool_use_id =
     (let marker = tool_use_marker tool_use_id in
      holds_marker marker (delivered n) \<or>
      (holds_marker marker (enqueued n) \<and> \<not> holds_marker marker (queued n)))"

definition pending :: "notifications \<Rightarrow> string \<Rightarrow> bool" where
  "pending n tool_use_id = holds_marker (tool_use_marker tool_use_id) (queued n)"

definition has_pending :: "notifications \<Rightarrow> bool" where
  "has_pending n = holds_marker TASK_NOTIFICATION_MARKER (queued n)"

subsection \<open>The two replays\<close>

lemma activity_notifications_split:
  "activity_notifications entries =
     (let (q, enq) = replay_queue_iter content_str entries in
      \<lparr>queued = q, delivered = List.map_filter activity_delivered_text entries, enqueued = enq\<rparr>)"
proof -
  let ?st = "\<lambda>e qe. case queue_record e of None \<Rightarrow> qe | Some raw \<Rightarrow> queue_step content_str raw qe"
  have "fold activity_step es \<lparr>queued = q, delivered = d, enqueued = enq\<rparr> =
      \<lparr>queued = fst (fold ?st es (q, enq)), delivered = d @ List.map_filter activity_delivered_text es,
       enqueued = snd (fold ?st es (q, enq))\<rparr>" for es q d enq
  proof (induction es arbitrary: q d enq)
    case Nil
    then show ?case by (simp add: List.map_filter_simps)
  next
    case (Cons e es)
    obtain q' enq' where st: "?st e (q, enq) = (q', enq')" by force
    then have "activity_step e \<lparr>queued = q, delivered = d, enqueued = enq\<rparr> =
      \<lparr>queued = q', delivered = d @ opt_list (activity_delivered_text e), enqueued = enq'\<rparr>"
      by (auto simp: activity_step_def split_beta split: option.splits)
    then show ?case using Cons.IH st
      by (simp add: List.map_filter_simps split: option.split)
  qed
  then show ?thesis
    by (simp add: activity_notifications_def replay_queue_iter_def split_beta)
qed

text \<open>Where the readers agree: every queue record's content is a string or absent.\<close>

definition string_contents :: "entry list \<Rightarrow> bool" where
  "string_contents entries \<longleftrightarrow> (\<forall>e\<in>set entries. \<forall>raw v.
     queue_record e = Some raw \<and> field raw ''content'' = Some v \<longrightarrow> as_str v \<noteq> None)"

text \<open>What the parser guarantees of an attachment.\<close>

definition attachment_typed :: "entry \<Rightarrow> bool" where
  "attachment_typed e \<longleftrightarrow> (\<forall>att q. e = Attachment att \<and> ate_detail att = ADQueuedCommand q \<longrightarrow>
     attachment_type att = ''queued_command'')"

lemma content_readers_agree:
  assumes "\<And>v. field raw ''content'' = Some v \<Longrightarrow> as_str v \<noteq> None"
  shows "content_py repr raw = content_str raw"
proof (cases "field raw ''content''")
  case None
  then show ?thesis by (simp add: content_py_def content_str_def field_str_def)
next
  case (Some v)
  then obtain s where "as_str v = Some s" using assms by blast
  with Some show ?thesis by (simp add: content_py_def content_str_def field_str_def py_str_def)
qed

lemma replay_content_cong:
  assumes "\<And>e raw. e \<in> set entries \<Longrightarrow> queue_record e = Some raw \<Longrightarrow> c1 raw = c2 raw"
  shows "replay_queue_iter c1 entries = replay_queue_iter c2 entries"
  unfolding replay_queue_iter_def
  by (rule fold_cong) (auto simp: fun_eq_iff queue_step_def assms Let_def split: option.split)

lemma delivered_agree:
  "attachment_typed e \<Longrightarrow> activity_delivered_text e = delivered_text e"
  by (auto simp: attachment_typed_def activity_delivered_text_def delivered_text_def queued_prompt_def
      split: entry.splits attachment_detail.splits)

lemma map_filter_cong: "(\<And>x. x \<in> set xs \<Longrightarrow> f x = g x) \<Longrightarrow> List.map_filter f xs = List.map_filter g xs"
  by (induction xs) (auto simp: List.map_filter_simps split: option.split)

lemma replays_agree:
  assumes "string_contents entries" "\<forall>e\<in>set entries. attachment_typed e"
  shows "activity_notifications entries = from_entry_refs repr entries"
proof -
  have "replay_queue_iter content_str entries = replay_queue_iter (content_py repr) entries"
    using assms(1) by (intro replay_content_cong sym [OF content_readers_agree]) (auto simp: string_contents_def)
  moreover have "List.map_filter activity_delivered_text entries = List.map_filter delivered_text entries"
    using assms(2) by (intro map_filter_cong) (simp add: delivered_agree)
  ultimately show ?thesis by (simp add: activity_notifications_split from_entry_refs_def)
qed

subsection \<open>Attachments of the parser\<close>

lemma parse_attachment_detail_queued:
  assumes "parse_attachment_detail env d r = Inr (ADQueuedCommand q, r')"
  shows "opt_default [] (Option.bind (field d ''attachment'') (\<lambda>att. field_str att ''type'')) = ''queued_command''"
proof -
  let ?att = "opt_default JNull (field d ''attachment'')"
  have "field_str ?att ''type'' = Some ''queued_command''"
    using assms unfolding parse_attachment_detail_def Let_def
    by (simp add: rp_iffs split: if_splits)
  then show ?thesis by (cases "field d ''attachment''") (simp_all add: field_str_def)
qed

lemma parsed_attachment_typed:
  assumes "parse_entry env d = Inr e"
  shows "attachment_typed e"
  unfolding attachment_typed_def
proof (intro allI impI)
  fix att q assume a: "e = Attachment att \<and> ate_detail att = ADQueuedCommand q"
  obtain r where r: "parse_entry_retained env d retained_default = Inr (e, r)"
    using assms by (auto simp: parse_entry_def res_bind_Inr_iff)
  from r show "attachment_type att = ''queued_command''"
  proof (cases rule: parse_entry_retained_cases)
    case attachment
    then obtain r1 where "parse_attachment_detail env d retained_default = Inr (ADQueuedCommand q, r1)"
      and "attachment_type att = opt_default [] (Option.bind (field d ''attachment'') (\<lambda>att. field_str att ''type''))"
      using a by (auto simp: parse_attachment_entry_def rp_iffs)
    then show ?thesis using parse_attachment_detail_queued by simp
  qed (use a in \<open>auto elim!: parse_user_entry_shape parse_assistant_entry_shape parse_system_entry_shape
      parse_mode_entry_shape\<close>)
qed

subsection \<open>The queue as a set of waiting arrivals\<close>

text \<open>The abstract queue. The enqueued items are numbered in the order they arrive, so two
  arrivals with equal contents stay distinct; the queue is the set of the numbers still
  waiting. An enqueue adds the next number, a dequeue or a remove takes the earliest one
  waiting, a popAll takes every arrival whose text its own content quotes, and no other
  record does anything.\<close>

type_synonym arrivals = "string list \<times> nat set"

definition arrival_step :: "(json \<Rightarrow> string) \<Rightarrow> arrivals \<Rightarrow> json \<Rightarrow> arrivals" where
  "arrival_step content aw raw =
     (let (arrived, waiting) = aw; operation = field_str raw ''operation'' in
      if operation = Some ''enqueue'' then (arrived @ [content raw], insert (length arrived) waiting)
      else if operation = Some ''dequeue'' \<or> operation = Some ''remove'' then
        (arrived, {k \<in> waiting. \<exists>j\<in>waiting. j < k})
      else if operation = Some ''popAll'' then
        (arrived, {k \<in> waiting. \<not> (\<exists>a b. content raw = a @ arrived ! k @ b)})
      else (arrived, waiting))"

definition queue_records :: "entry list \<Rightarrow> json list" where
  "queue_records = List.map_filter queue_record"

definition arrivals_after :: "(json \<Rightarrow> string) \<Rightarrow> entry list \<Rightarrow> arrivals" where
  "arrivals_after content entries = foldl (arrival_step content) ([], {}) (queue_records entries)"

text \<open>The refinement relation, over the sorted list of the waiting numbers.\<close>

definition queue_refines :: "string list \<times> string list \<Rightarrow> arrivals \<Rightarrow> bool" where
  "queue_refines qe aw \<longleftrightarrow> (\<exists>ks. sorted_wrt (<) ks \<and> set ks = snd aw \<and> (\<forall>k\<in>set ks. k < length (fst aw)) \<and>
     fst qe = map ((!) (fst aw)) ks \<and> snd qe = fst aw)"

lemma later_waiting_tl:
  fixes k :: nat
  assumes "sorted_wrt (<) (k # ks)"
  shows "{x \<in> set (k # ks). \<exists>j\<in>set (k # ks). j < x} = set ks"
  using assms by (auto intro: bexI [of _ k] dest: order.asym)

lemma queue_step_refines:
  assumes "queue_refines qe aw"
  shows "queue_refines (queue_step content raw qe) (arrival_step content aw raw)"
proof -
  obtain arr W where aw: "aw = (arr, W)" by force
  obtain ks where ks: "sorted_wrt (<) ks" "set ks = W" "\<forall>k\<in>set ks. k < length arr"
    and qe: "qe = (map ((!) arr) ks, arr)"
    using assms by (cases qe) (auto simp: queue_refines_def aw)
  let ?op = "field_str raw ''operation''"
  consider "?op = Some ''enqueue''" | "?op = Some ''dequeue'' \<or> ?op = Some ''remove''"
    | "?op = Some ''popAll''" | "?op \<notin> {Some ''enqueue'', Some ''dequeue'', Some ''remove'', Some ''popAll''}"
    by blast
  then show ?thesis
  proof cases
    case 1
    have "map ((!) (arr @ [content raw])) ks = map ((!) arr) ks"
      using ks(3) by (simp add: nth_append)
    with 1 ks show ?thesis
      by (auto simp: queue_refines_def queue_step_def arrival_step_def aw qe sorted_wrt_append less_Suc_eq
          intro!: exI [of _ "ks @ [length arr]"])
  next
    case 2
    then have op: "?op \<noteq> Some ''enqueue''" by auto
    show ?thesis
    proof (cases ks)
      case Nil
      with 2 op ks show ?thesis by (simp add: queue_refines_def queue_step_def arrival_step_def aw qe)
    next
      case (Cons k ks')
      then have "{x \<in> W. \<exists>j\<in>W. j < x} = set ks'"
        using later_waiting_tl [of k ks'] ks(1) unfolding ks(2) [symmetric] by (simp only:)
      with 2 op ks Cons show ?thesis
        by (auto simp: queue_refines_def queue_step_def arrival_step_def aw qe intro!: exI [of _ ks'])
    qed
  next
    case 3
    let ?keep = "\<lambda>k. \<not> contains_str (arr ! k) (content raw)"
    have "filter (\<lambda>item. \<not> contains_str item (content raw)) (map ((!) arr) ks) = map ((!) arr) (filter ?keep ks)"
      by (simp add: filter_map comp_def)
    with 3 ks show ?thesis
      by (auto simp: queue_refines_def queue_step_def arrival_step_def aw qe contains_str_iff [symmetric]
          intro!: exI [of _ "filter ?keep ks"] sorted_wrt_filter)
  next
    case 4
    with assms show ?thesis by (simp add: queue_step_def arrival_step_def aw qe)
  qed
qed

lemma replay_refines:
  "queue_refines (replay_queue_iter content entries) (arrivals_after content entries)"
proof -
  have "queue_refines (fold (\<lambda>e qe. case queue_record e of None \<Rightarrow> qe | Some raw \<Rightarrow> queue_step content raw qe) es qe)
      (foldl (arrival_step content) aw (queue_records es))" if "queue_refines qe aw" for es qe aw
    using that
    by (induction es arbitrary: qe aw)
      (auto simp: queue_records_def List.map_filter_simps queue_step_refines split: option.split)
  from this [of "([], [])" "([], {})" entries] show ?thesis
    by (simp add: replay_queue_iter_def arrivals_after_def queue_refines_def)
qed

lemma queue_refinesD:
  assumes "queue_refines (q, enq) (arrived, waiting)"
  shows "enq = arrived" "q = map ((!) arrived) (sorted_list_of_set waiting)"
    "finite waiting" "\<forall>k\<in>waiting. k < length arrived"
proof -
  obtain ks where ks: "sorted_wrt (<) ks" "set ks = waiting" "\<forall>k\<in>set ks. k < length arrived"
    "q = map ((!) arrived) ks" "enq = arrived"
    using assms by (auto simp: queue_refines_def)
  then have "sorted_list_of_set waiting = ks"
    by (metis sorted_list_of_set.idem_if_sorted_distinct strict_sorted_iff)
  with ks show "enq = arrived" "q = map ((!) arrived) (sorted_list_of_set waiting)"
    "finite waiting" "\<forall>k\<in>waiting. k < length arrived" by auto
qed

lemma arrivals_enqueued:
  "fst (arrivals_after content entries) =
     map content (filter (\<lambda>raw. field_str raw ''operation'' = Some ''enqueue'') (queue_records entries))"
proof -
  have "fst (foldl (arrival_step content) aw rs) = fst aw @
     map content (filter (\<lambda>raw. field_str raw ''operation'' = Some ''enqueue'') rs)" for aw rs
  proof (induction rs arbitrary: aw)
    case (Cons raw rs)
    have "fst (arrival_step content aw raw) = fst aw @
        (if field_str raw ''operation'' = Some ''enqueue'' then [content raw] else [])"
      by (simp add: arrival_step_def split_beta Let_def)
    with Cons show ?case by simp
  qed simp
  then show ?thesis by (simp add: arrivals_after_def)
qed

subsection \<open>Properties\<close>

text \<open>C9: the replayed notification queue implements the abstract queue of arrivals. The
  enqueued texts are the contents of the enqueue records, in order; the queued texts are those
  of the arrivals still waiting, in the order they arrived (a dequeue or a remove takes the
  earliest, a popAll those its content quotes); a call is pending when a waiting arrival carries
  its marker, and completed when a delivered text carries it, or an arrival does and no
  waiting one.\<close>

theorem notification_queue_sound:
  "let n = from_entry_refs repr entries;
       (arrived, waiting) = arrivals_after (content_py repr) entries;
       carries = (\<lambda>i k. contains_str (tool_use_marker i) (arrived ! k)) in
     arrived = map (content_py repr)
       (filter (\<lambda>raw. field_str raw ''operation'' = Some ''enqueue'') (queue_records entries)) \<and>
     enqueued n = arrived \<and> finite waiting \<and> waiting \<subseteq> {..<length arrived} \<and>
     queued n = map ((!) arrived) (sorted_list_of_set waiting) \<and>
     pending n i = (\<exists>k\<in>waiting. carries i k) \<and>
     completed n i = ((\<exists>text\<in>set (delivered n). contains_str (tool_use_marker i) text) \<or>
       ((\<exists>k<length arrived. carries i k) \<and> \<not> (\<exists>k\<in>waiting. carries i k)))"
proof -
  obtain q enq where qe: "replay_queue_iter (content_py repr) entries = (q, enq)" by force
  obtain arrived waiting where aw: "arrivals_after (content_py repr) entries = (arrived, waiting)" by force
  note ref = queue_refinesD [OF replay_refines [of "content_py repr" entries, unfolded qe aw]]
  have n: "queued (from_entry_refs repr entries) = q" "enqueued (from_entry_refs repr entries) = enq"
    by (simp_all add: from_entry_refs_def qe)
  have held: "holds_marker m q = (\<exists>k\<in>waiting. contains_str m (arrived ! k))" for m
    using ref(2,3) by (simp add: holds_marker_def)
  have ever: "holds_marker m enq = (\<exists>k<length arrived. contains_str m (arrived ! k))" for m
    unfolding ref(1) holds_marker_def by (metis in_set_conv_nth)
  have arr: "arrived = map (content_py repr)
      (filter (\<lambda>raw. field_str raw ''operation'' = Some ''enqueue'') (queue_records entries))"
    using arrivals_enqueued [of "content_py repr" entries] by (simp only: aw fst_conv)
  have p: "pending (from_entry_refs repr entries) i = (\<exists>k\<in>waiting. contains_str (tool_use_marker i) (arrived ! k))"
    by (simp only: pending_def n held)
  have c: "completed (from_entry_refs repr entries) i =
      ((\<exists>text\<in>set (delivered (from_entry_refs repr entries)). contains_str (tool_use_marker i) text) \<or>
       ((\<exists>k<length arrived. contains_str (tool_use_marker i) (arrived ! k)) \<and>
        \<not> (\<exists>k\<in>waiting. contains_str (tool_use_marker i) (arrived ! k))))"
    by (simp only: completed_def Let_def n held ever) (simp only: holds_marker_def)
  have bound: "waiting \<subseteq> {..<length arrived}" using ref(4) by auto
  show ?thesis
    unfolding Let_def aw prod.case n
    by (intro conjI arr ref(1) ref(2) ref(3) bound p c)
qed

definition sample_queue_line :: "string \<Rightarrow> json \<Rightarrow> json" where
  "sample_queue_line operation content =
     JObject [(''type'', JString ''queue-operation''), (''operation'', JString operation), (''content'', content)]"

definition sample_queue_entry :: "string \<Rightarrow> json \<Rightarrow> entry" where
  "sample_queue_entry operation content =
     Other \<lparr>oe_ty = ''queue-operation'', oe_raw = sample_queue_line operation content\<rparr>"

theorem notification_queue_sound_witness:
  "let es = map (\<lambda>(operation, i). sample_queue_entry operation (JString (tool_use_marker i)))
         [(''enqueue'', ''t1''), (''enqueue'', ''t2''), (''dequeue'', '''')];
       n = from_entry_refs (\<lambda>_. []) es in
     queued n = [tool_use_marker ''t2''] \<and> pending n ''t2'' \<and> completed n ''t1''"
proof -
  let ?es = "map (\<lambda>(operation, i). sample_queue_entry operation (JString (tool_use_marker i)))
     [(''enqueue'', ''t1''), (''enqueue'', ''t2''), (''dequeue'', '''')]"
  have aw: "arrivals_after (content_py (\<lambda>_. [])) ?es = ([tool_use_marker ''t1'', tool_use_marker ''t2''], {Suc 0})"
    by (auto simp: arrivals_after_def arrival_step_def queue_records_def queue_record_def sample_queue_entry_def
        sample_queue_line_def field_str_def content_py_def py_str_def List.map_filter_simps Let_def)
  let ?n = "from_entry_refs (\<lambda>_. []) ?es"
  note sound = notification_queue_sound [of "\<lambda>_. []" ?es, unfolded Let_def aw prod.case,
      THEN conjunct2, THEN conjunct2, THEN conjunct2, THEN conjunct2]
  have q: "queued ?n = [tool_use_marker ''t2'']"
    by (rule trans [OF conjunct1 [OF sound]]) simp
  have p: "pending ?n ''t2''"
    by (rule iffD2 [OF conjunct1 [OF conjunct2 [OF sound]]]) simp
  have "\<not> contains_str (tool_use_marker ''t1'') (tool_use_marker ''t2'')"
    by (simp add: tool_use_marker_def TOOL_USE_ID_PREFIX_def TOOL_USE_ID_SUFFIX_def)
  then have "completed ?n ''t1''"
    by (intro iffD2 [OF conjunct2 [OF conjunct2 [OF sound]]] disjI2) (auto intro: exI [of _ 0])
  with q p show ?thesis unfolding Let_def by (intro conjI)
qed

text \<open>The session-activity oracle's own replay and the public one agree on every parsed
  session whose queue contents are strings (or absent).\<close>

theorem notification_replays_agree:
  assumes "\<forall>e\<in>set entries. \<exists>d. parse_entry env d = Inr e" "string_contents entries"
  shows "activity_notifications entries = from_entry_refs repr entries"
  using assms parsed_attachment_typed by (intro replays_agree) blast+

lemma parse_sample_queue:
  "parse_entry env (sample_queue_line operation (JString s)) = Inr (sample_queue_entry operation (JString s))"
  by (simp add: parse_entry_def parse_entry_retained_def sample_queue_line_def sample_queue_entry_def
      rp_bind_def rp_lift_def rp_return_def require_str_def require_def normalized_def deduplicated_def share_def)

theorem notification_replays_agree_witness:
  "activity_notifications [sample_queue_entry ''enqueue'' (JString ''a'')] =
     from_entry_refs (\<lambda>_. ''?'') [sample_queue_entry ''enqueue'' (JString ''a'')]"
proof (rule notification_replays_agree [of _ "sample_env []"])
  show "\<forall>e\<in>set [sample_queue_entry ''enqueue'' (JString ''a'')]. \<exists>d. parse_entry (sample_env []) d = Inr e"
    using parse_sample_queue by auto
  show "string_contents [sample_queue_entry ''enqueue'' (JString ''a'')]"
    by (simp add: string_contents_def queue_record_def sample_queue_entry_def sample_queue_line_def)
qed

text \<open>They do not agree on a queue record with a non-string content: the public replay sees
  the task notification in the rendered value, the oracle's sees an empty item.\<close>

lemma replays_differ:
  assumes "contains_str TASK_NOTIFICATION_MARKER (repr (JArray [JString TASK_NOTIFICATION_MARKER]))"
  shows "has_pending (from_entry_refs repr
           [sample_queue_entry ''enqueue'' (JArray [JString TASK_NOTIFICATION_MARKER])]) \<and>
     \<not> has_pending (activity_notifications
           [sample_queue_entry ''enqueue'' (JArray [JString TASK_NOTIFICATION_MARKER])])"
  using assms
  by (simp add: has_pending_def holds_marker_def from_entry_refs_def replay_queue_iter_def queue_record_def
      sample_queue_entry_def sample_queue_line_def queue_step_def field_str_def content_py_def py_str_def
      content_str_def activity_notifications_def activity_step_def TASK_NOTIFICATION_MARKER_def)

end
