(* ===== verification/Activity.thy ===== *)
theory Activity
  imports Notifications
begin

text \<open>
  \<open>activity.rs\<close>: the session-activity oracle, the lift of a session into turns, the
  positional lift and its incremental tail. Entries are borrowed in the source; here they
  are values and positions. The segmentation is the shared core of all three lifts.
\<close>

subsection \<open>Turn openers\<close>

definition user_interrupted :: "env \<Rightarrow> user_entry \<Rightarrow> bool" where
  "user_interrupted env u =
     (interrupt_marker env (user_text (ue_content u)) \<noteq> None \<or> interrupted_message_id u \<noteq> None)"

definition is_agent_injected :: "env \<Rightarrow> user_entry \<Rightarrow> bool" where
  "is_agent_injected env u = is_agent_injection env (user_text (ue_content u))"

definition opens_turn :: "env \<Rightarrow> user_entry \<Rightarrow> bool" where
  "opens_turn env u =
     (\<not> (is_meta (ue_meta u) \<or> is_sidechain (ue_meta u) \<or> is_compact_summary (ue_meta u) \<or>
         user_interrupted env u \<or> is_agent_injected env u) \<and>
      strip (user_text (ue_content u)) \<noteq> [])"

definition entry_opens :: "env \<Rightarrow> entry \<Rightarrow> bool" where
  "entry_opens env e = (case e of User u \<Rightarrow> opens_turn env u | _ \<Rightarrow> False)"

text \<open>\<open>rposition(..).unwrap_or(0)\<close>.\<close>

fun last_index :: "('a \<Rightarrow> bool) \<Rightarrow> nat \<Rightarrow> 'a list \<Rightarrow> nat option" where
  "last_index p i [] = None"
| "last_index p i (x # xs) =
     (case last_index p (Suc i) xs of Some k \<Rightarrow> Some k | None \<Rightarrow> if p x then Some i else None)"

definition current_turn_start :: "env \<Rightarrow> entry list \<Rightarrow> nat" where
  "current_turn_start env entries = opt_default 0 (last_index (entry_opens env) 0 entries)"

subsection \<open>The activity oracle\<close>

definition BACKGROUND_TOOLS :: "string set" where
  "BACKGROUND_TOOLS = {''Agent'', ''Task'', ''Bash'', ''Execute'', ''exec_command''}"

definition TASK_TOOLS :: "string set" where
  "TASK_TOOLS = {''Agent'', ''Task''}"

record activity_opts =
  waiting_tools :: "string set"
  human_facing_tools :: "string set"

definition default_opts :: activity_opts where
  "default_opts = \<lparr>waiting_tools = {''Monitor'', ''ScheduleWakeup'', ''SendMessage'', ''TeamCreate''},
     human_facing_tools = {''AskUserQuestion'', ''ExitPlanMode'', ''ExitSpecMode''}\<rparr>"

datatype pending_kind =
    WaitingTool | Background | SubagentlessTask | PendingAsyncTask | PendingAsyncWorkflow | MidTool

record pending_item =
  pi_tool_use_id :: "string option"
  pi_name :: string
  pi_kind :: pending_kind

record session_activity =
  is_waiting :: bool
  mid_tool :: bool
  sa_pending :: "pending_item list"
  last_event_epoch :: "int option"

definition ephemeral_wait :: "registry \<Rightarrow> tool_use_block \<Rightarrow> string set \<Rightarrow> pending_kind option" where
  "ephemeral_wait st tu waiting =
     (if matches_names st (tu_name tu) waiting then Some WaitingTool
      else if matches_names st (tu_name tu) BACKGROUND_TOOLS \<and> tu_run_in_background tu = Some True
        then Some Background
      else if matches_names st (tu_name tu) TASK_TOOLS \<and> tu_subagent_type tu = None
        then Some SubagentlessTask
      else None)"

definition pending_async ::
  "tool_use_block \<Rightarrow> tool_result_block option \<Rightarrow> notifications \<Rightarrow> pending_kind option" where
  "pending_async tu result n =
     (if tu_name tu = ''Agent'' \<or> tu_name tu = ''Task'' then
        (if is_some_and tr_is_async result \<and> \<not> completed n (tu_id tu) then Some PendingAsyncTask else None)
      else if tu_name tu = ''Workflow'' \<and> \<not> completed n (tu_id tu) then Some PendingAsyncWorkflow
      else None)"

text \<open>The tool results by the id they answer: a \<open>collect\<close> into a map, the last one stays.\<close>

definition result_map :: "entry list \<Rightarrow> (string \<rightharpoonup> tool_result_block)" where
  "result_map entries =
     collect_map (map (\<lambda>r. (tr_tool_use_id r, r)) (concat (map tool_results entries)))"

text \<open>The tool uses with the position of their entry, in the order of the two loops.\<close>

definition indexed_uses :: "entry list \<Rightarrow> (nat \<times> tool_use_block) list" where
  "indexed_uses entries =
     concat (map (\<lambda>(i, e). map (Pair i) (tool_uses e)) (enumerate 0 entries))"

record scan_state =
  sc_waiting :: bool
  sc_mid :: bool
  sc_pending :: "pending_item list"
  sc_seen :: "string list"

definition waiting_kind_of ::
  "registry \<Rightarrow> activity_opts \<Rightarrow> notifications \<Rightarrow> (string \<rightharpoonup> tool_result_block) \<Rightarrow> nat \<Rightarrow>
   nat \<times> tool_use_block \<Rightarrow> pending_kind option" where
  "waiting_kind_of st opts n results turn_start iu =
     (let (index, tu) = iu in
      opt_or (if turn_start \<le> index then ephemeral_wait st tu (waiting_tools opts) else None)
        (pending_async tu (results (tu_id tu)) n))"

definition unmatched_use ::
  "registry \<Rightarrow> activity_opts \<Rightarrow> (string \<rightharpoonup> tool_result_block) \<Rightarrow> nat \<Rightarrow> nat \<times> tool_use_block \<Rightarrow> bool" where
  "unmatched_use st opts results turn_start iu =
     (let (index, tu) = iu in
      turn_start \<le> index \<and> results (tu_id tu) = None \<and>
      \<not> matches_names st (tu_name tu) (human_facing_tools opts))"

definition scan_use ::
  "registry \<Rightarrow> activity_opts \<Rightarrow> notifications \<Rightarrow> (string \<rightharpoonup> tool_result_block) \<Rightarrow> nat \<Rightarrow>
   nat \<times> tool_use_block \<Rightarrow> scan_state \<Rightarrow> scan_state" where
  "scan_use st opts n results turn_start iu s =
     (let tu = snd iu in
      if is_some_and tr_is_error (results (tu_id tu)) then s
      else
       (let wk = waiting_kind_of st opts n results turn_start iu;
            un = unmatched_use st opts results turn_start iu;
            s1 = s\<lparr>sc_waiting := sc_waiting s \<or> wk \<noteq> None, sc_mid := sc_mid s \<or> un\<rparr>
        in case opt_or wk (if un then Some MidTool else None) of
             None \<Rightarrow> s1
           | Some kind \<Rightarrow>
               if tu_id tu \<in> set (sc_seen s) then s1
               else s1\<lparr>sc_seen := sc_seen s @ [tu_id tu],
                 sc_pending := sc_pending s @
                   [\<lparr>pi_tool_use_id = Some (tu_id tu), pi_name = tu_name tu, pi_kind = kind\<rparr>]\<rparr>))"

definition max_epoch :: "entry list \<Rightarrow> int option" where
  "max_epoch entries =
     (let ts = map (\<lambda>m. dt_secs (timestamp m)) (List.map_filter meta entries) in
      if ts = [] then None else Some (Max (set ts)))"

definition session_activity_refs ::
  "env \<Rightarrow> registry \<Rightarrow> entry list \<Rightarrow> activity_opts \<Rightarrow> session_activity" where
  "session_activity_refs env st entries opts =
     (let n = activity_notifications entries;
          s = fold (scan_use st opts n (result_map entries) (current_turn_start env entries))
                (indexed_uses entries)
                \<lparr>sc_waiting = has_pending n, sc_mid = False, sc_pending = [], sc_seen = []\<rparr>
      in \<lparr>is_waiting = sc_waiting s, mid_tool = sc_mid s, sa_pending = sc_pending s,
          last_event_epoch = max_epoch entries\<rparr>)"

subsection \<open>Segments\<close>

record segment =
  sg_prompt :: string
  sg_start :: nat
  sg_end :: nat

text \<open>A caller may replace the opening decision of the user entries by one flag per entry;
  indexing past the flags panics, so the lifts below are defined only when the flags cover
  the user entries.\<close>

definition opens :: "env \<Rightarrow> bool list option \<Rightarrow> nat \<Rightarrow> entry \<Rightarrow> bool" where
  "opens env openers index e =
     (case e of
        User u \<Rightarrow> (case openers of None \<Rightarrow> opens_turn env u | Some flags \<Rightarrow> flags ! index)
      | _ \<Rightarrow> False)"

definition is_user :: "entry \<Rightarrow> bool" where
  "is_user e = (case e of User _ \<Rightarrow> True | _ \<Rightarrow> False)"

definition openers_cover :: "bool list option \<Rightarrow> entry list \<Rightarrow> bool" where
  "openers_cover openers entries =
     (case openers of
        None \<Rightarrow> True
      | Some flags \<Rightarrow> \<forall>(i, e)\<in>set (enumerate 0 entries). is_user e \<longrightarrow> i < length flags)"

definition entry_prompt :: "entry \<Rightarrow> string" where
  "entry_prompt e = (case e of User u \<Rightarrow> user_text (ue_content u) | _ \<Rightarrow> [])"

definition segment_step :: "(nat \<Rightarrow> entry \<Rightarrow> bool) \<Rightarrow> nat \<times> entry \<Rightarrow> segment list \<Rightarrow> segment list" where
  "segment_step op ie segs =
     (let (index, e) = ie in
      if op index e then segs @ [\<lparr>sg_prompt = entry_prompt e, sg_start = index, sg_end = index + 1\<rparr>]
      else if segs = [] then [\<lparr>sg_prompt = [], sg_start = index, sg_end = index + 1\<rparr>]
      else butlast segs @ [(last segs)\<lparr>sg_end := index + 1\<rparr>])"

definition segments_by :: "(nat \<Rightarrow> entry \<Rightarrow> bool) \<Rightarrow> entry list \<Rightarrow> segment list" where
  "segments_by op entries = fold (segment_step op) (enumerate 0 entries) []"

definition segments :: "env \<Rightarrow> entry list \<Rightarrow> bool list option \<Rightarrow> segment list" where
  "segments env entries openers = segments_by (opens env openers) entries"

definition slice :: "nat \<Rightarrow> nat \<Rightarrow> 'a list \<Rightarrow> 'a list" where
  "slice a b xs = take (b - a) (drop a xs)"

subsection \<open>The lift\<close>

record tool_use =
  tl_event_uuid :: string
  tl_tool_use_id :: string
  tl_name :: string
  tl_ts :: datetime
  tl_cwd :: "string option"
  tl_result :: "tool_result_block option"
  tl_result_ts :: "datetime option"
  tl_turn_index :: nat
  tl_call :: tool_call
  tl_edits :: "(string \<times> hunk list) list"

record edit =
  ed_file_path :: string
  ed_hunks :: "hunk list"
  ed_tool :: string
  ed_event_uuid :: string
  ed_tool_use_id :: string
  ed_turn_index :: nat
  ed_ts :: datetime

record turn =
  tn_index :: nat
  tn_prompt :: string
  started_at :: "datetime option"
  ended_at :: "datetime option"
  tn_events :: "entry list"
  tn_tool_uses :: "tool_use list"

record lifted_session =
  ls_session_id :: string
  ls_turns :: "turn list"

definition turn_edits :: "turn \<Rightarrow> edit list" where
  "turn_edits t = concat (map (\<lambda>u. map (\<lambda>(path, hs).
       \<lparr>ed_file_path = path, ed_hunks = hs, ed_tool = tl_name u, ed_event_uuid = tl_event_uuid u,
        ed_tool_use_id = tl_tool_use_id u, ed_turn_index = tl_turn_index u, ed_ts = tl_ts u\<rparr>) (tl_edits u))
     (tn_tool_uses t))"

definition session_edits :: "lifted_session \<Rightarrow> edit list" where
  "session_edits l = concat (map turn_edits (ls_turns l))"

text \<open>\<open>result_index\<close>: the user entries' result blocks with the entry's timestamp, an
  insertion-ordered dictionary.\<close>

definition result_pairs :: "entry list \<Rightarrow> (string \<times> tool_result_block \<times> datetime option) list" where
  "result_pairs entries = concat (map (\<lambda>e. case e of
       User u \<Rightarrow> map (\<lambda>b. (tr_tool_use_id b, b, Some (timestamp (ue_meta u)))) (user_tool_results u)
     | _ \<Rightarrow> []) entries)"

definition result_index :: "entry list \<Rightarrow> (string \<times> tool_result_block \<times> datetime option) list" where
  "result_index entries = od_items (od_of (result_pairs entries))"

definition event_stamps :: "entry list \<Rightarrow> datetime option \<times> datetime option" where
  "event_stamps events =
     (let stamps = map timestamp (List.map_filter meta events) in
      if stamps = [] then (None, None) else (Some (hd stamps), Some (last stamps)))"

definition assistant_uses :: "entry \<Rightarrow> (assistant_entry \<times> tool_use_block) list" where
  "assistant_uses e = (case e of
      Assistant a \<Rightarrow> map (Pair a) (List.map_filter block_tool_use (as_blocks a))
    | _ \<Rightarrow> [])"

definition lift_use ::
  "env \<Rightarrow> registry \<Rightarrow> nat \<Rightarrow> (string \<rightharpoonup> tool_result_block \<times> datetime option) \<Rightarrow>
   assistant_entry \<times> tool_use_block \<Rightarrow> tool_use" where
  "lift_use env st index results au =
     (let (a, tu) = au; pair = results (tu_id tu); call = parse_tool_call env st (tu_name tu) (tu_input tu) in
      \<lparr>tl_event_uuid = uuid (as_meta a), tl_tool_use_id = tu_id tu, tl_name = tu_name tu,
       tl_ts = timestamp (as_meta a), tl_cwd = em_cwd (as_meta a),
       tl_result = map_option fst pair, tl_result_ts = Option.bind pair snd,
       tl_turn_index = index, tl_call = call, tl_edits = call_edits call\<rparr>)"

definition lift_turn ::
  "env \<Rightarrow> registry \<Rightarrow> nat \<Rightarrow> segment \<Rightarrow> entry list \<Rightarrow>
   (string \<rightharpoonup> tool_result_block \<times> datetime option) \<Rightarrow> turn" where
  "lift_turn env st index sg entries results =
     (let events = slice (sg_start sg) (sg_end sg) entries; (a, b) = event_stamps events in
      \<lparr>tn_index = index, tn_prompt = sg_prompt sg, started_at = a, ended_at = b, tn_events = events,
       tn_tool_uses = map (lift_use env st index results) (concat (map assistant_uses events))\<rparr>)"

definition lift_session_refs ::
  "env \<Rightarrow> registry \<Rightarrow> string \<Rightarrow> entry list \<Rightarrow> bool list option \<Rightarrow> lifted_session option" where
  "lift_session_refs env st sid entries openers =
     (if openers_cover openers entries then
        (let results = map_of (result_index entries) in
         Some \<lparr>ls_session_id = sid,
           ls_turns = map (\<lambda>(index, sg). lift_turn env st index sg entries results)
             (enumerate 0 (segments env entries openers))\<rparr>)
      else None)"

subsection \<open>The positional lift\<close>

record use_position =
  ti_event_idx :: nat
  ti_tool_use_id :: string
  ti_result_event_idx :: "nat option"

record turn_index =
  tx_prompt :: string
  tx_start :: nat
  tx_end :: nat
  started_idx :: "nat option"
  ended_idx :: "nat option"
  tx_tool_uses :: "use_position list"

record lift_tail =
  lt_turns :: "turn_index list"
  continued :: bool
  lt_results :: "(string \<times> nat) list"

definition position_pairs :: "entry list \<Rightarrow> (string \<times> nat) list" where
  "position_pairs entries = concat (map (\<lambda>(i, e). case e of
       User u \<Rightarrow> map (\<lambda>b. (tr_tool_use_id b, i)) (user_tool_results u)
     | _ \<Rightarrow> []) (enumerate 0 entries))"

definition result_positions :: "entry list \<Rightarrow> (string \<rightharpoonup> nat)" where
  "result_positions entries = collect_map (position_pairs entries)"

definition turn_index_of :: "entry list \<Rightarrow> (string \<rightharpoonup> nat) \<Rightarrow> segment \<Rightarrow> turn_index" where
  "turn_index_of entries result_pos sg =
     (let span = [sg_start sg ..< sg_end sg];
          metas = filter (\<lambda>i. meta (entries ! i) \<noteq> None) span
      in \<lparr>tx_prompt = sg_prompt sg, tx_start = sg_start sg, tx_end = sg_end sg,
          started_idx = (if metas = [] then None else Some (hd metas)),
          ended_idx = (if metas = [] then None else Some (last metas)),
          tx_tool_uses = concat (map (\<lambda>i. map (\<lambda>(_, tu).
              \<lparr>ti_event_idx = i, ti_tool_use_id = tu_id tu, ti_result_event_idx = result_pos (tu_id tu)\<rparr>)
            (assistant_uses (entries ! i))) span)\<rparr>)"

definition turn_indexes ::
  "env \<Rightarrow> entry list \<Rightarrow> bool list option \<Rightarrow> (string \<rightharpoonup> nat) \<Rightarrow> turn_index list" where
  "turn_indexes env entries openers result_pos =
     map (turn_index_of entries result_pos) (segments env entries openers)"

definition lift_session_index :: "env \<Rightarrow> entry list \<Rightarrow> bool list option \<Rightarrow> turn_index list option" where
  "lift_session_index env entries openers =
     (if openers_cover openers entries
      then Some (turn_indexes env entries openers (result_positions entries)) else None)"

text \<open>The results of the tail: the map's pairs sorted by position (an unstable sort of an
  unordered map; here in the order of the last occurrence of each id, ties by first
  occurrence of the id).\<close>

definition tail_results :: "entry list \<Rightarrow> (string \<times> nat) list" where
  "tail_results entries = stable_sort (by_key snd) (od_items (od_of (position_pairs entries)))"

definition lift_session_index_tail ::
  "env \<Rightarrow> entry list \<Rightarrow> bool list option \<Rightarrow> bool \<Rightarrow> lift_tail option" where
  "lift_session_index_tail env entries openers open_turn =
     (if openers_cover openers entries then
        Some \<lparr>lt_turns = turn_indexes env entries openers (result_positions entries),
          continued = (open_turn \<and> (case entries of [] \<Rightarrow> False | e # _ \<Rightarrow> \<not> opens env openers 0 e)),
          lt_results = tail_results entries\<rparr>
      else None)"
end
