(* ===== verification/ActivityFacts.thy ===== *)
theory ActivityFacts
  imports Activity
begin

text \<open>
  What the lifts and the activity oracle of \<open>activity.rs\<close> satisfy: the segments partition
  the entries; the lift, the positional lift and the oracle agree; lifting a tail extends a
  prior lift; the oracle's scan is characterised by the kind of each tool use.
\<close>

subsection \<open>Segments partition the entries\<close>

fun chain :: "nat \<Rightarrow> nat \<Rightarrow> segment list \<Rightarrow> bool" where
  "chain a b [] = (a = b)"
| "chain a b (s # ss) = (sg_start s = a \<and> a < sg_end s \<and> chain (sg_end s) b ss)"

lemma chain_le: "chain a b ss \<Longrightarrow> a \<le> b"
  by (induction ss arbitrary: a) force+

lemma chain_snoc:
  "chain a b (ss @ [s]) \<longleftrightarrow> chain a (sg_start s) ss \<and> sg_start s < sg_end s \<and> sg_end s = b"
  by (induction ss arbitrary: a) auto

lemma slice_split:
  assumes "a \<le> b" "b \<le> c"
  shows "slice a b xs @ slice b c xs = slice a c xs"
proof -
  have c: "c - a = (b - a) + (c - b)" and d: "drop (b - a) (drop a xs) = drop b xs" using assms by simp_all
  show ?thesis unfolding slice_def c take_add d ..
qed

lemma slice_full: "slice 0 (length xs) xs = xs"
  by (simp add: slice_def)

lemma chain_slices:
  "chain a b ss \<Longrightarrow> concat (map (\<lambda>s. slice (sg_start s) (sg_end s) xs) ss) = slice a b xs"
proof (induction ss arbitrary: a)
  case Nil
  then show ?case by (simp add: slice_def)
next
  case (Cons s ss)
  then have a: "sg_start s = a" "a \<le> sg_end s" and b: "sg_end s \<le> b" and c: "chain (sg_end s) b ss"
    using chain_le [of "sg_end s" b ss] by simp_all
  show ?case using Cons.IH [OF c] by (simp add: a(1) slice_split [OF a(2) b])
qed

definition segment_ok :: "(nat \<Rightarrow> entry \<Rightarrow> bool) \<Rightarrow> entry list \<Rightarrow> segment \<Rightarrow> bool" where
  "segment_ok op es s \<longleftrightarrow>
     (\<forall>i. sg_start s < i \<and> i < sg_end s \<longrightarrow> \<not> op i (es ! i)) \<and>
     (if op (sg_start s) (es ! sg_start s) then sg_prompt s = entry_prompt (es ! sg_start s)
      else sg_start s = 0 \<and> sg_prompt s = [])"

lemma segments_by_snoc:
  "segments_by op (es @ [e]) = segment_step op (length es, e) (segments_by op es)"
  by (simp add: segments_by_def enumerate_append_eq)

lemma segments_by_Nil [simp]: "segments_by op [] = []"
  by (simp add: segments_by_def)

lemma segments_by_single:
  "segments_by op [e] =
     [\<lparr>sg_prompt = (if op 0 e then entry_prompt e else []), sg_start = 0, sg_end = 1\<rparr>]"
  by (simp add: segments_by_def segment_step_def)

lemma segment_ok_snoc:
  "segment_ok op es s \<Longrightarrow> sg_start s < length es \<Longrightarrow> sg_end s \<le> length es \<Longrightarrow> segment_ok op (es @ [e]) s"
  by (auto simp: segment_ok_def nth_append)

lemma chain_bounds:
  "chain a b ss \<Longrightarrow> s \<in> set ss \<Longrightarrow> a \<le> sg_start s \<and> sg_start s < sg_end s \<and> sg_end s \<le> b"
proof (induction ss arbitrary: a)
  case Nil
  then show ?case by simp
next
  case (Cons x ss)
  then show ?case using chain_le [of "sg_end x" b ss] by fastforce
qed

lemma segments_spec:
  "chain 0 (length es) (segments_by op es) \<and> (\<forall>s\<in>set (segments_by op es). segment_ok op es s)"
proof (induction es rule: rev_induct)
  case Nil
  then show ?case by simp
next
  case (snoc e es)
  let ?ss = "segments_by op es"
  have ch: "chain 0 (length es) ?ss" and ok: "\<forall>s\<in>set ?ss. segment_ok op es s" using snoc by auto
  have keep: "segment_ok op (es @ [e]) s" if "s \<in> set ?ss" for s
    using that ok chain_bounds [OF ch that] by (intro segment_ok_snoc) auto
  consider (opener) "op (length es) e" | (first) "\<not> op (length es) e" "?ss = []"
    | (fold) "\<not> op (length es) e" "?ss \<noteq> []" by blast
  then show ?case
  proof cases
    case opener
    then show ?thesis using ch keep
      by (auto simp: segments_by_snoc segment_step_def chain_snoc segment_ok_def)
  next
    case first
    with ch have "es = []" by simp
    with first show ?thesis by (simp add: segments_by_single segment_ok_def)
  next
    case fold
    let ?l = "last ?ss" and ?b = "butlast ?ss"
    have ss: "?ss = ?b @ [?l]" using fold(2) by simp
    have l: "sg_start ?l < sg_end ?l" "sg_end ?l = length es" "chain 0 (sg_start ?l) ?b"
      using ch ss by (metis chain_snoc)+
    have kl: "segment_ok op (es @ [e]) ?l" using keep fold(2) by simp
    have "segment_ok op (es @ [e]) (?l\<lparr>sg_end := Suc (length es)\<rparr>)"
    proof -
      have "\<not> op i ((es @ [e]) ! i)" if "sg_start ?l < i" "i < Suc (length es)" for i
        using that kl l fold(1) by (cases "i = length es") (auto simp: segment_ok_def)
      then show ?thesis using kl by (simp add: segment_ok_def)
    qed
    moreover have "\<forall>s\<in>set ?b. segment_ok op (es @ [e]) s" using keep by (auto dest: in_set_butlastD)
    moreover have "chain 0 (length (es @ [e])) (?b @ [?l\<lparr>sg_end := Suc (length es)\<rparr>])"
      using l by (simp add: chain_snoc)
    ultimately show ?thesis using fold by (simp add: segments_by_snoc segment_step_def)
  qed
qed

lemma segments_slices:
  "concat (map (\<lambda>s. slice (sg_start s) (sg_end s) es) (segments_by op es)) = es"
  using chain_slices [of 0 "length es" "segments_by op es" es] segments_spec [of es op]
  by (simp add: slice_full)

lemma segments_Nil_iff: "segments_by op es = [] \<longleftrightarrow> es = []"
  using segments_spec [of es op] by (cases "segments_by op es") auto

subsection \<open>Extending a lift\<close>

definition shift_segment :: "nat \<Rightarrow> segment \<Rightarrow> segment" where
  "shift_segment n s = s\<lparr>sg_start := sg_start s + n, sg_end := sg_end s + n\<rparr>"

text \<open>What a caller does with the tail: the first tail segment either continues the open turn
  or starts a new one.\<close>

definition join_segments :: "bool \<Rightarrow> nat \<Rightarrow> segment list \<Rightarrow> segment list \<Rightarrow> segment list" where
  "join_segments cont n segs tail_segs =
     (let shifted = map (shift_segment n) tail_segs in
      if cont then butlast segs @ [(last segs)\<lparr>sg_end := sg_end (hd shifted)\<rparr>] @ tl shifted
      else segs @ shifted)"

definition continues :: "(nat \<Rightarrow> entry \<Rightarrow> bool) \<Rightarrow> entry list \<Rightarrow> entry list \<Rightarrow> bool" where
  "continues op a b = (a \<noteq> [] \<and> (case b of [] \<Rightarrow> False | e # _ \<Rightarrow> \<not> op (length a) e))"

lemma segments_extend:
  "segments_by op (a @ b) =
     join_segments (continues op a b) (length a) (segments_by op a)
       (segments_by (\<lambda>i. op (i + length a)) b)"
proof (induction b rule: rev_induct)
  case Nil
  then show ?case by (simp add: join_segments_def continues_def)
next
  case (snoc e b)
  let ?op = "\<lambda>i. op (i + length a)"
  let ?A = "segments_by op a" and ?B = "segments_by ?op b"
  have cont: "continues op a (b @ [e]) = (if b = [] then a \<noteq> [] \<and> \<not> op (length a) e else continues op a b)"
    by (cases b) (auto simp: continues_def)
  have step: "segments_by op (a @ b @ [e]) = segment_step op (length a + length b, e) (segments_by op (a @ b))"
    using segments_by_snoc [of op "a @ b" e] by simp
  have stepB: "segments_by ?op (b @ [e]) = segment_step ?op (length b, e) ?B"
    by (rule segments_by_snoc)
  show ?case
  proof (cases "b = []")
    case True
    show ?thesis
      using segments_by_snoc [of op a e]
      by (cases "a = []") (auto simp: True continues_def segments_by_single segment_step_def join_segments_def
          shift_segment_def segments_Nil_iff)
  next
    case False
    then have B: "?B \<noteq> []" by (simp add: segments_Nil_iff)
    have ne: "segments_by op (a @ b) \<noteq> []" using False by (simp add: segments_Nil_iff)
    show ?thesis
    proof (cases "op (length a + length b) e")
      case True
      then show ?thesis using snoc.IH B False
        by (auto simp: step stepB cont segment_step_def join_segments_def shift_segment_def add.commute Let_def)
    next
      case False': False
      obtain x xs where xs: "?B = x # xs" using B by (cases ?B) auto
      show ?thesis using False' snoc.IH B False ne
        by (auto simp: step stepB cont segment_step_def join_segments_def shift_segment_def add.commute
            Let_def xs map_butlast last_map butlast_append)
    qed
  qed
qed
subsection \<open>The lifts\<close>

lemma lift_turns:
  assumes "lift_session_refs env st sid entries openers = Some l"
  shows "length (ls_turns l) = length (segments env entries openers)"
    and "\<And>i. i < length (ls_turns l) \<Longrightarrow> ls_turns l ! i =
      lift_turn env st i (segments env entries openers ! i) entries (map_of (result_index entries))"
  using assms by (auto simp: lift_session_refs_def Let_def nth_enumerate_eq split: if_splits)

lemma lift_turn_fields [simp]:
  "tn_index (lift_turn env st i sg es r) = i"
  "tn_prompt (lift_turn env st i sg es r) = sg_prompt sg"
  "tn_events (lift_turn env st i sg es r) = slice (sg_start sg) (sg_end sg) es"
  "tn_tool_uses (lift_turn env st i sg es r) =
     map (lift_use env st i r) (concat (map assistant_uses (slice (sg_start sg) (sg_end sg) es)))"
  by (simp_all add: lift_turn_def Let_def split_beta)

lemma lift_events_concat:
  assumes "lift_session_refs env st sid entries openers = Some l"
  shows "concat (map tn_events (ls_turns l)) = entries"
proof -
  have "map tn_events (ls_turns l) =
     map (\<lambda>s. slice (sg_start s) (sg_end s) entries) (segments env entries openers)"
    using lift_turns [OF assms] by (intro nth_equalityI) auto
  then show ?thesis by (simp add: segments_def segments_slices)
qed

lemma concat_map_filter: "List.map_filter f (concat xss) = concat (map (List.map_filter f) xss)"
  by (induction xss) (auto simp: List.map_filter_def)

lemma assistant_uses_blocks:
  "map snd (assistant_uses e) = (case e of Assistant _ \<Rightarrow> tool_uses e | _ \<Rightarrow> [])"
  by (cases e) (auto simp: assistant_uses_def tool_uses_def blocks_def comp_def)

text \<open>The positional lift reads the same events.\<close>

lemma nth_slice: "i < b - a \<Longrightarrow> b \<le> length xs \<Longrightarrow> slice a b xs ! i = xs ! (a + i)"
  by (simp add: slice_def)

lemma slice_nth: "b \<le> length xs \<Longrightarrow> slice a b xs = map ((!) xs) [a..<b]"
  by (intro nth_equalityI) (auto simp: slice_def)

lemma turn_index_uses:
  assumes "sg_end sg \<le> length entries"
  shows "map ti_tool_use_id (tx_tool_uses (turn_index_of entries rp sg)) =
     map (tu_id \<circ> snd) (concat (map assistant_uses (slice (sg_start sg) (sg_end sg) entries)))"
    and "map ti_result_event_idx (tx_tool_uses (turn_index_of entries rp sg)) =
     map (rp \<circ> tu_id \<circ> snd) (concat (map assistant_uses (slice (sg_start sg) (sg_end sg) entries)))"
  using assms
  by (simp_all add: turn_index_of_def Let_def slice_nth map_concat comp_def split_beta)

lemma od_items_map: "map_of (od_items (od_of ps)) = map_of (rev ps)"
  by (rule map_of_od_of)

lemma result_lookup: "map_of (result_index entries) = map_of (rev (result_pairs entries))"
  by (simp add: result_index_def map_of_od_of)

lemma position_lookup: "result_positions entries = map_of (rev (position_pairs entries))"
  by (simp add: result_positions_def collect_map_rev)

text \<open>The two result tables are answered by the same entry: the last user entry that carries
  a result for the id.\<close>

lemma pairs_positions:
  "map (\<lambda>(k, i). k) (concat (map (\<lambda>(i, e). case e of
       User u \<Rightarrow> map (\<lambda>b. (tr_tool_use_id b, i)) (user_tool_results u) | _ \<Rightarrow> []) (enumerate n es))) =
   map fst (result_pairs es)"
  by (induction es arbitrary: n) (auto simp: result_pairs_def comp_def split: entry.split)

lemma position_pairs_keys: "map fst (position_pairs es) = map fst (result_pairs es)"
  using pairs_positions [of 0 es] by (simp add: position_pairs_def case_prod_unfold)

lemma result_tables_dom: "result_positions es i = None \<longleftrightarrow> map_of (result_index es) i = None"
proof -
  have "set (map fst (position_pairs es)) = set (map fst (result_pairs es))"
    by (simp only: position_pairs_keys)
  then show ?thesis by (simp add: position_lookup result_lookup map_of_eq_None_iff)
qed

lemma position_sound:
  assumes "result_positions es i = Some p"
  shows "p < length es \<and> (\<exists>b\<in>set (tool_results (es ! p)). tr_tool_use_id b = i) \<and> is_user (es ! p)"
proof -
  have "(i, p) \<in> set (position_pairs es)"
    using assms map_of_SomeD [of "rev (position_pairs es)" i p] by (simp add: position_lookup)
  then obtain e u b where "(p, e) \<in> set (enumerate 0 es)" "e = User u" "b \<in> set (user_tool_results u)"
    "tr_tool_use_id b = i"
    by (auto simp: position_pairs_def split: entry.splits)
  moreover from this(1) have "p < length es" "es ! p = e" by (auto simp: in_set_enumerate_eq)
  ultimately show ?thesis by (auto simp: user_results_entry is_user_def)
qed

subsection \<open>The oracle\<close>

text \<open>The scan contributes a use when it is not answered by an error and has a kind.\<close>

definition use_kind where
  "use_kind st opts n results turn_start iu =
     (if is_some_and tr_is_error (results (tu_id (snd iu))) then None
      else opt_or (waiting_kind_of st opts n results turn_start iu)
        (if unmatched_use st opts results turn_start iu then Some MidTool else None))"

definition scan_inv where
  "scan_inv w0 kinds dn s \<longleftrightarrow>
     map pi_tool_use_id (sc_pending s) = map Some (sc_seen s) \<and> distinct (sc_seen s) \<and>
     (\<forall>i. i \<in> set (sc_seen s) \<longleftrightarrow> (\<exists>iu\<in>set dn. tu_id (snd iu) = i \<and> kinds iu \<noteq> None)) \<and>
     (\<forall>p\<in>set (sc_pending s). \<exists>iu\<in>set dn. pi_tool_use_id p = Some (tu_id (snd iu)) \<and>
        pi_name p = tu_name (snd iu) \<and> kinds iu = Some (pi_kind p)) \<and>
     (sc_waiting s \<longleftrightarrow> w0 \<or> (\<exists>iu\<in>set dn. \<exists>k. kinds iu = Some k \<and> k \<noteq> MidTool))"

lemma scan_inv_seen:
  assumes "scan_inv w0 kinds dn s"
  shows "set (sc_seen s) = (tu_id \<circ> snd) ` {iu \<in> set dn. kinds iu \<noteq> None}"
proof -
  have "i \<in> set (sc_seen s) \<longleftrightarrow> (\<exists>iu\<in>set dn. tu_id (snd iu) = i \<and> kinds iu \<noteq> None)" for i
    using assms unfolding scan_inv_def by blast
  note seen = this
  show ?thesis by (rule set_eqI) (simp add: seen image_iff conj_commute conj_left_commute Bex_def eq_commute)
qed

lemma ephemeral_not_mid: "ephemeral_wait st tu w = Some k \<Longrightarrow> k \<noteq> MidTool"
  by (auto simp: ephemeral_wait_def split: if_splits)

lemma pending_async_not_mid: "pending_async tu r n = Some k \<Longrightarrow> k \<noteq> MidTool"
  by (auto simp: pending_async_def split: if_splits)

lemma waiting_kind_not_mid: "waiting_kind_of st opts n r t iu = Some k \<Longrightarrow> k \<noteq> MidTool"
  by (cases iu) (auto simp: waiting_kind_of_def opt_or_def split: if_splits option.splits
      dest: ephemeral_not_mid pending_async_not_mid)

lemma use_kind_waiting:
  "(\<exists>k. use_kind st opts n r t iu = Some k \<and> k \<noteq> MidTool) \<longleftrightarrow>
     \<not> is_some_and tr_is_error (r (tu_id (snd iu))) \<and> waiting_kind_of st opts n r t iu \<noteq> None"
  by (auto simp: use_kind_def opt_or_def dest: waiting_kind_not_mid split: option.splits if_splits)

lemma scan_step:
  assumes "scan_inv w0 (use_kind st opts n r t) dn s"
  shows "scan_inv w0 (use_kind st opts n r t) (dn @ [iu]) (scan_use st opts n r t iu s)"
proof (cases "use_kind st opts n r t iu")
  case None
  have "scan_use st opts n r t iu s = s \<or>
     (waiting_kind_of st opts n r t iu = None \<and> \<not> unmatched_use st opts r t iu \<and> scan_use st opts n r t iu s = s)"
    using None by (auto simp: scan_use_def use_kind_def Let_def opt_or_def split: option.splits if_splits)
  then have "scan_use st opts n r t iu s = s" by blast
  then show ?thesis using assms None by (simp add: scan_inv_def)
next
  case (Some k)
  then have ne: "\<not> is_some_and tr_is_error (r (tu_id (snd iu)))" by (auto simp: use_kind_def split: if_splits)
  have kind: "opt_or (waiting_kind_of st opts n r t iu)
      (if unmatched_use st opts r t iu then Some MidTool else None) = Some k"
    using Some ne by (simp add: use_kind_def)
  have w: "waiting_kind_of st opts n r t iu \<noteq> None \<longleftrightarrow> k \<noteq> MidTool"
    using use_kind_waiting [of st opts n r t iu] Some ne by auto
  let ?s = "scan_use st opts n r t iu s"
  have wait: "sc_waiting ?s = (sc_waiting s \<or> k \<noteq> MidTool)"
    using ne w by (simp add: scan_use_def Let_def kind)
  show ?thesis
  proof (cases "tu_id (snd iu) \<in> set (sc_seen s)")
    case True
    then have "sc_pending ?s = sc_pending s" "sc_seen ?s = sc_seen s"
      using ne by (simp_all add: scan_use_def Let_def kind)
    then show ?thesis using assms True Some wait by (auto simp: scan_inv_def)
  next
    case False
    then have "sc_seen ?s = sc_seen s @ [tu_id (snd iu)]"
      "sc_pending ?s = sc_pending s @
         [\<lparr>pi_tool_use_id = Some (tu_id (snd iu)), pi_name = tu_name (snd iu), pi_kind = k\<rparr>]"
      using ne by (simp_all add: scan_use_def Let_def kind)
    then show ?thesis using assms False Some wait by (auto simp: scan_inv_def)
  qed
qed

lemma scan_fold:
  "scan_inv w0 (use_kind st opts n r t) dn s \<Longrightarrow>
     scan_inv w0 (use_kind st opts n r t) (dn @ uses) (fold (scan_use st opts n r t) uses s)"
proof (induction uses arbitrary: dn s)
  case Nil
  then show ?case by simp
next
  case (Cons iu uses)
  from Cons.IH [OF scan_step [OF Cons.prems]] show ?case by simp
qed

lemma scan_mid:
  "sc_mid (fold (scan_use st opts n r t) uses s) \<longleftrightarrow>
     sc_mid s \<or> (\<exists>iu\<in>set uses. unmatched_use st opts r t iu)"
proof (induction uses arbitrary: s)
  case Nil
  then show ?case by simp
next
  case (Cons iu uses)
  have "unmatched_use st opts r t iu \<Longrightarrow> \<not> is_some_and tr_is_error (r (tu_id (snd iu)))"
    by (cases iu) (auto simp: unmatched_use_def)
  then have "sc_mid (scan_use st opts n r t iu s) = (sc_mid s \<or> unmatched_use st opts r t iu)"
    by (auto simp: scan_use_def Let_def split: option.splits)
  then show ?case using Cons.IH by auto
qed
subsection \<open>Turns without caller flags\<close>

lemma opens_None: "opens env None i e = entry_opens env e"
  by (simp add: opens_def entry_opens_def split: entry.split)

lemma openers_cover_None [simp]: "openers_cover None es"
  by (simp add: openers_cover_def)

lemma segments_None: "segments env es None = segments_by (\<lambda>_. entry_opens env) es"
  by (simp add: segments_def opens_None [abs_def] fun_eq_iff)

lemma lift_total: "lift_session_refs env st sid es None = Some \<lparr>ls_session_id = sid,
    ls_turns = map (\<lambda>(i, sg). lift_turn env st i sg es (map_of (result_index es)))
      (enumerate 0 (segments env es None))\<rparr>"
  by (simp add: lift_session_refs_def Let_def)

lemma index_total:
  "lift_session_index env es None = Some (turn_indexes env es None (result_positions es))"
  by (simp add: lift_session_index_def)

definition turn_ok :: "env \<Rightarrow> turn \<Rightarrow> bool" where
  "turn_ok env t \<longleftrightarrow> tn_events t \<noteq> [] \<and>
     (\<forall>e\<in>set (tl (tn_events t)). \<not> entry_opens env e) \<and>
     (tn_index t \<noteq> 0 \<longrightarrow> entry_opens env (hd (tn_events t))) \<and>
     tn_prompt t = (if entry_opens env (hd (tn_events t)) then entry_prompt (hd (tn_events t)) else [])"

lemma hd_slice: "a < b \<Longrightarrow> b \<le> length xs \<Longrightarrow> hd (slice a b xs) = xs ! a"
  by (simp add: slice_nth upt_conv_Cons)

lemma tl_slice: "a < b \<Longrightarrow> b \<le> length xs \<Longrightarrow> set (tl (slice a b xs)) = (!) xs ` {a<..<b}"
  by (simp add: slice_nth upt_conv_Cons) (auto simp: image_iff Bex_def)

lemma chain_start_pos:
  "chain a b ss \<Longrightarrow> i < length ss \<Longrightarrow> 0 < i \<Longrightarrow> a < sg_start (ss ! i)"
proof (induction ss arbitrary: a i)
  case Nil
  then show ?case by simp
next
  case (Cons s ss)
  then obtain j where j: "i = Suc j" by (cases i) auto
  with Cons.prems have c: "chain (sg_end s) b ss" "a < sg_end s" "j < length ss" by auto
  show ?case
    using chain_bounds [OF c(1), of "ss ! j"] c j by (cases "j = 0") (auto simp: less_le_trans)
qed

lemma lifted_turn_ok:
  assumes "i < length (segments env es None)"
  shows "turn_ok env (lift_turn env st i (segments env es None ! i) es r)"
proof -
  let ?ss = "segments_by (\<lambda>_. entry_opens env) es" and ?s = "segments env es None ! i"
  have s: "?s \<in> set ?ss" using assms by (simp add: segments_None)
  have ch: "chain 0 (length es) ?ss" and ok: "segment_ok (\<lambda>_. entry_opens env) es ?s"
    using segments_spec [of es "\<lambda>_. entry_opens env"] s by auto
  have b: "sg_start ?s < sg_end ?s" "sg_end ?s \<le> length es" using chain_bounds [OF ch s] by auto
  have pos: "i \<noteq> 0 \<longrightarrow> 0 < sg_start ?s"
    using chain_start_pos [OF ch, of i] assms by (auto simp: segments_None)
  have "slice (sg_start ?s) (sg_end ?s) es \<noteq> []" using b by (simp add: slice_def)
  then show ?thesis
    using ok pos b by (auto simp: turn_ok_def hd_slice tl_slice segment_ok_def split: if_splits)
qed

lemma last_index_snoc:
  "last_index p i (es @ [e]) = (if p e then Some (i + length es) else last_index p i es)"
  by (induction es arbitrary: i) (auto split: option.split)

lemma turn_start_segment:
  "es \<noteq> [] \<Longrightarrow> current_turn_start env es = sg_start (last (segments env es None))"
proof (induction es rule: rev_induct)
  case Nil
  then show ?case by simp
next
  case (snoc e es)
  show ?case
  proof (cases "es = []")
    case True
    then show ?thesis
      by (simp add: current_turn_start_def segments_None segments_by_single)
  next
    case False
    then show ?thesis
      using snoc.IH segments_Nil_iff [of "\<lambda>_. entry_opens env" es]
      by (simp add: current_turn_start_def segments_None segments_by_snoc segment_step_def last_index_snoc)
  qed
qed

subsection \<open>Tail results\<close>

lemma position_pairs_append:
  "position_pairs (a @ b) = position_pairs a @ map (\<lambda>(k, p). (k, p + length a)) (position_pairs b)"
proof -
  have "concat (map (\<lambda>(i, e). case e of
       User u \<Rightarrow> map (\<lambda>x. (tr_tool_use_id x, i)) (user_tool_results u) | _ \<Rightarrow> []) (enumerate (m + n) b)) =
     map (\<lambda>(k, p). (k, p + n)) (concat (map (\<lambda>(i, e). case e of
       User u \<Rightarrow> map (\<lambda>x. (tr_tool_use_id x, i)) (user_tool_results u) | _ \<Rightarrow> []) (enumerate m b)))" for m n
    by (induction b arbitrary: m) (auto simp: comp_def split: entry.split simp flip: add_Suc)
  from this [of 0 "length a"] show ?thesis by (simp add: position_pairs_def enumerate_append_eq)
qed

lemma map_of_map_snd: "map_of (map (\<lambda>(k, p). (k, f p)) xs) = map_option f \<circ> map_of xs"
  by (induction xs) (auto simp: fun_eq_iff)

lemma result_positions_append:
  "result_positions (a @ b) = result_positions a ++ (map_option (\<lambda>p. p + length a) \<circ> result_positions b)"
  by (simp add: position_lookup position_pairs_append rev_map map_of_map_snd)

lemma map_of_perm: "mset xs = mset ys \<Longrightarrow> distinct (map fst ys) \<Longrightarrow> map_of xs = map_of ys"
proof (rule map_of_eqI)
  assume m: "mset xs = mset ys" and d: "distinct (map fst ys)"
  then have dx: "distinct (map fst xs)" by (metis mset_map mset_eq_imp_distinct_iff)
  have s: "set xs = set ys" using m by (rule mset_eq_setD)
  show "set (map fst xs) = set (map fst ys)" using s by simp
  show "\<forall>k\<in>set (map fst xs). map_of xs k = map_of ys k"
    using dx d s by (metis map_of_eq_Some_iff not_Some_eq)
qed

lemma tail_results_map: "map_of (tail_results es) = result_positions es"
proof -
  have "map_of (tail_results es) = map_of (od_items (od_of (position_pairs es)))"
    unfolding tail_results_def by (rule map_of_perm) (simp_all add: distinct_od_of)
  then show ?thesis by (simp add: map_of_od_of position_lookup)
qed

definition turn_segment :: "turn_index \<Rightarrow> segment" where
  "turn_segment x = \<lparr>sg_prompt = tx_prompt x, sg_start = tx_start x, sg_end = tx_end x\<rparr>"

lemma turn_segments: "map turn_segment (turn_indexes env es ops rp) = segments env es ops"
proof -
  have "turn_segment (turn_index_of env' es' s) = s" for env' es' s
    by (cases s) (simp add: turn_segment_def turn_index_of_def Let_def)
  then show ?thesis by (simp add: turn_indexes_def comp_def)
qed

subsection \<open>Properties\<close>

text \<open>C4: the lift partitions a session. The turns, numbered from 0, cut the entries into
  consecutive non-empty runs that together are all the entries in order; a turn starts at a
  turn-opening prompt (the first may not), contains no other one, and its prompt is that
  entry's text.\<close>

theorem lift_session_partition:
  "\<exists>l. lift_session_refs env st sid entries None = Some l \<and> ls_session_id l = sid \<and>
     concat (map tn_events (ls_turns l)) = entries \<and>
     map tn_index (ls_turns l) = [0..<length (ls_turns l)] \<and>
     list_all (turn_ok env) (ls_turns l)"
proof -
  obtain l where l: "lift_session_refs env st sid entries None = Some l" "ls_session_id l = sid"
    using lift_total by simp
  have "map tn_index (ls_turns l) = [0..<length (ls_turns l)]"
    using lift_turns(2) [OF l(1)] by (intro nth_equalityI) auto
  moreover have "turn_ok env t" if "t \<in> set (ls_turns l)" for t
  proof -
    obtain i where i: "i < length (ls_turns l)" "t = ls_turns l ! i" using \<open>t \<in> _\<close> by (metis in_set_conv_nth)
    then have "i < length (segments env entries None)" using lift_turns(1) [OF l(1)] by simp
    then show ?thesis using lift_turns(2) [OF l(1) i(1)] i(2) lifted_turn_ok by simp
  qed
  ultimately show ?thesis using l lift_events_concat [OF l(1)] unfolding list_all_iff by blast
qed

text \<open>C7: the positional lift is the lift. With the same (covering) opening flags, the turn
  skeletons have the turns' prompts, spans and tool uses in the same order; a tool use has a
  result position exactly when it has a result, and that position is a user entry carrying a
  result for its id.\<close>

theorem lift_index_agrees:
  assumes "lift_session_refs env st sid entries openers = Some l"
  shows "\<exists>ts. lift_session_index env entries openers = Some ts \<and>
     list_all2 (\<lambda>t x. tn_prompt t = tx_prompt x \<and> tn_events t = slice (tx_start x) (tx_end x) entries \<and>
        map tl_tool_use_id (tn_tool_uses t) = map ti_tool_use_id (tx_tool_uses x) \<and>
        map (\<lambda>u. tl_result u = None) (tn_tool_uses t) =
          map (\<lambda>u. ti_result_event_idx u = None) (tx_tool_uses x)) (ls_turns l) ts \<and>
     (\<forall>x\<in>set ts. \<forall>u\<in>set (tx_tool_uses x). \<forall>p. ti_result_event_idx u = Some p \<longrightarrow>
        p < length entries \<and> is_user (entries ! p) \<and>
        (\<exists>b\<in>set (tool_results (entries ! p)). tr_tool_use_id b = ti_tool_use_id u))"
proof -
  let ?ss = "segments env entries openers" and ?rp = "result_positions entries"
  let ?ri = "map_of (result_index entries)"
  have cov: "openers_cover openers entries" using assms by (auto simp: lift_session_refs_def split: if_splits)
  have ch: "chain 0 (length entries) ?ss" unfolding segments_def by (simp add: segments_spec)
  have dom: "(?rp i = None) = (?ri i = None)" for i by (rule result_tables_dom)
  have "list_all2 (\<lambda>t x. tn_prompt t = tx_prompt x \<and> tn_events t = slice (tx_start x) (tx_end x) entries \<and>
        map tl_tool_use_id (tn_tool_uses t) = map ti_tool_use_id (tx_tool_uses x) \<and>
        map (\<lambda>u. tl_result u = None) (tn_tool_uses t) =
          map (\<lambda>u. ti_result_event_idx u = None) (tx_tool_uses x)) (ls_turns l) (turn_indexes env entries openers ?rp)"
  proof (rule list_all2_all_nthI)
    show "length (ls_turns l) = length (turn_indexes env entries openers ?rp)"
      using lift_turns(1) [OF assms] by (simp add: turn_indexes_def)
    fix i assume i: "i < length (ls_turns l)"
    let ?s = "?ss ! i" and ?t = "ls_turns l ! i" and ?x = "turn_indexes env entries openers ?rp ! i"
    have len: "i < length ?ss" using i lift_turns(1) [OF assms] by simp
    have t: "?t = lift_turn env st i ?s entries ?ri" by (rule lift_turns(2) [OF assms i])
    have x: "?x = turn_index_of entries ?rp ?s" using len by (simp add: turn_indexes_def)
    have e: "sg_end ?s \<le> length entries" using chain_bounds [OF ch] len nth_mem by blast
    have ids: "map tl_tool_use_id (tn_tool_uses ?t) = map ti_tool_use_id (tx_tool_uses ?x)"
      unfolding t x turn_index_uses(1) [OF e] by (simp add: lift_use_def Let_def split_beta comp_def)
    have "map (\<lambda>u. tl_result u = None) (tn_tool_uses ?t) =
        map (\<lambda>r. r = None) (map ti_result_event_idx (tx_tool_uses ?x))"
      unfolding t x turn_index_uses(2) [OF e]
      by (simp add: lift_use_def Let_def split_beta comp_def dom)
    then have res: "map (\<lambda>u. tl_result u = None) (tn_tool_uses ?t) =
        map (\<lambda>u. ti_result_event_idx u = None) (tx_tool_uses ?x)" by (simp add: comp_def)
    have "tx_prompt ?x = sg_prompt ?s" "tx_start ?x = sg_start ?s" "tx_end ?x = sg_end ?s"
      by (simp_all add: x turn_index_of_def Let_def)
    then show "tn_prompt ?t = tx_prompt ?x \<and> tn_events ?t = slice (tx_start ?x) (tx_end ?x) entries \<and>
        map tl_tool_use_id (tn_tool_uses ?t) = map ti_tool_use_id (tx_tool_uses ?x) \<and>
        map (\<lambda>u. tl_result u = None) (tn_tool_uses ?t) =
          map (\<lambda>u. ti_result_event_idx u = None) (tx_tool_uses ?x)"
      using ids res by (simp add: t)
  qed
  moreover have "p < length entries \<and> is_user (entries ! p) \<and>
      (\<exists>b\<in>set (tool_results (entries ! p)). tr_tool_use_id b = ti_tool_use_id u)"
    if "x \<in> set (turn_indexes env entries openers ?rp)" "u \<in> set (tx_tool_uses x)"
      "ti_result_event_idx u = Some p" for x u p
  proof -
    have "ti_result_event_idx u = ?rp (ti_tool_use_id u)"
      using that(1,2) by (auto simp: turn_indexes_def turn_index_of_def Let_def)
    then show ?thesis using position_sound [of entries "ti_tool_use_id u" p] that(3) by simp
  qed
  ultimately show ?thesis using cov by (auto simp: lift_session_index_def)
qed

theorem lift_index_agrees_witness:
  "\<exists>l ts. lift_session_refs (sample_env []) \<lparr>mcp_registry = [], registry_override = None\<rparr> ''s''
       [Mode sample_mode_entry] (Some [True]) = Some l \<and>
     lift_session_index (sample_env []) [Mode sample_mode_entry] (Some [True]) = Some ts \<and>
     length (ls_turns l) = length ts"
proof -
  obtain l where l: "lift_session_refs (sample_env []) \<lparr>mcp_registry = [], registry_override = None\<rparr> ''s''
       [Mode sample_mode_entry] (Some [True]) = Some l"
    by (simp add: lift_session_refs_def openers_cover_def Let_def)
  from lift_index_agrees [OF this] show ?thesis using l by (auto dest: list_all2_lengthD)
qed

text \<open>C5: incremental lifts. Lifting the appended entries alone and joining the tail to the
  prior turns (folding its first turn into the open one exactly when \<open>continued\<close> says so)
  gives the turn boundaries and prompts of the lift of everything; and re-pairing with the
  tail's results, shifted, gives its result positions.\<close>

theorem lift_tail_extends:
  "\<exists>prior tail_lift whole.
     lift_session_index env a None = Some prior \<and>
     lift_session_index_tail env b None (a \<noteq> []) = Some tail_lift \<and>
     lift_session_index env (a @ b) None = Some whole \<and>
     map turn_segment whole =
       join_segments (continued tail_lift) (length a) (map turn_segment prior)
         (map turn_segment (lt_turns tail_lift)) \<and>
     result_positions (a @ b) =
       result_positions a ++ (map_option (\<lambda>p. p + length a) \<circ> map_of (lt_results tail_lift))"
proof -
  let ?op = "\<lambda>_::nat. entry_opens env"
  let ?t = "\<lparr>lt_turns = turn_indexes env b None (result_positions b), continued = continues ?op a b,
      lt_results = tail_results b\<rparr>"
  have t: "lift_session_index_tail env b None (a \<noteq> []) = Some ?t"
    by (simp add: lift_session_index_tail_def continues_def opens_None split: list.split)
  have "segments_by ?op (a @ b) =
      join_segments (continues ?op a b) (length a) (segments_by ?op a) (segments_by ?op b)"
    by (rule segments_extend)
  then show ?thesis
    unfolding t index_total
    by (simp add: turn_segments segments_None result_positions_append tail_results_map)
qed

text \<open>C6: the activity oracle. The session waits exactly when a task notification is queued or
  some tool use not answered by an error is a waiting one; it is mid-tool exactly when some
  use of the current turn is unanswered and not human-facing; and the pending items name each
  such call once.\<close>

theorem session_activity_verdict:
  fixes env :: env and st :: registry and entries :: "entry list" and opts :: activity_opts
  defines "n \<equiv> activity_notifications entries"
    and "kind \<equiv> use_kind st opts (activity_notifications entries) (result_map entries)
      (current_turn_start env entries)"
    and "act \<equiv> session_activity_refs env st entries opts"
  shows "(is_waiting act \<longleftrightarrow> has_pending n \<or>
       (\<exists>iu\<in>set (indexed_uses entries). \<exists>k. kind iu = Some k \<and> k \<noteq> MidTool)) \<and>
     (mid_tool act \<longleftrightarrow> (\<exists>iu\<in>set (indexed_uses entries).
       unmatched_use st opts (result_map entries) (current_turn_start env entries) iu)) \<and>
     distinct (map pi_tool_use_id (sa_pending act)) \<and>
     set (map pi_tool_use_id (sa_pending act)) =
       (Some \<circ> tu_id \<circ> snd) ` {iu \<in> set (indexed_uses entries). kind iu \<noteq> None}"
proof -
  let ?init = "\<lparr>sc_waiting = has_pending n, sc_mid = False, sc_pending = [], sc_seen = []\<rparr>"
  let ?s = "fold (scan_use st opts n (result_map entries) (current_turn_start env entries))
      (indexed_uses entries) ?init"
  have "scan_inv (has_pending n) kind [] ?init" by (simp add: scan_inv_def)
  then have inv: "scan_inv (has_pending n) kind (indexed_uses entries) ?s"
    unfolding kind_def n_def [symmetric]
    using scan_fold [of "has_pending n" st opts n "result_map entries" "current_turn_start env entries" "[]"
        ?init "indexed_uses entries"] by simp
  have act: "is_waiting act = sc_waiting ?s" "mid_tool act = sc_mid ?s" "sa_pending act = sc_pending ?s"
    by (simp_all add: act_def session_activity_refs_def n_def Let_def)
  have ids: "map pi_tool_use_id (sc_pending ?s) = map Some (sc_seen ?s)" using inv by (simp add: scan_inv_def)
  have "set (sc_seen ?s) = (tu_id \<circ> snd) ` {iu \<in> set (indexed_uses entries). kind iu \<noteq> None}"
    by (rule scan_inv_seen [OF inv])
  then have "set (map pi_tool_use_id (sa_pending act)) =
       (Some \<circ> tu_id \<circ> snd) ` {iu \<in> set (indexed_uses entries). kind iu \<noteq> None}"
    unfolding act ids by (simp only: set_map image_comp o_assoc)
  moreover have "distinct (map pi_tool_use_id (sa_pending act))"
    using inv unfolding act ids by (simp add: scan_inv_def distinct_map)
  moreover have "sc_waiting ?s \<longleftrightarrow> has_pending n \<or>
       (\<exists>iu\<in>set (indexed_uses entries). \<exists>k. kind iu = Some k \<and> k \<noteq> MidTool)"
    using inv by (simp add: scan_inv_def)
  ultimately show ?thesis unfolding act by (simp add: scan_mid)
qed

text \<open>The oracle and the lift agree on where the current turn starts: it is the start of
  the last turn of the lift.\<close>

theorem current_turn_is_last_segment:
  assumes "entries \<noteq> []"
  shows "current_turn_start env entries = sg_start (last (segments env entries None))"
  using assms by (rule turn_start_segment)

theorem current_turn_is_last_segment_witness:
  "current_turn_start (sample_env []) [Mode sample_mode_entry] =
     sg_start (last (segments (sample_env []) [Mode sample_mode_entry] None))"
  by (rule current_turn_is_last_segment) simp

end
