(* ===== verification/Query.thy ===== *)
theory Query
  imports ActivityFacts ToolFacts
begin

text \<open>
  \<open>query.rs\<close>: windows over a lifted session and the tool-call queries on them. A window
  turn is a \<open>(turn, lo, hi)\<close> view; the source finds the event of a tool use by the address
  of its uuid, here by its position in the turn, which \<open>use_positions\<close> lists in the order
  of the turn's tool uses. Glob matching (a translated glob run by the regex crate) is an
  argument of the operations that use it.
\<close>

subsection \<open>File references and predicates\<close>

definition is_failure :: "tool_use \<Rightarrow> bool" where
  "is_failure u = is_some_and tr_is_error (tl_result u)"

definition carries_token :: "entry \<Rightarrow> string \<Rightarrow> bool" where
  "carries_token e token = (case e of
      User u \<Rightarrow> contains_str token (user_text (ue_content u)) \<or>
        (\<exists>r\<in>set (user_tool_results u). contains_str token (tr_content r))
    | Assistant a \<Rightarrow> contains_str token (joined_text (as_blocks a))
    | System x \<Rightarrow> is_some_and (contains_str token) (se_content x)
    | _ \<Rightarrow> False)"

definition pure_name :: "string \<Rightarrow> string" where
  "pure_name path =
     (case filter (\<lambda>c. c \<noteq> []) (rev (split_char CHR ''/'' path)) of [] \<Rightarrow> [] | c # _ \<Rightarrow> c)"

definition pure_suffix :: "string \<Rightarrow> string" where
  "pure_suffix name =
     (case last_index (\<lambda>c. c = CHR ''.'') 0 name of
        Some i \<Rightarrow> if 0 < i \<and> i < length name - 1 then drop i name else []
      | None \<Rightarrow> [])"

definition char_prefix :: "string \<Rightarrow> nat \<Rightarrow> string" where
  "char_prefix s n = concat (take n (chars s))"

definition ref_matches :: "(string \<Rightarrow> string \<Rightarrow> bool) \<Rightarrow> string \<Rightarrow> string list \<Rightarrow> bool" where
  "ref_matches fnm path globs = (\<exists>glob\<in>set globs. fnm path glob \<or> fnm (pure_name path) glob)"

definition ref_under :: "string \<Rightarrow> string list \<Rightarrow> bool" where
  "ref_under path prefs =
     (\<exists>p\<in>set prefs. prefix p path \<or> contains_str (CHR ''/'' # p) path)"

subsection \<open>Tool-call queries\<close>

record tool_call_query =
  all_items :: "tool_use list"
  include_errors :: bool

definition query_items :: "tool_call_query \<Rightarrow> tool_use list" where
  "query_items q = (if include_errors q then all_items q else filter (\<lambda>u. \<not> is_failure u) (all_items q))"

definition with_errors :: "tool_call_query \<Rightarrow> tool_call_query" where
  "with_errors q = q\<lparr>include_errors := True\<rparr>"

definition filtered :: "(tool_use \<Rightarrow> bool) \<Rightarrow> tool_call_query \<Rightarrow> tool_call_query" where
  "filtered pred q = q\<lparr>all_items := filter pred (all_items q)\<rparr>"

definition named :: "registry \<Rightarrow> string \<Rightarrow> tool_call_query \<Rightarrow> tool_call_query" where
  "named st spec = filtered (\<lambda>u. tool_name_matches st (call_name (tl_call u)) spec)"

definition touching :: "(string \<Rightarrow> string \<Rightarrow> bool) \<Rightarrow> string list \<Rightarrow> tool_call_query \<Rightarrow> tool_call_query" where
  "touching fnm globs = filtered (\<lambda>u. \<exists>p\<in>set (call_file_paths (tl_call u)). ref_matches fnm p globs)"

definition under :: "string list \<Rightarrow> tool_call_query \<Rightarrow> tool_call_query" where
  "under prefs = filtered (\<lambda>u. \<exists>p\<in>set (call_file_paths (tl_call u)). ref_under p prefs)"

definition failed :: "tool_call_query \<Rightarrow> tool_call_query" where
  "failed q = \<lparr>all_items = filter is_failure (all_items q), include_errors = True\<rparr>"

definition in_turns :: "nat list \<Rightarrow> tool_call_query \<Rightarrow> tool_call_query" where
  "in_turns indices = filtered (\<lambda>u. tl_turn_index u \<in> set indices)"

definition query_count :: "tool_call_query \<Rightarrow> nat" where
  "query_count q = length (query_items q)"

definition query_any :: "tool_call_query \<Rightarrow> bool" where
  "query_any q = (query_items q \<noteq> [])"

definition query_files :: "tool_call_query \<Rightarrow> string list" where
  "query_files q = concat (map (\<lambda>u. call_file_paths (tl_call u)) (query_items q))"

definition query_edited_files :: "tool_call_query \<Rightarrow> string list" where
  "query_edited_files q = concat (map (\<lambda>u. map fst (call_edits (tl_call u))) (query_items q))"

subsection \<open>Windows\<close>

record window_turn =
  wt_turn :: turn
  wt_lo :: nat
  wt_hi :: nat

type_synonym session = "window_turn list"

definition full :: "turn \<Rightarrow> window_turn" where
  "full t = \<lparr>wt_turn = t, wt_lo = 0, wt_hi = length (tn_events t)\<rparr>"

definition wt_events :: "window_turn \<Rightarrow> entry list" where
  "wt_events wt = slice (wt_lo wt) (wt_hi wt) (tn_events (wt_turn wt))"

definition wt_size :: "window_turn \<Rightarrow> nat" where
  "wt_size wt = wt_hi wt - wt_lo wt"

definition wt_prompt :: "window_turn \<Rightarrow> string" where
  "wt_prompt wt = (if wt_lo wt = 0 then tn_prompt (wt_turn wt) else [])"

text \<open>The position in its turn of the event of each tool use.\<close>

definition use_positions :: "turn \<Rightarrow> nat list" where
  "use_positions t =
     concat (map (\<lambda>(i, e). replicate (length (assistant_uses e)) i) (enumerate 0 (tn_events t)))"

definition wt_located :: "window_turn \<Rightarrow> (nat \<times> tool_use) list" where
  "wt_located wt =
     filter (\<lambda>(p, _). wt_lo wt \<le> p \<and> p < wt_hi wt) (zip (use_positions (wt_turn wt)) (tn_tool_uses (wt_turn wt)))"

definition wt_tool_uses :: "window_turn \<Rightarrow> tool_use list" where
  "wt_tool_uses wt =
     (if wt_lo wt = 0 \<and> wt_hi wt = length (tn_events (wt_turn wt)) then tn_tool_uses (wt_turn wt)
      else map snd (wt_located wt))"

definition from_lift :: "lifted_session \<Rightarrow> session" where
  "from_lift l = map full (ls_turns l)"

definition events :: "session \<Rightarrow> entry list" where
  "events s = concat (map wt_events s)"

definition session_len :: "session \<Rightarrow> nat" where
  "session_len s = sum_list (map wt_size s)"

definition non_empty :: "session \<Rightarrow> bool" where
  "non_empty s = (\<exists>wt\<in>set s. 0 < wt_size wt)"

definition tool_calls :: "session \<Rightarrow> tool_call_query" where
  "tool_calls s = \<lparr>all_items = concat (map wt_tool_uses s), include_errors = False\<rparr>"

text \<open>Every tool use of the window with the position of its event among the flattened events
  (\<open>event_positions\<close>).\<close>

fun located_uses :: "nat \<Rightarrow> session \<Rightarrow> (nat \<times> tool_use) list" where
  "located_uses base [] = []"
| "located_uses base (wt # s) =
     map (\<lambda>(p, u). (base + (p - wt_lo wt), u)) (wt_located wt) @ located_uses (base + wt_size wt) s"

fun windowed_from :: "nat \<Rightarrow> nat \<Rightarrow> nat \<Rightarrow> session \<Rightarrow> session" where
  "windowed_from base start stop [] = []"
| "windowed_from base start stop (wt # s) =
     (let size = wt_size wt;
          lo = max (int start - int base) 0;
          hi = min (int stop - int base) (int size);
          rest = windowed_from (base + size) start stop s
      in if lo < hi
         then \<lparr>wt_turn = wt_turn wt, wt_lo = wt_lo wt + nat lo, wt_hi = wt_lo wt + nat hi\<rparr> # rest
         else rest)"

definition windowed :: "nat \<Rightarrow> nat \<Rightarrow> session \<Rightarrow> session" where
  "windowed start stop s = windowed_from 0 start stop s"

definition max_of :: "nat list \<Rightarrow> nat option" where
  "max_of xs = (if xs = [] then None else Some (Max (set xs)))"

definition after :: "registry \<Rightarrow> string \<Rightarrow> string option \<Rightarrow> session \<Rightarrow> session" where
  "after st tool file s =
     (case max_of (map fst (filter (\<lambda>(_, u). tool_name_matches st (call_name (tl_call u)) tool \<and>
             (case file of None \<Rightarrow> True | Some f \<Rightarrow> \<exists>p\<in>set (call_file_paths (tl_call u)). contains_str f p))
           (located_uses 0 s))) of
        Some mx \<Rightarrow> windowed (mx + 1) (session_len s) s
      | None \<Rightarrow> windowed 0 0 s)"

definition before :: "registry \<Rightarrow> string \<Rightarrow> session \<Rightarrow> session" where
  "before st tool s =
     (case max_of (map fst (filter (\<lambda>(_, u). tool_name_matches st (call_name (tl_call u)) tool)
           (located_uses 0 s))) of
        Some mx \<Rightarrow> windowed 0 mx s
      | None \<Rightarrow> s)"

definition prior :: "session \<Rightarrow> session" where
  "prior s =
     (case last_index (\<lambda>e. case e of User _ \<Rightarrow> True | Assistant _ \<Rightarrow> True | _ \<Rightarrow> False) 0 (events s) of
        Some l \<Rightarrow> windowed 0 l s
      | None \<Rightarrow> windowed 0 0 s)"

definition recent :: "nat \<Rightarrow> session \<Rightarrow> session" where
  "recent n s = (let len = session_len s in windowed (len - n) len s)"

definition current_turn :: "session \<Rightarrow> session" where
  "current_turn s = (if s = [] then [] else [last s])"

definition session_user_text :: "session \<Rightarrow> string" where
  "session_user_text s = (if s = [] then [] else wt_prompt (last s))"

definition first_prompt :: "session \<Rightarrow> string option" where
  "first_prompt s = List.find (\<lambda>p. p \<noteq> []) (map wt_prompt s)"

definition has_tool :: "registry \<Rightarrow> string \<Rightarrow> session \<Rightarrow> bool" where
  "has_tool st name s = query_any (named st name (tool_calls s))"

definition has_edit_to :: "(string \<Rightarrow> string \<Rightarrow> bool) \<Rightarrow> string list \<Rightarrow> session \<Rightarrow> bool" where
  "has_edit_to fnm globs s = (\<exists>f\<in>set (query_edited_files (tool_calls s)). ref_matches fnm f globs)"

definition has_read :: "registry \<Rightarrow> string \<Rightarrow> session \<Rightarrow> bool" where
  "has_read st pattern s =
     (\<exists>f\<in>set (query_files (named st ''Read'' (tool_calls s))). contains_str pattern f)"

definition has_skill :: "registry \<Rightarrow> string list \<Rightarrow> session \<Rightarrow> bool" where
  "has_skill st names s =
     (\<exists>u\<in>set (query_items (named st ''Skill'' (tool_calls s))).
        case tl_call u of TSkill c \<Rightarrow> sc_skill c \<in> set names | _ \<Rightarrow> False)"

definition has_override :: "registry \<Rightarrow> string \<Rightarrow> string list \<Rightarrow> session \<Rightarrow> bool" where
  "has_override st token invalidated_by s =
     (case last_index (\<lambda>e. carries_token e token) 0 (events s) of
        None \<Rightarrow> False
      | Some l \<Rightarrow>
          (let expanded = expand_tool_names st (join ''|'' invalidated_by) in
           \<not> (\<exists>(p, u)\<in>set (located_uses 0 s). l < p \<and> matches_names st (call_name (tl_call u)) expanded)))"

definition count_failures :: "session \<Rightarrow> nat" where
  "count_failures s = query_count (failed (tool_calls s))"

definition assistant_text :: "nat \<Rightarrow> nat \<Rightarrow> session \<Rightarrow> string" where
  "assistant_text n max_per_msg s =
     (let texts = List.map_filter (\<lambda>e. case e of
              Assistant a \<Rightarrow> Some (strip (joined_text (as_blocks a))) | _ \<Rightarrow> None) (events s);
          start = (if n = 0 then 0 else length texts - n)
      in join ([byte 10] @ ''---'' @ [byte 10])
           (map (\<lambda>t. char_prefix t max_per_msg) (filter (\<lambda>t. t \<noteq> []) (drop start texts))))"

definition user_said :: "env \<Rightarrow> string list \<Rightarrow> session \<Rightarrow> bool" where
  "user_said env keywords s =
     (\<exists>wt\<in>set s. \<exists>kw\<in>set keywords. contains_str (e_lower env kw) (e_lower env (wt_prompt wt)))"

definition commands :: "registry \<Rightarrow> session \<Rightarrow> string list" where
  "commands st s =
     List.map_filter (\<lambda>u. case tl_call u of TBash c \<Rightarrow> Some (bc_command c) | _ \<Rightarrow> None)
       (query_items (named st ''Bash'' (tool_calls s)))"

subsection \<open>Windows are sub-sequences of the events\<close>

definition window_ok :: "window_turn \<Rightarrow> bool" where
  "window_ok wt \<longleftrightarrow> wt_lo wt \<le> wt_hi wt \<and> wt_hi wt \<le> length (tn_events (wt_turn wt))"

lemma wt_size_events: "window_ok wt \<Longrightarrow> length (wt_events wt) = wt_size wt"
  by (auto simp: window_ok_def wt_events_def wt_size_def slice_def min_def)

lemma session_len_events: "\<forall>wt\<in>set s. window_ok wt \<Longrightarrow> length (events s) = session_len s"
  by (induction s) (simp_all add: events_def session_len_def wt_size_events)

lemma slice_slice:
  "c \<le> d \<Longrightarrow> a + d \<le> b \<Longrightarrow> slice (a + c) (a + d) xs = slice c d (slice a b xs)"
  by (simp add: slice_def drop_take add.commute min_def)

lemma slice_append:
  "slice a b (xs @ ys) = slice a b xs @ slice (a - length xs) (b - length xs) ys"
proof -
  have "b - a - (length xs - a) = b - length xs - (a - length xs)" by simp
  then show ?thesis by (simp add: slice_def)
qed

lemma slice_empty: "b \<le> a \<Longrightarrow> slice a b xs = []"
  by (simp add: slice_def)

lemma slice_clip: "slice a (min b (length xs)) xs = slice a b xs"
  by (simp add: slice_def min_def)

lemma windowed_from_events:
  assumes "\<forall>wt\<in>set s. window_ok wt"
  shows "events (windowed_from base start stop s) = slice (start - base) (stop - base) (events s) \<and>
     (\<forall>wt\<in>set (windowed_from base start stop s). window_ok wt)"
  using assms
proof (induction s arbitrary: base)
  case Nil
  then show ?case by (simp add: events_def slice_def)
next
  case (Cons wt s)
  let ?size = "wt_size wt" and ?a = "start - base" and ?b = "stop - base"
  let ?w = "\<lparr>wt_turn = wt_turn wt, wt_lo = wt_lo wt + ?a, wt_hi = wt_lo wt + min ?b ?size\<rparr>"
  have ok: "window_ok wt" and len: "length (wt_events wt) = ?size"
    using Cons.prems by (simp_all add: wt_size_events)
  have IH: "events (windowed_from (base + ?size) start stop s) =
      slice (?a - ?size) (?b - ?size) (events s)"
    "\<forall>w\<in>set (windowed_from (base + ?size) start stop s). window_ok w"
    using Cons.IH [of "base + ?size"] Cons.prems by simp_all
  have all: "slice ?a ?b (events (wt # s)) =
      slice ?a ?b (wt_events wt) @ slice (?a - ?size) (?b - ?size) (events s)"
    by (simp add: events_def slice_append len)
  have cond: "max (int start - int base) 0 < min (int stop - int base) (int ?size) \<longleftrightarrow> ?a < min ?b ?size"
    by linarith
  have nats: "nat (max (int start - int base) 0) = ?a" by linarith
  show ?case
  proof (cases "?a < min ?b ?size")
    case True
    have nat2: "nat (min (int stop - int base) (int ?size)) = min ?b ?size" using True by linarith
    have "windowed_from base start stop (wt # s) = ?w # windowed_from (base + ?size) start stop s"
      using True cond nats nat2 by (simp add: Let_def)
    moreover have w: "window_ok ?w" using ok True by (auto simp: window_ok_def wt_size_def)
    moreover have "wt_events ?w = slice ?a ?b (wt_events wt)"
    proof -
      have "wt_events ?w = slice (wt_lo wt + ?a) (wt_lo wt + min ?b ?size) (tn_events (wt_turn wt))"
        by (simp add: wt_events_def)
      also have "\<dots> = slice ?a (min ?b ?size) (wt_events wt)"
        unfolding wt_events_def using True ok by (intro slice_slice) (auto simp: wt_size_def window_ok_def)
      also have "\<dots> = slice ?a ?b (wt_events wt)" using slice_clip [of ?a ?b "wt_events wt"] by (simp add: len)
      finally show ?thesis .
    qed
    ultimately show ?thesis using IH unfolding all by (simp add: events_def)
  next
    case False
    then have "windowed_from base start stop (wt # s) = windowed_from (base + ?size) start stop s"
      using cond by (simp add: Let_def)
    moreover have "slice ?a ?b (wt_events wt) = []"
      using slice_clip [of ?a ?b "wt_events wt"] slice_empty [of "min ?b ?size" ?a "wt_events wt"] False
      by (simp add: len not_less)
    ultimately show ?thesis using IH unfolding all by simp
  qed
qed

lemma windowed_events:
  "\<forall>wt\<in>set s. window_ok wt \<Longrightarrow> events (windowed a b s) = slice a b (events s)"
  "\<forall>wt\<in>set s. window_ok wt \<Longrightarrow> \<forall>wt\<in>set (windowed a b s). window_ok wt"
  using windowed_from_events [of s 0 a b] by (simp_all add: windowed_def)

lemma from_lift_ok: "\<forall>wt\<in>set (from_lift l). window_ok wt"
  by (auto simp: from_lift_def full_def window_ok_def)

lemma from_lift_events: "events (from_lift l) = concat (map tn_events (ls_turns l))"
  by (simp add: events_def from_lift_def full_def wt_events_def comp_def slice_full)

subsection \<open>Locating tool uses\<close>

lemma located_bounds:
  "(p, u) \<in> set (located_uses base s) \<Longrightarrow> base \<le> p \<and> p < base + session_len s"
proof (induction s arbitrary: base)
  case Nil
  then show ?case by simp
next
  case (Cons wt s)
  show ?case
  proof (cases "(p, u) \<in> set (located_uses (base + wt_size wt) s)")
    case True
    from Cons.IH [OF this] show ?thesis by (simp add: session_len_def)
  next
    case False
    then obtain q where "p = base + (q - wt_lo wt)" "wt_lo wt \<le> q" "q < wt_hi wt"
      using Cons.prems by (auto simp: wt_located_def)
    moreover have "session_len (wt # s) = (wt_hi wt - wt_lo wt) + session_len s"
      by (simp add: session_len_def wt_size_def)
    ultimately show ?thesis by linarith
  qed
qed

lemma windowed_from_past: "stop \<le> base \<Longrightarrow> windowed_from base start stop s = []"
  by (induction s arbitrary: base) (simp_all add: Let_def)

lemma filter_past:
  "stop \<le> base \<Longrightarrow> filter (\<lambda>(p, _). start \<le> p \<and> p < stop) (located_uses base s) = []"
  by (auto simp: filter_empty_conv dest!: located_bounds)

lemma located_windowed:
  "located_uses (base - start) (windowed_from base start stop s) =
     map (\<lambda>(p, u). (p - start, u)) (filter (\<lambda>(p, _). start \<le> p \<and> p < stop) (located_uses base s))"
proof (induction s arbitrary: base)
  case Nil
  then show ?case by simp
next
  case (Cons wt s)
  let ?size = "wt_size wt" and ?a = "start - base" and ?b = "stop - base"
  let ?w = "\<lparr>wt_turn = wt_turn wt, wt_lo = wt_lo wt + ?a, wt_hi = wt_lo wt + min ?b ?size\<rparr>"
  let ?keep = "\<lambda>(p, _). start \<le> p \<and> p < stop" and ?shift = "\<lambda>(p, u). (p - start, u)"
  let ?here = "map (\<lambda>(p, u). (base + (p - wt_lo wt), u)) (wt_located wt)"
  have IH: "located_uses (base + ?size - start) (windowed_from (base + ?size) start stop s) =
      map ?shift (filter ?keep (located_uses (base + ?size) s))" by (rule Cons.IH)
  have split: "map ?shift (filter ?keep (located_uses base (wt # s))) =
      map ?shift (filter ?keep ?here) @ map ?shift (filter ?keep (located_uses (base + ?size) s))"
    by simp
  have cond: "max (int start - int base) 0 < min (int stop - int base) (int ?size) \<longleftrightarrow> ?a < min ?b ?size"
    by linarith
  have nats: "nat (max (int start - int base) 0) = ?a" by linarith
  show ?case
  proof (cases "?a < min ?b ?size")
    case True
    have nat2: "nat (min (int stop - int base) (int ?size)) = min ?b ?size" using True by linarith
    have w: "windowed_from base start stop (wt # s) = ?w # windowed_from (base + ?size) start stop s"
      using True cond nats nat2 by (simp add: Let_def)
    have located: "map (\<lambda>(p, u). (base - start + (p - wt_lo ?w), u)) (wt_located ?w) =
        map ?shift (filter ?keep ?here)"
    proof -
      have "wt_located ?w = filter (\<lambda>(p, _). ?a \<le> p - wt_lo wt \<and> p - wt_lo wt < ?b) (wt_located wt)"
        unfolding wt_located_def filter_filter by (rule filter_cong) (auto simp: wt_size_def)
      moreover have "filter ?keep ?here =
          map (\<lambda>(p, u). (base + (p - wt_lo wt), u))
            (filter (\<lambda>(p, _). ?a \<le> p - wt_lo wt \<and> p - wt_lo wt < ?b) (wt_located wt))"
        unfolding filter_map by (rule arg_cong [where f = "map _"], rule filter_cong) auto
      ultimately show ?thesis by (auto simp: comp_def)
    qed
    have next_pos: "located_uses (base - start + wt_size ?w) (windowed_from (base + ?size) start stop s) =
        located_uses (base + ?size - start) (windowed_from (base + ?size) start stop s)"
    proof (cases "stop \<le> base + ?size")
      case True
      then show ?thesis by (simp add: windowed_from_past)
    next
      case False
      then have "base - start + wt_size ?w = base + ?size - start" using True by (simp add: wt_size_def)
      then show ?thesis by simp
    qed
    show ?thesis unfolding w split IH [symmetric] next_pos [symmetric] located [symmetric] by simp
  next
    case False
    have w: "windowed_from base start stop (wt # s) = windowed_from (base + ?size) start stop s"
      using False cond by (simp add: Let_def)
    have "filter ?keep ?here = []"
      using False by (auto simp: filter_empty_conv wt_located_def wt_size_def)
    moreover have "located_uses (base - start) (windowed_from (base + ?size) start stop s) =
        located_uses (base + ?size - start) (windowed_from (base + ?size) start stop s)"
    proof (cases "stop \<le> base + ?size")
      case True
      then show ?thesis by (simp add: windowed_from_past)
    next
      case False': False
      then have "base - start = base + ?size - start" using False by linarith
      then show ?thesis by simp
    qed
    ultimately show ?thesis unfolding w split by (simp add: IH)
  qed
qed

lemma located_windowed0:
  "located_uses 0 (windowed a b s) =
     map (\<lambda>(p, u). (p - a, u)) (filter (\<lambda>(p, _). a \<le> p \<and> p < b) (located_uses 0 s))"
  using located_windowed [of 0 a b s] by (simp add: windowed_def)

text \<open>The uses of a window of a lifted turn are those of its events.\<close>

definition lifted_turn :: "turn \<Rightarrow> bool" where
  "lifted_turn t \<longleftrightarrow> map (\<lambda>u. (tl_event_uuid u, tl_tool_use_id u)) (tn_tool_uses t) =
     map (\<lambda>(a, tu). (uuid (as_meta a), tu_id tu)) (concat (map assistant_uses (tn_events t)))"

lemma lifted_turn_lift: "lifted_turn (lift_turn env st i sg es r)"
  by (simp add: lifted_turn_def lift_use_def Let_def split_beta)

lemma zip_replicate_length: "zip (replicate (length xs) i) xs = map (Pair i) xs"
  by (induction xs) auto

lemma zip_positions:
  "zip (concat (map (\<lambda>(i, e). replicate (length (f e)) i) (enumerate n es))) (concat (map f es)) =
     concat (map (\<lambda>(i, e). map (Pair i) (f e)) (enumerate n es))"
proof (induction es arbitrary: n)
  case Nil
  then show ?case by simp
next
  case (Cons e es)
  then show ?case by (simp add: zip_replicate_length)
qed

lemma concat_enumerate_slice:
  "concat (map (\<lambda>(i, e). if lo \<le> i \<and> i < hi then g e else []) (enumerate n es)) =
     concat (map g (slice (lo - n) (hi - n) es))"
proof (induction es arbitrary: n)
  case Nil
  then show ?case by (simp add: slice_def)
next
  case (Cons e es)
  consider "hi \<le> n" | "n < hi" "n < lo" | "n < hi" "lo \<le> n" by linarith
  then show ?case
  proof cases
    case 1
    then show ?thesis using Cons.IH [of "Suc n"] by (simp add: slice_def)
  next
    case 2
    then have "slice (lo - n) (hi - n) (e # es) = slice (lo - Suc n) (hi - Suc n) es"
      by (simp add: slice_def drop_Cons')
    then show ?thesis using 2 Cons.IH [of "Suc n"] by simp
  next
    case 3
    then have "slice (lo - n) (hi - n) (e # es) = e # slice (lo - Suc n) (hi - Suc n) es"
      by (simp add: slice_def take_Cons')
    then show ?thesis using 3 Cons.IH [of "Suc n"] by simp
  qed
qed

lemma located_ids:
  assumes "lifted_turn (wt_turn wt)"
  shows "map (\<lambda>(p, u). (tl_event_uuid u, tl_tool_use_id u)) (wt_located wt) =
     map (\<lambda>(a, tu). (uuid (as_meta a), tu_id tu)) (concat (map assistant_uses (wt_events wt)))"
proof -
  let ?t = "wt_turn wt" and ?key = "\<lambda>u. (tl_event_uuid u, tl_tool_use_id u)"
  let ?akey = "\<lambda>(a, tu). (uuid (as_meta a), tu_id tu)"
  let ?in = "\<lambda>p. wt_lo wt \<le> p \<and> p < wt_hi wt"
  have keys: "map ?key (tn_tool_uses ?t) = map ?akey (concat (map assistant_uses (tn_events ?t)))"
    using assms by (simp add: lifted_turn_def)
  have "map (\<lambda>(p, u). ?key u) (wt_located wt) = map snd (filter (\<lambda>(p, _). ?in p)
      (zip (use_positions ?t) (map ?key (tn_tool_uses ?t))))"
    unfolding wt_located_def by (simp add: zip_map2 filter_map comp_def case_prod_unfold)
  also have "zip (use_positions ?t) (map ?key (tn_tool_uses ?t)) =
      concat (map (\<lambda>(i, e). map (Pair i) (map ?akey (assistant_uses e))) (enumerate 0 (tn_events ?t)))"
    unfolding keys using zip_positions [of "\<lambda>e. map ?akey (assistant_uses e)" 0 "tn_events ?t"]
    by (simp add: use_positions_def map_concat comp_def)
  also have "map snd (filter (\<lambda>(p, _). ?in p) \<dots>) =
      concat (map (\<lambda>(i, e). if ?in i then map ?akey (assistant_uses e) else []) (enumerate 0 (tn_events ?t)))"
    by (simp add: filter_concat map_concat comp_def split_beta filter_map)
      (rule arg_cong [where f = concat], rule map_cong, auto simp: comp_def)
  also have "\<dots> = concat (map (\<lambda>e. map ?akey (assistant_uses e)) (wt_events wt))"
    using concat_enumerate_slice [where n = 0] by (simp add: wt_events_def)
  finally show ?thesis by (simp add: map_concat comp_def)
qed

lemma wt_tool_uses_ids:
  assumes "lifted_turn (wt_turn wt)"
  shows "map (\<lambda>u. (tl_event_uuid u, tl_tool_use_id u)) (wt_tool_uses wt) =
     map (\<lambda>(a, tu). (uuid (as_meta a), tu_id tu)) (concat (map assistant_uses (wt_events wt)))"
  using assms located_ids [OF assms]
  by (simp add: wt_tool_uses_def lifted_turn_def wt_events_def slice_full comp_def case_prod_unfold)

lemma windowed_turns: "wt_turn ` set (windowed_from base a b s) \<subseteq> wt_turn ` set s"
  by (induction s arbitrary: base) (auto simp: Let_def)

lemma tool_calls_ids:
  assumes "\<forall>wt\<in>set s. lifted_turn (wt_turn wt)"
  shows "map (\<lambda>u. (tl_event_uuid u, tl_tool_use_id u)) (all_items (tool_calls s)) =
     map (\<lambda>(a, tu). (uuid (as_meta a), tu_id tu)) (concat (map assistant_uses (events s)))"
  using assms by (induction s) (simp_all add: tool_calls_def events_def wt_tool_uses_ids)

definition matching :: "registry \<Rightarrow> string \<Rightarrow> session \<Rightarrow> nat list" where
  "matching st tool s =
     map fst (filter (\<lambda>(_, u). tool_name_matches st (call_name (tl_call u)) tool) (located_uses 0 s))"

lemma max_of_Some: "max_of xs = Some m \<Longrightarrow> m \<in> set xs \<and> (\<forall>x\<in>set xs. x \<le> m)"
  by (auto simp: max_of_def split: if_splits intro: Max_in)

lemma slice_to_len: "slice a (length xs) xs = drop a xs"
  by (simp add: slice_def)

subsection \<open>Properties\<close>

text \<open>Windows are slices. Sub-windowing, \<open>recent\<close> and \<open>len\<close> act on a window exactly as
  slicing its flattened events, and give a well-formed window again.\<close>

theorem window_is_slice:
  assumes "\<forall>wt\<in>set s. window_ok wt"
  shows "events (windowed a b s) = slice a b (events s) \<and>
     events (recent n s) = drop (length (events s) - n) (events s) \<and>
     session_len s = length (events s) \<and> (\<forall>wt\<in>set (windowed a b s). window_ok wt)"
  using windowed_events [OF assms] session_len_events [OF assms]
  by (simp add: recent_def Let_def slice_to_len flip: session_len_events [OF assms])

definition sample_turn :: "entry list \<Rightarrow> tool_use list \<Rightarrow> turn" where
  "sample_turn es us = \<lparr>tn_index = 0, tn_prompt = ''p'', started_at = None, ended_at = None,
     tn_events = es, tn_tool_uses = us\<rparr>"

theorem window_is_slice_witness:
  "events (windowed 1 2 [full (sample_turn [Mode sample_mode_entry, Mode sample_mode_entry] [])]) =
     [Mode sample_mode_entry]"
proof -
  have "\<forall>wt\<in>set [full (sample_turn [Mode sample_mode_entry, Mode sample_mode_entry] [])]. window_ok wt"
    by (simp add: window_ok_def full_def)
  from window_is_slice [OF this, of 1 2] show ?thesis
    by (simp add: events_def wt_events_def full_def sample_turn_def slice_def)
qed

text \<open>\<open>after\<close> and \<open>before\<close> cut a window at the event of the last call matching the tool:
  the two windows and that event are the whole window, and no call located in the later one
  matches.\<close>

theorem after_before_cut:
  assumes "\<forall>wt\<in>set s. window_ok wt" "max_of (matching st tool s) = Some m"
  shows "m < length (events s) \<and>
     events s = events (before st tool s) @ [events s ! m] @ events (after st tool None s) \<and>
     matching st tool (after st tool None s) = []"
proof -
  let ?pred = "\<lambda>(_, u). tool_name_matches st (call_name (tl_call u)) tool"
  have len: "session_len s = length (events s)" using session_len_events [OF assms(1)] by simp
  have m: "m \<in> set (matching st tool s)" "\<forall>x\<in>set (matching st tool s). x \<le> m"
    using max_of_Some [OF assms(2)] by auto
  then have lt: "m < length (events s)"
    by (auto simp: matching_def len [symmetric] dest: located_bounds)
  have a: "after st tool None s = windowed (m + 1) (length (events s)) s"
    using assms(2) by (simp add: after_def matching_def len)
  have b: "before st tool s = windowed 0 m s"
    using assms(2) by (simp add: before_def matching_def)
  have "events (after st tool None s) = drop (Suc m) (events s)"
    unfolding a windowed_events(1) [OF assms(1)] slice_to_len by simp
  moreover have "events (before st tool s) = take m (events s)"
    unfolding b windowed_events(1) [OF assms(1)] by (simp add: slice_def)
  moreover have "matching st tool (after st tool None s) = []"
    using m(2) unfolding a matching_def located_windowed0 by (fastforce simp: filter_empty_conv)
  ultimately show ?thesis using lt by (simp add: id_take_nth_drop [symmetric])
qed

definition sample_meta :: entry_meta where
  "sample_meta = \<lparr>uuid = ''u1'', parent_uuid = None, em_session_id = ''s1'',
     timestamp = \<lparr>dt_secs = 60, dt_nanos = 0, dt_offset = 0\<rparr>, em_cwd = None, git_branch = None,
     version = None, is_sidechain = False, is_meta = False, entrypoint = None,
     is_compact_summary = False, is_visible_in_transcript_only = False, user_type = None, slug = None\<rparr>"

definition sample_use_block :: tool_use_block where
  "sample_use_block = \<lparr>tu_id = ''t1'', tu_name = ''Read'', tu_run_in_background = None,
     tu_subagent_type = None, tu_file_path = None, tu_questions = None, tu_input = JNull\<rparr>"

definition sample_assistant :: assistant_entry where
  "sample_assistant = \<lparr>as_meta = sample_meta, as_model = ''m'', as_blocks = [CToolUse sample_use_block],
     as_stop_reason = None, as_usage = None, request_id = None, forked_from = None,
     as_attribution = None, as_api_error = None\<rparr>"

definition sample_registry :: registry where
  "sample_registry = \<lparr>mcp_registry = [], registry_override = None\<rparr>"

definition sample_window :: session where
  "sample_window = [full (sample_turn [Assistant sample_assistant, Mode sample_mode_entry]
     [lift_use (sample_env []) sample_registry 0 Map.empty (sample_assistant, sample_use_block)])]"

lemma matching_sample: "matching sample_registry ''Read'' sample_window = [0]"
  by (simp add: matching_def sample_window_def full_def wt_located_def use_positions_def sample_turn_def
      assistant_uses_def sample_assistant_def List.map_filter_simps block_tool_use_def lift_use_def Let_def
      sample_use_block_def parse_tool_call_lossless tool_name_matches_unscoped matches_names_def
      expand_tool_names_def enumerate_eq_zip)

theorem after_before_cut_witness:
  "events sample_window = events (before sample_registry ''Read'' sample_window) @
     [events sample_window ! 0] @ events (after sample_registry ''Read'' None sample_window)"
proof -
  have "\<forall>wt\<in>set sample_window. window_ok wt" by (simp add: sample_window_def window_ok_def full_def)
  moreover have "max_of (matching sample_registry ''Read'' sample_window) = Some 0"
    by (simp add: matching_sample max_of_def)
  ultimately show ?thesis using after_before_cut by blast
qed

text \<open>The tool calls of a window. Cutting the session's events to a range keeps exactly the
  tool uses of the assistant events in that range, in order, each with its event and id.\<close>

theorem window_tool_calls:
  assumes "lift_session_refs env st sid entries openers = Some l"
  shows "map (\<lambda>u. (tl_event_uuid u, tl_tool_use_id u)) (all_items (tool_calls (windowed a b (from_lift l)))) =
     map (\<lambda>(x, tu). (uuid (as_meta x), tu_id tu)) (concat (map assistant_uses (slice a b entries)))"
proof -
  have "lifted_turn t" if t: "t \<in> set (ls_turns l)" for t
  proof -
    obtain i where "i < length (ls_turns l)" "t = ls_turns l ! i" using t by (metis in_set_conv_nth)
    then show ?thesis using lift_turns(2) [OF assms] lifted_turn_lift by simp
  qed
  then have "\<forall>wt\<in>set (from_lift l). lifted_turn (wt_turn wt)"
    by (auto simp: from_lift_def full_def)
  then have w: "\<forall>wt\<in>set (windowed a b (from_lift l)). lifted_turn (wt_turn wt)"
    using windowed_turns [of 0 a b "from_lift l"] by (auto simp: windowed_def image_subset_iff)
  have e: "events (windowed a b (from_lift l)) = slice a b entries"
    using windowed_events(1) [OF from_lift_ok] lift_events_concat [OF assms] by (simp add: from_lift_events)
  show ?thesis using tool_calls_ids [OF w] unfolding e .
qed

theorem window_tool_calls_witness:
  "\<exists>l. lift_session_refs (sample_env []) sample_registry ''s1'' [Assistant sample_assistant] None = Some l \<and>
     map (\<lambda>u. (tl_event_uuid u, tl_tool_use_id u)) (all_items (tool_calls (windowed 0 1 (from_lift l)))) =
       [(''u1'', ''t1'')]"
proof -
  obtain l where l: "lift_session_refs (sample_env []) sample_registry ''s1'' [Assistant sample_assistant] None = Some l"
    using lift_total by simp
  show ?thesis
    using l window_tool_calls [OF l, of 0 1]
    by (simp add: slice_def assistant_uses_def sample_assistant_def sample_meta_def sample_use_block_def
        List.map_filter_simps block_tool_use_def)
qed

end
