(* ===== verification/Watch.thy ===== *)
theory Watch
  imports Parse Samples "HOL-Library.List_Lexorder" "HOL-Library.Char_ord"
begin

text \<open>
  \<open>watch.rs\<close>: the live-tail cursor. The file system is an argument of a poll step: the
  stats of the discovered files (\<open>scan\<close>) and the bytes a read from an offset returns, or
  nothing on an I/O error. A modification time is a number compared for equality only. The
  panic of a failed re-serialisation inside \<open>parse_entry\<close> is read as a malformed line.
\<close>

subsection \<open>Cursors\<close>

definition SEEN_LIMIT :: nat where
  "SEEN_LIMIT = 4096"

record watch_event =
  we_path :: string
  we_session_id :: string
  we_is_sidechain :: bool
  we_event :: entry

record tail_cursor =
  tc_offset :: int
  tc_size :: int
  tc_mtime :: rat
  tc_session_id :: "string option"
  tc_seen :: "string set"
  tc_seen_order :: "string list"

definition cursor_new :: "int \<Rightarrow> int \<Rightarrow> rat \<Rightarrow> tail_cursor" where
  "cursor_new off sz mt = \<lparr>tc_offset = off, tc_size = sz, tc_mtime = mt, tc_session_id = None,
     tc_seen = {}, tc_seen_order = []\<rparr>"

definition clear_seen :: "tail_cursor \<Rightarrow> tail_cursor" where
  "clear_seen c = c\<lparr>tc_seen := {}, tc_seen_order := []\<rparr>"

text \<open>The eviction loop of \<open>remember\<close>. With an empty queue and an oversized set the source
  would spin; the cursor invariant below excludes it.\<close>

fun evict :: "string list \<Rightarrow> string set \<Rightarrow> string list \<times> string set" where
  "evict [] seen = ([], seen)"
| "evict (old # queue) seen =
     (if card seen > SEEN_LIMIT then evict queue (seen - {old}) else (old # queue, seen))"

definition remember :: "string \<Rightarrow> tail_cursor \<Rightarrow> tail_cursor" where
  "remember u c =
     (let (queue, seen) = evict (tc_seen_order c @ [u]) (insert u (tc_seen c))
      in c\<lparr>tc_seen := seen, tc_seen_order := queue\<rparr>)"

subsection \<open>Paths\<close>

definition path_components :: "string \<Rightarrow> string list" where
  "path_components path = filter (\<lambda>c. c \<noteq> []) (split_char CHR ''/'' path)"

definition file_name :: "string \<Rightarrow> string option" where
  "file_name path = (case rev (path_components path) of [] \<Rightarrow> None | c # _ \<Rightarrow> Some c)"

fun last_dot :: "nat \<Rightarrow> string \<Rightarrow> nat option" where
  "last_dot i [] = None"
| "last_dot i (c # cs) =
     (case last_dot (Suc i) cs of Some k \<Rightarrow> Some k | None \<Rightarrow> if c = CHR ''.'' then Some i else None)"

text \<open>\<open>Path::extension\<close> and \<open>Path::file_stem\<close>: split at the last dot unless it leads.\<close>

definition name_extension :: "string \<Rightarrow> string option" where
  "name_extension n = (case last_dot 0 n of Some i \<Rightarrow> if i = 0 then None else Some (drop (Suc i) n) | None \<Rightarrow> None)"

definition name_stem :: "string \<Rightarrow> string" where
  "name_stem n = (case last_dot 0 n of Some i \<Rightarrow> if i = 0 then n else take i n | None \<Rightarrow> n)"

definition is_subagent_path :: "string \<Rightarrow> bool" where
  "is_subagent_path path =
     (Option.bind (file_name path) name_extension = Some ''jsonl'' \<and>
      is_some_and (prefix ''agent-'') (file_name path))"

definition path_session_id :: "string \<Rightarrow> string" where
  "path_session_id path =
     (if is_subagent_path path
      then (case rev (path_components path) of _ # _ # grand # _ \<Rightarrow> grand | _ \<Rightarrow> [])
      else (case file_name path of Some n \<Rightarrow> name_stem n | None \<Rightarrow> []))"

subsection \<open>One line\<close>

definition is_bytes_space :: "char \<Rightarrow> bool" where
  "is_bytes_space c = (c \<in> {byte 9, byte 10, byte 11, byte 12, byte 13, byte 32})"

definition decode :: "env \<Rightarrow> string \<Rightarrow> entry option" where
  "decode env line =
     (if list_all is_bytes_space line then None
      else Option.bind (opt_filter is_object (e_from_str env line)) (\<lambda>v.
        case parse_entry env v of
          Inl _ \<Rightarrow> None
        | Inr e \<Rightarrow>
            if is_some_and (\<lambda>m. \<not> (1 \<le> e_year env (timestamp m) \<and> e_year env (timestamp m) \<le> 9999)) (meta e)
            then None else Some e))"

definition session_of :: "tail_cursor \<Rightarrow> string \<Rightarrow> entry \<Rightarrow> string \<times> tail_cursor" where
  "session_of c path e =
     (let session = opt_default (path_session_id path)
            (opt_or (opt_filter (\<lambda>s. s \<noteq> []) (session_id e))
                    (opt_filter (\<lambda>s. s \<noteq> []) (tc_session_id c)))
      in (session, c\<lparr>tc_session_id := Some session\<rparr>))"

definition emit :: "string \<Rightarrow> entry \<Rightarrow> tail_cursor \<Rightarrow> tail_cursor \<times> watch_event list" where
  "emit path e c =
     (let (session, c') = session_of c path e in
      (c', [\<lparr>we_path = path, we_session_id = session, we_is_sidechain = is_subagent_path path, we_event = e\<rparr>]))"

definition watch_line ::
  "env \<Rightarrow> string \<Rightarrow> string \<Rightarrow> tail_cursor \<Rightarrow> tail_cursor \<times> watch_event list" where
  "watch_line env path line c =
     (case decode env line of
        None \<Rightarrow> (c, [])
      | Some e \<Rightarrow> (case meta e of
            None \<Rightarrow> emit path e c
          | Some m \<Rightarrow> if uuid m \<in> tc_seen c then (c, []) else emit path e (remember (uuid m) c)))"

fun watch_lines ::
  "env \<Rightarrow> string \<Rightarrow> string list \<Rightarrow> tail_cursor \<Rightarrow> tail_cursor \<times> watch_event list" where
  "watch_lines env path [] c = (c, [])"
| "watch_lines env path (l # ls) c =
     (let (c1, e1) = watch_line env path l c; (c2, e2) = watch_lines env path ls c1 in (c2, e1 @ e2))"

subsection \<open>One file, one tick\<close>

fun last_newline :: "nat \<Rightarrow> string \<Rightarrow> nat option" where
  "last_newline i [] = None"
| "last_newline i (c # cs) =
     (case last_newline (Suc i) cs of Some k \<Rightarrow> Some k | None \<Rightarrow> if c = byte 10 then Some i else None)"

definition consume :: "env \<Rightarrow> string \<Rightarrow> string \<Rightarrow> tail_cursor \<Rightarrow> tail_cursor \<times> watch_event list" where
  "consume env path chunk c =
     (let (complete, partial) = (case last_newline 0 chunk of
             Some i \<Rightarrow> (take i chunk, drop (i + 1) chunk)
           | None \<Rightarrow> ([], chunk))
      in watch_lines env path (split_char (byte 10) complete)
           (c\<lparr>tc_offset := tc_offset c + (int (length chunk) - int (length partial))\<rparr>))"

definition poll ::
  "env \<Rightarrow> (int \<Rightarrow> string option) \<Rightarrow> string \<Rightarrow> int \<times> rat \<Rightarrow> tail_cursor \<Rightarrow> tail_cursor \<times> watch_event list" where
  "poll env read path stat c =
     (let (size, mt) = stat;
          c0 = (if size < tc_offset c then clear_seen (c\<lparr>tc_offset := 0\<rparr>) else c)
      in if \<not> size < tc_offset c \<and> size = tc_size c \<and> mt = tc_mtime c then (c, [])
         else (case read (tc_offset c0) of
             None \<Rightarrow> (c0, [])
           | Some chunk \<Rightarrow> consume env path chunk (c0\<lparr>tc_size := size, tc_mtime := mt\<rparr>)))"

record tail_state =
  ts_cursors :: "string \<rightharpoonup> tail_cursor"
  primed :: bool

definition tick_path ::
  "env \<Rightarrow> (string \<Rightarrow> int \<Rightarrow> string option) \<Rightarrow> bool \<Rightarrow> bool \<Rightarrow> string \<times> int \<times> rat \<Rightarrow>
   (string \<rightharpoonup> tail_cursor) \<times> watch_event list \<Rightarrow> (string \<rightharpoonup> tail_cursor) \<times> watch_event list" where
  "tick_path env read priming from_start ps st =
     (let (path, size, mt) = ps; (cursors, evs) = st;
          c = opt_default (if priming \<and> \<not> from_start then cursor_new size size mt else cursor_new 0 (- 1) (- 1))
                (cursors path);
          (c', new) = poll env (read path) path (size, mt) c
      in (cursors(path \<mapsto> c'), evs @ new))"

definition tick ::
  "env \<Rightarrow> (string \<Rightarrow> int \<Rightarrow> string option) \<Rightarrow> (string \<times> int \<times> rat) list \<Rightarrow> bool \<Rightarrow> tail_state \<Rightarrow>
   tail_state \<times> watch_event list" where
  "tick env read stats from_start st =
     (let (cursors, evs) = fold (tick_path env read (\<not> primed st) from_start)
            (stable_sort (by_key fst) stats) (ts_cursors st, [])
      in (\<lparr>ts_cursors = cursors, primed = True\<rparr>, evs))"

subsection \<open>The dedupe window\<close>

definition cursor_ok :: "tail_cursor \<Rightarrow> bool" where
  "cursor_ok c \<longleftrightarrow> distinct (tc_seen_order c) \<and> tc_seen c = set (tc_seen_order c) \<and>
     length (tc_seen_order c) \<le> SEEN_LIMIT"

lemma remember_ok:
  assumes "cursor_ok c" "u \<notin> tc_seen c"
  shows "remember u c = c\<lparr>tc_seen := set (drop (length (tc_seen_order c) + 1 - SEEN_LIMIT) (tc_seen_order c @ [u])),
      tc_seen_order := drop (length (tc_seen_order c) + 1 - SEEN_LIMIT) (tc_seen_order c @ [u])\<rparr>"
proof -
  let ?q = "tc_seen_order c"
  have d: "distinct (?q @ [u])" and len: "length ?q \<le> SEEN_LIMIT" and s: "tc_seen c = set ?q"
    using assms by (auto simp: cursor_ok_def)
  have card: "card (insert u (set ?q)) = Suc (length ?q)"
    using d by (simp add: distinct_card)
  show ?thesis
  proof (cases "length ?q = SEEN_LIMIT")
    case False
    then have "Suc (length ?q) \<le> SEEN_LIMIT" using len by simp
    then have "evict (?q @ [u]) (insert u (set ?q)) = (?q @ [u], insert u (set ?q))"
      using card by (cases ?q) auto
    then show ?thesis using False len by (simp add: remember_def s)
  next
    case True
    then obtain x xs where q: "?q = x # xs" by (cases ?q) (auto simp: SEEN_LIMIT_def)
    have rest: "insert u (set ?q) - {x} = set (xs @ [u])" using d q by auto
    have "card (set (xs @ [u])) = SEEN_LIMIT" using d q True by (simp add: distinct_card)
    then have "evict (xs @ [u]) (set (xs @ [u])) = (xs @ [u], set (xs @ [u]))"
      by (cases xs) auto
    then have "evict (?q @ [u]) (insert u (set ?q)) = (xs @ [u], set (xs @ [u]))"
      using card True rest by (simp add: q)
    moreover have "drop (length ?q + 1 - SEEN_LIMIT) (?q @ [u]) = xs @ [u]" using q True by simp
    ultimately show ?thesis by (simp add: remember_def s)
  qed
qed

lemma cursor_ok_remember: "cursor_ok c \<Longrightarrow> u \<notin> tc_seen c \<Longrightarrow> cursor_ok (remember u c)"
  by (subst remember_ok) (auto simp del: drop_append simp: cursor_ok_def distinct_drop)

lemma session_of_fields [simp]:
  "tc_seen (snd (session_of c p e)) = tc_seen c" "tc_seen_order (snd (session_of c p e)) = tc_seen_order c"
  "tc_offset (snd (session_of c p e)) = tc_offset c"
  by (simp_all add: session_of_def Let_def)

lemma emit_fields [simp]:
  "tc_seen (fst (emit p e c)) = tc_seen c" "tc_seen_order (fst (emit p e c)) = tc_seen_order c"
  "map we_event (snd (emit p e c)) = [e]" "tc_offset (fst (emit p e c)) = tc_offset c"
  by (simp_all add: emit_def case_prod_unfold Let_def)

lemma cursor_ok_emit [simp]: "cursor_ok (fst (emit p e c)) = cursor_ok c"
  by (simp add: cursor_ok_def)

lemma watch_line_ok: "cursor_ok c \<Longrightarrow> cursor_ok (fst (watch_line env path l c))"
  by (auto simp: watch_line_def cursor_ok_remember split: option.split)

lemma watch_lines_ok: "cursor_ok c \<Longrightarrow> cursor_ok (fst (watch_lines env path ls c))"
  by (induction ls arbitrary: c) (auto simp: case_prod_unfold Let_def watch_line_ok)

lemma cursor_ok_update [simp]:
  "cursor_ok (c\<lparr>tc_offset := x\<rparr>) = cursor_ok c" "cursor_ok (c\<lparr>tc_size := y\<rparr>) = cursor_ok c"
  "cursor_ok (c\<lparr>tc_mtime := z\<rparr>) = cursor_ok c" "cursor_ok (clear_seen c)"
  by (simp_all add: cursor_ok_def clear_seen_def)

lemma poll_ok: "cursor_ok c \<Longrightarrow> cursor_ok (fst (poll env read path stat c))"
  by (auto simp: poll_def consume_def watch_lines_ok case_prod_unfold Let_def split: option.split)

definition state_ok :: "tail_state \<Rightarrow> bool" where
  "state_ok st \<longleftrightarrow> (\<forall>c\<in>ran (ts_cursors st). cursor_ok c)"

lemma tick_path_ok:
  assumes "\<forall>c\<in>ran (fst st). cursor_ok c"
  shows "\<forall>c\<in>ran (fst (tick_path env read priming from_start ps st)). cursor_ok c"
proof -
  obtain path size mt where ps: "ps = (path, size, mt)" by (cases ps) auto
  let ?c = "opt_default (if priming \<and> \<not> from_start then cursor_new size size mt else cursor_new 0 (- 1) (- 1))
      (fst st path)"
  have new: "cursor_ok (cursor_new a b m)" for a b m by (simp add: cursor_ok_def cursor_new_def)
  have "cursor_ok ?c" using assms new by (cases "fst st path") (auto intro: ranI)
  then have "cursor_ok (fst (poll env (read path) path (size, mt) ?c))" by (rule poll_ok)
  then show ?thesis
    using assms by (auto simp: tick_path_def ps case_prod_unfold Let_def ran_def split: if_splits)
qed

lemma tick_ok: "state_ok st \<Longrightarrow> state_ok (fst (tick env read stats from_start st))"
proof -
  have "\<forall>c\<in>ran (fst (fold (tick_path env read pr fs) xs s)). cursor_ok c"
    if "\<forall>c\<in>ran (fst s). cursor_ok c" for pr fs xs s
    using that
  proof (induction xs arbitrary: s)
    case (Cons x xs)
    show ?case using Cons.IH [OF tick_path_ok [OF Cons.prems, of env read pr fs x]] by simp
  qed simp
  from this [of "(ts_cursors st, [])"] show "state_ok st \<Longrightarrow> state_ok (fst (tick env read stats from_start st))"
    by (simp add: state_ok_def tick_def case_prod_unfold Let_def)
qed


subsection \<open>Chunks and lines\<close>

lemma last_newline_None [simp]: "(last_newline i s = None) = (byte 10 \<notin> set s)"
proof (induction s arbitrary: i)
  case (Cons c s)
  show ?case using Cons [of "Suc i"] by (cases "last_newline (Suc i) s") auto
qed simp

lemma last_newline_absent [simp]: "byte 10 \<notin> set s \<Longrightarrow> last_newline i s = None" by simp

lemma last_newline_append:
  "byte 10 \<notin> set p \<Longrightarrow> last_newline i (b @ byte 10 # p) = Some (i + length b)"
  by (induction b arbitrary: i) simp_all

text \<open>A chunk is the complete lines \<open>a\<close>, each closed by its newline, and an open rest \<open>p\<close>.\<close>

definition whole_lines :: "string \<Rightarrow> bool" where
  "whole_lines a \<longleftrightarrow> a = [] \<or> last a = byte 10"

lemma chunk_split: "\<exists>a p. chunk = a @ p \<and> whole_lines a \<and> byte 10 \<notin> set p"
proof (cases "byte 10 \<in> set chunk")
  case True
  then obtain b p where "chunk = b @ byte 10 # p" "byte 10 \<notin> set p" by (metis split_list_last)
  then have "chunk = (b @ [byte 10]) @ p \<and> whole_lines (b @ [byte 10]) \<and> byte 10 \<notin> set p"
    by (simp add: whole_lines_def)
  then show ?thesis by blast
qed (auto simp: whole_lines_def)

lemma split_char_app_sep: "split_char d (b @ d # s) = split_char d b @ split_char d s"
proof (induction b)
  case (Cons c b)
  have ne: "split_char d b \<noteq> []" by simp
  then show ?case using Cons by (cases "split_char d b") auto
qed simp

lemma decode_Nil [simp]: "decode env [] = None" by (simp add: decode_def)

lemma watch_line_Nil [simp]: "watch_line env path [] c = (c, [])" by (simp add: watch_line_def)

lemma watch_lines_append:
  "watch_lines env path (xs @ ys) c =
     (let (c1, e1) = watch_lines env path xs c; (c2, e2) = watch_lines env path ys c1 in (c2, e1 @ e2))"
  by (induction xs arbitrary: c) (auto simp: case_prod_unfold Let_def)

lemma watch_lines_blank [simp]: "watch_lines env path [[]] c = (c, [])" by simp

lemma consume_split:
  assumes "whole_lines a" "byte 10 \<notin> set p"
  shows "consume env path (a @ p) c =
    watch_lines env path (split_char (byte 10) a) (c\<lparr>tc_offset := tc_offset c + int (length a)\<rparr>)"
proof (cases "a = []")
  case True
  then show ?thesis using assms by (simp add: consume_def)
next
  case False
  then obtain b where a: "a = b @ [byte 10]"
    using assms(1) by (metis append_butlast_last_id whole_lines_def)
  have l: "last_newline 0 (b @ byte 10 # p) = Some (length b)"
    using last_newline_append [OF assms(2), of 0 b] by simp
  have "watch_lines env path (split_char (byte 10) a) c' = watch_lines env path (split_char (byte 10) b) c'" for c'
    by (simp add: a split_char_app_sep [where s = "[]"] watch_lines_append case_prod_unfold Let_def)
  then show ?thesis by (simp add: consume_def l a add.assoc)
qed

lemma watch_line_frame:
  "fst (watch_line env path l (c\<lparr>tc_offset := x\<rparr>)) = (fst (watch_line env path l c))\<lparr>tc_offset := x\<rparr>"
  "snd (watch_line env path l (c\<lparr>tc_offset := x\<rparr>)) = snd (watch_line env path l c)"
  "tc_offset (fst (watch_line env path l c)) = tc_offset c"
  by (auto simp: watch_line_def emit_def session_of_def remember_def case_prod_unfold Let_def split: option.split)

lemma watch_lines_frame:
  "fst (watch_lines env path ls (c\<lparr>tc_offset := x\<rparr>)) = (fst (watch_lines env path ls c))\<lparr>tc_offset := x\<rparr>"
  "snd (watch_lines env path ls (c\<lparr>tc_offset := x\<rparr>)) = snd (watch_lines env path ls c)"
  "tc_offset (fst (watch_lines env path ls c)) = tc_offset c"
  by (induction ls arbitrary: c) (simp_all add: case_prod_unfold Let_def watch_line_frame)


lemma consume_offset:
  "whole_lines a \<Longrightarrow> byte 10 \<notin> set p \<Longrightarrow>
   tc_offset (fst (consume env path (a @ p) c)) = tc_offset c + int (length a)"
  by (simp add: consume_split watch_lines_frame)

lemma whole_lines_append: "whole_lines a \<Longrightarrow> whole_lines b \<Longrightarrow> whole_lines (a @ b)"
  by (auto simp: whole_lines_def last_append)

lemma watch_lines_whole:
  assumes "whole_lines a"
  shows "watch_lines env path (split_char (byte 10) (a @ b)) c =
    watch_lines env path (split_char (byte 10) a @ split_char (byte 10) b) c"
proof (cases "a = []")
  case True
  then show ?thesis by (simp add: watch_lines_append [of _ _ "[[]]", simplified])
next
  case False
  then obtain d where a: "a = d @ [byte 10]" using assms by (metis append_butlast_last_id whole_lines_def)
  show ?thesis
    by (simp add: a split_char_app_sep split_char_app_sep [where s = "[]"] watch_lines_append case_prod_unfold Let_def)
qed

text \<open>Consuming a chunk and then the rest of the file is consuming both at once.\<close>

lemma consume_compose:
  assumes w: "whole_lines a" and p: "byte 10 \<notin> set p"
  shows "consume env path (a @ p @ rest) c =
    (let (c1, e1) = consume env path (a @ p) c; (c2, e2) = consume env path (p @ rest) c1 in (c2, e1 @ e2))"
proof -
  obtain b q where b: "p @ rest = b @ q" "whole_lines b" "byte 10 \<notin> set q"
    using chunk_split by blast
  let ?L = "\<lambda>s. watch_lines env path (split_char (byte 10) s)"
  have whole: "consume env path (a @ p @ rest) c = ?L (a @ b) (c\<lparr>tc_offset := tc_offset c + int (length (a @ b))\<rparr>)"
    using consume_split [OF whole_lines_append [OF w b(2)] b(3)] by (simp add: b(1))
  have first: "consume env path (a @ p) c = ?L a (c\<lparr>tc_offset := tc_offset c + int (length a)\<rparr>)"
    by (rule consume_split [OF w p])
  show ?thesis
    unfolding whole first
    unfolding b(1) consume_split [OF b(2,3)]
    by (simp add: watch_lines_whole [OF w] watch_lines_append watch_lines_frame case_prod_unfold Let_def ac_simps)
qed

definition read_text :: "string \<Rightarrow> int \<Rightarrow> string option" where
  "read_text text off = Some (drop (nat off) text)"

lemma poll_read:
  assumes "tc_offset c \<le> sz" "(sz, mt) \<noteq> (tc_size c, tc_mtime c)"
  shows "poll env (read_text text) path (sz, mt) c =
    consume env path (drop (nat (tc_offset c)) text) (c\<lparr>tc_size := sz, tc_mtime := mt\<rparr>)"
  using assms by (auto simp: poll_def read_text_def Let_def)

lemma consume_frame:
  "consume env path s (c\<lparr>tc_size := x, tc_mtime := y\<rparr>) =
     (let (c', e) = consume env path s c in (c'\<lparr>tc_size := x, tc_mtime := y\<rparr>, e))"
proof -
  have line: "watch_line env path l (c\<lparr>tc_size := x, tc_mtime := y\<rparr>) =
     (let (c', e) = watch_line env path l c in (c'\<lparr>tc_size := x, tc_mtime := y\<rparr>, e))" for l c
    by (auto simp: watch_line_def emit_def session_of_def remember_def case_prod_unfold Let_def split: option.split)
  have lines: "watch_lines env path ls (c\<lparr>tc_size := x, tc_mtime := y\<rparr>) =
     (let (c', e) = watch_lines env path ls c in (c'\<lparr>tc_size := x, tc_mtime := y\<rparr>, e))" for ls c
    by (induction ls arbitrary: c) (simp_all add: line case_prod_unfold Let_def)
  obtain a p where s: "s = a @ p" "whole_lines a" "byte 10 \<notin> set p" using chunk_split by blast
  have com: "c\<lparr>tc_size := x, tc_mtime := y, tc_offset := z\<rparr> = c\<lparr>tc_offset := z, tc_size := x, tc_mtime := y\<rparr>" for z
    by simp
  show ?thesis by (simp add: s(1) consume_split [OF s(2,3)] lines com del: tail_cursor.update_convs)
qed


subsection \<open>The schedule of the polls does not matter\<close>

text \<open>C11: Poll independence. Polling a file while it holds a text and polling it again once the
  text has grown yields the same events in the same order and leaves the same cursor as one poll
  of the grown text, wherever the first read cuts a line. The polls see changed stats.\<close>

theorem tail_polls_compose:
  assumes "0 \<le> tc_offset c" "tc_offset c \<le> int (length text)"
    and "(int (length text), m1) \<noteq> (tc_size c, tc_mtime c)"
    and "(int (length (text @ rest)), m2) \<noteq> (tc_size c, tc_mtime c)"
    and "(int (length (text @ rest)), m2) \<noteq> (int (length text), m1)"
  shows "(let (c1, e1) = poll env (read_text text) path (int (length text), m1) c;
              (c2, e2) = poll env (read_text (text @ rest)) path (int (length (text @ rest)), m2) c1
          in (c2, e1 @ e2)) =
    poll env (read_text (text @ rest)) path (int (length (text @ rest)), m2) c"
proof -
  let ?o = "nat (tc_offset c)"
  obtain a p where ap: "drop ?o text = a @ p" "whole_lines a" "byte 10 \<notin> set p" using chunk_split by blast
  have o: "?o \<le> length text" using assms by simp
  let ?t = "text @ rest" and ?s1 = "int (length text)" and ?s2 = "int (length (text @ rest))"
  let ?c1 = "fst (consume env path (a @ p) c)"
  let ?u = "\<lambda>c x y. c\<lparr>tc_size := x, tc_mtime := y\<rparr>"
  have first: "poll env (read_text text) path (?s1, m1) c =
      (?u ?c1 ?s1 m1, snd (consume env path (a @ p) c))"
    using assms by (subst poll_read) (simp_all add: ap(1) consume_frame case_prod_unfold Let_def)
  have off: "tc_offset ?c1 = tc_offset c + int (length a)" by (rule consume_offset [OF ap(2,3)])
  have len: "length text - ?o = length a + length p" using ap(1) by (metis length_append length_drop)
  have off': "nat (tc_offset ?c1) = ?o + length a" "tc_offset ?c1 \<le> ?s2"
    using off assms(1,2) len o by auto
  have rest: "drop (nat (tc_offset ?c1)) ?t = p @ rest"
  proof -
    have "drop (nat (tc_offset ?c1)) ?t = drop (length a) (drop ?o ?t)" unfolding off'(1) drop_drop by (simp add: add.commute)
    also have "drop ?o ?t = drop ?o text @ rest" using o by simp
    also have "drop (length a) \<dots> = p @ rest" by (simp add: ap(1))
    finally show ?thesis .
  qed
  have ref: "poll env (read_text ?t) path (?s2, m2) (?u ?c1 ?s1 m1) =
      consume env path (p @ rest) (?u ?c1 ?s2 m2)"
    using assms off' rest by (subst poll_read) simp_all
  have whole: "poll env (read_text ?t) path (?s2, m2) c = consume env path (a @ p @ rest) (?u c ?s2 m2)"
    using assms o ap(1) by (subst poll_read) simp_all
  show ?thesis
    unfolding first prod.case Let_def ref whole consume_compose [OF ap(2,3)]
    by (simp add: consume_frame case_prod_unfold Let_def)
qed

subsection \<open>Each uuid once\<close>

definition event_uuids :: "entry list \<Rightarrow> string list" where
  "event_uuids es = List.map_filter (\<lambda>e. map_option uuid (meta e)) es"

lemma event_uuids_simps [simp]:
  "event_uuids [] = []" "event_uuids (xs @ ys) = event_uuids xs @ event_uuids ys"
  "event_uuids (e # es) = opt_list (map_option uuid (meta e)) @ event_uuids es"
  by (cases "meta e"; simp add: event_uuids_def map_filter_def)+

text \<open>The reference: an entry with a uuid passes at its first occurrence only.\<close>

fun unseen :: "string set \<Rightarrow> entry list \<Rightarrow> entry list" where
  "unseen seen [] = []"
| "unseen seen (e # es) =
     (case meta e of
        None \<Rightarrow> e # unseen seen es
      | Some m \<Rightarrow> if uuid m \<in> seen then unseen seen es else e # unseen (insert (uuid m) seen) es)"

lemma unseen_uuids: "distinct (event_uuids (unseen seen es)) \<and> set (event_uuids (unseen seen es)) \<inter> seen = {}"
proof (induction seen es rule: unseen.induct)
  case (2 seen e es)
  then show ?case by (cases "meta e") auto
qed simp

lemma unseen_all: "uuid m \<in> insert_uuids \<union> set (event_uuids (unseen insert_uuids es))"
  if "e \<in> set es" "meta e = Some m"
  using that
proof (induction insert_uuids es rule: unseen.induct)
  case (2 seen x es)
  then show ?case by (cases "meta x") (auto split: if_splits)
qed simp

definition last_window :: "string list \<Rightarrow> string list" where
  "last_window q = drop (length q - SEEN_LIMIT) q"

lemma last_window_short [simp]: "length q \<le> SEEN_LIMIT \<Longrightarrow> last_window q = q"
  by (simp add: last_window_def)

lemma last_window_twice: "last_window (last_window xs @ ys) = last_window (xs @ ys)"
  by (cases "length xs \<le> SEEN_LIMIT") (simp_all add: last_window_def add.commute)

lemma remember_order:
  "cursor_ok c \<Longrightarrow> u \<notin> tc_seen c \<Longrightarrow> tc_seen_order (remember u c) = last_window (tc_seen_order c @ [u])"
  by (simp add: remember_ok last_window_def del: drop_append)

lemma watch_line_window:
  assumes "cursor_ok c"
  shows "tc_seen_order (fst (watch_line env path l c)) =
    last_window (tc_seen_order c @ event_uuids (map we_event (snd (watch_line env path l c))))"
proof -
  have "last_window (tc_seen_order c) = tc_seen_order c" using assms by (simp add: cursor_ok_def)
  then show ?thesis using assms by (auto simp: watch_line_def remember_order split: option.split)
qed

lemma watch_lines_window:
  assumes "cursor_ok c"
  shows "tc_seen_order (fst (watch_lines env path ls c)) =
    last_window (tc_seen_order c @ event_uuids (map we_event (snd (watch_lines env path ls c))))"
  using assms
proof (induction ls arbitrary: c)
  case Nil
  then show ?case by (simp add: cursor_ok_def)
next
  case (Cons l ls)
  show ?case
    using Cons.IH [OF watch_line_ok [OF Cons.prems], of env path l]
    by (simp add: case_prod_unfold Let_def watch_line_window [OF Cons.prems] last_window_twice)
qed

text \<open>Within one dedupe window the events are the decoded entries at their first occurrence.\<close>

definition decoded :: "env \<Rightarrow> string list \<Rightarrow> entry list" where
  "decoded env ls = List.map_filter (decode env) ls"

lemma decoded_simps [simp]:
  "decoded env [] = []" "decoded env (l # ls) = opt_list (decode env l) @ decoded env ls"
  by (cases "decode env l"; simp add: decoded_def map_filter_def)+

lemma watch_lines_unseen:
  assumes "cursor_ok c" "length (tc_seen_order c) + length ls \<le> SEEN_LIMIT"
  shows "map we_event (snd (watch_lines env path ls c)) = unseen (tc_seen c) (decoded env ls)"
  using assms
proof (induction ls arbitrary: c)
  case (Cons l ls)
  let ?c = "fst (watch_line env path l c)"
  have len: "length (tc_seen_order ?c) + length ls \<le> SEEN_LIMIT"
    using Cons.prems by (auto simp: watch_line_def remember_order split: option.split)
  have seen: "tc_seen ?c = tc_seen c \<union> set (event_uuids (map we_event (snd (watch_line env path l c))))"
    using Cons.prems by (auto simp: watch_line_def remember_ok cursor_ok_def split: option.split)
  note IH = Cons.IH [OF watch_line_ok [OF Cons.prems(1)] len]
  show ?case
  proof (cases "decode env l")
    case None
    then have "watch_line env path l c = (c, [])" by (simp add: watch_line_def)
    then show ?thesis using IH None by simp
  next
    case (Some e)
    then have "map we_event (snd (watch_line env path l c)) =
        (case meta e of None \<Rightarrow> [e] | Some m \<Rightarrow> if uuid m \<in> tc_seen c then [] else [e])"
      by (auto simp: watch_line_def split: option.split)
    then show ?thesis
      using IH seen Some by (auto simp: case_prod_unfold Let_def split: option.split)
  qed
qed simp


subsection \<open>A tick over all files\<close>

definition start_cursor :: "bool \<Rightarrow> (string \<rightharpoonup> tail_cursor) \<Rightarrow> string \<times> int \<times> rat \<Rightarrow> tail_cursor" where
  "start_cursor eof cursors ps =
     opt_default (if eof then cursor_new (fst (snd ps)) (fst (snd ps)) (snd (snd ps)) else cursor_new 0 (- 1) (- 1))
       (cursors (fst ps))"

definition poll_path ::
  "env \<Rightarrow> (string \<Rightarrow> int \<Rightarrow> string option) \<Rightarrow> bool \<Rightarrow> (string \<rightharpoonup> tail_cursor) \<Rightarrow> string \<times> int \<times> rat \<Rightarrow>
   tail_cursor \<times> watch_event list" where
  "poll_path env read eof cursors ps =
     poll env (read (fst ps)) (fst ps) (snd ps) (start_cursor eof cursors ps)"

lemma tick_path_poll:
  "tick_path env read pr fs ps (cs, evs) =
     (cs(fst ps \<mapsto> fst (poll_path env read (pr \<and> \<not> fs) cs ps)), evs @ snd (poll_path env read (pr \<and> \<not> fs) cs ps))"
  by (simp add: tick_path_def poll_path_def start_cursor_def case_prod_unfold Let_def)

lemma fold_tick_path:
  assumes "distinct (map fst ps)"
  shows "fold (tick_path env read pr fs) ps (cs, evs) =
    ((\<lambda>x. if x \<in> fst ` set ps then map_of (map (\<lambda>q. (fst q, fst (poll_path env read (pr \<and> \<not> fs) cs q))) ps) x else cs x),
     evs @ concat (map (\<lambda>q. snd (poll_path env read (pr \<and> \<not> fs) cs q)) ps))"
  using assms
proof (induction ps arbitrary: cs evs)
  case (Cons q ps)
  let ?e = "pr \<and> \<not> fs"
  let ?cs = "cs(fst q \<mapsto> fst (poll_path env read ?e cs q))"
  have other: "poll_path env read ?e ?cs r = poll_path env read ?e cs r" if "r \<in> set ps" for r
  proof -
    have "fst q \<notin> fst ` set ps" using Cons.prems by simp
    then have "fst r \<noteq> fst q" using imageI [OF that, of fst] by metis
    then show ?thesis by (simp add: poll_path_def start_cursor_def)
  qed
  have maps: "map (\<lambda>q. (fst q, fst (poll_path env read ?e ?cs q))) ps =
      map (\<lambda>q. (fst q, fst (poll_path env read ?e cs q))) ps"
    "map (\<lambda>q. snd (poll_path env read ?e ?cs q)) ps = map (\<lambda>q. snd (poll_path env read ?e cs q)) ps"
    using other by auto
  have notin: "fst q \<notin> fst ` set ps" using Cons.prems by auto
  have tl: "distinct (map fst ps)" using Cons.prems by simp
  show ?case
    unfolding fold_simps tick_path_poll Cons.IH [OF tl] maps using notin by (auto simp: fun_eq_iff)
qed simp

lemma poll_no_reset:
  assumes "tc_offset c \<le> sz" "(sz, mt) \<noteq> (tc_size c, tc_mtime c)" "read (tc_offset c) = Some (a @ p)"
    "whole_lines a" "byte 10 \<notin> set p"
  shows "poll env read path (sz, mt) c = watch_lines env path (split_char (byte 10) a)
     (c\<lparr>tc_size := sz, tc_mtime := mt, tc_offset := tc_offset c + int (length a)\<rparr>)"
  using assms by (auto simp: poll_def consume_split Let_def)

text \<open>Each appended event is yielded once. Draining the complete lines of an appended chunk
  yields events with the entries the lines decode to, in order, each uuid only at its first
  occurrence and none that the cursor has yielded within its window; afterwards the cursor
  remembers exactly the last 4096 yielded uuids, and its offset is the end of the last complete
  line.\<close>

theorem watch_yields_unseen:
  assumes "cursor_ok c" "tc_offset c \<le> sz" "(sz, mt) \<noteq> (tc_size c, tc_mtime c)"
    and "read (tc_offset c) = Some (a @ p)" "whole_lines a" "byte 10 \<notin> set p"
  shows "(let (c', evs) = poll env read path (sz, mt) c; lines = split_char (byte 10) a in
     cursor_ok c' \<and> tc_offset c' = tc_offset c + int (length a) \<and>
     tc_seen_order c' = last_window (tc_seen_order c @ event_uuids (map we_event evs)) \<and>
     (length (tc_seen_order c) + length lines \<le> SEEN_LIMIT \<longrightarrow>
        map we_event evs = unseen (tc_seen c) (decoded env lines) \<and>
        distinct (event_uuids (map we_event evs)) \<and>
        set (event_uuids (map we_event evs)) \<inter> tc_seen c = {}))"
proof -
  let ?c = "c\<lparr>tc_size := sz, tc_mtime := mt, tc_offset := tc_offset c + int (length a)\<rparr>"
  have ok: "cursor_ok ?c" using assms(1) by simp
  show ?thesis
    unfolding poll_no_reset [of c sz mt read a p env path, OF assms(2-6)]
    using watch_lines_ok [OF ok, of env path "split_char (byte 10) a"]
      watch_lines_window [OF ok, of env path "split_char (byte 10) a"]
      watch_lines_unseen [OF ok, of "split_char (byte 10) a" env path]
      unseen_uuids [of "tc_seen c" "decoded env (split_char (byte 10) a)"]
    by (simp add: case_prod_unfold Let_def watch_lines_frame(3))
qed

text \<open>A tick polls every file on its own. With one stat per path, a tick leaves at each
  discovered path the cursor of polling that file from its previous cursor (or from a fresh one,
  at the end of the file on the priming pass), leaves every other cursor, returns the events of
  the files in ascending path order, and keeps every cursor's dedupe window well formed and
  within its bound.\<close>

theorem tick_polls_files:
  assumes "distinct (map fst stats)" "state_ok st"
  shows "(let (st', evs) = tick env read stats from_start st;
              run = poll_path env read (\<not> primed st \<and> \<not> from_start) (ts_cursors st);
              order = stable_sort (by_key fst) stats
          in primed st' \<and> state_ok st' \<and> sorted (map fst order) \<and> set order = set stats \<and>
             evs = concat (map (\<lambda>q. snd (run q)) order) \<and>
             list_all (\<lambda>q. ts_cursors st' (fst q) = Some (fst (run q))) stats \<and>
             (\<forall>x. x \<notin> fst ` set stats \<longrightarrow> ts_cursors st' x = ts_cursors st x))"
proof -
  let ?order = "stable_sort (by_key fst) stats"
  let ?run = "poll_path env read (\<not> primed st \<and> \<not> from_start) (ts_cursors st)"
  have d: "distinct (map fst ?order)"
    using assms(1) by (metis distinct_map distinct_stable_sort set_stable_sort)
  have tick: "tick env read stats from_start st = (\<lparr>ts_cursors =
      (\<lambda>x. if x \<in> fst ` set stats then map_of (map (\<lambda>q. (fst q, fst (?run q))) ?order) x else ts_cursors st x),
      primed = True\<rparr>, concat (map (\<lambda>q. snd (?run q)) ?order))"
    unfolding tick_def fold_tick_path [OF d] by simp
  have at: "map_of (map (\<lambda>q. (fst q, fst (?run q))) ?order) (fst q) = Some (fst (?run q))" if "q \<in> set stats" for q
  proof (rule map_of_is_SomeI)
    show "distinct (map fst (map (\<lambda>q. (fst q, fst (?run q))) ?order))" using d by (simp add: comp_def)
    show "(fst q, fst (?run q)) \<in> set (map (\<lambda>q. (fst q, fst (?run q))) ?order)" using that by simp
  qed
  have sorted: "sorted (map fst ?order)"
    using key_asc.sorted_stable_sort [where f = fst and xs = stats] 
    unfolding sorted_map by_key_def [abs_def] .
  have "state_ok (fst (tick env read stats from_start st))" by (rule tick_ok [OF assms(2)])
  then show ?thesis
    using sorted at unfolding tick Let_def prod.case by (auto simp: list_all_iff)
qed


subsection \<open>Witnesses\<close>

definition sample_watch_env :: env where
  "sample_watch_env = sample_env [(''m'', sample_mode_line), (''u'', sample_system_line)]"

definition sample_text :: string where
  "sample_text = ''m'' @ byte 10 # ''u'' @ [byte 10]"

definition sample_cursor :: tail_cursor where
  "sample_cursor = cursor_new 0 (- 1) (- 1)"

lemma sample_cursor_simps [simp]:
  "tc_offset sample_cursor = 0" "tc_size sample_cursor = - 1" "tc_mtime sample_cursor = - 1"
  "tc_seen_order sample_cursor = []" "cursor_ok sample_cursor"
  by (simp_all add: sample_cursor_def cursor_new_def cursor_ok_def)

theorem tail_polls_compose_witness:
  "(let (c1, e1) = poll sample_watch_env (read_text ''mu'') ''/p/s.jsonl'' (2, 1) sample_cursor;
        (c2, e2) = poll sample_watch_env (read_text (''mu'' @ sample_text)) ''/p/s.jsonl''
          (int (length (''mu'' @ sample_text)), 1) c1
    in (c2, e1 @ e2)) =
   poll sample_watch_env (read_text (''mu'' @ sample_text)) ''/p/s.jsonl''
     (int (length (''mu'' @ sample_text)), 1) sample_cursor"
  using tail_polls_compose [of sample_cursor "''mu''" 1 sample_text 1 sample_watch_env "''/p/s.jsonl''"]
  by (simp add: sample_text_def)

theorem watch_yields_unseen_witness:
  "cursor_ok (fst (poll sample_watch_env (\<lambda>_. Some (sample_text @ ''m'')) ''/p/s.jsonl'' (5, 1) sample_cursor))"
proof -
  have w: "whole_lines sample_text" "byte 10 \<notin> set ''m''"
    by (simp_all add: sample_text_def whole_lines_def byte_eval)
  show ?thesis
    using watch_yields_unseen [OF sample_cursor_simps(5) _ _ _ w, of 5 1 "\<lambda>_. Some (sample_text @ ''m'')"
        sample_watch_env "''/p/s.jsonl''"]
    by (simp add: case_prod_unfold Let_def)
qed

theorem tick_polls_files_witness:
  "state_ok (fst (tick sample_watch_env (\<lambda>_ _. Some sample_text) [(''/p/b.jsonl'', 4, 1), (''/p/a.jsonl'', 4, 1)] True
     \<lparr>ts_cursors = Map.empty, primed = False\<rparr>))"
  using tick_polls_files [of "[(''/p/b.jsonl'', 4, 1), (''/p/a.jsonl'', 4, 1)]" "\<lparr>ts_cursors = Map.empty, primed = False\<rparr>"
      sample_watch_env "\<lambda>_ _. Some sample_text" True]
  by (simp add: state_ok_def case_prod_unfold Let_def)

end
