(* ===== verification/Rng.thy ===== *)
theory Rng
  imports Prelude "HOL-Library.Word"
begin

text \<open>
  \<open>rng.rs\<close>: the splitmix64 generator on 64-bit words, rejection sampling below a bound,
  and the partial Fisher-Yates draw. The rejection loop has no bound in the source; it is an
  option-valued partial function here, and that it returns is a theorem: the output of the
  generator is a bijection of its state and the state runs through all words.
\<close>

unbundle bit_operations_syntax

type_synonym u64 = "64 word"

definition GOLDEN :: u64 where "GOLDEN = 0x9E3779B97F4A7C15"
definition MIX1 :: u64 where "MIX1 = 0xBF58476D1CE4E5B9"
definition MIX2 :: u64 where "MIX2 = 0x94D049BB133111EB"

text \<open>The avalanche mix of \<open>next_u64\<close>, and a step of the generator.\<close>

definition mix :: "u64 \<Rightarrow> u64" where
  "mix s =
     (let z1 = (s XOR drop_bit 30 s) * MIX1;
          z2 = (z1 XOR drop_bit 27 z1) * MIX2
      in z2 XOR drop_bit 31 z2)"

definition next_u64 :: "u64 \<Rightarrow> u64 \<times> u64" where
  "next_u64 state = (let s = state + GOLDEN in (mix s, s))"

definition threshold :: "u64 \<Rightarrow> u64" where
  "threshold bound = (- bound) mod bound"

partial_function (option) uniform_below :: "u64 \<Rightarrow> u64 \<Rightarrow> (u64 \<times> u64) option" where
  "uniform_below state bound =
     (let (draw, state') = next_u64 state in
      if threshold bound \<le> draw then Some (draw mod bound, state')
      else uniform_below state' bound)"

subsection \<open>The mix is a bijection\<close>

lemma xorshift_inj:
  fixes z w :: "'a::len word"
  assumes "z XOR drop_bit k z = w XOR drop_bit k w" "0 < k"
  shows "z = w"
proof (rule bit_word_eqI)
  have step: "bit z n = bit w n" if "bit z (n + k) = bit w (n + k)" for n
  proof -
    have "bit (z XOR drop_bit k z) n = bit (w XOR drop_bit k w) n" using assms(1) by simp
    then show ?thesis using that by (auto simp: bit_simps add.commute)
  qed
  have "bit z n = bit w n" if "m = LENGTH('a) - n" for n m
    using that
  proof (induction m arbitrary: n rule: less_induct)
    case (less m)
    show ?case
    proof (cases "n < LENGTH('a)")
      case True
      then have "LENGTH('a) - (n + k) < m" using less.prems assms(2) by linarith
      then show ?thesis using less.IH step by blast
    next
      case False
      then show ?thesis by (metis bit_word.rep_eq)
    qed
  qed
  then show "\<And>n. n < LENGTH('a) \<Longrightarrow> bit z n = bit w n" by blast
qed

lemma MIX1_inverse: "MIX1 * 0x96de1b173f119089 = 1"
  by (simp add: MIX1_def)

lemma MIX2_inverse: "MIX2 * 0x319642b2d24d8ec3 = 1"
  by (simp add: MIX2_def)

lemma GOLDEN_inverse: "GOLDEN * 0xf1de83e19937733d = 1"
  by (simp add: GOLDEN_def)

lemma times_inj:
  fixes c :: "'a::len word"
  assumes "c * d = 1" "x * c = y * c"
  shows "x = y"
proof -
  have "x * (c * d) = y * (c * d)" using assms(2) by (metis mult.assoc)
  then show ?thesis by (simp add: assms(1))
qed

lemma inj_mix: "inj mix"
proof (rule injI)
  fix s t assume m: "mix s = mix t"
  let ?z1 = "\<lambda>s. (s XOR drop_bit 30 s) * MIX1" and ?z2 = "\<lambda>z. (z XOR drop_bit 27 z) * MIX2"
  have "?z2 (?z1 s) XOR drop_bit 31 (?z2 (?z1 s)) = ?z2 (?z1 t) XOR drop_bit 31 (?z2 (?z1 t))"
    using m by (simp add: mix_def Let_def)
  then have "?z2 (?z1 s) = ?z2 (?z1 t)" by (rule xorshift_inj) simp
  then have "?z1 s XOR drop_bit 27 (?z1 s) = ?z1 t XOR drop_bit 27 (?z1 t)"
    by (rule times_inj [OF MIX2_inverse])
  then have "?z1 s = ?z1 t" by (rule xorshift_inj) simp
  then have "s XOR drop_bit 30 s = t XOR drop_bit 30 t" by (rule times_inj [OF MIX1_inverse])
  then show "s = t" by (rule xorshift_inj) simp
qed

lemma surj_mix: "surj mix"
  using inj_mix by (rule finite_UNIV_inj_surj [OF finite_class.finite_UNIV])

text \<open>The state visits every word.\<close>

definition draw_at :: "nat \<Rightarrow> u64 \<Rightarrow> u64" where
  "draw_at n state = mix (state + of_nat (Suc n) * GOLDEN)"

lemma reaches: "\<exists>n. state + of_nat (Suc n) * GOLDEN = t"
proof -
  let ?d = "(t - state) * 0xf1de83e19937733d - 1"
  have "of_nat (Suc (unat ?d)) = (t - state) * 0xf1de83e19937733d"
    by (simp add: of_nat_unat)
  then have "state + of_nat (Suc (unat ?d)) * GOLDEN = state + (t - state) * (GOLDEN * 0xf1de83e19937733d)"
    by (simp only: mult.assoc mult.commute [of GOLDEN])
  then show ?thesis by (metis GOLDEN_inverse add_diff_cancel_left' diff_add_cancel mult.right_neutral add.commute)
qed

lemma draws_everything: "\<exists>n. draw_at n state = x"
proof -
  obtain t where "mix t = x" using surj_mix by (metis surjD)
  then show ?thesis using reaches [of state t] by (auto simp: draw_at_def)
qed

subsection \<open>Rejection sampling returns\<close>

lemma next_draw: "next_u64 state = (draw_at 0 state, state + GOLDEN)"
  by (simp add: next_u64_def draw_at_def Let_def)

lemma draw_shift: "draw_at n (state + GOLDEN) = draw_at (Suc n) state"
  by (simp add: draw_at_def algebra_simps)

lemma uniform_below_unfold:
  "uniform_below state bound =
     (if threshold bound \<le> draw_at 0 state then Some (draw_at 0 state mod bound, state + GOLDEN)
      else uniform_below (state + GOLDEN) bound)"
  by (subst uniform_below.simps) (simp add: next_draw)

text \<open>The first draw at or above the threshold decides.\<close>

lemma uniform_below_first:
  assumes "threshold bound \<le> draw_at n state" "\<forall>m<n. \<not> threshold bound \<le> draw_at m state"
  shows "uniform_below state bound = Some (draw_at n state mod bound, state + of_nat (Suc n) * GOLDEN)"
  using assms
proof (induction n arbitrary: state)
  case 0
  then show ?case by (subst uniform_below_unfold) simp
next
  case (Suc n)
  have "\<not> threshold bound \<le> draw_at 0 state" using Suc.prems(2) by blast
  then have "uniform_below state bound = uniform_below (state + GOLDEN) bound"
    by (subst uniform_below_unfold) simp
  also have "\<dots> = Some (draw_at n (state + GOLDEN) mod bound, state + GOLDEN + of_nat (Suc n) * GOLDEN)"
    using Suc.prems by (intro Suc.IH) (auto simp: draw_shift)
  finally have r: "uniform_below state bound =
      Some (draw_at (Suc n) state mod bound, state + GOLDEN + of_nat (Suc n) * GOLDEN)"
    unfolding draw_shift .
  have "state + GOLDEN + of_nat (Suc n) * GOLDEN = state + of_nat (Suc (Suc n)) * GOLDEN"
    by (simp add: algebra_simps)
  with r show ?case by (simp only:)
qed

lemma uniform_below_returns:
  assumes "bound \<noteq> 0"
  shows "\<exists>draw n. uniform_below state bound = Some (draw, state + of_nat (Suc n) * GOLDEN) \<and>
     unat draw < unat bound \<and> draw = draw_at n state mod bound \<and> threshold bound \<le> draw_at n state"
proof -
  obtain k where "draw_at k state = - 1" using draws_everything by blast
  then have "threshold bound \<le> draw_at k state" by simp
  then have ex: "\<exists>n. threshold bound \<le> draw_at n state" by blast
  define n where "n = (LEAST n. threshold bound \<le> draw_at n state)"
  have n: "threshold bound \<le> draw_at n state" "\<forall>m<n. \<not> threshold bound \<le> draw_at m state"
    unfolding n_def using LeastI_ex [OF ex] not_less_Least by blast+
  have "draw_at n state mod bound < bound"
    using assms by (simp add: word_less_nat_alt unat_mod unat_gt_0)
  then show ?thesis using uniform_below_first [OF n] n(1) by (auto simp: word_less_nat_alt)
qed

subsection \<open>The draw without replacement\<close>

definition swap :: "nat \<Rightarrow> nat \<Rightarrow> 'a list \<Rightarrow> 'a list" where
  "swap i j xs = xs[i := xs ! j, j := xs ! i]"

text \<open>\<open>None\<close> where the source does not return: a panic (\<open>i\<close> past the pool, where the
  bound is 0) or a rejection loop that never ends.\<close>

fun sample_loop :: "nat \<Rightarrow> nat \<Rightarrow> nat \<Rightarrow> u64 \<Rightarrow> nat list \<Rightarrow> nat list \<Rightarrow> (nat list \<times> u64) option" where
  "sample_loop 0 i len state pool out = Some (out, state)"
| "sample_loop (Suc k) i len state pool out =
     (if len \<le> i then None
      else (case uniform_below state (of_nat (len - i)) of
          None \<Rightarrow> None
        | Some (d, state') \<Rightarrow>
            (let pool' = swap i (i + unat d) pool
             in sample_loop k (Suc i) len state' pool' (out @ [pool' ! i]))))"

definition sample_indexes :: "u64 \<Rightarrow> nat \<Rightarrow> nat \<Rightarrow> (nat list \<times> u64) option" where
  "sample_indexes state len k = sample_loop k 0 len state [0..<len] []"

lemma swap_perm: "i < length xs \<Longrightarrow> j < length xs \<Longrightarrow> mset (swap i j xs) = mset xs"
  by (simp add: swap_def mset_swap)

lemma take_swap: "n \<le> i \<Longrightarrow> n \<le> j \<Longrightarrow> take n (swap i j xs) = take n xs"
  by (simp add: swap_def)

lemma sample_loop_returns:
  assumes "i + k \<le> len" "len < 2 ^ 64" "length pool = len" "distinct pool" "out = take i pool"
  shows "\<exists>xs state'. sample_loop k i len state pool out = Some (xs, state') \<and> length xs = i + k \<and>
     distinct xs \<and> set xs \<subseteq> set pool \<and> prefix out xs"
  using assms
proof (induction k arbitrary: i state pool out)
  case 0
  then show ?case by (auto dest: in_set_takeD)
next
  case (Suc k)
  have bound: "unat (of_nat (len - i) :: u64) = len - i"
    unfolding unat_of_nat using Suc.prems by (intro mod_less) simp
  have "0 < len - i" using Suc.prems(1) by simp
  then have "of_nat (len - i) \<noteq> (0 :: u64)" using bound by (metis less_numeral_extra(3) unat_0)
  from uniform_below_returns [OF this, of state] obtain d state' where
    d: "uniform_below state (of_nat (len - i)) = Some (d, state')" "unat d < len - i"
    unfolding bound by blast
  let ?pool = "swap i (i + unat d) pool"
  have ij: "i < length pool" "i + unat d < length pool" using d(2) Suc.prems by auto
  have perm: "mset ?pool = mset pool" by (rule swap_perm [OF ij])
  have len: "length ?pool = len" using Suc.prems by (simp add: swap_def)
  have dist: "distinct ?pool" using Suc.prems(4) perm by (metis mset_eq_imp_distinct_iff)
  have out: "out @ [?pool ! i] = take (Suc i) ?pool"
    using Suc.prems ij len by (simp add: take_Suc_conv_app_nth take_swap)
  have "Suc i + k \<le> len" using Suc.prems(1) by simp
  from Suc.IH [OF this Suc.prems(2) len dist out, of state'] obtain xs st where
    xs: "sample_loop k (Suc i) len state' ?pool (out @ [?pool ! i]) = Some (xs, st)"
      "length xs = Suc i + k" "distinct xs" "set xs \<subseteq> set ?pool" "prefix (out @ [?pool ! i]) xs"
    by blast
  have "set ?pool = set pool" using perm by (rule mset_eq_setD)
  moreover have "prefix out xs" using xs(5) by (rule append_prefixD)
  ultimately show ?case using xs d ij by (simp add: Let_def)
qed

lemma sample_indexes_returns:
  assumes "k \<le> len" "len < 2 ^ 64"
  shows "\<exists>xs state'. sample_indexes state len k = Some (xs, state') \<and> length xs = k \<and> distinct xs \<and>
     set xs \<subseteq> {..<len}"
  using sample_loop_returns [of 0 k len "[0..<len]" "[]" state] assms
  by (simp add: sample_indexes_def atLeast0LessThan)

subsection \<open>Properties\<close>

text \<open>C14: rejection sampling terminates. For every generator state and every non-zero bound the
  loop of \<open>uniform_below\<close> returns: the value is below the bound, it is the first draw at or
  above the threshold reduced modulo the bound, and the state has advanced by the draws
  made.\<close>

theorem uniform_below_terminates:
  assumes "bound \<noteq> 0"
  shows "\<exists>draw n. uniform_below state bound = Some (draw, state + of_nat (Suc n) * GOLDEN) \<and>
     unat draw < unat bound \<and> draw = draw_at n state mod bound \<and> threshold bound \<le> draw_at n state"
  using assms by (rule uniform_below_returns)

theorem uniform_below_terminates_witness:
  "\<exists>draw n. uniform_below 42 10 = Some (draw, 42 + of_nat (Suc n) * GOLDEN) \<and>
     unat draw < unat (10 :: u64) \<and> draw = draw_at n 42 mod 10 \<and> threshold 10 \<le> draw_at n 42"
  by (rule uniform_below_terminates) simp

text \<open>The draw without replacement. For \<open>k \<le> len\<close> (a 64-bit length) \<open>sample_indexes\<close>
  returns, with exactly \<open>k\<close> distinct indexes below \<open>len\<close>.\<close>

theorem sample_indexes_distinct:
  assumes "k \<le> len" "len < 2 ^ 64"
  shows "\<exists>xs state'. sample_indexes state len k = Some (xs, state') \<and> length xs = k \<and> distinct xs \<and>
     set xs \<subseteq> {..<len}"
  using assms by (rule sample_indexes_returns)

theorem sample_indexes_distinct_witness:
  "\<exists>xs state'. sample_indexes 7 5 3 = Some (xs, state') \<and> length xs = 3 \<and> distinct xs \<and> set xs \<subseteq> {..<5}"
  by (rule sample_indexes_distinct) simp_all

end
