(* ===== verification/Grouping.thy ===== *)
theory Grouping
  imports OrdDict
begin

text \<open>
  Grouping into an insertion-ordered dictionary: a loop that looks its key up, updates the value
  it finds or starts a new one, as \<open>blame.rs session_writes\<close> and the counters of
  \<open>facts.rs\<close> do. The order is the keys in first-seen order and the value of a key is
  the fold over its own items.
\<close>

definition od_upd :: "('v option \<Rightarrow> 'x \<Rightarrow> 'v) \<Rightarrow> ('k, 'v) odict \<Rightarrow> 'k \<times> 'x \<Rightarrow> ('k, 'v) odict" where
  "od_upd f d kx = od_put (fst kx) (f (od_look d (fst kx)) (snd kx)) d"

definition od_group :: "('v option \<Rightarrow> 'x \<Rightarrow> 'v) \<Rightarrow> ('k \<times> 'x) list \<Rightarrow> ('k, 'v) odict" where
  "od_group f ps = foldl (od_upd f) od_empty ps"

definition items_of :: "'k \<Rightarrow> ('k \<times> 'x) list \<Rightarrow> 'x list" where
  "items_of k ps = map snd (filter (\<lambda>p. fst p = k) ps)"

lemma items_of_simps [simp]:
  "items_of k [] = []" "items_of k (ps @ qs) = items_of k ps @ items_of k qs"
  "items_of k (p # ps) = (if fst p = k then snd p # items_of k ps else items_of k ps)"
  by (auto simp: items_of_def)

lemma items_of_eq_Nil: "items_of k ps = [] \<longleftrightarrow> k \<notin> fst ` set ps"
  by (auto simp: items_of_def filter_empty_conv)

definition fold_items :: "('v option \<Rightarrow> 'x \<Rightarrow> 'v) \<Rightarrow> 'x list \<Rightarrow> 'v option" where
  "fold_items f xs = foldl (\<lambda>v x. Some (f v x)) None xs"

lemma fold_items_simps [simp]:
  "fold_items f [] = None" "fold_items f (xs @ [x]) = Some (f (fold_items f xs) x)"
  by (simp_all add: fold_items_def)

lemma fold_items_None [simp]: "fold_items f xs = None \<longleftrightarrow> xs = []"
  by (cases xs rule: rev_cases) simp_all

lemma od_group_ok: "od_ok (od_group f ps)"
  by (induction ps rule: rev_induct) (simp_all add: od_group_def od_upd_def od.ok_empty od.ok_put)

lemma look_od_group: "od_look (od_group f ps) k = fold_items f (items_of k ps)"
proof (induction ps arbitrary: k rule: rev_induct)
  case (snoc p ps)
  have "od_group f (ps @ [p]) = od_upd f (od_group f ps) p" by (simp add: od_group_def)
  then show ?case using snoc by (simp add: od_upd_def od.look_put)
qed (simp add: od_group_def od.look_empty)

lemma keys_od_group: "map fst (od_items (od_group f ps)) = first_seen [] (map fst ps)"
proof (induction ps rule: rev_induct)
  case (snoc p ps)
  have "od_group f (ps @ [p]) = od_upd f (od_group f ps) p" by (simp add: od_group_def)
  then show ?case
    using snoc by (simp add: od_upd_def od.keys_put_first_seen [OF od_group_ok] first_seen_append)
qed (simp add: od_group_def od.keys_empty)

lemma od_group_items:
  "od_items (od_group f ps) = map (\<lambda>k. (k, the (fold_items f (items_of k ps)))) (first_seen [] (map fst ps))"
proof (rule alist_eqI)
  show "map fst (od_items (od_group f ps)) =
      map fst (map (\<lambda>k. (k, the (fold_items f (items_of k ps)))) (first_seen [] (map fst ps)))"
    by (simp add: keys_od_group comp_def)
  show "distinct (map fst (od_items (od_group f ps)))" by (rule od.distinct_items [OF od_group_ok])
  show "map_of (od_items (od_group f ps)) =
      map_of (map (\<lambda>k. (k, the (fold_items f (items_of k ps)))) (first_seen [] (map fst ps)))"
    by (auto simp: od.items_look [OF od_group_ok] look_od_group map_of_map_restrict fun_eq_iff
        restrict_map_def items_of_eq_Nil)
qed

end
