(* ===== verification/Blame.thy ===== *)
theory Blame
  imports Grouping ActivityFacts "HOL-Library.List_Lexorder" "HOL-Library.Char_ord"
begin

text \<open>
  \<open>blame.rs\<close>: the lexical map from a path to its working tree and repository-relative
  path, the sessions that wrote a file, and the attribution of a file to a write, to a session's
  tooling or to neither. All of the file is modelled over the lift of \<open>Activity\<close>.
\<close>

subsection \<open>Trees and paths\<close>

definition WORKTREES_SEGMENT :: string where
  "WORKTREES_SEGMENT = ''.claude/worktrees/''"

definition BASH_SUSPECTS :: nat where
  "BASH_SUSPECTS = 5"

datatype tree = MainTree | Worktree string

definition tree_label :: "tree \<Rightarrow> string" where
  "tree_label t = (case t of MainTree \<Rightarrow> ''main'' | Worktree name \<Rightarrow> ''worktree:'' @ name)"

text \<open>A repository is its canonical root.\<close>

definition tree_of :: "string \<Rightarrow> string \<Rightarrow> tree option" where
  "tree_of repo cwd =
     (if cwd = repo then Some MainTree
      else Option.bind (Option.bind (strip_prefix repo cwd) (strip_prefix ''/'')) (\<lambda>rest.
        case strip_prefix WORKTREES_SEGMENT rest of
          Some tail \<Rightarrow> map_option Worktree
            (opt_filter (\<lambda>name. name \<noteq> []) (Some (hd (split_char CHR ''/'' tail))))
        | None \<Rightarrow> Some MainTree))"

definition tree_root :: "string \<Rightarrow> tree \<Rightarrow> string" where
  "tree_root repo t = (case t of
      MainTree \<Rightarrow> repo
    | Worktree name \<Rightarrow> repo @ ''/'' @ WORKTREES_SEGMENT @ name)"

fun fold_segments :: "string list \<Rightarrow> string list \<Rightarrow> string list" where
  "fold_segments parts [] = parts"
| "fold_segments parts (segment # rest) =
     (if segment = [] \<or> segment = ''.'' then fold_segments parts rest
      else if segment = ''..'' then fold_segments (butlast parts) rest
      else fold_segments (parts @ [segment]) rest)"

definition normalize :: "string \<Rightarrow> string" where
  "normalize path = ''/'' @ join ''/'' (fold_segments [] (split_char CHR ''/'' path))"

definition relative :: "string \<Rightarrow> string \<Rightarrow> string option \<Rightarrow> (tree \<times> string) option" where
  "relative repo file_path cwd =
     (let normalized = normalize (if prefix ''/'' file_path then file_path
                                  else opt_default repo cwd @ ''/'' @ file_path)
      in Option.bind (tree_of repo normalized) (\<lambda>t.
           map_option (Pair t) (strip_prefix (tree_root repo t @ ''/'') normalized)))"

subsection \<open>Instants\<close>

definition in_window :: "datetime \<Rightarrow> datetime option \<Rightarrow> datetime option \<Rightarrow> bool" where
  "in_window ts since until =
     ((case since of None \<Rightarrow> True | Some start \<Rightarrow> dt_instant start \<le> dt_instant ts) \<and>
      (case until of None \<Rightarrow> True | Some stop \<Rightarrow> dt_instant ts < dt_instant stop))"

text \<open>\<open>Ord::min\<close> and \<open>Ord::max\<close>: on equal instants the first, respectively the
  second, argument.\<close>

definition dt_min :: "datetime \<Rightarrow> datetime \<Rightarrow> datetime" where
  "dt_min a b = (if dt_instant b < dt_instant a then b else a)"

definition dt_max :: "datetime \<Rightarrow> datetime \<Rightarrow> datetime" where
  "dt_max a b = (if dt_instant b < dt_instant a then a else b)"

definition dt_least :: "datetime list \<Rightarrow> datetime option" where
  "dt_least ts = (case ts of [] \<Rightarrow> None | t # rest \<Rightarrow> Some (foldl dt_min t rest))"

definition dt_greatest :: "datetime list \<Rightarrow> datetime option" where
  "dt_greatest ts = (case ts of [] \<Rightarrow> None | t # rest \<Rightarrow> Some (foldl dt_max t rest))"

subsection \<open>Who wrote a file\<close>

record session_write =
  sw_session_id :: string
  sw_transcript_path :: string
  sw_tree :: string
  first_write_ts :: datetime
  last_write_ts :: datetime
  sw_writes :: nat
  sw_tools :: "string list"
  sw_first_prompt :: "string option"

record write_group =
  wg_first :: datetime
  wg_last :: datetime
  wg_writes :: nat
  wg_tools :: "string list"

definition write_group_new :: "datetime \<Rightarrow> string \<Rightarrow> write_group" where
  "write_group_new ts tool = \<lparr>wg_first = ts, wg_last = ts, wg_writes = 1, wg_tools = [tool]\<rparr>"

definition write_group_add :: "datetime \<Rightarrow> string \<Rightarrow> write_group \<Rightarrow> write_group" where
  "write_group_add ts tool g = \<lparr>wg_first = dt_min (wg_first g) ts, wg_last = dt_max (wg_last g) ts,
     wg_writes = wg_writes g + 1,
     wg_tools = (if tool \<in> set (wg_tools g) then wg_tools g else wg_tools g @ [tool])\<rparr>"

definition lift_session :: "env \<Rightarrow> registry \<Rightarrow> string \<Rightarrow> entry list \<Rightarrow> turn list" where
  "lift_session env st sid entries =
     (case lift_session_refs env st sid entries None of Some l \<Rightarrow> ls_turns l | None \<Rightarrow> [])"

definition session_uses :: "env \<Rightarrow> registry \<Rightarrow> string \<Rightarrow> entry list \<Rightarrow> tool_use list" where
  "session_uses env st sid entries = concat (map tn_tool_uses (lift_session env st sid entries))"

text \<open>The edits of a session that land on a target, with the tree each lands in.\<close>

definition target_edits ::
  "env \<Rightarrow> registry \<Rightarrow> string \<Rightarrow> entry list \<Rightarrow> string \<Rightarrow> string \<Rightarrow> (tree \<times> tool_use) list" where
  "target_edits env st sid entries repo rel_target =
     concat (map (\<lambda>u. List.map_filter (\<lambda>(path, _). case relative repo path (tl_cwd u) of
           None \<Rightarrow> None
         | Some (t, rel) \<Rightarrow> if rel = rel_target then Some (t, u) else None) (tl_edits u))
       (session_uses env st sid entries))"

definition writing_prompt :: "env \<Rightarrow> registry \<Rightarrow> string \<Rightarrow> entry list \<Rightarrow> string option" where
  "writing_prompt env st sid entries =
     opt_or (List.find (\<lambda>p. p \<noteq> []) (map tn_prompt (lift_session env st sid entries)))
       (List.find (\<lambda>text. strip text \<noteq> []) (List.map_filter (\<lambda>e. case e of
            User u \<Rightarrow> Some (user_text (ue_content u)) | _ \<Rightarrow> None) entries))"

definition upsert_write :: "write_group option \<Rightarrow> tool_use \<Rightarrow> write_group" where
  "upsert_write g u = (case g of
      Some g \<Rightarrow> write_group_add (tl_ts u) (tl_name u) g
    | None \<Rightarrow> write_group_new (tl_ts u) (tl_name u))"

definition session_writes ::
  "env \<Rightarrow> registry \<Rightarrow> string \<Rightarrow> string \<Rightarrow> entry list \<Rightarrow> string \<Rightarrow> string \<Rightarrow>
   datetime option \<Rightarrow> datetime option \<Rightarrow> session_write list" where
  "session_writes env st sid transcript entries repo rel_target since until =
     (let prompt = writing_prompt env st sid entries;
          groups = od_group upsert_write (map (\<lambda>(t, u). (tree_label t, u))
            (filter (\<lambda>(_, u). in_window (tl_ts u) since until) (target_edits env st sid entries repo rel_target)))
      in map (\<lambda>(label, g). \<lparr>sw_session_id = sid, sw_transcript_path = transcript, sw_tree = label,
           first_write_ts = wg_first g, last_write_ts = wg_last g, sw_writes = wg_writes g,
           sw_tools = wg_tools g, sw_first_prompt = prompt\<rparr>) (od_items groups))"

definition blame :: "session_write list \<Rightarrow> session_write list" where
  "blame = stable_sort (then_by (by_key_desc (\<lambda>w. dt_instant (last_write_ts w))) (by_key sw_session_id))"

subsection \<open>Attribution\<close>

record write_evidence =
  ev_transcript_path :: string
  ev_tree :: string
  ev_ts :: datetime
  ev_tool :: string
  ev_tool_use_id :: string

record generated_candidate =
  gc_session_id :: string
  gc_transcript_path :: string
  window_start :: datetime
  window_end :: datetime
  gc_bash :: "(datetime \<times> string) list"

datatype verdict =
    Claude string write_evidence
  | Generated "generated_candidate list"
  | External

record session_attribution =
  sa_writes :: "(string \<times> write_evidence) list"
  sa_candidate :: "generated_candidate option"

record attribution_fold =
  winner :: "(string \<times> write_evidence) option"
  candidates :: "generated_candidate list"

definition attribution_default :: attribution_fold where
  "attribution_default = \<lparr>winner = None, candidates = []\<rparr>"

definition rank_le :: "string \<times> write_evidence \<Rightarrow> string \<times> write_evidence \<Rightarrow> bool" where
  "rank_le seen write \<longleftrightarrow>
     then_by (by_key (\<lambda>w. dt_instant (ev_ts (snd w)))) (by_key_desc fst) seen write"

definition keep_winner ::
  "(string \<times> write_evidence) option \<Rightarrow> string \<times> write_evidence \<Rightarrow> (string \<times> write_evidence) option" where
  "keep_winner best write =
     (if (case best of None \<Rightarrow> True | Some seen \<Rightarrow> rank_le seen write) then Some write else best)"

definition fold_add :: "attribution_fold \<Rightarrow> session_attribution \<Rightarrow> attribution_fold" where
  "fold_add f s =
     (let best = foldl keep_winner (winner f) (sa_writes s)
      in \<lparr>winner = best, candidates = (case best of
            Some _ \<Rightarrow> []
          | None \<Rightarrow> candidates f @ opt_list (sa_candidate s))\<rparr>)"

definition fold_verdict :: "attribution_fold \<Rightarrow> verdict" where
  "fold_verdict f = (case winner f of
      Some (sid, evidence) \<Rightarrow> Claude sid evidence
    | None \<Rightarrow>
        (let cs = stable_sort (by_key_desc (\<lambda>c. dt_instant (window_end c))) (candidates f)
         in if cs = [] then External else Generated cs))"

definition session_edits_to ::
  "env \<Rightarrow> registry \<Rightarrow> string \<Rightarrow> string \<Rightarrow> entry list \<Rightarrow> string \<Rightarrow> string \<Rightarrow> (string \<times> write_evidence) list" where
  "session_edits_to env st sid path entries repo rel_target =
     map (\<lambda>(t, u). (sid, \<lparr>ev_transcript_path = path, ev_tree = tree_label t, ev_ts = tl_ts u,
         ev_tool = tl_name u, ev_tool_use_id = tl_tool_use_id u\<rparr>))
       (target_edits env st sid entries repo rel_target)"

definition generated_by ::
  "env \<Rightarrow> registry \<Rightarrow> string \<Rightarrow> string \<Rightarrow> entry list \<Rightarrow> string \<Rightarrow> datetime \<Rightarrow> generated_candidate option" where
  "generated_by env st sid path entries repo mtime =
     (let metas = List.map_filter meta entries; stamps = map timestamp metas in
      Option.bind (dt_least stamps) (\<lambda>ws. Option.bind (dt_greatest stamps) (\<lambda>we.
        let member = list_ex (\<lambda>cwd. tree_of repo cwd \<noteq> None) (List.map_filter em_cwd metas);
            bash = List.map_filter (\<lambda>u. case tl_call u of TBash c \<Rightarrow> Some (tl_ts u, bc_command c) | _ \<Rightarrow> None)
              (session_uses env st sid entries);
            before = filter (\<lambda>(ts, _). dt_instant ts \<le> dt_instant mtime) bash
        in if \<not> member \<or> \<not> (dt_instant ws \<le> dt_instant mtime \<and> dt_instant mtime \<le> dt_instant we)
           then None
           else if bash = [] then None
           else Some \<lparr>gc_session_id = sid, gc_transcript_path = path, window_start = ws, window_end = we,
                  gc_bash = drop (length before - BASH_SUSPECTS) before\<rparr>)))"

definition session_attribution_of ::
  "env \<Rightarrow> registry \<Rightarrow> string \<Rightarrow> string \<Rightarrow> entry list \<Rightarrow> string \<Rightarrow> string \<Rightarrow> datetime \<Rightarrow> session_attribution" where
  "session_attribution_of env st sid path entries repo rel_target mtime =
     \<lparr>sa_writes = session_edits_to env st sid path entries repo rel_target,
      sa_candidate = generated_by env st sid path entries repo mtime\<rparr>"

definition attribute ::
  "env \<Rightarrow> registry \<Rightarrow> (string \<times> string \<times> entry list) list \<Rightarrow> string \<Rightarrow> string \<Rightarrow> datetime \<Rightarrow> verdict" where
  "attribute env st sessions repo rel_target mtime =
     fold_verdict (foldl (\<lambda>f (sid, path, entries).
         fold_add f (session_attribution_of env st sid path entries repo rel_target mtime))
       attribution_default sessions)"


subsection \<open>Normal paths\<close>

definition proper_segment :: "string \<Rightarrow> bool" where
  "proper_segment s \<longleftrightarrow> s \<noteq> [] \<and> s \<noteq> ''.'' \<and> s \<noteq> ''..'' \<and> CHR ''/'' \<notin> set s"

lemma fold_segments_proper:
  "list_all proper_segment parts \<Longrightarrow> list_all (\<lambda>s. CHR ''/'' \<notin> set s) segs \<Longrightarrow>
   list_all proper_segment (fold_segments parts segs)"
proof (induction segs arbitrary: parts)
  case (Cons segment rest)
  have butlast: "list_all proper_segment (butlast parts)"
    using Cons.prems(1) by (metis append_butlast_last_id butlast.simps(1) list_all_append)
  consider "segment = [] \<or> segment = ''.''" | "segment = ''..''" | "proper_segment segment"
    "\<not> (segment = [] \<or> segment = ''.'')" "segment \<noteq> ''..''"
    using Cons.prems(2) unfolding proper_segment_def by auto
  then show ?case
  proof cases
    case 1
    then show ?thesis using Cons.IH [OF Cons.prems(1)] Cons.prems(2) by (simp only: fold_segments.simps list.pred_inject simp_thms if_True)
  next
    case 2
    then show ?thesis using Cons.IH [OF butlast] Cons.prems(2) by simp
  next
    case 3
    then show ?thesis using Cons.IH [of "parts @ [segment]"] Cons.prems
      by (simp only: fold_segments.simps list.pred_inject list_all_append simp_thms if_False)
  qed
qed simp

lemma fold_segments_id:
  "list_all proper_segment segs \<Longrightarrow> fold_segments parts segs = parts @ segs"
proof (induction segs arbitrary: parts)
  case (Cons segment rest)
  then have "\<not> (segment = [] \<or> segment = ''.'')" "segment \<noteq> ''..''"
    by (simp_all only: list.pred_inject proper_segment_def simp_thms)
  then show ?case using Cons by (simp only: fold_segments.simps if_False list.pred_inject append_assoc append.simps)
qed simp

lemma normalize_parts: "\<exists>ps. normalize p = ''/'' @ join ''/'' ps \<and> list_all proper_segment ps"
proof -
  have "list_all (\<lambda>s. CHR ''/'' \<notin> set s) (split_char CHR ''/'' p)"
    by (auto simp: list_all_iff dest: split_char_pieces)
  then show ?thesis using fold_segments_proper [of "[]"] unfolding normalize_def by auto
qed

lemma split_normal:
  assumes "list_all proper_segment ps"
  shows "split_char CHR ''/'' (''/'' @ join ''/'' ps) = [] # (if ps = [] then [[]] else ps)"
proof -
  have "\<forall>x\<in>set ps. CHR ''/'' \<notin> set x" using assms by (auto simp: list_all_iff proper_segment_def)
  then show ?thesis using split_char_join [of ps "CHR ''/''"] by auto
qed

lemma normalize_normal: "list_all proper_segment ps \<Longrightarrow> normalize (''/'' @ join ''/'' ps) = ''/'' @ join ''/'' ps"
  unfolding normalize_def split_normal by (simp add: fold_segments_id)

lemma normalize_idem [simp]: "normalize (normalize p) = normalize p"
  using normalize_parts [of p] normalize_normal by metis

lemma split_char_sep_append: "split_char d (b @ d # s) = split_char d b @ split_char d s"
proof (induction b)
  case (Cons c b)
  then show ?case by (cases "split_char d b") auto
qed simp

lemma relative_Some:
  "relative repo f cwd = Some (t, rel) \<longleftrightarrow>
     (let n = normalize (if prefix ''/'' f then f else opt_default repo cwd @ ''/'' @ f)
      in tree_of repo n = Some t \<and> n = tree_root repo t @ ''/'' @ rel)"
  by (auto simp: relative_def Let_def bind_eq_Some_conv strip_prefix_Some_iff)

text \<open>Repository-relative paths are canonical. The pair a path resolves to names one place:
  its tree's root and the relative path, joined, resolve to the same pair from every working
  directory, and the relative path has no empty, dot or double-dot segment, so it cannot leave
  the tree.\<close>

theorem relative_canonical:
  assumes "relative repo f cwd = Some (t, rel)" "repo \<noteq> []"
  shows "relative repo (tree_root repo t @ ''/'' @ rel) cwd' = Some (t, rel) \<and>
    rel \<noteq> [] \<and> list_all proper_segment (split_char CHR ''/'' rel)"
proof -
  define n where "n = tree_root repo t @ ''/'' @ rel"
  from assms(1) have n: "normalize n = n" "tree_of repo n = Some t"
    unfolding relative_Some Let_def n_def by (metis normalize_idem)+
  obtain ps where ps: "n = ''/'' @ join ''/'' ps" "list_all proper_segment ps"
    using normalize_parts [of n] n(1) by auto
  have abs: "prefix ''/'' n" using ps by simp
  have again: "relative repo n cwd' = Some (t, rel)"
    unfolding relative_Some using n abs by (simp add: n_def)
  have root: "tree_root repo t \<noteq> []" using assms(2) by (simp add: tree_root_def split: tree.split)
  have split: "split_char CHR ''/'' (tree_root repo t) @ split_char CHR ''/'' rel = [] # (if ps = [] then [[]] else ps)"
    using split_normal [OF ps(2)] unfolding ps(1) [symmetric] n_def by (simp add: split_char_sep_append)
  obtain y ys where y: "split_char CHR ''/'' (tree_root repo t) = y # ys" by (cases "split_char CHR ''/'' (tree_root repo t)") auto
  have "ps \<noteq> []"
  proof
    assume "ps = []"
    then have "y = [] \<and> ys = []" using split y by (cases "split_char CHR ''/'' rel"; cases ys) auto
    then have "split_char CHR ''/'' (tree_root repo t) = [[]]" using y by simp
    then show False using root join_split_char [of "CHR ''/''" "tree_root repo t"] by simp
  qed
  then have "ys @ split_char CHR ''/'' rel = ps" using split y by simp
  then have all: "list_all proper_segment (split_char CHR ''/'' rel)" using ps(2) by auto
  moreover have "rel \<noteq> []" using all by (auto simp: proper_segment_def)
  ultimately show ?thesis using again by (simp add: n_def)
qed

theorem relative_canonical_witness:
  "relative ''/r'' ''/r/.claude/worktrees/w/a'' None = Some (Worktree ''w'', ''a'')"
proof -
  have "relative ''/r'' ''.././w/x/../a'' (Some ''/r/.claude/worktrees/v'') = Some (Worktree ''w'', ''a'')"
    by code_simp
  from relative_canonical [OF this, of None] show ?thesis
    by (simp add: tree_root_def WORKTREES_SEGMENT_def)
qed

subsection \<open>Instants\<close>

lemma dt_fold_min:
  "foldl dt_min t ts \<in> set (t # ts) \<and> (\<forall>x\<in>set (t # ts). dt_instant (foldl dt_min t ts) \<le> dt_instant x)"
proof (induction ts arbitrary: t)
  case (Cons y ts)
  show ?case using Cons.IH [of "dt_min t y"] by (auto simp: dt_min_def split: if_splits)
qed simp

lemma dt_fold_max:
  "foldl dt_max t ts \<in> set (t # ts) \<and> (\<forall>x\<in>set (t # ts). dt_instant x \<le> dt_instant (foldl dt_max t ts))"
proof (induction ts arbitrary: t)
  case (Cons y ts)
  show ?case using Cons.IH [of "dt_max t y"] by (auto simp: dt_max_def split: if_splits)
qed simp

lemma dt_least_append: "dt_least (ts @ [t]) = Some (case dt_least ts of None \<Rightarrow> t | Some m \<Rightarrow> dt_min m t)"
  by (cases ts) (simp_all add: dt_least_def)

lemma dt_greatest_append: "dt_greatest (ts @ [t]) = Some (case dt_greatest ts of None \<Rightarrow> t | Some m \<Rightarrow> dt_max m t)"
  by (cases ts) (simp_all add: dt_greatest_def)


subsection \<open>The writes of a session, by tree\<close>

text \<open>The group of a list of writes: its count, its distinct tools and its span.\<close>

lemma fold_upsert:
  "us \<noteq> [] \<Longrightarrow> fold_items upsert_write us = Some
     \<lparr>wg_first = the (dt_least (map tl_ts us)), wg_last = the (dt_greatest (map tl_ts us)),
      wg_writes = length us, wg_tools = first_seen [] (map tl_name us)\<rparr>"
proof (induction us rule: rev_induct)
  case (snoc u us)
  show ?case
  proof (cases "us = []")
    case True
    then show ?thesis
      by (simp add: upsert_write_def write_group_new_def dt_least_def dt_greatest_def fold_items_def)
  next
    case False
    then have "dt_least (map tl_ts us) \<noteq> None" "dt_greatest (map tl_ts us) \<noteq> None"
      by (auto simp: dt_least_def dt_greatest_def split: list.split)
    then show ?thesis using snoc.IH [OF False]
      by (auto simp: upsert_write_def write_group_add_def dt_least_append dt_greatest_append first_seen_append)
  qed
qed simp

lemma dt_least_bound: "ts \<noteq> [] \<Longrightarrow> the (dt_least ts) \<in> set ts \<and> list_all (\<lambda>x. dt_instant (the (dt_least ts)) \<le> dt_instant x) ts"
  using dt_fold_min by (cases ts) (auto simp: dt_least_def list_all_iff)

lemma dt_greatest_bound: "ts \<noteq> [] \<Longrightarrow> the (dt_greatest ts) \<in> set ts \<and> list_all (\<lambda>x. dt_instant x \<le> dt_instant (the (dt_greatest ts))) ts"
  using dt_fold_max by (cases ts) (auto simp: dt_greatest_def list_all_iff)

text \<open>What one record says of the edits \<open>us\<close> behind it.\<close>

definition write_sound :: "string option \<Rightarrow> tool_use list \<Rightarrow> session_write \<Rightarrow> bool" where
  "write_sound prompt us w \<longleftrightarrow>
     us \<noteq> [] \<and> sw_writes w = length us \<and> sw_tools w = first_seen [] (map tl_name us) \<and>
     sw_first_prompt w = prompt \<and>
     first_write_ts w \<in> set (map tl_ts us) \<and> last_write_ts w \<in> set (map tl_ts us) \<and>
     list_all (\<lambda>u. dt_instant (first_write_ts w) \<le> dt_instant (tl_ts u) \<and>
        dt_instant (tl_ts u) \<le> dt_instant (last_write_ts w)) us"

lemma sum_items_of:
  "distinct ks \<Longrightarrow> fst ` set ps \<subseteq> set ks \<Longrightarrow> sum_list (map (\<lambda>k. length (items_of k ps)) ks) = length ps"
proof (induction ps)
  case (Cons p ps)
  have "sum_list (map (\<lambda>k. length (items_of k (p # ps))) ks) =
      sum_list (map (\<lambda>k. (if fst p = k then 1 else 0) + length (items_of k ps)) ks)"
    by (rule arg_cong [of _ _ sum_list]) auto
  also have "\<dots> = sum_list (map (\<lambda>k. if fst p = k then 1 else 0) ks) + sum_list (map (\<lambda>k. length (items_of k ps)) ks)"
    by (rule sum_list_addf)
  also have "sum_list (map (\<lambda>k. if fst p = k then 1 else (0::nat)) ks) = 1"
  proof -
    have "sum_list (map (\<lambda>k. if a = k then 1 else (0::nat)) xs) = (if a \<in> set xs then 1 else 0)" if "distinct xs" for a xs
      using that by (induction xs) auto
    from this [of ks "fst p"] show ?thesis using Cons.prems by simp
  qed
  finally show ?case using Cons by simp
qed simp

text \<open>The writes of a session. Of the edits that land on the target within the window, there
  is one record per working tree they land in, in order of first occurrence; it counts that
  tree's edits, lists their distinct tools in order, and spans exactly from their earliest to
  their latest instant; the counts add up to all of them.\<close>

theorem session_writes_by_tree:
  "let es = map (\<lambda>(t, u). (tree_label t, u)) (filter (\<lambda>(_, u). in_window (tl_ts u) since until)
         (target_edits env st sid entries repo rel_target));
       ws = session_writes env st sid transcript entries repo rel_target since until
   in map sw_tree ws = first_seen [] (map fst es) \<and>
      list_all (\<lambda>w. write_sound (writing_prompt env st sid entries) (items_of (sw_tree w) es) w) ws \<and>
      sum_list (map sw_writes ws) = length es"
proof -
  define es where "es = map (\<lambda>(t, u). (tree_label t, u)) (filter (\<lambda>(_, u). in_window (tl_ts u) since until)
         (target_edits env st sid entries repo rel_target))"
  define mk where "mk = (\<lambda>k. let us = items_of k es in
      \<lparr>sw_session_id = sid, sw_transcript_path = transcript, sw_tree = k,
       first_write_ts = the (dt_least (map tl_ts us)), last_write_ts = the (dt_greatest (map tl_ts us)),
       sw_writes = length us, sw_tools = first_seen [] (map tl_name us),
       sw_first_prompt = writing_prompt env st sid entries\<rparr>)"
  let ?ks = "first_seen [] (map fst es)"
  have ne: "items_of k es \<noteq> []" if "k \<in> set ?ks" for k using that by (auto simp: items_of_eq_Nil)
  have ws: "session_writes env st sid transcript entries repo rel_target since until = map mk ?ks"
    unfolding session_writes_def Let_def es_def [symmetric] od_group_items
    using ne by (auto simp: fold_upsert mk_def Let_def)
  have "write_sound (writing_prompt env st sid entries) (items_of k es) (mk k)" if "k \<in> set ?ks" for k
    using dt_least_bound [of "map tl_ts (items_of k es)"] dt_greatest_bound [of "map tl_ts (items_of k es)"] ne [OF that]
    by (auto simp: write_sound_def mk_def Let_def list_all_iff)
  moreover have "sum_list (map (\<lambda>k. length (items_of k es)) ?ks) = length es"
    by (rule sum_items_of) auto
  ultimately show ?thesis
    unfolding ws Let_def es_def [symmetric] by (auto simp: mk_def Let_def list_all_iff comp_def)
qed

subsection \<open>The attribution of a file\<close>

interpretation rank: comparator rank_le
proof -
  have "comparator (then_by (by_key (\<lambda>w. dt_instant (ev_ts (snd w)))) (by_key_desc (fst :: string \<times> write_evidence \<Rightarrow> _)))"
    by (rule comparator_then_by) unfold_locales
  then show "comparator rank_le" by (simp add: comparator_def rank_le_def)
qed

interpretation blame_order: comparator "then_by (by_key_desc (\<lambda>w. dt_instant (last_write_ts w))) (by_key sw_session_id)"
  by (rule comparator_then_by) unfold_locales

lemma last_stable_insert:
  assumes "ys \<noteq> []" "sorted_wrt rank_le ys"
  shows "last (stable_insert rank_le x ys) = (if rank_le x (last ys) then last ys else x)"
  using assms
proof (induction ys)
  case (Cons y ys)
  show ?case
  proof (cases "rank_le x y")
    case True
    have "rank_le y (last (y # ys))" using Cons.prems rank.refl by (cases ys) auto
    then have "rank_le x (last (y # ys))" using True rank.trans by blast
    then show ?thesis using True by simp
  next
    case False
    show ?thesis
    proof (cases "ys = []")
      case False
      have "stable_insert rank_le x ys \<noteq> []" using mset_stable_insert [of rank_le x ys] by (metis add_mset_not_empty add_mset_add_single mset.simps(1) union_commute)
      then show ?thesis using Cons False \<open>\<not> rank_le x y\<close> by simp
    qed (use False in simp)
  qed
qed simp

lemma keep_winner_fold:
  "foldl keep_winner (Some x) ws =
     Some (if ws = [] then x else let b = last (stable_sort rank_le ws) in if rank_le x b then b else x)"
proof (induction ws arbitrary: x)
  case (Cons y ws)
  show ?case
  proof (cases "ws = []")
    case True
    then show ?thesis by (simp add: keep_winner_def)
  next
    case False
    let ?b = "last (stable_sort rank_le ws)"
    have ne: "stable_sort rank_le ws \<noteq> []" using False by (metis length_0_conv length_stable_sort)
    have last: "last (stable_sort rank_le (y # ws)) = (if rank_le y ?b then ?b else y)"
      using last_stable_insert [OF ne rank.sorted_stable_sort] by simp
    have t: "rank_le a b \<Longrightarrow> rank_le b c \<Longrightarrow> rank_le a c" "rank_le a b \<or> rank_le b a" for a b c
      using rank.trans rank.total by blast+
    have "foldl keep_winner (Some x) (y # ws) =
        Some (let z = if rank_le x y then y else x in if rank_le z ?b then ?b else z)"
    proof -
      have "foldl keep_winner (Some x) (y # ws) = foldl keep_winner (Some (if rank_le x y then y else x)) ws"
        by (simp add: keep_winner_def [of "Some x" y])
      then show ?thesis using Cons.IH False by (simp add: Let_def)
    qed
    also have "\<dots> = Some (let b = (if rank_le y ?b then ?b else y) in if rank_le x b then b else x)"
      using t(1) [of x y ?b] t(1) [of y x ?b] t(2) [of x y] by (auto simp: Let_def)
    finally show ?thesis using last by simp
  qed
qed simp

lemma keep_winner_best:
  "foldl keep_winner None ws = (if ws = [] then None else Some (last (stable_sort rank_le ws)))"
proof (cases ws)
  case (Cons y ys)
  have "ys \<noteq> [] \<Longrightarrow> stable_sort rank_le ys \<noteq> []" by (metis length_0_conv length_stable_sort)
  then show ?thesis
    using keep_winner_fold [of y ys] last_stable_insert [OF _ rank.sorted_stable_sort, of ys y] Cons
    by (auto simp: keep_winner_def Let_def)
qed simp

lemma fold_add_all:
  "winner (foldl fold_add f ss) = foldl keep_winner (winner f) (concat (map sa_writes ss)) \<and>
   candidates (foldl fold_add f ss) =
     (if foldl keep_winner (winner f) (concat (map sa_writes ss)) = None
      then candidates f @ List.map_filter sa_candidate ss
      else if ss = [] then candidates f else [])"
proof (induction ss rule: rev_induct)
  case (snoc s ss)
  have stays: "foldl keep_winner (Some b) ws \<noteq> None" for b ws by (simp add: keep_winner_fold)
  have mf: "List.map_filter sa_candidate (ss @ [s]) = List.map_filter sa_candidate ss @ opt_list (sa_candidate s)"
    by (cases "sa_candidate s") (simp_all add: map_filter_def)
  have none: "foldl keep_winner b ws = None \<Longrightarrow> b = None" for b ws using stays by (cases b) auto
  then show ?case
    using snoc mf by (auto simp: fold_add_def Let_def split: option.split dest: none)
qed (simp add: map_filter_def)

text \<open>C12: The verdict on a file. The fold over the sessions, which forgets its suspects as soon as
  a write is seen, decides as if it had all writes and all suspects before it: any write makes
  the verdict the latest one (the smallest session id, then the last seen, on ties); else the
  suspects, newest window first; else the file is external.\<close>

theorem attribute_verdict:
  "attribute env st sessions repo rel_target mtime =
    (let ws = concat (map (\<lambda>(sid, path, entries). session_edits_to env st sid path entries repo rel_target) sessions);
         cs = List.map_filter (\<lambda>(sid, path, entries). generated_by env st sid path entries repo mtime) sessions
     in if ws \<noteq> [] then (case last (stable_sort rank_le ws) of (sid, evidence) \<Rightarrow> Claude sid evidence)
        else if cs = [] then External
        else Generated (stable_sort (by_key_desc (\<lambda>c. dt_instant (window_end c))) cs))"
proof -
  define ss where "ss = map (\<lambda>(sid, path, entries). session_attribution_of env st sid path entries repo rel_target mtime) sessions"
  have fold: "foldl (\<lambda>f (sid, path, entries). fold_add f (session_attribution_of env st sid path entries repo rel_target mtime))
      a sessions = foldl fold_add a ss" for a
    unfolding ss_def by (induction sessions arbitrary: a) auto
  have ws: "concat (map sa_writes ss) =
      concat (map (\<lambda>(sid, path, entries). session_edits_to env st sid path entries repo rel_target) sessions)"
    by (simp add: ss_def session_attribution_of_def comp_def case_prod_unfold)
  have cs: "List.map_filter sa_candidate ss =
      List.map_filter (\<lambda>(sid, path, entries). generated_by env st sid path entries repo mtime) sessions"
    by (simp add: ss_def session_attribution_of_def map_filter_def comp_def case_prod_unfold filter_map)
  have empty: "stable_sort le xs = [] \<longleftrightarrow> xs = []" for le and xs :: "generated_candidate list"
    by (metis length_0_conv length_stable_sort)
  show ?thesis
    unfolding attribute_def fold fold_verdict_def
    using fold_add_all [of attribution_default ss]
    by (simp add: keep_winner_best attribution_default_def ws cs Let_def empty)
qed

end
