(* ===== verification/Facts.thy ===== *)
theory Facts
  imports Blame ToolFacts Protocol
begin

text \<open>
  \<open>facts.rs\<close>: the tool calls of a lifted session flattened for analytics, the
  insertion-ordered counter and the MCP summary per server. The command prefixes
  (a tree-sitter parse) and the duration in milliseconds (an \<open>f64\<close> rounding) are
  arguments.
\<close>

subsection \<open>Facts\<close>

record tool_fact =
  tf_ts :: datetime
  tf_session_id :: string
  tf_path :: string
  tf_cwd :: "string option"
  tf_tool_use_id :: string
  tf_tool :: string
  tf_command_prefixes :: "string list"
  tf_command :: "string option"
  tf_mcp_server :: "string option"
  tf_mcp_tool :: "string option"
  tf_mcp_access :: "string option"
  tf_file_path :: "string option"
  tf_file_paths :: "string list"
  tf_is_error :: bool
  tf_denied :: bool
  tf_denial_kind :: "string option"
  tf_user_said :: "string option"
  tf_duration_ms :: "int option"

definition mcp_split :: "env \<Rightarrow> string \<Rightarrow> string option \<times> string option \<times> string option" where
  "mcp_split env name = (case mcp_parts name of
      Some (server, tool) \<Rightarrow> (Some server, Some tool, Some (mcp_access env tool))
    | None \<Rightarrow> (None, None, None))"

record tool_result_metadata =
  md_is_error :: bool
  md_denied :: bool
  md_duration_ms :: "int option"

definition result_metadata ::
  "(datetime \<Rightarrow> datetime \<Rightarrow> int) \<Rightarrow> datetime \<Rightarrow> tool_result_block option \<Rightarrow> datetime option \<Rightarrow>
   tool_result_metadata" where
  "result_metadata ms start r stop = \<lparr>
     md_is_error = is_some_and tr_is_error r,
     md_denied = is_some_and (\<lambda>b. tr_denial_kind b = Some DENIAL_KIND_USER_REJECTED) r,
     md_duration_ms = map_option (ms start) stop\<rparr>"

definition fact_of ::
  "env \<Rightarrow> (string \<Rightarrow> string list) \<Rightarrow> (datetime \<Rightarrow> datetime \<Rightarrow> int) \<Rightarrow> tool_use \<Rightarrow> string \<Rightarrow> string \<Rightarrow> tool_fact" where
  "fact_of env cmd_prefixes ms u sid path =
     (let call = tl_call u; name = call_name call;
          (server, tool, access) = mcp_split env name;
          (command, pre) = (case call of TBash b \<Rightarrow> (Some (bc_command b), cmd_prefixes (bc_command b)) | _ \<Rightarrow> (None, []));
          metadata = result_metadata ms (tl_ts u) (tl_result u) (tl_result_ts u)
      in \<lparr>tf_ts = tl_ts u, tf_session_id = sid, tf_path = path, tf_cwd = tl_cwd u,
          tf_tool_use_id = tl_tool_use_id u, tf_tool = name, tf_command_prefixes = pre, tf_command = command,
          tf_mcp_server = server, tf_mcp_tool = tool, tf_mcp_access = access,
          tf_file_path = (case call_file_paths call of p # _ \<Rightarrow> Some p | [] \<Rightarrow> None),
          tf_file_paths = call_file_paths call,
          tf_is_error = md_is_error metadata, tf_denied = md_denied metadata,
          tf_denial_kind = Option.bind (tl_result u) tr_denial_kind,
          tf_user_said = Option.bind (opt_filter (\<lambda>_. md_denied metadata) (tl_result u))
             (\<lambda>b. embedded_user_text (tr_content b)),
          tf_duration_ms = md_duration_ms metadata\<rparr>)"

definition tool_facts ::
  "env \<Rightarrow> registry \<Rightarrow> (string \<Rightarrow> string list) \<Rightarrow> (datetime \<Rightarrow> datetime \<Rightarrow> int) \<Rightarrow> string \<Rightarrow> string \<Rightarrow> entry list \<Rightarrow>
   tool_fact list" where
  "tool_facts env st cmd_prefixes ms sid path entries =
     map (\<lambda>u. fact_of env cmd_prefixes ms u sid path) (session_uses env st sid entries)"

subsection \<open>Counting\<close>

type_synonym tally = "(string, nat) odict"

definition tally_add :: "tally \<Rightarrow> string \<Rightarrow> tally" where
  "tally_add t item = (case od_look t item of
      Some n \<Rightarrow> od_put item (n + 1) t
    | None \<Rightarrow> od_put item 1 t)"

definition most_common :: "tally \<Rightarrow> (string \<times> nat) list" where
  "most_common t = stable_sort (by_key_desc snd) (od_items t)"

definition counter_most_common :: "string list \<Rightarrow> (string \<times> nat) list" where
  "counter_most_common items = most_common (foldl tally_add od_empty items)"

definition command_prefix_counts :: "tool_fact list \<Rightarrow> (string \<times> nat) list" where
  "command_prefix_counts facts = counter_most_common (concat (map tf_command_prefixes facts))"

record server_tally =
  st_read :: nat
  st_write :: nat
  st_total :: nat
  st_tools :: tally

definition server_default :: server_tally where
  "server_default = \<lparr>st_read = 0, st_write = 0, st_total = 0, st_tools = od_empty\<rparr>"

definition server_add :: "server_tally option \<Rightarrow> string \<times> string \<Rightarrow> server_tally" where
  "server_add s ta =
     (let t = opt_default server_default s; (tool, access) = ta in
      \<lparr>st_read = st_read t + of_bool (access = ''read''), st_write = st_write t + of_bool (access = ''write''),
       st_total = st_total t + 1, st_tools = tally_add (st_tools t) tool\<rparr>)"

text \<open>The servers are a hash map; its iteration order is the list order here and the
  summary is shown not to depend on it.\<close>

definition mcp_add :: "(string, server_tally) odict \<Rightarrow> tool_fact \<Rightarrow> (string, server_tally) odict" where
  "mcp_add d f = (case (tf_mcp_server f, tf_mcp_tool f, tf_mcp_access f) of
      (Some server, Some tool, Some access) \<Rightarrow> od_upd server_add d (server, tool, access)
    | _ \<Rightarrow> d)"

record server_summary =
  ss_read :: nat
  ss_write :: nat
  ss_total :: nat
  ss_tools :: "(string \<times> nat) list"

definition summary_of :: "(string \<times> server_tally) list \<Rightarrow> (string \<times> server_summary) list" where
  "summary_of servers =
     stable_sort (then_by (by_key_desc (\<lambda>p. ss_total (snd p))) (by_key fst))
       (map (\<lambda>(server, t). (server, \<lparr>ss_read = st_read t, ss_write = st_write t, ss_total = st_total t,
          ss_tools = most_common (st_tools t)\<rparr>)) servers)"

definition mcp_summary :: "tool_fact list \<Rightarrow> (string \<times> server_summary) list" where
  "mcp_summary facts = summary_of (od_items (foldl mcp_add od_empty facts))"

subsection \<open>The counter\<close>

definition bump :: "nat option \<Rightarrow> unit \<Rightarrow> nat" where
  "bump c _ = (case c of Some n \<Rightarrow> n + 1 | None \<Rightarrow> 1)"

lemma tally_group: "foldl tally_add od_empty xs = od_group bump (map (\<lambda>x. (x, ())) xs)"
proof -
  have step: "tally_add t x = od_upd bump t (x, ())" for t x
    by (simp add: tally_add_def od_upd_def bump_def split: option.split)
  have "foldl tally_add d xs = foldl (od_upd bump) d (map (\<lambda>x. (x, ())) xs)" for d
    by (induction xs arbitrary: d) (simp_all add: step)
  then show ?thesis by (simp add: od_group_def)
qed

lemma fold_bump: "us \<noteq> [] \<Longrightarrow> fold_items bump us = Some (length us)"
proof (induction us rule: rev_induct)
  case (snoc u us)
  then show ?case by (cases "us = []") (simp_all add: bump_def fold_items_def)
qed simp

lemma length_items_of_unit: "length (items_of k (map (\<lambda>x. (x, ())) xs)) = count_list xs k"
  by (induction xs) auto

lemma tally_items:
  "od_items (foldl tally_add od_empty xs) = map (\<lambda>k. (k, count_list xs k)) (first_seen [] xs)"
proof -
  have ne: "items_of k (map (\<lambda>x. (x, ())) xs) \<noteq> []" if "k \<in> set xs" for k
    using that by (auto simp: items_of_eq_Nil image_def)
  show ?thesis
    unfolding tally_group od_group_items by (auto simp: comp_def fold_bump ne length_items_of_unit)
qed

lemma sorted_wrt_unique:
  assumes "mset xs = mset ys" "sorted_wrt le xs" "sorted_wrt le ys"
    and "\<And>x y. x \<in> set xs \<Longrightarrow> y \<in> set xs \<Longrightarrow> le x y \<Longrightarrow> le y x \<Longrightarrow> x = y"
  shows "xs = ys"
  using assms
proof (induction xs arbitrary: ys)
  case (Cons x xs)
  then obtain y ys' where ys: "ys = y # ys'" by (cases ys) auto
  have set: "set (x # xs) = set (y # ys')" using Cons.prems(1) ys by (metis mset_eq_setD)
  have "x = y"
  proof (rule ccontr)
    assume ne: "x \<noteq> y"
    have "le x y" "le y x" using set ne Cons.prems(2,3) ys by auto
    moreover have "y \<in> set (x # xs)" unfolding set by simp
    ultimately show False using ne Cons.prems(4) [of x y] by simp
  qed
  moreover have "xs = ys'"
  proof (rule Cons.IH)
    show "mset xs = mset ys'" using Cons.prems(1) ys \<open>x = y\<close> by simp
    show "sorted_wrt le xs" "sorted_wrt le ys'" using Cons.prems(2,3) ys by auto
    show "\<And>a b. a \<in> set xs \<Longrightarrow> b \<in> set xs \<Longrightarrow> le a b \<Longrightarrow> le b a \<Longrightarrow> a = b" using Cons.prems(4) by auto
  qed
  ultimately show ?case using ys by simp
qed simp

interpretation summary_order: comparator "then_by (by_key_desc (\<lambda>p. ss_total (snd p))) (by_key fst)"
  by (rule comparator_then_by) unfold_locales

text \<open>The summary does not depend on the iteration order of the hash map.\<close>

lemma summary_order_free:
  assumes "mset servers = mset servers'" "distinct (map fst servers)"
  shows "summary_of servers = summary_of servers'"
proof -
  let ?f = "\<lambda>(server, t). (server, \<lparr>ss_read = st_read t, ss_write = st_write t, ss_total = st_total t,
          ss_tools = most_common (st_tools t)\<rparr>)"
  have inj: "p = q" if "p \<in> set servers" "q \<in> set servers" "fst p = fst q" for p q
    using assms(2) that by (metis eq_key_imp_eq_value prod.collapse)
  have eq: "x = y" if "x \<in> set (map ?f servers)" "y \<in> set (map ?f servers)" "fst x = fst y" for x y
  proof -
    obtain p q where pq: "p \<in> set servers" "x = ?f p" "q \<in> set servers" "y = ?f q"
      using \<open>x \<in> _\<close> \<open>y \<in> _\<close> unfolding set_map by (elim imageE) blast
    then have "fst p = fst q" using that(3) by (simp add: case_prod_unfold)
    then have "p = q" by (rule inj [OF pq(1,3)])
    then show ?thesis using pq by simp
  qed
  show ?thesis
    unfolding summary_of_def
  proof (rule sorted_wrt_unique [OF _ summary_order.sorted_stable_sort summary_order.sorted_stable_sort])
    show "mset (stable_sort (then_by (by_key_desc (\<lambda>p. ss_total (snd p))) (by_key fst)) (map ?f servers)) =
        mset (stable_sort (then_by (by_key_desc (\<lambda>p. ss_total (snd p))) (by_key fst)) (map ?f servers'))"
      using assms(1) by simp
    fix x y
    assume xy: "x \<in> set (stable_sort (then_by (by_key_desc (\<lambda>p. ss_total (snd p))) (by_key fst)) (map ?f servers))"
      "y \<in> set (stable_sort (then_by (by_key_desc (\<lambda>p. ss_total (snd p))) (by_key fst)) (map ?f servers))"
      "then_by (by_key_desc (\<lambda>p. ss_total (snd p))) (by_key fst) x y"
      "then_by (by_key_desc (\<lambda>p. ss_total (snd p))) (by_key fst) y x"
    then have "fst x = fst y" unfolding then_by_def by_key_def by (metis order.antisym)
    then show "x = y" using eq xy(1,2) unfolding set_stable_sort by blast
  qed
qed

subsection \<open>The summary per server\<close>

definition mcp_calls :: "tool_fact list \<Rightarrow> (string \<times> string \<times> string) list" where
  "mcp_calls facts = List.map_filter (\<lambda>f. case (tf_mcp_server f, tf_mcp_tool f, tf_mcp_access f) of
      (Some server, Some tool, Some access) \<Rightarrow> Some (server, tool, access) | _ \<Rightarrow> None) facts"

lemma mcp_group: "foldl mcp_add od_empty facts = od_group server_add (mcp_calls facts)"
proof -
  have "foldl mcp_add d facts = foldl (od_upd server_add) d (mcp_calls facts)" for d
    by (induction facts arbitrary: d) (auto simp: mcp_add_def mcp_calls_def map_filter_def split: option.splits)
  then show ?thesis by (simp add: od_group_def)
qed

lemma fold_server:
  "cs \<noteq> [] \<Longrightarrow> fold_items server_add cs = Some
     \<lparr>st_read = length (filter (\<lambda>c. snd c = ''read'') cs), st_write = length (filter (\<lambda>c. snd c = ''write'') cs),
      st_total = length cs, st_tools = foldl tally_add od_empty (map fst cs)\<rparr>"
proof (induction cs rule: rev_induct)
  case (snoc c cs)
  show ?case
  proof (cases "cs = []")
    case True
    then show ?thesis by (simp add: server_add_def server_default_def fold_items_def case_prod_unfold)
  next
    case False
    then show ?thesis using snoc.IH [OF False] by (simp add: server_add_def case_prod_unfold)
  qed
qed simp

definition summary_sound :: "(string \<times> string \<times> string) list \<Rightarrow> string \<times> server_summary \<Rightarrow> bool" where
  "summary_sound calls p \<longleftrightarrow>
     (let cs = items_of (fst p) calls; s = snd p in
      ss_total s = length cs \<and> ss_read s = length (filter (\<lambda>c. snd c = ''read'') cs) \<and>
      ss_write s = length (filter (\<lambda>c. snd c = ''write'') cs) \<and>
      ss_tools s = counter_most_common (map fst cs))"

text \<open>The counter. Counting a list gives its distinct items with their numbers of
  occurrences, the most frequent first, ties in first-seen order.\<close>

theorem counter_counts:
  "counter_most_common items = stable_sort (by_key_desc snd) (map (\<lambda>k. (k, count_list items k)) (first_seen [] items)) \<and>
   sorted_wrt (by_key_desc snd) (counter_most_common items) \<and>
   sum_list (map snd (counter_most_common items)) = length items"
proof -
  have "sum_list (map snd (counter_most_common items)) = sum_list (map (\<lambda>k. count_list items k) (first_seen [] items))"
    unfolding counter_most_common_def most_common_def tally_items
    by (metis (no_types, lifting) comp_apply map_eq_conv map_map mset_map mset_stable_sort snd_conv sum_mset_sum_list)
  also have "\<dots> = length items"
    using sum_items_of [of "first_seen [] items" "map (\<lambda>x. (x, ())) items"]
    by (simp add: length_items_of_unit image_comp comp_def)
  finally show ?thesis
    using key_desc.sorted_stable_sort by (simp add: counter_most_common_def most_common_def tally_items)
qed

text \<open>The MCP summary. It has one row for each server that was called, the larger total first
  and then by name; a row counts the server's calls, its reads, its writes and its tools by
  frequency; and the rows do not depend on the order in which the hash map is walked.\<close>

theorem mcp_summary_counts:
  "let rows = mcp_summary facts; calls = mcp_calls facts
   in distinct (map fst rows) \<and> set (map fst rows) = fst ` set calls \<and>
      sorted_wrt (then_by (by_key_desc (\<lambda>p. ss_total (snd p))) (by_key fst)) rows \<and>
      list_all (summary_sound calls) rows \<and>
      (\<forall>walk. mset walk = mset (od_items (foldl mcp_add od_empty facts)) \<longrightarrow> summary_of walk = rows)"
proof -
  let ?calls = "mcp_calls facts" and ?items = "od_items (foldl mcp_add od_empty facts)"
  let ?row = "\<lambda>k. let cs = items_of k ?calls in (k, \<lparr>ss_read = length (filter (\<lambda>c. snd c = ''read'') cs),
      ss_write = length (filter (\<lambda>c. snd c = ''write'') cs), ss_total = length cs,
      ss_tools = counter_most_common (map fst cs)\<rparr>)"
  let ?ks = "first_seen [] (map fst ?calls)"
  have ne: "items_of k ?calls \<noteq> []" if "k \<in> fst ` set ?calls" for k using that by (simp add: items_of_eq_Nil)
  have rows: "mcp_summary facts =
      stable_sort (then_by (by_key_desc (\<lambda>p. ss_total (snd p))) (by_key fst)) (map ?row ?ks)"
    unfolding mcp_summary_def summary_of_def mcp_group od_group_items map_map
    by (rule arg_cong [of _ _ "stable_sort _"])
      (use ne in \<open>auto simp: fold_server counter_most_common_def Let_def\<close>)
  have d: "distinct (map fst ?items)" by (simp add: mcp_group keys_od_group)
  have free: "summary_of walk = mcp_summary facts" if "mset walk = mset ?items" for walk
    using summary_order_free [OF that [symmetric] d] by (simp add: mcp_summary_def)
  have keys: "distinct (map fst (mcp_summary facts))"
    by (metis (no_types, lifting) rows comp_apply distinct_first_seen distinct.simps(1) fst_conv list.map_id0 id_apply map_map map_idI mset_map mset_stable_sort mset_eq_imp_distinct_iff)
  show ?thesis
    unfolding Let_def
  proof (intro conjI)
    show "distinct (map fst (mcp_summary facts))" by (rule keys)
    show "set (map fst (mcp_summary facts)) = fst ` set ?calls"
      by (simp add: rows Let_def image_comp comp_def)
    show "sorted_wrt (then_by (by_key_desc (\<lambda>p. ss_total (snd p))) (by_key fst)) (mcp_summary facts)"
      unfolding rows by (rule summary_order.sorted_stable_sort)
    show "list_all (summary_sound ?calls) (mcp_summary facts)"
      by (auto simp: rows list_all_iff summary_sound_def Let_def)
    show "\<forall>walk. mset walk = mset ?items \<longrightarrow> summary_of walk = mcp_summary facts"
      using free by blast
  qed
qed


definition sample_fact :: tool_fact where
  "sample_fact = \<lparr>tf_ts = \<lparr>dt_secs = 60, dt_nanos = 0, dt_offset = 0\<rparr>, tf_session_id = ''s1'', tf_path = ''/p'',
     tf_cwd = None, tf_tool_use_id = ''t1'', tf_tool = ''mcp__srv__get_it'', tf_command_prefixes = [], tf_command = None,
     tf_mcp_server = Some ''srv'', tf_mcp_tool = Some ''get_it'', tf_mcp_access = Some ''read'',
     tf_file_path = None, tf_file_paths = [], tf_is_error = False, tf_denied = False, tf_denial_kind = None,
     tf_user_said = None, tf_duration_ms = None\<rparr>"

theorem mcp_summary_counts_witness:
  "list_all (summary_sound [(''srv'', ''get_it'', ''read'')]) (mcp_summary [sample_fact]) \<and>
   summary_of [(''srv'', server_add None (''get_it'', ''read''))] = mcp_summary [sample_fact]"
proof -
  have calls: "mcp_calls [sample_fact] = [(''srv'', ''get_it'', ''read'')]"
    by (simp add: mcp_calls_def sample_fact_def List.map_filter_simps)
  have items: "od_items (foldl mcp_add od_empty [sample_fact]) = [(''srv'', server_add None (''get_it'', ''read''))]"
    by (simp add: mcp_add_def sample_fact_def od_upd_def od_look_def od_put_def od_empty_def od_items_def
        List.map_filter_simps)
  show ?thesis
    using mcp_summary_counts [of "[sample_fact]"] unfolding Let_def calls items by blast
qed

end
