(* ===== verification/Filters.thy ===== *)
theory Filters
  imports Types PyStr Samples
begin

text \<open>
  \<open>filter.rs\<close>: the compiler of the JSON filter contract and its evaluation. The regular
  expression engine, the JSON decoder and the lower-casing tables are fields of the record of
  the other crates. The two built-in specs are given by their JSON values, with the pattern
  groups they share as an argument (the patterns are opaque to everything but the regex engine).
\<close>

subsection \<open>The compiled form\<close>

datatype kind = KUser | KAssistant | KSystem | KMode | KOther | KAttachment

datatype clause_action = DropAction | TagAction

datatype flag = IsSidechain | IsMeta | IsCompactSummary | IsVisibleInTranscriptOnly

datatype predicate =
    KindIs "kind list"
  | MetaFlag flag
  | EntrypointIn "string list"
  | ModelIs "string list"
  | TextEmpty bool
  | TextMatchesAny "string \<Rightarrow> bool"
  | TextInSet "string list" string
  | WordCountAtMost nat

record clause =
  cl_predicate :: predicate
  cl_applies_to :: "kind list"
  cl_negate :: bool
  cl_action :: clause_action
  cl_label :: "string option"

datatype filter_error =
    UnknownKind string
  | UnknownAction string
  | UnknownFlag string
  | UnknownPredicate string
  | MissingField string string
  | InvalidRegex string
  | InvalidJson string

definition parse_kind :: "string \<Rightarrow> filter_error + kind" where
  "parse_kind name =
     (if name = ''user'' then Inr KUser
      else if name = ''assistant'' then Inr KAssistant
      else if name = ''system'' then Inr KSystem
      else if name = ''mode'' then Inr KMode
      else if name = ''other'' then Inr KOther
      else if name = ''attachment'' then Inr KAttachment
      else Inl (UnknownKind name))"

definition parse_action :: "string \<Rightarrow> filter_error + clause_action" where
  "parse_action name =
     (if name = ''drop'' then Inr DropAction
      else if name = ''tag'' then Inr TagAction
      else Inl (UnknownAction name))"

definition meta_flag :: "string \<Rightarrow> filter_error + flag" where
  "meta_flag flag =
     (if flag = ''is_sidechain'' then Inr IsSidechain
      else if flag = ''is_meta'' then Inr IsMeta
      else if flag = ''is_compact_summary'' then Inr IsCompactSummary
      else if flag = ''is_visible_in_transcript_only'' then Inr IsVisibleInTranscriptOnly
      else Inl (UnknownFlag flag))"

definition flag_of :: "flag \<Rightarrow> entry_meta \<Rightarrow> bool" where
  "flag_of f m = (case f of
      IsSidechain \<Rightarrow> is_sidechain m
    | IsMeta \<Rightarrow> is_meta m
    | IsCompactSummary \<Rightarrow> is_compact_summary m
    | IsVisibleInTranscriptOnly \<Rightarrow> is_visible_in_transcript_only m)"

definition str_items :: "json \<Rightarrow> string \<Rightarrow> string list" where
  "str_items predicate key =
     List.map_filter as_str (opt_default [] (Option.bind (field predicate key) as_array))"

definition str_set :: "json \<Rightarrow> string \<Rightarrow> string list" where
  "str_set predicate key = str_items predicate key"

definition kind_array :: "json \<Rightarrow> string \<Rightarrow> filter_error + kind list" where
  "kind_array predicate key = map_res parse_kind (str_items predicate key)"

definition group_pattern :: "json \<Rightarrow> string option" where
  "group_pattern g = Option.bind (as_array g) (\<lambda>xs. case xs of _ # p # _ \<Rightarrow> as_str p | _ \<Rightarrow> None)"

definition compile_group_array :: "env \<Rightarrow> json list \<Rightarrow> bool \<Rightarrow> filter_error + (string \<Rightarrow> bool)" where
  "compile_group_array env groups ignore_case =
     (let joined = join ''|'' (map (\<lambda>p. ''(?:'' @ p @ '')'') (List.map_filter group_pattern groups));
          pattern = (if ignore_case then ''(?i)'' @ joined else joined)
      in ok_or (InvalidRegex pattern) (e_regex env pattern))"

definition compile_regex :: "env \<Rightarrow> json \<Rightarrow> filter_error + (string \<Rightarrow> bool)" where
  "compile_regex env predicate =
     res_bind (ok_or (MissingField ''TextMatchesAny'' ''groups'') (Option.bind (field predicate ''groups'') as_array))
       (\<lambda>groups. compile_group_array env groups (field_bool predicate ''ignore_case''))"

definition compile_predicate :: "env \<Rightarrow> json \<Rightarrow> filter_error + predicate" where
  "compile_predicate env p =
     res_bind (ok_or (MissingField ''predicate'' ''kind'') (field_str p ''kind'')) (\<lambda>kind.
       if kind = ''KindIs'' then res_bind (kind_array p ''kinds'') (\<lambda>ks. Inr (KindIs ks))
       else if kind = ''MetaFlag'' then
         res_bind (ok_or (MissingField ''MetaFlag'' ''flag'') (field_str p ''flag'')) (\<lambda>f.
           res_bind (meta_flag f) (\<lambda>f. Inr (MetaFlag f)))
       else if kind = ''EntrypointIn'' then Inr (EntrypointIn (str_set p ''entrypoints''))
       else if kind = ''ModelIs'' then Inr (ModelIs (str_set p ''models''))
       else if kind = ''TextEmpty'' then Inr (TextEmpty (field_bool p ''consider_tool_use''))
       else if kind = ''TextMatchesAny'' then res_bind (compile_regex env p) (\<lambda>re. Inr (TextMatchesAny re))
       else if kind = ''TextInSet'' then
         Inr (TextInSet (str_set p ''phrases'') (opt_default [] (field_str p ''strip_trailing'')))
       else if kind = ''WordCountAtMost'' then
         res_bind (ok_or (MissingField ''WordCountAtMost'' ''n'') (Option.bind (field p ''n'') as_u64))
           (\<lambda>n. Inr (WordCountAtMost n))
       else Inl (UnknownPredicate kind))"

definition compile_clause :: "env \<Rightarrow> json \<Rightarrow> filter_error + clause" where
  "compile_clause env clause =
     res_bind (ok_or (MissingField ''clause'' ''predicate'') (field clause ''predicate'')) (\<lambda>p.
     res_bind (compile_predicate env p) (\<lambda>predicate.
     res_bind (kind_array clause ''applies_to'') (\<lambda>kinds.
     res_bind (ok_or (MissingField ''clause'' ''action'') (field_str clause ''action'')) (\<lambda>a.
     res_bind (parse_action a) (\<lambda>action.
       Inr \<lparr>cl_predicate = predicate, cl_applies_to = kinds, cl_negate = field_bool clause ''negate'',
            cl_action = action, cl_label = field_str clause ''label''\<rparr>)))))"

definition compile_spec :: "env \<Rightarrow> string \<Rightarrow> filter_error + clause list" where
  "compile_spec env spec_json =
     res_bind (ok_or (InvalidJson spec_json) (e_from_str env spec_json)) (\<lambda>top.
     res_bind (ok_or (MissingField ''spec'' ''clauses'') (Option.bind (field top ''clauses'') as_array))
       (map_res (compile_clause env)))"

subsection \<open>Evaluation\<close>

definition entry_kind_of :: "entry \<Rightarrow> kind" where
  "entry_kind_of e = (case e of
      User _ \<Rightarrow> KUser | Assistant _ \<Rightarrow> KAssistant | System _ \<Rightarrow> KSystem
    | Mode _ \<Rightarrow> KMode | Other _ \<Rightarrow> KOther | Attachment _ \<Rightarrow> KAttachment)"

definition entry_text :: "entry \<Rightarrow> string" where
  "entry_text e = (case e of
      User u \<Rightarrow> user_text (ue_content u)
    | Assistant a \<Rightarrow> joined_text (as_blocks a)
    | _ \<Rightarrow> [])"

definition event_kind :: "entry \<Rightarrow> string" where
  "event_kind e = (case e of
      User _ \<Rightarrow> ''user'' | Assistant _ \<Rightarrow> ''assistant'' | System _ \<Rightarrow> ''system''
    | Mode _ \<Rightarrow> ''mode'' | Other _ \<Rightarrow> ''other'' | Attachment _ \<Rightarrow> ''attachment'')"

definition normalize_bare :: "env \<Rightarrow> string \<Rightarrow> string \<Rightarrow> string" where
  "normalize_bare env text strip_trailing =
     e_lower env (trim (trim_end (\<lambda>c. c \<in> set (chars strip_trailing)) (trim text)))"

definition word_count :: "string \<Rightarrow> nat" where
  "word_count text = length (filter (\<lambda>w. w \<noteq> []) (split_pred is_whitespace text))"

definition is_tool_use_block :: "content_block \<Rightarrow> bool" where
  "is_tool_use_block b = (case b of CToolUse _ \<Rightarrow> True | _ \<Rightarrow> False)"

definition predicate_matches :: "env \<Rightarrow> predicate \<Rightarrow> entry \<Rightarrow> kind \<Rightarrow> string \<Rightarrow> bool" where
  "predicate_matches env p e kind text = (case p of
      KindIs kinds \<Rightarrow> kind \<in> set kinds
    | ModelIs models \<Rightarrow> (case e of Assistant a \<Rightarrow> as_model a \<in> set models | _ \<Rightarrow> False)
    | TextEmpty consider_tool_use \<Rightarrow> (case e of
          Assistant a \<Rightarrow> trim text = [] \<and> \<not> (consider_tool_use \<and> list_ex is_tool_use_block (as_blocks a))
        | User _ \<Rightarrow> trim text = []
        | _ \<Rightarrow> False)
    | TextMatchesAny re \<Rightarrow> re text
    | TextInSet phrases strip_trailing \<Rightarrow> normalize_bare env text strip_trailing \<in> set phrases
    | WordCountAtMost n \<Rightarrow> word_count text \<le> n
    | MetaFlag f \<Rightarrow> is_some_and (flag_of f) (meta e)
    | EntrypointIn es \<Rightarrow> is_some_and (\<lambda>m. is_some_and (\<lambda>x. x \<in> set es) (entrypoint m)) (meta e))"

definition clause_matches :: "env \<Rightarrow> clause \<Rightarrow> entry \<Rightarrow> kind \<Rightarrow> string \<Rightarrow> bool" where
  "clause_matches env c e kind text =
     (if cl_applies_to c \<noteq> [] \<and> kind \<notin> set (cl_applies_to c) then False
      else predicate_matches env (cl_predicate c) e kind text \<noteq> cl_negate c)"

definition spec_keep :: "env \<Rightarrow> clause list \<Rightarrow> entry \<Rightarrow> bool" where
  "spec_keep env spec e =
     (let kind = entry_kind_of e; text = entry_text e in
      \<not> list_ex (\<lambda>c. cl_action c = DropAction \<and> clause_matches env c e kind text) spec)"

definition spec_labels :: "env \<Rightarrow> clause list \<Rightarrow> entry \<Rightarrow> string list" where
  "spec_labels env spec e =
     (let kind = entry_kind_of e; text = entry_text e in
      List.map_filter (\<lambda>c. opt_filter (\<lambda>_. clause_matches env c e kind text) (cl_label c))
        (filter (\<lambda>c. cl_action c = TagAction) spec))"

subsection \<open>The built-in specs\<close>

definition spec_clause :: "json \<Rightarrow> string list \<Rightarrow> bool \<Rightarrow> json" where
  "spec_clause p kinds negate = JObject [(''predicate'', p), (''action'', JString ''drop''),
     (''applies_to'', JArray (map JString kinds)), (''negate'', JBool negate), (''label'', JNull)]"

definition junk_clause :: "json list \<Rightarrow> json" where
  "junk_clause groups = spec_clause (JObject [(''kind'', JString ''TextMatchesAny''), (''groups'', JArray groups),
     (''ignore_case'', JBool True)]) [''user''] False"

definition NOISE_SPEC_JSON :: "json list \<Rightarrow> json" where
  "NOISE_SPEC_JSON groups = JObject [(''clauses'', JArray [junk_clause groups])]"

definition SIGNAL_SPEC_JSON :: "json list \<Rightarrow> json" where
  "SIGNAL_SPEC_JSON groups = JObject [(''clauses'', JArray
     [spec_clause (JObject [(''kind'', JString ''KindIs''), (''kinds'', JArray [JString ''assistant'', JString ''user''])]) [] True,
      junk_clause groups,
      spec_clause (JObject [(''kind'', JString ''ModelIs''), (''models'', JArray [JString ''<synthetic>''])]) [''assistant''] False,
      spec_clause (JObject [(''kind'', JString ''MetaFlag''), (''flag'', JString ''is_sidechain'')]) [] False,
      spec_clause (JObject [(''kind'', JString ''TextEmpty''), (''consider_tool_use'', JBool False)]) [''user''] False,
      spec_clause (JObject [(''kind'', JString ''TextEmpty''), (''consider_tool_use'', JBool True)]) [''assistant''] False])]"


subsection \<open>Compiling and running the built-in specs\<close>

lemmas compile_defs = compile_clause_def compile_predicate_def compile_regex_def kind_array_def str_items_def
  str_set_def spec_clause_def junk_clause_def field_def field_str_def field_bool_def parse_kind_def
  parse_action_def meta_flag_def

lemma compile_kind_clause:
  "compile_clause env (spec_clause (JObject [(''kind'', JString ''KindIs''), (''kinds'', JArray [JString ''assistant'', JString ''user''])]) [] True)
   = Inr \<lparr>cl_predicate = KindIs [KAssistant, KUser], cl_applies_to = [], cl_negate = True, cl_action = DropAction, cl_label = None\<rparr>"
  by (simp add: compile_defs List.map_filter_simps)

lemma compile_junk_clause:
  "compile_group_array env groups True = Inr junk \<Longrightarrow> compile_clause env (junk_clause groups)
   = Inr \<lparr>cl_predicate = TextMatchesAny junk, cl_applies_to = [KUser], cl_negate = False, cl_action = DropAction, cl_label = None\<rparr>"
  by (simp add: compile_defs List.map_filter_simps)

lemma compile_model_clause:
  "compile_clause env (spec_clause (JObject [(''kind'', JString ''ModelIs''), (''models'', JArray [JString ''<synthetic>''])]) [''assistant''] False)
   = Inr \<lparr>cl_predicate = ModelIs [''<synthetic>''], cl_applies_to = [KAssistant], cl_negate = False, cl_action = DropAction, cl_label = None\<rparr>"
  by (simp add: compile_defs List.map_filter_simps)

lemma compile_sidechain_clause:
  "compile_clause env (spec_clause (JObject [(''kind'', JString ''MetaFlag''), (''flag'', JString ''is_sidechain'')]) [] False)
   = Inr \<lparr>cl_predicate = MetaFlag IsSidechain, cl_applies_to = [], cl_negate = False, cl_action = DropAction, cl_label = None\<rparr>"
  by (simp add: compile_defs List.map_filter_simps)

lemma compile_user_empty_clause:
  "compile_clause env (spec_clause (JObject [(''kind'', JString ''TextEmpty''), (''consider_tool_use'', JBool False)]) [''user''] False)
   = Inr \<lparr>cl_predicate = TextEmpty False, cl_applies_to = [KUser], cl_negate = False, cl_action = DropAction, cl_label = None\<rparr>"
  by (simp add: compile_defs List.map_filter_simps)

lemma compile_assistant_empty_clause:
  "compile_clause env (spec_clause (JObject [(''kind'', JString ''TextEmpty''), (''consider_tool_use'', JBool True)]) [''assistant''] False)
   = Inr \<lparr>cl_predicate = TextEmpty True, cl_applies_to = [KAssistant], cl_negate = False, cl_action = DropAction, cl_label = None\<rparr>"
  by (simp add: compile_defs List.map_filter_simps)

lemmas compiled_clauses = compile_kind_clause compile_junk_clause compile_model_clause compile_sidechain_clause
  compile_user_empty_clause compile_assistant_empty_clause

definition signal_clauses :: "(string \<Rightarrow> bool) \<Rightarrow> clause list" where
  "signal_clauses junk = [
     \<lparr>cl_predicate = KindIs [KAssistant, KUser], cl_applies_to = [], cl_negate = True, cl_action = DropAction, cl_label = None\<rparr>,
     \<lparr>cl_predicate = TextMatchesAny junk, cl_applies_to = [KUser], cl_negate = False, cl_action = DropAction, cl_label = None\<rparr>,
     \<lparr>cl_predicate = ModelIs [''<synthetic>''], cl_applies_to = [KAssistant], cl_negate = False, cl_action = DropAction, cl_label = None\<rparr>,
     \<lparr>cl_predicate = MetaFlag IsSidechain, cl_applies_to = [], cl_negate = False, cl_action = DropAction, cl_label = None\<rparr>,
     \<lparr>cl_predicate = TextEmpty False, cl_applies_to = [KUser], cl_negate = False, cl_action = DropAction, cl_label = None\<rparr>,
     \<lparr>cl_predicate = TextEmpty True, cl_applies_to = [KAssistant], cl_negate = False, cl_action = DropAction, cl_label = None\<rparr>]"

lemma compile_signal:
  assumes "e_from_str env text = Some (SIGNAL_SPEC_JSON groups)" "compile_group_array env groups True = Inr junk"
  shows "compile_spec env text = Inr (signal_clauses junk)"
proof -
  have "Option.bind (field (SIGNAL_SPEC_JSON groups) ''clauses'') as_array = Some
     [spec_clause (JObject [(''kind'', JString ''KindIs''), (''kinds'', JArray [JString ''assistant'', JString ''user''])]) [] True,
      junk_clause groups,
      spec_clause (JObject [(''kind'', JString ''ModelIs''), (''models'', JArray [JString ''<synthetic>''])]) [''assistant''] False,
      spec_clause (JObject [(''kind'', JString ''MetaFlag''), (''flag'', JString ''is_sidechain'')]) [] False,
      spec_clause (JObject [(''kind'', JString ''TextEmpty''), (''consider_tool_use'', JBool False)]) [''user''] False,
      spec_clause (JObject [(''kind'', JString ''TextEmpty''), (''consider_tool_use'', JBool True)]) [''assistant''] False]"
    by (simp add: SIGNAL_SPEC_JSON_def field_def)
  then show ?thesis
    by (simp add: compile_spec_def assms(1) compiled_clauses assms(2) signal_clauses_def)
qed

text \<open>What \<open>--signal\<close> keeps. Given the decoded built-in spec and a compiled junk
  pattern, the spec compiles, and it keeps exactly the user entries that are not junk, not on
  a sidechain and not blank, and the assistant entries of a real model, not on a sidechain,
  with text or a tool call; no other entry passes.\<close>

theorem signal_spec_keeps:
  assumes "e_from_str env spec_text = Some (SIGNAL_SPEC_JSON groups)"
    and "compile_group_array env groups True = Inr junk"
  shows "\<exists>spec. compile_spec env spec_text = Inr spec \<and> spec_labels env spec e = [] \<and>
    spec_keep env spec e =
      (case e of
         User u \<Rightarrow> \<not> junk (entry_text e) \<and> \<not> is_sidechain (ue_meta u) \<and> trim (entry_text e) \<noteq> []
       | Assistant a \<Rightarrow> as_model a \<noteq> ''<synthetic>'' \<and> \<not> is_sidechain (as_meta a) \<and>
           (trim (entry_text e) \<noteq> [] \<or> list_ex is_tool_use_block (as_blocks a))
       | _ \<Rightarrow> False)"
proof -
  have "spec_labels env (signal_clauses junk) e = []"
    by (simp add: spec_labels_def signal_clauses_def List.map_filter_simps)
  moreover have "spec_keep env (signal_clauses junk) e =
      (case e of
         User u \<Rightarrow> \<not> junk (entry_text e) \<and> \<not> is_sidechain (ue_meta u) \<and> trim (entry_text e) \<noteq> []
       | Assistant a \<Rightarrow> as_model a \<noteq> ''<synthetic>'' \<and> \<not> is_sidechain (as_meta a) \<and>
           (trim (entry_text e) \<noteq> [] \<or> list_ex is_tool_use_block (as_blocks a))
       | _ \<Rightarrow> False)"
    by (cases e) (auto simp: spec_keep_def signal_clauses_def clause_matches_def predicate_matches_def
        entry_kind_of_def meta_def flag_of_def Let_def)
  ultimately show ?thesis using compile_signal [OF assms] by blast
qed

definition sample_spec_env :: env where
  "sample_spec_env = sample_env [(''spec'', SIGNAL_SPEC_JSON [])]"

definition sample_reply :: assistant_entry where
  "sample_reply = \<lparr>as_meta = \<lparr>uuid = ''u1'', parent_uuid = None, em_session_id = ''s1'',
     timestamp = \<lparr>dt_secs = 60, dt_nanos = 0, dt_offset = 0\<rparr>, em_cwd = None, git_branch = None,
     version = None, is_sidechain = False, is_meta = False, entrypoint = None,
     is_compact_summary = False, is_visible_in_transcript_only = False, user_type = None, slug = None\<rparr>,
     as_model = ''m'', as_blocks = [CToolUse \<lparr>tu_id = ''t1'', tu_name = ''Read'', tu_run_in_background = None,
     tu_subagent_type = None, tu_file_path = None, tu_questions = None, tu_input = JNull\<rparr>],
     as_stop_reason = None, as_usage = None, request_id = None, forked_from = None,
     as_attribution = None, as_api_error = None\<rparr>"

theorem signal_spec_keeps_witness:
  "\<exists>spec. compile_spec sample_spec_env ''spec'' = Inr spec \<and>
     spec_keep sample_spec_env spec (Assistant sample_reply)"
proof -
  have "compile_group_array sample_spec_env [] True = Inr (contains_str ''(?i)'')"
    by (simp add: compile_group_array_def List.map_filter_simps sample_spec_env_def)
  moreover have "e_from_str sample_spec_env ''spec'' = Some (SIGNAL_SPEC_JSON [])" by (simp add: sample_spec_env_def)
  ultimately obtain spec where "compile_spec sample_spec_env ''spec'' = Inr spec"
    "spec_keep sample_spec_env spec (Assistant sample_reply) = True"
    using signal_spec_keeps [of sample_spec_env "''spec''" "[]" "contains_str ''(?i)''" "Assistant sample_reply"]
    by (auto simp: sample_reply_def is_tool_use_block_def)
  then show ?thesis by blast
qed

end
