(* ===== verification/Buckets.thy ===== *)
theory Buckets
  imports Grouping Types PyStr
begin

text \<open>
  \<open>buckets.rs\<close>: the conversational events of a session grouped into three-minute
  windows. The junk pattern is the argument \<open>junk\<close>. A timestamp is the UTC instant with
  its offset; a window is aligned on the local minute. The span of a session fits 64-bit
  microseconds (an RFC 3339 year has four digits), so the index is an integer here.
\<close>

subsection \<open>Windows\<close>

definition BUCKET_MINUTES :: int where "BUCKET_MINUTES = 3"


text \<open>chrono's field setters act on the local time, the instant plus the offset.\<close>

definition local_secs :: "datetime \<Rightarrow> int" where
  "local_secs t = dt_secs t + dt_offset t"

definition dt_minute :: "datetime \<Rightarrow> int" where
  "dt_minute t = local_secs t div 60 mod 60"

definition with_minute :: "datetime \<Rightarrow> int \<Rightarrow> datetime" where
  "with_minute t m = t\<lparr>dt_secs := dt_secs t + (m - dt_minute t) * 60\<rparr>"

definition with_second :: "datetime \<Rightarrow> int \<Rightarrow> datetime" where
  "with_second t s = t\<lparr>dt_secs := dt_secs t + (s - local_secs t mod 60)\<rparr>"

definition with_nanosecond :: "datetime \<Rightarrow> nat \<Rightarrow> datetime" where
  "with_nanosecond t n = t\<lparr>dt_nanos := n\<rparr>"

definition align_to_bucket :: "datetime \<Rightarrow> datetime" where
  "align_to_bucket ts =
     with_nanosecond (with_second (with_minute ts (dt_minute ts div BUCKET_MINUTES * BUCKET_MINUTES)) 0) 0"

text \<open>Rust's integer division truncates towards zero, as \<open>num_microseconds\<close> does.\<close>

definition quot :: "int \<Rightarrow> int \<Rightarrow> int" where
  "quot a b = sgn a * sgn b * (\<bar>a\<bar> div \<bar>b\<bar>)"

definition bucket_index :: "datetime \<Rightarrow> datetime \<Rightarrow> int" where
  "bucket_index ts session_start =
     quot (quot (dt_instant ts - dt_instant session_start) 1000) (BUCKET_MINUTES * 60000000)"

text \<open>\<open>expect\<close>: only user and assistant entries, which carry meta, reach this.\<close>

definition entry_timestamp :: "entry \<Rightarrow> datetime" where
  "entry_timestamp e = timestamp (the (meta e))"





subsection \<open>Grouping\<close>

definition bucket_session :: "(string \<Rightarrow> bool) \<Rightarrow> entry \<Rightarrow> string option" where
  "bucket_session junk e = (case e of
      User u \<Rightarrow> if junk (user_text (ue_content u)) then None else Some (em_session_id (ue_meta u))
    | Assistant a \<Rightarrow> Some (em_session_id (as_meta a))
    | _ \<Rightarrow> None)"






subsection \<open>Alignment\<close>








text \<open>From the session's start on, the truncating index is the floor.\<close>

lemma bucket_index_floor:
  assumes "dt_instant start \<le> dt_instant ts"
  shows "bucket_index ts start = (dt_instant ts - dt_instant start) div (180 * 10 ^ 9)"
proof -
  let ?d = "dt_instant ts - dt_instant start"
  have q: "quot a b = a div b" if "0 \<le> a" "0 < b" for a b
    using that by (cases "a = 0") (simp_all add: quot_def)
  have d: "0 \<le> ?d" using assms by simp
  then have "0 \<le> ?d div 1000" by (simp add: pos_imp_zdiv_nonneg_iff)
  then have "bucket_index ts start = ?d div 1000 div 180000000"
    using d by (simp add: bucket_index_def q BUCKET_MINUTES_def)
  also have "\<dots> = ?d div (1000 * 180000000)" by (rule zdiv_zmult2_eq [symmetric]) simp
  finally show ?thesis by simp
qed

lemma bucket_index_mono:
  "dt_instant start \<le> dt_instant a \<Longrightarrow> dt_instant a \<le> dt_instant b \<Longrightarrow> bucket_index a start \<le> bucket_index b start"
  by (simp add: bucket_index_floor zdiv_mono1)


subsection \<open>The groups\<close>









subsection \<open>Properties\<close>

definition timed :: "(string \<Rightarrow> bool) \<Rightarrow> entry list \<Rightarrow> string \<Rightarrow> entry list" where
  "timed junk entries s = stable_sort (by_key (\<lambda>e. dt_instant (entry_timestamp e)))
     (filter (\<lambda>e. bucket_session junk e = Some s) entries)"





definition session_start :: "(string \<Rightarrow> bool) \<Rightarrow> entry list \<Rightarrow> string \<Rightarrow> datetime" where
  "session_start junk entries s = align_to_bucket (entry_timestamp (hd (timed junk entries s)))"














end
