(* ===== verification/RawWindow.thy ===== *)
theory RawWindow
  imports Prelude PyStr
begin

text \<open>
  \<open>snapshot_raw_window.rs\<close>: the line windows around the matching lines of a raw
  transcript, the earliest and the newest \<open>limit\<close> of them, and their byte ranges. A
  range is a pair of its start and its exclusive end. An assertion that fails is \<^const>\<open>None\<close>.
  The capacities of the retained vectors (\<open>selection_work_bound\<close>) are left out.
\<close>

subsection \<open>Windows of lines\<close>

record match_window =
  mw_hit :: nat
  mw_lines :: "nat \<times> nat"

record retained_windows =
  rw_earliest :: "match_window list"
  rw_newest :: "match_window list"

definition retain_window :: "nat \<Rightarrow> match_window \<Rightarrow> retained_windows \<Rightarrow> retained_windows" where
  "retain_window limit w r = \<lparr>
     rw_earliest = (if length (rw_earliest r) < limit then rw_earliest r @ [w] else rw_earliest r),
     rw_newest = (if length (rw_newest r) = limit then tl (rw_newest r) else rw_newest r) @ [w]\<rparr>"

definition window_end :: "nat \<Rightarrow> nat \<Rightarrow> nat" where
  "window_end hit around = sat_add (sat_add hit around) 1"

definition close_at :: "nat \<Rightarrow> match_window \<Rightarrow> match_window" where
  "close_at stop w = w\<lparr>mw_lines := (fst (mw_lines w), stop)\<rparr>"

fun scan_hits ::
  "nat \<Rightarrow> nat \<Rightarrow> nat \<Rightarrow> match_window option \<Rightarrow> retained_windows \<Rightarrow> nat list \<Rightarrow>
   (match_window option \<times> retained_windows) option" where
  "scan_hits line_count around limit pending r [] = Some (pending, r)"
| "scan_hits line_count around limit pending r (hit # hits) =
     (if \<not> hit < line_count \<or> is_some_and (\<lambda>w. \<not> mw_hit w < hit) pending then None
      else
        (let previous_end = (case pending of None \<Rightarrow> 0 | Some w \<Rightarrow> window_end (mw_hit w) around);
             r' = (case pending of
                 None \<Rightarrow> r
               | Some previous \<Rightarrow> retain_window limit (close_at (min previous_end hit) previous) r)
         in scan_hits line_count around limit
              (Some \<lparr>mw_hit = hit, mw_lines = (max (hit - around) (min previous_end hit), line_count)\<rparr>) r' hits))"

definition selected_ranges :: "nat \<Rightarrow> nat list \<Rightarrow> nat \<Rightarrow> nat \<Rightarrow> (nat \<times> nat) list option" where
  "selected_ranges line_count hits around limit =
     (if limit = 0 then Some []
      else map_option (\<lambda>(pending, r0).
        let r = (case pending of
                None \<Rightarrow> r0
              | Some previous \<Rightarrow>
                  retain_window limit (close_at (min (window_end (mw_hit previous) around) line_count) previous) r0);
            first_end = (if rw_earliest r = [] then None else Some (mw_hit (last (rw_earliest r))))
        in map mw_lines (rw_earliest r @ filter (\<lambda>w. case first_end of None \<Rightarrow> True | Some e \<Rightarrow> e < mw_hit w) (rw_newest r)))
       (scan_hits line_count around limit None \<lparr>rw_earliest = [], rw_newest = []\<rparr> hits))"

subsection \<open>The bytes\<close>

fun split_inclusive :: "char \<Rightarrow> string \<Rightarrow> string list" where
  "split_inclusive d [] = []"
| "split_inclusive d (c # cs) =
     (if c = d then [c] # split_inclusive d cs
      else (case split_inclusive d cs of [] \<Rightarrow> [[c]] | p # ps \<Rightarrow> (c # p) # ps))"

record raw_window =
  rw_bytes :: string
  rw_line_count :: nat

definition from_line_boundary_bytes :: "string \<Rightarrow> raw_window" where
  "from_line_boundary_bytes bytes = \<lparr>rw_bytes = bytes,
     rw_line_count = length (filter (\<lambda>c. c = byte 10) bytes) + of_bool (bytes \<noteq> [] \<and> last bytes \<noteq> byte 10)\<rparr>"

definition raw_lines :: "raw_window \<Rightarrow> string list" where
  "raw_lines w = filter (\<lambda>l. l \<noteq> []) (split_inclusive (byte 10) (rw_bytes w))"

definition line_hits :: "raw_window \<Rightarrow> string list \<Rightarrow> nat list" where
  "line_hits w forms = List.map_filter (\<lambda>(index, line).
       if list_ex (\<lambda>form. form \<noteq> [] \<and> contains_str form line) forms then Some index else None)
     (enumerate 0 (raw_lines w))"

text \<open>The pass over the lines: the ranges found so far, those still to come, the index, the
  offset and the start of the open range.\<close>

fun select_loop ::
  "(nat \<times> nat) list \<Rightarrow> (nat \<times> nat) list \<Rightarrow> nat \<Rightarrow> nat \<Rightarrow> nat option \<Rightarrow> string list \<Rightarrow> (nat \<times> nat) list option" where
  "select_loop out [] index offset start lines = Some out"
| "select_loop out (r # ranges) index offset start [] = None"
| "select_loop out (r # ranges) index offset start (line # lines) =
     (let start' = (if start = None \<and> index = fst r then Some offset else start);
          offset' = offset + length line
      in if index + 1 = snd r
         then (case start' of
             None \<Rightarrow> None
           | Some s \<Rightarrow> select_loop (out @ [(s, offset')]) ranges (index + 1) offset' None lines)
         else select_loop out (r # ranges) (index + 1) offset' start' lines)"

definition select :: "raw_window \<Rightarrow> string list \<Rightarrow> nat \<Rightarrow> nat \<Rightarrow> (nat \<times> nat) list option" where
  "select w forms around limit =
     Option.bind (selected_ranges (rw_line_count w) (line_hits w forms) around limit)
       (\<lambda>ranges. select_loop [] ranges 0 0 None (raw_lines w))"

definition lines_rev :: "raw_window \<Rightarrow> string list" where
  "lines_rev w = filter (\<lambda>l. l \<noteq> []) (rev (split_inclusive (byte 10) (rw_bytes w)))"

definition selected_bytes :: "raw_window \<Rightarrow> nat \<times> nat \<Rightarrow> string option" where
  "selected_bytes w r =
     (if fst r \<le> snd r \<and> snd r \<le> length (rw_bytes w)
      then Some (take (snd r - fst r) (drop (fst r) (rw_bytes w))) else None)"

subsection \<open>The windows, by recursion over the hits\<close>

fun windows :: "nat \<Rightarrow> nat \<Rightarrow> nat \<Rightarrow> nat list \<Rightarrow> match_window list" where
  "windows line_count around prev [] = []"
| "windows line_count around prev [h] =
     [\<lparr>mw_hit = h, mw_lines = (max (h - around) (min prev h), min (window_end h around) line_count)\<rparr>]"
| "windows line_count around prev (h # h' # hs) =
     \<lparr>mw_hit = h, mw_lines = (max (h - around) (min prev h), min (window_end h around) h')\<rparr>
     # windows line_count around (window_end h around) (h' # hs)"

lemma windows_hits [simp]: "map mw_hit (windows n a p hs) = hs"
  by (induction n a p hs rule: windows.induct) simp_all

lemma length_windows [simp]: "length (windows n a p hs) = length hs"
  by (metis length_map windows_hits)

definition retain_all :: "nat \<Rightarrow> match_window list \<Rightarrow> retained_windows \<Rightarrow> retained_windows" where
  "retain_all limit ws r = foldl (\<lambda>r w. retain_window limit w r) r ws"

lemma retain_all_simps [simp]:
  "retain_all limit [] r = r" "retain_all limit (w # ws) r = retain_all limit ws (retain_window limit w r)"
  by (simp_all add: retain_all_def)

lemma retain_all_snoc: "retain_all limit (ws @ [w]) r = retain_window limit w (retain_all limit ws r)"
  by (simp add: retain_all_def)

lemma retain_all_from_empty:
  assumes "0 < limit"
  shows "retain_all limit ws \<lparr>rw_earliest = [], rw_newest = []\<rparr> =
    \<lparr>rw_earliest = take limit ws, rw_newest = drop (length ws - limit) ws\<rparr>"
proof (induction ws rule: rev_induct)
  case (snoc w ws)
  have "tl (drop (length ws - limit) ws) = drop (Suc (length ws) - limit) ws" if "limit \<le> length ws"
    using that by (simp add: drop_Suc tl_drop Suc_diff_le)
  then show ?case
    using assms by (auto simp: retain_all_snoc snoc.IH retain_window_def min_def)
qed simp

lemma scan_windows:
  assumes "sorted_wrt (<) (h # hs)" "\<forall>x\<in>set (h # hs). x < n"
  shows "\<exists>w r'. scan_hits n a limit (Some \<lparr>mw_hit = h, mw_lines = (max (h - a) (min p h), n)\<rparr>) r hs = Some (Some w, r') \<and>
    retain_window limit (close_at (min (window_end (mw_hit w) a) n) w) r' =
      retain_all limit (windows n a p (h # hs)) r"
  using assms
proof (induction hs arbitrary: h p r)
  case Nil
  then show ?case by (simp add: close_at_def)
next
  case (Cons h' hs)
  let ?r = "retain_window limit \<lparr>mw_hit = h, mw_lines = (max (h - a) (min p h), min (window_end h a) h')\<rparr> r"
  have "\<exists>w r'. scan_hits n a limit (Some \<lparr>mw_hit = h', mw_lines = (max (h' - a) (min (window_end h a) h'), n)\<rparr>) ?r hs = Some (Some w, r') \<and>
    retain_window limit (close_at (min (window_end (mw_hit w) a) n) w) r' =
      retain_all limit (windows n a (window_end h a) (h' # hs)) ?r"
    using Cons.prems by (intro Cons.IH) auto
  then show ?case using Cons.prems by (simp add: close_at_def Let_def)
qed


text \<open>The lines within \<open>around\<close> of a hit, on either side.\<close>

definition near :: "nat \<Rightarrow> nat list \<Rightarrow> nat \<Rightarrow> bool" where
  "near around hits l \<longleftrightarrow> (\<exists>h\<in>set hits. h \<le> l + around \<and> l \<le> h + around)"

definition covered :: "(nat \<times> nat) list \<Rightarrow> nat \<Rightarrow> bool" where
  "covered rs l \<longleftrightarrow> (\<exists>r\<in>set rs. fst r \<le> l \<and> l < snd r)"

definition hits_ok :: "nat \<Rightarrow> nat list \<Rightarrow> bool" where
  "hits_ok n hits \<longleftrightarrow> sorted_wrt (<) hits \<and> list_all (\<lambda>h. h < n) hits \<and> n \<le> usize_max"

lemma hits_ok_Cons: "hits_ok n (h # hs) \<longleftrightarrow> h < n \<and> list_all (\<lambda>x. h < x) hs \<and> hits_ok n hs"
  by (auto simp: hits_ok_def list_all_iff)

lemma window_end_less: "l < usize_max \<Longrightarrow> l < window_end h a \<longleftrightarrow> l \<le> h + a"
  by (auto simp: window_end_def sat_add_def)

lemma window_end_gt: "h < usize_max \<Longrightarrow> h < window_end h a"
  by (simp add: window_end_less)

lemma windows_bounds:
  "hits_ok n hs \<Longrightarrow>
   list_all (\<lambda>w. fst (mw_lines w) \<le> mw_hit w \<and> mw_hit w < snd (mw_lines w) \<and> snd (mw_lines w) \<le> n) (windows n a p hs)"
proof (induction n a p hs rule: windows.induct)
  case (2 n a p h)
  then show ?case using window_end_gt [of h a] by (auto simp: hits_ok_def)
next
  case (3 n a p h h' hs)
  then show ?case using window_end_gt [of h a] by (auto simp: hits_ok_Cons hits_ok_def)
qed simp

lemma windows_start:
  "w \<in> set (windows n a p (h # hs)) \<Longrightarrow> hits_ok n (h # hs) \<Longrightarrow> min p h \<le> fst (mw_lines w)"
proof (induction hs arbitrary: h p)
  case Nil
  then show ?case by simp
next
  case (Cons h' hs)
  have ok: "hits_ok n (h' # hs)" "h < h'" "h < usize_max" using Cons.prems(2) by (auto simp: hits_ok_Cons hits_ok_def)
  consider "fst (mw_lines w) = max (h - a) (min p h)" | "w \<in> set (windows n a (window_end h a) (h' # hs))"
    using Cons.prems(1) by fastforce
  then show ?case
  proof cases
    case 2
    then show ?thesis using Cons.IH [OF _ ok(1)] ok(2) window_end_gt [OF ok(3), of a] by fastforce
  qed simp
qed

lemma windows_disjoint:
  "hits_ok n hs \<Longrightarrow> sorted_wrt (\<lambda>u v. snd (mw_lines u) \<le> fst (mw_lines v)) (windows n a p hs)"
proof (induction n a p hs rule: windows.induct)
  case (3 n a p h h' hs)
  have ok: "hits_ok n (h' # hs)" using 3 by (simp add: hits_ok_Cons)
  show ?case using 3 ok windows_start [OF _ ok] by auto
qed simp_all

lemma windows_cover:
  "hits_ok n (h # hs) \<Longrightarrow>
   covered (map mw_lines (windows n a p (h # hs))) l \<longleftrightarrow> l < n \<and> min p h \<le> l \<and> near a (h # hs) l"
proof (induction hs arbitrary: h p)
  case Nil
  then have "h < n" "n \<le> usize_max" by (auto simp: hits_ok_def)
  then show ?case using window_end_less [of l h a] by (auto simp: covered_def near_def)
next
  case (Cons h' hs)
  have ok: "hits_ok n (h' # hs)" "h < h'" "h' < n" "n \<le> usize_max" using Cons.prems by (auto simp: hits_ok_Cons hits_ok_def)
  have later: "\<And>x. x \<in> set (h' # hs) \<Longrightarrow> h < x" using Cons.prems by (auto simp: hits_ok_Cons list_all_iff)
  let ?e = "window_end h a"
  have split: "covered (map mw_lines (windows n a p (h # h' # hs))) l \<longleftrightarrow>
      (max (h - a) (min p h) \<le> l \<and> l < min ?e h') \<or> (l < n \<and> min ?e h' \<le> l \<and> near a (h' # hs) l)"
    using Cons.IH [OF ok(1), of ?e] by (simp add: covered_def)
  have near: "near a (h # h' # hs) l \<longleftrightarrow> (h \<le> l + a \<and> l \<le> h + a) \<or> near a (h' # hs) l"
    by (auto simp: near_def)
  show ?case
  proof (cases "l < n")
    case True
    then have e: "l < ?e \<longleftrightarrow> l \<le> h + a" using ok(4) window_end_less [of l h a] by simp
    have up: "near a (h' # hs) l" if "h' \<le> l" "l \<le> h + a" using that ok(2) by (auto simp: near_def)
    have down: "h \<le> l + a" if "near a (h' # hs) l" using that later by (force simp: near_def)
    show ?thesis
    proof (cases "l < min ?e h'")
      case True
      then show ?thesis using split near e down \<open>l < n\<close> by auto
    next
      case False
      then have "min ?e h' \<le> l" by linarith
      moreover have "min p h \<le> min ?e h'" using ok(2-4) window_end_gt [of h a] by auto
      ultimately show ?thesis using split near e up \<open>l < n\<close> by auto
    qed
  next
    case False
    then show ?thesis using split ok(3) by auto
  qed
qed

subsection \<open>The earliest and the newest\<close>

lemma filter_after_nth:
  assumes "sorted_wrt (\<lambda>u v. f u < (f v :: nat)) ws" "i < length ws"
  shows "filter (\<lambda>w. f (ws ! i) < f w) (drop k ws) = drop (max (Suc i) k) ws"
proof -
  have base: "filter (\<lambda>w. f (ws ! i) < f w) ws = drop (Suc i) ws"
    if "sorted_wrt (\<lambda>u v. f u < f v) ws" "i < length ws" for i ws
    using that
  proof (induction ws arbitrary: i)
    case (Cons w ws)
    show ?case
    proof (cases i)
      case 0
      then show ?thesis using Cons.prems by (auto simp: filter_id_conv)
    next
      case (Suc j)
      then have "\<not> f (ws ! j) < f w" using Cons.prems by (auto simp: list_all_iff not_less intro: less_imp_le)
      then show ?thesis using Suc Cons by simp
    qed
  qed simp
  show ?thesis
  proof (cases "k \<le> i")
    case True
    then have "(drop k ws) ! (i - k) = ws ! i" using assms(2) by simp
    then show ?thesis
      using base [of "drop k ws" "i - k"] assms True by (simp add: sorted_wrt_drop Suc_diff_le max_def)
  next
    case False
    have "f (ws ! i) < f w" if "w \<in> set (drop k ws)" for w
    proof -
      obtain j where "j < length (drop k ws)" "drop k ws ! j = w" using \<open>w \<in> set (drop k ws)\<close> unfolding in_set_conv_nth by blast
      then have "j < length ws - k" "w = ws ! (k + j)" by auto
      then show ?thesis using assms(1) False by (simp add: sorted_wrt_iff_nth_less)
    qed
    then show ?thesis using False by (simp add: filter_id_conv max_def)
  qed
qed

definition ends :: "nat \<Rightarrow> 'a list \<Rightarrow> 'a list" where
  "ends limit ws = take limit ws @ drop (max limit (length ws - limit)) ws"

lemma selected_windows:
  assumes "hits_ok n hits"
  shows "selected_ranges n hits a limit = Some (ends limit (map mw_lines (windows n a 0 hits)))"
proof (cases "limit = 0 \<or> hits = []")
  case True
  then show ?thesis by (auto simp: selected_ranges_def ends_def)
next
  case False
  then obtain h hs where hits: "hits = h # hs" by (cases hits) auto
  let ?ws = "windows n a 0 hits" and ?e = "\<lparr>rw_earliest = [], rw_newest = []\<rparr>"
  have sorted: "sorted_wrt (<) (h # hs)" "\<forall>x\<in>set (h # hs). x < n"
    using assms by (auto simp: hits hits_ok_def list_all_iff)
  obtain w r' where scan: "scan_hits n a limit (Some \<lparr>mw_hit = h, mw_lines = (max (h - a) (min 0 h), n)\<rparr>) ?e hs = Some (Some w, r')"
    "retain_window limit (close_at (min (window_end (mw_hit w) a) n) w) r' = retain_all limit ?ws ?e"
    using scan_windows [OF sorted] unfolding hits by blast
  have all: "retain_all limit ?ws ?e = \<lparr>rw_earliest = take limit ?ws, rw_newest = drop (length ?ws - limit) ?ws\<rparr>"
    using False by (intro retain_all_from_empty) simp
  have ne: "take limit ?ws \<noteq> []" using False by (metis length_0_conv length_windows take_eq_Nil)
  let ?i = "min limit (length hits) - 1"
  have i: "?i < length hits" "Suc ?i = min limit (length hits)" using False by (auto simp: min_def)
  have last: "last (take limit ?ws) = ?ws ! ?i" using ne i by (simp add: last_conv_nth min.commute)
  have "sorted_wrt (\<lambda>u v. mw_hit u < mw_hit v) ?ws"
    using sorted(1) sorted_wrt_map [of "(<)" mw_hit ?ws] by (simp add: hits)
  from filter_after_nth [OF this, unfolded length_windows, OF i(1), of "length hits - limit"]
  have rest: "filter (\<lambda>w. mw_hit (?ws ! ?i) < mw_hit w) (drop (length hits - limit) ?ws) =
      drop (max limit (length hits - limit)) ?ws"
    unfolding i(2) by (cases "limit \<le> length hits") (auto simp: min_def max_def)
  have step: "scan_hits n a limit None ?e hits = Some (Some w, r')"
    using scan(1) sorted(2) by (simp add: hits)
  show ?thesis
    using False ne by (simp add: selected_ranges_def step scan(2) all last rest [unfolded length_windows One_nat_def] ends_def
        Let_def drop_map take_map)
qed


lemma selected_ranges_sound:
  assumes "hits_ok n hits"
  shows "list_all (\<lambda>r. fst r < snd r \<and> snd r \<le> n) (ends limit (map mw_lines (windows n a 0 hits)))"
    and "sorted_wrt (\<lambda>r r'. snd r \<le> fst r') (ends limit (map mw_lines (windows n a 0 hits)))"
proof -
  let ?all = "map mw_lines (windows n a 0 hits)"
  have bounds: "list_all (\<lambda>r. fst r < snd r \<and> snd r \<le> n) ?all"
    using windows_bounds [OF assms, of a 0] by (auto simp: list_all_iff)
  have disjoint: "sorted_wrt (\<lambda>r r'. snd r \<le> fst r') ?all"
    using windows_disjoint [OF assms, of a 0] by (simp add: sorted_wrt_map)
  have sub: "set (ends limit ?all) \<subseteq> set ?all"
    unfolding ends_def by (auto dest: in_set_takeD in_set_dropD simp del: set_map)
  have split: "?all = take limit ?all @ take (length ?all - limit - limit) (drop limit ?all) @ drop (max limit (length ?all - limit)) ?all"
  proof (cases "length ?all - limit - limit = 0")
    case True
    then have "max limit (length ?all - limit) = limit" by simp
    then show ?thesis using True by simp
  next
    case False
    then have "max limit (length ?all - limit) = (length ?all - limit - limit) + limit" by simp
    then show ?thesis by (metis append_take_drop_id drop_drop)
  qed
  have disjoint': "sorted_wrt (\<lambda>r r'. snd r \<le> fst r') (ends limit ?all)"
    using disjoint unfolding ends_def by (subst (asm) split) (auto simp: sorted_wrt_append)
  show "list_all (\<lambda>r. fst r < snd r \<and> snd r \<le> n) (ends limit ?all)"
    using bounds sub by (auto simp: list_all_iff)
  show "sorted_wrt (\<lambda>r r'. snd r \<le> fst r') (ends limit ?all)" by (rule disjoint')
qed

text \<open>The retained windows. For ascending hits the pass never fails; it returns the windows of
  the earliest \<open>limit\<close> hits and of the newest \<open>limit\<close>, no window twice; the
  windows are non-empty, within the lines, in order and disjoint; and while all hits fit they
  cover exactly the lines within \<open>around\<close> of a hit.\<close>

theorem selected_ranges_windows:
  assumes "hits_ok n hits"
  shows "\<exists>rs. selected_ranges n hits a limit = Some rs \<and>
    rs = ends limit (map mw_lines (windows n a 0 hits)) \<and>
    list_all (\<lambda>r. fst r < snd r \<and> snd r \<le> n) rs \<and> sorted_wrt (\<lambda>r r'. snd r \<le> fst r') rs \<and>
    length rs = min (2 * limit) (length hits) \<and>
    (length hits \<le> 2 * limit \<longrightarrow> (\<forall>l. covered rs l \<longleftrightarrow> l < n \<and> near a hits l))"
proof -
  let ?all = "map mw_lines (windows n a 0 hits)"
  have len: "length (ends limit ?all) = min (2 * limit) (length hits)" by (auto simp: ends_def)
  have cover: "covered (ends limit ?all) l \<longleftrightarrow> l < n \<and> near a hits l" if "length hits \<le> 2 * limit" for l
  proof -
    have "ends limit ?all = ?all" using that by (simp add: ends_def max_absorb1)
    then show ?thesis using windows_cover [of n _ _ a 0 l] assms by (cases hits) (auto simp: covered_def near_def)
  qed
  show ?thesis
    using selected_windows [OF assms, of a limit] selected_ranges_sound [OF assms, of limit a] len cover by blast
qed

theorem selected_ranges_windows_witness:
  "selected_ranges 20 [3, 5, 12] 1 1 = Some [(2, 5), (11, 14)]"
proof -
  have "hits_ok 20 [3, 5, 12]" by (simp add: hits_ok_def usize_max_def)
  from selected_ranges_windows [OF this, of 1 1] show ?thesis
    by (simp add: ends_def window_end_def sat_add_def usize_max_def)
qed

subsection \<open>The byte ranges\<close>

lemma concat_split_inclusive [simp]: "concat (split_inclusive d s) = s"
proof (induction s)
  case (Cons c s)
  then show ?case by (cases "split_inclusive d s") auto
qed simp

lemma split_inclusive_ne: "[] \<notin> set (split_inclusive d s)"
proof (induction s)
  case (Cons c s)
  then show ?case by (cases "split_inclusive d s") auto
qed simp

lemma split_inclusive_empty [simp]: "split_inclusive d s = [] \<longleftrightarrow> s = []"
  by (cases s) (auto split: list.split)

lemma raw_lines_split: "raw_lines w = split_inclusive (byte 10) (rw_bytes w)"
  unfolding raw_lines_def using split_inclusive_ne by (metis (mono_tags, lifting) filter_True)

lemma length_split_inclusive:
  "length (split_inclusive d s) = length (filter (\<lambda>c. c = d) s) + of_bool (s \<noteq> [] \<and> last s \<noteq> d)"
proof (induction s)
  case (Cons c s)
  then show ?case by (cases "split_inclusive d s") auto
qed simp

lemma raw_line_count: "rw_line_count (from_line_boundary_bytes b) = length (raw_lines (from_line_boundary_bytes b))"
  by (simp add: from_line_boundary_bytes_def raw_lines_split length_split_inclusive)

definition line_offset :: "string list \<Rightarrow> nat \<Rightarrow> nat" where
  "line_offset lines i = length (concat (take i lines))"

lemma line_offset_Suc: "i < length lines \<Longrightarrow> line_offset lines (Suc i) = line_offset lines i + length (lines ! i)"
  by (simp add: line_offset_def take_Suc_conv_app_nth)

definition byte_range :: "string list \<Rightarrow> nat \<times> nat \<Rightarrow> nat \<times> nat" where
  "byte_range lines r = (line_offset lines (fst r), line_offset lines (snd r))"

lemma select_loop_ranges:
  assumes "list_all (\<lambda>r. fst r < snd r \<and> snd r \<le> length lines) rs" "sorted_wrt (\<lambda>r r'. snd r \<le> fst r') rs"
    and "i \<le> length lines" "rs \<noteq> [] \<Longrightarrow> i < snd (hd rs)"
    and "rs \<noteq> [] \<Longrightarrow> start = (if fst (hd rs) < i then Some (line_offset lines (fst (hd rs))) else None)"
  shows "select_loop out rs i (line_offset lines i) start (drop i lines) = Some (out @ map (byte_range lines) rs)"
  using assms
proof (induction "length lines - i" arbitrary: i rs start out)
  case 0
  then show ?case by (cases rs) auto
next
  case (Suc m)
  have i: "i < length lines" using Suc.hyps(2) by simp
  then have d: "drop i lines = lines ! i # drop (Suc i) lines" by (simp add: Cons_nth_drop_Suc)
  have off: "line_offset lines i + length (lines ! i) = line_offset lines (Suc i)" using i by (simp add: line_offset_Suc)
  show ?case
  proof (cases rs)
    case (Cons r rest)
    let ?start = "if start = None \<and> i = fst r then Some (line_offset lines i) else start"
    have start: "?start = (if fst r < Suc i then Some (line_offset lines (fst r)) else None)"
      using Suc.prems(5) Cons by auto
    show ?thesis
    proof (cases "Suc i = snd r")
      case True
      then have st: "?start = Some (line_offset lines (fst r))" using start Suc.prems(1) Cons by simp
      have nxt: "rest \<noteq> [] \<Longrightarrow> Suc i \<le> fst (hd rest) \<and> fst (hd rest) < snd (hd rest)"
        using Suc.prems(1,2) Cons True by (cases rest) auto
      have IH: "select_loop (out @ [byte_range lines r]) rest (Suc i) (line_offset lines (Suc i)) None (drop (Suc i) lines) =
          Some ((out @ [byte_range lines r]) @ map (byte_range lines) rest)"
      proof (rule Suc.hyps(1))
        show "rest \<noteq> [] \<Longrightarrow> None = (if fst (hd rest) < Suc i then Some (line_offset lines (fst (hd rest))) else None)"
          using nxt by force
        show "rest \<noteq> [] \<Longrightarrow> Suc i < snd (hd rest)" using nxt by force
      qed (use Suc.hyps(2) Suc.prems(1,2) Cons i in auto)
      have br: "(line_offset lines (fst r), line_offset lines (Suc i)) = byte_range lines r"
        by (simp add: byte_range_def True)
      have "select_loop out rs i (line_offset lines i) start (drop i lines) =
          select_loop (out @ [byte_range lines r]) rest (Suc i) (line_offset lines (Suc i)) None (drop (Suc i) lines)"
        unfolding Cons d select_loop.simps Let_def off st Suc_eq_plus1 [symmetric] True [symmetric] br
        by (simp only: simp_thms if_True option.case br)
      then show ?thesis unfolding IH by (simp add: Cons)
    next
      case False
      have IH: "select_loop out rs (Suc i) (line_offset lines (Suc i)) ?start (drop (Suc i) lines) = Some (out @ map (byte_range lines) rs)"
      proof (rule Suc.hyps(1))
        show "?start = (if fst (hd rs) < Suc i then Some (line_offset lines (fst (hd rs))) else None)"
          unfolding start by (simp add: Cons)
        show "rs \<noteq> [] \<Longrightarrow> Suc i < snd (hd rs)" using Suc.prems(4) Cons False by simp
      qed (use Suc.hyps(2) Suc.prems(1,2) i in auto)
      have "select_loop out rs i (line_offset lines i) start (drop i lines) =
          select_loop out rs (Suc i) (line_offset lines (Suc i)) ?start (drop (Suc i) lines)"
        unfolding Cons d select_loop.simps Let_def off Suc_eq_plus1 [symmetric] using False by (simp only: if_False)
      then show ?thesis unfolding IH .
    qed
  qed (simp add: d)
qed


lemma line_hits_filter:
  "line_hits w forms = filter (\<lambda>i. list_ex (\<lambda>form. form \<noteq> [] \<and> contains_str form (raw_lines w ! i)) forms)
     [0..<length (raw_lines w)]"
proof -
  have "List.map_filter (\<lambda>(i, x). if P x then Some i else None) (enumerate 0 xs) =
      filter (\<lambda>i. P (xs ! i)) [0..<length xs]" for P :: "string \<Rightarrow> bool" and xs
  proof (induction xs rule: rev_induct)
    case (snoc x xs)
    have "filter (\<lambda>i. P (xs ! i)) [0..<length xs] = filter (\<lambda>i. P ((xs @ [x]) ! i)) [0..<length xs]"
      by (rule filter_cong) (auto simp: nth_append)
    then show ?case using snoc by (simp add: map_filter_def enumerate_append_eq)
  qed (simp add: map_filter_def)
  from this [of "\<lambda>line. list_ex (\<lambda>form. form \<noteq> [] \<and> contains_str form line) forms" "raw_lines w"]
  show ?thesis by (simp add: line_hits_def)
qed

lemma line_hits_ok: "length (raw_lines w) \<le> usize_max \<Longrightarrow> hits_ok (length (raw_lines w)) (line_hits w forms)"
  unfolding hits_ok_def line_hits_filter
  by (simp add: sorted_wrt_filter list_all_iff)

lemma take_drop_bytes:
  assumes "i \<le> j" "j \<le> length lines"
  shows "take (line_offset lines j - line_offset lines i) (drop (line_offset lines i) (concat lines)) =
    concat (take (j - i) (drop i lines))"
proof -
  have a: "concat lines = concat (take i lines) @ concat (take (j - i) (drop i lines)) @ concat (drop j lines)"
  proof -
    have "lines = take i lines @ take (j - i) (drop i lines) @ drop j lines"
      using assms by (metis append_take_drop_id drop_drop le_add_diff_inverse2)
    then show ?thesis by (metis concat_append)
  qed
  have b: "concat (take j lines) = concat (take i lines) @ concat (take (j - i) (drop i lines))"
    using assms by (metis concat_append le_add_diff_inverse take_add)
  show ?thesis unfolding line_offset_def by (subst a) (simp add: b)
qed

lemma line_offset_le: "i \<le> j \<Longrightarrow> line_offset lines i \<le> line_offset lines j"
  unfolding line_offset_def by (metis concat_append le_add_diff_inverse length_append le_add1 take_add)

lemma line_offset_bound: "line_offset lines j \<le> length (concat lines)"
  unfolding line_offset_def by (metis append_take_drop_id concat_append length_append le_add1)

lemma selected_bytes_range:
  assumes "i \<le> j" "j \<le> length (raw_lines w)"
  shows "selected_bytes w (byte_range (raw_lines w) (i, j)) = Some (concat (take (j - i) (drop i (raw_lines w))))"
proof -
  have c: "concat (raw_lines w) = rw_bytes w" by (simp add: raw_lines_split)
  show ?thesis
    using line_offset_le [OF assms(1), of "raw_lines w"] line_offset_bound [of "raw_lines w" j] take_drop_bytes [OF assms]
    unfolding selected_bytes_def byte_range_def c by simp
qed

text \<open>Selection cuts whole lines. \<open>select\<close> never fails an assertion: it returns one byte
  range for each retained window of the matching lines, and the bytes of a range are exactly
  the window's lines, newlines included.\<close>

theorem select_whole_lines:
  assumes "length (raw_lines (from_line_boundary_bytes bytes)) \<le> usize_max"
  shows "let w = from_line_boundary_bytes bytes; lines = raw_lines w in
    concat lines = bytes \<and>
    (\<exists>rs bs. selected_ranges (length lines) (line_hits w forms) around limit = Some rs \<and>
       select w forms around limit = Some bs \<and>
       list_all2 (\<lambda>r b. selected_bytes w b = Some (concat (take (snd r - fst r) (drop (fst r) lines)))) rs bs)"
proof -
  let ?w = "from_line_boundary_bytes bytes"
  let ?lines = "raw_lines ?w"
  obtain rs where rs: "selected_ranges (length ?lines) (line_hits ?w forms) around limit = Some rs"
    "list_all (\<lambda>r. fst r < snd r \<and> snd r \<le> length ?lines) rs" "sorted_wrt (\<lambda>r r'. snd r \<le> fst r') rs"
    using selected_windows [OF line_hits_ok [OF assms, of forms], of around limit]
      selected_ranges_sound [OF line_hits_ok [OF assms, of forms], of limit around] by auto
  have hd: "rs \<noteq> [] \<Longrightarrow> 0 < snd (hd rs)" using rs(2) by (cases rs) auto
  have "select_loop [] rs 0 (line_offset ?lines 0) None (drop 0 ?lines) = Some ([] @ map (byte_range ?lines) rs)"
    using rs(2,3) hd by (intro select_loop_ranges) simp_all
  then have sel: "select ?w forms around limit = Some (map (byte_range ?lines) rs)"
    by (simp add: select_def raw_line_count rs(1) line_offset_def)
  have "list_all2 (\<lambda>r b. selected_bytes ?w b = Some (concat (take (snd r - fst r) (drop (fst r) ?lines)))) rs
      (map (byte_range ?lines) rs)"
    using rs(2) selected_bytes_range [where w = ?w]
    by (auto simp: list_all2_map2 list_all_iff intro!: list.rel_refl_strong)
  moreover have "concat ?lines = bytes" by (simp add: raw_lines_split from_line_boundary_bytes_def)
  ultimately show ?thesis using rs(1) sel unfolding Let_def by blast
qed

theorem select_whole_lines_witness:
  "\<exists>bs. select (from_line_boundary_bytes ''ab'') [''b''] 1 1 = Some bs"
proof -
  have "length (raw_lines (from_line_boundary_bytes ''ab'')) \<le> usize_max"
    by (simp add: raw_lines_split from_line_boundary_bytes_def byte_eval usize_max_def)
  from select_whole_lines [OF this, of "[''b'']" 1 1] show ?thesis unfolding Let_def by blast
qed

end
