(* ===== verification/SkillFraming.thy ===== *)
theory SkillFraming
  imports Prelude PyStr RawWindow
begin

text \<open>
  \<open>snapshot_skill_framing.rs\<close>: the incremental framer that reads a transcript in chunks,
  finds its first non-blank line, bounds every line and keeps the last 64 bytes as a fence.
  The capacities (\<open>growth\<close>, \<open>accounted_bytes\<close>) are left out.
\<close>

subsection \<open>The framer\<close>

datatype provider_line = Searching string | Ready string | Classified

record skill_framing =
  sf_first :: provider_line
  sf_line_bytes :: nat
  sf_max_line_bytes :: nat
  first_line_committed :: bool
  sf_fence :: string

definition framing_new :: skill_framing where
  "framing_new = \<lparr>sf_first = Searching [], sf_line_bytes = 0, sf_max_line_bytes = 0,
     first_line_committed = False, sf_fence = []\<rparr>"

definition after_prefix :: "nat \<Rightarrow> nat \<Rightarrow> string \<Rightarrow> skill_framing" where
  "after_prefix max_line_bytes tail_bytes fence = \<lparr>sf_first = Classified, sf_line_bytes = tail_bytes,
     sf_max_line_bytes = max_line_bytes, first_line_committed = True, sf_fence = fence\<rparr>"

definition is_ascii_whitespace :: "char \<Rightarrow> bool" where
  "is_ascii_whitespace c = (c \<in> {byte 9, byte 10, byte 12, byte 13, byte 32})"

definition search_line :: "string \<Rightarrow> bool \<Rightarrow> skill_framing \<Rightarrow> skill_framing" where
  "search_line line newline s = (case sf_first s of
      Searching first \<Rightarrow>
        (let first' = first @ line in
         if \<not> newline then s\<lparr>sf_first := Searching first'\<rparr>
         else if list_all is_ascii_whitespace first' then s\<lparr>sf_first := Searching []\<rparr>
         else s\<lparr>sf_first := Ready first', first_line_committed := True\<rparr>)
    | _ \<Rightarrow> s)"

text \<open>One part of \<open>split_inclusive\<close>; the error carries the length reached.\<close>

definition push_part :: "nat \<Rightarrow> string \<Rightarrow> skill_framing \<Rightarrow> nat + skill_framing" where
  "push_part entry_bound part s =
     (let newline = (part \<noteq> [] \<and> last part = byte 10);
          line = (if newline then butlast part else part);
          n = sf_line_bytes s + length line
      in if entry_bound < n then Inl n
         else
           (let s1 = search_line line newline
                (s\<lparr>sf_line_bytes := n, sf_max_line_bytes := max (sf_max_line_bytes s) n\<rparr>)
            in Inr (if newline then s1\<lparr>sf_line_bytes := 0\<rparr> else s1)))"

fun push_parts :: "nat \<Rightarrow> string list \<Rightarrow> skill_framing \<Rightarrow> nat + skill_framing" where
  "push_parts entry_bound [] s = Inr s"
| "push_parts entry_bound (part # parts) s =
     res_bind (push_part entry_bound part s) (push_parts entry_bound parts)"

definition push_fence :: "string \<Rightarrow> string \<Rightarrow> string" where
  "push_fence bytes fence =
     (if 64 \<le> length bytes then drop (length bytes - 64) bytes
      else drop (length fence + length bytes - 64) fence @ bytes)"

definition push :: "string \<Rightarrow> nat \<Rightarrow> skill_framing \<Rightarrow> nat + skill_framing" where
  "push bytes entry_bound s =
     res_bind (push_parts entry_bound (split_inclusive (byte 10) bytes) s)
       (\<lambda>s'. Inr (s'\<lparr>sf_fence := push_fence bytes (sf_fence s')\<rparr>))"

definition finish :: "skill_framing \<Rightarrow> skill_framing" where
  "finish s = (case sf_first s of Searching first \<Rightarrow> s\<lparr>sf_first := Ready first\<rparr> | _ \<Rightarrow> s)"

definition provider_line_of :: "skill_framing \<Rightarrow> string option" where
  "provider_line_of s = (case sf_first s of Ready line \<Rightarrow> Some line | _ \<Rightarrow> None)"

definition classified :: "skill_framing \<Rightarrow> skill_framing" where
  "classified s = s\<lparr>sf_first := Classified\<rparr>"

subsection \<open>Byte by byte\<close>

text \<open>The reference: the framer fed one byte at a time.\<close>

definition push_byte :: "nat \<Rightarrow> char \<Rightarrow> skill_framing \<Rightarrow> skill_framing option" where
  "push_byte bound c s = (case push_part bound [c] s of Inr s' \<Rightarrow> Some s' | Inl _ \<Rightarrow> None)"

fun push_bytes :: "nat \<Rightarrow> string \<Rightarrow> skill_framing \<Rightarrow> skill_framing option" where
  "push_bytes bound [] s = Some s"
| "push_bytes bound (c # cs) s = Option.bind (push_byte bound c s) (push_bytes bound cs)"

lemma push_bytes_append: "push_bytes bound (a @ b) s = Option.bind (push_bytes bound a s) (push_bytes bound b)"
proof (induction a arbitrary: s)
  case (Cons c a)
  then show ?case by (cases "push_byte bound c s") simp_all
qed simp

definition ok_of :: "'e + 'a \<Rightarrow> 'a option" where
  "ok_of r = (case r of Inr x \<Rightarrow> Some x | Inl _ \<Rightarrow> None)"

lemma ok_of_simps [simp]: "ok_of (Inr x) = Some x" "ok_of (Inl e) = None"
  "ok_of (res_bind r f) = Option.bind (ok_of r) (\<lambda>x. ok_of (f x))"
  by (cases r; simp add: ok_of_def)+

lemma search_line_append:
  "search_line (a @ b) nl s = search_line b nl (search_line a False s)"
  by (simp add: search_line_def Let_def split: provider_line.split)

lemma search_fields [simp]:
  "sf_line_bytes (search_line l nl s) = sf_line_bytes s" "sf_max_line_bytes (search_line l nl s) = sf_max_line_bytes s"
  "sf_fence (search_line l nl s) = sf_fence s"
  by (simp_all add: search_line_def Let_def split: provider_line.split)

lemma search_update [simp]:
  "search_line l nl (s\<lparr>sf_line_bytes := n, sf_max_line_bytes := m\<rparr>) = (search_line l nl s)\<lparr>sf_line_bytes := n, sf_max_line_bytes := m\<rparr>"
  by (simp add: search_line_def Let_def split: provider_line.split)

lemma search_nil [simp]: "search_line [] False s = s"
  by (cases s) (simp add: search_line_def split: provider_line.split)

text \<open>A part without its newline may be cut anywhere.\<close>

lemma push_part_append:
  assumes "byte 10 \<notin> set a" "p \<noteq> []"
  shows "ok_of (push_part bound (a @ p) s) = Option.bind (ok_of (push_part bound a s)) (\<lambda>s. ok_of (push_part bound p s))"
proof -
  have a: "\<not> (a \<noteq> [] \<and> last a = byte 10)" using assms(1) by (metis last_in_set)
  show ?thesis
  proof (cases "last p = byte 10")
    case True
    then have p: "p = butlast p @ [byte 10]" using assms(2) by (metis append_butlast_last_id)
    show ?thesis
      using a True assms(2) by (auto simp: push_part_def Let_def search_line_append butlast_append max.assoc max_absorb2)
  next
    case False
    then show ?thesis
      using a assms(2) by (auto simp: push_part_def Let_def search_line_append max_absorb2)
  qed
qed


lemma push_parts_bytes: "ok_of (push_parts bound (split_inclusive (byte 10) bytes) s) = push_bytes bound bytes s"
proof (induction bytes arbitrary: s)
  case (Cons c cs)
  have one: "push_byte bound c s = ok_of (push_part bound [c] s)" by (simp add: push_byte_def ok_of_def)
  show ?case
  proof (cases "c = byte 10")
    case True
    then show ?thesis using Cons one by (cases "push_part bound [c] s") (simp_all add: ok_of_def)
  next
    case nl: False
    show ?thesis
    proof (cases "split_inclusive (byte 10) cs")
      case Nil
      then show ?thesis using nl one by (cases "push_part bound [c] s") (simp_all add: ok_of_def)
    next
      case (Cons p ps)
      have "p \<noteq> []" using split_inclusive_ne [of "byte 10" cs] Cons by auto
      then have app: "ok_of (push_part bound (c # p) s) = Option.bind (ok_of (push_part bound [c] s)) (\<lambda>s. ok_of (push_part bound p s))"
        using push_part_append [of "[c]" p bound s] nl by simp
      have "ok_of (push_parts bound (split_inclusive (byte 10) (c # cs)) s) =
          Option.bind (push_byte bound c s) (\<lambda>s. ok_of (push_parts bound (p # ps) s))"
        using nl Cons by (simp add: app one)
      also have "\<dots> = Option.bind (push_byte bound c s) (push_bytes bound cs)"
        using Cons.IH Cons by simp
      finally show ?thesis by simp
    qed
  qed
qed simp

definition last64 :: "string \<Rightarrow> string" where
  "last64 s = drop (length s - 64) s"

lemma push_fence_last64: "length f \<le> 64 \<Longrightarrow> push_fence b f = last64 (f @ b)"
  by (auto simp: push_fence_def last64_def)

lemma last64_twice: "last64 (last64 a @ b) = last64 (a @ b)"
  by (cases "length a \<le> 64") (simp_all add: last64_def add.commute)

lemma last64_length: "length (last64 s) \<le> 64" by (simp add: last64_def)

lemma push_byte_fence:
  "push_byte bound c (s\<lparr>sf_fence := f\<rparr>) = map_option (\<lambda>s. s\<lparr>sf_fence := f\<rparr>) (push_byte bound c s)"
  "push_byte bound c s = Some s' \<Longrightarrow> sf_fence s' = sf_fence s"
  by (auto simp: push_byte_def push_part_def Let_def search_line_def split: provider_line.split if_splits)

lemma push_bytes_fence:
  "push_bytes bound cs (s\<lparr>sf_fence := f\<rparr>) = map_option (\<lambda>s. s\<lparr>sf_fence := f\<rparr>) (push_bytes bound cs s)"
proof (induction cs arbitrary: s)
  case (Cons c cs)
  then show ?case by (cases "push_byte bound c s") (simp_all add: push_byte_fence)
qed simp

lemma push_bytes_keeps_fence: "push_bytes bound cs s = Some s' \<Longrightarrow> sf_fence s' = sf_fence s"
proof (induction cs arbitrary: s)
  case (Cons c cs)
  then show ?case by (auto simp: bind_eq_Some_conv dest: push_byte_fence(2))
qed simp

lemma push_ok:
  "ok_of (push bytes bound s) = map_option (\<lambda>s'. s'\<lparr>sf_fence := push_fence bytes (sf_fence s)\<rparr>) (push_bytes bound bytes s)"
proof -
  have "ok_of (push bytes bound s) = map_option (\<lambda>s'. s'\<lparr>sf_fence := push_fence bytes (sf_fence s')\<rparr>) (push_bytes bound bytes s)"
    by (simp add: push_def push_parts_bytes map_conv_bind_option comp_def)
  then show ?thesis using push_bytes_keeps_fence by (cases "push_bytes bound bytes s") fastforce+
qed

fun push_chunks :: "nat \<Rightarrow> string list \<Rightarrow> skill_framing \<Rightarrow> skill_framing option" where
  "push_chunks bound [] s = Some s"
| "push_chunks bound (c # cs) s = Option.bind (ok_of (push c bound s)) (push_chunks bound cs)"

lemma push_append:
  assumes "length (sf_fence s) \<le> 64"
  shows "ok_of (push (a @ b) bound s) = Option.bind (ok_of (push a bound s)) (\<lambda>s. ok_of (push b bound s))"
proof (cases "push_bytes bound a s")
  case (Some t)
  have "push_fence b (push_fence a (sf_fence s)) = push_fence (a @ b) (sf_fence s)"
    using assms by (simp add: push_fence_last64 last64_length last64_twice)
  then show ?thesis
    unfolding push_ok push_bytes_append Some
    by (simp add: push_bytes_fence option.map_comp comp_def)
qed (simp add: push_ok push_bytes_append)

lemma push_fence_bound:
  "length (sf_fence s) \<le> 64 \<Longrightarrow> ok_of (push b bound s) = Some s' \<Longrightarrow> length (sf_fence s') \<le> 64"
  by (auto simp: push_ok push_fence_last64 last64_length)

text \<open>C15: Framing does not depend on the chunks. Reading a transcript in any chunks succeeds exactly
  when reading it at once does, and leaves the same framer: the same provider line, line
  lengths, and fence.\<close>

theorem framing_chunks:
  assumes "length (sf_fence s) \<le> 64"
  shows "push_chunks bound chunks s = ok_of (push (concat chunks) bound s)"
  using assms
proof (induction chunks arbitrary: s)
  case Nil
  then show ?case by (simp add: push_ok push_fence_def)
next
  case (Cons c chunks)
  show ?case
  proof (cases "ok_of (push c bound s)")
    case None
    then show ?thesis by (simp add: push_append [OF Cons.prems])
  next
    case (Some t)
    then show ?thesis
      using Cons.IH [OF push_fence_bound [OF Cons.prems Some]] by (simp add: push_append [OF Cons.prems])
  qed
qed

theorem framing_chunks_witness:
  "push_chunks 100 [''a'', ''bc''] framing_new = ok_of (push ''abc'' 100 framing_new)"
  using framing_chunks [of framing_new 100 "[''a'', ''bc'']"] by (simp add: framing_new_def)

subsection \<open>What has been read\<close>

definition blank :: "string \<Rightarrow> bool" where
  "blank l = list_all is_ascii_whitespace l"

text \<open>The framer of a text: its first non-blank complete line, its open line, its longest line
  and its last 64 bytes.\<close>

definition framing_of :: "string \<Rightarrow> skill_framing" where
  "framing_of input =
     (let ls = split_char (byte 10) input; found = List.find (\<lambda>l. \<not> blank l) (butlast ls) in
      \<lparr>sf_first = (case found of Some l \<Rightarrow> Ready l | None \<Rightarrow> Searching (last ls)),
       sf_line_bytes = length (last ls), sf_max_line_bytes = foldr max (map length ls) 0,
       first_line_committed = (found \<noteq> None), sf_fence = last64 input\<rparr>)"

lemma split_char_snoc_sep: "split_char d (s @ [d]) = split_char d s @ [[]]"
proof (induction s)
  case (Cons c s)
  then show ?case by (cases "split_char d s") auto
qed simp

lemma split_char_push: "c \<noteq> d \<Longrightarrow> split_char d (s @ [c]) = butlast (split_char d s) @ [last (split_char d s) @ [c]]"
proof (induction s)
  case (Cons x s)
  then show ?case by (cases "split_char d s") auto
qed simp

lemma foldr_max_append: "foldr max (xs @ ys) (0::nat) = max (foldr max xs 0) (foldr max ys 0)"
  by (induction xs) auto

lemma foldr_max_Suc: "foldr max xs (Suc n) = max (foldr max xs 0) (Suc n)"
  using foldr_max_append [of xs "[Suc n]"] by simp

lemma max_last: "xs \<noteq> [] \<Longrightarrow> foldr max (map length xs) (0::nat) = max (foldr max (map length (butlast xs)) 0) (length (last xs))"
proof -
  assume "xs \<noteq> []"
  then have "map length xs = map length (butlast xs) @ [length (last xs)]"
    by (metis append_butlast_last_id list.simps(8,9) map_append)
  then show ?thesis by (simp only: foldr_max_append) simp
qed

definition core_of :: "string \<Rightarrow> skill_framing" where
  "core_of input = (framing_of input)\<lparr>sf_fence := []\<rparr>"

lemma push_bytes_core:
  "push_bytes bound input framing_new =
     (if list_all (\<lambda>l. length l \<le> bound) (split_char (byte 10) input) then Some (core_of input) else None)"
proof (induction input rule: rev_induct)
  case Nil
  then show ?case by (simp add: framing_new_def core_of_def framing_of_def)
next
  case (snoc c input)
  let ?ls = "split_char (byte 10) input"
  have ne: "?ls \<noteq> []" by simp
  have all: "list_all P ?ls \<longleftrightarrow> list_all P (butlast ?ls) \<and> P (last ?ls)" for P
    using append_butlast_last_id [OF ne] list_all_append [of P "butlast ?ls" "[last ?ls]"] by simp
  have m: "foldr max (map length ?ls) 0 = max (foldr max (map length (butlast ?ls)) 0) (length (last ?ls))"
    by (rule max_last [OF ne])
  have step: "push_bytes bound (input @ [c]) framing_new =
      (if list_all (\<lambda>l. length l \<le> bound) ?ls then push_byte bound c (core_of input) else None)"
    by (cases "push_byte bound c (core_of input)") (simp_all add: push_bytes_append snoc.IH)
  show ?case
  proof (cases "c = byte 10")
    case True
    have find: "List.find P ?ls = opt_or (List.find P (butlast ?ls)) (List.find P [last ?ls])" for P
      by (subst append_butlast_last_id [OF ne, symmetric]) (rule find_append)
    have "push_byte bound (byte 10) (core_of input) = Some (core_of (input @ [byte 10]))"
      if "list_all (\<lambda>l. length l \<le> bound) ?ls"
      using that all [of "\<lambda>l. length l \<le> bound"] m
      by (cases "List.find (\<lambda>l. \<not> blank l) (butlast ?ls)"; cases "blank (last ?ls)")
        (simp_all add: push_byte_def push_part_def Let_def core_of_def framing_of_def split_char_snoc_sep
          search_line_def find blank_def foldr_max_append)
    then show ?thesis using step by (simp add: True split_char_snoc_sep)
  next
    case False
    have "push_byte bound c (core_of input) =
        (if length (last ?ls @ [c]) \<le> bound then Some (core_of (input @ [c])) else None)"
      if "list_all (\<lambda>l. length l \<le> bound) ?ls"
      using that all [of "\<lambda>l. length l \<le> bound"] m False
      by (cases "List.find (\<lambda>l. \<not> blank l) (butlast ?ls)")
        (auto simp: push_byte_def push_part_def Let_def core_of_def framing_of_def split_char_push [OF False]
          search_line_def foldr_max_append foldr_max_Suc)
    then show ?thesis using step all [of "\<lambda>l. length l \<le> bound"] by (auto simp: split_char_push [OF False])
  qed
qed

text \<open>What the framer knows. Reading a text from the start succeeds exactly when no line,
  complete or open, exceeds the bound; then the provider line is the first complete line
  that is not blank, the tail and the longest line have their exact lengths, and the fence is
  the last 64 bytes.\<close>

theorem framing_reads:
  "ok_of (push input bound framing_new) =
     (if list_all (\<lambda>l. length l \<le> bound) (split_char (byte 10) input) then Some (framing_of input) else None)"
proof -
  have "sf_fence framing_new = []" by (simp add: framing_new_def)
  then show ?thesis
    by (simp add: push_ok push_bytes_core push_fence_last64 core_of_def) (simp add: framing_of_def Let_def)
qed

end
