(* ===== verification/JsonText.thy ===== *)
theory JsonText
  imports Json PyStr
begin

text \<open>
  The text of JSON strings and integers that \<open>ids.rs\<close> (the RFC 8785 canonical form) and
  \<open>owner/src/pyjson.rs\<close> (Python's \<open>json.dumps\<close>) share: the escapes of a character,
  hexadecimal and decimal digits, and the reader that undoes the escapes.
\<close>

subsection \<open>Digits\<close>

definition hex_digit :: "nat \<Rightarrow> char" where
  "hex_digit n = (if n < 10 then byte (48 + n) else byte (87 + n))"

definition hex_val :: "char \<Rightarrow> nat option" where
  "hex_val c = (let n = of_char c in
     if 48 \<le> n \<and> n < 58 then Some (n - 48) else if 97 \<le> n \<and> n < 103 then Some (n - 87) else None)"

definition hex4 :: "nat \<Rightarrow> string" where
  "hex4 n = [hex_digit (n div 4096 mod 16), hex_digit (n div 256 mod 16), hex_digit (n div 16 mod 16), hex_digit (n mod 16)]"

lemma of_char_byte [simp]: "n < 256 \<Longrightarrow> (of_char (byte n) :: nat) = n"
  by (simp add: byte_def)

lemma byte_of_char [simp]: "byte (of_char c) = c"
  by (simp add: byte_def)

lemma of_char_lt: "(of_char c :: nat) < 256"
  by (metis nat_of_char_less_256)

lemma hex_val_digit [simp]: "n < 16 \<Longrightarrow> hex_val (hex_digit n) = Some n"
  by (auto simp: hex_val_def hex_digit_def Let_def)

fun dec_digits :: "nat \<Rightarrow> string" where
  "dec_digits n = (if n < 10 then [byte (48 + n)] else dec_digits (n div 10) @ [byte (48 + n mod 10)])"

definition dec_int :: "int \<Rightarrow> string" where
  "dec_int i = (if i < 0 then ''-'' else []) @ dec_digits (nat \<bar>i\<bar>)"

declare dec_digits.simps [simp del]

subsection \<open>Escapes\<close>

text \<open>The escape of an ASCII byte, \<^const>\<open>None\<close> when the character is written as it is.\<close>

definition short_escape :: "char \<Rightarrow> char option" where
  "short_escape c =
     (if c = byte 34 then Some (byte 34) else if c = byte 92 then Some (byte 92)
      else if c = byte 8 then Some (CHR ''b'') else if c = byte 12 then Some (CHR ''f'')
      else if c = byte 10 then Some (CHR ''n'') else if c = byte 13 then Some (CHR ''r'')
      else if c = byte 9 then Some (CHR ''t'') else None)"

definition esc_char :: "string \<Rightarrow> string" where
  "esc_char ch = (case ch of
      [c] \<Rightarrow> (case short_escape c of
          Some e \<Rightarrow> [byte 92, e]
        | None \<Rightarrow> if (of_char c :: nat) < 32 then [byte 92, CHR ''u''] @ hex4 (of_char c) else ch)
    | _ \<Rightarrow> ch)"

definition encode_string_contents :: "string \<Rightarrow> string" where
  "encode_string_contents s = concat (map esc_char (chars s))"

definition encode_string :: "string \<Rightarrow> string" where
  "encode_string s = [byte 34] @ encode_string_contents s @ [byte 34]"

text \<open>Well-formed UTF-8 as far as the escapes need it: a longer chunk leads with a byte outside
  ASCII.\<close>

definition utf8_ok :: "string \<Rightarrow> bool" where
  "utf8_ok s = list_all (\<lambda>ch. case ch of c # _ # _ \<Rightarrow> (128 :: nat) \<le> of_char c | _ \<Rightarrow> True) (chars s)"

subsection \<open>Reading back\<close>

definition unescape_short :: "char \<Rightarrow> char option" where
  "unescape_short e =
     (if e = byte 34 then Some (byte 34) else if e = byte 92 then Some (byte 92)
      else if e = CHR ''b'' then Some (byte 8) else if e = CHR ''f'' then Some (byte 12)
      else if e = CHR ''n'' then Some (byte 10) else if e = CHR ''r'' then Some (byte 13)
      else if e = CHR ''t'' then Some (byte 9) else None)"

text \<open>The reader of a string body up to the closing quote at its end.\<close>

function read_string :: "string \<Rightarrow> string option" where
  "read_string [] = None"
| "read_string (c # cs) =
     (if c = byte 34 then (if cs = [] then Some [] else None)
      else if c = byte 92 then
        (case cs of
           [] \<Rightarrow> None
         | e # es \<Rightarrow>
             if e = CHR ''u'' then
               (case es of
                  a # b # d # f # rest \<Rightarrow>
                    (case (hex_val a, hex_val b, hex_val d, hex_val f) of
                       (Some 0, Some 0, Some x, Some y) \<Rightarrow> map_option ((#) (byte (16 * x + y))) (read_string rest)
                     | _ \<Rightarrow> None)
                | _ \<Rightarrow> None)
             else (case unescape_short e of
                 Some x \<Rightarrow> map_option ((#) x) (read_string es)
               | None \<Rightarrow> None))
      else map_option ((#) c) (read_string cs))"
  by pat_completeness auto
termination by (relation "measure length") auto

definition esc_byte :: "char \<Rightarrow> string" where
  "esc_byte c = esc_char [c]"

lemma esc_high: "128 \<le> (of_char c :: nat) \<Longrightarrow> esc_byte c = [c]"
  by (auto simp: esc_byte_def esc_char_def short_escape_def split: if_splits)

lemma continuation_high: "is_continuation c \<Longrightarrow> 128 \<le> (of_char c :: nat)"
  by (simp add: is_continuation_def)

lemma concat_singletons: "list_all (\<lambda>c. f c = [c]) cs \<Longrightarrow> concat (map f cs) = cs"
  by (induction cs) auto

lemma encode_contents_bytes:
  assumes "utf8_ok s"
  shows "encode_string_contents s = concat (map esc_byte s)"
proof -
  have chunk: "esc_char (c # takeWhile is_continuation cs) = concat (map esc_byte (c # takeWhile is_continuation cs))"
    if "takeWhile is_continuation cs = [] \<or> 128 \<le> (of_char c :: nat)" for c cs
  proof (cases "takeWhile is_continuation cs")
    case Nil
    then show ?thesis by (simp add: esc_byte_def)
  next
    case (Cons d ds)
    have "list_all (\<lambda>c. esc_byte c = [c]) (takeWhile is_continuation cs)"
      by (auto simp: list_all_iff dest!: set_takeWhileD intro!: esc_high continuation_high)
    then have "concat (map esc_byte (takeWhile is_continuation cs)) = takeWhile is_continuation cs"
      by (rule concat_singletons)
    then show ?thesis using that Cons by (simp add: esc_high esc_char_def)
  qed
  have "utf8_ok s \<Longrightarrow> concat (map esc_char (chars s)) = concat (map esc_byte s)"
  proof (induction s rule: chars.induct)
    case (2 c cs)
    have ok: "takeWhile is_continuation cs = [] \<or> 128 \<le> (of_char c :: nat)" "utf8_ok (dropWhile is_continuation cs)"
      using "2.prems" by (auto simp: utf8_ok_def split: list.splits)
    have "concat (map esc_char (chars (c # cs))) =
        concat (map esc_byte (c # takeWhile is_continuation cs)) @ concat (map esc_byte (dropWhile is_continuation cs))"
      using chunk [OF ok(1)] "2.IH" [OF ok(2)] by simp
    also have "\<dots> = concat (map esc_byte (c # cs))"
      by (metis (no_types, lifting) append_Cons concat_append map_append takeWhile_dropWhile_id)
    finally show ?case .
  qed simp
  then show ?thesis using assms by (simp add: encode_string_contents_def)
qed

lemma read_esc_byte:
  "read_string (esc_byte c @ rest) = map_option ((#) c) (read_string rest)"
proof (cases "short_escape c")
  case (Some e)
  then have "unescape_short e = Some c" "e \<noteq> CHR ''u''"
    by (auto simp: short_escape_def unescape_short_def byte_unfold split: if_splits)
  then show ?thesis using Some by (simp add: esc_byte_def esc_char_def byte_unfold)
next
  case None
  have "short_escape (byte 34) \<noteq> None" "short_escape (byte 92) \<noteq> None" by (simp_all add: short_escape_def)
  then have q: "c \<noteq> byte 34" "c \<noteq> byte 92" using None by metis+
  show ?thesis
  proof (cases "(of_char c :: nat) < 32")
    case True
    then have h: "of_char c div 4096 = (0::nat)" "of_char c div 256 = (0::nat)" "of_char c div 16 < (16::nat)" by auto
    have v: "16 * (of_char c div 16) + of_char c mod 16 = (of_char c :: nat)" by simp
    have hm: "of_char c div 16 mod 16 = (of_char c div 16 :: nat)" using h(3) by simp
    have hd: "hex_val (hex_digit 0) = Some 0" "hex_val (hex_digit (of_char c div 16)) = Some (of_char c div 16)"
      "hex_val (hex_digit (of_char c mod 16)) = Some (of_char c mod 16)"
      using h(3) by simp_all
    have esc: "esc_byte c = byte 92 # CHR ''u'' # hex_digit 0 # hex_digit 0 # hex_digit (of_char c div 16) # [hex_digit (of_char c mod 16)]"
      using None True h hm by (simp add: esc_byte_def esc_char_def hex4_def)
    have ne: "byte 92 \<noteq> byte 34" by (simp add: byte_unfold)
    show ?thesis unfolding esc by (simp add: hd ne v)
  next
    case False
    then show ?thesis using None q by (simp add: esc_byte_def esc_char_def)
  qed
qed

lemma read_encode_string:
  assumes "utf8_ok s"
  shows "read_string (tl (encode_string s)) = Some s"
proof -
  have "read_string (concat (map esc_byte s) @ [byte 34]) = Some s"
    by (induction s) (simp_all add: read_esc_byte)
  then show ?thesis by (simp add: encode_string_def encode_contents_bytes [OF assms])
qed

end
