(* ===== verification/Ids.thy ===== *)
theory Ids
  imports JsonText Grouping "HOL-Library.List_Lexorder"
begin

text \<open>
  \<open>ids.rs\<close>: event references, the RFC 8785 canonical form and the digest of a tool call.
  The text of a float (parsed from its lexeme, or an \<open>f64\<close>) is the argument
  \<open>float_text\<close>, \<^const>\<open>None\<close> when it is not finite, and SHA-256 is the argument
  \<open>sha\<close>.
\<close>

subsection \<open>References\<close>

record event_ref =
  er_session_id :: string
  er_event_uuid :: string
  er_tool_use_id :: "string option"

definition event_ref_new :: "string \<Rightarrow> string \<Rightarrow> event_ref" where
  "event_ref_new sid u = \<lparr>er_session_id = sid, er_event_uuid = u, er_tool_use_id = None\<rparr>"

subsection \<open>Numbers\<close>

definition MAX_SAFE_INTEGER :: int where
  "MAX_SAFE_INTEGER = 2 ^ 53 - 1"

datatype canonical_error = IntOutOfRange string | NotFinite

text \<open>\<open>str::parse::<i64>\<close>.\<close>

fun dec_value :: "nat \<Rightarrow> string \<Rightarrow> nat option" where
  "dec_value acc [] = Some acc"
| "dec_value acc (c # cs) =
     (let n = of_char c in if 48 \<le> n \<and> n < 58 then dec_value (10 * acc + (n - 48)) cs else None)"

definition parse_i64 :: "string \<Rightarrow> int option" where
  "parse_i64 text =
     (let (neg, digits) = (case text of
            c # cs \<Rightarrow> if c = CHR ''-'' then (True, cs) else if c = CHR ''+'' then (False, cs) else (False, text)
          | [] \<Rightarrow> (False, []));
          v = (if digits = [] then None else dec_value 0 digits)
      in opt_filter (\<lambda>i. - (2 ^ 63) \<le> i \<and> i < 2 ^ 63) (map_option (\<lambda>n. if neg then - int n else int n) v))"

definition float_lexeme :: "string \<Rightarrow> bool" where
  "float_lexeme t = list_ex (\<lambda>b. b \<in> {CHR ''.'', CHR ''e'', CHR ''E''}) t"

definition push_int :: "int \<Rightarrow> canonical_error + string" where
  "push_int i = (if MAX_SAFE_INTEGER < \<bar>i\<bar> then Inl (IntOutOfRange (dec_int i)) else Inr (dec_int i))"

definition push_float :: "(string + rat \<Rightarrow> string option) \<Rightarrow> string + rat \<Rightarrow> canonical_error + string" where
  "push_float float_text v = ok_or NotFinite (float_text v)"

definition encode_number :: "(string + rat \<Rightarrow> string option) \<Rightarrow> jnumber \<Rightarrow> canonical_error + string" where
  "encode_number float_text n = (case num_raw n of
      Some raw \<Rightarrow>
        (if float_lexeme raw then push_float float_text (Inl raw)
         else res_bind (ok_or (IntOutOfRange raw) (parse_i64 raw)) push_int)
    | None \<Rightarrow> (case num_i64 n of
        Some i \<Rightarrow> push_int i
      | None \<Rightarrow> (case num_u64 n of
          Some u \<Rightarrow> Inl (IntOutOfRange (dec_digits u))
        | None \<Rightarrow> (case num_f64 n of
            Some f \<Rightarrow> push_float float_text (Inr f)
          | None \<Rightarrow> Inl NotFinite))))"

subsection \<open>The canonical form\<close>

text \<open>\<open>encode_utf16\<close> of a UTF-8 string.\<close>

definition code_point :: "string \<Rightarrow> nat" where
  "code_point ch = (case map of_char ch of
      [a] \<Rightarrow> a
    | [a, b] \<Rightarrow> (a mod 32) * 64 + b mod 64
    | [a, b, c] \<Rightarrow> (a mod 16) * 4096 + (b mod 64) * 64 + c mod 64
    | [a, b, c, d] \<Rightarrow> (a mod 8) * 262144 + (b mod 64) * 4096 + (c mod 64) * 64 + d mod 64
    | _ \<Rightarrow> 0)"

definition encode_utf16 :: "string \<Rightarrow> nat list" where
  "encode_utf16 s = concat (map (\<lambda>ch. let cp = code_point ch in
     if cp < 65536 then [cp] else [55296 + (cp - 65536) div 1024, 56320 + (cp - 65536) mod 1024]) (chars s))"

text \<open>The object's entries: the last value of a key, in the order of the keys' UTF-16 units.
  The hash map they pass through has no order of its own.\<close>

definition canonical_entries :: "(string \<times> json) list \<Rightarrow> (string \<times> json) list" where
  "canonical_entries ps = stable_sort (by_key (\<lambda>p. encode_utf16 (fst p))) (od_items (od_of ps))"

definition comma_seq :: "(canonical_error + string) list \<Rightarrow> canonical_error + string" where
  "comma_seq rs = map_sum id (join '','') (map_res id rs)"

lemma canonical_entries_sub: "p \<in> set (canonical_entries ps) \<Longrightarrow> p \<in> set ps"
  unfolding canonical_entries_def using deduped_pairs_subset [of ps] by (auto simp: deduped_pairs_def)

lemma canonical_entry_size:
  assumes "(k, v) \<in> set (canonical_entries ps)"
  shows "size v < Suc (size_list (size_prod (\<lambda>_. 0) size) ps)"
proof -
  have "(k, v) \<in> set ps" by (rule canonical_entries_sub [OF assms])
  then have "size_prod (\<lambda>_. 0) size (k, v) \<le> size_list (size_prod (\<lambda>_. 0) size) ps"
    by (rule size_list_estimation') simp
  then show ?thesis by simp
qed

function write_canonical :: "(string + rat \<Rightarrow> string option) \<Rightarrow> json \<Rightarrow> canonical_error + string" where
  "write_canonical ft JNull = Inr ''null''"
| "write_canonical ft (JBool b) = Inr (if b then ''true'' else ''false'')"
| "write_canonical ft (JNumber n) = encode_number ft n"
| "write_canonical ft (JString s) = Inr (encode_string s)"
| "write_canonical ft (JArray xs) =
     res_bind (comma_seq (map (write_canonical ft) xs)) (\<lambda>t. Inr (''['' @ t @ '']''))"
| "write_canonical ft (JObject ps) =
     res_bind (comma_seq (map (\<lambda>(key, item). res_bind (write_canonical ft item) (\<lambda>t. Inr (encode_string key @ '':'' @ t)))
       (canonical_entries ps))) (\<lambda>t. Inr (''{'' @ t @ ''}''))"
  by pat_completeness auto
termination
  by (relation "measure (\<lambda>(ft, v). size v)")
    (auto dest: canonical_entry_size simp: less_Suc_eq_le size_list_estimation')

definition canonical_json :: "(string + rat \<Rightarrow> string option) \<Rightarrow> json \<Rightarrow> canonical_error + string" where
  "canonical_json ft v = write_canonical ft v"

definition canonical_json_size :: "(string + rat \<Rightarrow> string option) \<Rightarrow> json \<Rightarrow> canonical_error + nat" where
  "canonical_json_size ft v = map_sum id length (write_canonical ft v)"

definition tool_digest ::
  "(string \<Rightarrow> string) \<Rightarrow> (string + rat \<Rightarrow> string option) \<Rightarrow> string \<Rightarrow> json \<Rightarrow> canonical_error + string" where
  "tool_digest sha ft name input =
     res_bind (canonical_json ft input) (\<lambda>t.
       Inr (sha (''{'' @ [byte 34] @ ''input'' @ [byte 34] @ '':'' @ t @ '','' @ [byte 34] @ ''tool'' @ [byte 34] @ '':'' @
         encode_string name @ ''}'')))"


subsection \<open>Values that mean the same\<close>

text \<open>Equal up to the order of the keys of an object and its overwritten duplicates, at every
  level.\<close>

inductive same_json :: "json \<Rightarrow> json \<Rightarrow> bool" where
  same_null: "same_json JNull JNull"
| same_bool: "same_json (JBool b) (JBool b)"
| same_number: "same_json (JNumber n) (JNumber n)"
| same_string: "same_json (JString s) (JString s)"
| same_array: "list_all2 same_json xs ys \<Longrightarrow> same_json (JArray xs) (JArray ys)"
| same_object: "(\<And>k. rel_option same_json (map_of (rev ps) k) (map_of (rev qs) k)) \<Longrightarrow>
     same_json (JObject ps) (JObject qs)"

inductive_simps same_json_simps:
  "same_json (JObject ps) w" "same_json (JArray xs) w"

text \<open>The keys of an object differ in their UTF-16 units, as distinct Unicode strings do.\<close>

fun keys_ok :: "json \<Rightarrow> bool" where
  "keys_ok (JObject ps) \<longleftrightarrow> inj_on encode_utf16 (set (map fst ps)) \<and> (\<forall>(k, v)\<in>set ps. keys_ok v)"
| "keys_ok (JArray xs) \<longleftrightarrow> list_all keys_ok xs"
| "keys_ok _ \<longleftrightarrow> True"

lemma keys_entries: "set (map fst (canonical_entries ps)) = set (map fst ps)"
  by (simp add: canonical_entries_def) (metis deduped_pairs_def first_seen_filter_map_of list.set(1) list.set_map set_first_seen sup_bot.left_neutral)

lemma distinct_entries: "distinct (map fst (canonical_entries ps))"
proof -
  have "distinct (map fst (od_items (od_of ps)))" by (rule distinct_od_of)
  then have "distinct (od_items (od_of ps)) \<and> inj_on fst (set (od_items (od_of ps)))" unfolding distinct_map [of fst] .
  then show ?thesis unfolding canonical_entries_def distinct_map [of fst] distinct_stable_sort set_stable_sort .
qed

lemma entries_lookup: "(k, v) \<in> set (canonical_entries ps) \<longleftrightarrow> map_of (rev ps) k = Some v"
  by (simp add: canonical_entries_def) (metis distinct_od_of map_of_eq_Some_iff map_of_od_of)

lemma entries_sorted: "sorted (map (\<lambda>p. encode_utf16 (fst p)) (canonical_entries ps))"
  using key_asc.sorted_stable_sort [where f = "\<lambda>p. encode_utf16 (fst p)" and xs = "od_items (od_of ps)"]
  unfolding canonical_entries_def sorted_map by_key_def [abs_def] .

lemma entries_keys_eq:
  assumes "dom (map_of (rev ps)) = dom (map_of (rev qs))" "inj_on encode_utf16 (set (map fst ps))"
  shows "map fst (canonical_entries ps) = map fst (canonical_entries qs)"
proof -
  have set: "set (map fst ps) = set (map fst qs)"
    using assms(1) by (simp add: dom_map_of_conv_image_fst)
  let ?ks = "map fst (canonical_entries ps)" and ?ls = "map fst (canonical_entries qs)"
  have inj: "inj_on encode_utf16 (set ?ks \<union> set ?ls)"
    unfolding keys_entries using assms(2) set by simp
  have d: "distinct (map encode_utf16 ?ks)" "distinct (map encode_utf16 ?ls)"
    unfolding distinct_map [of encode_utf16]
    using distinct_entries [of ps] distinct_entries [of qs] inj_on_subset [OF inj] by blast+
  have "map encode_utf16 ?ks = map encode_utf16 ?ls"
  proof (rule sorted_distinct_set_unique)
    show "sorted (map encode_utf16 ?ks)" "sorted (map encode_utf16 ?ls)" using entries_sorted by (simp_all add: comp_def)
    show "set (map encode_utf16 ?ks) = set (map encode_utf16 ?ls)"
      unfolding set_map [of encode_utf16] keys_entries set ..
  qed (use d in simp_all)
  then show ?thesis using inj by (rule map_inj_on)
qed


lemma entries_by_key:
  "canonical_entries ps = map (\<lambda>k. (k, the (map_of (rev ps) k))) (map fst (canonical_entries ps))"
proof -
  have "(k, the (map_of (rev ps) k)) = (k, v)" if "(k, v) \<in> set (canonical_entries ps)" for k v
    using that unfolding entries_lookup by simp
  then have "map (\<lambda>p. (fst p, the (map_of (rev ps) (fst p)))) (canonical_entries ps) = canonical_entries ps"
    by (intro map_idI) auto
  then show ?thesis by (simp add: comp_def)
qed

lemma canonical_same:
  "same_json v w \<Longrightarrow> keys_ok v \<Longrightarrow> write_canonical ft v = write_canonical ft w"
proof (induction rule: same_json.induct)
  case (same_array xs ys)
  then have "map (write_canonical ft) xs = map (write_canonical ft) ys"
    by (auto simp: list_all2_conv_all_nth list_all_length intro!: nth_equalityI)
  then show ?case by simp
next
  case (same_object ps qs)
  have "map_of (rev ps) k = None \<longleftrightarrow> map_of (rev qs) k = None" for k
    using same_object.IH [of k] by (cases "map_of (rev ps) k"; cases "map_of (rev qs) k") simp_all
  then have dom: "dom (map_of (rev ps)) = dom (map_of (rev qs))" by (simp add: dom_def)
  have keys: "map fst (canonical_entries ps) = map fst (canonical_entries qs)"
    using same_object.prems by (intro entries_keys_eq [OF dom]) simp
  let ?f = "\<lambda>(key, item). res_bind (write_canonical ft item) (\<lambda>t. Inr (encode_string key @ '':'' @ t))"
  have "map ?f (canonical_entries ps) = map (\<lambda>k. ?f (k, the (map_of (rev ps) k))) (map fst (canonical_entries ps))"
    by (subst entries_by_key) (simp only: map_map comp_def)
  also have "\<dots> = map (\<lambda>k. ?f (k, the (map_of (rev qs) k))) (map fst (canonical_entries qs))"
    unfolding keys
  proof (rule map_cong [OF refl])
    fix k assume "k \<in> set (map fst (canonical_entries qs))"
    then have "k \<in> set (map fst (canonical_entries ps))" using keys by simp
    then obtain v where v: "map_of (rev ps) k = Some v" using entries_lookup by auto
    then obtain w where w: "map_of (rev qs) k = Some w" "keys_ok v \<longrightarrow> write_canonical ft v = write_canonical ft w"
      using same_object.IH [of k] by (auto simp: option_rel_Some1)
    have "(k, v) \<in> set ps" using map_of_SomeD [OF v] by simp
    then have "keys_ok v" using same_object.prems by auto
    then show "?f (k, the (map_of (rev ps) k)) = ?f (k, the (map_of (rev qs) k))" using v w by simp
  qed
  also have "\<dots> = map ?f (canonical_entries qs)"
    by (subst (2) entries_by_key) (simp only: map_map comp_def)
  finally show ?case by simp
qed simp_all

text \<open>C16: The digest does not see the writing of its input. Two inputs that differ only in the order
  of object keys and in overwritten duplicate keys, at any depth, have the same canonical
  text or fail alike, hence the same digest.\<close>

theorem canonical_order_free:
  assumes "same_json v w" "keys_ok v"
  shows "canonical_json ft v = canonical_json ft w \<and> tool_digest sha ft name v = tool_digest sha ft name w"
  using canonical_same [OF assms] by (simp add: canonical_json_def tool_digest_def)

theorem canonical_order_free_witness:
  "canonical_json (\<lambda>_. None) (JObject [(''b'', JNull), (''a'', JBool True), (''b'', JString ''x'')]) =
   canonical_json (\<lambda>_. None) (JObject [(''a'', JBool True), (''b'', JString ''x'')])"
proof -
  have "same_json (JObject [(''b'', JNull), (''a'', JBool True), (''b'', JString ''x'')])
      (JObject [(''a'', JBool True), (''b'', JString ''x'')])"
    by (rule same_object) (auto intro: same_json.intros)
  moreover have "keys_ok (JObject [(''b'', JNull), (''a'', JBool True), (''b'', JString ''x'')])"
    by (auto simp: encode_utf16_def code_point_def Let_def inj_on_def)
  ultimately show ?thesis using canonical_order_free by blast
qed

text \<open>String encoding is faithful. Reading an encoded string back, escapes undone up to the
  closing quote, gives the string.\<close>

theorem encode_string_roundtrip:
  assumes "utf8_ok s"
  shows "\<exists>body. encode_string s = byte 34 # body \<and> read_string body = Some s"
  using read_encode_string [OF assms] by (simp add: encode_string_def)

theorem encode_string_roundtrip_witness:
  "\<exists>body. encode_string [byte 34, byte 10, byte 1, byte 195, byte 169] = byte 34 # body \<and>
     read_string body = Some [byte 34, byte 10, byte 1, byte 195, byte 169]"
  by (rule encode_string_roundtrip) (simp add: utf8_ok_def is_continuation_def)

end
