(* ===== verification/SnapshotCache.thy ===== *)
theory SnapshotCache
  imports Prelude "HOL-Library.Monad_Syntax" "HOL-Library.List_Lexorder" "HOL-Library.Product_Lexorder"
begin

text \<open>
  \<open>snapshot_cache.rs\<close> and the parts of \<open>snapshot.rs\<close> it serves: the cache of transcript snapshots,
  carried classifications, catalogs and review inputs, kept in one order of least recent use,
  with the indexes that point into it. A \<open>BTreeSet\<close> is a finite set, walked by
  \<^const>\<open>sorted_list_of_set\<close>; a table is a map. An operation is \<^const>\<open>None\<close> when the code panics
  (an \<open>expect\<close>, an \<open>assert\<close>, a counter that overflows). An \<open>Arc\<close> is the address it holds, and
  the strong count the code reads is the argument \<open>strong\<close>. The ledger of bytes, the expiry
  heaps and the sidechain feed are left out.
\<close>

subsection \<open>Stamps\<close>

record source_identity =
  si_device :: nat
  si_inode :: nat
  si_window_base :: nat

definition identity_file :: "source_identity \<Rightarrow> source_identity" where
  "identity_file i = i\<lparr>si_window_base := 0\<rparr>"

record source_stamp =
  st_identity :: source_identity
  st_size :: nat
  st_mtime_ns :: int
  st_ctime_ns :: int

definition windowed_stamp :: "nat option \<Rightarrow> source_stamp \<Rightarrow> source_stamp" where
  "windowed_stamp tail_bytes s = (case opt_filter (\<lambda>t. t < st_size s) tail_bytes of
      None \<Rightarrow> s
    | Some t \<Rightarrow> (let quantum = max (t div 2) 1
        in s\<lparr>st_identity := (st_identity s)\<lparr>si_window_base := (st_size s - t) div quantum * quantum\<rparr>\<rparr>))"

definition window_bytes :: "source_stamp \<Rightarrow> nat option" where
  "window_bytes s = (if si_window_base (st_identity s) \<le> st_size s
     then Some (st_size s - si_window_base (st_identity s)) else None)"

definition viewed_as :: "source_stamp \<Rightarrow> source_stamp \<Rightarrow> source_stamp" where
  "viewed_as s pinned =
     s\<lparr>st_identity := (st_identity s)\<lparr>si_window_base := si_window_base (st_identity pinned)\<rparr>\<rparr>"

definition matches_prefix :: "source_stamp \<Rightarrow> source_stamp \<Rightarrow> bool" where
  "matches_prefix current0 pinned = (let current = viewed_as current0 pinned
     in current = pinned \<or> st_identity current = st_identity pinned \<and> st_size pinned < st_size current)"

subsection \<open>What is cached\<close>

datatype provider = ProviderClaude | ProviderCodex

text \<open>The fields of a snapshot the cache reads; \<open>ts_key\<close> is the address of its \<open>Arc\<close>.\<close>

record transcript_snapshot =
  ts_key :: nat
  ts_stamp :: source_stamp
  ts_provider :: provider
  ts_window_start :: nat
  ts_committed_bytes :: nat
  ts_event_count :: nat
  ts_codex_raw :: "nat option"

definition codex_raw_len :: "transcript_snapshot \<Rightarrow> nat" where
  "codex_raw_len s = opt_default 0 (ts_codex_raw s)"

datatype cache_owner =
    Generation nat
  | Carried nat
  | Catalog nat
  | Review "nat list"

text \<open>The derived order: the constructors in turn, then their arguments.\<close>

fun owner_rank :: "cache_owner \<Rightarrow> nat \<times> nat \<times> nat list" where
  "owner_rank (Generation k) = (0, k, [])"
| "owner_rank (Carried k) = (1, k, [])"
| "owner_rank (Catalog k) = (2, k, [])"
| "owner_rank (Review e) = (3, 0, e)"

lemma owner_rank_inj: "owner_rank a = owner_rank b \<longleftrightarrow> a = b"
  by (cases a; cases b) auto

instantiation cache_owner :: linorder
begin

definition less_eq_cache_owner :: "cache_owner \<Rightarrow> cache_owner \<Rightarrow> bool" where
  "less_eq_cache_owner a b \<longleftrightarrow> owner_rank a \<le> owner_rank b"

definition less_cache_owner :: "cache_owner \<Rightarrow> cache_owner \<Rightarrow> bool" where
  "less_cache_owner a b \<longleftrightarrow> owner_rank a < owner_rank b"

instance
  by standard (auto simp: less_eq_cache_owner_def less_cache_owner_def owner_rank_inj order.strict_iff_order)

end

text \<open>The derived order of views puts the larger size first.\<close>

datatype source_view = SourceView (sv_window_start: nat) (sv_size: nat) (sv_generation: nat)

definition view_rank :: "source_view \<Rightarrow> nat \<times> int \<times> nat" where
  "view_rank v = (sv_window_start v, - int (sv_size v), sv_generation v)"

lemma view_rank_inj: "view_rank a = view_rank b \<longleftrightarrow> a = b"
  by (cases a; cases b) (auto simp: view_rank_def)

instantiation source_view :: linorder
begin

definition less_eq_source_view :: "source_view \<Rightarrow> source_view \<Rightarrow> bool" where
  "less_eq_source_view a b \<longleftrightarrow> view_rank a \<le> view_rank b"

definition less_source_view :: "source_view \<Rightarrow> source_view \<Rightarrow> bool" where
  "less_source_view a b \<longleftrightarrow> view_rank a < view_rank b"

instance
  by standard (auto simp: less_eq_source_view_def less_source_view_def view_rank_inj order.strict_iff_order)

end

definition view_of :: "transcript_snapshot \<Rightarrow> source_view" where
  "view_of s = SourceView (ts_window_start s) (st_size (ts_stamp s)) (ts_key s)"

record cached_snapshot =
  ca_snapshot :: transcript_snapshot
  ca_latest :: "source_identity option"
  ca_spine :: "source_identity option"
  ca_classified :: "string option"
  ca_touched :: nat

record generation_record =
  gr_snapshot :: transcript_snapshot
  gr_cached :: "cached_snapshot option"

record carried_owner =
  cw_lineages :: "(source_identity \<times> string) list"
  cw_touched :: nat

record catalog_owner =
  co_key :: string
  co_touched :: nat

record store_state =
  ss_latest :: "source_identity \<rightharpoonup> nat"
  ss_source_spines :: "source_identity \<rightharpoonup> source_view set"
  ss_source_view_nodes :: nat
  ss_classified :: "string \<rightharpoonup> nat"
  ss_cache_order :: "(nat \<times> cache_owner) set"
  ss_cache_clock :: nat
  ss_carried_owners :: "nat \<rightharpoonup> carried_owner"
  ss_catalog_owners :: "nat \<rightharpoonup> catalog_owner"
  ss_recent_codex :: "source_identity \<rightharpoonup> nat"
  ss_recent_codex_raw_bytes :: nat
  ss_generations :: "nat \<rightharpoonup> generation_record"
  ss_carried :: "(source_identity \<times> string) \<rightharpoonup> nat"
  ss_catalogs :: "string \<rightharpoonup> nat"
  ss_review_inputs :: "nat list \<rightharpoonup> nat"
  ss_queue :: "nat list"

definition store_new :: store_state where
  "store_new = \<lparr>ss_latest = Map.empty, ss_source_spines = Map.empty, ss_source_view_nodes = 0,
     ss_classified = Map.empty, ss_cache_order = {}, ss_cache_clock = 0, ss_carried_owners = Map.empty,
     ss_catalog_owners = Map.empty, ss_recent_codex = Map.empty, ss_recent_codex_raw_bytes = 0,
     ss_generations = Map.empty, ss_carried = Map.empty, ss_catalogs = Map.empty,
     ss_review_inputs = Map.empty, ss_queue = []\<rparr>"

subsection \<open>The order of use\<close>

definition check_that :: "bool \<Rightarrow> unit option" where
  "check_that b = (if b then Some () else None)"

definition order_insert :: "nat \<times> cache_owner \<Rightarrow> store_state \<Rightarrow> store_state option" where
  "order_insert x s = (if x \<in> ss_cache_order s then None
     else Some (s\<lparr>ss_cache_order := insert x (ss_cache_order s)\<rparr>))"

definition order_remove :: "nat \<times> cache_owner \<Rightarrow> store_state \<Rightarrow> store_state option" where
  "order_remove x s = (if x \<in> ss_cache_order s
     then Some (s\<lparr>ss_cache_order := ss_cache_order s - {x}\<rparr>) else None)"

definition next_cache_touch :: "store_state \<Rightarrow> (nat \<times> store_state) option" where
  "next_cache_touch s = (if ss_cache_clock s + 1 < 2 ^ 64
     then Some (ss_cache_clock s + 1, s\<lparr>ss_cache_clock := ss_cache_clock s + 1\<rparr>) else None)"

definition cached_at :: "store_state \<Rightarrow> nat \<Rightarrow> cached_snapshot option" where
  "cached_at s key = Option.bind (ss_generations s key) gr_cached"

definition put_cached :: "nat \<Rightarrow> cached_snapshot option \<Rightarrow> store_state \<Rightarrow> store_state option" where
  "put_cached key c s = map_option (\<lambda>r. s\<lparr>ss_generations := (ss_generations s)(key \<mapsto> r\<lparr>gr_cached := c\<rparr>)\<rparr>)
     (ss_generations s key)"

definition with_cached :: "nat \<Rightarrow> (cached_snapshot \<Rightarrow> cached_snapshot) \<Rightarrow> store_state \<Rightarrow> store_state option" where
  "with_cached key f s = do { c \<leftarrow> cached_at s key; put_cached key (Some (f c)) s }"

definition touch_generation :: "nat \<Rightarrow> store_state \<Rightarrow> store_state option" where
  "touch_generation key s0 = do {
     (touched, s) \<leftarrow> next_cache_touch s0;
     c \<leftarrow> cached_at s key;
     s \<leftarrow> order_remove (ca_touched c, Generation key) s;
     s \<leftarrow> put_cached key (Some (c\<lparr>ca_touched := touched\<rparr>)) s;
     order_insert (touched, Generation key) s }"

definition cached_snapshot_at :: "nat \<Rightarrow> store_state \<Rightarrow> (transcript_snapshot \<times> store_state) option" where
  "cached_snapshot_at key s0 = do {
     s \<leftarrow> touch_generation key s0;
     c \<leftarrow> cached_at s key;
     Some (ca_snapshot c, s) }"

definition some_fst :: "'a \<times> 's \<Rightarrow> 'a option \<times> 's" where
  "some_fst r = (Some (fst r), snd r)"

definition latest_source ::
  "source_identity \<Rightarrow> store_state \<Rightarrow> (transcript_snapshot option \<times> store_state) option" where
  "latest_source i s = (case ss_latest s i of
      None \<Rightarrow> Some (None, s)
    | Some key \<Rightarrow> map_option some_fst (cached_snapshot_at key s))"

subsection \<open>Source views\<close>

text \<open>The first element a check, which may panic, accepts.\<close>

fun find_checked :: "('a \<Rightarrow> bool option) \<Rightarrow> 'a list \<Rightarrow> 'a option option" where
  "find_checked p [] = Some None"
| "find_checked p (x # xs) = do { ok \<leftarrow> p x; if ok then Some (Some x) else find_checked p xs }"

definition spine_eligible :: "source_stamp \<Rightarrow> store_state \<Rightarrow> nat \<Rightarrow> bool option" where
  "spine_eligible stamp s key = map_option (\<lambda>c. let source = ca_snapshot c in
       0 < ts_event_count source \<and> matches_prefix stamp (ts_stamp source) \<and>
       (case ts_provider source of
          ProviderClaude \<Rightarrow>
            si_window_base (st_identity (ts_stamp source)) = si_window_base (st_identity stamp) \<or>
            si_window_base (st_identity stamp) < ts_committed_bytes source
        | ProviderCodex \<Rightarrow> ts_codex_raw source \<noteq> None \<and> st_size (ts_stamp source) < st_size stamp))
     (cached_at s key)"

definition views_at :: "store_state \<Rightarrow> source_identity \<Rightarrow> source_view list" where
  "views_at s i = (case ss_source_spines s i of None \<Rightarrow> [] | Some views \<Rightarrow> sorted_list_of_set views)"

definition source_spine ::
  "source_stamp \<Rightarrow> store_state \<Rightarrow> (transcript_snapshot option \<times> store_state) option" where
  "source_spine stamp s = do {
     newest \<leftarrow> find_checked (spine_eligible stamp s) (opt_list (ss_latest s (st_identity stamp)));
     key \<leftarrow> (case newest of
         Some k \<Rightarrow> Some (Some k)
       | None \<Rightarrow> map_option (map_option sv_generation)
           (find_checked (\<lambda>v. spine_eligible stamp s (sv_generation v))
              (views_at s (identity_file (st_identity stamp)))));
     case key of None \<Rightarrow> Some (None, s) | Some k \<Rightarrow> map_option some_fst (cached_snapshot_at k s) }"

definition snapshot_file :: "transcript_snapshot \<Rightarrow> source_identity" where
  "snapshot_file snap = identity_file (st_identity (ts_stamp snap))"

definition drop_view :: "source_view \<Rightarrow> source_view set \<Rightarrow> source_view set option" where
  "drop_view v views = (if views - {v} = {} then None else Some (views - {v}))"

definition remove_source_view :: "transcript_snapshot \<Rightarrow> store_state \<Rightarrow> store_state option" where
  "remove_source_view snap s = do {
     views \<leftarrow> ss_source_spines s (snapshot_file snap);
     check_that (view_of snap \<in> views);
     check_that (0 < ss_source_view_nodes s);
     Some (s\<lparr>ss_source_view_nodes := ss_source_view_nodes s - 1,
       ss_source_spines := (ss_source_spines s)(snapshot_file snap := drop_view (view_of snap) views)\<rparr>) }"

definition insert_source_view :: "source_identity \<Rightarrow> transcript_snapshot \<Rightarrow> store_state \<Rightarrow> store_state option" where
  "insert_source_view physical snap s = (let views = opt_default {} (ss_source_spines s physical) in do {
     check_that (view_of snap \<notin> views);
     with_cached (ts_key snap) (\<lambda>c. c\<lparr>ca_spine := Some physical\<rparr>)
       (s\<lparr>ss_source_spines := (ss_source_spines s)(physical \<mapsto> insert (view_of snap) views),
          ss_source_view_nodes := ss_source_view_nodes s + 1\<rparr>) })"

definition release_unused_cached_generation :: "nat \<Rightarrow> store_state \<Rightarrow> store_state option" where
  "release_unused_cached_generation key s = do {
     r \<leftarrow> ss_generations s key;
     case gr_cached r of
       None \<Rightarrow> Some s
     | Some c \<Rightarrow>
         if ca_latest c = None \<and> ca_spine c = None \<and> ca_classified c = None
         then do { s \<leftarrow> put_cached key None s; order_remove (ca_touched c, Generation key) s }
         else Some s }"

definition forget_source_spine ::
  "source_identity \<Rightarrow> transcript_snapshot \<Rightarrow> store_state \<Rightarrow> store_state option" where
  "forget_source_spine i snap s = (case cached_at s (ts_key snap) of
      None \<Rightarrow> Some s
    | Some c \<Rightarrow>
        if ca_spine c = Some (identity_file i)
        then do {
          s \<leftarrow> remove_source_view snap s;
          s \<leftarrow> with_cached (ts_key snap) (\<lambda>c. c\<lparr>ca_spine := None\<rparr>) s;
          release_unused_cached_generation (ts_key snap) s }
        else Some s)"

subsection \<open>The latest snapshot of a source\<close>

definition raw_bytes_sub :: "nat \<Rightarrow> store_state \<Rightarrow> store_state option" where
  "raw_bytes_sub n s = (if n \<le> ss_recent_codex_raw_bytes s
     then Some (s\<lparr>ss_recent_codex_raw_bytes := ss_recent_codex_raw_bytes s - n\<rparr>) else None)"

definition remove_latest ::
  "source_identity \<Rightarrow> store_state \<Rightarrow> (transcript_snapshot option \<times> store_state) option" where
  "remove_latest i s = (case ss_latest s i of
      None \<Rightarrow> Some (None, s)
    | Some key \<Rightarrow> do {
        c \<leftarrow> cached_at s key;
        s \<leftarrow> put_cached key (Some (c\<lparr>ca_latest := None, ca_spine := None\<rparr>))
               (s\<lparr>ss_latest := (ss_latest s)(i := None)\<rparr>);
        s \<leftarrow> (if ca_spine c \<noteq> None then remove_source_view (ca_snapshot c) s else Some s);
        s \<leftarrow> release_unused_cached_generation key s;
        s \<leftarrow> (if i \<in> dom (ss_recent_codex s) then raw_bytes_sub (codex_raw_len (ca_snapshot c)) s else Some s);
        Some (Some (ca_snapshot c), s) })"

definition next_view :: "source_identity \<Rightarrow> source_view option \<Rightarrow> store_state \<Rightarrow> source_view option" where
  "next_view physical after s =
     find (\<lambda>v. case after of None \<Rightarrow> True | Some previous \<Rightarrow> previous < v) (views_at s physical)"

definition retire_view :: "transcript_snapshot \<Rightarrow> source_view \<Rightarrow> store_state \<Rightarrow> store_state option" where
  "retire_view snap v s = do {
     c \<leftarrow> cached_at s (sv_generation v);
     if matches_prefix (ts_stamp snap) (ts_stamp (ca_snapshot c)) then Some s
     else (case ca_latest c of
         Some i \<Rightarrow> map_option snd (remove_latest i s)
       | None \<Rightarrow> forget_source_spine (snapshot_file snap) (ca_snapshot c) s) }"

partial_function (option) retire_after ::
  "transcript_snapshot \<Rightarrow> source_view option \<Rightarrow> store_state \<Rightarrow> store_state option" where
  "retire_after snap after s = (case next_view (snapshot_file snap) after s of
      None \<Rightarrow> Some s
    | Some v \<Rightarrow> Option.bind (retire_view snap v s) (\<lambda>s. retire_after snap (Some v) s))"

definition retire_incompatible_source_views :: "transcript_snapshot \<Rightarrow> store_state \<Rightarrow> store_state option" where
  "retire_incompatible_source_views snap s = retire_after snap None s"

definition cache_generation :: "transcript_snapshot \<Rightarrow> store_state \<Rightarrow> store_state option" where
  "cache_generation snap s0 = (let key = ts_key snap in do {
     r \<leftarrow> ss_generations s0 key;
     case gr_cached r of
       Some _ \<Rightarrow> touch_generation key s0
     | None \<Rightarrow> do {
         (touched, s) \<leftarrow> next_cache_touch s0;
         s \<leftarrow> put_cached key (Some \<lparr>ca_snapshot = snap, ca_latest = None, ca_spine = None,
                ca_classified = None, ca_touched = touched\<rparr>) s;
         order_insert (touched, Generation key) s } })"

definition displace_latest ::
  "source_identity \<Rightarrow> nat \<Rightarrow> store_state \<Rightarrow> (transcript_snapshot option \<times> store_state) option" where
  "displace_latest i key s = (case ss_latest s i of
      None \<Rightarrow> Some (None, s)
    | Some old \<Rightarrow> do {
        c \<leftarrow> cached_at s old;
        s \<leftarrow> (if old = key then Some s else do {
               s \<leftarrow> with_cached old (\<lambda>c. c\<lparr>ca_latest := None\<rparr>) s;
               s \<leftarrow> forget_source_spine i (ca_snapshot c) s;
               release_unused_cached_generation old s });
        Some (Some (ca_snapshot c), s) })"

definition insert_latest ::
  "source_identity \<Rightarrow> transcript_snapshot \<Rightarrow> store_state \<Rightarrow> (transcript_snapshot option \<times> store_state) option" where
  "insert_latest i snap s0 = (let key = ts_key snap in do {
     (displaced, s) \<leftarrow> displace_latest i key s0;
     s \<leftarrow> cache_generation snap s;
     s \<leftarrow> with_cached key (\<lambda>c. c\<lparr>ca_latest := Some i\<rparr>) (s\<lparr>ss_latest := (ss_latest s)(i \<mapsto> key)\<rparr>);
     s \<leftarrow> retire_incompatible_source_views snap s;
     c \<leftarrow> cached_at s key;
     s \<leftarrow> (if ca_spine c = None then insert_source_view (identity_file i) snap s else Some s);
     s \<leftarrow> (if i \<in> dom (ss_recent_codex s) then do {
              s \<leftarrow> raw_bytes_sub (case displaced of None \<Rightarrow> 0 | Some d \<Rightarrow> codex_raw_len d) s;
              Some (s\<lparr>ss_recent_codex_raw_bytes := ss_recent_codex_raw_bytes s + codex_raw_len snap\<rparr>) }
            else Some s);
     Some (displaced, s) })"

definition latest_raw_bytes :: "source_identity \<Rightarrow> store_state \<Rightarrow> nat option" where
  "latest_raw_bytes i s = (case ss_latest s i of
      None \<Rightarrow> Some 0
    | Some key \<Rightarrow> map_option (\<lambda>c. codex_raw_len (ca_snapshot c)) (cached_at s key))"

definition insert_recent_codex :: "source_identity \<Rightarrow> nat \<Rightarrow> store_state \<Rightarrow> store_state option" where
  "insert_recent_codex i now s0 =
     (let s = s0\<lparr>ss_recent_codex := (ss_recent_codex s0)(i \<mapsto> now)\<rparr>
      in if i \<in> dom (ss_recent_codex s0) then Some s
         else map_option (\<lambda>n. s\<lparr>ss_recent_codex_raw_bytes := ss_recent_codex_raw_bytes s + n\<rparr>)
                (latest_raw_bytes i s))"

definition remove_recent_codex :: "source_identity \<Rightarrow> store_state \<Rightarrow> store_state option" where
  "remove_recent_codex i s =
     (if i \<in> dom (ss_recent_codex s) then do {
        n \<leftarrow> latest_raw_bytes i s;
        raw_bytes_sub n (s\<lparr>ss_recent_codex := (ss_recent_codex s)(i := None)\<rparr>) }
      else Some s)"

subsection \<open>Classified generations\<close>

definition insert_classified :: "string \<Rightarrow> transcript_snapshot \<Rightarrow> store_state \<Rightarrow> store_state option" where
  "insert_classified name snap s0 = (let generation = ts_key snap in do {
     s \<leftarrow> cache_generation snap s0;
     let previous = opt_filter (\<lambda>p. p \<noteq> generation) (ss_classified s name);
     let s = s\<lparr>ss_classified := (ss_classified s)(name \<mapsto> generation)\<rparr>;
     s \<leftarrow> (case previous of
         None \<Rightarrow> Some s
       | Some p \<Rightarrow> do {
           s \<leftarrow> with_cached p (\<lambda>c. c\<lparr>ca_classified := None\<rparr>) s;
           release_unused_cached_generation p s });
     with_cached generation (\<lambda>c. c\<lparr>ca_classified := Some name\<rparr>) s })"

definition classified_source ::
  "string \<Rightarrow> store_state \<Rightarrow> (transcript_snapshot option \<times> store_state) option" where
  "classified_source name s = (case ss_classified s name of
      None \<Rightarrow> Some (None, s)
    | Some key \<Rightarrow> map_option some_fst (cached_snapshot_at key s))"

subsection \<open>Carried classifications, catalogs and review inputs\<close>

definition attach_carried_owner :: "source_identity \<times> string \<Rightarrow> nat \<Rightarrow> store_state \<Rightarrow> store_state option" where
  "attach_carried_owner lineage key s0 = do {
     (touched, s) \<leftarrow> next_cache_touch s0;
     s \<leftarrow> (case ss_carried_owners s key of
         Some w \<Rightarrow> do {
           s \<leftarrow> order_remove (cw_touched w, Carried key) s;
           Some (s\<lparr>ss_carried_owners := (ss_carried_owners s)
             (key \<mapsto> \<lparr>cw_lineages = cw_lineages w @ [lineage], cw_touched = touched\<rparr>)\<rparr>) }
       | None \<Rightarrow> Some (s\<lparr>ss_carried_owners := (ss_carried_owners s)
             (key \<mapsto> \<lparr>cw_lineages = [lineage], cw_touched = touched\<rparr>)\<rparr>));
     order_insert (touched, Carried key) s }"

text \<open>\<open>Vec::swap_remove\<close> of the first occurrence.\<close>

definition position_of :: "'a \<Rightarrow> 'a list \<Rightarrow> nat option" where
  "position_of x xs = find (\<lambda>i. xs ! i = x) [0..<length xs]"

definition swap_remove :: "nat \<Rightarrow> 'a list \<Rightarrow> 'a list" where
  "swap_remove i xs = butlast (xs[i := last xs])"

definition detach_carried_owner :: "source_identity \<times> string \<Rightarrow> nat \<Rightarrow> store_state \<Rightarrow> store_state option" where
  "detach_carried_owner lineage key s = do {
     w \<leftarrow> ss_carried_owners s key;
     at \<leftarrow> position_of lineage (cw_lineages w);
     let rest = swap_remove at (cw_lineages w);
     if rest = []
     then order_remove (cw_touched w, Carried key) (s\<lparr>ss_carried_owners := (ss_carried_owners s)(key := None)\<rparr>)
     else Some (s\<lparr>ss_carried_owners := (ss_carried_owners s)(key \<mapsto> w\<lparr>cw_lineages := rest\<rparr>)\<rparr>) }"

definition touch_carried_owner :: "nat \<Rightarrow> store_state \<Rightarrow> store_state option" where
  "touch_carried_owner key s0 = do {
     (touched, s) \<leftarrow> next_cache_touch s0;
     w \<leftarrow> ss_carried_owners s key;
     s \<leftarrow> order_remove (cw_touched w, Carried key) s;
     order_insert (touched, Carried key)
       (s\<lparr>ss_carried_owners := (ss_carried_owners s)(key \<mapsto> w\<lparr>cw_touched := touched\<rparr>)\<rparr>) }"

definition insert_carried :: "source_identity \<times> string \<Rightarrow> nat \<Rightarrow> store_state \<Rightarrow> store_state option" where
  "insert_carried lineage key s0 = do {
     s \<leftarrow> (case ss_carried s0 lineage of None \<Rightarrow> Some s0 | Some previous \<Rightarrow> detach_carried_owner lineage previous s0);
     s \<leftarrow> attach_carried_owner lineage key s;
     Some (s\<lparr>ss_carried := (ss_carried s)(lineage \<mapsto> key)\<rparr>) }"

definition remove_carried :: "source_identity \<times> string \<Rightarrow> store_state \<Rightarrow> store_state option" where
  "remove_carried lineage s = (case ss_carried s lineage of
      None \<Rightarrow> Some s
    | Some key \<Rightarrow> detach_carried_owner lineage key (s\<lparr>ss_carried := (ss_carried s)(lineage := None)\<rparr>))"

text \<open>The reader's use of a carried classification.\<close>

definition carried_use :: "source_identity \<times> string \<Rightarrow> store_state \<Rightarrow> (nat option \<times> store_state) option" where
  "carried_use lineage s = (case ss_carried s lineage of
      None \<Rightarrow> Some (None, s)
    | Some key \<Rightarrow> map_option (\<lambda>s. (Some key, s)) (touch_carried_owner key s))"

definition attach_catalog_owner :: "string \<Rightarrow> nat \<Rightarrow> store_state \<Rightarrow> store_state option" where
  "attach_catalog_owner name slot s0 = do {
     (touched, s) \<leftarrow> next_cache_touch s0;
     check_that (ss_catalog_owners s slot = None);
     order_insert (touched, Catalog slot)
       (s\<lparr>ss_catalog_owners := (ss_catalog_owners s)(slot \<mapsto> \<lparr>co_key = name, co_touched = touched\<rparr>)\<rparr>) }"

definition touch_catalog_owner :: "nat \<Rightarrow> store_state \<Rightarrow> store_state option" where
  "touch_catalog_owner slot s0 = do {
     (touched, s) \<leftarrow> next_cache_touch s0;
     w \<leftarrow> ss_catalog_owners s slot;
     s \<leftarrow> order_remove (co_touched w, Catalog slot) s;
     order_insert (touched, Catalog slot)
       (s\<lparr>ss_catalog_owners := (ss_catalog_owners s)(slot \<mapsto> w\<lparr>co_touched := touched\<rparr>)\<rparr>) }"

definition detach_catalog_owner :: "nat \<Rightarrow> store_state \<Rightarrow> (catalog_owner \<times> store_state) option" where
  "detach_catalog_owner slot s0 = do {
     w \<leftarrow> ss_catalog_owners s0 slot;
     s \<leftarrow> order_remove (co_touched w, Catalog slot)
       (s0\<lparr>ss_catalog_owners := (ss_catalog_owners s0)(slot := None)\<rparr>);
     Some (w, s) }"

definition remove_catalog :: "string \<Rightarrow> store_state \<Rightarrow> (nat option \<times> store_state) option" where
  "remove_catalog name s0 = (case ss_catalogs s0 name of
      None \<Rightarrow> Some (None, s0)
    | Some slot \<Rightarrow> do {
        (w, s) \<leftarrow> detach_catalog_owner slot (s0\<lparr>ss_catalogs := (ss_catalogs s0)(name := None)\<rparr>);
        check_that (co_key w = name);
        Some (Some slot, s) })"

text \<open>The slot of a catalog, the new one \<open>fresh\<close> when there is none.\<close>

definition catalog_slot :: "string \<Rightarrow> nat \<Rightarrow> store_state \<Rightarrow> (nat \<times> store_state) option" where
  "catalog_slot name fresh s = (case ss_catalogs s name of
      Some slot \<Rightarrow> map_option (\<lambda>s. (slot, s)) (touch_catalog_owner slot s)
    | None \<Rightarrow> map_option (\<lambda>s. (fresh, s))
        (attach_catalog_owner name fresh (s\<lparr>ss_catalogs := (ss_catalogs s)(name \<mapsto> fresh)\<rparr>)))"

definition take_review_input :: "nat list \<Rightarrow> store_state \<Rightarrow> store_state option" where
  "take_review_input epoch s = (case ss_review_inputs s epoch of
      None \<Rightarrow> Some s
    | Some touched \<Rightarrow> order_remove (touched, Review epoch)
        (s\<lparr>ss_review_inputs := (ss_review_inputs s)(epoch := None)\<rparr>))"

definition publish_review_input :: "nat list \<Rightarrow> store_state \<Rightarrow> store_state option" where
  "publish_review_input epoch s0 = do {
     (touched, s) \<leftarrow> next_cache_touch s0;
     s \<leftarrow> order_insert (touched, Review epoch) s;
     check_that (ss_review_inputs s epoch = None);
     Some (s\<lparr>ss_review_inputs := (ss_review_inputs s)(epoch \<mapsto> touched)\<rparr>) }"

subsection \<open>Generations and their deaths\<close>

definition register_generation :: "transcript_snapshot \<Rightarrow> store_state \<Rightarrow> store_state" where
  "register_generation snap s = s\<lparr>ss_generations := (ss_generations s)(ts_key snap \<mapsto>
     \<lparr>gr_snapshot = snap, gr_cached = cached_at s (ts_key snap)\<rparr>)\<rparr>"

definition unregister_generation :: "nat \<Rightarrow> store_state \<Rightarrow> store_state option" where
  "unregister_generation key s = (case ss_generations s key of
      None \<Rightarrow> Some s
    | Some r \<Rightarrow> if gr_cached r = None
        then Some (s\<lparr>ss_generations := (ss_generations s)(key := None)\<rparr>) else None)"

text \<open>The drop of the last \<open>Arc\<close> of a snapshot queues its death. So a queued snapshot has no
  strong reference left, which \<open>drain\<close> asserts in the code: a guarantee of \<open>Arc\<close>, no branch here.\<close>

definition notify_death :: "nat \<Rightarrow> store_state \<Rightarrow> store_state" where
  "notify_death key s = s\<lparr>ss_queue := ss_queue s @ [key]\<rparr>"

fun unregister_all :: "nat list \<Rightarrow> store_state \<Rightarrow> store_state option" where
  "unregister_all [] s = Some s"
| "unregister_all (key # keys) s = Option.bind (unregister_generation key s) (unregister_all keys)"

definition drain :: "store_state \<Rightarrow> store_state option" where
  "drain s = unregister_all (ss_queue s) (s\<lparr>ss_queue := []\<rparr>)"

subsection \<open>Eviction\<close>

definition available :: "(cache_owner \<Rightarrow> nat) \<Rightarrow> store_state \<Rightarrow> cache_owner \<Rightarrow> bool option" where
  "available strong s owner = (case owner of
      Review _ \<Rightarrow> Some True
    | Catalog key \<Rightarrow> do {
        w \<leftarrow> ss_catalog_owners s key;
        slot \<leftarrow> ss_catalogs s (co_key w);
        Some (strong (Catalog slot) = 1) }
    | Generation key \<Rightarrow> do {
        c \<leftarrow> cached_at s key;
        Some (strong (Generation (ts_key (ca_snapshot c))) = 1) }
    | Carried key \<Rightarrow> do {
        w \<leftarrow> ss_carried_owners s key;
        check_that (cw_lineages w \<noteq> []);
        carried \<leftarrow> ss_carried s (hd (cw_lineages w));
        Some (strong (Carried carried) = length (cw_lineages w)) })"

definition next_cache_victim :: "(cache_owner \<Rightarrow> nat) \<Rightarrow> store_state \<Rightarrow> cache_owner option option" where
  "next_cache_victim strong s = map_option (map_option snd)
     (find_checked (\<lambda>(_, owner). available strong s owner) (sorted_list_of_set (ss_cache_order s)))"

fun remove_aliases :: "(source_identity \<times> string) list \<Rightarrow> store_state \<Rightarrow> store_state option" where
  "remove_aliases [] s = Some s"
| "remove_aliases (lineage # rest) s = do {
     _ \<leftarrow> ss_carried s lineage;
     remove_aliases rest (s\<lparr>ss_carried := (ss_carried s)(lineage := None)\<rparr>) }"

text \<open>What the eviction of a generation takes out of each index.\<close>

definition evict_latest :: "nat \<Rightarrow> cached_snapshot \<Rightarrow> store_state \<Rightarrow> store_state option" where
  "evict_latest key c s = (case ca_latest c of
      None \<Rightarrow> Some s
    | Some i \<Rightarrow>
        if ss_latest s i = Some key
        then (let s' = s\<lparr>ss_latest := (ss_latest s)(i := None)\<rparr>
              in if i \<in> dom (ss_recent_codex s) then raw_bytes_sub (codex_raw_len (ca_snapshot c)) s' else Some s')
        else None)"

definition evict_view :: "cached_snapshot \<Rightarrow> store_state \<Rightarrow> store_state option" where
  "evict_view c s = (case ca_spine c of None \<Rightarrow> Some s | Some _ \<Rightarrow> remove_source_view (ca_snapshot c) s)"

definition evict_classified :: "nat \<Rightarrow> cached_snapshot \<Rightarrow> store_state \<Rightarrow> store_state option" where
  "evict_classified key c s = (case ca_classified c of
      None \<Rightarrow> Some s
    | Some name \<Rightarrow>
        if ss_classified s name = Some key
        then Some (s\<lparr>ss_classified := (ss_classified s)(name := None)\<rparr>)
        else None)"

definition evict_generation :: "(cache_owner \<Rightarrow> nat) \<Rightarrow> nat \<Rightarrow> store_state \<Rightarrow> store_state option" where
  "evict_generation strong key s0 = do {
     c \<leftarrow> cached_at s0 key;
     s \<leftarrow> put_cached key None s0;
     s \<leftarrow> order_remove (ca_touched c, Generation key) s;
     s \<leftarrow> evict_latest key c s;
     s \<leftarrow> evict_view c s;
     s \<leftarrow> evict_classified key c s;
     Some (if strong (Generation key) = 1 then notify_death key s else s) }"

definition evict_cache_owner :: "(cache_owner \<Rightarrow> nat) \<Rightarrow> cache_owner \<Rightarrow> store_state \<Rightarrow> store_state option" where
  "evict_cache_owner strong owner s0 = Option.bind (case owner of
      Review key \<Rightarrow> do {
        touched \<leftarrow> ss_review_inputs s0 key;
        order_remove (touched, owner) (s0\<lparr>ss_review_inputs := (ss_review_inputs s0)(key := None)\<rparr>) }
    | Catalog key \<Rightarrow> do {
        w \<leftarrow> ss_catalog_owners s0 key;
        (slot, s) \<leftarrow> remove_catalog (co_key w) s0;
        check_that (slot \<noteq> None);
        Some s }
    | Generation key \<Rightarrow> evict_generation strong key s0
    | Carried key \<Rightarrow> do {
        w \<leftarrow> ss_carried_owners s0 key;
        s \<leftarrow> order_remove (cw_touched w, owner) (s0\<lparr>ss_carried_owners := (ss_carried_owners s0)(key := None)\<rparr>);
        remove_aliases (cw_lineages w) s }) drain"

text \<open>The evictions that make room: \<open>gauge\<close> is the gauge of retained bytes.\<close>

partial_function (option) evict_until ::
  "(store_state \<Rightarrow> cache_owner \<Rightarrow> nat) \<Rightarrow> (store_state \<Rightarrow> nat) \<Rightarrow> nat \<Rightarrow> nat \<Rightarrow> store_state \<Rightarrow> store_state option" where
  "evict_until strong gauge additional cap s =
     (if cap < sat_add (gauge s) additional
      then Option.bind (next_cache_victim (strong s) s) (\<lambda>victim. case victim of
          None \<Rightarrow> Some s
        | Some owner \<Rightarrow> Option.bind (evict_cache_owner (strong s) owner s)
            (\<lambda>s. evict_until strong gauge additional cap s))
      else Some s)"

datatype admission_result = Admitted | RetainedLimit

definition admit_background ::
  "(store_state \<Rightarrow> cache_owner \<Rightarrow> nat) \<Rightarrow> (store_state \<Rightarrow> nat) \<Rightarrow> nat \<Rightarrow> nat \<Rightarrow> store_state \<Rightarrow>
   (admission_result \<times> store_state) option" where
  "admit_background strong gauge additional cap s0 =
     map_option (\<lambda>s. (if cap < sat_add (gauge s) additional then RetainedLimit else Admitted, s))
       (evict_until strong gauge additional cap s0)"

end
