(* ===== verification/CacheFacts.thy ===== *)
theory CacheFacts
  imports SnapshotCache
begin

text \<open>The invariant of the snapshot cache, what keeps it, and what follows: no operation panics,
  the victim is the least recently used owner, making room ends.\<close>

subsection \<open>The order of use\<close>

definition lru_ok :: "(nat \<times> 'o) set \<Rightarrow> nat \<Rightarrow> ('o \<rightharpoonup> nat) \<Rightarrow> bool" where
  "lru_ok order clock touched \<longleftrightarrow> finite order \<and> (\<forall>t w. (t, w) \<in> order \<longleftrightarrow> touched w = Some t) \<and>
     (\<forall>w t. touched w = Some t \<longrightarrow> t \<le> clock) \<and>
     (\<forall>w w' t. touched w = Some t \<longrightarrow> touched w' = Some t \<longrightarrow> w = w')"

lemma lru_order: "lru_ok order clock touched \<Longrightarrow> (t, w) \<in> order \<longleftrightarrow> touched w = Some t"
  by (simp add: lru_ok_def)

lemma lru_finite: "lru_ok order clock touched \<Longrightarrow> finite order"
  by (simp add: lru_ok_def)

lemma lru_past: "lru_ok order clock touched \<Longrightarrow> touched w = Some t \<Longrightarrow> t \<le> clock"
  by (simp add: lru_ok_def)

lemma lru_fresh: "lru_ok order clock touched \<Longrightarrow> (Suc clock, w) \<notin> order"
  by (fastforce simp: lru_ok_def)

lemma lru_promote_new:
  "lru_ok order clock touched \<Longrightarrow> touched w = None \<Longrightarrow>
   lru_ok (insert (Suc clock, w) order) (Suc clock) (touched(w \<mapsto> Suc clock))"
  unfolding lru_ok_def by (auto simp: le_Suc_eq) (metis Suc_n_not_le_n)+

lemma lru_drop:
  "lru_ok order clock touched \<Longrightarrow> touched w = Some t \<Longrightarrow>
   lru_ok (order - {(t, w)}) clock (touched(w := None))"
  unfolding lru_ok_def by auto

lemma lru_promote:
  assumes "lru_ok order clock touched" "touched w = Some t"
  shows "lru_ok (insert (Suc clock, w) (order - {(t, w)})) (Suc clock) (touched(w \<mapsto> Suc clock))"
  using lru_promote_new [OF lru_drop [OF assms], of w] by simp

subsection \<open>Tables that invert a field\<close>

definition alias_ok :: "('a \<rightharpoonup> 'k) \<Rightarrow> ('k \<rightharpoonup> 'a) \<Rightarrow> bool" where
  "alias_ok table field \<longleftrightarrow> (\<forall>a k. table a = Some k \<longleftrightarrow> field k = Some a)"

lemma alias_lookup: "alias_ok table field \<Longrightarrow> table a = Some k \<longleftrightarrow> field k = Some a"
  by (simp add: alias_ok_def)

lemma alias_drop: "alias_ok table field \<Longrightarrow> field k = Some a \<Longrightarrow> alias_ok (table(a := None)) (field(k := None))"
  unfolding alias_ok_def by (auto dest: sym) (metis option.inject)

lemma alias_put:
  "alias_ok table field \<Longrightarrow> table a = None \<Longrightarrow> field k = None \<Longrightarrow>
   alias_ok (table(a \<mapsto> k)) (field(k \<mapsto> a))"
  unfolding alias_ok_def by auto (metis option.distinct(1))+

definition field_of :: "('c \<Rightarrow> 'a option) \<Rightarrow> (nat \<rightharpoonup> 'c) \<Rightarrow> nat \<rightharpoonup> 'a" where
  "field_of f C k = Option.bind (C k) f"

lemma field_of_upd [simp]: "field_of f (C(k := x)) = (field_of f C)(k := Option.bind x f)"
  by (auto simp: field_of_def)

lemma field_of_at: "C k = Some c \<Longrightarrow> field_of f C k = f c"
  by (simp add: field_of_def)

lemma field_of_same [simp]: "C k = Some c \<Longrightarrow> f c = x \<Longrightarrow> (field_of f C)(k := x) = field_of f C"
  by (rule fun_upd_idem) (simp add: field_of_def)

lemma field_of_none [simp]: "C k = None \<Longrightarrow> (field_of f C)(k := None) = field_of f C"
  by (rule fun_upd_idem) (simp add: field_of_def)

subsection \<open>The indexes of source views\<close>

definition spine_nodes :: "(nat \<rightharpoonup> cached_snapshot) \<Rightarrow> nat set" where
  "spine_nodes C = {k. field_of ca_spine C k \<noteq> None}"

definition keyed :: "(nat \<rightharpoonup> cached_snapshot) \<Rightarrow> bool" where
  "keyed C \<longleftrightarrow> finite (dom C) \<and> (\<forall>k c. C k = Some c \<longrightarrow> ts_key (ca_snapshot c) = k \<and>
     (\<forall>i. ca_latest c = Some i \<longrightarrow> identity_file i = snapshot_file (ca_snapshot c)) \<and>
     (\<forall>f. ca_spine c = Some f \<longrightarrow> f = snapshot_file (ca_snapshot c)))"

lemma keyedD:
  assumes "keyed C" "C k = Some c"
  shows "ts_key (ca_snapshot c) = k" "ca_latest c = Some i \<Longrightarrow> identity_file i = snapshot_file (ca_snapshot c)"
    "ca_spine c = Some f \<Longrightarrow> f = snapshot_file (ca_snapshot c)"
  using assms by (auto simp: keyed_def)

lemma keyed_put:
  "keyed C \<Longrightarrow> (\<And>c. x = Some c \<Longrightarrow> ts_key (ca_snapshot c) = k \<and>
     (\<forall>i. ca_latest c = Some i \<longrightarrow> identity_file i = snapshot_file (ca_snapshot c)) \<and>
     (\<forall>f. ca_spine c = Some f \<longrightarrow> f = snapshot_file (ca_snapshot c))) \<Longrightarrow> keyed (C(k := x))"
  unfolding keyed_def by auto

definition spines_ok :: "(source_identity \<rightharpoonup> source_view set) \<Rightarrow> nat \<Rightarrow> (nat \<rightharpoonup> cached_snapshot) \<Rightarrow> bool" where
  "spines_ok S n C \<longleftrightarrow>
     (\<forall>f v. v \<in> opt_default {} (S f) \<longleftrightarrow>
        (\<exists>c. C (sv_generation v) = Some c \<and> ca_spine c = Some f \<and> v = view_of (ca_snapshot c))) \<and>
     (\<forall>f. S f \<noteq> Some {}) \<and> n = card (spine_nodes C)"

lemma view_generation [simp]: "sv_generation (view_of s) = ts_key s"
  by (simp add: view_of_def)

lemma spines_mem:
  "spines_ok S n C \<Longrightarrow> v \<in> opt_default {} (S f) \<longleftrightarrow>
     (\<exists>c. C (sv_generation v) = Some c \<and> ca_spine c = Some f \<and> v = view_of (ca_snapshot c))"
  by (simp add: spines_ok_def)

lemma spine_nodes_finite: "finite (dom C) \<Longrightarrow> finite (spine_nodes C)"
  by (rule finite_subset [of _ "dom C"]) (auto simp: spine_nodes_def field_of_def split: Option.bind_splits)

lemma spines_views:
  assumes "spines_ok S n C" "keyed C" "C k = Some c" "ca_spine c = Some f"
  shows "\<exists>V. S f = Some V \<and> view_of (ca_snapshot c) \<in> V" "0 < n"
proof -
  have "view_of (ca_snapshot c) \<in> opt_default {} (S f)"
    using assms by (simp add: spines_mem keyedD)
  then show "\<exists>V. S f = Some V \<and> view_of (ca_snapshot c) \<in> V" by (cases "S f") auto
  have "k \<in> spine_nodes C" using assms by (simp add: spine_nodes_def field_of_def)
  then show "0 < n"
    using assms spine_nodes_finite [of C] by (auto simp: spines_ok_def card_gt_0_iff keyed_def)
qed

lemma spines_other:
  assumes "spines_ok S n C" "keyed C" "C k = Some c" "ca_spine c' = ca_spine c" "ca_snapshot c' = ca_snapshot c"
  shows "spines_ok S n (C(k \<mapsto> c'))"
proof -
  have "spine_nodes (C(k \<mapsto> c')) = spine_nodes C" using assms by (auto simp: spine_nodes_def field_of_def)
  then show ?thesis using assms unfolding spines_ok_def by (auto simp: split: if_splits)
qed

lemma spines_none:
  assumes "spines_ok S n C" "field_of ca_spine C k = None" "Option.bind x ca_spine = None"
  shows "spines_ok S n (C(k := x))"
proof -
  have "spine_nodes (C(k := x)) = spine_nodes C" using assms by (auto simp: spine_nodes_def)
  then show ?thesis
    using assms unfolding spines_ok_def by (auto simp: field_of_def split: if_splits Option.bind_splits)
qed

lemma spines_remove:
  assumes ok: "spines_ok S n C" "keyed C" "C k = Some c" "ca_spine c = Some f" and V: "S f = Some V"
    and x: "Option.bind x ca_spine = None"
  shows "spines_ok (S(f := drop_view (view_of (ca_snapshot c)) V)) (n - 1) (C(k := x))"
proof -
  let ?v = "view_of (ca_snapshot c)"
  have key: "ts_key (ca_snapshot c) = k" using ok by (simp add: keyedD)
  have "spine_nodes (C(k := x)) = spine_nodes C - {k}" using x by (auto simp: spine_nodes_def)
  moreover have "k \<in> spine_nodes C" using ok by (simp add: spine_nodes_def field_of_def)
  ultimately have card: "n - 1 = card (spine_nodes (C(k := x)))"
    using ok spine_nodes_finite [of C] by (simp add: spines_ok_def keyed_def)
  have kept: "v \<in> opt_default {} (S g) \<and> \<not> (g = f \<and> v = ?v) \<longleftrightarrow>
      (\<exists>d. (C(k := x)) (sv_generation v) = Some d \<and> ca_spine d = Some g \<and> v = view_of (ca_snapshot d))" for g v
  proof (cases "sv_generation v = k")
    case True
    then show ?thesis using x ok key by (auto simp: spines_mem [OF ok(1)] split: Option.bind_splits)
  next
    case False
    then show ?thesis using key by (auto simp: spines_mem [OF ok(1)])
  qed
  have dropped: "v \<in> opt_default {} ((S(f := drop_view ?v V)) g) \<longleftrightarrow>
      v \<in> opt_default {} (S g) \<and> \<not> (g = f \<and> v = ?v)" for g v
    using V by (auto simp: drop_view_def)
  have ne: "(S(f := drop_view ?v V)) g \<noteq> Some {}" for g
    using ok(1) by (auto simp: drop_view_def spines_ok_def)
  show ?thesis unfolding spines_ok_def dropped kept using ne card by simp
qed

lemma spines_insert:
  assumes ok: "spines_ok S n C" "keyed C" "C k = Some c" "ca_spine c = None"
    and c': "ca_snapshot c' = ca_snapshot c" "ca_spine c' = Some f"
  shows "view_of (ca_snapshot c) \<notin> opt_default {} (S f)"
    "spines_ok (S(f \<mapsto> insert (view_of (ca_snapshot c)) (opt_default {} (S f)))) (n + 1) (C(k \<mapsto> c'))"
proof -
  let ?v = "view_of (ca_snapshot c)"
  have key: "ts_key (ca_snapshot c) = k" using ok by (simp add: keyedD)
  show "?v \<notin> opt_default {} (S f)" using ok key by (simp add: spines_mem)
  have "spine_nodes (C(k \<mapsto> c')) = insert k (spine_nodes C)" using c' by (auto simp: spine_nodes_def)
  moreover have "k \<notin> spine_nodes C" using ok by (simp add: spine_nodes_def field_of_def)
  ultimately have "n + 1 = card (spine_nodes (C(k \<mapsto> c')))"
    using ok spine_nodes_finite [of C] by (simp add: spines_ok_def keyed_def)
  moreover have "v \<in> opt_default {} ((S(f \<mapsto> insert ?v (opt_default {} (S f)))) g) \<longleftrightarrow>
      (\<exists>d. (C(k \<mapsto> c')) (sv_generation v) = Some d \<and> ca_spine d = Some g \<and> v = view_of (ca_snapshot d))" for g v
  proof (cases "sv_generation v = k")
    case True
    then show ?thesis using c' ok key by (auto simp: spines_mem [OF ok(1)])
  next
    case False
    then show ?thesis using key by (auto simp: spines_mem [OF ok(1)])
  qed
  ultimately show "spines_ok (S(f \<mapsto> insert ?v (opt_default {} (S f)))) (n + 1) (C(k \<mapsto> c'))"
    using ok(1) unfolding spines_ok_def by auto
qed

subsection \<open>The invariant\<close>

definition cached_map :: "(nat \<rightharpoonup> generation_record) \<Rightarrow> nat \<rightharpoonup> cached_snapshot" where
  "cached_map G k = Option.bind (G k) gr_cached"

lemma cached_at_map: "cached_at s = cached_map (ss_generations s)"
  by (simp add: cached_at_def cached_map_def fun_eq_iff)

lemma cached_map_upd [simp]: "cached_map (G(k \<mapsto> r)) = (cached_map G)(k := gr_cached r)"
  by (auto simp: cached_map_def)

lemma cached_map_drop [simp]: "cached_map (G(k := None)) = (cached_map G)(k := None)"
  by (auto simp: cached_map_def)

lemma cached_map_Some: "cached_map G k = Some c \<longleftrightarrow> (\<exists>r. G k = Some r \<and> gr_cached r = Some c)"
  by (auto simp: cached_map_def split: Option.bind_splits)

lemma put_cached_eq: "ss_generations s k = Some r \<Longrightarrow>
    put_cached k x s = Some (s\<lparr>ss_generations := (ss_generations s)(k \<mapsto> r\<lparr>gr_cached := x\<rparr>)\<rparr>)"
  by (simp add: put_cached_def)

fun owner_touch ::
  "(nat \<rightharpoonup> cached_snapshot) \<Rightarrow> (nat \<rightharpoonup> carried_owner) \<Rightarrow> (nat \<rightharpoonup> catalog_owner) \<Rightarrow> (nat list \<rightharpoonup> nat) \<Rightarrow>
   cache_owner \<Rightarrow> nat option" where
  "owner_touch C W K R (Generation k) = map_option ca_touched (C k)"
| "owner_touch C W K R (Carried k) = map_option cw_touched (W k)"
| "owner_touch C W K R (Catalog k) = map_option co_touched (K k)"
| "owner_touch C W K R (Review e) = R e"

lemma owner_touch_upd [simp]:
  "owner_touch (C(k := x)) W K R = (owner_touch C W K R)(Generation k := map_option ca_touched x)"
  "owner_touch C (W(p := y)) K R = (owner_touch C W K R)(Carried p := map_option cw_touched y)"
  "owner_touch C W (K(q := z)) R = (owner_touch C W K R)(Catalog q := map_option co_touched z)"
  "owner_touch C W K (R(e := t)) = (owner_touch C W K R)(Review e := t)"
  by (rule ext, rename_tac w, case_tac w; simp)+

definition gens_ok :: "(nat \<rightharpoonup> generation_record) \<Rightarrow> bool" where
  "gens_ok G \<longleftrightarrow> finite (dom G) \<and> (\<forall>k r. G k = Some r \<longrightarrow> ts_key (gr_snapshot r) = k \<and>
     (\<forall>c. gr_cached r = Some c \<longrightarrow> ca_snapshot c = gr_snapshot r))"

lemma gens_okD:
  "gens_ok G \<Longrightarrow> G k = Some r \<Longrightarrow> ts_key (gr_snapshot r) = k"
  "gens_ok G \<Longrightarrow> G k = Some r \<Longrightarrow> gr_cached r = Some c \<Longrightarrow> ca_snapshot c = gr_snapshot r"
  by (auto simp: gens_ok_def)

lemma gens_ok_put:
  "gens_ok G \<Longrightarrow> G k = Some r \<Longrightarrow> (\<And>c. x = Some c \<Longrightarrow> ca_snapshot c = gr_snapshot r) \<Longrightarrow>
   gens_ok (G(k \<mapsto> r\<lparr>gr_cached := x\<rparr>))"
  unfolding gens_ok_def by auto

definition carried_ok :: "(source_identity \<times> string \<rightharpoonup> nat) \<Rightarrow> (nat \<rightharpoonup> carried_owner) \<Rightarrow> bool" where
  "carried_ok A W \<longleftrightarrow> (\<forall>l p. A l = Some p \<longleftrightarrow> (\<exists>w. W p = Some w \<and> l \<in> set (cw_lineages w))) \<and>
     (\<forall>p w. W p = Some w \<longrightarrow> cw_lineages w \<noteq> [] \<and> distinct (cw_lineages w))"

definition latest_len :: "(source_identity \<rightharpoonup> nat) \<Rightarrow> (nat \<rightharpoonup> cached_snapshot) \<Rightarrow> source_identity \<Rightarrow> nat" where
  "latest_len L C i = (case Option.bind (L i) C of None \<Rightarrow> 0 | Some c \<Rightarrow> codex_raw_len (ca_snapshot c))"

definition raw_ok ::
  "(source_identity \<rightharpoonup> nat) \<Rightarrow> (source_identity \<rightharpoonup> nat) \<Rightarrow> (nat \<rightharpoonup> cached_snapshot) \<Rightarrow>
   (source_identity \<rightharpoonup> nat) \<Rightarrow> nat \<Rightarrow> bool" where
  "raw_ok ov L C recent raw \<longleftrightarrow> finite (dom recent) \<and>
     raw = (\<Sum>i\<in>dom recent. opt_default (latest_len L C i) (ov i))"

text \<open>The invariant over a given table of latest and of classified snapshots; \<open>ov\<close> overrides the
  raw bytes an identity counts for, while its entry is being replaced.\<close>

definition cache_core ::
  "(source_identity \<rightharpoonup> nat) \<Rightarrow> (source_identity \<rightharpoonup> nat) \<Rightarrow> (string \<rightharpoonup> nat) \<Rightarrow> store_state \<Rightarrow> bool" where
  "cache_core ov L M s \<longleftrightarrow>
     gens_ok (ss_generations s) \<and> keyed (cached_map (ss_generations s)) \<and>
     lru_ok (ss_cache_order s) (ss_cache_clock s)
       (owner_touch (cached_map (ss_generations s)) (ss_carried_owners s) (ss_catalog_owners s) (ss_review_inputs s)) \<and>
     alias_ok L (field_of ca_latest (cached_map (ss_generations s))) \<and>
     alias_ok M (field_of ca_classified (cached_map (ss_generations s))) \<and>
     spines_ok (ss_source_spines s) (ss_source_view_nodes s) (cached_map (ss_generations s)) \<and>
     carried_ok (ss_carried s) (ss_carried_owners s) \<and>
     alias_ok (ss_catalogs s) (field_of (\<lambda>w. Some (co_key w)) (ss_catalog_owners s)) \<and>
     raw_ok ov L (cached_map (ss_generations s)) (ss_recent_codex s) (ss_recent_codex_raw_bytes s) \<and>
     (\<forall>k\<in>set (ss_queue s). cached_map (ss_generations s) k = None)"

definition in_use :: "cached_snapshot \<Rightarrow> bool" where
  "in_use c \<longleftrightarrow> ca_latest c \<noteq> None \<or> ca_spine c \<noteq> None \<or> ca_classified c \<noteq> None"

definition used_but :: "nat set \<Rightarrow> store_state \<Rightarrow> bool" where
  "used_but K s \<longleftrightarrow> (\<forall>k c. cached_at s k = Some c \<longrightarrow> k \<notin> K \<longrightarrow> in_use c)"

definition cache_ok :: "store_state \<Rightarrow> bool" where
  "cache_ok s \<longleftrightarrow> cache_core Map.empty (ss_latest s) (ss_classified s) s \<and> used_but {} s"

text \<open>What the steps below leave alone.\<close>

definition keeps :: "nat set \<Rightarrow> store_state \<Rightarrow> store_state \<Rightarrow> bool" where
  "keeps K s s' \<longleftrightarrow>
     (\<forall>k. map_option gr_snapshot (ss_generations s' k) = map_option gr_snapshot (ss_generations s k)) \<and>
     (\<forall>k. k \<notin> K \<longrightarrow> cached_at s' k = cached_at s k) \<and>
     ss_classified s' = ss_classified s \<and> ss_recent_codex s' = ss_recent_codex s \<and> ss_queue s' = ss_queue s \<and>
     ss_carried s' = ss_carried s \<and> ss_carried_owners s' = ss_carried_owners s \<and> ss_catalogs s' = ss_catalogs s \<and>
     ss_catalog_owners s' = ss_catalog_owners s \<and> ss_review_inputs s' = ss_review_inputs s"

lemma keeps_refl: "keeps K s s"
  by (simp add: keeps_def)

lemma keeps_trans: "keeps K s s' \<Longrightarrow> keeps K' s' s'' \<Longrightarrow> keeps (K \<union> K') s s''"
  by (simp add: keeps_def)

lemma keeps_sub: "keeps K s s' \<Longrightarrow> K \<subseteq> K' \<Longrightarrow> keeps K' s s'"
  by (auto simp: keeps_def)

lemma latest_len_put:
  assumes "C k = Some c" "\<And>c'. x = Some c' \<Longrightarrow> ca_snapshot c' = ca_snapshot c" "x = None \<Longrightarrow> k \<notin> ran L"
  shows "latest_len L (C(k := x)) = latest_len L C"
proof
  fix i
  show "latest_len L (C(k := x)) i = latest_len L C i"
  proof (cases "L i = Some k")
    case True
    then obtain c' where x: "x = Some c'" using assms(3) by (cases x) (auto simp: ran_def)
    show ?thesis using assms(1) assms(2) [OF x] True x by (simp add: latest_len_def)
  next
    case False
    then show ?thesis by (cases "L i") (auto simp: latest_len_def)
  qed
qed

lemma latest_len_unused:
  assumes "k \<notin> ran L"
  shows "latest_len L (C(k := x)) = latest_len L C"
proof
  fix i
  have "L i \<noteq> Some k" using assms by (auto simp: ran_def)
  then show "latest_len L (C(k := x)) i = latest_len L C i" by (cases "L i") (auto simp: latest_len_def)
qed

end
