(* ===== verification/CacheSteps.thy ===== *)
theory CacheSteps
  imports CacheFacts
begin

text \<open>
  The generation entries: touching, caching, forgetting a view and releasing an unused entry keep the
  invariant, over any table of latest and of classified snapshots.
\<close>

definition steady :: "store_state \<Rightarrow> store_state \<Rightarrow> bool" where
  "steady s s' \<longleftrightarrow> ss_latest s' = ss_latest s \<and> ss_cache_clock s' = ss_cache_clock s \<and>
     ss_recent_codex_raw_bytes s' = ss_recent_codex_raw_bytes s"

lemma coreD:
  assumes "cache_core ov L M s"
  shows "gens_ok (ss_generations s)" "keyed (cached_map (ss_generations s))"
    "lru_ok (ss_cache_order s) (ss_cache_clock s)
       (owner_touch (cached_map (ss_generations s)) (ss_carried_owners s) (ss_catalog_owners s) (ss_review_inputs s))"
    "alias_ok L (field_of ca_latest (cached_map (ss_generations s)))"
    "alias_ok M (field_of ca_classified (cached_map (ss_generations s)))"
    "spines_ok (ss_source_spines s) (ss_source_view_nodes s) (cached_map (ss_generations s))"
    "carried_ok (ss_carried s) (ss_carried_owners s)"
    "alias_ok (ss_catalogs s) (field_of (\<lambda>w. Some (co_key w)) (ss_catalog_owners s))"
    "raw_ok ov L (cached_map (ss_generations s)) (ss_recent_codex s) (ss_recent_codex_raw_bytes s)"
    "k \<in> set (ss_queue s) \<Longrightarrow> cached_map (ss_generations s) k = None"
  using assms by (simp_all add: cache_core_def)

lemma not_latest:
  assumes "alias_ok L (field_of ca_latest C)" "C k = Some c" "ca_latest c = None"
  shows "k \<notin> ran L"
  using assms by (auto simp: ran_def alias_lookup field_of_def)

lemma check_that_simps [simp]: "check_that True = Some ()" "check_that False = None"
  by (simp_all add: check_that_def)

lemma order_remove_eq: "(t, w) \<in> ss_cache_order s \<Longrightarrow>
    order_remove (t, w) s = Some (s\<lparr>ss_cache_order := ss_cache_order s - {(t, w)}\<rparr>)"
  by (simp add: order_remove_def)

lemma order_insert_eq: "(t, w) \<notin> ss_cache_order s \<Longrightarrow>
    order_insert (t, w) s = Some (s\<lparr>ss_cache_order := insert (t, w) (ss_cache_order s)\<rparr>)"
  by (simp add: order_insert_def)

lemma core_put:
  assumes core: "cache_core ov L M s" and r: "ss_generations s k = Some r" and k: "k \<notin> set (ss_queue s)"
    and gens: "ss_generations s' = (ss_generations s)(k \<mapsto> r\<lparr>gr_cached := x\<rparr>)"
    and entry: "\<And>c. x = Some c \<Longrightarrow> ca_snapshot c = gr_snapshot r \<and>
      (\<forall>i. ca_latest c = Some i \<longrightarrow> identity_file i = snapshot_file (ca_snapshot c)) \<and>
      (\<forall>f. ca_spine c = Some f \<longrightarrow> f = snapshot_file (ca_snapshot c))"
    and lru: "lru_ok (ss_cache_order s') (ss_cache_clock s')
      ((owner_touch (cached_map (ss_generations s)) (ss_carried_owners s) (ss_catalog_owners s) (ss_review_inputs s))
         (Generation k := map_option ca_touched x))"
    and tables: "alias_ok L' ((field_of ca_latest (cached_map (ss_generations s)))(k := Option.bind x ca_latest))"
      "alias_ok M' ((field_of ca_classified (cached_map (ss_generations s)))(k := Option.bind x ca_classified))"
    and spines: "spines_ok (ss_source_spines s') (ss_source_view_nodes s') ((cached_map (ss_generations s))(k := x))"
    and raw: "raw_ok ov' L' ((cached_map (ss_generations s))(k := x)) (ss_recent_codex s') (ss_recent_codex_raw_bytes s')"
    and same: "ss_carried s' = ss_carried s" "ss_carried_owners s' = ss_carried_owners s"
      "ss_catalogs s' = ss_catalogs s" "ss_catalog_owners s' = ss_catalog_owners s"
      "ss_review_inputs s' = ss_review_inputs s" "ss_queue s' = ss_queue s"
  shows "cache_core ov' L' M' s'"
proof -
  note D = coreD [OF core]
  have C: "cached_map (ss_generations s') = (cached_map (ss_generations s))(k := x)" unfolding gens by simp
  show ?thesis
    unfolding cache_core_def C same owner_touch_upd field_of_upd
  proof (intro conjI ballI)
    show "gens_ok (ss_generations s')" unfolding gens using gens_ok_put [OF D(1) r] entry by blast
    show "keyed ((cached_map (ss_generations s))(k := x))"
      using keyed_put [OF D(2)] entry gens_okD(1) [OF D(1) r] by metis
    show "((cached_map (ss_generations s))(k := x)) k' = None" if "k' \<in> set (ss_queue s)" for k'
      using D(10) [OF that] that k by auto
  qed (fact lru tables spines raw D(7) D(8))+
qed

lemma release_step:
  assumes core: "cache_core ov L M s" and r: "ss_generations s k = Some r"
  shows "\<exists>s'. release_unused_cached_generation k s = Some s' \<and> cache_core ov L M s' \<and> keeps {k} s s' \<and> steady s s' \<and>
    cached_at s' k = opt_filter in_use (gr_cached r)"
proof (cases "\<exists>c. gr_cached r = Some c \<and> \<not> in_use c")
  case True
  then obtain c where c: "gr_cached r = Some c" "ca_latest c = None" "ca_spine c = None" "ca_classified c = None"
    by (auto simp: in_use_def)
  let ?C = "cached_map (ss_generations s)"
  have C: "?C k = Some c" using r c by (simp add: cached_map_Some)
  let ?s = "s\<lparr>ss_generations := (ss_generations s)(k \<mapsto> r\<lparr>gr_cached := None\<rparr>),
    ss_cache_order := ss_cache_order s - {(ca_touched c, Generation k)}\<rparr>"
  note D = coreD [OF core]
  have "(ca_touched c, Generation k) \<in> ss_cache_order s" using lru_order [OF D(3)] C by simp
  then have "release_unused_cached_generation k s = Some ?s"
    using r c by (simp add: release_unused_cached_generation_def put_cached_eq order_remove_eq)
  moreover have "cache_core ov L M ?s"
  proof (rule core_put [OF core r, where x = None])
    show "k \<notin> set (ss_queue s)" using D(10) C by auto
    show "lru_ok (ss_cache_order ?s) (ss_cache_clock ?s) ((owner_touch ?C
        (ss_carried_owners s) (ss_catalog_owners s) (ss_review_inputs s)) (Generation k := map_option ca_touched None))"
      using lru_drop [OF D(3), of "Generation k"] C by simp
    show "spines_ok (ss_source_spines ?s) (ss_source_view_nodes ?s) (?C(k := None))"
      using spines_none [OF D(6)] C c by (simp add: field_of_def)
    show "raw_ok ov L (?C(k := None)) (ss_recent_codex ?s) (ss_recent_codex_raw_bytes ?s)"
      using D(9) latest_len_put [of ?C k c None L] C not_latest [OF D(4) C c(2)] by (simp add: raw_ok_def)
  qed (use D(4,5) C c in simp_all)
  moreover have "keeps {k} s ?s \<and> steady s ?s" using r by (auto simp: keeps_def steady_def cached_at_map)
  ultimately show ?thesis using c by (auto simp: cached_at_map in_use_def)
next
  case False
  then have "release_unused_cached_generation k s = Some s"
    using r by (auto simp: release_unused_cached_generation_def in_use_def split: option.split)
  then show ?thesis
    using core False r by (cases "gr_cached r") (auto simp: keeps_refl steady_def cached_at_map cached_map_def)
qed

definition ticked :: "store_state \<Rightarrow> store_state \<Rightarrow> bool" where
  "ticked s s' \<longleftrightarrow> ss_latest s' = ss_latest s \<and> ss_cache_clock s' = Suc (ss_cache_clock s) \<and>
     ss_recent_codex_raw_bytes s' = ss_recent_codex_raw_bytes s"

lemma touch_step:
  assumes core: "cache_core ov L M s" and r: "ss_generations s k = Some r" "gr_cached r = Some c"
    and clock: "ss_cache_clock s + 1 < 2 ^ 64"
  shows "\<exists>s'. touch_generation k s = Some s' \<and> cache_core ov L M s' \<and> keeps {k} s s' \<and> ticked s s' \<and>
    cached_at s' k = Some (c\<lparr>ca_touched := Suc (ss_cache_clock s)\<rparr>)"
proof -
  let ?C = "cached_map (ss_generations s)" and ?t = "Suc (ss_cache_clock s)"
  let ?c = "c\<lparr>ca_touched := ?t\<rparr>"
  have C: "?C k = Some c" using r by (simp add: cached_map_Some)
  let ?s = "s\<lparr>ss_cache_clock := ?t, ss_generations := (ss_generations s)(k \<mapsto> r\<lparr>gr_cached := Some ?c\<rparr>),
    ss_cache_order := insert (?t, Generation k) (ss_cache_order s - {(ca_touched c, Generation k)})\<rparr>"
  note D = coreD [OF core]
  have "(ca_touched c, Generation k) \<in> ss_cache_order s" using lru_order [OF D(3)] C by simp
  moreover have "(?t, Generation k) \<notin> ss_cache_order s" by (rule lru_fresh [OF D(3)])
  ultimately have "touch_generation k s = Some ?s"
    using r C clock by (simp add: touch_generation_def next_cache_touch_def cached_at_map order_remove_eq
      put_cached_eq order_insert_eq)
  moreover have "cache_core ov L M ?s"
  proof (rule core_put [OF core r(1), where x = "Some ?c"])
    show "k \<notin> set (ss_queue s)" using D(10) C by auto
    show "lru_ok (ss_cache_order ?s) (ss_cache_clock ?s) ((owner_touch ?C
        (ss_carried_owners s) (ss_catalog_owners s) (ss_review_inputs s)) (Generation k := map_option ca_touched (Some ?c)))"
      using lru_promote [OF D(3), of "Generation k"] C by simp
    show "spines_ok (ss_source_spines ?s) (ss_source_view_nodes ?s) (?C(k := Some ?c))"
      using spines_other [OF D(6,2) C] by simp
    show "raw_ok ov L (?C(k := Some ?c)) (ss_recent_codex ?s) (ss_recent_codex_raw_bytes ?s)"
      using D(9) latest_len_put [of ?C k c "Some ?c" L] C by (simp add: raw_ok_def)
    show "ca_snapshot d = gr_snapshot r \<and> (\<forall>i. ca_latest d = Some i \<longrightarrow> identity_file i = snapshot_file (ca_snapshot d)) \<and>
        (\<forall>f. ca_spine d = Some f \<longrightarrow> f = snapshot_file (ca_snapshot d))" if "Some ?c = Some d" for d
      using that keyedD(2,3) [OF D(2) C] gens_okD(2) [OF D(1) r] by auto
  qed (use D(4,5) C in simp_all)
  moreover have "keeps {k} s ?s \<and> ticked s ?s" using r by (auto simp: keeps_def ticked_def cached_at_map)
  ultimately show ?thesis by (auto simp: cached_at_map)
qed

definition live :: "store_state \<Rightarrow> transcript_snapshot \<Rightarrow> bool" where
  "live s snap \<longleftrightarrow> map_option gr_snapshot (ss_generations s (ts_key snap)) = Some snap \<and> ts_key snap \<notin> set (ss_queue s)"

lemma cache_generation_step:
  assumes core: "cache_core ov L M s" and live: "live s snap" and clock: "ss_cache_clock s + 1 < 2 ^ 64"
  defines "k \<equiv> ts_key snap"
  shows "\<exists>s' c. cache_generation snap s = Some s' \<and> cache_core ov L M s' \<and> keeps {k} s s' \<and> ticked s s' \<and>
    cached_at s' k = Some c \<and> ca_snapshot c = snap \<and> ca_latest c = field_of ca_latest (cached_at s) k \<and>
    ca_spine c = field_of ca_spine (cached_at s) k \<and> ca_classified c = field_of ca_classified (cached_at s) k"
proof -
  let ?C = "cached_map (ss_generations s)" and ?t = "Suc (ss_cache_clock s)"
  obtain r where r: "ss_generations s k = Some r" "gr_snapshot r = snap"
    using live by (auto simp: live_def k_def)
  note D = coreD [OF core]
  show ?thesis
  proof (cases "gr_cached r")
    case (Some c)
    obtain s' where "touch_generation k s = Some s'" "cache_core ov L M s'" "keeps {k} s s'" "ticked s s'"
      "cached_at s' k = Some (c\<lparr>ca_touched := ?t\<rparr>)"
      using touch_step [OF core r(1) Some clock] by blast
    moreover have "?C k = Some c" using r Some by (simp add: cached_map_Some)
    ultimately show ?thesis
      using r Some gens_okD(2) [OF D(1) r(1) Some]
      by (auto simp: cache_generation_def k_def [symmetric] field_of_def cached_at_map)
  next
    case None
    let ?c = "\<lparr>ca_snapshot = snap, ca_latest = None, ca_spine = None, ca_classified = None, ca_touched = ?t\<rparr>"
    let ?s = "s\<lparr>ss_cache_clock := ?t, ss_generations := (ss_generations s)(k \<mapsto> r\<lparr>gr_cached := Some ?c\<rparr>),
      ss_cache_order := insert (?t, Generation k) (ss_cache_order s)\<rparr>"
    have C: "?C k = None" using r None by (simp add: cached_map_def)
    have "(?t, Generation k) \<notin> ss_cache_order s" by (rule lru_fresh [OF D(3)])
    then have "cache_generation snap s = Some ?s"
      using r None clock by (simp add: cache_generation_def k_def [symmetric] next_cache_touch_def put_cached_eq
        order_insert_eq)
    moreover have "cache_core ov L M ?s"
    proof (rule core_put [OF core r(1), where x = "Some ?c"])
      show "k \<notin> set (ss_queue s)" using live by (simp add: live_def k_def)
      show "lru_ok (ss_cache_order ?s) (ss_cache_clock ?s) ((owner_touch ?C
          (ss_carried_owners s) (ss_catalog_owners s) (ss_review_inputs s)) (Generation k := map_option ca_touched (Some ?c)))"
        using lru_promote_new [OF D(3), of "Generation k"] C by simp
      show "spines_ok (ss_source_spines ?s) (ss_source_view_nodes ?s) (?C(k := Some ?c))"
        using spines_none [OF D(6)] C by (simp add: field_of_def)
      have "k \<notin> ran L" using D(4) C by (auto simp: ran_def alias_lookup field_of_def)
      then have "latest_len L (?C(k := Some ?c)) = latest_len L ?C" by (rule latest_len_unused)
      then show "raw_ok ov L (?C(k := Some ?c)) (ss_recent_codex ?s) (ss_recent_codex_raw_bytes ?s)"
        using D(9) by (simp add: raw_ok_def)
    qed (use D(4,5) C r in simp_all)
    moreover have "keeps {k} s ?s \<and> ticked s ?s" using r by (auto simp: keeps_def ticked_def cached_at_map)
    ultimately show ?thesis using C by (auto simp: cached_at_map field_of_def)
  qed
qed

lemma remove_source_view_eq:
  "ss_source_spines s (snapshot_file snap) = Some V \<Longrightarrow> view_of snap \<in> V \<Longrightarrow> 0 < ss_source_view_nodes s \<Longrightarrow>
   remove_source_view snap s = Some (s\<lparr>ss_source_view_nodes := ss_source_view_nodes s - 1,
     ss_source_spines := (ss_source_spines s)(snapshot_file snap :=
       drop_view (view_of snap) V)\<rparr>)"
  by (simp add: remove_source_view_def)

lemma forget_step:
  assumes core: "cache_core ov L M s" and snap: "map_option gr_snapshot (ss_generations s (ts_key snap)) = Some snap"
  defines "k \<equiv> ts_key snap"
  shows "\<exists>s'. forget_source_spine i snap s = Some s' \<and> cache_core ov L M s' \<and> keeps {k} s s' \<and> steady s s' \<and>
    cached_at s' k = (case cached_at s k of None \<Rightarrow> None | Some c \<Rightarrow>
      if ca_spine c = Some (identity_file i) then opt_filter in_use (Some (c\<lparr>ca_spine := None\<rparr>)) else Some c)"
proof (cases "\<exists>c. cached_at s k = Some c \<and> ca_spine c = Some (identity_file i)")
  case False
  then show ?thesis using core
    by (auto simp: forget_source_spine_def k_def [symmetric] keeps_refl steady_def split: option.split)
next
  case True
  let ?C = "cached_map (ss_generations s)"
  note D = coreD [OF core]
  obtain c where c: "?C k = Some c" "ca_spine c = Some (identity_file i)" using True by (auto simp: cached_at_map)
  obtain r where r: "ss_generations s k = Some r" "gr_cached r = Some c" using c by (auto simp: cached_map_Some)
  have snap': "ca_snapshot c = snap" using gens_okD(2) [OF D(1) r] snap r by (simp add: k_def)
  have physical: "identity_file i = snapshot_file snap" using keyedD(3) [OF D(2) c] snap' by simp
  obtain V where V: "ss_source_spines s (snapshot_file snap) = Some V" "view_of snap \<in> V" "0 < ss_source_view_nodes s"
    using spines_views [OF D(6,2) c] snap' physical by auto
  let ?c = "c\<lparr>ca_spine := None\<rparr>"
  let ?s = "s\<lparr>ss_source_view_nodes := ss_source_view_nodes s - 1,
    ss_source_spines := (ss_source_spines s)(snapshot_file snap := drop_view (view_of snap) V),
    ss_generations := (ss_generations s)(k \<mapsto> r\<lparr>gr_cached := Some ?c\<rparr>)\<rparr>"
  have mid: "cache_core ov L M ?s"
  proof (rule core_put [OF core r(1), where x = "Some ?c"])
    show "k \<notin> set (ss_queue s)" using D(10) c by auto
    show "spines_ok (ss_source_spines ?s) (ss_source_view_nodes ?s) (?C(k := Some ?c))"
      using spines_remove [OF D(6,2) c, of V "Some ?c"] V snap' physical by simp
    show "raw_ok ov L (?C(k := Some ?c)) (ss_recent_codex ?s) (ss_recent_codex_raw_bytes ?s)"
      using D(9) latest_len_put [of ?C k c "Some ?c" L] c by (simp add: raw_ok_def)
    show "ca_snapshot d = gr_snapshot r \<and> (\<forall>i. ca_latest d = Some i \<longrightarrow> identity_file i = snapshot_file (ca_snapshot d)) \<and>
        (\<forall>f. ca_spine d = Some f \<longrightarrow> f = snapshot_file (ca_snapshot d))" if "Some ?c = Some d" for d
      using that keyedD(2) [OF D(2) c(1)] gens_okD(2) [OF D(1) r] by auto
    show "lru_ok (ss_cache_order ?s) (ss_cache_clock ?s) ((owner_touch ?C
        (ss_carried_owners s) (ss_catalog_owners s) (ss_review_inputs s)) (Generation k := map_option ca_touched (Some ?c)))"
      using D(3) c(1) by (simp add: fun_upd_idem)
  qed (use D(4,5) c in simp_all)
  have k': "ss_generations ?s k = Some (r\<lparr>gr_cached := Some ?c\<rparr>)" by simp
  obtain s' where s': "release_unused_cached_generation k ?s = Some s'" "cache_core ov L M s'" "keeps {k} ?s s'"
    "steady ?s s'" "cached_at s' k = opt_filter in_use (Some ?c)"
    using release_step [OF mid k'] by auto
  have "with_cached k (\<lambda>c. c\<lparr>ca_spine := None\<rparr>) (s\<lparr>ss_source_view_nodes := ss_source_view_nodes s - 1,
      ss_source_spines := (ss_source_spines s)(snapshot_file snap := drop_view (view_of snap) V)\<rparr>) = Some ?s"
    using r c by (simp add: with_cached_def cached_at_map put_cached_eq)
  then have "forget_source_spine i snap s = Some s'"
    using c s'(1) by (simp add: forget_source_spine_def k_def [symmetric] cached_at_map remove_source_view_eq [OF V])
  moreover have "keeps {k} s ?s \<and> steady s ?s" using r by (auto simp: keeps_def steady_def cached_at_map)
  ultimately show ?thesis using s' c by (auto simp: cached_at_map keeps_def steady_def)
qed

end
