(* ===== verification/CacheLatest.thy ===== *)
theory CacheLatest
  imports CacheSteps
begin

text \<open>
  Publishing and removing the latest snapshot of a source: the retirement of incompatible views ends,
  and the invariant holds again when the raw bytes are settled.
\<close>

lemma finite_recent: "raw_ok ov L C recent raw \<Longrightarrow> finite (dom recent)"
  by (simp add: raw_ok_def)

lemma raw_ok_override:
  "raw_ok ov L C recent raw \<Longrightarrow> ov i = None \<Longrightarrow> (\<And>j. j \<noteq> i \<Longrightarrow> latest_len L' C' j = latest_len L C j) \<Longrightarrow>
   raw_ok (ov(i \<mapsto> latest_len L C i)) L' C' recent raw"
  unfolding raw_ok_def by (auto intro!: sum.cong)

lemma raw_ok_settle:
  assumes "raw_ok (ov(i \<mapsto> n)) L C recent raw" "ov i = None"
  shows "i \<notin> dom recent \<Longrightarrow> raw_ok ov L C recent raw"
    "i \<in> dom recent \<Longrightarrow> n \<le> raw \<and> raw_ok ov L C recent (raw - n + latest_len L C i)"
proof -
  let ?g = "\<lambda>j. opt_default (latest_len L C j) ((ov(i \<mapsto> n)) j)" and ?h = "\<lambda>j. opt_default (latest_len L C j) (ov j)"
  have fin: "finite (dom recent)" using assms by (simp add: raw_ok_def)
  have same: "sum ?g (dom recent - {i}) = sum ?h (dom recent - {i})" by (rule sum.cong) auto
  show "raw_ok ov L C recent raw" if "i \<notin> dom recent"
    using assms same that by (simp add: raw_ok_def)
  assume i: "i \<in> dom recent"
  have "sum ?g (dom recent) = n + sum ?g (dom recent - {i})" using sum.remove [OF fin i, of ?g] by simp
  moreover have "sum ?h (dom recent) = latest_len L C i + sum ?h (dom recent - {i})"
    using sum.remove [OF fin i, of ?h] assms(2) by simp
  ultimately show "n \<le> raw \<and> raw_ok ov L C recent (raw - n + latest_len L C i)"
    using assms(1) fin same by (simp add: raw_ok_def)
qed

lemma latest_len_cleared: "latest_len (L(i := None)) C i = 0"
  by (simp add: latest_len_def)

lemma latest_len_other: "j \<noteq> i \<Longrightarrow> latest_len (L(i := x)) C j = latest_len L C j"
  by (simp add: latest_len_def)

lemma core_raw:
  assumes "cache_core ov L M s" "raw_ok ov' L (cached_map (ss_generations s)) (ss_recent_codex s) raw"
  shows "cache_core ov' L M (s\<lparr>ss_recent_codex_raw_bytes := raw\<rparr>)"
  using assms unfolding cache_core_def by simp

lemma core_latest_irrelevant: "cache_core ov L M (s\<lparr>ss_latest := A\<rparr>) = cache_core ov L M s"
  by (simp add: cache_core_def)

definition shrinks :: "store_state \<Rightarrow> store_state \<Rightarrow> bool" where
  "shrinks s s' \<longleftrightarrow> keeps UNIV s s' \<and> ss_cache_clock s' = ss_cache_clock s \<and>
     (\<forall>K. used_but K s \<longrightarrow> used_but K s') \<and>
     (\<forall>f. opt_default {} (ss_source_spines s' f) \<subseteq> opt_default {} (ss_source_spines s f))"

lemma shrinks_refl: "shrinks s s"
  by (simp add: shrinks_def keeps_refl)

lemma shrinks_trans: "shrinks s s' \<Longrightarrow> shrinks s' s'' \<Longrightarrow> shrinks s s''"
  unfolding shrinks_def using keeps_trans [of UNIV s s' UNIV s''] by fastforce

text \<open>A step that changes one entry, and leaves it without a view, shrinks the cache.\<close>

lemma shrinksI:
  assumes "cache_core ov L M s" "cache_core ov' L' M' s'" "keeps {k} s s'" "ss_cache_clock s' = ss_cache_clock s"
    and at: "\<And>c. cached_at s' k = Some c \<Longrightarrow> in_use c \<and> (ca_spine c = None \<or> cached_at s k = Some c)"
  shows "shrinks s s'"
proof -
  have "v \<in> opt_default {} (ss_source_spines s f)" if v: "v \<in> opt_default {} (ss_source_spines s' f)" for f v
  proof -
    obtain c where c: "cached_at s' (sv_generation v) = Some c" "ca_spine c = Some f" "v = view_of (ca_snapshot c)"
      using v unfolding spines_mem [OF coreD(6) [OF assms(2)]] by (auto simp: cached_at_map)
    then have "cached_at s (sv_generation v) = Some c" using at assms(3) by (cases "sv_generation v = k") (auto simp: keeps_def)
    then show ?thesis unfolding spines_mem [OF coreD(6) [OF assms(1)]] using c by (auto simp: cached_at_map)
  qed
  moreover have "used_but K s'" if "used_but K s" for K
    unfolding used_but_def
  proof (intro allI impI)
    fix k' c assume "cached_at s' k' = Some c" "k' \<notin> K"
    then show "in_use c" using that at assms(3) by (cases "k' = k") (auto simp: used_but_def keeps_def)
  qed
  ultimately show ?thesis using assms(3,4) keeps_sub [OF assms(3)] by (auto simp: shrinks_def)
qed

lemma remove_latest_step:
  assumes core: "cache_core ov (ss_latest s) M s" and ov: "ov i = None" and i: "ss_latest s i = Some k"
  shows "\<exists>s' c. cached_at s k = Some c \<and> remove_latest i s = Some (Some (ca_snapshot c), s') \<and>
    cache_core ov (ss_latest s') M s' \<and> keeps {k} s s' \<and> shrinks s s' \<and> ss_latest s' = (ss_latest s)(i := None) \<and>
    cached_at s' k = opt_filter in_use (Some (c\<lparr>ca_latest := None, ca_spine := None\<rparr>))"
proof -
  let ?C = "cached_map (ss_generations s)" and ?L = "(ss_latest s)(i := None)"
  note D = coreD [OF core]
  obtain c where c: "?C k = Some c" "ca_latest c = Some i"
    using D(4) i by (auto simp: alias_lookup field_of_def split: Option.bind_splits)
  obtain r where r: "ss_generations s k = Some r" "gr_cached r = Some c" using c by (auto simp: cached_map_Some)
  let ?c = "c\<lparr>ca_latest := None, ca_spine := None\<rparr>" and ?n = "codex_raw_len (ca_snapshot c)"
  let ?s1 = "s\<lparr>ss_latest := ?L, ss_generations := (ss_generations s)(k \<mapsto> r\<lparr>gr_cached := Some ?c\<rparr>)\<rparr>"
  define s2 where "s2 = (case ca_spine c of None \<Rightarrow> ?s1
    | Some f \<Rightarrow> ?s1\<lparr>ss_source_view_nodes := ss_source_view_nodes s - 1,
        ss_source_spines := (ss_source_spines s)(f := drop_view (view_of (ca_snapshot c)) (the (ss_source_spines s f)))\<rparr>)"
  have s2: "(if ca_spine c \<noteq> None then remove_source_view (ca_snapshot c) ?s1 else Some ?s1) = Some s2"
  proof (cases "ca_spine c")
    case (Some f)
    obtain V where "ss_source_spines s f = Some V" "view_of (ca_snapshot c) \<in> V" "0 < ss_source_view_nodes s"
      using spines_views [OF D(6,2) c(1) Some] by auto
    then show ?thesis using keyedD(3) [OF D(2) c(1) Some] Some by (simp add: s2_def remove_source_view_eq)
  qed (simp add: s2_def)
  have fields: "ss_generations s2 = ss_generations ?s1" "ss_latest s2 = ?L" "keeps {k} s s2" "ss_cache_clock s2 = ss_cache_clock s"
    "ss_recent_codex_raw_bytes s2 = ss_recent_codex_raw_bytes s" "ss_recent_codex s2 = ss_recent_codex s"
    using r by (auto simp: s2_def keeps_def cached_at_map split: option.split)
  have len: "latest_len (ss_latest s) ?C i = ?n" using i c by (simp add: latest_len_def)
  have mid: "cache_core (ov(i \<mapsto> ?n)) ?L M s2"
  proof (rule core_put [OF core r(1), where x = "Some ?c"])
    show "k \<notin> set (ss_queue s)" using D(10) c by auto
    show "ss_generations s2 = (ss_generations s)(k \<mapsto> r\<lparr>gr_cached := Some ?c\<rparr>)" using fields by simp
    show "spines_ok (ss_source_spines s2) (ss_source_view_nodes s2) (?C(k := Some ?c))"
    proof (cases "ca_spine c")
      case None
      then show ?thesis using spines_none [OF D(6), of k "Some ?c"] c by (simp add: s2_def field_of_def)
    next
      case (Some f)
      obtain V where V: "ss_source_spines s f = Some V" using spines_views [OF D(6,2) c(1) Some] by auto
      then show ?thesis using spines_remove [OF D(6,2) c(1) Some V, of "Some ?c"] Some by (simp add: s2_def)
    qed
    show "raw_ok (ov(i \<mapsto> ?n)) ?L (?C(k := Some ?c)) (ss_recent_codex s2) (ss_recent_codex_raw_bytes s2)"
    proof -
      have "latest_len ?L (?C(k := Some ?c)) j = latest_len (ss_latest s) ?C j" if "j \<noteq> i" for j
        using latest_len_put [of ?C k c "Some ?c" "ss_latest s"] c by (simp add: latest_len_other [OF that])
      then show ?thesis using raw_ok_override [OF D(9) ov, of ?L "?C(k := Some ?c)"] len fields by simp
    qed
    show "lru_ok (ss_cache_order s2) (ss_cache_clock s2) ((owner_touch ?C
        (ss_carried_owners s) (ss_catalog_owners s) (ss_review_inputs s)) (Generation k := map_option ca_touched (Some ?c)))"
      using D(3) c(1) by (simp add: fun_upd_idem s2_def split: option.split)
    show "alias_ok ?L ((field_of ca_latest ?C)(k := Option.bind (Some ?c) ca_latest))"
      using alias_drop [OF D(4), of k i] c by (simp add: field_of_def)
    show "alias_ok M ((field_of ca_classified ?C)(k := Option.bind (Some ?c) ca_classified))" using D(5) c by simp
    show "ca_snapshot d = gr_snapshot r \<and> (\<forall>i. ca_latest d = Some i \<longrightarrow> identity_file i = snapshot_file (ca_snapshot d)) \<and>
        (\<forall>f. ca_spine d = Some f \<longrightarrow> f = snapshot_file (ca_snapshot d))" if "Some ?c = Some d" for d
      using that gens_okD(2) [OF D(1) r] by auto
  qed (use fields(3) in \<open>auto simp: keeps_def\<close>)
  have "ss_generations s2 k = Some (r\<lparr>gr_cached := Some ?c\<rparr>)" using fields by simp
  from release_step [OF mid this] obtain s3 where s3: "release_unused_cached_generation k s2 = Some s3"
    "cache_core (ov(i \<mapsto> ?n)) ?L M s3" "keeps {k} s2 s3" "steady s2 s3" "cached_at s3 k = opt_filter in_use (Some ?c)"
    by auto
  have recent: "ss_recent_codex s3 = ss_recent_codex s" using s3(3) fields(6) by (simp add: keeps_def)
  define s4 where "s4 = (if i \<in> dom (ss_recent_codex s)
    then s3\<lparr>ss_recent_codex_raw_bytes := ss_recent_codex_raw_bytes s3 - ?n\<rparr> else s3)"
  note settle = raw_ok_settle [OF coreD(9) [OF s3(2)] ov]
  have s4: "(if i \<in> dom (ss_recent_codex s3) then raw_bytes_sub ?n s3 else Some s3) = Some s4"
    using settle(2) recent by (auto simp: raw_bytes_sub_def s4_def)
  have core4: "cache_core ov ?L M s4"
    using core_raw [OF s3(2), of ov "ss_recent_codex_raw_bytes s3 - ?n"] core_raw [OF s3(2), of ov "ss_recent_codex_raw_bytes s3"]
      settle recent by (auto simp: s4_def latest_len_cleared)
  have "remove_latest i s = Some (Some (ca_snapshot c), s4)"
    using i r c s2 s3(1) s4 by (simp add: remove_latest_def cached_at_map put_cached_eq)
  moreover have keep: "keeps {k} s s4"
    using fields(3) s3(3) by (simp add: keeps_def s4_def cached_at_map)
  moreover have latest: "ss_latest s4 = ?L" "ss_cache_clock s4 = ss_cache_clock s"
    using s3(4) fields by (simp_all add: s4_def steady_def)
  moreover have at: "cached_at s4 k = opt_filter in_use (Some ?c)" using s3(5) by (simp add: s4_def cached_at_map)
  moreover have "shrinks s s4"
    using at by (intro shrinksI [OF core core4 keep latest(2)]) (auto split: if_splits)
  ultimately show ?thesis using core4 c(1) by (auto simp: cached_at_map)
qed

lemma viewed_as_self [simp]: "viewed_as s s = s"
  by (simp add: viewed_as_def)

lemma matches_prefix_self [simp]: "matches_prefix s s"
  by (simp add: matches_prefix_def)

lemma views_finite:
  assumes "cache_core ov L M s"
  shows "finite (opt_default {} (ss_source_spines s f))"
proof (rule finite_surj)
  note D = coreD [OF assms]
  show "finite (dom (cached_map (ss_generations s)))" using D(2) by (simp add: keyed_def)
  show "opt_default {} (ss_source_spines s f) \<subseteq>
      (\<lambda>k. view_of (ca_snapshot (the (cached_map (ss_generations s) k)))) ` dom (cached_map (ss_generations s))"
    by (auto simp: spines_mem [OF D(6)] intro!: image_eqI)
qed

lemma set_views_at: "cache_core ov L M s \<Longrightarrow> set (views_at s f) = opt_default {} (ss_source_spines s f)"
  using views_finite [of ov L M s f] by (cases "ss_source_spines s f") (simp_all add: views_at_def)

lemma identity_file_idem [simp]: "identity_file (snapshot_file s) = snapshot_file s"
  by (simp add: identity_file_def snapshot_file_def)

text \<open>The entry being published: nothing the retirement does can reach it.\<close>

definition publishing :: "source_identity \<Rightarrow> transcript_snapshot \<Rightarrow> cached_snapshot \<Rightarrow> store_state \<Rightarrow> bool" where
  "publishing i snap c s \<longleftrightarrow> cached_at s (ts_key snap) = Some c \<and> ca_snapshot c = snap \<and> ca_latest c = Some i"

lemma retire_view_step:
  assumes core: "cache_core ov (ss_latest s) M s" and ov: "dom ov \<subseteq> {i}" and pub: "publishing i snap c0 s"
    and v: "v \<in> opt_default {} (ss_source_spines s (snapshot_file snap))"
  shows "\<exists>s'. retire_view snap v s = Some s' \<and> cache_core ov (ss_latest s') M s' \<and> publishing i snap c0 s' \<and> shrinks s s'"
proof -
  note D = coreD [OF core]
  obtain c where c: "cached_at s (sv_generation v) = Some c" "ca_spine c = Some (snapshot_file snap)"
    using v unfolding spines_mem [OF D(6)] by (auto simp: cached_at_map)
  show ?thesis
  proof (cases "matches_prefix (ts_stamp snap) (ts_stamp (ca_snapshot c))")
    case True
    then show ?thesis using core pub c by (simp add: retire_view_def shrinks_refl)
  next
    case False
    have other: "sv_generation v \<noteq> ts_key snap" using False c(1) pub by (auto simp: publishing_def)
    have latest: "ss_latest s i = Some (ts_key snap)"
      using pub D(4) by (auto simp: publishing_def alias_lookup field_of_def cached_at_map)
    have stays: "publishing i snap c0 s'" if "keeps {sv_generation v} s s'" for s'
      using that pub other by (simp add: publishing_def keeps_def)
    show ?thesis
    proof (cases "ca_latest c")
      case (Some j)
      then have j: "ss_latest s j = Some (sv_generation v)"
        using c D(4) by (auto simp: alias_lookup field_of_def cached_at_map)
      then have "ov j = None" using ov latest other by (auto simp: dom_def)
      from remove_latest_step [OF core this j] show ?thesis
        using False Some c stays by (fastforce simp: retire_view_def)
    next
      case None
      obtain r where r: "ss_generations s (sv_generation v) = Some r" "gr_cached r = Some c"
        using c by (auto simp: cached_at_map cached_map_Some)
      have key: "ts_key (ca_snapshot c) = sv_generation v"
        using keyedD(1) [OF D(2)] c(1) by (simp add: cached_at_map)
      have snap: "map_option gr_snapshot (ss_generations s (ts_key (ca_snapshot c))) = Some (ca_snapshot c)"
        unfolding key using r gens_okD(2) [OF D(1) r] by simp
      from forget_step [OF core this, of "snapshot_file snap"]
      obtain s' where s': "forget_source_spine (snapshot_file snap) (ca_snapshot c) s = Some s'"
        "cache_core ov (ss_latest s) M s'" "keeps {sv_generation v} s s'" "steady s s'"
        "cached_at s' (sv_generation v) = opt_filter in_use (Some (c\<lparr>ca_spine := None\<rparr>))"
        using c unfolding key by auto
      moreover have "shrinks s s'"
        using s'(4,5) by (intro shrinksI [OF core s'(2,3)]) (auto simp: steady_def split: if_splits)
      ultimately show ?thesis using False None c stays by (auto simp: retire_view_def steady_def)
    qed
  qed
qed

definition views_after :: "source_view option \<Rightarrow> source_view set \<Rightarrow> source_view set" where
  "views_after after V = {v \<in> V. case after of None \<Rightarrow> True | Some previous \<Rightarrow> previous < v}"

lemma next_view_Some:
  "cache_core ov L M s \<Longrightarrow> next_view f after s = Some v \<Longrightarrow> v \<in> views_after after (opt_default {} (ss_source_spines s f))"
  using set_views_at [of ov L M s f] nth_mem [of _ "views_at s f"]
  unfolding next_view_def views_after_def find_Some_iff by fastforce

lemma retire_after_returns:
  assumes "cache_core ov (ss_latest s) M s" "dom ov \<subseteq> {i}" "publishing i snap c0 s"
  shows "\<exists>s'. retire_after snap after s = Some s' \<and> cache_core ov (ss_latest s') M s' \<and> publishing i snap c0 s' \<and> shrinks s s'"
  using assms
proof (induction "card (views_after after (opt_default {} (ss_source_spines s (snapshot_file snap))))"
    arbitrary: after s rule: less_induct)
  case less
  show ?case
  proof (cases "next_view (snapshot_file snap) after s")
    case None
    then show ?thesis using less.prems by (simp add: retire_after.simps shrinks_refl)
  next
    case (Some v)
    let ?V = "\<lambda>s. opt_default {} (ss_source_spines s (snapshot_file snap))"
    have v: "v \<in> views_after after (?V s)" by (rule next_view_Some [OF less.prems(1) Some])
    then have "v \<in> ?V s" by (simp add: views_after_def)
    from retire_view_step [OF less.prems this] obtain s' where s': "retire_view snap v s = Some s'"
      "cache_core ov (ss_latest s') M s'" "publishing i snap c0 s'" "shrinks s s'" by auto
    have "views_after (Some v) (?V s') \<subseteq> views_after after (?V s) - {v}"
      using s'(4) v by (auto simp: views_after_def shrinks_def split: option.splits)
    then have "card (views_after (Some v) (?V s')) < card (views_after after (?V s))"
      using v views_finite [OF less.prems(1), of "snapshot_file snap"]
      by (intro psubset_card_mono) (auto simp: views_after_def)
    from less.hyps [OF this s'(2) less.prems(2) s'(3)] show ?thesis
      using Some s'(1,4) by (auto simp: retire_after.simps [of snap after] intro: shrinks_trans)
  qed
qed

subsection \<open>Publishing\<close>

lemma keeps_live: "keeps K s s' \<Longrightarrow> live s' snap = live s snap"
  by (simp add: keeps_def live_def)

lemma keeps_at: "keeps {k} s s' \<Longrightarrow> k' \<noteq> k \<Longrightarrow> cached_at s' k' = cached_at s k'"
  by (simp add: keeps_def)

lemma keeps_generation:
  assumes "keeps K s s'" "ss_generations s k = Some r"
  shows "\<exists>r'. ss_generations s' k = Some r' \<and> gr_snapshot r' = gr_snapshot r"
proof -
  have "map_option gr_snapshot (ss_generations s' k) = map_option gr_snapshot (ss_generations s k)"
    using assms(1) by (simp add: keeps_def)
  then show ?thesis using assms(2) by auto
qed

lemma displace_step:
  assumes core: "cache_core (\<lambda>_. None) (ss_latest s) M s" and used: "used_but {} s"
    and i: "ss_latest s i = Some old" and ne: "old \<noteq> key"
  defines "d \<equiv> latest_len (ss_latest s) (cached_map (ss_generations s)) i"
  shows "\<exists>s' c. displace_latest i key s = Some (Some (ca_snapshot c), s') \<and> cached_at s old = Some c \<and>
    cache_core [i \<mapsto> d] ((ss_latest s)(i := None)) M s' \<and> keeps {old} s s' \<and> steady s s' \<and> used_but {} s'"
proof -
  let ?C = "cached_map (ss_generations s)" and ?L = "(ss_latest s)(i := None)"
  note D = coreD [OF core]
  obtain c where c: "?C old = Some c" "ca_latest c = Some i"
    using D(4) i by (auto simp: alias_lookup field_of_def split: Option.bind_splits)
  obtain r where r: "ss_generations s old = Some r" "gr_cached r = Some c" using c by (auto simp: cached_map_Some)
  let ?c = "c\<lparr>ca_latest := None\<rparr>"
  let ?s1 = "s\<lparr>ss_generations := (ss_generations s)(old \<mapsto> r\<lparr>gr_cached := Some ?c\<rparr>)\<rparr>"
  have len: "latest_len ?L (?C(old := Some ?c)) j = latest_len (ss_latest s) ?C j" if "j \<noteq> i" for j
    using latest_len_put [of ?C old c "Some ?c" "ss_latest s"] c by (simp add: latest_len_other [OF that])
  have mid: "cache_core [i \<mapsto> d] ?L M ?s1"
  proof (rule core_put [OF core r(1), where x = "Some ?c"])
    show "old \<notin> set (ss_queue s)" using D(10) c by auto
    show "spines_ok (ss_source_spines ?s1) (ss_source_view_nodes ?s1) (?C(old := Some ?c))"
      using spines_other [OF D(6,2) c(1)] by simp
    show "raw_ok [i \<mapsto> d] ?L (?C(old := Some ?c)) (ss_recent_codex ?s1) (ss_recent_codex_raw_bytes ?s1)"
      using raw_ok_override [OF D(9), of i ?L "?C(old := Some ?c)"] len by (simp add: d_def)
    show "lru_ok (ss_cache_order ?s1) (ss_cache_clock ?s1) ((owner_touch ?C
        (ss_carried_owners s) (ss_catalog_owners s) (ss_review_inputs s)) (Generation old := map_option ca_touched (Some ?c)))"
      using D(3) c(1) by (simp add: fun_upd_idem)
    show "alias_ok ?L ((field_of ca_latest ?C)(old := Option.bind (Some ?c) ca_latest))"
      using alias_drop [OF D(4), of old i] c by (simp add: field_of_def)
    show "ca_snapshot e = gr_snapshot r \<and> (\<forall>i. ca_latest e = Some i \<longrightarrow> identity_file i = snapshot_file (ca_snapshot e)) \<and>
        (\<forall>f. ca_spine e = Some f \<longrightarrow> f = snapshot_file (ca_snapshot e))" if "Some ?c = Some e" for e
      using that keyedD(3) [OF D(2) c(1)] gens_okD(2) [OF D(1) r] by auto
  qed (use D(5) c in simp_all)
  have key: "ts_key (ca_snapshot c) = old" using keyedD(1) [OF D(2) c(1)] .
  have snap: "map_option gr_snapshot (ss_generations ?s1 (ts_key (ca_snapshot c))) = Some (ca_snapshot c)"
    unfolding key using gens_okD(2) [OF D(1) r] by simp
  obtain s2 where s2: "forget_source_spine i (ca_snapshot c) ?s1 = Some s2" "cache_core [i \<mapsto> d] ?L M s2" "keeps {old} ?s1 s2"
    "steady ?s1 s2"
    using forget_step [OF mid snap, of i] unfolding key by blast
  obtain r2 where r2: "ss_generations s2 old = Some r2" using keeps_generation [OF s2(3), of old] by auto
  obtain s3 where s3: "release_unused_cached_generation old s2 = Some s3" "cache_core [i \<mapsto> d] ?L M s3" "keeps {old} s2 s3"
    "steady s2 s3" "cached_at s3 old = opt_filter in_use (gr_cached r2)"
    using release_step [OF s2(2) r2] by blast
  have keep: "keeps {old} s s3" using s2(3) s3(3) r by (simp add: keeps_def cached_at_map)
  moreover have "steady s s3" using s2(4) s3(4) by (simp add: steady_def)
  moreover have "used_but {} s3"
    unfolding used_but_def
  proof (intro allI impI)
    fix k e assume e: "cached_at s3 k = Some e"
    show "in_use e"
    proof (cases "k = old")
      case True
      then show ?thesis using e s3(5) by (auto simp: opt_filter_Some_iff)
    next
      case False
      then show ?thesis using e keeps_at [OF keep False] used by (simp add: used_but_def)
    qed
  qed
  moreover have "displace_latest i key s = Some (Some (ca_snapshot c), s3)"
    using i ne c r s2(1) s3(1) by (simp add: displace_latest_def with_cached_def cached_at_map put_cached_eq)
  ultimately show ?thesis using s3(2) c(1) by (auto simp: cached_at_map)
qed

text \<open>The state of \<open>insert_latest\<close> once the entry is the latest of its identity, before the
  incompatible views are retired.\<close>

lemma claim_step:
  assumes core: "cache_core [i \<mapsto> d] L M s" and c: "cached_at s key = Some c" and physical: "identity_file i = snapshot_file (ca_snapshot c)"
    and L: "L = (ss_latest s)(i := None) \<and> ca_latest c = None \<or> L = ss_latest s \<and> ca_latest c = Some i"
  shows "\<exists>s' c'. with_cached key (\<lambda>c. c\<lparr>ca_latest := Some i\<rparr>) (s\<lparr>ss_latest := (ss_latest s)(i \<mapsto> key)\<rparr>) = Some s' \<and>
    cache_core [i \<mapsto> d] (ss_latest s') M s' \<and> keeps {key} s s' \<and> ss_cache_clock s' = ss_cache_clock s \<and>
    ss_latest s' = (ss_latest s)(i \<mapsto> key) \<and> cached_at s' key = Some (c\<lparr>ca_latest := Some i\<rparr>)"
proof -
  let ?C = "cached_map (ss_generations s)" and ?L = "(ss_latest s)(i \<mapsto> key)"
  note D = coreD [OF core]
  obtain r where r: "ss_generations s key = Some r" "gr_cached r = Some c"
    using c by (auto simp: cached_at_map cached_map_Some)
  have C: "?C key = Some c" using c by (simp add: cached_at_map)
  let ?c = "c\<lparr>ca_latest := Some i\<rparr>"
  let ?s1 = "s\<lparr>ss_latest := ?L, ss_generations := (ss_generations s)(key \<mapsto> r\<lparr>gr_cached := Some ?c\<rparr>)\<rparr>"
  have "cache_core [i \<mapsto> d] ?L M ?s1"
  proof (rule core_put [OF core r(1), where x = "Some ?c"])
    show "key \<notin> set (ss_queue s)" using D(10) C by auto
    show "spines_ok (ss_source_spines ?s1) (ss_source_view_nodes ?s1) (?C(key := Some ?c))"
      using spines_other [OF D(6,2) C] by simp
    have "latest_len ?L (?C(key := Some ?c)) j = latest_len L ?C j" if "j \<noteq> i" for j
      using fun_cong [OF latest_len_put [of ?C key c "Some ?c" L], of j] C L by (auto simp: latest_len_other [OF that])
    then show "raw_ok [i \<mapsto> d] ?L (?C(key := Some ?c)) (ss_recent_codex ?s1) (ss_recent_codex_raw_bytes ?s1)"
      using D(9) by (auto simp: raw_ok_def intro!: sum.cong)
    show "lru_ok (ss_cache_order ?s1) (ss_cache_clock ?s1) ((owner_touch ?C
        (ss_carried_owners s) (ss_catalog_owners s) (ss_review_inputs s)) (Generation key := map_option ca_touched (Some ?c)))"
      using D(3) C by (simp add: fun_upd_idem)
    show "alias_ok ?L ((field_of ca_latest ?C)(key := Option.bind (Some ?c) ca_latest))"
      using L
    proof
      assume "L = (ss_latest s)(i := None) \<and> ca_latest c = None"
      then show ?thesis using alias_put [OF D(4), of i key] C by (simp add: field_of_def)
    next
      assume *: "L = ss_latest s \<and> ca_latest c = Some i"
      then have "ss_latest s i = Some key" using D(4) C by (simp add: alias_lookup field_of_def)
      then show ?thesis using D(4) C * by (simp add: fun_upd_idem field_of_def)
    qed
    show "ca_snapshot e = gr_snapshot r \<and> (\<forall>i. ca_latest e = Some i \<longrightarrow> identity_file i = snapshot_file (ca_snapshot e)) \<and>
        (\<forall>f. ca_spine e = Some f \<longrightarrow> f = snapshot_file (ca_snapshot e))" if "Some ?c = Some e" for e
      using that keyedD(3) [OF D(2) C] gens_okD(2) [OF D(1) r] physical by auto
  qed (use D(5) C in simp_all)
  moreover have "with_cached key (\<lambda>c. c\<lparr>ca_latest := Some i\<rparr>) (s\<lparr>ss_latest := ?L\<rparr>) = Some ?s1"
    using r C by (simp add: with_cached_def cached_at_map put_cached_eq)
  moreover have "keeps {key} s ?s1" using r by (auto simp: keeps_def cached_at_map)
  ultimately show ?thesis by (auto simp: cached_at_map)
qed

lemma insert_spine_step:
  assumes core: "cache_core ov L M s" and c: "cached_at s (ts_key snap) = Some c" "ca_snapshot c = snap" "ca_spine c = None"
    and f: "f = snapshot_file snap"
  shows "\<exists>s'. insert_source_view f snap s = Some s' \<and> cache_core ov L M s' \<and> keeps {ts_key snap} s s' \<and> steady s s' \<and>
    cached_at s' (ts_key snap) = Some (c\<lparr>ca_spine := Some f\<rparr>)"
proof -
  let ?C = "cached_map (ss_generations s)" and ?k = "ts_key snap" and ?c = "c\<lparr>ca_spine := Some f\<rparr>"
  let ?S = "(ss_source_spines s)(f \<mapsto> insert (view_of snap) (opt_default {} (ss_source_spines s f)))"
  note D = coreD [OF core]
  have C: "?C ?k = Some c" using c by (simp add: cached_at_map)
  obtain r where r: "ss_generations s ?k = Some r" "gr_cached r = Some c" using C by (auto simp: cached_map_Some)
  let ?s1 = "s\<lparr>ss_source_spines := ?S, ss_source_view_nodes := ss_source_view_nodes s + 1,
    ss_generations := (ss_generations s)(?k \<mapsto> r\<lparr>gr_cached := Some ?c\<rparr>)\<rparr>"
  note ins = spines_insert [OF D(6,2) C c(3), of ?c f]
  have "cache_core ov L M ?s1"
  proof (rule core_put [OF core r(1), where x = "Some ?c"])
    show "?k \<notin> set (ss_queue s)" using D(10) C by auto
    show "spines_ok (ss_source_spines ?s1) (ss_source_view_nodes ?s1) (?C(?k := Some ?c))"
      using ins(2) c(2) by simp
    show "raw_ok ov L (?C(?k := Some ?c)) (ss_recent_codex ?s1) (ss_recent_codex_raw_bytes ?s1)"
      using D(9) latest_len_put [of ?C ?k c "Some ?c" L] C by (simp add: raw_ok_def)
    show "lru_ok (ss_cache_order ?s1) (ss_cache_clock ?s1) ((owner_touch ?C
        (ss_carried_owners s) (ss_catalog_owners s) (ss_review_inputs s)) (Generation ?k := map_option ca_touched (Some ?c)))"
      using D(3) C by (simp add: fun_upd_idem)
    show "ca_snapshot e = gr_snapshot r \<and> (\<forall>i. ca_latest e = Some i \<longrightarrow> identity_file i = snapshot_file (ca_snapshot e)) \<and>
        (\<forall>f. ca_spine e = Some f \<longrightarrow> f = snapshot_file (ca_snapshot e))" if "Some ?c = Some e" for e
      using that keyedD(2) [OF D(2) C] gens_okD(2) [OF D(1) r] f c(2) by auto
  qed (use D(4,5) C in simp_all)
  moreover have "insert_source_view f snap s = Some ?s1"
    using r C ins(1) c(2) by (simp add: insert_source_view_def with_cached_def cached_at_map put_cached_eq Let_def)
  moreover have "keeps {?k} s ?s1 \<and> steady s ?s1" using r by (auto simp: keeps_def steady_def cached_at_map)
  ultimately show ?thesis by (auto simp: cached_at_map)
qed

lemma used_but_put:
  "used_but K s \<Longrightarrow> keeps {k} s s' \<Longrightarrow> (\<And>c. cached_at s' k = Some c \<Longrightarrow> in_use c) \<Longrightarrow> used_but (K - {k}) s'"
  unfolding used_but_def keeps_def by (metis DiffI empty_iff insert_iff)

definition displaced :: "source_identity \<Rightarrow> store_state \<Rightarrow> transcript_snapshot option" where
  "displaced i s = map_option ca_snapshot (Option.bind (ss_latest s i) (cached_at s))"

lemma displaced_len:
  "latest_len (ss_latest s) (cached_map (ss_generations s)) i = (case displaced i s of None \<Rightarrow> 0 | Some d \<Rightarrow> codex_raw_len d)"
  by (auto simp: latest_len_def displaced_def cached_at_map split: option.split)

lemma displace_latest_ok:
  assumes ok: "cache_ok s" and key: "field_of ca_latest (cached_at s) key = None \<or> field_of ca_latest (cached_at s) key = Some i"
  defines "d \<equiv> latest_len (ss_latest s) (cached_map (ss_generations s)) i"
  shows "\<exists>s' L. displace_latest i key s = Some (displaced i s, s') \<and> cache_core [i \<mapsto> d] L (ss_classified s) s' \<and>
    keeps (- {key}) s s' \<and> steady s s' \<and> used_but {} s' \<and>
    (L = (ss_latest s)(i := None) \<and> field_of ca_latest (cached_at s') key = None \<or>
     L = ss_latest s \<and> field_of ca_latest (cached_at s') key = Some i)"
proof -
  have core: "cache_core (\<lambda>_. None) (ss_latest s) (ss_classified s) s" and used: "used_but {} s"
    using ok by (auto simp: cache_ok_def)
  note D = coreD [OF core]
  have key': "field_of ca_latest (cached_map (ss_generations s)) key = Some i \<longleftrightarrow> ss_latest s i = Some key"
    using D(4) by (simp add: alias_lookup)
  have over: "cache_core [i \<mapsto> d] (ss_latest s) (ss_classified s) s"
    using core raw_ok_override [OF D(9), of i "ss_latest s" "cached_map (ss_generations s)"] by (simp add: cache_core_def d_def)
  consider "ss_latest s i = None" | "ss_latest s i = Some key" | old where "ss_latest s i = Some old" "old \<noteq> key"
    by (cases "ss_latest s i") auto
  then show ?thesis
  proof cases
    case 1
    then have "field_of ca_latest (cached_at s) key = None" using key key' by (simp add: cached_at_map)
    moreover have "(ss_latest s)(i := None) = ss_latest s" using 1 by auto
    ultimately show ?thesis using 1 over used
      by (simp add: displace_latest_def displaced_def keeps_refl steady_def)
  next
    case 2
    then obtain c where "cached_at s key = Some c" using key' by (auto simp: field_of_def cached_at_map split: Option.bind_splits)
    then show ?thesis using 2 over used key'
      by (simp add: displace_latest_def displaced_def keeps_refl steady_def cached_at_map)
  next
    case 3
    obtain s' c where s': "displace_latest i key s = Some (Some (ca_snapshot c), s')" "cached_at s old = Some c"
      "cache_core [i \<mapsto> d] ((ss_latest s)(i := None)) (ss_classified s) s'" "keeps {old} s s'" "steady s s'" "used_but {} s'"
      using displace_step [OF core used 3] unfolding d_def by blast
    have "field_of ca_latest (cached_at s') key = None"
      using key key' 3 keeps_at [OF s'(4), of key] by (simp add: field_of_def cached_at_map)
    then show ?thesis using s' 3 keeps_sub [OF s'(4), of "- {key}"] by (auto simp: displaced_def)
  qed
qed

lemma insert_latest_ok:
  assumes ok: "cache_ok s" and live: "live s snap" and physical: "identity_file i = snapshot_file snap"
    and key: "field_of ca_latest (cached_at s) (ts_key snap) = None \<or> field_of ca_latest (cached_at s) (ts_key snap) = Some i"
    and clock: "ss_cache_clock s + 1 < 2 ^ 64"
  shows "\<exists>s' c. insert_latest i snap s = Some (displaced i s, s') \<and> cache_ok s' \<and> publishing i snap c s' \<and>
    ca_spine c = Some (snapshot_file snap) \<and> ss_latest s' i = Some (ts_key snap) \<and>
    ss_cache_clock s' = Suc (ss_cache_clock s)"
proof -
  let ?k = "ts_key snap" and ?M = "ss_classified s"
  let ?d = "latest_len (ss_latest s) (cached_map (ss_generations s)) i"
  obtain s1 L where s1: "displace_latest i ?k s = Some (displaced i s, s1)" "cache_core [i \<mapsto> ?d] L ?M s1"
    "keeps (- {?k}) s s1" "steady s s1" "used_but {} s1"
    and L: "L = (ss_latest s)(i := None) \<and> field_of ca_latest (cached_at s1) ?k = None \<or>
      L = ss_latest s \<and> field_of ca_latest (cached_at s1) ?k = Some i"
    using displace_latest_ok [OF ok key] by blast
  have live1: "live s1 snap" using live keeps_live [OF s1(3)] by simp
  have clock1: "ss_cache_clock s1 + 1 < 2 ^ 64" using clock s1(4) by (simp add: steady_def)
  obtain s2 c where s2: "cache_generation snap s1 = Some s2" "cache_core [i \<mapsto> ?d] L ?M s2" "keeps {?k} s1 s2" "ticked s1 s2"
    "cached_at s2 ?k = Some c" "ca_snapshot c = snap" "ca_latest c = field_of ca_latest (cached_at s1) ?k"
    using cache_generation_step [OF s1(2) live1 clock1] by blast
  have latest2: "ss_latest s2 = ss_latest s" using s1(4) s2(4) by (simp add: steady_def ticked_def)
  have L2: "L = (ss_latest s2)(i := None) \<and> ca_latest c = None \<or> L = ss_latest s2 \<and> ca_latest c = Some i"
    using L s2(7) latest2 by simp
  obtain s3 where s3: "with_cached ?k (\<lambda>c. c\<lparr>ca_latest := Some i\<rparr>) (s2\<lparr>ss_latest := (ss_latest s2)(i \<mapsto> ?k)\<rparr>) = Some s3"
    "cache_core [i \<mapsto> ?d] (ss_latest s3) ?M s3" "keeps {?k} s2 s3" "cached_at s3 ?k = Some (c\<lparr>ca_latest := Some i\<rparr>)"
    "ss_cache_clock s3 = ss_cache_clock s2"
    using claim_step [OF s2(2,5) _ L2] physical s2(6) by auto
  have "used_but {?k} s2" using s1(5) s2(3) by (auto simp: used_but_def keeps_def)
  from used_but_put [OF this s3(3)] have used3: "used_but {} s3" using s3(4) by (simp add: in_use_def)
  have pub3: "publishing i snap (c\<lparr>ca_latest := Some i\<rparr>) s3" using s3(4) s2(6) by (simp add: publishing_def)
  obtain s4 where s4: "retire_after snap None s3 = Some s4" "cache_core [i \<mapsto> ?d] (ss_latest s4) ?M s4"
    "publishing i snap (c\<lparr>ca_latest := Some i\<rparr>) s4" "shrinks s3 s4"
    using retire_after_returns [OF s3(2) _ pub3] by (metis dom_eq_singleton_conv subset_refl)
  have used4: "used_but {} s4" using s4(4) used3 by (simp add: shrinks_def)
  let ?c = "c\<lparr>ca_latest := Some i\<rparr>"
  obtain s5 c5 where s5: "(if ca_spine ?c = None then insert_source_view (identity_file i) snap s4 else Some s4) = Some s5"
    "cache_core [i \<mapsto> ?d] (ss_latest s5) ?M s5" "keeps {?k} s4 s5" "used_but {} s5" "publishing i snap c5 s5"
    "ca_spine c5 = Some (snapshot_file snap)" "ss_cache_clock s5 = ss_cache_clock s4"
  proof (cases "ca_spine ?c")
    case None
    from insert_spine_step [OF s4(2) _ _ None, of snap] s4(3) obtain s5 where
      *: "insert_source_view (snapshot_file snap) snap s4 = Some s5" "cache_core [i \<mapsto> ?d] (ss_latest s4) ?M s5"
      "keeps {?k} s4 s5" "steady s4 s5" "cached_at s5 ?k = Some (?c\<lparr>ca_spine := Some (snapshot_file snap)\<rparr>)"
      by (auto simp: publishing_def)
    have "used_but {} s5" using used_but_put [OF used4 *(3)] *(5) by (simp add: in_use_def)
    then show ?thesis using that [of s5 "?c\<lparr>ca_spine := Some (snapshot_file snap)\<rparr>"] * None physical s2(6)
      by (simp add: publishing_def steady_def)
  next
    case (Some f)
    have "f = snapshot_file snap"
      using keyedD(3) [OF coreD(2) [OF s4(2)], of ?k ?c f] Some s4(3) by (simp add: publishing_def cached_at_map)
    then show ?thesis using that [of s4 ?c] Some s4 used4 by (simp add: keeps_refl)
  qed
  have latest5: "ss_latest s5 i = Some ?k"
    using s5(2,5) coreD(4) [OF s5(2)] by (auto simp: publishing_def alias_lookup field_of_def cached_at_map)
  have recent: "ss_recent_codex s5 = ss_recent_codex s"
    using s1(3) s2(3) s3(3) s4(4) s5(3) by (simp add: keeps_def shrinks_def)
  have classified: "ss_classified s5 = ?M"
    using s1(3) s2(3) s3(3) s4(4) s5(3) by (simp add: keeps_def shrinks_def)
  define raw where "raw = (if i \<in> dom (ss_recent_codex s5)
    then ss_recent_codex_raw_bytes s5 - ?d + codex_raw_len snap else ss_recent_codex_raw_bytes s5)"
  let ?s6 = "s5\<lparr>ss_recent_codex_raw_bytes := raw\<rparr>"
  have len5: "latest_len (ss_latest s5) (cached_map (ss_generations s5)) i = codex_raw_len snap"
    using s5(5) latest5 by (simp add: latest_len_def publishing_def cached_at_map)
  note settle = raw_ok_settle [of "\<lambda>_. None", OF coreD(9) [OF s5(2)]]
  have "raw_ok (\<lambda>_. None) (ss_latest s5) (cached_map (ss_generations s5)) (ss_recent_codex s5) raw"
    using settle(1) settle(2) [unfolded len5] unfolding raw_def by presburger
  from core_raw [OF s5(2) this] have "cache_ok ?s6"
    using s5(4) classified by (simp add: cache_ok_def used_but_def cached_at_map)
  moreover have "(if i \<in> dom (ss_recent_codex s5) then Option.bind
        (raw_bytes_sub (case displaced i s of None \<Rightarrow> 0 | Some d \<Rightarrow> codex_raw_len d) s5)
        (\<lambda>s. Some (s\<lparr>ss_recent_codex_raw_bytes := ss_recent_codex_raw_bytes s + codex_raw_len snap\<rparr>))
      else Some s5) = Some ?s6"
    using settle(2) unfolding displaced_len [symmetric] by (auto simp: raw_bytes_sub_def raw_def)
  moreover have "cached_at s4 ?k = Some ?c" using s4(3) by (simp add: publishing_def)
  ultimately have "insert_latest i snap s = Some (displaced i s, ?s6) \<and> cache_ok ?s6"
    using s1(1) s2(1) s3(1) s4(1) s5(1)
    unfolding insert_latest_def retire_incompatible_source_views_def Let_def by simp
  moreover have "ss_cache_clock ?s6 = Suc (ss_cache_clock s)"
    using s1(4) s2(4) s3(5) s4(4) s5(7) by (simp add: steady_def ticked_def shrinks_def)
  moreover have "publishing i snap c5 ?s6" using s5(5) by (simp add: publishing_def cached_at_map)
  ultimately show ?thesis using s5(6) latest5 by auto
qed

end
