(* ===== verification/CacheOps.thy ===== *)
theory CacheOps
  imports CacheLatest "HOL-Library.Multiset"
begin

text \<open>Every operation of the cache, on a state that satisfies the invariant.\<close>

lemma cache_okD: "cache_ok s \<Longrightarrow> cache_core (\<lambda>_. None) (ss_latest s) (ss_classified s) s" "cache_ok s \<Longrightarrow> used_but {} s"
  by (simp_all add: cache_ok_def)

lemma cache_okI: "cache_core (\<lambda>_. None) (ss_latest s) (ss_classified s) s \<Longrightarrow> used_but {} s \<Longrightarrow> cache_ok s"
  by (simp add: cache_ok_def)

lemma store_new_ok: "cache_ok store_new"
proof -
  have "cached_map Map.empty = Map.empty" by (simp add: cached_map_def fun_eq_iff)
  moreover have "owner_touch Map.empty Map.empty Map.empty Map.empty = Map.empty"
    by (rule ext, rename_tac w, case_tac w) simp_all
  ultimately show ?thesis
    by (simp add: store_new_def cache_ok_def cache_core_def gens_ok_def keyed_def lru_ok_def alias_ok_def spines_ok_def
      spine_nodes_def field_of_def carried_ok_def raw_ok_def used_but_def cached_at_map)
qed

subsection \<open>Reading a cached snapshot\<close>

lemma touch_used:
  "used_but K s \<Longrightarrow> cached_at s k = Some c \<Longrightarrow> keeps {k} s s' \<Longrightarrow>
   cached_at s' k = Some (c\<lparr>ca_touched := t\<rparr>) \<Longrightarrow> used_but K s'"
  unfolding used_but_def
proof (intro allI impI)
  fix k' d
  assume a: "\<forall>k c. cached_at s k = Some c \<longrightarrow> k \<notin> K \<longrightarrow> in_use c" "cached_at s k = Some c" "keeps {k} s s'"
    "cached_at s' k = Some (c\<lparr>ca_touched := t\<rparr>)" "cached_at s' k' = Some d" "k' \<notin> K"
  show "in_use d"
  proof (cases "k' = k")
    case True
    then have "in_use c" "d = c\<lparr>ca_touched := t\<rparr>" using a by auto
    then show ?thesis by (simp add: in_use_def)
  next
    case False
    then show ?thesis using a keeps_at [OF a(3) False] by simp
  qed
qed

lemma cached_snapshot_ok:
  assumes ok: "cache_ok s" and c: "cached_at s k = Some c" and clock: "ss_cache_clock s + 1 < 2 ^ 64"
  shows "\<exists>s'. cached_snapshot_at k s = Some (ca_snapshot c, s') \<and> cache_ok s'"
proof -
  obtain r where r: "ss_generations s k = Some r" "gr_cached r = Some c"
    using c by (auto simp: cached_at_map cached_map_Some)
  obtain s' where s': "touch_generation k s = Some s'" "cache_core (\<lambda>_. None) (ss_latest s) (ss_classified s) s'"
    "keeps {k} s s'" "ticked s s'" "cached_at s' k = Some (c\<lparr>ca_touched := Suc (ss_cache_clock s)\<rparr>)"
    using touch_step [OF cache_okD(1) [OF ok] r clock] by blast
  moreover have "used_but {} s'" by (rule touch_used [OF cache_okD(2) [OF ok] c s'(3,5)])
  ultimately show ?thesis
    by (auto simp: cached_snapshot_at_def keeps_def ticked_def intro!: cache_okI)
qed

lemma latest_cached: "cache_ok s \<Longrightarrow> ss_latest s i = Some k \<Longrightarrow> \<exists>c. cached_at s k = Some c \<and> ca_latest c = Some i"
  using coreD(4) [OF cache_okD(1), of s] by (auto simp: alias_lookup field_of_def cached_at_map split: Option.bind_splits)

lemma classified_cached: "cache_ok s \<Longrightarrow> ss_classified s n = Some k \<Longrightarrow> \<exists>c. cached_at s k = Some c \<and> ca_classified c = Some n"
  using coreD(5) [OF cache_okD(1), of s] by (auto simp: alias_lookup field_of_def cached_at_map split: Option.bind_splits)

lemma latest_source_ok:
  assumes "cache_ok s" "ss_cache_clock s + 1 < 2 ^ 64"
  shows "\<exists>s'. latest_source i s = Some (displaced i s, s') \<and> cache_ok s'"
proof (cases "ss_latest s i")
  case None
  then show ?thesis using assms by (simp add: latest_source_def displaced_def)
next
  case (Some k)
  obtain c where "cached_at s k = Some c" using latest_cached [OF assms(1) Some] by blast
  then show ?thesis using cached_snapshot_ok [OF assms(1) _ assms(2)] Some
    by (fastforce simp: latest_source_def displaced_def some_fst_def)
qed

lemma classified_source_ok:
  assumes "cache_ok s" "ss_cache_clock s + 1 < 2 ^ 64"
  shows "\<exists>s'. classified_source n s = Some (map_option ca_snapshot (Option.bind (ss_classified s n) (cached_at s)), s') \<and> cache_ok s'"
proof (cases "ss_classified s n")
  case None
  then show ?thesis using assms by (simp add: classified_source_def)
next
  case (Some k)
  obtain c where "cached_at s k = Some c" using classified_cached [OF assms(1) Some] by blast
  then show ?thesis using cached_snapshot_ok [OF assms(1) _ assms(2)] Some
    by (fastforce simp: classified_source_def some_fst_def)
qed

lemma find_checked_total:
  "(\<And>x. x \<in> set xs \<Longrightarrow> p x \<noteq> None) \<Longrightarrow> find_checked p xs = Some (find (\<lambda>x. p x = Some True) xs)"
proof (induction xs)
  case (Cons x xs)
  obtain b where "p x = Some b" using Cons.prems [of x] by auto
  moreover have "find_checked p xs = Some (find (\<lambda>x. p x = Some True) xs)" using Cons by simp
  ultimately show ?case by simp
qed simp

lemma source_spine_ok:
  assumes ok: "cache_ok s" and clock: "ss_cache_clock s + 1 < 2 ^ 64"
  shows "\<exists>r s'. source_spine stamp s = Some (r, s') \<and> cache_ok s'"
proof -
  note core = cache_okD(1) [OF ok]
  let ?f = "identity_file (st_identity stamp)"
  have eligible: "spine_eligible stamp s k \<noteq> None \<longleftrightarrow> cached_at s k \<noteq> None" for k by (simp add: spine_eligible_def)
  have views: "cached_at s (sv_generation v) \<noteq> None" if "v \<in> set (views_at s ?f)" for v
    using that unfolding set_views_at [OF core] spines_mem [OF coreD(6) [OF core]] by (auto simp: cached_at_map)
  have latest: "cached_at s k \<noteq> None" if "k \<in> set (opt_list (ss_latest s (st_identity stamp)))" for k
    using that latest_cached [OF ok] by (cases "ss_latest s (st_identity stamp)") auto
  let ?newest = "find (\<lambda>k. spine_eligible stamp s k = Some True) (opt_list (ss_latest s (st_identity stamp)))"
  let ?view = "find (\<lambda>v. spine_eligible stamp s (sv_generation v) = Some True) (views_at s ?f)"
  let ?key = "case ?newest of Some k \<Rightarrow> Some k | None \<Rightarrow> map_option sv_generation ?view"
  have eq: "source_spine stamp s = (case ?key of None \<Rightarrow> Some (None, s) | Some k \<Rightarrow> map_option some_fst (cached_snapshot_at k s))"
    using latest views eligible
    by (simp add: source_spine_def find_checked_total split: option.split)
  show ?thesis
  proof (cases ?key)
    case None
    then show ?thesis using eq ok by simp
  next
    case (Some k)
    then have "spine_eligible stamp s k = Some True" by (auto split: option.splits simp: find_Some_iff)
    then obtain c where "cached_at s k = Some c" using eligible [of k] by auto
    then show ?thesis using eq Some cached_snapshot_ok [OF ok _ clock] by (fastforce simp: some_fst_def)
  qed
qed

subsection \<open>Removing\<close>

lemma remove_latest_ok:
  assumes "cache_ok s"
  shows "\<exists>s'. remove_latest i s = Some (displaced i s, s') \<and> cache_ok s'"
proof (cases "ss_latest s i")
  case None
  then show ?thesis using assms by (simp add: remove_latest_def displaced_def)
next
  case (Some k)
  obtain s' c where s': "cached_at s k = Some c" "remove_latest i s = Some (Some (ca_snapshot c), s')"
    "cache_core (\<lambda>_. None) (ss_latest s') (ss_classified s) s'" "keeps {k} s s'" "shrinks s s'"
    using remove_latest_step [OF cache_okD(1) [OF assms] refl Some] by blast
  then have "cache_ok s'"
    using cache_okD(2) [OF assms] by (intro cache_okI) (simp_all add: keeps_def shrinks_def)
  then show ?thesis using s' Some by (simp add: displaced_def)
qed

lemma forget_ok:
  assumes ok: "cache_ok s" and snap: "map_option gr_snapshot (ss_generations s (ts_key snap)) = Some snap"
  shows "\<exists>s'. forget_source_spine i snap s = Some s' \<and> cache_ok s'"
proof -
  let ?k = "ts_key snap"
  obtain s' where s': "forget_source_spine i snap s = Some s'" "cache_core (\<lambda>_. None) (ss_latest s) (ss_classified s) s'"
    "keeps {?k} s s'" "steady s s'" "cached_at s' ?k = (case cached_at s ?k of None \<Rightarrow> None | Some c \<Rightarrow>
      if ca_spine c = Some (identity_file i) then opt_filter in_use (Some (c\<lparr>ca_spine := None\<rparr>)) else Some c)"
    using forget_step [OF cache_okD(1) [OF ok] snap] by blast
  have "used_but ({} - {?k}) s'"
    using s'(5) cache_okD(2) [OF ok]
    by (intro used_but_put [OF cache_okD(2) [OF ok] s'(3)]) (auto simp: used_but_def split: option.splits if_splits)
  then show ?thesis using s' by (auto simp: keeps_def steady_def intro!: cache_okI)
qed

subsection \<open>Classified generations\<close>

lemma set_classified_step:
  assumes core: "cache_core ov L M s" and c: "cached_at s k = Some c"
    and M': "alias_ok M' ((field_of ca_classified (cached_map (ss_generations s)))(k := x))"
  shows "\<exists>s'. with_cached k (\<lambda>c. c\<lparr>ca_classified := x\<rparr>) s = Some s' \<and> cache_core ov L M' s' \<and> keeps {k} s s' \<and> steady s s' \<and>
    cached_at s' k = Some (c\<lparr>ca_classified := x\<rparr>)"
proof -
  let ?C = "cached_map (ss_generations s)" and ?c = "c\<lparr>ca_classified := x\<rparr>"
  note D = coreD [OF core]
  have C: "?C k = Some c" using c by (simp add: cached_at_map)
  obtain r where r: "ss_generations s k = Some r" "gr_cached r = Some c" using C by (auto simp: cached_map_Some)
  let ?s1 = "s\<lparr>ss_generations := (ss_generations s)(k \<mapsto> r\<lparr>gr_cached := Some ?c\<rparr>)\<rparr>"
  have "cache_core ov L M' ?s1"
  proof (rule core_put [OF core r(1), where x = "Some ?c"])
    show "k \<notin> set (ss_queue s)" using D(10) C by auto
    show "spines_ok (ss_source_spines ?s1) (ss_source_view_nodes ?s1) (?C(k := Some ?c))"
      using spines_other [OF D(6,2) C] by simp
    show "raw_ok ov L (?C(k := Some ?c)) (ss_recent_codex ?s1) (ss_recent_codex_raw_bytes ?s1)"
      using D(9) latest_len_put [of ?C k c "Some ?c" L] C by (simp add: raw_ok_def)
    show "lru_ok (ss_cache_order ?s1) (ss_cache_clock ?s1) ((owner_touch ?C
        (ss_carried_owners s) (ss_catalog_owners s) (ss_review_inputs s)) (Generation k := map_option ca_touched (Some ?c)))"
      using D(3) C by (simp add: fun_upd_idem)
    show "ca_snapshot e = gr_snapshot r \<and> (\<forall>i. ca_latest e = Some i \<longrightarrow> identity_file i = snapshot_file (ca_snapshot e)) \<and>
        (\<forall>f. ca_spine e = Some f \<longrightarrow> f = snapshot_file (ca_snapshot e))" if "Some ?c = Some e" for e
      using that keyedD(2,3) [OF D(2) C] gens_okD(2) [OF D(1) r] by auto
  qed (use D(4) C M' in simp_all)
  moreover have "with_cached k (\<lambda>c. c\<lparr>ca_classified := x\<rparr>) s = Some ?s1"
    using r C by (simp add: with_cached_def cached_at_map put_cached_eq)
  moreover have "keeps {k} s ?s1 \<and> steady s ?s1" using r by (auto simp: keeps_def steady_def cached_at_map)
  ultimately show ?thesis by (auto simp: cached_at_map)
qed

lemma insert_classified_ok:
  assumes ok: "cache_ok s" and live: "live s snap" and clock: "ss_cache_clock s + 1 < 2 ^ 64"
    and key: "field_of ca_classified (cached_at s) (ts_key snap) = None \<or>
      field_of ca_classified (cached_at s) (ts_key snap) = Some name"
  shows "\<exists>s' c. insert_classified name snap s = Some s' \<and> cache_ok s' \<and> ss_classified s' name = Some (ts_key snap) \<and>
    cached_at s' (ts_key snap) = Some c \<and> ca_snapshot c = snap \<and> ss_latest s' = ss_latest s"
proof -
  let ?k = "ts_key snap" and ?L = "ss_latest s" and ?M = "ss_classified s" and ?o = "\<lambda>_. None"
  note core = cache_okD(1) [OF ok]
  obtain s1 c where s1: "cache_generation snap s = Some s1" "cache_core ?o ?L ?M s1" "keeps {?k} s s1" "ticked s s1"
    "cached_at s1 ?k = Some c" "ca_snapshot c = snap" "ca_classified c = field_of ca_classified (cached_at s) ?k"
    using cache_generation_step [OF core live clock] by blast
  have used1: "used_but {?k} s1" using cache_okD(2) [OF ok] s1(3) by (auto simp: used_but_def keeps_def)
  let ?t = "s1\<lparr>ss_classified := ?M(name \<mapsto> ?k)\<rparr>"
  have t: "cache_core ?o ?L ?M ?t" "cached_at ?t = cached_at s1" using s1(2) by (simp_all add: cache_core_def cached_at_map)
  have M1: "ss_classified s1 = ?M" using s1(3) by (simp add: keeps_def)
  have named: "field_of ca_classified (cached_map (ss_generations s)) ?k = Some name \<longleftrightarrow> ?M name = Some ?k"
    using coreD(5) [OF core] by (simp add: alias_lookup)
  obtain s2 M2 where s2: "(case opt_filter (\<lambda>p. p \<noteq> ?k) (?M name) of None \<Rightarrow> Some ?t
      | Some p \<Rightarrow> Option.bind (with_cached p (\<lambda>c. c\<lparr>ca_classified := None\<rparr>) ?t) (release_unused_cached_generation p)) = Some s2"
    "cache_core ?o ?L M2 s2" "keeps (- {?k}) ?t s2" "steady ?t s2" "used_but {?k} s2"
    "M2 = ?M(name := None) \<and> ca_classified c = None \<or> M2 = ?M \<and> ?M name = Some ?k \<and> ca_classified c = Some name"
  proof (cases "opt_filter (\<lambda>p. p \<noteq> ?k) (?M name)")
    case None
    from named have "?M(name := None) = ?M \<and> ca_classified c = None \<or> ?M name = Some ?k \<and> ca_classified c = Some name"
      using None key s1(7) by (cases "?M name") (auto simp: cached_at_map split: if_splits)
    then have "?M = ?M(name := None) \<and> ca_classified c = None \<or> ?M = ?M \<and> ?M name = Some ?k \<and> ca_classified c = Some name"
      by metis
    then show ?thesis using that [of ?t ?M] None t used1 by (simp add: keeps_refl steady_def used_but_def)
  next
    case (Some p)
    then have p: "?M name = Some p" "p \<noteq> ?k" by (auto simp: opt_filter_Some_iff)
    obtain d where d: "cached_at ?t p = Some d" "ca_classified d = Some name"
      using classified_cached [OF ok p(1)] keeps_at [OF s1(3) p(2)] t(2) by auto
    have "alias_ok (?M(name := None)) ((field_of ca_classified (cached_map (ss_generations ?t)))(p := None))"
      using alias_drop [OF coreD(5) [OF t(1)], of p name] d by (simp add: field_of_def cached_at_map)
    from set_classified_step [OF t(1) d(1) this] obtain u where
      u: "with_cached p (\<lambda>c. c\<lparr>ca_classified := None\<rparr>) ?t = Some u" "cache_core ?o ?L (?M(name := None)) u" "keeps {p} ?t u"
        "steady ?t u" "cached_at u p = Some (d\<lparr>ca_classified := None\<rparr>)" by blast
    obtain r where r: "ss_generations u p = Some r" "gr_cached r = Some (d\<lparr>ca_classified := None\<rparr>)"
      using u(5) by (auto simp: cached_at_map cached_map_Some)
    obtain s2 where s2: "release_unused_cached_generation p u = Some s2" "cache_core ?o ?L (?M(name := None)) s2" "keeps {p} u s2"
        "steady u s2" "cached_at s2 p = opt_filter in_use (gr_cached r)"
      using release_step [OF u(2) r(1)] by blast
    have keep: "keeps {p} ?t s2" using keeps_trans [OF u(3) s2(3)] by simp
    have "used_but {?k} ?t" using used1 by (simp add: used_but_def t(2))
    from used_but_put [OF this keep] have "used_but ({?k} - {p}) s2" using s2(5) by (auto simp: opt_filter_Some_iff)
    then have "used_but {?k} s2" by (auto simp: used_but_def)
    moreover have "ca_classified c = None"
      using key p s1(7) named by (auto simp: cached_at_map)
    moreover have "steady ?t s2" using u(4) s2(4) by (simp add: steady_def)
    ultimately show ?thesis using that [of s2 "?M(name := None)"] Some u(1) s2 keeps_sub [OF keep, of "- {?k}"] p by auto
  qed
  have c2: "cached_at s2 ?k = Some c" using s2(3) s1(5) t(2) by (simp add: keeps_def)
  have "alias_ok (?M(name \<mapsto> ?k)) ((field_of ca_classified (cached_map (ss_generations s2)))(?k \<mapsto> name))"
    using s2(6)
  proof
    assume "M2 = ?M(name := None) \<and> ca_classified c = None"
    then show ?thesis
      using alias_put [OF coreD(5) [OF s2(2)], of name ?k] c2 by (simp add: field_of_def cached_at_map)
  next
    assume *: "M2 = ?M \<and> ?M name = Some ?k \<and> ca_classified c = Some name"
    then have "(field_of ca_classified (cached_map (ss_generations s2)))(?k \<mapsto> name) = field_of ca_classified (cached_map (ss_generations s2))"
      using c2 by (simp add: cached_at_map)
    then show ?thesis using coreD(5) [OF s2(2)] * by (simp add: fun_upd_idem)
  qed
  from set_classified_step [OF s2(2) c2 this] obtain s3 where
    s3: "with_cached ?k (\<lambda>c. c\<lparr>ca_classified := Some name\<rparr>) s2 = Some s3" "cache_core ?o ?L (?M(name \<mapsto> ?k)) s3"
      "keeps {?k} s2 s3" "steady s2 s3" "cached_at s3 ?k = Some (c\<lparr>ca_classified := Some name\<rparr>)" by blast
  have "insert_classified name snap s = Some s3"
    using s1(1) s2(1) s3(1) M1 unfolding insert_classified_def Let_def by (simp cong: option.case_cong)
  moreover have "used_but {} s3" using used_but_put [OF s2(5) s3(3)] s3(5) by (simp add: in_use_def)
  moreover have "ss_classified s3 = ?M(name \<mapsto> ?k)" using s3(3) s2(3) by (simp add: keeps_def)
  moreover have "ss_latest s3 = ?L" using s1(4) s2(4) s3(4) by (simp add: steady_def ticked_def)
  ultimately show ?thesis using s3(2,5) s1(6) by (auto simp: cache_ok_def)
qed

subsection \<open>The other owners\<close>

lemma core_owners:
  assumes ok: "cache_ok s"
    and lru: "lru_ok (ss_cache_order s') (ss_cache_clock s')
      (owner_touch (cached_map (ss_generations s)) (ss_carried_owners s') (ss_catalog_owners s') (ss_review_inputs s'))"
    and carried: "carried_ok (ss_carried s') (ss_carried_owners s')"
    and catalogs: "alias_ok (ss_catalogs s') (field_of (\<lambda>w. Some (co_key w)) (ss_catalog_owners s'))"
    and same: "ss_generations s' = ss_generations s" "ss_latest s' = ss_latest s" "ss_classified s' = ss_classified s"
      "ss_source_spines s' = ss_source_spines s" "ss_source_view_nodes s' = ss_source_view_nodes s"
      "ss_recent_codex s' = ss_recent_codex s" "ss_recent_codex_raw_bytes s' = ss_recent_codex_raw_bytes s"
      "ss_queue s' = ss_queue s"
  shows "cache_ok s'"
  using coreD [OF cache_okD(1) [OF ok]] cache_okD(2) [OF ok] lru carried catalogs
  unfolding cache_ok_def cache_core_def used_but_def cached_at_map same by blast

lemma position_of_Some:
  assumes "x \<in> set xs"
  shows "\<exists>i < length xs. position_of x xs = Some i \<and> xs ! i = x"
proof (cases "position_of x xs")
  case None
  then show ?thesis using assms by (auto simp: position_of_def find_None_iff in_set_conv_nth)
next
  case (Some i)
  then have "i < length xs \<and> xs ! i = x" by (auto simp: position_of_def find_Some_iff)
  then show ?thesis using Some by blast
qed

lemma swap_remove_perm: "i < length xs \<Longrightarrow> mset (xs ! i # swap_remove i xs) = mset xs"
proof -
  assume i: "i < length xs"
  let ?ys = "xs[i := last xs]"
  have ne: "xs \<noteq> []" using i by auto
  then have "?ys \<noteq> []" by simp
  moreover from ne have "last ?ys = last xs" using i by (simp add: last_list_update)
  ultimately have "?ys \<noteq> []" "last ?ys = last xs" by blast+
  then have "?ys = swap_remove i xs @ [last xs]" unfolding swap_remove_def by (metis append_butlast_last_id)
  then have "mset ?ys = add_mset (last xs) (mset (swap_remove i xs))" by simp
  moreover have "add_mset (xs ! i) (mset ?ys) = add_mset (last xs) (mset xs)"
    using i by (simp add: mset_update)
  ultimately show ?thesis by simp
qed

lemma swap_remove_distinct:
  assumes "distinct xs" "i < length xs"
  shows "distinct (swap_remove i xs)" "set (swap_remove i xs) = set xs - {xs ! i}"
proof -
  note perm = swap_remove_perm [OF assms(2)]
  have "distinct (xs ! i # swap_remove i xs)" using mset_eq_imp_distinct_iff [OF perm] assms(1) by simp
  moreover have "set xs = set (xs ! i # swap_remove i xs)" using mset_eq_setD [OF perm] ..
  ultimately show "distinct (swap_remove i xs)" "set (swap_remove i xs) = set xs - {xs ! i}" by auto
qed

lemma lru_promote_any:
  assumes "lru_ok order clock touched"
  shows "lru_ok (insert (Suc clock, w) (case touched w of None \<Rightarrow> order | Some t \<Rightarrow> order - {(t, w)})) (Suc clock)
    (touched(w \<mapsto> Suc clock))"
  using lru_promote_new [OF assms] lru_promote [OF assms] by (cases "touched w") simp_all

lemma carried_lookup: "carried_ok A W \<Longrightarrow> A l = Some p \<longleftrightarrow> (\<exists>w. W p = Some w \<and> l \<in> set (cw_lineages w))"
  unfolding carried_ok_def by blast

lemma carried_lineages: "carried_ok A W \<Longrightarrow> W p = Some w \<Longrightarrow> cw_lineages w \<noteq> [] \<and> distinct (cw_lineages w)"
  unfolding carried_ok_def by blast

lemma carried_okI:
  "(\<And>l p. A l = Some p \<longleftrightarrow> (\<exists>w. W p = Some w \<and> l \<in> set (cw_lineages w))) \<Longrightarrow>
   (\<And>p w. W p = Some w \<Longrightarrow> cw_lineages w \<noteq> [] \<and> distinct (cw_lineages w)) \<Longrightarrow> carried_ok A W"
  unfolding carried_ok_def by blast

lemma carried_attach:
  assumes ok: "carried_ok A W" and l: "A l = None"
  shows "carried_ok (A(l \<mapsto> p))
    (W(p \<mapsto> \<lparr>cw_lineages = (case W p of None \<Rightarrow> [] | Some w \<Rightarrow> cw_lineages w) @ [l], cw_touched = t\<rparr>))"
proof (rule carried_okI)
  have none: "l \<notin> set (cw_lineages w)" if "W q = Some w" for q w using carried_lookup [OF ok, of l] that l by auto
  fix m q w
  show "(A(l \<mapsto> p)) m = Some q \<longleftrightarrow> (\<exists>w. (W(p \<mapsto> \<lparr>cw_lineages = (case W p of None \<Rightarrow> [] | Some w \<Rightarrow> cw_lineages w) @ [l],
      cw_touched = t\<rparr>)) q = Some w \<and> m \<in> set (cw_lineages w))"
    using carried_lookup [OF ok, of m q] none by (cases "m = l"; cases "W p") auto
  show "cw_lineages w \<noteq> [] \<and> distinct (cw_lineages w)"
    if "(W(p \<mapsto> \<lparr>cw_lineages = (case W p of None \<Rightarrow> [] | Some w \<Rightarrow> cw_lineages w) @ [l], cw_touched = t\<rparr>)) q = Some w"
    using that carried_lineages [OF ok] none by (cases "q = p"; cases "W p") auto
qed

lemma carried_detach:
  assumes ok: "carried_ok A W" and l: "A l = Some p"
  shows "\<exists>w i. W p = Some w \<and> position_of l (cw_lineages w) = Some i \<and>
    (swap_remove i (cw_lineages w) = [] \<longrightarrow> carried_ok (A(l := None)) (W(p := None))) \<and>
    (swap_remove i (cw_lineages w) \<noteq> [] \<longrightarrow>
       carried_ok (A(l := None)) (W(p \<mapsto> w\<lparr>cw_lineages := swap_remove i (cw_lineages w)\<rparr>)))"
proof -
  obtain w where w: "W p = Some w" "l \<in> set (cw_lineages w)" using l unfolding carried_lookup [OF ok] by blast
  then have w': "distinct (cw_lineages w)" using carried_lineages [OF ok] by blast
  obtain i where i: "i < length (cw_lineages w)" "position_of l (cw_lineages w) = Some i" "cw_lineages w ! i = l"
    using position_of_Some [OF w(2)] by blast
  let ?rest = "swap_remove i (cw_lineages w)"
  note rest = swap_remove_distinct [OF w' i(1), unfolded i(3)]
  have other: "l \<notin> set (cw_lineages v)" if "W q = Some v" "q \<noteq> p" for q v
    using carried_lookup [OF ok, of l q] that l by auto
  have "carried_ok (A(l := None)) (W(p := None))" if "?rest = []"
  proof (rule carried_okI)
    fix m q v
    have only: "set (cw_lineages w) \<subseteq> {l}" using rest(2) that by auto
    show "(A(l := None)) m = Some q \<longleftrightarrow> (\<exists>w. (W(p := None)) q = Some w \<and> m \<in> set (cw_lineages w))"
    proof (cases "m = l")
      case True
      then show ?thesis using other [of q] by auto
    next
      case False
      then show ?thesis using carried_lookup [OF ok, of m q] only w(1) by auto
    qed
    show "cw_lineages v \<noteq> [] \<and> distinct (cw_lineages v)" if "(W(p := None)) q = Some v"
      using carried_lineages [OF ok, of q v] that by (auto split: if_splits)
  qed
  moreover have "carried_ok (A(l := None)) (W(p \<mapsto> w\<lparr>cw_lineages := ?rest\<rparr>))" if "?rest \<noteq> []"
  proof (rule carried_okI)
    fix m q v
    show "(A(l := None)) m = Some q \<longleftrightarrow> (\<exists>v. (W(p \<mapsto> w\<lparr>cw_lineages := ?rest\<rparr>)) q = Some v \<and> m \<in> set (cw_lineages v))"
      using carried_lookup [OF ok, of m q] other [of q] w rest(2) by (cases "q = p") auto
    show "cw_lineages v \<noteq> [] \<and> distinct (cw_lineages v)" if "(W(p \<mapsto> w\<lparr>cw_lineages := ?rest\<rparr>)) q = Some v"
      using carried_lineages [OF ok, of q v] that \<open>?rest \<noteq> []\<close> rest(1) by (auto split: if_splits)
  qed
  ultimately show ?thesis using w(1) i(2) by blast
qed

lemma detach_ok:
  assumes ok: "cache_ok s" and l: "ss_carried s l = Some p"
  shows "\<exists>s'. detach_carried_owner l p s = Some s' \<and> cache_ok (s'\<lparr>ss_carried := (ss_carried s)(l := None)\<rparr>) \<and>
    ss_carried s' = ss_carried s \<and> ss_cache_clock s' = ss_cache_clock s"
proof -
  note D = coreD [OF cache_okD(1) [OF ok]]
  obtain w i where w: "ss_carried_owners s p = Some w" "position_of l (cw_lineages w) = Some i"
    "swap_remove i (cw_lineages w) = [] \<Longrightarrow> carried_ok ((ss_carried s)(l := None)) ((ss_carried_owners s)(p := None))"
    "swap_remove i (cw_lineages w) \<noteq> [] \<Longrightarrow> carried_ok ((ss_carried s)(l := None))
       ((ss_carried_owners s)(p \<mapsto> w\<lparr>cw_lineages := swap_remove i (cw_lineages w)\<rparr>))"
    using carried_detach [OF D(7) l] by blast
  show ?thesis
  proof (cases "swap_remove i (cw_lineages w) = []")
    case True
    let ?s = "s\<lparr>ss_carried_owners := (ss_carried_owners s)(p := None),
      ss_cache_order := ss_cache_order s - {(cw_touched w, Carried p)}\<rparr>"
    have "(cw_touched w, Carried p) \<in> ss_cache_order s" using lru_order [OF D(3)] w(1) by simp
    then have "detach_carried_owner l p s = Some ?s"
      using w True by (simp add: detach_carried_owner_def order_remove_eq Let_def)
    moreover have "cache_ok (?s\<lparr>ss_carried := (ss_carried s)(l := None)\<rparr>)"
      using lru_drop [OF D(3), of "Carried p"] w(1) w(3) [OF True] D(8) by (intro core_owners [OF ok]) simp_all
    ultimately show ?thesis by auto
  next
    case False
    let ?s = "s\<lparr>ss_carried_owners := (ss_carried_owners s)(p \<mapsto> w\<lparr>cw_lineages := swap_remove i (cw_lineages w)\<rparr>)\<rparr>"
    have "detach_carried_owner l p s = Some ?s" using w False by (simp add: detach_carried_owner_def Let_def)
    moreover have "cache_ok (?s\<lparr>ss_carried := (ss_carried s)(l := None)\<rparr>)"
      using D(3) w(1) w(4) [OF False] D(8) by (intro core_owners [OF ok]) (simp_all add: fun_upd_idem)
    ultimately show ?thesis by auto
  qed
qed

lemma attach_ok:
  assumes ok: "cache_ok s" and l: "ss_carried s l = None" and clock: "ss_cache_clock s + 1 < 2 ^ 64"
  shows "\<exists>s'. attach_carried_owner l p (s\<lparr>ss_carried := A\<rparr>) = Some (s'\<lparr>ss_carried := A\<rparr>) \<and>
    cache_ok (s'\<lparr>ss_carried := (ss_carried s)(l \<mapsto> p)\<rparr>)"
proof -
  note D = coreD [OF cache_okD(1) [OF ok]]
  let ?t = "Suc (ss_cache_clock s)" and ?W = "ss_carried_owners s"
  let ?o = "owner_touch (cached_map (ss_generations s)) ?W (ss_catalog_owners s) (ss_review_inputs s)"
  let ?s = "s\<lparr>ss_cache_clock := ?t, ss_carried_owners := ?W(p \<mapsto>
      \<lparr>cw_lineages = (case ?W p of None \<Rightarrow> [] | Some w \<Rightarrow> cw_lineages w) @ [l], cw_touched = ?t\<rparr>),
    ss_cache_order := insert (?t, Carried p) (case ?o (Carried p) of
      None \<Rightarrow> ss_cache_order s | Some t \<Rightarrow> ss_cache_order s - {(t, Carried p)})\<rparr>"
  have "(t, Carried p) \<in> ss_cache_order s \<longleftrightarrow> map_option cw_touched (?W p) = Some t" for t
    using lru_order [OF D(3)] by simp
  then have "attach_carried_owner l p (s\<lparr>ss_carried := A\<rparr>) = Some (?s\<lparr>ss_carried := A\<rparr>)"
    using clock lru_fresh [OF D(3)]
    by (cases "?W p") (simp_all add: attach_carried_owner_def next_cache_touch_def order_remove_def order_insert_def)
  moreover have "cache_ok (?s\<lparr>ss_carried := (ss_carried s)(l \<mapsto> p)\<rparr>)"
    using lru_promote_any [OF D(3), of "Carried p"] carried_attach [OF D(7) l, of p ?t] D(8)
    by (intro core_owners [OF ok]) simp_all
  ultimately show ?thesis by blast
qed

end
