(* ===== verification/CacheEvict.thy ===== *)
theory CacheEvict
  imports CacheOps
begin

text \<open>
  Carried classifications, catalogs, review inputs, recent codex sources, deaths of generations, and the
  eviction of a generation.
\<close>

lemma attach_after:
  assumes ok: "cache_ok (s\<lparr>ss_carried := A\<rparr>)" and A: "A = (ss_carried s)(l := None)" and clock: "ss_cache_clock s + 1 < 2 ^ 64"
  shows "\<exists>s'. attach_carried_owner l p s = Some s' \<and> cache_ok (s'\<lparr>ss_carried := (ss_carried s')(l \<mapsto> p)\<rparr>)"
proof -
  obtain s' where s': "attach_carried_owner l p (s\<lparr>ss_carried := A, ss_carried := ss_carried s\<rparr>) = Some (s'\<lparr>ss_carried := ss_carried s\<rparr>)"
    "cache_ok (s'\<lparr>ss_carried := A(l \<mapsto> p)\<rparr>)"
    using attach_ok [OF ok, of l p "ss_carried s"] clock A by auto
  then show ?thesis using A by auto
qed

lemma insert_carried_ok:
  assumes ok: "cache_ok s" and clock: "ss_cache_clock s + 1 < 2 ^ 64"
  shows "\<exists>s'. insert_carried l p s = Some s' \<and> cache_ok s'"
proof (cases "ss_carried s l")
  case None
  then show ?thesis using attach_after [of "ss_carried s" s l p] ok clock
    by (auto simp: insert_carried_def fun_upd_idem)
next
  case (Some q)
  obtain t where t: "detach_carried_owner l q s = Some t" "cache_ok (t\<lparr>ss_carried := (ss_carried s)(l := None)\<rparr>)"
    "ss_carried t = ss_carried s" "ss_cache_clock t = ss_cache_clock s"
    using detach_ok [OF ok Some] by blast
  have "(ss_carried s)(l := None) = (ss_carried t)(l := None)" "ss_cache_clock t + 1 < 2 ^ 64" using t(3,4) clock by simp_all
  then obtain u where "attach_carried_owner l p t = Some u" "cache_ok (u\<lparr>ss_carried := (ss_carried u)(l \<mapsto> p)\<rparr>)"
    using attach_after [OF t(2)] by blast
  then show ?thesis using t(1) Some by (simp add: insert_carried_def)
qed

lemma detach_irrelevant:
  "detach_carried_owner l p (s\<lparr>ss_carried := A\<rparr>) = map_option (\<lambda>s. s\<lparr>ss_carried := A\<rparr>) (detach_carried_owner l p s)"
proof (cases "ss_carried_owners s p")
  case (Some w)
  then show ?thesis
    by (cases "position_of l (cw_lineages w)") (simp_all add: detach_carried_owner_def order_remove_def Let_def)
qed (simp add: detach_carried_owner_def)

lemma remove_carried_ok:
  assumes ok: "cache_ok s"
  shows "\<exists>s'. remove_carried l s = Some s' \<and> cache_ok s'"
proof (cases "ss_carried s l")
  case None
  then show ?thesis using ok by (simp add: remove_carried_def)
next
  case (Some p)
  obtain t where "detach_carried_owner l p s = Some t" "cache_ok (t\<lparr>ss_carried := (ss_carried s)(l := None)\<rparr>)"
    using detach_ok [OF ok Some] by blast
  then show ?thesis using Some by (simp add: remove_carried_def detach_irrelevant)
qed

text \<open>Moving one owner of another kind to the top of the order.\<close>

lemma carried_use_ok:
  assumes ok: "cache_ok s" and clock: "ss_cache_clock s + 1 < 2 ^ 64"
  shows "\<exists>s'. carried_use l s = Some (ss_carried s l, s') \<and> cache_ok s'"
proof (cases "ss_carried s l")
  case None
  then show ?thesis using ok by (simp add: carried_use_def)
next
  case (Some p)
  note D = coreD [OF cache_okD(1) [OF ok]]
  obtain w where w: "ss_carried_owners s p = Some w" "l \<in> set (cw_lineages w)" using carried_lookup [OF D(7)] Some by blast
  let ?t = "Suc (ss_cache_clock s)"
  let ?s = "s\<lparr>ss_cache_clock := ?t, ss_carried_owners := (ss_carried_owners s)(p \<mapsto> w\<lparr>cw_touched := ?t\<rparr>),
    ss_cache_order := insert (?t, Carried p) (ss_cache_order s - {(cw_touched w, Carried p)})\<rparr>"
  have "(cw_touched w, Carried p) \<in> ss_cache_order s" using lru_order [OF D(3)] w by simp
  then have "carried_use l s = Some (Some p, ?s)"
    using Some w clock lru_fresh [OF D(3)]
    by (simp add: carried_use_def touch_carried_owner_def next_cache_touch_def order_remove_def order_insert_def)
  moreover have "carried_ok (ss_carried s) ((ss_carried_owners s)(p \<mapsto> w\<lparr>cw_touched := ?t\<rparr>))"
    using carried_lookup [OF D(7)] carried_lineages [OF D(7)] w by (intro carried_okI) (auto split: if_splits)
  then have "cache_ok ?s"
    using lru_promote [OF D(3), of "Carried p"] w D(8) by (intro core_owners [OF ok]) simp_all
  ultimately show ?thesis using Some by auto
qed

lemma catalog_slot_ok:
  assumes ok: "cache_ok s" and clock: "ss_cache_clock s + 1 < 2 ^ 64" and fresh: "fresh \<notin> dom (ss_catalog_owners s)"
  shows "\<exists>s' slot. catalog_slot name fresh s = Some (slot, s') \<and> cache_ok s' \<and> ss_catalogs s' name = Some slot"
proof -
  note D = coreD [OF cache_okD(1) [OF ok]]
  let ?t = "Suc (ss_cache_clock s)"
  show ?thesis
  proof (cases "ss_catalogs s name")
    case None
    let ?s = "s\<lparr>ss_catalogs := (ss_catalogs s)(name \<mapsto> fresh), ss_cache_clock := ?t,
      ss_catalog_owners := (ss_catalog_owners s)(fresh \<mapsto> \<lparr>co_key = name, co_touched = ?t\<rparr>),
      ss_cache_order := insert (?t, Catalog fresh) (ss_cache_order s)\<rparr>"
    have K: "ss_catalog_owners s fresh = None" using fresh by auto
    have "catalog_slot name fresh s = Some (fresh, ?s)"
      using None K clock lru_fresh [OF D(3)]
      by (simp add: catalog_slot_def attach_catalog_owner_def next_cache_touch_def order_insert_def)
    moreover have "cache_ok ?s"
      using lru_promote_new [OF D(3), of "Catalog fresh"] K D(7) alias_put [OF D(8) None, of fresh]
      by (intro core_owners [OF ok]) (simp_all add: field_of_def)
    ultimately show ?thesis by auto
  next
    case (Some slot)
    then obtain w where w: "ss_catalog_owners s slot = Some w" "co_key w = name"
      using D(8) by (auto simp: alias_lookup field_of_def split: Option.bind_splits)
    let ?s = "s\<lparr>ss_cache_clock := ?t, ss_catalog_owners := (ss_catalog_owners s)(slot \<mapsto> w\<lparr>co_touched := ?t\<rparr>),
      ss_cache_order := insert (?t, Catalog slot) (ss_cache_order s - {(co_touched w, Catalog slot)})\<rparr>"
    have "(co_touched w, Catalog slot) \<in> ss_cache_order s" using lru_order [OF D(3)] w by simp
    then have "catalog_slot name fresh s = Some (slot, ?s)"
      using Some w clock lru_fresh [OF D(3)]
      by (simp add: catalog_slot_def touch_catalog_owner_def next_cache_touch_def order_remove_def order_insert_def)
    moreover have "cache_ok ?s"
      using lru_promote [OF D(3), of "Catalog slot"] w D(7,8) by (intro core_owners [OF ok]) simp_all
    ultimately show ?thesis using Some by auto
  qed
qed

lemma remove_catalog_ok:
  assumes ok: "cache_ok s"
  shows "\<exists>s'. remove_catalog name s = Some (ss_catalogs s name, s') \<and> cache_ok s' \<and>
    (\<forall>slot w. ss_catalogs s name = Some slot \<longrightarrow> ss_catalog_owners s slot = Some w \<longrightarrow>
       ss_cache_order s' = ss_cache_order s - {(co_touched w, Catalog slot)}) \<and> ss_queue s' = ss_queue s"
proof (cases "ss_catalogs s name")
  case None
  then show ?thesis using ok by (simp add: remove_catalog_def)
next
  case (Some slot)
  note D = coreD [OF cache_okD(1) [OF ok]]
  obtain w where w: "ss_catalog_owners s slot = Some w" "co_key w = name"
    using D(8) Some by (auto simp: alias_lookup field_of_def split: Option.bind_splits)
  let ?s = "s\<lparr>ss_catalogs := (ss_catalogs s)(name := None), ss_catalog_owners := (ss_catalog_owners s)(slot := None),
    ss_cache_order := ss_cache_order s - {(co_touched w, Catalog slot)}\<rparr>"
  have "(co_touched w, Catalog slot) \<in> ss_cache_order s" using lru_order [OF D(3)] w by simp
  then have "remove_catalog name s = Some (Some slot, ?s)"
    using Some w by (simp add: remove_catalog_def detach_catalog_owner_def order_remove_def)
  moreover have "cache_ok ?s"
    using lru_drop [OF D(3), of "Catalog slot"] w D(7) alias_drop [OF D(8), of slot name]
    by (intro core_owners [OF ok]) (simp_all add: field_of_def)
  ultimately show ?thesis using Some w by auto
qed

lemma review_drop_ok:
  assumes ok: "cache_ok s" and e: "ss_review_inputs s e = Some t"
  shows "(t, Review e) \<in> ss_cache_order s" "cache_ok (s\<lparr>ss_review_inputs := (ss_review_inputs s)(e := None),
    ss_cache_order := ss_cache_order s - {(t, Review e)}\<rparr>)"
proof -
  note D = coreD [OF cache_okD(1) [OF ok]]
  show "(t, Review e) \<in> ss_cache_order s" using lru_order [OF D(3)] e by simp
  show "cache_ok (s\<lparr>ss_review_inputs := (ss_review_inputs s)(e := None), ss_cache_order := ss_cache_order s - {(t, Review e)}\<rparr>)"
    using lru_drop [OF D(3), of "Review e"] e D(7,8) by (intro core_owners [OF ok]) simp_all
qed

lemma take_review_ok:
  assumes ok: "cache_ok s"
  shows "\<exists>s'. take_review_input e s = Some s' \<and> cache_ok s'"
  using review_drop_ok [OF ok, of e] ok
  by (cases "ss_review_inputs s e") (auto simp: take_review_input_def order_remove_def)

lemma publish_review_ok:
  assumes ok: "cache_ok s" and clock: "ss_cache_clock s + 1 < 2 ^ 64" and e: "ss_review_inputs s e = None"
  shows "\<exists>s'. publish_review_input e s = Some s' \<and> cache_ok s'"
proof -
  note D = coreD [OF cache_okD(1) [OF ok]]
  let ?t = "Suc (ss_cache_clock s)"
  let ?s = "s\<lparr>ss_cache_clock := ?t, ss_cache_order := insert (?t, Review e) (ss_cache_order s),
    ss_review_inputs := (ss_review_inputs s)(e \<mapsto> ?t)\<rparr>"
  have "publish_review_input e s = Some ?s"
    using e clock lru_fresh [OF D(3)] by (simp add: publish_review_input_def next_cache_touch_def order_insert_def)
  moreover have "cache_ok ?s"
    using lru_promote_new [OF D(3), of "Review e"] e D(7,8) by (intro core_owners [OF ok]) simp_all
  ultimately show ?thesis by blast
qed

subsection \<open>The recent codex sources\<close>

lemma latest_raw_bytes_eq:
  "cache_ok s \<Longrightarrow> latest_raw_bytes i s = Some (latest_len (ss_latest s) (cached_map (ss_generations s)) i)"
  using latest_cached [of s i] by (cases "ss_latest s i") (auto simp: latest_raw_bytes_def latest_len_def cached_at_map)

lemma latest_raw_bytes_frame: "latest_raw_bytes i (s\<lparr>ss_recent_codex := R\<rparr>) = latest_raw_bytes i s"
  by (cases "ss_latest s i") (simp_all add: latest_raw_bytes_def cached_at_map)

lemma cache_ok_recent:
  assumes "cache_ok s" "raw_ok (\<lambda>_. None) (ss_latest s) (cached_map (ss_generations s)) recent raw"
  shows "cache_ok (s\<lparr>ss_recent_codex := recent, ss_recent_codex_raw_bytes := raw\<rparr>)"
  using assms unfolding cache_ok_def cache_core_def used_but_def cached_at_map by simp

lemma insert_recent_ok:
  assumes ok: "cache_ok s"
  shows "\<exists>s'. insert_recent_codex i now s = Some s' \<and> cache_ok s'"
proof -
  let ?len = "latest_len (ss_latest s) (cached_map (ss_generations s))" and ?R = "ss_recent_codex s"
  have raw: "finite (dom ?R)" "ss_recent_codex_raw_bytes s = sum ?len (dom ?R)"
    using coreD(9) [OF cache_okD(1) [OF ok]] by (simp_all add: raw_ok_def)
  show ?thesis
  proof (cases "i \<in> dom ?R")
    case True
    then have "raw_ok (\<lambda>_. None) (ss_latest s) (cached_map (ss_generations s)) (?R(i \<mapsto> now)) (ss_recent_codex_raw_bytes s)"
      using raw by (simp add: raw_ok_def insert_absorb)
    from cache_ok_recent [OF ok this] show ?thesis using True by (simp add: insert_recent_codex_def)
  next
    case False
    then have "raw_ok (\<lambda>_. None) (ss_latest s) (cached_map (ss_generations s)) (?R(i \<mapsto> now)) (ss_recent_codex_raw_bytes s + ?len i)"
      using raw by (simp add: raw_ok_def)
    from cache_ok_recent [OF ok this] show ?thesis
      using False latest_raw_bytes_eq [OF ok, of i] latest_raw_bytes_frame
      by (simp add: insert_recent_codex_def Let_def)
  qed
qed

lemma remove_recent_ok:
  assumes ok: "cache_ok s"
  shows "\<exists>s'. remove_recent_codex i s = Some s' \<and> cache_ok s'"
proof (cases "i \<in> dom (ss_recent_codex s)")
  case True
  let ?len = "latest_len (ss_latest s) (cached_map (ss_generations s))" and ?R = "ss_recent_codex s"
  have raw: "finite (dom ?R)" "ss_recent_codex_raw_bytes s = sum ?len (dom ?R)"
    using coreD(9) [OF cache_okD(1) [OF ok]] by (simp_all add: raw_ok_def)
  then have sum: "ss_recent_codex_raw_bytes s = ?len i + sum ?len (dom ?R - {i})"
    using sum.remove [OF raw(1) True, of ?len] by simp
  then have "raw_ok (\<lambda>_. None) (ss_latest s) (cached_map (ss_generations s)) (?R(i := None)) (ss_recent_codex_raw_bytes s - ?len i)"
    using raw(1) by (simp add: raw_ok_def)
  from cache_ok_recent [OF ok this] show ?thesis
    using True latest_raw_bytes_eq [OF ok, of i] sum by (simp add: remove_recent_codex_def raw_bytes_sub_def)
next
  case False
  then show ?thesis using ok by (simp add: remove_recent_codex_def)
qed

subsection \<open>Generations and their deaths\<close>

lemma cache_ok_gens:
  assumes ok: "cache_ok s" and gens: "gens_ok G" "cached_map G = cached_map (ss_generations s)"
    and queue: "\<And>k. k \<in> set Q \<Longrightarrow> cached_at s k = None"
  shows "cache_ok (s\<lparr>ss_generations := G, ss_queue := Q\<rparr>)"
  using coreD [OF cache_okD(1) [OF ok]] cache_okD(2) [OF ok] gens queue
  unfolding cache_ok_def cache_core_def used_but_def cached_at_map by simp

lemma register_ok:
  assumes ok: "cache_ok s" and new: "\<And>r. ss_generations s (ts_key snap) = Some r \<Longrightarrow> gr_snapshot r = snap"
  shows "cache_ok (register_generation snap s)"
proof -
  note D = coreD [OF cache_okD(1) [OF ok]]
  let ?G = "(ss_generations s)(ts_key snap \<mapsto> \<lparr>gr_snapshot = snap, gr_cached = cached_at s (ts_key snap)\<rparr>)"
  have "ca_snapshot c = snap" if "cached_at s (ts_key snap) = Some c" for c
    using that new gens_okD(2) [OF D(1)] by (auto simp: cached_at_map cached_map_Some)
  then have "gens_ok ?G" using D(1) unfolding gens_ok_def by auto
  moreover have "cached_map ?G = cached_map (ss_generations s)" by (simp add: cached_at_map)
  ultimately have "cache_ok (s\<lparr>ss_generations := ?G, ss_queue := ss_queue s\<rparr>)"
    using D(10) by (intro cache_ok_gens [OF ok]) (auto simp: cached_at_map)
  then show ?thesis by (simp add: register_generation_def)
qed

lemma cached_map_restrict: "(\<And>k. k \<in> K \<Longrightarrow> cached_map G k = None) \<Longrightarrow> cached_map (G |` (- K)) = cached_map G"
  by (rule ext) (auto simp: cached_map_def restrict_map_def)

lemma restrict_map_eq: "(G |` K) k = (if k \<in> K then G k else None)"
  by (simp add: restrict_map_def)

lemma gens_ok_restrict: "gens_ok G \<Longrightarrow> gens_ok (G |` K)"
  unfolding gens_ok_def by (auto simp: restrict_map_eq split: if_splits)

lemma unregister_eq:
  "cached_at s k = None \<Longrightarrow> unregister_generation k s = Some (s\<lparr>ss_generations := ss_generations s |` (- {k})\<rparr>)"
  by (auto simp: unregister_generation_def cached_at_def restrict_complement_singleton_eq fun_upd_idem split: option.split)

lemma unregister_all_eq:
  "(\<And>k. k \<in> set ks \<Longrightarrow> cached_at s k = None) \<Longrightarrow>
   unregister_all ks s = Some (s\<lparr>ss_generations := ss_generations s |` (- set ks)\<rparr>)"
proof (induction ks arbitrary: s)
  case (Cons k ks)
  let ?s = "s\<lparr>ss_generations := ss_generations s |` (- {k})\<rparr>"
  have "cached_at ?s k' = None" if "k' \<in> set ks" for k'
    using Cons.prems [of k'] that by (auto simp: cached_at_def restrict_map_def)
  then have "unregister_all ks ?s = Some (?s\<lparr>ss_generations := ss_generations ?s |` (- set ks)\<rparr>)" by (rule Cons.IH)
  moreover have "- {k} \<inter> - set ks = - set (k # ks)" by auto
  ultimately show ?case using unregister_eq [of s k] Cons.prems [of k] by (simp add: restrict_restrict)
qed (simp add: restrict_map_def)

lemma unregister_ok:
  assumes ok: "cache_ok s" and none: "cached_at s k = None"
  shows "\<exists>s'. unregister_generation k s = Some s' \<and> cache_ok s'"
proof -
  note D = coreD [OF cache_okD(1) [OF ok]]
  have "cache_ok (s\<lparr>ss_generations := ss_generations s |` (- {k}), ss_queue := ss_queue s\<rparr>)"
    using none D(1,10) by (intro cache_ok_gens [OF ok]) (auto simp: cached_at_map intro!: gens_ok_restrict cached_map_restrict)
  then show ?thesis using unregister_eq [OF none] by simp
qed

lemma drain_ok:
  assumes ok: "cache_ok s"
  shows "\<exists>s'. drain s = Some s' \<and> cache_ok s' \<and> ss_cache_order s' = ss_cache_order s \<and> cached_at s' = cached_at s \<and>
    ss_cache_clock s' = ss_cache_clock s"
proof -
  note D = coreD [OF cache_okD(1) [OF ok]]
  let ?G = "ss_generations s |` (- set (ss_queue s))"
  have map: "cached_map ?G = cached_map (ss_generations s)" using D(10) by (intro cached_map_restrict) auto
  have "cache_ok (s\<lparr>ss_generations := ?G, ss_queue := []\<rparr>)"
    using D(1) map by (intro cache_ok_gens [OF ok]) (simp_all add: gens_ok_restrict)
  moreover have "drain s = Some (s\<lparr>ss_generations := ?G, ss_queue := []\<rparr>)"
    using unregister_all_eq [of "ss_queue s" "s\<lparr>ss_queue := []\<rparr>"] D(10) by (simp add: drain_def cached_at_map)
  ultimately show ?thesis using map by (simp add: cached_at_map)
qed

lemma notify_ok: "cache_ok s \<Longrightarrow> cached_at s k = None \<Longrightarrow> cache_ok (notify_death k s)"
  using cache_ok_gens [of s "ss_generations s" "ss_queue s @ [k]"] coreD(1,10) [OF cache_okD(1), of s]
  by (auto simp: notify_death_def cached_at_map)

subsection \<open>Eviction\<close>

lemma evict_generation_ok:
  assumes ok: "cache_ok s" and c: "cached_at s k = Some c"
  shows "\<exists>s'. evict_generation strong k s = Some s' \<and> cache_ok s' \<and> cached_at s' = (cached_at s)(k := None) \<and>
    ss_cache_order s' = ss_cache_order s - {(ca_touched c, Generation k)} \<and> ss_cache_clock s' = ss_cache_clock s"
proof -
  let ?C = "cached_map (ss_generations s)" and ?o = "\<lambda>_. None"
  let ?L = "case ca_latest c of None \<Rightarrow> ss_latest s | Some i \<Rightarrow> (ss_latest s)(i := None)"
  let ?M = "case ca_classified c of None \<Rightarrow> ss_classified s | Some n \<Rightarrow> (ss_classified s)(n := None)"
  note D = coreD [OF cache_okD(1) [OF ok]]
  have C: "?C k = Some c" using c by (simp add: cached_at_map)
  obtain r where r: "ss_generations s k = Some r" "gr_cached r = Some c" using C by (auto simp: cached_map_Some)
  define raw where "raw = (case ca_latest c of None \<Rightarrow> ss_recent_codex_raw_bytes s
    | Some i \<Rightarrow> if i \<in> dom (ss_recent_codex s) then ss_recent_codex_raw_bytes s - codex_raw_len (ca_snapshot c)
        else ss_recent_codex_raw_bytes s)"
  define S where "S = (case ca_spine c of None \<Rightarrow> ss_source_spines s
    | Some f \<Rightarrow> (ss_source_spines s)(f := drop_view (view_of (ca_snapshot c)) (the (ss_source_spines s f))))"
  define n where "n = (case ca_spine c of None \<Rightarrow> ss_source_view_nodes s | Some f \<Rightarrow> ss_source_view_nodes s - 1)"
  define t where "t = s\<lparr>ss_generations := (ss_generations s)(k \<mapsto> r\<lparr>gr_cached := None\<rparr>),
    ss_cache_order := ss_cache_order s - {(ca_touched c, Generation k)}, ss_latest := ?L, ss_recent_codex_raw_bytes := raw,
    ss_source_spines := S, ss_source_view_nodes := n, ss_classified := ?M\<rparr>"
  have latest: "ss_latest s i = Some k \<longleftrightarrow> ca_latest c = Some i" for i
    using D(4) C by (simp add: alias_lookup field_of_def)
  have classified: "ss_classified s m = Some k \<longleftrightarrow> ca_classified c = Some m" for m
    using D(5) C by (simp add: alias_lookup field_of_def)
  have len: "latest_len (ss_latest s) ?C i = codex_raw_len (ca_snapshot c)" if "ca_latest c = Some i" for i
  proof -
    have "ss_latest s i = Some k" using latest that by blast
    then show ?thesis using C by (simp add: latest_len_def)
  qed
  have lens: "latest_len ?L (?C(k := None)) j = (if ca_latest c = Some j then 0 else latest_len (ss_latest s) ?C j)" for j
  proof -
    have "k \<notin> ran ?L" using latest by (auto simp: ran_def split: option.splits if_splits)
    then have "latest_len ?L (?C(k := None)) = latest_len ?L ?C" by (rule latest_len_unused)
    then show ?thesis by (cases "ca_latest c") (auto simp: latest_len_def)
  qed
  have bytes: "codex_raw_len (ca_snapshot c) \<le> ss_recent_codex_raw_bytes s \<and>
      raw_ok ?o ?L (?C(k := None)) (ss_recent_codex s) (ss_recent_codex_raw_bytes s - codex_raw_len (ca_snapshot c))"
    if i: "ca_latest c = Some i" "i \<in> dom (ss_recent_codex s)" for i
  proof -
    have "raw_ok (?o(i \<mapsto> codex_raw_len (ca_snapshot c))) ?L (?C(k := None)) (ss_recent_codex s) (ss_recent_codex_raw_bytes s)"
      using raw_ok_override [OF D(9), of i ?L "?C(k := None)"] lens i(1) len by simp
    from raw_ok_settle(2) [OF this refl i(2)] show ?thesis using lens [of i] i(1) by simp
  qed
  have raw: "raw_ok ?o ?L (?C(k := None)) (ss_recent_codex s) raw"
  proof (cases "\<exists>i. ca_latest c = Some i \<and> i \<in> dom (ss_recent_codex s)")
    case True
    then show ?thesis using bytes by (auto simp: raw_def)
  next
    case False
    then have "raw = ss_recent_codex_raw_bytes s" by (auto simp: raw_def split: option.split)
    moreover have "latest_len ?L (?C(k := None)) j = latest_len (ss_latest s) ?C j" if "j \<in> dom (ss_recent_codex s)" for j
      using False lens that by auto
    ultimately show ?thesis using D(9) by (simp add: raw_ok_def)
  qed
  have spines: "spines_ok S n (?C(k := None))"
  proof (cases "ca_spine c")
    case None
    then show ?thesis using spines_none [OF D(6), of k None] C by (simp add: S_def n_def field_of_def)
  next
    case (Some f)
    then obtain V where "ss_source_spines s f = Some V" using spines_views [OF D(6,2) C] by blast
    then show ?thesis using spines_remove [OF D(6,2) C Some, of V None] Some by (simp add: S_def n_def)
  qed
  have "cache_core ?o ?L ?M t"
  proof (rule core_put [OF cache_okD(1) [OF ok] r(1), where x = None])
    show "k \<notin> set (ss_queue s)" using D(10) C by auto
    show "ss_generations t = (ss_generations s)(k \<mapsto> r\<lparr>gr_cached := None\<rparr>)" by (simp add: t_def)
    show "lru_ok (ss_cache_order t) (ss_cache_clock t) ((owner_touch ?C
        (ss_carried_owners s) (ss_catalog_owners s) (ss_review_inputs s)) (Generation k := map_option ca_touched None))"
      using lru_drop [OF D(3), of "Generation k"] C by (simp add: t_def)
    show "alias_ok ?L ((field_of ca_latest ?C)(k := Option.bind None ca_latest))"
      using alias_drop [OF D(4), of k] D(4) C by (cases "ca_latest c") (simp_all add: field_of_at)
    show "alias_ok ?M ((field_of ca_classified ?C)(k := Option.bind None ca_classified))"
      using alias_drop [OF D(5), of k] D(5) C by (cases "ca_classified c") (simp_all add: field_of_at)
  qed (use spines raw in \<open>simp_all add: t_def\<close>)
  moreover have at: "cached_at t = (cached_at s)(k := None)" by (simp add: t_def cached_at_map)
  moreover have "used_but {} t" using cache_okD(2) [OF ok] by (simp add: used_but_def at)
  ultimately have ok_t: "cache_ok t" by (simp add: cache_ok_def t_def)
  have order: "(ca_touched c, Generation k) \<in> ss_cache_order s" using lru_order [OF D(3)] C by simp
  have view: "remove_source_view (ca_snapshot c) u = Some (u\<lparr>ss_source_spines := S, ss_source_view_nodes := n\<rparr>)"
    if u: "ca_spine c = Some f" "ss_source_spines u = ss_source_spines s" "ss_source_view_nodes u = ss_source_view_nodes s" for u f
  proof -
    obtain V where "ss_source_spines s f = Some V" "view_of (ca_snapshot c) \<in> V" "0 < ss_source_view_nodes s"
      using spines_views [OF D(6,2) C u(1)] by blast
    then show ?thesis using u keyedD(3) [OF D(2) C u(1)] by (simp add: remove_source_view_eq S_def n_def)
  qed
  have "evict_generation strong k s = Some (if strong (Generation k) = 1 then notify_death k t else t)"
  proof -
    let ?a = "s\<lparr>ss_generations := (ss_generations s)(k \<mapsto> r\<lparr>gr_cached := None\<rparr>),
      ss_cache_order := ss_cache_order s - {(ca_touched c, Generation k)}\<rparr>"
    let ?b = "?a\<lparr>ss_latest := ?L, ss_recent_codex_raw_bytes := raw\<rparr>"
    have "evict_latest k c ?a = Some ?b"
      using latest bytes by (cases "ca_latest c") (auto simp: evict_latest_def raw_def raw_bytes_sub_def Let_def)
    moreover have "evict_view c ?b = Some (?b\<lparr>ss_source_spines := S, ss_source_view_nodes := n\<rparr>)"
      using view by (cases "ca_spine c") (auto simp: evict_view_def S_def n_def)
    moreover have "evict_classified k c u = Some (u\<lparr>ss_classified := ?M\<rparr>)" if "ss_classified u = ss_classified s" for u
      using classified that by (cases "ca_classified c") (auto simp: evict_classified_def)
    ultimately show ?thesis
      using c r order unfolding evict_generation_def by (simp add: put_cached_eq order_remove_eq t_def)
  qed
  moreover have "cache_ok (notify_death k t)" using notify_ok [OF ok_t] at by simp
  moreover have "cached_at (notify_death k t) = cached_at t" by (simp add: notify_death_def cached_at_map)
  ultimately show ?thesis using ok_t at by (auto simp: notify_death_def t_def)
qed

end
