(* ===== verification/CacheProps.thy ===== *)
theory CacheProps
  imports CacheEvict
begin

text \<open>
  Eviction and admission, the cache as a transition system from the empty store, and its properties.
\<close>

lemma remove_aliases_eq:
  "distinct ls \<Longrightarrow> (\<And>l. l \<in> set ls \<Longrightarrow> ss_carried s l \<noteq> None) \<Longrightarrow>
   remove_aliases ls s = Some (s\<lparr>ss_carried := ss_carried s |` (- set ls)\<rparr>)"
proof (induction ls arbitrary: s)
  case (Cons l ls)
  let ?s = "s\<lparr>ss_carried := (ss_carried s)(l := None)\<rparr>"
  have "ss_carried ?s m \<noteq> None" if "m \<in> set ls" for m using Cons.prems that by auto
  then have "remove_aliases ls ?s = Some (?s\<lparr>ss_carried := ss_carried ?s |` (- set ls)\<rparr>)"
    using Cons.prems(1) by (intro Cons.IH) auto
  moreover have "(ss_carried s)(l := None) |` (- set ls) = ss_carried s |` (- set (l # ls))"
    by (rule ext) (simp add: restrict_map_eq)
  moreover obtain p where "ss_carried s l = Some p" using Cons.prems(2) [of l] by auto
  ultimately show ?case by simp
qed (simp add: restrict_map_def)

lemma carried_evict:
  assumes ok: "carried_ok A W" and w: "W p = Some w"
  shows "carried_ok (A |` (- set (cw_lineages w))) (W(p := None))"
proof (rule carried_okI)
  fix l q v
  have "l \<notin> set (cw_lineages w) \<or> l \<notin> set (cw_lineages v)" if "W q = Some v" "q \<noteq> p" for l q v
    using carried_lookup [OF ok, of l] that w by (metis option.inject)
  then show "(A |` (- set (cw_lineages w))) l = Some q \<longleftrightarrow> (\<exists>v. (W(p := None)) q = Some v \<and> l \<in> set (cw_lineages v))"
    using carried_lookup [OF ok, of l q] w by (cases "q = p") (auto simp: restrict_map_eq)
  show "cw_lineages v \<noteq> [] \<and> distinct (cw_lineages v)" if "(W(p := None)) q = Some v"
    using carried_lineages [OF ok, of q v] that by (auto split: if_splits)
qed

lemma order_touch:
  "cache_ok s \<Longrightarrow> (t, w) \<in> ss_cache_order s \<longleftrightarrow>
     owner_touch (cached_at s) (ss_carried_owners s) (ss_catalog_owners s) (ss_review_inputs s) w = Some t"
  using lru_order [OF coreD(3) [OF cache_okD(1)], of s t w] by (simp add: cached_at_map)

lemma evict_ok:
  assumes ok: "cache_ok s" and w: "(t, w) \<in> ss_cache_order s"
  shows "\<exists>s'. evict_cache_owner strong w s = Some s' \<and> cache_ok s' \<and>
    ss_cache_order s' = ss_cache_order s - {(t, w)} \<and> ss_cache_clock s' = ss_cache_clock s"
proof -
  note D = coreD [OF cache_okD(1) [OF ok]]
  have drained: ?thesis
    if "evict_cache_owner strong w s = drain u" "cache_ok u" "ss_cache_order u = ss_cache_order s - {(t, w)}"
      "ss_cache_clock u = ss_cache_clock s" for u
    using drain_ok [OF that(2)] that by auto
  have touch: "owner_touch (cached_at s) (ss_carried_owners s) (ss_catalog_owners s) (ss_review_inputs s) w = Some t"
    using order_touch [OF ok] w by blast
  show ?thesis
  proof (cases w)
    case (Generation k)
    then obtain c where c: "cached_at s k = Some c" "ca_touched c = t" using touch by auto
    obtain u where u: "evict_generation strong k s = Some u" "cache_ok u"
      "ss_cache_order u = ss_cache_order s - {(t, w)}" "ss_cache_clock u = ss_cache_clock s"
      using evict_generation_ok [OF ok c(1), of strong] c(2) Generation by blast
    then show ?thesis using Generation by (intro drained [of u]) (simp_all add: evict_cache_owner_def)
  next
    case (Carried p)
    then obtain o' where o: "ss_carried_owners s p = Some o'" "cw_touched o' = t" using touch by auto
    have lines: "distinct (cw_lineages o')" using carried_lineages [OF D(7) o(1)] by blast
    have present: "ss_carried s l \<noteq> None" if "l \<in> set (cw_lineages o')" for l
      using carried_lookup [OF D(7), of l p] o(1) that by auto
    let ?u = "s\<lparr>ss_carried_owners := (ss_carried_owners s)(p := None), ss_cache_order := ss_cache_order s - {(t, w)},
      ss_carried := ss_carried s |` (- set (cw_lineages o'))\<rparr>"
    have "cache_ok ?u"
      using lru_drop [OF D(3), of "Carried p" t] o D(8) carried_evict [OF D(7) o(1)] Carried
      by (intro core_owners [OF ok]) simp_all
    moreover have "evict_cache_owner strong w s = drain ?u"
      using Carried o w lines present
      by (simp add: evict_cache_owner_def order_remove_eq remove_aliases_eq)
    ultimately show ?thesis by (intro drained [of ?u]) simp_all
  next
    case (Catalog q)
    then obtain o' where o: "ss_catalog_owners s q = Some o'" "co_touched o' = t" using touch by auto
    have slot: "ss_catalogs s (co_key o') = Some q" using D(8) o(1) by (simp add: alias_lookup field_of_def)
    obtain u where u: "remove_catalog (co_key o') s = Some (Some q, u)" "cache_ok u" "ss_cache_order u = ss_cache_order s - {(t, w)}"
      using remove_catalog_ok [OF ok, of "co_key o'"] slot o Catalog by fastforce
    have "ss_cache_clock u = ss_cache_clock s"
      using u(1) slot o(1)
      by (auto simp: remove_catalog_def detach_catalog_owner_def order_remove_def check_that_def
        split: Option.bind_splits if_splits)
    then show ?thesis using u Catalog o(1) by (intro drained [of u]) (simp_all add: evict_cache_owner_def)
  next
    case (Review e)
    then have e: "ss_review_inputs s e = Some t" using touch by simp
    let ?u = "s\<lparr>ss_review_inputs := (ss_review_inputs s)(e := None), ss_cache_order := ss_cache_order s - {(t, w)}\<rparr>"
    have "evict_cache_owner strong w s = drain ?u" using Review e w by (simp add: evict_cache_owner_def order_remove_eq)
    then show ?thesis using review_drop_ok(2) [OF ok e] Review by (intro drained [of ?u]) simp_all
  qed
qed

lemma available_total:
  assumes ok: "cache_ok s" and w: "(t, w) \<in> ss_cache_order s"
  shows "available strong s w \<noteq> None"
proof -
  note D = coreD [OF cache_okD(1) [OF ok]]
  have touch: "owner_touch (cached_at s) (ss_carried_owners s) (ss_catalog_owners s) (ss_review_inputs s) w = Some t"
    using order_touch [OF ok] w by blast
  show ?thesis
  proof (cases w)
    case (Carried p)
    then obtain o' where o: "ss_carried_owners s p = Some o'" using touch by auto
    then have "cw_lineages o' \<noteq> []" using carried_lineages [OF D(7) o] by blast
    moreover from this have "ss_carried s (hd (cw_lineages o')) = Some p" using carried_lookup [OF D(7)] o by auto
    ultimately show ?thesis using Carried o by (simp add: available_def)
  next
    case (Catalog q)
    then obtain o' where o: "ss_catalog_owners s q = Some o'" using touch by auto
    then have "ss_catalogs s (co_key o') = Some q" using D(8) by (simp add: alias_lookup field_of_def)
    then show ?thesis using Catalog o by (simp add: available_def)
  qed (use touch in \<open>auto simp: available_def\<close>)
qed

lemma order_finite: "cache_ok s \<Longrightarrow> finite (ss_cache_order s)"
  using lru_finite [OF coreD(3) [OF cache_okD(1)]] by blast

lemma victim_eq:
  assumes ok: "cache_ok s"
  shows "next_cache_victim strong s = Some (map_option snd
    (find (\<lambda>(t, w). available strong s w = Some True) (sorted_list_of_set (ss_cache_order s))))"
proof -
  have "find_checked (\<lambda>(t, w). available strong s w) (sorted_list_of_set (ss_cache_order s)) =
      Some (find (\<lambda>x. (\<lambda>(t, w). available strong s w) x = Some True) (sorted_list_of_set (ss_cache_order s)))"
    using available_total [OF ok] order_finite [OF ok] by (intro find_checked_total) auto
  then show ?thesis by (simp add: next_cache_victim_def case_prod_unfold)
qed

lemma victim_least:
  assumes ok: "cache_ok s" and v: "next_cache_victim strong s = Some (Some w)"
  shows "\<exists>t. (t, w) \<in> ss_cache_order s \<and> available strong s w = Some True \<and>
    (\<forall>t' w'. (t', w') \<in> ss_cache_order s \<longrightarrow> available strong s w' = Some True \<longrightarrow> t \<le> t')"
proof -
  let ?xs = "sorted_list_of_set (ss_cache_order s)" and ?P = "\<lambda>(t, w). available strong s w = Some True"
  obtain t where "find ?P ?xs = Some (t, w)" using v victim_eq [OF ok, of strong] by auto
  then obtain i where i: "i < length ?xs" "available strong s w = Some True" "?xs ! i = (t, w)" "\<forall>j<i. \<not> ?P (?xs ! j)"
    by (auto simp: find_Some_iff)
  have mem: "(t, w) \<in> ss_cache_order s" using nth_mem [OF i(1)] i(3) order_finite [OF ok] by simp
  have "t \<le> t'" if a: "(t', w') \<in> ss_cache_order s" "available strong s w' = Some True" for t' w'
  proof -
    have "(t', w') \<in> set ?xs" using a(1) order_finite [OF ok] by simp
    then obtain j where j: "j < length ?xs" "?xs ! j = (t', w')" by (auto simp: in_set_conv_nth)
    then have "i \<le> j" using i(4) a(2) by (metis (mono_tags, lifting) case_prod_conv not_le)
    then have "?xs ! i \<le> ?xs ! j" using j(1) by (intro sorted_nth_mono) simp_all
    then show ?thesis using i(3) j(2) by (simp add: less_eq_prod_def) (metis order.order_iff_strict)
  qed
  then show ?thesis using mem i(2) by blast
qed

lemma victim_none:
  assumes ok: "cache_ok s" and v: "next_cache_victim strong s = Some None" and w: "(t, w) \<in> ss_cache_order s"
  shows "available strong s w = Some False"
proof -
  have "find (\<lambda>(t, w). available strong s w = Some True) (sorted_list_of_set (ss_cache_order s)) = None"
    using v victim_eq [OF ok, of strong] by simp
  then have "available strong s w \<noteq> Some True" using w order_finite [OF ok] by (auto simp: find_None_iff)
  then show ?thesis using available_total [OF ok w, of strong] by (cases "available strong s w") auto
qed

lemma evict_until_returns:
  assumes "cache_ok s"
  shows "\<exists>s'. evict_until strong gauge additional cap s = Some s' \<and> cache_ok s' \<and>
    ss_cache_order s' \<subseteq> ss_cache_order s \<and> ss_cache_clock s' = ss_cache_clock s \<and>
    (sat_add (gauge s') additional \<le> cap \<or> next_cache_victim (strong s') s' = Some None)"
  using assms
proof (induction "card (ss_cache_order s)" arbitrary: s rule: less_induct)
  case less
  show ?case
  proof (cases "cap < sat_add (gauge s) additional")
    case False
    then show ?thesis using less.prems by (simp add: evict_until.simps)
  next
    case full: True
    obtain v where v: "next_cache_victim (strong s) s = Some v" using victim_eq [OF less.prems] by blast
    show ?thesis
    proof (cases v)
      case None
      then show ?thesis using full v less.prems by (simp add: evict_until.simps)
    next
      case (Some w)
      obtain t where t: "(t, w) \<in> ss_cache_order s" using victim_least [OF less.prems] v Some by blast
      obtain u where u: "evict_cache_owner (strong s) w s = Some u" "cache_ok u"
        "ss_cache_order u = ss_cache_order s - {(t, w)}" "ss_cache_clock u = ss_cache_clock s"
        using evict_ok [OF less.prems t, of "strong s"] by blast
      have "card (ss_cache_order u) < card (ss_cache_order s)"
        unfolding u(3) using order_finite [OF less.prems] t by (rule card_Diff1_less)
      from less.hyps [OF this u(2)] show ?thesis
        using full v Some u(1,3,4) by (auto simp: evict_until.simps [of strong gauge additional cap s])
    qed
  qed
qed

subsection \<open>The cache as a transition system\<close>

text \<open>The operations the store performs under its lock, and the steps of its environment: a
  generation is registered, the last reference to one is dropped.\<close>

datatype cache_op =
    LatestSource source_identity
  | SourceSpine source_stamp
  | InsertLatest source_identity transcript_snapshot
  | RemoveLatest source_identity
  | ForgetSpine source_identity transcript_snapshot
  | InsertClassified string transcript_snapshot
  | ClassifiedSource string
  | InsertCarried "source_identity \<times> string" nat
  | RemoveCarried "source_identity \<times> string"
  | CarriedUse "source_identity \<times> string"
  | CatalogSlot string nat
  | RemoveCatalog string
  | TakeReview "nat list"
  | PublishReview "nat list"
  | InsertRecent source_identity nat
  | RemoveRecent source_identity
  | Register transcript_snapshot
  | Unregister nat
  | Death nat
  | Drain
  | MakeRoom "store_state \<Rightarrow> cache_owner \<Rightarrow> nat" "store_state \<Rightarrow> nat" nat nat

fun run_op :: "cache_op \<Rightarrow> store_state \<Rightarrow> store_state option" where
  "run_op (LatestSource i) s = map_option snd (latest_source i s)"
| "run_op (SourceSpine stamp) s = map_option snd (source_spine stamp s)"
| "run_op (InsertLatest i snap) s = map_option snd (insert_latest i snap s)"
| "run_op (RemoveLatest i) s = map_option snd (remove_latest i s)"
| "run_op (ForgetSpine i snap) s = forget_source_spine i snap s"
| "run_op (InsertClassified n snap) s = insert_classified n snap s"
| "run_op (ClassifiedSource n) s = map_option snd (classified_source n s)"
| "run_op (InsertCarried l p) s = insert_carried l p s"
| "run_op (RemoveCarried l) s = remove_carried l s"
| "run_op (CarriedUse l) s = map_option snd (carried_use l s)"
| "run_op (CatalogSlot n fresh) s = map_option snd (catalog_slot n fresh s)"
| "run_op (RemoveCatalog n) s = map_option snd (remove_catalog n s)"
| "run_op (TakeReview e) s = take_review_input e s"
| "run_op (PublishReview e) s = publish_review_input e s"
| "run_op (InsertRecent i now) s = insert_recent_codex i now s"
| "run_op (RemoveRecent i) s = remove_recent_codex i s"
| "run_op (Register snap) s = Some (register_generation snap s)"
| "run_op (Unregister k) s = unregister_generation k s"
| "run_op (Death k) s = Some (notify_death k s)"
| "run_op Drain s = drain s"
| "run_op (MakeRoom strong gauge additional cap) s = map_option snd (admit_background strong gauge additional cap s)"

text \<open>What a caller owes: it holds the \<open>Arc\<close> it passes, of a registered snapshot of the source it
  names, and a snapshot is published under one identity and one name. An address is fresh
  when it is allocated.\<close>

fun op_allowed :: "cache_op \<Rightarrow> store_state \<Rightarrow> bool" where
  "op_allowed (InsertLatest i snap) s \<longleftrightarrow> live s snap \<and> identity_file i = snapshot_file snap \<and>
     (field_of ca_latest (cached_at s) (ts_key snap) = None \<or> field_of ca_latest (cached_at s) (ts_key snap) = Some i)"
| "op_allowed (ForgetSpine i snap) s \<longleftrightarrow> map_option gr_snapshot (ss_generations s (ts_key snap)) = Some snap"
| "op_allowed (InsertClassified n snap) s \<longleftrightarrow> live s snap \<and>
     (field_of ca_classified (cached_at s) (ts_key snap) = None \<or> field_of ca_classified (cached_at s) (ts_key snap) = Some n)"
| "op_allowed (CatalogSlot n fresh) s \<longleftrightarrow> ss_catalog_owners s fresh = None"
| "op_allowed (PublishReview e) s \<longleftrightarrow> ss_review_inputs s e = None"
| "op_allowed (Register snap) s \<longleftrightarrow> (case ss_generations s (ts_key snap) of None \<Rightarrow> True | Some r \<Rightarrow> gr_snapshot r = snap)"
| "op_allowed (Unregister k) s \<longleftrightarrow> cached_at s k = None"
| "op_allowed (Death k) s \<longleftrightarrow> cached_at s k = None"
| "op_allowed _ s \<longleftrightarrow> True"

inductive cache_reaches :: "store_state \<Rightarrow> bool" where
  reaches_new: "cache_reaches store_new"
| reaches_step: "cache_reaches s \<Longrightarrow> op_allowed op s \<Longrightarrow> ss_cache_clock s + 1 < 2 ^ 64 \<Longrightarrow> run_op op s = Some s' \<Longrightarrow>
    cache_reaches s'"

lemma run_op_ok:
  assumes ok: "cache_ok s" and allowed: "op_allowed op s" and clock: "ss_cache_clock s + 1 < 2 ^ 64"
  shows "\<exists>s'. run_op op s = Some s' \<and> cache_ok s'"
proof (cases op)
  case (LatestSource i)
  then show ?thesis using latest_source_ok [OF ok clock, of i] by auto
next
  case (SourceSpine stamp)
  then show ?thesis using source_spine_ok [OF ok clock, of stamp] by auto
next
  case (InsertLatest i snap)
  then show ?thesis using insert_latest_ok [OF ok, of snap i] allowed clock by auto
next
  case (RemoveLatest i)
  then show ?thesis using remove_latest_ok [OF ok, of i] by auto
next
  case (ForgetSpine i snap)
  then show ?thesis using forget_ok [OF ok, of snap i] allowed by auto
next
  case (InsertClassified n snap)
  then show ?thesis using insert_classified_ok [OF ok, of snap n] allowed clock by auto
next
  case (ClassifiedSource n)
  then show ?thesis using classified_source_ok [OF ok clock, of n] by auto
next
  case (InsertCarried l p)
  then show ?thesis using insert_carried_ok [OF ok clock] by auto
next
  case (RemoveCarried l)
  then show ?thesis using remove_carried_ok [OF ok] by auto
next
  case (CarriedUse l)
  then show ?thesis using carried_use_ok [OF ok clock, of l] by auto
next
  case (CatalogSlot n fresh)
  then show ?thesis using catalog_slot_ok [OF ok clock, of fresh n] allowed by (auto simp: dom_def)
next
  case (RemoveCatalog n)
  then show ?thesis using remove_catalog_ok [OF ok, of n] by auto
next
  case (TakeReview e)
  then show ?thesis using take_review_ok [OF ok] by auto
next
  case (PublishReview e)
  then show ?thesis using publish_review_ok [OF ok clock] allowed by auto
next
  case (InsertRecent i now)
  then show ?thesis using insert_recent_ok [OF ok] by auto
next
  case (RemoveRecent i)
  then show ?thesis using remove_recent_ok [OF ok] by auto
next
  case (Register snap)
  have "gr_snapshot r = snap" if "ss_generations s (ts_key snap) = Some r" for r using allowed Register that by simp
  then show ?thesis using register_ok [OF ok, of snap] Register by simp
next
  case (Unregister k)
  then show ?thesis using unregister_ok [OF ok] allowed by auto
next
  case (Death k)
  then show ?thesis using notify_ok [OF ok] allowed by auto
next
  case Drain
  then show ?thesis using drain_ok [OF ok] by auto
next
  case (MakeRoom strong gauge additional cap)
  then show ?thesis using evict_until_returns [OF ok, of strong gauge additional cap]
    by (auto simp: admit_background_def)
qed

lemma reaches_ok: "cache_reaches s \<Longrightarrow> cache_ok s"
proof (induction rule: cache_reaches.induct)
  case reaches_new
  then show ?case by (rule store_new_ok)
next
  case (reaches_step s op s')
  then show ?case using run_op_ok [of s op] by auto
qed

text \<open>A concrete history: a snapshot is registered and published; a review input is published.\<close>

definition sample_identity :: source_identity where
  "sample_identity = \<lparr>si_device = 1, si_inode = 2, si_window_base = 0\<rparr>"

definition sample_snapshot :: transcript_snapshot where
  "sample_snapshot = \<lparr>ts_key = 16,
     ts_stamp = \<lparr>st_identity = sample_identity, st_size = 100, st_mtime_ns = 5, st_ctime_ns = 5\<rparr>,
     ts_provider = ProviderClaude, ts_window_start = 0, ts_committed_bytes = 100, ts_event_count = 3, ts_codex_raw = None\<rparr>"

definition sample_registered :: store_state where
  "sample_registered = register_generation sample_snapshot store_new"

definition sample_review :: store_state where
  "sample_review = store_new\<lparr>ss_cache_clock := 1, ss_cache_order := {(1, Review [7])}, ss_review_inputs := [[7] \<mapsto> 1]\<rparr>"

lemma sample_registered_reached: "cache_reaches sample_registered"
  unfolding sample_registered_def
  by (rule reaches_step [OF reaches_new, of "Register sample_snapshot"]) (simp_all add: store_new_def)

lemma sample_review_reached: "cache_reaches sample_review"
  by (rule reaches_step [OF reaches_new, of "PublishReview [7]"])
    (simp_all add: store_new_def sample_review_def publish_review_input_def next_cache_touch_def order_insert_def)

lemma sample_publish_allowed: "op_allowed (InsertLatest sample_identity sample_snapshot) sample_registered"
  by (simp add: sample_registered_def sample_snapshot_def register_generation_def live_def store_new_def identity_file_def
    snapshot_file_def field_of_def cached_at_def)

text \<open>C17: The cache never panics. From the empty store, through any history of lookups, publications,
  removals, deaths, drains and evictions whose callers keep their side of the contract, every
  further operation completes: no \<open>expect\<close> or \<open>assert\<close> of the cache fails, no counter underflows
  and no loop runs on, as long as the clock of touches is below its 64 bits.\<close>

theorem cache_never_panics:
  assumes "cache_reaches s" "op_allowed op s" "ss_cache_clock s + 1 < 2 ^ 64"
  shows "\<exists>s'. run_op op s = Some s' \<and> cache_reaches s'"
  using run_op_ok [OF reaches_ok] reaches_step assms by meson

theorem cache_never_panics_witness:
  "\<exists>s'. run_op (InsertLatest sample_identity sample_snapshot) sample_registered = Some s' \<and> cache_reaches s'"
  by (rule cache_never_panics [OF sample_registered_reached sample_publish_allowed])
    (simp add: sample_registered_def register_generation_def store_new_def)

text \<open>C18: The indexes of the cache agree in every reachable state. The order of use holds one entry per
  owner, at its last touch, and no two owners share a touch; the tables of latest and of
  classified snapshots and of catalogs invert the fields of the entries they point to; a source
  view is listed under its file exactly when its entry says so, and the views are counted
  right; an alias of a carried classification is one its owner lists; the raw bytes of the
  recent codex sources are the sum over them; nothing is cached that no index refers to.\<close>

theorem cache_indexes_agree:
  assumes "cache_reaches s"
  shows "((t, w) \<in> ss_cache_order s \<longleftrightarrow>
      owner_touch (cached_at s) (ss_carried_owners s) (ss_catalog_owners s) (ss_review_inputs s) w = Some t) \<and>
    inj_on fst (ss_cache_order s) \<and>
    (ss_latest s i = Some k \<longleftrightarrow> (\<exists>c. cached_at s k = Some c \<and> ca_latest c = Some i)) \<and>
    (ss_classified s n = Some k \<longleftrightarrow> (\<exists>c. cached_at s k = Some c \<and> ca_classified c = Some n)) \<and>
    (ss_catalogs s n = Some k \<longleftrightarrow> (\<exists>o'. ss_catalog_owners s k = Some o' \<and> co_key o' = n)) \<and>
    (ss_carried s l = Some k \<longleftrightarrow> (\<exists>o'. ss_carried_owners s k = Some o' \<and> l \<in> set (cw_lineages o'))) \<and>
    (v \<in> opt_default {} (ss_source_spines s f) \<longleftrightarrow>
      (\<exists>c. cached_at s (sv_generation v) = Some c \<and> ca_spine c = Some f \<and> v = view_of (ca_snapshot c))) \<and>
    ss_source_view_nodes s = card {k. \<exists>c. cached_at s k = Some c \<and> ca_spine c \<noteq> None} \<and>
    ss_recent_codex_raw_bytes s = (\<Sum>i\<in>dom (ss_recent_codex s). the (latest_raw_bytes i s)) \<and>
    (cached_at s k = Some c \<longrightarrow> ca_latest c \<noteq> None \<or> ca_spine c \<noteq> None \<or> ca_classified c \<noteq> None)"
proof -
  have ok: "cache_ok s" by (rule reaches_ok [OF assms])
  note D = coreD [OF cache_okD(1) [OF ok]]
  have "inj_on fst (ss_cache_order s)"
    using D(3) by (auto simp: lru_ok_def inj_on_def)
  moreover have "spine_nodes (cached_map (ss_generations s)) = {k. \<exists>c. cached_at s k = Some c \<and> ca_spine c \<noteq> None}"
    by (auto simp: spine_nodes_def field_of_def cached_at_map split: Option.bind_splits)
  then have "ss_source_view_nodes s = card {k. \<exists>c. cached_at s k = Some c \<and> ca_spine c \<noteq> None}"
    using D(6) by (simp add: spines_ok_def)
  moreover have "ss_recent_codex_raw_bytes s = (\<Sum>i\<in>dom (ss_recent_codex s). the (latest_raw_bytes i s))"
    using D(9) by (simp add: raw_ok_def latest_raw_bytes_eq [OF ok])
  moreover have "cached_at s k = Some c \<longrightarrow> ca_latest c \<noteq> None \<or> ca_spine c \<noteq> None \<or> ca_classified c \<noteq> None"
    using cache_okD(2) [OF ok] unfolding used_but_def in_use_def by blast
  moreover have "ss_catalogs s n = Some k \<longleftrightarrow> (\<exists>o'. ss_catalog_owners s k = Some o' \<and> co_key o' = n)"
    using D(8) by (auto simp: alias_lookup field_of_def split: Option.bind_splits)
  moreover have "ss_latest s i = Some k \<longleftrightarrow> (\<exists>c. cached_at s k = Some c \<and> ca_latest c = Some i)"
    "ss_classified s n = Some k \<longleftrightarrow> (\<exists>c. cached_at s k = Some c \<and> ca_classified c = Some n)"
    using D(4,5) by (auto simp: alias_lookup field_of_def cached_at_map split: Option.bind_splits)
  ultimately show ?thesis
    using order_touch [OF ok] carried_lookup [OF D(7)] spines_mem [OF D(6)] unfolding cached_at_map by blast
qed

theorem cache_indexes_agree_witness:
  "(1, Review [7]) \<in> ss_cache_order sample_review \<longleftrightarrow>
     owner_touch (cached_at sample_review) (ss_carried_owners sample_review) (ss_catalog_owners sample_review)
       (ss_review_inputs sample_review) (Review [7]) = Some 1"
  using cache_indexes_agree [OF sample_review_reached] by blast

text \<open>C19: The victim of an eviction is the least recently used owner that nothing outside the cache
  holds, and evicting it takes that owner, and no other, out of the order of use.\<close>

theorem eviction_least_recent:
  assumes "cache_reaches s" "next_cache_victim strong s = Some (Some w)"
  shows "\<exists>t s'. (t, w) \<in> ss_cache_order s \<and> available strong s w = Some True \<and>
    (\<forall>t' w'. (t', w') \<in> ss_cache_order s \<longrightarrow> available strong s w' = Some True \<longrightarrow> t \<le> t') \<and>
    evict_cache_owner strong w s = Some s' \<and> ss_cache_order s' = ss_cache_order s - {(t, w)}"
  using victim_least [OF reaches_ok [OF assms(1)] assms(2)] evict_ok [OF reaches_ok [OF assms(1)]] by metis

theorem eviction_least_recent_witness:
  "\<exists>t s'. (t, Review [7]) \<in> ss_cache_order sample_review \<and>
    evict_cache_owner (\<lambda>_. 1) (Review [7]) sample_review = Some s' \<and>
    ss_cache_order s' = ss_cache_order sample_review - {(t, Review [7])}"
proof -
  have "next_cache_victim (\<lambda>_. 1) sample_review = Some (Some (Review [7]))"
    by (simp add: next_cache_victim_def sample_review_def available_def)
  from eviction_least_recent [OF sample_review_reached this] show ?thesis by blast
qed

text \<open>C20: Making room ends. Admitting memory evicts until the accounted total fits under the cap, and is
  refused only when no owner is left that could be evicted, whatever the gauge and the
  reference counts read along the way.\<close>

theorem making_room_settles:
  assumes "cache_reaches s"
  shows "\<exists>r s'. admit_background strong gauge additional cap s = Some (r, s') \<and> ss_cache_order s' \<subseteq> ss_cache_order s \<and>
    (case r of
       Admitted \<Rightarrow> sat_add (gauge s') additional \<le> cap
     | RetainedLimit \<Rightarrow> cap < sat_add (gauge s') additional \<and>
         (\<forall>(t, w)\<in>ss_cache_order s'. available (strong s') s' w = Some False))"
proof -
  obtain s' where s': "evict_until strong gauge additional cap s = Some s'" "cache_ok s'" "ss_cache_order s' \<subseteq> ss_cache_order s"
    "sat_add (gauge s') additional \<le> cap \<or> next_cache_victim (strong s') s' = Some None"
    using evict_until_returns [OF reaches_ok [OF assms], of strong gauge additional cap] by blast
  then show ?thesis
    using victim_none [OF s'(2), of "strong s'"] by (auto simp: admit_background_def not_less not_le)
qed

theorem making_room_settles_witness:
  "\<exists>r s'. admit_background (\<lambda>_ _. 1) (\<lambda>s. if ss_review_inputs s [7] = None then 0 else 10) 1 5 sample_review = Some (r, s')"
  using making_room_settles [OF sample_review_reached] by blast

text \<open>What is published is found. Publishing a snapshot as the latest of its source returns the one a
  lookup gave before, and the next lookup gives the snapshot published.\<close>

theorem published_latest_found:
  assumes "cache_reaches s" "op_allowed (InsertLatest i snap) s" "ss_cache_clock s + 2 < 2 ^ 64"
  shows "\<exists>before s0 s' s''. latest_source i s = Some (before, s0) \<and> insert_latest i snap s = Some (before, s') \<and>
    latest_source i s' = Some (Some snap, s'')"
proof -
  have ok: "cache_ok s" by (rule reaches_ok [OF assms(1)])
  obtain s0 where s0: "latest_source i s = Some (displaced i s, s0)"
    using latest_source_ok [OF ok, of i] assms(3) by auto
  obtain s' c where s': "insert_latest i snap s = Some (displaced i s, s')" "cache_ok s'" "publishing i snap c s'"
    "ss_latest s' i = Some (ts_key snap)" "ss_cache_clock s' = Suc (ss_cache_clock s)"
    using insert_latest_ok [OF ok, of snap i] assms(2,3) by auto
  have "displaced i s' = Some snap" using s'(3,4) by (simp add: displaced_def publishing_def)
  moreover obtain s'' where "latest_source i s' = Some (displaced i s', s'')"
    using latest_source_ok [OF s'(2), of i] s'(5) assms(3) by auto
  ultimately show ?thesis using s0 s'(1) by auto
qed

theorem published_latest_found_witness:
  "\<exists>before s0 s' s''. latest_source sample_identity sample_registered = Some (before, s0) \<and>
     insert_latest sample_identity sample_snapshot sample_registered = Some (before, s') \<and>
     latest_source sample_identity s' = Some (Some sample_snapshot, s'')"
  by (rule published_latest_found [OF sample_registered_reached sample_publish_allowed])
    (simp add: sample_registered_def register_generation_def store_new_def)

end
