(* ===== verification/Codex.thy ===== *)
theory Codex
  imports Parse
begin

text \<open>
  \<open>codex/types.rs\<close>, \<open>codex/protocol.rs\<close> and \<open>codex/parse.rs\<close>: the line-by-line parse of a codex
  rollout. Every non-blank line gives one entry, a line that is not JSON included. A decoded
  line goes through the record of the other crates, as in the transcript parser.
\<close>

subsection \<open>The types\<close>

record codex_other =
  xo_ty :: "string option"
  xo_raw :: string

record session_meta =
  sm_raw :: json
  sm_id :: "string option"
  sm_session_id :: "string option"
  sm_parent_thread_id :: "string option"
  sm_forked_from_id :: "string option"
  sm_thread_source :: "string option"
  sm_cwd :: "string option"
  sm_originator :: "string option"
  sm_cli_version :: "string option"
  sm_model_provider :: "string option"
  sm_agent_path :: "string option"
  sm_agent_nickname :: "string option"
  sm_agent_role :: "string option"
  sm_instructions :: "string option"
  sm_base_instructions :: "json option"
  sm_source :: "json option"
  sm_git :: "json option"

record world_state =
  ws_full :: "bool option"
  ws_state :: json

text \<open>The arguments of a constructor are the fields of the variant, in their order.\<close>

datatype response_payload =
    RMessage "string option" "json list" "string option"
  | RAgentMessage "string option" "string option" "json list"
  | RReasoning "json list" "json list option" "string option"
  | RLocalShellCall "string option" "string option" "json option"
  | RFunctionCall "string option" "string option" "string option" "string option"
  | RFunctionCallOutput "string option" json
  | RCustomToolCall "string option" "string option" "string option" "string option" "string option"
  | RCustomToolCallOutput "string option" "string option" json
  | RToolSearchCall "string option" "string option" "string option" json
  | RToolSearchOutput "string option" "string option" "string option" "json list"
  | RWebSearchCall "string option" "json option"
  | RImageGenerationCall "string option" "string option" "string option"
  | RCompaction "string option"
  | RContextCompaction "string option"
  | RGhostSnapshot json
  | ROther "string option" json

record response_item =
  ri_id :: "string option"
  ri_turn_id :: "string option"
  ri_payload :: response_payload

record compacted =
  cp_message :: "string option"
  cp_replacement_history :: "response_item list option"
  cp_window_number :: "int option"
  cp_first_window_id :: "string option"
  cp_previous_window_id :: "string option"
  cp_window_id :: "string option"

record token_usage =
  tk_input_tokens :: "int option"
  tk_cached_input_tokens :: "int option"
  tk_output_tokens :: "int option"
  tk_reasoning_output_tokens :: "int option"
  tk_total_tokens :: "int option"

record token_usage_info =
  ti_total_token_usage :: "token_usage option"
  ti_last_token_usage :: "token_usage option"
  ti_model_context_window :: "int option"

datatype event_msg =
    ETokenCount "token_usage_info option" "json option"
  | EAgentMessage "string option" "string option" "json option"
  | EUserMessage "string option" "json list option" "json option" "json option"
  | EAgentReasoning "string option"
  | EAgentReasoningRawContent "string option"
  | ETaskStarted "string option" "int option" "int option" "string option"
  | ETaskComplete "string option" "string option" "int option" "int option" "int option"
  | ETurnAborted "string option" "string option" "int option" "int option"
  | EPatchApplyEnd "string option" "string option" "string option" "bool option" "string option" "string option" "json option"
  | EContextCompacted
  | ESubAgentActivity "string option" "int option" "string option" "string option" "string option"
  | EThreadRolledBack "int option"
  | EExecCommandEnd json
  | EMcpToolCallEnd json
  | EWebSearchEnd json
  | EImageGenerationEnd json
  | EThreadSettingsApplied json
  | EItemCompleted json
  | EThreadGoalUpdated json
  | EEnteredReviewMode json
  | EExitedReviewMode json
  | EViewImageToolCall json
  | ECollabAgentSpawnEnd json
  | ECollabWaitingEnd json
  | ECollabCloseEnd json
  | EOther "string option" json

datatype codex_item =
    XSessionMeta session_meta
  | XResponseItem response_item
  | XEventMsg event_msg
  | XTurnContext json
  | XWorldState world_state
  | XCompacted compacted
  | XInterAgentCommunicationMetadata "bool option"
  | XOther codex_other

record codex_entry =
  cx_line_index :: nat
  cx_timestamp :: "datetime option"
  cx_item :: codex_item
  cx_source :: "(json \<times> nat) option"

record codex_session =
  xs_entries :: "codex_entry list"
  xs_rollout_thread_id :: "string option"
  xs_session_id :: "string option"
  xs_parent_thread_id :: "string option"
  xs_forked_from_id :: "string option"
  xs_cli_version :: "string option"
  xs_originator :: "string option"
  xs_cwd :: "string option"
  xs_instructions :: "string option"
  xs_base_instructions :: "json option"

subsection \<open>Protocol\<close>

definition INJECTION_WRAPPERS :: "string list" where
  "INJECTION_WRAPPERS = [''environment_context'', ''user_instructions'', ''skills_instructions'',
     ''plugins_instructions'', ''apps_instructions'', ''recommended_plugins'']"

definition injection_wrapper :: "string \<Rightarrow> string option" where
  "injection_wrapper text = Option.bind (strip_prefix ''<'' (lstrip text)) (\<lambda>body.
     find (\<lambda>w. is_some_and (prefix ''>'') (strip_prefix w body)) INJECTION_WRAPPERS)"

definition mcp_tool_name :: "string \<Rightarrow> string option \<Rightarrow> string option" where
  "mcp_tool_name name namespace =
     (if prefix ''mcp__'' name then Some name
      else (case namespace of
          Some ns \<Rightarrow> if ns \<noteq> [] then Some (''mcp__'' @ ns @ ''__'' @ name) else None
        | None \<Rightarrow> None))"

definition metadata_exit_code :: "json \<Rightarrow> int option" where
  "metadata_exit_code v = Option.bind (Option.bind (field v ''metadata'') (\<lambda>m. field m ''exit_code'')) as_i64"

definition output_exit_code :: "env \<Rightarrow> json \<Rightarrow> int option" where
  "output_exit_code env output = (case as_str output of
      Some text \<Rightarrow> Option.bind (e_from_str env text) metadata_exit_code
    | None \<Rightarrow> metadata_exit_code output)"

subsection \<open>Field readers\<close>

definition opt_val :: "json \<Rightarrow> string \<Rightarrow> json option" where
  "opt_val v key = opt_filter (\<lambda>x. \<not> is_null x) (field v key)"

definition array_values :: "json \<Rightarrow> string \<Rightarrow> json list" where
  "array_values v key = opt_default [] (Option.bind (field v key) as_array)"

definition opt_values :: "json \<Rightarrow> string \<Rightarrow> json list option" where
  "opt_values v key = Option.bind (field v key) as_array"

definition passthrough_turn_id :: "json \<Rightarrow> string option" where
  "passthrough_turn_id payload =
     Option.bind (field payload ''internal_chat_message_metadata_passthrough'') (\<lambda>m. field_str m ''turn_id'')"

definition or_null :: "json option \<Rightarrow> json" where
  "or_null v = opt_default JNull v"

subsection \<open>Payloads\<close>

definition parse_response_payload :: "json \<Rightarrow> response_payload" where
  "parse_response_payload p = (let ty = field_str p ''type''; s = field_str p in
     if ty = Some ''message'' then
       (if is_some_and (\<lambda>v. as_array v \<noteq> None) (field p ''content'')
        then RMessage (s ''role'') (array_values p ''content'') (s ''phase'')
        else ROther (Some ''message'') p)
     else if ty = Some ''agent_message'' then
       RAgentMessage (s ''author'') (s ''recipient'') (array_values p ''content'')
     else if ty = Some ''reasoning'' then
       RReasoning (array_values p ''summary'') (opt_values p ''content'') (s ''encrypted_content'')
     else if ty = Some ''local_shell_call'' then
       RLocalShellCall (s ''call_id'') (s ''status'') (opt_val p ''action'')
     else if ty = Some ''function_call'' then
       (if s ''call_id'' \<noteq> None \<and> s ''name'' \<noteq> None
        then RFunctionCall (s ''name'') (s ''namespace'') (s ''arguments'') (s ''call_id'')
        else ROther (Some ''function_call'') p)
     else if ty = Some ''function_call_output'' then
       (if s ''call_id'' \<noteq> None then RFunctionCallOutput (s ''call_id'') (or_null (field p ''output''))
        else ROther (Some ''function_call_output'') p)
     else if ty = Some ''custom_tool_call'' then
       (if s ''call_id'' \<noteq> None \<and> s ''name'' \<noteq> None
        then RCustomToolCall (s ''name'') (s ''namespace'') (s ''input'') (s ''status'') (s ''call_id'')
        else ROther (Some ''custom_tool_call'') p)
     else if ty = Some ''custom_tool_call_output'' then
       (if s ''call_id'' \<noteq> None then RCustomToolCallOutput (s ''call_id'') (s ''name'') (or_null (field p ''output''))
        else ROther (Some ''custom_tool_call_output'') p)
     else if ty = Some ''tool_search_call'' then
       RToolSearchCall (s ''call_id'') (s ''status'') (s ''execution'') (or_null (field p ''arguments''))
     else if ty = Some ''tool_search_output'' then
       RToolSearchOutput (s ''call_id'') (s ''status'') (s ''execution'') (array_values p ''tools'')
     else if ty = Some ''web_search_call'' then RWebSearchCall (s ''status'') (opt_val p ''action'')
     else if ty = Some ''image_generation_call'' then
       RImageGenerationCall (s ''status'') (s ''revised_prompt'') (s ''result'')
     else if ty = Some ''compaction'' \<or> ty = Some ''compaction_summary'' then RCompaction (s ''encrypted_content'')
     else if ty = Some ''context_compaction'' then RContextCompaction (s ''encrypted_content'')
     else if ty = Some ''ghost_snapshot'' then RGhostSnapshot p
     else ROther ty p)"

definition parse_response_item :: "json \<Rightarrow> response_item" where
  "parse_response_item p = \<lparr>ri_id = field_str p ''id'', ri_turn_id = passthrough_turn_id p,
     ri_payload = parse_response_payload p\<rparr>"

definition parse_token_usage :: "json \<Rightarrow> token_usage" where
  "parse_token_usage u = \<lparr>tk_input_tokens = opt_i64 u ''input_tokens'',
     tk_cached_input_tokens = opt_i64 u ''cached_input_tokens'', tk_output_tokens = opt_i64 u ''output_tokens'',
     tk_reasoning_output_tokens = opt_i64 u ''reasoning_output_tokens'', tk_total_tokens = opt_i64 u ''total_tokens''\<rparr>"

definition parse_token_info :: "json \<Rightarrow> token_usage_info" where
  "parse_token_info info = \<lparr>
     ti_total_token_usage = map_option parse_token_usage (opt_val info ''total_token_usage''),
     ti_last_token_usage = map_option parse_token_usage (opt_val info ''last_token_usage''),
     ti_model_context_window = opt_i64 info ''model_context_window''\<rparr>"

definition parse_event_msg :: "json \<Rightarrow> event_msg" where
  "parse_event_msg p = (let ty = field_str p ''type''; s = field_str p; i = opt_i64 p in
     if ty = Some ''token_count'' then
       ETokenCount (map_option parse_token_info (opt_val p ''info'')) (opt_val p ''rate_limits'')
     else if ty = Some ''agent_message'' then
       EAgentMessage (s ''message'') (s ''phase'') (opt_val p ''memory_citation'')
     else if ty = Some ''user_message'' then
       EUserMessage (s ''message'') (opt_values p ''images'') (opt_val p ''local_images'') (opt_val p ''text_elements'')
     else if ty = Some ''agent_reasoning'' then EAgentReasoning (s ''text'')
     else if ty = Some ''agent_reasoning_raw_content'' then EAgentReasoningRawContent (s ''text'')
     else if ty = Some ''task_started'' then
       ETaskStarted (s ''turn_id'') (i ''started_at'') (i ''model_context_window'') (s ''collaboration_mode_kind'')
     else if ty = Some ''task_complete'' then
       ETaskComplete (s ''turn_id'') (s ''last_agent_message'') (i ''completed_at'') (i ''duration_ms'')
         (i ''time_to_first_token_ms'')
     else if ty = Some ''turn_aborted'' then
       ETurnAborted (s ''turn_id'') (s ''reason'') (i ''completed_at'') (i ''duration_ms'')
     else if ty = Some ''patch_apply_end'' then
       EPatchApplyEnd (s ''call_id'') (s ''turn_id'') (s ''status'') (opt_bool p ''success'') (s ''stdout'') (s ''stderr'')
         (opt_val p ''changes'')
     else if ty = Some ''context_compacted'' then EContextCompacted
     else if ty = Some ''sub_agent_activity'' then
       ESubAgentActivity (s ''event_id'') (i ''occurred_at_ms'') (s ''agent_thread_id'') (s ''agent_path'') (s ''kind'')
     else if ty = Some ''thread_rolled_back'' then EThreadRolledBack (i ''num_turns'')
     else if ty = Some ''exec_command_end'' then EExecCommandEnd p
     else if ty = Some ''mcp_tool_call_end'' then EMcpToolCallEnd p
     else if ty = Some ''web_search_end'' then EWebSearchEnd p
     else if ty = Some ''image_generation_end'' then EImageGenerationEnd p
     else if ty = Some ''thread_settings_applied'' then EThreadSettingsApplied p
     else if ty = Some ''item_completed'' then EItemCompleted p
     else if ty = Some ''thread_goal_updated'' then EThreadGoalUpdated p
     else if ty = Some ''entered_review_mode'' then EEnteredReviewMode p
     else if ty = Some ''exited_review_mode'' then EExitedReviewMode p
     else if ty = Some ''view_image_tool_call'' then EViewImageToolCall p
     else if ty = Some ''collab_agent_spawn_end'' then ECollabAgentSpawnEnd p
     else if ty = Some ''collab_waiting_end'' then ECollabWaitingEnd p
     else if ty = Some ''collab_close_end'' then ECollabCloseEnd p
     else EOther ty p)"

definition parse_session_meta :: "json \<Rightarrow> session_meta" where
  "parse_session_meta p = (let s = field_str p in \<lparr>sm_raw = p, sm_id = s ''id'', sm_session_id = s ''session_id'',
     sm_parent_thread_id = s ''parent_thread_id'', sm_forked_from_id = s ''forked_from_id'',
     sm_thread_source = s ''thread_source'', sm_cwd = s ''cwd'', sm_originator = s ''originator'',
     sm_cli_version = s ''cli_version'', sm_model_provider = s ''model_provider'', sm_agent_path = s ''agent_path'',
     sm_agent_nickname = s ''agent_nickname'', sm_agent_role = s ''agent_role'', sm_instructions = s ''instructions'',
     sm_base_instructions = opt_val p ''base_instructions'', sm_source = opt_val p ''source'', sm_git = opt_val p ''git''\<rparr>)"

definition parse_compacted :: "json \<Rightarrow> compacted" where
  "parse_compacted p = \<lparr>cp_message = field_str p ''message'',
     cp_replacement_history = map_option (map parse_response_item) (opt_values p ''replacement_history''),
     cp_window_number = opt_i64 p ''window_number'', cp_first_window_id = field_str p ''first_window_id'',
     cp_previous_window_id = field_str p ''previous_window_id'', cp_window_id = field_str p ''window_id''\<rparr>"

subsection \<open>Lines\<close>

text \<open>\<open>String::from_utf8_lossy\<close>: a maximal ill-formed prefix becomes U+FFFD.\<close>

definition REPLACEMENT :: string where
  "REPLACEMENT = [byte 239, byte 191, byte 189]"

definition in_range :: "nat \<Rightarrow> nat \<Rightarrow> char \<Rightarrow> bool" where
  "in_range lo hi c \<longleftrightarrow> lo \<le> of_char c \<and> of_char c \<le> hi"

text \<open>How many bytes follow the first of a scalar, and the range of the second.\<close>

definition utf8_lead :: "char \<Rightarrow> (nat \<times> nat \<times> nat) option" where
  "utf8_lead c = (let b = of_char c :: nat in
     if 194 \<le> b \<and> b \<le> 223 then Some (1, 128, 191)
     else if b = 224 then Some (2, 160, 191)
     else if b = 237 then Some (2, 128, 159)
     else if 225 \<le> b \<and> b \<le> 239 then Some (2, 128, 191)
     else if b = 240 then Some (3, 144, 191)
     else if 241 \<le> b \<and> b \<le> 243 then Some (3, 128, 191)
     else if b = 244 then Some (3, 128, 143)
     else None)"

text \<open>The bytes of the tail that continue the scalar.\<close>

fun utf8_tail :: "nat \<Rightarrow> nat \<Rightarrow> nat \<Rightarrow> string \<Rightarrow> string" where
  "utf8_tail (Suc n) lo hi (c # cs) = (if in_range lo hi c then c # utf8_tail n 128 191 cs else [])"
| "utf8_tail _ _ _ _ = []"

lemma length_utf8_tail: "length (utf8_tail n lo hi cs) \<le> length cs"
  by (induction n lo hi cs rule: utf8_tail.induct) auto

function from_utf8_lossy :: "string \<Rightarrow> string" where
  "from_utf8_lossy [] = []"
| "from_utf8_lossy (c # cs) =
     (if of_char c < (128::nat) then c # from_utf8_lossy cs
      else (case utf8_lead c of
          None \<Rightarrow> REPLACEMENT @ from_utf8_lossy cs
        | Some (n, lo, hi) \<Rightarrow> (let tail = utf8_tail n lo hi cs in
            (if length tail = n then c # tail else REPLACEMENT) @ from_utf8_lossy (drop (length tail) cs))))"
  by pat_completeness auto
termination
  by (relation "measure length") auto

definition parse_codex_item :: "json \<Rightarrow> string \<Rightarrow> codex_item" where
  "parse_codex_item v line = (let payload = or_null (field v ''payload''); ty = field_str v ''type'' in
     if ty = Some ''session_meta'' then XSessionMeta (parse_session_meta payload)
     else if ty = Some ''response_item'' then XResponseItem (parse_response_item payload)
     else if ty = Some ''event_msg'' then XEventMsg (parse_event_msg payload)
     else if ty = Some ''turn_context'' then XTurnContext payload
     else if ty = Some ''world_state'' then
       XWorldState \<lparr>ws_full = opt_bool payload ''full'', ws_state = or_null (field payload ''state'')\<rparr>
     else if ty = Some ''compacted'' then XCompacted (parse_compacted payload)
     else if ty = Some ''inter_agent_communication_metadata'' then
       XInterAgentCommunicationMetadata (opt_bool payload ''trigger_turn'')
     else XOther \<lparr>xo_ty = ty, xo_raw = from_utf8_lossy line\<rparr>)"

text \<open>The values a payload keeps of the line's DOM.\<close>

fun payload_dom :: "response_payload \<Rightarrow> json option" where
  "payload_dom (RToolSearchCall _ _ _ arguments) = Some arguments"
| "payload_dom (RLocalShellCall _ _ action) = action"
| "payload_dom (RWebSearchCall _ action) = action"
| "payload_dom (RGhostSnapshot v) = Some v"
| "payload_dom (ROther _ raw) = Some raw"
| "payload_dom _ = None"

fun event_dom :: "event_msg \<Rightarrow> json option" where
  "event_dom (EExecCommandEnd v) = Some v"
| "event_dom (EMcpToolCallEnd v) = Some v"
| "event_dom (EWebSearchEnd v) = Some v"
| "event_dom (EImageGenerationEnd v) = Some v"
| "event_dom (EThreadSettingsApplied v) = Some v"
| "event_dom (EItemCompleted v) = Some v"
| "event_dom (EThreadGoalUpdated v) = Some v"
| "event_dom (EEnteredReviewMode v) = Some v"
| "event_dom (EExitedReviewMode v) = Some v"
| "event_dom (EViewImageToolCall v) = Some v"
| "event_dom (ECollabAgentSpawnEnd v) = Some v"
| "event_dom (ECollabWaitingEnd v) = Some v"
| "event_dom (ECollabCloseEnd v) = Some v"
| "event_dom (EOther _ v) = Some v"
| "event_dom _ = None"

fun line_dom :: "codex_item \<Rightarrow> json option" where
  "line_dom (XSessionMeta m) = Some (sm_raw m)"
| "line_dom (XTurnContext v) = Some v"
| "line_dom (XWorldState w) = Some (ws_state w)"
| "line_dom (XResponseItem ri) = (case ri_payload ri of
      RFunctionCallOutput _ output \<Rightarrow> Some output
    | RCustomToolCallOutput _ _ output \<Rightarrow> Some output
    | payload \<Rightarrow> payload_dom payload)"
| "line_dom (XEventMsg em) = event_dom em"
| "line_dom (XCompacted _) = None"
| "line_dom (XInterAgentCommunicationMetadata _) = None"
| "line_dom (XOther _) = None"

definition sum_option :: "'e + 'a \<Rightarrow> 'a option" where
  "sum_option r = (case r of Inl _ \<Rightarrow> None | Inr x \<Rightarrow> Some x)"

text \<open>What one line adds to the entries.\<close>

definition codex_line :: "env \<Rightarrow> nat \<Rightarrow> string \<Rightarrow> parse_error + codex_entry list" where
  "codex_line env line_index line =
     (if list_all is_ascii_whitespace line then Inr []
      else (case e_from_str env line of
          Some parsed \<Rightarrow> res_bind (deduplicated env parsed) (\<lambda>d.
            let (v, source_len) = opt_default (parsed, length line) d;
                item = parse_codex_item v line
            in Inr [\<lparr>cx_line_index = line_index,
                cx_timestamp = Option.bind (field_str v ''timestamp'') (\<lambda>s. sum_option (parse_timestamp env s)),
                cx_item = item,
                cx_source = (if is_some_and pins_arena (line_dom item) then Some (v, source_len) else None)\<rparr>])
        | None \<Rightarrow> Inr [\<lparr>cx_line_index = line_index, cx_timestamp = None,
            cx_item = XOther \<lparr>xo_ty = None, xo_raw = from_utf8_lossy line\<rparr>, cx_source = None\<rparr>]))"

definition parse_codex_line ::
  "env \<Rightarrow> string \<Rightarrow> nat \<Rightarrow> codex_entry list \<Rightarrow> parse_error + codex_entry list" where
  "parse_codex_line env line line_index entries =
     res_bind (codex_line env line_index line) (\<lambda>es. Inr (entries @ es))"

text \<open>The newline walk: \<open>cur\<close> is the line read so far; the tail counts when it is not empty.\<close>

fun codex_walk ::
  "env \<Rightarrow> string \<Rightarrow> nat \<Rightarrow> string \<Rightarrow> codex_entry list \<Rightarrow> parse_error + codex_entry list" where
  "codex_walk env cur line_index [] entries =
     (if cur = [] then Inr entries else parse_codex_line env cur line_index entries)"
| "codex_walk env cur line_index (c # cs) entries =
     (if c = byte 10
      then res_bind (parse_codex_line env cur line_index entries) (codex_walk env [] (Suc line_index) cs)
      else codex_walk env (cur @ [c]) line_index cs entries)"

definition session_meta_of :: "codex_entry \<Rightarrow> session_meta option" where
  "session_meta_of e = (case cx_item e of
      XSessionMeta m \<Rightarrow> if is_some_and (\<lambda>i. i \<noteq> []) (sm_id m) then Some m else None
    | _ \<Rightarrow> None)"

fun find_map :: "('a \<Rightarrow> 'b option) \<Rightarrow> 'a list \<Rightarrow> 'b option" where
  "find_map f [] = None"
| "find_map f (x # xs) = (case f x of Some y \<Rightarrow> Some y | None \<Rightarrow> find_map f xs)"

definition fold_session :: "codex_entry list \<Rightarrow> codex_session" where
  "fold_session entries = (case find_map session_meta_of entries of
      Some m \<Rightarrow> \<lparr>xs_entries = entries, xs_rollout_thread_id = sm_id m,
        xs_session_id = opt_or (sm_session_id m) (sm_id m), xs_parent_thread_id = sm_parent_thread_id m,
        xs_forked_from_id = sm_forked_from_id m, xs_cli_version = sm_cli_version m, xs_originator = sm_originator m,
        xs_cwd = sm_cwd m, xs_instructions = sm_instructions m, xs_base_instructions = sm_base_instructions m\<rparr>
    | None \<Rightarrow> \<lparr>xs_entries = entries, xs_rollout_thread_id = None, xs_session_id = None, xs_parent_thread_id = None,
        xs_forked_from_id = None, xs_cli_version = None, xs_originator = None, xs_cwd = None,
        xs_instructions = None, xs_base_instructions = None\<rparr>)"

definition parse_codex_bytes :: "env \<Rightarrow> string \<Rightarrow> parse_error + codex_session" where
  "parse_codex_bytes env bytes = res_bind (codex_walk env [] 0 bytes []) (\<lambda>es. Inr (fold_session es))"

end
