(* ===== verification/CodexLower.thy ===== *)
theory CodexLower
  imports Codex JsonText "HOL-Library.Word"
begin

text \<open>
  \<open>codex/lower.rs\<close>: lowering a parsed codex rollout into the entries of the transcript model,
  one entry per line, with the totals of the session's token counts. SHA-256 is the argument
  \<open>sha\<close>; an unwrap of an absent value is \<^const>\<open>None\<close>.
\<close>

unbundle bit_operations_syntax

record codex_usage_aggregate =
  ca_input_tokens :: "int option"
  ca_cached_input_tokens :: "int option"
  ca_output_tokens :: "int option"
  ca_reasoning_output_tokens :: "int option"
  ca_total_tokens :: "int option"
  ca_model_context_window :: "int option"
  ca_token_count_events :: nat

record codex_lowering =
  cl_entries :: "entry list"
  cl_usage :: codex_usage_aggregate

definition UUID_NAMESPACE :: string where
  "UUID_NAMESPACE = ''cc-transcript-codex''"

definition MODEL_PLACEHOLDER :: string where
  "MODEL_PLACEHOLDER = ''unknown''"

subsection \<open>What the whole session decides\<close>

definition blocks_text :: "json list \<Rightarrow> string" where
  "blocks_text bs = join [byte 10] (List.map_filter (\<lambda>b. field_str b ''text'') bs)"

definition echo_step :: "string set \<times> string set \<Rightarrow> codex_entry \<Rightarrow> string set \<times> string set" where
  "echo_step = (\<lambda>(user, assistant) e. case cx_item e of
      XResponseItem ri \<Rightarrow> (case ri_payload ri of
          RMessage role content _ \<Rightarrow>
            (if role = Some ''user'' then (insert (blocks_text content) user, assistant)
             else if role = Some ''assistant'' then (user, insert (blocks_text content) assistant)
             else (user, assistant))
        | _ \<Rightarrow> (user, assistant))
    | _ \<Rightarrow> (user, assistant))"

definition echo_sets :: "codex_session \<Rightarrow> string set \<times> string set" where
  "echo_sets session = foldl echo_step ({}, {}) (xs_entries session)"

definition model_timeline :: "codex_session \<Rightarrow> (nat \<times> string) list" where
  "model_timeline session = List.map_filter (\<lambda>(pos, e). case cx_item e of
      XTurnContext v \<Rightarrow> map_option (\<lambda>m. (pos, m)) (field_str v ''model'')
    | _ \<Rightarrow> None) (enumerate 0 (xs_entries session))"

definition model_at :: "(nat \<times> string) list \<Rightarrow> nat \<Rightarrow> string" where
  "model_at models pos = opt_default MODEL_PLACEHOLDER (map_option snd
     (opt_or (find (\<lambda>(idx, _). idx \<le> pos) (rev models)) (find (\<lambda>(idx, _). pos < idx) models)))"

definition usage_step :: "codex_usage_aggregate \<Rightarrow> codex_entry \<Rightarrow> codex_usage_aggregate" where
  "usage_step agg e = (case cx_item e of
      XEventMsg (ETokenCount info _) \<Rightarrow>
        (let agg = agg\<lparr>ca_token_count_events := ca_token_count_events agg + 1\<rparr> in
         (case info of
            None \<Rightarrow> agg
          | Some info \<Rightarrow>
              let agg = (case ti_total_token_usage info of
                      None \<Rightarrow> agg
                    | Some t \<Rightarrow> agg\<lparr>ca_input_tokens := tk_input_tokens t,
                        ca_cached_input_tokens := tk_cached_input_tokens t,
                        ca_output_tokens := tk_output_tokens t,
                        ca_reasoning_output_tokens := tk_reasoning_output_tokens t,
                        ca_total_tokens := tk_total_tokens t\<rparr>)
              in if ti_model_context_window info \<noteq> None
                 then agg\<lparr>ca_model_context_window := ti_model_context_window info\<rparr> else agg))
    | _ \<Rightarrow> agg)"

definition usage_default :: codex_usage_aggregate where
  "usage_default = \<lparr>ca_input_tokens = None, ca_cached_input_tokens = None, ca_output_tokens = None,
     ca_reasoning_output_tokens = None, ca_total_tokens = None, ca_model_context_window = None,
     ca_token_count_events = 0\<rparr>"

definition usage_aggregate :: "codex_session \<Rightarrow> codex_usage_aggregate" where
  "usage_aggregate session = foldl usage_step usage_default (xs_entries session)"

subsection \<open>Identifiers\<close>

definition hex_byte :: "8 word \<Rightarrow> string" where
  "hex_byte b = [hex_digit (unat b div 16), hex_digit (unat b mod 16)]"

text \<open>A digest shorter than sixteen bytes would make the slice panic.\<close>

definition uuid_from_digest :: "8 word list \<Rightarrow> string option" where
  "uuid_from_digest digest =
     (if length digest < 16 then None
      else let b = take 16 digest;
               b = b[6 := (b ! 6 AND 0x0F) OR 0x80];
               b = b[8 := (b ! 8 AND 0x3F) OR 0x80];
               h = (\<lambda>i n. concat (map hex_byte (take n (drop i b))))
           in Some (h 0 4 @ ''-'' @ h 4 2 @ ''-'' @ h 6 2 @ ''-'' @ h 8 2 @ ''-'' @ h 10 6))"

definition event_uuid ::
  "(string \<Rightarrow> 8 word list) \<Rightarrow> string \<Rightarrow> response_item option \<Rightarrow> nat \<Rightarrow> string option" where
  "event_uuid sha thread_id response_item line_index =
     (let item_id = Option.bind response_item (\<lambda>item. case ri_payload item of
             RFunctionCallOutput _ _ \<Rightarrow> None
           | RCustomToolCallOutput _ _ _ \<Rightarrow> None
           | _ \<Rightarrow> ri_id item);
          input = (case item_id of
             Some i \<Rightarrow> UUID_NAMESPACE @ '':'' @ thread_id @ '':'' @ i
           | None \<Rightarrow> UUID_NAMESPACE @ '':'' @ thread_id @ '':line:'' @ dec_digits line_index)
      in uuid_from_digest (sha input))"

subsection \<open>Entries\<close>

definition codex_meta ::
  "string \<Rightarrow> string \<Rightarrow> datetime \<Rightarrow> string option \<Rightarrow> bool \<Rightarrow> bool \<Rightarrow> entry_meta" where
  "codex_meta u thread_id ts cwd im summary = \<lparr>uuid = u, parent_uuid = None, em_session_id = thread_id,
     timestamp = ts, em_cwd = cwd, git_branch = None, version = None, is_sidechain = False, is_meta = im,
     entrypoint = None, is_compact_summary = summary, is_visible_in_transcript_only = False,
     user_type = None, slug = None\<rparr>"

definition codex_user_entry :: "user_content \<Rightarrow> entry_meta \<Rightarrow> string option \<Rightarrow> entry" where
  "codex_user_entry content m interrupted = User \<lparr>ue_meta = m, ue_content = content, prompt_id = None,
     prompt_source = None, queue_priority = None, image_paste_ids = None, source_tool_use_id = None,
     source_tool_assistant_uuid = None, mcp_meta = None, permission_mode = None,
     interrupted_message_id = interrupted\<rparr>"

definition codex_assistant_entry :: "string \<Rightarrow> content_block list \<Rightarrow> entry_meta \<Rightarrow> entry" where
  "codex_assistant_entry model bs m = Assistant \<lparr>as_meta = m, as_model = model, as_blocks = bs,
     as_stop_reason = None, as_usage = None, request_id = None, forked_from = None, as_attribution = None,
     as_api_error = None\<rparr>"

definition tool_use_entry :: "string \<Rightarrow> string \<Rightarrow> json \<Rightarrow> entry_meta \<Rightarrow> string \<Rightarrow> entry" where
  "tool_use_entry i name input m model = codex_assistant_entry model [CToolUse \<lparr>tu_id = i, tu_name = name,
     tu_run_in_background = None, tu_subagent_type = None, tu_file_path = None, tu_questions = None,
     tu_input = input\<rparr>] m"

definition flatten_output :: "env \<Rightarrow> json \<Rightarrow> string" where
  "flatten_output env output = (case as_str output of
      Some text \<Rightarrow> opt_default text (Option.bind (e_from_str env text) (\<lambda>v. field_str v ''output''))
    | None \<Rightarrow> (case as_array output of
        Some array \<Rightarrow> join [byte 10] (List.map_filter (\<lambda>b. field_str b ''text'') array)
      | None \<Rightarrow> opt_default (print_json env output) (field_str output ''output'')))"

definition tool_result_entry :: "env \<Rightarrow> string \<Rightarrow> json \<Rightarrow> entry_meta \<Rightarrow> entry" where
  "tool_result_entry env tool_use_id output m =
     codex_user_entry (Blocks [CToolResult \<lparr>tr_tool_use_id = tool_use_id, tr_content = flatten_output env output,
       tr_is_error = is_some_and (\<lambda>code. code \<noteq> 0) (output_exit_code env output), tr_is_async = False,
       tr_tool_use_result = (if as_str output = None \<and> \<not> is_null output then Some output else None),
       tr_denial_kind = None\<rparr>]) m None"

definition synth_name :: "string \<Rightarrow> string option \<Rightarrow> string" where
  "synth_name name namespace = opt_default name (mcp_tool_name name namespace)"

fun payload_tag :: "response_payload \<Rightarrow> string" where
  "payload_tag (RMessage _ _ _) = ''message''"
| "payload_tag (RAgentMessage _ _ _) = ''agent_message''"
| "payload_tag (RReasoning _ _ _) = ''reasoning''"
| "payload_tag (RLocalShellCall _ _ _) = ''local_shell_call''"
| "payload_tag (RFunctionCall _ _ _ _) = ''function_call''"
| "payload_tag (RFunctionCallOutput _ _) = ''function_call_output''"
| "payload_tag (RCustomToolCall _ _ _ _ _) = ''custom_tool_call''"
| "payload_tag (RCustomToolCallOutput _ _ _) = ''custom_tool_call_output''"
| "payload_tag (RToolSearchCall _ _ _ _) = ''tool_search_call''"
| "payload_tag (RToolSearchOutput _ _ _ _) = ''tool_search_output''"
| "payload_tag (RWebSearchCall _ _) = ''web_search_call''"
| "payload_tag (RImageGenerationCall _ _ _) = ''image_generation_call''"
| "payload_tag (RCompaction _) = ''compaction''"
| "payload_tag (RContextCompaction _) = ''context_compaction''"
| "payload_tag (RGhostSnapshot _) = ''ghost_snapshot''"
| "payload_tag (ROther ty _) = opt_default ''other'' ty"

definition payload_raw :: "response_payload \<Rightarrow> json" where
  "payload_raw payload = opt_default JNull (payload_dom payload)"

fun event_tag :: "event_msg \<Rightarrow> string" where
  "event_tag (ETokenCount _ _) = ''token_count''"
| "event_tag (EAgentMessage _ _ _) = ''agent_message''"
| "event_tag (EUserMessage _ _ _ _) = ''user_message''"
| "event_tag (EAgentReasoning _) = ''agent_reasoning''"
| "event_tag (EAgentReasoningRawContent _) = ''agent_reasoning_raw_content''"
| "event_tag (ETaskStarted _ _ _ _) = ''task_started''"
| "event_tag (ETaskComplete _ _ _ _ _) = ''task_complete''"
| "event_tag (ETurnAborted _ _ _ _) = ''turn_aborted''"
| "event_tag (EPatchApplyEnd _ _ _ _ _ _ _) = ''patch_apply_end''"
| "event_tag EContextCompacted = ''context_compacted''"
| "event_tag (ESubAgentActivity _ _ _ _ _) = ''sub_agent_activity''"
| "event_tag (EThreadRolledBack _) = ''thread_rolled_back''"
| "event_tag (EExecCommandEnd _) = ''exec_command_end''"
| "event_tag (EMcpToolCallEnd _) = ''mcp_tool_call_end''"
| "event_tag (EWebSearchEnd _) = ''web_search_end''"
| "event_tag (EImageGenerationEnd _) = ''image_generation_end''"
| "event_tag (EThreadSettingsApplied _) = ''thread_settings_applied''"
| "event_tag (EItemCompleted _) = ''item_completed''"
| "event_tag (EThreadGoalUpdated _) = ''thread_goal_updated''"
| "event_tag (EEnteredReviewMode _) = ''entered_review_mode''"
| "event_tag (EExitedReviewMode _) = ''exited_review_mode''"
| "event_tag (EViewImageToolCall _) = ''view_image_tool_call''"
| "event_tag (ECollabAgentSpawnEnd _) = ''collab_agent_spawn_end''"
| "event_tag (ECollabWaitingEnd _) = ''collab_waiting_end''"
| "event_tag (ECollabCloseEnd _) = ''collab_close_end''"
| "event_tag (EOther ty _) = opt_default ''other'' ty"

definition event_raw :: "event_msg \<Rightarrow> json" where
  "event_raw em = opt_default JNull (event_dom em)"

definition payload_other :: "response_payload \<Rightarrow> entry" where
  "payload_other payload = Other \<lparr>oe_ty = ''codex-'' @ payload_tag payload, oe_raw = payload_raw payload\<rparr>"

definition event_other :: "event_msg \<Rightarrow> entry" where
  "event_other em = Other \<lparr>oe_ty = ''codex-'' @ event_tag em, oe_raw = event_raw em\<rparr>"

fun item_other :: "env \<Rightarrow> codex_item \<Rightarrow> entry" where
  "item_other env (XSessionMeta m) = Other \<lparr>oe_ty = ''codex-session_meta'', oe_raw = sm_raw m\<rparr>"
| "item_other env (XTurnContext v) = Other \<lparr>oe_ty = ''codex-turn_context'', oe_raw = v\<rparr>"
| "item_other env (XWorldState w) = Other \<lparr>oe_ty = ''codex-world_state'', oe_raw = ws_state w\<rparr>"
| "item_other env (XInterAgentCommunicationMetadata trigger_turn) =
     Other \<lparr>oe_ty = ''codex-inter_agent_communication_metadata'',
       oe_raw = JObject [(''trigger_turn'', case trigger_turn of None \<Rightarrow> JNull | Some b \<Rightarrow> JBool b)]\<rparr>"
| "item_other env (XCompacted _) = Other \<lparr>oe_ty = ''codex-compacted'', oe_raw = JNull\<rparr>"
| "item_other env (XResponseItem ri) = payload_other (ri_payload ri)"
| "item_other env (XEventMsg em) = event_other em"
| "item_other env (XOther x) = Other \<lparr>oe_ty = ''codex-'' @ opt_default ''other'' (xo_ty x),
       oe_raw = opt_default (JString (xo_raw x)) (e_from_str env (xo_raw x))\<rparr>"


definition lower_payload ::
  "env \<Rightarrow> response_payload \<Rightarrow> codex_item option \<Rightarrow> string \<Rightarrow> string \<Rightarrow> datetime \<Rightarrow> string option \<Rightarrow> string \<Rightarrow>
   entry option" where
  "lower_payload env payload prev u thread_id ts cwd model =
     (let mk = codex_meta u thread_id ts cwd in
      case payload of
        RMessage role content _ \<Rightarrow>
          (if role = Some ''assistant'' then
             Some (codex_assistant_entry model [CText (blocks_text content)] (mk False False))
           else if role = Some ''developer'' then
             Some (codex_user_entry (Plain (blocks_text content)) (mk True False) None)
           else if role = Some ''user'' then
             (let t = blocks_text content; im = injection_wrapper t \<noteq> None in
              Some (codex_user_entry (Plain t) (mk im False) None))
           else Some (payload_other payload))
      | RAgentMessage _ _ content \<Rightarrow>
          (let opens = (prev = Some (XInterAgentCommunicationMetadata (Some True))) in
           Some (codex_user_entry (Plain (blocks_text content)) (mk (\<not> opens) False) None))
      | RReasoning summary _ _ \<Rightarrow>
          (let t = blocks_text summary in
           if strip t = [] then Some (payload_other payload)
           else Some (codex_assistant_entry model [CThinking t] (mk False False)))
      | RFunctionCall name namespace (Some arguments) call_id \<Rightarrow>
          Option.bind call_id (\<lambda>i. Option.bind name (\<lambda>n.
            Some (tool_use_entry i (synth_name n namespace) (JString arguments) (mk False False) model)))
      | RCustomToolCall name _ (Some input) _ call_id \<Rightarrow>
          Option.bind call_id (\<lambda>i. Option.bind name (\<lambda>n.
            Some (tool_use_entry i n (JString input) (mk False False) model)))
      | RFunctionCallOutput call_id output \<Rightarrow>
          (if is_null output then Some (payload_other payload)
           else Option.bind call_id (\<lambda>i. Some (tool_result_entry env i output (mk False False))))
      | RCustomToolCallOutput call_id _ output \<Rightarrow>
          (if is_null output then Some (payload_other payload)
           else Option.bind call_id (\<lambda>i. Some (tool_result_entry env i output (mk False False))))
      | _ \<Rightarrow> Some (payload_other payload))"

definition lower_event ::
  "event_msg \<Rightarrow> string \<Rightarrow> string \<Rightarrow> datetime \<Rightarrow> string option \<Rightarrow> string \<Rightarrow> string set \<Rightarrow> string set \<Rightarrow> entry" where
  "lower_event em u thread_id ts cwd model user_texts assistant_texts =
     (let m = codex_meta u thread_id ts cwd False False in
      case em of
        EUserMessage message _ _ _ \<Rightarrow>
          (let t = opt_default [] message in
           if t \<in> user_texts then event_other em else codex_user_entry (Plain t) m None)
      | EAgentMessage message _ _ \<Rightarrow>
          (let t = opt_default [] message in
           if t \<in> assistant_texts then event_other em else codex_assistant_entry model [CText t] m)
      | ETurnAborted turn_id _ _ _ \<Rightarrow>
          (let interrupted = opt_default u (opt_filter (\<lambda>t. t \<noteq> []) turn_id) in
           codex_user_entry (Plain []) m (Some interrupted))
      | _ \<Rightarrow> event_other em)"

definition lower_entry ::
  "env \<Rightarrow> (string \<Rightarrow> 8 word list) \<Rightarrow> codex_entry \<Rightarrow> nat \<Rightarrow> codex_entry option \<Rightarrow> string \<Rightarrow> string option \<Rightarrow>
   (nat \<times> string) list \<Rightarrow> string set \<Rightarrow> string set \<Rightarrow> entry option" where
  "lower_entry env sha e pos prev thread_id cwd models user_texts assistant_texts =
     (case cx_timestamp e of
        None \<Rightarrow> Some (item_other env (cx_item e))
      | Some ts \<Rightarrow> (let line = cx_line_index e in
          case cx_item e of
            XResponseItem ri \<Rightarrow>
              Option.bind (event_uuid sha thread_id (Some ri) line) (\<lambda>u.
                lower_payload env (ri_payload ri)
                  (map_option cx_item (opt_filter (\<lambda>p. cx_line_index p + 1 = line) prev))
                  u thread_id ts cwd (model_at models pos))
          | XEventMsg em \<Rightarrow>
              Option.bind (event_uuid sha thread_id None line) (\<lambda>u.
                Some (lower_event em u thread_id ts cwd (model_at models pos) user_texts assistant_texts))
          | XCompacted c \<Rightarrow>
              Option.bind (event_uuid sha thread_id None line) (\<lambda>u.
                Some (codex_user_entry (Plain (opt_default [] (cp_message c)))
                  (codex_meta u thread_id ts cwd False True) None))
          | _ \<Rightarrow> Some (item_other env (cx_item e))))"

text \<open>The working directory a line leaves: a turn context names the next one.\<close>

definition next_cwd :: "string option \<Rightarrow> codex_entry \<Rightarrow> string option" where
  "next_cwd cwd e = (case cx_item e of
      XTurnContext v \<Rightarrow> opt_or (field_str v ''cwd'') cwd
    | _ \<Rightarrow> cwd)"

text \<open>The loop of \<open>lower\<close> at position \<open>pos\<close>, after the entry \<open>prev\<close>.\<close>

fun lower_from ::
  "(codex_entry \<Rightarrow> nat \<Rightarrow> codex_entry option \<Rightarrow> string option \<Rightarrow> entry option) \<Rightarrow> nat \<Rightarrow> codex_entry option \<Rightarrow>
   string option \<Rightarrow> codex_entry list \<Rightarrow> entry list option" where
  "lower_from one pos prev cwd [] = Some []"
| "lower_from one pos prev cwd (e # es) =
     Option.bind (one e pos prev (next_cwd cwd e)) (\<lambda>x.
       Option.bind (lower_from one (Suc pos) (Some e) (next_cwd cwd e) es) (\<lambda>xs. Some (x # xs)))"

definition lower :: "env \<Rightarrow> (string \<Rightarrow> 8 word list) \<Rightarrow> codex_session \<Rightarrow> codex_lowering option" where
  "lower env sha session =
     (let thread_id = opt_default [] (xs_rollout_thread_id session);
          (user_texts, assistant_texts) = echo_sets session;
          models = model_timeline session;
          u = usage_aggregate session
      in map_option (\<lambda>es. \<lparr>cl_entries = es, cl_usage = u\<rparr>)
           (lower_from (\<lambda>e pos prev cwd. lower_entry env sha e pos prev thread_id cwd models user_texts assistant_texts)
              0 None (xs_cwd session) (xs_entries session)))"

subsection \<open>The arenas a lowering retains\<close>

definition retains_line :: "entry \<Rightarrow> bool" where
  "retains_line e = (case e of
      Other x \<Rightarrow> pins_arena (oe_raw x)
    | _ \<Rightarrow> list_ex (\<lambda>r. is_some_and pins_arena (tr_tool_use_result r)) (tool_results e))"

definition lowered_arenas :: "codex_entry \<Rightarrow> entry \<Rightarrow> (json \<times> nat) list" where
  "lowered_arenas source e = (case (cx_item source, e) of
      (XOther x, Other lowered) \<Rightarrow>
        (if pins_arena (oe_raw lowered) then [(oe_raw lowered, length (xo_raw x))] else [])
    | _ \<Rightarrow> filter (\<lambda>_. retains_line e) (opt_list (cx_source source)))"

text \<open>\<^const>\<open>None\<close> is the failed assertion.\<close>

definition session_arenas :: "codex_session \<Rightarrow> entry list \<Rightarrow> (nat \<times> json \<times> nat) list option" where
  "session_arenas session es =
     (if length (xs_entries session) \<noteq> length es then None
      else Some (concat (map (\<lambda>(i, source, e). map (Pair i) (lowered_arenas source e))
             (enumerate 0 (zip (xs_entries session) es)))))"

end
