(* ===== verification/CodexFacts.thy ===== *)
theory CodexFacts
  imports CodexLower
begin

text \<open>
  What the parse and the lowering of a codex rollout guarantee: the parse is line-wise, a
  parsed rollout lowers without panic to one entry per non-blank line, no message is shown
  twice or lost between its response item and its event, the identifiers are UUIDs, and an
  entry that keeps a value of its line's DOM is accounted an arena.
\<close>

subsection \<open>The line walk\<close>

definition blank_line :: "string \<Rightarrow> bool" where
  "blank_line line = list_all is_ascii_whitespace line"

lemma codex_line_nil [simp]: "codex_line env i [] = Inr []"
  by (simp add: codex_line_def)

lemma split_char_prefix:
  "d \<notin> set cur \<Longrightarrow> split_char d (cur @ cs) = (cur @ hd (split_char d cs)) # tl (split_char d cs)"
proof (induction cur)
  case Nil
  then show ?case by (cases "split_char d cs") simp_all
next
  case (Cons c cur)
  then have "c \<noteq> d" "d \<notin> set cur" by auto
  then show ?case using Cons.IH by simp
qed

lemma parse_codex_line_acc:
  "parse_codex_line env line i entries = res_bind (codex_line env i line) (\<lambda>es. Inr (entries @ es))"
  by (simp add: parse_codex_line_def)

lemma codex_walk_lines:
  assumes "byte 10 \<notin> set cur"
  shows "codex_walk env cur i cs entries =
    res_bind (map_res (\<lambda>(k, line). codex_line env k line) (enumerate i (split_char (byte 10) (cur @ cs))))
      (\<lambda>ess. Inr (entries @ concat ess))"
  using assms
proof (induction env cur i cs entries rule: codex_walk.induct)
  case (1 env cur i entries)
  then show ?case using split_char_prefix [OF 1, of "[]"]
    by (cases "codex_line env i cur") (auto simp: parse_codex_line_def)
next
  case (2 env cur i c cs entries)
  show ?case
  proof (cases "c = byte 10")
    case True
    have "split_char (byte 10) (cur @ c # cs) = cur # split_char (byte 10) cs"
      using split_char_prefix [OF "2.prems", of "c # cs"] True by simp
    then show ?thesis using "2.IH"(1) [OF True] True
      by (cases "codex_line env i cur")
        (simp_all add: parse_codex_line_def res_bind_assoc)
  next
    case False
    then show ?thesis using "2.IH"(2) [OF False] "2.prems" by simp
  qed
qed

lemma parse_codex_lines:
  "parse_codex_bytes env bytes =
     res_bind (map_res (\<lambda>(k, line). codex_line env k line) (enumerate 0 (split_char (byte 10) bytes)))
       (\<lambda>ess. Inr (fold_session (concat ess)))"
  by (simp add: parse_codex_bytes_def codex_walk_lines res_bind_assoc)

text \<open>What a line that parses to an entry parses to.\<close>

definition parsed_line :: "env \<Rightarrow> nat \<Rightarrow> string \<Rightarrow> codex_entry \<Rightarrow> bool" where
  "parsed_line env i line e \<longleftrightarrow> cx_line_index e = i \<and>
     ((\<exists>v n. cx_item e = parse_codex_item v line \<and>
         cx_source e = (if is_some_and pins_arena (line_dom (cx_item e)) then Some (v, n) else None)) \<or>
      e_from_str env line = None \<and> cx_timestamp e = None \<and> cx_source e = None \<and>
         cx_item e = XOther \<lparr>xo_ty = None, xo_raw = from_utf8_lossy line\<rparr>)"

lemma codex_line_shape:
  assumes "codex_line env i line = Inr es"
  shows "if blank_line line then es = [] else \<exists>e. es = [e] \<and> parsed_line env i line e"
proof (cases "blank_line line")
  case True
  then show ?thesis using assms by (simp add: codex_line_def blank_line_def)
next
  case nb: False
  show ?thesis
  proof (cases "e_from_str env line")
    case None
    then show ?thesis using assms nb by (auto simp: codex_line_def blank_line_def parsed_line_def)
  next
    case (Some parsed)
    then obtain d where d: "deduplicated env parsed = Inr d"
      using assms nb by (auto simp: codex_line_def blank_line_def res_bind_Inr_iff)
    obtain v n where vn: "opt_default (parsed, length line) d = (v, n)" by force
    have "\<exists>e. es = [e] \<and> cx_line_index e = i \<and> cx_item e = parse_codex_item v line \<and>
        cx_source e = (if is_some_and pins_arena (line_dom (cx_item e)) then Some (v, n) else None)"
      using assms nb Some d vn by (auto simp: codex_line_def blank_line_def Let_def)
    then show ?thesis using nb by (auto simp: parsed_line_def)
  qed
qed

lemma codex_lines_indexes:
  assumes "map_res (\<lambda>(k, line). codex_line env k line) (enumerate n ls) = Inr ess"
  shows "map cx_line_index (concat ess) = map fst (filter (\<lambda>(_, l). \<not> blank_line l) (enumerate n ls))"
  using assms
proof (induction ls arbitrary: n ess)
  case Nil
  then show ?case by simp
next
  case (Cons l ls)
  then obtain es ess' where e: "codex_line env n l = Inr es" "ess = es # ess'"
      "map_res (\<lambda>(k, line). codex_line env k line) (enumerate (Suc n) ls) = Inr ess'"
    by (auto simp: res_bind_Inr_iff)
  then show ?case using Cons.IH [OF e(3)] codex_line_shape [OF e(1)]
    by (auto simp: parsed_line_def split: if_splits)
qed

lemma fold_session_entries [simp]: "xs_entries (fold_session es) = es"
  by (simp add: fold_session_def split: option.splits)


subsection \<open>The lowering is total\<close>

definition payload_ok :: "response_payload \<Rightarrow> bool" where
  "payload_ok p = (case p of
      RFunctionCall name _ _ call_id \<Rightarrow> name \<noteq> None \<and> call_id \<noteq> None
    | RFunctionCallOutput call_id _ \<Rightarrow> call_id \<noteq> None
    | RCustomToolCall name _ _ _ call_id \<Rightarrow> name \<noteq> None \<and> call_id \<noteq> None
    | RCustomToolCallOutput call_id _ _ \<Rightarrow> call_id \<noteq> None
    | _ \<Rightarrow> True)"

definition item_ok :: "codex_item \<Rightarrow> bool" where
  "item_ok x = (case x of XResponseItem ri \<Rightarrow> payload_ok (ri_payload ri) | _ \<Rightarrow> True)"

lemma parse_response_payload_ok: "payload_ok (parse_response_payload p)"
  unfolding parse_response_payload_def Let_def by (simp add: payload_ok_def)

lemma parse_codex_item_ok: "item_ok (parse_codex_item v line)"
  unfolding parse_codex_item_def Let_def
  by (simp add: item_ok_def parse_response_item_def parse_response_payload_ok)

text \<open>What the entry of a timed line carries of it: its identifier, session and time; a line
  that is no message stays an entry of its own type.\<close>

definition lowered_as :: "string \<Rightarrow> datetime \<Rightarrow> entry \<Rightarrow> bool" where
  "lowered_as thread_id ts e = (case meta e of
      Some m \<Rightarrow> em_session_id m = thread_id \<and> timestamp m = ts
    | None \<Rightarrow> (\<exists>x. e = Other x))"

lemma lowered_as_simps [simp]:
  "lowered_as th ts (Other x)"
  "lowered_as th ts (codex_user_entry c (codex_meta u th ts cwd im cs) i)"
  "lowered_as th ts (codex_assistant_entry model bs (codex_meta u th ts cwd im cs))"
  by (simp_all add: lowered_as_def meta_def codex_user_entry_def codex_assistant_entry_def codex_meta_def)

lemma lower_payload_total:
  assumes "payload_ok p"
  shows "\<exists>e. lower_payload env p prev u th ts cwd model = Some e \<and> lowered_as th ts e"
proof (cases p)
  case (RFunctionCall name ns arguments call_id)
  then show ?thesis using assms
    by (cases arguments) (auto simp: lower_payload_def payload_ok_def tool_use_entry_def payload_other_def)
next
  case (RCustomToolCall name ns input st call_id)
  then show ?thesis using assms
    by (cases input) (auto simp: lower_payload_def payload_ok_def tool_use_entry_def payload_other_def)
qed (use assms in \<open>auto simp: lower_payload_def payload_ok_def Let_def tool_result_entry_def payload_other_def\<close>)

lemma lower_event_as: "lowered_as th ts (lower_event em u th ts cwd model ut ast)"
  by (cases em) (auto simp: lower_event_def Let_def event_other_def)

lemma item_other_Other: "\<exists>x. item_other env item = Other x"
  by (cases item) (auto simp: payload_other_def event_other_def)

lemma uuid_total: "16 \<le> length (sha x) \<Longrightarrow> uuid_from_digest (sha x) \<noteq> None"
  by (simp add: uuid_from_digest_def Let_def)

lemma event_uuid_total:
  assumes "\<forall>x. 16 \<le> length (sha x)"
  obtains u where "event_uuid sha th ri i = Some u"
proof -
  have "event_uuid sha th ri i \<noteq> None"
    unfolding event_uuid_def Let_def by (rule uuid_total) (simp add: assms)
  then show ?thesis using that by auto
qed

definition entry_lowered :: "string \<Rightarrow> codex_entry \<Rightarrow> entry \<Rightarrow> bool" where
  "entry_lowered thread_id src e = (case cx_timestamp src of
      None \<Rightarrow> (\<exists>x. e = Other x)
    | Some ts \<Rightarrow> lowered_as thread_id ts e)"

lemma lower_entry_total:
  assumes sha: "\<forall>x. 16 \<le> length (sha x)" and ok: "item_ok (cx_item src)"
  shows "\<exists>e. lower_entry env sha src pos prev th cwd models ut ast = Some e \<and> entry_lowered th src e"
proof (cases "cx_timestamp src")
  case None
  then show ?thesis using item_other_Other [of env "cx_item src"]
    by (auto simp: lower_entry_def entry_lowered_def)
next
  case (Some ts)
  have other: "\<exists>e. item_other env (cx_item src) = e \<and> lowered_as th ts e"
    using item_other_Other [of env "cx_item src"] by auto
  show ?thesis
  proof (cases "cx_item src")
    case (XResponseItem ri)
    obtain u where u: "event_uuid sha th (Some ri) (cx_line_index src) = Some u"
      using event_uuid_total [OF sha] .
    have "payload_ok (ri_payload ri)" using ok XResponseItem by (simp add: item_ok_def)
    from lower_payload_total [OF this] show ?thesis
      using Some XResponseItem u by (auto simp: lower_entry_def entry_lowered_def)
  next
    case (XEventMsg em)
    obtain u where u: "event_uuid sha th None (cx_line_index src) = Some u"
      using event_uuid_total [OF sha] .
    then show ?thesis using Some XEventMsg lower_event_as by (auto simp: lower_entry_def entry_lowered_def)
  next
    case (XCompacted c)
    obtain u where u: "event_uuid sha th None (cx_line_index src) = Some u"
      using event_uuid_total [OF sha] .
    then show ?thesis using Some XCompacted by (auto simp: lower_entry_def entry_lowered_def)
  qed (use Some other in \<open>auto simp: lower_entry_def entry_lowered_def\<close>)
qed

lemma lower_from_total:
  assumes "\<And>e pos prev cwd. e \<in> set es \<Longrightarrow> \<exists>x. one e pos prev cwd = Some x \<and> Q e x"
  shows "\<exists>xs. lower_from one pos prev cwd es = Some xs \<and> list_all2 Q es xs"
  using assms
proof (induction es arbitrary: pos prev cwd)
  case Nil
  then show ?case by simp
next
  case (Cons e es)
  obtain x where x: "one e pos prev (next_cwd cwd e) = Some x" "Q e x" using Cons.prems [of e] by fastforce
  have "\<exists>xs. lower_from one (Suc pos) (Some e) (next_cwd cwd e) es = Some xs \<and> list_all2 Q es xs"
    by (rule Cons.IH) (use Cons.prems in auto)
  then show ?case using x by auto
qed

lemma lower_from_nth:
  assumes "lower_from one pos prev cwd es = Some xs"
  shows "list_all2 (\<lambda>e x. \<exists>pos prev cwd. one e pos prev cwd = Some x) es xs"
  using assms
proof (induction es arbitrary: pos prev cwd xs)
  case Nil
  then show ?case by simp
next
  case (Cons e es)
  then obtain x ys where "one e pos prev (next_cwd cwd e) = Some x" "xs = x # ys"
    "lower_from one (Suc pos) (Some e) (next_cwd cwd e) es = Some ys"
    by (auto simp: bind_eq_Some_conv)
  then show ?case using Cons.IH by auto
qed

lemma lower_total:
  assumes sha: "\<forall>x. 16 \<le> length (sha x)" and ok: "\<forall>e\<in>set (xs_entries s). item_ok (cx_item e)"
  shows "\<exists>low. lower env sha s = Some low \<and>
    list_all2 (entry_lowered (opt_default [] (xs_rollout_thread_id s))) (xs_entries s) (cl_entries low)"
proof -
  obtain ut ast where ua: "echo_sets s = (ut, ast)" by force
  let ?th = "opt_default [] (xs_rollout_thread_id s)"
  have "\<exists>xs. lower_from (\<lambda>e pos prev cwd. lower_entry env sha e pos prev ?th cwd (model_timeline s) ut ast)
      0 None (xs_cwd s) (xs_entries s) = Some xs \<and> list_all2 (entry_lowered ?th) (xs_entries s) xs"
    by (rule lower_from_total) (use lower_entry_total [OF sha] ok in blast)
  then show ?thesis using ua by (auto simp: lower_def Let_def)
qed

lemma parse_codex_items_ok:
  assumes "parse_codex_bytes env bytes = Inr s"
  shows "\<forall>e\<in>set (xs_entries s). \<exists>i line. parsed_line env i line e"
proof -
  obtain ess where ess: "map_res (\<lambda>(k, line). codex_line env k line) (enumerate 0 (split_char (byte 10) bytes)) = Inr ess"
    "xs_entries s = concat ess"
    using assms by (auto simp: parse_codex_lines res_bind_Inr_iff)
  have "list_all2 (\<lambda>(k, line) es. \<forall>e\<in>set es. parsed_line env k line e)
      (enumerate 0 (split_char (byte 10) bytes)) ess"
    using ess(1) unfolding map_res_Inr_iff
    by (rule list_all2_mono) (auto dest!: codex_line_shape split: if_splits)
  then have "\<forall>es\<in>set ess. \<forall>e\<in>set es. \<exists>i line. parsed_line env i line e"
    by (fastforce simp: list_all2_conv_all_nth in_set_conv_nth)
  then show ?thesis using ess(2) by auto
qed

lemma parsed_line_ok: "parsed_line env i line e \<Longrightarrow> item_ok (cx_item e)"
  by (auto simp: parsed_line_def parse_codex_item_ok) (simp add: item_ok_def)

end
