(* ===== verification/CodexProps.thy ===== *)
theory CodexProps
  imports CodexFacts Samples
begin

unbundle bit_operations_syntax

subsection \<open>Identifiers\<close>

definition hex_char :: "char \<Rightarrow> bool" where
  "hex_char c \<longleftrightarrow> hex_val c \<noteq> None"

text \<open>The text of a UUID of version 8 and of the RFC variant.\<close>

definition uuid_text :: "string \<Rightarrow> bool" where
  "uuid_text t \<longleftrightarrow> length t = 36 \<and>
     list_all (\<lambda>i. if i \<in> {8, 13, 18, 23} then t ! i = CHR ''-'' else hex_char (t ! i)) [0..<36] \<and>
     t ! 14 = CHR ''8'' \<and> t ! 19 \<in> {CHR ''8'', CHR ''9'', CHR ''a'', CHR ''b''}"

lemma hex_char_digit [simp]: "n < 16 \<Longrightarrow> hex_char (hex_digit n)"
  by (simp add: hex_char_def)

lemma unat_byte_lt: "unat (b :: 8 word) < 256"
  using unsigned_less [of b, where 'a = nat] by simp

lemma unat_byte_div: "unat (b :: 8 word) div 16 < 16"
  using unat_byte_lt [of b] by simp

lemma div_16_drop_bit: "(n::nat) div 16 = drop_bit 4 n"
  by (simp add: drop_bit_eq_div)

lemma version_nibble: "unat ((x AND 0x0F) OR 0x80 :: 8 word) div 16 = 8"
  by (simp add: div_16_drop_bit unsigned_or_eq unsigned_and_eq)

lemma variant_nibble:
  "unat ((x AND 0x3F) OR 0x80 :: 8 word) div 16 \<in> {8, 9, 10, 11}"
proof -
  have "unat ((x AND 0x3F) OR 0x80 :: 8 word) div 16 = (drop_bit 4 (unat x) AND 3) OR 8"
    by (simp add: div_16_drop_bit unsigned_or_eq unsigned_and_eq)
  moreover have "drop_bit 4 (unat x) AND 3 = drop_bit 4 (unat x) mod 4"
    using take_bit_eq_mask [of 2 "drop_bit 4 (unat x)"] by (simp add: take_bit_eq_mod mask_eq_exp_minus_1)
  moreover have "drop_bit 4 (unat x) mod 4 \<in> {0, 1, 2, 3}" by auto
  ultimately show ?thesis by auto
qed


definition nibbles :: "8 word \<Rightarrow> char \<times> char" where
  "nibbles b = (hex_digit (unat b div 16), hex_digit (unat b mod 16))"

lemma uuid_text_bytes:
  assumes "unat b6 div 16 = 8" "unat b8 div 16 \<in> {8, 9, 10, 11}"
  shows "uuid_text (concat (map hex_byte [b0, b1, b2, b3]) @ ''-'' @ concat (map hex_byte [b4, b5]) @ ''-'' @
     concat (map hex_byte [b6, b7]) @ ''-'' @ concat (map hex_byte [b8, b9]) @ ''-'' @
     concat (map hex_byte [b10, b11, b12, b13, b14, b15]))"
proof -
  have "hex_digit 8 = CHR ''8'' \<and> hex_digit 9 = CHR ''9'' \<and> hex_digit 10 = CHR ''a'' \<and> hex_digit 11 = CHR ''b''"
    by (simp add: hex_digit_def byte_unfold)
  moreover have "[0..<36] = [0,1,2,3,4,5,6,7,8,9,10,11,12,13,14,15,16,17,18,19,20,21,22,23,24,25,26,27,28,29,30,31,32,33,34,35]"
    by (simp add: upt_rec)
  moreover have "hex_char (CHR ''8'')" using hex_char_digit [of 8] calculation(1) by simp
  ultimately show ?thesis using assms unat_byte_div
    by (auto simp: uuid_text_def hex_byte_def)
qed

lemma list_16:
  assumes "length b = 16"
  obtains b0 b1 b2 b3 b4 b5 b6 b7 b8 b9 b10 b11 b12 b13 b14 b15
  where "b = [b0, b1, b2, b3, b4, b5, b6, b7, b8, b9, b10, b11, b12, b13, b14, b15]"
  using assms by (auto simp: numeral_eq_Suc length_Suc_conv)

lemma uuid_from_digest_text:
  assumes "16 \<le> length d"
  shows "\<exists>u. uuid_from_digest d = Some u \<and> uuid_text u"
proof -
  have "length (take 16 d) = 16" using assms by simp
  then obtain b0 b1 b2 b3 b4 b5 b6 b7 b8 b9 b10 b11 b12 b13 b14 b15
    where b: "take 16 d = [b0, b1, b2, b3, b4, b5, b6, b7, b8, b9, b10, b11, b12, b13, b14, b15]"
    by (rule list_16)
  show ?thesis
    using uuid_text_bytes [OF version_nibble [of b6] variant_nibble [of b8],
        of b0 b1 b2 b3 b4 b5 b7 b9 b10 b11 b12 b13 b14 b15] assms
    by (simp add: uuid_from_digest_def b)
qed

subsection \<open>Echoes\<close>

text \<open>The text a message of a role has in a response item, in an event, and in an entry.\<close>

definition item_says :: "string \<Rightarrow> codex_entry \<Rightarrow> string option" where
  "item_says role e = (case cx_item e of
      XResponseItem ri \<Rightarrow> (case ri_payload ri of
          RMessage r content _ \<Rightarrow> if r = Some role then Some (blocks_text content) else None
        | _ \<Rightarrow> None)
    | _ \<Rightarrow> None)"

definition echo_says :: "string \<Rightarrow> codex_entry \<Rightarrow> string option" where
  "echo_says role e = (case cx_item e of
      XEventMsg (EUserMessage message _ _ _) \<Rightarrow>
        if role = ''user'' then Some (opt_default [] message) else None
    | XEventMsg (EAgentMessage message _ _) \<Rightarrow>
        if role = ''assistant'' then Some (opt_default [] message) else None
    | _ \<Rightarrow> None)"

definition entry_says :: "string \<Rightarrow> entry \<Rightarrow> string option" where
  "entry_says role e = (case e of
      User u \<Rightarrow> (case ue_content u of
          Plain t \<Rightarrow> if role = ''user'' then Some t else None
        | _ \<Rightarrow> None)
    | Assistant a \<Rightarrow> (case as_blocks a of
          [CText t] \<Rightarrow> if role = ''assistant'' then Some t else None
        | _ \<Rightarrow> None)
    | _ \<Rightarrow> None)"

definition echoes_of :: "string \<Rightarrow> string set \<times> string set \<Rightarrow> string set" where
  "echoes_of role p = (if role = ''user'' then fst p else snd p)"

lemma echo_step_says:
  assumes "role \<in> {''user'', ''assistant''}"
  shows "t \<in> echoes_of role (echo_step p e) \<longleftrightarrow> t \<in> echoes_of role p \<or> item_says role e = Some t"
  using assms by (cases p) (auto simp: echoes_of_def echo_step_def item_says_def
      split: codex_item.split response_payload.split)

lemma echo_sets_says:
  assumes "role \<in> {''user'', ''assistant''}"
  shows "t \<in> echoes_of role (echo_sets s) \<longleftrightarrow> (\<exists>e\<in>set (xs_entries s). item_says role e = Some t)"
proof -
  have "t \<in> echoes_of role (foldl echo_step p es) \<longleftrightarrow>
      t \<in> echoes_of role p \<or> (\<exists>e\<in>set es. item_says role e = Some t)" for p es
    by (induction es arbitrary: p) (auto simp: echo_step_says [OF assms])
  then show ?thesis by (auto simp: echo_sets_def echoes_of_def)
qed

lemma lower_entry_echo:
  assumes "role \<in> {''user'', ''assistant''}" "echo_says role e = Some t" "cx_timestamp e \<noteq> None"
    and "lower_entry env sha e pos prev th cwd models ut ast = Some x"
  shows "entry_says role x = (if t \<in> echoes_of role (ut, ast) then None else Some t)"
  using assms by (auto simp: lower_entry_def echo_says_def lower_event_def entry_says_def echoes_of_def Let_def
      event_other_def codex_user_entry_def codex_assistant_entry_def bind_eq_Some_conv
      split: option.splits codex_item.splits event_msg.splits if_splits)

lemma lower_entry_item:
  assumes "role \<in> {''user'', ''assistant''}" "item_says role e = Some t" "cx_timestamp e \<noteq> None"
    and "lower_entry env sha e pos prev th cwd models ut ast = Some x"
  shows "entry_says role x = Some t"
proof -
  obtain ts ri content ph where e: "cx_timestamp e = Some ts" "cx_item e = XResponseItem ri"
      "ri_payload ri = RMessage (Some role) content ph" "t = blocks_text content"
    using assms(2,3) by (auto simp: item_says_def split: codex_item.splits response_payload.splits if_splits)
  show ?thesis using assms(1,4) e
    by (auto simp: lower_entry_def lower_payload_def entry_says_def Let_def codex_user_entry_def
        codex_assistant_entry_def bind_eq_Some_conv)
qed

lemma lower_entries:
  assumes "lower env sha s = Some low"
  shows "list_all2 (\<lambda>e x. \<exists>pos prev cwd. lower_entry env sha e pos prev
      (opt_default [] (xs_rollout_thread_id s)) cwd (model_timeline s) (fst (echo_sets s)) (snd (echo_sets s)) = Some x)
    (xs_entries s) (cl_entries low)"
  using assms by (auto simp: lower_def Let_def split: prod.splits dest!: lower_from_nth)


subsection \<open>Arenas\<close>

text \<open>The one entry whose value is built by the lowering and is no part of a line's DOM.\<close>

definition built_value :: "codex_entry \<Rightarrow> bool" where
  "built_value e = (case cx_item e of XInterAgentCommunicationMetadata _ \<Rightarrow> True | _ \<Rightarrow> False)"

lemma retains_simps [simp]:
  "retains_line (Other x) = pins_arena (oe_raw x)"
  "retains_line (codex_user_entry (Plain t) m intr) = False"
  "retains_line (codex_assistant_entry model [CText t] m) = False"
  "retains_line (codex_assistant_entry model [CThinking t] m) = False"
  "retains_line (tool_use_entry i n v m model) = False"
  "retains_line (tool_result_entry env i v m) = (as_str v = None \<and> \<not> is_null v \<and> pins_arena v)"
  by (simp_all add: retains_line_def codex_user_entry_def codex_assistant_entry_def tool_use_entry_def
      tool_result_entry_def tool_results_def blocks_def user_blocks_def block_tool_result_def
      List.map_filter_simps)

lemma pins_null [simp]: "\<not> pins_arena JNull"
  by (simp add: pins_arena_def)

lemma payload_other_retains:
  "retains_line (payload_other p) \<Longrightarrow> is_some_and pins_arena (payload_dom p)"
  by (cases "payload_dom p") (simp_all add: payload_other_def payload_raw_def)

lemma event_other_retains:
  "retains_line (event_other em) \<Longrightarrow> is_some_and pins_arena (event_dom em)"
  by (cases "event_dom em") (simp_all add: event_other_def event_raw_def)

lemma payload_dom_line:
  "is_some_and pins_arena (payload_dom (ri_payload ri)) \<Longrightarrow> is_some_and pins_arena (line_dom (XResponseItem ri))"
  by (cases "ri_payload ri") simp_all

lemma lower_payload_retains:
  assumes "lower_payload env (ri_payload ri) prev u th ts cwd model = Some x" "retains_line x"
  shows "is_some_and pins_arena (line_dom (XResponseItem ri))"
proof (cases "x = payload_other (ri_payload ri)")
  case True
  then show ?thesis using assms(2) payload_other_retains payload_dom_line by blast
next
  case False
  then show ?thesis using assms
    by (auto simp: lower_payload_def Let_def bind_eq_Some_conv
        split: response_payload.splits option.splits if_splits)
qed

lemma lower_event_retains:
  assumes "retains_line (lower_event em u th ts cwd model ut ast)"
  shows "is_some_and pins_arena (line_dom (XEventMsg em))"
proof (cases "lower_event em u th ts cwd model ut ast = event_other em")
  case True
  then show ?thesis using assms event_other_retains by simp
next
  case False
  then show ?thesis using assms by (cases em) (auto simp: lower_event_def Let_def split: if_splits)
qed

lemma item_other_retains:
  assumes "retains_line (item_other env item)" "\<forall>b. item \<noteq> XInterAgentCommunicationMetadata b" "\<forall>y. item \<noteq> XOther y"
  shows "is_some_and pins_arena (line_dom item)"
  using assms
proof (cases item)
  case (XResponseItem ri)
  then show ?thesis using assms payload_other_retains payload_dom_line by auto
next
  case (XEventMsg em)
  then show ?thesis using assms event_other_retains by auto
qed auto

lemma lower_entry_retains:
  assumes "lower_entry env sha e pos prev th cwd models ut ast = Some x" "retains_line x"
    "\<not> built_value e" "\<forall>y. cx_item e \<noteq> XOther y"
  shows "is_some_and pins_arena (line_dom (cx_item e))"
proof -
  have nb: "\<forall>b. cx_item e \<noteq> XInterAgentCommunicationMetadata b" using assms(3) by (auto simp: built_value_def)
  show ?thesis
  proof (cases "x = item_other env (cx_item e)")
    case True
    then show ?thesis using assms nb item_other_retains by blast
  next
    case False
    then show ?thesis using assms lower_payload_retains lower_event_retains
      by (auto simp: lower_entry_def Let_def bind_eq_Some_conv split: option.splits codex_item.splits)
  qed
qed

lemma lower_other_entry:
  assumes "lower_entry env sha e pos prev th cwd models ut ast = Some x" "cx_item e = XOther y"
  obtains z where "x = Other z"
  using assms by (auto simp: lower_entry_def split: option.splits)

lemma lowered_arenas_iff:
  assumes pl: "parsed_line env i line e"
    and low: "lower_entry env sha e pos prev th cwd models ut ast = Some x"
  shows "\<exists>a. lowered_arenas e x = (if retains_line x \<and> \<not> built_value e then [a] else [])"
proof (cases "\<exists>y. cx_item e = XOther y")
  case True
  then obtain y where y: "cx_item e = XOther y" by blast
  obtain z where "x = Other z" using lower_other_entry [OF low y] .
  then show ?thesis using y by (simp add: lowered_arenas_def built_value_def)
next
  case False
  have arenas: "lowered_arenas e x = (if retains_line x then opt_list (cx_source e) else [])"
    using False by (cases "cx_item e") (auto simp: lowered_arenas_def opt_list_def split: option.split)
  obtain v n where src: "cx_source e = (if is_some_and pins_arena (line_dom (cx_item e)) then Some (v, n) else None)"
    using pl False by (auto simp: parsed_line_def)
  show ?thesis
  proof (cases "built_value e")
    case True
    then have "line_dom (cx_item e) = None" by (simp add: built_value_def split: codex_item.splits)
    then show ?thesis using arenas src True by simp
  next
    case nb: False
    then show ?thesis using arenas src lower_entry_retains [OF low _ nb] False by auto
  qed
qed


subsection \<open>Totals\<close>

definition token_infos :: "codex_entry list \<Rightarrow> token_usage_info option list" where
  "token_infos es = List.map_filter (\<lambda>e. case cx_item e of
      XEventMsg (ETokenCount info _) \<Rightarrow> Some info
    | _ \<Rightarrow> None) es"

definition last_some :: "('a \<Rightarrow> 'b option) \<Rightarrow> 'a list \<Rightarrow> 'b option" where
  "last_some f xs = (let ys = List.map_filter f xs in if ys = [] then None else Some (last ys))"

lemma map_filter_snoc: "List.map_filter f (xs @ [x]) = List.map_filter f xs @ opt_list (f x)"
  by (induction xs) (auto simp: List.map_filter_simps opt_list_def split: option.splits)

lemma last_some_snoc: "last_some f (xs @ [x]) = opt_or (f x) (last_some f xs)"
  by (cases "f x") (auto simp: last_some_def map_filter_snoc Let_def)

lemma last_some_Nil [simp]: "last_some f [] = None"
  by (simp add: last_some_def List.map_filter_simps)

text \<open>The totals of the last count that carried totals, the last window size, the number of counts.\<close>

definition usage_spec :: "token_usage_info option list \<Rightarrow> codex_usage_aggregate" where
  "usage_spec infos =
     (let totals = last_some (\<lambda>i. Option.bind i ti_total_token_usage) infos;
          of_total = (\<lambda>f. Option.bind totals f)
      in \<lparr>ca_input_tokens = of_total tk_input_tokens, ca_cached_input_tokens = of_total tk_cached_input_tokens,
          ca_output_tokens = of_total tk_output_tokens, ca_reasoning_output_tokens = of_total tk_reasoning_output_tokens,
          ca_total_tokens = of_total tk_total_tokens,
          ca_model_context_window = last_some (\<lambda>i. Option.bind i ti_model_context_window) infos,
          ca_token_count_events = length infos\<rparr>)"

lemma token_infos_snoc:
  "token_infos (es @ [e]) = token_infos es @ (case cx_item e of
      XEventMsg (ETokenCount info _) \<Rightarrow> [info] | _ \<Rightarrow> [])"
  by (simp add: token_infos_def map_filter_snoc split: codex_item.split event_msg.split)

lemma usage_aggregate_spec: "usage_aggregate s = usage_spec (token_infos (xs_entries s))"
proof -
  have "foldl usage_step usage_default es = usage_spec (token_infos es)" for es
  proof (induction es rule: rev_induct)
    case Nil
    then show ?case by (simp add: usage_default_def usage_spec_def token_infos_def List.map_filter_simps Let_def)
  next
    case (snoc e es)
    show ?case
    proof (cases "\<exists>info r. cx_item e = XEventMsg (ETokenCount info r)")
      case True
      then obtain info r where e: "cx_item e = XEventMsg (ETokenCount info r)" by blast
      show ?thesis using snoc e
        by (cases info) (auto simp: token_infos_snoc usage_step_def usage_spec_def last_some_snoc Let_def
            split: option.split)
    next
      case False
      then have "usage_step a e = a" "token_infos (es @ [e]) = token_infos es" for a
        by (auto simp: usage_step_def token_infos_snoc split: codex_item.split event_msg.split)
      then show ?thesis using snoc by simp
    qed
  qed
  then show ?thesis by (simp add: usage_aggregate_def)
qed


subsection \<open>Properties\<close>

text \<open>The parse of a rollout is line-wise: the entries are those of the newline-separated
  lines in file order, each line read at its own index, and the session is folded from them;
  it stops at the first line whose duplicate keys fail to reparse.\<close>

theorem codex_parse_linewise:
  "parse_codex_bytes env bytes =
     res_bind (map_res (\<lambda>(k, line). codex_line env k line) (enumerate 0 (split_char (byte 10) bytes)))
       (\<lambda>ess. Inr (fold_session (concat ess)))"
  by (rule parse_codex_lines)

text \<open>C21: a parsed rollout lowers without panic, to exactly one entry per non-blank line, in line
  order. The entry of a timed line that is a message carries the session of the rollout and
  the time of the line; an untimed line stays an entry of its own type. The usage is that of
  the last token counts. SHA-256 gives at least sixteen bytes.\<close>

theorem codex_lowering_total:
  assumes "parse_codex_bytes env bytes = Inr s" "\<forall>x. 16 \<le> length (sha x)"
  shows "\<exists>low. lower env sha s = Some low \<and>
    map cx_line_index (xs_entries s) =
      map fst (filter (\<lambda>(_, l). \<not> blank_line l) (enumerate 0 (split_char (byte 10) bytes))) \<and>
    list_all2 (entry_lowered (opt_default [] (xs_rollout_thread_id s))) (xs_entries s) (cl_entries low) \<and>
    cl_usage low = usage_spec (token_infos (xs_entries s))"
proof -
  obtain ess where ess: "map_res (\<lambda>(k, line). codex_line env k line) (enumerate 0 (split_char (byte 10) bytes)) = Inr ess"
    "s = fold_session (concat ess)"
    using assms(1) by (auto simp: parse_codex_lines res_bind_Inr_iff)
  have "\<forall>e\<in>set (xs_entries s). item_ok (cx_item e)"
    using parse_codex_items_ok [OF assms(1)] parsed_line_ok by blast
  from lower_total [OF assms(2) this] obtain low where low: "lower env sha s = Some low"
    "list_all2 (entry_lowered (opt_default [] (xs_rollout_thread_id s))) (xs_entries s) (cl_entries low)"
    by blast
  have "cl_usage low = usage_aggregate s"
    using low(1) by (auto simp: lower_def Let_def split: prod.splits)
  then show ?thesis using low codex_lines_indexes [OF ess(1)] ess(2) by (simp add: usage_aggregate_spec)
qed

text \<open>A rollout of a message, a blank line and a line that is no JSON.\<close>

definition sample_message :: json where
  "sample_message = JObject [(''type'', JString ''response_item''), (''timestamp'', JString ''2''),
     (''payload'', JObject [(''type'', JString ''message''), (''role'', JString ''user''),
        (''content'', JArray [JObject [(''text'', JString ''hi'')]])])]"

definition sample_rollout_env :: env where
  "sample_rollout_env = sample_env [(''m'', sample_message)]"

definition sample_rollout :: string where
  "sample_rollout = ''m'' @ [byte 10, byte 10] @ ''x''"

definition sample_sha :: "string \<Rightarrow> 8 word list" where
  "sample_sha x = replicate 32 (of_nat (length x))"

lemma sample_sha_long: "\<forall>x. 16 \<le> length (sample_sha x)"
  by (simp add: sample_sha_def)

definition sample_time_2 :: datetime where
  "sample_time_2 = \<lparr>dt_secs = 60, dt_nanos = 123456000, dt_offset = 0\<rparr>"

definition sample_item :: response_item where
  "sample_item = \<lparr>ri_id = None, ri_turn_id = None,
     ri_payload = RMessage (Some ''user'') [JObject [(''text'', JString ''hi'')]] None\<rparr>"

lemma sample_message_item: "parse_codex_item sample_message line = XResponseItem sample_item"
  by (simp add: parse_codex_item_def sample_message_def field_str_def parse_response_item_def
      parse_response_payload_def passthrough_turn_id_def array_values_def sample_item_def or_null_def Let_def)

lemma sample_message_line:
  "codex_line sample_rollout_env 0 ''m'' = Inr [\<lparr>cx_line_index = 0, cx_timestamp = Some sample_time_2,
     cx_item = XResponseItem sample_item, cx_source = None\<rparr>]"
proof -
  have "deduplicated sample_rollout_env sample_message = Inr None"
    by (simp add: deduplicated_def sample_message_def)
  moreover have "field_str sample_message ''timestamp'' = Some ''2''"
    by (simp add: field_str_def sample_message_def)
  moreover have "parse_timestamp sample_rollout_env ''2'' = Inr sample_time_2"
    by (simp add: parse_timestamp_def sample_rollout_env_def sample_env_def sample_time_def sample_time_2_def)
  ultimately show ?thesis
    by (simp add: codex_line_def sample_rollout_env_def sample_message_item is_ascii_whitespace_def
        sum_option_def sample_item_def byte_unfold)
qed

lemma sample_other_line:
  "codex_line sample_rollout_env 2 ''x'' = Inr [\<lparr>cx_line_index = 2, cx_timestamp = None,
     cx_item = XOther \<lparr>xo_ty = None, xo_raw = ''x''\<rparr>, cx_source = None\<rparr>]"
  by (simp add: codex_line_def sample_rollout_env_def is_ascii_whitespace_def byte_unfold)

definition sample_session :: codex_session where
  "sample_session = fold_session [\<lparr>cx_line_index = 0, cx_timestamp = Some sample_time_2,
       cx_item = XResponseItem sample_item, cx_source = None\<rparr>,
     \<lparr>cx_line_index = 2, cx_timestamp = None, cx_item = XOther \<lparr>xo_ty = None, xo_raw = ''x''\<rparr>, cx_source = None\<rparr>]"

lemma sample_rollout_parses: "parse_codex_bytes sample_rollout_env sample_rollout = Inr sample_session"
proof -
  have "split_char (byte 10) sample_rollout = [''m'', [], ''x'']"
    by (simp add: sample_rollout_def byte_unfold)
  then show ?thesis
    using sample_other_line by (simp add: parse_codex_lines sample_message_line sample_session_def numeral_2_eq_2)
qed

theorem codex_lowering_total_witness:
  "\<exists>low. lower sample_rollout_env sample_sha sample_session = Some low \<and> length (cl_entries low) = 2"
proof -
  have "length (xs_entries sample_session) = 2" by (simp add: sample_session_def)
  then show ?thesis
    using codex_lowering_total [OF sample_rollout_parses sample_sha_long] by (auto dest: list_all2_lengthD)
qed

text \<open>C22: echoes. Codex writes a message as a response item and again as an event. A timed event
  message is shown, with its text, exactly when no response item of its role has the same
  text; and if every such response item is timed, the text is shown by some entry in either
  case: no message is lost to the suppression.\<close>

theorem codex_echo_shown:
  assumes role: "role \<in> {''user'', ''assistant''}"
    and low: "lower env sha s = Some low"
    and i: "i < length (xs_entries s)" "echo_says role (xs_entries s ! i) = Some t"
    and timed: "cx_timestamp (xs_entries s ! i) \<noteq> None"
    and items: "list_all (\<lambda>e. item_says role e = Some t \<longrightarrow> cx_timestamp e \<noteq> None) (xs_entries s)"
  shows "entry_says role (cl_entries low ! i) =
      (if list_ex (\<lambda>e. item_says role e = Some t) (xs_entries s) then None else Some t) \<and>
    list_ex (\<lambda>e. entry_says role e = Some t) (cl_entries low)"
proof -
  have ents: "length (cl_entries low) = length (xs_entries s)"
    "\<And>j. j < length (xs_entries s) \<Longrightarrow> \<exists>pos prev cwd. lower_entry env sha (xs_entries s ! j) pos prev
      (opt_default [] (xs_rollout_thread_id s)) cwd (model_timeline s) (fst (echo_sets s)) (snd (echo_sets s))
      = Some (cl_entries low ! j)"
    using lower_entries [OF low] by (auto simp: list_all2_conv_all_nth)
  have says: "t \<in> echoes_of role (echo_sets s) \<longleftrightarrow> list_ex (\<lambda>e. item_says role e = Some t) (xs_entries s)"
    by (simp add: echo_sets_says [OF role] list_ex_iff)
  have shown: "entry_says role (cl_entries low ! i) =
      (if list_ex (\<lambda>e. item_says role e = Some t) (xs_entries s) then None else Some t)"
    using ents(2) [OF i(1)] lower_entry_echo [OF role i(2) timed] says by auto
  have "list_ex (\<lambda>e. entry_says role e = Some t) (cl_entries low)"
  proof (cases "list_ex (\<lambda>e. item_says role e = Some t) (xs_entries s)")
    case True
    then obtain j where j: "j < length (xs_entries s)" "item_says role (xs_entries s ! j) = Some t"
      by (auto simp: list_ex_length)
    then have "cx_timestamp (xs_entries s ! j) \<noteq> None" using items by (auto simp: list_all_length)
    then have "entry_says role (cl_entries low ! j) = Some t"
      using ents(2) [OF j(1)] lower_entry_item [OF role j(2)] by blast
    then show ?thesis using j(1) ents(1) by (auto simp: list_ex_length)
  next
    case False
    then show ?thesis using shown i(1) ents(1) by (auto simp: list_ex_length)
  qed
  then show ?thesis using shown by blast
qed

text \<open>A message and its event.\<close>

definition sample_echo_session :: codex_session where
  "sample_echo_session = fold_session [\<lparr>cx_line_index = 0, cx_timestamp = Some sample_time_2,
       cx_item = XResponseItem sample_item, cx_source = None\<rparr>,
     \<lparr>cx_line_index = 1, cx_timestamp = Some sample_time_2,
       cx_item = XEventMsg (EUserMessage (Some ''hi'') None None None), cx_source = None\<rparr>]"

lemma sample_echo_says:
  "echo_says ''user'' (xs_entries sample_echo_session ! 1) = Some ''hi''"
  "list_all (\<lambda>e. cx_timestamp e \<noteq> None \<and> item_ok (cx_item e)) (xs_entries sample_echo_session)"
  "list_ex (\<lambda>e. item_says ''user'' e = Some ''hi'') (xs_entries sample_echo_session)"
  by (simp_all add: sample_echo_session_def echo_says_def item_says_def sample_item_def item_ok_def payload_ok_def
      blocks_text_def field_str_def List.map_filter_simps)

theorem codex_echo_shown_witness:
  "\<exists>low. lower sample_rollout_env sample_sha sample_echo_session = Some low \<and>
    entry_says ''user'' (cl_entries low ! 1) = None \<and> list_ex (\<lambda>e. entry_says ''user'' e = Some ''hi'') (cl_entries low)"
proof -
  have "\<exists>low. lower sample_rollout_env sample_sha sample_echo_session = Some low"
    using lower_total [of sample_sha sample_echo_session sample_rollout_env] sample_sha_long sample_echo_says(2)
    unfolding list_all_iff by blast
  then obtain low where low: "lower sample_rollout_env sample_sha sample_echo_session = Some low" by blast
  have "length (xs_entries sample_echo_session) = 2" by (simp add: sample_echo_session_def)
  moreover have "cx_timestamp (xs_entries sample_echo_session ! 1) \<noteq> None" by (simp add: sample_echo_session_def)
  ultimately show ?thesis
    using codex_echo_shown [OF _ low _ sample_echo_says(1)] sample_echo_says(2,3) low
    by (simp add: list_all_iff)
qed

text \<open>The identifier of a lowered entry is the text of a UUID: eight, four, four, four and
  twelve lower-case hexadecimal digits, of version 8 and the RFC variant, whatever the digest.\<close>

theorem codex_event_uuid:
  assumes "\<forall>x. 16 \<le> length (sha x)"
  shows "\<exists>u. event_uuid sha thread_id ri i = Some u \<and> uuid_text u"
  unfolding event_uuid_def Let_def by (rule uuid_from_digest_text) (simp add: assms)

theorem codex_event_uuid_witness:
  "\<exists>u. event_uuid sample_sha ''t1'' None 3 = Some u \<and> uuid_text u"
  by (rule codex_event_uuid [OF sample_sha_long])

text \<open>Arenas. For a parsed rollout and its lowering, the arenas accounted are those of exactly
  the entries that keep a value of their line's DOM, one each, in order; the value the
  lowering builds itself (the trigger of an agent's communication) needs none.\<close>

theorem codex_arenas_exact:
  assumes parse: "parse_codex_bytes env bytes = Inr s" and low: "lower env sha s = Some low"
  shows "map_option (map fst) (session_arenas s (cl_entries low)) =
    Some (filter (\<lambda>i. retains_line (cl_entries low ! i) \<and> \<not> built_value (xs_entries s ! i))
            [0..<length (xs_entries s)])"
proof -
  let ?es = "xs_entries s" and ?xs = "cl_entries low"
  let ?keep = "\<lambda>i. retains_line (?xs ! i) \<and> \<not> built_value (?es ! i)"
  have len: "length ?xs = length ?es" using lower_entries [OF low] by (simp add: list_all2_lengthD)
  have one: "\<exists>a. lowered_arenas (?es ! i) (?xs ! i) = (if ?keep i then [a] else [])" if i: "i < length ?es" for i
  proof -
    obtain k line where "parsed_line env k line (?es ! i)"
      using parse_codex_items_ok [OF parse] i nth_mem by blast
    then show ?thesis
      using lowered_arenas_iff lower_entries [OF low] i unfolding list_all2_conv_all_nth by blast
  qed
  have zip: "enumerate 0 (zip ?es ?xs) = map (\<lambda>i. (i, ?es ! i, ?xs ! i)) [0..<length ?es]"
    by (rule nth_equalityI) (use len in \<open>simp_all add: nth_enumerate_eq\<close>)
  have "map fst (concat (map (\<lambda>i. map (Pair i) (lowered_arenas (?es ! i) (?xs ! i))) [0..<n])) =
      filter ?keep [0..<n]" if "n \<le> length ?es" for n
    using that
  proof (induction n)
    case (Suc n)
    then show ?case using one [of n] by auto
  qed simp
  then show ?thesis using len by (simp add: session_arenas_def zip comp_def)
qed

theorem codex_arenas_exact_witness:
  "\<exists>low. lower sample_rollout_env sample_sha sample_session = Some low \<and>
    map_option (map fst) (session_arenas sample_session (cl_entries low)) =
      Some (filter (\<lambda>i. retains_line (cl_entries low ! i) \<and> \<not> built_value (xs_entries sample_session ! i)) [0..<2])"
proof -
  obtain low where low: "lower sample_rollout_env sample_sha sample_session = Some low"
    using lower_total [of sample_sha sample_session] sample_sha_long
      parse_codex_items_ok [OF sample_rollout_parses] parsed_line_ok by blast
  have "length (xs_entries sample_session) = 2" by (simp add: sample_session_def)
  then show ?thesis using codex_arenas_exact [OF sample_rollout_parses low] low by simp
qed

end
