(* ===== verification/Ledger.thy ===== *)
theory Ledger
  imports Prelude "HOL-Library.AList" "HOL-Library.Word" "HOL-Library.Monad_Syntax"
begin

text \<open>
  \<open>snapshot_ledger.rs\<close>: the ledger of retained bytes. Predicted capacities, the table that holds
  its reservation, the charges of a table's entries, allocations shared by several owners, and
  the two indexes of deadlines. A failed assertion or \<open>expect\<close> is \<^const>\<open>None\<close>; the sizes of
  element types are arguments, and so is the capacity a hash table reports, a choice of its
  allocator. Counts of bytes are unbounded (their overflow would exhaust the memory first),
  except the multiplication the code checks; the count of an allocation's owners is the
  code's \<open>u32\<close> and wraps, as the arithmetic of the release profile does. A binary heap may pop any of its greatest
  elements: the choice is an argument.
\<close>

subsection \<open>Capacities\<close>

definition USIZE_MAX :: nat where
  "USIZE_MAX = 2 ^ 64 - 1"

definition bucket_mask_to_capacity :: "nat \<Rightarrow> nat" where
  "bucket_mask_to_capacity m = (if m < 8 then m else (m + 1) div 8 * 7)"

text \<open>\<open>usize::next_power_of_two\<close>.\<close>

function npot_from :: "nat \<Rightarrow> nat \<Rightarrow> nat" where
  "npot_from p n = (if p = 0 \<or> n \<le> p then p else npot_from (2 * p) n)"
  by pat_completeness auto
termination by (relation "measure (\<lambda>(p, n). n - p)") auto

declare npot_from.simps [simp del]

definition next_power_of_two :: "nat \<Rightarrow> nat" where
  "next_power_of_two n = npot_from 1 n"

definition capacity_to_buckets :: "nat \<Rightarrow> nat \<Rightarrow> nat \<Rightarrow> nat option" where
  "capacity_to_buckets group_width cap element_size =
     (if cap < 15 then
        (let min_cap = (if group_width = 16 \<and> element_size \<le> 1 then 14
                        else if group_width = 16 \<and> 2 \<le> element_size \<and> element_size \<le> 3 \<or>
                                group_width = 8 \<and> element_size \<le> 1 then 7
                        else 3);
             m = max min_cap cap
         in Some (if m \<le> 3 then 4 else if m \<le> 7 then 8 else 16))
      else if USIZE_MAX < cap * 8 then None
      else Some (next_power_of_two (cap * 8 div 7)))"

definition hashbrown_tier :: "nat \<Rightarrow> nat \<Rightarrow> nat \<Rightarrow> nat option" where
  "hashbrown_tier group_width cap element_size =
     map_option (\<lambda>b. bucket_mask_to_capacity (b - 1)) (capacity_to_buckets group_width cap element_size)"

definition is_hashbrown_tier :: "nat \<Rightarrow> bool" where
  "is_hashbrown_tier r \<longleftrightarrow> r = 0 \<or> list_ex (\<lambda>bits. bucket_mask_to_capacity (2 ^ bits - 1) = r) [2..<64]"

definition min_non_zero_cap :: "nat \<Rightarrow> nat" where
  "min_non_zero_cap element_size =
     (if element_size = 1 then 8 else if 2 \<le> element_size \<and> element_size \<le> 1024 then 4 else 1)"

definition vec_capacity_after :: "nat \<Rightarrow> nat \<Rightarrow> nat \<Rightarrow> nat \<Rightarrow> nat" where
  "vec_capacity_after cap len additional element_size =
     (if additional \<le> cap - len then cap
      else max (max (cap * 2) (len + additional)) (min_non_zero_cap element_size))"

subsection \<open>Tables\<close>

record ('k, 'v) ledger_table =
  tb_map :: "('k \<times> 'v) list"
  tb_reserved :: nat

definition table_new :: "('k, 'v) ledger_table" where
  "table_new = \<lparr>tb_map = [], tb_reserved = 0\<rparr>"

text \<open>The platform of a table, and the capacities its hash map reports around one call.\<close>

record table_env =
  te_group_width :: nat
  te_entry_size :: nat
  te_before :: nat
  te_after :: nat

definition reserved_bytes :: "nat \<Rightarrow> ('k, 'v) ledger_table \<Rightarrow> nat" where
  "reserved_bytes entry_size t = tb_reserved t * entry_size"

definition tier_after :: "table_env \<Rightarrow> ('k, 'v) ledger_table \<Rightarrow> nat \<Rightarrow> nat option" where
  "tier_after te t additional =
     (if additional \<le> te_before te - length (tb_map t) then Some (tb_reserved t)
      else let items = length (tb_map t) + additional in
        if items \<le> tb_reserved t div 2 then Some (tb_reserved t)
        else hashbrown_tier (te_group_width te) (max items (tb_reserved t + 1)) (te_entry_size te))"

definition table_growth :: "table_env \<Rightarrow> ('k, 'v) ledger_table \<Rightarrow> nat \<Rightarrow> nat option" where
  "table_growth te t additional =
     map_option (\<lambda>r. (r - tb_reserved t) * te_entry_size te) (tier_after te t additional)"

definition settle :: "table_env \<Rightarrow> nat \<Rightarrow> ('k, 'v) ledger_table \<Rightarrow> ('k, 'v) ledger_table option" where
  "settle te predicted t =
     (let r = max (tb_reserved t) (te_after te)
      in if r = predicted then Some (t\<lparr>tb_reserved := r\<rparr>) else None)"

definition table_reserve :: "table_env \<Rightarrow> nat \<Rightarrow> ('k, 'v) ledger_table \<Rightarrow> ('k, 'v) ledger_table option" where
  "table_reserve te additional t = do {
     predicted \<leftarrow> tier_after te t additional;
     settle te predicted t }"

definition table_get :: "('k, 'v) ledger_table \<Rightarrow> 'k \<Rightarrow> 'v option" where
  "table_get t k = map_of (tb_map t) k"

definition table_put :: "'k \<Rightarrow> 'v \<Rightarrow> ('k, 'v) ledger_table \<Rightarrow> ('k, 'v) ledger_table" where
  "table_put k v t = t\<lparr>tb_map := AList.update k v (tb_map t)\<rparr>"

definition table_insert ::
  "table_env \<Rightarrow> 'k \<Rightarrow> 'v \<Rightarrow> ('k, 'v) ledger_table \<Rightarrow> ('v option \<times> ('k, 'v) ledger_table) option" where
  "table_insert te k v t = do {
     predicted \<leftarrow> tier_after te t 1;
     (case table_get t k of
        Some old \<Rightarrow> Some (Some old, table_put k v t)
      | None \<Rightarrow> map_option (Pair None) (settle te predicted (table_put k v t))) }"

definition table_remove :: "'k \<Rightarrow> ('k, 'v) ledger_table \<Rightarrow> ('k, 'v) ledger_table" where
  "table_remove k t = t\<lparr>tb_map := AList.delete k (tb_map t)\<rparr>"

definition table_retain :: "('k \<Rightarrow> 'v \<Rightarrow> bool) \<Rightarrow> ('k, 'v) ledger_table \<Rightarrow> ('k, 'v) ledger_table" where
  "table_retain keep t = t\<lparr>tb_map := filter (\<lambda>(k, v). keep k v) (tb_map t)\<rparr>"

definition checked_sub :: "nat \<Rightarrow> nat \<Rightarrow> nat option" where
  "checked_sub a b = (if b \<le> a then Some (a - b) else None)"

subsection \<open>Allocations with several owners\<close>

datatype anchor_kind = AEntries | AIndexes | AFacts | AWarm

record anchor =
  an_id :: nat
  an_bytes :: nat
  an_kind :: anchor_kind

text \<open>\<open>sh_registry\<close>: whether the allocation is an index registry, with a witness.\<close>

record shared =
  sh_owners :: "32 word"
  sh_bytes :: nat
  sh_kind :: anchor_kind
  sh_registry :: bool

record shared_allocations =
  sa_owners :: "(nat, shared) ledger_table"
  sa_entries :: nat
  sa_indexes :: nat
  sa_facts :: nat
  sa_warm :: nat

definition shared_new :: shared_allocations where
  "shared_new = \<lparr>sa_owners = table_new, sa_entries = 0, sa_indexes = 0, sa_facts = 0, sa_warm = 0\<rparr>"

fun sa_total :: "anchor_kind \<Rightarrow> shared_allocations \<Rightarrow> nat" where
  "sa_total AEntries s = sa_entries s"
| "sa_total AIndexes s = sa_indexes s"
| "sa_total AFacts s = sa_facts s"
| "sa_total AWarm s = sa_warm s"

fun set_total :: "anchor_kind \<Rightarrow> nat \<Rightarrow> shared_allocations \<Rightarrow> shared_allocations" where
  "set_total AEntries n s = s\<lparr>sa_entries := n\<rparr>"
| "set_total AIndexes n s = s\<lparr>sa_indexes := n\<rparr>"
| "set_total AFacts n s = s\<lparr>sa_facts := n\<rparr>"
| "set_total AWarm n s = s\<lparr>sa_warm := n\<rparr>"

definition put_owner :: "nat \<Rightarrow> shared \<Rightarrow> shared_allocations \<Rightarrow> shared_allocations" where
  "put_owner i x s = s\<lparr>sa_owners := table_put i x (sa_owners s)\<rparr>"

text \<open>The debug assertion on a re-acquired charge is one of the checks.\<close>

definition acquire :: "table_env \<Rightarrow> anchor \<Rightarrow> shared_allocations \<Rightarrow> shared_allocations option" where
  "acquire te a s = (case table_get (sa_owners s) (an_id a) of
      Some existing \<Rightarrow>
        (if sh_bytes existing = an_bytes a \<and> sh_kind existing = an_kind a
         then Some (put_owner (an_id a) (existing\<lparr>sh_owners := sh_owners existing + 1\<rparr>) s) else None)
    | None \<Rightarrow> do {
        (_, t) \<leftarrow> table_insert te (an_id a)
          \<lparr>sh_owners = 1, sh_bytes = an_bytes a, sh_kind = an_kind a, sh_registry = False\<rparr> (sa_owners s);
        Some (set_total (an_kind a) (sa_total (an_kind a) s + an_bytes a) (s\<lparr>sa_owners := t\<rparr>)) })"

definition acquire_index_owner :: "table_env \<Rightarrow> nat \<times> nat \<Rightarrow> shared_allocations \<Rightarrow> shared_allocations option" where
  "acquire_index_owner te allocation =
     acquire te \<lparr>an_id = fst allocation, an_bytes = snd allocation, an_kind = AIndexes\<rparr>"

definition registry_growth_bytes :: "shared_allocations \<Rightarrow> nat \<times> nat \<Rightarrow> nat" where
  "registry_growth_bytes s allocation = (case table_get (sa_owners s) (fst allocation) of
      None \<Rightarrow> 0
    | Some owner \<Rightarrow> snd allocation - sh_bytes owner)"

definition upsert_index_registry ::
  "table_env \<Rightarrow> nat \<times> nat \<Rightarrow> shared_allocations \<Rightarrow> (nat \<times> shared_allocations) option" where
  "upsert_index_registry te allocation s = (case allocation of (i, bytes) \<Rightarrow>
     (case table_get (sa_owners s) i of
        Some existing \<Rightarrow>
          (if sh_kind existing = AIndexes \<and> sh_owners existing = 1 \<and> sh_registry existing then
             (let bytes = max bytes (sh_bytes existing)
              in Some (bytes, put_owner i (existing\<lparr>sh_bytes := bytes\<rparr>)
                   (s\<lparr>sa_indexes := sa_indexes s + (bytes - sh_bytes existing)\<rparr>)))
           else None)
      | None \<Rightarrow> do {
          s \<leftarrow> acquire_index_owner te allocation s;
          existing \<leftarrow> table_get (sa_owners s) i;
          Some (bytes, put_owner i (existing\<lparr>sh_registry := True\<rparr>) s) }))"

text \<open>The witness of a registry reports its allocation, when it still has one, as an argument. An
  underflow of an unchecked subtraction is \<^const>\<open>None\<close> too.\<close>

definition refresh_index_registry ::
  "(nat \<times> nat) option \<Rightarrow> nat \<Rightarrow> shared_allocations \<Rightarrow> shared_allocations option" where
  "refresh_index_registry allocation i s = (case table_get (sa_owners s) i of
      None \<Rightarrow> Some s
    | Some existing \<Rightarrow>
        (if \<not> sh_registry existing then Some s
         else (case allocation of
             None \<Rightarrow> Some s
           | Some (current_id, bytes) \<Rightarrow>
               (if current_id \<noteq> i then None
                else if bytes \<le> sh_bytes existing then do {
                  n \<leftarrow> checked_sub (sa_indexes s) (sh_bytes existing - bytes);
                  Some (put_owner i (existing\<lparr>sh_bytes := bytes\<rparr>) (s\<lparr>sa_indexes := n\<rparr>)) }
                else Some s))))"

definition settle_existing_index_registry ::
  "table_env \<Rightarrow> (nat \<times> nat) option \<Rightarrow> shared_allocations \<Rightarrow> shared_allocations option" where
  "settle_existing_index_registry te allocation s = (case allocation of
      None \<Rightarrow> Some s
    | Some alloc \<Rightarrow>
        (if is_some_and sh_registry (table_get (sa_owners s) (fst alloc))
         then map_option snd (upsert_index_registry te alloc s) else Some s))"

definition retain_owner :: "nat \<Rightarrow> shared_allocations \<Rightarrow> shared_allocations option" where
  "retain_owner i s = do {
     existing \<leftarrow> table_get (sa_owners s) i;
     Some (put_owner i (existing\<lparr>sh_owners := sh_owners existing + 1\<rparr>) s) }"

definition release_owner :: "nat \<Rightarrow> shared_allocations \<Rightarrow> shared_allocations option" where
  "release_owner i s = do {
     existing \<leftarrow> table_get (sa_owners s) i;
     let left = sh_owners existing - 1 in
     if 0 < left then Some (put_owner i (existing\<lparr>sh_owners := left\<rparr>) s)
     else do {
       total \<leftarrow> checked_sub (sa_total (sh_kind existing) s) (sh_bytes existing);
       Some (set_total (sh_kind existing) total (s\<lparr>sa_owners := table_remove i (sa_owners s)\<rparr>)) } }"

text \<open>The bytes and the number of the anchors that are not owned yet, each counted once.\<close>

fun unowned_from :: "shared_allocations \<Rightarrow> nat list \<Rightarrow> anchor list \<Rightarrow> nat \<times> nat" where
  "unowned_from s seen [] = (0, 0)"
| "unowned_from s seen (a # as) =
     (if table_get (sa_owners s) (an_id a) = None \<and> an_id a \<notin> set seen
      then (case unowned_from s (an_id a # seen) as of (bytes, n) \<Rightarrow> (bytes + an_bytes a, n + 1))
      else unowned_from s seen as)"

definition unowned :: "shared_allocations \<Rightarrow> anchor list \<Rightarrow> nat \<times> nat" where
  "unowned s as = unowned_from s [] as"

definition admission :: "table_env \<Rightarrow> shared_allocations \<Rightarrow> anchor list \<Rightarrow> nat option" where
  "admission te s as = (case unowned s as of (bytes, additional) \<Rightarrow>
     map_option (\<lambda>g. bytes + g) (table_growth te (sa_owners s) additional))"

definition reserve_anchors :: "table_env \<Rightarrow> anchor list \<Rightarrow> shared_allocations \<Rightarrow> shared_allocations option" where
  "reserve_anchors te as s =
     map_option (\<lambda>t. s\<lparr>sa_owners := t\<rparr>) (table_reserve te (snd (unowned s as)) (sa_owners s))"


subsection \<open>Charged tables\<close>

record 'v slot =
  sl_value :: 'v
  sl_key_charge :: nat
  sl_charge :: nat
  sl_pledge :: nat

record ('k, 'v) ledgered =
  lg_map :: "('k, 'v slot) ledger_table"
  lg_charged :: nat

text \<open>The charges of a key and of a value: the trait \<open>Charge\<close>.\<close>

record ('k, 'v) charging =
  ch_key :: "'k \<Rightarrow> nat"
  ch_value :: "'v \<Rightarrow> nat"

definition ledgered_new :: "('k, 'v) ledgered" where
  "ledgered_new = \<lparr>lg_map = table_new, lg_charged = 0\<rparr>"

definition charged_bytes :: "('k, 'v) charging \<Rightarrow> 'k \<Rightarrow> 'v \<Rightarrow> nat" where
  "charged_bytes ch k v = ch_key ch k + ch_value ch v"

definition put_slot :: "'k \<Rightarrow> 'v slot \<Rightarrow> ('k, 'v) ledgered \<Rightarrow> ('k, 'v) ledgered" where
  "put_slot k sl l = l\<lparr>lg_map := table_put k sl (lg_map l)\<rparr>"

definition ledgered_get :: "('k, 'v) ledgered \<Rightarrow> 'k \<Rightarrow> 'v option" where
  "ledgered_get l k = map_option sl_value (table_get (lg_map l) k)"

text \<open>\<open>get_mut\<close>: the caller writes through the guard, whose drop settles the charge.\<close>

definition ledgered_modify ::
  "('k, 'v) charging \<Rightarrow> 'k \<Rightarrow> ('v \<Rightarrow> 'v) \<Rightarrow> ('k, 'v) ledgered \<Rightarrow> ('k, 'v) ledgered option" where
  "ledgered_modify ch k f l = (case table_get (lg_map l) k of
      None \<Rightarrow> Some l
    | Some sl \<Rightarrow> do {
        let v = f (sl_value sl);
        rest \<leftarrow> checked_sub (lg_charged l) (sl_charge sl);
        Some (put_slot k (sl\<lparr>sl_value := v, sl_charge := ch_value ch v\<rparr>) l\<lparr>lg_charged := rest + ch_value ch v\<rparr>) })"

definition pledge :: "'k \<Rightarrow> nat \<Rightarrow> ('k, 'v) ledgered \<Rightarrow> ('k, 'v) ledgered option" where
  "pledge k bytes l = do {
     sl \<leftarrow> table_get (lg_map l) k;
     Some (put_slot k (sl\<lparr>sl_pledge := sl_pledge sl + bytes\<rparr>) l\<lparr>lg_charged := lg_charged l + bytes\<rparr>) }"

definition consume_pledge :: "'k \<Rightarrow> ('k, 'v) ledgered \<Rightarrow> (nat \<times> ('k, 'v) ledgered) option" where
  "consume_pledge k l = (case table_get (lg_map l) k of
      None \<Rightarrow> Some (0, l)
    | Some sl \<Rightarrow> do {
        rest \<leftarrow> checked_sub (lg_charged l) (sl_pledge sl);
        Some (sl_pledge sl, put_slot k (sl\<lparr>sl_pledge := 0\<rparr>) l\<lparr>lg_charged := rest\<rparr>) })"

definition ledgered_insert ::
  "('k, 'v) charging \<Rightarrow> table_env \<Rightarrow> 'k \<Rightarrow> 'v \<Rightarrow> ('k, 'v) ledgered \<Rightarrow> ('v option \<times> ('k, 'v) ledgered) option" where
  "ledgered_insert ch te k v l = (let charge = ch_value ch v in
     case table_get (lg_map l) k of
       Some sl \<Rightarrow> do {
         rest \<leftarrow> checked_sub (lg_charged l) (sl_charge sl);
         Some (Some (sl_value sl),
           put_slot k (sl\<lparr>sl_value := v, sl_charge := charge\<rparr>) l\<lparr>lg_charged := rest + charge\<rparr>) }
     | None \<Rightarrow> do {
         (_, t) \<leftarrow> table_insert te k
           \<lparr>sl_value = v, sl_key_charge = ch_key ch k, sl_charge = charge, sl_pledge = 0\<rparr> (lg_map l);
         Some (None, \<lparr>lg_map = t, lg_charged = lg_charged l + (ch_key ch k + charge)\<rparr>) })"

definition slot_bytes :: "'v slot \<Rightarrow> nat" where
  "slot_bytes sl = sl_key_charge sl + sl_charge sl + sl_pledge sl"

definition ledgered_remove :: "'k \<Rightarrow> ('k, 'v) ledgered \<Rightarrow> ('v option \<times> ('k, 'v) ledgered) option" where
  "ledgered_remove k l = (case table_get (lg_map l) k of
      None \<Rightarrow> Some (None, l)
    | Some sl \<Rightarrow> do {
        rest \<leftarrow> checked_sub (lg_charged l) (slot_bytes sl);
        Some (Some (sl_value sl), \<lparr>lg_map = table_remove k (lg_map l), lg_charged = rest\<rparr>) })"

text \<open>The charge left after the entries a predicate drops, in the order of the table.\<close>

fun retained_charge :: "('k \<Rightarrow> 'v \<Rightarrow> bool) \<Rightarrow> ('k \<times> 'v slot) list \<Rightarrow> nat \<Rightarrow> nat option" where
  "retained_charge keep [] charged = Some charged"
| "retained_charge keep ((k, sl) # rest) charged =
     (if keep k (sl_value sl) then retained_charge keep rest charged
      else Option.bind (checked_sub charged (slot_bytes sl)) (retained_charge keep rest))"

definition ledgered_retain :: "('k \<Rightarrow> 'v \<Rightarrow> bool) \<Rightarrow> ('k, 'v) ledgered \<Rightarrow> ('k, 'v) ledgered option" where
  "ledgered_retain keep l = do {
     charged \<leftarrow> retained_charge keep (tb_map (lg_map l)) (lg_charged l);
     Some \<lparr>lg_map = table_retain (\<lambda>k sl. keep k (sl_value sl)) (lg_map l), lg_charged = charged\<rparr> }"

definition ledgered_reserve :: "table_env \<Rightarrow> nat \<Rightarrow> ('k, 'v) ledgered \<Rightarrow> ('k, 'v) ledgered option" where
  "ledgered_reserve te additional l =
     map_option (\<lambda>t. l\<lparr>lg_map := t\<rparr>) (table_reserve te additional (lg_map l))"

end
