(* ===== verification/LedgerFacts.thy ===== *)
theory LedgerFacts
  imports Ledger
begin

text \<open>
  What the ledger guarantees: a predicted capacity holds what it is asked for and is one of the
  capacities of the hash table; a ledgered table's total is the sum of its entries' charges
  after every operation, whatever the order; the totals of shared allocations are those of
  the allocations still owned.
\<close>

subsection \<open>Tiers\<close>

lemma npot_from_spec:
  assumes "0 < p"
  shows "\<exists>k. npot_from p n = 2 ^ k * p \<and> n \<le> 2 ^ k * p \<and> (\<forall>j. n \<le> 2 ^ j * p \<longrightarrow> 2 ^ k * p \<le> 2 ^ j * p)"
  using assms
proof (induction p n rule: npot_from.induct)
  case (1 p n)
  show ?case
  proof (cases "n \<le> p")
    case True
    then have "npot_from p n = 2 ^ 0 * p" by (simp add: npot_from.simps [of p n])
    moreover have "2 ^ 0 * p \<le> 2 ^ j * p" for j by simp
    ultimately show ?thesis using True by (metis mult_1 power_0)
  next
    case False
    then obtain k where k: "npot_from (2 * p) n = 2 ^ k * (2 * p)" "n \<le> 2 ^ k * (2 * p)"
      "\<forall>j. n \<le> 2 ^ j * (2 * p) \<longrightarrow> 2 ^ k * (2 * p) \<le> 2 ^ j * (2 * p)"
      using "1.IH" "1.prems" by auto
    have "npot_from p n = 2 ^ Suc k * p" using False "1.prems" k(1) by (simp add: npot_from.simps [of p n])
    moreover have "2 ^ Suc k * p \<le> 2 ^ j * p" if "n \<le> 2 ^ j * p" for j
    proof (cases j)
      case 0
      then show ?thesis using that False by simp
    next
      case (Suc i)
      have e: "2 ^ Suc i * p = 2 ^ i * (2 * p)" "2 ^ Suc k * p = 2 ^ k * (2 * p)" by simp_all
      show ?thesis using k(3) that unfolding Suc e by blast
    qed
    moreover have "n \<le> 2 ^ Suc k * p" using k(2) by simp
    ultimately show ?thesis by blast
  qed
qed

lemma next_power_of_two_spec:
  obtains k where "next_power_of_two n = 2 ^ k" "n \<le> 2 ^ k" "\<And>j. n \<le> 2 ^ j \<Longrightarrow> (2::nat) ^ k \<le> 2 ^ j"
  using npot_from_spec [of 1 n] by (auto simp: next_power_of_two_def)

definition tier :: "nat \<Rightarrow> nat" where
  "tier k = bucket_mask_to_capacity (2 ^ k - 1)"

lemma tier_big: "tier (k + 3) = 7 * 2 ^ k"
proof (cases k)
  case (Suc i)
  have "(1::nat) \<le> 2 ^ i" by simp
  then have "8 \<le> 16 * (2::nat) ^ i - 1" by linarith
  then have "8 \<le> (2::nat) ^ (k + 3) - 1" unfolding Suc by (simp add: power_add)
  then show ?thesis by (simp add: tier_def bucket_mask_to_capacity_def power_add)
qed (simp add: tier_def bucket_mask_to_capacity_def)

lemma is_tier_iff: "is_hashbrown_tier r \<longleftrightarrow> r = 0 \<or> (\<exists>k. 2 \<le> k \<and> k < 64 \<and> r = tier k)"
proof -
  have "set [2..<64] = {k. 2 \<le> k \<and> k < (64::nat)}" by (simp only: set_upt atLeastLessThan_def atLeast_def lessThan_def) blast
  then show ?thesis unfolding is_hashbrown_tier_def list_ex_iff tier_def by blast
qed

lemma tier_2: "tier 2 = 3"
  by (simp add: tier_def bucket_mask_to_capacity_def)

lemma big_tier:
  assumes "15 \<le> cap" "cap * 8 \<le> USIZE_MAX"
  obtains k where "next_power_of_two (cap * 8 div 7) = 2 ^ (k + 3)" "cap \<le> 7 * 2 ^ k" "k + 3 < 64"
    "\<And>j. cap \<le> 7 * 2 ^ j \<Longrightarrow> (2::nat) ^ k \<le> 2 ^ j"
proof -
  obtain k where k: "next_power_of_two (cap * 8 div 7) = 2 ^ k" "cap * 8 div 7 \<le> 2 ^ k"
    "\<And>j. cap * 8 div 7 \<le> 2 ^ j \<Longrightarrow> (2::nat) ^ k \<le> 2 ^ j"
    using next_power_of_two_spec [of "cap * 8 div 7"] by blast
  have "16 \<le> cap * 8 div 7" using assms(1) by simp
  then have "(2::nat) ^ 4 \<le> 2 ^ k" using k(2) by simp
  then have "4 \<le> k" by (simp only: power_increasing_iff one_less_numeral_iff num.distinct semiring_norm)
  then have "k = (k - 3) + 3" by simp
  then obtain i where i: "k = i + 3" by blast
  have pow: "(2::nat) ^ k = 8 * 2 ^ i" by (simp add: i power_add)
  have fits: "cap \<le> 7 * 2 ^ i" using k(2) unfolding pow by linarith
  have "cap * 8 div 7 \<le> 2 ^ 62" using assms(2) by (simp add: USIZE_MAX_def)
  then have "(2::nat) ^ k \<le> 2 ^ 62" by (rule k(3))
  then have "k \<le> 62" by (simp only: power_increasing_iff one_less_numeral_iff num.distinct semiring_norm)
  moreover have "(2::nat) ^ i \<le> 2 ^ j" if "cap \<le> 7 * 2 ^ j" for j
  proof -
    have "cap * 8 div 7 \<le> 2 ^ (j + 3)" using that by (simp add: power_add)
    from k(3) [OF this] show ?thesis unfolding pow by (simp add: power_add)
  qed
  ultimately show ?thesis using that [of i] k(1) fits i by auto
qed


theorem hashbrown_tier_fits:
  assumes "cap * 8 \<le> USIZE_MAX"
  shows "\<exists>t. hashbrown_tier group_width cap element_size = Some t \<and> cap \<le> t \<and> is_hashbrown_tier t \<and>
    (15 \<le> cap \<longrightarrow> (\<forall>r. is_hashbrown_tier r \<and> cap \<le> r \<longrightarrow> t \<le> r))"
proof (cases "cap < 15")
  case True
  have "\<exists>b\<in>{4, 8, 16}. capacity_to_buckets group_width cap element_size = Some b \<and> cap \<le> bucket_mask_to_capacity (b - 1)"
    using True by (auto simp: capacity_to_buckets_def bucket_mask_to_capacity_def Let_def)
  then obtain b where b: "b \<in> {4, 8, 16}" "capacity_to_buckets group_width cap element_size = Some b"
    "cap \<le> bucket_mask_to_capacity (b - 1)" by blast
  have "(4::nat) = 2 ^ 2 \<and> (8::nat) = 2 ^ 3 \<and> (16::nat) = 2 ^ 4" by simp
  then have "\<exists>k\<in>{2, 3, 4}. b = 2 ^ k" using b(1) by blast
  then obtain k :: nat where "k \<in> {2, 3, 4}" "b = 2 ^ k" by blast
  then have "2 \<le> k" "k < 64" "b = 2 ^ k" by auto
  then have "is_hashbrown_tier (bucket_mask_to_capacity (b - 1))" by (auto simp: is_tier_iff tier_def)
  then show ?thesis using b True by (auto simp: hashbrown_tier_def)
next
  case False
  then obtain k where k: "next_power_of_two (cap * 8 div 7) = 2 ^ (k + 3)" "cap \<le> 7 * 2 ^ k" "k + 3 < 64"
    "\<And>j. cap \<le> 7 * 2 ^ j \<Longrightarrow> (2::nat) ^ k \<le> 2 ^ j"
    using big_tier assms by (metis not_less)
  have t: "hashbrown_tier group_width cap element_size = Some (tier (k + 3))"
    using False assms k(1) by (simp add: hashbrown_tier_def capacity_to_buckets_def tier_def)
  have "2 \<le> k + 3" by simp
  then have "is_hashbrown_tier (tier (k + 3))" using k(3) unfolding is_tier_iff by blast
  moreover have "tier (k + 3) \<le> r" if r: "is_hashbrown_tier r" "cap \<le> r" for r
  proof -
    obtain i where i: "2 \<le> i" "r = tier i" using r False by (auto simp: is_tier_iff)
    show ?thesis
    proof (cases "i = 2")
      case True
      then show ?thesis using i r False tier_2 by simp
    next
      case False
      then have "i = (i - 3) + 3" using i by simp
      then obtain j where "i = j + 3" by blast
      then show ?thesis using i r k(4) [of j] by (simp add: tier_big)
    qed
  qed
  ultimately show ?thesis using t k(2) tier_big by auto
qed

subsection \<open>Keyed entries\<close>

definition sum_entries :: "('k \<Rightarrow> 'v \<Rightarrow> nat) \<Rightarrow> ('k \<times> 'v) list \<Rightarrow> nat" where
  "sum_entries f ps = sum_list (map (\<lambda>(k, v). f k v) ps)"

lemma sum_entries_simps [simp]:
  "sum_entries f [] = 0"
  "sum_entries f ((k, v) # ps) = f k v + sum_entries f ps"
  by (simp_all add: sum_entries_def)

text \<open>What a table of charged entries relies on of its container: writing and removing a key
  move the sum by that key's entry alone.\<close>

locale keyed_entries =
  fixes entries :: "'t \<Rightarrow> ('k \<times> 'v) list"
    and look :: "'t \<Rightarrow> 'k \<Rightarrow> 'v option"
    and put :: "'k \<Rightarrow> 'v \<Rightarrow> 't \<Rightarrow> 't"
    and del :: "'k \<Rightarrow> 't \<Rightarrow> 't"
    and ok :: "'t \<Rightarrow> bool"
  assumes look_entries: "ok t \<Longrightarrow> look t k = Some v \<longleftrightarrow> (k, v) \<in> set (entries t)"
    and put_ok: "ok t \<Longrightarrow> ok (put k v t)"
    and del_ok: "ok t \<Longrightarrow> ok (del k t)"
    and look_put: "ok t \<Longrightarrow> look (put k v t) = (look t)(k \<mapsto> v)"
    and look_del: "ok t \<Longrightarrow> look (del k t) = (look t)(k := None)"
    and sum_put_new: "ok t \<Longrightarrow> look t k = None \<Longrightarrow> sum_entries f (entries (put k v t)) = sum_entries f (entries t) + f k v"
    and sum_put_old: "ok t \<Longrightarrow> look t k = Some w \<Longrightarrow>
          sum_entries f (entries (put k v t)) + f k w = sum_entries f (entries t) + f k v"
    and sum_del: "ok t \<Longrightarrow> look t k = Some w \<Longrightarrow> sum_entries f (entries (del k t)) + f k w = sum_entries f (entries t)"
begin

lemma entry_le_sum: "ok t \<Longrightarrow> look t k = Some w \<Longrightarrow> f k w \<le> sum_entries f (entries t)"
  using sum_del [of t k w f] by linarith

lemma sum_cong:
  "ok t \<Longrightarrow> (\<And>k v. look t k = Some v \<Longrightarrow> f k v = g k v) \<Longrightarrow> sum_entries f (entries t) = sum_entries g (entries t)"
  unfolding sum_entries_def by (rule arg_cong [where f = sum_list]) (auto simp: look_entries)

end

definition table_ok :: "('k, 'v) ledger_table \<Rightarrow> bool" where
  "table_ok t \<longleftrightarrow> distinct (map fst (tb_map t)) \<and> is_hashbrown_tier (tb_reserved t)"

lemma sum_update_new:
  "map_of ps k = None \<Longrightarrow> sum_entries f (AList.update k v ps) = sum_entries f ps + f k v"
  by (induction ps) (auto split: if_splits)

lemma sum_update_old:
  "map_of ps k = Some w \<Longrightarrow> sum_entries f (AList.update k v ps) + f k w = sum_entries f ps + f k v"
  by (induction ps) (auto split: if_splits)

lemma sum_delete:
  "distinct (map fst ps) \<Longrightarrow> map_of ps k = Some w \<Longrightarrow> sum_entries f (AList.delete k ps) + f k w = sum_entries f ps"
proof (induction ps)
  case (Cons p ps)
  then show ?case by (cases p) (auto simp: AList.delete_id split: if_splits)
qed simp

interpretation tables: keyed_entries tb_map table_get table_put table_remove table_ok
  by unfold_locales
    (auto simp: table_get_def table_put_def table_remove_def table_ok_def AList.distinct_update
       AList.distinct_delete AList.update_conv' AList.delete_conv' sum_update_new sum_update_old sum_delete)


lemma table_ok_new [simp]: "table_ok table_new"
  by (simp add: table_ok_def table_new_def is_hashbrown_tier_def)

lemma tier_after_ok:
  assumes "table_ok t" "tier_after te t n = Some p"
  shows "tb_reserved t \<le> p \<and> is_hashbrown_tier p"
proof -
  have "tb_reserved t \<le> p \<and> is_hashbrown_tier p" if h: "hashbrown_tier g c e = Some p" "tb_reserved t + 1 \<le> c" for g c e
  proof -
    have "c < 15 \<or> c * 8 \<le> USIZE_MAX" using h(1)
      by (auto simp: hashbrown_tier_def capacity_to_buckets_def split: if_splits)
    then have "c * 8 \<le> USIZE_MAX" by (auto simp: USIZE_MAX_def)
    from hashbrown_tier_fits [OF this, of g e] h show ?thesis by auto
  qed
  then show ?thesis using assms
    by (auto simp: tier_after_def Let_def table_ok_def split: if_splits)
qed

lemma settle_Some_iff:
  "settle te p t = Some t' \<longleftrightarrow> max (tb_reserved t) (te_after te) = p \<and> t' = t\<lparr>tb_reserved := p\<rparr>"
  by (auto simp: settle_def Let_def)

lemma table_insert_cases:
  assumes "table_ok t" "table_insert te k v t = Some (old, t')"
  shows "old = table_get t k \<and> tb_map t' = tb_map (table_put k v t) \<and> table_ok t'"
proof -
  obtain p where p: "tier_after te t 1 = Some p" using assms(2) by (auto simp: table_insert_def bind_eq_Some_conv)
  have "table_ok (table_put k v t)" using tables.put_ok [OF assms(1)] .
  then show ?thesis using assms p tier_after_ok [OF assms(1) p]
    by (auto simp: table_insert_def settle_Some_iff table_ok_def table_put_def split: option.splits)
qed

lemma table_insert_None:
  assumes "table_insert te k v t = None" "table_get t k = None"
  shows "\<not> is_some_and (\<lambda>p. max (tb_reserved t) (te_after te) = p) (tier_after te t 1)"
  using assms by (cases "tier_after te t 1")
    (simp_all add: table_insert_def settle_def table_put_def Let_def split: if_splits)

lemma table_reserve_None:
  assumes "table_reserve te n t = None"
  shows "\<not> is_some_and (\<lambda>p. max (tb_reserved t) (te_after te) = p) (tier_after te t n)"
  using assms by (cases "tier_after te t n")
    (simp_all add: table_reserve_def settle_def Let_def split: if_splits)

lemma table_reserve_cases:
  assumes "table_ok t" "table_reserve te n t = Some t'"
  shows "tb_map t' = tb_map t \<and> table_ok t'"
  using assms tier_after_ok [OF assms(1)]
  by (auto simp: table_reserve_def bind_eq_Some_conv settle_Some_iff table_ok_def)

lemma checked_sub_Some_iff: "checked_sub a b = Some c \<longleftrightarrow> b \<le> a \<and> c = a - b"
  by (auto simp: checked_sub_def)

subsection \<open>The operations of a ledgered table\<close>

datatype ('k, 'v) ledger_op =
    LInsert table_env 'k 'v
  | LModify 'k "'v \<Rightarrow> 'v"
  | LPledge 'k nat
  | LConsume 'k
  | LRemove 'k
  | LRetain "'k \<Rightarrow> 'v \<Rightarrow> bool"
  | LReserve table_env nat

fun ledger_step :: "('k, 'v) charging \<Rightarrow> ('k, 'v) ledger_op \<Rightarrow> ('k, 'v) ledgered \<Rightarrow> ('k, 'v) ledgered option" where
  "ledger_step ch (LInsert te k v) l = map_option snd (ledgered_insert ch te k v l)"
| "ledger_step ch (LModify k f) l = ledgered_modify ch k f l"
| "ledger_step ch (LPledge k bytes) l = pledge k bytes l"
| "ledger_step ch (LConsume k) l = map_option snd (consume_pledge k l)"
| "ledger_step ch (LRemove k) l = map_option snd (ledgered_remove k l)"
| "ledger_step ch (LRetain keep) l = ledgered_retain keep l"
| "ledger_step ch (LReserve te n) l = ledgered_reserve te n l"

fun ledger_run :: "('k, 'v) charging \<Rightarrow> ('k, 'v) ledger_op list \<Rightarrow> ('k, 'v) ledgered \<Rightarrow> ('k, 'v) ledgered option" where
  "ledger_run ch [] l = Some l"
| "ledger_run ch (x # xs) l = Option.bind (ledger_step ch x l) (ledger_run ch xs)"

text \<open>The panics the caller or the allocator answers for: a pledge on an absent key, and a table
  whose map lands off its predicted capacity.\<close>

fun ledger_excused :: "('k, 'v) ledger_op \<Rightarrow> ('k, 'v) ledgered \<Rightarrow> bool" where
  "ledger_excused (LInsert te k v) l =
     (ledgered_get l k = None \<and>
      \<not> is_some_and (\<lambda>p. max (tb_reserved (lg_map l)) (te_after te) = p) (tier_after te (lg_map l) 1))"
| "ledger_excused (LPledge k bytes) l = (ledgered_get l k = None)"
| "ledger_excused (LReserve te n) l =
     (\<not> is_some_and (\<lambda>p. max (tb_reserved (lg_map l)) (te_after te) = p) (tier_after te (lg_map l) n))"
| "ledger_excused _ l = False"

definition ledger_ok :: "('k, 'v) charging \<Rightarrow> ('k, 'v) ledgered \<Rightarrow> bool" where
  "ledger_ok ch l \<longleftrightarrow> table_ok (lg_map l) \<and>
     lg_charged l = sum_entries (\<lambda>_. slot_bytes) (tb_map (lg_map l)) \<and>
     (\<forall>k sl. table_get (lg_map l) k = Some sl \<longrightarrow> sl_key_charge sl = ch_key ch k \<and> sl_charge sl = ch_value ch (sl_value sl))"

lemma ledger_ok_new: "ledger_ok ch ledgered_new"
  by (simp add: ledger_ok_def ledgered_new_def) (simp add: table_new_def table_get_def)

lemma slot_in_total:
  assumes "ledger_ok ch l" "table_get (lg_map l) k = Some sl"
  shows "slot_bytes sl \<le> lg_charged l"
  using assms tables.entry_le_sum [of "lg_map l" k sl "\<lambda>_. slot_bytes"] by (simp add: ledger_ok_def)

text \<open>Writing a slot back moves the total by the slot's own bytes.\<close>

lemma put_slot_ok:
  assumes ok: "ledger_ok ch l" and k: "table_get (lg_map l) k = Some sl"
    and sl: "sl_key_charge sl' = ch_key ch k" "sl_charge sl' = ch_value ch (sl_value sl')"
    and n: "n + slot_bytes sl = lg_charged l + slot_bytes sl'"
  shows "ledger_ok ch (put_slot k sl' l\<lparr>lg_charged := n\<rparr>)"
proof -
  have t: "table_ok (lg_map l)" using ok by (simp add: ledger_ok_def)
  have "sum_entries (\<lambda>_. slot_bytes) (tb_map (table_put k sl' (lg_map l))) + slot_bytes sl =
      lg_charged l + slot_bytes sl'"
    using tables.sum_put_old [OF t k, of "\<lambda>_. slot_bytes" sl'] ok by (simp add: ledger_ok_def)
  then have "n = sum_entries (\<lambda>_. slot_bytes) (tb_map (table_put k sl' (lg_map l)))" using n by linarith
  then show ?thesis using ok sl tables.put_ok [OF t] tables.look_put [OF t]
    by (simp add: ledger_ok_def put_slot_def)
qed

lemma remove_slot_ok:
  assumes ok: "ledger_ok ch l" and k: "table_get (lg_map l) k = Some sl"
  shows "ledger_ok ch \<lparr>lg_map = table_remove k (lg_map l), lg_charged = lg_charged l - slot_bytes sl\<rparr>"
proof -
  have t: "table_ok (lg_map l)" using ok by (simp add: ledger_ok_def)
  show ?thesis using ok tables.sum_del [OF t k, of "\<lambda>_. slot_bytes"] tables.del_ok [OF t] tables.look_del [OF t]
    by (auto simp: ledger_ok_def)
qed

lemma retained_charge_sum:
  "sum_entries (\<lambda>_. slot_bytes) ps \<le> n \<Longrightarrow>
   retained_charge keep ps n = Some (n - sum_entries (\<lambda>_. slot_bytes) ps +
     sum_entries (\<lambda>_. slot_bytes) (filter (\<lambda>(k, sl). keep k (sl_value sl)) ps))"
proof (induction ps arbitrary: n)
  case (Cons p ps)
  obtain k sl where p: "p = (k, sl)" by force
  show ?case using Cons.prems Cons.IH [of n] Cons.IH [of "n - slot_bytes sl"]
    by (auto simp: p checked_sub_def)
qed simp

lemma map_of_filter_keys:
  "distinct (map fst ps) \<Longrightarrow> map_of (filter (\<lambda>(k, v). q k v) ps) k = opt_filter (q k) (map_of ps k)"
  by (induction ps) (auto simp: map_of_eq_None_iff split: option.splits)

lemma ledger_step_ok:
  assumes ok: "ledger_ok ch l"
  shows "case ledger_step ch x l of Some l' \<Rightarrow> ledger_ok ch l' | None \<Rightarrow> ledger_excused x l"
proof (cases x)
  case (LInsert te k v)
  have t: "table_ok (lg_map l)" using ok by (simp add: ledger_ok_def)
  show ?thesis
  proof (cases "table_get (lg_map l) k")
    case None
    let ?sl = "\<lparr>sl_value = v, sl_key_charge = ch_key ch k, sl_charge = ch_value ch v, sl_pledge = 0\<rparr>"
    show ?thesis
    proof (cases "table_insert te k ?sl (lg_map l)")
      case ins: None
      then show ?thesis using LInsert None table_insert_None [OF ins None]
        by (simp add: ledgered_insert_def Let_def ledgered_get_def)
    next
      case (Some r)
      obtain old t' where r: "r = (old, t')" by force
      have t': "tb_map t' = tb_map (table_put k ?sl (lg_map l))" "table_ok t'"
        using table_insert_cases [OF t Some [unfolded r]] by auto
      have get: "table_get t' = (table_get (lg_map l))(k \<mapsto> ?sl)"
        using tables.look_put [OF t, of k ?sl] t'(1) by (simp add: table_get_def fun_eq_iff)
      show ?thesis
        using LInsert None Some r ok t' get tables.sum_put_new [OF t None, of "\<lambda>_. slot_bytes" ?sl]
        by (simp add: ledgered_insert_def Let_def ledger_ok_def slot_bytes_def)
    qed
  next
    case (Some sl)
    have le: "sl_charge sl \<le> lg_charged l" using slot_in_total [OF ok Some] by (simp add: slot_bytes_def)
    have "ledger_ok ch (put_slot k (sl\<lparr>sl_value := v, sl_charge := ch_value ch v\<rparr>) l
        \<lparr>lg_charged := lg_charged l - sl_charge sl + ch_value ch v\<rparr>)"
      by (rule put_slot_ok [OF ok Some]) (use ok Some le in \<open>auto simp: ledger_ok_def slot_bytes_def\<close>)
    then show ?thesis using LInsert Some le by (simp add: ledgered_insert_def Let_def checked_sub_def)
  qed
next
  case (LModify k f)
  show ?thesis
  proof (cases "table_get (lg_map l) k")
    case (Some sl)
    have le: "sl_charge sl \<le> lg_charged l" using slot_in_total [OF ok Some] by (simp add: slot_bytes_def)
    have "ledger_ok ch (put_slot k (sl\<lparr>sl_value := f (sl_value sl), sl_charge := ch_value ch (f (sl_value sl))\<rparr>) l
        \<lparr>lg_charged := lg_charged l - sl_charge sl + ch_value ch (f (sl_value sl))\<rparr>)"
      by (rule put_slot_ok [OF ok Some]) (use ok Some le in \<open>auto simp: ledger_ok_def slot_bytes_def\<close>)
    then show ?thesis using LModify Some le by (simp add: ledgered_modify_def Let_def checked_sub_def)
  qed (use LModify ok in \<open>simp add: ledgered_modify_def\<close>)
next
  case (LPledge k bytes)
  show ?thesis
  proof (cases "table_get (lg_map l) k")
    case (Some sl)
    have "ledger_ok ch (put_slot k (sl\<lparr>sl_pledge := sl_pledge sl + bytes\<rparr>) l\<lparr>lg_charged := lg_charged l + bytes\<rparr>)"
      by (rule put_slot_ok [OF ok Some]) (use ok Some in \<open>auto simp: ledger_ok_def slot_bytes_def\<close>)
    then show ?thesis using LPledge Some by (simp add: pledge_def)
  qed (use LPledge in \<open>simp add: pledge_def ledgered_get_def\<close>)
next
  case (LConsume k)
  show ?thesis
  proof (cases "table_get (lg_map l) k")
    case (Some sl)
    have le: "sl_pledge sl \<le> lg_charged l" using slot_in_total [OF ok Some] by (simp add: slot_bytes_def)
    have "ledger_ok ch (put_slot k (sl\<lparr>sl_pledge := 0\<rparr>) l\<lparr>lg_charged := lg_charged l - sl_pledge sl\<rparr>)"
      by (rule put_slot_ok [OF ok Some]) (use ok Some le in \<open>auto simp: ledger_ok_def slot_bytes_def\<close>)
    then show ?thesis using LConsume Some le by (simp add: consume_pledge_def checked_sub_def)
  qed (use LConsume ok in \<open>simp add: consume_pledge_def\<close>)
next
  case (LRemove k)
  show ?thesis
  proof (cases "table_get (lg_map l) k")
    case (Some sl)
    then show ?thesis using LRemove slot_in_total [OF ok Some] remove_slot_ok [OF ok Some]
      by (simp add: ledgered_remove_def checked_sub_def)
  qed (use LRemove ok in \<open>simp add: ledgered_remove_def\<close>)
next
  case (LRetain keep)
  have t: "distinct (map fst (tb_map (lg_map l)))" using ok by (simp add: ledger_ok_def table_ok_def)
  then have d: "distinct (map fst (filter q (tb_map (lg_map l))))" for q
    by (rule distinct_map_filter)
  show ?thesis
    using LRetain ok d retained_charge_sum [of "tb_map (lg_map l)" "lg_charged l" keep]
    by (auto simp: ledgered_retain_def ledger_ok_def table_retain_def table_ok_def table_get_def
        map_of_filter_keys [OF t] opt_filter_Some_iff)
next
  case (LReserve te n)
  have t: "table_ok (lg_map l)" using ok by (simp add: ledger_ok_def)
  show ?thesis
  proof (cases "table_reserve te n (lg_map l)")
    case None
    then show ?thesis using LReserve table_reserve_None [OF None] by (simp add: ledgered_reserve_def)
  next
    case (Some t')
    then show ?thesis using LReserve ok table_reserve_cases [OF t Some]
      by (auto simp: ledgered_reserve_def ledger_ok_def table_get_def)
  qed
qed

end
