(* ===== verification/LedgerProps.thy ===== *)
theory LedgerProps
  imports LedgerFacts
begin

text \<open>
  The shared allocations of the ledger against their abstract contract (how many holds each
  allocation has), and the properties of the ledger.
\<close>

subsection \<open>Holds\<close>

definition kind_bytes :: "anchor_kind \<Rightarrow> nat \<Rightarrow> shared \<Rightarrow> nat" where
  "kind_bytes kind i x = (if sh_kind x = kind then sh_bytes x else 0)"

definition owner_ok :: "shared \<Rightarrow> bool" where
  "owner_ok x \<longleftrightarrow> 0 < sh_owners x \<and> (sh_registry x \<longrightarrow> sh_kind x = AIndexes)"

definition shared_ok :: "(nat \<Rightarrow> nat) \<Rightarrow> shared_allocations \<Rightarrow> bool" where
  "shared_ok h s \<longleftrightarrow> table_ok (sa_owners s) \<and>
     (\<forall>i. h i = (case table_get (sa_owners s) i of None \<Rightarrow> 0 | Some x \<Rightarrow> unat (sh_owners x))) \<and>
     (\<forall>i x. table_get (sa_owners s) i = Some x \<longrightarrow> owner_ok x) \<and>
     (\<forall>kind. sa_total kind s = sum_entries (kind_bytes kind) (tb_map (sa_owners s)))"

text \<open>The states of the ledger with the holds of each allocation, when no allocation ever has
  more than \<open>n\<close> holds at a time.\<close>

inductive shared_reach :: "nat \<Rightarrow> (nat \<Rightarrow> nat) \<Rightarrow> shared_allocations \<Rightarrow> bool" for n :: nat where
  start: "shared_reach n (\<lambda>_. 0) shared_new"
| acquired: "\<lbrakk>shared_reach n h s; h (an_id a) < n; acquire te a s = Some s'\<rbrakk> \<Longrightarrow>
    shared_reach n (h(an_id a := h (an_id a) + 1)) s'"
| retained: "\<lbrakk>shared_reach n h s; h i < n; retain_owner i s = Some s'\<rbrakk> \<Longrightarrow> shared_reach n (h(i := h i + 1)) s'"
| released: "\<lbrakk>shared_reach n h s; release_owner i s = Some s'\<rbrakk> \<Longrightarrow> shared_reach n (h(i := h i - 1)) s'"
| upserted: "\<lbrakk>shared_reach n h s; upsert_index_registry te (i, bytes) s = Some (m, s')\<rbrakk> \<Longrightarrow>
    shared_reach n (h(i := max 1 (h i))) s'"
| refreshed: "\<lbrakk>shared_reach n h s; refresh_index_registry allocation i s = Some s'\<rbrakk> \<Longrightarrow> shared_reach n h s'"
| reserved: "\<lbrakk>shared_reach n h s; reserve_anchors te as s = Some s'\<rbrakk> \<Longrightarrow> shared_reach n h s'"

text \<open>The count of owners at its width.\<close>

lemma unat_succ: "unat x < 2 ^ 32 - 1 \<Longrightarrow> unat (x + 1) = unat x + 1" for x :: "32 word"
  by (subst unat_plus_simple [THEN iffD1]) (simp_all add: no_olen_add_nat)

lemma unat_pred: "0 < x \<Longrightarrow> unat (x - 1) = unat x - 1" for x :: "32 word"
  by (simp add: unat_minus_one)

lemma unat_pos: "0 < unat x \<longleftrightarrow> 0 < x" for x :: "32 word"
  by (simp add: word_less_nat_alt)

lemma sa_total_set [simp]: "sa_total k (set_total k' n s) = (if k = k' then n else sa_total k s)"
  by (cases k; cases k') simp_all

lemma set_total_owners [simp]: "sa_owners (set_total k n s) = sa_owners s"
  by (cases k) simp_all

lemma sa_total_owners [simp]: "sa_total k (s\<lparr>sa_owners := t\<rparr>) = sa_total k s"
  by (cases k) simp_all

lemma sa_total_put [simp]: "sa_total k (put_owner i x s) = sa_total k s"
  by (simp add: put_owner_def)

lemma sa_total_indexes: "sa_total k (s\<lparr>sa_indexes := n\<rparr>) = (if k = AIndexes then n else sa_total k s)"
  by (cases k) simp_all

lemma put_owner_owners [simp]: "sa_owners (put_owner i x s) = table_put i x (sa_owners s)"
  by (simp add: put_owner_def)

lemma shared_okI:
  assumes "table_ok (sa_owners s)"
    and "\<And>i. h i = (case table_get (sa_owners s) i of None \<Rightarrow> 0 | Some x \<Rightarrow> unat (sh_owners x))"
    and "\<And>i x. table_get (sa_owners s) i = Some x \<Longrightarrow> owner_ok x"
    and "\<And>kind. sa_total kind s = sum_entries (kind_bytes kind) (tb_map (sa_owners s))"
  shows "shared_ok h s"
  using assms unfolding shared_ok_def by blast

lemma shared_okD:
  assumes "shared_ok h s"
  shows "table_ok (sa_owners s)" "h i = (case table_get (sa_owners s) i of None \<Rightarrow> 0 | Some x \<Rightarrow> unat (sh_owners x))"
    "table_get (sa_owners s) i = Some x \<Longrightarrow> owner_ok x"
    "sa_total kind s = sum_entries (kind_bytes kind) (tb_map (sa_owners s))"
  using assms unfolding shared_ok_def by blast+

text \<open>Rewriting an owned allocation.\<close>

lemma put_owner_ok:
  assumes ok: "shared_ok h s" and x: "table_get (sa_owners s) i = Some x" and pos: "owner_ok y"
    and h: "h' = h(i := unat (sh_owners y))"
    and owners: "sa_owners s' = table_put i y (sa_owners s)"
    and totals: "\<And>kind. sa_total kind s' + kind_bytes kind i x = sa_total kind s + kind_bytes kind i y"
  shows "shared_ok h' s'"
proof (rule shared_okI)
  note d = shared_okD [OF ok]
  show "table_ok (sa_owners s')" using tables.put_ok [OF d(1)] owners by simp
  show "sa_total kind s' = sum_entries (kind_bytes kind) (tb_map (sa_owners s'))" for kind
    using tables.sum_put_old [OF d(1) x, of "kind_bytes kind" y] totals [of kind] d(4) [of kind] owners by simp
  show "h' j = (case table_get (sa_owners s') j of None \<Rightarrow> 0 | Some x \<Rightarrow> unat (sh_owners x))" for j
    using d(2) [of j] h owners tables.look_put [OF d(1)] by simp
  show "owner_ok z" if "table_get (sa_owners s') j = Some z" for j z
    using that d(3) pos owners tables.look_put [OF d(1)] by (auto split: if_splits)
qed

lemma acquire_ok:
  assumes ok: "shared_ok h s" and few: "h (an_id a) < 2 ^ 32 - 1" and a: "acquire te a s = Some s'"
  shows "shared_ok (h(an_id a := h (an_id a) + 1)) s'"
proof (cases "table_get (sa_owners s) (an_id a)")
  case (Some x)
  have "h (an_id a) = unat (sh_owners x)" "owner_ok x" using shared_okD(2,3) [OF ok, of "an_id a"] Some by simp_all
  moreover from this few have "unat (sh_owners x + 1) = h (an_id a) + 1" using unat_succ [of "sh_owners x"] by simp
  moreover from this have "0 < sh_owners x + 1" using unat_pos [of "sh_owners x + 1"] by simp
  ultimately show ?thesis using a Some
    by (auto simp: acquire_def kind_bytes_def owner_ok_def intro!: put_owner_ok [OF ok Some, where y = "x\<lparr>sh_owners := sh_owners x + 1\<rparr>"] split: if_splits)
next
  case None
  let ?x = "\<lparr>sh_owners = 1, sh_bytes = an_bytes a, sh_kind = an_kind a, sh_registry = False\<rparr>"
  have t: "table_ok (sa_owners s)" using ok by (simp add: shared_ok_def)
  obtain old t' where ins: "table_insert te (an_id a) ?x (sa_owners s) = Some (old, t')"
    and s': "s' = set_total (an_kind a) (sa_total (an_kind a) s + an_bytes a) (s\<lparr>sa_owners := t'\<rparr>)"
    using a None by (auto simp: acquire_def bind_eq_Some_conv)
  have t': "tb_map t' = tb_map (table_put (an_id a) ?x (sa_owners s))" "table_ok t'"
    using table_insert_cases [OF t ins] by auto
  have get: "table_get t' = (table_get (sa_owners s))(an_id a \<mapsto> ?x)"
    using tables.look_put [OF t, of "an_id a" ?x] t'(1) by (simp add: table_get_def fun_eq_iff)
  show ?thesis
  proof (rule shared_okI)
    note d = shared_okD [OF ok]
    show "sa_total kind s' = sum_entries (kind_bytes kind) (tb_map (sa_owners s'))" for kind
      using tables.sum_put_new [OF t None, of "kind_bytes kind" ?x] d(4) [of kind]
      by (auto simp: s' t'(1) kind_bytes_def)
    show "(h(an_id a := h (an_id a) + 1)) j = (case table_get (sa_owners s') j of None \<Rightarrow> 0 | Some x \<Rightarrow> unat (sh_owners x))" for j
      using d(2) [of j] d(2) [of "an_id a"] None get by (simp add: s')
    show "owner_ok z" if "table_get (sa_owners s') j = Some z" for j z
      using that d(3) get by (auto simp: s' owner_ok_def split: if_splits)
  qed (use t'(2) in \<open>simp add: s'\<close>)
qed

lemma retain_ok:
  assumes ok: "shared_ok h s" and few: "h i < 2 ^ 32 - 1" and a: "retain_owner i s = Some s'"
  shows "shared_ok (h(i := h i + 1)) s'"
proof -
  obtain x where x: "table_get (sa_owners s) i = Some x" "s' = put_owner i (x\<lparr>sh_owners := sh_owners x + 1\<rparr>) s"
    using a by (auto simp: retain_owner_def bind_eq_Some_conv)
  have "h i = unat (sh_owners x)" "owner_ok x" using shared_okD(2,3) [OF ok, of i] x(1) by simp_all
  moreover from this few have "unat (sh_owners x + 1) = h i + 1" using unat_succ [of "sh_owners x"] by simp
  moreover from this have "0 < sh_owners x + 1" using unat_pos [of "sh_owners x + 1"] by simp
  ultimately show ?thesis using x(2)
    by (intro put_owner_ok [OF ok x(1), where y = "x\<lparr>sh_owners := sh_owners x + 1\<rparr>"]) (simp_all add: kind_bytes_def owner_ok_def)
qed

lemma owned_bytes_le:
  assumes "shared_ok h s" "table_get (sa_owners s) i = Some x"
  shows "sh_bytes x \<le> sa_total (sh_kind x) s"
  using assms tables.entry_le_sum [of "sa_owners s" i x "kind_bytes (sh_kind x)"]
  by (simp add: shared_ok_def kind_bytes_def)

lemma release_ok:
  assumes ok: "shared_ok h s"
  shows "case release_owner i s of Some s' \<Rightarrow> shared_ok (h(i := h i - 1)) s' | None \<Rightarrow> h i = 0"
proof (cases "table_get (sa_owners s) i")
  case None
  then show ?thesis using shared_okD(2) [OF ok, of i] by (simp add: release_owner_def)
next
  case (Some x)
  have t: "table_ok (sa_owners s)" using ok by (simp add: shared_ok_def)
  have h: "h i = unat (sh_owners x)" "owner_ok x" "0 < sh_owners x"
    using shared_okD(2,3) [OF ok, of i] Some by (simp_all add: owner_ok_def)
  have left: "unat (sh_owners x - 1) = h i - 1" using h(1) unat_pred [OF h(3)] by simp
  show ?thesis
  proof (cases "sh_owners x = 1")
    case False
    have some: "0 < sh_owners x - 1"
      using False h(3) by (metis diff_eq_eq add_0 word_gt_0)
    have "shared_ok (h(i := h i - 1)) (put_owner i (x\<lparr>sh_owners := sh_owners x - 1\<rparr>) s)"
      using h left some by (intro put_owner_ok [OF ok Some, where y = "x\<lparr>sh_owners := sh_owners x - 1\<rparr>"])
        (simp_all add: kind_bytes_def owner_ok_def)
    then show ?thesis using Some some by (simp add: release_owner_def Let_def)
  next
    case True
    have le: "sh_bytes x \<le> sa_total (sh_kind x) s" by (rule owned_bytes_le [OF ok Some])
    let ?s = "set_total (sh_kind x) (sa_total (sh_kind x) s - sh_bytes x) (s\<lparr>sa_owners := table_remove i (sa_owners s)\<rparr>)"
    have "shared_ok (h(i := h i - 1)) ?s"
    proof (rule shared_okI)
      note d = shared_okD [OF ok]
      show "sa_total kind ?s = sum_entries (kind_bytes kind) (tb_map (sa_owners ?s))" for kind
        using tables.sum_del [OF t Some, of "kind_bytes kind"] d(4) [of kind] by (auto simp: kind_bytes_def)
      show "(h(i := h i - 1)) j = (case table_get (sa_owners ?s) j of None \<Rightarrow> 0 | Some x \<Rightarrow> unat (sh_owners x))" for j
        using d(2) [of j] h(1) True tables.look_del [OF t] by simp
      show "owner_ok z" if "table_get (sa_owners ?s) j = Some z" for j z
        using that d(3) tables.look_del [OF t] by (auto split: if_splits)
    qed (use tables.del_ok [OF t] in simp)
    then show ?thesis using Some True le by (simp add: release_owner_def checked_sub_def)
  qed
qed

lemma upsert_ok:
  assumes ok: "shared_ok h s" and a: "upsert_index_registry te (i, bytes) s = Some (n, s')"
  shows "shared_ok (h(i := max 1 (h i))) s'"
proof (cases "table_get (sa_owners s) i")
  case (Some x)
  then have x: "sh_kind x = AIndexes" "sh_owners x = 1"
    and s': "s' = put_owner i (x\<lparr>sh_bytes := max bytes (sh_bytes x)\<rparr>)
        (s\<lparr>sa_indexes := sa_indexes s + (max bytes (sh_bytes x) - sh_bytes x)\<rparr>)"
    using a by (auto simp: upsert_index_registry_def Let_def split: if_splits)
  have "h i = unat (1 :: 32 word)" "owner_ok x" using shared_okD(2,3) [OF ok, of i] Some x by simp_all
  then show ?thesis using x s'
    by (intro put_owner_ok [OF ok Some, where y = "x\<lparr>sh_bytes := max bytes (sh_bytes x)\<rparr>"])
      (simp_all add: kind_bytes_def sa_total_indexes owner_ok_def)
next
  case None
  then obtain s1 x where s1: "acquire_index_owner te (i, bytes) s = Some s1" "table_get (sa_owners s1) i = Some x"
    "s' = put_owner i (x\<lparr>sh_registry := True\<rparr>) s1"
    using a by (auto simp: upsert_index_registry_def bind_eq_Some_conv)
  have h0: "h i = 0" using shared_okD(2) [OF ok, of i] None by simp
  have ok1: "shared_ok (h(i := h i + 1)) s1"
    using acquire_ok [OF ok _ s1(1) [unfolded acquire_index_owner_def]] h0 by simp
  have "unat (sh_owners x) = unat (1 :: 32 word)" using shared_okD(2) [OF ok1, of i] s1(2) h0 by simp
  then have "sh_owners x = 1" by (simp only: word_unat_eq_iff)
  moreover have "sh_kind x = AIndexes"
    using s1(1,2) None tables.look_put [OF shared_okD(1) [OF ok]] table_insert_cases [OF shared_okD(1) [OF ok]]
    by (fastforce simp: acquire_index_owner_def acquire_def bind_eq_Some_conv table_get_def AList.update_conv' table_put_def)
  ultimately show ?thesis using s1(3) h0
    by (intro put_owner_ok [OF ok1 s1(2), where y = "x\<lparr>sh_registry := True\<rparr>"])
      (simp_all add: kind_bytes_def fun_eq_iff owner_ok_def)
qed

lemma refresh_ok:
  assumes ok: "shared_ok h s"
  shows "case refresh_index_registry allocation i s of Some s' \<Rightarrow> shared_ok h s'
    | None \<Rightarrow> \<exists>j bytes. allocation = Some (j, bytes) \<and> j \<noteq> i"
proof -
  consider (none) "table_get (sa_owners s) i = None" | (skip) x where "table_get (sa_owners s) i = Some x" "\<not> sh_registry x"
    | (gone) x where "table_get (sa_owners s) i = Some x" "sh_registry x" "allocation = None"
    | (reg) x j bytes where "table_get (sa_owners s) i = Some x" "sh_registry x" "allocation = Some (j, bytes)"
    by (cases "table_get (sa_owners s) i"; cases allocation) auto
  then show ?thesis
  proof cases
    case reg
    have x: "sh_kind x = AIndexes" "owner_ok x" "h i = unat (sh_owners x)"
      using shared_okD(2,3) [OF ok, of i] reg by (auto simp: owner_ok_def)
    have le: "sh_bytes x \<le> sa_indexes s" using owned_bytes_le [OF ok reg(1)] x(1) by simp
    show ?thesis
    proof (cases "j = i \<and> bytes \<le> sh_bytes x")
      case True
      have "shared_ok h (put_owner i (x\<lparr>sh_bytes := bytes\<rparr>) (s\<lparr>sa_indexes := sa_indexes s - (sh_bytes x - bytes)\<rparr>))"
        using x le True by (intro put_owner_ok [OF ok reg(1), where y = "x\<lparr>sh_bytes := bytes\<rparr>"])
          (auto simp: kind_bytes_def sa_total_indexes owner_ok_def)
      then show ?thesis using reg True le by (simp add: refresh_index_registry_def checked_sub_def)
    qed (use reg ok in \<open>auto simp: refresh_index_registry_def\<close>)
  qed (use ok in \<open>auto simp: refresh_index_registry_def\<close>)
qed

lemma reserve_ok:
  assumes "shared_ok h s" "reserve_anchors te as s = Some s'"
  shows "shared_ok h s'"
  using assms table_reserve_cases [OF shared_okD(1) [OF assms(1)]]
  by (auto simp: reserve_anchors_def shared_ok_def table_get_def)

lemma shared_reach_ok:
  assumes "shared_reach n h s" "n < 2 ^ 32"
  shows "shared_ok h s"
  using assms(1)
proof (induction rule: shared_reach.induct)
  case start
  show ?case by (rule shared_okI) (simp_all add: shared_new_def, simp_all add: table_new_def table_get_def, metis (full_types) anchor_kind.exhaust sa_total.simps shared_allocations.select_convs)
next
  case (acquired h s a te s')
  then show ?case using assms(2) by (intro acquire_ok) simp_all
next
  case (retained h s i s')
  then show ?case using assms(2) by (intro retain_ok) simp_all
next
  case (released h s i s')
  then show ?case using release_ok [OF released.IH, of i] by (simp add: fun_upd_def)
next
  case (refreshed h s allocation i s')
  then show ?case using refresh_ok [OF refreshed.IH, of allocation i] by simp
qed (blast intro: upsert_ok reserve_ok)+

subsection \<open>Admission\<close>

text \<open>Acquiring every anchor of a list, the platform answering each call.\<close>

fun acquire_all :: "(nat \<Rightarrow> table_env) \<Rightarrow> anchor list \<Rightarrow> shared_allocations \<Rightarrow> shared_allocations option" where
  "acquire_all te [] s = Some s"
| "acquire_all te (a # as) s = Option.bind (acquire (te (length as)) a s) (acquire_all te as)"

definition total_bytes :: "shared_allocations \<Rightarrow> nat" where
  "total_bytes s = sa_entries s + sa_indexes s + sa_facts s + sa_warm s"

lemma total_bytes_add:
  "total_bytes (set_total k (sa_total k s + n) (s\<lparr>sa_owners := t\<rparr>)) = total_bytes s + n"
  by (cases k) (simp_all add: total_bytes_def)

lemma total_bytes_put: "total_bytes (put_owner i x s) = total_bytes s"
  by (simp add: total_bytes_def put_owner_def)

lemma unowned_cong:
  "(\<And>i. (table_get (sa_owners s) i = None \<and> i \<notin> set seen) = (table_get (sa_owners s') i = None \<and> i \<notin> set seen')) \<Longrightarrow>
   unowned_from s seen as = unowned_from s' seen' as"
proof (induction as arbitrary: seen seen')
  case (Cons a as)
  have step: "unowned_from s (an_id a # seen) as = unowned_from s' (an_id a # seen') as"
    by (rule Cons.IH) (use Cons.prems in auto)
  show ?case using Cons.prems [of "an_id a"] step Cons.IH [OF Cons.prems] by (auto split: prod.split)
qed simp

lemma acquire_get:
  assumes ok: "table_ok (sa_owners s)" and a: "acquire te a s = Some s'"
  shows "table_ok (sa_owners s')"
    "table_get (sa_owners s') i = None \<longleftrightarrow> table_get (sa_owners s) i = None \<and> i \<noteq> an_id a"
proof -
  have get: "map_of (tb_map (table_put k v (sa_owners s))) = (map_of (tb_map (sa_owners s)))(k \<mapsto> v)" for k v
    by (simp add: table_put_def update_conv')
  show "table_ok (sa_owners s')"
    using a table_insert_cases [OF ok] tables.put_ok [OF ok]
    by (auto simp: acquire_def bind_eq_Some_conv split: option.splits if_splits)
  show "table_get (sa_owners s') i = None \<longleftrightarrow> table_get (sa_owners s) i = None \<and> i \<noteq> an_id a"
    using a table_insert_cases [OF ok]
    by (auto simp: acquire_def bind_eq_Some_conv table_get_def get split: option.splits if_splits)
qed

lemma acquire_total:
  assumes ok: "table_ok (sa_owners s)" and a: "acquire te a s = Some s'"
  shows "total_bytes s' = total_bytes s + (if table_get (sa_owners s) (an_id a) = None then an_bytes a else 0) \<and>
    length (tb_map (sa_owners s')) = length (tb_map (sa_owners s)) + (if table_get (sa_owners s) (an_id a) = None then 1 else 0)"
proof -
  have upd: "length (AList.update k v ps) = length ps + (if map_of ps k = None then 1 else 0)" for k v and ps :: "(nat \<times> shared) list"
    by (induction ps) auto
  show ?thesis using a table_insert_cases [OF ok]
    by (auto simp: acquire_def bind_eq_Some_conv total_bytes_add total_bytes_put table_put_def upd table_get_def
        split: option.splits if_splits)
qed

lemma acquire_all_unowned:
  assumes "table_ok (sa_owners s)" "acquire_all te as s = Some s'"
  shows "total_bytes s' = total_bytes s + fst (unowned s as) \<and>
    length (tb_map (sa_owners s')) = length (tb_map (sa_owners s)) + snd (unowned s as)"
  using assms
proof (induction as arbitrary: s)
  case Nil
  then show ?case by (simp add: unowned_def)
next
  case (Cons a as)
  then obtain s1 where s1: "acquire (te (length as)) a s = Some s1" "acquire_all te as s1 = Some s'"
    by (auto simp: bind_eq_Some_conv)
  note ok = Cons.prems(1)
  note IH = Cons.IH [OF acquire_get(1) [OF ok s1(1)] s1(2)]
  have rest: "unowned_from s1 [] as = unowned_from s [an_id a] as"
    by (rule unowned_cong) (simp add: acquire_get(2) [OF ok s1(1)])
  show ?case
  proof (cases "table_get (sa_owners s) (an_id a)")
    case None
    then show ?thesis using IH rest acquire_total [OF ok s1(1)] by (simp add: unowned_def split: prod.split)
  next
    case (Some x)
    have "unowned_from s [an_id a] as = unowned_from s [] as"
      by (rule unowned_cong) (use Some in auto)
    then show ?thesis using IH rest Some acquire_total [OF ok s1(1)] by (simp add: unowned_def)
  qed
qed

subsection \<open>Properties\<close>

text \<open>C23: a ledgered table. After any sequence of its operations from the empty table, the charged
  bytes are the sum over its entries of the charge of the key, the charge of the value as it
  is now and the pledge; and the next operation can panic only for a pledge on an absent key
  or a hash table that lands off its predicted capacity, never for the balance of the ledger.\<close>

theorem ledger_balanced:
  assumes "ledger_run ch ops ledgered_new = Some l"
  shows "lg_charged l = sum_entries (\<lambda>k sl. charged_bytes ch k (sl_value sl) + sl_pledge sl) (tb_map (lg_map l)) \<and>
    (ledger_step ch x l = None \<longrightarrow> ledger_excused x l)"
proof -
  have "ledger_ok ch l" if "ledger_ok ch l0" "ledger_run ch ops l0 = Some l" for l0
    using that
  proof (induction ops arbitrary: l0)
    case (Cons x xs)
    then obtain l1 where "ledger_step ch x l0 = Some l1" "ledger_run ch xs l1 = Some l"
      by (auto simp: bind_eq_Some_conv)
    then show ?case using Cons.IH ledger_step_ok [OF Cons.prems(1), of x] by simp
  qed simp
  then have ok: "ledger_ok ch l" using ledger_ok_new assms by blast
  have "sum_entries (\<lambda>_. slot_bytes) (tb_map (lg_map l)) =
      sum_entries (\<lambda>k sl. charged_bytes ch k (sl_value sl) + sl_pledge sl) (tb_map (lg_map l))"
    by (rule tables.sum_cong) (use ok in \<open>auto simp: ledger_ok_def charged_bytes_def slot_bytes_def\<close>)
  then show ?thesis using ok ledger_step_ok [OF ok, of x] by (auto simp: ledger_ok_def)
qed

definition sample_platform :: "nat \<Rightarrow> table_env" where
  "sample_platform cap = \<lparr>te_group_width = 16, te_entry_size = 64, te_before = 0, te_after = cap\<rparr>"

definition sample_charging :: "(string, string) charging" where
  "sample_charging = \<lparr>ch_key = length, ch_value = length\<rparr>"

theorem ledger_balanced_witness:
  "\<exists>l. ledger_run sample_charging
      [LInsert (sample_platform 3) ''k'' ''abc'', LPledge ''k'' 5, LModify ''k'' (\<lambda>v. v @ ''d'')] ledgered_new = Some l \<and>
    lg_charged l = sum_entries (\<lambda>k sl. charged_bytes sample_charging k (sl_value sl) + sl_pledge sl) (tb_map (lg_map l))"
proof -
  have "ledger_run sample_charging
      [LInsert (sample_platform 3) ''k'' ''abc'', LPledge ''k'' 5, LModify ''k'' (\<lambda>v. v @ ''d'')] ledgered_new \<noteq> None"
    by (simp add: ledgered_insert_def ledgered_new_def table_new_def table_get_def table_insert_def tier_after_def
        sample_platform_def hashbrown_tier_def capacity_to_buckets_def bucket_mask_to_capacity_def settle_def
        table_put_def sample_charging_def pledge_def put_slot_def ledgered_modify_def checked_sub_def)
  then show ?thesis using ledger_balanced by blast
qed

text \<open>C24: shared allocations, while no allocation has \<open>2 ^ 32\<close> holds at a time (the count is a
  \<open>u32\<close> that would wrap). However the owners of the allocations acquire, retain and release
  them, an allocation is in the ledger exactly while it has a hold, its count is the number
  of its holds, each kind's total is the sum of the bytes of its owned allocations, and a
  release panics exactly when nobody holds the allocation.\<close>

theorem shared_holds_refine:
  assumes "shared_reach n h s" "n < 2 ^ 32"
  shows "map_option (unat \<circ> sh_owners) (table_get (sa_owners s) i) = (if h i = 0 then None else Some (h i)) \<and>
    sa_total kind s = sum_entries (kind_bytes kind) (tb_map (sa_owners s)) \<and>
    (release_owner i s = None \<longleftrightarrow> h i = 0)"
proof -
  note ok = shared_reach_ok [OF assms]
  have z: "table_get (sa_owners s) i = None \<longleftrightarrow> h i = 0"
    using shared_okD(2,3) [OF ok, of i] by (auto simp: owner_ok_def unat_eq_zero split: option.splits)
  have "release_owner i s = None" if "h i = 0" using z that by (simp add: release_owner_def)
  moreover have "h i = 0" if "release_owner i s = None" using release_ok [OF ok, of i] that by simp
  ultimately show ?thesis using z shared_okD(2,4) [OF ok] by (auto split: option.splits)
qed

text \<open>Two owners of one allocation.\<close>

definition sample_anchor :: anchor where
  "sample_anchor = \<lparr>an_id = 7, an_bytes = 64, an_kind = AIndexes\<rparr>"

lemma sample_acquires:
  "\<exists>s. acquire (sample_platform 3) sample_anchor shared_new = Some s \<and> (\<exists>s'. acquire (sample_platform 3) sample_anchor s = Some s')"
  by (simp add: acquire_def shared_new_def table_new_def table_get_def table_insert_def tier_after_def
      sample_platform_def hashbrown_tier_def capacity_to_buckets_def bucket_mask_to_capacity_def settle_def
      table_put_def sample_anchor_def put_owner_def)

theorem shared_holds_refine_witness:
  "\<exists>h s. h 7 = 2 \<and> shared_reach 2 h s \<and> map_option (unat \<circ> sh_owners) (table_get (sa_owners s) 7) = Some 2 \<and>
    release_owner 7 s \<noteq> None"
proof -
  obtain s s' where s: "acquire (sample_platform 3) sample_anchor shared_new = Some s"
    "acquire (sample_platform 3) sample_anchor s = Some s'" using sample_acquires by blast
  let ?h = "((\<lambda>_. 0)(an_id sample_anchor := (0::nat) + 1))"
  let ?h2 = "?h(an_id sample_anchor := ?h (an_id sample_anchor) + 1)"
  have r: "shared_reach 2 ?h2 s'"
    by (rule shared_reach.acquired [OF shared_reach.acquired [OF shared_reach.start _ s(1)] _ s(2)]) simp_all
  have h2: "?h2 7 = 2" by (simp add: sample_anchor_def)
  then have "map_option (unat \<circ> sh_owners) (table_get (sa_owners s') 7) = Some 2 \<and> release_owner 7 s' \<noteq> None"
    using shared_holds_refine [OF r, of 7] by (simp only: if_False) simp
  then show ?thesis using h2 r by blast
qed

text \<open>Admission. The bytes and the number of entries computed for a list of anchors before
  they are acquired are exactly what acquiring all of them adds to the ledger, whatever
  anchors repeat or are owned already.\<close>

theorem admission_exact:
  assumes "shared_reach n h s" "n < 2 ^ 32" "acquire_all te as s = Some s'"
  shows "total_bytes s' = total_bytes s + fst (unowned s as) \<and>
    length (tb_map (sa_owners s')) = length (tb_map (sa_owners s)) + snd (unowned s as)"
  by (rule acquire_all_unowned [OF shared_okD(1) [OF shared_reach_ok [OF assms(1,2)]] assms(3)])

theorem admission_exact_witness:
  "\<exists>s'. acquire_all (\<lambda>_. sample_platform 3) [sample_anchor, sample_anchor] shared_new = Some s' \<and>
    total_bytes s' = 64"
proof -
  obtain s' where s': "acquire_all (\<lambda>_. sample_platform 3) [sample_anchor, sample_anchor] shared_new = Some s'"
    using sample_acquires by auto
  have "total_bytes shared_new = 0" "fst (unowned shared_new [sample_anchor, sample_anchor]) = 64"
    by (simp_all add: total_bytes_def shared_new_def unowned_def table_new_def table_get_def sample_anchor_def)
  then show ?thesis using admission_exact [OF shared_reach.start [of 0] _ s'] s' by simp
qed

end
