(* ===== verification/Expiry.thy ===== *)
theory Expiry
  imports Ledger
begin

text \<open>
  \<open>snapshot_ledger.rs\<close>: the two indexes of deadlines. \<open>ExpiryIndex\<close> is a heap whose tickets may
  be stale: the deadline that counts is the one the table of the key has now, which the caller
  gives as \<open>deadline_of\<close>. \<open>DeadlineIndex\<close> is an exact ordered set. The last part is the table of
  recently used codex sources of \<open>snapshot.rs\<close>, kept through an expiry index, and its deliveries.
  Tables are association lists here: the charges of a ledgered table and the assertion that it
  lands on its predicted capacity are in \<open>Ledger\<close>, and are no branch of the operations below; nor
  are the assertions on the growth of the heap.
\<close>

subsection \<open>The lazy heap\<close>

type_synonym 'k ticket = "nat \<times> 'k"

text \<open>Which of the tickets a \<open>BinaryHeap\<close> gives next: one of an earliest deadline.\<close>

type_synonym 'k heap_pick = "'k ticket list \<Rightarrow> nat"

definition heap_pick :: "'k heap_pick \<Rightarrow> bool" where
  "heap_pick pick \<longleftrightarrow> (\<forall>q. q \<noteq> [] \<longrightarrow> pick q < length q \<and> (\<forall>t\<in>set q. fst (q ! pick q) \<le> fst t))"

record 'k expiry_index =
  xi_heap :: "'k ticket list"
  xi_key_bytes :: nat

definition expiry_new :: "'k expiry_index" where
  "expiry_new = \<lparr>xi_heap = [], xi_key_bytes = 0\<rparr>"

definition expiry_push :: "('k \<Rightarrow> nat) \<Rightarrow> nat \<Rightarrow> 'k \<Rightarrow> 'k expiry_index \<Rightarrow> 'k expiry_index" where
  "expiry_push owned deadline key x =
     x\<lparr>xi_heap := xi_heap x @ [(deadline, key)], xi_key_bytes := xi_key_bytes x + owned key\<rparr>"

definition remove_nth :: "nat \<Rightarrow> 'a list \<Rightarrow> 'a list" where
  "remove_nth i xs = take i xs @ drop (Suc i) xs"

text \<open>\<open>None\<close> is the failed subtraction; \<open>Some None\<close> the empty heap.\<close>

definition expiry_pop ::
  "'k heap_pick \<Rightarrow> ('k \<Rightarrow> nat) \<Rightarrow> 'k expiry_index \<Rightarrow> ('k ticket \<times> 'k expiry_index) option option" where
  "expiry_pop pick owned x =
     (if xi_heap x = [] then Some None
      else let i = pick (xi_heap x); t = xi_heap x ! i in do {
        n \<leftarrow> checked_sub (xi_key_bytes x) (owned (snd t));
        Some (Some (t, \<lparr>xi_heap = remove_nth i (xi_heap x), xi_key_bytes = n\<rparr>)) })"

definition expiry_peek :: "'k heap_pick \<Rightarrow> 'k expiry_index \<Rightarrow> 'k ticket option" where
  "expiry_peek pick x = (if xi_heap x = [] then None else Some (xi_heap x ! pick (xi_heap x)))"

definition summed_key_bytes :: "('k \<Rightarrow> nat) \<Rightarrow> 'k expiry_index \<Rightarrow> nat" where
  "summed_key_bytes owned x = sum_list (map (\<lambda>t. owned (snd t)) (xi_heap x))"

definition crowded :: "'k expiry_index \<Rightarrow> nat \<Rightarrow> bool" where
  "crowded x live \<longleftrightarrow> 2 * live < length (xi_heap x)"

definition expiry_rebuild :: "('k \<Rightarrow> nat) \<Rightarrow> 'k ticket list \<Rightarrow> 'k expiry_index \<Rightarrow> 'k expiry_index" where
  "expiry_rebuild owned tickets x =
     (let x = x\<lparr>xi_heap := tickets\<rparr> in x\<lparr>xi_key_bytes := summed_key_bytes owned x\<rparr>)"

text \<open>What one popped ticket of \<open>expired\<close> does.\<close>

definition expire_ticket ::
  "('k \<Rightarrow> nat) \<Rightarrow> ('k \<Rightarrow> nat option) \<Rightarrow> nat \<Rightarrow> 'k \<Rightarrow> 'k list \<Rightarrow> 'k expiry_index \<Rightarrow> 'k list \<times> 'k expiry_index" where
  "expire_ticket owned deadline_of now key expired x = (case deadline_of key of
      None \<Rightarrow> (expired, x)
    | Some current \<Rightarrow> if current \<le> now then (expired @ [key], x)
        else (expired, expiry_push owned current key x))"

partial_function (option) expired_from ::
  "'k heap_pick \<Rightarrow> ('k \<Rightarrow> nat) \<Rightarrow> ('k \<Rightarrow> nat option) \<Rightarrow> nat \<Rightarrow> 'k list \<Rightarrow> 'k expiry_index \<Rightarrow>
   ('k list \<times> 'k expiry_index) option" where
  "expired_from pick owned deadline_of now expired x =
     (if is_some_and (\<lambda>t. fst t \<le> now) (expiry_peek pick x)
      then Option.bind (expiry_pop pick owned x) (\<lambda>popped. case popped of
          None \<Rightarrow> None
        | Some (t, x) \<Rightarrow> (case expire_ticket owned deadline_of now (snd t) expired x of
            (expired, x) \<Rightarrow> expired_from pick owned deadline_of now expired x))
      else Some (expired, x))"

definition expiry_expired ::
  "'k heap_pick \<Rightarrow> ('k \<Rightarrow> nat) \<Rightarrow> nat \<Rightarrow> ('k \<Rightarrow> nat option) \<Rightarrow> 'k expiry_index \<Rightarrow>
   ('k list \<times> 'k expiry_index) option" where
  "expiry_expired pick owned now deadline_of x = expired_from pick owned deadline_of now [] x"

partial_function (option) pop_earliest ::
  "'k heap_pick \<Rightarrow> ('k \<Rightarrow> nat) \<Rightarrow> ('k \<Rightarrow> nat option) \<Rightarrow> 'k expiry_index \<Rightarrow>
   ('k option \<times> 'k expiry_index) option" where
  "pop_earliest pick owned deadline_of x =
     Option.bind (expiry_pop pick owned x) (\<lambda>popped. case popped of
         None \<Rightarrow> Some (None, x)
       | Some (t, x) \<Rightarrow> (case deadline_of (snd t) of
           None \<Rightarrow> pop_earliest pick owned deadline_of x
         | Some current \<Rightarrow>
             if current = fst t then Some (Some (snd t), x)
             else pop_earliest pick owned deadline_of (expiry_push owned current (snd t) x)))"

subsection \<open>The exact index\<close>

type_synonym 'k deadline_index = "(nat \<times> 'k) set"

definition deadline_insert :: "nat \<Rightarrow> 'k \<Rightarrow> 'k deadline_index \<Rightarrow> 'k deadline_index option" where
  "deadline_insert deadline key d = (if (deadline, key) \<in> d then None else Some (insert (deadline, key) d))"

definition deadline_remove :: "nat \<Rightarrow> 'k \<Rightarrow> 'k deadline_index \<Rightarrow> 'k deadline_index option" where
  "deadline_remove deadline key d = (if (deadline, key) \<in> d then Some (d - {(deadline, key)}) else None)"

text \<open>The least pair: the earliest deadline, then the least key.\<close>

definition deadline_first :: "('k :: linorder) deadline_index \<Rightarrow> (nat \<times> 'k) option" where
  "deadline_first d = (if d = {} then None
     else let m = Min (fst ` d) in Some (m, Min (snd ` {t \<in> d. fst t = m})))"

definition deadline_earliest :: "('k :: linorder) deadline_index \<Rightarrow> 'k option" where
  "deadline_earliest d = map_option snd (deadline_first d)"

definition pop_expired :: "nat \<Rightarrow> ('k :: linorder) deadline_index \<Rightarrow> 'k option \<times> 'k deadline_index" where
  "pop_expired now d =
     (if \<not> is_some_and (\<lambda>t. fst t \<le> now) (deadline_first d) then (None, d)
      else (case deadline_first d of
          None \<Rightarrow> (None, d)
        | Some t \<Rightarrow> (Some (snd t), d - {t})))"

subsection \<open>The located paths\<close>

record located_path =
  lp_path :: string
  lp_expires :: nat

record locations =
  lo_table :: "(string \<times> located_path) list"
  lo_expiry :: "string expiry_index"

definition locations_new :: locations where
  "locations_new = \<lparr>lo_table = [], lo_expiry = expiry_new\<rparr>"

definition location_deadline :: "locations \<Rightarrow> string \<Rightarrow> nat option" where
  "location_deadline s i = map_option lp_expires (map_of (lo_table s) i)"

definition insert_location :: "string \<Rightarrow> located_path \<Rightarrow> locations \<Rightarrow> locations" where
  "insert_location i location s =
     (let x = expiry_push length (lp_expires location) i (lo_expiry s);
          table = AList.update i location (lo_table s)
      in \<lparr>lo_table = table,
           lo_expiry = (if crowded x (length table)
             then expiry_rebuild length (map (\<lambda>(j, l). (lp_expires l, j)) table) x else x)\<rparr>)"

definition evict_oldest_location :: "string heap_pick \<Rightarrow> locations \<Rightarrow> (bool \<times> locations) option" where
  "evict_oldest_location pick s = do {
     (oldest, x) \<leftarrow> pop_earliest pick length (location_deadline s) (lo_expiry s);
     let s = s\<lparr>lo_expiry := x\<rparr>;
     (case oldest of
        None \<Rightarrow> Some (False, s)
      | Some i \<Rightarrow> Some (True, s\<lparr>lo_table := AList.delete i (lo_table s)\<rparr>)) }"

definition expired_locations :: "string heap_pick \<Rightarrow> nat \<Rightarrow> locations \<Rightarrow> (string list \<times> locations) option" where
  "expired_locations pick now s = do {
     (expired, x) \<leftarrow> expiry_expired pick length now (location_deadline s) (lo_expiry s);
     Some (expired, s\<lparr>lo_expiry := x\<rparr>) }"

text \<open>The part of \<open>prune_at\<close> on the located paths.\<close>

definition prune_locations :: "string heap_pick \<Rightarrow> nat \<Rightarrow> locations \<Rightarrow> locations option" where
  "prune_locations pick now s = do {
     (expired, s) \<leftarrow> expired_locations pick now s;
     Some (s\<lparr>lo_table := foldl (\<lambda>t i. AList.delete i t) (lo_table s) expired\<rparr>) }"

definition LOCATIONS_MAX :: nat where
  "LOCATIONS_MAX = 4096"

text \<open>The evictions that make room for \<open>n\<close> more.\<close>

partial_function (option) evict_locations :: "string heap_pick \<Rightarrow> nat \<Rightarrow> locations \<Rightarrow> locations option" where
  "evict_locations pick n s =
     (if LOCATIONS_MAX < length (lo_table s) + n
      then Option.bind (evict_oldest_location pick s) (\<lambda>(evicted, s).
        if evicted then evict_locations pick n s else Some s)
      else Some s)"

text \<open>\<open>remember_locations\<close>: \<open>now\<close> is the time of the pruning, \<open>expires\<close> the deadline given to the
  entries, \<open>admitted\<close> the answer of the admission of memory.\<close>

definition remember_locations ::
  "string heap_pick \<Rightarrow> nat \<Rightarrow> nat \<Rightarrow> bool \<Rightarrow> (string \<times> string) list \<Rightarrow> locations \<Rightarrow> locations option" where
  "remember_locations pick now expires admitted entries s =
     (if entries = [] then Some s
      else do {
        s \<leftarrow> prune_locations pick now s;
        s \<leftarrow> evict_locations pick (length entries) s;
        if admitted
        then Some (foldl (\<lambda>s (i, path). insert_location i \<lparr>lp_path = path, lp_expires = expires\<rparr> s) s
               (filter (\<lambda>(i, path). length i + length path \<le> 8192) entries))
        else Some s })"

subsection \<open>Recently used sources\<close>

definition TOUCH_TTL_MS :: nat where
  "TOUCH_TTL_MS = 30 * 60000"

definition U64_MAX :: nat where
  "U64_MAX = 2 ^ 64 - 1"

definition touch_deadline :: "nat \<Rightarrow> nat" where
  "touch_deadline touched = min U64_MAX (touched + TOUCH_TTL_MS)"

text \<open>The times of use of the recent codex sources with their expiry index; a use of a source
  that is already there only moves its time.\<close>

record 'k recents =
  rc_table :: "('k \<times> nat) list"
  rc_expiry :: "'k expiry_index"

definition recents_new :: "'k recents" where
  "recents_new = \<lparr>rc_table = [], rc_expiry = expiry_new\<rparr>"

definition recent_deadline :: "'k recents \<Rightarrow> 'k \<Rightarrow> nat option" where
  "recent_deadline s k = map_option touch_deadline (map_of (rc_table s) k)"

definition touch_recent :: "('k \<Rightarrow> nat) \<Rightarrow> 'k \<Rightarrow> nat \<Rightarrow> 'k recents \<Rightarrow> 'k recents" where
  "touch_recent owned k now s =
     (let table = AList.update k now (rc_table s)
      in if map_of (rc_table s) k \<noteq> None then s\<lparr>rc_table := table\<rparr>
         else let x = expiry_push owned (touch_deadline now) k (rc_expiry s)
           in \<lparr>rc_table = table,
                rc_expiry = (if crowded x (length table)
                  then expiry_rebuild owned (map (\<lambda>(j, touched). (touch_deadline touched, j)) table) x else x)\<rparr>)"

text \<open>A prepared load always pushes a ticket.\<close>

definition touch_load :: "('k \<Rightarrow> nat) \<Rightarrow> 'k \<Rightarrow> nat \<Rightarrow> 'k recents \<Rightarrow> 'k recents" where
  "touch_load owned k now s =
     (let x = expiry_push owned (touch_deadline now) k (rc_expiry s);
          table = AList.update k now (rc_table s)
      in \<lparr>rc_table = table,
           rc_expiry = (if crowded x (length table)
             then expiry_rebuild owned (map (\<lambda>(j, touched). (touch_deadline touched, j)) table) x else x)\<rparr>)"

definition prune_recents :: "'k heap_pick \<Rightarrow> ('k \<Rightarrow> nat) \<Rightarrow> nat \<Rightarrow> 'k recents \<Rightarrow> ('k list \<times> 'k recents) option" where
  "prune_recents pick owned now s = do {
     (expired, x) \<leftarrow> expiry_expired pick owned now (recent_deadline s) (rc_expiry s);
     Some (expired, \<lparr>rc_table = foldl (\<lambda>t k. AList.delete k t) (rc_table s) expired, rc_expiry = x\<rparr>) }"

subsection \<open>Deliveries\<close>

record 'k deliveries =
  dv_table :: "('k \<times> nat) list"
  dv_expiry :: "'k deadline_index"

text \<open>Of a delivery only its deadline matters here.\<close>

definition remove_delivery :: "'k \<Rightarrow> 'k deliveries \<Rightarrow> (nat option \<times> 'k deliveries) option" where
  "remove_delivery key s = (case map_of (dv_table s) key of
      None \<Rightarrow> Some (None, s)
    | Some expires \<Rightarrow> do {
        d \<leftarrow> deadline_remove expires key (dv_expiry s);
        Some (Some expires, \<lparr>dv_table = AList.delete key (dv_table s), dv_expiry = d\<rparr>) })"

definition insert_delivery :: "'k \<Rightarrow> nat \<Rightarrow> 'k deliveries \<Rightarrow> 'k deliveries option" where
  "insert_delivery key expires s = do {
     (_, s) \<leftarrow> remove_delivery key s;
     d \<leftarrow> deadline_insert expires key (dv_expiry s);
     Some \<lparr>dv_table = AList.update key expires (dv_table s), dv_expiry = d\<rparr> }"

partial_function (option) expire_deliveries :: "nat \<Rightarrow> ('k :: linorder) deliveries \<Rightarrow> 'k deliveries option" where
  "expire_deliveries now s = (case pop_expired now (dv_expiry s) of
      (None, d) \<Rightarrow> Some (s\<lparr>dv_expiry := d\<rparr>)
    | (Some key, d) \<Rightarrow>
        (if map_of (dv_table s) key = None then None
         else expire_deliveries now \<lparr>dv_table = AList.delete key (dv_table s), dv_expiry = d\<rparr>))"

definition evict_earliest_delivery :: "('k :: linorder) deliveries \<Rightarrow> 'k deliveries option" where
  "evict_earliest_delivery s = (case deadline_earliest (dv_expiry s) of
      None \<Rightarrow> Some s
    | Some key \<Rightarrow> map_option snd (remove_delivery key s))"

end
