(* ===== verification/ExpiryFacts.thy ===== *)
theory ExpiryFacts
  imports Expiry
begin

text \<open>
  What the indexes of deadlines guarantee: the loops over the lazy heap return; a pruning drops
  exactly the entries whose deadline has passed, however stale the tickets; an eviction takes
  an entry of the earliest deadline; the exact index agrees with its table.
\<close>

subsection \<open>Tickets\<close>

lemma mset_remove_nth: "i < length xs \<Longrightarrow> mset xs = add_mset (xs ! i) (mset (remove_nth i xs))"
  unfolding remove_nth_def by (subst id_take_nth_drop [of i xs]) simp_all

lemma set_remove_nth: "i < length xs \<Longrightarrow> set xs = insert (xs ! i) (set (remove_nth i xs))"
  using mset_remove_nth [of i xs] by (metis set_mset_add_mset_insert set_mset_mset)

lemma sum_remove_nth:
  "i < length xs \<Longrightarrow> sum_list (map f xs) = f (xs ! i) + sum_list (map f (remove_nth i xs))" for f :: "'a \<Rightarrow> nat"
  by (simp add: remove_nth_def) (subst id_take_nth_drop [of i xs], simp_all)

lemma filter_remove_nth:
  assumes "i < length xs"
  shows "length (filter p xs) = (if p (xs ! i) then 1 else 0) + length (filter p (remove_nth i xs))"
proof -
  have "size (filter_mset p (mset xs)) = (if p (xs ! i) then 1 else 0) + size (filter_mset p (mset (remove_nth i xs)))"
    unfolding mset_remove_nth [OF assms] by simp
  then show ?thesis by (simp flip: mset_filter)
qed

definition tickets :: "'k expiry_index \<Rightarrow> 'k ticket set" where
  "tickets x = set (xi_heap x)"

definition balanced :: "('k \<Rightarrow> nat) \<Rightarrow> 'k expiry_index \<Rightarrow> bool" where
  "balanced owned x \<longleftrightarrow> xi_key_bytes x = summed_key_bytes owned x"

text \<open>Every live key has a ticket that comes no later than its deadline.\<close>

definition covered :: "('k \<Rightarrow> nat option) \<Rightarrow> 'k expiry_index \<Rightarrow> bool" where
  "covered dl x \<longleftrightarrow> (\<forall>k d. dl k = Some d \<longrightarrow> (\<exists>t\<le>d. (t, k) \<in> tickets x))"

lemma tickets_push [simp]: "tickets (expiry_push owned d k x) = insert (d, k) (tickets x)"
  by (auto simp: tickets_def expiry_push_def)

lemma balanced_push [simp]: "balanced owned (expiry_push owned d k x) \<longleftrightarrow> balanced owned x"
  by (auto simp: balanced_def expiry_push_def summed_key_bytes_def)

lemma balanced_new [simp]: "balanced owned expiry_new"
  by (simp add: balanced_def expiry_new_def summed_key_bytes_def)

lemma tickets_new [simp]: "tickets expiry_new = {}"
  by (simp add: tickets_def expiry_new_def)

lemma rebuild_simps [simp]:
  "tickets (expiry_rebuild owned ts x) = set ts"
  "balanced owned (expiry_rebuild owned ts x)"
  by (simp_all add: expiry_rebuild_def tickets_def balanced_def summed_key_bytes_def Let_def)

lemma pop_spec:
  assumes "heap_pick pick" "balanced owned x" "xi_heap x \<noteq> []"
  obtains t x' where "expiry_pop pick owned x = Some (Some (t, x'))" "expiry_peek pick x = Some t"
    "balanced owned x'" "tickets x = insert t (tickets x')" "\<And>u. u \<in> tickets x \<Longrightarrow> fst t \<le> fst u"
    "length (xi_heap x) = Suc (length (xi_heap x'))"
    "\<And>p. length (filter p (xi_heap x)) = (if p t then 1 else 0) + length (filter p (xi_heap x'))"
proof -
  let ?i = "pick (xi_heap x)"
  have i: "?i < length (xi_heap x)" and least: "\<forall>t\<in>set (xi_heap x). fst (xi_heap x ! ?i) \<le> fst t"
    using assms(1,3) by (auto simp: heap_pick_def)
  let ?t = "xi_heap x ! ?i"
  let ?x = "\<lparr>xi_heap = remove_nth ?i (xi_heap x), xi_key_bytes = xi_key_bytes x - owned (snd ?t)\<rparr>"
  have s: "xi_key_bytes x = owned (snd ?t) + summed_key_bytes owned ?x"
    using assms(2) sum_remove_nth [OF i, of "\<lambda>t. owned (snd t)"] by (simp add: balanced_def summed_key_bytes_def)
  then have "expiry_pop pick owned x = Some (Some (?t, ?x))"
    using assms(3) by (simp add: expiry_pop_def Let_def checked_sub_def)
  moreover have "balanced owned ?x" using s by (simp add: balanced_def)
  moreover have "tickets x = insert ?t (tickets ?x)" using set_remove_nth [OF i] by (simp add: tickets_def)
  ultimately show ?thesis
    using that [of ?t ?x] least assms(3) filter_remove_nth [OF i] filter_remove_nth [OF i, of "\<lambda>_. True"]
    by (simp add: expiry_peek_def tickets_def)
qed

subsection \<open>Expiry\<close>

definition due :: "nat \<Rightarrow> 'k expiry_index \<Rightarrow> nat" where
  "due now x = length (filter (\<lambda>t. fst t \<le> now) (xi_heap x))"

text \<open>What is still to be found while the loop runs.\<close>

definition pending_cover :: "('k \<Rightarrow> nat option) \<Rightarrow> nat \<Rightarrow> 'k list \<Rightarrow> 'k expiry_index \<Rightarrow> bool" where
  "pending_cover dl now es x \<longleftrightarrow>
     (\<forall>k d. dl k = Some d \<longrightarrow> d \<le> now \<and> k \<in> set es \<or> (\<exists>t\<le>d. (t, k) \<in> tickets x))"

lemma expired_from_ok:
  assumes "heap_pick pick" "balanced owned x"
  shows "\<exists>es' x'. expired_from pick owned dl now es x = Some (es', x') \<and> balanced owned x' \<and>
    (\<forall>t\<in>tickets x'. now < fst t) \<and>
    set es' \<subseteq> set es \<union> {k. \<exists>d. dl k = Some d \<and> d \<le> now} \<and>
    (pending_cover dl now es x \<longrightarrow> pending_cover dl now es' x')"
  using assms(2)
proof (induction "due now x" arbitrary: x es rule: less_induct)
  case less
  show ?case
  proof (cases "is_some_and (\<lambda>t. fst t \<le> now) (expiry_peek pick x)")
    case False
    have "now < fst t" if "t \<in> tickets x" for t
    proof -
      have ne: "xi_heap x \<noteq> []" using that by (auto simp: tickets_def)
      obtain u x' where "expiry_peek pick x = Some u" "\<And>v. v \<in> tickets x \<Longrightarrow> fst u \<le> fst v"
        by (rule pop_spec [OF assms(1) less.prems ne]) (rule that)
      then show ?thesis using False that by (metis is_some_and_simps(2) not_le order_trans)
    qed
    then show ?thesis using False less.prems by (subst expired_from.simps) auto
  next
    case True
    then have ne: "xi_heap x \<noteq> []" by (auto simp: expiry_peek_def)
    obtain t x1 where p: "expiry_pop pick owned x = Some (Some (t, x1))" "expiry_peek pick x = Some t"
      "balanced owned x1" "tickets x = insert t (tickets x1)" "\<And>u. u \<in> tickets x \<Longrightarrow> fst t \<le> fst u"
      "length (xi_heap x) = Suc (length (xi_heap x1))"
      "\<And>p. length (filter p (xi_heap x)) = (if p t then 1 else 0) + length (filter p (xi_heap x1))"
      by (rule pop_spec [OF assms(1) less.prems ne]) (rule that)
    have t: "fst t \<le> now" using True p(2) by simp
    obtain es2 x2 where s: "expire_ticket owned dl now (snd t) es x1 = (es2, x2)" by force
    have b2: "balanced owned x2" using s p(3) by (auto simp: expire_ticket_def split: option.splits if_splits)
    have "due now x2 = due now x1" using s
      by (auto simp: expire_ticket_def due_def expiry_push_def split: option.splits if_splits)
    then have "due now x2 < due now x" using p(7) [of "\<lambda>u. fst u \<le> now"] t by (simp add: due_def)
    from less.hyps [OF this b2, of es2] obtain es' x' where r:
      "expired_from pick owned dl now es2 x2 = Some (es', x')" "balanced owned x'" "\<forall>t\<in>tickets x'. now < fst t"
      "set es' \<subseteq> set es2 \<union> {k. \<exists>d. dl k = Some d \<and> d \<le> now}"
      "pending_cover dl now es2 x2 \<longrightarrow> pending_cover dl now es' x'" by blast
    have "expired_from pick owned dl now es x = Some (es', x')"
      using True p(1) s r(1) by (subst expired_from.simps) simp
    moreover have "set es2 \<subseteq> set es \<union> {k. \<exists>d. dl k = Some d \<and> d \<le> now}"
      using s by (auto simp: expire_ticket_def split: option.splits if_splits)
    moreover have "pending_cover dl now es2 x2" if c: "pending_cover dl now es x"
      unfolding pending_cover_def
    proof (intro allI impI)
      fix k d assume k: "dl k = Some d"
      then consider "d \<le> now" "k \<in> set es" | u where "u \<le> d" "(u, k) \<in> tickets x"
        using c by (auto simp: pending_cover_def)
      then show "d \<le> now \<and> k \<in> set es2 \<or> (\<exists>t\<le>d. (t, k) \<in> tickets x2)"
      proof cases
        case 1
        then show ?thesis using s by (auto simp: expire_ticket_def split: option.splits if_splits)
      next
        case 2
        show ?thesis
        proof (cases "(u, k) = t")
          case False
          then have "(u, k) \<in> tickets x2" using 2 p(4) s
            by (auto simp: expire_ticket_def split: option.splits if_splits)
          then show ?thesis using 2 by blast
        next
          case eq: True
          then show ?thesis using s k by (auto simp: expire_ticket_def split: option.splits if_splits)
        qed
      qed
    qed
    ultimately show ?thesis using r by blast
  qed
qed

lemma expired_exact:
  assumes "heap_pick pick" "balanced owned x" "covered dl x"
  obtains es x' where "expiry_expired pick owned now dl x = Some (es, x')" "balanced owned x'"
    "set es = {k. \<exists>d. dl k = Some d \<and> d \<le> now}"
    "\<And>k d. dl k = Some d \<Longrightarrow> now < d \<Longrightarrow> \<exists>t\<le>d. (t, k) \<in> tickets x'"
proof -
  obtain es x' where r: "expired_from pick owned dl now [] x = Some (es, x')" "balanced owned x'"
      "\<forall>t\<in>tickets x'. now < fst t" "set es \<subseteq> {k. \<exists>d. dl k = Some d \<and> d \<le> now}"
      "pending_cover dl now [] x \<longrightarrow> pending_cover dl now es x'"
    using expired_from_ok [OF assms(1,2), of dl now "[]"] by auto
  have c: "pending_cover dl now es x'" using r(5) assms(3) by (auto simp: pending_cover_def covered_def)
  have "k \<in> set es" if "dl k = Some d" "d \<le> now" for k d
    using c that r(3) unfolding pending_cover_def by fastforce
  then show ?thesis using that [of es x'] r(1,2,4) c
    by (fastforce simp: expiry_expired_def pending_cover_def)
qed

subsection \<open>The earliest\<close>

definition stale :: "('k \<Rightarrow> nat option) \<Rightarrow> 'k expiry_index \<Rightarrow> nat" where
  "stale dl x = length (filter (\<lambda>t. dl (snd t) \<noteq> Some (fst t)) (xi_heap x))"

definition earliest_key :: "('k \<Rightarrow> nat option) \<Rightarrow> 'k option \<Rightarrow> bool" where
  "earliest_key dl r = (case r of
      None \<Rightarrow> \<forall>k. dl k = None
    | Some k \<Rightarrow> \<exists>d. dl k = Some d \<and> (\<forall>k' d'. dl k' = Some d' \<longrightarrow> d \<le> d'))"

lemma pop_earliest_ok:
  assumes "heap_pick pick" "balanced owned x" "covered dl x"
  shows "\<exists>r x'. pop_earliest pick owned dl x = Some (r, x') \<and> balanced owned x' \<and> earliest_key dl r \<and>
    (\<forall>k d. dl k = Some d \<longrightarrow> r \<noteq> Some k \<longrightarrow> (\<exists>t\<le>d. (t, k) \<in> tickets x'))"
  using assms(2,3)
proof (induction "stale dl x" arbitrary: x rule: less_induct)
  case less
  show ?case
  proof (cases "xi_heap x = []")
    case True
    then have "dl k = None" for k using less.prems(2) by (cases "dl k") (auto simp: covered_def tickets_def)
    then show ?thesis using True less.prems
      by (subst pop_earliest.simps) (simp add: expiry_pop_def earliest_key_def)
  next
    case False
    obtain t x1 where p: "expiry_pop pick owned x = Some (Some (t, x1))" "expiry_peek pick x = Some t"
      "balanced owned x1" "tickets x = insert t (tickets x1)" "\<And>u. u \<in> tickets x \<Longrightarrow> fst t \<le> fst u"
      "length (xi_heap x) = Suc (length (xi_heap x1))"
      "\<And>p. length (filter p (xi_heap x)) = (if p t then 1 else 0) + length (filter p (xi_heap x1))"
      by (rule pop_spec [OF assms(1) less.prems(1) False]) (rule that)
    obtain d k where t: "t = (d, k)" by force
    note st = p(7) [of "\<lambda>t. dl (snd t) \<noteq> Some (fst t)"]
    have cov: "\<exists>u\<le>d'. (u, k') \<in> tickets x1 \<or> (u = d \<and> k' = k)" if "dl k' = Some d'" for k' d'
      using less.prems(2) that p(4) t by (fastforce simp: covered_def)
    consider (gone) "dl k = None" | (fresh) "dl k = Some d" | (moved) c where "dl k = Some c" "c \<noteq> d"
      by (cases "dl k") auto
    then show ?thesis
    proof cases
      case gone
      have "stale dl x1 < stale dl x" using st gone t by (simp add: stale_def)
      moreover have "covered dl x1" using cov gone by (fastforce simp: covered_def)
      ultimately obtain r x' where "pop_earliest pick owned dl x1 = Some (r, x') \<and> balanced owned x' \<and> earliest_key dl r \<and>
          (\<forall>k d. dl k = Some d \<longrightarrow> r \<noteq> Some k \<longrightarrow> (\<exists>t\<le>d. (t, k) \<in> tickets x'))"
        using less.hyps [OF _ p(3)] by blast
      moreover have "pop_earliest pick owned dl x = pop_earliest pick owned dl x1"
        using p(1) gone t by (subst pop_earliest.simps) simp
      ultimately show ?thesis by simp
    next
      case fresh
      have "pop_earliest pick owned dl x = Some (Some k, x1)"
        using p(1) fresh t by (subst pop_earliest.simps) simp
      moreover have "d \<le> d'" if "dl k' = Some d'" for k' d'
      proof -
        obtain u where "u \<le> d'" "(u, k') \<in> tickets x" using less.prems(2) \<open>dl k' = Some d'\<close> by (auto simp: covered_def)
        then show ?thesis using p(5) [of "(u, k')"] t by simp
      qed
      moreover have "\<exists>t\<le>d'. (t, k') \<in> tickets x1" if "dl k' = Some d'" "k' \<noteq> k" for k' d'
        using cov that by blast
      ultimately show ?thesis using fresh p(3) by (auto simp: earliest_key_def)
    next
      case moved
      let ?x = "expiry_push owned c k x1"
      have "stale dl ?x = stale dl x1" using moved by (simp add: stale_def expiry_push_def)
      then have "stale dl ?x < stale dl x" using st moved t by (simp add: stale_def)
      moreover have "covered dl ?x" unfolding covered_def
      proof (intro allI impI)
        fix k' d' assume k': "dl k' = Some d'"
        show "\<exists>t\<le>d'. (t, k') \<in> tickets ?x"
        proof (cases "k' = k")
          case True
          then show ?thesis using moved k' by auto
        next
          case False
          then show ?thesis using cov [OF k'] by auto
        qed
      qed
      ultimately obtain r x' where "pop_earliest pick owned dl ?x = Some (r, x') \<and> balanced owned x' \<and> earliest_key dl r \<and>
          (\<forall>k d. dl k = Some d \<longrightarrow> r \<noteq> Some k \<longrightarrow> (\<exists>t\<le>d. (t, k) \<in> tickets x'))"
        using less.hyps [of ?x] p(3) by auto
      moreover have "pop_earliest pick owned dl x = pop_earliest pick owned dl ?x"
        using p(1) moved t by (subst pop_earliest.simps) simp
      ultimately show ?thesis by simp
    qed
  qed
qed

subsection \<open>Located paths\<close>

definition loc_ok :: "locations \<Rightarrow> bool" where
  "loc_ok s \<longleftrightarrow> distinct (map fst (lo_table s)) \<and> balanced length (lo_expiry s) \<and>
     covered (location_deadline s) (lo_expiry s)"

lemma location_deadline_eq: "location_deadline s = (\<lambda>k. map_option lp_expires (map_of (lo_table s) k))"
  by (simp add: location_deadline_def fun_eq_iff)

lemma loc_ok_new: "loc_ok locations_new"
  by (simp add: loc_ok_def locations_new_def covered_def location_deadline_def)

lemma insert_location_ok:
  assumes "loc_ok s"
  shows "loc_ok (insert_location i l s)" "map_of (lo_table (insert_location i l s)) = (map_of (lo_table s))(i \<mapsto> l)"
proof -
  let ?t = "AList.update i l (lo_table s)"
  have d: "distinct (map fst ?t)" using assms by (simp add: loc_ok_def AList.distinct_update)
  have rebuilt: "covered (\<lambda>k. map_option lp_expires (map_of ?t k)) (expiry_rebuild length (map (\<lambda>(j, l). (lp_expires l, j)) ?t) x)" for x
    using d by (fastforce simp: covered_def dest!: map_of_SomeD)
  have "covered (\<lambda>k. map_option lp_expires (map_of ?t k)) (expiry_push length (lp_expires l) i (lo_expiry s))"
    using assms by (fastforce simp: covered_def loc_ok_def location_deadline_def AList.update_conv')
  then show "loc_ok (insert_location i l s)" using rebuilt d assms
    by (auto simp: loc_ok_def insert_location_def location_deadline_eq Let_def)
  show "map_of (lo_table (insert_location i l s)) = (map_of (lo_table s))(i \<mapsto> l)"
    by (simp add: insert_location_def Let_def AList.update_conv')
qed

lemma evict_oldest_ok:
  assumes "heap_pick pick" "loc_ok s"
  shows "\<exists>b s'. evict_oldest_location pick s = Some (b, s') \<and> loc_ok s' \<and>
    (if b then \<exists>i l. map_of (lo_table s) i = Some l \<and> lo_table s' = AList.delete i (lo_table s) \<and>
         (\<forall>j m. map_of (lo_table s) j = Some m \<longrightarrow> lp_expires l \<le> lp_expires m)
     else lo_table s = [] \<and> lo_table s' = [])"
proof -
  obtain r x' where r: "pop_earliest pick length (location_deadline s) (lo_expiry s) = Some (r, x')"
    "balanced length x'" "earliest_key (location_deadline s) r"
    "\<forall>k d. location_deadline s k = Some d \<longrightarrow> r \<noteq> Some k \<longrightarrow> (\<exists>t\<le>d. (t, k) \<in> tickets x')"
    using pop_earliest_ok [OF assms(1)] assms(2) by (fastforce simp: loc_ok_def)
  show ?thesis
  proof (cases r)
    case None
    then have "map_of (lo_table s) k = None" for k using r(3) by (simp add: earliest_key_def location_deadline_def)
    then have "map_of (lo_table s) = Map.empty" by (simp add: fun_eq_iff)
    then have e: "lo_table s = []" by simp
    then have "loc_ok (s\<lparr>lo_expiry := x'\<rparr>)" using r(2) by (simp add: loc_ok_def covered_def location_deadline_def)
    then show ?thesis using None r(1) e by (intro exI [of _ False]) (simp add: evict_oldest_location_def)
  next
    case (Some i)
    then obtain d where d: "location_deadline s i = Some d" "\<forall>k d'. location_deadline s k = Some d' \<longrightarrow> d \<le> d'"
      using r(3) by (auto simp: earliest_key_def)
    then obtain l where li: "map_of (lo_table s) i = Some l" "lp_expires l = d"
      by (auto simp: location_deadline_def)
    have l: "map_of (lo_table s) i = Some l"
      "\<forall>j m. map_of (lo_table s) j = Some m \<longrightarrow> lp_expires l \<le> lp_expires m"
      using d(2) li by (auto simp: location_deadline_def)
    let ?s = "s\<lparr>lo_table := AList.delete i (lo_table s), lo_expiry := x'\<rparr>"
    have "loc_ok ?s" using assms(2) r(2,4) Some
      by (auto simp: loc_ok_def covered_def location_deadline_def AList.distinct_delete AList.delete_conv')
    moreover have "evict_oldest_location pick s = Some (True, ?s)"
      using Some r(1) by (simp add: evict_oldest_location_def Let_def)
    moreover have "lo_table ?s = AList.delete i (lo_table s)" by simp
    ultimately show ?thesis using l unfolding if_split by blast
  qed
qed

lemma map_of_delete_all:
  "map_of (foldl (\<lambda>t i. AList.delete i t) t es) = (\<lambda>k. if k \<in> set es then None else map_of t k)"
  by (induction es arbitrary: t) (auto simp: AList.delete_conv' fun_eq_iff)

lemma distinct_delete_all:
  "distinct (map fst t) \<Longrightarrow> distinct (map fst (foldl (\<lambda>t i. AList.delete i t) t es))"
  by (induction es arbitrary: t) (auto simp: AList.distinct_delete)

lemma prune_locations_ok:
  assumes "heap_pick pick" "loc_ok s"
  shows "\<exists>s'. prune_locations pick now s = Some s' \<and> loc_ok s' \<and>
    (\<forall>i. map_of (lo_table s') i = opt_filter (\<lambda>l. now < lp_expires l) (map_of (lo_table s) i))"
proof -
  obtain es x' where r: "expiry_expired pick length now (location_deadline s) (lo_expiry s) = Some (es, x')"
    "balanced length x'" "set es = {k. \<exists>d. location_deadline s k = Some d \<and> d \<le> now}"
    "\<And>k d. location_deadline s k = Some d \<Longrightarrow> now < d \<Longrightarrow> \<exists>t\<le>d. (t, k) \<in> tickets x'"
    by (rule expired_exact [OF assms(1), of length "lo_expiry s" "location_deadline s" now])
      (use assms(2) in \<open>auto simp: loc_ok_def\<close>)
  let ?s = "s\<lparr>lo_expiry := x', lo_table := foldl (\<lambda>t i. AList.delete i t) (lo_table s) es\<rparr>"
  have look: "map_of (lo_table ?s) i = opt_filter (\<lambda>l. now < lp_expires l) (map_of (lo_table s) i)" for i
    using r(3) by (cases "map_of (lo_table s) i") (auto simp: map_of_delete_all location_deadline_def)
  have "loc_ok ?s"
    unfolding loc_ok_def covered_def
  proof (intro conjI allI impI)
    fix k d assume "location_deadline ?s k = Some d"
    then show "\<exists>t\<le>d. (t, k) \<in> tickets (lo_expiry ?s)"
      using r(4) [of k d] unfolding location_deadline_def look by (auto simp: opt_filter_Some_iff)
  qed (use assms(2) r(2) distinct_delete_all in \<open>auto simp: loc_ok_def\<close>)
  then show ?thesis using r(1) look by (simp add: prune_locations_def expired_locations_def)
qed

end
