(* ===== verification/ExpiryProps.thy ===== *)
theory ExpiryProps
  imports ExpiryFacts
begin

text \<open>
  The properties of the located paths, the recently used sources and the deliveries, each kept
  through an index of deadlines.
\<close>

subsection \<open>Making room\<close>

text \<open>What evictions may do: drop entries, an entry that goes never outliving one that stays.\<close>

definition evicts_earliest :: "locations \<Rightarrow> locations \<Rightarrow> bool" where
  "evicts_earliest s s' \<longleftrightarrow> map_of (lo_table s') \<subseteq>\<^sub>m map_of (lo_table s) \<and>
     (\<forall>i l j m. map_of (lo_table s) i = Some l \<longrightarrow> map_of (lo_table s') i = None \<longrightarrow>
        map_of (lo_table s') j = Some m \<longrightarrow> lp_expires l \<le> lp_expires m)"

lemma evicts_earliest_refl [simp]: "evicts_earliest s s"
  by (simp add: evicts_earliest_def)

lemma evicts_earliest_trans:
  assumes "evicts_earliest s s1" "evicts_earliest s1 s2"
  shows "evicts_earliest s s2"
  unfolding evicts_earliest_def
proof (intro conjI allI impI)
  show "map_of (lo_table s2) \<subseteq>\<^sub>m map_of (lo_table s)"
    using assms map_le_trans unfolding evicts_earliest_def by blast
next
  fix i l j m
  assume i: "map_of (lo_table s) i = Some l" "map_of (lo_table s2) i = None" and j: "map_of (lo_table s2) j = Some m"
  have j1: "map_of (lo_table s1) j = Some m"
    using assms(2) j by (force simp: evicts_earliest_def map_le_def)
  show "lp_expires l \<le> lp_expires m"
  proof (cases "map_of (lo_table s1) i")
    case None
    then show ?thesis using assms(1) i(1) j1 unfolding evicts_earliest_def by blast
  next
    case (Some l')
    then have "l' = l" using assms(1) i(1) by (force simp: evicts_earliest_def map_le_def)
    then show ?thesis using assms(2) Some i(2) j unfolding evicts_earliest_def by blast
  qed
qed

lemma evict_locations_ok:
  assumes "heap_pick pick" "loc_ok s"
  shows "\<exists>s'. evict_locations pick n s = Some s' \<and> loc_ok s' \<and> evicts_earliest s s' \<and>
    (length (lo_table s') + n \<le> LOCATIONS_MAX \<or> lo_table s' = [])"
  using assms(2)
proof (induction "length (lo_table s)" arbitrary: s rule: less_induct)
  case less
  show ?case
  proof (cases "LOCATIONS_MAX < length (lo_table s) + n")
    case False
    then show ?thesis using less.prems by (subst evict_locations.simps) auto
  next
    case True
    obtain b s1 where e: "evict_oldest_location pick s = Some (b, s1)" "loc_ok s1"
      "if b then \<exists>i l. map_of (lo_table s) i = Some l \<and> lo_table s1 = AList.delete i (lo_table s) \<and>
           (\<forall>j m. map_of (lo_table s) j = Some m \<longrightarrow> lp_expires l \<le> lp_expires m)
       else lo_table s = [] \<and> lo_table s1 = []"
      using evict_oldest_ok [OF assms(1) less.prems] by blast
    show ?thesis
    proof (cases b)
      case b: True
      then obtain i l where i: "map_of (lo_table s) i = Some l" "lo_table s1 = AList.delete i (lo_table s)"
        "\<forall>j m. map_of (lo_table s) j = Some m \<longrightarrow> lp_expires l \<le> lp_expires m" using e(3) by auto
      have "length (lo_table s1) < length (lo_table s)"
        using i(1,2) by (simp add: AList.delete_eq) (auto simp: length_filter_less dest!: map_of_SomeD intro!: length_filter_less)
      then obtain s' where s': "evict_locations pick n s1 = Some s'" "loc_ok s'" "evicts_earliest s1 s'"
        "length (lo_table s') + n \<le> LOCATIONS_MAX \<or> lo_table s' = []"
        using less.hyps e(2) by blast
      have "evicts_earliest s s1" using i
        by (auto simp: evicts_earliest_def map_le_def AList.delete_conv' split: if_splits)
      then have "evicts_earliest s s'" using s'(3) evicts_earliest_trans by blast
      moreover have "evict_locations pick n s = Some s'"
        using True b e(1) s'(1) by (subst evict_locations.simps) simp
      ultimately show ?thesis using s' by blast
    next
      case False
      then have "evict_locations pick n s = Some s1" using True e(1) by (subst evict_locations.simps) simp
      moreover have "evicts_earliest s s1" using e(3) False by (simp add: evicts_earliest_def)
      ultimately show ?thesis using e False by auto
    qed
  qed
qed

text \<open>Inserting the entries of a list, all with the deadline \<open>d\<close>.\<close>

definition insert_entry :: "nat \<Rightarrow> locations \<Rightarrow> string \<times> string \<Rightarrow> locations" where
  "insert_entry d = (\<lambda>s (i, path). insert_location i \<lparr>lp_path = path, lp_expires = d\<rparr> s)"

lemma insert_entries_ok: "loc_ok s \<Longrightarrow> loc_ok (foldl (insert_entry d) s es)"
  by (induction es arbitrary: s) (auto simp: insert_entry_def intro: insert_location_ok(1))

lemma insert_entries_look:
  "loc_ok s \<Longrightarrow> map_of (lo_table (foldl (insert_entry d) s es)) i =
     (case map_of (rev es) i of Some path \<Rightarrow> Some \<lparr>lp_path = path, lp_expires = d\<rparr> | None \<Rightarrow> map_of (lo_table s) i)"
proof (induction es arbitrary: s)
  case (Cons e es)
  obtain j path where e: "e = (j, path)" by force
  have "loc_ok (insert_entry d s e)" using Cons.prems by (simp add: e insert_entry_def insert_location_ok(1))
  then show ?case using Cons.IH [of "insert_entry d s e"] insert_location_ok(2) [OF Cons.prems]
    by (simp add: e insert_entry_def map_add_def split: option.split)
qed simp

lemma length_insert_location: "length (lo_table (insert_location i l s)) \<le> Suc (length (lo_table s))"
proof -
  have "length (AList.update k v ps) \<le> Suc (length ps)" for k and v :: located_path and ps :: "(string \<times> located_path) list"
    by (induction ps) auto
  then show ?thesis by (simp add: insert_location_def Let_def)
qed

lemma length_insert_entries: "length (lo_table (foldl (insert_entry d) s es)) \<le> length (lo_table s) + length es"
proof (induction es arbitrary: s)
  case (Cons e es)
  have "length (lo_table (insert_entry d s e)) \<le> Suc (length (lo_table s))"
    by (simp add: insert_entry_def length_insert_location split: prod.split)
  then show ?case using Cons.IH [of "insert_entry d s e"] by simp
qed simp

text \<open>The states the located paths go through.\<close>

inductive loc_reach :: "locations \<Rightarrow> bool" where
  start: "loc_reach locations_new"
| inserted: "loc_reach s \<Longrightarrow> loc_reach (insert_location i l s)"
| evicted: "\<lbrakk>loc_reach s; heap_pick pick; evict_oldest_location pick s = Some (b, s')\<rbrakk> \<Longrightarrow> loc_reach s'"
| pruned: "\<lbrakk>loc_reach s; heap_pick pick; prune_locations pick now s = Some s'\<rbrakk> \<Longrightarrow> loc_reach s'"

lemma loc_reach_ok: "loc_reach s \<Longrightarrow> loc_ok s"
proof (induction rule: loc_reach.induct)
  case (evicted s pick b s')
  then show ?case using evict_oldest_ok [of pick s] by auto
next
  case (pruned s pick now s')
  then show ?case using prune_locations_ok [of pick s now] by auto
qed (auto intro: loc_ok_new insert_location_ok(1))

subsection \<open>Recently used sources\<close>

definition recent_ok :: "('k \<Rightarrow> nat) \<Rightarrow> 'k recents \<Rightarrow> bool" where
  "recent_ok owned s \<longleftrightarrow> distinct (map fst (rc_table s)) \<and> balanced owned (rc_expiry s) \<and>
     covered (recent_deadline s) (rc_expiry s)"

lemma recent_deadline_eq: "recent_deadline s = (\<lambda>k. map_option touch_deadline (map_of (rc_table s) k))"
  by (simp add: recent_deadline_def fun_eq_iff)

lemma touch_deadline_mono: "a \<le> b \<Longrightarrow> touch_deadline a \<le> touch_deadline b"
  by (simp add: touch_deadline_def)

lemma recent_rebuilt:
  assumes "distinct (map fst t)"
  shows "covered (\<lambda>k. map_option touch_deadline (map_of t k))
    (expiry_rebuild owned (map (\<lambda>(j, touched). (touch_deadline touched, j)) t) x)"
  using assms by (fastforce simp: covered_def dest!: map_of_SomeD)

text \<open>The clock does not run backwards: a use is not older than the one it replaces.\<close>

lemma touch_recent_ok:
  assumes ok: "recent_ok owned s" and mono: "\<And>t. map_of (rc_table s) k = Some t \<Longrightarrow> t \<le> now"
  shows "recent_ok owned (touch_recent owned k now s)"
proof -
  let ?t = "AList.update k now (rc_table s)"
  have d: "distinct (map fst ?t)" using ok by (simp add: recent_ok_def AList.distinct_update)
  have "covered (\<lambda>j. map_option touch_deadline (map_of ?t j)) (rc_expiry s)" if t: "map_of (rc_table s) k = Some t" for t
    unfolding covered_def
  proof (intro allI impI)
    fix j e assume j: "map_option touch_deadline (map_of ?t j) = Some e"
    show "\<exists>u\<le>e. (u, j) \<in> tickets (rc_expiry s)"
    proof (cases "j = k")
      case True
      obtain u where "u \<le> touch_deadline t" "(u, k) \<in> tickets (rc_expiry s)"
        using ok t by (fastforce simp: recent_ok_def covered_def recent_deadline_def)
      moreover have "touch_deadline t \<le> e"
        using True j touch_deadline_mono [OF mono [OF t]] by (simp add: AList.update_conv')
      ultimately show ?thesis using True le_trans by blast
    next
      case False
      then show ?thesis using ok j by (auto simp: recent_ok_def covered_def recent_deadline_def AList.update_conv')
    qed
  qed
  moreover have "covered (\<lambda>j. map_option touch_deadline (map_of ?t j))
      (expiry_push owned (touch_deadline now) k (rc_expiry s))"
    using ok by (fastforce simp: covered_def recent_ok_def recent_deadline_def AList.update_conv')
  ultimately show ?thesis using ok d recent_rebuilt [OF d]
    by (auto simp: recent_ok_def touch_recent_def recent_deadline_eq Let_def)
qed

lemma touch_load_ok:
  assumes ok: "recent_ok owned s"
  shows "recent_ok owned (touch_load owned k now s)"
proof -
  let ?t = "AList.update k now (rc_table s)"
  have d: "distinct (map fst ?t)" using ok by (simp add: recent_ok_def AList.distinct_update)
  have "covered (\<lambda>j. map_option touch_deadline (map_of ?t j)) (expiry_push owned (touch_deadline now) k (rc_expiry s))"
    using ok by (fastforce simp: covered_def recent_ok_def recent_deadline_def AList.update_conv')
  then show ?thesis using ok d recent_rebuilt [OF d]
    by (auto simp: recent_ok_def touch_load_def recent_deadline_eq Let_def)
qed

lemma prune_recents_ok:
  assumes "heap_pick pick" "recent_ok owned s"
  shows "\<exists>es s'. prune_recents pick owned now s = Some (es, s') \<and> recent_ok owned s' \<and>
    set es = {k. \<exists>t. map_of (rc_table s) k = Some t \<and> touch_deadline t \<le> now} \<and>
    (\<forall>k. map_of (rc_table s') k = opt_filter (\<lambda>t. now < touch_deadline t) (map_of (rc_table s) k))"
proof -
  obtain es x' where r: "expiry_expired pick owned now (recent_deadline s) (rc_expiry s) = Some (es, x')"
    "balanced owned x'" "set es = {k. \<exists>d. recent_deadline s k = Some d \<and> d \<le> now}"
    "\<And>k d. recent_deadline s k = Some d \<Longrightarrow> now < d \<Longrightarrow> \<exists>t\<le>d. (t, k) \<in> tickets x'"
    by (rule expired_exact [OF assms(1), of owned "rc_expiry s" "recent_deadline s" now])
      (use assms(2) in \<open>auto simp: recent_ok_def\<close>)
  let ?s = "\<lparr>rc_table = foldl (\<lambda>t k. AList.delete k t) (rc_table s) es, rc_expiry = x'\<rparr>"
  have es: "set es = {k. \<exists>t. map_of (rc_table s) k = Some t \<and> touch_deadline t \<le> now}"
    using r(3) by (auto simp: recent_deadline_def)
  have look: "map_of (rc_table ?s) k = opt_filter (\<lambda>t. now < touch_deadline t) (map_of (rc_table s) k)" for k
    using es by (cases "map_of (rc_table s) k") (auto simp: map_of_delete_all)
  have "recent_ok owned ?s"
    unfolding recent_ok_def covered_def
  proof (intro conjI allI impI)
    fix k d assume "recent_deadline ?s k = Some d"
    then show "\<exists>t\<le>d. (t, k) \<in> tickets (rc_expiry ?s)"
      using r(4) [of k d] unfolding recent_deadline_def look by (auto simp: opt_filter_Some_iff)
  qed (use assms(2) r(2) distinct_delete_all in \<open>auto simp: recent_ok_def\<close>)
  then show ?thesis using r(1) look es by (simp add: prune_recents_def)
qed

text \<open>The states the recent sources go through, with the time of the last operation.\<close>

inductive recent_reach :: "('k \<Rightarrow> nat) \<Rightarrow> nat \<Rightarrow> 'k recents \<Rightarrow> bool" for owned where
  start: "recent_reach owned t recents_new"
| touched: "\<lbrakk>recent_reach owned t s; t \<le> now\<rbrakk> \<Longrightarrow> recent_reach owned now (touch_recent owned k now s)"
| loaded: "\<lbrakk>recent_reach owned t s; t \<le> now\<rbrakk> \<Longrightarrow> recent_reach owned now (touch_load owned k now s)"
| pruned: "\<lbrakk>recent_reach owned t s; t \<le> now; heap_pick pick; prune_recents pick owned now s = Some (es, s')\<rbrakk> \<Longrightarrow>
    recent_reach owned now s'"

definition used_by :: "nat \<Rightarrow> 'k recents \<Rightarrow> bool" where
  "used_by t s \<longleftrightarrow> (\<forall>k u. map_of (rc_table s) k = Some u \<longrightarrow> u \<le> t)"

lemma touch_recent_table: "rc_table (touch_recent owned k now s) = AList.update k now (rc_table s)"
  by (simp add: touch_recent_def Let_def)

lemma touch_load_table: "rc_table (touch_load owned k now s) = AList.update k now (rc_table s)"
  by (simp add: touch_load_def Let_def)

lemma used_by_update:
  "used_by t s \<Longrightarrow> t \<le> now \<Longrightarrow> rc_table s' = AList.update k now (rc_table s) \<Longrightarrow> used_by now s'"
  by (auto simp: used_by_def AList.update_conv' intro: le_trans)

lemma recent_reach_ok: "recent_reach owned t s \<Longrightarrow> recent_ok owned s \<and> used_by t s"
proof (induction rule: recent_reach.induct)
  case (start t)
  then show ?case by (simp add: recent_ok_def recents_new_def covered_def recent_deadline_def used_by_def)
next
  case (touched t s now k)
  have "recent_ok owned (touch_recent owned k now s)"
    by (rule touch_recent_ok) (use touched in \<open>auto simp: used_by_def intro: le_trans\<close>)
  moreover have "used_by now (touch_recent owned k now s)"
    by (rule used_by_update [OF _ touched.hyps(2) touch_recent_table]) (use touched.IH in blast)
  ultimately show ?case by blast
next
  case (loaded t s now k)
  have "recent_ok owned (touch_load owned k now s)" by (rule touch_load_ok) (use loaded.IH in blast)
  moreover have "used_by now (touch_load owned k now s)"
    by (rule used_by_update [OF _ loaded.hyps(2) touch_load_table]) (use loaded.IH in blast)
  ultimately show ?case by blast
next
  case (pruned t s now pick es s')
  obtain es2 s2 where "prune_recents pick owned now s = Some (es2, s2)" "recent_ok owned s2"
    "\<forall>k. map_of (rc_table s2) k = opt_filter (\<lambda>t. now < touch_deadline t) (map_of (rc_table s) k)"
    using prune_recents_ok [OF pruned.hyps(3)] pruned.IH by blast
  then have "recent_ok owned s'" and look:
    "\<forall>k. map_of (rc_table s') k = opt_filter (\<lambda>t. now < touch_deadline t) (map_of (rc_table s) k)"
    using pruned.hyps(4) by simp_all
  moreover have "used_by now s'"
    unfolding used_by_def
  proof (intro allI impI)
    fix k u assume "map_of (rc_table s') k = Some u"
    then have "map_of (rc_table s) k = Some u" using look by (simp add: opt_filter_Some_iff)
    then show "u \<le> now" using pruned.IH pruned.hyps(2) by (meson le_trans used_by_def)
  qed
  ultimately show ?case by blast
qed

subsection \<open>Deliveries\<close>

definition delivery_ok :: "'k deliveries \<Rightarrow> bool" where
  "delivery_ok s \<longleftrightarrow> distinct (map fst (dv_table s)) \<and> dv_expiry s = {(d, k). map_of (dv_table s) k = Some d}"

lemma delivery_finite: "delivery_ok s \<Longrightarrow> finite (dv_expiry s)"
proof -
  assume "delivery_ok s"
  then have "dv_expiry s \<subseteq> (\<lambda>(k, d). (d, k)) ` set (dv_table s)"
    by (force simp: delivery_ok_def dest: map_of_SomeD)
  then show ?thesis using finite_subset by blast
qed

lemma deadline_first_spec:
  assumes "finite d" "d \<noteq> {}"
  obtains t where "deadline_first d = Some t" "t \<in> d" "\<And>u. u \<in> d \<Longrightarrow> fst t \<le> fst u"
proof -
  let ?m = "Min (fst ` d)" and ?ks = "snd ` {t \<in> d. fst t = Min (fst ` d)}"
  have "?m \<in> fst ` d" using assms by (intro Min_in) auto
  then have "?ks \<noteq> {}" by auto
  then have "Min ?ks \<in> ?ks" using assms by (intro Min_in) auto
  then have "(?m, Min ?ks) \<in> d" by force
  moreover have "?m \<le> fst u" if "u \<in> d" for u using assms that by simp
  ultimately show ?thesis using that [of "(?m, Min ?ks)"] assms by (simp add: deadline_first_def Let_def)
qed

lemma remove_delivery_ok:
  assumes ok: "delivery_ok s"
  shows "\<exists>s'. remove_delivery key s = Some (map_of (dv_table s) key, s') \<and> delivery_ok s' \<and>
    map_of (dv_table s') = (map_of (dv_table s))(key := None)"
proof (cases "map_of (dv_table s) key")
  case None
  then show ?thesis using ok by (auto simp: remove_delivery_def fun_upd_idem)
next
  case (Some e)
  then show ?thesis using ok
    by (auto simp: remove_delivery_def deadline_remove_def delivery_ok_def AList.distinct_delete
        AList.delete_conv' simp del: map_of_eq_Some_iff split: if_splits)
qed

lemma insert_delivery_ok:
  assumes ok: "delivery_ok s"
  shows "\<exists>s'. insert_delivery key expires s = Some s' \<and> delivery_ok s' \<and>
    map_of (dv_table s') = (map_of (dv_table s))(key \<mapsto> expires)"
proof -
  obtain s1 where s1: "remove_delivery key s = Some (map_of (dv_table s) key, s1)" "delivery_ok s1"
    "map_of (dv_table s1) = (map_of (dv_table s))(key := None)"
    using remove_delivery_ok [OF ok] by blast
  then show ?thesis
    by (auto simp: insert_delivery_def deadline_insert_def delivery_ok_def AList.distinct_update AList.update_conv'
        simp del: map_of_eq_Some_iff split: if_splits)
qed

lemma expire_deliveries_ok:
  fixes s :: "('k :: linorder) deliveries"
  assumes "delivery_ok s"
  shows "\<exists>s'. expire_deliveries now s = Some s' \<and> delivery_ok s' \<and>
    (\<forall>k. map_of (dv_table s') k = opt_filter (\<lambda>d. now < d) (map_of (dv_table s) k))"
  using assms
proof (induction "card (dv_expiry s)" arbitrary: s rule: less_induct)
  case less
  note fin = delivery_finite [OF less.prems]
  show ?case
  proof (cases "is_some_and (\<lambda>t. fst t \<le> now) (deadline_first (dv_expiry s))")
    case False
    have "now < d" if "map_of (dv_table s) k = Some d" for k d
    proof -
      have m: "(d, k) \<in> dv_expiry s" using less.prems that by (simp add: delivery_ok_def)
      then obtain t where "deadline_first (dv_expiry s) = Some t" "\<And>u. u \<in> dv_expiry s \<Longrightarrow> fst t \<le> fst u"
        using deadline_first_spec [OF fin] by blast
      then show ?thesis using False m by force
    qed
    then have "map_of (dv_table s) k = opt_filter (\<lambda>d. now < d) (map_of (dv_table s) k)" for k
      by (cases "map_of (dv_table s) k") auto
    then show ?thesis using False less.prems by (subst expire_deliveries.simps) (simp add: pop_expired_def)
  next
    case True
    then obtain t where t: "deadline_first (dv_expiry s) = Some t" "fst t \<le> now"
      by (auto simp: is_some_and_def split: option.splits)
    have ne: "dv_expiry s \<noteq> {}" using t(1) by (auto simp: deadline_first_def)
    have mem: "t \<in> dv_expiry s" using deadline_first_spec [OF fin ne] t(1) by (metis option.inject)
    obtain e k where ek: "t = (e, k)" by force
    have look: "map_of (dv_table s) k = Some e" using mem ek less.prems by (simp add: delivery_ok_def)
    let ?s = "\<lparr>dv_table = AList.delete k (dv_table s), dv_expiry = dv_expiry s - {t}\<rparr>"
    have ok1: "delivery_ok ?s" using less.prems look ek
      by (auto simp: delivery_ok_def AList.distinct_delete AList.delete_conv'
          simp del: map_of_eq_Some_iff split: if_splits)
    have "card (dv_expiry ?s) < card (dv_expiry s)" using psubset_card_mono [OF fin, of "dv_expiry ?s"] mem by auto
    then obtain s' where s': "expire_deliveries now ?s = Some s'" "delivery_ok s'"
      "\<forall>j. map_of (dv_table s') j = opt_filter (\<lambda>d. now < d) (map_of (dv_table ?s) j)"
      using less.hyps ok1 by blast
    have "expire_deliveries now s = Some s'"
      using s'(1) t look ek by (subst expire_deliveries.simps) (simp add: pop_expired_def)
    moreover have "map_of (dv_table s') j = opt_filter (\<lambda>d. now < d) (map_of (dv_table s) j)" for j
      using s'(3) look t(2) ek by (simp add: AList.delete_conv')
    ultimately show ?thesis using s'(2) by blast
  qed
qed

lemma evict_earliest_ok:
  fixes s :: "('k :: linorder) deliveries"
  assumes ok: "delivery_ok s"
  shows "\<exists>s'. evict_earliest_delivery s = Some s' \<and> delivery_ok s' \<and>
    (dv_table s = [] \<and> s' = s \<or>
     (\<exists>k e. map_of (dv_table s) k = Some e \<and> map_of (dv_table s') = (map_of (dv_table s))(k := None) \<and>
        (\<forall>j d. map_of (dv_table s) j = Some d \<longrightarrow> e \<le> d)))"
proof (cases "dv_expiry s = {}")
  case True
  have "map_of (dv_table s) k \<noteq> Some d" for k d
  proof -
    have "dv_expiry s = {(d, k). map_of (dv_table s) k = Some d}" using ok by (simp only: delivery_ok_def)
    then show ?thesis using True by blast
  qed
  then have "map_of (dv_table s) = Map.empty" by (intro ext) (metis not_None_eq)
  then have "dv_table s = []" by simp
  then show ?thesis using True ok by (simp add: evict_earliest_delivery_def deadline_earliest_def deadline_first_def)
next
  case False
  obtain e k where t: "deadline_first (dv_expiry s) = Some (e, k)" "(e, k) \<in> dv_expiry s"
    "\<And>u. u \<in> dv_expiry s \<Longrightarrow> e \<le> fst u"
    using deadline_first_spec [OF delivery_finite [OF ok] False] by (metis prod.collapse)
  have mem: "(d, j) \<in> dv_expiry s \<longleftrightarrow> map_of (dv_table s) j = Some d" for d j
    using ok by (simp add: delivery_ok_def del: map_of_eq_Some_iff)
  have least: "e \<le> d" if "map_of (dv_table s) j = Some d" for j d
    using t(3) [of "(d, j)"] that mem by simp
  have k: "map_of (dv_table s) k = Some e" using t(2) mem by simp
  obtain s' where s': "remove_delivery k s = Some (map_of (dv_table s) k, s')" "delivery_ok s'"
    "map_of (dv_table s') = (map_of (dv_table s))(k := None)" using remove_delivery_ok [OF ok] by blast
  have "evict_earliest_delivery s = Some s'"
    using t(1) s'(1) by (simp add: evict_earliest_delivery_def deadline_earliest_def)
  then show ?thesis using s'(2,3) k least by blast
qed


text \<open>The states the deliveries go through.\<close>

inductive delivery_reach :: "('k :: linorder) deliveries \<Rightarrow> bool" where
  start: "delivery_reach \<lparr>dv_table = [], dv_expiry = {}\<rparr>"
| inserted: "\<lbrakk>delivery_reach s; insert_delivery k e s = Some s'\<rbrakk> \<Longrightarrow> delivery_reach s'"
| removed: "\<lbrakk>delivery_reach s; remove_delivery k s = Some (r, s')\<rbrakk> \<Longrightarrow> delivery_reach s'"
| expired: "\<lbrakk>delivery_reach s; expire_deliveries now s = Some s'\<rbrakk> \<Longrightarrow> delivery_reach s'"
| evicted: "\<lbrakk>delivery_reach s; evict_earliest_delivery s = Some s'\<rbrakk> \<Longrightarrow> delivery_reach s'"

lemma delivery_reach_ok: "delivery_reach s \<Longrightarrow> delivery_ok s"
proof (induction rule: delivery_reach.induct)
  case start
  show ?case by (simp add: delivery_ok_def)
next
  case (inserted s k e s')
  then show ?case using insert_delivery_ok [OF inserted.IH, of k e] by auto
next
  case (removed s k r s')
  then show ?case using remove_delivery_ok [OF removed.IH, of k] by auto
next
  case (expired s now s')
  then show ?case using expire_deliveries_ok [OF expired.IH, of now] by auto
next
  case (evicted s s')
  then show ?case using evict_earliest_ok [OF evicted.IH] by auto
qed

subsection \<open>Properties\<close>

text \<open>The first of the earliest tickets: a choice a binary heap may make.\<close>

definition first_earliest :: "'k heap_pick" where
  "first_earliest q = length (takeWhile (\<lambda>t. fst t \<noteq> Min (fst ` set q)) q)"

lemma first_earliest_pick: "heap_pick first_earliest"
  unfolding heap_pick_def
proof (intro allI impI)
  fix q :: "'k ticket list" assume ne: "q \<noteq> []"
  let ?m = "Min (fst ` set q)"
  have "?m \<in> fst ` set q" using ne by (intro Min_in) auto
  then have "\<exists>t\<in>set q. \<not> fst t \<noteq> ?m" by force
  then have "takeWhile (\<lambda>t. fst t \<noteq> ?m) q \<noteq> q" unfolding takeWhile_eq_all_conv by blast
  moreover have "takeWhile (\<lambda>t. fst t \<noteq> ?m) q = take (first_earliest q) q"
    unfolding first_earliest_def by (rule takeWhile_eq_take)
  ultimately have "first_earliest q \<noteq> length q" by auto
  then have len: "first_earliest q < length q"
    using length_takeWhile_le [of "\<lambda>t. fst t \<noteq> ?m" q] unfolding first_earliest_def by linarith
  then have "fst (q ! first_earliest q) = ?m"
    unfolding first_earliest_def using nth_length_takeWhile by blast
  then show "first_earliest q < length q \<and> (\<forall>t\<in>set q. fst (q ! first_earliest q) \<le> fst t)"
    using len by simp
qed

text \<open>C25: located paths. However entries were inserted, evicted and pruned before, and whichever
  of the earliest tickets the heap gives, pruning returns and leaves exactly the entries whose
  deadline is still to come: stale tickets neither keep an expired entry nor drop a live one.\<close>

theorem prune_locations_exact:
  assumes "loc_reach s" "heap_pick pick"
  shows "\<exists>s'. prune_locations pick now s = Some s' \<and>
    (\<forall>i. map_of (lo_table s') i = opt_filter (\<lambda>l. now < lp_expires l) (map_of (lo_table s) i))"
  using prune_locations_ok [OF assms(2) loc_reach_ok [OF assms(1)]] by blast

definition sample_locations :: locations where
  "sample_locations = insert_location ''a'' \<lparr>lp_path = ''p'', lp_expires = 9\<rparr>
     (insert_location ''b'' \<lparr>lp_path = ''q'', lp_expires = 5\<rparr>
       (insert_location ''a'' \<lparr>lp_path = ''r'', lp_expires = 3\<rparr> locations_new))"

lemma sample_locations_reach: "loc_reach sample_locations"
  unfolding sample_locations_def by (intro loc_reach.inserted loc_reach.start)

lemma sample_locations_table:
  "map_of (lo_table sample_locations) = [''b'' \<mapsto> \<lparr>lp_path = ''q'', lp_expires = 5\<rparr>, ''a'' \<mapsto> \<lparr>lp_path = ''p'', lp_expires = 9\<rparr>]"
  by (rule ext) (simp add: sample_locations_def insert_location_def locations_new_def Let_def)

theorem prune_locations_exact_witness:
  "\<exists>s'. prune_locations first_earliest 6 sample_locations = Some s' \<and>
    map_of (lo_table s') ''b'' = None \<and> map_of (lo_table s') ''a'' \<noteq> None"
  using prune_locations_exact [OF sample_locations_reach first_earliest_pick, of 6]
  by (auto simp: sample_locations_table)

text \<open>Remembering located paths returns, keeps the table within its limit (or within the batch,
  when the batch alone exceeds the limit), remembers every entry of the batch that is small
  enough with the new deadline, and makes room by dropping only expired entries and
  entries that would not have outlived one that stays.\<close>

theorem remember_locations_bounded:
  assumes "loc_reach s" "heap_pick pick" "entries \<noteq> []"
  shows "\<exists>s1 s'. remember_locations pick now expires True entries s = Some s' \<and>
    length (lo_table s') \<le> max LOCATIONS_MAX (length entries) \<and>
    (\<forall>i. map_of (lo_table s') i = (case map_of (rev (filter (\<lambda>(i, path). length i + length path \<le> 8192) entries)) i of
        Some path \<Rightarrow> Some \<lparr>lp_path = path, lp_expires = expires\<rparr>
      | None \<Rightarrow> map_of (lo_table s1) i)) \<and>
    (\<exists>s0. prune_locations pick now s = Some s0 \<and> evicts_earliest s0 s1)"
proof -
  let ?small = "filter (\<lambda>(i, path). length i + length path \<le> 8192) entries"
  obtain s0 where s0: "prune_locations pick now s = Some s0" "loc_ok s0"
    using prune_locations_ok [OF assms(2) loc_reach_ok [OF assms(1)]] by blast
  obtain s1 where s1: "evict_locations pick (length entries) s0 = Some s1" "loc_ok s1" "evicts_earliest s0 s1"
    "length (lo_table s1) + length entries \<le> LOCATIONS_MAX \<or> lo_table s1 = []"
    using evict_locations_ok [OF assms(2) s0(2)] by blast
  let ?s = "foldl (insert_entry expires) s1 ?small"
  have r: "remember_locations pick now expires True entries s = Some ?s"
    using s0(1) s1(1) assms(3) by (simp add: remember_locations_def insert_entry_def)
  have "length (lo_table ?s) \<le> length (lo_table s1) + length entries"
    using length_insert_entries [of expires s1 ?small] length_filter_le [of "\<lambda>(i, path). length i + length path \<le> 8192" entries]
    by linarith
  then have "length (lo_table ?s) \<le> max LOCATIONS_MAX (length entries)" using s1(4) by auto
  then show ?thesis using r insert_entries_look [OF s1(2)] s0(1) s1(3) by blast
qed

theorem remember_locations_bounded_witness:
  "\<exists>s'. remember_locations first_earliest 6 20 True [(''c'', ''z'')] sample_locations = Some s' \<and>
    length (lo_table s') \<le> LOCATIONS_MAX \<and> map_of (lo_table s') ''c'' = Some \<lparr>lp_path = ''z'', lp_expires = 20\<rparr>"
proof -
  have batch: "[(''c'', ''z'')] \<noteq> []" by simp
  obtain s' where s': "remember_locations first_earliest 6 20 True [(''c'', ''z'')] sample_locations = Some s'"
    "length (lo_table s') \<le> max LOCATIONS_MAX (length [(''c'', ''z'')])"
    "\<exists>s1 :: locations. \<forall>i. map_of (lo_table s') i = (case map_of (rev (filter (\<lambda>(i, path). length i + length path \<le> 8192) [(''c'', ''z'')])) i of
        Some path \<Rightarrow> Some \<lparr>lp_path = path, lp_expires = 20\<rparr> | None \<Rightarrow> map_of (lo_table s1) i)"
    using remember_locations_bounded [OF sample_locations_reach first_earliest_pick batch, of 6 20] by blast
  then have "map_of (lo_table s') ''c'' = Some \<lparr>lp_path = ''z'', lp_expires = 20\<rparr>" by auto
  moreover have "length (lo_table s') \<le> LOCATIONS_MAX" using s'(2) by (simp add: LOCATIONS_MAX_def)
  ultimately show ?thesis using s'(1) by blast
qed

text \<open>Recently used sources. When the clock does not run backwards, pruning returns and gives
  exactly the sources whose last use is thirty minutes old, though a use of a source already
  there pushes no ticket; the others stay with their times.\<close>

theorem recent_prune_exact:
  assumes "recent_reach owned t s" "heap_pick pick"
  shows "\<exists>es s'. prune_recents pick owned now s = Some (es, s') \<and>
    set es = {k. \<exists>u. map_of (rc_table s) k = Some u \<and> touch_deadline u \<le> now} \<and>
    (\<forall>k. map_of (rc_table s') k = opt_filter (\<lambda>u. now < touch_deadline u) (map_of (rc_table s) k))"
  using prune_recents_ok [OF assms(2)] recent_reach_ok [OF assms(1)] by blast

theorem recent_prune_exact_witness:
  "\<exists>es s'. prune_recents first_earliest length 1800005 (touch_recent length ''a'' 9 (touch_recent length ''a'' 4 recents_new)) = Some (es, s') \<and>
    ''a'' \<notin> set es"
proof -
  have "recent_reach length 9 (touch_recent length ''a'' 9 (touch_recent length ''a'' 4 recents_new))"
    by (intro recent_reach.touched [where t = 4] recent_reach.touched [where t = 0] recent_reach.start) simp_all
  from recent_prune_exact [OF this first_earliest_pick, of 1800005] show ?thesis
    by (auto simp: touch_recent_table recents_new_def touch_deadline_def U64_MAX_def TOUCH_TTL_MS_def)
qed

text \<open>C26: deliveries. In every reachable state the index holds exactly the deadlines of the table, no
  operation panics, expiry returns and drops exactly the deliveries whose deadline has passed,
  and an eviction takes one of the earliest deadline.\<close>

theorem deliveries_indexed:
  assumes "delivery_reach s"
  shows "dv_expiry s = {(d, k). map_of (dv_table s) k = Some d} \<and>
    (\<exists>s'. insert_delivery key e s = Some s' \<and> map_of (dv_table s') = (map_of (dv_table s))(key \<mapsto> e)) \<and>
    (\<exists>s'. remove_delivery key s = Some (map_of (dv_table s) key, s') \<and> map_of (dv_table s') = (map_of (dv_table s))(key := None)) \<and>
    (\<exists>s'. expire_deliveries now s = Some s' \<and>
       (\<forall>k. map_of (dv_table s') k = opt_filter (\<lambda>d. now < d) (map_of (dv_table s) k))) \<and>
    (\<exists>s'. evict_earliest_delivery s = Some s' \<and> (dv_table s = [] \<and> s' = s \<or>
       (\<exists>k e. map_of (dv_table s) k = Some e \<and> map_of (dv_table s') = (map_of (dv_table s))(k := None) \<and>
          (\<forall>j d. map_of (dv_table s) j = Some d \<longrightarrow> e \<le> d))))"
proof (intro conjI)
  note ok = delivery_reach_ok [OF assms]
  show "dv_expiry s = {(d, k). map_of (dv_table s) k = Some d}" using ok by (simp only: delivery_ok_def)
  show "\<exists>s'. insert_delivery key e s = Some s' \<and> map_of (dv_table s') = (map_of (dv_table s))(key \<mapsto> e)"
    using insert_delivery_ok [OF ok] by blast
  show "\<exists>s'. remove_delivery key s = Some (map_of (dv_table s) key, s') \<and> map_of (dv_table s') = (map_of (dv_table s))(key := None)"
    using remove_delivery_ok [OF ok] by blast
  show "\<exists>s'. expire_deliveries now s = Some s' \<and> (\<forall>k. map_of (dv_table s') k = opt_filter (\<lambda>d. now < d) (map_of (dv_table s) k))"
    using expire_deliveries_ok [OF ok] by blast
  show "\<exists>s'. evict_earliest_delivery s = Some s' \<and> (dv_table s = [] \<and> s' = s \<or>
       (\<exists>k e. map_of (dv_table s) k = Some e \<and> map_of (dv_table s') = (map_of (dv_table s))(k := None) \<and>
          (\<forall>j d. map_of (dv_table s) j = Some d \<longrightarrow> e \<le> d)))"
    using evict_earliest_ok [OF ok] by blast
qed

theorem deliveries_indexed_witness:
  "\<exists>s'. expire_deliveries 5 \<lparr>dv_table = [(3::nat, 4)], dv_expiry = {(4, 3)}\<rparr> = Some s' \<and> map_of (dv_table s') 3 = None"
proof -
  have "insert_delivery (3::nat) 4 \<lparr>dv_table = [], dv_expiry = {}\<rparr> = Some \<lparr>dv_table = [(3, 4)], dv_expiry = {(4, 3)}\<rparr>"
    by (simp add: insert_delivery_def remove_delivery_def deadline_insert_def)
  then have "delivery_reach \<lparr>dv_table = [(3::nat, 4)], dv_expiry = {(4, 3)}\<rparr>"
    by (rule delivery_reach.inserted [OF delivery_reach.start])
  from deliveries_indexed [OF this, of 0 0 5] obtain s' where
    "expire_deliveries 5 \<lparr>dv_table = [(3::nat, 4)], dv_expiry = {(4, 3)}\<rparr> = Some s'"
    "\<forall>k. map_of (dv_table s') k = opt_filter (\<lambda>d. 5 < d) (map_of [(3, 4)] k)"
    by (metis deliveries.select_convs(1))
  then show ?thesis by auto
qed

end
