(* ===== verification/PyFloat.thy ===== *)
theory PyFloat
  imports Ids
begin

text \<open>
  The number texts of \<open>render.rs\<close>, shared with \<open>owner/src/pyjson.rs\<close>: the layout of a
  float as Python's \<open>repr\<close> or orjson writes it, and of an integer lexeme. A 64-bit float is its
  sign and magnitude; the record \<open>floats\<close> holds what comes from elsewhere: the reading of a
  lexeme (the language's \<open>str::parse\<close>) and the shortest text of a magnitude (ryu-js).
\<close>

datatype f64 = Finite bool rat | Infinite bool | NotANumber

record floats =
  fl_parse :: "string \<Rightarrow> f64 option"
  fl_ryu :: "rat \<Rightarrow> string"

definition is_finite :: "f64 \<Rightarrow> bool" where
  "is_finite v = (case v of Finite _ _ \<Rightarrow> True | _ \<Rightarrow> False)"

definition f64_of_rat :: "rat \<Rightarrow> f64" where
  "f64_of_rat q = Finite (q < 0) \<bar>q\<bar>"

text \<open>\<open>str::parse::<i64>\<close> of an exponent, \<open>split_once\<close> on one of two characters.\<close>

definition mantissa_exponent :: "string \<Rightarrow> string \<times> int" where
  "mantissa_exponent es =
     (let m = takeWhile (\<lambda>c. c \<noteq> CHR ''e'' \<and> c \<noteq> CHR ''E'') es in
      if length m < length es then (m, opt_default 0 (parse_i64 (drop (Suc (length m)) es))) else (es, 0))"

definition trim_zeros_end :: "string \<Rightarrow> string" where
  "trim_zeros_end s = rev (dropWhile (\<lambda>c. c = CHR ''0'') (rev s))"

definition shortest_digits :: "floats \<Rightarrow> rat \<Rightarrow> string \<times> int" where
  "shortest_digits fl v =
     (case mantissa_exponent (fl_ryu fl v) of (mantissa, ex) \<Rightarrow>
        (let (int_part, frac_part) = opt_default (mantissa, []) (split_once ''.'' mantissa);
             raw = int_part @ frac_part;
             point = int (length int_part) + ex;
             first = length (takeWhile (\<lambda>c. c = CHR ''0'') raw)
         in if length raw \<le> first then (''0'', 0)
            else (let sig = trim_zeros_end (drop first raw)
                  in (if sig = [] then ''0'' else sig, point - 1 - int first))))"

text \<open>\<open>{ex:+}\<close> and \<open>{ex:+03}\<close>.\<close>

definition signed_text :: "int \<Rightarrow> string" where
  "signed_text e = (if e < 0 then ''-'' else ''+'') @ dec_digits (nat \<bar>e\<bar>)"

definition padded_text :: "int \<Rightarrow> string" where
  "padded_text e =
     (let d = dec_digits (nat \<bar>e\<bar>)
      in (if e < 0 then ''-'' else ''+'') @ replicate (2 - length d) (CHR ''0'') @ d)"

definition fixed_body :: "string \<Rightarrow> int \<Rightarrow> string" where
  "fixed_body digits ex =
     (let decpt = ex + 1; n = int (length digits)
      in if decpt \<le> 0 then ''0.'' @ replicate (nat (- decpt)) (CHR ''0'') @ digits
         else if n \<le> decpt then digits @ replicate (nat (decpt - n)) (CHR ''0'') @ ''.0''
         else take (nat decpt) digits @ ''.'' @ drop (nat decpt) digits)"

definition finite_text :: "bool \<Rightarrow> string \<Rightarrow> int \<Rightarrow> string" where
  "finite_text pad_exp digits ex =
     (if ex \<le> (if pad_exp then - 5 else - 6) \<or> 16 \<le> ex then
        (if 1 < length digits then take 1 digits @ ''.'' @ drop 1 digits else digits) @ ''e'' @
        (if pad_exp then padded_text ex else signed_text ex)
      else fixed_body digits ex)"

definition py_float_repr :: "floats \<Rightarrow> f64 \<Rightarrow> bool \<Rightarrow> string" where
  "py_float_repr fl value pad_exp = (case value of
      Finite negative v \<Rightarrow> (case shortest_digits fl v of (digits, ex) \<Rightarrow>
        (if negative then ''-'' else []) @ finite_text pad_exp digits ex)
    | NotANumber \<Rightarrow> if pad_exp then ''nan'' else ''null''
    | Infinite negative \<Rightarrow> if \<not> pad_exp then ''null'' else if negative then ''-inf'' else ''inf'')"

definition integer_lexeme :: "string \<Rightarrow> string" where
  "integer_lexeme lexeme =
     (if list_all (\<lambda>b. b = CHR ''0'') (dropWhile (\<lambda>c. c = CHR ''-'') lexeme) then ''0'' else lexeme)"

text \<open>The number of a value, \<open>expect\<close> included: \<^const>\<open>None\<close> is a number no accessor can
  read, which the decoder does not make.\<close>

definition format_number :: "floats \<Rightarrow> jnumber \<Rightarrow> bool \<Rightarrow> string option" where
  "format_number fl n pad_exp = (case num_raw n of
      Some raw \<Rightarrow>
        (if float_lexeme raw then map_option (\<lambda>v. py_float_repr fl v pad_exp) (fl_parse fl raw)
         else Some (integer_lexeme raw))
    | None \<Rightarrow> (case num_i64 n of
        Some i \<Rightarrow> Some (dec_int i)
      | None \<Rightarrow> (case num_u64 n of
          Some u \<Rightarrow> Some (dec_digits u)
        | None \<Rightarrow> map_option (\<lambda>f. py_float_repr fl (f64_of_rat f) pad_exp) (num_f64 n))))"

text \<open>What JSON grammar allows: a text that starts with a digit or a sign.\<close>

lemma dec_digits_ne [simp]: "dec_digits n \<noteq> []"
  by (subst dec_digits.simps) simp

text \<open>Decimal digits and their value.\<close>

lemma dec_digits_chars: "c \<in> set (dec_digits n) \<Longrightarrow> \<exists>d<10. c = byte (48 + d)"
proof (induction n rule: dec_digits.induct)
  case (1 n)
  show ?case
  proof (cases "n < 10")
    case True
    then show ?thesis using "1.prems" by (subst (asm) dec_digits.simps) auto
  next
    case False
    then have "c \<in> set (dec_digits (n div 10)) \<or> c = byte (48 + n mod 10)"
      using "1.prems" by (subst (asm) dec_digits.simps) auto
    then show ?thesis using "1.IH" [OF False] by (metis mod_less_divisor zero_less_numeral)
  qed
qed

lemma dec_value_append: "dec_value acc (xs @ ys) = Option.bind (dec_value acc xs) (\<lambda>n. dec_value n ys)"
  by (induction xs arbitrary: acc) (auto simp: Let_def)

lemma dec_value_digits: "dec_value 0 (dec_digits n) = Some n"
proof (induction n rule: dec_digits.induct)
  case (1 n)
  show ?case
  proof (cases "n < 10")
    case True
    then show ?thesis by (subst dec_digits.simps) (simp add: Let_def)
  next
    case False
    have "dec_value 0 (dec_digits n) = dec_value (n div 10) [byte (48 + n mod 10)]"
      using False "1.IH" [OF False] by (subst dec_digits.simps) (simp add: dec_value_append)
    then show ?thesis by (simp add: Let_def)
  qed
qed

end
