(* ===== verification/PyJson.thy ===== *)
theory PyJson
  imports PyFloat "HOL-Library.Char_ord" "HOL-Library.List_Lexorder"
begin

text \<open>
  \<open>owner/src/pyjson.rs\<close> and \<open>owner/src/frame.rs\<close>: the texts the owner process writes, as
  Python's \<open>json.dumps\<close> would, the check of the numbers it reads, and the frames on its two
  pipes: a length of four bytes and a JSON object.
\<close>

subsection \<open>Styles\<close>

record style =
  st_compact :: bool
  st_sort_keys :: bool
  st_ensure_ascii :: bool

definition WIRE :: style where
  "WIRE = \<lparr>st_compact = True, st_sort_keys = False, st_ensure_ascii = False\<rparr>"

definition CANONICAL :: style where
  "CANONICAL = \<lparr>st_compact = True, st_sort_keys = True, st_ensure_ascii = True\<rparr>"

definition SORTED :: style where
  "SORTED = \<lparr>st_compact = False, st_sort_keys = True, st_ensure_ascii = True\<rparr>"

subsection \<open>Numbers\<close>

definition float_text :: "floats \<Rightarrow> f64 \<Rightarrow> string + string" where
  "float_text fl v = (case v of
      Finite negative m \<Rightarrow>
        (let q = (if negative then - m else m) in
         if q = of_int \<lfloor>q\<rfloor> \<and> m \<le> of_int MAX_SAFE_INTEGER then Inr (dec_int \<lfloor>q\<rfloor>)
         else Inr (py_float_repr fl v True))
    | _ \<Rightarrow> Inl ''snapshot number must be finite'')"

text \<open>A number no accessor reads is the failed \<open>expect\<close>, here an error like the others.\<close>

definition number_text :: "floats \<Rightarrow> jnumber \<Rightarrow> string + string" where
  "number_text fl n = (case num_raw n of
      Some lexeme \<Rightarrow>
        (if float_lexeme lexeme
         then res_bind (ok_or ''invalid number lexeme'' (fl_parse fl lexeme)) (float_text fl)
         else Inr (integer_lexeme lexeme))
    | None \<Rightarrow> (case num_i64 n of
        Some i \<Rightarrow> Inr (dec_int i)
      | None \<Rightarrow> (case num_u64 n of
          Some u \<Rightarrow> Inr (dec_digits u)
        | None \<Rightarrow> res_bind (ok_or ''number'' (num_f64 n)) (\<lambda>f. float_text fl (f64_of_rat f)))))"

subsection \<open>Strings\<close>

definition unit_escape :: "nat \<Rightarrow> string" where
  "unit_escape u = [byte 92, CHR ''u''] @ hex4 u"

definition is_ascii_char :: "string \<Rightarrow> bool" where
  "is_ascii_char ch = (code_point ch < 128)"

definition write_char :: "bool \<Rightarrow> string \<Rightarrow> string" where
  "write_char ensure_ascii ch =
     (if esc_char ch \<noteq> ch then esc_char ch
      else if ensure_ascii \<and> \<not> is_ascii_char ch then concat (map unit_escape (encode_utf16 ch))
      else ch)"

definition write_string :: "string \<Rightarrow> style \<Rightarrow> string" where
  "write_string s st = [byte 34] @ concat (map (write_char (st_ensure_ascii st)) (chars s)) @ [byte 34]"

definition char_cost :: "string \<Rightarrow> nat" where
  "char_cost ch = (case ch of
      [c] \<Rightarrow> (if short_escape c \<noteq> None then 2 else if (of_char c :: nat) < 32 then 6 else 1)
    | _ \<Rightarrow> length ch)"

definition escaped_len :: "string \<Rightarrow> nat" where
  "escaped_len s = 2 + sum_list (map char_cost (chars s))"

subsection \<open>Values\<close>

definition style_pairs :: "style \<Rightarrow> (string \<times> json) list \<Rightarrow> (string \<times> json) list" where
  "style_pairs st ps = (if st_sort_keys st then stable_sort (by_key fst) ps else ps)"

definition comma :: "style \<Rightarrow> string" where
  "comma st = (if st_compact st then '','' else '', '')"

definition colon :: "style \<Rightarrow> string" where
  "colon st = (if st_compact st then '':'' else '': '')"

lemma style_pairs_set [simp]: "set (style_pairs st ps) = set ps"
  by (simp add: style_pairs_def)

lemma style_pair_size:
  assumes "(k, v) \<in> set (style_pairs st ps)"
  shows "size v < Suc (size_list (size_prod (\<lambda>_. 0) size) ps)"
proof -
  have "(k, v) \<in> set ps" using assms by simp
  then have "size_prod (\<lambda>_. 0) size (k, v) \<le> size_list (size_prod (\<lambda>_. 0) size) ps"
    by (rule size_list_estimation') simp
  then show ?thesis by simp
qed

lemma map_res_cong [fundef_cong]:
  "xs = ys \<Longrightarrow> (\<And>x. x \<in> set ys \<Longrightarrow> f x = g x) \<Longrightarrow> map_res f xs = map_res g ys"
  by (induction xs arbitrary: ys) auto

function dumps :: "floats \<Rightarrow> json \<Rightarrow> style \<Rightarrow> string + string" where
  "dumps fl JNull st = Inr ''null''"
| "dumps fl (JBool b) st = Inr (if b then ''true'' else ''false'')"
| "dumps fl (JNumber n) st = number_text fl n"
| "dumps fl (JString s) st = Inr (write_string s st)"
| "dumps fl (JArray xs) st =
     res_bind (map_res (\<lambda>x. dumps fl x st) xs) (\<lambda>ts. Inr (''['' @ join (comma st) ts @ '']''))"
| "dumps fl (JObject ps) st =
     res_bind (map_res (\<lambda>(key, item). res_bind (dumps fl item st) (\<lambda>t. Inr (write_string key st @ colon st @ t)))
       (style_pairs st ps)) (\<lambda>ts. Inr (''{'' @ join (comma st) ts @ ''}''))"
  by pat_completeness auto
termination
  by (relation "measure (\<lambda>(fl, v, st). size v)")
    (auto dest: style_pair_size simp: less_Suc_eq_le size_list_estimation')

subsection \<open>Ingress\<close>

definition zero_mantissa :: "string \<Rightarrow> bool" where
  "zero_mantissa lexeme =
     list_all (\<lambda>b. b \<in> {CHR ''0'', CHR ''.'', CHR ''-'', CHR ''+''})
       (takeWhile (\<lambda>c. c \<noteq> CHR ''e'' \<and> c \<noteq> CHR ''E'') lexeme)"

definition check_lexeme :: "floats \<Rightarrow> string \<Rightarrow> string + unit" where
  "check_lexeme fl lexeme =
     (if \<not> float_lexeme lexeme then Inr ()
      else res_bind (ok_or ''invalid number lexeme'' (fl_parse fl lexeme)) (\<lambda>magnitude.
        if \<not> zero_mantissa lexeme \<and> (\<not> is_finite magnitude \<or> (\<exists>b. magnitude = Finite b 0))
        then Inl ''snapshot number exceeds finite nonzero binary64 magnitude'' else Inr ()))"

fun check_ingress :: "floats \<Rightarrow> json \<Rightarrow> string + unit"
  and check_items :: "floats \<Rightarrow> json list \<Rightarrow> string + unit"
  and check_pairs :: "floats \<Rightarrow> (string \<times> json) list \<Rightarrow> string + unit" where
  "check_ingress fl (JArray xs) = check_items fl xs"
| "check_ingress fl (JObject ps) = check_pairs fl ps"
| "check_ingress fl (JNumber n) = (case num_raw n of Some raw \<Rightarrow> check_lexeme fl raw | None \<Rightarrow> Inr ())"
| "check_ingress fl _ = Inr ()"
| "check_items fl [] = Inr ()"
| "check_items fl (x # xs) = res_bind (check_ingress fl x) (\<lambda>_. check_items fl xs)"
| "check_pairs fl [] = Inr ()"
| "check_pairs fl ((_, x) # ps) = res_bind (check_ingress fl x) (\<lambda>_. check_pairs fl ps)"

subsection \<open>Frames\<close>

definition MAX_FRAME_BYTES :: nat where
  "MAX_FRAME_BYTES = 1024 * 1024"

datatype protocol_error = Io string | Invalid string

definition be_bytes :: "nat \<Rightarrow> string" where
  "be_bytes n = [byte (n div 16777216 mod 256), byte (n div 65536 mod 256), byte (n div 256 mod 256), byte (n mod 256)]"

definition from_be_bytes :: "string \<Rightarrow> nat" where
  "from_be_bytes bs = foldl (\<lambda>n c. 256 * n + of_char c) 0 bs"

text \<open>The input is the bytes still to come; reading moves past them. An input that fails instead of
  ending is the error \<open>Io\<close> of its first read, the caller's to add.\<close>

definition read_frame ::
  "(string \<Rightarrow> json option) \<Rightarrow> string \<Rightarrow> protocol_error + ((json \<times> nat) option \<times> string)" where
  "read_frame from_slice input =
     (if input = [] then Inr (None, [])
      else if length input < 4 then Inl (Invalid ''snapshot connection closed during frame'')
      else (let len = from_be_bytes (take 4 input) in
        if len = 0 \<or> MAX_FRAME_BYTES < len then Inl (Invalid ''snapshot frame exceeds encoded byte bound'')
        else if length input - 4 < len then Inl (Invalid ''snapshot connection closed during frame'')
        else (case from_slice (take len (drop 4 input)) of
            None \<Rightarrow> Inl (Invalid ''malformed snapshot frame'')
          | Some frame \<Rightarrow>
              if \<not> is_object frame then Inl (Invalid ''snapshot frame must be an object'')
              else Inr (Some (frame, len + 4), drop len (drop 4 input)))))"

definition encode_frame :: "string \<Rightarrow> string option" where
  "encode_frame body = (if MAX_FRAME_BYTES < length body then None else Some (be_bytes (length body) @ body))"

text \<open>The sorted keys of a frame, an object.\<close>

definition frame_keys :: "json \<Rightarrow> string list" where
  "frame_keys frame = (case as_object frame of Some ps \<Rightarrow> sort (map fst ps) | None \<Rightarrow> [])"

definition integer_value :: "json \<Rightarrow> nat option" where
  "integer_value v = (case v of
      JNumber n \<Rightarrow> if is_some_and float_lexeme (num_raw n) then None else num_u64 n
    | _ \<Rightarrow> None)"

definition protocol_id :: "json \<Rightarrow> nat option" where
  "protocol_id frame =
     Option.bind (Option.bind (field frame ''protocol'') integer_value) (\<lambda>p.
       if p \<noteq> 1 then None
       else opt_filter (\<lambda>i. 0 < i) (Option.bind (field frame ''id'') integer_value))"

end
