(* ===== verification/Service.thy ===== *)
theory Service
  imports PyJson "HOL-Library.Monad_Syntax"
begin

text \<open>
  \<open>owner/src/service.rs\<close> with \<open>failure\<close> of \<open>owner.rs\<close> and \<open>Status\<close>, \<open>SnapshotError\<close> of
  \<open>snapshot.rs\<close>: the loop that reads request frames, the four lanes with their slots, queues and
  worker threads, the requests in flight with their cancellation tokens, and the replies. Each
  locked section or atomic of the code is one function on the state of the process; the threads
  interleave them in any order. So the reader holds a frame between its look at the failure a
  worker may note and the submission, and a refusal between the look at the slots and its write. The answer of \<open>Owner::call\<close> and the outcome of each write on the
  pipe are arguments. A cancellation token is a number.
\<close>

subsection \<open>Errors of the store\<close>

datatype status =
  Incomplete | Missing | Changed | SourceLimit | EntryLimit | RetainedLimit | LeaseLimit | OutputLimit |
  Deadline | Cancelled | ParseError | PermissionDenied | StaleHandle | StaleCursor | InvalidRequest

fun status_text :: "status \<Rightarrow> string" where
  "status_text Incomplete = ''incomplete''"
| "status_text Missing = ''missing''"
| "status_text Changed = ''changed''"
| "status_text SourceLimit = ''source_limit''"
| "status_text EntryLimit = ''entry_limit''"
| "status_text RetainedLimit = ''retained_limit''"
| "status_text LeaseLimit = ''lease_limit''"
| "status_text OutputLimit = ''output_limit''"
| "status_text Deadline = ''deadline''"
| "status_text Cancelled = ''cancelled''"
| "status_text ParseError = ''parse_error''"
| "status_text PermissionDenied = ''permission_denied''"
| "status_text StaleHandle = ''stale_handle''"
| "status_text StaleCursor = ''stale_cursor''"
| "status_text InvalidRequest = ''invalid_request''"

record snapshot_error =
  se_status :: status
  se_reason :: string

definition snapshot_error :: "status \<Rightarrow> string \<Rightarrow> snapshot_error" where
  "snapshot_error st reason = \<lparr>se_status = st, se_reason = reason\<rparr>"

subsection \<open>Messages\<close>

definition CORE_SCHEMA :: string where
  "CORE_SCHEMA = ''cc-transcript.snapshot/1''"

definition HOST_SCHEMA :: string where
  "HOST_SCHEMA = ''captain.transcript/1''"

text \<open>An unsigned integer of \<open>json!\<close>.\<close>

definition jnat :: "nat \<Rightarrow> json" where
  "jnat n = JNumber \<lparr>num_raw = None, num_i64 = (if n < 2 ^ 63 then Some (int n) else None),
     num_u64 = Some n, num_f64 = Some (of_nat n)\<rparr>"

text \<open>The keys of a usage, in the order of the response schema.\<close>

definition USAGE_KEYS :: "string list" where
  "USAGE_KEYS = [''activity_lifts'', ''append_parses'', ''bytes_decoded'', ''cache_hits'', ''cold_parses'',
     ''discovery_entries_examined'', ''events_parsed'', ''generations_invalidated'', ''generations_published'',
     ''inflight_joins'', ''nonincremental_lowering_calls'', ''nonincremental_lowering_source_bytes'',
     ''output_bytes'', ''prepared_cache_bytes_read'', ''prepared_cache_reads'', ''requests_cancelled'',
     ''requests_failed'', ''source_bytes_read'', ''source_opens'', ''transport_bytes'']"

text \<open>\<open>chars().take(4096)\<close>.\<close>

definition reason_text :: "string \<Rightarrow> string" where
  "reason_text reason = concat (take 4096 (chars reason))"

definition failure_counts :: "string \<Rightarrow> json option \<Rightarrow> (string \<times> json) list" where
  "failure_counts status usage =
     (let counts = od_of (map (\<lambda>key. (key, jnat 0)) USAGE_KEYS @ opt_default [] (Option.bind usage as_object));
          counter = (if status = ''cancelled'' then ''requests_cancelled'' else ''requests_failed'');
          current = opt_default 0 (Option.bind (od_look counts counter) as_u64)
      in od_items (od_put counter (jnat (max current 1)) counts))"

definition failure :: "string \<Rightarrow> string \<Rightarrow> string \<Rightarrow> json option \<Rightarrow> json" where
  "failure request_id status reason usage = JObject
     [(''schema'', JString CORE_SCHEMA), (''id'', JString request_id), (''status'', JString status),
      (''complete'', JBool False), (''data'', JNull), (''cursor'', JNull),
      (''reason'', JString (reason_text reason)), (''usage'', JObject (failure_counts status usage))]"

definition wrap_result :: "nat \<Rightarrow> json \<Rightarrow> json" where
  "wrap_result i response = JObject
     [(''protocol'', jnat 1), (''op'', JString ''snapshot_result''), (''id'', jnat i),
      (''snapshot'', JObject [(''schema'', JString HOST_SCHEMA), (''response'', response)])]"

definition error_message :: "nat \<Rightarrow> string \<Rightarrow> json" where
  "error_message i reason = JObject
     [(''protocol'', jnat 1), (''op'', JString ''error''), (''id'', jnat i),
      (''error'', JString (reason_text reason))]"

subsection \<open>The state of the process\<close>

record job =
  jb_id :: nat
  jb_request :: json
  jb_context :: json
  jb_token :: nat
  jb_registry :: json

text \<open>A worker thread: waiting for a job, answering one, having replied, and having removed the
  request from those in flight, its slot still held.\<close>

datatype worker = Idle | Answering job | Answered job | Removed

record lane =
  ln_used :: nat
  ln_slots :: nat
  ln_queue :: "job list"
  ln_workers :: "worker list"

record submission =
  sm_id :: nat
  sm_request :: json
  sm_context :: json
  sm_registry :: json
  sm_lane :: string

text \<open>The reader: to read the next frame, holding a frame that has passed the check of the failure
  of a worker, or holding a request to refuse.\<close>

datatype reader = Reading | Checked json | Refusing submission

record service =
  sv_lanes :: "(string \<times> lane) list"
  sv_pending :: "(nat \<times> nat) list"
  sv_failed :: "string option"
  sv_input :: string
  sv_reader :: reader
  sv_output :: "string list"
  sv_transport :: nat
  sv_discarded :: "json list"
  sv_cancelled :: "nat list"
  sv_tokens :: nat
  sv_outcome :: "(protocol_error + unit) option"
  sv_open :: bool

definition LANES :: "(string \<times> nat \<times> nat) list" where
  "LANES = [(''hook'', 8, 64), (''review'', 2, 16), (''release'', 4, 32), (''warm'', 1, 4)]"

definition new_lane :: "nat \<Rightarrow> nat \<Rightarrow> lane" where
  "new_lane workers slots = \<lparr>ln_used = 0, ln_slots = slots, ln_queue = [], ln_workers = replicate workers Idle\<rparr>"

definition service_new :: "string \<Rightarrow> service" where
  "service_new input = \<lparr>sv_lanes = map (\<lambda>(name, workers, slots). (name, new_lane workers slots)) LANES,
     sv_pending = [], sv_failed = None, sv_input = input, sv_reader = Reading, sv_output = [], sv_transport = 0,
     sv_discarded = [], sv_cancelled = [], sv_tokens = 0, sv_outcome = None, sv_open = True\<rparr>"

definition on_lane :: "string \<Rightarrow> (lane \<Rightarrow> lane) \<Rightarrow> service \<Rightarrow> service" where
  "on_lane name f sv = sv\<lparr>sv_lanes := map (\<lambda>(n, l). (n, if n = name then f l else l)) (sv_lanes sv)\<rparr>"

definition record_transport :: "nat \<Rightarrow> service \<Rightarrow> service" where
  "record_transport bytes sv = sv\<lparr>sv_transport := (sv_transport sv + bytes) mod 2 ^ 64\<rparr>"

subsection \<open>Writing\<close>

datatype write_error = TooLong | Fatal string

fun write_reason :: "write_error \<Rightarrow> string" where
  "write_reason TooLong = ''snapshot frame exceeds encoded byte bound''"
| "write_reason (Fatal reason) = reason"

text \<open>\<open>io\<close> is the error of the pipe, if it fails. What a failed write leaves on the pipe is not
  kept.\<close>

definition write_message :: "floats \<Rightarrow> string option \<Rightarrow> json \<Rightarrow> service \<Rightarrow> write_error + service" where
  "write_message fl io message sv = (case dumps fl message WIRE of
      Inl e \<Rightarrow> Inl (Fatal e)
    | Inr body \<Rightarrow> (case encode_frame body of
        None \<Rightarrow> Inl TooLong
      | Some encoded \<Rightarrow> (case io of
          Some error \<Rightarrow> Inl (Fatal (''snapshot output closed during frame: '' @ error))
        | None \<Rightarrow> Inr (record_transport (length encoded) (sv\<lparr>sv_output := sv_output sv @ [encoded]\<rparr>)))))"

text \<open>\<open>Owner::discard\<close>: the response goes back to the store, whatever that answers.\<close>

definition discard :: "json \<Rightarrow> service \<Rightarrow> service" where
  "discard response sv = sv\<lparr>sv_discarded := sv_discarded sv @ [response]\<rparr>"

text \<open>The second component is the error of \<open>result\<close>; \<open>io\<close> gives the outcomes of its writes, in
  order.\<close>

definition send_result ::
  "floats \<Rightarrow> string option \<times> string option \<Rightarrow> nat \<Rightarrow> json \<Rightarrow> service \<Rightarrow> service \<times> string option" where
  "send_result fl io i response sv = (case write_message fl (fst io) (wrap_result i response) sv of
      Inr sv \<Rightarrow> (sv, None)
    | Inl TooLong \<Rightarrow>
        (let sv = discard response sv;
             fallback = failure (opt_default [] (field_str response ''id'')) ''output_limit''
               ''whole snapshot response exceeds frame bound'' (field response ''usage'')
         in case write_message fl (snd io) (wrap_result i fallback) sv of
              Inr sv \<Rightarrow> (sv, None)
            | Inl e \<Rightarrow> (sv, Some (write_reason e)))
    | Inl (Fatal reason) \<Rightarrow> (discard response sv, Some reason))"

subsection \<open>Submission\<close>

definition lane_of :: "json \<Rightarrow> json \<Rightarrow> protocol_error + string" where
  "lane_of request context = (case field_str request ''operation'' of
      None \<Rightarrow> Inl (Invalid ''snapshot request has no operation'')
    | Some op \<Rightarrow>
        (if op = ''release'' then Inr ''release''
         else if op = ''warm_registered'' \<or> op = ''warm_root'' then Inr ''warm''
         else if op = ''prepare_review'' \<or> op = ''prepare_corrections'' then Inr ''review''
         else (case field_str context ''admission'' of
             Some a \<Rightarrow> (if a = ''hook'' then Inr ''hook'' else if a = ''review'' then Inr ''review''
               else Inl (Invalid ''snapshot context has no admission lane''))
           | None \<Rightarrow> Inl (Invalid ''snapshot context has no admission lane''))))"

text \<open>A cancellation, or a request.\<close>

definition cancel_frame :: "json \<Rightarrow> bool" where
  "cancel_frame frame \<longleftrightarrow> field_str frame ''op'' = Some ''snapshot_cancel''"

definition parse_submission :: "floats \<Rightarrow> nat \<Rightarrow> json \<Rightarrow> protocol_error + submission" where
  "parse_submission fl i frame =
     (if field_str frame ''op'' \<noteq> Some ''snapshot_request'' \<or>
         frame_keys frame \<noteq> [''id'', ''op'', ''protocol'', ''snapshot'', ''snapshot_context'']
      then Inl (Invalid ''invalid snapshot request frame fields'')
      else let snapshot = opt_default JNull (field frame ''snapshot'');
               context = opt_default JNull (field frame ''snapshot_context'')
        in res_bind (map_sum Invalid id (check_ingress fl snapshot)) (\<lambda>_.
           res_bind (map_sum Invalid id (check_ingress fl context)) (\<lambda>_.
           res_bind (ok_or (Invalid ''snapshot request frame has no request'') (field snapshot ''request'')) (\<lambda>request.
           res_bind (ok_or (Invalid ''snapshot request frame has no tool registry'') (field snapshot ''tool_registry'')) (\<lambda>registry.
           res_bind (lane_of request context) (\<lambda>lane.
           Inr \<lparr>sm_id = i, sm_request = request, sm_context = context, sm_registry = registry, sm_lane = lane\<rparr>))))))"

definition push_job :: "job \<Rightarrow> lane \<Rightarrow> lane" where
  "push_job j l = l\<lparr>ln_used := ln_used l + 1, ln_queue := ln_queue l @ [j]\<rparr>"

text \<open>The reader is the only thread that admits: the slot, the entry of the request in flight and
  the job sent to the lane are one step.\<close>

definition admit :: "submission \<Rightarrow> service \<Rightarrow> service" where
  "admit sm sv = on_lane (sm_lane sm)
     (push_job \<lparr>jb_id = sm_id sm, jb_request = sm_request sm, jb_context = sm_context sm,
       jb_token = sv_tokens sv, jb_registry = sm_registry sm\<rparr>)
     (sv\<lparr>sv_pending := (sm_id sm, sv_tokens sv) # sv_pending sv, sv_tokens := sv_tokens sv + 1\<rparr>)"

definition refusal :: "submission \<Rightarrow> json" where
  "refusal sm = failure (opt_default [] (field_str (sm_request sm) ''id'')) ''retained_limit''
     ''snapshot owner admission slots are occupied'' None"

definition cancel_id :: "nat \<Rightarrow> service \<Rightarrow> service" where
  "cancel_id i sv = (case map_of (sv_pending sv) i of
      None \<Rightarrow> sv
    | Some t \<Rightarrow> sv\<lparr>sv_cancelled := t # sv_cancelled sv\<rparr>)"

text \<open>What a step did: the identity of the request it concerned.\<close>

datatype event = Admit nat | Refuse nat | Cancel nat | Reply nat | Lose nat | Internal

text \<open>What becomes of a request frame: the error that ends the loop, an admission, or a request
  to refuse.\<close>

definition submit_request :: "submission \<Rightarrow> service \<Rightarrow> service \<times> (protocol_error + event)" where
  "submit_request sm sv = (case map_of (sv_lanes sv) (sm_lane sm) of
      None \<Rightarrow> (sv, Inl (Invalid ''no lane''))
    | Some l \<Rightarrow>
        (if map_of (sv_pending sv) (sm_id sm) \<noteq> None
         then (sv, Inl (Invalid ''duplicate live snapshot frame identity''))
         else if ln_used l < ln_slots l then (admit sm sv, Inr (Admit (sm_id sm)))
         else (sv\<lparr>sv_reader := Refusing sm\<rparr>, Inr Internal)))"

definition submit :: "floats \<Rightarrow> json \<Rightarrow> service \<Rightarrow> service \<times> (protocol_error + event)" where
  "submit fl frame sv = (case protocol_id frame of
      None \<Rightarrow> (sv, Inl (Invalid ''invalid snapshot owner frame identity''))
    | Some i \<Rightarrow>
        (if cancel_frame frame then
           (if frame_keys frame \<noteq> [''id'', ''op'', ''protocol'']
            then (sv, Inl (Invalid ''invalid snapshot cancellation fields''))
            else (cancel_id i sv, Inr (Cancel i)))
         else (case parse_submission fl i frame of
             Inl e \<Rightarrow> (sv, Inl e)
           | Inr sm \<Rightarrow> submit_request sm sv)))"

subsection \<open>The reader\<close>

definition finish_service :: "protocol_error + unit \<Rightarrow> service \<Rightarrow> service" where
  "finish_service outcome sv = sv\<lparr>sv_outcome := Some outcome\<rparr>"

text \<open>The first part of a turn of the loop of \<open>serve\<close>: a frame is read, and a failure noted by a
  worker ends the loop. \<open>rd\<close> is the error of the input, if it fails. The reading touches nothing
  a worker sees, so it is one step with the look at the failure.\<close>

definition serve_frame :: "(string \<Rightarrow> json option) \<Rightarrow> string option \<Rightarrow> service \<Rightarrow> service" where
  "serve_frame from_slice rd sv = (case rd of
      Some error \<Rightarrow> finish_service (Inl (Io error)) sv
    | None \<Rightarrow> (case read_frame from_slice (sv_input sv) of
        Inl e \<Rightarrow> finish_service (Inl e) sv
      | Inr (None, rest) \<Rightarrow> finish_service (Inr ()) (sv\<lparr>sv_input := rest\<rparr>)
      | Inr (Some (frame, bytes), rest) \<Rightarrow>
          (let sv = record_transport bytes (sv\<lparr>sv_input := rest\<rparr>) in
           case sv_failed sv of
             Some failed \<Rightarrow> finish_service (Inl (Invalid failed)) (sv\<lparr>sv_failed := None\<rparr>)
           | None \<Rightarrow> sv\<lparr>sv_reader := Checked frame\<rparr>)))"

text \<open>The second part: the frame is submitted, whatever the workers did in between.\<close>

definition submit_frame :: "floats \<Rightarrow> json \<Rightarrow> service \<Rightarrow> service \<times> event" where
  "submit_frame fl frame sv = (case submit fl frame (sv\<lparr>sv_reader := Reading\<rparr>) of
      (sv, Inl e) \<Rightarrow> (finish_service (Inl e) sv, Internal)
    | (sv, Inr ev) \<Rightarrow> (sv, ev))"

text \<open>The refusal of a request that found no slot, written with no lock held but that of the
  output.\<close>

definition refuse :: "floats \<Rightarrow> string option \<times> string option \<Rightarrow> submission \<Rightarrow> service \<Rightarrow> service \<times> event" where
  "refuse fl io sm sv = (case send_result fl io (sm_id sm) (refusal sm) (sv\<lparr>sv_reader := Reading\<rparr>) of
      (sv, None) \<Rightarrow> (sv, Refuse (sm_id sm))
    | (sv, Some reason) \<Rightarrow> (finish_service (Inl (Invalid reason)) sv, Internal))"

text \<open>After the loop \<open>run\<close> cancels what is in flight and closes the lanes, whose workers empty
  their queues and end.\<close>

definition close_lanes :: "service \<Rightarrow> service" where
  "close_lanes sv = sv\<lparr>sv_cancelled := map snd (sv_pending sv) @ sv_cancelled sv, sv_open := False\<rparr>"

subsection \<open>The workers\<close>

definition set_worker :: "nat \<Rightarrow> worker \<Rightarrow> lane \<Rightarrow> lane" where
  "set_worker w x l = l\<lparr>ln_workers := (ln_workers l)[w := x]\<rparr>"

definition take_job :: "nat \<Rightarrow> lane \<Rightarrow> lane" where
  "take_job w l = (case ln_queue l of
      [] \<Rightarrow> l
    | j # rest \<Rightarrow> set_worker w (Answering j) (l\<lparr>ln_queue := rest\<rparr>))"

text \<open>The first part of \<open>done\<close>: the reply, or else the error message, or else the failure that
  ends the process. \<open>io2\<close> is the outcome of the write of the error message.\<close>

definition reply ::
  "floats \<Rightarrow> string option \<times> string option \<Rightarrow> string option \<Rightarrow> job \<Rightarrow> json \<Rightarrow> service \<Rightarrow> service \<times> event" where
  "reply fl io io2 j response sv = (case send_result fl io (jb_id j) response sv of
      (sv, None) \<Rightarrow> (sv, Reply (jb_id j))
    | (sv, Some reason) \<Rightarrow> (case write_message fl io2 (error_message (jb_id j) reason) sv of
        Inr sv \<Rightarrow> (sv, Reply (jb_id j))
      | Inl e \<Rightarrow> (sv\<lparr>sv_failed := Some (write_reason e)\<rparr>, Lose (jb_id j))))"

definition forget :: "job \<Rightarrow> service \<Rightarrow> service" where
  "forget j sv = sv\<lparr>sv_pending := filter (\<lambda>p. fst p \<noteq> jb_id j) (sv_pending sv)\<rparr>"

text \<open>\<open>fetch_sub\<close> on the slots: below zero it would wrap, which is no value here.\<close>

definition release_slot :: "nat \<Rightarrow> lane \<Rightarrow> lane option" where
  "release_slot w l = (if ln_used l = 0 then None
     else Some (set_worker w Idle (l\<lparr>ln_used := ln_used l - 1\<rparr>)))"

subsection \<open>The steps\<close>

definition worker_at :: "service \<Rightarrow> string \<Rightarrow> nat \<Rightarrow> worker option" where
  "worker_at sv name w = Option.bind (map_of (sv_lanes sv) name) (\<lambda>l.
     if w < length (ln_workers l) then Some (ln_workers l ! w) else None)"

definition lane_at :: "service \<Rightarrow> string \<Rightarrow> lane option" where
  "lane_at sv name = map_of (sv_lanes sv) name"

inductive work :: "floats \<Rightarrow> service \<Rightarrow> event \<Rightarrow> service \<Rightarrow> bool" for fl where
  work_take: "\<lbrakk>worker_at sv name w = Some Idle; lane_at sv name = Some l; ln_queue l \<noteq> []\<rbrakk> \<Longrightarrow>
     work fl sv Internal (on_lane name (take_job w) sv)"
| work_reply: "\<lbrakk>worker_at sv name w = Some (Answering j); reply fl io io2 j response sv = (sv', ev)\<rbrakk> \<Longrightarrow>
     work fl sv ev (on_lane name (set_worker w (Answered j)) sv')"
| work_forget: "worker_at sv name w = Some (Answered j) \<Longrightarrow>
     work fl sv Internal (on_lane name (set_worker w Removed) (forget j sv))"
| work_release: "\<lbrakk>worker_at sv name w = Some Removed; lane_at sv name = Some l; release_slot w l = Some l'\<rbrakk> \<Longrightarrow>
     work fl sv Internal (on_lane name (\<lambda>_. l') sv)"

inductive service_step :: "floats \<Rightarrow> (string \<Rightarrow> json option) \<Rightarrow> service \<Rightarrow> event \<Rightarrow> service \<Rightarrow> bool"
  for fl from_slice where
  step_read: "\<lbrakk>sv_outcome sv = None; sv_reader sv = Reading\<rbrakk> \<Longrightarrow>
     service_step fl from_slice sv Internal (serve_frame from_slice rd sv)"
| step_submit: "\<lbrakk>sv_outcome sv = None; sv_reader sv = Checked frame; submit_frame fl frame sv = (sv', ev)\<rbrakk> \<Longrightarrow>
     service_step fl from_slice sv ev sv'"
| step_refuse: "\<lbrakk>sv_outcome sv = None; sv_reader sv = Refusing sm; refuse fl io sm sv = (sv', ev)\<rbrakk> \<Longrightarrow>
     service_step fl from_slice sv ev sv'"
| step_close: "\<lbrakk>sv_outcome sv \<noteq> None; sv_open sv\<rbrakk> \<Longrightarrow> service_step fl from_slice sv Internal (close_lanes sv)"
| step_work: "work fl sv ev sv' \<Longrightarrow> service_step fl from_slice sv ev sv'"

text \<open>The runs of the process from its start on an input, with what they did.\<close>

inductive service_run :: "floats \<Rightarrow> (string \<Rightarrow> json option) \<Rightarrow> string \<Rightarrow> event list \<Rightarrow> service \<Rightarrow> bool"
  for fl from_slice input where
  run_start: "service_run fl from_slice input [] (service_new input)"
| run_step: "\<lbrakk>service_run fl from_slice input evs sv; service_step fl from_slice sv ev sv'\<rbrakk> \<Longrightarrow>
     service_run fl from_slice input (evs @ [ev]) sv'"

inductive_cases serviceE: "service_step fl from_slice sv ev sv'"
inductive_cases workE: "work fl sv ev sv'"

end
