(* ===== verification/ServiceFacts.thy ===== *)
theory ServiceFacts
  imports Service "HOL-Library.Multiset"
begin

text \<open>
  The jobs in flight as a multiset over the lanes, the invariant of the process and its
  preservation by every step.
\<close>

subsection \<open>The jobs of a lane\<close>

fun worker_jobs :: "worker \<Rightarrow> job multiset" where
  "worker_jobs Idle = {#}"
| "worker_jobs (Answering j) = {#j#}"
| "worker_jobs (Answered j) = {#j#}"
| "worker_jobs Removed = {#}"

fun worker_owed :: "worker \<Rightarrow> job multiset" where
  "worker_owed (Answering j) = {#j#}"
| "worker_owed _ = {#}"

fun busy :: "worker \<Rightarrow> nat" where
  "busy Idle = 0"
| "busy _ = 1"

text \<open>The jobs that are in flight, and those still to be answered.\<close>

definition lane_jobs :: "lane \<Rightarrow> job multiset" where
  "lane_jobs l = mset (ln_queue l) + sum_list (map worker_jobs (ln_workers l))"

definition lane_owed :: "lane \<Rightarrow> job multiset" where
  "lane_owed l = mset (ln_queue l) + sum_list (map worker_owed (ln_workers l))"

definition held :: "lane \<Rightarrow> nat" where
  "held l = length (ln_queue l) + sum_list (map busy (ln_workers l))"

definition over_lanes :: "(lane \<Rightarrow> 'a) \<Rightarrow> service \<Rightarrow> 'a :: comm_monoid_add" where
  "over_lanes g sv = sum_list (map (\<lambda>p. g (snd p)) (sv_lanes sv))"

abbreviation live :: "service \<Rightarrow> job multiset" where
  "live \<equiv> over_lanes lane_jobs"

abbreviation owed :: "service \<Rightarrow> job multiset" where
  "owed \<equiv> over_lanes lane_owed"

lemma sum_list_update:
  fixes g :: "'a \<Rightarrow> 'b :: cancel_comm_monoid_add"
  assumes "w < length xs"
  shows "sum_list (map g (xs[w := x])) + g (xs ! w) = sum_list (map g xs) + g x"
  using assms
proof (induction xs arbitrary: w)
  case (Cons y ys)
  show ?case
  proof (cases w)
    case 0
    then show ?thesis by (simp add: ac_simps)
  next
    case (Suc v)
    have "sum_list (map g (ys[v := x])) + g (ys ! v) = sum_list (map g ys) + g x"
      using Cons Suc by simp
    then show ?thesis using Suc by (simp add: add.assoc)
  qed
qed simp

lemma sum_lane_update:
  fixes g :: "'a \<Rightarrow> 'b :: cancel_comm_monoid_add"
  assumes "distinct (map fst ls)" "map_of ls name = Some l"
  shows "sum_list (map (\<lambda>p. g (snd p)) (map (\<lambda>(n, l). (n, if n = name then f l else l)) ls)) + g l =
    sum_list (map (\<lambda>p. g (snd p)) ls) + g (f l)"
  using assms
proof (induction ls)
  case (Cons p ls)
  obtain n x where p: "p = (n, x)" by force
  show ?case
  proof (cases "n = name")
    case True
    then have "name \<notin> fst ` set ls" using Cons.prems p by auto
    then have "map (\<lambda>(n, l). (n, if n = name then f l else l)) ls = ls"
      by (intro map_idI) force
    then show ?thesis using True p Cons.prems by (simp add: ac_simps)
  next
    case False
    then have "sum_list (map (\<lambda>p. g (snd p)) (map (\<lambda>(n, l). (n, if n = name then f l else l)) ls)) + g l =
        sum_list (map (\<lambda>p. g (snd p)) ls) + g (f l)"
      using Cons p by (auto split: if_splits)
    then show ?thesis using False p by (simp add: add.assoc)
  qed
qed simp

lemma over_lane:
  fixes g :: "lane \<Rightarrow> 'b :: cancel_comm_monoid_add"
  assumes "distinct (map fst (sv_lanes sv))" "lane_at sv name = Some l"
  shows "over_lanes g (on_lane name f sv) + g l = over_lanes g sv + g (f l)"
  using sum_lane_update [OF assms(1) assms(2) [unfolded lane_at_def]]
  by (simp add: over_lanes_def on_lane_def)

subsection \<open>The invariant\<close>

definition lane_ok :: "string \<times> lane \<Rightarrow> bool" where
  "lane_ok p \<longleftrightarrow> ln_used (snd p) = held (snd p) \<and> ln_used (snd p) \<le> ln_slots (snd p) \<and>
     (\<forall>j\<in>#lane_jobs (snd p). lane_of (jb_request j) (jb_context j) = Inr (fst p))"

definition lane_shape :: "string \<times> lane \<Rightarrow> string \<times> nat \<times> nat" where
  "lane_shape p = (fst p, length (ln_workers (snd p)), ln_slots (snd p))"

definition ticket :: "job \<Rightarrow> nat \<times> nat" where
  "ticket j = (jb_id j, jb_token j)"

definition service_ok :: "service \<Rightarrow> bool" where
  "service_ok sv \<longleftrightarrow>
     map lane_shape (sv_lanes sv) = LANES \<and>
     list_all lane_ok (sv_lanes sv) \<and>
     mset (sv_pending sv) = image_mset ticket (live sv) \<and>
     distinct (map fst (sv_pending sv)) \<and> distinct (map snd (sv_pending sv)) \<and>
     (\<forall>t\<in>snd ` set (sv_pending sv) \<union> set (sv_cancelled sv). t < sv_tokens sv) \<and>
     (\<not> sv_open sv \<longrightarrow> sv_outcome sv \<noteq> None \<and> snd ` set (sv_pending sv) \<subseteq> set (sv_cancelled sv))"

lemma service_okD:
  assumes "service_ok sv"
  shows "map lane_shape (sv_lanes sv) = LANES" "list_all lane_ok (sv_lanes sv)"
    "mset (sv_pending sv) = image_mset ticket (live sv)"
    "distinct (map fst (sv_pending sv))" "distinct (map snd (sv_pending sv))"
    "\<And>t. t \<in> snd ` set (sv_pending sv) \<Longrightarrow> t < sv_tokens sv"
    "\<And>t. t \<in> set (sv_cancelled sv) \<Longrightarrow> t < sv_tokens sv"
    "\<not> sv_open sv \<Longrightarrow> sv_outcome sv \<noteq> None"
    "\<not> sv_open sv \<Longrightarrow> snd ` set (sv_pending sv) \<subseteq> set (sv_cancelled sv)"
  using assms by (auto simp: service_ok_def)

lemma lanes_distinct: "map lane_shape (sv_lanes sv) = LANES \<Longrightarrow> distinct (map fst (sv_lanes sv))"
proof -
  assume "map lane_shape (sv_lanes sv) = LANES"
  then have "map fst (map lane_shape (sv_lanes sv)) = map fst LANES" by simp
  then have "map fst (sv_lanes sv) = map fst LANES" by (simp add: lane_shape_def comp_def)
  then show ?thesis by (simp add: LANES_def)
qed

lemma lane_at_ok:
  assumes "service_ok sv" "lane_at sv name = Some l"
  shows "lane_ok (name, l)"
  using service_okD(2) [OF assms(1)] map_of_SomeD [OF assms(2) [unfolded lane_at_def]]
  by (auto simp: list_all_iff)

lemma worker_atE:
  assumes "worker_at sv name w = Some x"
  obtains l where "lane_at sv name = Some l" "w < length (ln_workers l)" "ln_workers l ! w = x"
  using assms by (auto simp: worker_at_def lane_at_def bind_eq_Some_conv split: if_splits)

text \<open>A change of one lane, and of the entries in flight with it.\<close>

lemma service_ok_on_lane:
  assumes ok: "service_ok sv" and l: "lane_at sv name = Some l"
    and shape: "length (ln_workers (f l)) = length (ln_workers l)" "ln_slots (f l) = ln_slots l"
    and lane: "lane_ok (name, f l)"
    and pending: "mset p + image_mset ticket (lane_jobs l) = mset (sv_pending sv) + image_mset ticket (lane_jobs (f l))"
    and dist: "distinct (map fst p)" "distinct (map snd p)"
    and fresh: "\<forall>t\<in>snd ` set p. t < n" "sv_tokens sv \<le> n"
    and shut: "\<not> sv_open sv \<longrightarrow> snd ` set p \<subseteq> set (sv_cancelled sv)"
  shows "service_ok (on_lane name f (sv\<lparr>sv_pending := p, sv_tokens := n\<rparr>))"
proof -
  note d = service_okD [OF ok]
  have dl: "distinct (map fst (sv_lanes sv))" by (rule lanes_distinct [OF d(1)])
  have look: "x = l" if "(name, x) \<in> set (sv_lanes sv)" for x
    using map_of_is_SomeI [OF dl that] l by (simp add: lane_at_def)
  have shapes: "map lane_shape (map (\<lambda>(m, x). (m, if m = name then f x else x)) (sv_lanes sv)) = map lane_shape (sv_lanes sv)"
    using look shape by (auto simp: lane_shape_def)
  have lanes: "list_all lane_ok (map (\<lambda>(m, x). (m, if m = name then f x else x)) (sv_lanes sv))"
    using d(2) look lane by (auto simp: list_all_iff)
  have live: "over_lanes lane_jobs (on_lane name f sv) + lane_jobs l = live sv + lane_jobs (f l)"
    by (rule over_lane [OF dl l])
  have "image_mset ticket (over_lanes lane_jobs (on_lane name f sv)) + image_mset ticket (lane_jobs l) =
      mset p + image_mset ticket (lane_jobs l)"
    using arg_cong [OF live, of "image_mset ticket"] pending d(3) by simp
  then have "mset p = image_mset ticket (over_lanes lane_jobs (on_lane name f sv))" by simp
  moreover have "over_lanes lane_jobs (on_lane name f (sv\<lparr>sv_pending := p, sv_tokens := n\<rparr>)) = over_lanes lane_jobs (on_lane name f sv)"
    by (simp add: over_lanes_def on_lane_def)
  ultimately have jobs: "mset p = image_mset ticket (over_lanes lane_jobs (on_lane name f (sv\<lparr>sv_pending := p, sv_tokens := n\<rparr>)))"
    by simp
  have cancelled: "\<forall>t\<in>set (sv_cancelled sv). t < n" using d(7) fresh(2) by (meson less_le_trans)
  have "map lane_shape (map (\<lambda>(m, x). (m, if m = name then f x else x)) (sv_lanes sv)) = LANES"
    using shapes d(1) by (rule trans)
  then show ?thesis
    unfolding service_ok_def
    using lanes jobs dist fresh(1) cancelled shut d(8)
    by (simp add: on_lane_def ball_Un)
qed

lemma service_ok_same_lanes:
  assumes "service_ok sv" "sv_lanes sv' = sv_lanes sv" "sv_pending sv' = sv_pending sv"
    "sv_tokens sv' = sv_tokens sv" "set (sv_cancelled sv) \<subseteq> set (sv_cancelled sv')"
    "\<forall>t\<in>set (sv_cancelled sv'). t < sv_tokens sv"
    "\<not> sv_open sv' \<longrightarrow> sv_outcome sv' \<noteq> None \<and> snd ` set (sv_pending sv) \<subseteq> set (sv_cancelled sv')"
  shows "service_ok sv'"
  using assms by (auto simp: service_ok_def over_lanes_def)

text \<open>What a write changes.\<close>

definition same_work :: "service \<Rightarrow> service \<Rightarrow> bool" where
  "same_work sv sv' \<longleftrightarrow> sv_lanes sv' = sv_lanes sv \<and> sv_pending sv' = sv_pending sv \<and>
     sv_tokens sv' = sv_tokens sv \<and> sv_cancelled sv' = sv_cancelled sv \<and>
     sv_open sv' = sv_open sv \<and> sv_outcome sv' = sv_outcome sv \<and> sv_input sv' = sv_input sv \<and>
     sv_reader sv' = sv_reader sv"

lemma same_work_refl [simp]: "same_work sv sv"
  by (simp add: same_work_def)

lemma same_work_trans: "same_work a b \<Longrightarrow> same_work b c \<Longrightarrow> same_work a c"
  by (simp add: same_work_def)

lemma write_message_same: "write_message fl io m sv = Inr sv' \<Longrightarrow> same_work sv sv'"
  by (auto simp: write_message_def same_work_def record_transport_def split: sum.splits option.splits)

lemma write_message_failed: "write_message fl io m sv = Inr sv' \<Longrightarrow> sv_failed sv' = sv_failed sv"
  by (auto simp: write_message_def record_transport_def split: sum.splits option.splits)

lemma discard_same [simp]: "same_work sv (discard r sv)" "sv_failed (discard r sv) = sv_failed sv"
  "sv_output (discard r sv) = sv_output sv"
  by (simp_all add: same_work_def discard_def)

lemma send_result_same:
  "send_result fl io i r sv = (sv', res) \<Longrightarrow> same_work sv sv' \<and> sv_failed sv' = sv_failed sv"
  by (auto simp: send_result_def Let_def dest: write_message_same write_message_failed
      intro: same_work_trans [OF discard_same(1)] split: sum.splits write_error.splits)

lemma reply_same: "reply fl io io2 j r sv = (sv', ev) \<Longrightarrow> same_work sv sv'"
  by (auto simp: reply_def same_work_def [of _ "_\<lparr>sv_failed := _\<rparr>"] dest!: send_result_same
      dest: write_message_same intro: same_work_trans split: prod.splits option.splits sum.splits)

lemma service_ok_same_work:
  assumes "service_ok sv" "same_work sv sv'"
  shows "service_ok sv'"
  using service_okD [OF assms(1)] assms(2)
  by (intro service_ok_same_lanes [OF assms(1)]) (auto simp: same_work_def)

lemma same_work_at: "same_work sv sv' \<Longrightarrow> lane_at sv' name = lane_at sv name \<and> worker_at sv' name w = worker_at sv name w"
  by (simp add: same_work_def lane_at_def worker_at_def)

subsection \<open>Every step keeps the invariant\<close>

lemma set_worker_sums:
  assumes "w < length (ln_workers l)"
  shows "lane_jobs (set_worker w x l) + worker_jobs (ln_workers l ! w) = lane_jobs l + worker_jobs x"
    "lane_owed (set_worker w x l) + worker_owed (ln_workers l ! w) = lane_owed l + worker_owed x"
    "held (set_worker w x l) + busy (ln_workers l ! w) = held l + busy x"
  using sum_list_update [OF assms, of worker_jobs x] sum_list_update [OF assms, of worker_owed x]
    sum_list_update [OF assms, of busy x]
  by (simp_all add: set_worker_def lane_jobs_def lane_owed_def held_def add.assoc)

lemma set_worker_shape [simp]:
  "length (ln_workers (set_worker w x l)) = length (ln_workers l)"
  "ln_slots (set_worker w x l) = ln_slots l" "ln_used (set_worker w x l) = ln_used l"
  "ln_queue (set_worker w x l) = ln_queue l"
  by (simp_all add: set_worker_def)

lemma take_job_sums:
  assumes "w < length (ln_workers l)" "ln_workers l ! w = Idle" "ln_queue l \<noteq> []"
  shows "lane_jobs (take_job w l) = lane_jobs l" "lane_owed (take_job w l) = lane_owed l"
    "held (take_job w l) = held l" "length (ln_workers (take_job w l)) = length (ln_workers l)"
    "ln_slots (take_job w l) = ln_slots l" "ln_used (take_job w l) = ln_used l"
proof -
  obtain j rest where q: "ln_queue l = j # rest" using assms(3) by (cases "ln_queue l") auto
  let ?l = "l\<lparr>ln_queue := rest\<rparr>"
  have w: "w < length (ln_workers ?l)" "ln_workers ?l ! w = Idle" using assms by simp_all
  have t: "take_job w l = set_worker w (Answering j) ?l" by (simp add: take_job_def q)
  show "lane_jobs (take_job w l) = lane_jobs l" "lane_owed (take_job w l) = lane_owed l"
    "held (take_job w l) = held l"
    using set_worker_sums [OF w(1), of "Answering j"] w(2) q
    by (simp_all add: t) (simp_all add: lane_jobs_def lane_owed_def held_def)
  show "length (ln_workers (take_job w l)) = length (ln_workers l)"
    "ln_slots (take_job w l) = ln_slots l" "ln_used (take_job w l) = ln_used l"
    by (simp_all add: t)
qed

lemma release_slot_sums:
  assumes "w < length (ln_workers l)" "ln_workers l ! w = Removed" "release_slot w l = Some l'"
  shows "lane_jobs l' = lane_jobs l" "lane_owed l' = lane_owed l" "held l' + 1 = held l"
    "ln_used l' + 1 = ln_used l" "length (ln_workers l') = length (ln_workers l)" "ln_slots l' = ln_slots l"
proof -
  let ?l = "l\<lparr>ln_used := ln_used l - 1\<rparr>"
  have l': "l' = set_worker w Idle ?l" "0 < ln_used l"
    using assms(3) by (auto simp: release_slot_def split: if_splits)
  have w: "w < length (ln_workers ?l)" "ln_workers ?l ! w = Removed" using assms by simp_all
  show "lane_jobs l' = lane_jobs l" "lane_owed l' = lane_owed l" "held l' + 1 = held l"
    using set_worker_sums [OF w(1), of Idle] w(2)
    by (simp_all add: l') (simp_all add: lane_jobs_def lane_owed_def held_def)
  show "ln_used l' + 1 = ln_used l" "length (ln_workers l') = length (ln_workers l)" "ln_slots l' = ln_slots l"
    using l'(2) by (simp_all add: l')
qed

lemma on_lane_triv: "on_lane name f (sv\<lparr>sv_pending := sv_pending sv, sv_tokens := sv_tokens sv\<rparr>) = on_lane name f sv"
  by (simp add: on_lane_def)

text \<open>A step within one lane that leaves the jobs in flight.\<close>

lemma service_ok_lane_step:
  assumes ok: "service_ok sv" and l: "lane_at sv name = Some l"
    and "length (ln_workers (f l)) = length (ln_workers l)" "ln_slots (f l) = ln_slots l"
    and "lane_jobs (f l) = lane_jobs l" "ln_used (f l) = held (f l)" "ln_used (f l) \<le> ln_used l"
  shows "service_ok (on_lane name f sv)"
proof -
  note d = service_okD [OF ok]
  have lane: "lane_ok (name, f l)"
    using lane_at_ok [OF ok l] assms(3-) by (auto simp: lane_ok_def)
  have "service_ok (on_lane name f (sv\<lparr>sv_pending := sv_pending sv, sv_tokens := sv_tokens sv\<rparr>))"
  proof (rule service_ok_on_lane [where l = l])
    show "\<forall>t\<in>snd ` set (sv_pending sv). t < sv_tokens sv" using d(6) by blast
  qed (use ok l assms(3-5) lane d(4,5,9) in simp_all)
  then show ?thesis unfolding on_lane_triv .
qed

lemma pending_forget:
  assumes "distinct (map fst p)" "mset p = image_mset ticket js + {#ticket j#}"
  shows "mset (filter (\<lambda>q. fst q \<noteq> jb_id j) p) = image_mset ticket js"
proof -
  have c: "mset (map fst p) = image_mset jb_id js + {#jb_id j#}"
    using arg_cong [OF assms(2), of "image_mset fst"] by (simp add: ticket_def image_mset.compositionality comp_def)
  have "count (mset (map fst p)) (jb_id j) \<le> 1" using assms(1) by (simp add: distinct_count_atmost_1)
  then have "jb_id j \<notin># image_mset jb_id js" unfolding c not_in_iff by simp
  then have "filter_mset (\<lambda>q. fst q \<noteq> jb_id j) (image_mset ticket js) = image_mset ticket js"
    by (auto simp: filter_mset_eq_conv ticket_def image_iff)
  then show ?thesis by (simp add: assms(2) ticket_def mset_filter)
qed

end
