(* ===== verification/ServiceProps.thy ===== *)
theory ServiceProps
  imports ServiceFacts
begin

text \<open>
  The owner process: slots and requests in flight agree in every interleaving, every admitted
  request is answered once, and closing the input drains every lane.
\<close>

lemma service_new_ok: "service_ok (service_new input)"
  by (simp add: service_ok_def service_new_def LANES_def new_lane_def lane_shape_def lane_ok_def
      held_def lane_jobs_def over_lanes_def eval_nat_numeral)

lemma release_enabled:
  assumes ok: "service_ok sv" and l: "lane_at sv name = Some l"
    and w: "w < length (ln_workers l)" "ln_workers l ! w = Removed"
  shows "release_slot w l \<noteq> None"
proof -
  have "busy (ln_workers l ! w) \<le> sum_list (map busy (ln_workers l))"
    using w(1) by (intro member_le_sum_list) auto
  then have "0 < held l" using w(2) by (simp add: held_def)
  then show ?thesis using lane_at_ok [OF ok l] by (simp add: release_slot_def lane_ok_def)
qed

lemma reply_events: "reply fl io io2 j r sv = (sv', ev) \<Longrightarrow> ev = Reply (jb_id j) \<or> ev = Lose (jb_id j)"
  by (auto simp: reply_def split: prod.splits option.splits sum.splits)

text \<open>What a step of a worker does to the jobs in flight and to those still owed an answer.\<close>

lemma work_ok:
  assumes "work fl sv ev sv'" "service_ok sv"
  shows "service_ok sv'"
  using assms(1)
proof (cases rule: work.cases)
  case (work_take name w l)
  then obtain l0 where l0: "lane_at sv name = Some l0" "w < length (ln_workers l0)" "ln_workers l0 ! w = Idle"
    by (auto elim: worker_atE)
  have "l0 = l" using l0(1) work_take by simp
  then show ?thesis
    using service_ok_lane_step [OF assms(2) l0(1), of "take_job w"] take_job_sums [OF l0(2,3)]
      lane_at_ok [OF assms(2) l0(1)] work_take
    by (simp add: lane_ok_def)
next
  case (work_reply name w j io io2 response sv1)
  have same: "same_work sv sv1" by (rule reply_same [OF work_reply(3)])
  obtain l where l: "lane_at sv name = Some l" "w < length (ln_workers l)" "ln_workers l ! w = Answering j"
    using work_reply(2) by (rule worker_atE)
  have "lane_at sv1 name = Some l" using l(1) same_work_at [OF same] by simp
  then show ?thesis
    using service_ok_lane_step [OF service_ok_same_work [OF assms(2) same], of name l "set_worker w (Answered j)"]
      set_worker_sums [OF l(2), of "Answered j"] l(3) lane_at_ok [OF assms(2) l(1)] work_reply
    by (simp add: lane_ok_def)
next
  case (work_forget name w j)
  note d = service_okD [OF assms(2)]
  obtain l where l: "lane_at sv name = Some l" "w < length (ln_workers l)" "ln_workers l ! w = Answered j"
    using work_forget(3) by (rule worker_atE)
  let ?l = "set_worker w Removed l"
  have sums: "lane_jobs ?l + {#j#} = lane_jobs l" "held ?l = held l"
    using set_worker_sums [OF l(2), of Removed] l(3) by simp_all
  have live: "over_lanes lane_jobs (on_lane name (set_worker w Removed) sv) + lane_jobs l = live sv + lane_jobs ?l"
    by (rule over_lane [OF lanes_distinct [OF d(1)] l(1)])
  have "live sv + lane_jobs ?l = over_lanes lane_jobs (on_lane name (set_worker w Removed) sv) + {#j#} + lane_jobs ?l"
    using live [symmetric] unfolding sums(1) [symmetric] by (simp only: ac_simps)
  then have "live sv = over_lanes lane_jobs (on_lane name (set_worker w Removed) sv) + {#j#}"
    by (simp only: add_right_cancel)
  then obtain js where js: "live sv = js + {#j#}" by blast
  have p: "mset (filter (\<lambda>q. fst q \<noteq> jb_id j) (sv_pending sv)) = image_mset ticket js"
    using d(3,4) js by (intro pending_forget) simp_all
  have sub: "set_mset (lane_jobs ?l) \<subseteq> set_mset (lane_jobs l)" unfolding sums(1) [symmetric] by auto
  have old: "ln_used l = held l" "ln_used l \<le> ln_slots l"
    "\<forall>j\<in>#lane_jobs l. lane_of (jb_request j) (jb_context j) = Inr name"
    using lane_at_ok [OF assms(2) l(1)] by (simp_all add: lane_ok_def)
  have "\<forall>j\<in>#lane_jobs ?l. lane_of (jb_request j) (jb_context j) = Inr name"
    using old(3) sub by blast
  then have lane: "lane_ok (name, ?l)"
    using old(1,2) sums(2) by (simp add: lane_ok_def)
  have "service_ok (on_lane name (set_worker w Removed)
      (sv\<lparr>sv_pending := filter (\<lambda>q. fst q \<noteq> jb_id j) (sv_pending sv), sv_tokens := sv_tokens sv\<rparr>))"
  proof (rule service_ok_on_lane [where l = l])
    show "mset (filter (\<lambda>q. fst q \<noteq> jb_id j) (sv_pending sv)) + image_mset ticket (lane_jobs l) =
        mset (sv_pending sv) + image_mset ticket (lane_jobs ?l)"
      unfolding p d(3) js sums(1) [symmetric] by simp
    show "distinct (map fst (filter (\<lambda>q. fst q \<noteq> jb_id j) (sv_pending sv)))"
      "distinct (map snd (filter (\<lambda>q. fst q \<noteq> jb_id j) (sv_pending sv)))"
      using d(4,5) by (simp_all add: distinct_map_filter)
    show "\<forall>t\<in>snd ` set (filter (\<lambda>q. fst q \<noteq> jb_id j) (sv_pending sv)). t < sv_tokens sv"
      using d(6) by auto
    show "\<not> sv_open sv \<longrightarrow> snd ` set (filter (\<lambda>q. fst q \<noteq> jb_id j) (sv_pending sv)) \<subseteq> set (sv_cancelled sv)"
      using d(9) by auto
  qed (use assms(2) l lane in simp_all)
  moreover have "on_lane name (set_worker w Removed)
      (sv\<lparr>sv_pending := filter (\<lambda>q. fst q \<noteq> jb_id j) (sv_pending sv), sv_tokens := sv_tokens sv\<rparr>) = sv'"
    using work_forget by (simp add: on_lane_def forget_def)
  ultimately show ?thesis by simp
next
  case (work_release name w l l')
  then obtain l0 where l0: "lane_at sv name = Some l0" "w < length (ln_workers l0)" "ln_workers l0 ! w = Removed"
    by (auto elim: worker_atE)
  have l: "l0 = l" using l0(1) work_release by simp
  show ?thesis
    using service_ok_lane_step [OF assms(2) l0(1), of "\<lambda>_. l'"] release_slot_sums [OF l0(2,3), of l']
      lane_at_ok [OF assms(2) l0(1)] work_release l
    by (simp add: lane_ok_def)
qed


lemma admit_ok:
  assumes ok: "service_ok sv" and l: "map_of (sv_lanes sv) (sm_lane sm) = Some l"
    and id: "map_of (sv_pending sv) (sm_id sm) = None" and free: "ln_used l < ln_slots l"
    and lane: "lane_of (sm_request sm) (sm_context sm) = Inr (sm_lane sm)" and "sv_open sv"
  shows "service_ok (admit sm sv)"
proof -
  note d = service_okD [OF ok]
  have la: "lane_at sv (sm_lane sm) = Some l" using l by (simp add: lane_at_def)
  let ?j = "\<lparr>jb_id = sm_id sm, jb_request = sm_request sm, jb_context = sm_context sm,
       jb_token = sv_tokens sv, jb_registry = sm_registry sm\<rparr>"
  let ?p = "(sm_id sm, sv_tokens sv) # sv_pending sv"
  have sums: "lane_jobs (push_job ?j l) = lane_jobs l + {#?j#}" "held (push_job ?j l) = held l + 1"
    by (simp_all add: push_job_def lane_jobs_def held_def)
  have new: "sm_id sm \<notin> fst ` set (sv_pending sv)" using id by (simp add: map_of_eq_None_iff)
  have fresh: "sv_tokens sv \<notin> snd ` set (sv_pending sv)" using d(6) by blast
  have "service_ok (on_lane (sm_lane sm) (push_job ?j) (sv\<lparr>sv_pending := ?p, sv_tokens := sv_tokens sv + 1\<rparr>))"
  proof (rule service_ok_on_lane [where l = l])
    show "lane_ok (sm_lane sm, push_job ?j l)"
      using lane_at_ok [OF ok la] lane free sums by (auto simp: lane_ok_def push_job_def)
    show "mset ?p + image_mset ticket (lane_jobs l) =
        mset (sv_pending sv) + image_mset ticket (lane_jobs (push_job ?j l))"
      by (simp add: sums ticket_def)
    show "distinct (map fst ?p)" "distinct (map snd ?p)" using d(4,5) new fresh by simp_all
    show "\<forall>t\<in>snd ` set ?p. t < sv_tokens sv + 1" using d(6) by (auto simp: less_Suc_eq)
  qed (use ok la assms(6) in \<open>simp_all add: push_job_def\<close>)
  then show ?thesis by (simp add: admit_def)
qed

subsection \<open>Answers\<close>

text \<open>The identities answered by a run, in order, and a frame that answers one.\<close>

fun answered :: "event list \<Rightarrow> nat list" where
  "answered [] = []"
| "answered (ev # evs) = (case ev of Reply i \<Rightarrow> i # answered evs | Refuse i \<Rightarrow> i # answered evs | _ \<Rightarrow> answered evs)"

definition answer_frame :: "floats \<Rightarrow> nat \<Rightarrow> string \<Rightarrow> bool" where
  "answer_frame fl i frame \<longleftrightarrow> (\<exists>m body. ((\<exists>r. m = wrap_result i r) \<or> (\<exists>reason. m = error_message i reason)) \<and>
     dumps fl m WIRE = Inr body \<and> encode_frame body = Some frame)"

lemma answered_append [simp]: "answered (xs @ ys) = answered xs @ answered ys"
  by (induction xs) (auto split: event.splits)

lemma write_message_out:
  assumes "write_message fl io m sv = Inr sv'"
  shows "\<exists>frame body. sv_output sv' = sv_output sv @ [frame] \<and> dumps fl m WIRE = Inr body \<and> encode_frame body = Some frame"
  using assms by (auto simp: write_message_def record_transport_def split: sum.splits option.splits)

lemma write_message_frame:
  "write_message fl io (wrap_result i r) sv = Inr sv' \<Longrightarrow> \<exists>frame. sv_output sv' = sv_output sv @ [frame] \<and> answer_frame fl i frame"
  "write_message fl io (error_message i reason) sv = Inr sv' \<Longrightarrow> \<exists>frame. sv_output sv' = sv_output sv @ [frame] \<and> answer_frame fl i frame"
  unfolding answer_frame_def by (drule write_message_out, blast)+

lemma send_result_output:
  assumes "send_result fl io i r sv = (sv', res)"
  shows "case res of None \<Rightarrow> \<exists>frame. sv_output sv' = sv_output sv @ [frame] \<and> answer_frame fl i frame
    | Some _ \<Rightarrow> sv_output sv' = sv_output sv"
proof (cases "write_message fl (fst io) (wrap_result i r) sv")
  case (Inr sv1)
  then show ?thesis using assms write_message_frame(1) [OF Inr] by (auto simp: send_result_def)
next
  case (Inl e)
  show ?thesis
  proof (cases e)
    case (Fatal reason)
    then show ?thesis using assms Inl by (auto simp: send_result_def)
  next
    case TooLong
    show ?thesis
      using assms Inl TooLong
      by (auto simp: send_result_def Let_def dest!: write_message_frame(1) split: sum.splits)
  qed
qed

lemma send_result_error:
  assumes "send_result fl io i r sv = (sv', Some e)"
  shows "same_work sv sv' \<and> sv_failed sv' = sv_failed sv \<and> sv_output sv' = sv_output sv"
  using send_result_same [OF assms] send_result_output [OF assms] by simp

text \<open>What a frame leads to.\<close>

lemma parse_submission_lane:
  assumes "parse_submission fl i frame = Inr sm"
  shows "sm_id sm = i \<and> lane_of (sm_request sm) (sm_context sm) = Inr (sm_lane sm)"
  using assms by (auto simp: parse_submission_def Let_def res_bind_Inr_iff split: if_splits)

lemma submit_request_cases:
  assumes "submit_request sm sv = (sv', r)"
  obtains l where "r = Inr (Admit (sm_id sm))" "sv' = admit sm sv" "map_of (sv_lanes sv) (sm_lane sm) = Some l"
      "map_of (sv_pending sv) (sm_id sm) = None" "ln_used l < ln_slots l"
  | "r = Inr Internal" "sv' = sv\<lparr>sv_reader := Refusing sm\<rparr>"
  | e where "r = Inl e" "sv' = sv"
  using assms that
  by (auto simp: submit_request_def split: option.splits if_splits)

lemma submit_cases:
  assumes "submit fl frame sv = (sv', r)"
  obtains i where "r = Inr (Cancel i)" "sv' = cancel_id i sv"
  | sm l where "r = Inr (Admit (sm_id sm))" "sv' = admit sm sv" "map_of (sv_lanes sv) (sm_lane sm) = Some l"
      "map_of (sv_pending sv) (sm_id sm) = None" "ln_used l < ln_slots l"
      "lane_of (sm_request sm) (sm_context sm) = Inr (sm_lane sm)"
  | sm where "r = Inr Internal" "sv' = sv\<lparr>sv_reader := Refusing sm\<rparr>"
  | e where "r = Inl e" "sv' = sv"
proof -
  show ?thesis
  proof (cases "protocol_id frame")
    case None
    then show ?thesis using assms that(4) by (auto simp: submit_def)
  next
    case (Some i)
    show ?thesis
    proof (cases "cancel_frame frame")
      case True
      then show ?thesis using assms Some that(1,4) by (auto simp: submit_def split: if_splits)
    next
      case False
      show ?thesis
      proof (cases "parse_submission fl i frame")
        case (Inl e)
        then show ?thesis using assms Some False that(4) by (auto simp: submit_def)
      next
        case (Inr sm)
        have r: "submit_request sm sv = (sv', r)" using assms Some False Inr by (simp add: submit_def)
        have sm: "lane_of (sm_request sm) (sm_context sm) = Inr (sm_lane sm)"
          using parse_submission_lane [OF Inr] by simp
        show ?thesis
          by (rule submit_request_cases [OF r]) (use sm that(2) [of sm] that(3) [of sm] that(4) in auto)
      qed
    qed
  qed
qed

lemma same_work_finish [simp]:
  "sv_lanes (finish_service x sv) = sv_lanes sv" "sv_pending (finish_service x sv) = sv_pending sv"
  "sv_tokens (finish_service x sv) = sv_tokens sv" "sv_cancelled (finish_service x sv) = sv_cancelled sv"
  "sv_open (finish_service x sv) = sv_open sv" "sv_outcome (finish_service x sv) = Some x" "sv_failed (finish_service x sv) = sv_failed sv"
  "sv_output (finish_service x sv) = sv_output sv" "sv_reader (finish_service x sv) = sv_reader sv"
  by (simp_all add: finish_service_def)

lemma finish_ok: "service_ok sv \<Longrightarrow> service_ok (finish_service x sv)"
  by (rule service_ok_same_lanes [of sv]) (auto dest: service_okD)

lemma cancel_ok: "service_ok sv \<Longrightarrow> service_ok (cancel_id i sv)"
  by (auto simp: cancel_id_def service_ok_def over_lanes_def split: option.splits dest!: map_of_SomeD)
    (force intro: rev_image_eqI)+

text \<open>A part of a turn of the reader: what it may change besides the lanes and the requests.\<close>

definition same_lanes :: "service \<Rightarrow> service \<Rightarrow> bool" where
  "same_lanes sv sv' \<longleftrightarrow> sv_lanes sv' = sv_lanes sv \<and> sv_pending sv' = sv_pending sv \<and>
     sv_tokens sv' = sv_tokens sv \<and> sv_cancelled sv' = sv_cancelled sv \<and> sv_open sv' = sv_open sv"

lemma same_lanes_ok:
  assumes "service_ok sv" "same_lanes sv sv'" "sv_outcome sv' \<noteq> None \<or> sv_outcome sv' = sv_outcome sv"
  shows "service_ok sv'"
  using service_okD [OF assms(1)] assms(2,3)
  by (intro service_ok_same_lanes [OF assms(1)]) (auto simp: same_lanes_def)

lemma same_lanes_simps [simp]:
  "same_lanes sv sv" "same_lanes sv (finish_service x sv') = same_lanes sv sv'"
  "same_lanes sv (sv'\<lparr>sv_reader := r\<rparr>) = same_lanes sv sv'"
  by (simp_all add: same_lanes_def)

lemma same_work_lanes: "same_work sv sv' \<Longrightarrow> same_lanes sv sv'"
  by (simp add: same_work_def same_lanes_def)

lemma serve_frame_effects:
  "same_lanes sv (serve_frame from_slice rd sv) \<and> sv_output (serve_frame from_slice rd sv) = sv_output sv \<and>
   (sv_outcome (serve_frame from_slice rd sv) \<noteq> None \<or>
    sv_failed sv = None \<and> sv_failed (serve_frame from_slice rd sv) = None \<and>
    sv_outcome (serve_frame from_slice rd sv) = sv_outcome sv)"
  by (cases rd; cases "read_frame from_slice (sv_input sv)"; cases "sv_failed sv")
    (auto simp: serve_frame_def Let_def record_transport_def same_lanes_def split: option.splits)

lemma serve_frame_cases:
  obtains "same_lanes sv (serve_frame from_slice rd sv)" "sv_output (serve_frame from_slice rd sv) = sv_output sv"
    "sv_outcome (serve_frame from_slice rd sv) \<noteq> None"
  | "same_lanes sv (serve_frame from_slice rd sv)" "sv_output (serve_frame from_slice rd sv) = sv_output sv"
    "sv_failed sv = None" "sv_failed (serve_frame from_slice rd sv) = None"
    "sv_outcome (serve_frame from_slice rd sv) = sv_outcome sv"
proof -
  show ?thesis
    using serve_frame_effects [of sv from_slice rd]
    by (elim conjE disjE) (erule that; assumption)+
qed

text \<open>The submission of a held frame, and the refusal of a held request.\<close>

lemma submit_frame_cases:
  assumes "submit_frame fl frame sv = (sv', ev)"
  obtains i where "ev = Cancel i" "sv' = cancel_id i (sv\<lparr>sv_reader := Reading\<rparr>)"
  | sm l where "ev = Admit (sm_id sm)" "sv' = admit sm (sv\<lparr>sv_reader := Reading\<rparr>)"
      "map_of (sv_lanes sv) (sm_lane sm) = Some l"
      "map_of (sv_pending sv) (sm_id sm) = None" "ln_used l < ln_slots l"
      "lane_of (sm_request sm) (sm_context sm) = Inr (sm_lane sm)"
  | sm where "ev = Internal" "sv' = sv\<lparr>sv_reader := Refusing sm\<rparr>"
  | e where "ev = Internal" "sv' = finish_service (Inl e) (sv\<lparr>sv_reader := Reading\<rparr>)"
proof -
  obtain sv1 r where r: "submit fl frame (sv\<lparr>sv_reader := Reading\<rparr>) = (sv1, r)" by force
  show ?thesis
    using r
  proof (cases rule: submit_cases)
    case (1 i)
    then show ?thesis using assms r that(1) [of i] by (auto simp: submit_frame_def)
  next
    case (2 sm l)
    then show ?thesis using assms r that(2) [of sm l] by (auto simp: submit_frame_def)
  next
    case (3 sm)
    then show ?thesis using assms r that(3) [of sm] by (auto simp: submit_frame_def)
  next
    case (4 e)
    then show ?thesis using assms r that(4) [of e] by (auto simp: submit_frame_def)
  qed
qed

lemma refuse_cases:
  assumes "refuse fl io sm sv = (sv', ev)"
  obtains frame where "ev = Refuse (sm_id sm)" "same_work (sv\<lparr>sv_reader := Reading\<rparr>) sv'" "sv_failed sv' = sv_failed sv"
      "sv_output sv' = sv_output sv @ [frame]" "answer_frame fl (sm_id sm) frame"
  | e sv1 where "ev = Internal" "sv' = finish_service e sv1" "same_work (sv\<lparr>sv_reader := Reading\<rparr>) sv1"
      "sv_failed sv1 = sv_failed sv" "sv_output sv1 = sv_output sv"
proof -
  obtain sv1 res where w: "send_result fl io (sm_id sm) (refusal sm) (sv\<lparr>sv_reader := Reading\<rparr>) = (sv1, res)" by force
  note same = send_result_same [OF w]
  note out = send_result_output [OF w]
  show ?thesis
  proof (cases res)
    case None
    then have "sv' = sv1" "ev = Refuse (sm_id sm)" using assms w by (simp_all add: refuse_def)
    then show ?thesis using that(1) same out None by auto
  next
    case (Some reason)
    then have "sv' = finish_service (Inl (Invalid reason)) sv1" "ev = Internal" using assms w by (simp_all add: refuse_def)
    then show ?thesis using that(2) same out Some by auto
  qed
qed

lemma serve_frame_ok: "service_ok sv \<Longrightarrow> service_ok (serve_frame from_slice rd sv)"
  by (rule serve_frame_cases [of sv from_slice rd]) (auto intro: same_lanes_ok)

lemma submit_frame_ok:
  assumes "submit_frame fl frame sv = (sv', ev)" "service_ok sv" "sv_open sv"
  shows "service_ok sv'"
proof -
  have ok: "service_ok (sv\<lparr>sv_reader := r\<rparr>)" for r using assms(2) by (rule same_lanes_ok) simp_all
  show ?thesis
    using assms(1)
  proof (cases rule: submit_frame_cases)
    case (2 sm l)
    then show ?thesis using admit_ok [OF ok] assms(3) by simp
  qed (use ok cancel_ok finish_ok in auto)
qed

lemma refuse_ok:
  assumes "refuse fl io sm sv = (sv', ev)" "service_ok sv"
  shows "service_ok sv'"
proof -
  have ok: "service_ok (sv\<lparr>sv_reader := Reading\<rparr>)" using assms(2) by (rule same_lanes_ok) simp_all
  show ?thesis using assms(1) by (cases rule: refuse_cases) (use service_ok_same_work [OF ok] finish_ok in auto)
qed

lemma close_ok: "service_ok sv \<Longrightarrow> sv_outcome sv \<noteq> None \<Longrightarrow> service_ok (close_lanes sv)"
  by (auto simp: service_ok_def close_lanes_def over_lanes_def)

lemma service_step_ok: "service_step fl from_slice sv ev sv' \<Longrightarrow> service_ok sv \<Longrightarrow> service_ok sv'"
  by (erule service_step.cases)
    (auto intro: serve_frame_ok submit_frame_ok refuse_ok close_ok work_ok dest: service_okD(8))

lemma service_run_ok: "service_run fl from_slice input evs sv \<Longrightarrow> service_ok sv"
  by (induction rule: service_run.induct) (auto intro: service_new_ok service_step_ok)

lemma reply_output:
  assumes "reply fl io io2 j r sv = (sv', ev)"
  shows "ev = Reply (jb_id j) \<and> (\<exists>frame. sv_output sv' = sv_output sv @ [frame] \<and> answer_frame fl (jb_id j) frame) \<or>
    ev = Lose (jb_id j) \<and> sv_output sv' = sv_output sv \<and> sv_failed sv' \<noteq> None"
proof -
  obtain sv1 res where w: "send_result fl io (jb_id j) r sv = (sv1, res)" by force
  show ?thesis
  proof (cases res)
    case None
    then show ?thesis using assms w send_result_output [OF w] by (auto simp: reply_def)
  next
    case (Some reason)
    then show ?thesis
      using assms w send_result_output [OF w]
      by (auto simp: reply_def dest!: write_message_frame(2) split: sum.splits)
  qed
qed

lemma reply_failed: "reply fl io io2 j r sv = (sv', ev) \<Longrightarrow> sv_failed sv \<noteq> None \<Longrightarrow> sv_failed sv' \<noteq> None"
  by (auto simp: reply_def dest!: send_result_same write_message_failed split: prod.splits option.splits sum.splits)

lemma owed_on_lane:
  assumes ok: "service_ok sv" and "lane_at sv name = Some l"
  shows "over_lanes lane_owed (on_lane name f sv) + lane_owed l = owed sv + lane_owed (f l)"
  using over_lane [OF lanes_distinct [OF service_okD(1) [OF ok]] assms(2)] .

text \<open>A request frame acted on; a failure noted; and the reader done with its input, or certain to
  end at its next look at the failure.\<close>

fun acted :: "event \<Rightarrow> bool" where
  "acted (Admit i) = True"
| "acted (Refuse i) = True"
| "acted (Cancel i) = True"
| "acted ev = False"

definition noted :: "service \<Rightarrow> bool" where
  "noted sv \<longleftrightarrow> sv_failed sv \<noteq> None \<or> sv_outcome sv \<noteq> None"

definition spent :: "service \<Rightarrow> bool" where
  "spent sv \<longleftrightarrow> sv_outcome sv \<noteq> None \<or> sv_failed sv \<noteq> None \<and> sv_reader sv = Reading"

text \<open>The effect of a step on what is owed and on the frames written.\<close>

definition step_effect :: "floats \<Rightarrow> service \<Rightarrow> event \<Rightarrow> service \<Rightarrow> bool" where
  "step_effect fl sv ev sv' \<longleftrightarrow> (case ev of
      Admit i \<Rightarrow> (\<exists>j. jb_id j = i \<and> owed sv' = owed sv + {#j#}) \<and> sv_output sv' = sv_output sv
    | Reply i \<Rightarrow> (\<exists>j. jb_id j = i \<and> owed sv = owed sv' + {#j#}) \<and>
        (\<exists>frame. sv_output sv' = sv_output sv @ [frame] \<and> answer_frame fl i frame)
    | Lose i \<Rightarrow> (\<exists>j. jb_id j = i \<and> owed sv = owed sv' + {#j#}) \<and> sv_output sv' = sv_output sv \<and> noted sv'
    | Refuse i \<Rightarrow> owed sv' = owed sv \<and> (\<exists>frame. sv_output sv' = sv_output sv @ [frame] \<and> answer_frame fl i frame)
    | _ \<Rightarrow> owed sv' = owed sv \<and> sv_output sv' = sv_output sv) \<and>
   (noted sv \<longrightarrow> noted sv') \<and> (spent sv \<longrightarrow> spent sv' \<and> \<not> acted ev) \<and>
   (noted sv \<and> acted ev \<longrightarrow> spent sv')"

lemma same_work_owed: "same_work sv sv' \<Longrightarrow> owed sv' = owed sv"
  by (simp add: same_work_def over_lanes_def)

lemma work_effect:
  assumes "work fl sv ev sv'" "service_ok sv"
  shows "step_effect fl sv ev sv'"
  using assms(1)
proof (cases rule: work.cases)
  case (work_take name w l)
  then obtain l0 where l0: "lane_at sv name = Some l0" "w < length (ln_workers l0)" "ln_workers l0 ! w = Idle"
    by (auto elim: worker_atE)
  then have "owed sv' = owed sv"
    using owed_on_lane [OF assms(2) l0(1), of "take_job w"] take_job_sums [OF l0(2,3)] work_take by simp
  then show ?thesis using work_take by (simp add: step_effect_def on_lane_def noted_def spent_def)
next
  case (work_reply name w j io io2 response sv1)
  have same: "same_work sv sv1" by (rule reply_same [OF work_reply(3)])
  obtain l where l: "lane_at sv name = Some l" "w < length (ln_workers l)" "ln_workers l ! w = Answering j"
    using work_reply(2) by (rule worker_atE)
  let ?l = "set_worker w (Answered j) l"
  have sums: "lane_owed ?l + {#j#} = lane_owed l"
    using set_worker_sums(2) [OF l(2), of "Answered j"] l(3) by simp
  have "lane_at sv1 name = Some l" using l(1) same_work_at [OF same] by simp
  then have "owed sv' + lane_owed l = owed sv + lane_owed ?l"
    using owed_on_lane [OF service_ok_same_work [OF assms(2) same], of name l "set_worker w (Answered j)"]
      same_work_owed [OF same] work_reply(1) by simp
  then have "owed sv' + {#j#} + lane_owed ?l = owed sv + lane_owed ?l"
    unfolding sums [symmetric] by (simp only: ac_simps)
  then have owed: "owed sv = owed sv' + {#j#}" by (simp only: add_right_cancel)
  have out: "sv_output sv' = sv_output sv1" "sv_failed sv' = sv_failed sv1" "sv_outcome sv' = sv_outcome sv"
    "sv_reader sv' = sv_reader sv"
    using work_reply(1) same by (simp_all add: on_lane_def same_work_def)
  show ?thesis
    using reply_output [OF work_reply(3)] reply_failed [OF work_reply(3)] owed out
    by (auto simp: step_effect_def noted_def spent_def)
next
  case (work_forget name w j)
  obtain l where l: "lane_at sv name = Some l" "w < length (ln_workers l)" "ln_workers l ! w = Answered j"
    using work_forget(3) by (rule worker_atE)
  have "lane_at (forget j sv) name = Some l" "sv_lanes (forget j sv) = sv_lanes sv"
    using l(1) by (simp_all add: lane_at_def forget_def)
  then have "owed sv' = owed sv"
    using owed_on_lane [OF assms(2) l(1), of "set_worker w Removed"] set_worker_sums(2) [OF l(2), of Removed] l(3)
      work_forget(2) by (simp add: over_lanes_def on_lane_def)
  then show ?thesis using work_forget by (simp add: step_effect_def on_lane_def forget_def noted_def spent_def)
next
  case (work_release name w l l')
  then obtain l0 where l0: "lane_at sv name = Some l0" "w < length (ln_workers l0)" "ln_workers l0 ! w = Removed"
    by (auto elim: worker_atE)
  have l: "l0 = l" using l0(1) work_release by simp
  have "owed sv' = owed sv"
    using owed_on_lane [OF assms(2) l0(1), of "\<lambda>_. l'"] release_slot_sums [OF l0(2,3), of l'] work_release l
    by simp
  then show ?thesis using work_release by (simp add: step_effect_def on_lane_def noted_def spent_def)
qed

lemma admit_effect:
  assumes ok: "service_ok sv" and l: "map_of (sv_lanes sv) (sm_lane sm) = Some l"
  shows "\<exists>j. jb_id j = sm_id sm \<and> owed (admit sm sv) = owed sv + {#j#}"
proof -
  let ?j = "\<lparr>jb_id = sm_id sm, jb_request = sm_request sm, jb_context = sm_context sm,
       jb_token = sv_tokens sv, jb_registry = sm_registry sm\<rparr>"
  have "lane_at sv (sm_lane sm) = Some l" using l by (simp add: lane_at_def)
  from owed_on_lane [OF ok this, of "push_job ?j"]
  have "owed (on_lane (sm_lane sm) (push_job ?j) sv) = owed sv + {#?j#}"
    by (simp add: push_job_def lane_owed_def)
  moreover have "owed (admit sm sv) = owed (on_lane (sm_lane sm) (push_job ?j) sv)"
    by (simp add: admit_def over_lanes_def on_lane_def)
  ultimately have "jb_id ?j = sm_id sm \<and> owed (admit sm sv) = owed sv + {#?j#}" by simp
  then show ?thesis by blast
qed

lemma same_lanes_owed: "same_lanes sv sv' \<Longrightarrow> owed sv' = owed sv"
  by (simp add: same_lanes_def over_lanes_def)

lemma serve_frame_effect:
  assumes "sv_outcome sv = None" "sv_reader sv = Reading"
  shows "step_effect fl sv Internal (serve_frame from_slice rd sv)"
  by (rule serve_frame_cases [of sv from_slice rd])
    (use assms in \<open>auto simp: step_effect_def noted_def spent_def same_lanes_owed\<close>)

lemma submit_frame_effect:
  assumes "submit_frame fl frame sv = (sv', ev)" "service_ok sv" "sv_outcome sv = None" "sv_reader sv \<noteq> Reading"
  shows "step_effect fl sv ev sv'"
  using assms(1)
proof (cases rule: submit_frame_cases)
  case (1 i)
  then show ?thesis using assms(3,4)
    by (simp add: step_effect_def cancel_id_def over_lanes_def noted_def spent_def split: option.split)
next
  case (2 sm l)
  let ?sv = "sv\<lparr>sv_reader := Reading\<rparr>"
  have "service_ok ?sv" using assms(2) by (rule same_lanes_ok) simp_all
  from admit_effect [OF this, of sm l] 2(3)
  have "\<exists>j. jb_id j = sm_id sm \<and> owed sv' = owed sv + {#j#}"
    by (simp add: 2(2) over_lanes_def)
  moreover have "sv_output sv' = sv_output sv" "sv_reader sv' = Reading" "sv_failed sv' = sv_failed sv" "sv_outcome sv' = None"
    using 2(2) assms(3) by (simp_all add: admit_def on_lane_def)
  ultimately show ?thesis using 2(1) assms(3,4) by (simp add: step_effect_def noted_def spent_def)
next
  case (3 sm)
  then show ?thesis using assms(3,4) by (simp add: step_effect_def over_lanes_def noted_def spent_def)
next
  case (4 e)
  then show ?thesis by (simp add: step_effect_def over_lanes_def noted_def spent_def)
qed

lemma refuse_effect:
  assumes "refuse fl io sm sv = (sv', ev)" "sv_outcome sv = None" "sv_reader sv \<noteq> Reading"
  shows "step_effect fl sv ev sv'"
  using assms(1)
proof (cases rule: refuse_cases)
  case (1 frame)
  then have "owed sv' = owed sv" "sv_reader sv' = Reading" "sv_outcome sv' = None"
    using assms(2) by (simp_all add: same_work_def over_lanes_def)
  then show ?thesis using 1(1,3-5) assms(2,3) by (auto simp: step_effect_def noted_def spent_def)
next
  case (2 e sv1)
  then show ?thesis by (simp add: step_effect_def noted_def spent_def same_work_def over_lanes_def)
qed

lemma service_step_effect:
  assumes "service_step fl from_slice sv ev sv'" "service_ok sv"
  shows "step_effect fl sv ev sv'"
  using assms(1)
proof (cases rule: service_step.cases)
  case (step_read rd)
  then show ?thesis using serve_frame_effect by simp
next
  case (step_submit frame)
  then show ?thesis using submit_frame_effect assms(2) by simp
next
  case (step_refuse sm io)
  then show ?thesis using refuse_effect by simp
next
  case step_close
  then show ?thesis by (simp add: step_effect_def close_lanes_def over_lanes_def noted_def spent_def)
next
  case step_work
  then show ?thesis using work_effect assms(2) by blast
qed

text \<open>The balance of a run.\<close>

definition balanced :: "event list \<Rightarrow> service \<Rightarrow> nat \<Rightarrow> bool" where
  "balanced evs sv i \<longleftrightarrow> count_list evs (Admit i) =
     count_list evs (Reply i) + count_list evs (Lose i) + count (image_mset jb_id (owed sv)) i"

lemma count_list_snoc: "count_list (xs @ [x]) y = count_list xs y + (if x = y then 1 else 0)"
  by (induction xs) auto

lemma balanced_step:
  assumes "step_effect fl sv ev sv'" "balanced evs sv i"
  shows "balanced (evs @ [ev]) sv' i"
  using assms unfolding balanced_def step_effect_def count_list_snoc
  by (cases ev) auto

lemma run_balanced: "service_run fl from_slice input evs sv \<Longrightarrow> balanced evs sv i"
proof (induction rule: service_run.induct)
  case run_start
  then show ?case
    by (simp add: balanced_def service_new_def LANES_def new_lane_def over_lanes_def lane_owed_def eval_nat_numeral)
next
  case (run_step evs sv ev sv')
  then show ?case using balanced_step service_step_effect service_run_ok by blast
qed

lemma run_frames: "service_run fl from_slice input evs sv \<Longrightarrow> list_all2 (answer_frame fl) (answered evs) (sv_output sv)"
proof (induction rule: service_run.induct)
  case run_start
  then show ?case by (simp add: service_new_def)
next
  case (run_step evs sv ev sv')
  then show ?case
    using service_step_effect [OF run_step(2) service_run_ok [OF run_step(1)]]
    by (cases ev) (auto simp: step_effect_def intro!: list_all2_appendI)
qed

text \<open>A failure noted stays noted, and lets through at most the one frame the reader held.\<close>

lemma run_lost:
  assumes "service_run fl from_slice input evs sv" "evs = xs @ ys" "Lose j \<in> set xs"
  shows "noted sv \<and> length (filter acted ys) + (if spent sv then 0 else 1) \<le> 1"
  using assms
proof (induction arbitrary: xs ys rule: service_run.induct)
  case (run_step evs sv ev sv')
  note e = service_step_effect [OF run_step(2) service_run_ok [OF run_step(1)]]
  show ?case
  proof (cases ys rule: rev_cases)
    case (snoc zs z)
    then have z: "evs = xs @ zs" "z = ev" using run_step.prems(1) by simp_all
    have "noted sv \<and> length (filter acted zs) + (if spent sv then 0 else 1) \<le> 1"
      by (rule run_step.IH [OF z(1) run_step.prems(2)])
    then show ?thesis using e snoc z(2) by (auto simp: step_effect_def split: if_splits)
  next
    case Nil
    then obtain ws where ws: "xs = ws @ [ev]" "evs = ws" using run_step.prems(1) by auto
    have "noted sv'"
    proof (cases "Lose j \<in> set ws")
      case True
      then have "noted sv" using run_step.IH [of ws "[]"] ws by simp
      then show ?thesis using e by (simp add: step_effect_def)
    next
      case False
      then have "ev = Lose j" using run_step.prems(2) ws by simp
      then show ?thesis using e by (simp add: step_effect_def)
    qed
    then show ?thesis using Nil by simp
  qed
qed simp

text \<open>A run on one request frame.\<close>

definition sample_frame :: json where
  "sample_frame = JObject [(''id'', jnat 7), (''op'', JString ''snapshot_request''), (''protocol'', jnat 1),
     (''snapshot'', JObject [(''request'', JObject [(''operation'', JString ''release'')]), (''tool_registry'', JArray [])]),
     (''snapshot_context'', JObject [])]"

definition sample_input :: string where
  "sample_input = be_bytes 1 @ ''x''"

definition sample_floats :: floats where
  "sample_floats = \<lparr>fl_parse = (\<lambda>_. None), fl_ryu = (\<lambda>_. [])\<rparr>"

definition sample_checked :: service where
  "sample_checked = serve_frame (\<lambda>_. Some sample_frame) None (service_new sample_input)"

definition sample_admitted :: service where
  "sample_admitted = fst (submit_frame sample_floats sample_frame sample_checked)"

lemma sample_read: "read_frame (\<lambda>_. Some sample_frame) sample_input = Inr (Some (sample_frame, 5), [])"
  by (simp add: read_frame_def sample_input_def be_bytes_def from_be_bytes_def MAX_FRAME_BYTES_def sample_frame_def)

lemma sample_keys: "frame_keys sample_frame = [''id'', ''op'', ''protocol'', ''snapshot'', ''snapshot_context'']"
  unfolding frame_keys_def sample_frame_def by (simp add: less_eq_char_def)

lemma sample_submission:
  "parse_submission sample_floats 7 sample_frame = Inr \<lparr>sm_id = 7, sm_request = JObject [(''operation'', JString ''release'')],
      sm_context = JObject [], sm_registry = JArray [], sm_lane = ''release''\<rparr>"
  unfolding parse_submission_def sample_keys
  by (simp add: sample_frame_def field_str_def lane_of_def)

lemma sample_serve:
  "sv_outcome sample_checked = None \<and> sv_reader sample_checked = Checked sample_frame \<and>
   submit_frame sample_floats sample_frame sample_checked = (sample_admitted, Admit 7) \<and>
   sv_outcome sample_admitted = None \<and> sv_input sample_admitted = [] \<and> sv_pending sample_admitted = [(7, 0)] \<and>
   sv_open sample_admitted \<and> sv_reader sample_admitted = Reading"
proof -
  have "protocol_id sample_frame = Some 7"
    by (simp add: protocol_id_def sample_frame_def jnat_def integer_value_def)
  moreover have "\<not> cancel_frame sample_frame" by (simp add: cancel_frame_def sample_frame_def field_str_def)
  ultimately show ?thesis
    using sample_read sample_submission
    by (simp add: sample_admitted_def sample_checked_def serve_frame_def submit_frame_def service_new_def submit_def
        admit_def on_lane_def submit_request_def record_transport_def LANES_def new_lane_def)
qed

lemma sample_run:
  "service_run sample_floats (\<lambda>_. Some sample_frame) sample_input [Internal, Admit 7] sample_admitted"
proof -
  have "service_step sample_floats (\<lambda>_. Some sample_frame) (service_new sample_input) Internal sample_checked"
    unfolding sample_checked_def by (rule step_read) (simp_all add: service_new_def)
  from run_step [OF run_start this]
  have "service_run sample_floats (\<lambda>_. Some sample_frame) sample_input [Internal] sample_checked" by simp
  moreover have "service_step sample_floats (\<lambda>_. Some sample_frame) sample_checked (Admit 7) sample_admitted"
    by (rule step_submit) (use sample_serve in auto)
  ultimately show ?thesis using run_step by fastforce
qed

definition sample_closed :: service where
  "sample_closed = close_lanes (finish_service (Inr ()) (sample_admitted\<lparr>sv_input := []\<rparr>))"

lemma sample_closed_run:
  "service_run sample_floats (\<lambda>_. Some sample_frame) sample_input ([Internal, Admit 7] @ [Internal] @ [Internal]) sample_closed"
proof -
  have s: "serve_frame (\<lambda>_. Some sample_frame) None sample_admitted = finish_service (Inr ()) (sample_admitted\<lparr>sv_input := []\<rparr>)"
    using sample_serve by (simp add: serve_frame_def read_frame_def)
  have "service_run sample_floats (\<lambda>_. Some sample_frame) sample_input ([Internal, Admit 7] @ [Internal])
      (finish_service (Inr ()) (sample_admitted\<lparr>sv_input := []\<rparr>))"
    unfolding s [symmetric] using sample_serve by (intro run_step [OF sample_run] step_read) auto
  from run_step [OF this step_close] sample_serve show ?thesis
    by (simp add: sample_closed_def finish_service_def)
qed

text \<open>C27: Every admitted request is answered exactly once. In every run of the process, whatever the
  interleaving of the reader with the worker threads, the answers the store gives and the failures
  of the pipes, a request identity was admitted as often as it was answered, lost, or is still in a
  queue or being answered; the frames on the output are the answers and refusals, one each, in that
  order; and once a reply is lost at most one more frame is acted on (admitted, refused or a
  cancellation): the reader may hold one that passed its look at the failure before.\<close>

theorem requests_answered_once:
  assumes "service_run fl from_slice input evs sv"
  shows "balanced evs sv i \<and> list_all2 (answer_frame fl) (answered evs) (sv_output sv) \<and>
    (\<forall>xs ys. evs = xs @ ys \<and> (\<exists>j. Lose j \<in> set xs) \<longrightarrow> length (filter acted ys) \<le> 1)"
proof -
  have "length (filter acted ys) \<le> 1" if "evs = xs @ ys" "Lose j \<in> set xs" for xs ys j
    using run_lost [OF assms that] by linarith
  then show ?thesis using run_balanced [OF assms] run_frames [OF assms] by blast
qed

theorem requests_answered_once_witness:
  "\<exists>sv. sv_outcome sv = None \<and> balanced [Internal, Admit 7] sv 7"
  using requests_answered_once [OF sample_run, of 7] sample_serve by blast

subsection \<open>Slots and cancellations\<close>

lemma cancelled_work:
  assumes "work fl sv ev sv'"
  shows "set (sv_pending sv') \<subseteq> set (sv_pending sv) \<and> sv_cancelled sv' = sv_cancelled sv"
  using assms
proof (cases rule: work.cases)
  case (work_reply name w j io io2 response sv1)
  then show ?thesis using reply_same [OF work_reply(3)] by (simp add: on_lane_def same_work_def)
qed (auto simp: on_lane_def forget_def)

lemma cancelled_submit:
  assumes "submit_frame fl frame sv = (sv', ev)" "service_ok sv" "(i, t) \<in> set (sv_pending sv')" "t \<in> set (sv_cancelled sv')"
  shows "(i, t) \<in> set (sv_pending sv) \<and> t \<in> set (sv_cancelled sv) \<or> ev = Cancel i"
  using assms(1)
proof (cases rule: submit_frame_cases)
  case (1 k)
  have p: "(i, t) \<in> set (sv_pending sv)" using assms(3) 1 by (auto simp: cancel_id_def split: option.splits)
  show ?thesis
  proof (cases "t \<in> set (sv_cancelled sv)")
    case False
    then have "map_of (sv_pending sv) k = Some t"
      using assms(4) 1 by (auto simp: cancel_id_def split: option.splits)
    then have "(k, t) \<in> set (sv_pending sv)" by (rule map_of_SomeD)
    then have "k = i" using p service_okD(5) [OF assms(2)] unfolding distinct_map inj_on_def by fastforce
    then show ?thesis using 1 by simp
  qed (use p in simp)
next
  case (2 sm l)
  have "sv_tokens sv \<notin> set (sv_cancelled sv)" using service_okD(7) [OF assms(2)] by blast
  then show ?thesis using 2 assms(3,4) by (auto simp: admit_def on_lane_def)
next
  case (3 sm)
  then show ?thesis using assms(3,4) by simp
next
  case (4 e)
  then show ?thesis using assms(3,4) by simp
qed

lemma cancelled_step:
  assumes "service_step fl from_slice sv ev sv'" "service_ok sv" "sv_open sv'"
    "(i, t) \<in> set (sv_pending sv')" "t \<in> set (sv_cancelled sv')"
  shows "sv_open sv \<and> ((i, t) \<in> set (sv_pending sv) \<and> t \<in> set (sv_cancelled sv) \<or> ev = Cancel i)"
  using assms(1)
proof (cases rule: service_step.cases)
  case (step_read rd)
  have op: "sv_open sv" using service_okD(8) [OF assms(2)] step_read by auto
  have "same_lanes sv sv'"
    using serve_frame_cases [of sv from_slice rd] step_read(2) by metis
  then show ?thesis using assms(4,5) op by (simp add: same_lanes_def)
next
  case (step_submit frame)
  have "sv_open sv" using service_okD(8) [OF assms(2)] step_submit by auto
  then show ?thesis using cancelled_submit [OF step_submit(3) assms(2,4,5)] by simp
next
  case (step_refuse sm io)
  have op: "sv_open sv" using service_okD(8) [OF assms(2)] step_refuse by auto
  have "same_lanes sv sv'" using step_refuse(3)
    by (cases rule: refuse_cases) (auto simp: same_lanes_def same_work_def)
  then show ?thesis using assms(4,5) op by (simp add: same_lanes_def)
next
  case step_close
  then show ?thesis using assms(3) by (simp add: close_lanes_def)
next
  case step_work
  have "sv_open sv' = sv_open sv" using step_work
  proof (cases rule: work.cases)
    case (work_reply name w j io io2 response sv1)
    then show ?thesis using reply_same [OF work_reply(3)] by (simp add: on_lane_def same_work_def)
  qed (auto simp: on_lane_def forget_def)
  then show ?thesis using cancelled_work [OF step_work] assms(3,4,5) by auto
qed

lemma run_cancelled:
  assumes "service_run fl from_slice input evs sv" "sv_open sv" "(i, t) \<in> set (sv_pending sv)" "t \<in> set (sv_cancelled sv)"
  shows "Cancel i \<in> set evs"
  using assms
proof (induction rule: service_run.induct)
  case (run_step evs sv ev sv')
  then show ?case using cancelled_step [OF run_step(2) service_run_ok [OF run_step(1)]] by auto
qed (simp add: service_new_def)

text \<open>C28: The slots, the queues and the requests in flight agree. In every reachable state each lane
  has as many used slots as jobs queued and workers not idle, never more than it has slots, and
  holds only jobs of its own kind; the requests in flight are exactly the jobs not yet forgotten,
  each under one identity and one cancellation token; and while the input lasts a request is
  cancelled only by a cancellation frame with its identity.\<close>

theorem slots_and_requests_agree:
  assumes "service_run fl from_slice input evs sv"
  shows "service_ok sv \<and>
    (\<forall>i t. sv_open sv \<and> (i, t) \<in> set (sv_pending sv) \<and> t \<in> set (sv_cancelled sv) \<longrightarrow> Cancel i \<in> set evs)"
  using service_run_ok [OF assms] run_cancelled [OF assms] by blast

theorem slots_and_requests_agree_witness: "service_ok sample_admitted"
  using slots_and_requests_agree [OF sample_run] by blast

subsection \<open>The end of the process\<close>

fun phase :: "worker \<Rightarrow> nat" where
  "phase Idle = 0"
| "phase (Answering _) = 3"
| "phase (Answered _) = 2"
| "phase Removed = 1"

definition lane_left :: "lane \<Rightarrow> nat" where
  "lane_left l = 4 * length (ln_queue l) + sum_list (map phase (ln_workers l))"

abbreviation work_left :: "service \<Rightarrow> nat" where
  "work_left \<equiv> over_lanes lane_left"

definition finished :: "service \<Rightarrow> bool" where
  "finished sv \<longleftrightarrow> sv_pending sv = [] \<and>
     (\<forall>(name, l)\<in>set (sv_lanes sv). ln_used l = 0 \<and> ln_queue l = [] \<and> list_all (\<lambda>x. x = Idle) (ln_workers l))"

lemma set_worker_left:
  assumes "w < length (ln_workers l)"
  shows "lane_left (set_worker w x l) + phase (ln_workers l ! w) = lane_left l + phase x"
  using sum_list_update [OF assms, of phase x] by (simp add: set_worker_def lane_left_def)

lemma left_on_lane:
  assumes ok: "service_ok sv" and "lane_at sv name = Some l" "sv_lanes sv1 = sv_lanes sv" "lane_left (f l) < lane_left l"
  shows "work_left (on_lane name f sv1) < work_left sv"
proof -
  have "work_left (on_lane name f sv1) = work_left (on_lane name f sv)"
    using assms(3) by (simp add: over_lanes_def on_lane_def)
  then show ?thesis
    using over_lane [OF lanes_distinct [OF service_okD(1) [OF ok]] assms(2), of lane_left f] assms(4) by linarith
qed

lemma work_decreases:
  assumes "work fl sv ev sv'" "service_ok sv"
  shows "work_left sv' < work_left sv"
  using assms(1)
proof (cases rule: work.cases)
  case (work_take name w l)
  then obtain l0 where l0: "lane_at sv name = Some l0" "w < length (ln_workers l0)" "ln_workers l0 ! w = Idle"
    by (auto elim: worker_atE)
  have "l0 = l" using l0(1) work_take by simp
  then obtain j rest where q: "ln_queue l0 = j # rest" using work_take by (cases "ln_queue l") auto
  then have "take_job w l0 = set_worker w (Answering j) (l0\<lparr>ln_queue := rest\<rparr>)" by (simp add: take_job_def)
  then have "lane_left (take_job w l0) < lane_left l0"
    using set_worker_left [of w "l0\<lparr>ln_queue := rest\<rparr>" "Answering j"] l0 q by (simp add: lane_left_def)
  then show ?thesis using left_on_lane [OF assms(2) l0(1) refl] work_take(2) by simp
next
  case (work_reply name w j io io2 response sv1)
  have same: "same_work sv sv1" by (rule reply_same [OF work_reply(3)])
  obtain l where l: "lane_at sv name = Some l" "w < length (ln_workers l)" "ln_workers l ! w = Answering j"
    using work_reply(2) by (rule worker_atE)
  then have "lane_left (set_worker w (Answered j) l) < lane_left l" using set_worker_left [OF l(2), of "Answered j"] by simp
  then show ?thesis using left_on_lane [OF assms(2) l(1)] same work_reply(1) by (simp add: same_work_def)
next
  case (work_forget name w j)
  obtain l where l: "lane_at sv name = Some l" "w < length (ln_workers l)" "ln_workers l ! w = Answered j"
    using work_forget(3) by (rule worker_atE)
  then have "lane_left (set_worker w Removed l) < lane_left l" using set_worker_left [OF l(2), of Removed] by simp
  then show ?thesis using left_on_lane [OF assms(2) l(1)] work_forget(2) by (simp add: forget_def)
next
  case (work_release name w l l')
  then obtain l0 where l0: "lane_at sv name = Some l0" "w < length (ln_workers l0)" "ln_workers l0 ! w = Removed"
    by (auto elim: worker_atE)
  have "l' = set_worker w Idle (l0\<lparr>ln_used := ln_used l0 - 1\<rparr>)"
    using work_release l0 by (auto simp: release_slot_def split: if_splits)
  then have "lane_left l' < lane_left l0"
    using set_worker_left [of w "l0\<lparr>ln_used := ln_used l0 - 1\<rparr>" Idle] l0 by (simp add: lane_left_def)
  then show ?thesis using left_on_lane [OF assms(2) l0(1) refl, of "\<lambda>_. l'"] work_release(2) by simp
qed

lemma busy_worker_steps:
  assumes ok: "service_ok sv" and l: "lane_at sv name = Some l" and w: "w < length (ln_workers l)" "ln_workers l ! w \<noteq> Idle"
  shows "\<exists>ev sv'. work fl sv ev sv'"
proof -
  have at: "worker_at sv name w = Some (ln_workers l ! w)" using l w(1) by (simp add: worker_at_def lane_at_def)
  show ?thesis
  proof (cases "ln_workers l ! w")
    case (Answering j)
    obtain sv1 ev where "reply fl (None, None) None j JNull sv = (sv1, ev)" by force
    then show ?thesis using work_reply at Answering by metis
  next
    case (Answered j)
    then show ?thesis using work_forget at by metis
  next
    case Removed
    then obtain l' where "release_slot w l = Some l'" using release_enabled [OF ok l w(1)] by auto
    then show ?thesis using work_release at l Removed by metis
  qed (use w in simp)
qed

lemma lane_nonempty: "service_ok sv \<Longrightarrow> lane_at sv name = Some l \<Longrightarrow> ln_workers l \<noteq> []"
proof -
  assume "service_ok sv" "lane_at sv name = Some l"
  then have "set (map lane_shape (sv_lanes sv)) = set LANES" "(name, l) \<in> set (sv_lanes sv)"
    by (simp_all only: service_okD(1) lane_at_def map_of_SomeD)
  then have "lane_shape (name, l) \<in> set LANES" by auto
  then show ?thesis by (auto simp: LANES_def lane_shape_def)
qed

lemma idle_sums:
  "list_all (\<lambda>x. x = Idle) ws \<Longrightarrow> sum_list (map worker_jobs ws) = {#} \<and> sum_list (map busy ws) = 0"
  by (induction ws) auto

lemma stuck_finished:
  assumes ok: "service_ok sv" and stuck: "\<nexists>ev sv'. work fl sv ev sv'"
  shows "finished sv"
proof -
  note d = service_okD [OF ok]
  have idle: "ln_queue l = [] \<and> list_all (\<lambda>x. x = Idle) (ln_workers l)" if u: "(name, l) \<in> set (sv_lanes sv)" for name l
  proof -
    have l: "lane_at sv name = Some l"
      using map_of_is_SomeI [OF lanes_distinct [OF d(1)] u] by (simp add: lane_at_def)
    have w: "\<forall>w<length (ln_workers l). ln_workers l ! w = Idle"
      using busy_worker_steps [OF ok l] stuck by metis
    have "worker_at sv name 0 = Some Idle"
      using w lane_nonempty [OF ok l] l by (simp add: worker_at_def lane_at_def)
    then have "ln_queue l = []" using work_take [OF _ l] stuck by metis
    then show ?thesis using w by (simp add: list_all_length)
  qed
  have none: "lane_jobs l = {#} \<and> held l = 0" if u: "(name, l) \<in> set (sv_lanes sv)" for name l
  proof -
    show ?thesis using idle [OF u] idle_sums [of "ln_workers l"] by (simp add: lane_jobs_def held_def)
  qed
  have "map (\<lambda>p. lane_jobs (snd p)) (sv_lanes sv) = map (\<lambda>_. 0) (sv_lanes sv)" using none by auto
  then have "live sv = 0" unfolding over_lanes_def by (simp only: sum_list_0)
  then have "sv_pending sv = []" using d(3) by simp
  moreover have "ln_used l = 0" if u: "(name, l) \<in> set (sv_lanes sv)" for name l
    using d(2) none [OF u] u by (auto simp: list_all_iff lane_ok_def)
  ultimately show ?thesis using idle by (auto simp: finished_def)
qed

lemma closed_steps_work:
  assumes "service_step fl from_slice sv ev sv'" "service_ok sv" "\<not> sv_open sv"
  shows "work fl sv ev sv'"
  using assms by (auto elim!: serviceE dest: service_okD(8))

lemma work_open: "work fl sv ev sv' \<Longrightarrow> sv_open sv' = sv_open sv"
proof (erule work.cases)
  fix svx name w j io io2 response svx' evx
  assume a: "sv = svx" "sv' = on_lane name (set_worker w (Answered j)) svx'" "reply fl io io2 j response svx = (svx', evx)"
  have "same_work svx svx'" by (rule reply_same [OF a(3)])
  then show "sv_open sv' = sv_open sv" using a by (simp add: on_lane_def same_work_def)
qed (auto simp: on_lane_def forget_def)

abbreviation steps_to :: "floats \<Rightarrow> (string \<Rightarrow> json option) \<Rightarrow> service \<Rightarrow> service \<Rightarrow> bool" where
  "steps_to fl from_slice a b \<equiv> (\<exists>ev. service_step fl from_slice a ev b)"

lemma closed_reach:
  assumes "(steps_to fl from_slice)\<^sup>*\<^sup>* sv sv'" "service_ok sv" "\<not> sv_open sv"
  shows "service_ok sv' \<and> \<not> sv_open sv'"
  using assms
proof (induction rule: rtranclp_induct)
  case (step b c)
  then obtain ev where "service_step fl from_slice b ev c" "service_ok b" "\<not> sv_open b" by auto
  then show ?case using service_step_ok closed_steps_work work_open by blast
qed simp

lemma closed_chain:
  assumes "\<forall>k<n. steps_to fl from_slice (f k) (f (Suc k))" "service_ok (f 0)" "\<not> sv_open (f 0)"
  shows "n + work_left (f n) \<le> work_left (f 0) \<and> service_ok (f n) \<and> \<not> sv_open (f n)"
  using assms
proof (induction n)
  case (Suc n)
  then obtain ev where s: "service_step fl from_slice (f n) ev (f (Suc n))" by auto
  have ih: "n + work_left (f n) \<le> work_left (f 0)" "service_ok (f n)" "\<not> sv_open (f n)"
    using Suc by auto
  have w: "work fl (f n) ev (f (Suc n))" by (rule closed_steps_work [OF s ih(2,3)])
  show ?case using work_decreases [OF w ih(2)] service_step_ok [OF s ih(2)] work_open [OF w] ih by simp
qed simp

lemma closed_finishes:
  assumes "service_ok sv" "\<not> sv_open sv"
  shows "\<exists>sv'. (steps_to fl from_slice)\<^sup>*\<^sup>* sv sv' \<and> finished sv'"
  using assms
proof (induction "work_left sv" arbitrary: sv rule: less_induct)
  case less
  show ?case
  proof (cases "\<exists>ev sv'. work fl sv ev sv'")
    case False
    then show ?thesis using stuck_finished [OF less.prems(1)] by blast
  next
    case True
    then obtain ev sv1 where w: "work fl sv ev sv1" by blast
    have s: "steps_to fl from_slice sv sv1" using step_work [OF w] by blast
    have "service_ok sv1" "\<not> sv_open sv1" using work_ok [OF w less.prems(1)] work_open [OF w] less.prems(2) by simp_all
    then obtain sv' where "(steps_to fl from_slice)\<^sup>*\<^sup>* sv1 sv'" "finished sv'"
      using less.hyps [OF work_decreases [OF w less.prems(1)]] by blast
    moreover have "(steps_to fl from_slice)\<^sup>*\<^sup>* sv sv'"
      by (rule converse_rtranclp_into_rtranclp) (fact s, fact calculation(1))
    ultimately show ?thesis by blast
  qed
qed

text \<open>C29: The process ends with nothing left behind. Once its input is over and the lanes are closed,
  every run of the worker threads is finite, some run ends, and wherever a run can go no further no
  request is in flight, every queue is empty, every slot is free and every worker idle: the joins
  of the threads return.\<close>

theorem lanes_drain:
  assumes "service_run fl from_slice input evs sv" "\<not> sv_open sv"
  shows "(\<forall>n f. f 0 = sv \<and> (\<forall>k<n. steps_to fl from_slice (f k) (f (Suc k))) \<longrightarrow> n \<le> work_left sv) \<and>
    (\<exists>sv'. (steps_to fl from_slice)\<^sup>*\<^sup>* sv sv' \<and> finished sv') \<and>
    (\<forall>sv'. (steps_to fl from_slice)\<^sup>*\<^sup>* sv sv' \<and> (\<nexists>sv''. steps_to fl from_slice sv' sv'') \<longrightarrow> finished sv')"
proof (intro conjI allI impI)
  note ok = service_run_ok [OF assms(1)]
  show "n \<le> work_left sv" if "f 0 = sv \<and> (\<forall>k<n. steps_to fl from_slice (f k) (f (Suc k)))" for n f
    using closed_chain [of n fl from_slice f] ok assms(2) that by auto
  show "\<exists>sv'. (steps_to fl from_slice)\<^sup>*\<^sup>* sv sv' \<and> finished sv'" by (rule closed_finishes [OF ok assms(2)])
  show "finished sv'" if u: "(steps_to fl from_slice)\<^sup>*\<^sup>* sv sv' \<and> (\<nexists>sv''. steps_to fl from_slice sv' sv'')" for sv'
  proof (rule stuck_finished)
    show "service_ok sv'" using closed_reach [OF _ ok assms(2)] u by blast
    show "\<nexists>ev sv''. work fl sv' ev sv''" using u step_work by metis
  qed
qed

theorem lanes_drain_witness:
  "sv_pending sample_closed = [(7, 0)] \<and>
   (\<exists>sv'. (steps_to sample_floats (\<lambda>_. Some sample_frame))\<^sup>*\<^sup>* sample_closed sv' \<and> finished sv')"
proof -
  have "\<not> sv_open sample_closed" "sv_pending sample_closed = [(7, 0)]"
    using sample_serve by (simp_all add: sample_closed_def close_lanes_def finish_service_def)
  then show ?thesis using lanes_drain [OF sample_closed_run] by blast
qed

end
