(* ===== verification/Codec.thy ===== *)
theory Codec
  imports Service
begin

text \<open>
  \<open>snapshot_codec.rs\<close>: writing a record under a byte bound, clipping the bulky fields of a record
  that does not fit a page, pages, and the records of predicate inputs. A serialised value is the
  list of the pieces serde hands to the writer; for a JSON value the pieces are those of its text,
  whose numbers (sonic-rs) are the argument \<open>num\<close>.
\<close>

subsection \<open>Bounded writers\<close>

definition MAX_RECORDS :: nat where
  "MAX_RECORDS = 256"

definition MAX_RECORD_BYTES :: nat where
  "MAX_RECORD_BYTES = 1024 * 1024"

definition MAX_PAGE_BYTES :: nat where
  "MAX_PAGE_BYTES = 16 * 1024 * 1024"

definition MAX_ESCAPED_BYTES_PER_BYTE :: nat where
  "MAX_ESCAPED_BYTES_PER_BYTE = 6"

definition BULKY_FIELD_BYTES :: nat where
  "BULKY_FIELD_BYTES = 64 * 1024"

record bound =
  bd_what :: string
  bd_budget :: nat
  bd_record :: bool

definition bound_record :: "string \<Rightarrow> nat \<Rightarrow> bound" where
  "bound_record what budget = \<lparr>bd_what = what, bd_budget = budget, bd_record = True\<rparr>"

definition bound_budget :: "string \<Rightarrow> nat \<Rightarrow> bound" where
  "bound_budget what budget = \<lparr>bd_what = what, bd_budget = budget, bd_record = False\<rparr>"

definition bound_limit :: "bound \<Rightarrow> nat" where
  "bound_limit b = (if bd_record b then min (bd_budget b) MAX_RECORD_BYTES else bd_budget b)"

text \<open>\<open>JsonWriter\<close> over \<open>LimitedWriter\<close> or \<open>Counter\<close>, whose limits agree: each piece is taken whole
  or refused.\<close>

fun write_pieces :: "nat \<Rightarrow> string list \<Rightarrow> string \<Rightarrow> string option" where
  "write_pieces remaining [] out = Some out"
| "write_pieces remaining (p # ps) out =
     (if remaining < length p then None else write_pieces (remaining - length p) ps (out @ p))"

definition refusal_error :: "bound \<Rightarrow> nat \<Rightarrow> snapshot_error" where
  "refusal_error b bytes = snapshot_error OutputLimit
     (if bd_record b \<and> MAX_RECORD_BYTES < bytes
      then bd_what b @ '' needs '' @ dec_digits bytes @ '' bytes, over the '' @ dec_digits MAX_RECORD_BYTES @ ''-byte record bound''
      else bd_what b @ '' needs '' @ dec_digits bytes @ '' bytes, over the '' @ dec_digits (bd_budget b) @ ''-byte remaining output budget'')"

definition encode_bounded :: "string list \<Rightarrow> bound \<Rightarrow> snapshot_error + string" where
  "encode_bounded pieces b = (case write_pieces (bound_limit b) pieces [] of
      Some text \<Rightarrow> Inr text
    | None \<Rightarrow> Inl (refusal_error b (length (concat pieces))))"

definition encoded_size_bounded :: "string list \<Rightarrow> bound \<Rightarrow> snapshot_error + nat" where
  "encoded_size_bounded pieces b = map_sum id length (encode_bounded pieces b)"

definition encode_record :: "string list \<Rightarrow> nat \<Rightarrow> snapshot_error + string" where
  "encode_record pieces max_bytes = encode_bounded pieces (bound_record ''snapshot record'' max_bytes)"

definition encoded_size :: "string list \<Rightarrow> nat \<Rightarrow> snapshot_error + nat" where
  "encoded_size pieces max_bytes = encoded_size_bounded pieces (bound_record ''snapshot record'' max_bytes)"

lemma write_pieces_exact:
  "write_pieces n ps out = (if length (concat ps) \<le> n then Some (out @ concat ps) else None)"
  by (induction ps arbitrary: n out) auto

lemma encode_bounded_exact:
  "encode_bounded ps b = (if length (concat ps) \<le> bound_limit b then Inr (concat ps)
     else Inl (refusal_error b (length (concat ps))))"
  by (simp add: encode_bounded_def write_pieces_exact)

subsection \<open>The text of a JSON value\<close>

text \<open>Strings are written by \<open>ids::encode_string_to\<close>; pairs as the decoder kept them.\<close>

fun json_text :: "(jnumber \<Rightarrow> string) \<Rightarrow> json \<Rightarrow> string"
  and items_text :: "(jnumber \<Rightarrow> string) \<Rightarrow> json list \<Rightarrow> string"
  and pairs_text :: "(jnumber \<Rightarrow> string) \<Rightarrow> (string \<times> json) list \<Rightarrow> string" where
  "json_text num JNull = ''null''"
| "json_text num (JBool b) = (if b then ''true'' else ''false'')"
| "json_text num (JNumber n) = num n"
| "json_text num (JString s) = encode_string s"
| "json_text num (JArray xs) = ''['' @ items_text num xs @ '']''"
| "json_text num (JObject ps) = ''{'' @ pairs_text num ps @ ''}''"
| "items_text num [] = []"
| "items_text num (x # xs) = json_text num x @ (if xs = [] then [] else '','' @ items_text num xs)"
| "pairs_text num [] = []"
| "pairs_text num ((k, x) # ps) =
     encode_string k @ '':'' @ json_text num x @ (if ps = [] then [] else '','' @ pairs_text num ps)"

definition quoted_len :: "string \<Rightarrow> nat" where
  "quoted_len encoded = length (encode_string encoded)"

subsection \<open>Clipping\<close>

datatype clippable = ClipOutput | ClipText

record sizes =
  sz_raw :: nat
  sz_quoted :: nat

definition sizes_of :: "(jnumber \<Rightarrow> string) \<Rightarrow> json \<Rightarrow> sizes" where
  "sizes_of num v = (let encoded = json_text num v
     in \<lparr>sz_raw = length encoded, sz_quoted = quoted_len encoded\<rparr>)"

definition excess :: "sizes \<Rightarrow> sizes \<Rightarrow> nat" where
  "excess sz fit = max (sz_raw sz - sz_raw fit) (sz_quoted sz - sz_quoted fit)"

text \<open>A mutable reference to a field is the path to it: positions in arrays and among the pairs of
  objects.\<close>

type_synonym path = "nat list"

fun at_path :: "json \<Rightarrow> path \<Rightarrow> json option" where
  "at_path v [] = Some v"
| "at_path (JArray xs) (i # p) = (if i < length xs then at_path (xs ! i) p else None)"
| "at_path (JObject ps) (i # p) = (if i < length ps then at_path (snd (ps ! i)) p else None)"
| "at_path _ (_ # _) = None"

fun put_path :: "json \<Rightarrow> path \<Rightarrow> json \<Rightarrow> json" where
  "put_path v [] x = x"
| "put_path (JArray xs) (i # p) x = (if i < length xs then JArray (xs[i := put_path (xs ! i) p x]) else JArray xs)"
| "put_path (JObject ps) (i # p) x =
     (if i < length ps then JObject (ps[i := (fst (ps ! i), put_path (snd (ps ! i)) p x)]) else JObject ps)"
| "put_path v (_ # _) x = v"

definition child :: "nat \<Rightarrow> (clippable \<times> path) list \<Rightarrow> (clippable \<times> path) list" where
  "child i = map (\<lambda>(k, p). (k, i # p))"

text \<open>Below a tool result, its content and its result are output; everything below that is.\<close>

fun output_fields :: "json \<Rightarrow> (clippable \<times> path) list"
  and output_items :: "nat \<Rightarrow> json list \<Rightarrow> (clippable \<times> path) list"
  and output_pairs :: "nat \<Rightarrow> (string \<times> json) list \<Rightarrow> (clippable \<times> path) list" where
  "output_fields (JString s) = [(ClipOutput, [])]"
| "output_fields (JArray xs) = output_items 0 xs"
| "output_fields (JObject ps) = output_pairs 0 ps"
| "output_fields _ = []"
| "output_items i [] = []"
| "output_items i (x # xs) = child i (output_fields x) @ output_items (i + 1) xs"
| "output_pairs i [] = []"
| "output_pairs i ((_, x) # ps) = child i (output_fields x) @ output_pairs (i + 1) ps"

definition result_field :: "string \<Rightarrow> bool" where
  "result_field key \<longleftrightarrow> key \<in> {''content'', ''tool_use_result''}"

fun result_children :: "nat \<Rightarrow> (string \<times> json) list \<Rightarrow> (clippable \<times> path) list" where
  "result_children i [] = []"
| "result_children i ((key, x) # ps) =
     (if result_field key then child i (output_fields x) else []) @ result_children (i + 1) ps"

fun result_fields :: "json \<Rightarrow> (clippable \<times> path) list" where
  "result_fields (JObject ps) = result_children 0 ps"
| "result_fields _ = []"

definition text_key :: "string \<Rightarrow> bool" where
  "text_key key \<longleftrightarrow> key \<in> {''Text'', ''Thinking'', ''Plain'', ''prompt''}"

definition result_key :: "string \<Rightarrow> bool" where
  "result_key key \<longleftrightarrow> key \<in> {''ToolResult'', ''result''}"

definition skipped_key :: "string \<Rightarrow> bool" where
  "skipped_key key \<longleftrightarrow> key \<in> {''ToolUse'', ''call'', ''ref'', ''edits'', ''meta''}"

fun clippable_fields :: "json \<Rightarrow> (clippable \<times> path) list"
  and clippable_items :: "nat \<Rightarrow> json list \<Rightarrow> (clippable \<times> path) list"
  and clippable_pairs :: "nat \<Rightarrow> (string \<times> json) list \<Rightarrow> (clippable \<times> path) list" where
  "clippable_fields (JArray xs) = clippable_items 0 xs"
| "clippable_fields (JObject ps) = clippable_pairs 0 ps"
| "clippable_fields _ = []"
| "clippable_items i [] = []"
| "clippable_items i (x # xs) = child i (clippable_fields x) @ clippable_items (i + 1) xs"
| "clippable_pairs i [] = []"
| "clippable_pairs i ((key, x) # ps) =
     (if result_key key then child i (result_fields x)
      else if text_key key \<and> as_str x \<noteq> None then [(ClipText, [i])]
      else if skipped_key key then []
      else child i (clippable_fields x)) @ clippable_pairs (i + 1) ps"

definition clip_marker :: "nat \<Rightarrow> string" where
  "clip_marker n = ''<clipped from '' @ dec_digits n @ '' bytes>''"

text \<open>The greatest character boundary at or below a position.\<close>

fun char_floor :: "string \<Rightarrow> nat \<Rightarrow> nat" where
  "char_floor s 0 = 0"
| "char_floor s (Suc n) = (if length s \<le> Suc n \<or> \<not> is_continuation (s ! Suc n) then min (Suc n) (length s) else char_floor s n)"

definition clip_text :: "string \<Rightarrow> nat \<Rightarrow> string" where
  "clip_text s over = (let marker = clip_marker (length s)
     in take (char_floor s (length s - (over + length marker))) s @ marker)"

definition field_len :: "json \<Rightarrow> path \<Rightarrow> nat" where
  "field_len v p = opt_default 0 (map_option length (Option.bind (at_path v p) as_str))"

definition clippable_rank :: "clippable \<Rightarrow> nat" where
  "clippable_rank k = (case k of ClipOutput \<Rightarrow> 0 | ClipText \<Rightarrow> 1)"

text \<open>The bulky fields: outputs first, then texts, each from the longest.\<close>

definition bulky_fields :: "json \<Rightarrow> path list" where
  "bulky_fields v =
     map snd (stable_sort (then_by (by_key (\<lambda>(k, p). clippable_rank k)) (by_key_desc (\<lambda>(k, p). field_len v p)))
       (filter (\<lambda>(k, p). BULKY_FIELD_BYTES \<le> field_len v p) (clippable_fields v)))"

text \<open>The sizes are kept up to date by the difference the field makes. \<^const>\<open>None\<close> stands for a
  failed \<open>expect\<close> or an underflow.\<close>

fun clip_fields :: "(jnumber \<Rightarrow> string) \<Rightarrow> sizes \<Rightarrow> path list \<Rightarrow> json \<Rightarrow> sizes \<Rightarrow> (json \<times> sizes) option" where
  "clip_fields num fit [] v sz = Some (v, sz)"
| "clip_fields num fit (p # ps) v sz =
     (if excess sz fit = 0 then Some (v, sz)
      else Option.bind (at_path v p) (\<lambda>field. Option.bind (as_str field) (\<lambda>s.
        let new = JString (clip_text s (excess sz fit));
            before = sizes_of num field;
            after = sizes_of num new
        in if sz_raw sz + sz_raw after < sz_raw before \<or> sz_quoted sz + sz_quoted after < sz_quoted before then None
           else clip_fields num fit ps (put_path v p new)
             \<lparr>sz_raw = sz_raw sz + sz_raw after - sz_raw before,
              sz_quoted = sz_quoted sz + sz_quoted after - sz_quoted before\<rparr>)))"

definition clipped :: "(jnumber \<Rightarrow> string) \<Rightarrow> json \<Rightarrow> sizes \<Rightarrow> json option option" where
  "clipped num v fit =
     Option.bind (clip_fields num fit (bulky_fields v) v (sizes_of num v)) (\<lambda>(v, sz).
       Some (if excess sz fit = 0 then Some v else None))"

text \<open>The outer \<^const>\<open>None\<close> is the panic. A record is given by its JSON value, which is what
  \<open>to_value\<close> makes of it.\<close>

definition encode_clipped ::
  "(jnumber \<Rightarrow> string) \<Rightarrow> json \<Rightarrow> nat \<Rightarrow> nat \<Rightarrow> (snapshot_error + string) option" where
  "encode_clipped num v max_bytes page_bytes =
     (let encoded = encode_record [json_text num v] max_bytes;
          pageable = (case encoded of
            Inr text \<Rightarrow> length text * MAX_ESCAPED_BYTES_PER_BYTE + 2 < page_bytes \<or> quoted_len text < page_bytes
          | Inl _ \<Rightarrow> max_bytes < page_bytes \<and> (\<exists>n. encoded_size [json_text num v] page_bytes = Inr n))
      in if pageable then Some encoded
         else map_option (\<lambda>r. case r of
             Some v \<Rightarrow> encode_record [json_text num v] max_bytes
           | None \<Rightarrow> encoded)
           (clipped num v \<lparr>sz_raw = min MAX_RECORD_BYTES max_bytes, sz_quoted = page_bytes - 1\<rparr>))"

subsection \<open>Pages\<close>

definition page_error :: "string \<Rightarrow> snapshot_error" where
  "page_error = snapshot_error OutputLimit"

fun check_records :: "nat \<Rightarrow> nat \<Rightarrow> nat \<Rightarrow> string list \<Rightarrow> snapshot_error + unit" where
  "check_records all page remaining [] = Inr ()"
| "check_records all page remaining (r # rs) =
     (if MAX_RECORD_BYTES < length r then
        Inl (page_error (''snapshot record needs '' @ dec_digits (length r) @ '' bytes, over the '' @
          dec_digits MAX_RECORD_BYTES @ ''-byte record bound''))
      else if remaining < length r then
        Inl (page_error (''snapshot page needs '' @ dec_digits all @ '' bytes, over the '' @
          dec_digits page @ ''-byte page bound''))
      else check_records all page (remaining - length r) rs)"

definition check_page :: "string list \<Rightarrow> nat \<Rightarrow> snapshot_error + unit" where
  "check_page records max_bytes =
     (if MAX_RECORDS < length records then
        Inl (page_error (''snapshot page of '' @ dec_digits (length records) @ '' records exceeds the '' @
          dec_digits MAX_RECORDS @ ''-record page bound''))
      else let page = min max_bytes MAX_PAGE_BYTES
        in check_records (sum_list (map length records)) page page records)"

subsection \<open>Predicate inputs\<close>

definition PREDICATE_INPUT_CHUNK_BYTES :: nat where
  "PREDICATE_INPUT_CHUNK_BYTES = 256 * 1024"

definition quoted :: "string \<Rightarrow> string" where
  "quoted s = [byte 34] @ s @ [byte 34]"

definition PREDICATE_INPUT_RECORD_PIECES :: "string list" where
  "PREDICATE_INPUT_RECORD_PIECES =
     [''{'' @ quoted ''calls'' @ '':['', ''],'' @ quoted ''commands'' @ '':['', ''],'' @ quoted ''edited_files'' @ '':['',
      ''],'' @ quoted ''skills'' @ '':['', '']}'']"

record predicate_input_bound =
  pi_records :: nat
  pi_bytes :: nat

definition predicate_input_record_framing :: nat where
  "predicate_input_record_framing = sum_list (map length PREDICATE_INPUT_RECORD_PIECES)"

text \<open>\<open>size_of::<String>()\<close> is 24.\<close>

definition predicate_input_records_bound :: "(jnumber \<Rightarrow> string) \<Rightarrow> json \<Rightarrow> predicate_input_bound" where
  "predicate_input_records_bound num inputs =
     (let encoded = length (json_text num inputs);
          escaped_item_costs = 4 * encoded;
          records = 2 * escaped_item_costs div PREDICATE_INPUT_CHUNK_BYTES + 2
      in \<lparr>pi_records = records, pi_bytes = records * (24 + predicate_input_record_framing) + encoded\<rparr>)"

type_synonym input_fields = "string list list"

definition predicate_input_record :: "input_fields \<Rightarrow> string" where
  "predicate_input_record slots =
     concat (map2 (\<lambda>piece items. piece @ join '','' items) (take 4 PREDICATE_INPUT_RECORD_PIECES) slots) @
     PREDICATE_INPUT_RECORD_PIECES ! 4"

definition no_fields :: input_fields where
  "no_fields = [[], [], [], []]"

record chunking =
  ck_records :: "string list"
  ck_fields :: input_fields
  ck_bytes :: nat

definition push_item :: "nat \<Rightarrow> string \<Rightarrow> nat \<Rightarrow> chunking \<Rightarrow> chunking" where
  "push_item slot item cost c =
     (let c = (if 0 < ck_bytes c \<and> PREDICATE_INPUT_CHUNK_BYTES < ck_bytes c + cost
        then \<lparr>ck_records = ck_records c @ [predicate_input_record (ck_fields c)], ck_fields = no_fields, ck_bytes = 0\<rparr>
        else c)
      in c\<lparr>ck_bytes := ck_bytes c + cost, ck_fields := (ck_fields c)[slot := ck_fields c ! slot @ [item]]\<rparr>)"

fun push_items :: "nat \<Rightarrow> string list \<Rightarrow> chunking \<Rightarrow> snapshot_error + chunking" where
  "push_items slot [] c = Inr c"
| "push_items slot (text # rest) c =
     res_bind (encode_record [text] MAX_RECORD_BYTES) (\<lambda>item.
     res_bind (encoded_size [encode_string item] MAX_RECORD_BYTES) (\<lambda>n.
       push_items slot rest (push_item slot item (n + 1) c)))"

definition input_items :: "(jnumber \<Rightarrow> string) \<Rightarrow> json \<Rightarrow> string \<Rightarrow> string list option" where
  "input_items num inputs name = map_option (map (json_text num)) (Option.bind (field inputs name) as_array)"

fun push_slots :: "(jnumber \<Rightarrow> string) \<Rightarrow> json \<Rightarrow> (nat \<times> string) list \<Rightarrow> chunking \<Rightarrow> (snapshot_error + chunking) option" where
  "push_slots num inputs [] c = Some (Inr c)"
| "push_slots num inputs ((slot, name) # rest) c =
     Option.bind (input_items num inputs name) (\<lambda>items. case push_items slot items c of
         Inl e \<Rightarrow> Some (Inl e)
       | Inr c \<Rightarrow> push_slots num inputs rest c)"

text \<open>\<^const>\<open>None\<close>: a field that is not an array, or more records than were allowed for, which the
  last assertion refuses.\<close>

definition predicate_input_records ::
  "(jnumber \<Rightarrow> string) \<Rightarrow> json \<Rightarrow> predicate_input_bound \<Rightarrow> (snapshot_error + string list) option" where
  "predicate_input_records num inputs bnd =
     Option.bind (push_slots num inputs (enumerate 0 [''calls'', ''commands'', ''edited_files'', ''skills''])
         \<lparr>ck_records = [], ck_fields = no_fields, ck_bytes = 0\<rparr>)
       (\<lambda>r. case r of
           Inl e \<Rightarrow> Some (Inl e)
         | Inr c \<Rightarrow> (let records = ck_records c @ [predicate_input_record (ck_fields c)]
             in if pi_records bnd < length records then None else Some (Inr records)))"

end
