(* ===== verification/CodecFacts.thy ===== *)
theory CodecFacts
  imports Codec
begin

text \<open>
  What a value's text is made of: no control characters, and room for a field between two fixed
  parts, so that the sizes of a record change by the difference of the field that is clipped.
\<close>

subsection \<open>Quoting\<close>

definition esc_len :: "string \<Rightarrow> nat" where
  "esc_len s = length (encode_string_contents s)"

lemma quoted_len_esc: "quoted_len s = esc_len s + 2"
  by (simp add: quoted_len_def encode_string_def esc_len_def)

lemma esc_len_append: "starts_char t \<Longrightarrow> esc_len (s @ t) = esc_len s + esc_len t"
  by (simp add: esc_len_def encode_string_contents_def chars_append)

definition printable :: "string \<Rightarrow> bool" where
  "printable s \<longleftrightarrow> list_all (\<lambda>c. (32 :: nat) \<le> of_char c) s"

lemma printable_append [simp]: "printable (s @ t) \<longleftrightarrow> printable s \<and> printable t"
  by (simp add: printable_def)

lemma printable_Cons [simp]: "printable (c # s) \<longleftrightarrow> (32 :: nat) \<le> of_char c \<and> printable s"
  by (simp add: printable_def)

lemma printable_Nil [simp]: "printable []"
  by (simp add: printable_def)

lemma printable_concat: "printable (concat ss) \<longleftrightarrow> (\<forall>s\<in>set ss. printable s)"
  by (induction ss) auto

lemma esc_char_twice:
  assumes "printable ch"
  shows "length (esc_char ch) \<le> 2 * length ch"
proof (cases ch)
  case (Cons c cs)
  then show ?thesis using assms
    by (cases cs) (auto simp: esc_char_def split: option.splits)
qed (simp add: esc_char_def)

lemma length_concat_map_le:
  "\<forall>x\<in>set xs. length (f x) \<le> k * length x \<Longrightarrow> length (concat (map f xs)) \<le> k * length (concat xs)"
  by (induction xs) (auto simp: distrib_left)

lemma esc_len_twice:
  assumes "printable s"
  shows "esc_len s \<le> 2 * length s"
proof -
  have "\<forall>ch\<in>set (chars s). printable ch" using assms printable_concat [of "chars s"] by simp
  then have "length (concat (map esc_char (chars s))) \<le> 2 * length (concat (chars s))"
    using esc_char_twice by (intro length_concat_map_le) blast
  then show ?thesis by (simp add: esc_len_def encode_string_contents_def)
qed

subsection \<open>Values without control characters\<close>

text \<open>Strings are UTF-8; the text of a number is digits, signs, a point and an exponent mark.\<close>

fun json_utf8 :: "json \<Rightarrow> bool" where
  "json_utf8 (JString s) = utf8_ok s"
| "json_utf8 (JArray xs) = (\<forall>x\<in>set xs. json_utf8 x)"
| "json_utf8 (JObject ps) = (\<forall>p\<in>set ps. utf8_ok (fst p) \<and> json_utf8 (snd p))"
| "json_utf8 _ = True"

definition plain_numbers :: "(jnumber \<Rightarrow> string) \<Rightarrow> bool" where
  "plain_numbers num \<longleftrightarrow> (\<forall>n. num n \<noteq> [] \<and> set (num n) \<subseteq> set ''+-.0123456789eE'')"

lemma plain_char:
  assumes "c \<in> set ''+-.0123456789eE''"
  shows "(32 :: nat) \<le> of_char c" "\<not> is_continuation c" "esc_byte c = [c]" "(of_char c :: nat) < 128"
  using assms by (auto simp: is_continuation_def esc_byte_def esc_char_def short_escape_def byte_unfold)

lemma plain_number:
  assumes "plain_numbers num"
  shows "num n \<noteq> []" "printable (num n)" "starts_char (num n)" "esc_len (num n) = length (num n)"
proof -
  have c: "set (num n) \<subseteq> set ''+-.0123456789eE''" and ne: "num n \<noteq> []"
    using assms by (simp_all add: plain_numbers_def)
  show "num n \<noteq> []" by (rule ne)
  show "printable (num n)" unfolding printable_def list_all_iff using c plain_char(1) by blast
  show "starts_char (num n)" using c ne plain_char(2) by (cases "num n") (auto simp: starts_char_def)
  have "chars s = map (\<lambda>c. [c]) s" if "set s \<subseteq> set ''+-.0123456789eE''" for s
    using that
  proof (induction s)
    case (Cons a s)
    then have "takeWhile is_continuation s = []" "dropWhile is_continuation s = s"
      using plain_char(2) by (cases s; auto)+
    then show ?case using Cons by (simp only: chars.simps) auto
  qed simp
  then have "encode_string_contents (num n) = concat (map esc_byte (num n))"
    using c by (simp add: encode_string_contents_def esc_byte_def [abs_def] comp_def)
  also have "map esc_byte (num n) = map (\<lambda>c. [c]) (num n)" using c plain_char(3) by auto
  finally show "esc_len (num n) = length (num n)" by (simp add: esc_len_def)
qed

lemma hex_digit_printable: "n < 16 \<Longrightarrow> (32 :: nat) \<le> of_char (hex_digit n)"
  by (simp add: hex_digit_def)

lemma esc_byte_printable: "printable (esc_byte c)"
proof (cases "short_escape c")
  case (Some e)
  then have "(32 :: nat) \<le> of_char e" by (auto simp: short_escape_def split: if_splits)
  then show ?thesis using Some by (simp add: esc_byte_def esc_char_def)
next
  case None
  show ?thesis
  proof (cases "(of_char c :: nat) < 32")
    case True
    have "of_char c div 16 < (16 :: nat)" using of_char_lt [of c] by (simp add: less_mult_imp_div_less)
    then show ?thesis using None True hex_digit_printable by (simp add: esc_byte_def esc_char_def hex4_def)
  next
    case False
    then show ?thesis using None by (simp add: esc_byte_def esc_char_def)
  qed
qed

lemma encode_string_printable: "utf8_ok s \<Longrightarrow> printable (encode_string s)"
  by (simp add: encode_string_def encode_contents_bytes printable_concat esc_byte_printable)

lemma printable_ascii: "printable ''null''" "printable ''true''" "printable ''false''" "printable ''[''"
  by simp_all

lemma json_text_printable:
  "plain_numbers num \<Longrightarrow> json_utf8 v \<Longrightarrow> printable (json_text num v)"
  "plain_numbers num \<Longrightarrow> \<forall>x\<in>set xs. json_utf8 x \<Longrightarrow> printable (items_text num xs)"
  "plain_numbers num \<Longrightarrow> \<forall>p\<in>set ps. utf8_ok (fst p) \<and> json_utf8 (snd p) \<Longrightarrow> printable (pairs_text num ps)"
  by (induction num v and num xs and num ps rule: json_text_items_text_pairs_text.induct)
    (auto simp: plain_number encode_string_printable)

lemma json_text_ne: "plain_numbers num \<Longrightarrow> json_text num v \<noteq> []"
  by (cases v) (auto simp: plain_number encode_string_def)

lemma starts_ascii: "(of_char c :: nat) < 128 \<Longrightarrow> starts_char (c # s)"
  by (simp add: starts_char_def is_continuation_def)

lemma json_text_starts: "plain_numbers num \<Longrightarrow> starts_char (json_text num v)"
  by (cases v) (simp_all add: plain_number encode_string_def starts_ascii)

text \<open>The cost of an item of the predicate inputs.\<close>

lemma item_cost:
  assumes "plain_numbers num" "json_utf8 v"
  shows "quoted_len (json_text num v) + 1 \<le> 4 * length (json_text num v)"
proof -
  let ?t = "json_text num v"
  have p: "printable ?t" "?t \<noteq> []" using json_text_printable(1) json_text_ne assms by auto
  show ?thesis
  proof (cases "length ?t = 1")
    case True
    have "\<exists>n. v = JNumber n" using True by (cases v) (auto simp: encode_string_def split: if_splits)
    then show ?thesis using plain_number(4) [OF assms(1)] True by (auto simp: quoted_len_esc)
  next
    case False
    then have "2 \<le> length ?t" using p(2) by (cases ?t) (auto simp: Suc_le_eq)
    then show ?thesis using esc_len_twice [OF p(1)] by (simp add: quoted_len_esc)
  qed
qed

subsection \<open>A field in its record\<close>

lemma starts_char_append [intro]: "starts_char s \<Longrightarrow> starts_char t \<Longrightarrow> starts_char (s @ t)"
  by (cases s) (auto simp: starts_char_def)

lemma items_context:
  "i < length xs \<Longrightarrow> \<exists>a b. starts_char b \<and> (\<forall>y. items_text num (xs[i := y]) = a @ json_text num y @ b)"
proof (induction xs arbitrary: i)
  case (Cons x xs)
  show ?case
  proof (cases i)
    case 0
    have "\<forall>y. items_text num ((x # xs)[i := y]) = [] @ json_text num y @ (if xs = [] then [] else '','' @ items_text num xs)"
      using 0 by simp
    moreover have "starts_char (if xs = [] then [] else '','' @ items_text num xs)"
      by (simp add: starts_char_def is_continuation_def)
    ultimately show ?thesis by blast
  next
    case (Suc k)
    then obtain a b where "starts_char b" "\<forall>y. items_text num (xs[k := y]) = a @ json_text num y @ b"
      using Cons.IH [of k] Cons.prems Suc by auto
    moreover have "xs \<noteq> []" using Suc Cons.prems by auto
    ultimately have "\<forall>y. items_text num ((x # xs)[i := y]) = (json_text num x @ '','' @ a) @ json_text num y @ b"
      using Suc by simp
    then show ?thesis using \<open>starts_char b\<close> by blast
  qed
qed simp

lemma pairs_context:
  "i < length ps \<Longrightarrow> \<exists>a b. starts_char b \<and> (\<forall>y. pairs_text num (ps[i := (fst (ps ! i), y)]) = a @ json_text num y @ b)"
proof (induction ps arbitrary: i)
  case (Cons q ps)
  obtain k x where q: "q = (k, x)" by force
  show ?case
  proof (cases i)
    case 0
    have "\<forall>y. pairs_text num ((q # ps)[i := (fst ((q # ps) ! i), y)]) =
        (encode_string k @ '':'') @ json_text num y @ (if ps = [] then [] else '','' @ pairs_text num ps)"
      using 0 q by simp
    moreover have "starts_char (if ps = [] then [] else '','' @ pairs_text num ps)"
      by (simp add: starts_char_def is_continuation_def)
    ultimately show ?thesis by blast
  next
    case (Suc m)
    then obtain a b where "starts_char b" "\<forall>y. pairs_text num (ps[m := (fst (ps ! m), y)]) = a @ json_text num y @ b"
      using Cons.IH [of m] Cons.prems Suc by auto
    moreover have "ps \<noteq> []" using Suc Cons.prems by auto
    ultimately have "\<forall>y. pairs_text num ((q # ps)[i := (fst ((q # ps) ! i), y)]) =
        (encode_string k @ '':'' @ json_text num x @ '','' @ a) @ json_text num y @ b"
      using Suc q by simp
    then show ?thesis using \<open>starts_char b\<close> by blast
  qed
qed simp

lemma put_path_same: "at_path v p = Some y \<Longrightarrow> put_path v p y = v"
  by (induction v p arbitrary: y rule: at_path.induct) (auto split: if_splits)

lemma path_context:
  "at_path v p = Some y \<Longrightarrow> \<exists>a b. starts_char b \<and> (\<forall>x. json_text num (put_path v p x) = a @ json_text num x @ b)"
proof (induction v p arbitrary: y rule: at_path.induct)
  case (1 v)
  have "\<forall>x. json_text num (put_path v [] x) = [] @ json_text num x @ []" by simp
  then show ?case by (metis list.simps(4) starts_char_def)
next
  case (2 xs i p)
  then have i: "i < length xs" and p: "at_path (xs ! i) p = Some y" by (auto split: if_splits)
  obtain a b where ab: "starts_char b" "\<forall>x. json_text num (put_path (xs ! i) p x) = a @ json_text num x @ b"
    using "2.IH" [OF i p] by blast
  obtain c d where cd: "starts_char d" "\<forall>y. items_text num (xs[i := y]) = c @ json_text num y @ d"
    using items_context [OF i] by blast
  have "\<forall>x. json_text num (put_path (JArray xs) (i # p) x) = (''['' @ c @ a) @ json_text num x @ (b @ d @ '']'')"
    using ab(2) cd(2) i by simp
  moreover have "starts_char (b @ d @ '']'')" using ab(1) cd(1) by (intro starts_char_append starts_ascii) simp_all
  ultimately show ?case by blast
next
  case (3 ps i p)
  then have i: "i < length ps" and p: "at_path (snd (ps ! i)) p = Some y" by (auto split: if_splits)
  obtain a b where ab: "starts_char b" "\<forall>x. json_text num (put_path (snd (ps ! i)) p x) = a @ json_text num x @ b"
    using "3.IH" [OF i p] by blast
  obtain c d where cd: "starts_char d" "\<forall>y. pairs_text num (ps[i := (fst (ps ! i), y)]) = c @ json_text num y @ d"
    using pairs_context [OF i] by blast
  have "\<forall>x. json_text num (put_path (JObject ps) (i # p) x) = (''{'' @ c @ a) @ json_text num x @ (b @ d @ ''}'')"
    using ab(2) cd(2) i by simp
  moreover have "starts_char (b @ d @ ''}'')" using ab(1) cd(1) by (intro starts_char_append starts_ascii) simp_all
  ultimately show ?case by blast
qed simp_all

lemma sizes_context:
  assumes "plain_numbers num" "at_path v p = Some y"
  shows "\<exists>m n. \<forall>x. sizes_of num (put_path v p x) =
    \<lparr>sz_raw = m + length (json_text num x), sz_quoted = n + esc_len (json_text num x)\<rparr>"
proof -
  obtain a b where ab: "starts_char b" "\<forall>x. json_text num (put_path v p x) = a @ json_text num x @ b"
    using path_context [OF assms(2)] by blast
  have "sizes_of num (put_path v p x) = \<lparr>sz_raw = (length a + length b) + length (json_text num x),
      sz_quoted = (esc_len a + esc_len b + 2) + esc_len (json_text num x)\<rparr>" for x
  proof -
    have "starts_char (json_text num x @ b)" using json_text_starts [OF assms(1)] ab(1) by blast
    then have "esc_len (a @ json_text num x @ b) = esc_len a + (esc_len (json_text num x) + esc_len b)"
      using ab(1) by (simp only: esc_len_append)
    then show ?thesis using ab(2) by (simp add: sizes_of_def Let_def quoted_len_esc)
  qed
  then show ?thesis by blast
qed

text \<open>Replacing a field changes the sizes of its record by what the field changes.\<close>

lemma sizes_put:
  assumes "plain_numbers num" "at_path v p = Some y"
  shows "sz_raw (sizes_of num (put_path v p x)) + sz_raw (sizes_of num y) =
      sz_raw (sizes_of num v) + sz_raw (sizes_of num x)"
    "sz_quoted (sizes_of num (put_path v p x)) + sz_quoted (sizes_of num y) =
      sz_quoted (sizes_of num v) + sz_quoted (sizes_of num x)"
    "sz_raw (sizes_of num y) \<le> sz_raw (sizes_of num v) + sz_raw (sizes_of num x)"
    "sz_quoted (sizes_of num y) \<le> sz_quoted (sizes_of num v) + sz_quoted (sizes_of num x)"
proof -
  obtain m n where c: "\<forall>x. sizes_of num (put_path v p x) =
      \<lparr>sz_raw = m + length (json_text num x), sz_quoted = n + esc_len (json_text num x)\<rparr>"
    using sizes_context [OF assms] by blast
  have v: "sizes_of num v = \<lparr>sz_raw = m + length (json_text num y), sz_quoted = n + esc_len (json_text num y)\<rparr>"
    using c put_path_same [OF assms(2)] by metis
  show "sz_raw (sizes_of num (put_path v p x)) + sz_raw (sizes_of num y) =
      sz_raw (sizes_of num v) + sz_raw (sizes_of num x)"
    "sz_quoted (sizes_of num (put_path v p x)) + sz_quoted (sizes_of num y) =
      sz_quoted (sizes_of num v) + sz_quoted (sizes_of num x)"
    "sz_raw (sizes_of num y) \<le> sz_raw (sizes_of num v) + sz_raw (sizes_of num x)"
    "sz_quoted (sizes_of num y) \<le> sz_quoted (sizes_of num v) + sz_quoted (sizes_of num x)"
    by (simp_all add: c v) (simp_all add: sizes_of_def Let_def quoted_len_esc)
qed

end
