(* ===== verification/CodecProps.thy ===== *)
theory CodecProps
  imports CodecFacts
begin

text \<open>
  Clipping keeps its running sizes exact, its result within the page and all but the bulky
  strings as they were; the records of predicate
  inputs hold every item once, in order, within the number and the bytes allowed for.
\<close>

subsection \<open>Clipping\<close>

text \<open>What clipping may change, by the structure of a record: outside a tool result the strings
  under the text keys, in a tool result those below its content and its result, in neither case
  what stands under a skipped key; and of a string, only one that is bulky, to a text cut at a
  character boundary with the marker of its length.\<close>

datatype place = InRecord | InOutput | InResult | Untouched

fun place_below :: "place \<Rightarrow> string \<Rightarrow> json \<Rightarrow> place" where
  "place_below InRecord k x =
     (if k = ''ToolResult'' \<or> k = ''result'' then InResult
      else if k \<in> {''Text'', ''Thinking'', ''Plain'', ''prompt''} \<and> (\<exists>s. x = JString s) then InOutput
      else if k \<in> {''ToolUse'', ''call'', ''ref'', ''edits'', ''meta''} then Untouched
      else InRecord)"
| "place_below InOutput k x = InOutput"
| "place_below InResult k x = (if k = ''content'' \<or> k = ''tool_use_result'' then InOutput else Untouched)"
| "place_below Untouched k x = Untouched"

definition cut_text :: "string \<Rightarrow> string \<Rightarrow> bool" where
  "cut_text s s' \<longleftrightarrow> BULKY_FIELD_BYTES \<le> length s \<and>
     (\<exists>a b. s = a @ b \<and> (a = [] \<or> starts_char b) \<and> s' = a @ clip_marker (length s))"

inductive clip_of :: "place \<Rightarrow> json \<Rightarrow> json \<Rightarrow> bool" where
  clip_same: "clip_of m v v"
| clip_string: "cut_text s s' \<Longrightarrow> clip_of InOutput (JString s) (JString s')"
| clip_items: "\<lbrakk>m = InRecord \<or> m = InOutput; list_all2 (clip_of m) xs ys\<rbrakk> \<Longrightarrow> clip_of m (JArray xs) (JArray ys)"
| clip_pairs: "list_all2 (\<lambda>p q. fst q = fst p \<and> clip_of (place_below m (fst p) (snd p)) (snd p) (snd q)) ps qs \<Longrightarrow>
    clip_of m (JObject ps) (JObject qs)"

inductive_cases clip_arrayE: "clip_of m (JArray xs) v"
inductive_cases clip_objectE: "clip_of m (JObject ps) v"

text \<open>A path to a string that may be clipped.\<close>

fun clip_path :: "place \<Rightarrow> json \<Rightarrow> path \<Rightarrow> bool" where
  "clip_path m (JString s) [] = (m = InOutput)"
| "clip_path m (JArray xs) (i # p) = ((m = InRecord \<or> m = InOutput) \<and> i < length xs \<and> clip_path m (xs ! i) p)"
| "clip_path m (JObject ps) (i # p) =
     (i < length ps \<and> clip_path (place_below m (fst (ps ! i)) (snd (ps ! i))) (snd (ps ! i)) p)"
| "clip_path m _ _ = False"

lemma clip_put:
  assumes "clip_of m v0 v" "clip_path m v0 p" "at_path v0 p = Some (JString s)" "at_path v p = Some (JString s)"
    "cut_text s s'"
  shows "clip_of m v0 (put_path v p (JString s'))"
  using assms
proof (induction m v0 p arbitrary: v rule: clip_path.induct)
  case (1 m s0)
  then show ?case by (auto intro: clip_string)
next
  case (2 m xs i p)
  have m: "m = InRecord \<or> m = InOutput" and i: "i < length xs" using 2 by simp_all
  have "\<exists>ys. v = JArray ys \<and> list_all2 (clip_of m) xs ys"
    using 2(2) by (rule clip_arrayE) (auto intro!: list_all2_refl clip_same)
  then obtain ys where ys: "v = JArray ys" "list_all2 (clip_of m) xs ys" by blast
  have l: "length ys = length xs" using list_all2_lengthD [OF ys(2)] by simp
  have "clip_of m (xs ! i) (put_path (ys ! i) p (JString s'))"
    using "2.IH" [OF list_all2_nthD [OF ys(2) i]] "2.prems" i ys l by simp
  then have "list_all2 (clip_of m) xs (ys[i := put_path (ys ! i) p (JString s')])"
    using ys(2) i l by (auto simp: list_all2_conv_all_nth nth_list_update)
  then show ?case using ys(1) i l m clip_items by simp
next
  case (3 m ps i p)
  have i: "i < length ps" using 3(3) by simp
  let ?r = "\<lambda>p q. fst q = fst p \<and> clip_of (place_below m (fst p) (snd p)) (snd p) (snd q)"
  have "\<exists>qs. v = JObject qs \<and> list_all2 ?r ps qs"
    using 3(2) by (rule clip_objectE) (auto intro!: list_all2_refl clip_same)
  then obtain qs where qs: "v = JObject qs" "list_all2 ?r ps qs" by blast
  have l: "length qs = length ps" using list_all2_lengthD [OF qs(2)] by simp
  have "clip_of (place_below m (fst (ps ! i)) (snd (ps ! i))) (snd (ps ! i)) (put_path (snd (qs ! i)) p (JString s'))"
    using "3.IH" [OF conjunct2 [OF list_all2_nthD [OF qs(2) i]]] "3.prems" i qs l by simp
  then have "list_all2 ?r ps (qs[i := (fst (qs ! i), put_path (snd (qs ! i)) p (JString s'))])"
    using qs(2) i l by (auto simp: list_all2_conv_all_nth nth_list_update)
  then show ?case using qs(1) i l clip_pairs by simp
qed simp_all

text \<open>The bulky fields are such paths, each once.\<close>

definition paths_ok :: "(path \<Rightarrow> bool) \<Rightarrow> (clippable \<times> path) list \<Rightarrow> bool" where
  "paths_ok R fs \<longleftrightarrow> distinct (map snd fs) \<and> (\<forall>p\<in>set (map snd fs). R p)"

definition items_ok :: "nat \<Rightarrow> nat \<Rightarrow> (nat \<Rightarrow> path \<Rightarrow> bool) \<Rightarrow> (clippable \<times> path) list \<Rightarrow> bool" where
  "items_ok i n R fs \<longleftrightarrow> distinct (map snd fs) \<and>
     (\<forall>p\<in>set (map snd fs). \<exists>j q. p = (i + j) # q \<and> j < n \<and> R j q)"

lemma items_ok_Nil [simp]: "items_ok i n R []" "paths_ok Q []"
  by (simp_all add: items_ok_def paths_ok_def)

lemma items_ok_child:
  assumes "paths_ok (R 0) fs" "items_ok (i + 1) n (\<lambda>j. R (Suc j)) gs"
  shows "items_ok i (Suc n) R (child i fs @ gs)"
proof -
  have c: "map snd (child i fs) = map ((#) i) (map snd fs)" by (simp add: child_def comp_def split_beta)
  have d: "distinct (map ((#) i) (map snd fs))" "distinct (map snd gs)"
    using assms by (simp_all add: paths_ok_def items_ok_def distinct_map inj_on_def)
  have later: "\<exists>j q. p = (i + Suc j) # q \<and> j < n \<and> R (Suc j) q" if "p \<in> set (map snd gs)" for p
    using assms(2) that by (auto simp: items_ok_def)
  have "set (map ((#) i) (map snd fs)) \<inter> set (map snd gs) = {}" using later by fastforce
  moreover have "\<exists>j q. p = (i + j) # q \<and> j < Suc n \<and> R j q" if "p \<in> set (map ((#) i) (map snd fs))" for p
    using assms(1) that by (intro exI [of _ 0]) (auto simp: paths_ok_def)
  moreover have "\<exists>j q. p = (i + j) # q \<and> j < Suc n \<and> R j q" if "p \<in> set (map snd gs)" for p
    using later [OF that] by (elim exE conjE) (rule exI [of _ "Suc _"], auto)
  ultimately show ?thesis using d unfolding items_ok_def map_append c set_append distinct_append by blast
qed

lemma paths_ok_items:
  "items_ok 0 (length xs) (\<lambda>j. clip_path m (xs ! j)) fs \<Longrightarrow> m = InRecord \<or> m = InOutput \<Longrightarrow>
     paths_ok (clip_path m (JArray xs)) fs"
  "items_ok 0 (length ps) (\<lambda>j. clip_path (place_below m (fst (ps ! j)) (snd (ps ! j))) (snd (ps ! j))) fs \<Longrightarrow>
     paths_ok (clip_path m (JObject ps)) fs"
  by (fastforce simp: items_ok_def paths_ok_def)+

lemma output_paths:
  "paths_ok (clip_path InOutput v) (output_fields v)"
  "items_ok i (length xs) (\<lambda>j. clip_path InOutput (xs ! j)) (output_items i xs)"
  "items_ok i (length ps) (\<lambda>j. clip_path InOutput (snd (ps ! j))) (output_pairs i ps)"
proof (induction v and i xs and i ps rule: output_fields_output_items_output_pairs.induct)
  case (1 s)
  then show ?case by (simp add: paths_ok_def)
next
  case (2 xs)
  then show ?case using paths_ok_items(1) by simp
next
  case (3 ps)
  then show ?case using paths_ok_items(2) [of ps InOutput] by simp
qed (simp_all add: items_ok_child)

lemma result_paths:
  "items_ok i (length ps) (\<lambda>j. clip_path (place_below InResult (fst (ps ! j)) (snd (ps ! j))) (snd (ps ! j))) (result_children i ps)"
proof (induction i ps rule: result_children.induct)
  case (2 i key x ps)
  have c: "result_children i ((key, x) # ps) = child i (if result_field key then output_fields x else []) @ result_children (i + 1) ps"
    by (simp add: child_def)
  show ?case unfolding c length_Cons
    using 2 output_paths(1) [of x] by (intro items_ok_child) (auto simp: result_field_def)
qed simp

lemma clippable_paths:
  "paths_ok (clip_path InRecord v) (clippable_fields v)"
  "items_ok i (length xs) (\<lambda>j. clip_path InRecord (xs ! j)) (clippable_items i xs)"
  "items_ok i (length ps) (\<lambda>j. clip_path (place_below InRecord (fst (ps ! j)) (snd (ps ! j))) (snd (ps ! j))) (clippable_pairs i ps)"
proof (induction v and i xs and i ps rule: clippable_fields_clippable_items_clippable_pairs.induct)
  case (1 xs)
  then show ?case using paths_ok_items(1) by simp
next
  case (2 ps)
  then show ?case using paths_ok_items(2) [of ps InRecord] by simp
next
  case (7 i key x ps)
  let ?fs = "if result_key key then result_fields x else if text_key key \<and> as_str x \<noteq> None then [(ClipText, [])]
     else if skipped_key key then [] else clippable_fields x"
  have c: "clippable_pairs i ((key, x) # ps) = child i ?fs @ clippable_pairs (i + 1) ps"
    by (cases "as_str x") (simp_all add: child_def)
  have r: "paths_ok (clip_path InResult x) (result_fields x)"
    using result_paths [of 0] paths_ok_items(2) [of _ InResult] by (cases x) simp_all
  have str: "as_str x \<noteq> None \<longleftrightarrow> (\<exists>s. x = JString s)" by (cases x) simp_all
  have below: "place_below InRecord key x = (if result_key key then InResult
      else if text_key key \<and> as_str x \<noteq> None then InOutput else if skipped_key key then Untouched else InRecord)"
    unfolding place_below.simps str by (simp add: result_key_def text_key_def skipped_key_def)
  have "paths_ok (clip_path InOutput x) [(ClipText, [])]" if "as_str x \<noteq> None"
    using that by (cases x) (simp_all add: paths_ok_def)
  then have "paths_ok (clip_path (place_below InRecord key x) x) ?fs"
    using r 7(1) unfolding below by (cases "as_str x") (simp_all split: if_split)
  then show ?case unfolding c length_Cons
    using 7(2) by (intro items_ok_child) simp_all
qed (simp_all add: items_ok_child)

lemma bulky_paths:
  assumes "p \<in> set (bulky_fields v)"
  shows "clip_path InRecord v p \<and> (\<exists>s. at_path v p = Some (JString s) \<and> BULKY_FIELD_BYTES \<le> length s)"
proof -
  have "p \<in> set (map snd (clippable_fields v))" and big: "BULKY_FIELD_BYTES \<le> field_len v p"
    using assms by (auto simp: bulky_fields_def)
  then have "clip_path InRecord v p" using clippable_paths(1) [of v] unfolding paths_ok_def by blast
  moreover have "\<exists>s. at_path v p = Some (JString s) \<and> BULKY_FIELD_BYTES \<le> length s"
  proof (cases "Option.bind (at_path v p) as_str")
    case None
    then show ?thesis using big by (simp add: field_len_def BULKY_FIELD_BYTES_def)
  next
    case (Some s)
    then obtain y where y: "at_path v p = Some y" "as_str y = Some s" by (auto simp: bind_eq_Some_conv)
    then show ?thesis using big by (cases y) (simp_all add: json_accessors field_len_def)
  qed
  ultimately show ?thesis by blast
qed

lemma bulky_distinct: "distinct (bulky_fields v)"
proof -
  have "distinct (map snd (clippable_fields v))" using clippable_paths(1) by (simp add: paths_ok_def)
  then have "distinct (map snd (filter (\<lambda>(k, p). BULKY_FIELD_BYTES \<le> field_len v p) (clippable_fields v)))"
    by (rule distinct_map_filter)
  then show ?thesis
    unfolding bulky_fields_def
    by (rule iffD1 [OF mset_eq_imp_distinct_iff, rotated]) simp
qed

lemma char_floor_cut: "char_floor s n \<le> length s \<and> (char_floor s n = 0 \<or> starts_char (drop (char_floor s n) s))"
proof (induction n)
  case (Suc n)
  show ?case
  proof (cases "length s \<le> Suc n")
    case False
    then have "drop (Suc n) s = s ! Suc n # drop (Suc (Suc n)) s" by (intro Cons_nth_drop_Suc [symmetric]) simp
    then show ?thesis using Suc False by (auto simp: starts_char_def)
  qed (simp add: starts_char_def)
qed simp

lemma clip_text_cut:
  assumes "BULKY_FIELD_BYTES \<le> length s"
  shows "cut_text s (clip_text s n)"
proof -
  let ?k = "char_floor s (length s - (n + length (clip_marker (length s))))"
  have "?k = 0 \<or> starts_char (drop ?k s)" by (rule conjunct2 [OF char_floor_cut])
  then have "take ?k s = [] \<or> starts_char (drop ?k s)" by (elim disjE) simp_all
  moreover have "s = take ?k s @ drop ?k s" by simp
  ultimately show ?thesis using assms unfolding cut_text_def clip_text_def Let_def by blast
qed

lemma at_put_other:
  assumes "at_path v p = Some (JString a)" "at_path v q = Some (JString b)" "p \<noteq> q"
  shows "at_path (put_path v p x) q = Some (JString b)"
  using assms
proof (induction v p arbitrary: q rule: at_path.induct)
  case (1 v)
  then show ?case by (cases q) auto
next
  case (2 xs i p)
  then show ?case by (cases q) (auto simp: nth_list_update split: if_splits)
next
  case (3 ps i p)
  then show ?case by (cases q) (auto simp: nth_list_update split: if_splits)
qed simp_all

text \<open>The loop keeps its sizes exact, and what it changes within the relation: the fields still to
  come are as they were.\<close>

lemma clip_fields_exact:
  assumes num: "plain_numbers num" and "clip_of InRecord v0 v" "distinct ps"
    "\<forall>p\<in>set ps. clip_path InRecord v0 p \<and> (\<exists>s. at_path v0 p = Some (JString s) \<and> at_path v p = Some (JString s) \<and>
       BULKY_FIELD_BYTES \<le> length s)"
  shows "\<exists>v'. clip_fields num fit ps v (sizes_of num v) = Some (v', sizes_of num v') \<and> clip_of InRecord v0 v'"
  using assms(2-)
proof (induction ps arbitrary: v)
  case (Cons p ps)
  obtain s where s: "clip_path InRecord v0 p" "at_path v0 p = Some (JString s)" "at_path v p = Some (JString s)"
      "BULKY_FIELD_BYTES \<le> length s"
    using Cons.prems(3) by auto
  show ?case
  proof (cases "excess (sizes_of num v) fit = 0")
    case False
    let ?new = "JString (clip_text s (excess (sizes_of num v) fit))"
    note put = sizes_put [OF num s(3), of ?new]
    have "sizes_of num (put_path v p ?new) =
        \<lparr>sz_raw = sz_raw (sizes_of num v) + sz_raw (sizes_of num ?new) - sz_raw (sizes_of num (JString s)),
         sz_quoted = sz_quoted (sizes_of num v) + sz_quoted (sizes_of num ?new) - sz_quoted (sizes_of num (JString s))\<rparr>"
      using put(1,2) by (intro sizes.equality) simp_all
    moreover have "clip_of InRecord v0 (put_path v p ?new)"
      by (rule clip_put [OF Cons.prems(1) s(1-3) clip_text_cut [OF s(4)]])
    moreover have "at_path (put_path v p ?new) q = at_path v q" if q: "q \<in> set ps" for q
    proof -
      obtain b where b: "at_path v q = Some (JString b)" using bspec [OF Cons.prems(3), of q] q by auto
      have "p \<noteq> q" using Cons.prems(2) q by auto
      from at_put_other [OF s(3) b this] b show ?thesis by simp
    qed
    ultimately show ?thesis
      using Cons.IH [of "put_path v p ?new"] Cons.prems(2,3) put(3,4) s(3) False by (simp add: Let_def)
  qed (use Cons.prems(1) in simp)
qed simp

lemma clipped_exact:
  assumes "plain_numbers num"
  obtains v' where "clipped num v fit = Some (if excess (sizes_of num v') fit = 0 then Some v' else None)"
    "clip_of InRecord v v'"
proof -
  obtain v' where "clip_fields num fit (bulky_fields v) v (sizes_of num v) = Some (v', sizes_of num v')" "clip_of InRecord v v'"
    using clip_fields_exact [OF assms clip_same bulky_distinct, where v = v and fit = fit] bulky_paths by blast
  then show ?thesis using that by (simp add: clipped_def)
qed


lemma encode_record_Inr:
  "encode_record [t] n = Inr text \<longleftrightarrow> text = t \<and> length t \<le> min n MAX_RECORD_BYTES"
  by (auto simp: encode_record_def encode_bounded_exact bound_record_def bound_limit_def)

text \<open>C30: A clipped record fits and keeps what it must. Encoding a record for a page returns, for
  every record and every bounds; a text it gives is at most the record bound and the caller's
  bound long; and it is the whole record, or a record whose quoted text is smaller than the page
  and that has the keys, the items and every value of the record but the strings of bulky fields
  (texts, and what is below the content or the result of a tool result, nothing under a skipped
  key), of which some are cut at a character boundary and end in the marker of their length.\<close>

theorem clipped_record_fits:
  assumes "plain_numbers num"
  shows "\<exists>r. encode_clipped num v max_bytes page_bytes = Some r \<and>
    (\<forall>text. r = Inr text \<longrightarrow> length text \<le> min max_bytes MAX_RECORD_BYTES \<and>
      (text = json_text num v \<or>
       (\<exists>v'. clip_of InRecord v v' \<and> text = json_text num v' \<and> quoted_len text < page_bytes)))"
proof -
  let ?fit = "\<lparr>sz_raw = min MAX_RECORD_BYTES max_bytes, sz_quoted = page_bytes - 1\<rparr>"
  obtain v' where c: "clipped num v ?fit = Some (if excess (sizes_of num v') ?fit = 0 then Some v' else None)"
    and rel: "clip_of InRecord v v'"
    using clipped_exact [OF assms] by blast
  have small: "quoted_len (json_text num v') < page_bytes" if "excess (sizes_of num v') ?fit = 0"
  proof -
    have "quoted_len (json_text num v') \<le> page_bytes - 1"
      using that by (simp add: excess_def sizes_of_def Let_def)
    moreover have "0 < quoted_len (json_text num v')" by (simp add: quoted_len_esc)
    ultimately show ?thesis by linarith
  qed
  show ?thesis
    unfolding encode_clipped_def Let_def c
    using small rel by (auto simp: encode_record_Inr)
qed

text \<open>Two plain texts of numbers, for examples.\<close>

definition sample_num :: "jnumber \<Rightarrow> string" where
  "sample_num n = opt_default ''0'' (map_option (\<lambda>u. if u = 0 then ''0'' else ''1'') (num_u64 n))"

lemma sample_num_plain: "plain_numbers sample_num"
  by (auto simp: plain_numbers_def sample_num_def opt_default_def split: option.splits)

theorem clipped_record_fits_witness:
  "\<exists>r. encode_clipped sample_num (JArray [JNull, JString ''x'']) 100 10 = Some r"
  using clipped_record_fits [OF sample_num_plain] by blast

subsection \<open>Pages\<close>

lemma check_records_exact:
  "check_records n page rem rs = Inr () \<longleftrightarrow> (\<forall>r\<in>set rs. length r \<le> MAX_RECORD_BYTES) \<and> sum_list (map length rs) \<le> rem"
  by (induction rs arbitrary: rem) auto

lemma check_page_exact:
  "check_page rs max_bytes = Inr () \<longleftrightarrow> length rs \<le> MAX_RECORDS \<and> (\<forall>r\<in>set rs. length r \<le> MAX_RECORD_BYTES) \<and>
     sum_list (map length rs) \<le> min max_bytes MAX_PAGE_BYTES"
  by (auto simp: check_page_def Let_def check_records_exact)

subsection \<open>Predicate inputs\<close>

definition item_cost_of :: "string \<Rightarrow> nat" where
  "item_cost_of text = quoted_len text + 1"

text \<open>The items pushed so far, with their fields, and the chunks already shut.\<close>

definition chunk_inv :: "(nat \<times> string) list \<Rightarrow> input_fields list \<Rightarrow> chunking \<Rightarrow> bool" where
  "chunk_inv items shut c \<longleftrightarrow> ck_records c = map predicate_input_record shut \<and>
     (\<forall>d\<in>set (shut @ [ck_fields c]). length d = 4) \<and>
     (\<forall>s<4. concat (map (\<lambda>d. d ! s) (shut @ [ck_fields c])) = map snd (filter (\<lambda>p. fst p = s) items)) \<and>
     (\<exists>f\<le>ck_bytes c. length shut * PREDICATE_INPUT_CHUNK_BYTES + 2 * ck_bytes c \<le>
        2 * sum_list (map (\<lambda>p. item_cost_of (snd p)) items) + f)"

lemma chunk_inv_new: "chunk_inv [] [] \<lparr>ck_records = [], ck_fields = no_fields, ck_bytes = 0\<rparr>"
  by (auto simp: chunk_inv_def no_fields_def less_Suc_eq eval_nat_numeral)

lemma no_fields_length [simp]: "length no_fields = 4"
  by (simp add: no_fields_def)

lemma no_fields_nth: "s < 4 \<Longrightarrow> no_fields ! s = []"
  by (auto simp: no_fields_def less_Suc_eq eval_nat_numeral)

lemma push_item_inv:
  assumes "chunk_inv items shut c" "slot < 4"
  shows "\<exists>shut'. chunk_inv (items @ [(slot, item)]) shut' (push_item slot item (item_cost_of item) c)"
proof -
  let ?cost = "item_cost_of item" and ?K = PREDICATE_INPUT_CHUNK_BYTES
  let ?S = "sum_list (map (\<lambda>p. item_cost_of (snd p)) items)"
  obtain f where f: "f \<le> ck_bytes c" "length shut * ?K + 2 * ck_bytes c \<le> 2 * ?S + f"
    using assms(1) by (auto simp: chunk_inv_def)
  have rec: "ck_records c = map predicate_input_record shut"
    and len: "\<forall>d\<in>set (shut @ [ck_fields c]). length d = 4"
    and fields: "\<forall>s<4. concat (map (\<lambda>d. d ! s) (shut @ [ck_fields c])) = map snd (filter (\<lambda>p. fst p = s) items)"
    using assms(1) by (auto simp: chunk_inv_def)
  show ?thesis
  proof (cases "0 < ck_bytes c \<and> ?K < ck_bytes c + ?cost")
    case True
    let ?shut = "shut @ [ck_fields c]"
    have "Suc (length shut) * ?K + 2 * ?cost \<le> 2 * (?S + ?cost) + ?cost" using f True by simp
    then have "\<exists>f\<le>?cost. length ?shut * ?K + 2 * ?cost \<le> 2 * (?S + ?cost) + f" by (intro exI [of _ ?cost]) simp
    moreover have "\<forall>s<4. concat (map (\<lambda>d. d ! s) (?shut @ [no_fields[slot := no_fields ! slot @ [item]]])) =
        map snd (filter (\<lambda>p. fst p = s) (items @ [(slot, item)]))"
      using fields assms(2) by (auto simp: nth_list_update no_fields_nth)
    ultimately have "chunk_inv (items @ [(slot, item)]) ?shut (push_item slot item ?cost c)"
      using rec len True by (auto simp: chunk_inv_def push_item_def Let_def)
    then show ?thesis by blast
  next
    case False
    have "f \<le> ck_bytes c + ?cost" "length shut * ?K + 2 * (ck_bytes c + ?cost) \<le> 2 * (?S + ?cost) + f"
      using f by simp_all
    moreover have "\<forall>s<4. concat (map (\<lambda>d. d ! s) (shut @ [(ck_fields c)[slot := ck_fields c ! slot @ [item]]])) =
        map snd (filter (\<lambda>p. fst p = s) (items @ [(slot, item)]))"
      using fields len assms(2) by (auto simp: nth_list_update)
    ultimately have "chunk_inv (items @ [(slot, item)]) shut (push_item slot item ?cost c)"
      using rec len False by (auto simp: chunk_inv_def push_item_def Let_def)
    then show ?thesis by blast
  qed
qed

lemma push_items_inv:
  assumes "push_items slot texts c = Inr c'" "chunk_inv items shut c" "slot < 4"
  shows "\<exists>shut'. chunk_inv (items @ map (Pair slot) texts) shut' c'"
  using assms(1,2)
proof (induction texts arbitrary: c items shut)
  case (Cons t rest)
  have push: "push_items slot rest (push_item slot t (item_cost_of t) c) = Inr c'"
    using Cons.prems(1)
    by (auto simp: res_bind_Inr_iff encode_record_Inr encoded_size_def encoded_size_bounded_def encode_bounded_exact
        item_cost_of_def quoted_len_def split: if_splits)
  obtain shut1 where "chunk_inv (items @ [(slot, t)]) shut1 (push_item slot t (item_cost_of t) c)"
    using push_item_inv [OF Cons.prems(2) assms(3)] by blast
  from Cons.IH [OF push this] show ?case by simp
qed auto

lemma push_slots_inv:
  assumes "\<forall>(slot, name)\<in>set slots. slot < 4 \<and> input_items num inputs name = Some (texts slot)"
    "chunk_inv items shut c"
  shows "\<exists>r. push_slots num inputs slots c = Some r \<and>
    (\<forall>c'. r = Inr c' \<longrightarrow> (\<exists>shut'. chunk_inv (items @ concat (map (\<lambda>(slot, name). map (Pair slot) (texts slot)) slots)) shut' c'))"
  using assms
proof (induction slots arbitrary: c items shut)
  case (Cons sn slots)
  obtain slot name where sn: "sn = (slot, name)" by force
  then have s: "slot < 4" "input_items num inputs name = Some (texts slot)" using Cons.prems(1) by auto
  show ?case
  proof (cases "push_items slot (texts slot) c")
    case (Inl e)
    then show ?thesis using sn s by simp
  next
    case (Inr c1)
    obtain shut1 where inv: "chunk_inv (items @ map (Pair slot) (texts slot)) shut1 c1"
      using push_items_inv [OF Inr Cons.prems(2) s(1)] by blast
    have "\<forall>(slot, name)\<in>set slots. slot < 4 \<and> input_items num inputs name = Some (texts slot)" using Cons.prems(1) by auto
    from Cons.IH [OF this inv] show ?thesis using sn s Inr by simp
  qed
qed auto

subsection \<open>The bytes of the records\<close>

lemma join_length_append: "length (join sep xs) + length (join sep ys) \<le> length (join sep (xs @ ys))"
proof (cases "xs = [] \<or> ys = []")
  case False
  then show ?thesis by (simp add: join_append)
qed auto

lemma join_length_concat: "sum_list (map (\<lambda>xs. length (join sep xs)) xss) \<le> length (join sep (concat xss))"
proof (induction xss)
  case (Cons xs xss)
  then show ?case using join_length_append [of sep xs "concat xss"] by simp
qed simp

lemma join_length_items: "sum_list (map length xs) \<le> length (join sep xs)"
  by (induction sep xs rule: join.induct) auto

lemma items_text_join: "items_text num xs = join '','' (map (json_text num) xs)"
proof (induction xs)
  case (Cons x xs)
  then show ?case by (cases xs) auto
qed simp

lemma pairs_text_length: "sum_list (map (\<lambda>p. length (json_text num (snd p))) ps) \<le> length (pairs_text num ps)"
  by (induction ps) auto

lemma named_fields_length:
  fixes ps :: "('a \<times> 'b) list" and g :: "'b \<Rightarrow> nat"
  assumes "distinct names" "\<forall>n\<in>set names. \<exists>x. map_of ps n = Some x"
  shows "sum_list (map (\<lambda>n. g (the (map_of ps n))) names) \<le> sum_list (map (\<lambda>p. g (snd p)) ps)"
  using assms
proof (induction ps arbitrary: names)
  case Nil
  then show ?case by (cases names) auto
next
  case (Cons p ps)
  obtain k x where p: "p = (k, x)" by force
  let ?names = "removeAll k names"
  have ih: "sum_list (map (\<lambda>n. g (the (map_of ps n))) ?names) \<le> sum_list (map (\<lambda>p. g (snd p)) ps)"
    using Cons.prems p by (intro Cons.IH) (auto simp: distinct_removeAll split: if_splits)
  let ?F = "\<lambda>n. g (the (map_of (p # ps) n))"
  have eq: "map ?F ?names = map (\<lambda>n. g (the (map_of ps n))) ?names" using p by auto
  have "sum_list (map f ns) \<le> f k + sum_list (map f (removeAll k ns))" if "distinct ns" for f :: "'a \<Rightarrow> nat" and ns
    using that by (induction ns) (auto simp: removeAll_id)
  from this [OF Cons.prems(1), of ?F]
  have "sum_list (map ?F names) \<le> g x + sum_list (map ?F ?names)" using p by simp
  then have "sum_list (map ?F names) \<le> g x + sum_list (map (\<lambda>p. g (snd p)) ps)"
    using ih unfolding eq by linarith
  then show ?case by (simp only: p list.map sum_list.Cons snd_conv)
qed

definition input_names :: "string list" where
  "input_names = [''calls'', ''commands'', ''edited_files'', ''skills'']"

lemma record_length:
  assumes "length d = 4"
  shows "length (predicate_input_record d) = predicate_input_record_framing + sum_list (map (\<lambda>items. length (join '','' items)) d)"
proof -
  obtain a b c e where "d = [a, b, c, e]" using assms by (auto simp: length_Suc_conv eval_nat_numeral)
  then show ?thesis
    by (simp add: predicate_input_record_def predicate_input_record_framing_def PREDICATE_INPUT_RECORD_PIECES_def)
qed

lemma sum_four: "length d = 4 \<Longrightarrow> sum_list (map g d) = (g (d ! 0) :: nat) + g (d ! 1) + g (d ! 2) + g (d ! 3)"
  by (auto simp: length_Suc_conv eval_nat_numeral)

lemma sum_list_four:
  fixes g :: "nat \<Rightarrow> 'a \<Rightarrow> nat"
  shows "sum_list (map (\<lambda>d. g 0 d + g 1 d + g 2 d + g 3 d) ds) =
    sum_list (map (g 0) ds) + sum_list (map (g 1) ds) + sum_list (map (g 2) ds) + sum_list (map (g 3) ds)"
  by (induction ds) auto

text \<open>Records from a list of chunks whose fields are the items, slot by slot.\<close>

lemma records_bytes:
  assumes "\<forall>d\<in>set ds. length d = 4" "\<forall>s<4. concat (map (\<lambda>d. d ! s) ds) = texts s"
  shows "sum_list (map (\<lambda>r. 24 + length r) (map predicate_input_record ds)) \<le>
    length ds * (24 + predicate_input_record_framing) + sum_list (map (\<lambda>s. length (join '','' (texts s))) [0, 1, 2, 3])"
proof -
  let ?len = "\<lambda>s d. length (join '','' (d ! s))"
  have "map (\<lambda>r. 24 + length r) (map predicate_input_record ds) =
      map (\<lambda>d. (24 + predicate_input_record_framing) + (?len 0 d + ?len 1 d + ?len 2 d + ?len 3 d)) ds"
    using assms(1) by (auto simp: record_length sum_four)
  then have "sum_list (map (\<lambda>r. 24 + length r) (map predicate_input_record ds)) =
      length ds * (24 + predicate_input_record_framing) + sum_list (map (\<lambda>d. ?len 0 d + ?len 1 d + ?len 2 d + ?len 3 d) ds)"
    by (simp only: sum_list_addf sum_list_triv) (simp add: algebra_simps)
  moreover have le: "sum_list (map (?len s) ds) \<le> length (join '','' (texts s))" if "s < 4" for s
    using join_length_concat [of "'',''" "map (\<lambda>d. d ! s) ds"] assms(2) that by (simp add: comp_def)
  moreover have "sum_list (map (\<lambda>s. length (join '','' (texts s))) [0, 1, 2, 3]) =
      length (join '','' (texts 0)) + length (join '','' (texts 1)) + length (join '','' (texts 2)) + length (join '','' (texts 3))"
    by simp
  ultimately show ?thesis
    using sum_list_four [of ?len ds] le [of 0] le [of 1] le [of 2] le [of 3] by linarith
qed

lemma inputs_length:
  assumes "\<forall>s<4. field inputs (input_names ! s) = Some (JArray (xs s))"
  shows "sum_list (map (\<lambda>s. length (join '','' (map (json_text num) (xs s)))) [0, 1, 2, 3]) \<le> length (json_text num inputs)"
proof -
  have f: "field inputs ''calls'' = Some (JArray (xs 0))" "field inputs ''commands'' = Some (JArray (xs 1))"
    "field inputs ''edited_files'' = Some (JArray (xs 2))" "field inputs ''skills'' = Some (JArray (xs 3))"
    using assms [rule_format, of 0] assms [rule_format, of 1] assms [rule_format, of 2] assms [rule_format, of 3]
    by (simp_all add: input_names_def)
  obtain ps where ps: "inputs = JObject ps" using f(1) by (cases inputs) auto
  let ?g = "\<lambda>v. length (json_text num v)"
  have d: "distinct input_names" by (simp add: input_names_def)
  have e: "\<forall>n\<in>set input_names. \<exists>x. map_of ps n = Some x" using f ps by (simp add: input_names_def)
  have "sum_list (map (\<lambda>n. ?g (the (map_of ps n))) input_names) \<le> sum_list (map (\<lambda>p. ?g (snd p)) ps)"
    by (rule named_fields_length [OF d e])
  moreover have "length (join '','' (map (json_text num) ys)) \<le> ?g (JArray ys)" for ys
    by (simp add: items_text_join)
  moreover have "length (pairs_text num ps) \<le> ?g inputs" using ps by simp
  ultimately show ?thesis
    using f ps pairs_text_length [of num ps] by (simp add: input_names_def items_text_join)
qed

text \<open>C31: The records of predicate inputs hold every item. Splitting the inputs into records returns
  with no more records than were allowed for, so that the assertion on the capacity never fails,
  and in no more bytes than the admission reserved; each field of the inputs is cut into the records
  in order, nothing lost or repeated; only an item over the record bound is refused.\<close>

theorem predicate_records_exact:
  assumes "plain_numbers num" "json_utf8 inputs" "\<forall>s<4. field inputs (input_names ! s) = Some (JArray (xs s))"
  shows "\<exists>r. predicate_input_records num inputs (predicate_input_records_bound num inputs) = Some r \<and>
    (\<forall>records. r = Inr records \<longrightarrow>
      length records \<le> pi_records (predicate_input_records_bound num inputs) \<and>
      sum_list (map (\<lambda>t. 24 + length t) records) \<le> pi_bytes (predicate_input_records_bound num inputs) \<and>
      (\<exists>chunks. records = map predicate_input_record chunks \<and> (\<forall>d\<in>set chunks. length d = 4) \<and>
        (\<forall>s<4. concat (map (\<lambda>d. d ! s) chunks) = map (json_text num) (xs s))))"
proof -
  let ?E = "length (json_text num inputs)" and ?K = PREDICATE_INPUT_CHUNK_BYTES
  let ?texts = "\<lambda>s. map (json_text num) (xs s)"
  let ?slots = "enumerate 0 [''calls'', ''commands'', ''edited_files'', ''skills'']"
  let ?items = "concat (map (\<lambda>(slot, name). map (Pair slot) (?texts slot)) ?slots)"
  let ?bound = "predicate_input_records_bound num inputs"
  have slots: "\<forall>(slot, name)\<in>set ?slots. slot < 4 \<and> input_items num inputs name = Some (?texts slot)"
    using assms(3) [rule_format, of 0] assms(3) [rule_format, of 1] assms(3) [rule_format, of 2] assms(3) [rule_format, of 3]
    by (simp add: input_names_def input_items_def eval_nat_numeral)
  have items: "?items = map (Pair 0) (?texts 0) @ map (Pair 1) (?texts 1) @ map (Pair 2) (?texts 2) @ map (Pair 3) (?texts 3)"
    by (simp add: eval_nat_numeral)
  have slot_items: "map snd (filter (\<lambda>p. fst p = s) ?items) = ?texts s" if "s < 4" for s
    using that unfolding items by (auto simp: less_Suc_eq eval_nat_numeral filter_map comp_def)
  have inner: "json_utf8 x" if "s < 4" "x \<in> set (xs s)" for s x
  proof -
    have "field inputs (input_names ! s) = Some (JArray (xs s))" using assms(3) that(1) by blast
    then have "json_utf8 (JArray (xs s))" using assms(2) by (cases inputs) (auto dest!: map_of_SomeD)
    then show ?thesis using that(2) by simp
  qed
  have cost: "sum_list (map item_cost_of (?texts s)) \<le> 4 * length (join '','' (?texts s))" if "s < 4" for s
  proof -
    have "sum_list (map item_cost_of (?texts s)) \<le> sum_list (map (\<lambda>t. 4 * length t) (?texts s))"
      using item_cost [OF assms(1)] inner [OF that] by (intro sum_list_mono2) (auto simp: item_cost_of_def)
    also have "\<dots> = 4 * sum_list (map length (?texts s))" by (rule sum_list_const_mult)
    also have "\<dots> \<le> 4 * length (join '','' (?texts s))"
      using join_length_items [of "?texts s" "'',''"] by (rule mult_le_mono2)
    finally show ?thesis .
  qed
  have total: "sum_list (map (\<lambda>s. length (join '','' (?texts s))) [0, 1, 2, 3]) \<le> ?E"
    by (rule inputs_length [OF assms(3)])
  have "sum_list (map (\<lambda>p. item_cost_of (snd p)) ?items) =
      sum_list (map item_cost_of (?texts 0)) + sum_list (map item_cost_of (?texts 1)) +
      sum_list (map item_cost_of (?texts 2)) + sum_list (map item_cost_of (?texts 3))"
    unfolding items by (simp add: comp_def)
  then have S: "sum_list (map (\<lambda>p. item_cost_of (snd p)) ?items) \<le> 4 * ?E"
    using total cost [of 0] cost [of 1] cost [of 2] cost [of 3] by simp
  obtain r where r: "push_slots num inputs ?slots \<lparr>ck_records = [], ck_fields = no_fields, ck_bytes = 0\<rparr> = Some r"
    and inv: "\<forall>c'. r = Inr c' \<longrightarrow> (\<exists>shut'. chunk_inv ?items shut' c')"
    using push_slots_inv [OF slots chunk_inv_new] by auto
  show ?thesis
  proof (cases r)
    case (Inl e)
    then show ?thesis using r by (simp add: predicate_input_records_def)
  next
    case (Inr c)
    then obtain shut where c: "chunk_inv ?items shut c" using inv by blast
    let ?chunks = "shut @ [ck_fields c]"
    have ck: "ck_records c = map predicate_input_record shut" using c by (simp only: chunk_inv_def)
    have len: "\<forall>d\<in>set ?chunks. length d = 4" using c by (auto simp: chunk_inv_def)
    have fields: "\<forall>s<4. concat (map (\<lambda>d. d ! s) ?chunks) = ?texts s"
    proof (intro allI impI)
      fix s :: nat assume s: "s < 4"
      have "concat (map (\<lambda>d. d ! s) ?chunks) = map snd (filter (\<lambda>p. fst p = s) ?items)"
        using c s unfolding chunk_inv_def by blast
      then show "concat (map (\<lambda>d. d ! s) ?chunks) = ?texts s" unfolding slot_items [OF s] .
    qed
    have "length shut * ?K \<le> 2 * (4 * ?E)" using c S unfolding chunk_inv_def by linarith
    then have "length shut \<le> 2 * (4 * ?E) div ?K"
      by (simp add: PREDICATE_INPUT_CHUNK_BYTES_def less_eq_div_iff_mult_less_eq)
    then have n: "length ?chunks \<le> pi_records ?bound"
      by (simp add: predicate_input_records_bound_def Let_def)
    have "sum_list (map (\<lambda>t. 24 + length t) (map predicate_input_record ?chunks)) \<le>
        length ?chunks * (24 + predicate_input_record_framing) + ?E"
      using records_bytes [OF len fields] total by linarith
    also have "\<dots> \<le> pi_records ?bound * (24 + predicate_input_record_framing) + ?E"
      using mult_le_mono1 [OF n] by (rule add_right_mono)
    also have "\<dots> = pi_bytes ?bound" by (simp add: predicate_input_records_bound_def Let_def)
    finally have bytes: "sum_list (map (\<lambda>t. 24 + length t) (map predicate_input_record ?chunks)) \<le> pi_bytes ?bound" .
    have "predicate_input_records num inputs ?bound = Some (Inr (map predicate_input_record ?chunks))"
      using r Inr ck n by (simp add: predicate_input_records_def)
    moreover have "length (map predicate_input_record ?chunks) \<le> pi_records ?bound" using n by simp
    ultimately show ?thesis using bytes len fields by blast
  qed
qed

definition sample_inputs :: json where
  "sample_inputs = JObject (map (\<lambda>n. (n, JArray [JString n])) input_names)"

theorem predicate_records_exact_witness:
  "\<exists>r. predicate_input_records sample_num sample_inputs (predicate_input_records_bound sample_num sample_inputs) = Some r"
proof -
  have fields: "\<forall>s<4. field sample_inputs (input_names ! s) = Some (JArray [JString (input_names ! s)])"
    by (simp add: sample_inputs_def input_names_def less_Suc_eq eval_nat_numeral)
  have "json_utf8 sample_inputs"
    by (simp add: sample_inputs_def input_names_def utf8_ok_def is_continuation_def)
  from predicate_records_exact [OF sample_num_plain this, of "\<lambda>s. [JString (input_names ! s)]"] fields
  show ?thesis by blast
qed

end
