(* ===== verification/Scope.thy ===== *)
theory Scope
  imports Codec
begin

text \<open>
  \<open>owner/src/scope.rs\<close>: the work one request may still do on a borrowed snapshot. A scope keeps
  what it has used against its limits and counts its failures. The outcome of each checkpoint (the
  cancellation flag, the clock, the store's validation of the handle) is an argument, given by the
  number of the checkpoint; so is the projection the store computes for a hook.
\<close>

record work_limits =
  wl_read_bytes :: nat
  wl_source_read_bytes :: nat
  wl_events :: nat
  wl_items :: nat
  wl_output_bytes :: nat
  wl_discovery_entries :: nat
  wl_sources :: nat
  wl_deadline :: nat

record scope_work =
  sw_read_bytes :: nat
  sw_events :: nat
  sw_items :: nat
  sw_output_bytes :: nat

definition no_work :: scope_work where
  "no_work = \<lparr>sw_read_bytes = 0, sw_events = 0, sw_items = 0, sw_output_bytes = 0\<rparr>"

text \<open>The first of the four resources whose remainder is too small is the error.\<close>

fun exhausted :: "(nat \<times> nat \<times> nat \<times> string) list \<Rightarrow> string option" where
  "exhausted [] = None"
| "exhausted ((used, amount, maximum, reason) # rest) =
     (if maximum - used < amount then Some reason else exhausted rest)"

definition work_rows :: "work_limits \<Rightarrow> scope_work \<Rightarrow> scope_work \<Rightarrow> (nat \<times> nat \<times> nat \<times> string) list" where
  "work_rows limits used additional =
     [(sw_read_bytes used, sw_read_bytes additional, wl_read_bytes limits, ''read_limit''),
      (sw_events used, sw_events additional, wl_events limits, ''event_limit''),
      (sw_items used, sw_items additional, wl_items limits, ''item_limit''),
      (sw_output_bytes used, sw_output_bytes additional, wl_output_bytes limits, ''output_limit'')]"

definition add_work :: "scope_work \<Rightarrow> scope_work \<Rightarrow> scope_work" where
  "add_work a b = \<lparr>sw_read_bytes = sw_read_bytes a + sw_read_bytes b, sw_events = sw_events a + sw_events b,
     sw_items = sw_items a + sw_items b, sw_output_bytes = sw_output_bytes a + sw_output_bytes b\<rparr>"

definition work_charge :: "work_limits \<Rightarrow> scope_work \<Rightarrow> scope_work \<Rightarrow> snapshot_error + scope_work" where
  "work_charge limits additional used = (case exhausted (work_rows limits used additional) of
      Some reason \<Rightarrow> Inl (snapshot_error Incomplete reason)
    | None \<Rightarrow> Inr (add_work used additional))"

definition work_remaining :: "work_limits \<Rightarrow> scope_work \<Rightarrow> work_limits" where
  "work_remaining limits used = limits\<lparr>
     wl_read_bytes := wl_read_bytes limits - sw_read_bytes used,
     wl_events := wl_events limits - sw_events used,
     wl_items := wl_items limits - sw_items used,
     wl_output_bytes := wl_output_bytes limits - sw_output_bytes used\<rparr>"

record scope =
  sc_limits :: work_limits
  sc_description :: json
  sc_used :: scope_work
  sc_materialized :: nat
  sc_failures :: nat
  sc_cancellations :: nat
  sc_checks :: nat

definition scope_borrow :: "work_limits \<Rightarrow> json \<Rightarrow> scope" where
  "scope_borrow limits description = \<lparr>sc_limits = limits, sc_description = description, sc_used = no_work,
     sc_materialized = 0, sc_failures = 0, sc_cancellations = 0, sc_checks = 0\<rparr>"

definition scope_remaining :: "scope \<Rightarrow> work_limits" where
  "scope_remaining sc = (let remaining = work_remaining (sc_limits sc) (sc_used sc)
     in remaining\<lparr>wl_output_bytes := min (wl_output_bytes remaining)
          (wl_output_bytes (sc_limits sc) - sc_materialized sc)\<rparr>)"

definition ZERO_USAGE :: "string list" where
  "ZERO_USAGE = [''source_opens'', ''source_bytes_read'', ''bytes_decoded'', ''events_parsed'', ''cold_parses'',
     ''append_parses'', ''activity_lifts'', ''cache_hits'', ''inflight_joins'', ''generations_published'',
     ''generations_invalidated'']"

definition scope_usage :: "scope \<Rightarrow> json" where
  "scope_usage sc = JObject (map (\<lambda>k. (k, jnat 0)) ZERO_USAGE @
     [(''requests_cancelled'', jnat (sc_cancellations sc)), (''requests_failed'', jnat (sc_failures sc)),
      (''output_bytes'', jnat (sw_output_bytes (sc_used sc))), (''transport_bytes'', jnat 0),
      (''nonincremental_lowering_calls'', jnat 0), (''nonincremental_lowering_source_bytes'', jnat 0),
      (''discovery_entries_examined'', jnat 0), (''prepared_cache_reads'', jnat 0),
      (''prepared_cache_bytes_read'', jnat 0)])"

record failed_work =
  fw_error :: snapshot_error
  fw_usage :: "json option"

subsection \<open>Operations that may fail\<close>

type_synonym 'a scoped = "scope \<Rightarrow> (failed_work + 'a) \<times> scope"

definition scope_fail :: "snapshot_error \<Rightarrow> 'a scoped" where
  "scope_fail e sc =
     (let sc = sc\<lparr>sc_failures := sc_failures sc + 1,
            sc_cancellations := sc_cancellations sc + (if se_status e = Cancelled then 1 else 0)\<rparr>
      in (Inl \<lparr>fw_error = e, fw_usage = Some (scope_usage sc)\<rparr>, sc))"

definition sbind :: "'a scoped \<Rightarrow> ('a \<Rightarrow> 'b scoped) \<Rightarrow> 'b scoped" where
  "sbind m f sc = (case m sc of (Inl e, sc) \<Rightarrow> (Inl e, sc) | (Inr x, sc) \<Rightarrow> f x sc)"

definition sreturn :: "'a \<Rightarrow> 'a scoped" where
  "sreturn x sc = (Inr x, sc)"

definition sread :: "(scope \<Rightarrow> 'a scoped) \<Rightarrow> 'a scoped" where
  "sread f sc = f sc sc"

definition sresult :: "snapshot_error + 'a \<Rightarrow> 'a scoped" where
  "sresult r = (case r of Inl e \<Rightarrow> scope_fail e | Inr x \<Rightarrow> sreturn x)"

type_synonym checks = "nat \<Rightarrow> snapshot_error option"

definition checkpoint :: "checks \<Rightarrow> unit scoped" where
  "checkpoint chk sc = (let outcome = chk (sc_checks sc); sc = sc\<lparr>sc_checks := sc_checks sc + 1\<rparr>
     in case outcome of Some e \<Rightarrow> scope_fail e sc | None \<Rightarrow> (Inr (), sc))"

definition scope_charge :: "scope_work \<Rightarrow> unit scoped" where
  "scope_charge additional sc = (case work_charge (sc_limits sc) additional (sc_used sc) of
      Inl e \<Rightarrow> scope_fail e sc
    | Inr used \<Rightarrow> (Inr (), sc\<lparr>sc_used := used\<rparr>))"

definition materialize :: "nat \<Rightarrow> unit scoped" where
  "materialize bytes sc = (Inr (), sc\<lparr>sc_materialized := sat_add (sc_materialized sc) bytes\<rparr>)"

definition scope_description :: "checks \<Rightarrow> (jnumber \<Rightarrow> string) \<Rightarrow> json scoped" where
  "scope_description chk num =
     sbind (checkpoint chk) (\<lambda>_. sread (\<lambda>sc.
     sbind (sresult (encoded_size [json_text num (sc_description sc)] (wl_output_bytes (scope_remaining sc)))) (\<lambda>encoded.
     sbind (materialize encoded) (\<lambda>_.
     sbind (checkpoint chk) (\<lambda>_. sreturn (sc_description sc))))))"

record projection_usage =
  pu_read_bytes :: nat
  pu_events :: nat

text \<open>The projection charges what it read, failed or not, before its own error is looked at.\<close>

definition scope_classifier_facts ::
  "checks \<Rightarrow> (jnumber \<Rightarrow> string) \<Rightarrow> (string \<Rightarrow> nat \<Rightarrow> work_limits \<Rightarrow> projection_usage \<times> (snapshot_error + json)) \<Rightarrow>
   string \<Rightarrow> nat \<Rightarrow> json scoped" where
  "scope_classifier_facts chk num facts pre event_limit =
     sbind (checkpoint chk) (\<lambda>_. sread (\<lambda>sc.
     sbind (if min (wl_read_bytes (scope_remaining sc)) MAX_PAGE_BYTES < length pre
            then scope_fail (snapshot_error SourceLimit ''classifier prefix exceeds input budget'') else sreturn ()) (\<lambda>_.
     sbind (scope_charge (no_work\<lparr>sw_read_bytes := length pre, sw_items := 1\<rparr>)) (\<lambda>_. sread (\<lambda>sc.
     let limits = scope_remaining sc; (usage, value) = facts pre event_limit limits in
     sbind (scope_charge (no_work\<lparr>sw_read_bytes := pu_read_bytes usage, sw_events := pu_events usage\<rparr>)) (\<lambda>_.
     sbind (sresult value) (\<lambda>v.
     sbind (sresult (encoded_size [json_text num v] (wl_output_bytes limits))) (\<lambda>encoded.
     sbind (materialize encoded) (\<lambda>_.
     sbind (checkpoint chk) (\<lambda>_. sreturn v))))))))))"

subsection \<open>What a scope keeps\<close>

definition work_within :: "scope_work \<Rightarrow> work_limits \<Rightarrow> bool" where
  "work_within used limits \<longleftrightarrow> sw_read_bytes used \<le> wl_read_bytes limits \<and> sw_events used \<le> wl_events limits \<and>
     sw_items used \<le> wl_items limits \<and> sw_output_bytes used \<le> wl_output_bytes limits"

text \<open>One operation: the limits stay, the work stays within them, and the counts of failures
  and cancellations grow by exactly the error it returns.\<close>

definition scope_step :: "scope \<Rightarrow> failed_work option \<Rightarrow> scope \<Rightarrow> bool" where
  "scope_step sc failed sc' \<longleftrightarrow> sc_limits sc' = sc_limits sc \<and> sc_description sc' = sc_description sc \<and>
     (work_within (sc_used sc) (sc_limits sc) \<longrightarrow> work_within (sc_used sc') (sc_limits sc)) \<and>
     sc_materialized sc \<le> sc_materialized sc' \<and> sc_checks sc \<le> sc_checks sc' \<and>
     (case failed of
        None \<Rightarrow> sc_failures sc' = sc_failures sc \<and> sc_cancellations sc' = sc_cancellations sc
      | Some f \<Rightarrow> sc_failures sc' = sc_failures sc + 1 \<and>
          sc_cancellations sc' = sc_cancellations sc + (if se_status (fw_error f) = Cancelled then 1 else 0) \<and>
          fw_usage f = Some (scope_usage sc'))"

definition result_failure :: "failed_work + 'a \<Rightarrow> failed_work option" where
  "result_failure r = (case r of Inl f \<Rightarrow> Some f | Inr _ \<Rightarrow> None)"

lemma result_failure_simps [simp]: "result_failure (Inl f) = Some f" "result_failure (Inr x) = None"
  by (simp_all add: result_failure_def)

text \<open>What every operation of a scope promises; the operations in sequence promise it too.\<close>

locale scope_operation =
  fixes m :: "'a scoped"
  assumes step: "m sc = (r, sc') \<Longrightarrow> sc_materialized sc \<le> usize_max \<Longrightarrow>
    scope_step sc (result_failure r) sc' \<and> sc_materialized sc' \<le> usize_max"

lemma scope_step_trans: "scope_step a None b \<Longrightarrow> scope_step b f c \<Longrightarrow> scope_step a f c"
  by (auto simp: scope_step_def split: option.splits)

lemma scope_operationI:
  "(\<And>sc r sc'. m sc = (r, sc') \<Longrightarrow> sc_materialized sc \<le> usize_max \<Longrightarrow>
     scope_step sc (result_failure r) sc' \<and> sc_materialized sc' \<le> usize_max) \<Longrightarrow> scope_operation m"
  by (simp add: scope_operation_def)

lemma sbind_operation:
  assumes "scope_operation m" "\<And>x. scope_operation (f x)"
  shows "scope_operation (sbind m f)"
proof (rule scope_operationI)
  fix sc r sc' assume b: "sbind m f sc = (r, sc')" "sc_materialized sc \<le> usize_max"
  obtain r1 sc1 where m: "m sc = (r1, sc1)" by force
  note s = scope_operation.step [OF assms(1) m b(2)]
  show "scope_step sc (result_failure r) sc' \<and> sc_materialized sc' \<le> usize_max"
  proof (cases r1)
    case (Inl e)
    then show ?thesis using b m s by (auto simp: sbind_def)
  next
    case (Inr x)
    then have "f x sc1 = (r, sc')" using b m by (simp add: sbind_def)
    then show ?thesis using scope_operation.step [OF assms(2), of x sc1 r sc'] s Inr scope_step_trans by auto
  qed
qed

lemma fail_operation: "scope_operation (scope_fail e)"
  by (rule scope_operationI) (auto simp: scope_fail_def scope_step_def Let_def)

lemma return_operation: "scope_operation (sreturn x)"
  by (rule scope_operationI) (auto simp: sreturn_def scope_step_def)

lemma result_operation: "scope_operation (sresult r)"
  by (cases r) (simp_all add: sresult_def fail_operation return_operation)

interpretation materialized: scope_operation "materialize n"
  by unfold_locales (auto simp: materialize_def scope_step_def sat_add_def)

interpretation checked: scope_operation "checkpoint chk"
  by unfold_locales (auto simp: checkpoint_def scope_step_def scope_fail_def Let_def split: option.splits)

lemma work_charge_within:
  "work_charge limits a used = Inr used' \<Longrightarrow> work_within used limits \<Longrightarrow> work_within used' limits"
  by (auto simp: work_charge_def work_rows_def work_within_def add_work_def split: option.splits if_splits)

interpretation charged: scope_operation "scope_charge w"
proof unfold_locales
  fix sc r sc' assume c: "scope_charge w sc = (r, sc')" "sc_materialized sc \<le> usize_max"
  show "scope_step sc (result_failure r) sc' \<and> sc_materialized sc' \<le> usize_max"
    using c work_charge_within [of "sc_limits sc" w "sc_used sc"]
    by (auto simp: scope_charge_def scope_step_def scope_fail_def Let_def split: sum.splits)
qed

lemmas scope_operations = sbind_operation fail_operation return_operation result_operation
  materialized.scope_operation_axioms checked.scope_operation_axioms charged.scope_operation_axioms

lemma read_operation: "(\<And>s. scope_operation (f s)) \<Longrightarrow> scope_operation (sread f)"
  by (auto simp: scope_operation_def sread_def)

interpretation described: scope_operation "scope_description chk num"
  unfolding scope_description_def by (intro scope_operations read_operation)

interpretation classified: scope_operation "scope_classifier_facts chk num facts pre n"
  unfolding scope_classifier_facts_def Let_def
  by (intro sbind_operation scope_operations read_operation)
    (auto intro!: scope_operations read_operation split: prod.split)

end
