(* ===== verification/ReviewEvents.thy ===== *)
theory ReviewEvents
  imports Scope
begin

text \<open>
  \<open>owner/src/review_events.rs\<close>: pages of events for a review, resumed by a watermark that names
  the source, a position and a digest of the event before it. The pieces serde writes for an event
  (\<open>wire\<close>) and SHA-256 in hexadecimal (\<open>sha\<close>) are arguments. \<^const>\<open>None\<close> is an index
  out of range.
\<close>

subsection \<open>Marks\<close>

definition PAGE_ENVELOPE_BYTES :: nat where
  "PAGE_ENVELOPE_BYTES = 16 * 1024"

text \<open>\<open>str::parse::<usize>\<close> and \<open>rsplit_once(':')\<close>.\<close>

definition parse_usize :: "string \<Rightarrow> nat option" where
  "parse_usize text =
     (let digits = (case text of c # cs \<Rightarrow> if c = CHR ''+'' then cs else text | [] \<Rightarrow> [])
      in if digits = [] then None else opt_filter (\<lambda>n. n \<le> usize_max) (dec_value 0 digits))"

definition rsplit_colon :: "string \<Rightarrow> (string \<times> string) option" where
  "rsplit_colon s =
     (let tail = rev (takeWhile (\<lambda>c. c \<noteq> CHR '':'') (rev s))
      in if length tail = length s then None else Some (take (length s - length tail - 1) s, tail))"

record mark =
  mk_source :: string
  mk_position :: nat
  mk_digest :: string

definition mark_encode :: "mark \<Rightarrow> string" where
  "mark_encode m = ''v3:'' @ mk_source m @ '':'' @ dec_digits (mk_position m) @ '':'' @ mk_digest m"

definition mark_decode :: "string \<Rightarrow> mark option" where
  "mark_decode token =
     Option.bind (Option.bind (strip_prefix ''v3:'' token) rsplit_colon) (\<lambda>(rest, digest).
     Option.bind (rsplit_colon rest) (\<lambda>(source, position).
     Option.bind (parse_usize position) (\<lambda>p. Some \<lparr>mk_source = source, mk_position = p, mk_digest = digest\<rparr>)))"

subsection \<open>The snapshot\<close>

record 'e event_chunk =
  ec_start :: nat
  ec_entries :: "'e list"
  ec_charges :: "(nat \<times> nat) list"

record 'e review_snapshot =
  rv_device :: nat
  rv_inode :: nat
  rv_window_base :: nat
  rv_window_start :: nat
  rv_event_count :: nat
  rv_chunks :: "'e event_chunk list"
  rv_path :: string
  rv_mtime_ns :: int

definition snapshot_source :: "'e review_snapshot \<Rightarrow> string" where
  "snapshot_source s = join '':'' (map dec_digits [rv_device s, rv_inode s, rv_window_base s, rv_window_start s])"

definition snapshot_revision :: "'e review_snapshot \<Rightarrow> string" where
  "snapshot_revision s = ''agent:'' @ snapshot_source s @ '':'' @ dec_digits (rv_event_count s)"

text \<open>\<open>partition_point\<close> of a slice that is partitioned by the predicate.\<close>

definition partition_point :: "('a \<Rightarrow> bool) \<Rightarrow> 'a list \<Rightarrow> nat" where
  "partition_point p xs = length (takeWhile p xs)"

definition chunk_before :: "('e event_chunk \<Rightarrow> bool) \<Rightarrow> 'e review_snapshot \<Rightarrow> 'e event_chunk option" where
  "chunk_before p s = (case partition_point p (rv_chunks s) of
      0 \<Rightarrow> None
    | Suc i \<Rightarrow> Some (rv_chunks s ! i))"

definition nth_of :: "'a list \<Rightarrow> nat \<Rightarrow> 'a option" where
  "nth_of xs i = (if i < length xs then Some (xs ! i) else None)"

definition event_at :: "'e review_snapshot \<Rightarrow> nat \<Rightarrow> ('e \<times> (nat \<times> nat)) option" where
  "event_at s position =
     Option.bind (chunk_before (\<lambda>c. ec_start c \<le> position) s) (\<lambda>c.
     Option.bind (nth_of (ec_entries c) (position - ec_start c)) (\<lambda>e.
     map_option (Pair e) (nth_of (ec_charges c) (position - ec_start c))))"

definition event_record ::
  "(nat \<Rightarrow> 'e \<Rightarrow> string list) \<Rightarrow> 'e review_snapshot \<Rightarrow> nat \<Rightarrow> (snapshot_error + string) option" where
  "event_record wire s position =
     map_option (\<lambda>(e, _). encode_record (wire position e) MAX_RECORD_BYTES) (event_at s position)"

definition event_digest ::
  "(string \<Rightarrow> string) \<Rightarrow> (nat \<Rightarrow> 'e \<Rightarrow> string list) \<Rightarrow> 'e review_snapshot \<Rightarrow> nat \<Rightarrow> (snapshot_error + string) option" where
  "event_digest sha wire s position =
     (if position = 0 then Some (Inr [])
      else Option.bind (chunk_before (\<lambda>c. ec_start c < position) s) (\<lambda>c.
        map_option (\<lambda>e. map_sum id (\<lambda>t. take 16 (sha t))
            (encode_bounded (wire (position - 1) e) (bound_budget ''review event digest'' usize_max)))
          (nth_of (ec_entries c) (position - 1 - ec_start c))))"

definition extends_revision :: "'e review_snapshot \<Rightarrow> string \<Rightarrow> bool" where
  "extends_revision s revision =
     is_some_and (\<lambda>(source_id, events). source_id = snapshot_source s \<and>
         is_some_and (\<lambda>n. n \<le> rv_event_count s) (parse_usize events))
       (Option.bind (strip_prefix ''agent:'' revision) rsplit_colon)"

definition event_charge :: "'e review_snapshot \<Rightarrow> nat \<Rightarrow> nat \<Rightarrow> scope_work option" where
  "event_charge s position output_bytes = map_option (\<lambda>(_, owned, dom).
     \<lparr>sw_read_bytes = sat_add owned dom, sw_events = 1, sw_items = 1, sw_output_bytes = output_bytes\<rparr>)
     (event_at s position)"

definition resumed_at ::
  "(string \<Rightarrow> string) \<Rightarrow> (nat \<Rightarrow> 'e \<Rightarrow> string list) \<Rightarrow> 'e review_snapshot \<Rightarrow> string option \<Rightarrow>
   (snapshot_error + nat option) option" where
  "resumed_at sha wire s token = (case Option.bind token mark_decode of
      None \<Rightarrow> Some (Inr None)
    | Some m \<Rightarrow>
        (if mk_source m \<noteq> snapshot_source s \<or> rv_event_count s < mk_position m then Some (Inr None)
         else map_option (map_sum id (\<lambda>d. if mk_digest m \<noteq> d then None else Some (mk_position m)))
           (event_digest sha wire s (mk_position m))))"

subsection \<open>A page\<close>

record page_acc =
  pa_used :: nat
  pa_records :: "string list"
  pa_skipped :: "nat list"
  pa_next :: nat

definition skip_event :: "page_acc \<Rightarrow> page_acc" where
  "skip_event a = a\<lparr>pa_skipped := pa_skipped a @ [pa_next a], pa_next := pa_next a + 1\<rparr>"

definition push_event :: "string \<Rightarrow> nat \<Rightarrow> page_acc \<Rightarrow> page_acc" where
  "push_event encoded cost a = a\<lparr>pa_used := pa_used a + cost, pa_records := pa_records a @ [encoded], pa_next := pa_next a + 1\<rparr>"

definition page_open :: "'e review_snapshot \<Rightarrow> page_acc \<Rightarrow> bool" where
  "page_open s a \<longleftrightarrow> pa_next a < rv_event_count s \<and> length (pa_records a) < MAX_RECORDS \<and> length (pa_skipped a) < MAX_RECORDS"

text \<open>One turn of the loop: an error, the end of the page, or the page to go on with.\<close>

datatype turn_result = Failed failed_work | Ended | Continued page_acc

definition charge_turn :: "string \<Rightarrow> nat \<Rightarrow> page_acc \<Rightarrow> scope_work \<Rightarrow> scope \<Rightarrow> turn_result \<times> scope" where
  "charge_turn encoded cost a w sc = (case scope_charge w sc of
      (Inl f, sc) \<Rightarrow> (if pa_records a = [] then Failed f else Ended, sc)
    | (Inr _, sc) \<Rightarrow> (Continued (push_event encoded cost a), sc))"

definition page_turn ::
  "(nat \<Rightarrow> 'e \<Rightarrow> string list) \<Rightarrow> 'e review_snapshot \<Rightarrow> nat \<Rightarrow> page_acc \<Rightarrow> scope \<Rightarrow> (turn_result \<times> scope) option" where
  "page_turn wire s budget a sc = (case event_record wire s (pa_next a) of
      None \<Rightarrow> None
    | Some (Inl e) \<Rightarrow>
        (if se_status e = OutputLimit then Some (Continued (skip_event a), sc)
         else (case scope_fail e sc of (r, sc) \<Rightarrow> Some (case r of Inl f \<Rightarrow> Failed f | Inr () \<Rightarrow> Ended, sc)))
    | Some (Inr encoded) \<Rightarrow>
        (let cost = escaped_len encoded + 1 in
         if budget < cost then Some (Continued (skip_event a), sc)
         else if budget < pa_used a + cost then Some (Ended, sc)
         else map_option (\<lambda>w. charge_turn encoded cost a w sc) (event_charge s (pa_next a) (length encoded))))"

lemma charge_turn_Continued:
  "charge_turn encoded cost a w sc = (Continued b, sc') \<Longrightarrow> b = push_event encoded cost a"
  by (cases "scope_charge w sc") (auto simp: charge_turn_def split: sum.splits if_splits)

lemma page_turn_advances:
  assumes "page_turn wire s budget a sc = Some (Continued b, sc')"
  shows "pa_next b = pa_next a + 1"
proof (cases "event_record wire s (pa_next a)")
  case (Some r)
  show ?thesis
  proof (cases r)
    case (Inl e)
    then show ?thesis using assms Some
      by (auto simp: page_turn_def skip_event_def scope_fail_def Let_def split: if_splits)
  next
    case (Inr encoded)
    then show ?thesis using assms Some
      by (auto simp: page_turn_def skip_event_def push_event_def Let_def dest!: charge_turn_Continued split: if_splits)
  qed
qed (use assms in \<open>simp add: page_turn_def\<close>)

function page_loop ::
  "checks \<Rightarrow> (nat \<Rightarrow> 'e \<Rightarrow> string list) \<Rightarrow> 'e review_snapshot \<Rightarrow> nat \<Rightarrow> page_acc \<Rightarrow> scope \<Rightarrow>
   ((failed_work + page_acc) \<times> scope) option" where
  "page_loop chk wire s budget a sc =
     (if page_open s a then
        (case checkpoint chk sc of
           (Inl f, sc) \<Rightarrow> Some (Inl f, sc)
         | (Inr _, sc) \<Rightarrow> (case page_turn wire s budget a sc of
             None \<Rightarrow> None
           | Some (Failed f, sc) \<Rightarrow> Some (Inl f, sc)
           | Some (Ended, sc) \<Rightarrow> Some (Inr a, sc)
           | Some (Continued b, sc) \<Rightarrow> page_loop chk wire s budget b sc))
      else Some (Inr a, sc))"
  by pat_completeness auto
termination
  by (relation "measure (\<lambda>(chk, wire, s, budget, a, sc). rv_event_count s - pa_next a)")
    (auto simp: page_open_def dest: page_turn_advances)

declare page_loop.simps [simp del]

record page_data =
  rp_records :: "string list"
  rp_event_start :: nat
  rp_fresh_start :: nat
  rp_skipped :: "nat list"
  rp_position :: nat
  rp_watermark :: string
  rp_caught_up :: bool
  rp_reset :: bool

record review_request =
  rq_revision :: "string option"
  rq_watermark :: "string option"
  rq_context_events :: nat

definition page_budget :: nat where
  "page_budget = MAX_FRAME_BYTES - PAGE_ENVELOPE_BYTES"

definition page_start :: "nat \<Rightarrow> nat \<Rightarrow> page_acc" where
  "page_start fresh context_events = \<lparr>pa_used = 0, pa_records = [], pa_skipped = [], pa_next = fresh - context_events\<rparr>"

text \<open>The end of \<open>page\<close>: the watermark, the charge of what was written, the last checkpoint.\<close>

definition page_close ::
  "checks \<Rightarrow> (string \<Rightarrow> string) \<Rightarrow> (nat \<Rightarrow> 'e \<Rightarrow> string list) \<Rightarrow> 'e review_snapshot \<Rightarrow> review_request \<Rightarrow>
   nat option \<Rightarrow> page_acc \<Rightarrow> scope \<Rightarrow> ((failed_work + page_data) \<times> scope) option" where
  "page_close chk sha wire s rq resumed a sc =
     (let fresh = opt_default 0 resumed; position = max (pa_next a) fresh in
      map_option (\<lambda>digest.
        sbind (sresult digest) (\<lambda>d.
        sbind (materialize (pa_used a)) (\<lambda>_.
        sbind (checkpoint chk) (\<lambda>_. sreturn
          \<lparr>rp_records = pa_records a, rp_event_start = fresh - rq_context_events rq, rp_fresh_start = fresh,
           rp_skipped = pa_skipped a, rp_position = position,
           rp_watermark = mark_encode \<lparr>mk_source = snapshot_source s, mk_position = position, mk_digest = d\<rparr>,
           rp_caught_up = (position = rv_event_count s),
           rp_reset = (rq_watermark rq \<noteq> None \<and> resumed = None)\<rparr>))) sc)
        (event_digest sha wire s position))"

definition review_page ::
  "checks \<Rightarrow> (string \<Rightarrow> string) \<Rightarrow> (nat \<Rightarrow> 'e \<Rightarrow> string list) \<Rightarrow> 'e review_snapshot \<Rightarrow> review_request \<Rightarrow>
   scope \<Rightarrow> ((failed_work + page_data) \<times> scope) option" where
  "review_page chk sha wire s rq sc = (case checkpoint chk sc of
      (Inl f, sc) \<Rightarrow> Some (Inl f, sc)
    | (Inr _, sc) \<Rightarrow>
        (if \<not> is_some_and (extends_revision s) (rq_revision rq) \<and> rq_revision rq \<noteq> None
         then Some (scope_fail (snapshot_error Changed ''review source revision changed'') sc)
         else (case resumed_at sha wire s (rq_watermark rq) of
             None \<Rightarrow> None
           | Some (Inl e) \<Rightarrow> Some (scope_fail e sc)
           | Some (Inr resumed) \<Rightarrow>
               (case page_loop chk wire s page_budget (page_start (opt_default 0 resumed) (rq_context_events rq)) sc of
                  None \<Rightarrow> None
                | Some (Inl f, sc) \<Rightarrow> Some (Inl f, sc)
                | Some (Inr a, sc) \<Rightarrow> page_close chk sha wire s rq resumed a sc))))"

definition page_json :: "'e review_snapshot \<Rightarrow> string \<Rightarrow> page_data \<Rightarrow> scope \<Rightarrow> json" where
  "page_json s i p sc = JObject
     [(''schema'', JString CORE_SCHEMA), (''id'', JString i), (''status'', JString ''ok''), (''complete'', JBool True),
      (''data'', JObject
        [(''kind'', JString ''review_events''), (''source_revision'', JString (snapshot_revision s)),
         (''canonical_path'', JString (rv_path s)), (''mtime_ns'', JString (dec_int (rv_mtime_ns s))),
         (''record_schema'', JString ''cc-transcript.event/1''),
         (''records_json'', JArray (map JString (rp_records p))),
         (''event_start'', jnat (rp_event_start p)), (''fresh_start'', jnat (rp_fresh_start p)),
         (''skipped'', JArray (map jnat (rp_skipped p))), (''watermark'', JString (rp_watermark p)),
         (''caught_up'', JBool (rp_caught_up p)), (''reset'', JBool (rp_reset p))]),
      (''cursor'', JNull), (''reason'', JNull), (''usage'', scope_usage sc)]"

end
