(* ===== verification/ReviewProps.thy ===== *)
theory ReviewProps
  imports ReviewEvents
begin

text \<open>
  Marks are read back as written; a page delivers the events between its start and its watermark,
  each once, within its bounds; pages without context tile the snapshot and make progress.
\<close>

subsection \<open>Marks\<close>

lemma digit_not_mark:
  assumes "d < 10"
  shows "byte (48 + d) \<noteq> CHR '':''" "byte (48 + d) \<noteq> CHR ''+''"
proof -
  have v: "(of_char (byte (48 + d)) :: nat) = 48 + d" using assms by simp
  show "byte (48 + d) \<noteq> CHR '':''"
  proof
    assume e: "byte (48 + d) = CHR '':''"
    show False using v assms unfolding e by simp
  qed
  show "byte (48 + d) \<noteq> CHR ''+''"
  proof
    assume e: "byte (48 + d) = CHR ''+''"
    show False using v assms unfolding e by simp
  qed
qed

lemma dec_digits_no_colon: "CHR '':'' \<notin> set (dec_digits n)"
  using dec_digits_chars digit_not_mark(1) by metis

lemma dec_digits_hd: "hd (dec_digits n) \<noteq> CHR ''+''"
  using dec_digits_chars [of "hd (dec_digits n)" n] digit_not_mark(2) by (metis dec_digits_ne list.set_sel(1))

lemma parse_usize_digits: "n \<le> usize_max \<Longrightarrow> parse_usize (dec_digits n) = Some n"
  using dec_digits_hd [of n] dec_digits_ne [of n] dec_value_digits [of n]
  by (cases "dec_digits n") (auto simp: parse_usize_def Let_def)

lemma rsplit_colon_last:
  assumes "CHR '':'' \<notin> set b"
  shows "rsplit_colon (a @ '':'' @ b) = Some (a, b)"
proof -
  have "takeWhile (\<lambda>c. c \<noteq> CHR '':'') (rev b @ CHR '':'' # rev a) = rev b"
    using assms by (subst takeWhile_append2) auto
  then show ?thesis by (simp add: rsplit_colon_def Let_def)
qed

lemma mark_roundtrip:
  assumes "CHR '':'' \<notin> set (mk_digest m)" "mk_position m \<le> usize_max"
  shows "mark_decode (mark_encode m) = Some m"
proof -
  have "mark_encode m = ''v3:'' @ ((mk_source m @ '':'' @ dec_digits (mk_position m)) @ '':'' @ mk_digest m)"
    by (simp add: mark_encode_def)
  then have "strip_prefix ''v3:'' (mark_encode m) = Some ((mk_source m @ '':'' @ dec_digits (mk_position m)) @ '':'' @ mk_digest m)"
    by (simp only: strip_prefix_append)
  then show ?thesis
    using rsplit_colon_last [OF assms(1), of "mk_source m @ '':'' @ dec_digits (mk_position m)"]
      rsplit_colon_last [OF dec_digits_no_colon, of "mk_source m" "mk_position m"] parse_usize_digits [OF assms(2)]
    by (simp add: mark_decode_def)
qed

text \<open>A watermark is read back as it was written, whatever colons its source has, when its digest
  has none and its position is a machine integer; so are the source and the count of a revision,
  and a revision extends itself.\<close>

theorem marks_roundtrip:
  assumes "CHR '':'' \<notin> set (mk_digest m)" "mk_position m \<le> usize_max"
  shows "mark_decode (mark_encode m) = Some m"
  by (rule mark_roundtrip [OF assms])

lemma revision_extends: "rv_event_count s \<le> usize_max \<Longrightarrow> extends_revision s (snapshot_revision s)"
proof -
  assume n: "rv_event_count s \<le> usize_max"
  have "strip_prefix ''agent:'' (snapshot_revision s) = Some (snapshot_source s @ '':'' @ dec_digits (rv_event_count s))"
    unfolding snapshot_revision_def by (rule strip_prefix_append)
  then show ?thesis
    using rsplit_colon_last [OF dec_digits_no_colon, of "snapshot_source s"] parse_usize_digits [OF n]
    by (simp add: extends_revision_def)
qed

subsection \<open>The events of a snapshot\<close>

fun chunks_from :: "nat \<Rightarrow> 'e event_chunk list \<Rightarrow> bool" where
  "chunks_from n [] = True"
| "chunks_from n (c # cs) \<longleftrightarrow> ec_start c = n \<and> ec_entries c \<noteq> [] \<and> length (ec_charges c) = length (ec_entries c) \<and>
     chunks_from (n + length (ec_entries c)) cs"

definition snapshot_ok :: "'e review_snapshot \<Rightarrow> bool" where
  "snapshot_ok s \<longleftrightarrow> chunks_from 0 (rv_chunks s) \<and>
     rv_event_count s = sum_list (map (\<lambda>c. length (ec_entries c)) (rv_chunks s)) \<and> rv_event_count s \<le> usize_max"

lemma chunks_from_starts: "chunks_from n cs \<Longrightarrow> c \<in> set cs \<Longrightarrow> n \<le> ec_start c"
  by (induction n cs rule: chunks_from.induct) force+

lemma chunk_found:
  assumes "chunks_from n cs" "n \<le> p" "p < n + sum_list (map (\<lambda>c. length (ec_entries c)) cs)"
  shows "\<exists>i<length cs. partition_point (\<lambda>c. ec_start c \<le> p) cs = Suc i \<and> ec_start (cs ! i) \<le> p \<and>
    p - ec_start (cs ! i) < length (ec_entries (cs ! i)) \<and> length (ec_charges (cs ! i)) = length (ec_entries (cs ! i))"
  using assms
proof (induction n cs rule: chunks_from.induct)
  case (2 n c cs)
  show ?case
  proof (cases "p < n + length (ec_entries c)")
    case True
    have "takeWhile (\<lambda>c. ec_start c \<le> p) cs = []"
      using 2(2) True chunks_from_starts [of "n + length (ec_entries c)" cs "hd cs"]
      by (cases cs) auto
    then show ?thesis using 2(2,3) True by (intro exI [of _ 0]) (auto simp: partition_point_def)
  next
    case False
    then obtain i where i: "i < length cs" "partition_point (\<lambda>c. ec_start c \<le> p) cs = Suc i" "ec_start (cs ! i) \<le> p"
      "p - ec_start (cs ! i) < length (ec_entries (cs ! i))" "length (ec_charges (cs ! i)) = length (ec_entries (cs ! i))"
      using 2 by auto
    then show ?thesis using 2(2,3) by (intro exI [of _ "Suc i"]) (auto simp: partition_point_def)
  qed
qed simp

lemma event_found:
  assumes "snapshot_ok s" "p < rv_event_count s"
  shows "\<exists>e w. event_at s p = Some (e, w)"
proof -
  obtain i where i: "i < length (rv_chunks s)" "partition_point (\<lambda>c. ec_start c \<le> p) (rv_chunks s) = Suc i"
    "p - ec_start (rv_chunks s ! i) < length (ec_entries (rv_chunks s ! i))"
    "length (ec_charges (rv_chunks s ! i)) = length (ec_entries (rv_chunks s ! i))"
    using chunk_found [of 0 "rv_chunks s" p] assms by (auto simp: snapshot_ok_def)
  then show ?thesis by (simp add: event_at_def chunk_before_def nth_of_def)
qed

definition event_text :: "(nat \<Rightarrow> 'e \<Rightarrow> string list) \<Rightarrow> 'e review_snapshot \<Rightarrow> nat \<Rightarrow> string" where
  "event_text wire s p = concat (wire p (fst (the (event_at s p))))"

text \<open>An event no page can hold.\<close>

definition too_large :: "(nat \<Rightarrow> 'e \<Rightarrow> string list) \<Rightarrow> 'e review_snapshot \<Rightarrow> nat \<Rightarrow> nat \<Rightarrow> bool" where
  "too_large wire s budget p \<longleftrightarrow> MAX_RECORD_BYTES < length (event_text wire s p) \<or>
     budget < escaped_len (event_text wire s p) + 1"

lemma event_record_exact:
  assumes "snapshot_ok s" "p < rv_event_count s"
  shows "\<exists>r. event_record wire s p = Some r \<and> (case r of Inl e \<Rightarrow> se_status e = OutputLimit \<and> MAX_RECORD_BYTES < length (event_text wire s p)
    | Inr t \<Rightarrow> t = event_text wire s p \<and> length t \<le> MAX_RECORD_BYTES)"
proof -
  obtain e w where "event_at s p = Some (e, w)" using event_found [OF assms] by blast
  then show ?thesis
    by (auto simp: event_record_def event_text_def encode_record_def encode_bounded_exact bound_record_def bound_limit_def
        refusal_error_def snapshot_error_def)
qed

lemma event_charge_some:
  assumes "snapshot_ok s" "p < rv_event_count s"
  shows "\<exists>w. event_charge s p n = Some w"
proof -
  obtain e w where "event_at s p = Some (e, w)" using event_found [OF assms] by blast
  then show ?thesis by (cases w) (simp add: event_charge_def)
qed

lemma event_digest_some:
  assumes "snapshot_ok s" "p \<le> rv_event_count s"
  shows "\<exists>r. event_digest sha wire s p = Some r"
proof (cases p)
  case (Suc q)
  obtain i where i: "i < length (rv_chunks s)" "partition_point (\<lambda>c. ec_start c \<le> q) (rv_chunks s) = Suc i"
    "q - ec_start (rv_chunks s ! i) < length (ec_entries (rv_chunks s ! i))"
    using chunk_found [of 0 "rv_chunks s" q] assms Suc by (auto simp: snapshot_ok_def)
  have "(\<lambda>c :: 'a event_chunk. ec_start c < p) = (\<lambda>c. ec_start c \<le> q)" using Suc by auto
  then show ?thesis using i Suc by (simp add: event_digest_def chunk_before_def nth_of_def)
qed (simp add: event_digest_def)

subsection \<open>A turn of the page\<close>

lemma page_turn_spec:
  assumes ok: "snapshot_ok s" "pa_next a < rv_event_count s"
  obtains (skip) "too_large wire s budget (pa_next a)" "page_turn wire s budget a sc = Some (Continued (skip_event a), sc)"
  | (full) "\<not> too_large wire s budget (pa_next a)" "budget < pa_used a + (escaped_len (event_text wire s (pa_next a)) + 1)"
      "page_turn wire s budget a sc = Some (Ended, sc)"
  | (refused) f sc1 where "\<not> too_large wire s budget (pa_next a)" "page_turn wire s budget a sc = Some (if pa_records a = [] then Failed f else Ended, sc1)"
  | (push) sc1 where "\<not> too_large wire s budget (pa_next a)"
      "pa_used a + (escaped_len (event_text wire s (pa_next a)) + 1) \<le> budget"
      "page_turn wire s budget a sc = Some (Continued (push_event (event_text wire s (pa_next a))
        (escaped_len (event_text wire s (pa_next a)) + 1) a), sc1)"
proof -
  obtain r where r: "event_record wire s (pa_next a) = Some r"
    "case r of Inl e \<Rightarrow> se_status e = OutputLimit \<and> MAX_RECORD_BYTES < length (event_text wire s (pa_next a))
     | Inr t \<Rightarrow> t = event_text wire s (pa_next a) \<and> length t \<le> MAX_RECORD_BYTES"
    using event_record_exact [OF ok] by blast
  show thesis
  proof (cases r)
    case (Inl e)
    then show thesis using r skip by (simp add: page_turn_def too_large_def)
  next
    case (Inr t)
    then have t: "t = event_text wire s (pa_next a)" "length t \<le> MAX_RECORD_BYTES" using r(2) by auto
    obtain w where w: "event_charge s (pa_next a) (length t) = Some w" using event_charge_some [OF ok] by blast
    let ?cost = "escaped_len t + 1"
    consider "budget < ?cost" | "?cost \<le> budget" "budget < pa_used a + ?cost" | "?cost \<le> budget" "pa_used a + ?cost \<le> budget"
      by linarith
    then show thesis
    proof cases
      case 1
      then show thesis using r Inr t skip by (simp add: page_turn_def too_large_def Let_def)
    next
      case 2
      then show thesis using r Inr t full by (simp add: page_turn_def too_large_def Let_def)
    next
      case 3
      then have turn: "page_turn wire s budget a sc = Some (charge_turn t ?cost a w sc)"
        using r Inr w by (simp add: page_turn_def Let_def)
      obtain c sc1 where c: "scope_charge w sc = (c, sc1)" by force
      show thesis
      proof (cases c)
        case (Inl f)
        then show thesis using turn c 3 t refused by (simp add: charge_turn_def too_large_def)
      next
        case (Inr u)
        then show thesis using turn c 3 t push by (simp add: charge_turn_def too_large_def)
      qed
    qed
  qed
qed

text \<open>What a page holds, event by event from a position on, and the bounds it keeps.\<close>

definition page_holds ::
  "(nat \<Rightarrow> 'e \<Rightarrow> string list) \<Rightarrow> 'e review_snapshot \<Rightarrow> nat \<Rightarrow> page_acc \<Rightarrow> page_acc \<Rightarrow> bool" where
  "page_holds wire s budget a b \<longleftrightarrow> pa_next a \<le> pa_next b \<and> (pa_next a \<le> rv_event_count s \<longrightarrow> pa_next b \<le> rv_event_count s) \<and>
     pa_records b = pa_records a @ map (event_text wire s) (filter (\<lambda>p. \<not> too_large wire s budget p) [pa_next a ..< pa_next b]) \<and>
     pa_skipped b = pa_skipped a @ filter (too_large wire s budget) [pa_next a ..< pa_next b]"

definition page_bounded :: "nat \<Rightarrow> page_acc \<Rightarrow> bool" where
  "page_bounded budget a \<longleftrightarrow> pa_used a = sum_list (map (\<lambda>t. escaped_len t + 1) (pa_records a)) \<and> pa_used a \<le> budget \<and>
     length (pa_records a) \<le> MAX_RECORDS \<and> length (pa_skipped a) \<le> MAX_RECORDS"

lemma page_holds_refl [simp]: "page_holds wire s budget a a"
  by (simp add: page_holds_def)

lemma page_holds_skip:
  assumes "page_holds wire s budget (skip_event a) b" "page_open s a" "too_large wire s budget (pa_next a)"
  shows "page_holds wire s budget a b"
proof -
  have "pa_next a < pa_next b" using assms(1) by (simp add: page_holds_def skip_event_def)
  then show ?thesis using assms upt_conv_Cons [of "pa_next a" "pa_next b"]
    by (simp add: page_holds_def skip_event_def page_open_def)
qed

lemma page_holds_push:
  assumes "page_holds wire s budget (push_event (event_text wire s (pa_next a)) c a) b" "page_open s a"
    "\<not> too_large wire s budget (pa_next a)"
  shows "page_holds wire s budget a b"
proof -
  have "pa_next a < pa_next b" using assms(1) by (simp add: page_holds_def push_event_def)
  then show ?thesis using assms upt_conv_Cons [of "pa_next a" "pa_next b"]
    by (simp add: page_holds_def push_event_def page_open_def)
qed

lemma page_bounded_skip: "page_bounded budget a \<Longrightarrow> page_open s a \<Longrightarrow> page_bounded budget (skip_event a)"
  by (simp add: page_bounded_def page_open_def skip_event_def)

lemma page_bounded_push:
  "page_bounded budget a \<Longrightarrow> page_open s a \<Longrightarrow> pa_used a + (escaped_len t + 1) \<le> budget \<Longrightarrow>
   page_bounded budget (push_event t (escaped_len t + 1) a)"
  by (simp add: page_bounded_def page_open_def push_event_def)

lemma page_loop_open:
  assumes "page_open s a" "checkpoint chk sc = (Inr u, sc1)"
  shows "page_loop chk wire s budget a sc = (case page_turn wire s budget a sc1 of
      None \<Rightarrow> None
    | Some (Failed f, sc) \<Rightarrow> Some (Inl f, sc)
    | Some (Ended, sc) \<Rightarrow> Some (Inr a, sc)
    | Some (Continued b, sc) \<Rightarrow> page_loop chk wire s budget b sc)"
  using assms by (simp add: page_loop.simps [of chk wire s budget a sc])

definition loop_result ::
  "(nat \<Rightarrow> 'e \<Rightarrow> string list) \<Rightarrow> 'e review_snapshot \<Rightarrow> nat \<Rightarrow> page_acc \<Rightarrow>
   ((failed_work + page_acc) \<times> scope) option \<Rightarrow> bool" where
  "loop_result wire s budget a r \<longleftrightarrow> (\<exists>x sc. r = Some (x, sc) \<and> (\<forall>b. x = Inr b \<longrightarrow> page_holds wire s budget a b \<and>
     page_bounded budget b \<and> (page_open s a \<and> pa_records a = [] \<longrightarrow> pa_next a < pa_next b)))"

lemma loop_result_step:
  assumes "loop_result wire s budget c r" "\<And>b. page_holds wire s budget c b \<Longrightarrow> page_holds wire s budget a b"
    "pa_next c = pa_next a + 1"
  shows "loop_result wire s budget a r"
proof -
  have "pa_next a < pa_next b" if "page_holds wire s budget c b" for b
    using that assms(3) by (simp add: page_holds_def)
  then show ?thesis using assms(1,2) unfolding loop_result_def by blast
qed

lemma page_loop_spec:
  "snapshot_ok s \<Longrightarrow> page_bounded budget a \<Longrightarrow> loop_result wire s budget a (page_loop chk wire s budget a sc)"
proof (induction chk wire s budget a sc rule: page_loop.induct)
  case (1 chk wire s budget a sc)
  note bounded = "1.prems"(2)
  show ?case
  proof (cases "page_open s a")
    case False
    then show ?thesis using bounded by (simp add: page_loop.simps [of chk wire s budget a sc] loop_result_def)
  next
    case True
    then have nx: "pa_next a < rv_event_count s" by (simp add: page_open_def)
    obtain c sc1 where c: "checkpoint chk sc = (c, sc1)" by force
    show ?thesis
    proof (cases c)
      case (Inl f)
      then show ?thesis using True c by (simp add: page_loop.simps [of chk wire s budget a sc] loop_result_def)
    next
      case (Inr u)
      note loop = page_loop_open [OF True c [unfolded Inr]]
      note ih = "1.IH" [OF True c [symmetric] Inr _ refl refl "1.prems"(1)]
      show ?thesis
      proof (rule page_turn_spec [OF "1.prems"(1) nx, of wire budget sc1])
        assume t: "too_large wire s budget (pa_next a)" "page_turn wire s budget a sc1 = Some (Continued (skip_event a), sc1)"
        have "loop_result wire s budget (skip_event a) (page_loop chk wire s budget (skip_event a) sc1)"
          by (rule ih [OF t(2) page_bounded_skip [OF bounded True]])
        then have "loop_result wire s budget a (page_loop chk wire s budget (skip_event a) sc1)"
          using page_holds_skip [OF _ True t(1)] by (rule loop_result_step) (simp_all add: skip_event_def)
        then show ?thesis by (simp add: loop t(2))
      next
        assume t: "\<not> too_large wire s budget (pa_next a)"
          "budget < pa_used a + (escaped_len (event_text wire s (pa_next a)) + 1)"
          "page_turn wire s budget a sc1 = Some (Ended, sc1)"
        have "pa_records a \<noteq> []" using t(1,2) bounded by (auto simp: page_bounded_def too_large_def)
        then show ?thesis using bounded by (simp add: loop t(3) loop_result_def)
      next
        fix f sc2
        assume t: "page_turn wire s budget a sc1 = Some (if pa_records a = [] then Failed f else Ended, sc2)"
        show ?thesis using bounded by (auto simp: loop t loop_result_def)
      next
        fix sc2
        let ?t = "event_text wire s (pa_next a)"
        let ?b = "push_event ?t (escaped_len ?t + 1) a"
        assume t: "\<not> too_large wire s budget (pa_next a)" "pa_used a + (escaped_len ?t + 1) \<le> budget"
          "page_turn wire s budget a sc1 = Some (Continued ?b, sc2)"
        have "loop_result wire s budget ?b (page_loop chk wire s budget ?b sc2)"
          by (rule ih [OF t(3) page_bounded_push [OF bounded True t(2)]])
        then have "loop_result wire s budget a (page_loop chk wire s budget ?b sc2)"
        proof (rule loop_result_step)
          show "page_holds wire s budget a b" if "page_holds wire s budget ?b b" for b
            by (rule page_holds_push [OF that True t(1)])
        qed (simp add: push_event_def)
        then show ?thesis by (simp add: loop t(3))
      qed
    qed
  qed
qed

subsection \<open>Pages\<close>

lemma page_start_bounded: "page_bounded budget (page_start fresh n)"
  by (simp add: page_bounded_def page_start_def)

lemma resumed_some:
  assumes "snapshot_ok s"
  shows "\<exists>r. resumed_at sha wire s token = Some r \<and>
    (\<forall>p. r = Inr (Some p) \<longrightarrow> p \<le> rv_event_count s \<and> (\<exists>d. event_digest sha wire s p = Some (Inr d) \<and>
      Option.bind token mark_decode = Some \<lparr>mk_source = snapshot_source s, mk_position = p, mk_digest = d\<rparr>))"
proof (cases "Option.bind token mark_decode")
  case None
  then show ?thesis by (simp add: resumed_at_def)
next
  case (Some m)
  show ?thesis
  proof (cases "mk_source m \<noteq> snapshot_source s \<or> rv_event_count s < mk_position m")
    case True
    then show ?thesis using Some by (auto simp: resumed_at_def)
  next
    case False
    obtain r where r: "event_digest sha wire s (mk_position m) = Some r" using event_digest_some [OF assms, of "mk_position m"] False by auto
    show ?thesis
    proof (cases r)
      case (Inl e)
      then show ?thesis using Some False r by (simp add: resumed_at_def)
    next
      case (Inr d)
      then show ?thesis using Some False r by (cases m) (auto simp: resumed_at_def)
    qed
  qed
qed

lemma page_close_spec:
  assumes "snapshot_ok s" "max (pa_next a) (opt_default 0 resumed) \<le> rv_event_count s"
  shows "\<exists>r sc'. page_close chk sha wire s rq resumed a sc = Some (r, sc') \<and> (\<forall>p. r = Inr p \<longrightarrow>
    rp_records p = pa_records a \<and> rp_skipped p = pa_skipped a \<and> rp_event_start p = opt_default 0 resumed - rq_context_events rq \<and>
    rp_fresh_start p = opt_default 0 resumed \<and> rp_position p = max (pa_next a) (opt_default 0 resumed) \<and>
    (\<exists>d. event_digest sha wire s (rp_position p) = Some (Inr d) \<and>
      rp_watermark p = mark_encode \<lparr>mk_source = snapshot_source s, mk_position = rp_position p, mk_digest = d\<rparr>) \<and>
    rp_caught_up p = (rp_position p = rv_event_count s) \<and> rp_reset p = (rq_watermark rq \<noteq> None \<and> resumed = None))"
proof -
  obtain d where d: "event_digest sha wire s (max (pa_next a) (opt_default 0 resumed)) = Some d"
    using event_digest_some [OF assms] by blast
  show ?thesis
    by (cases d) (auto simp: page_close_def d Let_def sresult_def scope_fail_def sbind_def sreturn_def materialize_def
        checkpoint_def split: option.splits)
qed

text \<open>What a page of a well-formed snapshot is, with the position it resumed from.\<close>

definition page_of ::
  "(string \<Rightarrow> string) \<Rightarrow> (nat \<Rightarrow> 'e \<Rightarrow> string list) \<Rightarrow> 'e review_snapshot \<Rightarrow> review_request \<Rightarrow> nat option \<Rightarrow> page_data \<Rightarrow> bool" where
  "page_of sha wire s rq resumed p \<longleftrightarrow>
     (let fresh = opt_default 0 resumed; start = fresh - rq_context_events rq in
      \<exists>next. start \<le> next \<and> next \<le> rv_event_count s \<and> fresh \<le> rv_event_count s \<and>
        rp_records p = map (event_text wire s) (filter (\<lambda>i. \<not> too_large wire s page_budget i) [start ..< next]) \<and>
        rp_skipped p = filter (too_large wire s page_budget) [start ..< next] \<and>
        rp_event_start p = start \<and> rp_fresh_start p = fresh \<and> rp_position p = max next fresh \<and>
        rp_caught_up p = (rp_position p = rv_event_count s) \<and> rp_reset p = (rq_watermark rq \<noteq> None \<and> resumed = None) \<and>
        sum_list (map (\<lambda>t. escaped_len t + 1) (rp_records p)) \<le> page_budget \<and>
        length (rp_records p) \<le> MAX_RECORDS \<and> length (rp_skipped p) \<le> MAX_RECORDS \<and>
        (start < rv_event_count s \<longrightarrow> start < next) \<and>
        (\<exists>d. event_digest sha wire s (rp_position p) = Some (Inr d) \<and>
          rp_watermark p = mark_encode \<lparr>mk_source = snapshot_source s, mk_position = rp_position p, mk_digest = d\<rparr>))"

lemma review_page_spec:
  assumes ok: "snapshot_ok s"
  shows "\<exists>r sc'. review_page chk sha wire s rq sc = Some (r, sc') \<and> (\<forall>p. r = Inr p \<longrightarrow>
    (\<exists>resumed. resumed_at sha wire s (rq_watermark rq) = Some (Inr resumed) \<and> page_of sha wire s rq resumed p))"
proof -
  obtain c sc1 where c: "checkpoint chk sc = (c, sc1)" by force
  show ?thesis
  proof (cases c)
    case (Inl f)
    then show ?thesis using c by (simp add: review_page_def)
  next
    case u: (Inr u)
    show ?thesis
    proof (cases "\<not> is_some_and (extends_revision s) (rq_revision rq) \<and> rq_revision rq \<noteq> None")
      case True
      then show ?thesis using c u by (simp add: review_page_def scope_fail_def Let_def)
    next
      case False
      obtain r where r: "resumed_at sha wire s (rq_watermark rq) = Some r"
        "\<forall>p. r = Inr (Some p) \<longrightarrow> p \<le> rv_event_count s"
        using resumed_some [OF ok] by metis
      show ?thesis
      proof (cases r)
        case (Inl e)
        then show ?thesis using c u False r by (auto simp: review_page_def scope_fail_def Let_def)
      next
        case res: (Inr resumed)
        let ?fresh = "opt_default 0 resumed"
        let ?a = "page_start ?fresh (rq_context_events rq)"
        have fresh: "?fresh \<le> rv_event_count s" using r(2) res by (cases resumed) simp_all
        have "loop_result wire s page_budget ?a (page_loop chk wire s page_budget ?a sc1)"
          by (rule page_loop_spec [OF ok page_start_bounded])
        then obtain x sc2 where x: "page_loop chk wire s page_budget ?a sc1 = Some (x, sc2)"
          "\<forall>b. x = Inr b \<longrightarrow> page_holds wire s page_budget ?a b \<and> page_bounded page_budget b \<and>
             (page_open s ?a \<and> pa_records ?a = [] \<longrightarrow> pa_next ?a < pa_next b)"
          unfolding loop_result_def by blast
        have run: "review_page chk sha wire s rq sc = (case x of Inl f \<Rightarrow> Some (Inl f, sc2)
            | Inr b \<Rightarrow> page_close chk sha wire s rq resumed b sc2)"
          using c u False r(1) res x(1) by (auto simp: review_page_def split: sum.split)
        show ?thesis
        proof (cases x)
          case (Inl f)
          then show ?thesis using run by simp
        next
          case b: (Inr b)
          have holds: "page_holds wire s page_budget ?a b" "page_bounded page_budget b"
            "page_open s ?a \<longrightarrow> pa_next ?a < pa_next b"
            using x(2) b by (auto simp: page_start_def)
          have opn: "page_open s ?a \<longleftrightarrow> ?fresh - rq_context_events rq < rv_event_count s"
            by (simp add: page_open_def page_start_def MAX_RECORDS_def)
          have "pa_next b \<le> rv_event_count s" using holds(1) fresh by (simp add: page_holds_def page_start_def)
          then obtain r' sc' where close: "page_close chk sha wire s rq resumed b sc2 = Some (r', sc')"
            "\<forall>p. r' = Inr p \<longrightarrow> rp_records p = pa_records b \<and> rp_skipped p = pa_skipped b \<and>
               rp_event_start p = ?fresh - rq_context_events rq \<and> rp_fresh_start p = ?fresh \<and>
               rp_position p = max (pa_next b) ?fresh \<and>
               (\<exists>d. event_digest sha wire s (rp_position p) = Some (Inr d) \<and>
                 rp_watermark p = mark_encode \<lparr>mk_source = snapshot_source s, mk_position = rp_position p, mk_digest = d\<rparr>) \<and>
               rp_caught_up p = (rp_position p = rv_event_count s) \<and> rp_reset p = (rq_watermark rq \<noteq> None \<and> resumed = None)"
            using page_close_spec [OF ok, of b resumed chk sha wire rq sc2] fresh by auto
          have "page_of sha wire s rq resumed p" if u: "r' = Inr p" for p
          proof -
            have q: "rp_records p = pa_records b" "rp_skipped p = pa_skipped b"
              "rp_event_start p = ?fresh - rq_context_events rq" "rp_fresh_start p = ?fresh"
              "rp_position p = max (pa_next b) ?fresh"
              "\<exists>d. event_digest sha wire s (rp_position p) = Some (Inr d) \<and>
                 rp_watermark p = mark_encode \<lparr>mk_source = snapshot_source s, mk_position = rp_position p, mk_digest = d\<rparr>"
              "rp_caught_up p = (rp_position p = rv_event_count s)" "rp_reset p = (rq_watermark rq \<noteq> None \<and> resumed = None)"
              using close(2) u by blast+
            have h: "?fresh - rq_context_events rq \<le> pa_next b"
              "pa_records b = map (event_text wire s) (filter (\<lambda>i. \<not> too_large wire s page_budget i) [?fresh - rq_context_events rq ..< pa_next b])"
              "pa_skipped b = filter (too_large wire s page_budget) [?fresh - rq_context_events rq ..< pa_next b]"
              using holds(1) by (simp_all add: page_holds_def page_start_def)
            have l: "sum_list (map (\<lambda>t. escaped_len t + 1) (pa_records b)) \<le> page_budget"
              "length (pa_records b) \<le> MAX_RECORDS" "length (pa_skipped b) \<le> MAX_RECORDS"
              using holds(2) by (simp_all add: page_bounded_def)
            have o: "?fresh - rq_context_events rq < rv_event_count s \<longrightarrow> ?fresh - rq_context_events rq < pa_next b"
              using holds(3) opn by (simp add: page_start_def)
            show ?thesis
              unfolding page_of_def Let_def q(1-4,7,8)
              using h(1) \<open>pa_next b \<le> rv_event_count s\<close> fresh h(2,3) q(5,6) l o by blast
          qed
          then show ?thesis using run b close(1) r(1) res by auto
        qed
      qed
    qed
  qed
qed

text \<open>C32: A page delivers exactly the events it covers. On a well-formed snapshot every request gets a
  page or a failure, never an index out of range; the records of a page are the texts of the events
  from its start to its end that a page can hold, the skipped positions are the others, in order
  and each once; the page keeps to its bytes and numbers; its watermark names the event before its
  position; and it covers at least one event unless its start is the end.\<close>

theorem review_page_exact:
  assumes "snapshot_ok s"
  shows "\<exists>r sc'. review_page chk sha wire s rq sc = Some (r, sc') \<and> (\<forall>p. r = Inr p \<longrightarrow>
    (\<exists>resumed. resumed_at sha wire s (rq_watermark rq) = Some (Inr resumed) \<and> page_of sha wire s rq resumed p))"
  by (rule review_page_spec [OF assms])

lemma map_sum_Inr: "map_sum id f r = Inr d \<longleftrightarrow> (\<exists>t. r = Inr t \<and> d = f t)"
  by (cases r) auto

lemma page_mark:
  assumes "snapshot_ok s" "page_of sha wire s rq resumed p" "\<forall>t. CHR '':'' \<notin> set (sha t)"
  shows "\<exists>d. event_digest sha wire s (rp_position p) = Some (Inr d) \<and> rp_position p \<le> rv_event_count s \<and>
    mark_decode (rp_watermark p) = Some \<lparr>mk_source = snapshot_source s, mk_position = rp_position p, mk_digest = d\<rparr>"
proof -
  obtain d where d: "event_digest sha wire s (rp_position p) = Some (Inr d)"
    "rp_watermark p = mark_encode \<lparr>mk_source = snapshot_source s, mk_position = rp_position p, mk_digest = d\<rparr>"
    and le: "rp_position p \<le> rv_event_count s"
    using assms(2) unfolding page_of_def Let_def by (metis max.bounded_iff)
  have "CHR '':'' \<notin> set d"
  proof (cases "rp_position p")
    case 0
    then show ?thesis using d(1) by (simp add: event_digest_def)
  next
    case (Suc n)
    then obtain t where "d = take 16 (sha t)"
      using d(1) by (auto simp: event_digest_def bind_eq_Some_conv map_sum_Inr)
    then show ?thesis using assms(3) by (auto dest: in_set_takeD)
  qed
  then have "mark_decode (rp_watermark p) = Some \<lparr>mk_source = snapshot_source s, mk_position = rp_position p, mk_digest = d\<rparr>"
    unfolding d(2) using le assms(1) by (intro mark_roundtrip) (simp_all add: snapshot_ok_def)
  then show ?thesis using d(1) le by blast
qed

lemma page_resumes:
  assumes "snapshot_ok s" "page_of sha wire s rq resumed p" "\<forall>t. CHR '':'' \<notin> set (sha t)"
  shows "resumed_at sha wire s (Some (rp_watermark p)) = Some (Inr (Some (rp_position p)))"
  using page_mark [OF assms] by (auto simp: resumed_at_def)

text \<open>C33: Pages requested without context tile the snapshot and reach its end. A page requested
  with no context events (\<open>rq_context_events = 0\<close>) from the watermark of a page of the same
  snapshot starts at that page's position, is no reset, holds the events up to its own position,
  and moves past that of the page before unless it had caught up; so a reader that goes on asking
  without context sees every event once and comes to the end in as many pages as there are events
  at most. With context events the claim fails: the context can fill the page, and the reader
  then stays where it is (\<open>context_stalls\<close>). The digest of a watermark holds no colon.\<close>

theorem review_pages_tile:
  assumes "snapshot_ok s" "\<forall>t. CHR '':'' \<notin> set (sha t)"
    and "review_page chk sha wire s rq sc = Some (Inr p, sc1)"
    and "review_page chk' sha wire s (rq'\<lparr>rq_watermark := Some (rp_watermark p), rq_context_events := 0\<rparr>) sc' = Some (Inr q, sc2)"
  shows "rp_event_start q = rp_position p \<and> rp_fresh_start q = rp_position p \<and> \<not> rp_reset q \<and>
    (\<not> rp_caught_up p \<longrightarrow> rp_position p < rp_position q) \<and> rp_position q \<le> rv_event_count s \<and>
    rp_records q = map (event_text wire s) (filter (\<lambda>i. \<not> too_large wire s page_budget i) [rp_position p ..< rp_position q]) \<and>
    rp_skipped q = filter (too_large wire s page_budget) [rp_position p ..< rp_position q]"
proof -
  obtain resumed where p: "page_of sha wire s rq resumed p"
    using review_page_spec [OF assms(1), of chk sha wire rq sc] assms(3) by auto
  let ?rq = "rq'\<lparr>rq_watermark := Some (rp_watermark p), rq_context_events := 0\<rparr>"
  have "resumed_at sha wire s (rq_watermark ?rq) = Some (Inr (Some (rp_position p)))"
    using page_resumes [OF assms(1) p assms(2)] by simp
  then have q: "page_of sha wire s ?rq (Some (rp_position p)) q"
    using review_page_spec [OF assms(1), of chk' sha wire ?rq sc'] assms(4) by auto
  have caught: "rp_caught_up p = (rp_position p = rv_event_count s)" "rp_position p \<le> rv_event_count s"
    using p by (auto simp: page_of_def Let_def)
  show ?thesis using q caught by (auto simp: page_of_def Let_def max_def)
qed

text \<open>What context does to progress: as many context events as a page has room for leave no room for
  a fresh one, and the watermark stays where it was.\<close>

lemma filter_lengths: "length (filter P xs) + length (filter (\<lambda>x. \<not> P x) xs) = length xs"
  by (induction xs) auto

theorem context_stalls:
  assumes "snapshot_ok s" "\<forall>t. CHR '':'' \<notin> set (sha t)"
    and "review_page chk sha wire s rq sc = Some (Inr p, sc1)"
    and "2 * MAX_RECORDS \<le> rq_context_events rq" "2 * MAX_RECORDS \<le> rp_fresh_start p"
  shows "rp_position p = rp_fresh_start p \<and>
    (rp_fresh_start p < rv_event_count s \<longrightarrow> \<not> rp_caught_up p) \<and>
    resumed_at sha wire s (Some (rp_watermark p)) = Some (Inr (Some (rp_fresh_start p)))"
proof -
  obtain resumed where p: "page_of sha wire s rq resumed p"
    using review_page_spec [OF assms(1), of chk sha wire rq sc] assms(3) by auto
  let ?start = "rp_fresh_start p - rq_context_events rq"
  obtain nxt where n: "?start \<le> nxt"
    "rp_records p = map (event_text wire s) (filter (\<lambda>i. \<not> too_large wire s page_budget i) [?start ..< nxt])"
    "rp_skipped p = filter (too_large wire s page_budget) [?start ..< nxt]" "rp_position p = max nxt (rp_fresh_start p)"
    "length (rp_records p) \<le> MAX_RECORDS" "length (rp_skipped p) \<le> MAX_RECORDS"
    and caught: "rp_caught_up p = (rp_position p = rv_event_count s)"
    using p unfolding page_of_def Let_def by metis
  have "nxt - ?start \<le> 2 * MAX_RECORDS"
    using n(2,3,5,6) filter_lengths [of "too_large wire s page_budget" "[?start ..< nxt]"] by simp
  then have "nxt \<le> rp_fresh_start p" using n(1) assms(4,5) by linarith
  then have "rp_position p = rp_fresh_start p" using n(4) by simp
  then show ?thesis using page_resumes [OF assms(1) p assms(2)] caught by simp
qed

subsection \<open>An example\<close>

definition sample_snapshot :: "nat review_snapshot" where
  "sample_snapshot = \<lparr>rv_device = 1, rv_inode = 2, rv_window_base = 0, rv_window_start = 0, rv_event_count = 2,
     rv_chunks = [\<lparr>ec_start = 0, ec_entries = [7, 8], ec_charges = [(1, 0), (1, 0)]\<rparr>], rv_path = ''p'', rv_mtime_ns = 0\<rparr>"

definition sample_wire :: "nat \<Rightarrow> nat \<Rightarrow> string list" where
  "sample_wire i e = [''x'']"

definition sample_scope :: scope where
  "sample_scope = scope_borrow \<lparr>wl_read_bytes = 100, wl_source_read_bytes = 100, wl_events = 100, wl_items = 1,
     wl_output_bytes = 100, wl_discovery_entries = 0, wl_sources = 0, wl_deadline = 0\<rparr> JNull"

definition sample_request :: review_request where
  "sample_request = \<lparr>rq_revision = None, rq_watermark = None, rq_context_events = 0\<rparr>"

abbreviation sample_page :: "review_request \<Rightarrow> ((failed_work + page_data) \<times> scope) option" where
  "sample_page rq \<equiv> review_page (\<lambda>_. None) (\<lambda>_. ''ab'') sample_wire sample_snapshot rq sample_scope"

lemma sample_snapshot_ok: "snapshot_ok sample_snapshot"
  by (simp add: snapshot_ok_def sample_snapshot_def usize_max_def)

lemma sample_event: "i < 2 \<Longrightarrow> \<exists>e. event_at sample_snapshot i = Some (e, (1, 0))"
  by (auto simp: event_at_def chunk_before_def partition_point_def nth_of_def sample_snapshot_def less_2_cases_iff)

lemma sample_x: "escaped_len ''x'' = 3"
  by (simp add: escaped_len_def char_cost_def short_escape_def byte_unfold)

definition sample_work :: scope_work where
  "sample_work = \<lparr>sw_read_bytes = 1, sw_events = 1, sw_items = 1, sw_output_bytes = 1\<rparr>"

lemmas sample_turn_defs = page_turn_def event_record_def encode_record_def encode_bounded_exact bound_record_def
  bound_limit_def sample_wire_def MAX_RECORD_BYTES_def sample_x page_budget_def MAX_FRAME_BYTES_def
  PAGE_ENVELOPE_BYTES_def event_charge_def sat_add_def usize_max_def charge_turn_def scope_charge_def
  work_charge_def work_rows_def sample_scope_def scope_borrow_def no_work_def sample_work_def

lemma sample_push:
  assumes "pa_next a < 2" "pa_used a = 0" "sc_used sc = no_work" "sc_limits sc = sc_limits sample_scope"
  shows "page_turn sample_wire sample_snapshot page_budget a sc =
    Some (Continued (push_event ''x'' 4 a), sc\<lparr>sc_used := sample_work\<rparr>)"
proof -
  obtain e where "event_at sample_snapshot (pa_next a) = Some (e, (1, 0))" using sample_event assms(1) by blast
  then show ?thesis using assms by (simp add: sample_turn_defs add_work_def)
qed

lemma sample_full:
  assumes "pa_next a < 2" "pa_used a = 4" "pa_records a \<noteq> []" "sc_used sc = sample_work" "sc_limits sc = sc_limits sample_scope"
  shows "\<exists>sc'. page_turn sample_wire sample_snapshot page_budget a sc = Some (Ended, sc')"
proof -
  obtain e where "event_at sample_snapshot (pa_next a) = Some (e, (1, 0))" using sample_event assms(1) by blast
  then show ?thesis using assms by (simp add: sample_turn_defs scope_fail_def Let_def)
qed

lemma sample_check: "checkpoint (\<lambda>_. None) sc = (Inr (), sc\<lparr>sc_checks := sc_checks sc + 1\<rparr>)"
  by (simp add: checkpoint_def Let_def)

text \<open>A page over the sample from either position holds one event, the item the limits allow.\<close>

lemma sample_loop:
  assumes "i < 2" "sc_used sc = no_work" "sc_limits sc = sc_limits sample_scope"
  shows "\<exists>sc'. page_loop (\<lambda>_. None) sample_wire sample_snapshot page_budget (page_start i 0) sc =
    Some (Inr \<lparr>pa_used = 4, pa_records = [''x''], pa_skipped = [], pa_next = i + 1\<rparr>, sc')"
proof -
  let ?a = "page_start i 0" and ?b = "\<lparr>pa_used = 4, pa_records = [''x''], pa_skipped = [], pa_next = i + 1\<rparr>"
  let ?sc = "sc\<lparr>sc_checks := sc_checks sc + 1, sc_used := sample_work\<rparr>"
  have opn: "page_open sample_snapshot ?a"
    using assms(1) by (simp add: page_open_def page_start_def sample_snapshot_def MAX_RECORDS_def)
  have pushed: "push_event ''x'' 4 ?a = ?b" by (simp add: push_event_def page_start_def)
  have turn: "page_turn sample_wire sample_snapshot page_budget ?a (sc\<lparr>sc_checks := sc_checks sc + 1\<rparr>) =
      Some (Continued ?b, ?sc)"
    using sample_push [of ?a "sc\<lparr>sc_checks := sc_checks sc + 1\<rparr>"] assms unfolding pushed by (simp add: page_start_def)
  have one: "page_loop (\<lambda>_. None) sample_wire sample_snapshot page_budget ?a sc =
      page_loop (\<lambda>_. None) sample_wire sample_snapshot page_budget ?b ?sc"
    by (simp only: page_loop_open [OF opn sample_check] turn option.case prod.case turn_result.case)
  show ?thesis
  proof (cases "page_open sample_snapshot ?b")
    case False
    then have "page_loop (\<lambda>_. None) sample_wire sample_snapshot page_budget ?b ?sc = Some (Inr ?b, ?sc)"
      by (simp only: page_loop.simps [of _ _ _ _ ?b] if_False)
    then show ?thesis unfolding one by blast
  next
    case True
    then have "i + 1 < 2" by (simp add: page_open_def sample_snapshot_def)
    then obtain sc' where "page_turn sample_wire sample_snapshot page_budget ?b (?sc\<lparr>sc_checks := sc_checks ?sc + 1\<rparr>) = Some (Ended, sc')"
      using sample_full [of ?b "?sc\<lparr>sc_checks := sc_checks ?sc + 1\<rparr>"] assms(3) by auto
    then have "page_loop (\<lambda>_. None) sample_wire sample_snapshot page_budget ?b ?sc = Some (Inr ?b, sc')"
      by (simp only: page_loop_open [OF True sample_check] option.case prod.case turn_result.case)
    then show ?thesis unfolding one by blast
  qed
qed

lemma sample_page_ok:
  assumes "resumed_at (\<lambda>_. ''ab'') sample_wire sample_snapshot (rq_watermark rq) = Some (Inr resumed)"
    "opt_default 0 resumed < 2" "rq_context_events rq = 0" "rq_revision rq = None"
  shows "\<exists>p sc. sample_page rq = Some (Inr p, sc) \<and> rp_position p = opt_default 0 resumed + 1"
proof -
  let ?sc = "sample_scope\<lparr>sc_checks := sc_checks sample_scope + 1\<rparr>"
  let ?b = "\<lparr>pa_used = 4, pa_records = [''x''], pa_skipped = [], pa_next = opt_default 0 resumed + 1\<rparr>"
  obtain sc1 where "page_loop (\<lambda>_. None) sample_wire sample_snapshot page_budget (page_start (opt_default 0 resumed) 0) ?sc = Some (Inr ?b, sc1)"
    using sample_loop [OF assms(2), of ?sc] by (auto simp: sample_scope_def scope_borrow_def)
  then have run: "sample_page rq = page_close (\<lambda>_. None) (\<lambda>_. ''ab'') sample_wire sample_snapshot rq resumed ?b sc1"
    using assms by (simp add: review_page_def sample_check)
  have "\<exists>e. event_digest (\<lambda>_. ''ab'') sample_wire sample_snapshot (opt_default 0 resumed + 1) = Some (Inr e)"
  proof -
    obtain r where r: "event_digest (\<lambda>_. ''ab'') sample_wire sample_snapshot (opt_default 0 resumed + 1) = Some r"
      using event_digest_some [OF sample_snapshot_ok, of "opt_default 0 resumed + 1"] assms(2) by (auto simp: sample_snapshot_def)
    then show ?thesis
      by (auto simp: event_digest_def bind_eq_Some_conv sample_wire_def encode_bounded_exact bound_budget_def bound_limit_def usize_max_def)
  qed
  then show ?thesis
    by (auto simp: run page_close_def sresult_def sbind_def sreturn_def materialize_def sample_check Let_def max_def)
qed

lemma sample_first: "\<exists>p sc. sample_page sample_request = Some (Inr p, sc) \<and> rp_position p = 1"
  using sample_page_ok [of sample_request None] by (simp add: sample_request_def resumed_at_def)

theorem marks_roundtrip_witness:
  "mark_decode (mark_encode \<lparr>mk_source = ''1:2:0:0'', mk_position = 42, mk_digest = ''00ff''\<rparr>) =
   Some \<lparr>mk_source = ''1:2:0:0'', mk_position = 42, mk_digest = ''00ff''\<rparr>"
  by (rule marks_roundtrip) (simp_all add: usize_max_def)

theorem review_page_exact_witness: "\<exists>r sc'. sample_page sample_request = Some (r, sc')"
  using review_page_exact [OF sample_snapshot_ok] by blast

theorem review_pages_tile_witness:
  "\<exists>p sc q sc'. sample_page sample_request = Some (Inr p, sc) \<and>
     sample_page (sample_request\<lparr>rq_watermark := Some (rp_watermark p), rq_context_events := 0\<rparr>) = Some (Inr q, sc') \<and>
     rp_position p = 1 \<and> rp_event_start q = 1 \<and> rp_position p < rp_position q"
proof -
  have colon: "\<forall>t :: string. CHR '':'' \<notin> set ''ab''" by simp
  obtain p sc where p: "sample_page sample_request = Some (Inr p, sc)" "rp_position p = 1"
    using sample_first by blast
  obtain resumed where "page_of (\<lambda>_. ''ab'') sample_wire sample_snapshot sample_request resumed p"
    using review_page_spec [OF sample_snapshot_ok, of "\<lambda>_. None" "\<lambda>_. ''ab''" sample_wire sample_request sample_scope] p(1) by auto
  note page = page_resumes [OF sample_snapshot_ok this, OF colon] and caught = this
  let ?rq = "sample_request\<lparr>rq_watermark := Some (rp_watermark p), rq_context_events := 0\<rparr>"
  obtain q sc' where q: "sample_page ?rq = Some (Inr q, sc')"
    using sample_page_ok [of ?rq "Some 1"] page p(2) by (auto simp: sample_request_def)
  have "rp_caught_up p = (rp_position p = rv_event_count sample_snapshot)"
    using caught by (auto simp: page_of_def Let_def)
  then have "\<not> rp_caught_up p" by (simp add: p(2) sample_snapshot_def)
  then show ?thesis using review_pages_tile [OF sample_snapshot_ok colon p(1) q] p q by auto
qed

end
