(* ===== verification/CodexReview.thy ===== *)
theory CodexReview
  imports CodexLower
begin

text \<open>
  \<open>codex/review_continuation.rs\<close>: a codex rollout that grows is lowered again only from the first
  row a new line can change. The continuation keeps the parsed entries, an index of what decides
  the rows (the models, the directories, the session, the texts of messages and where events repeat
  them) and the unfinished last line, which is parsed at once and taken back when more of it
  comes. The byte accounting of its containers (\<open>Vec\<close> and \<open>HashMap\<close> capacities) is left out.
  \<^const>\<open>None\<close> is a panic: a failed \<open>unwrap\<close> or assertion.
\<close>

subsection \<open>Messages and their events\<close>

record echoes =
  ec_texts :: "string set"
  ec_counts :: "string \<Rightarrow> nat option"
  ec_events :: "string \<Rightarrow> nat list option"

definition no_echoes :: echoes where
  "no_echoes = \<lparr>ec_texts = {}, ec_counts = Map.empty, ec_events = Map.empty\<rparr>"

definition first_event :: "echoes \<Rightarrow> string \<Rightarrow> nat option" where
  "first_event ec t = Option.bind (ec_events ec t) (\<lambda>rows. case rows of [] \<Rightarrow> None | r # _ \<Rightarrow> Some r)"

definition add_response :: "string \<Rightarrow> echoes \<Rightarrow> echoes \<times> nat option" where
  "add_response t ec =
     (let n = opt_default 0 (ec_counts ec t) + 1;
          ec = ec\<lparr>ec_counts := (ec_counts ec)(t \<mapsto> n)\<rparr>
      in if n = 1 then (ec\<lparr>ec_texts := insert t (ec_texts ec)\<rparr>, first_event ec t) else (ec, None))"

definition remove_response :: "string \<Rightarrow> echoes \<Rightarrow> (echoes \<times> nat option) option" where
  "remove_response t ec = (case ec_counts ec t of
      None \<Rightarrow> None
    | Some n \<Rightarrow>
        (if n = 0 then None
         else if n - 1 = 0 then
           Some (ec\<lparr>ec_counts := (ec_counts ec)(t := None), ec_texts := ec_texts ec - {t}\<rparr>, first_event ec t)
         else Some (ec\<lparr>ec_counts := (ec_counts ec)(t \<mapsto> n - 1)\<rparr>, None)))"

definition add_event :: "string \<Rightarrow> nat \<Rightarrow> echoes \<Rightarrow> echoes" where
  "add_event t position ec = ec\<lparr>ec_events := (ec_events ec)(t \<mapsto> opt_default [] (ec_events ec t) @ [position])\<rparr>"

definition remove_event :: "string \<Rightarrow> nat \<Rightarrow> echoes \<Rightarrow> echoes option" where
  "remove_event t position ec = (case ec_events ec t of
      None \<Rightarrow> None
    | Some rows \<Rightarrow>
        (if rows = [] \<or> last rows \<noteq> position then None
         else Some (ec\<lparr>ec_events := (ec_events ec)(t := (if butlast rows = [] then None else Some (butlast rows)))\<rparr>)))"

subsection \<open>The continuation\<close>

record continuation =
  cr_entries :: "codex_entry list"
  cr_models :: "(nat \<times> string) list"
  cr_cwds :: "(nat \<times> string) list"
  cr_meta :: "nat option"
  cr_user :: echoes
  cr_assistant :: echoes
  cr_tail :: string
  cr_tail_has_entry :: bool
  cr_next_line :: nat

definition continuation_new :: continuation where
  "continuation_new = \<lparr>cr_entries = [], cr_models = [], cr_cwds = [], cr_meta = None, cr_user = no_echoes,
     cr_assistant = no_echoes, cr_tail = [], cr_tail_has_entry = False, cr_next_line = 0\<rparr>"

definition changed_at :: "nat \<Rightarrow> nat option \<Rightarrow> nat" where
  "changed_at position affected = (case affected of Some a \<Rightarrow> min position a | None \<Rightarrow> position)"

definition add_message :: "string option \<Rightarrow> json list \<Rightarrow> nat \<Rightarrow> continuation \<Rightarrow> continuation \<times> nat" where
  "add_message role content position c =
     (if role = Some ''user'' then
        (case add_response (blocks_text content) (cr_user c) of (ec, affected) \<Rightarrow>
          (c\<lparr>cr_user := ec\<rparr>, changed_at position affected))
      else if role = Some ''assistant'' then
        (case add_response (blocks_text content) (cr_assistant c) of (ec, affected) \<Rightarrow>
          (c\<lparr>cr_assistant := ec\<rparr>, changed_at position affected))
      else (c, position))"

definition add_turn :: "json \<Rightarrow> nat \<Rightarrow> continuation \<Rightarrow> continuation \<times> nat" where
  "add_turn v position c =
     (let changed = (if field_str v ''model'' \<noteq> None \<and> cr_models c = [] then 0 else position);
          c = (case field_str v ''model'' of Some m \<Rightarrow> c\<lparr>cr_models := cr_models c @ [(position, m)]\<rparr> | None \<Rightarrow> c);
          c = (case field_str v ''cwd'' of Some d \<Rightarrow> c\<lparr>cr_cwds := cr_cwds c @ [(position, d)]\<rparr> | None \<Rightarrow> c)
      in (c, changed))"

definition add_facts :: "codex_entry \<Rightarrow> nat \<Rightarrow> continuation \<Rightarrow> continuation \<times> nat" where
  "add_facts e position c = (case cx_item e of
      XSessionMeta m \<Rightarrow>
        (if cr_meta c = None \<and> is_some_and (\<lambda>i. i \<noteq> []) (sm_id m) then (c\<lparr>cr_meta := Some position\<rparr>, 0)
         else (c, position))
    | XTurnContext v \<Rightarrow> add_turn v position c
    | XResponseItem ri \<Rightarrow> (case ri_payload ri of
        RMessage role content _ \<Rightarrow> add_message role content position c
      | _ \<Rightarrow> (c, position))
    | XEventMsg em \<Rightarrow> (case em of
        EUserMessage message _ _ _ \<Rightarrow> (c\<lparr>cr_user := add_event (opt_default [] message) position (cr_user c)\<rparr>, position)
      | EAgentMessage message _ _ \<Rightarrow>
          (c\<lparr>cr_assistant := add_event (opt_default [] message) position (cr_assistant c)\<rparr>, position)
      | _ \<Rightarrow> (c, position))
    | _ \<Rightarrow> (c, position))"

definition remove_message ::
  "string option \<Rightarrow> json list \<Rightarrow> nat \<Rightarrow> continuation \<Rightarrow> (continuation \<times> nat) option" where
  "remove_message role content position c =
     (if role = Some ''user'' then
        map_option (\<lambda>(ec, affected). (c\<lparr>cr_user := ec\<rparr>, changed_at position affected))
          (remove_response (blocks_text content) (cr_user c))
      else if role = Some ''assistant'' then
        map_option (\<lambda>(ec, affected). (c\<lparr>cr_assistant := ec\<rparr>, changed_at position affected))
          (remove_response (blocks_text content) (cr_assistant c))
      else Some (c, position))"

text \<open>\<open>pop().unwrap()\<close> and the assertion on its position.\<close>

definition pop_at :: "nat \<Rightarrow> (nat \<times> string) list \<Rightarrow> (nat \<times> string) list option" where
  "pop_at position xs = (if xs = [] \<or> fst (last xs) \<noteq> position then None else Some (butlast xs))"

definition remove_turn :: "json \<Rightarrow> nat \<Rightarrow> continuation \<Rightarrow> (continuation \<times> nat) option" where
  "remove_turn v position c =
     Option.bind (if field_str v ''model'' = None then Some (c, position)
        else map_option (\<lambda>ms. (c\<lparr>cr_models := ms\<rparr>, if ms = [] then 0 else position)) (pop_at position (cr_models c)))
     (\<lambda>(c, changed).
        if field_str v ''cwd'' = None then Some (c, changed)
        else map_option (\<lambda>ds. (c\<lparr>cr_cwds := ds\<rparr>, changed)) (pop_at position (cr_cwds c)))"

definition remove_facts :: "codex_entry \<Rightarrow> nat \<Rightarrow> continuation \<Rightarrow> (continuation \<times> nat) option" where
  "remove_facts e position c = (case cx_item e of
      XSessionMeta m \<Rightarrow>
        (if cr_meta c = Some position then Some (c\<lparr>cr_meta := None\<rparr>, 0) else Some (c, position))
    | XTurnContext v \<Rightarrow> remove_turn v position c
    | XResponseItem ri \<Rightarrow> (case ri_payload ri of
        RMessage role content _ \<Rightarrow> remove_message role content position c
      | _ \<Rightarrow> Some (c, position))
    | XEventMsg em \<Rightarrow> (case em of
        EUserMessage message _ _ _ \<Rightarrow>
          map_option (\<lambda>ec. (c\<lparr>cr_user := ec\<rparr>, position)) (remove_event (opt_default [] message) position (cr_user c))
      | EAgentMessage message _ _ \<Rightarrow>
          map_option (\<lambda>ec. (c\<lparr>cr_assistant := ec\<rparr>, position))
            (remove_event (opt_default [] message) position (cr_assistant c))
      | _ \<Rightarrow> Some (c, position))
    | _ \<Rightarrow> Some (c, position))"

subsection \<open>Reading\<close>

definition append_line :: "env \<Rightarrow> string \<Rightarrow> continuation \<Rightarrow> (continuation \<times> nat) option" where
  "append_line env line c =
     (let position = length (cr_entries c) in
      case parse_codex_line env line (cr_next_line c) (cr_entries c) of
        Inl _ \<Rightarrow> None
      | Inr es \<Rightarrow>
          (if length es = position then Some (c, position)
           else case add_facts (last es) position c of (c, changed) \<Rightarrow>
             Some (c\<lparr>cr_entries := cr_entries c @ [last es]\<rparr>, changed)))"

text \<open>The unfinished line is parsed, and kept to be parsed again.\<close>

definition append_tail :: "env \<Rightarrow> string \<Rightarrow> continuation \<Rightarrow> (continuation \<times> nat) option" where
  "append_tail env line c =
     map_option (\<lambda>(c', changed).
       (c'\<lparr>cr_tail_has_entry := (length (cr_entries c') \<noteq> length (cr_entries c)), cr_tail := line\<rparr>, changed))
       (append_line env line c)"

text \<open>\<open>line\<close> is what was read of the current line, and \<open>changed\<close> the first row changed so far.\<close>

fun ingest_lines :: "env \<Rightarrow> string \<Rightarrow> string \<Rightarrow> nat \<Rightarrow> continuation \<Rightarrow> (continuation \<times> nat) option" where
  "ingest_lines env line [] changed c =
     (if line = [] then Some (c, changed)
      else map_option (\<lambda>(c, k). (c, min changed k)) (append_tail env line c))"
| "ingest_lines env line (b # bs) changed c =
     (if b = byte 10 then
        Option.bind (append_line env line c) (\<lambda>(c, k).
          ingest_lines env [] bs (min changed k) (c\<lparr>cr_next_line := cr_next_line c + 1\<rparr>))
      else ingest_lines env (line @ [b]) bs changed c)"

definition pop_tail :: "continuation \<Rightarrow> (continuation \<times> nat) option" where
  "pop_tail c =
     (if \<not> cr_tail_has_entry c then Some (c, length (cr_entries c))
      else if cr_entries c = [] then None
      else (let e = last (cr_entries c); c = c\<lparr>cr_entries := butlast (cr_entries c)\<rparr> in
        map_option (\<lambda>(c, k). (c\<lparr>cr_tail_has_entry := False\<rparr>, k)) (remove_facts e (length (cr_entries c)) c)))"

definition ingest :: "env \<Rightarrow> string \<Rightarrow> continuation \<Rightarrow> (continuation \<times> nat) option" where
  "ingest env bytes c = (case bytes of
      [] \<Rightarrow> Some (c, length (cr_entries c))
    | b # bs \<Rightarrow>
        (if cr_tail c \<noteq> [] \<and> b = byte 10 then
           ingest_lines env [] bs (length (cr_entries c))
             (c\<lparr>cr_tail := [], cr_tail_has_entry := False, cr_next_line := cr_next_line c + 1\<rparr>)
         else Option.bind (pop_tail c) (\<lambda>(c, changed).
           ingest_lines env (cr_tail c) bytes changed (c\<lparr>cr_tail := []\<rparr>))))"

subsection \<open>Rows\<close>

definition review_session :: "continuation \<Rightarrow> string \<times> string option" where
  "review_session c = (case Option.bind (cr_meta c) (\<lambda>i.
        case cx_item (cr_entries c ! i) of XSessionMeta m \<Rightarrow> Some m | _ \<Rightarrow> None) of
      Some m \<Rightarrow> (opt_default [] (sm_id m), sm_cwd m)
    | None \<Rightarrow> ([], None))"

definition cwd_before :: "(nat \<Rightarrow> bool) \<Rightarrow> continuation \<Rightarrow> string option" where
  "cwd_before p c = (case takeWhile (\<lambda>(index, _). p index) (cr_cwds c) of
      [] \<Rightarrow> snd (review_session c)
    | ds \<Rightarrow> Some (snd (last ds)))"

definition previous_entry :: "continuation \<Rightarrow> nat \<Rightarrow> codex_entry option" where
  "previous_entry c position = (if position = 0 then None else Some (cr_entries c ! (position - 1)))"

definition review_row ::
  "env \<Rightarrow> (string \<Rightarrow> 8 word list) \<Rightarrow> continuation \<Rightarrow> nat \<Rightarrow> string option \<Rightarrow> entry option" where
  "review_row env sha c position cwd =
     lower_entry env sha (cr_entries c ! position) position (previous_entry c position) (fst (review_session c)) cwd
       (cr_models c) (ec_texts (cr_user c)) (ec_texts (cr_assistant c))"

definition canonical_entry :: "env \<Rightarrow> (string \<Rightarrow> 8 word list) \<Rightarrow> continuation \<Rightarrow> nat \<Rightarrow> entry option" where
  "canonical_entry env sha c position = review_row env sha c position (cwd_before (\<lambda>index. index \<le> position) c)"

record review_delta =
  dl_first_changed :: nat
  dl_entries :: "entry list"
  dl_source_lines :: "nat list"

text \<open>The loop of \<open>delta\<close> over the rows from a position, the directory carried along.\<close>

fun delta_rows ::
  "env \<Rightarrow> (string \<Rightarrow> 8 word list) \<Rightarrow> continuation \<Rightarrow> nat list \<Rightarrow> string option \<Rightarrow> entry list option" where
  "delta_rows env sha c [] cwd = Some []"
| "delta_rows env sha c (p # ps) cwd =
     (let cwd = next_cwd cwd (cr_entries c ! p) in
      Option.bind (review_row env sha c p cwd) (\<lambda>x. map_option (\<lambda>xs. x # xs) (delta_rows env sha c ps cwd)))"

definition delta :: "env \<Rightarrow> (string \<Rightarrow> 8 word list) \<Rightarrow> continuation \<Rightarrow> nat \<Rightarrow> review_delta option" where
  "delta env sha c first_changed =
     (let ps = [first_changed ..< length (cr_entries c)] in
      map_option (\<lambda>xs. \<lparr>dl_first_changed = first_changed, dl_entries = xs,
          dl_source_lines = map (\<lambda>p. cx_line_index (cr_entries c ! p)) ps\<rparr>)
        (delta_rows env sha c ps (cwd_before (\<lambda>index. index < first_changed) c)))"

definition canonical_rows :: "env \<Rightarrow> (string \<Rightarrow> 8 word list) \<Rightarrow> continuation \<Rightarrow> review_delta option" where
  "canonical_rows env sha c = delta env sha c 0"

definition append_bytes ::
  "env \<Rightarrow> (string \<Rightarrow> 8 word list) \<Rightarrow> string \<Rightarrow> continuation \<Rightarrow> (continuation \<times> review_delta) option" where
  "append_bytes env sha bytes c =
     Option.bind (ingest env bytes c) (\<lambda>(c, changed). map_option (\<lambda>d. (c, d)) (delta env sha c changed))"

end
