(* ===== verification/CodexReviewProps.thy ===== *)
theory CodexReviewProps
  imports CodexReview CodexProps
begin

text \<open>
  The continuation of a codex review is correct: its rows are those a lowering of the whole rollout
  gives, however the bytes came, and what an append returns replaces exactly the rows that changed.
  The index is the fold of \<^const>\<open>add_facts\<close> over the entries; \<^const>\<open>remove_facts\<close> undoes its last step.
\<close>

subsection \<open>The index of a list of entries\<close>

definition index_entry :: "continuation \<Rightarrow> nat \<times> codex_entry \<Rightarrow> continuation" where
  "index_entry c pe = (fst (add_facts (snd pe) (fst pe) c))\<lparr>cr_entries := cr_entries c @ [snd pe]\<rparr>"

definition facts_of :: "codex_entry list \<Rightarrow> continuation" where
  "facts_of es = foldl index_entry continuation_new (enumerate 0 es)"

definition changed_by :: "codex_entry list \<Rightarrow> codex_entry \<Rightarrow> nat" where
  "changed_by es e = snd (add_facts e (length es) (facts_of es))"

definition tracked :: "codex_entry list \<Rightarrow> string \<Rightarrow> bool \<Rightarrow> nat \<Rightarrow> continuation" where
  "tracked es tail has_entry next_line =
     (facts_of es)\<lparr>cr_tail := tail, cr_tail_has_entry := has_entry, cr_next_line := next_line\<rparr>"

lemma facts_of_Nil [simp]: "facts_of [] = continuation_new"
  by (simp add: facts_of_def)

lemma facts_of_snoc: "facts_of (es @ [e]) = index_entry (facts_of es) (length es, e)"
  by (simp add: facts_of_def enumerate_append_eq)

lemmas fact_defs = add_facts_def add_message_def add_turn_def remove_facts_def remove_message_def remove_turn_def Let_def

lemma add_facts_entries [simp]: "cr_entries (fst (add_facts e p c)) = cr_entries c"
  by (simp add: fact_defs split: codex_item.split response_payload.split event_msg.split prod.split option.split)

lemma facts_of_entries [simp]: "cr_entries (facts_of es) = es"
  by (induction es rule: rev_induct) (simp_all add: facts_of_snoc index_entry_def continuation_new_def)

lemma add_facts_frame:
  "add_facts e p (c\<lparr>cr_tail := t, cr_tail_has_entry := h, cr_next_line := n\<rparr>) =
     (case add_facts e p c of (d, k) \<Rightarrow> (d\<lparr>cr_tail := t, cr_tail_has_entry := h, cr_next_line := n\<rparr>, k))"
  by (auto simp: fact_defs split: codex_item.split response_payload.split event_msg.split prod.split option.split)

lemma changed_by_le: "changed_by es e \<le> length es"
  by (simp add: changed_by_def fact_defs changed_at_def
      split: codex_item.split response_payload.split event_msg.split prod.split option.split)

subsection \<open>What the index holds\<close>

definition event_rows :: "string \<Rightarrow> codex_entry list \<Rightarrow> string \<Rightarrow> nat list" where
  "event_rows role es t = filter (\<lambda>p. echo_says role (es ! p) = Some t) [0 ..< length es]"

definition echoes_ok :: "string \<Rightarrow> codex_entry list \<Rightarrow> echoes \<Rightarrow> bool" where
  "echoes_ok role es ec \<longleftrightarrow> ec_texts ec = {t. ec_counts ec t \<noteq> None} \<and> (\<forall>t. ec_counts ec t \<noteq> Some 0) \<and>
     (\<forall>t. ec_events ec t = (let ps = event_rows role es t in if ps = [] then None else Some ps)) \<and>
     ec_texts ec = {t. \<exists>e\<in>set es. item_says role e = Some t}"

lemma event_rows_snoc:
  "event_rows role (es @ [e]) t = event_rows role es t @ (if echo_says role e = Some t then [length es] else [])"
proof -
  have "filter (\<lambda>p. echo_says role ((es @ [e]) ! p) = Some t) [0 ..< length es] = event_rows role es t"
    unfolding event_rows_def by (rule filter_cong) (auto simp: nth_append)
  then show ?thesis unfolding event_rows_def by simp
qed

lemma add_facts_user:
  "cr_user (fst (add_facts e p c)) = (case item_says ''user'' e of
      Some t \<Rightarrow> fst (add_response t (cr_user c))
    | None \<Rightarrow> (case echo_says ''user'' e of Some t \<Rightarrow> add_event t p (cr_user c) | None \<Rightarrow> cr_user c))"
  by (simp add: fact_defs item_says_def echo_says_def
      split: codex_item.split response_payload.split event_msg.split prod.split option.split)

lemma add_facts_assistant:
  "cr_assistant (fst (add_facts e p c)) = (case item_says ''assistant'' e of
      Some t \<Rightarrow> fst (add_response t (cr_assistant c))
    | None \<Rightarrow> (case echo_says ''assistant'' e of Some t \<Rightarrow> add_event t p (cr_assistant c) | None \<Rightarrow> cr_assistant c))"
  by (simp add: fact_defs item_says_def echo_says_def
      split: codex_item.split response_payload.split event_msg.split prod.split option.split)

definition turn_text :: "string \<Rightarrow> codex_entry \<Rightarrow> string option" where
  "turn_text key e = (case cx_item e of XTurnContext v \<Rightarrow> field_str v key | _ \<Rightarrow> None)"

lemma add_facts_models:
  "cr_models (fst (add_facts e p c)) = cr_models c @ opt_list (map_option (Pair p) (turn_text ''model'' e))"
  by (simp add: fact_defs turn_text_def split: codex_item.split response_payload.split event_msg.split prod.split option.split)

lemma add_facts_cwds:
  "cr_cwds (fst (add_facts e p c)) = cr_cwds c @ opt_list (map_option (Pair p) (turn_text ''cwd'' e))"
  by (simp add: fact_defs turn_text_def split: codex_item.split response_payload.split event_msg.split prod.split option.split)

lemma add_facts_meta:
  "cr_meta (fst (add_facts e p c)) = opt_or (cr_meta c) (map_option (\<lambda>_. p) (session_meta_of e))"
  by (auto simp: fact_defs session_meta_of_def split: codex_item.split response_payload.split event_msg.split prod.split option.split)

text \<open>The first row an entry changes.\<close>

definition message_change :: "string \<Rightarrow> codex_entry \<Rightarrow> echoes \<Rightarrow> nat option" where
  "message_change role e ec = Option.bind (item_says role e) (\<lambda>t. snd (add_response t ec))"

lemma add_facts_changed:
  "snd (add_facts e p c) =
     (if session_meta_of e \<noteq> None \<and> cr_meta c = None \<or> turn_text ''model'' e \<noteq> None \<and> cr_models c = [] then 0
      else changed_at (changed_at p (message_change ''user'' e (cr_user c))) (message_change ''assistant'' e (cr_assistant c)))"
  by (auto simp: fact_defs session_meta_of_def turn_text_def message_change_def item_says_def changed_at_def
      split: codex_item.split response_payload.split event_msg.split prod.split option.split)

lemma echoes_ok_message:
  assumes "echoes_ok role es ec" "item_says role e = Some t"
  shows "echoes_ok role (es @ [e]) (fst (add_response t ec))"
proof -
  have "echo_says role e = None" using assms(2)
    by (auto simp: item_says_def echo_says_def split: codex_item.splits)
  then show ?thesis using assms
    by (auto simp: echoes_ok_def add_response_def event_rows_snoc Let_def)
qed

lemma echoes_ok_event:
  assumes "echoes_ok role es ec" "echo_says role e = Some t"
  shows "echoes_ok role (es @ [e]) (add_event t (length es) ec)"
proof -
  have "item_says role e = None" using assms(2)
    by (auto simp: item_says_def echo_says_def split: codex_item.splits)
  then show ?thesis using assms
    by (auto simp: echoes_ok_def add_event_def event_rows_snoc Let_def)
qed

lemma echoes_ok_other:
  "echoes_ok role es ec \<Longrightarrow> item_says role e = None \<Longrightarrow> echo_says role e = None \<Longrightarrow> echoes_ok role (es @ [e]) ec"
  by (auto simp: echoes_ok_def event_rows_snoc)

lemma facts_of_user: "echoes_ok ''user'' es (cr_user (facts_of es))"
proof (induction es rule: rev_induct)
  case Nil
  then show ?case by (simp add: echoes_ok_def continuation_new_def no_echoes_def event_rows_def)
next
  case (snoc e es)
  then show ?case
    by (auto simp: facts_of_snoc index_entry_def add_facts_user intro: echoes_ok_message echoes_ok_event echoes_ok_other
        split: option.split)
qed

lemma facts_of_assistant: "echoes_ok ''assistant'' es (cr_assistant (facts_of es))"
proof (induction es rule: rev_induct)
  case Nil
  then show ?case by (simp add: echoes_ok_def continuation_new_def no_echoes_def event_rows_def)
next
  case (snoc e es)
  then show ?case
    by (auto simp: facts_of_snoc index_entry_def add_facts_assistant intro: echoes_ok_message echoes_ok_event echoes_ok_other
        split: option.split)
qed

definition timeline :: "string \<Rightarrow> codex_entry list \<Rightarrow> (nat \<times> string) list" where
  "timeline key es = List.map_filter (\<lambda>(p, e). map_option (Pair p) (turn_text key e)) (enumerate 0 es)"

lemma timeline_snoc:
  "timeline key (es @ [e]) = timeline key es @ opt_list (map_option (Pair (length es)) (turn_text key e))"
  by (simp add: timeline_def enumerate_append_eq map_filter_snoc)

lemma timeline_Nil [simp]: "timeline key [] = []"
  by (simp add: timeline_def List.map_filter_simps)

lemma facts_of_models: "cr_models (facts_of es) = timeline ''model'' es"
  by (induction es rule: rev_induct)
    (simp_all add: facts_of_snoc index_entry_def add_facts_models timeline_snoc continuation_new_def)

lemma facts_of_cwds: "cr_cwds (facts_of es) = timeline ''cwd'' es"
  by (induction es rule: rev_induct)
    (simp_all add: facts_of_snoc index_entry_def add_facts_cwds timeline_snoc continuation_new_def)

lemma model_timeline_eq: "model_timeline s = timeline ''model'' (xs_entries s)"
  unfolding model_timeline_def timeline_def
  by (rule arg_cong [where f = "\<lambda>f. List.map_filter f (enumerate 0 (xs_entries s))"])
    (auto simp: turn_text_def split: codex_item.split)

lemma find_map_snoc: "find_map f (xs @ [x]) = opt_or (find_map f xs) (f x)"
  by (induction xs) (auto split: option.split)

lemma facts_of_meta:
  "case cr_meta (facts_of es) of
     None \<Rightarrow> find_map session_meta_of es = None
   | Some i \<Rightarrow> i < length es \<and> session_meta_of (es ! i) \<noteq> None \<and> find_map session_meta_of es = session_meta_of (es ! i)"
proof (induction es rule: rev_induct)
  case Nil
  then show ?case by (simp add: continuation_new_def)
next
  case (snoc e es)
  then show ?case
    by (cases "session_meta_of e")
      (auto simp: facts_of_snoc index_entry_def add_facts_meta find_map_snoc nth_append split: option.splits)
qed

subsection \<open>Taking an entry back\<close>

lemma remove_add_response:
  assumes "echoes_ok role es ec"
  shows "remove_response t (fst (add_response t ec)) = Some (ec, snd (add_response t ec))"
proof -
  have *: "ec_texts ec - {t} = ec_texts ec" if "ec_counts ec t = None"
    using assms that by (auto simp: echoes_ok_def)
  show ?thesis
  proof (cases "ec_counts ec t")
    case None
    then show ?thesis using * by (simp add: remove_response_def add_response_def first_event_def Let_def fun_upd_idem)
  next
    case (Some n)
    then have "n \<noteq> 0" using assms by (metis echoes_ok_def)
    then show ?thesis using Some by (simp add: remove_response_def add_response_def Let_def fun_upd_idem)
  qed
qed

lemma remove_add_event:
  assumes "echoes_ok role es ec"
  shows "remove_event t p (add_event t p ec) = Some ec"
proof (cases "ec_events ec t")
  case None
  then show ?thesis by (simp add: remove_event_def add_event_def fun_upd_idem)
next
  case (Some rows)
  then have "rows \<noteq> []" using assms by (auto simp: echoes_ok_def Let_def split: if_splits)
  then show ?thesis using Some by (simp add: remove_event_def add_event_def fun_upd_idem)
qed

lemma remove_add_facts:
  assumes u: "echoes_ok ''user'' es (cr_user c)" and a: "echoes_ok ''assistant'' es (cr_assistant c)"
    and m: "cr_meta c \<noteq> Some p"
  shows "remove_facts e p (fst (add_facts e p c)) = Some (c, snd (add_facts e p c))"
proof -
  have pop: "pop_at p (xs @ [(p, x)]) = Some xs" for xs and x :: string by (simp add: pop_at_def)
  show ?thesis
  proof (cases "cx_item e")
    case (XSessionMeta x1)
    then show ?thesis using m by (cases "cr_meta c") (auto simp: remove_facts_def add_facts_def)
  next
    case (XResponseItem ri)
    show ?thesis
    proof (cases "ri_payload ri")
      case (RMessage role content ph)
      then show ?thesis using XResponseItem
        using remove_add_response [OF u, of "blocks_text content"] remove_add_response [OF a, of "blocks_text content"]
        by (auto simp: remove_facts_def add_facts_def add_message_def remove_message_def split: prod.split)
    qed (use XResponseItem in \<open>simp_all add: remove_facts_def add_facts_def\<close>)
  next
    case (XEventMsg em)
    then show ?thesis
      by (cases em) (simp_all add: remove_facts_def add_facts_def remove_add_event [OF u] remove_add_event [OF a])
  next
    case (XTurnContext v)
    have "remove_turn v p (fst (add_turn v p c)) = Some (c, snd (add_turn v p c))"
      by (cases "field_str v ''model''"; cases "field_str v ''cwd''") (simp_all add: add_turn_def remove_turn_def pop)
    then show ?thesis using XTurnContext by (simp add: remove_facts_def add_facts_def)
  qed (simp_all add: remove_facts_def add_facts_def)
qed

text \<open>The state a line is parsed in, whether it is the tail or not, and what parsing it again undoes.\<close>

lemma tracked_sel [simp]:
  "cr_entries (tracked es t h n) = es" "cr_models (tracked es t h n) = cr_models (facts_of es)"
  "cr_cwds (tracked es t h n) = cr_cwds (facts_of es)" "cr_meta (tracked es t h n) = cr_meta (facts_of es)"
  "cr_user (tracked es t h n) = cr_user (facts_of es)" "cr_assistant (tracked es t h n) = cr_assistant (facts_of es)"
  "cr_tail (tracked es t h n) = t" "cr_tail_has_entry (tracked es t h n) = h" "cr_next_line (tracked es t h n) = n"
  by (simp_all add: tracked_def)

lemma tracked_update [simp]:
  "(tracked es t h n)\<lparr>cr_tail := t'\<rparr> = tracked es t' h n"
  "(tracked es t h n)\<lparr>cr_tail_has_entry := h'\<rparr> = tracked es t h' n"
  "(tracked es t h n)\<lparr>cr_next_line := n'\<rparr> = tracked es t h n'"
  by (simp_all add: tracked_def)

lemma tracked_add:
  "add_facts e (length es) (tracked es t h n) = ((tracked (es @ [e]) t h n)\<lparr>cr_entries := es\<rparr>, changed_by es e)"
proof -
  obtain d k where d: "add_facts e (length es) (facts_of es) = (d, k)" by force
  then have "cr_entries d = es" using add_facts_entries [of e "length es" "facts_of es"] by simp
  then have "d = d\<lparr>cr_entries := es\<rparr>" by simp
  then have "d\<lparr>cr_tail := t, cr_tail_has_entry := h, cr_next_line := n\<rparr> =
      d\<lparr>cr_tail := t, cr_tail_has_entry := h, cr_next_line := n, cr_entries := es\<rparr>"
    by (cases d) simp
  then show ?thesis using d
    by (simp add: tracked_def add_facts_frame facts_of_snoc index_entry_def changed_by_def)
qed

lemma tracked_push: "((tracked (es @ [e]) t h n)\<lparr>cr_entries := es\<rparr>)\<lparr>cr_entries := es @ [e]\<rparr> = tracked (es @ [e]) t h n"
proof -
  obtain c where c: "tracked (es @ [e]) t h n = c" by blast
  then have "cr_entries c = es @ [e]" by auto
  then show ?thesis unfolding c by (cases c) simp
qed

lemma tracked_undo:
  "remove_facts e (length es) ((tracked (es @ [e]) t h n)\<lparr>cr_entries := es\<rparr>) = Some (tracked es t h n, changed_by es e)"
proof -
  have "cr_meta (facts_of es) \<noteq> Some (length es)" using facts_of_meta [of es] by auto
  then have "remove_facts e (length es) (fst (add_facts e (length es) (tracked es t h n))) =
      Some (tracked es t h n, snd (add_facts e (length es) (tracked es t h n)))"
    by (intro remove_add_facts [of es]) (simp_all add: facts_of_user facts_of_assistant)
  then show ?thesis by (simp add: tracked_add)
qed

subsection \<open>Rows are the rows of the whole rollout\<close>

lemma tracked_session: "review_session (tracked es t h n) = review_session (facts_of es)"
  by (simp add: review_session_def)

lemma facts_of_session:
  "review_session (facts_of es) = (opt_default [] (xs_rollout_thread_id (fold_session es)), xs_cwd (fold_session es))"
proof (cases "cr_meta (facts_of es)")
  case None
  then show ?thesis using facts_of_meta [of es] by (simp add: review_session_def fold_session_def)
next
  case (Some i)
  then obtain m where m: "session_meta_of (es ! i) = Some m" "find_map session_meta_of es = Some m"
    using facts_of_meta [of es] by auto
  then have "cx_item (es ! i) = XSessionMeta m" by (auto simp: session_meta_of_def split: codex_item.splits if_splits)
  then show ?thesis using Some m by (simp add: review_session_def fold_session_def)
qed

lemma timeline_bound: "(i, x) \<in> set (timeline key es) \<Longrightarrow> i < length es"
proof (induction es rule: rev_induct)
  case (snoc e es)
  then show ?case by (cases "turn_text key e") (auto simp: timeline_snoc)
qed simp

lemma takeWhile_timeline: "takeWhile (\<lambda>(i, _). i < p) (timeline key es) = timeline key (take p es)"
proof (induction es rule: rev_induct)
  case (snoc e es)
  show ?case
  proof (cases "p \<le> length es")
    case True
    have none: "takeWhile (\<lambda>(i, _). i < p) (opt_list (map_option (Pair (length es)) (turn_text key e))) = []"
      using True by (cases "turn_text key e") simp_all
    have "takeWhile (\<lambda>(i, _). i < p) (timeline key (es @ [e])) = takeWhile (\<lambda>(i, _). i < p) (timeline key es)"
    proof (cases "\<forall>y\<in>set (timeline key es). (\<lambda>(i, _). i < p) y")
      case True
      then show ?thesis unfolding timeline_snoc using none
        by (subst takeWhile_append2) (auto simp: takeWhile_eq_all_conv [THEN iffD2])
    next
      case False
      then show ?thesis unfolding timeline_snoc by (auto simp: takeWhile_append1)
    qed
    then show ?thesis using snoc True by simp
  next
    case False
    then have "takeWhile (\<lambda>(i, _). i < p) (timeline key (es @ [e])) = timeline key (es @ [e])"
      by (intro takeWhile_eq_all_conv [THEN iffD2]) (auto dest: timeline_bound)
    then show ?thesis using False by simp
  qed
qed simp

lemma last_timeline_cwd:
  "foldl next_cwd init es = (if timeline ''cwd'' es = [] then init else Some (snd (last (timeline ''cwd'' es))))"
proof (induction es rule: rev_induct)
  case (snoc e es)
  show ?case
  proof (cases "turn_text ''cwd'' e")
    case None
    then have "next_cwd c e = c" for c
      by (auto simp: turn_text_def next_cwd_def split: codex_item.splits)
    then show ?thesis using snoc None by (simp add: timeline_snoc)
  next
    case (Some d)
    then have "next_cwd c e = Some d" for c
      by (auto simp: turn_text_def next_cwd_def split: codex_item.splits)
    then show ?thesis using Some by (simp add: timeline_snoc)
  qed
qed simp

lemma cwd_before_facts:
  "cwd_before (\<lambda>i. i < p) (facts_of es) = foldl next_cwd (xs_cwd (fold_session es)) (take p es)"
  unfolding cwd_before_def facts_of_cwds takeWhile_timeline last_timeline_cwd facts_of_session snd_conv
  by (simp split: list.split)

definition whole_row :: "env \<Rightarrow> (string \<Rightarrow> 8 word list) \<Rightarrow> codex_entry list \<Rightarrow> nat \<Rightarrow> entry option" where
  "whole_row env sha es p = lower_entry env sha (es ! p) p (if p = 0 then None else Some (es ! (p - 1)))
     (opt_default [] (xs_rollout_thread_id (fold_session es)))
     (foldl next_cwd (xs_cwd (fold_session es)) (take (Suc p) es)) (timeline ''model'' es)
     {t. \<exists>e\<in>set es. item_says ''user'' e = Some t} {t. \<exists>e\<in>set es. item_says ''assistant'' e = Some t}"

lemma echoes_texts: "echoes_ok role es ec \<Longrightarrow> ec_texts ec = {t. \<exists>e\<in>set es. item_says role e = Some t}"
  unfolding echoes_ok_def by (elim conjE)

lemmas echo_texts = echoes_texts [OF facts_of_user] echoes_texts [OF facts_of_assistant]

lemma review_row_whole:
  "review_row env sha (tracked es t h n) p (foldl next_cwd (xs_cwd (fold_session es)) (take (Suc p) es)) =
     whole_row env sha es p"
  by (simp add: review_row_def whole_row_def previous_entry_def tracked_session facts_of_session facts_of_models echo_texts)

lemma cwd_before_tracked: "cwd_before q (tracked es t h n) = cwd_before q (facts_of es)"
  unfolding cwd_before_def tracked_session tracked_sel ..

lemma canonical_entry_whole: "canonical_entry env sha (tracked es t h n) p = whole_row env sha es p"
proof -
  have "cwd_before (\<lambda>i. i \<le> p) (tracked es t h n) = foldl next_cwd (xs_cwd (fold_session es)) (take (Suc p) es)"
    using cwd_before_facts [of "Suc p" es] by (simp add: cwd_before_tracked less_Suc_eq_le)
  then show ?thesis by (simp add: canonical_entry_def review_row_whole)
qed

lemma delta_rows_whole:
  assumes "q \<le> length es"
  shows "delta_rows env sha (tracked es t h n) [p ..< q] (foldl next_cwd (xs_cwd (fold_session es)) (take p es)) =
    those (map (whole_row env sha es) [p ..< q])"
  using assms
proof (induction "q - p" arbitrary: p)
  case 0
  then show ?case by simp
next
  case (Suc k)
  then have "p < q" "p < length es" by simp_all
  then have "foldl next_cwd (xs_cwd (fold_session es)) (take (Suc p) es) =
      next_cwd (foldl next_cwd (xs_cwd (fold_session es)) (take p es)) (es ! p)"
    by (simp add: take_Suc_conv_app_nth)
  moreover have "k = q - Suc p" using Suc.hyps(2) by simp
  note Suc.hyps(1) [OF this Suc.prems]
  ultimately show ?case using \<open>p < q\<close>
    by (simp add: upt_conv_Cons flip: review_row_whole [of env sha es t h n]) (simp split: option.split bind_split)
qed

lemma those_take: "those xs = Some ys \<Longrightarrow> those (take n xs) = Some (take n ys)"
proof (induction xs arbitrary: ys n)
  case (Cons x xs)
  then show ?case by (cases n) (auto split: option.splits)
qed simp

lemma lower_from_whole:
  "lower_from one p prev cwd es = those (map (\<lambda>q. one (es ! q) (p + q) (if q = 0 then prev else Some (es ! (q - 1)))
     (foldl next_cwd cwd (take (Suc q) es))) [0 ..< length es])"
proof (induction es arbitrary: p prev cwd)
  case (Cons e es)
  have upt: "[0 ..< length (e # es)] = 0 # map Suc [0 ..< length es]"
    by (simp add: map_Suc_upt upt_conv_Cons del: upt_Suc)
  have tail: "map (\<lambda>q. one (es ! q) (Suc p + q) (if q = 0 then Some e else Some (es ! (q - 1)))
      (foldl next_cwd (next_cwd cwd e) (take (Suc q) es))) [0 ..< length es] =
    map ((\<lambda>q. one ((e # es) ! q) (p + q) (if q = 0 then prev else Some ((e # es) ! (q - 1)))
      (foldl next_cwd cwd (take (Suc q) (e # es)))) \<circ> Suc) [0 ..< length es]"
    by (rule map_cong) (auto simp: nth_Cons')
  show ?case unfolding upt list.map those.simps map_map tail [symmetric] lower_from.simps Cons.IH
    by (auto split: option.split bind_split)
qed simp

lemma echo_sets_texts: "echo_sets s = ({t. \<exists>e\<in>set (xs_entries s). item_says ''user'' e = Some t},
    {t. \<exists>e\<in>set (xs_entries s). item_says ''assistant'' e = Some t})"
  using echo_sets_says [of "''user''" _ s] echo_sets_says [of "''assistant''" _ s]
  by (cases "echo_sets s") (auto simp: echoes_of_def)

lemma lower_whole:
  "map_option cl_entries (lower env sha (fold_session es)) = those (map (whole_row env sha es) [0 ..< length es])"
  unfolding lower_def lower_from_whole
  by (simp add: Let_def echo_sets_texts model_timeline_eq whole_row_def [abs_def] option.map_comp comp_def
      option.map_ident cong: if_cong)

lemma delta_whole:
  assumes "k \<le> length es"
  shows "delta env sha (tracked es t h n) k = map_option (\<lambda>xs. \<lparr>dl_first_changed = k, dl_entries = xs,
     dl_source_lines = map cx_line_index (drop k es)\<rparr>) (those (map (whole_row env sha es) [k ..< length es]))"
proof -
  have "map (\<lambda>p. cx_line_index (es ! p)) [k ..< length es] = map cx_line_index (drop k es)"
    by (rule nth_equalityI) auto
  then show ?thesis using delta_rows_whole [OF order_refl, of env sha es t h n k]
    by (simp add: delta_def cwd_before_tracked cwd_before_facts)
qed

subsection \<open>Only the rows from the first changed one change\<close>

definition unchanged :: "nat \<Rightarrow> codex_entry list \<Rightarrow> codex_entry list \<Rightarrow> bool" where
  "unchanged k es es' \<longleftrightarrow> k \<le> length es \<and> k \<le> length es' \<and>
     (\<forall>env sha. \<forall>p<k. whole_row env sha es p = whole_row env sha es' p)"

lemma unchanged_sym: "unchanged k es es' \<Longrightarrow> unchanged k es' es"
  by (simp add: unchanged_def)

lemma unchanged_refl: "k \<le> length es \<Longrightarrow> unchanged k es es"
  by (simp add: unchanged_def)

lemma unchanged_trans: "unchanged j es es' \<Longrightarrow> unchanged k es' es'' \<Longrightarrow> unchanged (min j k) es es''"
  by (auto simp: unchanged_def)

text \<open>A row sees the texts of messages only where it is an event that repeats one of them.\<close>

lemma lower_entry_texts:
  assumes "\<And>x. echo_says ''user'' e = Some x \<Longrightarrow> x \<in> u \<longleftrightarrow> x \<in> u'"
    and "\<And>x. echo_says ''assistant'' e = Some x \<Longrightarrow> x \<in> a \<longleftrightarrow> x \<in> a'"
  shows "lower_entry env sha e p prev th cwd ms u a = lower_entry env sha e p prev th cwd ms u' a'"
proof (cases "cx_item e")
  case (XEventMsg em)
  have "lower_event em x th ts cwd m u a = lower_event em x th ts cwd m u' a'" for x ts m
    using assms XEventMsg by (cases em) (simp_all add: lower_event_def echo_says_def Let_def)
  then show ?thesis using XEventMsg by (simp add: lower_entry_def split: option.split)
qed (simp_all add: lower_entry_def split: option.split)

lemma first_event_counts [simp]: "first_event (ec\<lparr>ec_counts := f\<rparr>) t = first_event ec t"
  by (simp add: first_event_def)

lemma model_at_snoc:
  assumes "p < n" "ms \<noteq> []"
  shows "model_at (ms @ [(n, m)]) p = model_at ms p"
proof -
  have "find (\<lambda>(i, _). i \<le> p) (rev ms) \<noteq> None \<or> find (\<lambda>(i, _). p < i) ms \<noteq> None"
    using assms(2) by (cases ms) (auto simp: find_None_iff)
  then show ?thesis using assms(1)
    by (auto simp: model_at_def opt_or_def find_append split: option.splits)
qed

lemma echoes_textset:
  assumes "echoes_ok role es ec"
  shows "t \<in> ec_texts ec \<longleftrightarrow> opt_default 0 (ec_counts ec t) \<noteq> 0"
proof (cases "ec_counts ec t")
  case (Some n)
  then have "n \<noteq> 0" using assms by (metis echoes_ok_def)
  then show ?thesis using assms Some by (auto simp: echoes_ok_def)
qed (use assms in \<open>auto simp: echoes_ok_def\<close>)

lemma message_change_none:
  assumes "echoes_ok role es ec" "message_change role e ec = None" "p < length es" "echo_says role (es ! p) = Some t"
  shows "(\<exists>e'\<in>set (es @ [e]). item_says role e' = Some t) \<longleftrightarrow> (\<exists>e'\<in>set es. item_says role e' = Some t)"
proof -
  have "p \<in> set (event_rows role es t)" using assms(3,4) by (simp add: event_rows_def)
  then have "first_event ec t \<noteq> None" using assms(1)
    by (auto simp: echoes_ok_def first_event_def Let_def split: list.split)
  then have "item_says role e = Some t \<Longrightarrow> t \<in> ec_texts ec"
    using assms(2) unfolding echoes_textset [OF assms(1)]
    by (auto simp: message_change_def add_response_def Let_def split: if_splits)
  then show ?thesis using echoes_texts [OF assms(1)] by auto
qed

lemma message_change_some:
  assumes "echoes_ok role es ec" "message_change role e ec = Some k" "p < k" "p < length es" "echo_says role (es ! p) = Some t"
  shows "(\<exists>e'\<in>set (es @ [e]). item_says role e' = Some t) \<longleftrightarrow> (\<exists>e'\<in>set es. item_says role e' = Some t)"
proof -
  obtain x where x: "item_says role e = Some x" "first_event ec x = Some k"
    using assms(2) by (auto simp: message_change_def add_response_def Let_def bind_eq_Some_conv split: if_splits)
  then have "event_rows role es x \<noteq> [] \<and> hd (event_rows role es x) = k"
    using assms(1) by (auto simp: echoes_ok_def first_event_def Let_def split: if_splits list.splits)
  moreover have "sorted (event_rows role es x)" by (simp add: event_rows_def sorted_wrt_filter)
  ultimately have "p \<notin> set (event_rows role es x)"
    using assms(3) by (cases "event_rows role es x") auto
  then have "x \<noteq> t" using assms(4,5) by (auto simp: event_rows_def)
  then show ?thesis using x(1) by auto
qed

lemma unchanged_snoc: "unchanged (changed_by es e) es (es @ [e])"
proof -
  let ?c = "facts_of es"
  have "whole_row env sha es p = whole_row env sha (es @ [e]) p" if p: "p < changed_by es e" for env sha p
  proof -
    have not0: "\<not> (session_meta_of e \<noteq> None \<and> cr_meta ?c = None \<or> turn_text ''model'' e \<noteq> None \<and> cr_models ?c = [])"
      and le: "p < changed_at (changed_at (length es) (message_change ''user'' e (cr_user ?c)))
        (message_change ''assistant'' e (cr_assistant ?c))"
      using p unfolding changed_by_def add_facts_changed by (auto split: if_splits)
    have pl: "p < length es" using p changed_by_le [of es e] by linarith
    have sess: "find_map session_meta_of (es @ [e]) = find_map session_meta_of es"
      using not0 facts_of_meta [of es] by (cases "cr_meta ?c") (auto simp: find_map_snoc)
    have fold: "xs_rollout_thread_id (fold_session (es @ [e])) = xs_rollout_thread_id (fold_session es)"
      "xs_cwd (fold_session (es @ [e])) = xs_cwd (fold_session es)"
      unfolding fold_session_def sess by (simp_all split: option.split)
    have models: "model_at (timeline ''model'' (es @ [e])) p = model_at (timeline ''model'' es) p"
      using not0 model_at_snoc [OF pl] by (cases "turn_text ''model'' e") (auto simp: timeline_snoc facts_of_models)
    have user: "(\<exists>e'\<in>set (es @ [e]). item_says ''user'' e' = Some t) \<longleftrightarrow> (\<exists>e'\<in>set es. item_says ''user'' e' = Some t)"
      if "echo_says ''user'' (es ! p) = Some t" for t
      using message_change_none [OF facts_of_user _ pl that] message_change_some [OF facts_of_user _ _ pl that] le
      by (cases "message_change ''user'' e (cr_user ?c)") (auto simp: changed_at_def split: option.splits)
    have assistant: "(\<exists>e'\<in>set (es @ [e]). item_says ''assistant'' e' = Some t) \<longleftrightarrow>
        (\<exists>e'\<in>set es. item_says ''assistant'' e' = Some t)"
      if "echo_says ''assistant'' (es ! p) = Some t" for t
      using message_change_none [OF facts_of_assistant _ pl that] message_change_some [OF facts_of_assistant _ _ pl that] le
      by (cases "message_change ''assistant'' e (cr_assistant ?c)") (auto simp: changed_at_def split: option.splits)
    have at: "(es @ [e]) ! p = es ! p" "(es @ [e]) ! (p - 1) = es ! (p - 1)" using pl by (simp_all add: nth_append)
    have "lower_entry env sha (es ! p) p prev th cwd (timeline ''model'' (es @ [e])) u a =
        lower_entry env sha (es ! p) p prev th cwd (timeline ''model'' es) u a" for prev th cwd u a
      unfolding lower_entry_def models ..
    note timeline = this
    have "lower_entry env sha (es ! p) p prev th cwd ms
          {t. \<exists>e'\<in>set es. item_says ''user'' e' = Some t} {t. \<exists>e'\<in>set es. item_says ''assistant'' e' = Some t} =
        lower_entry env sha (es ! p) p prev th cwd ms
          {t. \<exists>e'\<in>set (es @ [e]). item_says ''user'' e' = Some t}
          {t. \<exists>e'\<in>set (es @ [e]). item_says ''assistant'' e' = Some t}" for prev th cwd ms
      by (rule lower_entry_texts) (simp_all only: mem_Collect_eq user assistant)
    moreover have "take (Suc p) (es @ [e]) = take (Suc p) es" using pl by simp
    ultimately show ?thesis unfolding whole_row_def at fold timeline by simp
  qed
  then show ?thesis using changed_by_le [of es e] by (simp add: unchanged_def)
qed

subsection \<open>Reading\<close>

text \<open>A text read line by line: the entries of its complete lines, those of the line under way, that
  line and its number.\<close>

fun walk_lines :: "env \<Rightarrow> nat \<Rightarrow> string \<Rightarrow> string \<Rightarrow> parse_error + (codex_entry list \<times> codex_entry list \<times> string \<times> nat)" where
  "walk_lines env n line [] = res_bind (codex_line env n line) (\<lambda>ts. Inr ([], ts, line, n))"
| "walk_lines env n line (b # bs) =
     (if b = byte 10 then res_bind (codex_line env n line) (\<lambda>es.
        res_bind (walk_lines env (Suc n) [] bs) (\<lambda>(ds, r). Inr (es @ ds, r)))
      else walk_lines env n (line @ [b]) bs)"

lemma codex_walk_split:
  "codex_walk env line n bs es = map_sum id (\<lambda>(ds, ts, _). es @ ds @ ts) (walk_lines env n line bs)"
proof (induction env n line bs arbitrary: es rule: walk_lines.induct)
  case (1 env n line)
  then show ?case by (cases "codex_line env n line") (auto simp: parse_codex_line_def)
next
  case (2 env n line b bs)
  show ?case
  proof (cases "b = byte 10")
    case True
    then show ?thesis using "2.IH"(1)
      by (cases "codex_line env n line"; cases "walk_lines env (Suc n) [] bs") (auto simp: parse_codex_line_def)
  next
    case False
    then show ?thesis using "2.IH"(2) by simp
  qed
qed

lemma walk_lines_append:
  "walk_lines env n line bs = Inr (ds, ts, cur, m) \<Longrightarrow>
   walk_lines env n line (bs @ cs) = map_sum id (\<lambda>(ds', r). (ds @ ds', r)) (walk_lines env m cur cs)"
proof (induction env n line bs arbitrary: ds ts cur m rule: walk_lines.induct)
  case (1 env n line)
  then show ?case by (cases "codex_line env n line"; cases "walk_lines env n line cs") auto
next
  case (2 env n line b bs)
  show ?case
  proof (cases "b = byte 10")
    case True
    then obtain es ds' where l: "codex_line env n line = Inr es" "walk_lines env (Suc n) [] bs = Inr (ds', ts, cur, m)" "ds = es @ ds'"
      using "2.prems" by (cases "codex_line env n line"; cases "walk_lines env (Suc n) [] bs") auto
    show ?thesis using "2.IH"(1) [OF True l(2)] True l(1,3)
      by (cases "walk_lines env m cur cs") auto
  next
    case False
    then show ?thesis using "2.IH"(2) "2.prems" by simp
  qed
qed

lemma walk_lines_tail: "walk_lines env n line bs = Inr (ds, ts, cur, m) \<Longrightarrow> codex_line env m cur = Inr ts"
proof (induction env n line bs arbitrary: ds rule: walk_lines.induct)
  case (1 env n line)
  then show ?case by (cases "codex_line env n line") auto
next
  case (2 env n line b bs)
  then show ?case
    by (cases "b = byte 10"; cases "codex_line env n line"; cases "walk_lines env (Suc n) [] bs") auto
qed

lemma codex_line_single: "codex_line env n line = Inr es \<Longrightarrow> es = [] \<or> (\<exists>e. es = [e])"
  by (drule codex_line_shape) (auto split: if_splits)

lemma append_line_tracked:
  assumes "codex_line env n line = Inr ts"
  shows "\<exists>k. append_line env line (tracked es t h n) = Some (tracked (es @ ts) t h n, k) \<and> unchanged k es (es @ ts)"
proof (cases "ts = []")
  case True
  then show ?thesis using assms by (simp add: append_line_def parse_codex_line_def unchanged_refl)
next
  case False
  then obtain e where e: "ts = [e]" using codex_line_single [OF assms] by auto
  then show ?thesis using assms unchanged_snoc [of es e]
    by (simp add: append_line_def parse_codex_line_def tracked_add tracked_push)
qed

lemma append_line_fails: "codex_line env n line = Inl x \<Longrightarrow> append_line env line (tracked es t h n) = None"
  by (simp add: append_line_def parse_codex_line_def)

lemma append_tail_tracked:
  assumes "codex_line env n line = Inr ts"
  shows "\<exists>k. append_tail env line (tracked es t h n) = Some (tracked (es @ ts) line (ts \<noteq> []) n, k) \<and> unchanged k es (es @ ts)"
  using append_line_tracked [OF assms, of es t h] by (auto simp: append_tail_def)

lemma ingest_lines_walk:
  assumes "unchanged ch es0 es"
  shows "case walk_lines env n line bs of
      Inl _ \<Rightarrow> ingest_lines env line bs ch (tracked es [] False n) = None
    | Inr (ds, ts, cur, m) \<Rightarrow> \<exists>k. ingest_lines env line bs ch (tracked es [] False n) =
        Some (tracked (es @ ds @ ts) cur (ts \<noteq> []) m, k) \<and> unchanged k es0 (es @ ds @ ts)"
  using assms
proof (induction env n line bs arbitrary: es ch rule: walk_lines.induct)
  case (1 env n line)
  show ?case
  proof (cases "codex_line env n line")
    case (Inl x)
    then have "line \<noteq> []" by auto
    then show ?thesis using Inl by (simp add: append_tail_def append_line_fails)
  next
    case (Inr ts)
    obtain k where "append_tail env line (tracked es [] False n) = Some (tracked (es @ ts) line (ts \<noteq> []) n, k)"
        "unchanged k es (es @ ts)"
      using append_tail_tracked [OF Inr] by blast
    then show ?thesis using Inr 1 unchanged_trans [OF 1] by (cases "line = []") auto
  qed
next
  case (2 env n line b bs)
  show ?case
  proof (cases "b = byte 10")
    case False
    then show ?thesis using "2.IH"(2) [OF False "2.prems"]
      by (cases "walk_lines env n (line @ [b]) bs") auto
  next
    case True
    show ?thesis
    proof (cases "codex_line env n line")
      case (Inl x)
      then show ?thesis using True by (simp add: append_line_fails)
    next
      case (Inr ls)
      obtain k where k: "append_line env line (tracked es [] False n) = Some (tracked (es @ ls) [] False n, k)"
          "unchanged k es (es @ ls)"
        using append_line_tracked [OF Inr] by blast
      then show ?thesis
        using "2.IH"(1) [OF True unchanged_trans [OF "2.prems" k(2)]] True Inr k(1)
        by (cases "walk_lines env (Suc n) [] bs") auto
    qed
  qed
qed

text \<open>The state after a text.\<close>

definition reads :: "env \<Rightarrow> string \<Rightarrow> continuation \<Rightarrow> bool" where
  "reads env text_read c \<longleftrightarrow> (\<exists>ds ts cur m. walk_lines env 0 [] text_read = Inr (ds, ts, cur, m) \<and>
     c = tracked (ds @ ts) cur (ts \<noteq> []) m)"

lemma reads_new: "reads env [] continuation_new"
  by (simp add: reads_def tracked_def continuation_new_def)

lemma pop_tail_tracked:
  assumes "ts = [] \<or> (\<exists>e. ts = [e])"
  shows "\<exists>k. pop_tail (tracked (ds @ ts) cur (ts \<noteq> []) m) = Some (tracked ds cur False m, k) \<and> unchanged k (ds @ ts) ds"
proof (cases "ts = []")
  case True
  then show ?thesis by (simp add: pop_tail_def unchanged_refl)
next
  case False
  then obtain e where "ts = [e]" using assms by auto
  then show ?thesis using tracked_undo [of e ds cur True m] unchanged_sym [OF unchanged_snoc [of ds e]]
    by (simp add: pop_tail_def Let_def)
qed

lemma ingest_reads:
  assumes "reads env a c"
  shows "case walk_lines env 0 [] (a @ bytes) of
      Inl _ \<Rightarrow> ingest env bytes c = None
    | Inr (ds, ts, _) \<Rightarrow> \<exists>c' k. ingest env bytes c = Some (c', k) \<and> reads env (a @ bytes) c' \<and>
        cr_entries c' = ds @ ts \<and> unchanged k (cr_entries c) (ds @ ts)"
proof -
  obtain ds ts cur m where w: "walk_lines env 0 [] a = Inr (ds, ts, cur, m)" and c: "c = tracked (ds @ ts) cur (ts \<noteq> []) m"
    using assms by (auto simp: reads_def)
  note tail = walk_lines_tail [OF w] and whole = walk_lines_append [OF w, of bytes]
  show ?thesis
  proof (cases bytes)
    case Nil
    then show ?thesis using assms w c by (simp add: ingest_def unchanged_refl)
  next
    case (Cons b bs)
    show ?thesis
    proof (cases "cur \<noteq> [] \<and> b = byte 10")
      case True
      have run: "ingest env bytes c = ingest_lines env [] bs (length (ds @ ts)) (tracked (ds @ ts) [] False (Suc m))"
        using True Cons by (simp add: ingest_def c)
      have "walk_lines env m cur bytes = res_bind (walk_lines env (Suc m) [] bs) (\<lambda>(ds', r). Inr (ts @ ds', r))"
        using True Cons tail by simp
      then show ?thesis unfolding run whole
        using ingest_lines_walk [OF unchanged_refl [OF order_refl, of "ds @ ts"], where env = env and n = "Suc m" and line = "[]" and bs = bs]
        by (cases "walk_lines env (Suc m) [] bs") (auto simp: reads_def whole c)
    next
      case False
      obtain k where k: "pop_tail c = Some (tracked ds cur False m, k)" "unchanged k (ds @ ts) ds"
        using pop_tail_tracked [OF codex_line_single [OF tail]] c by blast
      have run: "ingest env bytes c = ingest_lines env cur bytes k (tracked ds [] False m)"
        using False Cons k(1) by (auto simp: ingest_def c)
      show ?thesis unfolding run whole
        using ingest_lines_walk [OF k(2), where env = env and n = m and line = cur and bs = bytes]
        by (cases "walk_lines env m cur bytes") (auto simp: reads_def whole c)
    qed
  qed
qed

fun review_run :: "env \<Rightarrow> string list \<Rightarrow> continuation \<Rightarrow> continuation option" where
  "review_run env [] c = Some c"
| "review_run env (b # bs) c = Option.bind (ingest env b c) (\<lambda>(c, _). review_run env bs c)"

lemma codex_parse_walk_lines:
  "parse_codex_bytes env a = map_sum id (\<lambda>(ds, ts, _). fold_session (ds @ ts)) (walk_lines env 0 [] a)"
  by (cases "walk_lines env 0 [] a") (auto simp: parse_codex_bytes_def codex_walk_split)

lemma review_run_reads:
  "reads env a c \<Longrightarrow> review_run env chunks c = Some c' \<Longrightarrow> reads env (a @ concat chunks) c'"
proof (induction chunks arbitrary: a c)
  case (Cons b bs)
  then obtain c1 k where b: "ingest env b c = Some (c1, k)" "review_run env bs c1 = Some c'"
    by (auto simp: bind_eq_Some_conv)
  have "reads env (a @ b) c1"
    using ingest_reads [OF Cons.prems(1), of b] b(1) by (cases "walk_lines env 0 [] (a @ b)") auto
  from Cons.IH [OF this b(2)] show ?case by simp
qed simp

lemma reads_entries:
  assumes "reads env a c"
  shows "parse_codex_bytes env a = Inr (fold_session (cr_entries c))"
    "\<exists>t h n. c = tracked (cr_entries c) t h n"
  using assms by (simp add: reads_def codex_parse_walk_lines; elim exE conjE; hypsubst; simp; blast)+

lemma parsed_lowers:
  assumes "\<forall>x. 16 \<le> length (sha x)" "parse_codex_bytes env a = Inr (fold_session es)"
  shows "\<exists>rows. lower env sha (fold_session es) = Some rows \<and> those (map (whole_row env sha es) [0 ..< length es]) = Some (cl_entries rows)"
proof -
  have "\<forall>e\<in>set (xs_entries (fold_session es)). item_ok (cx_item e)"
    using parse_codex_items_ok [OF assms(2)] parsed_line_ok by blast
  then obtain rows where "lower env sha (fold_session es) = Some rows"
    using lower_total [OF assms(1), of "fold_session es" env] by blast
  then show ?thesis using lower_whole [of env sha es] by simp
qed

lemma those_upt_split: "k \<le> n \<Longrightarrow> those (map f [0 ..< n]) = Some xs \<Longrightarrow>
    those (map f [k ..< n]) = Some (drop k xs) \<and> those (map f [0 ..< k]) = Some (take k xs)"
proof -
  assume k: "k \<le> n" and xs: "those (map f [0 ..< n]) = Some xs"
  have "map f [0 ..< n] = map f [0 ..< k] @ map f [k ..< n]"
    using k upt_add_eq_append [of 0 k "n - k"] by simp
  moreover have t: "those (map f [0 ..< k]) = Some (take k xs)"
    using those_take [OF xs, of k] k by (simp add: take_map)
  ultimately obtain ys where "those (map f [k ..< n]) = Some ys" "xs = take k xs @ ys"
    using xs by (auto simp: those_append bind_eq_Some_conv)
  then show ?thesis using t by (metis append_take_drop_id same_append_eq)
qed

lemma append_bytes_rows:
  assumes sha: "\<forall>x. 16 \<le> length (sha x)" and c: "reads env a c" and new: "parse_codex_bytes env (a @ bytes) = Inr new"
    and rows: "lower env sha (fold_session (cr_entries c)) = Some rows"
  shows "\<exists>c' d rows'. append_bytes env sha bytes c = Some (c', d) \<and> lower env sha new = Some rows' \<and>
    cl_entries rows' = take (dl_first_changed d) (cl_entries rows) @ dl_entries d \<and>
    dl_source_lines d = map cx_line_index (drop (dl_first_changed d) (xs_entries new))"
proof -
  obtain c' k where c': "ingest env bytes c = Some (c', k)" "reads env (a @ bytes) c'" "unchanged k (cr_entries c) (cr_entries c')"
    using ingest_reads [OF c, of bytes] new
    by (cases "walk_lines env 0 [] (a @ bytes)") (auto simp: codex_parse_walk_lines)
  let ?es = "cr_entries c" and ?es' = "cr_entries c'"
  have n: "new = fold_session ?es'" using reads_entries(1) [OF c'(2)] new by simp
  obtain rows' where rows': "lower env sha (fold_session ?es') = Some rows'"
      "those (map (whole_row env sha ?es') [0 ..< length ?es']) = Some (cl_entries rows')"
    using parsed_lowers [OF sha reads_entries(1) [OF c'(2)]] by blast
  have old: "those (map (whole_row env sha ?es) [0 ..< length ?es]) = Some (cl_entries rows)"
    using rows lower_whole [of env sha ?es] by simp
  have k: "k \<le> length ?es" "k \<le> length ?es'" using c'(3) by (auto simp: unchanged_def)
  have same: "map (whole_row env sha ?es) [0 ..< k] = map (whole_row env sha ?es') [0 ..< k]"
    by (rule map_cong) (use c'(3) in \<open>auto simp: unchanged_def\<close>)
  have "take k (cl_entries rows) = take k (cl_entries rows')"
    using those_upt_split [OF k(1) old] those_upt_split [OF k(2) rows'(2)] unfolding same by (metis option.inject)
  moreover obtain t h m where "c' = tracked ?es' t h m" using reads_entries(2) [OF c'(2)] by blast
  then have "delta env sha c' k = Some \<lparr>dl_first_changed = k, dl_entries = drop k (cl_entries rows'),
      dl_source_lines = map cx_line_index (drop k ?es')\<rparr>"
    using delta_whole [OF k(2), of env sha t h m] those_upt_split [OF k(2) rows'(2)] by simp
  ultimately show ?thesis using c'(1) rows'(1) n by (auto simp: append_bytes_def)
qed

text \<open>C34: Reviewing a codex rollout as it grows agrees with lowering it whole. However the bytes are
  cut into chunks, the continuation that took them has the rows, and their source lines, that
  parsing and lowering the concatenation gives; and taking more bytes returns a first changed row
  and rows that, put after the old rows up to there, are exactly the rows of the longer rollout. It
  never panics unless parsing the longer text does.\<close>

theorem codex_review_incremental:
  assumes sha: "\<forall>x. 16 \<le> length (sha x)" and run: "review_run env chunks continuation_new = Some c"
  shows "\<exists>old rows. parse_codex_bytes env (concat chunks) = Inr old \<and> lower env sha old = Some rows \<and>
    canonical_rows env sha c = Some \<lparr>dl_first_changed = 0, dl_entries = cl_entries rows,
      dl_source_lines = map cx_line_index (xs_entries old)\<rparr> \<and>
    (\<forall>bytes. case parse_codex_bytes env (concat chunks @ bytes) of
        Inl _ \<Rightarrow> ingest env bytes c = None
      | Inr new \<Rightarrow> \<exists>c' d rows'. append_bytes env sha bytes c = Some (c', d) \<and> lower env sha new = Some rows' \<and>
          cl_entries rows' = take (dl_first_changed d) (cl_entries rows) @ dl_entries d \<and>
          dl_source_lines d = map cx_line_index (drop (dl_first_changed d) (xs_entries new)))"
proof -
  have c: "reads env (concat chunks) c" using review_run_reads [OF reads_new run] by simp
  obtain rows where rows: "lower env sha (fold_session (cr_entries c)) = Some rows"
      "those (map (whole_row env sha (cr_entries c)) [0 ..< length (cr_entries c)]) = Some (cl_entries rows)"
    using parsed_lowers [OF sha reads_entries(1) [OF c]] by blast
  obtain t h m where tr: "c = tracked (cr_entries c) t h m" using reads_entries(2) [OF c] by blast
  have "canonical_rows env sha c = Some \<lparr>dl_first_changed = 0, dl_entries = cl_entries rows,
      dl_source_lines = map cx_line_index (cr_entries c)\<rparr>"
    unfolding canonical_rows_def using delta_whole [of 0 "cr_entries c" env sha t h m] rows(2) tr by simp
  moreover have "ingest env bytes c = None" if "parse_codex_bytes env (concat chunks @ bytes) = Inl e" for bytes e
    using ingest_reads [OF c, of bytes] that
    by (cases "walk_lines env 0 [] (concat chunks @ bytes)") (auto simp: codex_parse_walk_lines)
  ultimately show ?thesis using reads_entries(1) [OF c] rows(1) append_bytes_rows [OF sha c _ rows(1)]
    by (auto split: sum.split)
qed

text \<open>A rollout taken in two chunks that cut its first line off from its newline.\<close>

lemma sample_review_run:
  "\<exists>c. review_run sample_rollout_env [''m'', [byte 10, byte 10] @ ''x''] continuation_new = Some c"
proof -
  have 1: "parse_codex_bytes sample_rollout_env ''m'' = Inr (fold_session [\<lparr>cx_line_index = 0, cx_timestamp = Some sample_time_2,
     cx_item = XResponseItem sample_item, cx_source = None\<rparr>])"
    using sample_message_line by (simp add: parse_codex_lines byte_unfold)
  obtain c k where c: "ingest sample_rollout_env ''m'' continuation_new = Some (c, k)" "reads sample_rollout_env ''m'' c"
    using ingest_reads [OF reads_new, of sample_rollout_env "''m''"] 1
    by (cases "walk_lines sample_rollout_env 0 [] ''m''") (auto simp: codex_parse_walk_lines)
  have "parse_codex_bytes sample_rollout_env (''m'' @ [byte 10, byte 10] @ ''x'') = Inr sample_session"
    using sample_rollout_parses by (simp add: sample_rollout_def)
  then obtain c' k' where "ingest sample_rollout_env ([byte 10, byte 10] @ ''x'') c = Some (c', k')"
    using ingest_reads [OF c(2), of "[byte 10, byte 10] @ ''x''"]
    by (cases "walk_lines sample_rollout_env 0 [] (''m'' @ [byte 10, byte 10] @ ''x'')") (auto simp: codex_parse_walk_lines)
  then show ?thesis using c(1) by simp
qed

theorem codex_review_incremental_witness:
  "\<exists>c rows. review_run sample_rollout_env [''m'', [byte 10, byte 10] @ ''x''] continuation_new = Some c \<and>
     lower sample_rollout_env sample_sha sample_session = Some rows \<and>
     map_option dl_entries (canonical_rows sample_rollout_env sample_sha c) = Some (cl_entries rows)"
proof -
  obtain c where c: "review_run sample_rollout_env [''m'', [byte 10, byte 10] @ ''x''] continuation_new = Some c"
    using sample_review_run by blast
  have "parse_codex_bytes sample_rollout_env (concat [''m'', [byte 10, byte 10] @ ''x'']) = Inr sample_session"
    using sample_rollout_parses by (simp add: sample_rollout_def)
  then show ?thesis using codex_review_incremental [OF sample_sha_long c] c by auto
qed

end
