(* ===== verification/CodexProbe.thy ===== *)
theory CodexProbe
  imports CodexLower Activity
begin

text \<open>
  \<open>codex/probe.rs\<close>: what the turns of a rollout say of its state, and the calls still pending; and
  \<open>gateway.rs\<close>, which tells the two kinds of transcript apart by the first line and hands the
  bytes to the parser, or the activity oracle, of its kind. \<^const>\<open>None\<close> is a panic of those.
\<close>

subsection \<open>Turns\<close>

definition WAIT_TOOLS :: "string list" where
  "WAIT_TOOLS = [''wait'', ''wait_agent'']"

datatype lifecycle =
    Uninitialized
  | NoInstrumentation
  | LifeOpen "string option"
  | LifeCompleted "string option"
  | LifeAborted "string option" "string option"

fun lifecycle_text :: "lifecycle \<Rightarrow> string" where
  "lifecycle_text Uninitialized = ''uninitialized''"
| "lifecycle_text NoInstrumentation = ''no_instrumentation''"
| "lifecycle_text (LifeOpen _) = ''open''"
| "lifecycle_text (LifeCompleted _) = ''completed''"
| "lifecycle_text (LifeAborted _ _) = ''aborted''"

fun lifecycle_turn_id :: "lifecycle \<Rightarrow> string option" where
  "lifecycle_turn_id (LifeOpen t) = t"
| "lifecycle_turn_id (LifeCompleted t) = t"
| "lifecycle_turn_id (LifeAborted t _) = t"
| "lifecycle_turn_id _ = None"

datatype turn_state = TurnOpen | TurnCompleted | TurnAborted "string option"

type_synonym turns = "(string option \<times> turn_state) list"

text \<open>\<open>find\<close> on the slots and the assignment through it.\<close>

fun set_first :: "(string option \<times> turn_state \<Rightarrow> bool) \<Rightarrow> turn_state \<Rightarrow> turns \<Rightarrow> turns option" where
  "set_first p st [] = None"
| "set_first p st (x # xs) = (if p x then Some ((fst x, st) # xs) else map_option (\<lambda>ys. x # ys) (set_first p st xs))"

definition start_turn :: "string option \<Rightarrow> turns \<Rightarrow> turns" where
  "start_turn turn_id turns =
     (if turn_id = None then turns @ [(turn_id, TurnOpen)]
      else opt_default (turns @ [(turn_id, TurnOpen)]) (set_first (\<lambda>x. fst x = turn_id) TurnOpen turns))"

definition close_turn :: "string option \<Rightarrow> turn_state \<Rightarrow> turns \<Rightarrow> turns" where
  "close_turn turn_id st turns =
     (if turn_id \<noteq> None
      then opt_default (turns @ [(turn_id, st)]) (set_first (\<lambda>x. fst x = turn_id) st turns)
      else (case set_first (\<lambda>x. snd x = TurnOpen) st (rev turns) of
          Some ys \<Rightarrow> rev ys
        | None \<Rightarrow> turns @ [(None, st)]))"

definition turn_step :: "turns \<Rightarrow> codex_entry \<Rightarrow> turns" where
  "turn_step turns e = (case cx_item e of
      XEventMsg em \<Rightarrow> (case em of
        ETaskStarted turn_id _ _ _ \<Rightarrow> start_turn turn_id turns
      | ETaskComplete turn_id _ _ _ _ \<Rightarrow> close_turn turn_id TurnCompleted turns
      | ETurnAborted turn_id reason _ _ \<Rightarrow> close_turn turn_id (TurnAborted reason) turns
      | _ \<Rightarrow> turns)
    | _ \<Rightarrow> turns)"

definition fold_turns :: "codex_session \<Rightarrow> turns" where
  "fold_turns session = foldl turn_step [] (xs_entries session)"

definition turn_state_of :: "turns \<Rightarrow> string \<Rightarrow> turn_state option" where
  "turn_state_of turns turn_id = map_option snd (find (\<lambda>x. fst x = Some turn_id) turns)"

subsection \<open>Lines\<close>

definition greatest :: "nat list \<Rightarrow> nat option" where
  "greatest xs = (if xs = [] then None else Some (Max (set xs)))"

definition least :: "nat list \<Rightarrow> nat option" where
  "least xs = (if xs = [] then None else Some (Min (set xs)))"

definition ends_turn :: "codex_entry \<Rightarrow> bool" where
  "ends_turn e = (case cx_item e of
      XEventMsg em \<Rightarrow> (case em of ETaskComplete _ _ _ _ _ \<Rightarrow> True | ETurnAborted _ _ _ _ \<Rightarrow> True | _ \<Rightarrow> False)
    | _ \<Rightarrow> False)"

definition starts_turn :: "codex_entry \<Rightarrow> string option option" where
  "starts_turn e = (case cx_item e of
      XEventMsg em \<Rightarrow> (case em of ETaskStarted turn_id _ _ _ \<Rightarrow> Some turn_id | _ \<Rightarrow> None)
    | _ \<Rightarrow> None)"

definition last_terminal_line :: "codex_session \<Rightarrow> nat option" where
  "last_terminal_line session = greatest (map cx_line_index (filter ends_turn (xs_entries session)))"

definition positional_start_line :: "codex_session \<Rightarrow> lifecycle \<Rightarrow> nat option" where
  "positional_start_line session life = (case life of
      LifeOpen turn_id \<Rightarrow>
        (let starts = map cx_line_index (filter (\<lambda>e. starts_turn e = Some turn_id) (xs_entries session))
         in if turn_id \<noteq> None then least starts else greatest starts)
    | _ \<Rightarrow> None)"

subsection \<open>Calls\<close>

definition call_ref :: "response_payload \<Rightarrow> (string \<times> string) option" where
  "call_ref payload = (case payload of
      RFunctionCall name _ _ call_id \<Rightarrow> map_option (\<lambda>i. (i, opt_default [] name)) call_id
    | RCustomToolCall name _ _ _ call_id \<Rightarrow> map_option (\<lambda>i. (i, opt_default [] name)) call_id
    | RToolSearchCall call_id _ _ _ \<Rightarrow> map_option (\<lambda>i. (i, ''tool_search'')) call_id
    | _ \<Rightarrow> None)"

definition output_call_id :: "response_payload \<Rightarrow> string option" where
  "output_call_id payload = (case payload of
      RFunctionCallOutput call_id _ \<Rightarrow> call_id
    | RCustomToolCallOutput call_id _ _ \<Rightarrow> call_id
    | RToolSearchOutput call_id _ _ _ \<Rightarrow> call_id
    | _ \<Rightarrow> None)"

definition answered_calls :: "codex_session \<Rightarrow> string set" where
  "answered_calls session = set (List.map_filter (\<lambda>e. case cx_item e of
      XResponseItem ri \<Rightarrow> output_call_id (ri_payload ri)
    | _ \<Rightarrow> None) (xs_entries session))"

definition has_content :: "codex_entry \<Rightarrow> bool" where
  "has_content e = (case cx_item e of
      XResponseItem _ \<Rightarrow> True | XEventMsg _ \<Rightarrow> True | XCompacted _ \<Rightarrow> True | _ \<Rightarrow> False)"

definition post_terminal_activity :: "codex_entry \<Rightarrow> nat \<Rightarrow> turns \<Rightarrow> bool" where
  "post_terminal_activity e terminal turns =
     (terminal < cx_line_index e \<and> (case cx_item e of
        XEventMsg em \<Rightarrow> (case em of EUserMessage _ _ _ _ \<Rightarrow> True | _ \<Rightarrow> False)
      | XResponseItem ri \<Rightarrow>
          ((case ri_payload ri of RMessage role _ _ \<Rightarrow> role = Some ''user'' | _ \<Rightarrow> False) \<or> call_ref (ri_payload ri) \<noteq> None) \<and>
          (case ri_turn_id ri of None \<Rightarrow> True | Some t \<Rightarrow> turn_state_of turns t = None)
      | _ \<Rightarrow> False))"

definition classify :: "codex_session \<Rightarrow> turns \<Rightarrow> lifecycle" where
  "classify session turns =
     (let stray = (case last_terminal_line session of
          None \<Rightarrow> False
        | Some terminal \<Rightarrow>
            \<not> list_ex (\<lambda>e. terminal < cx_line_index e \<and> starts_turn e \<noteq> None) (xs_entries session) \<and>
            list_ex (\<lambda>e. post_terminal_activity e terminal turns) (xs_entries session))
      in if stray then NoInstrumentation
         else if turns = [] then (if list_ex has_content (xs_entries session) then NoInstrumentation else Uninitialized)
         else (case last turns of
             (turn_id, TurnOpen) \<Rightarrow> LifeOpen turn_id
           | (turn_id, TurnCompleted) \<Rightarrow> LifeCompleted turn_id
           | (turn_id, TurnAborted reason) \<Rightarrow> LifeAborted turn_id reason))"

definition line_call :: "codex_entry \<Rightarrow> (nat \<times> string option \<times> string \<times> string) option" where
  "line_call e = (case cx_item e of
      XResponseItem ri \<Rightarrow> map_option (\<lambda>call. (cx_line_index e, ri_turn_id ri, call)) (call_ref (ri_payload ri))
    | _ \<Rightarrow> None)"

definition after_cutoff :: "nat option \<Rightarrow> nat \<Rightarrow> bool" where
  "after_cutoff cutoff line = (case cutoff of None \<Rightarrow> True | Some c \<Rightarrow> c < line)"

definition call_open :: "codex_session \<Rightarrow> turns \<Rightarrow> lifecycle \<Rightarrow> nat \<Rightarrow> string option \<Rightarrow> bool" where
  "call_open session turns life line turn_id =
     (let terminal = last_terminal_line session in
      case turn_id of
        Some i \<Rightarrow> (case turn_state_of turns i of
            Some TurnOpen \<Rightarrow> True
          | Some _ \<Rightarrow> False
          | None \<Rightarrow> life = NoInstrumentation \<and> after_cutoff terminal line)
      | None \<Rightarrow> (case life of
            LifeOpen _ \<Rightarrow> is_some_and (\<lambda>start. start < line) (positional_start_line session life)
          | NoInstrumentation \<Rightarrow> after_cutoff terminal line
          | _ \<Rightarrow> False))"

definition mid_tool_item :: "string \<times> string \<Rightarrow> pending_item" where
  "mid_tool_item call = \<lparr>pi_tool_use_id = Some (fst call), pi_name = snd call, pi_kind = MidTool\<rparr>"

definition pending_calls :: "codex_session \<Rightarrow> turns \<Rightarrow> lifecycle \<Rightarrow> string set \<Rightarrow> pending_item list" where
  "pending_calls session turns life answered =
     map (\<lambda>(_, _, call). mid_tool_item call)
       (filter (\<lambda>(line, turn_id, call). call_open session turns life line turn_id \<and> fst call \<notin> answered)
         (List.map_filter line_call (xs_entries session)))"

record codex_probe =
  pb_lifecycle :: lifecycle
  pb_pending :: "pending_item list"
  pb_last_event_epoch :: "int option"

definition session_probe :: "codex_session \<Rightarrow> codex_probe" where
  "session_probe session =
     (let turns = fold_turns session;
          answered = answered_calls session;
          life = classify session turns;
          ts = map dt_secs (List.map_filter cx_timestamp (xs_entries session))
      in \<lparr>pb_lifecycle = life, pb_pending = pending_calls session turns life answered,
          pb_last_event_epoch = (if ts = [] then None else Some (Max (set ts)))\<rparr>)"

definition codex_session_activity :: "codex_session \<Rightarrow> session_activity" where
  "codex_session_activity session =
     (let probe = session_probe session
      in \<lparr>is_waiting = list_ex (\<lambda>item. pi_name item \<in> set WAIT_TOOLS) (pb_pending probe),
          mid_tool = (pb_pending probe \<noteq> []), sa_pending = pb_pending probe,
          last_event_epoch = pb_last_event_epoch probe\<rparr>)"

subsection \<open>The gateway\<close>

definition CODEX_TYPES :: "string list" where
  "CODEX_TYPES = [''session_meta'', ''response_item'', ''event_msg'', ''turn_context'', ''world_state'', ''compacted'',
     ''inter_agent_communication_metadata'']"

datatype gateway_provider = Claude | CodexProvider

fun provider_text :: "gateway_provider \<Rightarrow> string" where
  "provider_text Claude = ''claude''"
| "provider_text CodexProvider = ''codex''"

text \<open>\<open>cur\<close> is the line read so far; a blank line is passed over.\<close>

fun first_line_from :: "string \<Rightarrow> string \<Rightarrow> string option" where
  "first_line_from cur [] = (if list_all is_ascii_whitespace cur then None else Some cur)"
| "first_line_from cur (b # bs) =
     (if b = byte 10 then (if list_all is_ascii_whitespace cur then first_line_from [] bs else Some cur)
      else first_line_from (cur @ [b]) bs)"

definition first_line :: "string \<Rightarrow> string option" where
  "first_line bytes = first_line_from [] bytes"

definition codex_line_value :: "json \<Rightarrow> bool" where
  "codex_line_value v \<longleftrightarrow> is_some_and (\<lambda>ty. ty \<in> set CODEX_TYPES) (field_str v ''type'') \<and> field v ''payload'' \<noteq> None"

definition sniff_provider :: "env \<Rightarrow> string \<Rightarrow> gateway_provider option" where
  "sniff_provider env bytes = (case first_line bytes of
      None \<Rightarrow> Some Claude
    | Some line \<Rightarrow> (case e_from_str env line of
        None \<Rightarrow> Some Claude
      | Some v \<Rightarrow> map_option (\<lambda>v. if codex_line_value v then CodexProvider else Claude)
          (sum_option (normalize_last_wins env v))))"

record parsed_transcript =
  pt_provider :: gateway_provider
  pt_entries :: "entry list"
  pt_codex :: "codex_session option"

definition parse_transcript_bytes ::
  "env \<Rightarrow> (string \<Rightarrow> 8 word list) \<Rightarrow> string \<Rightarrow> (parse_error + parsed_transcript) option" where
  "parse_transcript_bytes env sha bytes = Option.bind (sniff_provider env bytes) (\<lambda>provider. case provider of
      CodexProvider \<Rightarrow> Option.bind (sum_option (parse_codex_bytes env bytes)) (\<lambda>session.
        map_option (\<lambda>low. Inr \<lparr>pt_provider = CodexProvider, pt_entries = cl_entries low, pt_codex = Some session\<rparr>)
          (lower env sha session))
    | Claude \<Rightarrow> Some (map_sum id (\<lambda>es. \<lparr>pt_provider = Claude, pt_entries = es, pt_codex = None\<rparr>)
        (parse_bytes env bytes (\<lambda>_. True))))"

definition transcript_session_activity ::
  "env \<Rightarrow> registry \<Rightarrow> string \<Rightarrow> activity_opts \<Rightarrow> (parse_error + session_activity) option" where
  "transcript_session_activity env st bytes opts = Option.bind (sniff_provider env bytes) (\<lambda>provider. case provider of
      CodexProvider \<Rightarrow> map_option (\<lambda>session. Inr (codex_session_activity session)) (sum_option (parse_codex_bytes env bytes))
    | Claude \<Rightarrow> Some (map_sum id (\<lambda>es. session_activity_refs env st es opts) (parse_bytes env bytes (\<lambda>_. True))))"

end
