(* ===== verification/CodexProbeProps.thy ===== *)
theory CodexProbeProps
  imports CodexProbe CodexProps
begin

text \<open>
  A rollout whose turn events name their turn has, for every turn, the state its last event gives
  it, and its pending calls follow; and a transcript keeps its provider as it grows.
\<close>

subsection \<open>The last event of a turn\<close>

definition turn_event :: "codex_entry \<Rightarrow> (string option \<times> turn_state) option" where
  "turn_event e = (case cx_item e of
      XEventMsg em \<Rightarrow> (case em of
        ETaskStarted turn_id _ _ _ \<Rightarrow> Some (turn_id, TurnOpen)
      | ETaskComplete turn_id _ _ _ _ \<Rightarrow> Some (turn_id, TurnCompleted)
      | ETurnAborted turn_id reason _ _ \<Rightarrow> Some (turn_id, TurnAborted reason)
      | _ \<Rightarrow> None)
    | _ \<Rightarrow> None)"

definition names_turn :: "codex_entry \<Rightarrow> bool" where
  "names_turn e = (case turn_event e of Some (turn_id, _) \<Rightarrow> turn_id \<noteq> None | None \<Rightarrow> True)"

definition last_state :: "string \<Rightarrow> codex_entry list \<Rightarrow> turn_state option" where
  "last_state t es = (let evs = filter (\<lambda>(turn_id, _). turn_id = Some t) (List.map_filter turn_event es)
     in if evs = [] then None else Some (snd (last evs)))"

lemma opt_default_cons: "opt_default (x # ys) (map_option ((#) x) m) = x # opt_default ys m"
  by (cases m) auto

lemma turn_state_put:
  "turn_state_of (opt_default (turns @ [(Some i, st)]) (set_first (\<lambda>x. fst x = Some i) st turns)) t =
     (if i = t then Some st else turn_state_of turns t)"
  by (induction turns) (auto simp: turn_state_of_def opt_default_cons)

lemma put_ids:
  "distinct (map fst turns) \<Longrightarrow>
   distinct (map fst (opt_default (turns @ [(Some i, st)]) (set_first (\<lambda>x. fst x = Some i) st turns)))"
proof -
  have "set_first (\<lambda>x. fst x = Some i) st turns = Some ys \<Longrightarrow> map fst ys = map fst turns" for ys
    by (induction turns arbitrary: ys) (auto split: if_splits)
  moreover have "set_first (\<lambda>x. fst x = Some i) st turns = None \<Longrightarrow> Some i \<notin> fst ` set turns"
    by (induction turns) (auto split: if_splits)
  ultimately show "distinct (map fst turns) \<Longrightarrow> ?thesis"
    by (cases "set_first (\<lambda>x. fst x = Some i) st turns") auto
qed

lemma turn_step_event:
  assumes "names_turn e"
  shows "turn_step turns e = (case turn_event e of
      Some (turn_id, st) \<Rightarrow> opt_default (turns @ [(turn_id, st)]) (set_first (\<lambda>x. fst x = turn_id) st turns)
    | None \<Rightarrow> turns)"
  using assms by (auto simp: names_turn_def turn_event_def turn_step_def start_turn_def close_turn_def
      split: codex_item.splits event_msg.splits)

lemma last_state_snoc:
  "last_state t (es @ [e]) = (case turn_event e of
      Some (turn_id, st) \<Rightarrow> if turn_id = Some t then Some st else last_state t es
    | None \<Rightarrow> last_state t es)"
  by (auto simp: last_state_def map_filter_snoc Let_def split: option.split)

lemma turns_named:
  assumes "\<forall>e\<in>set es. names_turn e"
  shows "turn_state_of (foldl turn_step [] es) t = last_state t es \<and> distinct (map fst (foldl turn_step [] es))"
  using assms
proof (induction es rule: rev_induct)
  case Nil
  then show ?case by (simp add: turn_state_of_def last_state_def List.map_filter_simps)
next
  case (snoc e es)
  then have e: "names_turn e" by simp
  show ?case
  proof (cases "turn_event e")
    case None
    then show ?thesis using snoc by (simp add: turn_step_event [OF e] last_state_snoc)
  next
    case (Some ev)
    then obtain i st where "ev = (Some i, st)" using e by (cases ev) (auto simp: names_turn_def)
    then show ?thesis using snoc Some
      by (simp add: turn_step_event [OF e] last_state_snoc turn_state_put put_ids)
  qed
qed

text \<open>C35: A call is pending while the last event of its turn is its start. When every turn event of a
  rollout names its turn, no turn is listed twice; a turn's state is what its last event says; a
  call of a turn that was started and not ended since is pending unless answered; no call of a
  completed or aborted turn is pending, and none that was answered; and the session waits only
  while it is inside a tool.\<close>

theorem codex_pending_by_turn:
  assumes named: "\<forall>e\<in>set (xs_entries s). names_turn e"
  shows "distinct (map fst (fold_turns s)) \<and>
    (\<forall>t. turn_state_of (fold_turns s) t = last_state t (xs_entries s)) \<and>
    (\<forall>e\<in>set (xs_entries s). \<forall>line t call. line_call e = Some (line, Some t, call) \<longrightarrow>
       last_state t (xs_entries s) = Some TurnOpen \<longrightarrow> fst call \<notin> answered_calls s \<longrightarrow>
       mid_tool_item call \<in> set (sa_pending (codex_session_activity s))) \<and>
    (\<forall>item\<in>set (sa_pending (codex_session_activity s)). \<exists>e\<in>set (xs_entries s). \<exists>line turn_id call.
       line_call e = Some (line, turn_id, call) \<and> item = mid_tool_item call \<and> fst call \<notin> answered_calls s \<and>
       (\<forall>t. turn_id = Some t \<longrightarrow> last_state t (xs_entries s) \<in> {None, Some TurnOpen})) \<and>
    (is_waiting (codex_session_activity s) \<longrightarrow> mid_tool (codex_session_activity s))"
proof -
  have st: "turn_state_of (fold_turns s) t = last_state t (xs_entries s)" "distinct (map fst (fold_turns s))" for t
    using turns_named [OF named] by (simp_all add: fold_turns_def)
  let ?life = "classify s (fold_turns s)"
  have pend: "sa_pending (codex_session_activity s) = pending_calls s (fold_turns s) ?life (answered_calls s)"
    by (simp add: codex_session_activity_def session_probe_def Let_def)
  have calls: "x \<in> set (List.map_filter line_call es) \<longleftrightarrow> (\<exists>e\<in>set es. line_call e = Some x)" for x es
    by (induction es) (auto simp: List.map_filter_simps split: option.split)
  have "mid_tool_item call \<in> set (pending_calls s (fold_turns s) ?life (answered_calls s))"
    if "e \<in> set (xs_entries s)" "line_call e = Some (line, Some t, call)" "last_state t (xs_entries s) = Some TurnOpen"
      "fst call \<notin> answered_calls s" for e line t call
  proof -
    have "(line, Some t, call) \<in> set (List.map_filter line_call (xs_entries s))" using that(1,2) calls by blast
    moreover have "call_open s (fold_turns s) ?life line (Some t)" using that(3) by (simp add: call_open_def st)
    ultimately show ?thesis using that(4) unfolding pending_calls_def by force
  qed
  moreover have "\<exists>e\<in>set (xs_entries s). \<exists>line turn_id call. line_call e = Some (line, turn_id, call) \<and>
       item = mid_tool_item call \<and> fst call \<notin> answered_calls s \<and>
       (\<forall>t. turn_id = Some t \<longrightarrow> last_state t (xs_entries s) \<in> {None, Some TurnOpen})"
    if i: "item \<in> set (pending_calls s (fold_turns s) ?life (answered_calls s))" for item
  proof -
    obtain line turn_id call where c: "(line, turn_id, call) \<in> set (List.map_filter line_call (xs_entries s))"
        "call_open s (fold_turns s) ?life line turn_id" "fst call \<notin> answered_calls s" "item = mid_tool_item call"
      using i unfolding pending_calls_def by fastforce
    have "last_state t (xs_entries s) \<in> {None, Some TurnOpen}" if t: "turn_id = Some t" for t
    proof (cases "last_state t (xs_entries s)")
      case (Some x)
      then show ?thesis using c(2) t by (cases x) (simp_all add: call_open_def st)
    qed simp
    then show ?thesis using c calls by blast
  qed
  moreover have "is_waiting (codex_session_activity s) \<longrightarrow> mid_tool (codex_session_activity s)"
    by (auto simp: codex_session_activity_def Let_def list_ex_iff)
  ultimately show ?thesis using st unfolding pend by blast
qed

subsection \<open>The provider of a transcript\<close>

lemma first_line_from_grows:
  "first_line_from cur bs = Some l \<Longrightarrow> first_line_from cur (bs @ byte 10 # rest) = Some l"
  by (induction cur bs rule: first_line_from.induct) (auto split: if_splits)

text \<open>A transcript keeps its provider. Once it has a non-blank line, appending a newline and
  anything else leaves the provider what it was; a transcript taken for Claude's parses as
  \<open>parse_bytes\<close> says; one taken for Codex's never fails with a parse error, and gives one entry
  for every entry of the rollout.\<close>

theorem provider_kept:
  assumes sha: "\<forall>x. 16 \<le> length (sha x)" and line: "first_line bytes \<noteq> None"
  shows "sniff_provider env (bytes @ byte 10 # rest) = sniff_provider env bytes \<and>
    (sniff_provider env bytes = Some Claude \<longrightarrow>
       parse_transcript_bytes env sha bytes = Some (map_sum id (\<lambda>es. \<lparr>pt_provider = Claude, pt_entries = es, pt_codex = None\<rparr>)
         (parse_bytes env bytes (\<lambda>_. True)))) \<and>
    (\<forall>session. sniff_provider env bytes = Some CodexProvider \<and> parse_codex_bytes env bytes = Inr session \<longrightarrow>
       (\<exists>p. parse_transcript_bytes env sha bytes = Some (Inr p) \<and> pt_provider p = CodexProvider \<and>
         pt_codex p = Some session \<and> length (pt_entries p) = length (xs_entries session)))"
proof -
  obtain l where l: "first_line bytes = Some l" using line by blast
  then have "first_line (bytes @ byte 10 # rest) = Some l"
    unfolding first_line_def by (rule first_line_from_grows)
  then have "sniff_provider env (bytes @ byte 10 # rest) = sniff_provider env bytes"
    using l by (simp add: sniff_provider_def)
  moreover have "\<exists>p. parse_transcript_bytes env sha bytes = Some (Inr p) \<and> pt_provider p = CodexProvider \<and>
      pt_codex p = Some session \<and> length (pt_entries p) = length (xs_entries session)"
    if s: "sniff_provider env bytes = Some CodexProvider" "parse_codex_bytes env bytes = Inr session" for session
  proof -
    have "\<forall>e\<in>set (xs_entries session). item_ok (cx_item e)"
      using parse_codex_items_ok [OF s(2)] parsed_line_ok by blast
    then obtain low where "lower env sha session = Some low" "length (cl_entries low) = length (xs_entries session)"
      using lower_total [OF sha, of session env] by (auto dest: list_all2_lengthD)
    then show ?thesis using s by (simp add: parse_transcript_bytes_def sum_option_def)
  qed
  ultimately show ?thesis by (simp add: parse_transcript_bytes_def)
qed

subsection \<open>Examples\<close>

definition sample_turn :: "nat \<Rightarrow> codex_item \<Rightarrow> codex_entry" where
  "sample_turn i item = \<lparr>cx_line_index = i, cx_timestamp = None, cx_item = item, cx_source = None\<rparr>"

definition sample_turns :: codex_session where
  "sample_turns = fold_session
     [sample_turn 0 (XEventMsg (ETaskStarted (Some ''t'') None None None)),
      sample_turn 1 (XResponseItem \<lparr>ri_id = None, ri_turn_id = Some ''t'',
        ri_payload = RFunctionCall (Some ''wait'') None (Some ''x'') (Some ''c'')\<rparr>)]"

theorem codex_pending_by_turn_witness:
  "mid_tool_item (''c'', ''wait'') \<in> set (sa_pending (codex_session_activity sample_turns))"
proof -
  have e: "xs_entries sample_turns = [sample_turn 0 (XEventMsg (ETaskStarted (Some ''t'') None None None)),
      sample_turn 1 (XResponseItem \<lparr>ri_id = None, ri_turn_id = Some ''t'',
        ri_payload = RFunctionCall (Some ''wait'') None (Some ''x'') (Some ''c'')\<rparr>)]"
    by (simp add: sample_turns_def)
  have "\<forall>e\<in>set (xs_entries sample_turns). names_turn e"
    unfolding e by (simp add: sample_turn_def names_turn_def turn_event_def)
  note all = codex_pending_by_turn [OF this]
  have "last_state ''t'' (xs_entries sample_turns) = Some TurnOpen"
    unfolding e by (simp add: last_state_def sample_turn_def turn_event_def List.map_filter_simps)
  moreover have "line_call (xs_entries sample_turns ! 1) = Some (1, Some ''t'', ''c'', ''wait'')"
    unfolding e by (simp add: line_call_def sample_turn_def call_ref_def)
  moreover have "answered_calls sample_turns = {}"
    unfolding answered_calls_def e by (simp add: sample_turn_def output_call_id_def List.map_filter_simps)
  moreover have "xs_entries sample_turns ! 1 \<in> set (xs_entries sample_turns)" unfolding e by simp
  ultimately show ?thesis using all by fastforce
qed

theorem provider_kept_witness:
  "sniff_provider sample_rollout_env (''m'' @ byte 10 # ''x'') = sniff_provider sample_rollout_env ''m''"
proof -
  have "first_line ''m'' \<noteq> None"
    by (simp add: first_line_def is_ascii_whitespace_def byte_unfold)
  from provider_kept [OF sample_sha_long this] show ?thesis by blast
qed

end
