(* ===== verification/RenderJson.thy ===== *)
theory RenderJson
  imports PyJson
begin

text \<open>
  The JSON layer of \<open>render.rs\<close>: the insertion-ordered tree \<open>Json\<close> with its compact and
  indented printers (the layout of orjson), the printers of a decoded value, and the pair
  \<open>pyjson_loads\<close>, \<open>pyjson_dumps\<close> in which the details of corrections are stored (Python's
  \<open>json.loads\<close> and \<open>json.dumps\<close>). A reader moves over the text that is left, so a position
  \<open>*pos\<close> is the length \<open>n\<close> of the whole text less that of the rest. The reader is
  recursive on fuel, \<^const>\<open>None\<close> when it runs out; \<open>pyjson_loads\<close> gives it one more
  than the length of the text, which is always enough.
\<close>

subsection \<open>Trees\<close>

datatype rjson =
    RNull
  | RBool bool
  | RInt int
  | RUInt nat
  | RFloat f64
  | RRawNum string
  | RStr string
  | RDatetime datetime
  | RValue json
  | RArr "rjson list"
  | RObj "(string \<times> rjson) list"

subsection \<open>The printers\<close>

text \<open>\<^const>\<open>None\<close> is the failed \<open>expect\<close> of \<^const>\<open>format_number\<close>, on a number no
  accessor reads.\<close>

function write_orjson :: "floats \<Rightarrow> json \<Rightarrow> string option" where
  "write_orjson fl JNull = Some ''null''"
| "write_orjson fl (JBool b) = Some (if b then ''true'' else ''false'')"
| "write_orjson fl (JNumber n) = format_number fl n False"
| "write_orjson fl (JString s) = Some (encode_string s)"
| "write_orjson fl (JArray xs) =
     map_option (\<lambda>ts. ''['' @ join '','' ts @ '']'') (those (map (write_orjson fl) xs))"
| "write_orjson fl (JObject ps) =
     map_option (\<lambda>ts. ''{'' @ join '','' ts @ ''}'')
       (those (map (\<lambda>(key, item). map_option (\<lambda>t. encode_string key @ '':'' @ t) (write_orjson fl item))
         (deduped_pairs ps)))"
  by pat_completeness auto
termination
  by (relation "measure (\<lambda>(fl, v). size v)")
    (auto dest: size_deduped_pair simp: less_Suc_eq_le size_list_estimation')

definition orjson_dumps :: "floats \<Rightarrow> json \<Rightarrow> string option" where
  "orjson_dumps fl v = write_orjson fl v"

definition indent :: "nat \<Rightarrow> string" where
  "indent depth = concat (replicate depth ''  '')"

definition pretty_lines :: "string \<Rightarrow> string \<Rightarrow> nat \<Rightarrow> string list \<Rightarrow> string" where
  "pretty_lines open_mark close_mark depth ts =
     open_mark @ [byte 10] @ join ('','' @ [byte 10]) (map (\<lambda>t. indent (depth + 1) @ t) ts) @ [byte 10] @
     indent depth @ close_mark"

function write_orjson_pretty :: "floats \<Rightarrow> json \<Rightarrow> nat \<Rightarrow> string option" where
  "write_orjson_pretty fl (JArray xs) depth =
     (if xs = [] then write_orjson fl (JArray xs)
      else map_option (pretty_lines ''['' '']'' depth)
        (those (map (\<lambda>x. write_orjson_pretty fl x (depth + 1)) xs)))"
| "write_orjson_pretty fl (JObject ps) depth =
     (if ps = [] then write_orjson fl (JObject ps)
      else map_option (pretty_lines ''{'' ''}'' depth)
        (those (map (\<lambda>(key, item). map_option (\<lambda>t. encode_string key @ '': '' @ t) (write_orjson_pretty fl item (depth + 1)))
          (deduped_pairs ps))))"
| "write_orjson_pretty fl JNull depth = write_orjson fl JNull"
| "write_orjson_pretty fl (JBool b) depth = write_orjson fl (JBool b)"
| "write_orjson_pretty fl (JNumber n) depth = write_orjson fl (JNumber n)"
| "write_orjson_pretty fl (JString s) depth = write_orjson fl (JString s)"
  by pat_completeness auto
termination
  by (relation "measure (\<lambda>(fl, v, depth). size v)")
    (auto dest: size_deduped_pair simp: less_Suc_eq_le size_list_estimation')

text \<open>\<open>format_datetime\<close> is the argument \<open>dt\<close>: chrono's calendar.\<close>

fun json_write :: "floats \<Rightarrow> (datetime \<Rightarrow> string) \<Rightarrow> rjson \<Rightarrow> string option" where
  "json_write fl dt RNull = Some ''null''"
| "json_write fl dt (RBool b) = Some (if b then ''true'' else ''false'')"
| "json_write fl dt (RInt i) = Some (dec_int i)"
| "json_write fl dt (RUInt u) = Some (dec_digits u)"
| "json_write fl dt (RFloat f) = Some (py_float_repr fl f False)"
| "json_write fl dt (RRawNum lexeme) = Some lexeme"
| "json_write fl dt (RStr s) = Some (encode_string s)"
| "json_write fl dt (RDatetime d) = Some (encode_string (dt d))"
| "json_write fl dt (RValue v) = write_orjson fl v"
| "json_write fl dt (RArr xs) =
     map_option (\<lambda>ts. ''['' @ join '','' ts @ '']'') (those (map (json_write fl dt) xs))"
| "json_write fl dt (RObj ps) =
     map_option (\<lambda>ts. ''{'' @ join '','' ts @ ''}'')
       (those (map (\<lambda>(key, item). map_option (\<lambda>t. encode_string key @ '':'' @ t) (json_write fl dt item)) ps))"

fun json_write_pretty :: "floats \<Rightarrow> (datetime \<Rightarrow> string) \<Rightarrow> nat \<Rightarrow> rjson \<Rightarrow> string option" where
  "json_write_pretty fl dt depth (RArr xs) =
     (if xs = [] then json_write fl dt (RArr xs)
      else map_option (pretty_lines ''['' '']'' depth) (those (map (json_write_pretty fl dt (depth + 1)) xs)))"
| "json_write_pretty fl dt depth (RObj ps) =
     (if ps = [] then json_write fl dt (RObj ps)
      else map_option (pretty_lines ''{'' ''}'' depth)
        (those (map (\<lambda>(key, item). map_option (\<lambda>t. encode_string key @ '': '' @ t)
          (json_write_pretty fl dt (depth + 1) item)) ps)))"
| "json_write_pretty fl dt depth (RValue v) = write_orjson_pretty fl v depth"
| "json_write_pretty fl dt depth j = json_write fl dt j"

definition json_dumps :: "floats \<Rightarrow> (datetime \<Rightarrow> string) \<Rightarrow> rjson \<Rightarrow> string option" where
  "json_dumps fl dt j = json_write fl dt j"

definition json_dumps_pretty :: "floats \<Rightarrow> (datetime \<Rightarrow> string) \<Rightarrow> rjson \<Rightarrow> string option" where
  "json_dumps_pretty fl dt j = json_write_pretty fl dt 0 j"

subsection \<open>Code points\<close>

definition utf8_of :: "nat \<Rightarrow> string" where
  "utf8_of n =
     (if n < 128 then [byte n]
      else if n < 2048 then [byte (192 + n div 64), byte (128 + n mod 64)]
      else if n < 65536 then [byte (224 + n div 4096), byte (128 + n div 64 mod 64), byte (128 + n mod 64)]
      else [byte (240 + n div 262144), byte (128 + n div 4096 mod 64), byte (128 + n div 64 mod 64), byte (128 + n mod 64)])"

text \<open>\<open>char::from_u32\<close>: the code points below the limit that are no surrogates.\<close>

definition is_scalar :: "nat \<Rightarrow> bool" where
  "is_scalar n = (n < 1114112 \<and> \<not> (55296 \<le> n \<and> n < 57344))"

definition char_from_u32 :: "nat \<Rightarrow> string option" where
  "char_from_u32 n = (if is_scalar n then Some (utf8_of n) else None)"

subsection \<open>Python's \<open>json.dumps\<close>\<close>

definition escape_ascii :: "string \<Rightarrow> string" where
  "escape_ascii ch = (case ch of
      [c] \<Rightarrow> (case short_escape c of
          Some e \<Rightarrow> [byte 92, e]
        | None \<Rightarrow> if (of_char c :: nat) < 32 then unit_escape (of_char c) else ch)
    | _ \<Rightarrow> (let n = code_point ch; v = n - 65536 in
        if 65535 < n then unit_escape (55296 + v div 1024) @ unit_escape (56320 + v mod 1024)
        else unit_escape n))"

definition encode_string_ascii :: "string \<Rightarrow> string" where
  "encode_string_ascii s = [byte 34] @ concat (map escape_ascii (chars s)) @ [byte 34]"

text \<open>A date or a decoded value is the \<open>unreachable!\<close> branch, \<^const>\<open>None\<close>.\<close>

fun write_pyjson :: "floats \<Rightarrow> rjson \<Rightarrow> string option" where
  "write_pyjson fl RNull = Some ''null''"
| "write_pyjson fl (RBool b) = Some (if b then ''true'' else ''false'')"
| "write_pyjson fl (RInt i) = Some (dec_int i)"
| "write_pyjson fl (RUInt u) = Some (dec_digits u)"
| "write_pyjson fl (RRawNum lexeme) = Some lexeme"
| "write_pyjson fl (RFloat f) = Some (case f of
      NotANumber \<Rightarrow> ''NaN''
    | Infinite negative \<Rightarrow> if negative then ''-Infinity'' else ''Infinity''
    | Finite _ _ \<Rightarrow> py_float_repr fl f True)"
| "write_pyjson fl (RStr s) = Some (encode_string_ascii s)"
| "write_pyjson fl (RDatetime d) = None"
| "write_pyjson fl (RValue v) = None"
| "write_pyjson fl (RArr xs) =
     map_option (\<lambda>ts. ''['' @ join '', '' ts @ '']'') (those (map (write_pyjson fl) xs))"
| "write_pyjson fl (RObj ps) =
     map_option (\<lambda>ts. ''{'' @ join '', '' ts @ ''}'')
       (those (map (\<lambda>(key, item). map_option (\<lambda>t. encode_string_ascii key @ '': '' @ t) (write_pyjson fl item)) ps))"

definition pyjson_dumps :: "floats \<Rightarrow> rjson \<Rightarrow> string option" where
  "pyjson_dumps fl j = write_pyjson fl j"

subsection \<open>Python's \<open>json.loads\<close>\<close>

datatype pyjson_error =
    UnexpectedEnd
  | TrailingData nat
  | Expected string nat
  | StringKey nat
  | ObjectClose nat
  | ArrayClose nat
  | UnexpectedByte char nat
  | Unterminated
  | UnpairedSurrogate
  | LoneSurrogate
  | InvalidCodePoint
  | InvalidEscape nat
  | ControlCharacter nat
  | TruncatedEscape
  | HexDigits string
  | InvalidNumber string
  | FloatText string

definition pyjson_ws :: "string \<Rightarrow> string" where
  "pyjson_ws text = dropWhile (\<lambda>c. c \<in> {CHR '' '', byte 9, byte 10, byte 13}) text"

definition pyjson_expect :: "nat \<Rightarrow> string \<Rightarrow> string \<Rightarrow> pyjson_error + string" where
  "pyjson_expect n text token =
     (if prefix token text then Inr (drop (length token) text)
      else Inl (Expected token (n - length text)))"

text \<open>\<open>u32::from_str_radix\<close> on base 16 with at most four characters: one plus sign may lead.\<close>

definition radix16_digit :: "char \<Rightarrow> nat option" where
  "radix16_digit c = (let n = of_char c in
     if 48 \<le> n \<and> n < 58 then Some (n - 48)
     else if 97 \<le> n \<and> n < 103 then Some (n - 87)
     else if 65 \<le> n \<and> n < 71 then Some (n - 55)
     else None)"

definition from_str_radix16 :: "string \<Rightarrow> nat option" where
  "from_str_radix16 text =
     (let digits = (if 1 < length text \<and> hd text = CHR ''+'' then tl text else text) in
      if digits = [] then None
      else map_option (foldl (\<lambda>acc d. 16 * acc + d) 0) (those (map radix16_digit digits)))"

text \<open>Four bytes that are not whole characters are no \<open>str\<close>.\<close>

definition pyjson_hex4 :: "string \<Rightarrow> pyjson_error + nat" where
  "pyjson_hex4 text =
     (if length text < 4 \<or> \<not> starts_char (drop 4 text) then Inl TruncatedEscape
      else ok_or (HexDigits (take 4 text)) (from_str_radix16 (take 4 text)))"

text \<open>The character of an escape, from the text after its \<open>u\<close>.\<close>

definition pyjson_unicode :: "string \<Rightarrow> pyjson_error + string \<times> string" where
  "pyjson_unicode text = res_bind (pyjson_hex4 text) (\<lambda>code.
     let rest = drop 4 text in
     if 55296 \<le> code \<and> code < 56320 then
       (if take 2 rest = [byte 92, CHR ''u''] then
          res_bind (pyjson_hex4 (drop 2 rest)) (\<lambda>low.
            if \<not> (56320 \<le> low \<and> low < 57344) then Inl UnpairedSurrogate
            else res_bind (ok_or InvalidCodePoint (char_from_u32 (65536 + (code - 55296) * 1024 + (low - 56320))))
              (\<lambda>ch. Inr (ch, drop 6 rest)))
        else Inl LoneSurrogate)
     else if 56320 \<le> code \<and> code < 57344 then Inl LoneSurrogate
     else res_bind (ok_or InvalidCodePoint (char_from_u32 code)) (\<lambda>ch. Inr (ch, rest)))"

definition plain_escape :: "char \<Rightarrow> char option" where
  "plain_escape e =
     (if e = byte 34 then Some (byte 34) else if e = byte 92 then Some (byte 92)
      else if e = CHR ''/'' then Some (CHR ''/'')
      else if e = CHR ''b'' then Some (byte 8) else if e = CHR ''f'' then Some (byte 12)
      else if e = CHR ''n'' then Some (byte 10) else if e = CHR ''r'' then Some (byte 13)
      else if e = CHR ''t'' then Some (byte 9) else None)"

lemma pyjson_unicode_rest: "pyjson_unicode text = Inr (ch, rest) \<Longrightarrow> length rest \<le> length text"
  by (auto simp: pyjson_unicode_def res_bind_Inr_iff Let_def split: if_splits)

text \<open>The text after the opening quote. The bytes are those of a \<open>str\<close>, so a byte that is
  not ASCII leads a character.\<close>

function pyjson_string :: "nat \<Rightarrow> string \<Rightarrow> string \<Rightarrow> pyjson_error + string \<times> string" where
  "pyjson_string n acc [] = Inl Unterminated"
| "pyjson_string n acc (c # cs) =
     (if c = byte 34 then Inr (acc, cs)
      else if c = byte 92 then
        (case cs of
           [] \<Rightarrow> Inl (InvalidEscape (n - length cs))
         | e # es \<Rightarrow>
             if e = CHR ''u'' then
               (case pyjson_unicode es of
                  Inl err \<Rightarrow> Inl err
                | Inr (ch, rest) \<Rightarrow> pyjson_string n (acc @ ch) rest)
             else (case plain_escape e of
                 Some x \<Rightarrow> pyjson_string n (acc @ [x]) es
               | None \<Rightarrow> Inl (InvalidEscape (n - length cs))))
      else if (of_char c :: nat) < 32 then Inl (ControlCharacter (n - length (c # cs)))
      else pyjson_string n (acc @ c # takeWhile is_continuation cs) (dropWhile is_continuation cs))"
  by pat_completeness auto
termination
  by (relation "measure (\<lambda>(n, acc, text). length text)")
    (auto dest!: pyjson_unicode_rest simp: le_imp_less_Suc length_dropWhile_le less_Suc_eq_le)

subsection \<open>Numbers\<close>

definition is_ascii_digit :: "char \<Rightarrow> bool" where
  "is_ascii_digit c = (48 \<le> (of_char c :: nat) \<and> (of_char c :: nat) < 58)"

definition after_digits :: "string \<Rightarrow> string option" where
  "after_digits b = (if b \<noteq> [] \<and> is_ascii_digit (hd b) then Some (dropWhile is_ascii_digit b) else None)"

definition fraction_rest :: "string \<Rightarrow> string option" where
  "fraction_rest b = (if b \<noteq> [] \<and> hd b = CHR ''.'' then after_digits (tl b) else Some b)"

definition exponent_rest :: "string \<Rightarrow> string option" where
  "exponent_rest b =
     (if b \<noteq> [] \<and> hd b \<in> {CHR ''e'', CHR ''E''} then
        (let d = tl b in after_digits (if d \<noteq> [] \<and> hd d \<in> {CHR ''+'', CHR ''-''} then tl d else d))
      else Some b)"

definition integer_rest :: "string \<Rightarrow> string option" where
  "integer_rest b =
     (if b \<noteq> [] \<and> hd b = CHR ''0'' then Some (tl b) else after_digits b)"

definition pyjson_number_lexeme :: "string \<Rightarrow> bool" where
  "pyjson_number_lexeme lexeme =
     (let b = opt_default lexeme (strip_prefix ''-'' lexeme) in
      Option.bind (Option.bind (integer_rest b) fraction_rest) exponent_rest = Some [])"

definition number_byte :: "char \<Rightarrow> bool" where
  "number_byte c = (is_ascii_digit c \<or> c \<in> {CHR ''.'', CHR ''e'', CHR ''E'', CHR ''+'', CHR ''-''})"

definition number_value :: "floats \<Rightarrow> string \<Rightarrow> pyjson_error + rjson" where
  "number_value fl lexeme =
     (if \<not> pyjson_number_lexeme lexeme then Inl (InvalidNumber lexeme)
      else if float_lexeme lexeme then map_sum id RFloat (ok_or (FloatText lexeme) (fl_parse fl lexeme))
      else (case parse_i64 lexeme of
          Some i \<Rightarrow> Inr (RInt i)
        | None \<Rightarrow> Inr (RRawNum (integer_lexeme lexeme))))"

text \<open>A minus sign is such a byte too, so the scan takes the leading one with the rest.\<close>

definition pyjson_number :: "floats \<Rightarrow> string \<Rightarrow> pyjson_error + rjson \<times> string" where
  "pyjson_number fl text =
     map_sum id (\<lambda>v. (v, dropWhile number_byte text)) (number_value fl (takeWhile number_byte text))"

subsection \<open>Values\<close>

definition pyjson_literal :: "nat \<Rightarrow> string \<Rightarrow> string \<Rightarrow> rjson \<Rightarrow> pyjson_error + rjson \<times> string" where
  "pyjson_literal n text token v = map_sum id (\<lambda>rest. (v, rest)) (pyjson_expect n text token)"

type_synonym 'a parse = "(pyjson_error + 'a \<times> string) option"

definition parse_bind :: "'a parse \<Rightarrow> ('a \<Rightarrow> string \<Rightarrow> 'b parse) \<Rightarrow> 'b parse" where
  "parse_bind p f = (case p of
      None \<Rightarrow> None
    | Some (Inl e) \<Rightarrow> Some (Inl e)
    | Some (Inr (x, rest)) \<Rightarrow> f x rest)"

text \<open>\<open>order\<close> and \<open>pairs\<close>: a key seen before keeps its slot and takes the new value.\<close>

fun put_pair :: "string \<Rightarrow> rjson \<Rightarrow> (string \<times> rjson) list \<Rightarrow> (string \<times> rjson) list" where
  "put_pair key v [] = [(key, v)]"
| "put_pair key v ((k, w) # ps) = (if k = key then (k, v) # ps else (k, w) # put_pair key v ps)"

text \<open>The loop over the members of an object and the one over the items of an array, on fuel
  of their own; \<open>pv\<close> reads a value.\<close>

primrec object_loop ::
  "(string \<Rightarrow> rjson parse) \<Rightarrow> nat \<Rightarrow> nat \<Rightarrow> (string \<times> rjson) list \<Rightarrow> string \<Rightarrow> rjson parse" where
  "object_loop pv n 0 pairs input = None"
| "object_loop pv n (Suc k) pairs input =
     parse_bind (pv (pyjson_ws input)) (\<lambda>key rest.
       case key of
         RStr key \<Rightarrow>
           (case pyjson_expect n (pyjson_ws rest) '':'' of
              Inl e \<Rightarrow> Some (Inl e)
            | Inr rest \<Rightarrow>
                parse_bind (pv rest) (\<lambda>v rest.
                  let pairs = put_pair key v pairs; rest = pyjson_ws rest in
                  if rest \<noteq> [] \<and> hd rest = CHR '','' then object_loop pv n k pairs (tl rest)
                  else if rest \<noteq> [] \<and> hd rest = CHR ''}'' then Some (Inr (RObj pairs, tl rest))
                  else Some (Inl (ObjectClose (n - length rest)))))
       | _ \<Rightarrow> Some (Inl (StringKey (n - length rest))))"

primrec array_loop ::
  "(string \<Rightarrow> rjson parse) \<Rightarrow> nat \<Rightarrow> nat \<Rightarrow> rjson list \<Rightarrow> string \<Rightarrow> rjson parse" where
  "array_loop pv n 0 items input = None"
| "array_loop pv n (Suc k) items input =
     parse_bind (pv input) (\<lambda>v rest.
       let items = items @ [v]; rest = pyjson_ws rest in
       if rest \<noteq> [] \<and> hd rest = CHR '','' then array_loop pv n k items (tl rest)
       else if rest \<noteq> [] \<and> hd rest = CHR '']'' then Some (Inr (RArr items, tl rest))
       else Some (Inl (ArrayClose (n - length rest))))"

primrec pyjson_value :: "floats \<Rightarrow> nat \<Rightarrow> nat \<Rightarrow> string \<Rightarrow> rjson parse" where
  "pyjson_value fl n 0 input = None"
| "pyjson_value fl n (Suc k) input =
     (let text = pyjson_ws input; c = hd text in
      if text = [] then Some (Inl UnexpectedEnd)
      else if c = CHR ''{'' then
        (let body = pyjson_ws (tl text) in
         if body \<noteq> [] \<and> hd body = CHR ''}'' then Some (Inr (RObj [], tl body))
         else object_loop (pyjson_value fl n k) n k [] body)
      else if c = CHR ''['' then
        (let body = pyjson_ws (tl text) in
         if body \<noteq> [] \<and> hd body = CHR '']'' then Some (Inr (RArr [], tl body))
         else array_loop (pyjson_value fl n k) n k [] body)
      else if c = byte 34 then Some (map_sum id (map_prod RStr id) (pyjson_string n [] (tl text)))
      else if c = CHR ''t'' then Some (pyjson_literal n text ''true'' (RBool True))
      else if c = CHR ''f'' then Some (pyjson_literal n text ''false'' (RBool False))
      else if c = CHR ''n'' then Some (pyjson_literal n text ''null'' RNull)
      else if c = CHR ''N'' then Some (pyjson_literal n text ''NaN'' (RFloat NotANumber))
      else if c = CHR ''I'' then Some (pyjson_literal n text ''Infinity'' (RFloat (Infinite False)))
      else if prefix ''-Infinity'' text then
        Some (Inr (RFloat (Infinite True), drop (length ''-Infinity'') text))
      else if c = CHR ''-'' \<or> is_ascii_digit c then Some (pyjson_number fl text)
      else Some (Inl (UnexpectedByte c (n - length text))))"

definition pyjson_loads :: "floats \<Rightarrow> string \<Rightarrow> (pyjson_error + rjson) option" where
  "pyjson_loads fl text =
     map_option (\<lambda>r. res_bind r (\<lambda>(v, rest).
       let rest = pyjson_ws rest in
       if rest \<noteq> [] then Inl (TrailingData (length text - length rest)) else Inr v))
       (pyjson_value fl (length text) (Suc (length text)) text)"

end
