(* ===== verification/RenderText.thy ===== *)
theory RenderText
  imports RenderJson Notifications Blame Facts Filters
begin

text \<open>
  The texts \<open>render.rs\<close> makes for people: cuts under a budget, Python's \<open>repr\<close>, turns, one-line
  events and the rows of facts, writes and verdicts. The calendar (chrono) and the rounding of a size
  to one decimal are the fields of \<open>calendar\<close>. \<^const>\<open>None\<close> is a failed \<open>expect\<close>: a number no
  accessor reads, or a turn with fewer typed calls than tool uses.
\<close>

record calendar =
  cal_time :: "datetime \<Rightarrow> string"      \<comment> \<open>\<open>%H:%M:%S\<close>\<close>
  cal_span :: "datetime \<Rightarrow> string"      \<comment> \<open>\<open>%Y-%m-%d %H:%M:%S\<close>\<close>
  cal_iso :: "datetime \<Rightarrow> string"       \<comment> \<open>\<open>%Y-%m-%dT%H:%M:%S\<close>\<close>
  cal_offset :: "datetime \<Rightarrow> string"    \<comment> \<open>\<open>%:z\<close>\<close>
  cal_tenths :: "nat \<Rightarrow> nat \<Rightarrow> string"  \<comment> \<open>\<open>n as f64 / 1024.powi(i)\<close> with one decimal\<close>

subsection \<open>Cuts\<close>

definition SIZE_UNITS :: "string list" where
  "SIZE_UNITS = [''B'', ''KB'', ''MB'', ''GB'', ''TB'']"

definition BLANK_TIME :: string where
  "BLANK_TIME = ''        ''"

record budget =
  turn_chars :: nat
  tool_chars :: nat

definition budget_default :: budget where
  "budget_default = \<lparr>turn_chars = 700, tool_chars = 1500\<rparr>"

definition char_len :: "string \<Rightarrow> nat" where
  "char_len s = length (chars s)"

definition prefix_chars :: "string \<Rightarrow> nat \<Rightarrow> string" where
  "prefix_chars s n = concat (take n (chars s))"

definition collapse_ws :: "string \<Rightarrow> string" where
  "collapse_ws s = join '' '' (split_whitespace s)"

definition line_breaks :: "string list" where
  "line_breaks = [[byte 10], [byte 13], [byte 11], [byte 12], [byte 28], [byte 29], [byte 30],
     [byte 194, byte 133], [byte 226, byte 128, byte 168], [byte 226, byte 128, byte 169]]"

fun lines_from :: "string \<Rightarrow> string list \<Rightarrow> string list" where
  "lines_from cur [] = (if cur = [] then [] else [cur])"
| "lines_from cur (c # cs) =
     (if c \<notin> set line_breaks then lines_from (cur @ c) cs
      else if c = [byte 13] \<and> take 1 cs = [[byte 10]] then cur # lines_from [] (tl cs)
      else cur # lines_from [] cs)"

definition py_splitlines :: "string \<Rightarrow> string list" where
  "py_splitlines s = lines_from [] (chars s)"

definition ellipsis :: string where
  "ellipsis = [byte 226, byte 128, byte 166]"

definition middle_dot :: string where
  "middle_dot = '' '' @ [byte 194, byte 183] @ '' ''"

definition arrow :: string where
  "arrow = '' '' @ [byte 226, byte 134, byte 146] @ '' ''"

definition truncate_text :: "string \<Rightarrow> nat \<Rightarrow> string" where
  "truncate_text s width =
     (let collapsed = collapse_ws s in
      if width = 0 \<or> char_len collapsed \<le> width then collapsed
      else prefix_chars collapsed (width - 1) @ ellipsis)"

definition clip :: "string \<Rightarrow> nat \<Rightarrow> string" where
  "clip s limit =
     (let n = char_len s in
      if n \<le> limit then s
      else prefix_chars s limit @ ellipsis @ ''(+'' @ dec_digits (n - limit) @ ''ch)'')"

fun size_from :: "calendar \<Rightarrow> nat \<Rightarrow> nat \<Rightarrow> string list \<Rightarrow> string" where
  "size_from cal n i [] = []"
| "size_from cal n i (u # us) =
     (if us = [] \<or> n < 1024 ^ (i + 1) then
        (if i = 0 then dec_digits n @ u else cal_tenths cal n i @ u)
      else size_from cal n (i + 1) us)"

definition human_size :: "calendar \<Rightarrow> nat \<Rightarrow> string" where
  "human_size cal n = size_from cal n 0 SIZE_UNITS"

subsection \<open>Python's \<open>repr\<close>\<close>

definition is_py_printable :: "string \<Rightarrow> bool" where
  "is_py_printable c =
     (c = '' '' \<or> (let n = code_point c in
        \<not> (n \<le> 31 \<or> 127 \<le> n \<and> n \<le> 159 \<or> n = 160 \<or> n = 173 \<or> n = 5760 \<or> 8192 \<le> n \<and> n \<le> 8207 \<or>
           n = 8232 \<or> n = 8233 \<or> 8234 \<le> n \<and> n \<le> 8239 \<or> n = 8287 \<or> 8288 \<le> n \<and> n \<le> 8303 \<or>
           n = 12288 \<or> n = 65279)))"

definition hex2 :: "nat \<Rightarrow> string" where
  "hex2 n = [hex_digit (n div 16 mod 16), hex_digit (n mod 16)]"

definition repr_char :: "char \<Rightarrow> string \<Rightarrow> string" where
  "repr_char quote c =
     (if c = [byte 92] then [byte 92, byte 92]
      else if c = [byte 10] then [byte 92, CHR ''n'']
      else if c = [byte 13] then [byte 92, CHR ''r'']
      else if c = [byte 9] then [byte 92, CHR ''t'']
      else if c = [quote] then [byte 92, quote]
      else if is_py_printable c then c
      else (let cp = code_point c in
        if cp \<le> 255 then [byte 92, CHR ''x''] @ hex2 cp
        else if cp \<le> 65535 then [byte 92, CHR ''u''] @ hex4 cp
        else [byte 92, CHR ''U''] @ hex4 (cp div 65536) @ hex4 (cp mod 65536)))"

definition py_string_repr :: "string \<Rightarrow> string" where
  "py_string_repr s =
     (let quote = (if byte 39 \<in> set s \<and> byte 34 \<notin> set s then byte 34 else byte 39) in
      [quote] @ concat (map (repr_char quote) (chars s)) @ [quote])"

fun py_repr :: "floats \<Rightarrow> json \<Rightarrow> string option" where
  "py_repr fl JNull = Some ''None''"
| "py_repr fl (JBool b) = Some (if b then ''True'' else ''False'')"
| "py_repr fl (JNumber n) = format_number fl n True"
| "py_repr fl (JString s) = Some (py_string_repr s)"
| "py_repr fl (JArray xs) = map_option (\<lambda>ts. ''['' @ join '', '' ts @ '']'') (those (map (py_repr fl) xs))"
| "py_repr fl (JObject ps) =
     map_option (\<lambda>ts. ''{'' @ join '', '' ts @ ''}'')
       (those (map (\<lambda>(k, v). map_option (\<lambda>t. py_string_repr k @ '': '' @ t) (py_repr fl v)) ps))"

subsection \<open>Tool calls\<close>

definition line_budget :: "nat \<Rightarrow> budget" where
  "line_budget width = (let w = (if width = 0 then usize_max else width) in \<lparr>turn_chars = w, tool_chars = w\<rparr>)"

definition prefixed :: "string \<Rightarrow> string \<Rightarrow> string list" where
  "prefixed pre s = (let ls = map (\<lambda>line. pre @ line) (py_splitlines s) in if ls = [] then [rstrip pre] else ls)"

definition hunk_lines :: "string \<Rightarrow> string \<Rightarrow> budget \<Rightarrow> string list" where
  "hunk_lines old new b = prefixed ''- '' (clip old (tool_chars b)) @ prefixed ''+ '' (clip new (tool_chars b))"

definition newline :: string where
  "newline = [byte 10]"

fun multi_edit_lines :: "budget \<Rightarrow> nat \<Rightarrow> nat \<Rightarrow> edit_span list \<Rightarrow> string list" where
  "multi_edit_lines b i n [] = []"
| "multi_edit_lines b i n (s # ss) =
     (''edit '' @ dec_digits (i + 1) @ ''/'' @ dec_digits n) # hunk_lines (es_old s) (es_new s) b @ multi_edit_lines b (i + 1) n ss"

definition render_tool_call :: "floats \<Rightarrow> tool_call \<Rightarrow> budget \<Rightarrow> string option" where
  "render_tool_call fl call b = (case call of
      TBash c \<Rightarrow> Some (clip (bc_command c) (tool_chars b))
    | TEdit c \<Rightarrow> Some (join newline ((''Edit '' @ ec_file_path c) # hunk_lines (ec_old c) (ec_new c) b))
    | TMultiEdit c \<Rightarrow> Some (join newline ((''MultiEdit '' @ mc_file_path c) # multi_edit_lines b 0 (length (mc_edits c)) (mc_edits c)))
    | TWrite c \<Rightarrow> Some (''Write '' @ wc_file_path c @ newline @ clip (wc_content c) (tool_chars b))
    | _ \<Rightarrow> map_option (\<lambda>t. call_name call @ ''('' @ clip t (tool_chars b) @ '')'') (orjson_dumps fl (call_raw call)))"

subsection \<open>Turns\<close>

record call_label =
  cl_name :: string
  cl_ordinal :: "(nat \<times> nat) option"

definition label_head :: "call_label \<Rightarrow> string \<Rightarrow> string" where
  "label_head l verdict = (case cl_ordinal l of
      Some (i, n) \<Rightarrow> verdict @ '' '' @ dec_digits i @ ''/'' @ dec_digits n @ '': '' @ cl_name l
    | None \<Rightarrow> verdict @ '': '' @ cl_name l)"

definition quoted_result :: "string \<Rightarrow> string \<Rightarrow> budget \<Rightarrow> string list" where
  "quoted_result head content b =
     head # (if strip content \<noteq> [] then prefixed ''> '' (clip content (turn_chars b)) else [])"

definition chosen_option :: "json \<Rightarrow> string \<Rightarrow> string \<Rightarrow> json option" where
  "chosen_option payload asked_question label =
     Option.bind (Option.bind (field payload ''questions'') as_array) (\<lambda>questions.
     Option.bind (List.find (\<lambda>asked. field_str asked ''question'' = Some asked_question) questions) (\<lambda>asked.
     Option.bind (Option.bind (field asked ''options'') as_array) (\<lambda>options.
       List.find (\<lambda>opt. field_str opt ''label'' = Some label) options)))"

definition answer_row :: "ask_result_rec \<Rightarrow> budget \<Rightarrow> string \<times> string \<Rightarrow> string list" where
  "answer_row answer b = (\<lambda>(question, label).
     let opt = chosen_option (qr_raw answer) question label;
         annotation = map_of (qr_annotations answer) question;
         description = Option.bind opt (\<lambda>v. field_str v ''description'');
         preview = opt_or (Option.bind annotation qa_preview) (Option.bind opt (\<lambda>v. field_str v ''preview''));
         notes = Option.bind annotation qa_notes
     in (''user answered: '' @ clip question (turn_chars b) @ '' -> '' @ clip label (turn_chars b)) #
        opt_list (map_option (\<lambda>d. ''  option: '' @ clip d (turn_chars b)) description) @
        opt_list (map_option (\<lambda>p. ''  preview: '' @ clip p (tool_chars b)) preview) @
        opt_list (map_option (\<lambda>n. ''  notes: '' @ clip n (turn_chars b)) notes))"

definition answer_lines :: "ask_result_rec \<Rightarrow> budget \<Rightarrow> string list" where
  "answer_lines answer b = concat (map (answer_row answer b) (qr_answers answer))"

text \<open>\<^const>\<open>None\<close> is the panic of the payload's re-serialisation.\<close>

definition result_lines ::
  "env \<Rightarrow> call_label \<Rightarrow> tool_result_block \<Rightarrow> budget \<Rightarrow> bool \<Rightarrow> string list option" where
  "result_lines env l result b full =
     (if tr_is_error result then
        Some (if \<not> full then [] else quoted_result (label_head l ''failed'') (tr_content result) b)
      else if cl_name l = ''AskUserQuestion'' then
        (let answered = [''user answered: '' @ clip (tr_content result) (tool_chars b)] in
         case map_option (lift_tool_result env (cl_name l)) (tr_tool_use_result result) of
           Some (Inl _) \<Rightarrow> None
         | Some (Inr (RAskUserQuestion answer)) \<Rightarrow> Some (answer_lines answer b)
         | _ \<Rightarrow> Some answered)
      else if \<not> full then Some []
      else Some (quoted_result (label_head l ''result'') (tr_content result) b))"

definition registered_review_result_lines ::
  "env \<Rightarrow> string \<Rightarrow> tool_result_block \<Rightarrow> budget \<Rightarrow> string list option" where
  "registered_review_result_lines env name result b = result_lines env \<lparr>cl_name = name, cl_ordinal = None\<rparr> result b False"

definition queued_line :: "attachment_detail \<Rightarrow> (string \<times> string) option" where
  "queued_line detail = (case detail of
      ADQueuedCommand qc \<Rightarrow> Option.bind (qc_prompt qc) (\<lambda>prompt.
        if command_mode qc = Some ''task-notification'' then Some (''notification'', prompt)
        else if command_mode qc = Some ''prompt'' \<and> origin qc = Some ''human'' then Some (''user'', prompt)
        else if command_mode qc = Some ''prompt'' \<and> origin qc = Some ''peer'' then Some (''peer'', prompt)
        else if command_mode qc = Some ''prompt'' \<and> origin qc = Some ''channel'' then Some (''channel'', prompt)
        else None)
    | _ \<Rightarrow> None)"

definition human_queued_prompt :: "attachment_detail \<Rightarrow> string option" where
  "human_queued_prompt detail = (case detail of
      ADQueuedCommand qc \<Rightarrow>
        if command_mode qc = Some ''prompt'' \<and> origin qc = Some ''human'' then qc_prompt qc else None
    | _ \<Rightarrow> None)"

record turn_parts =
  tt_parts :: "string list"
  tt_typed :: "tool_call list"
  tt_calls :: "string \<rightharpoonup> call_label"

definition add_part :: "string \<Rightarrow> turn_parts \<Rightarrow> turn_parts" where
  "add_part p st = st\<lparr>tt_parts := tt_parts st @ [p]\<rparr>"

text \<open>The blocks of an assistant entry; \<open>ordinal\<close> counts its tool uses.\<close>

fun assistant_parts :: "floats \<Rightarrow> budget \<Rightarrow> bool \<Rightarrow> nat \<Rightarrow> nat \<Rightarrow> content_block list \<Rightarrow> turn_parts \<Rightarrow> turn_parts option" where
  "assistant_parts fl b full batch ordinal [] st = Some st"
| "assistant_parts fl b full batch ordinal (CText t # bs) st =
     assistant_parts fl b full batch ordinal bs
       (if strip t \<noteq> [] then add_part (''assistant: '' @ clip t (turn_chars b)) st else st)"
| "assistant_parts fl b full batch ordinal (CToolUse tu # bs) st =
     (case tt_typed st of
        [] \<Rightarrow> None
      | call # typed \<Rightarrow>
          Option.bind (render_tool_call fl call b) (\<lambda>rendered.
            let ordinal = ordinal + 1;
                l = \<lparr>cl_name = tu_name tu, cl_ordinal = (if full \<and> 1 < batch then Some (ordinal, batch) else None)\<rparr>;
                p = (case cl_ordinal l of
                    Some (i, n) \<Rightarrow> ''call '' @ dec_digits i @ ''/'' @ dec_digits n @ '': '' @ rendered
                  | None \<Rightarrow> rendered)
            in assistant_parts fl b full batch ordinal bs
                 (add_part p st\<lparr>tt_typed := typed, tt_calls := (tt_calls st)(tu_id tu \<mapsto> l)\<rparr>)))"
| "assistant_parts fl b full batch ordinal (_ # bs) st =
     assistant_parts fl b full batch ordinal bs st"

definition user_parts :: "env \<Rightarrow> budget \<Rightarrow> bool \<Rightarrow> tool_result_block list \<Rightarrow> turn_parts \<Rightarrow> turn_parts option" where
  "user_parts env b full results st =
     map_option (\<lambda>ls. st\<lparr>tt_parts := tt_parts st @ concat ls\<rparr>)
       (those (map (\<lambda>r. case tt_calls st (tr_tool_use_id r) of
            Some l \<Rightarrow> result_lines env l r b full
          | None \<Rightarrow> Some []) results))"

definition event_parts :: "env \<Rightarrow> floats \<Rightarrow> budget \<Rightarrow> bool \<Rightarrow> entry \<Rightarrow> turn_parts \<Rightarrow> turn_parts option" where
  "event_parts env fl b full e st = (case e of
      Assistant a \<Rightarrow>
        assistant_parts fl b full (length (filter is_tool_use_block (as_blocks a))) 0 (as_blocks a) st
    | User u \<Rightarrow> user_parts env b full (user_tool_results u) st
    | Attachment a \<Rightarrow> Some (case queued_line (ate_detail a) of
          Some (role, prompt) \<Rightarrow> add_part (role @ '': '' @ clip prompt (turn_chars b)) st
        | None \<Rightarrow> st)
    | _ \<Rightarrow> Some st)"

fun events_parts :: "env \<Rightarrow> floats \<Rightarrow> budget \<Rightarrow> bool \<Rightarrow> entry list \<Rightarrow> turn_parts \<Rightarrow> turn_parts option" where
  "events_parts env fl b full [] st = Some st"
| "events_parts env fl b full (e # es) st =
     Option.bind (event_parts env fl b full e st) (events_parts env fl b full es)"

definition render_turn_parts ::
  "env \<Rightarrow> floats \<Rightarrow> string \<Rightarrow> entry list \<Rightarrow> tool_call list \<Rightarrow> budget \<Rightarrow> bool \<Rightarrow> string option" where
  "render_turn_parts env fl prompt events tool_calls b full =
     map_option (\<lambda>st. join newline (tt_parts st))
       (events_parts env fl b full events
         \<lparr>tt_parts = (if prompt \<noteq> [] then [''user: '' @ clip prompt (turn_chars b)] else []),
          tt_typed = tool_calls, tt_calls = Map.empty\<rparr>)"

definition render_turn :: "env \<Rightarrow> floats \<Rightarrow> turn \<Rightarrow> budget \<Rightarrow> bool \<Rightarrow> string option" where
  "render_turn env fl t b full =
     render_turn_parts env fl (tn_prompt t) (tn_events t) (map tl_call (tn_tool_uses t)) b full"

end
