(* ===== verification/RenderLines.thy ===== *)
theory RenderLines
  imports RenderText
begin

text \<open>
  The one-line forms of \<open>render.rs\<close> (\<open>compact_line\<close> and the payload of an event), the
  searchable text of an event (\<open>haystack\<close>) and the rows of counts, facts, writes and verdicts.
\<close>

subsection \<open>Padding\<close>

definition pad_left :: "nat \<Rightarrow> string \<Rightarrow> string" where
  "pad_left w s = replicate (w - char_len s) (CHR '' '') @ s"

definition pad_right :: "nat \<Rightarrow> string \<Rightarrow> string" where
  "pad_right w s = s @ replicate (w - char_len s) (CHR '' '')"

definition filled :: "string option \<Rightarrow> string option" where
  "filled s = opt_filter (\<lambda>t. t \<noteq> []) s"

subsection \<open>Attachments\<close>

text \<open>The first text that is there and not empty.\<close>

definition first_text :: "string option list \<Rightarrow> string option" where
  "first_text opts = (case List.map_filter filled opts of [] \<Rightarrow> None | s # _ \<Rightarrow> Some s)"

definition or_empty :: "string option list \<Rightarrow> string" where
  "or_empty opts = opt_default [] (first_text opts)"

definition delta_text :: "deferred_tools_delta \<Rightarrow> string" where
  "delta_text d = ''+'' @ dec_digits (length (added_names d)) @ '' '' @ [byte 226, byte 136, byte 146] @
     dec_digits (length (removed_names d))"

definition attachment_text :: "floats \<Rightarrow> attachment_detail \<Rightarrow> string option" where
  "attachment_text fl detail = (case detail of
      ADHookSuccess h \<Rightarrow> Some (or_empty [hs_content h, hs_stdout h, hs_command h])
    | ADHookNonBlockingError h \<Rightarrow> Some (or_empty [hn_stderr h, hn_stdout h, hn_command h])
    | ADHookBlockingError h \<Rightarrow> (case opt_filter is_py_truthy (blocking_error h) of
          Some v \<Rightarrow> orjson_dumps fl v
        | None \<Rightarrow> Some [])
    | ADHookCancelled h \<Rightarrow> Some (or_empty [hc_command h])
    | ADHookAdditionalContext h \<Rightarrow> Some (join '' '' (ha_content h))
    | ADAsyncHookResponse h \<Rightarrow> Some (or_empty [ah_stdout h, ah_stderr h])
    | ADQueuedCommand q \<Rightarrow> Some (or_empty [qc_prompt q])
    | ADDeferredToolsDelta d \<Rightarrow> Some (delta_text d)
    | ADOther raw \<Rightarrow> orjson_dumps fl raw)"

subsection \<open>Payloads\<close>

definition channel_text :: "mode_channel \<Rightarrow> string" where
  "channel_text c = (case c of ChannelMode \<Rightarrow> ''mode'' | ChannelPermissionMode \<Rightarrow> ''permission-mode'')"

definition result_payload :: "tool_result_block \<Rightarrow> (string \<rightharpoonup> string) \<Rightarrow> nat \<Rightarrow> string" where
  "result_payload r names width =
     rstrip (''<-'' @ opt_default ''?'' (names (tr_tool_use_id r)) @ (if tr_is_error r then ''[err]'' else []) @
       '' ('' @ dec_digits (char_len (tr_content r)) @ ''ch) '' @ truncate_text (tr_content r) width)"

definition user_payload :: "env \<Rightarrow> user_entry \<Rightarrow> (string \<rightharpoonup> string) \<Rightarrow> nat \<Rightarrow> string" where
  "user_payload env u names width =
     (let t = truncate_text (user_text (ue_content u)) width;
          head = (if user_interrupted env u then strip (''[int] '' @ t) else t)
      in join '' '' (filter (\<lambda>p. p \<noteq> []) (head # map (\<lambda>r. result_payload r names width) (user_tool_results u))))"

definition block_payload :: "env \<Rightarrow> registry \<Rightarrow> floats \<Rightarrow> content_block \<Rightarrow> nat \<Rightarrow> bool \<Rightarrow> string option" where
  "block_payload env st fl block width thinking = (case block of
      CText t \<Rightarrow> Some (if strip t \<noteq> [] then [byte 34] @ truncate_text t width @ [byte 34] else [])
    | CThinking t \<Rightarrow> Some (''th('' @ dec_digits (char_len t) @ ''ch)'' @
        (if thinking then '' '' @ truncate_text t width else []))
    | CToolUse tu \<Rightarrow>
        map_option collapse_ws (render_tool_call fl (parse_tool_call env st (tu_name tu) (tu_input tu)) (line_budget width))
    | CToolResult _ \<Rightarrow> Some []
    | CFallback f \<Rightarrow> Some (''fallback '' @ from_model f @ ''->'' @ to_model f)
    | COther ty _ \<Rightarrow> Some ty)"

definition assistant_payload :: "env \<Rightarrow> registry \<Rightarrow> floats \<Rightarrow> assistant_entry \<Rightarrow> nat \<Rightarrow> bool \<Rightarrow> string option" where
  "assistant_payload env st fl a width thinking =
     map_option (\<lambda>ps. join '' '' ((''['' @ as_model a @ '']'') # filter (\<lambda>p. p \<noteq> []) ps))
       (those (map (\<lambda>b. block_payload env st fl b width thinking) (as_blocks a)))"

definition event_payload ::
  "env \<Rightarrow> registry \<Rightarrow> floats \<Rightarrow> entry \<Rightarrow> (string \<rightharpoonup> string) \<Rightarrow> nat \<Rightarrow> bool \<Rightarrow> string option" where
  "event_payload env st fl event names width thinking = (case event of
      User u \<Rightarrow> Some (user_payload env u names width)
    | Assistant a \<Rightarrow> assistant_payload env st fl a width thinking
    | System s \<Rightarrow> Some (case filled (se_content s) of
          Some c \<Rightarrow> subtype s @ '': '' @ truncate_text c width
        | None \<Rightarrow> subtype s)
    | Mode m \<Rightarrow> Some (channel_text (channel m) @ ''='' @ mo_value m)
    | Other x \<Rightarrow> Some (oe_ty x)
    | Attachment a \<Rightarrow> map_option (\<lambda>t. strip (attachment_type a @ '' '' @ truncate_text t width))
        (attachment_text fl (ate_detail a)))"

definition tag_for :: "string \<Rightarrow> string option" where
  "tag_for kind =
     (if kind = ''user'' then Some ''user'' else if kind = ''assistant'' then Some ''asst''
      else if kind = ''system'' then Some ''sys'' else if kind = ''mode'' then Some ''mode''
      else if kind = ''other'' then Some ''other'' else if kind = ''attachment'' then Some ''att''
      else None)"

definition compact_line ::
  "env \<Rightarrow> registry \<Rightarrow> floats \<Rightarrow> calendar \<Rightarrow> nat \<Rightarrow> entry \<Rightarrow> (string \<rightharpoonup> string) \<Rightarrow> nat \<Rightarrow> bool \<Rightarrow> bool \<Rightarrow> string option" where
  "compact_line env st fl cal index event names width thinking with_uuids =
     Option.bind (tag_for (event_kind event)) (\<lambda>tag.
     map_option (\<lambda>payload.
       let m = meta event;
           tag = tag @ (if is_some_and is_sidechain m then ''*'' else []);
           time = opt_default BLANK_TIME (map_option (\<lambda>m. cal_time cal (timestamp m)) m);
           line = rstrip (pad_left 5 (dec_digits index) @ '' '' @ pad_right 5 tag @ '' '' @ time @ '' '' @ payload)
       in (if with_uuids then (case m of Some m \<Rightarrow> line @ '' '' @ uuid m | None \<Rightarrow> line) else line))
       (event_payload env st fl event names width thinking))"

subsection \<open>The searchable text\<close>

definition tool_haystack :: "floats \<Rightarrow> content_block \<Rightarrow> string option" where
  "tool_haystack fl block = (case block of
      CToolUse tu \<Rightarrow> map_option (\<lambda>t. tu_name tu @ '' '' @ t) (orjson_dumps fl (tu_input tu))
    | CToolResult r \<Rightarrow> Some (tr_content r)
    | _ \<Rightarrow> None)"

definition is_tool_block :: "content_block \<Rightarrow> bool" where
  "is_tool_block b = (case b of CToolUse _ \<Rightarrow> True | CToolResult _ \<Rightarrow> True | _ \<Rightarrow> False)"

definition thinking_texts :: "content_block list \<Rightarrow> string list" where
  "thinking_texts bs = List.map_filter (\<lambda>b. case b of CThinking t \<Rightarrow> Some t | _ \<Rightarrow> None) bs"

definition haystack :: "floats \<Rightarrow> entry \<Rightarrow> bool \<Rightarrow> bool \<Rightarrow> bool \<Rightarrow> string option" where
  "haystack fl event where_text where_thinking where_tools = (case event of
      System s \<Rightarrow> Some (if where_text then
          (case filled (se_content s) of Some c \<Rightarrow> subtype s @ '': '' @ c | None \<Rightarrow> subtype s) else [])
    | Mode m \<Rightarrow> Some (if where_text then channel_text (channel m) @ ''='' @ mo_value m else [])
    | Other x \<Rightarrow> Some (if where_text then oe_ty x else [])
    | Attachment a \<Rightarrow> (if where_text then
          map_option (\<lambda>t. strip (attachment_type a @ '' '' @ t)) (attachment_text fl (ate_detail a)) else Some [])
    | _ \<Rightarrow>
        map_option (\<lambda>tools. join newline (filter (\<lambda>p. p \<noteq> [])
            ((if where_text then [entry_text event] else []) @
             (if where_thinking then thinking_texts (blocks event) else []) @ tools)))
          (if where_tools then those (map (tool_haystack fl) (filter is_tool_block (blocks event))) else Some []))"

subsection \<open>Rows\<close>

definition render_histogram :: "(string \<times> nat) list \<Rightarrow> string" where
  "render_histogram counts =
     (if counts = [] then ''-'' else join middle_dot (map (\<lambda>(name, n). name @ '' '' @ dec_digits n) counts))"

definition render_indexes :: "nat list \<Rightarrow> string" where
  "render_indexes indexes = (if indexes = [] then ''-'' else join middle_dot (map dec_digits indexes))"

definition render_span :: "calendar \<Rightarrow> datetime option \<Rightarrow> datetime option \<Rightarrow> string" where
  "render_span cal f l = (case (f, l) of
      (Some f, Some l) \<Rightarrow> cal_span cal f @ arrow @ cal_span cal l
    | _ \<Rightarrow> ''-'')"

definition render_counts :: "(string \<times> nat) list \<Rightarrow> string list" where
  "render_counts counts =
     (let width = opt_default 1 (if counts = [] then None else Some (Max (set (map (\<lambda>p. length (dec_digits (snd p))) counts))))
      in map (\<lambda>(name, n). ''  '' @ pad_left width (dec_digits n) @ ''  '' @ name)
           (stable_sort (then_by (by_key_desc snd) (by_key fst)) counts))"

definition render_mcp :: "(string \<times> server_summary) list \<Rightarrow> string list" where
  "render_mcp summary =
     (let width = (if summary = [] then 0 else Max (set (map (\<lambda>p. char_len (fst p)) summary)))
      in map (\<lambda>(server, d). pad_right width server @ ''  read '' @ dec_digits (ss_read d) @ middle_dot @ ''write '' @
           dec_digits (ss_write d) @ middle_dot @ ''total '' @ dec_digits (ss_total d) @ ''  '' @
           render_histogram (take 5 (ss_tools d))) summary)"

definition fact_line :: "calendar \<Rightarrow> tool_fact \<Rightarrow> string" where
  "fact_line cal f =
     cal_span cal (tf_ts f) @ '' '' @ prefix_chars (tf_session_id f) 8 @ '' '' @
     (case (tf_mcp_server f, tf_mcp_tool f) of
        (Some server, Some tool) \<Rightarrow> server @ ''/'' @ tool
      | _ \<Rightarrow> tf_tool f) @
     (if tf_command_prefixes f = [] then [] else '' '' @ join '','' (tf_command_prefixes f)) @
     (if tf_denied f then '' [denied]'' else if tf_is_error f then '' [err]'' else [])"

definition denial_line :: "tool_fact \<Rightarrow> string" where
  "denial_line f =
     (let head = (case opt_or (filled (tf_command f)) (filled (tf_file_path f)) of
            Some target \<Rightarrow> tf_tool f @ '' '' @ target
          | None \<Rightarrow> tf_tool f)
      in (case filled (tf_user_said f) of Some said \<Rightarrow> head @ arrow @ said | None \<Rightarrow> head))"

definition blame_line :: "calendar \<Rightarrow> session_write \<Rightarrow> string" where
  "blame_line cal w =
     cal_span cal (last_write_ts w) @ '' '' @ prefix_chars (sw_session_id w) 8 @ '' '' @ sw_tree w @ '' '' @
     dec_digits (sw_writes w) @ ''w '' @ join '','' (sw_tools w) @ '' '' @ [byte 226, byte 128, byte 148] @ '' '' @
     (case sw_first_prompt w of Some t \<Rightarrow> prefix_chars (collapse_ws t) 80 | None \<Rightarrow> ''-'')"

definition attribute_lines :: "calendar \<Rightarrow> verdict \<Rightarrow> string \<Rightarrow> string list" where
  "attribute_lines cal v rel_target = (case v of
      Claude sid ev \<Rightarrow>
        [''claude:'' @ sid,
         ''  '' @ ev_tool ev @ '' wrote '' @ rel_target @ '' at '' @ cal_span cal (ev_ts ev) @ '' ('' @ ev_tree ev @ '')'']
    | Generated cs \<Rightarrow>
        (''generated:'' @ join '','' (map (\<lambda>c. prefix_chars (gc_session_id c) 8) cs)) #
        concat (map (\<lambda>c. (''  '' @ prefix_chars (gc_session_id c) 8 @ '' active '' @ cal_span cal (window_start c) @ ''..'' @
            cal_span cal (window_end c)) #
          map (\<lambda>(_, command). ''    $ '' @ collapse_ws command) (gc_bash c)) cs)
    | External \<Rightarrow> [''external''])"

definition display_path :: "string option \<Rightarrow> string \<Rightarrow> string" where
  "display_path home path = (case home of
      Some h \<Rightarrow>
        (if h \<noteq> [] \<and> is_some_and (\<lambda>r. r \<noteq> [] \<and> hd r = CHR ''/'') (strip_prefix h path)
         then ''~/'' @ drop (length h + 1) path else path)
    | None \<Rightarrow> path)"

definition transcript_header :: "string option \<Rightarrow> string \<Rightarrow> string" where
  "transcript_header home path = ''== '' @ display_path home path"

end
