(* ===== verification/Haystack.thy ===== *)
theory Haystack
  imports RenderLines Service
begin

text \<open>
  The bound \<open>render.rs\<close> puts on the searchable text of an event before it is built: the same walk
  as \<open>haystack\<close>, adding up lengths against a limit. Its parts come from
  \<open>snapshot_projection.rs\<close>. It is exact: it gives the length of the text, or fails when the text
  is longer than the limit.
\<close>

subsection \<open>Sums under a limit\<close>

type_synonym bound = "(snapshot_error + nat) option"

definition search_limit :: snapshot_error where
  "search_limit = snapshot_error Incomplete ''searchable event exceeds projection budget''"

definition search_add :: "nat \<Rightarrow> nat \<Rightarrow> nat \<Rightarrow> snapshot_error + nat" where
  "search_add so_far bytes limit =
     (if so_far + bytes \<le> usize_max \<and> so_far + bytes \<le> limit then Inr (so_far + bytes) else Inl search_limit)"

definition bound_bind :: "bound \<Rightarrow> (nat \<Rightarrow> bound) \<Rightarrow> bound" where
  "bound_bind r f = (case r of None \<Rightarrow> None | Some (Inl e) \<Rightarrow> Some (Inl e) | Some (Inr n) \<Rightarrow> f n)"

text \<open>\<open>f\<close> adds one element to the total; a separator of one byte comes before all but the first.\<close>

fun bound_items :: "('a \<Rightarrow> nat \<Rightarrow> bound) \<Rightarrow> nat \<Rightarrow> bool \<Rightarrow> 'a list \<Rightarrow> nat \<Rightarrow> bound" where
  "bound_items f limit first [] so_far = Some (Inr so_far)"
| "bound_items f limit first (x # xs) so_far =
     bound_bind (if first then Some (Inr so_far) else Some (search_add so_far 1 limit)) (\<lambda>so_far.
     bound_bind (f x so_far) (bound_items f limit False xs))"

lemma bound_items_eq:
  "(\<And>x. x \<in> set xs \<Longrightarrow> f x = g x) \<Longrightarrow> bound_items f limit first xs n = bound_items g limit first xs n"
proof (induction xs arbitrary: first n)
  case (Cons x xs)
  have "bound_items f limit False xs = bound_items g limit False xs"
    by (rule ext, rule Cons.IH) (use Cons.prems in simp)
  then show ?case using Cons.prems by simp
qed simp

lemma bound_items_cong [fundef_cong]:
  assumes "xs = ys" "\<And>x. x \<in> set ys \<Longrightarrow> f x = g x" "limit = limit'" "first = first'"
  shows "bound_items f limit first xs = bound_items g limit' first' ys"
  by (rule ext) (use bound_items_eq [of ys f g] assms in simp)

subsection \<open>Texts of the projection\<close>

definition output_limit :: snapshot_error where
  "output_limit = snapshot_error OutputLimit ''projection text exceeds output budget''"

definition checked_sub :: "nat \<Rightarrow> nat \<Rightarrow> snapshot_error + nat" where
  "checked_sub a b = (if b \<le> a then Inr (a - b) else Inl output_limit)"

definition plan_cost :: "string \<Rightarrow> nat" where
  "plan_cost ch =
     (if ch \<in> set (map (\<lambda>n. [byte n]) [34, 92, 8, 12, 10, 13, 9]) then 2
      else if code_point ch < 32 then 6 else length ch)"

fun plan_chars :: "string list \<Rightarrow> nat \<Rightarrow> snapshot_error + nat" where
  "plan_chars [] remaining = Inr remaining"
| "plan_chars (c # cs) remaining = res_bind (checked_sub remaining (plan_cost c)) (plan_chars cs)"

definition text_plan_size :: "string list \<Rightarrow> nat \<Rightarrow> snapshot_error + nat" where
  "text_plan_size parts max_bytes =
     res_bind (checked_sub max_bytes 2) (\<lambda>remaining.
     res_bind (plan_chars (concat (map chars parts)) remaining) (\<lambda>remaining. Inr (max_bytes - remaining)))"

fun spaced_texts :: "string list \<Rightarrow> string list" where
  "spaced_texts [] = []"
| "spaced_texts [t] = [t]"
| "spaced_texts (t # u # ts) = t # '' '' # spaced_texts (u # ts)"

definition joined_event_parts :: "entry \<Rightarrow> string list" where
  "joined_event_parts event = (case event of
      User u \<Rightarrow> (case ue_content u of Plain t \<Rightarrow> [t] | Blocks bs \<Rightarrow> spaced_texts (text_blocks bs))
    | Assistant a \<Rightarrow> spaced_texts (text_blocks (as_blocks a))
    | _ \<Rightarrow> [])"

definition strip_parts :: "string list \<Rightarrow> string list" where
  "strip_parts parts =
     (let kept = dropWhile (\<lambda>p. lstrip p = []) parts in
      if kept = [] then []
      else (let ps = rev (dropWhile (\<lambda>p. rstrip p = []) (rev kept));
                ps = ps[0 := lstrip (hd ps)]
            in ps[length ps - 1 := rstrip (last ps)]))"

subsection \<open>Bounds\<close>

definition add_bytes :: "nat \<Rightarrow> nat \<Rightarrow> bound \<Rightarrow> bound" where
  "add_bytes limit so_far r = bound_bind r (\<lambda>bytes. Some (search_add so_far bytes limit))"

definition string_bound :: "string \<Rightarrow> nat \<Rightarrow> bound" where
  "string_bound s limit = Some (case text_plan_size [s] limit of Inl _ \<Rightarrow> Inl search_limit | Inr n \<Rightarrow> Inr n)"

definition number_bytes_of :: "floats \<Rightarrow> jnumber \<Rightarrow> nat option" where
  "number_bytes_of fl n = (case num_raw n of
      Some raw \<Rightarrow> if \<not> float_lexeme raw then Some (length (integer_lexeme raw)) else map_option length (format_number fl n False)
    | None \<Rightarrow> map_option length (format_number fl n False))"

function orjson_bound :: "floats \<Rightarrow> json \<Rightarrow> nat \<Rightarrow> bound" where
  "orjson_bound fl JNull limit = Some (search_add 0 4 limit)"
| "orjson_bound fl (JBool b) limit = Some (search_add 0 (if b then 4 else 5) limit)"
| "orjson_bound fl (JNumber n) limit = map_option (\<lambda>bytes. search_add 0 bytes limit) (number_bytes_of fl n)"
| "orjson_bound fl (JString s) limit = string_bound s limit"
| "orjson_bound fl (JArray xs) limit =
     bound_bind (Some (search_add 0 2 limit))
       (bound_items (\<lambda>item so_far. add_bytes limit so_far (orjson_bound fl item (limit - so_far))) limit True xs)"
| "orjson_bound fl (JObject ps) limit =
     bound_bind (Some (search_add 0 2 limit))
       (bound_items (\<lambda>(key, item) so_far.
          bound_bind (add_bytes limit so_far (string_bound key (limit - so_far))) (\<lambda>so_far.
          bound_bind (Some (search_add so_far 1 limit)) (\<lambda>so_far.
            add_bytes limit so_far (orjson_bound fl item (limit - so_far))))) limit True (deduped_pairs ps))"
  by pat_completeness auto
termination
  by (relation "measure (\<lambda>(fl, v, limit). size v)")
    (auto dest: size_deduped_pair simp: less_Suc_eq_le size_list_estimation')

definition tool_haystack_bound :: "floats \<Rightarrow> content_block \<Rightarrow> nat \<Rightarrow> bound" where
  "tool_haystack_bound fl block limit = (case block of
      CToolUse tu \<Rightarrow>
        bound_bind (Some (search_add 0 (length (tu_name tu)) limit)) (\<lambda>so_far.
        bound_bind (Some (search_add so_far 1 limit)) (\<lambda>so_far.
          add_bytes limit so_far (orjson_bound fl (tu_input tu) (limit - so_far))))
    | CToolResult r \<Rightarrow> Some (search_add 0 (length (tr_content r)) limit)
    | _ \<Rightarrow> None)"

fun add_lengths :: "nat \<Rightarrow> string list \<Rightarrow> nat \<Rightarrow> bound" where
  "add_lengths limit [] so_far = Some (Inr so_far)"
| "add_lengths limit (p # ps) so_far =
     bound_bind (Some (search_add so_far (length p) limit)) (add_lengths limit ps)"

text \<open>The parts of an attachment's text, and the value printed after them when there is one.\<close>

definition attachment_parts :: "attachment_entry \<Rightarrow> string list \<times> json option" where
  "attachment_parts a = (case ate_detail a of
      ADHookSuccess h \<Rightarrow> (opt_list (first_text [hs_content h, hs_stdout h, hs_command h]), None)
    | ADHookNonBlockingError h \<Rightarrow> (opt_list (first_text [hn_stderr h, hn_stdout h, hn_command h]), None)
    | ADHookBlockingError h \<Rightarrow> ([], opt_filter is_py_truthy (blocking_error h))
    | ADHookCancelled h \<Rightarrow> (opt_list (first_text [hc_command h]), None)
    | ADHookAdditionalContext h \<Rightarrow> (spaced_texts (ha_content h), None)
    | ADAsyncHookResponse h \<Rightarrow> (opt_list (first_text [ah_stdout h, ah_stderr h]), None)
    | ADQueuedCommand q \<Rightarrow> (opt_list (first_text [qc_prompt q]), None)
    | ADDeferredToolsDelta d \<Rightarrow> ([delta_text d], None)
    | ADOther raw \<Rightarrow> ([], Some raw))"

definition attachment_haystack_bound :: "floats \<Rightarrow> attachment_entry \<Rightarrow> nat \<Rightarrow> bound" where
  "attachment_haystack_bound fl a limit = (case attachment_parts a of
      (parts, Some v) \<Rightarrow>
        (let pre = lstrip (attachment_type a) in
         bound_bind (if pre \<noteq> [] then bound_bind (Some (search_add 0 (length pre) limit)) (\<lambda>so_far. Some (search_add so_far 1 limit))
             else Some (Inr 0)) (\<lambda>so_far.
           add_bytes limit so_far (orjson_bound fl v (limit - so_far))))
    | (parts, None) \<Rightarrow> add_lengths limit (strip_parts ([attachment_type a, '' ''] @ parts)) 0)"

text \<open>The pieces are joined by a newline, the empty ones left out.\<close>

fun add_pieces :: "nat \<Rightarrow> bound list \<Rightarrow> nat \<Rightarrow> nat \<Rightarrow> bound" where
  "add_pieces limit [] pieces so_far = Some (Inr so_far)"
| "add_pieces limit (r # rs) pieces so_far =
     bound_bind r (\<lambda>bytes.
       if bytes = 0 then add_pieces limit rs pieces so_far
       else bound_bind (if pieces \<noteq> 0 then Some (search_add so_far 1 limit) else Some (Inr so_far)) (\<lambda>so_far.
         bound_bind (Some (search_add so_far bytes limit)) (add_pieces limit rs (pieces + 1))))"

definition haystack_bound :: "floats \<Rightarrow> entry \<Rightarrow> bool \<Rightarrow> bool \<Rightarrow> bool \<Rightarrow> nat \<Rightarrow> bound" where
  "haystack_bound fl event where_text where_thinking where_tools limit = (case event of
      System s \<Rightarrow> (if \<not> where_text then Some (Inr 0) else
        bound_bind (Some (search_add 0 (length (subtype s)) limit)) (\<lambda>so_far. case filled (se_content s) of
            Some c \<Rightarrow> bound_bind (Some (search_add so_far 2 limit)) (\<lambda>so_far. Some (search_add so_far (length c) limit))
          | None \<Rightarrow> Some (Inr so_far)))
    | Mode m \<Rightarrow> (if \<not> where_text then Some (Inr 0) else
        bound_bind (Some (search_add 0 (length (channel_text (channel m))) limit)) (\<lambda>so_far.
        bound_bind (Some (search_add so_far 1 limit)) (\<lambda>so_far. Some (search_add so_far (length (mo_value m)) limit))))
    | Other x \<Rightarrow> (if \<not> where_text then Some (Inr 0) else Some (search_add 0 (length (oe_ty x)) limit))
    | Attachment a \<Rightarrow> (if \<not> where_text then Some (Inr 0) else attachment_haystack_bound fl a limit)
    | _ \<Rightarrow> add_pieces limit
        ((if where_text then [add_lengths limit (joined_event_parts event) 0] else []) @
         (if where_thinking then map (\<lambda>t. Some (Inr (length t))) (thinking_texts (blocks event)) else []) @
         (if where_tools then map (\<lambda>b. tool_haystack_bound fl b limit) (filter is_tool_block (blocks event)) else [])) 0 0)"

end
