(* ===== verification/RenderJsonFacts.thy ===== *)
theory RenderJsonFacts
  imports RenderJson
begin

text \<open>
  What the readers of \<^theory_text>\<open>RenderJson\<close> do with the texts of its printers: the reader returns on
  every text and moves forward, escapes and numbers are read back as written.
\<close>

subsection \<open>The reader returns and moves forward\<close>

definition forward :: "nat \<Rightarrow> 'a parse \<Rightarrow> bool" where
  "forward m p \<longleftrightarrow> (\<exists>r. p = Some r \<and> (\<forall>v rest. r = Inr (v, rest) \<longrightarrow> length rest < m))"

definition value_reader :: "(string \<Rightarrow> rjson parse) \<Rightarrow> nat \<Rightarrow> bool" where
  "value_reader pv k \<longleftrightarrow> (\<forall>input. length input < k \<longrightarrow> forward (length input) (pv input))"

lemma forward_simps [simp]:
  "forward m (Some (Inl e))" "forward m (Some (Inr (v, rest))) \<longleftrightarrow> length rest < m" "\<not> forward m None"
  by (auto simp: forward_def)

lemma forward_if: "(c \<Longrightarrow> forward m a) \<Longrightarrow> (\<not> c \<Longrightarrow> forward m b) \<Longrightarrow> forward m (if c then a else b)"
  by simp

lemma forward_next: "length rest < m \<Longrightarrow> forward m (Some (Inr (v, rest)))"
  by simp

lemma forward_bind:
  assumes "forward m p" "m \<le> k" "\<And>v rest. p = Some (Inr (v, rest)) \<Longrightarrow> length rest < m \<Longrightarrow> forward k (f v rest)"
  shows "forward k (parse_bind p f)"
  using assms by (auto simp: forward_def parse_bind_def split: sum.splits)

lemma forward_le: "forward m p \<Longrightarrow> m \<le> k \<Longrightarrow> forward k p"
  by (force simp: forward_def)

lemma pyjson_ws_le: "length (pyjson_ws tx) \<le> length tx"
  by (simp add: pyjson_ws_def length_dropWhile_le)

lemma tl_less: "xs \<noteq> [] \<Longrightarrow> length xs \<le> m \<Longrightarrow> length (tl xs) < m"
  by (cases xs) auto

lemma expect_rest: "pyjson_expect n tx token = Inr rest \<Longrightarrow> length rest \<le> length tx"
  by (auto simp: pyjson_expect_def split: if_splits)

lemma object_loop_forward:
  assumes "value_reader pv m"
  shows "length input < m \<Longrightarrow> length input < k \<Longrightarrow> forward (length input) (object_loop pv n k pairs input)"
proof (induction k arbitrary: pairs input)
  case (Suc k)
  have pv: "forward (length t) (pv t)" if "length t \<le> length input" for t
    using assms that Suc.prems by (simp add: value_reader_def)
  show ?case
    unfolding object_loop.simps
  proof (rule forward_bind [OF pv])
    show "length (pyjson_ws input) \<le> length input" by (rule pyjson_ws_le)
    then show "length (pyjson_ws input) \<le> length input" .
    fix key :: rjson and rest :: string assume rest: "length rest < length (pyjson_ws input)"
    then have less: "length rest < length input" using pyjson_ws_le [of input] by simp
    have loop: "forward (length input)
        (if pyjson_ws r \<noteq> [] \<and> hd (pyjson_ws r) = CHR '','' then object_loop pv n k p (tl (pyjson_ws r))
         else if pyjson_ws r \<noteq> [] \<and> hd (pyjson_ws r) = CHR ''}'' then Some (Inr (RObj p, tl (pyjson_ws r)))
         else Some (Inl (ObjectClose (n - length (pyjson_ws r)))))" if "length r < length input" for r p
    proof -
      have t: "length (tl (pyjson_ws r)) < length input" using pyjson_ws_le [of r] that by simp
      have "forward (length (tl (pyjson_ws r))) (object_loop pv n k p (tl (pyjson_ws r)))"
        if "pyjson_ws r \<noteq> []"
        by (rule Suc.IH) (use t tl_less [OF that pyjson_ws_le] \<open>length r < length input\<close> Suc.prems in auto)
      then have "forward (length input) (object_loop pv n k p (tl (pyjson_ws r)))" if "pyjson_ws r \<noteq> []"
        using that t by (metis forward_le less_imp_le)
      then show ?thesis using t by simp
    qed
    show "forward (length input) (case key of RStr key \<Rightarrow>
        (case pyjson_expect n (pyjson_ws rest) '':'' of Inl e \<Rightarrow> Some (Inl e)
         | Inr rest \<Rightarrow> parse_bind (pv rest) (\<lambda>v rest.
            let pairs = put_pair key v pairs; rest = pyjson_ws rest in
            if rest \<noteq> [] \<and> hd rest = CHR '','' then object_loop pv n k pairs (tl rest)
            else if rest \<noteq> [] \<and> hd rest = CHR ''}'' then Some (Inr (RObj pairs, tl rest))
            else Some (Inl (ObjectClose (n - length rest)))))
       | _ \<Rightarrow> Some (Inl (StringKey (n - length rest))))"
    proof (cases key)
      case (RStr s)
      show ?thesis
      proof (cases "pyjson_expect n (pyjson_ws rest) '':''")
        case (Inr t)
        have t: "length t < length input" using expect_rest [OF Inr] pyjson_ws_le [of rest] less by simp
        show ?thesis unfolding RStr rjson.case Inr sum.case Let_def
          by (rule forward_bind [OF pv]; (rule loop)?) (use t in simp_all)
      qed (simp add: RStr)
    qed simp_all
  qed
qed simp

lemma array_loop_forward:
  assumes "value_reader pv m"
  shows "length input < m \<Longrightarrow> length input < k \<Longrightarrow> forward (length input) (array_loop pv n k items input)"
proof (induction k arbitrary: items input)
  case (Suc k)
  have pv: "forward (length input) (pv input)" using assms Suc.prems by (simp add: value_reader_def)
  show ?case
    unfolding array_loop.simps Let_def
  proof (rule forward_bind [OF pv order_refl])
    fix v :: rjson and rest :: string assume rest: "length rest < length input"
    have t: "length (tl (pyjson_ws rest)) < length input" using pyjson_ws_le [of rest] rest by simp
    have "forward (length (tl (pyjson_ws rest))) (array_loop pv n k (items @ [v]) (tl (pyjson_ws rest)))"
      if "pyjson_ws rest \<noteq> []"
      by (rule Suc.IH) (use t tl_less [OF that pyjson_ws_le] rest Suc.prems in auto)
    then have "forward (length input) (array_loop pv n k (items @ [v]) (tl (pyjson_ws rest)))"
      if "pyjson_ws rest \<noteq> []" using that t by (metis forward_le less_imp_le)
    then show "forward (length input)
        (if pyjson_ws rest \<noteq> [] \<and> hd (pyjson_ws rest) = CHR '','' then array_loop pv n k (items @ [v]) (tl (pyjson_ws rest))
         else if pyjson_ws rest \<noteq> [] \<and> hd (pyjson_ws rest) = CHR '']'' then Some (Inr (RArr (items @ [v]), tl (pyjson_ws rest)))
         else Some (Inl (ArrayClose (n - length (pyjson_ws rest)))))" using t by simp
  qed
qed simp

lemma pyjson_string_rest: "pyjson_string n acc tx = Inr (s, rest) \<Longrightarrow> length rest < length tx"
proof (induction n acc tx rule: pyjson_string.induct)
  case (2 n acc c cs)
  show ?case
  proof (cases "c = byte 34")
    case False
    show ?thesis
    proof (cases "c = byte 92")
      case True
      show ?thesis
      proof (cases cs)
        case (Cons e es)
        show ?thesis
        proof (cases "e = CHR ''u''")
          case u: True
          show ?thesis
          proof (cases "pyjson_unicode es")
            case (Inr p)
            obtain ch r where p: "p = (ch, r)" by (cases p)
            have "length rest < length r"
              using "2.IH"(1) [OF False True Cons u Inr p [symmetric]] "2.prems" False True Cons u Inr p by simp
            then show ?thesis using pyjson_unicode_rest [of es ch r] Inr p Cons by simp
          qed (use "2.prems" False True Cons u in simp)
        next
          case u: False
          show ?thesis
          proof (cases "plain_escape e")
            case (Some x)
            have "length rest < length es"
              using "2.IH"(2) [OF False True Cons u Some] "2.prems" False True Cons u Some by simp
            then show ?thesis using Cons by simp
          qed (use "2.prems" False True Cons u in simp)
        qed
      qed (use "2.prems" False True in simp)
    next
      case n92: False
      show ?thesis
      proof (cases "(of_char c :: nat) < 32")
        case False
        have "length rest < length (dropWhile is_continuation cs)"
          using "2.IH"(3) [OF \<open>c \<noteq> byte 34\<close> n92 False] "2.prems" \<open>c \<noteq> byte 34\<close> n92 False by simp
        then show ?thesis using length_dropWhile_le [of is_continuation cs] by simp
      qed (use "2.prems" False n92 in simp)
    qed
  qed (use "2.prems" in simp)
qed simp

lemma number_rest:
  assumes "pyjson_number fl tx = Inr (v, rest)" "tx \<noteq> []"
  shows "length rest < length tx"
proof -
  have "pyjson_number_lexeme (takeWhile number_byte tx)" "rest = dropWhile number_byte tx"
    using assms by (auto simp: pyjson_number_def number_value_def map_sum_def split: sum.splits if_splits)
  moreover have "\<not> pyjson_number_lexeme []"
    by (simp add: pyjson_number_lexeme_def integer_rest_def after_digits_def strip_prefix_def)
  ultimately have "takeWhile number_byte tx \<noteq> []" by metis
  then have "0 < length (takeWhile number_byte tx)" by simp
  then have "length (dropWhile number_byte tx) < length tx"
    by (metis length_append less_add_same_cancel2 takeWhile_dropWhile_id)
  then show ?thesis using \<open>rest = dropWhile number_byte tx\<close> by simp
qed

lemma literal_forward:
  assumes "token \<noteq> []" "tx \<noteq> []"
  shows "forward (length tx) (Some (pyjson_literal n tx token v))"
  using assms by (cases token) (auto simp: pyjson_literal_def pyjson_expect_def)

lemma pyjson_value_reader: "value_reader (pyjson_value fl n k) k"
proof (induction k)
  case (Suc k)
  show ?case
    unfolding value_reader_def
  proof (intro allI impI)
    fix input :: string assume len: "length input < Suc k"
    obtain tx where tx: "tx = pyjson_ws input" by blast
    have le: "length tx \<le> length input" using pyjson_ws_le tx by simp
    show "forward (length input) (pyjson_value fl n (Suc k) input)"
    proof (cases "tx = []")
      case ne: False
      obtain body where body: "body = pyjson_ws (tl tx)" by blast
      have bl: "length body < length tx"
        using pyjson_ws_le [of "tl tx"] ne body by (metis le_less_trans length_tl tl_less order_refl)
      then have bk: "length body < k" using le len by simp
      have obj: "forward (length tx) (object_loop (pyjson_value fl n k) n k [] body)"
        using object_loop_forward [OF Suc bk bk] bl by (metis forward_le less_imp_le)
      have arr: "forward (length tx) (array_loop (pyjson_value fl n k) n k [] body)"
        using array_loop_forward [OF Suc bk bk] bl by (metis forward_le less_imp_le)
      have str: "forward (length tx) (Some (map_sum id (map_prod RStr id) (pyjson_string n [] (tl tx))))"
        using pyjson_string_rest [of n "[]" "tl tx"] ne
        by (cases "pyjson_string n [] (tl tx)") (auto dest: pyjson_string_rest)
      have num: "forward (length tx) (Some (pyjson_number fl tx))"
        using number_rest [OF _ ne] by (auto simp: forward_def)
      have inf: "forward (length tx) (Some (Inr (RFloat (Infinite True), drop (length ''-Infinity'') tx)))"
        if "prefix ''-Infinity'' tx" using that by (auto simp: prefix_def)
      have tb: "length (tl body) < length tx" using bl by simp
      have "forward (length tx) (pyjson_value fl n (Suc k) input)"
        unfolding pyjson_value.simps Let_def tx [symmetric] body [symmetric]
        by (rule forward_if forward_simps(1) forward_next [OF tb] obj arr str num inf literal_forward ne
              list.distinct(2) | assumption)+
      then show ?thesis using le by (rule forward_le)
    qed (simp add: tx [symmetric])
  qed
qed (simp add: value_reader_def)

lemma pyjson_loads_returns: "\<exists>r. pyjson_loads fl tx = Some r"
  using pyjson_value_reader [of fl "length tx" "Suc (length tx)"]
  by (auto simp: value_reader_def pyjson_loads_def forward_def)

subsection \<open>Characters\<close>

definition wf_char :: "string \<Rightarrow> bool" where
  "wf_char ch \<longleftrightarrow> is_scalar (code_point ch) \<and> utf8_of (code_point ch) = ch"

definition wf_text :: "string \<Rightarrow> bool" where
  "wf_text s \<longleftrightarrow> list_all wf_char (chars s)"

lemma continuation_byte: "n < 64 \<Longrightarrow> is_continuation (byte (128 + n))"
  by (simp add: is_continuation_def)

lemma lead_byte: "n < 128 \<or> 192 \<le> n \<and> n < 256 \<Longrightarrow> \<not> is_continuation (byte n)"
  by (auto simp: is_continuation_def)

lemma utf8_shape:
  assumes "is_scalar n"
  shows "\<exists>c cs. utf8_of n = c # cs \<and> \<not> is_continuation c \<and> list_all is_continuation cs \<and>
    (n < 128 \<longleftrightarrow> cs = []) \<and> (n < 128 \<longrightarrow> c = byte n) \<and> (128 \<le> n \<longrightarrow> 192 \<le> (of_char c :: nat))"
  using assms by (auto simp: utf8_of_def is_scalar_def continuation_byte lead_byte)

lemma wf_char_shape:
  assumes "wf_char ch"
  shows "\<exists>c cs. ch = c # cs \<and> \<not> is_continuation c \<and> list_all is_continuation cs \<and>
    (code_point ch < 128 \<longleftrightarrow> cs = []) \<and> (code_point ch < 128 \<longrightarrow> c = byte (code_point ch)) \<and>
    (128 \<le> code_point ch \<longrightarrow> 192 \<le> (of_char c :: nat))"
  using utf8_shape [of "code_point ch"] assms by (simp add: wf_char_def)

lemma wf_char_list: "wf_char ch \<Longrightarrow> starts_char ch \<and> chars ch = [ch]"
  using wf_char_shape [of ch] by (auto simp: starts_char_def list_all_iff takeWhile_all)

lemma wf_chars: "list_all wf_char cs \<Longrightarrow> char_list cs"
  using wf_char_list by (auto simp: char_list_def list_all_iff)

lemma six_bits: "n div 4096 * 4096 + n div 64 mod 64 * 64 + n mod 64 = (n :: nat)"
proof -
  have "n div 64 div 64 = n div 4096" by (simp flip: div_mult2_eq)
  then have "n div 4096 * 64 + n div 64 mod 64 = n div 64" by (metis div_mult_mod_eq)
  then have "(n div 4096 * 64 + n div 64 mod 64) * 64 + n mod 64 = n" by (metis div_mult_mod_eq)
  then show ?thesis by (simp add: algebra_simps)
qed

lemma six_bits_high: "n div 262144 * 262144 + n div 4096 mod 64 * 4096 = (n div 4096 * 4096 :: nat)"
proof -
  have "n div 4096 div 64 = n div 262144" by (simp flip: div_mult2_eq)
  then have "n div 262144 * 64 + n div 4096 mod 64 = n div 4096" by (metis div_mult_mod_eq)
  then have "(n div 262144 * 64 + n div 4096 mod 64) * 4096 = n div 4096 * 4096" by (simp only:)
  then show ?thesis by (simp add: algebra_simps)
qed

lemma lead_mod: "a < 32 \<Longrightarrow> (192 + a) mod 32 = (a :: nat)" "a < 16 \<Longrightarrow> (224 + a) mod 16 = a"
    "a < 8 \<Longrightarrow> (240 + a) mod 8 = a" "(128 + a) mod 64 = a mod 64"
  by (simp_all add: mod_if)

lemma continuation_value: "(of_char (byte (128 + m mod 64)) :: nat) = 128 + m mod 64"
  by (rule of_char_byte) (use mod_less_divisor [of 64 m] in simp)

lemma code_point_utf8:
  assumes "is_scalar n"
  shows "code_point (utf8_of n) = n"
proof -
  have "n < 1114112" using assms by (simp add: is_scalar_def)
  then consider "n < 128" | "128 \<le> n" "n < 2048" | "2048 \<le> n" "n < 65536" | "65536 \<le> n" "n < 1114112"
    by linarith
  then show ?thesis
  proof cases
    case 1
    then show ?thesis by (simp add: utf8_of_def code_point_def)
  next
    case 2
    then have "n div 64 < 32" by (simp add: less_mult_imp_div_less)
    then show ?thesis using 2 by (simp add: utf8_of_def code_point_def lead_mod div_mult_mod_eq)
  next
    case 3
    then have "n div 4096 < 16" by (simp add: less_mult_imp_div_less)
    then show ?thesis using 3 six_bits [of n] by (simp add: utf8_of_def code_point_def lead_mod)
  next
    case 4
    then have "n div 262144 < 8" by (simp add: less_mult_imp_div_less)
    then show ?thesis using 4 six_bits [of n] six_bits_high [of n]
      by (simp add: utf8_of_def code_point_def lead_mod continuation_value)
  qed
qed

lemma wf_utf8: "is_scalar n \<Longrightarrow> wf_char (utf8_of n)"
  by (simp add: wf_char_def code_point_utf8)

subsection \<open>Escapes\<close>

lemma radix16_hex_digit [simp]: "d < 16 \<Longrightarrow> radix16_digit (hex_digit d) = Some d"
  by (auto simp: radix16_digit_def hex_digit_def Let_def)

lemma hex_digit_no_plus: "d < 16 \<Longrightarrow> hex_digit d \<noteq> CHR ''+''"
proof
  assume d: "d < 16" and "hex_digit d = CHR ''+''"
  then have "radix16_digit (CHR ''+'') = Some d" using radix16_hex_digit by metis
  then show False by (simp add: radix16_digit_def Let_def)
qed

lemma hex_digit_start: "d < 16 \<Longrightarrow> \<not> is_continuation (hex_digit d)"
  by (auto simp: hex_digit_def is_continuation_def)

lemma base16:
  assumes "u < 65536"
  shows "16 * (16 * (16 * (u div 4096 mod 16) + u div 256 mod 16) + u div 16 mod 16) + u mod 16 = (u :: nat)"
proof -
  have d: "u div 256 div 16 = u div 4096" "u div 16 div 16 = u div 256" by (simp_all flip: div_mult2_eq)
  have "u div 4096 mod 16 = u div 4096" using assms by (simp add: less_mult_imp_div_less)
  then have "16 * (u div 4096 mod 16) + u div 256 mod 16 = u div 256" using d(1) by (metis mult_div_mod_eq)
  then have "16 * (16 * (u div 4096 mod 16) + u div 256 mod 16) + u div 16 mod 16 = u div 16"
    using d(2) by (metis mult_div_mod_eq)
  then show ?thesis by (metis mult_div_mod_eq)
qed

lemma pyjson_hex4_digits:
  assumes "u < 65536" "starts_char t"
  shows "pyjson_hex4 (hex4 u @ t) = Inr u"
  using assms hex_digit_no_plus [of "u div 4096 mod 16"] base16 [OF assms(1)]
  by (simp add: pyjson_hex4_def hex4_def from_str_radix16_def)

lemma hex4_starts: "starts_char (hex4 u @ t)"
  by (simp add: starts_char_def hex4_def hex_digit_start)

lemma length_hex4 [simp]: "length (hex4 u) = 4" and hex4_rest [simp]: "drop 4 (hex4 u @ t) = t"
  by (simp_all add: hex4_def)

lemma pyjson_unicode_unit:
  assumes "is_scalar u" "u < 65536" "starts_char t"
  shows "pyjson_unicode (hex4 u @ t) = Inr (utf8_of u, t)"
proof -
  have "\<not> (55296 \<le> u \<and> u < 56320)" "\<not> (56320 \<le> u \<and> u < 57344)" using assms(1) by (auto simp: is_scalar_def)
  then show ?thesis unfolding pyjson_unicode_def using assms
    by (simp only: pyjson_hex4_digits hex4_rest res_bind_simps Let_def if_False char_from_u32_def if_True ok_or_simps)
qed

lemma pyjson_unicode_pair:
  assumes "is_scalar n" "65536 \<le> n" "starts_char t"
  shows "pyjson_unicode (hex4 (55296 + (n - 65536) div 1024) @ byte 92 # CHR ''u'' #
      hex4 (56320 + (n - 65536) mod 1024) @ t) = Inr (utf8_of n, t)"
proof -
  let ?r = "byte 92 # CHR ''u'' # hex4 (56320 + (n - 65536) mod 1024) @ t"
  have lt: "(n - 65536) div 1024 < 1024" "(n - 65536) mod 1024 < 1024"
    using assms(1,2) by (auto simp: is_scalar_def intro!: less_mult_imp_div_less)
  have "pyjson_hex4 (hex4 (55296 + (n - 65536) div 1024) @ ?r) = Inr (55296 + (n - 65536) div 1024)"
    by (rule pyjson_hex4_digits) (use lt in \<open>auto simp: starts_char_def is_continuation_def\<close>)
  moreover have "pyjson_hex4 (drop 2 ?r) = Inr (56320 + (n - 65536) mod 1024)"
    using lt assms(3) by (simp add: pyjson_hex4_digits)
  moreover have "65536 + (n - 65536) div 1024 * 1024 + (n - 65536) mod 1024 = n"
    using assms(2) by (metis div_mult_mod_eq add.assoc le_add_diff_inverse)
  ultimately show ?thesis using lt assms(1)
    by (simp add: pyjson_unicode_def char_from_u32_def hex4_def)
qed

lemma plain_short: "short_escape c = Some e \<Longrightarrow> plain_escape e = Some c \<and> e \<noteq> CHR ''u''"
  by (auto simp: short_escape_def plain_escape_def byte_unfold split: if_splits)

lemma short_escape_None: "short_escape c = None \<Longrightarrow> c \<noteq> byte 34 \<and> c \<noteq> byte 92"
  by (auto simp: short_escape_def split: if_splits)

lemma bs_quote: "byte 92 \<noteq> byte 34"
  by (simp add: byte_unfold)

lemma starts_takeWhile: "starts_char t \<Longrightarrow> takeWhile is_continuation t = [] \<and> dropWhile is_continuation t = t"
  by (cases t) (simp_all add: starts_char_def)

text \<open>One character: read back from its escape, or as it is.\<close>

lemma read_raw:
  assumes "\<not> is_continuation c" "list_all is_continuation cs" "32 \<le> (of_char c :: nat)" "c \<noteq> byte 34" "c \<noteq> byte 92"
    "starts_char t"
  shows "pyjson_string n acc ((c # cs) @ t) = pyjson_string n (acc @ c # cs) t"
proof -
  have "takeWhile is_continuation (cs @ t) = cs" "dropWhile is_continuation (cs @ t) = t"
    using assms(2) starts_takeWhile [OF assms(6)] by (auto simp: list_all_iff)
  then show ?thesis using assms by simp
qed

lemma read_escape:
  assumes "wf_char ch" "starts_char t"
  shows "pyjson_string n acc (escape_ascii ch @ t) = pyjson_string n (acc @ ch) t"
proof -
  obtain c cs where ch: "ch = c # cs" "\<not> is_continuation c" "list_all is_continuation cs"
      "code_point ch < 128 \<longleftrightarrow> cs = []" "code_point ch < 128 \<longrightarrow> c = byte (code_point ch)"
    using wf_char_shape [OF assms(1)] by blast
  have n: "is_scalar (code_point ch)" "utf8_of (code_point ch) = ch" using assms(1) by (simp_all add: wf_char_def)
  show ?thesis
  proof (cases "cs = []")
    case True
    show ?thesis
    proof (cases "short_escape c")
      case (Some e)
      then show ?thesis using plain_short [OF Some] True ch(1) bs_quote by (simp add: escape_ascii_def)
    next
      case None
      show ?thesis
      proof (cases "(of_char c :: nat) < 32")
        case True
        have "is_scalar (of_char c)" "utf8_of (of_char c) = ch"
          using True \<open>cs = []\<close> ch(1) by (simp_all add: is_scalar_def utf8_of_def)
        then show ?thesis using True None \<open>cs = []\<close> ch(1) assms(2) bs_quote
          by (simp add: escape_ascii_def unit_escape_def pyjson_unicode_unit)
      next
        case False
        then show ?thesis using None short_escape_None [OF None] read_raw [OF ch(2,3)] assms(2) True ch(1)
          by (simp add: escape_ascii_def)
      qed
    qed
  next
    case False
    then have e: "escape_ascii ch = (if 65535 < code_point ch
        then unit_escape (55296 + (code_point ch - 65536) div 1024) @ unit_escape (56320 + (code_point ch - 65536) mod 1024)
        else unit_escape (code_point ch))"
      using ch(1) by (cases cs) (simp_all add: escape_ascii_def Let_def)
    show ?thesis
    proof (cases "65535 < code_point ch")
      case True
      then show ?thesis using pyjson_unicode_pair [OF n(1) _ assms(2)] n(2) bs_quote
        by (simp add: e unit_escape_def)
    next
      case False
      then show ?thesis using pyjson_unicode_unit [OF n(1) _ assms(2)] n(2) bs_quote
        by (simp add: e unit_escape_def)
    qed
  qed
qed

lemma escape_starts: "wf_char ch \<Longrightarrow> starts_char (escape_ascii ch @ t)"
proof -
  assume wf: "wf_char ch"
  have "escape_ascii ch = ch \<or> (\<exists>r. escape_ascii ch = byte 92 # r)"
    by (auto simp: escape_ascii_def unit_escape_def Let_def split: list.splits option.splits)
  then show "starts_char (escape_ascii ch @ t)"
    using wf_char_shape [OF wf] by (auto simp: starts_char_def is_continuation_def)
qed

lemma escapes_starts: "list_all wf_char cs \<Longrightarrow> starts_char t \<Longrightarrow> starts_char (concat (map escape_ascii cs) @ t)"
  by (cases cs) (auto simp: escape_starts)

lemma read_escapes:
  "list_all wf_char cs \<Longrightarrow>
   pyjson_string n acc (concat (map escape_ascii cs) @ byte 34 # t) = Inr (acc @ concat cs, t)"
proof (induction cs arbitrary: acc)
  case (Cons ch cs)
  have "starts_char (concat (map escape_ascii cs) @ byte 34 # t)"
    by (rule escapes_starts) (use Cons.prems in \<open>auto simp: starts_char_def is_continuation_def\<close>)
  then show ?case using Cons by (simp add: read_escape)
qed simp

lemma read_encoded:
  assumes "wf_text s"
  shows "encode_string_ascii s = byte 34 # tl (encode_string_ascii s)"
    "pyjson_string n [] (tl (encode_string_ascii s) @ t) = Inr (s, t)"
  using read_escapes [of "chars s" n "[]" t] assms by (simp_all add: encode_string_ascii_def wf_text_def)

end
