(* ===== verification/RenderNumbers.thy ===== *)
theory RenderNumbers
  imports RenderJsonFacts
begin

text \<open>
  Number texts: the integers and floats the printers write are in the grammar of \<open>json.loads\<close> and
  are read back as written.
\<close>

subsection \<open>Number texts\<close>

definition digits :: "string \<Rightarrow> bool" where
  "digits ds \<longleftrightarrow> ds \<noteq> [] \<and> list_all is_ascii_digit ds"

definition no_digit :: "string \<Rightarrow> bool" where
  "no_digit t \<longleftrightarrow> (t = [] \<or> \<not> is_ascii_digit (hd t))"

definition ends :: "string \<Rightarrow> bool" where
  "ends t \<longleftrightarrow> (t = [] \<or> \<not> number_byte (hd t))"

definition plain_integer :: "string \<Rightarrow> bool" where
  "plain_integer ds \<longleftrightarrow> digits ds \<and> (hd ds = CHR ''0'' \<longrightarrow> ds = ''0'')"

lemma ascii_digit_simps [simp]:
  "is_ascii_digit (CHR ''0'')" "\<not> is_ascii_digit (CHR ''.'')" "\<not> is_ascii_digit (CHR ''e'')"
  "\<not> is_ascii_digit (CHR ''-'')" "\<not> is_ascii_digit (CHR ''+'')" "\<not> is_ascii_digit (CHR ''E'')"
  by (simp_all add: is_ascii_digit_def)

lemma digit_byte: "d < 10 \<Longrightarrow> is_ascii_digit (byte (48 + d))"
  by (simp add: is_ascii_digit_def)

lemma dropWhile_digits: "list_all is_ascii_digit ds \<Longrightarrow> no_digit t \<Longrightarrow> dropWhile is_ascii_digit (ds @ t) = t"
  by (induction ds) (cases t; auto simp: no_digit_def)+

lemma after_digits_app: "digits ds \<Longrightarrow> no_digit t \<Longrightarrow> after_digits (ds @ t) = Some t"
  using dropWhile_digits [of ds t] by (cases ds) (auto simp: digits_def after_digits_def)

lemma integer_rest_app: "plain_integer ds \<Longrightarrow> no_digit t \<Longrightarrow> integer_rest (ds @ t) = Some t"
  using after_digits_app [of ds t] by (cases ds) (auto simp: plain_integer_def digits_def integer_rest_def)

definition fraction_part :: "string \<Rightarrow> bool" where
  "fraction_part f \<longleftrightarrow> f = [] \<or> (\<exists>ds. f = CHR ''.'' # ds \<and> digits ds)"

definition exponent_part :: "string \<Rightarrow> bool" where
  "exponent_part x \<longleftrightarrow> x = [] \<or> (\<exists>s ds. x = CHR ''e'' # s # ds \<and> s \<in> {CHR ''+'', CHR ''-''} \<and> digits ds)"

lemma exponent_no_digit: "exponent_part x \<Longrightarrow> no_digit x"
  by (auto simp: exponent_part_def no_digit_def)

lemma fraction_rest_app: "fraction_part f \<Longrightarrow> exponent_part x \<Longrightarrow> fraction_rest (f @ x) = Some x"
  using exponent_no_digit [of x] after_digits_app [of "tl f" x]
  by (auto simp: fraction_part_def fraction_rest_def exponent_part_def)

lemma exponent_rest_app: "exponent_part x \<Longrightarrow> exponent_rest x = Some []"
  using after_digits_app [of "drop 2 x" "[]"]
  by (auto simp: exponent_part_def exponent_rest_def no_digit_def Let_def)

lemma fraction_no_digit: "fraction_part f \<Longrightarrow> exponent_part x \<Longrightarrow> no_digit (f @ x)"
  using exponent_no_digit [of x] by (auto simp: fraction_part_def no_digit_def)

lemma number_grammar:
  assumes "plain_integer i" "fraction_part f" "exponent_part x" "s = [] \<or> s = ''-''"
  shows "pyjson_number_lexeme (s @ i @ f @ x)"
proof -
  have "opt_default (s @ i @ f @ x) (strip_prefix ''-'' (s @ i @ f @ x)) = i @ f @ x"
    using assms(1,4) by (cases i) (auto simp: strip_prefix_def plain_integer_def digits_def is_ascii_digit_def)
  then show ?thesis
    using integer_rest_app [OF assms(1) fraction_no_digit [OF assms(2,3)]] fraction_rest_app [OF assms(2,3)]
      exponent_rest_app [OF assms(3)]
    by (simp add: pyjson_number_lexeme_def)
qed

lemma digits_number_bytes: "list_all is_ascii_digit ds \<Longrightarrow> list_all number_byte ds"
  by (auto simp: list_all_iff number_byte_def)

lemma number_bytes:
  assumes "plain_integer i" "fraction_part f" "exponent_part x" "s = [] \<or> s = ''-''"
  shows "list_all number_byte (s @ i @ f @ x)"
  using assms digits_number_bytes
  by (auto simp: plain_integer_def fraction_part_def exponent_part_def digits_def number_byte_def)

lemma scan_number:
  assumes "list_all number_byte t" "ends rest"
  shows "takeWhile number_byte (t @ rest) = t \<and> dropWhile number_byte (t @ rest) = rest"
  using assms by (induction t) (cases rest; auto simp: ends_def)+

subsection \<open>Integers\<close>

lemma dec_digits_plain: "plain_integer (dec_digits n)"
proof (induction n rule: dec_digits.induct)
  case (1 n)
  show ?case
  proof (cases "n < 10")
    case True
    have "byte (48 + n) = CHR ''0'' \<longrightarrow> n = 0"
    proof
      assume e: "byte (48 + n) = CHR ''0''"
      have "(of_char (byte (48 + n)) :: nat) = 48 + n" using True by simp
      then show "n = 0" unfolding e by simp
    qed
    then show ?thesis using True digit_byte [OF True]
      by (subst dec_digits.simps) (auto simp: plain_integer_def digits_def)
  next
    case False
    have "n div 10 \<noteq> 0" using False by simp
    then have ne: "dec_digits (n div 10) \<noteq> ''0''"
      using dec_value_digits [of "n div 10"] by (auto simp: Let_def)
    then have "hd (dec_digits (n div 10)) \<noteq> CHR ''0''" using 1 [OF False] by (simp add: plain_integer_def)
    then show ?thesis using False 1 [OF False] digit_byte [of "n mod 10"]
      by (subst dec_digits.simps) (auto simp: plain_integer_def digits_def)
  qed
qed

lemma dec_int_lexeme:
  "pyjson_number_lexeme (dec_int i)" "list_all number_byte (dec_int i)"
  using number_grammar [OF dec_digits_plain, of "[]" "[]" _ "nat \<bar>i\<bar>"] number_bytes [OF dec_digits_plain, of "[]" "[]" _ "nat \<bar>i\<bar>"]
  by (auto simp: dec_int_def fraction_part_def exponent_part_def)

lemma digits_no_float: "list_all is_ascii_digit ds \<Longrightarrow> \<not> float_lexeme ds"
  by (auto simp: float_lexeme_def list_all_iff list_ex_iff is_ascii_digit_def)

lemma dec_int_no_float: "\<not> float_lexeme (dec_int i)"
  using digits_no_float [of "dec_digits (nat \<bar>i\<bar>)"] dec_digits_plain [of "nat \<bar>i\<bar>"]
  by (auto simp: dec_int_def plain_integer_def digits_def float_lexeme_def)

lemma parse_dec_int:
  assumes "- (2 ^ 63) \<le> i" "i < 2 ^ 63"
  shows "parse_i64 (dec_int i) = Some i"
proof -
  have h: "hd (dec_digits n) \<noteq> CHR ''-''" "hd (dec_digits n) \<noteq> CHR ''+''" for n
    using dec_digits_plain [of n] by (cases "dec_digits n"; auto simp: plain_integer_def digits_def is_ascii_digit_def)+
  show ?thesis
  proof (cases "i < 0")
    case True
    then show ?thesis using assms dec_value_digits [of "nat (- i)"]
      by (simp add: parse_i64_def dec_int_def)
  next
    case False
    obtain c cs where c: "dec_digits (nat i) = c # cs" by (cases "dec_digits (nat i)") auto
    then show ?thesis using False assms dec_value_digits [of "nat i"] h [of "nat i"]
      by (simp add: parse_i64_def dec_int_def)
  qed
qed

lemma read_dec_int:
  assumes "- (2 ^ 63) \<le> i" "i < 2 ^ 63"
  shows "number_value fl (dec_int i) = Inr (RInt i)"
  using dec_int_lexeme [of i] dec_int_no_float [of i] parse_dec_int [OF assms] by (simp add: number_value_def)

subsection \<open>Floats\<close>

definition mantissa_ok :: "string \<Rightarrow> bool" where
  "mantissa_ok m \<longleftrightarrow> list_all (\<lambda>c. is_ascii_digit c \<or> c = CHR ''.'') m \<and> length (filter (\<lambda>c. c = CHR ''.'') m) \<le> 1"

definition ryu_ok :: "floats \<Rightarrow> rat \<Rightarrow> bool" where
  "ryu_ok fl v \<longleftrightarrow> mantissa_ok (fst (mantissa_exponent (fl_ryu fl v)))"

lemma trim_zeros_hd:
  assumes "c \<noteq> CHR ''0''"
  shows "\<exists>ds. trim_zeros_end (c # cs) = c # ds \<and> set ds \<subseteq> set cs"
proof -
  have "\<exists>ds. rev (dropWhile (\<lambda>x. x = CHR ''0'') (rev cs @ [c])) = c # ds \<and> set ds \<subseteq> set cs"
  proof (cases "\<forall>x\<in>set cs. x = CHR ''0''")
    case True
    then have "dropWhile (\<lambda>x. x = CHR ''0'') (rev cs @ [c]) = [c]"
      using assms by (subst dropWhile_append2) auto
    then show ?thesis by simp
  next
    case False
    then obtain x where "x \<in> set (rev cs)" "x \<noteq> CHR ''0''" by auto
    then show ?thesis by (subst dropWhile_append1) (auto dest: set_dropWhileD)
  qed
  then show ?thesis by (simp add: trim_zeros_end_def)
qed

lemma dropWhile_drop: "drop (length (takeWhile p xs)) xs = dropWhile p xs"
  by (metis append_eq_conv_conj takeWhile_dropWhile_id)

lemma mantissa_raw:
  assumes "mantissa_ok m" "opt_default (m, []) (split_once ''.'' m) = (i, f)"
  shows "list_all is_ascii_digit (i @ f)"
proof (cases "split_once ''.'' m")
  case None
  then have "CHR ''.'' \<notin> set m"
    by (auto simp: split_once_None contains_str_iff dest!: split_list)
  then show ?thesis using assms None by (auto simp: mantissa_ok_def list_all_iff)
next
  case (Some p)
  then have m: "m = i @ ''.'' @ f" using assms(2) split_once_Some [of "''.''" m i f] by simp
  then have "CHR ''.'' \<notin> set i" "CHR ''.'' \<notin> set f"
    using assms(1) by (auto simp: mantissa_ok_def filter_empty_conv)
  then show ?thesis using assms(1) m by (auto simp: mantissa_ok_def list_all_iff)
qed

lemma shortest_plain:
  assumes "ryu_ok fl v" "shortest_digits fl v = (ds, ex)"
  shows "digits ds \<and> (hd ds = CHR ''0'' \<longrightarrow> ds = ''0'' \<and> ex = 0)"
proof -
  obtain m e where m: "mantissa_exponent (fl_ryu fl v) = (m, e)" by (cases "mantissa_exponent (fl_ryu fl v)")
  obtain i f where split: "opt_default (m, []) (split_once ''.'' m) = (i, f)" by (cases "opt_default (m, []) (split_once ''.'' m)")
  have raw: "list_all is_ascii_digit (i @ f)"
    by (rule mantissa_raw [OF _ split]) (use assms(1) m in \<open>simp add: ryu_ok_def\<close>)
  let ?z = "takeWhile (\<lambda>c. c = CHR ''0'') (i @ f)"
  have sd: "shortest_digits fl v = (if length (i @ f) \<le> length ?z then (''0'', 0)
      else (let sig = trim_zeros_end (drop (length ?z) (i @ f)) in
        (if sig = [] then ''0'' else sig, int (length i) + e - 1 - int (length ?z))))"
    by (simp only: shortest_digits_def m prod.case split Let_def)
  show ?thesis
  proof (cases "length (i @ f) \<le> length ?z")
    case True
    then show ?thesis using assms(2) sd by (auto simp: digits_def)
  next
    case False
    then have "dropWhile (\<lambda>c. c = CHR ''0'') (i @ f) \<noteq> []"
      unfolding dropWhile_drop [symmetric] by (simp only: drop_eq_Nil) simp
    then obtain c cs where c: "dropWhile (\<lambda>c. c = CHR ''0'') (i @ f) = c # cs" by (cases "dropWhile (\<lambda>c. c = CHR ''0'') (i @ f)") auto
    then have c0: "c \<noteq> CHR ''0''" using hd_dropWhile [of "\<lambda>c. c = CHR ''0''" "i @ f"] by (simp add: c)
    obtain ds' where t: "trim_zeros_end (c # cs) = c # ds'" "set ds' \<subseteq> set cs" using trim_zeros_hd [OF c0] by blast
    have "set (c # cs) \<subseteq> set (i @ f)" unfolding c [symmetric] by (auto dest: set_dropWhileD)
    then have "list_all is_ascii_digit (c # ds')" using raw t(2) by (auto simp: list_all_iff)
    moreover have "ds = c # ds'" using assms(2) False t(1) by (simp add: sd dropWhile_drop c Let_def del: length_append drop_append)
    ultimately show ?thesis using c0 by (simp add: digits_def)
  qed
qed

lemma padded_part: "exponent_part (CHR ''e'' # padded_text e)"
proof -
  have "digits (replicate (2 - length (dec_digits n)) (CHR ''0'') @ dec_digits n)" for n
    using dec_digits_plain [of n] by (auto simp: digits_def plain_integer_def list_all_iff)
  then show ?thesis by (auto simp: exponent_part_def padded_text_def Let_def)
qed

lemma digits_app: "digits ds \<Longrightarrow> list_all is_ascii_digit es \<Longrightarrow> digits (ds @ es) \<and> digits (es @ ds)"
  by (auto simp: digits_def)

lemma finite_parts:
  assumes "digits ds" "hd ds = CHR ''0'' \<longrightarrow> ds = ''0'' \<and> ex = 0"
  shows "\<exists>i f x. finite_text True ds ex = i @ f @ x \<and> plain_integer i \<and> fraction_part f \<and> exponent_part x \<and> f @ x \<noteq> []"
proof -
  have ne: "ds \<noteq> []" and dl: "list_all is_ascii_digit ds" using assms(1) by (simp_all add: digits_def)
  have lead: "plain_integer (ds @ es)" if "list_all is_ascii_digit es" "hd ds \<noteq> CHR ''0''" for es
    using that ne dl by (auto simp: plain_integer_def digits_def)
  have dot: "fraction_part (CHR ''.'' # es)" if "digits es" for es using that by (simp add: fraction_part_def)
  have nox: "exponent_part []" "plain_integer ''0''" "digits ''0''" by (simp_all add: exponent_part_def plain_integer_def digits_def)
  consider (sci) "ex \<le> - 5 \<or> 16 \<le> ex" | (small) "- 5 < ex" "ex < 0" | (whole) "0 \<le> ex" "ex < 16" "int (length ds) \<le> ex + 1"
    | (mid) "0 \<le> ex" "ex < 16" "ex + 1 < int (length ds)" by linarith
  then show ?thesis
  proof cases
    case sci
    then have nz: "hd ds \<noteq> CHR ''0''" using assms(2) by auto
    obtain d es where d: "ds = d # es" using ne by (cases ds) auto
    have i: "plain_integer [d]" using nz dl d by (simp add: plain_integer_def digits_def)
    have f: "fraction_part (if es = [] then [] else CHR ''.'' # es)"
      using dl d by (auto simp: fraction_part_def digits_def)
    have "finite_text True ds ex = [d] @ (if es = [] then [] else CHR ''.'' # es) @ CHR ''e'' # padded_text ex"
      using sci d by (simp add: finite_text_def)
    then show ?thesis using i f padded_part [of ex] by blast
  next
    case small
    have "finite_text True ds ex = ''0'' @ (CHR ''.'' # replicate (nat (- (ex + 1))) (CHR ''0'') @ ds) @ []"
      using small by (simp add: finite_text_def fixed_body_def Let_def)
    moreover have "digits (replicate (nat (- (ex + 1))) (CHR ''0'') @ ds)"
      using digits_app [OF assms(1)] by (simp add: list_all_iff)
    ultimately show ?thesis using nox dot by blast
  next
    case whole
    let ?z = "replicate (nat (ex + 1 - int (length ds))) (CHR ''0'')"
    have "finite_text True ds ex = (ds @ ?z) @ ''.0'' @ []"
      using whole by (simp add: finite_text_def fixed_body_def Let_def)
    moreover have "plain_integer (ds @ ?z)"
    proof (cases "hd ds = CHR ''0''")
      case True
      then show ?thesis using assms(2) nox by simp
    next
      case False
      show ?thesis by (rule lead [OF _ False]) (simp add: list_all_iff)
    qed
    moreover have "fraction_part ''.0''" by (rule dot [OF nox(3)])
    ultimately show ?thesis using nox(1) by blast
  next
    case mid
    then have nz: "hd ds \<noteq> CHR ''0''" using assms(2) by auto
    have l: "nat (ex + 1) < length ds" "0 < nat (ex + 1)" using mid by auto
    have "finite_text True ds ex = take (nat (ex + 1)) ds @ (CHR ''.'' # drop (nat (ex + 1)) ds) @ []"
      using mid by (simp add: finite_text_def fixed_body_def Let_def)
    moreover have "plain_integer (take (nat (ex + 1)) ds)"
      using l ne dl nz by (auto simp: plain_integer_def digits_def list_all_iff dest: in_set_takeD)
    moreover have "digits (drop (nat (ex + 1)) ds)"
      using l dl by (auto simp: digits_def list_all_iff dest: in_set_dropD)
    ultimately show ?thesis using nox(1) dot by blast
  qed
qed

lemma parts_float: "fraction_part f \<Longrightarrow> exponent_part x \<Longrightarrow> f @ x \<noteq> [] \<Longrightarrow> float_lexeme (i @ f @ x)"
  by (auto simp: fraction_part_def exponent_part_def float_lexeme_def)

text \<open>A finite number is laid out within the grammar of JSON.\<close>

lemma float_repr_lexeme:
  assumes "ryu_ok fl m"
  shows "pyjson_number_lexeme (py_float_repr fl (Finite b m) True) \<and>
    float_lexeme (py_float_repr fl (Finite b m) True) \<and> list_all number_byte (py_float_repr fl (Finite b m) True)"
proof -
  obtain ds ex where d: "shortest_digits fl m = (ds, ex)" by (cases "shortest_digits fl m")
  have p: "digits ds" "hd ds = CHR ''0'' \<longrightarrow> ds = ''0'' \<and> ex = 0" using shortest_plain [OF assms d] by auto
  obtain i f x where t: "finite_text True ds ex = i @ f @ x" "plain_integer i" "fraction_part f" "exponent_part x" "f @ x \<noteq> []"
    using finite_parts [OF p] by blast
  let ?s = "if b then ''-'' else []"
  have s: "?s = [] \<or> ?s = ''-''" by simp
  have r: "py_float_repr fl (Finite b m) True = ?s @ i @ f @ x" by (simp add: py_float_repr_def d t(1))
  have "float_lexeme (?s @ i @ f @ x)" using parts_float [OF t(3,4,5), of "?s @ i"] by simp
  then show ?thesis unfolding r using number_grammar [OF t(2,3,4) s] number_bytes [OF t(2,3,4) s] by blast
qed

end
