(* ===== verification/RenderReads.thy ===== *)
theory RenderReads
  imports RenderNumbers
begin

text \<open>
  What \<open>pyjson_value\<close> reads, whatever the layout: a literal, a quoted text, a number, and an array
  or an object whose parts are read, with any blanks between them. The printers of
  \<^theory_text>\<open>RenderJson\<close> differ in the escapes and in the blanks only.
\<close>

subsection \<open>Blanks\<close>

definition blanks :: "string \<Rightarrow> bool" where
  "blanks w \<longleftrightarrow> set w \<subseteq> {CHR '' '', byte 9, byte 10, byte 13}"

definition head_ok :: "string \<Rightarrow> bool" where
  "head_ok t \<longleftrightarrow> t \<noteq> [] \<and> hd t \<notin> {CHR '' '', byte 9, byte 10, byte 13, CHR '']'', CHR ''}''}"

lemma blanks_simps [simp]: "blanks []" "blanks '' ''"
  by (simp_all add: blanks_def)

lemma ws_simps [simp]:
  "pyjson_ws [] = []" "pyjson_ws (CHR '' '' # t) = pyjson_ws t" "pyjson_ws (CHR '','' # t) = CHR '','' # t"
  "pyjson_ws (CHR '']'' # t) = CHR '']'' # t" "pyjson_ws (CHR ''}'' # t) = CHR ''}'' # t" "pyjson_ws (CHR '':'' # t) = CHR '':'' # t"
  by (simp_all add: pyjson_ws_def byte_unfold)

lemma ws_head: "head_ok t \<Longrightarrow> pyjson_ws (t @ rest) = t @ rest"
  by (cases t) (auto simp: head_ok_def pyjson_ws_def)

lemma ends_simps [simp]:
  "ends []" "ends (CHR '','' # t)" "ends (CHR '']'' # t)" "ends (CHR ''}'' # t)" "ends (CHR '':'' # t)"
  by (simp_all add: ends_def number_byte_def is_ascii_digit_def)

lemma ws_blanks: "blanks w \<Longrightarrow> pyjson_ws (w @ t) = pyjson_ws t"
  by (induction w) (auto simp: blanks_def pyjson_ws_def)

lemma ends_blanks: "blanks w \<Longrightarrow> ends t \<Longrightarrow> ends (w @ t)"
  by (cases w) (auto simp: blanks_def ends_def number_byte_def is_ascii_digit_def byte_eval)

lemma value_blanks: "blanks w \<Longrightarrow> pyjson_value fl n k (w @ t) = pyjson_value fl n k t"
  by (cases k) (simp_all add: ws_blanks)

lemma parse_bind_simps [simp]: "parse_bind (Some (Inr (x, rest))) f = f x rest"
  by (simp add: parse_bind_def)

lemma those_Some_iff: "those (map f xs) = Some ts \<longleftrightarrow> list_all2 (\<lambda>x t. f x = Some t) xs ts"
  by (induction xs arbitrary: ts) (auto simp: list_all2_Cons1 split: option.splits)

subsection \<open>Values in sequence\<close>

definition reads :: "(string \<Rightarrow> rjson parse) \<Rightarrow> rjson \<Rightarrow> string \<Rightarrow> bool" where
  "reads pv j t \<longleftrightarrow> (\<forall>w rest. blanks w \<longrightarrow> ends rest \<longrightarrow> pv (w @ t @ rest) = Some (Inr (j, rest)))"

lemma array_loop_reads:
  assumes "list_all2 (reads pv) xs ts" "xs \<noteq> []" "length xs \<le> k" "blanks v" "blanks w" "blanks z"
  shows "array_loop pv n k acc (v @ join (CHR '','' # w) ts @ z @ CHR '']'' # rest) = Some (Inr (RArr (acc @ xs), rest))"
  using assms(1-4)
proof (induction xs ts arbitrary: k acc v rule: list_all2_induct)
  case (Cons x xs t ts)
  obtain k' where k: "k = Suc k'" using Cons.prems by (cases k) auto
  have pv: "pv (v @ t @ r) = Some (Inr (x, r))" if "ends r" for r
    using Cons.hyps(1) Cons.prems(3) that by (simp add: reads_def)
  show ?case
  proof (cases "xs = []")
    case True
    then have "ts = []" using Cons.hyps(2) by simp
    then show ?thesis using True pv [OF ends_blanks [OF assms(6)], of "CHR '']'' # rest"] by (simp add: k ws_blanks [OF assms(6)])
  next
    case False
    then have "ts \<noteq> []" using Cons.hyps(2) by auto
    then have "join (CHR '','' # w) (t # ts) = t @ CHR '','' # w @ join (CHR '','' # w) ts" by (simp add: join_Cons_ne)
    then show ?thesis
      using pv [of "CHR '','' # w @ join (CHR '','' # w) ts @ z @ CHR '']'' # rest"] Cons.IH [of k' w "acc @ [x]"]
        Cons.prems False k assms(5) by simp
  qed
qed simp

lemma put_pair_new: "key \<notin> set (map fst ps) \<Longrightarrow> put_pair key v ps = ps @ [(key, v)]"
  by (induction ps) auto

definition member_reads :: "(string \<Rightarrow> rjson parse) \<Rightarrow> string \<times> rjson \<Rightarrow> string \<Rightarrow> bool" where
  "member_reads pv p t \<longleftrightarrow> head_ok t \<and> (\<exists>e c u. t = e @ CHR '':'' # c @ u \<and> blanks c \<and>
     reads pv (RStr (fst p)) e \<and> reads pv (snd p) u)"

lemma object_loop_reads:
  assumes "list_all2 (member_reads pv) ps ts" "ps \<noteq> []" "length ps \<le> k" "distinct (map fst (acc @ ps))"
    "blanks b" "blanks w" "blanks z"
  shows "object_loop pv n k acc (b @ join (CHR '','' # w) ts @ z @ CHR ''}'' # rest) = Some (Inr (RObj (acc @ ps), rest))"
  using assms(1-5)
proof (induction ps ts arbitrary: k acc b rule: list_all2_induct)
  case (Cons p ps t ts)
  obtain k' where k: "k = Suc k'" using Cons.prems by (cases k) auto
  obtain key v where p: "p = (key, v)" by (cases p)
  obtain e c u where u: "head_ok t" "t = e @ CHR '':'' # c @ u" "blanks c" "reads pv (RStr key) e" "reads pv v u"
    using Cons.hyps(1) p by (auto simp: member_reads_def)
  have ws: "pyjson_ws (b @ t @ r) = t @ r" for r
    using ws_blanks [OF Cons.prems(4)] ws_head [OF u(1)] by simp
  have pv: "pv (t @ r) = Some (Inr (RStr key, CHR '':'' # c @ u @ r))" for r
    using u(4) [unfolded reads_def, rule_format, of "[]" "CHR '':'' # c @ u @ r"] by (simp add: u(2))
  have pu: "pv (c @ u @ r) = Some (Inr (v, r))" if "ends r" for r
    using u(5) that u(3) by (simp add: reads_def)
  have new: "put_pair key v acc = acc @ [p]" unfolding p by (rule put_pair_new) (use Cons.prems(3) p in simp)
  have step: "object_loop pv n k acc (b @ t @ r) =
      (if pyjson_ws r \<noteq> [] \<and> hd (pyjson_ws r) = CHR '','' then object_loop pv n k' (acc @ [p]) (tl (pyjson_ws r))
       else if pyjson_ws r \<noteq> [] \<and> hd (pyjson_ws r) = CHR ''}'' then Some (Inr (RObj (acc @ [p]), tl (pyjson_ws r)))
       else Some (Inl (ObjectClose (n - length (pyjson_ws r)))))" if "ends r" for r
    by (simp add: k ws pv pyjson_expect_def pu [OF that] new)
  show ?case
  proof (cases "ps = []")
    case True
    then have "ts = []" using Cons.hyps(2) by simp
    then show ?thesis using True step [OF ends_blanks [OF assms(7)], of "CHR ''}'' # rest"] by (simp add: ws_blanks [OF assms(7)])
  next
    case False
    then have "ts \<noteq> []" using Cons.hyps(2) by auto
    then have "join (CHR '','' # w) (t # ts) = t @ CHR '','' # w @ join (CHR '','' # w) ts" by (simp add: join_Cons_ne)
    then show ?thesis
      using step [of "CHR '','' # w @ join (CHR '','' # w) ts @ z @ CHR ''}'' # rest"] Cons.IH [of k' "acc @ [p]" w]
        Cons.prems False k assms(6) by simp
  qed
qed simp

lemma join_length_ge: "list_all (\<lambda>t. t \<noteq> []) ts \<Longrightarrow> length ts \<le> length (join d ts)"
proof (induction d ts rule: join.induct)
  case (3 sep x y zs)
  then have "0 < length x" "length (y # zs) \<le> length (join sep (y # zs))" by auto
  then show ?case unfolding join.simps length_append list.size by linarith
qed (auto simp: Suc_le_eq)

lemma join_member_length: "t \<in> set ts \<Longrightarrow> length t \<le> length (join d ts)"
  by (induction d ts rule: join.induct) auto

subsection \<open>The reader at a value\<close>

lemma ws_solid: "c \<notin> {CHR '' '', byte 9, byte 10, byte 13} \<Longrightarrow> pyjson_ws (c # t) = c # t"
  by (simp add: pyjson_ws_def)

lemma ws_marks:
  "pyjson_ws (byte 34 # t) = byte 34 # t" "pyjson_ws (CHR ''n'' # t) = CHR ''n'' # t"
  "pyjson_ws (CHR ''t'' # t) = CHR ''t'' # t" "pyjson_ws (CHR ''f'' # t) = CHR ''f'' # t"
  "pyjson_ws (CHR ''N'' # t) = CHR ''N'' # t" "pyjson_ws (CHR ''I'' # t) = CHR ''I'' # t"
  "pyjson_ws (CHR ''-'' # t) = CHR ''-'' # t" "pyjson_ws (CHR ''['' # t) = CHR ''['' # t"
  "pyjson_ws (CHR ''{'' # t) = CHR ''{'' # t"
  by (rule ws_solid, simp add: byte_unfold)+

lemma value_at:
  assumes "pyjson_ws input = c # t"
  shows "pyjson_value fl n (Suc k) input =
    (if c = CHR ''{'' then
       (if pyjson_ws t \<noteq> [] \<and> hd (pyjson_ws t) = CHR ''}'' then Some (Inr (RObj [], tl (pyjson_ws t)))
        else object_loop (pyjson_value fl n k) n k [] (pyjson_ws t))
     else if c = CHR ''['' then
       (if pyjson_ws t \<noteq> [] \<and> hd (pyjson_ws t) = CHR '']'' then Some (Inr (RArr [], tl (pyjson_ws t)))
        else array_loop (pyjson_value fl n k) n k [] (pyjson_ws t))
     else if c = byte 34 then Some (map_sum id (map_prod RStr id) (pyjson_string n [] t))
     else if c = CHR ''t'' then Some (pyjson_literal n (c # t) ''true'' (RBool True))
     else if c = CHR ''f'' then Some (pyjson_literal n (c # t) ''false'' (RBool False))
     else if c = CHR ''n'' then Some (pyjson_literal n (c # t) ''null'' RNull)
     else if c = CHR ''N'' then Some (pyjson_literal n (c # t) ''NaN'' (RFloat NotANumber))
     else if c = CHR ''I'' then Some (pyjson_literal n (c # t) ''Infinity'' (RFloat (Infinite False)))
     else if prefix ''-Infinity'' (c # t) then
       Some (Inr (RFloat (Infinite True), drop (length ''-Infinity'') (c # t)))
     else if c = CHR ''-'' \<or> is_ascii_digit c then Some (pyjson_number fl (c # t))
     else Some (Inl (UnexpectedByte c (n - length (c # t)))))"
  by (simp only: pyjson_value.simps assms Let_def list.sel list.distinct if_False)

lemma literal_reads: "pyjson_literal n (token @ t) token v = Inr (v, t)"
  by (simp add: pyjson_literal_def pyjson_expect_def)

lemma value_quote:
  "pyjson_value fl n (Suc k) (byte 34 # t) = Some (map_sum id (map_prod RStr id) (pyjson_string n [] t))"
  unfolding value_at [OF ws_marks(1)] by (simp add: byte_eval)

lemma value_heads:
  "pyjson_value fl n (Suc k) (''null'' @ t) = Some (Inr (RNull, t))"
  "pyjson_value fl n (Suc k) (''true'' @ t) = Some (Inr (RBool True, t))"
  "pyjson_value fl n (Suc k) (''false'' @ t) = Some (Inr (RBool False, t))"
  "pyjson_value fl n (Suc k) (''NaN'' @ t) = Some (Inr (RFloat NotANumber, t))"
  "pyjson_value fl n (Suc k) (''Infinity'' @ t) = Some (Inr (RFloat (Infinite False), t))"
  "pyjson_value fl n (Suc k) (''-Infinity'' @ t) = Some (Inr (RFloat (Infinite True), t))"
  "pyjson_value fl n (Suc k) (CHR ''['' # t) =
     (if pyjson_ws t \<noteq> [] \<and> hd (pyjson_ws t) = CHR '']'' then Some (Inr (RArr [], tl (pyjson_ws t)))
      else array_loop (pyjson_value fl n k) n k [] (pyjson_ws t))"
  "pyjson_value fl n (Suc k) (CHR ''{'' # t) =
     (if pyjson_ws t \<noteq> [] \<and> hd (pyjson_ws t) = CHR ''}'' then Some (Inr (RObj [], tl (pyjson_ws t)))
      else object_loop (pyjson_value fl n k) n k [] (pyjson_ws t))"
  using literal_reads [of n "''null''" t RNull] literal_reads [of n "''true''" t "RBool True"]
    literal_reads [of n "''false''" t "RBool False"] literal_reads [of n "''NaN''" t "RFloat NotANumber"]
    literal_reads [of n "''Infinity''" t "RFloat (Infinite False)"]
  by (simp_all add: value_at [OF ws_marks(2)] value_at [OF ws_marks(3)]
    value_at [OF ws_marks(4)] value_at [OF ws_marks(5)] value_at [OF ws_marks(6)] value_at [OF ws_marks(7)]
    value_at [OF ws_marks(8)] value_at [OF ws_marks(9)] byte_eval del: pyjson_value.simps)

subsection \<open>Texts read as a tree\<close>

definition read_as :: "floats \<Rightarrow> rjson \<Rightarrow> string \<Rightarrow> bool" where
  "read_as fl j t \<longleftrightarrow> head_ok t \<and> (\<forall>k n. length t < k \<longrightarrow> reads (pyjson_value fl n k) j t)"

lemma read_asI:
  assumes "head_ok t"
    "\<And>k n rest. length t \<le> k \<Longrightarrow> ends rest \<Longrightarrow> pyjson_value fl n (Suc k) (t @ rest) = Some (Inr (j, rest))"
  shows "read_as fl j t"
  unfolding read_as_def reads_def
proof (intro conjI allI impI)
  fix k n w rest assume k: "length t < k" and b: "blanks w" and e: "ends rest"
  then obtain k' where k': "k = Suc k'" by (cases k) auto
  show "pyjson_value fl n k (w @ t @ rest) = Some (Inr (j, rest))"
    unfolding value_blanks [OF b] k' by (rule assms(2); use k k' e in simp)
qed (rule assms(1))

lemma read_literal:
  "read_as fl RNull ''null''" "read_as fl (RBool True) ''true''" "read_as fl (RBool False) ''false''"
  "read_as fl (RFloat NotANumber) ''NaN''" "read_as fl (RFloat (Infinite False)) ''Infinity''"
  "read_as fl (RFloat (Infinite True)) ''-Infinity''"
  by (rule read_asI, simp add: head_ok_def byte_eval, rule value_heads)+

lemma read_quoted:
  assumes "\<And>n rest. pyjson_string n [] (t @ rest) = Inr (s, rest)"
  shows "read_as fl (RStr s) (byte 34 # t)"
  by (rule read_asI, simp add: head_ok_def byte_unfold, simp only: append_Cons value_quote assms, simp)

text \<open>A number text that is not the word of an infinity.\<close>

lemma lexeme_hd:
  assumes "pyjson_number_lexeme l"
  shows "\<exists>c cs. l = c # cs \<and> (c = CHR ''-'' \<or> is_ascii_digit c)"
  using assms
  by (cases l) (auto simp: pyjson_number_lexeme_def strip_prefix_def integer_rest_def after_digits_def Let_def split: if_splits)

lemma read_number:
  assumes "number_value fl l = Inr v" "list_all number_byte l"
  shows "read_as fl v l"
proof -
  have "pyjson_number_lexeme l" using assms(1) by (auto simp: number_value_def split: if_splits)
  then obtain c cs where l: "l = c # cs" "c = CHR ''-'' \<or> is_ascii_digit c" using lexeme_hd by blast
  have other: "c \<notin> {CHR ''{'', CHR ''['', byte 34, CHR ''t'', CHR ''f'', CHR ''n'', CHR ''N'', CHR ''I'',
      CHR '' '', byte 9, byte 10, byte 13, CHR '']'', CHR ''}''}"
    using l(2) by (auto simp: is_ascii_digit_def byte_eval)
  show ?thesis
  proof (rule read_asI)
    show "head_ok l" using other l(1) by (simp add: head_ok_def)
    fix k n rest assume e: "ends rest"
    have np: "\<not> prefix ''-Infinity'' (l @ rest)"
    proof
      assume "prefix ''-Infinity'' (l @ rest)"
      then have p: "takeWhile number_byte (''-Infinity'' @ r) = l" if "l @ rest = ''-Infinity'' @ r" for r
        using scan_number [OF assms(2) e] that by simp
      obtain r where "l @ rest = ''-Infinity'' @ r" using \<open>prefix ''-Infinity'' (l @ rest)\<close> by (auto simp: prefix_def)
      then have "l = ''-''" using p [of r] by (simp add: number_byte_def is_ascii_digit_def)
      then show False using \<open>pyjson_number_lexeme l\<close>
        by (simp add: pyjson_number_lexeme_def strip_prefix_def integer_rest_def after_digits_def)
    qed
    have ws: "pyjson_ws (l @ rest) = c # cs @ rest" using other l(1) by (simp add: ws_solid)
    have num: "pyjson_number fl (l @ rest) = Inr (v, rest)"
      unfolding pyjson_number_def using scan_number [OF assms(2) e] assms(1) by (simp only:) simp
    show "pyjson_value fl n (Suc k) (l @ rest) = Some (Inr (v, rest))"
      unfolding value_at [OF ws] using other l np num by (simp del: append_Cons add: append_Cons [symmetric])
  qed
qed

lemma read_array:
  assumes "list_all2 (read_as fl) xs ts" "blanks v" "blanks w" "blanks z"
  shows "read_as fl (RArr xs) (''['' @ v @ join (CHR '','' # w) ts @ z @ '']'')"
proof (rule read_asI)
  fix k n rest assume k: "length (''['' @ v @ join (CHR '','' # w) ts @ z @ '']'') \<le> k" and e: "ends rest"
  have ne: "list_all (\<lambda>t. t \<noteq> []) ts"
    using assms(1) by (auto simp: list_all2_conv_all_nth list_all_length read_as_def head_ok_def)
  have len: "length xs = length ts" using assms(1) by (rule list_all2_lengthD)
  show "pyjson_value fl n (Suc k) ((''['' @ v @ join (CHR '','' # w) ts @ z @ '']'') @ rest) = Some (Inr (RArr xs, rest))"
  proof (cases "xs = []")
    case True
    then show ?thesis using len by (simp add: value_heads ws_blanks assms(2,4) del: pyjson_value.simps)
  next
    case False
    obtain x ys t us where xs: "xs = x # ys" "ts = t # us" using assms(1) False by (cases xs; cases ts) auto
    have h: "head_ok t" using assms(1) xs by (simp add: read_as_def)
    have "pyjson_ws (v @ join (CHR '','' # w) ts @ z @ '']'' @ rest) = join (CHR '','' # w) ts @ z @ '']'' @ rest \<and>
        hd (join (CHR '','' # w) ts @ z @ '']'' @ rest) \<noteq> CHR '']''"
      using ws_head [OF h] h xs(2) by (cases us) (auto simp: head_ok_def ws_blanks assms(2))
    moreover have "list_all2 (reads (pyjson_value fl n k)) xs ts"
    proof (rule list_all2I; clarify?)
      show "length xs = length ts" by (rule len)
      fix y u assume yu: "(y, u) \<in> set (zip xs ts)"
      then have "length u \<le> length (join (CHR '','' # w) ts)" by (intro join_member_length) (rule set_zip_rightD)
      moreover have "read_as fl y u" using assms(1) yu by (auto simp: list_all2_iff)
      ultimately show "reads (pyjson_value fl n k) y u" using k by (simp add: read_as_def)
    qed
    moreover have "length xs \<le> k" using join_length_ge [OF ne, of "CHR '','' # w"] k len by simp
    ultimately show ?thesis
      using array_loop_reads [of "pyjson_value fl n k" xs ts k "[]" w z n "[]" rest] False assms
      by (simp add: value_heads del: pyjson_value.simps)
  qed
qed (simp add: head_ok_def byte_eval)

definition member_as :: "floats \<Rightarrow> string \<times> rjson \<Rightarrow> string \<Rightarrow> bool" where
  "member_as fl p t \<longleftrightarrow> (\<exists>e c u. t = e @ CHR '':'' # c @ u \<and> blanks c \<and> read_as fl (RStr (fst p)) e \<and> read_as fl (snd p) u)"

lemma member_as_head: "member_as fl p t \<Longrightarrow> head_ok t"
  by (auto simp: member_as_def read_as_def head_ok_def)

lemma member_as_ne: "member_as fl p t \<Longrightarrow> t \<noteq> []"
  by (auto simp: member_as_def)

lemma member_as_reads:
  assumes "member_as fl p t" "length t < k"
  shows "member_reads (pyjson_value fl n k) p t"
proof -
  obtain e c u where u: "t = e @ CHR '':'' # c @ u" "blanks c" "read_as fl (RStr (fst p)) e" "read_as fl (snd p) u"
    using assms(1) by (auto simp: member_as_def)
  have "reads (pyjson_value fl n k) (RStr (fst p)) e" "reads (pyjson_value fl n k) (snd p) u"
    using u assms(2) by (simp_all add: read_as_def)
  then show ?thesis unfolding member_reads_def using u(1,2) member_as_head [OF assms(1)] by blast
qed

lemma read_object:
  assumes "list_all2 (member_as fl) ps ts" "distinct (map fst ps)" "blanks v" "blanks w" "blanks z"
  shows "read_as fl (RObj ps) (''{'' @ v @ join (CHR '','' # w) ts @ z @ ''}'')"
proof (rule read_asI)
  fix k n rest assume k: "length (''{'' @ v @ join (CHR '','' # w) ts @ z @ ''}'') \<le> k" and e: "ends rest"
  have ne: "list_all (\<lambda>t. t \<noteq> []) ts"
    using assms(1) by (auto simp: list_all2_conv_all_nth list_all_length dest: member_as_ne)
  have len: "length ps = length ts" using assms(1) by (rule list_all2_lengthD)
  show "pyjson_value fl n (Suc k) ((''{'' @ v @ join (CHR '','' # w) ts @ z @ ''}'') @ rest) = Some (Inr (RObj ps, rest))"
  proof (cases "ps = []")
    case True
    then show ?thesis using len by (simp add: value_heads ws_blanks assms(3,5) del: pyjson_value.simps)
  next
    case False
    obtain x ys t us where xs: "ps = x # ys" "ts = t # us" using assms(1) False by (cases ps; cases ts) auto
    have h: "head_ok t" using assms(1) xs by (auto intro: member_as_head)
    have "pyjson_ws (v @ join (CHR '','' # w) ts @ z @ ''}'' @ rest) = join (CHR '','' # w) ts @ z @ ''}'' @ rest \<and>
        hd (join (CHR '','' # w) ts @ z @ ''}'' @ rest) \<noteq> CHR ''}''"
      using ws_head [OF h] h xs(2) by (cases us) (auto simp: head_ok_def ws_blanks assms(3))
    moreover have "list_all2 (member_reads (pyjson_value fl n k)) ps ts"
    proof (rule list_all2I; clarify?)
      show "length ps = length ts" by (rule len)
      fix a b u assume yu: "((a, b), u) \<in> set (zip ps ts)"
      then have "length u \<le> length (join (CHR '','' # w) ts)" by (intro join_member_length) (rule set_zip_rightD)
      moreover have "member_as fl (a, b) u" using assms(1) yu by (auto simp: list_all2_iff)
      ultimately show "member_reads (pyjson_value fl n k) (a, b) u" using k by (intro member_as_reads) simp_all
    qed
    moreover have "length ps \<le> k" using join_length_ge [OF ne, of "CHR '','' # w"] k len by simp
    ultimately show ?thesis
      using object_loop_reads [of "pyjson_value fl n k" ps ts k "[]" "[]" w z n rest] False assms
      by (simp add: value_heads del: pyjson_value.simps)
  qed
qed (simp add: head_ok_def byte_eval)

lemma list_all2_ex: "\<forall>x\<in>set xs. \<exists>t. P x t \<Longrightarrow> \<exists>ts. list_all2 P xs ts"
  by (induction xs) (auto simp: list_all2_Cons1)

lemma read_loads:
  assumes "read_as fl j t"
  shows "pyjson_loads fl t = Some (Inr j)"
proof -
  have "reads (pyjson_value fl (length t) (Suc (length t))) j t" using assms by (simp add: read_as_def)
  then have "pyjson_value fl (length t) (Suc (length t)) ([] @ t @ []) = Some (Inr (j, []))"
    unfolding reads_def using ends_simps(1) blanks_simps(1) by blast
  then show ?thesis by (simp add: pyjson_loads_def del: pyjson_value.simps)
qed

end
