(* ===== verification/RenderJsonProps.thy ===== *)
theory RenderJsonProps
  imports RenderReads
begin

text \<open>
  The round trip of \<open>pyjson_dumps\<close> and \<open>pyjson_loads\<close>: what is dumped is read back, and what is
  read can be dumped.
\<close>

subsection \<open>Values\<close>

text \<open>The trees that can be read back: integers of 64 bits, longer ones as their text, finite
  numbers whose layout parses to them, texts in UTF-8, distinct keys.\<close>

definition readable_float :: "floats \<Rightarrow> f64 \<Rightarrow> bool" where
  "readable_float fl f = (case f of
      Finite b m \<Rightarrow> ryu_ok fl m \<and> fl_parse fl (py_float_repr fl f True) = Some f
    | _ \<Rightarrow> True)"

definition readable_raw :: "string \<Rightarrow> bool" where
  "readable_raw l = (pyjson_number_lexeme l \<and> list_all number_byte l \<and> \<not> float_lexeme l \<and>
     parse_i64 l = None \<and> integer_lexeme l = l)"

fun readable :: "floats \<Rightarrow> rjson \<Rightarrow> bool" where
  "readable fl RNull = True"
| "readable fl (RBool b) = True"
| "readable fl (RInt i) = (- (2 ^ 63) \<le> i \<and> i < 2 ^ 63)"
| "readable fl (RUInt u) = False"
| "readable fl (RFloat f) = readable_float fl f"
| "readable fl (RRawNum l) = readable_raw l"
| "readable fl (RStr s) = wf_text s"
| "readable fl (RDatetime d) = False"
| "readable fl (RValue v) = False"
| "readable fl (RArr xs) = list_all (readable fl) xs"
| "readable fl (RObj ps) = (distinct (map fst ps) \<and> list_all (\<lambda>(key, v). wf_text key \<and> readable fl v) ps)"

definition written :: "floats \<Rightarrow> rjson \<Rightarrow> string \<Rightarrow> bool" where
  "written fl j t \<longleftrightarrow> write_pyjson fl j = Some t \<and> read_as fl j t"

lemma written_string:
  assumes "wf_text s"
  shows "written fl (RStr s) (encode_string_ascii s)"
proof -
  have "read_as fl (RStr s) (byte 34 # tl (encode_string_ascii s))"
    by (rule read_quoted) (rule read_encoded(2) [OF assms])
  then show ?thesis by (simp add: written_def read_encoded(1) [OF assms, symmetric])
qed

lemma written_literal:
  "written fl RNull ''null''" "written fl (RBool True) ''true''" "written fl (RBool False) ''false''"
  "written fl (RFloat NotANumber) ''NaN''" "written fl (RFloat (Infinite False)) ''Infinity''"
  "written fl (RFloat (Infinite True)) ''-Infinity''"
  using read_literal by (simp_all add: written_def)

lemma written_bool: "\<exists>t. written fl (RBool b) t"
proof (cases b)
  case True
  then show ?thesis using written_literal(2) [of fl] by auto
next
  case False
  then show ?thesis using written_literal(3) [of fl] by auto
qed

lemma written_infinite: "\<exists>t. written fl (RFloat (Infinite b)) t"
proof (cases b)
  case True
  then show ?thesis using written_literal(6) [of fl] by auto
next
  case False
  then show ?thesis using written_literal(5) [of fl] by auto
qed

lemma written_number:
  "number_value fl l = Inr v \<Longrightarrow> list_all number_byte l \<Longrightarrow> write_pyjson fl v = Some l \<Longrightarrow> written fl v l"
  by (simp add: written_def read_number)

lemma written_list:
  assumes "list_all2 (written fl) xs ts"
  shows "written fl (RArr xs) (''['' @ join '', '' ts @ '']'')"
proof -
  have "those (map (write_pyjson fl) xs) = Some ts"
    unfolding those_Some_iff using assms by (rule list_all2_mono) (simp add: written_def)
  moreover have "list_all2 (read_as fl) xs ts" using assms by (rule list_all2_mono) (simp add: written_def)
  ultimately show ?thesis using read_array [of fl xs ts "[]" "'' ''" "[]"] by (simp add: written_def)
qed

definition pair_written :: "floats \<Rightarrow> string \<times> rjson \<Rightarrow> string \<Rightarrow> bool" where
  "pair_written fl p t \<longleftrightarrow> wf_text (fst p) \<and> (\<exists>u. t = encode_string_ascii (fst p) @ '': '' @ u \<and> written fl (snd p) u)"

lemma pair_written_member: "pair_written fl p t \<Longrightarrow> member_as fl p t"
  using written_string [of "fst p" fl] unfolding pair_written_def member_as_def written_def
  by (metis append_Cons append_Nil blanks_simps(2))

lemma written_object:
  assumes "list_all2 (pair_written fl) ps ts" "distinct (map fst ps)"
  shows "written fl (RObj ps) (''{'' @ join '', '' ts @ ''}'')"
proof -
  have "those (map (\<lambda>(key, item). map_option (\<lambda>t. encode_string_ascii key @ '': '' @ t) (write_pyjson fl item)) ps) = Some ts"
    unfolding those_Some_iff using assms(1) by (rule list_all2_mono) (auto simp: pair_written_def written_def)
  moreover have "list_all2 (member_as fl) ps ts" using assms(1) by (rule list_all2_mono) (rule pair_written_member)
  ultimately show ?thesis using read_object [OF _ assms(2), of fl ts "[]" "'' ''" "[]"] by (simp add: written_def)
qed

lemma written_float: "readable_float fl f \<Longrightarrow> \<exists>t. written fl (RFloat f) t"
proof (cases f)
  case (Finite b m)
  assume r: "readable_float fl f"
  then have "ryu_ok fl m" "fl_parse fl (py_float_repr fl f True) = Some f" using Finite by (simp_all add: readable_float_def)
  then have "written fl (RFloat f) (py_float_repr fl f True)"
    using float_repr_lexeme [of fl m b] Finite by (intro written_number) (simp_all add: number_value_def)
  then show ?thesis by blast
next
  case (Infinite b)
  then show ?thesis using written_infinite by simp
next
  case NotANumber
  then show ?thesis using written_literal(4) [of fl] by blast
qed

lemma readable_written: "readable fl j \<Longrightarrow> \<exists>t. written fl j t"
proof (induction j)
  case (RInt i)
  then show ?case using written_number [of fl "dec_int i" "RInt i"] read_dec_int [of i fl] dec_int_lexeme [of i] by auto
next
  case (RRawNum l)
  then have "written fl (RRawNum l) l" by (intro written_number) (simp_all add: readable_raw_def number_value_def)
  then show ?case by blast
next
  case (RStr s)
  then show ?case using written_string by auto
next
  case (RFloat f)
  then show ?case using written_float by simp
next
  case (RArr xs)
  then have "\<exists>ts. list_all2 (written fl) xs ts" by (intro list_all2_ex) (simp add: list_all_iff)
  then show ?case using written_list by blast
next
  case (RObj ps)
  have "\<forall>p\<in>set ps. \<exists>t. pair_written fl p t"
  proof
    fix p assume p: "p \<in> set ps"
    then have "readable fl (snd p)" using RObj.prems by (auto simp: list_all_iff)
    then have "\<exists>u. written fl (snd p) u" by (rule RObj.IH [OF p, of "snd p", rotated]) (cases p; simp)
    moreover have "wf_text (fst p)" using RObj.prems p by (auto simp: list_all_iff)
    ultimately show "\<exists>t. pair_written fl p t" by (auto simp: pair_written_def)
  qed
  then obtain ts where "list_all2 (pair_written fl) ps ts" using list_all2_ex by metis
  then show ?case using written_object RObj.prems by auto
qed (use written_literal written_bool in auto)

lemma written_loads: "written fl j t \<Longrightarrow> pyjson_loads fl t = Some (Inr j)"
  by (simp add: written_def read_loads)

subsection \<open>What is read is readable\<close>

text \<open>What \<open>str::parse\<close> and the layout of floats promise: a number in a text of the grammar is laid
  out in a text that parses to it.\<close>

definition floats_read :: "floats \<Rightarrow> bool" where
  "floats_read fl \<longleftrightarrow> (\<forall>l v. pyjson_number_lexeme l \<and> fl_parse fl l = Some v \<longrightarrow> readable_float fl v)"

lemma wf_text_Nil [simp]: "wf_text []"
  by (simp add: wf_text_def)

lemma wf_text_Cons:
  "wf_text (c # cs) \<longleftrightarrow> wf_char (c # takeWhile is_continuation cs) \<and> wf_text (dropWhile is_continuation cs)"
  by (simp add: wf_text_def)

lemma wf_tail:
  assumes "wf_text (c # cs)" "(of_char c :: nat) < 128"
  shows "wf_text cs"
proof -
  have "wf_char (c # takeWhile is_continuation cs)" "wf_text (dropWhile is_continuation cs)"
    using assms(1) by (simp_all add: wf_text_Cons)
  then have "takeWhile is_continuation cs = []" using wf_char_shape [of "c # takeWhile is_continuation cs"] assms(2) by auto
  then have "dropWhile is_continuation cs = cs" by (metis append_Nil takeWhile_dropWhile_id)
  then show ?thesis using \<open>wf_text (dropWhile is_continuation cs)\<close> by simp
qed

lemma wf_suffix: "wf_text (a @ b) \<Longrightarrow> list_all (\<lambda>c. (of_char c :: nat) < 128) a \<Longrightarrow> wf_text b"
  by (induction a) (auto dest: wf_tail)

lemma wf_dropWhile:
  assumes "wf_text t" "\<And>c. p c \<Longrightarrow> (of_char c :: nat) < 128"
  shows "wf_text (dropWhile p t)"
  using wf_suffix [of "takeWhile p t" "dropWhile p t"] assms by (auto simp: list_all_iff dest: set_takeWhileD)

lemma wf_ws: "wf_text t \<Longrightarrow> wf_text (pyjson_ws t)"
  unfolding pyjson_ws_def by (rule wf_dropWhile) auto

lemma wf_number: "wf_text t \<Longrightarrow> wf_text (dropWhile number_byte t)"
  by (rule wf_dropWhile) (auto simp: number_byte_def is_ascii_digit_def)

lemma wf_expect:
  "wf_text t \<Longrightarrow> list_all (\<lambda>c. (of_char c :: nat) < 128) token \<Longrightarrow> pyjson_expect n t token = Inr rest \<Longrightarrow> wf_text rest"
  by (auto simp: pyjson_expect_def prefix_def wf_suffix split: if_splits)

lemma wf_ascii: "(of_char c :: nat) < 128 \<Longrightarrow> wf_char [c]"
  by (simp add: wf_char_def code_point_def is_scalar_def utf8_of_def)

lemma wf_append: "wf_text s \<Longrightarrow> wf_char ch \<Longrightarrow> wf_text (s @ ch)"
  using wf_char_list [of ch] by (simp add: wf_text_def chars_append)

lemma radix16_ascii: "radix16_digit c = Some d \<Longrightarrow> (of_char c :: nat) < 128"
  by (auto simp: radix16_digit_def Let_def split: if_splits)

lemma those_Some_all: "those (map f xs) = Some ys \<Longrightarrow> x \<in> set xs \<Longrightarrow> \<exists>y. f x = Some y"
  by (auto simp: those_Some_iff in_set_conv_nth dest: list_all2_nthD)

lemma hex4_ascii:
  assumes "pyjson_hex4 t = Inr u"
  shows "list_all (\<lambda>c. (of_char c :: nat) < 128) (take 4 t)"
proof -
  obtain ds where ds: "ds = (if 1 < length (take 4 t) \<and> hd (take 4 t) = CHR ''+'' then tl (take 4 t) else take 4 t)" by blast
  have "\<exists>v. those (map radix16_digit ds) = Some v"
    using assms unfolding ds by (auto simp: pyjson_hex4_def ok_or_Inr_iff from_str_radix16_def Let_def split: if_splits)
  then have "list_all (\<lambda>c. (of_char c :: nat) < 128) ds"
    by (auto simp: list_all_iff dest: those_Some_all radix16_ascii)
  then show ?thesis unfolding ds by (cases "take 4 t") (auto split: if_splits)
qed

lemma wf_hex4: "pyjson_hex4 t = Inr u \<Longrightarrow> wf_text t \<Longrightarrow> wf_text (drop 4 t)"
  using wf_suffix [of "take 4 t" "drop 4 t"] hex4_ascii by simp

lemma wf_from_u32: "char_from_u32 n = Some ch \<Longrightarrow> wf_char ch"
  by (auto simp: char_from_u32_def wf_utf8 split: if_splits)

lemma wf_unicode:
  assumes "pyjson_unicode t = Inr (ch, rest)" "wf_text t"
  shows "wf_char ch \<and> wf_text rest"
proof -
  obtain u where u: "pyjson_hex4 t = Inr u" using assms(1) by (auto simp: pyjson_unicode_def res_bind_Inr_iff)
  have r: "wf_text (drop 4 t)" by (rule wf_hex4 [OF u assms(2)])
  have "wf_text (drop 6 (drop 4 t))"
    if "take 2 (drop 4 t) = [byte 92, CHR ''u'']" "pyjson_hex4 (drop 2 (drop 4 t)) = Inr low" for low
  proof -
    have "wf_text (drop 2 (drop 4 t))"
      using wf_suffix [of "take 2 (drop 4 t)" "drop 2 (drop 4 t)"] r
      unfolding append_take_drop_id unfolding that(1) by simp
    then show ?thesis using wf_hex4 [OF that(2)] by simp
  qed
  then show ?thesis using assms(1) r u
    by (auto simp: pyjson_unicode_def res_bind_Inr_iff ok_or_Inr_iff Let_def intro: wf_from_u32 split: if_splits)
qed

lemma plain_ascii: "plain_escape e = Some x \<Longrightarrow> (of_char x :: nat) < 128 \<and> (of_char e :: nat) < 128"
  by (auto simp: plain_escape_def split: if_splits)

lemma wf_read_string:
  "pyjson_string n acc t = Inr (s, rest) \<Longrightarrow> wf_text acc \<Longrightarrow> wf_text t \<Longrightarrow> wf_text s \<and> wf_text rest"
proof (induction n acc t rule: pyjson_string.induct)
  case (2 n acc c cs)
  show ?case
  proof (cases "c = byte 34")
    case True
    then show ?thesis using "2.prems" wf_tail [of c cs] by simp
  next
    case nq: False
    show ?thesis
    proof (cases "c = byte 92")
      case True
      have cs: "wf_text cs" using "2.prems"(3) True wf_tail [of c cs] by simp
      show ?thesis
      proof (cases cs)
        case (Cons e es)
        show ?thesis
        proof (cases "e = CHR ''u''")
          case u: True
          have es: "wf_text es" using cs Cons u wf_tail [of e es] by simp
          show ?thesis
          proof (cases "pyjson_unicode es")
            case (Inr p)
            obtain ch r where p: "p = (ch, r)" by (cases p)
            have w: "wf_char ch" "wf_text r" using wf_unicode [of es ch r] Inr p es by auto
            show ?thesis
              using "2.IH"(1) [OF nq True Cons u Inr p [symmetric]] "2.prems" nq True Cons u Inr p w wf_append by simp
          qed (use "2.prems" nq True Cons u in simp)
        next
          case u: False
          show ?thesis
          proof (cases "plain_escape e")
            case (Some x)
            have "wf_text es" "wf_char [x]"
              using plain_ascii [OF Some] cs Cons wf_tail [of e es] wf_ascii by auto
            then show ?thesis
              using "2.IH"(2) [OF nq True Cons u Some] "2.prems" nq True Cons u Some wf_append by simp
          qed (use "2.prems" nq True Cons u in simp)
        qed
      qed (use "2.prems" nq True in simp)
    next
      case n92: False
      show ?thesis
      proof (cases "(of_char c :: nat) < 32")
        case False
        have "wf_text (dropWhile is_continuation cs)" "wf_text (acc @ c # takeWhile is_continuation cs)"
          using "2.prems"(2,3) wf_append by (auto simp: wf_text_Cons)
        then show ?thesis
          using "2.IH"(3) [OF nq n92 False] "2.prems"(1) nq n92 False by simp
      qed (use "2.prems" nq n92 in simp)
    qed
  qed
qed simp

lemma all_zero_value: "list_all (\<lambda>b. b = CHR ''0'') t \<Longrightarrow> dec_value 0 t = Some 0"
  by (induction t) (simp_all add: Let_def)

text \<open>An integer text beyond 64 bits is not a zero, so it is kept as it is.\<close>

lemma raw_kept:
  assumes "pyjson_number_lexeme l" "parse_i64 l = None"
  shows "integer_lexeme l = l"
proof (rule ccontr)
  assume "integer_lexeme l \<noteq> l"
  then have z: "list_all (\<lambda>b. b = CHR ''0'') (dropWhile (\<lambda>c. c = CHR ''-'') l)"
    by (auto simp: integer_lexeme_def split: if_splits)
  obtain c cs where l: "l = c # cs" "c = CHR ''-'' \<or> is_ascii_digit c" using lexeme_hd [OF assms(1)] by blast
  show False
  proof (cases "c = CHR ''-''")
    case True
    have "integer_rest cs \<noteq> None"
      using assms(1) l(1) True by (cases "integer_rest cs") (auto simp: pyjson_number_lexeme_def strip_prefix_def)
    then have cs: "cs \<noteq> []" "hd cs \<noteq> CHR ''-''" by (auto simp: integer_rest_def after_digits_def split: if_splits)
    then have "dropWhile (\<lambda>c. c = CHR ''-'') l = cs" using l(1) True by (cases cs) auto
    then have "parse_i64 l = Some 0" using z all_zero_value [of cs] cs(1) l(1) True by (simp add: parse_i64_def)
    then show False using assms(2) by simp
  next
    case False
    then have "list_all (\<lambda>b. b = CHR ''0'') l" using z l(1) by simp
    then have "parse_i64 l = Some 0" using all_zero_value [of l] l by (auto simp: parse_i64_def)
    then show False using assms(2) by simp
  qed
qed

lemma parse_i64_range: "parse_i64 l = Some i \<Longrightarrow> - (2 ^ 63) \<le> i \<and> i < 2 ^ 63"
  by (auto simp: parse_i64_def Let_def opt_filter_Some_iff split: prod.splits)

lemma number_readable:
  assumes "floats_read fl" "pyjson_number fl t = Inr (v, rest)" "wf_text t"
  shows "readable fl v \<and> wf_text rest"
proof -
  let ?l = "takeWhile number_byte t"
  have v: "number_value fl ?l = Inr v" "rest = dropWhile number_byte t"
    using assms(2) by (auto simp: pyjson_number_def map_sum_def split: sum.splits)
  have lex: "pyjson_number_lexeme ?l" using v(1) by (auto simp: number_value_def split: if_splits)
  have nb: "list_all number_byte ?l" by (auto simp: list_all_iff dest: set_takeWhileD)
  have "readable fl v"
  proof (cases "float_lexeme ?l")
    case True
    then obtain f where "fl_parse fl ?l = Some f" "v = RFloat f"
      using v(1) lex by (cases "fl_parse fl ?l") (auto simp: number_value_def)
    then show ?thesis using assms(1) lex by (simp add: floats_read_def)
  next
    case False
    then show ?thesis using v(1) lex nb raw_kept [OF lex] parse_i64_range [of ?l]
      by (cases "parse_i64 ?l") (auto simp: number_value_def readable_raw_def)
  qed
  then show ?thesis using v(2) wf_number [OF assms(3)] by simp
qed

definition keeps :: "floats \<Rightarrow> rjson parse \<Rightarrow> bool" where
  "keeps fl p \<longleftrightarrow> (\<forall>v rest. p = Some (Inr (v, rest)) \<longrightarrow> readable fl v \<and> wf_text rest)"

definition sound_reader :: "floats \<Rightarrow> (string \<Rightarrow> rjson parse) \<Rightarrow> bool" where
  "sound_reader fl pv \<longleftrightarrow> (\<forall>t. wf_text t \<longrightarrow> keeps fl (pv t))"

lemma keeps_if: "(c \<Longrightarrow> keeps fl a) \<Longrightarrow> (\<not> c \<Longrightarrow> keeps fl b) \<Longrightarrow> keeps fl (if c then a else b)"
  by simp

lemma keeps_error: "keeps fl (Some (Inl e))" "keeps fl None"
  by (simp_all add: keeps_def)

lemma keeps_bind:
  assumes "keeps fl p" "\<And>v rest. readable fl v \<Longrightarrow> wf_text rest \<Longrightarrow> keeps fl (f v rest)"
  shows "keeps fl (parse_bind p f)"
proof (cases p)
  case (Some r)
  show ?thesis
  proof (cases r)
    case (Inr q)
    obtain v rest where q: "q = (v, rest)" by (cases q)
    have "readable fl v" "wf_text rest" using assms(1) Some Inr q by (simp_all add: keeps_def)
    then have "keeps fl (f v rest)" by (rule assms(2))
    then show ?thesis using Some Inr q by simp
  qed (simp add: Some parse_bind_def keeps_error)
qed (simp add: parse_bind_def keeps_error)

lemma wf_next: "wf_text t \<Longrightarrow> t \<noteq> [] \<and> hd t = c \<Longrightarrow> (of_char c :: nat) < 128 \<Longrightarrow> wf_text (tl t)"
  using wf_tail [of c "tl t"] by (cases t) auto

lemma put_pair_keys: "set (map fst (put_pair k v ps)) = insert k (set (map fst ps))"
proof (induction ps)
  case (Cons p ps)
  then show ?case by (cases p) auto
qed simp

lemma put_pair_readable: "readable fl (RObj ps) \<Longrightarrow> wf_text k \<Longrightarrow> readable fl v \<Longrightarrow> readable fl (RObj (put_pair k v ps))"
proof (induction ps)
  case (Cons p ps)
  obtain k' w where p: "p = (k', w)" by (cases p)
  show ?case using Cons p put_pair_keys [of k v ps] by auto
qed simp

lemma object_loop_keeps:
  assumes "sound_reader fl pv"
  shows "wf_text t \<Longrightarrow> readable fl (RObj pairs) \<Longrightarrow> keeps fl (object_loop pv n k pairs t)"
proof (induction k arbitrary: pairs t)
  case (Suc k)
  have pv: "keeps fl (pv s)" if "wf_text s" for s using assms that by (simp add: sound_reader_def)
  show ?case
    unfolding object_loop.simps
  proof (rule keeps_bind [OF pv])
    show "wf_text (pyjson_ws t)" by (rule wf_ws [OF Suc.prems(1)])
    fix key :: rjson and rest :: string assume key: "readable fl key" and rest: "wf_text rest"
    have loop: "keeps fl
        (let pairs = put_pair s v pairs; rest = pyjson_ws r in
          if rest \<noteq> [] \<and> hd rest = CHR '','' then object_loop pv n k pairs (tl rest)
          else if rest \<noteq> [] \<and> hd rest = CHR ''}'' then Some (Inr (RObj pairs, tl rest))
          else Some (Inl (ObjectClose (n - length rest))))"
      if "wf_text s" "readable fl v" "wf_text r" for s v r
    proof -
      have p: "readable fl (RObj (put_pair s v pairs))" by (rule put_pair_readable [OF Suc.prems(2) that(1,2)])
      have w: "wf_text (pyjson_ws r)" by (rule wf_ws [OF that(3)])
      show ?thesis unfolding Let_def
      proof (intro keeps_if keeps_error)
        assume "pyjson_ws r \<noteq> [] \<and> hd (pyjson_ws r) = CHR '',''"
        then show "keeps fl (object_loop pv n k (put_pair s v pairs) (tl (pyjson_ws r)))"
          by (intro Suc.IH p wf_next [OF w, where c = "CHR '',''"]) simp_all
      next
        assume "pyjson_ws r \<noteq> [] \<and> hd (pyjson_ws r) = CHR ''}''"
        then have "wf_text (tl (pyjson_ws r))" by (rule wf_next [OF w]) simp
        then show "keeps fl (Some (Inr (RObj (put_pair s v pairs), tl (pyjson_ws r))))" using p by (simp add: keeps_def)
      qed
    qed
    show "keeps fl (case key of RStr key \<Rightarrow>
        (case pyjson_expect n (pyjson_ws rest) '':'' of Inl e \<Rightarrow> Some (Inl e)
         | Inr rest \<Rightarrow> parse_bind (pv rest) (\<lambda>v rest.
            let pairs = put_pair key v pairs; rest = pyjson_ws rest in
            if rest \<noteq> [] \<and> hd rest = CHR '','' then object_loop pv n k pairs (tl rest)
            else if rest \<noteq> [] \<and> hd rest = CHR ''}'' then Some (Inr (RObj pairs, tl rest))
            else Some (Inl (ObjectClose (n - length rest)))))
       | _ \<Rightarrow> Some (Inl (StringKey (n - length rest))))"
    proof (cases key)
      case (RStr s)
      have s: "wf_text s" using key RStr by simp
      show ?thesis
      proof (cases "pyjson_expect n (pyjson_ws rest) '':''")
        case (Inr r)
        have r: "wf_text r" by (rule wf_expect [OF wf_ws [OF rest] _ Inr]) simp
        show ?thesis unfolding RStr rjson.case Inr sum.case
          by (rule keeps_bind [OF pv [OF r]]) (rule loop [OF s])
      qed (simp add: RStr keeps_error)
    qed (simp_all add: keeps_error)
  qed
qed (simp add: keeps_error)

lemma array_loop_keeps:
  assumes "sound_reader fl pv"
  shows "wf_text t \<Longrightarrow> readable fl (RArr items) \<Longrightarrow> keeps fl (array_loop pv n k items t)"
proof (induction k arbitrary: items t)
  case (Suc k)
  have pv: "keeps fl (pv t)" using assms Suc.prems by (simp add: sound_reader_def)
  show ?case
    unfolding array_loop.simps Let_def
  proof (rule keeps_bind [OF pv])
    fix v :: rjson and rest :: string assume v: "readable fl v" and rest: "wf_text rest"
    have w: "wf_text (pyjson_ws rest)" by (rule wf_ws [OF rest])
    have i: "readable fl (RArr (items @ [v]))" using Suc.prems(2) v by simp
    show "keeps fl
        (if pyjson_ws rest \<noteq> [] \<and> hd (pyjson_ws rest) = CHR '','' then array_loop pv n k (items @ [v]) (tl (pyjson_ws rest))
         else if pyjson_ws rest \<noteq> [] \<and> hd (pyjson_ws rest) = CHR '']'' then Some (Inr (RArr (items @ [v]), tl (pyjson_ws rest)))
         else Some (Inl (ArrayClose (n - length (pyjson_ws rest)))))"
    proof (intro keeps_if keeps_error)
      assume "pyjson_ws rest \<noteq> [] \<and> hd (pyjson_ws rest) = CHR '',''"
      then show "keeps fl (array_loop pv n k (items @ [v]) (tl (pyjson_ws rest)))"
        by (intro Suc.IH i wf_next [OF w, where c = "CHR '',''"]) simp_all
    next
      assume "pyjson_ws rest \<noteq> [] \<and> hd (pyjson_ws rest) = CHR '']''"
      then have "wf_text (tl (pyjson_ws rest))" by (rule wf_next [OF w]) simp
      then show "keeps fl (Some (Inr (RArr (items @ [v]), tl (pyjson_ws rest))))" using i by (simp add: keeps_def)
    qed
  qed
qed (simp add: keeps_error)

lemma literal_keeps:
  assumes "wf_text t" "list_all (\<lambda>c. (of_char c :: nat) < 128) token" "readable fl v"
  shows "keeps fl (Some (pyjson_literal n t token v))"
  using assms wf_expect [OF assms(1,2), of n]
  by (auto simp: keeps_def pyjson_literal_def map_sum_def split: sum.splits)

lemma value_keeps:
  assumes "floats_read fl"
  shows "sound_reader fl (pyjson_value fl n k)"
proof (induction k)
  case (Suc k)
  show ?case
    unfolding sound_reader_def
  proof (intro allI impI)
    fix t :: string assume "wf_text t"
    then have w: "wf_text (pyjson_ws t)" by (rule wf_ws)
    show "keeps fl (pyjson_value fl n (Suc k) t)"
    proof (cases "pyjson_ws t")
      case Nil
      then show ?thesis by (simp add: keeps_error)
    next
      case (Cons c cs)
      have wc: "wf_text (c # cs)" using w Cons by simp
      have cs: "wf_text cs" if "c \<in> {CHR ''{'', CHR ''['', byte 34}" using wf_tail [OF wc] that by auto
      have obj: "keeps fl (object_loop (pyjson_value fl n k) n k [] (pyjson_ws cs))" if "c = CHR ''{''"
        by (rule object_loop_keeps [OF Suc]) (use cs that in \<open>simp_all add: wf_ws\<close>)
      have arr: "keeps fl (array_loop (pyjson_value fl n k) n k [] (pyjson_ws cs))" if "c = CHR ''[''"
        by (rule array_loop_keeps [OF Suc]) (use cs that in \<open>simp_all add: wf_ws\<close>)
      have objn: "keeps fl (Some (Inr (RObj [], tl (pyjson_ws cs))))"
        if "c = CHR ''{''" "pyjson_ws cs \<noteq> [] \<and> hd (pyjson_ws cs) = CHR ''}''"
        using wf_next [OF wf_ws that(2)] cs that(1) by (simp add: keeps_def)
      have arrn: "keeps fl (Some (Inr (RArr [], tl (pyjson_ws cs))))"
        if "c = CHR ''[''" "pyjson_ws cs \<noteq> [] \<and> hd (pyjson_ws cs) = CHR '']''"
        using wf_next [OF wf_ws that(2)] cs that(1) by (simp add: keeps_def)
      have str: "keeps fl (Some (map_sum id (map_prod RStr id) (pyjson_string n [] cs)))" if "c = byte 34"
        using wf_read_string [of n "[]" cs] cs that by (auto simp: keeps_def map_sum_def split: sum.splits)
      have num: "keeps fl (Some (pyjson_number fl (c # cs)))"
        using number_readable [OF assms _ wc] by (simp add: keeps_def)
      have inf: "keeps fl (Some (Inr (RFloat (Infinite True), drop (length ''-Infinity'') (c # cs))))"
        if p: "prefix ''-Infinity'' (c # cs)"
      proof -
        obtain r where r: "c # cs = ''-Infinity'' @ r" using p by (auto simp: prefix_def)
        then have "wf_text r" using wf_suffix [of "''-Infinity''" r] wc by simp
        then show ?thesis unfolding r by (simp add: keeps_def readable_float_def)
      qed
      show ?thesis unfolding value_at [OF Cons]
        by (rule keeps_if keeps_error obj arr objn arrn str num inf literal_keeps [OF wc] | assumption
            | simp add: readable_float_def; fail)+
    qed
  qed
qed (simp add: sound_reader_def keeps_error)

lemma loads_readable:
  assumes "floats_read fl" "wf_text t" "pyjson_loads fl t = Some (Inr j)"
  shows "readable fl j"
  using value_keeps [OF assms(1), of "length t" "Suc (length t)"] assms(2,3)
  by (auto simp: sound_reader_def keeps_def pyjson_loads_def res_bind_Inr_iff Let_def split: if_splits
      simp del: pyjson_value.simps)

text \<open>Four hexadecimal digits are asked of an escape; a plus sign and three are taken too.\<close>

lemma plus_escape: "pyjson_loads fl (byte 34 # byte 92 # ''u+041'' @ [byte 34]) = Some (Inr (RStr ''A''))"
proof -
  have "pyjson_unicode (''+041'' @ [byte 34]) = Inr (''A'', [byte 34])"
    by (simp add: pyjson_unicode_def pyjson_hex4_def from_str_radix16_def radix16_digit_def char_from_u32_def
        is_scalar_def utf8_of_def starts_char_def is_continuation_def byte_unfold)
  then show ?thesis unfolding pyjson_loads_def value_quote by (simp add: byte_eval byte_unfold del: pyjson_value.simps)
qed

subsection \<open>The properties\<close>

text \<open>C36: Details survive their storage. A tree without dates and decoded values, with integers of 64
  bits or their long texts, finite numbers that are laid out faithfully, UTF-8 texts and distinct
  keys is dumped to a text, and loading the text gives the tree.\<close>

theorem pyjson_roundtrip:
  assumes "readable fl j"
  shows "\<exists>stored. pyjson_dumps fl j = Some stored \<and> pyjson_loads fl stored = Some (Inr j)"
  using readable_written [OF assms] written_loads by (auto simp: pyjson_dumps_def written_def)

text \<open>C37: Loading returns on every UTF-8 text, with a tree or with an error, and what it accepts is
  stable: the tree can be dumped, and its text loads as the same tree. It relies on the number
  parser and the shortest digits agreeing with each other.\<close>

theorem pyjson_loads_stable:
  assumes "floats_read fl" "wf_text source"
  shows "\<exists>r. pyjson_loads fl source = Some r \<and>
    (\<forall>j. r = Inr j \<longrightarrow> (\<exists>stored. pyjson_dumps fl j = Some stored \<and> pyjson_loads fl stored = Some (Inr j)))"
proof -
  obtain r where r: "pyjson_loads fl source = Some r" using pyjson_loads_returns by blast
  have "\<exists>stored. pyjson_dumps fl j = Some stored \<and> pyjson_loads fl stored = Some (Inr j)" if "r = Inr j" for j
    using readable_written [OF loads_readable [OF assms]] written_loads r that
    by (auto simp: pyjson_dumps_def written_def)
  with r show ?thesis by blast
qed

subsection \<open>Witnesses\<close>

text \<open>A number parser that knows the half and a zero.\<close>

definition half_floats :: floats where
  "half_floats =
     \<lparr>fl_parse = (\<lambda>l. if l = ''0.5'' then Some (Finite False (1 / 2)) else if l = ''0.0'' then Some (Finite False 0) else None),
      fl_ryu = (\<lambda>v. if v = 0 then ''0'' else ''0.5'')\<rparr>"

lemma half_repr: "py_float_repr half_floats (Finite False (1 / 2)) True = ''0.5''"
  by (simp add: py_float_repr_def shortest_digits_def mantissa_exponent_def half_floats_def trim_zeros_end_def
      finite_text_def fixed_body_def Let_def)

lemma zero_repr: "py_float_repr half_floats (Finite False 0) True = ''0.0''"
  by (simp add: py_float_repr_def shortest_digits_def mantissa_exponent_def half_floats_def trim_zeros_end_def
      finite_text_def fixed_body_def Let_def)

lemma half_ryu: "ryu_ok half_floats v"
  by (simp add: ryu_ok_def half_floats_def mantissa_exponent_def mantissa_ok_def is_ascii_digit_def Let_def)

lemma half_readable: "readable_float half_floats (Finite False (1 / 2))" "readable_float half_floats (Finite False 0)"
  by (simp_all add: readable_float_def half_repr zero_repr half_ryu) (simp_all add: half_floats_def)

theorem pyjson_roundtrip_witness:
  "\<exists>stored. pyjson_dumps half_floats (RObj [(''k'', RArr [RFloat (Finite False (1 / 2)), RNull]), ([byte 195, byte 169], RInt (- 7))]) = Some stored \<and>
     pyjson_loads half_floats stored =
       Some (Inr (RObj [(''k'', RArr [RFloat (Finite False (1 / 2)), RNull]), ([byte 195, byte 169], RInt (- 7))]))"
proof (rule pyjson_roundtrip)
  have "wf_text ''k''" by (simp add: wf_text_def wf_ascii)
  moreover have "wf_text [byte 195, byte 169]"
    by (simp add: wf_text_def is_continuation_def wf_char_def code_point_def is_scalar_def utf8_of_def)
  ultimately show "readable half_floats (RObj [(''k'', RArr [RFloat (Finite False (1 / 2)), RNull]), ([byte 195, byte 169], RInt (- 7))])"
    using half_readable by (simp add: byte_unfold)
qed

theorem pyjson_loads_stable_witness:
  "\<exists>r. pyjson_loads half_floats ''[0.5, 1]'' = Some r \<and>
    (\<forall>j. r = Inr j \<longrightarrow> (\<exists>stored. pyjson_dumps half_floats j = Some stored \<and> pyjson_loads half_floats stored = Some (Inr j)))"
proof (rule pyjson_loads_stable)
  show "floats_read half_floats"
    using half_readable by (auto simp: floats_read_def half_floats_def split: if_splits)
  show "wf_text ''[0.5, 1]''" by (simp add: wf_text_def wf_ascii is_continuation_def)
qed

end
