(* ===== verification/HaystackProps.thy ===== *)
theory HaystackProps
  imports Haystack RenderJsonProps Query
begin

text \<open>
  The bound of a searchable text is exact.
\<close>

subsection \<open>Sums\<close>

text \<open>What a walk that adds up to \<open>n\<close> answers.\<close>

definition capped :: "nat \<Rightarrow> nat \<Rightarrow> snapshot_error + nat" where
  "capped limit n = (if n \<le> limit then Inr n else Inl search_limit)"

lemma search_add_capped: "limit \<le> usize_max \<Longrightarrow> search_add m n limit = capped limit (m + n)"
  by (auto simp: search_add_def capped_def)

lemma bound_bind_simps [simp]:
  "bound_bind (Some (Inl e)) f = Some (Inl e)" "bound_bind (Some (Inr n)) f = f n" "bound_bind None f = None"
  by (simp_all add: bound_bind_def)

text \<open>Sums only grow: once over the limit, the end is over it too.\<close>

lemma bind_capped:
  assumes "\<And>k. k \<le> limit \<Longrightarrow> k = n \<Longrightarrow> f k = Some (capped limit m)" "n \<le> m"
  shows "bound_bind (Some (capped limit n)) f = Some (capped limit m)"
  using assms by (auto simp: capped_def)

definition adds :: "nat \<Rightarrow> (nat \<Rightarrow> bound) \<Rightarrow> nat \<Rightarrow> bool" where
  "adds limit f n \<longleftrightarrow> (\<forall>m\<le>limit. f m = Some (capped limit (m + n)))"

lemma adds_search: "limit \<le> usize_max \<Longrightarrow> adds limit (\<lambda>m. Some (search_add m n limit)) n"
  by (simp add: adds_def search_add_capped)

lemma adds_bind:
  assumes "adds limit f a" "adds limit g b"
  shows "adds limit (\<lambda>m. bound_bind (f m) g) (a + b)"
  unfolding adds_def
proof (intro allI impI)
  fix m assume m: "m \<le> limit"
  have f: "f m = Some (capped limit (m + a))" using assms(1) m by (simp add: adds_def)
  show "bound_bind (f m) g = Some (capped limit (m + (a + b)))"
    unfolding f by (rule bind_capped) (use assms(2) in \<open>simp_all add: adds_def add.assoc\<close>)
qed

lemma adds_return: "adds limit (\<lambda>m. Some (Inr m)) 0"
  by (simp add: adds_def capped_def)

lemma adds_start: "adds limit f n \<Longrightarrow> f 0 = Some (capped limit n)"
  by (simp add: adds_def)

text \<open>A part bounded by what is left.\<close>

lemma adds_part:
  assumes "limit \<le> usize_max" "\<And>l. l \<le> limit \<Longrightarrow> f l = Some (capped l n)"
  shows "adds limit (\<lambda>m. add_bytes limit m (f (limit - m))) n"
  using assms by (auto simp: adds_def add_bytes_def capped_def search_add_def)

lemma adds_items:
  assumes "limit \<le> usize_max" "list_all2 (\<lambda>x n. adds limit (f x) n) xs ns"
  shows "adds limit (bound_items f limit first xs) (sum_list ns + (length xs - (if first then 1 else 0)))"
  using assms(2)
proof (induction xs ns arbitrary: first rule: list_all2_induct)
  case Nil
  then show ?case by (simp add: adds_return)
next
  case (Cons x xs n ns)
  have sep: "adds limit (\<lambda>m. if first then Some (Inr m) else Some (search_add m 1 limit)) (if first then 0 else 1)"
    using adds_return adds_search [OF assms(1)] by (cases first) simp_all
  have "adds limit (\<lambda>m. bound_bind (if first then Some (Inr m) else Some (search_add m 1 limit))
      (\<lambda>m. bound_bind (f x m) (bound_items f limit False xs)))
      ((if first then 0 else 1) + (n + (sum_list ns + (length xs - 0))))"
    using adds_bind [OF sep adds_bind [OF Cons.hyps(1) Cons.IH [of False]]] by simp
  then show ?case by (simp add: add.assoc add.left_commute split: if_splits)
qed

subsection \<open>Values\<close>

definition graphic :: "char \<Rightarrow> bool" where
  "graphic c \<longleftrightarrow> 33 \<le> (of_char c :: nat) \<and> (of_char c :: nat) < 127"

text \<open>What the decoder makes: texts in UTF-8, numbers whose text has graphic characters only.\<close>

fun plain_value :: "floats \<Rightarrow> json \<Rightarrow> bool" where
  "plain_value fl (JNumber n) = is_some_and (\<lambda>t. t \<noteq> [] \<and> list_all graphic t) (format_number fl n False)"
| "plain_value fl (JString s) = wf_text s"
| "plain_value fl (JArray xs) = list_all (plain_value fl) xs"
| "plain_value fl (JObject ps) = list_all (\<lambda>(key, v). wf_text key \<and> plain_value fl v) ps"
| "plain_value fl _ = True"

definition solid :: "string \<Rightarrow> bool" where
  "solid t \<longleftrightarrow> t \<noteq> [] \<and> graphic (hd t) \<and> graphic (last t) \<and> starts_char (tl t)"

lemma plan_cost_esc:
  assumes "wf_char c"
  shows "plan_cost c = length (esc_char c)"
proof -
  obtain a as where c: "c = a # as" "code_point c < 128 \<longleftrightarrow> as = []" "code_point c < 128 \<longrightarrow> a = byte (code_point c)"
    using wf_char_shape [OF assms] by blast
  show ?thesis
  proof (cases as)
    case Nil
    have "code_point [a] = of_char a" by (simp add: code_point_def)
    moreover have "[a] \<in> set (map (\<lambda>n. [byte n]) [34, 92, 8, 12, 10, 13, 9]) \<longleftrightarrow> short_escape a \<noteq> None"
      by (simp add: short_escape_def)
    ultimately show ?thesis using c(1) Nil unfolding plan_cost_def
      by (simp only: esc_char_def list.case) (simp add: hex4_def split: option.splits)
  next
    case (Cons b bs)
    then show ?thesis using c by (simp add: plan_cost_def esc_char_def)
  qed
qed

lemma plan_chars_sum:
  "plan_chars cs r = (if sum_list (map plan_cost cs) \<le> r then Inr (r - sum_list (map plan_cost cs)) else Inl output_limit)"
  by (induction cs arbitrary: r) (auto simp: checked_sub_def)

lemma string_bound_exact:
  assumes "wf_text s"
  shows "string_bound s limit = Some (capped limit (length (encode_string s)))"
proof -
  have "sum_list (map plan_cost (chars s)) = sum_list (map (\<lambda>c. length (esc_char c)) (chars s))"
    using assms by (intro arg_cong [of _ _ sum_list] map_cong refl plan_cost_esc) (simp add: wf_text_def list_all_iff)
  then have "sum_list (map plan_cost (chars s)) = length (encode_string_contents s)"
    by (simp add: encode_string_contents_def length_concat comp_def)
  then show ?thesis
    by (auto simp: string_bound_def text_plan_size_def plan_chars_sum checked_sub_def capped_def encode_string_def)
qed

lemma esc_starts: "wf_char ch \<Longrightarrow> starts_char (esc_char ch @ t)"
proof -
  assume wf: "wf_char ch"
  have "esc_char ch = ch \<or> (\<exists>r. esc_char ch = byte 92 # r)"
    by (auto simp: esc_char_def split: list.splits option.splits)
  then show "starts_char (esc_char ch @ t)"
    using wf_char_shape [OF wf] by (auto simp: starts_char_def is_continuation_def)
qed

lemma encode_string_solid:
  assumes "wf_text s"
  shows "solid (encode_string s)"
proof -
  have "starts_char (concat (map esc_char (chars s)) @ [byte 34])"
    using assms esc_starts
    by (cases "chars s") (auto simp: wf_text_def starts_char_def is_continuation_def)
  then show ?thesis by (simp add: solid_def encode_string_def encode_string_contents_def graphic_def)
qed

lemma wrapped_solid:
  assumes "graphic a" "graphic z" "\<forall>t\<in>set ts. solid t"
  shows "solid ([a] @ join '','' ts @ [z])"
proof -
  have "starts_char (join '','' ts @ [z])"
  proof (cases ts)
    case Nil
    then show ?thesis using assms(2) by (auto simp: starts_char_def graphic_def is_continuation_def)
  next
    case (Cons t us)
    then have "solid t" using assms(3) by simp
    then show ?thesis using Cons by (cases t; cases us) (auto simp: solid_def starts_char_def graphic_def is_continuation_def)
  qed
  then show ?thesis using assms by (simp add: solid_def)
qed

lemma brackets_graphic [simp]: "graphic (CHR ''['')" "graphic (CHR '']'')" "graphic (CHR ''{'')" "graphic (CHR ''}'')"
  by (simp_all add: graphic_def)

definition bounded_as :: "floats \<Rightarrow> json \<Rightarrow> string \<Rightarrow> bool" where
  "bounded_as fl v t \<longleftrightarrow> write_orjson fl v = Some t \<and> solid t \<and>
     (\<forall>limit\<le>usize_max. orjson_bound fl v limit = Some (capped limit (length t)))"

lemma bounded_part:
  assumes "bounded_as fl v t" "limit \<le> usize_max"
  shows "adds limit (\<lambda>m. add_bytes limit m (orjson_bound fl v (limit - m))) (length t)"
  by (rule adds_part [OF assms(2)]) (use assms in \<open>simp add: bounded_as_def\<close>)

lemma member_part:
  assumes "wf_text k" "bounded_as fl v t" "limit \<le> usize_max"
  shows "adds limit (\<lambda>m. bound_bind (add_bytes limit m (string_bound k (limit - m))) (\<lambda>m.
      bound_bind (Some (search_add m 1 limit)) (\<lambda>m. add_bytes limit m (orjson_bound fl v (limit - m)))))
    (length (encode_string k @ '':'' @ t))"
proof -
  have k: "adds limit (\<lambda>m. add_bytes limit m (string_bound k (limit - m))) (length (encode_string k))"
    by (rule adds_part [OF assms(3)]) (rule string_bound_exact [OF assms(1)])
  show ?thesis
    using adds_bind [OF k adds_bind [OF adds_search [OF assms(3), of 1] bounded_part [OF assms(2,3)]]] by simp
qed

lemma those_all2: "list_all2 (\<lambda>x t. f x = Some t) xs ts \<Longrightarrow> those (map f xs) = Some ts"
  by (induction xs ts rule: list_all2_induct) auto

lemma array_bounded:
  assumes "list_all2 (bounded_as fl) xs ts"
  shows "bounded_as fl (JArray xs) (''['' @ join '','' ts @ '']'')"
  unfolding bounded_as_def
proof (intro conjI allI impI)
  have w: "list_all2 (\<lambda>x t. write_orjson fl x = Some t) xs ts"
    using assms by (rule list_all2_mono) (simp add: bounded_as_def)
  show "write_orjson fl (JArray xs) = Some (''['' @ join '','' ts @ '']'')" by (simp add: those_all2 [OF w])
  have "\<forall>t\<in>set ts. solid t" using assms by (auto simp: list_all2_conv_all_nth in_set_conv_nth bounded_as_def)
  then show "solid (''['' @ join '','' ts @ '']'')" using wrapped_solid [of "CHR ''[''" "CHR '']''" ts] by simp
  fix limit assume l: "limit \<le> usize_max"
  have a: "list_all2 (\<lambda>x n. adds limit (\<lambda>m. add_bytes limit m (orjson_bound fl x (limit - m))) n) xs (map length ts)"
    unfolding list.rel_map using assms by (rule list_all2_mono) (rule bounded_part [OF _ l])
  have len: "length xs = length ts" using assms by (rule list_all2_lengthD)
  have "orjson_bound fl (JArray xs) limit = Some (capped limit (2 + (sum_list (map length ts) + (length xs - 1))))"
    using adds_start [OF adds_bind [OF adds_search [OF l, of 2] adds_items [OF l a, of True]]] by simp
  then show "orjson_bound fl (JArray xs) limit = Some (capped limit (length (''['' @ join '','' ts @ '']'')))"
    by (simp add: length_join len)
qed

definition pair_bounded :: "floats \<Rightarrow> string \<times> json \<Rightarrow> string \<Rightarrow> bool" where
  "pair_bounded fl p t \<longleftrightarrow>
     wf_text (fst p) \<and> (\<exists>u. t = encode_string (fst p) @ '':'' @ u \<and> bounded_as fl (snd p) u)"

lemma list_all2_right: "list_all2 P xs ts \<Longrightarrow> t \<in> set ts \<Longrightarrow> \<exists>x\<in>set xs. P x t"
  by (induction xs ts rule: list_all2_induct) auto

lemma object_bounded:
  assumes "list_all2 (pair_bounded fl) (deduped_pairs ps) ts"
  shows "bounded_as fl (JObject ps) (''{'' @ join '','' ts @ ''}'')"
  unfolding bounded_as_def
proof (intro conjI allI impI)
  let ?f = "\<lambda>(key, item). map_option (\<lambda>t. encode_string key @ '':'' @ t) (write_orjson fl item)"
  have w: "list_all2 (\<lambda>x t. ?f x = Some t) (deduped_pairs ps) ts"
    using assms by (rule list_all2_mono) (auto simp: pair_bounded_def bounded_as_def)
  show "write_orjson fl (JObject ps) = Some (''{'' @ join '','' ts @ ''}'')"
    unfolding write_orjson.simps those_all2 [OF w] by simp
  have "solid t" if "t \<in> set ts" for t
  proof -
    obtain p where "pair_bounded fl p t" using list_all2_right [OF assms \<open>t \<in> set ts\<close>] by blast
    then obtain k v u where t: "t = encode_string k @ '':'' @ u" "wf_text k" "bounded_as fl v u"
      by (auto simp: pair_bounded_def)
    then have "solid u" "solid (encode_string k)" using encode_string_solid by (auto simp: bounded_as_def)
    then show ?thesis unfolding t(1) by (cases "encode_string k") (auto simp: solid_def starts_char_def is_continuation_def split: list.splits)
  qed
  then show "solid (''{'' @ join '','' ts @ ''}'')" using wrapped_solid [of "CHR ''{''" "CHR ''}''" ts] by simp
  fix limit assume l: "limit \<le> usize_max"
  let ?g = "\<lambda>(key, item) m. bound_bind (add_bytes limit m (string_bound key (limit - m))) (\<lambda>m.
      bound_bind (Some (search_add m 1 limit)) (\<lambda>m. add_bytes limit m (orjson_bound fl item (limit - m))))"
  have part: "adds limit (?g p) (length t)" if pb: "pair_bounded fl p t" for p t
  proof -
    obtain k v where p: "p = (k, v)" by (cases p)
    obtain u where "wf_text k" "t = encode_string k @ '':'' @ u" "bounded_as fl v u"
      using pb unfolding p pair_bounded_def fst_conv snd_conv by (elim conjE exE)
    then show ?thesis unfolding p prod.case using member_part [OF _ _ l] by blast
  qed
  have a: "list_all2 (\<lambda>x n. adds limit (?g x) n) (deduped_pairs ps) (map length ts)"
    unfolding list.rel_map using assms by (rule list_all2_mono) (rule part)
  have len: "length (deduped_pairs ps) = length ts" using assms by (rule list_all2_lengthD)
  have "orjson_bound fl (JObject ps) limit = Some (capped limit (2 + (sum_list (map length ts) + (length (deduped_pairs ps) - 1))))"
    using adds_start [OF adds_bind [OF adds_search [OF l, of 2] adds_items [OF l a, of True]]] by simp
  then show "orjson_bound fl (JObject ps) limit = Some (capped limit (length (''{'' @ join '','' ts @ ''}'')))"
    by (simp add: length_join len)
qed

lemma plain_bounded: "plain_value fl v \<Longrightarrow> \<exists>t. bounded_as fl v t"
proof (induction v)
  case (JNumber n)
  then obtain t where t: "format_number fl n False = Some t" "t \<noteq> []" "list_all graphic t"
    by (cases "format_number fl n False") auto
  have "number_bytes_of fl n = Some (length t)"
    using t(1) by (auto simp: number_bytes_of_def format_number_def split: option.splits)
  moreover have "solid t"
    using t(2,3) by (cases t; cases "tl t") (auto simp: solid_def list_all_iff starts_char_def graphic_def is_continuation_def)
  ultimately have "bounded_as fl (JNumber n) t" using t(1) by (simp add: bounded_as_def search_add_capped)
  then show ?case by blast
next
  case (JString s)
  then have "bounded_as fl (JString s) (encode_string s)"
    using encode_string_solid string_bound_exact by (simp add: bounded_as_def)
  then show ?case by blast
next
  case (JArray xs)
  then have "\<forall>x\<in>set xs. \<exists>t. bounded_as fl x t" by (simp add: list_all_iff)
  then obtain ts where "list_all2 (bounded_as fl) xs ts" using list_all2_ex by blast
  then show ?case using array_bounded by blast
next
  case (JObject ps)
  have "\<forall>p\<in>set (deduped_pairs ps). \<exists>t. pair_bounded fl p t"
  proof
    fix p assume "p \<in> set (deduped_pairs ps)"
    then have p: "p \<in> set ps" using deduped_pairs_subset by blast
    obtain k v where kv: "p = (k, v)" by (cases p)
    have "wf_text k" "plain_value fl v" using JObject.prems p kv by (auto simp: list_all_iff)
    moreover have "\<exists>u. bounded_as fl v u" by (rule JObject.IH [OF p _ \<open>plain_value fl v\<close>]) (simp add: kv)
    ultimately show "\<exists>t. pair_bounded fl p t" using kv by (auto simp: pair_bounded_def)
  qed
  then obtain ts where "list_all2 (pair_bounded fl) (deduped_pairs ps) ts" using list_all2_ex by blast
  then show ?case using object_bounded by blast
next
  case (JBool b)
  have l: "search_add 0 (if b then 4 else 5) limit = capped limit (length (if b then ''true'' else ''false''))"
    if "limit \<le> usize_max" for limit
    unfolding search_add_capped [OF that] by (rule arg_cong [of _ _ "capped limit"]) simp
  have "solid (if b then ''true'' else ''false'')" by (simp add: solid_def graphic_def starts_char_def is_continuation_def)
  then have "bounded_as fl (JBool b) (if b then ''true'' else ''false'')"
    unfolding bounded_as_def write_orjson.simps orjson_bound.simps using l by blast
  then show ?case by blast
next
  case JNull
  have l: "search_add 0 4 limit = capped limit (length ''null'')" if "limit \<le> usize_max" for limit
    unfolding search_add_capped [OF that] by (rule arg_cong [of _ _ "capped limit"]) simp
  have "solid ''null''" by (simp add: solid_def graphic_def starts_char_def is_continuation_def)
  then have "bounded_as fl JNull ''null''"
    unfolding bounded_as_def write_orjson.simps orjson_bound.simps using l by blast
  then show ?case by blast
qed

subsection \<open>Stripping a list of parts\<close>

lemma starts_concat: "\<forall>p\<in>set ps. starts_char p \<Longrightarrow> starts_char (concat ps)"
proof (induction ps)
  case (Cons p ps)
  then show ?case by (cases p) (auto simp: starts_char_def)
qed (simp add: starts_char_def)

lemma chars_concat_parts: "\<forall>p\<in>set ps. starts_char p \<Longrightarrow> chars (concat ps) = concat (map chars ps)"
  by (induction ps) (simp_all add: chars_append starts_concat)

lemma chars_lstrip: "starts_char p \<Longrightarrow> chars (lstrip p) = dropWhile is_space (chars p)"
  unfolding lstrip_def trim_start_def
  by (rule chars_concat, rule char_list_subset [OF char_list_chars]) (auto dest: set_dropWhileD)

lemma starts_lstrip: "starts_char p \<Longrightarrow> starts_char (lstrip p)"
  unfolding lstrip_def trim_start_def
  by (rule starts_char_concat, rule char_list_subset [OF char_list_chars]) (auto dest: set_dropWhileD)

definition blank :: "string \<Rightarrow> bool" where
  "blank p \<longleftrightarrow> (\<forall>c\<in>set (chars p). is_space c)"

lemma lstrip_blank: "lstrip p = [] \<longleftrightarrow> blank p"
proof -
  have "lstrip p = [] \<longleftrightarrow> dropWhile is_space (chars p) = []"
    unfolding lstrip_def trim_start_def
    by (rule concat_ne_Nil) (auto dest: set_dropWhileD chars_chunk_ne)
  then show ?thesis by (simp add: blank_def dropWhile_eq_Nil_conv)
qed

lemma rstrip_blank: "rstrip p = [] \<longleftrightarrow> blank p"
proof -
  have "rstrip p = [] \<longleftrightarrow> rev (dropWhile is_space (rev (chars p))) = []"
    unfolding rstrip_def trim_end_def
    by (rule concat_ne_Nil)
      (use chars_chunk_ne [of _ p] set_dropWhileD [of _ is_space "rev (chars p)"] in auto)
  then show ?thesis by (simp add: blank_def dropWhile_eq_Nil_conv)
qed

lemma strip_as_both: "starts_char s \<Longrightarrow> strip s = rstrip (lstrip s)"
  by (simp add: strip_def trim_both_def rstrip_def trim_end_def chars_lstrip)

lemma dropWhile_concat:
  "dropWhile p (concat css) = (case dropWhile (list_all p) css of [] \<Rightarrow> [] | cs # rest \<Rightarrow> dropWhile p cs @ concat rest)"
proof (induction css)
  case (Cons cs css)
  show ?case
  proof (cases "list_all p cs")
    case True
    then have "dropWhile p (cs @ concat css) = dropWhile p (concat css)"
      by (intro dropWhile_append2) (auto simp: list_all_iff)
    then show ?thesis using True Cons.IH by simp
  next
    case False
    then obtain x where "x \<in> set cs" "\<not> p x" by (auto simp: list_all_iff)
    then have "dropWhile p (cs @ concat css) = dropWhile p cs @ concat css" by (rule dropWhile_append1)
    then show ?thesis using False by simp
  qed
qed simp

lemma blank_all: "blank p \<longleftrightarrow> list_all is_space (chars p)"
  by (simp add: blank_def list_all_iff)

lemma dropWhile_blank: "dropWhile (list_all is_space) (map chars ps) = map chars (dropWhile blank ps)"
  by (induction ps) (auto simp: blank_all)

text \<open>Stripping in front: the blank parts go, the first of the rest is stripped.\<close>

lemma lstrip_concat:
  assumes "\<forall>p\<in>set ps. starts_char p"
  shows "lstrip (concat ps) = (case dropWhile blank ps of [] \<Rightarrow> [] | k # ks \<Rightarrow> lstrip k @ concat ks)"
proof -
  have cc: "concat (concat (map chars xs)) = concat xs" for xs by (induction xs) simp_all
  show ?thesis
    unfolding lstrip_def trim_start_def chars_concat_parts [OF assms] dropWhile_concat dropWhile_blank
    by (cases "dropWhile blank ps") (simp_all add: cc del: dropWhile_eq_Nil_conv)
qed

lemma rev_concat_rev: "rev (concat (map rev xs)) = concat (rev xs)"
  by (induction xs) auto

lemma rstrip_concat:
  assumes "\<forall>p\<in>set ps. starts_char p"
  shows "rstrip (concat ps) = (case dropWhile blank (rev ps) of [] \<Rightarrow> [] | k # ks \<Rightarrow> concat (rev ks) @ rstrip k)"
proof -
  have cc: "concat (concat (map chars xs)) = concat xs" for xs by (induction xs) simp_all
  have r: "rev (concat (map chars ps)) = concat (map (\<lambda>p. rev (chars p)) (rev ps))"
    by (induction ps) auto
  have d: "dropWhile (list_all is_space) (map (\<lambda>p. rev (chars p)) qs) = map (\<lambda>p. rev (chars p)) (dropWhile blank qs)" for qs
    by (induction qs) (auto simp: blank_all list_all_iff)
  have rr: "rev (concat (map (\<lambda>p. rev (chars p)) ks)) = concat (map chars (rev ks))" for ks
    by (induction ks) auto
  show ?thesis
    unfolding rstrip_def trim_end_def chars_concat_parts [OF assms] r dropWhile_concat d
    by (cases "dropWhile blank (rev ps)") (simp_all add: cc rr del: dropWhile_eq_Nil_conv)
qed

lemma strip_parts_concat:
  assumes "\<forall>p\<in>set ps. starts_char p"
  shows "concat (strip_parts ps) = strip (concat ps)"
proof (cases "dropWhile blank ps")
  case Nil
  then have "lstrip (concat ps) = []" using lstrip_concat [OF assms] by (simp del: dropWhile_eq_Nil_conv)
  moreover have "rstrip [] = []" by (simp add: rstrip_def trim_end_def)
  ultimately have "strip (concat ps) = []" using strip_as_both [OF starts_concat [OF assms]] by (simp only:)
  then show ?thesis using Nil by (simp add: strip_parts_def lstrip_blank del: dropWhile_eq_Nil_conv)
next
  case (Cons k ks)
  then have k: "\<not> blank k" using hd_dropWhile [of blank ps] by simp
  have sub: "set (k # ks) \<subseteq> set ps" unfolding Cons [symmetric] by (auto dest: set_dropWhileD)
  then have st: "\<forall>p\<in>set (lstrip k # ks). starts_char p" using assms starts_lstrip by auto
  have "dropWhile is_space (chars k) \<noteq> []" using k by (simp add: blank_def dropWhile_eq_Nil_conv)
  then have "hd (dropWhile is_space (chars k)) \<in> set (dropWhile is_space (chars k))"
    "\<not> is_space (hd (dropWhile is_space (chars k)))" using hd_in_set hd_dropWhile by blast+
  moreover have "chars (lstrip k) = dropWhile is_space (chars k)" using chars_lstrip assms sub by simp
  ultimately have lk: "\<not> blank (lstrip k)" unfolding blank_def by auto
  obtain us where us: "dropWhile blank (rev ks) = us" by blast
  have trail: "dropWhile blank (rev (x # ks)) = (if us = [] then [x] else us @ [x])" if "\<not> blank x" for x
  proof (cases "us = []")
    case True
    then have "\<forall>p\<in>set (rev ks). blank p" using us by (simp add: dropWhile_eq_Nil_conv)
    then show ?thesis using that True dropWhile_append2 [of "rev ks" blank "[x]"] by simp
  next
    case False
    then obtain p where "p \<in> set (rev ks)" "\<not> blank p" using us by (auto simp: dropWhile_eq_Nil_conv)
    then show ?thesis using us False by (simp add: dropWhile_append1)
  qed
  have s: "strip (concat ps) = rstrip (concat (lstrip k # ks))"
    using strip_as_both [OF starts_concat [OF assms]] lstrip_concat [OF assms] Cons by simp
  show ?thesis
  proof (cases us)
    case Nil
    then have "strip_parts ps = [rstrip (lstrip k)]"
      using trail [OF k] Cons by (simp add: strip_parts_def lstrip_blank rstrip_blank Let_def)
    then show ?thesis using s trail [OF lk] Nil rstrip_concat [OF st] by simp
  next
    case u: (Cons v vs)
    have "rev (dropWhile blank (rev (k # ks))) = k # rev vs @ [v]" using trail [OF k] u by simp
    then have "strip_parts ps = lstrip k # rev vs @ [rstrip v]"
      using Cons by (simp add: strip_parts_def lstrip_blank rstrip_blank Let_def list_update_append)
    then show ?thesis using s trail [OF lk] u rstrip_concat [OF st] by simp
  qed
qed

subsection \<open>Attachments\<close>

lemma wf_starts: "wf_text s \<Longrightarrow> starts_char s"
  using wf_char_shape [of "hd (chars s)"] by (cases s) (auto simp: wf_text_def starts_char_def)

lemma adds_lengths:
  assumes "limit \<le> usize_max"
  shows "adds limit (add_lengths limit ps) (length (concat ps))"
proof (induction ps)
  case Nil
  then show ?case by (simp add: adds_return)
next
  case (Cons p ps)
  show ?case using adds_bind [OF adds_search [OF assms, of "length p"] Cons.IH] by simp
qed

lemma concat_spaced: "concat (spaced_texts ts) = join '' '' ts"
  by (induction ts rule: spaced_texts.induct) auto

lemma set_spaced: "set (spaced_texts ts) \<subseteq> set ts \<union> {'' ''}"
  by (induction ts rule: spaced_texts.induct) auto

lemma or_empty_list: "or_empty os = concat (opt_list (first_text os))"
  by (cases "first_text os") (simp_all add: or_empty_def)

lemma attachment_text_parts:
  "attachment_parts a = (parts, None) \<Longrightarrow> attachment_text fl (ate_detail a) = Some (concat parts)"
  "attachment_parts a = (parts, Some v) \<Longrightarrow> attachment_text fl (ate_detail a) = orjson_dumps fl v"
  by (auto simp: attachment_parts_def attachment_text_def or_empty_list concat_spaced opt_filter_Some_iff
      split: attachment_detail.splits option.splits)

lemma graphic_not_space: "graphic c \<Longrightarrow> \<not> is_space [c]"
  by (auto simp: graphic_def is_space_def is_whitespace_def unicode_white_space_def)

lemma graphic_starts: "graphic c \<Longrightarrow> \<not> is_continuation c"
  by (auto simp: graphic_def is_continuation_def)

lemma solid_stripped:
  assumes "solid t"
  shows "lstrip t = t" "rstrip t = t" "\<not> blank t" "starts_char t"
proof -
  obtain a r where t: "t = a # r" using assms by (cases t) (auto simp: solid_def)
  have a: "graphic a" "starts_char r" using assms t by (simp_all add: solid_def)
  then have ca: "chars t = [a] # chars r" using t starts_takeWhile [of r] by simp
  show "lstrip t = t" using ca graphic_not_space [OF a(1)] t by (simp add: lstrip_def trim_start_def)
  show "\<not> blank t" using ca graphic_not_space [OF a(1)] by (simp add: blank_def)
  show "starts_char t" using graphic_starts [OF a(1)] t by (simp add: starts_char_def)
  have "t = butlast t @ [last t]" using t by simp
  then obtain m z where z: "t = m @ [z]" by blast
  have g: "graphic z" using assms z by (simp add: solid_def)
  then have "chars t = chars m @ [[z]]" using graphic_starts [OF g] z chars_append [of "[z]" m] by (simp add: starts_char_def)
  then show "rstrip t = t" using graphic_not_space [OF g] z by (simp add: rstrip_def trim_end_def)
qed

lemma space_blank: "blank '' ''" "starts_char '' ''"
  by (simp_all add: blank_def is_space_def is_whitespace_def unicode_white_space_def byte_eval starts_char_def is_continuation_def)

lemma strip_before_value:
  assumes "starts_char ty" "solid t"
  shows "strip (ty @ '' '' @ t) = (if lstrip ty = [] then t else lstrip ty @ '' '' @ t)"
proof -
  have p: "\<forall>p\<in>set [ty, '' '', t]. starts_char p" using assms(1) solid_stripped(4) [OF assms(2)] space_blank(2) by simp
  have "strip (ty @ '' '' @ t) = concat (strip_parts [ty, '' '', t])" using strip_parts_concat [OF p] by simp
  also have "\<dots> = (if lstrip ty = [] then t else lstrip ty @ '' '' @ t)"
    using solid_stripped [OF assms(2)] space_blank(1)
    by (simp add: strip_parts_def lstrip_blank rstrip_blank Let_def)
  finally show ?thesis .
qed

definition plain_event :: "floats \<Rightarrow> entry \<Rightarrow> bool" where
  "plain_event fl e = (case e of
      Attachment a \<Rightarrow> wf_text (attachment_type a) \<and>
        (case attachment_parts a of (parts, v) \<Rightarrow> list_all wf_text parts \<and> (case v of None \<Rightarrow> True | Some v \<Rightarrow> plain_value fl v))
    | _ \<Rightarrow> list_all (\<lambda>tu. plain_value fl (tu_input tu)) (tool_uses e))"

lemma attachment_bounded:
  assumes "plain_event fl (Attachment a)" "limit \<le> usize_max"
  shows "\<exists>t. attachment_text fl (ate_detail a) = Some t \<and>
    attachment_haystack_bound fl a limit = Some (capped limit (length (strip (attachment_type a @ '' '' @ t))))"
proof -
  obtain parts v where pv: "attachment_parts a = (parts, v)" by (cases "attachment_parts a")
  have wf: "starts_char (attachment_type a)" "list_all wf_text parts"
    using assms(1) pv by (auto simp: plain_event_def wf_starts)
  show ?thesis
  proof (cases v)
    case None
    have p: "\<forall>p\<in>set ([attachment_type a, '' ''] @ parts). starts_char p"
      using wf space_blank(2) by (auto simp: list_all_iff wf_starts)
    have "add_lengths limit (strip_parts ([attachment_type a, '' ''] @ parts)) 0 =
        Some (capped limit (length (strip (concat ([attachment_type a, '' ''] @ parts)))))"
      using adds_start [OF adds_lengths [OF assms(2)]] strip_parts_concat [OF p] by simp
    then show ?thesis using attachment_text_parts(1) [of a parts] pv None by (simp add: attachment_haystack_bound_def)
  next
    case (Some w)
    then have "plain_value fl w" using assms(1) pv by (simp add: plain_event_def)
    then obtain t where t: "bounded_as fl w t" using plain_bounded by blast
    let ?pre = "lstrip (attachment_type a)"
    have head: "adds limit (\<lambda>m. if ?pre \<noteq> [] then bound_bind (Some (search_add m (length ?pre) limit)) (\<lambda>m. Some (search_add m 1 limit))
        else Some (Inr m)) (if ?pre = [] then 0 else length ?pre + 1)"
      using adds_bind [OF adds_search [OF assms(2)] adds_search [OF assms(2)], of "length ?pre" 1] adds_return
      by (cases "?pre = []") simp_all
    have "attachment_haystack_bound fl a limit = Some (capped limit ((if ?pre = [] then 0 else length ?pre + 1) + length t))"
      using adds_start [OF adds_bind [OF head bounded_part [OF t assms(2)]]] pv Some
      by (simp only: attachment_haystack_bound_def prod.case option.case Let_def)
    moreover have "length (strip (attachment_type a @ '' '' @ t)) = (if ?pre = [] then 0 else length ?pre + 1) + length t"
      using strip_before_value [OF wf(1), of t] t by (simp add: bounded_as_def)
    ultimately show ?thesis using attachment_text_parts(2) [of a parts w fl] pv Some t
      by (simp add: orjson_dumps_def bounded_as_def)
  qed
qed

subsection \<open>Pieces\<close>

definition piece_bound :: "nat \<Rightarrow> bound \<Rightarrow> string \<Rightarrow> bool" where
  "piece_bound limit r p \<longleftrightarrow> r = Some (capped limit (length p)) \<or> r = Some (Inr (length p))"

lemma adds_pieces:
  assumes "limit \<le> usize_max" "list_all2 (piece_bound limit) rs ps"
  shows "adds limit (add_pieces limit rs pieces)
    (sum_list (map length ps) + (length (filter (\<lambda>p. p \<noteq> []) ps) - (if pieces = 0 then 1 else 0)))"
  using assms(2)
proof (induction rs ps arbitrary: pieces rule: list_all2_induct)
  case Nil
  then show ?case by (simp add: adds_return)
next
  case (Cons r rs p ps)
  let ?n = "sum_list (map length ps) + (length (filter (\<lambda>p. p \<noteq> []) ps) - (if pieces = 0 then 1 else 0))"
  show ?case
  proof (cases "p = []")
    case True
    then have "r = Some (Inr 0)" using Cons.hyps(1) by (auto simp: piece_bound_def capped_def)
    then have "add_pieces limit (r # rs) pieces = add_pieces limit rs pieces" by (intro ext) simp
    then show ?thesis using Cons.IH [of pieces] True by simp
  next
    case False
    let ?rest = "sum_list (map length ps) + length (filter (\<lambda>p. p \<noteq> []) ps)"
    have sep: "adds limit (\<lambda>m. if pieces \<noteq> 0 then Some (search_add m 1 limit) else Some (Inr m)) (if pieces = 0 then 0 else 1)"
      using adds_search [OF assms(1), of 1] adds_return by (cases "pieces = 0") simp_all
    have main: "adds limit (\<lambda>m. bound_bind (if pieces \<noteq> 0 then Some (search_add m 1 limit) else Some (Inr m)) (\<lambda>m.
        bound_bind (Some (search_add m (length p) limit)) (add_pieces limit rs (pieces + 1))))
        ((if pieces = 0 then 0 else 1) + (length p + ?rest))"
      using adds_bind [OF sep adds_bind [OF adds_search [OF assms(1), of "length p"] Cons.IH [of "pieces + 1"]]] by simp
    have tot: "(if pieces = 0 then 0 else 1) + (length p + ?rest) =
        sum_list (map length (p # ps)) + (length (filter (\<lambda>p. p \<noteq> []) (p # ps)) - (if pieces = 0 then 1 else 0))"
      using False by simp
    show ?thesis
      unfolding adds_def
    proof (intro allI impI)
      fix m assume m: "m \<le> limit"
      show "add_pieces limit (r # rs) pieces m = Some (capped limit (m +
          (sum_list (map length (p # ps)) + (length (filter (\<lambda>p. p \<noteq> []) (p # ps)) - (if pieces = 0 then 1 else 0)))))"
      proof (cases "r = Some (Inr (length p))")
        case True
        then have "add_pieces limit (r # rs) pieces m =
            bound_bind (if pieces \<noteq> 0 then Some (search_add m 1 limit) else Some (Inr m)) (\<lambda>m.
              bound_bind (Some (search_add m (length p) limit)) (add_pieces limit rs (pieces + 1)))"
          using False by simp
        then show ?thesis using main m unfolding adds_def tot by simp
      next
        case nr: False
        then have r: "r = Some (Inl search_limit)" "limit < length p"
          using Cons.hyps(1) by (auto simp: piece_bound_def capped_def split: if_splits)
        then show ?thesis by (simp add: capped_def)
      qed
    qed
  qed
qed

lemma length_join_pieces:
  "length (join newline (filter (\<lambda>p. p \<noteq> []) ps)) = sum_list (map length ps) + (length (filter (\<lambda>p. p \<noteq> []) ps) - 1)"
proof -
  have "sum_list (map length (filter (\<lambda>p. p \<noteq> []) ps)) = sum_list (map length ps)" by (induction ps) auto
  then show ?thesis by (simp add: length_join newline_def)
qed

lemma concat_joined_parts:
  "concat (joined_event_parts (User u)) = entry_text (User u)"
  "concat (joined_event_parts (Assistant a)) = entry_text (Assistant a)"
  by (cases "ue_content u";
      simp add: joined_event_parts_def entry_text_def user_text_def joined_text_join concat_spaced text_separator_def)+

lemma tool_bounded:
  assumes "plain_value fl (tu_input tu)" "limit \<le> usize_max"
  shows "\<exists>t. tool_haystack fl (CToolUse tu) = Some t \<and> piece_bound limit (tool_haystack_bound fl (CToolUse tu) limit) t"
proof -
  obtain t where t: "bounded_as fl (tu_input tu) t" using plain_bounded [OF assms(1)] by blast
  have "tool_haystack_bound fl (CToolUse tu) limit = Some (capped limit (length (tu_name tu) + (1 + length t)))"
    using adds_start [OF adds_bind [OF adds_search [OF assms(2), of "length (tu_name tu)"]
      adds_bind [OF adds_search [OF assms(2), of 1] bounded_part [OF t assms(2)]]]]
    by (simp only: tool_haystack_bound_def content_block.case)
  then show ?thesis using t by (simp add: tool_haystack_def orjson_dumps_def bounded_as_def piece_bound_def)
qed

lemma tools_bounded:
  assumes "list_all (\<lambda>tu. plain_value fl (tu_input tu)) (List.map_filter block_tool_use bs)" "limit \<le> usize_max"
  shows "\<exists>ts. those (map (tool_haystack fl) (filter is_tool_block bs)) = Some ts \<and>
    list_all2 (piece_bound limit) (map (\<lambda>b. tool_haystack_bound fl b limit) (filter is_tool_block bs)) ts"
proof -
  have ex: "\<forall>b\<in>set (filter is_tool_block bs). \<exists>t. tool_haystack fl b = Some t \<and> piece_bound limit (tool_haystack_bound fl b limit) t"
  proof
    fix b assume b: "b \<in> set (filter is_tool_block bs)"
    then have "is_tool_block b" by simp
    then consider tu where "b = CToolUse tu" | r where "b = CToolResult r"
      by (cases b) (auto simp: is_tool_block_def)
    then show "\<exists>t. tool_haystack fl b = Some t \<and> piece_bound limit (tool_haystack_bound fl b limit) t"
    proof cases
      case 1
      then have "tu \<in> set (List.map_filter block_tool_use bs)"
        using b by (force simp: List.map_filter_def block_tool_use_def)
      then show ?thesis using tool_bounded [OF _ assms(2)] assms(1) 1 by (simp add: list_all_iff)
    next
      case 2
      then show ?thesis
        by (simp add: tool_haystack_def tool_haystack_bound_def piece_bound_def search_add_capped [OF assms(2)])
    qed
  qed
  obtain ts where ts: "list_all2 (\<lambda>b t. tool_haystack fl b = Some t \<and> piece_bound limit (tool_haystack_bound fl b limit) t)
      (filter is_tool_block bs) ts" using list_all2_ex [OF ex] by (elim exE)
  have "list_all2 (\<lambda>b t. tool_haystack fl b = Some t) (filter is_tool_block bs) ts"
    by (rule list_all2_mono [OF ts]) simp
  moreover have "list_all2 (\<lambda>b t. piece_bound limit (tool_haystack_bound fl b limit) t) (filter is_tool_block bs) ts"
    by (rule list_all2_mono [OF ts]) simp
  ultimately show ?thesis using those_all2 [of "tool_haystack fl" "filter is_tool_block bs" ts] by (auto simp: list.rel_map)
qed

lemma message_bounded:
  assumes "list_all (\<lambda>tu. plain_value fl (tu_input tu)) (tool_uses e)" "limit \<le> usize_max"
    "concat (joined_event_parts e) = entry_text e"
  shows "\<exists>ts. (if c then those (map (tool_haystack fl) (filter is_tool_block (blocks e))) else Some []) = Some ts \<and>
    add_pieces limit
        ((if a then [add_lengths limit (joined_event_parts e) 0] else []) @
         (if b then map (\<lambda>t. Some (Inr (length t))) (thinking_texts (blocks e)) else []) @
         (if c then map (\<lambda>x. tool_haystack_bound fl x limit) (filter is_tool_block (blocks e)) else [])) 0 0 =
      Some (capped limit (length (join newline (filter (\<lambda>p. p \<noteq> [])
        ((if a then [entry_text e] else []) @ (if b then thinking_texts (blocks e) else []) @ ts)))))"
proof -
  obtain us where us: "those (map (tool_haystack fl) (filter is_tool_block (blocks e))) = Some us"
      "list_all2 (piece_bound limit) (map (\<lambda>x. tool_haystack_bound fl x limit) (filter is_tool_block (blocks e))) us"
    using tools_bounded [of fl "blocks e" limit] assms(1,2) by (auto simp: tool_uses_def)
  obtain ts where ts: "ts = (if c then us else [])" by blast
  have x: "list_all2 (piece_bound limit) (if a then [add_lengths limit (joined_event_parts e) 0] else []) (if a then [entry_text e] else [])"
    using adds_start [OF adds_lengths [OF assms(2)], of "joined_event_parts e"] assms(3) by (simp add: piece_bound_def)
  have y: "list_all2 (piece_bound limit) (if b then map (\<lambda>t. Some (Inr (length t))) (thinking_texts (blocks e)) else [])
      (if b then thinking_texts (blocks e) else [])"
    by (simp add: list.rel_map piece_bound_def list.rel_refl)
  have z: "list_all2 (piece_bound limit) (if c then map (\<lambda>x. tool_haystack_bound fl x limit) (filter is_tool_block (blocks e)) else []) ts"
    using us(2) ts by simp
  show ?thesis
    using adds_start [OF adds_pieces [OF assms(2) list_all2_appendI [OF x list_all2_appendI [OF y z]], of 0]] us(1) ts
    unfolding length_join_pieces by simp
qed

subsection \<open>The bound is exact\<close>

text \<open>C38: The size limit of a search is exact. The bound answers the length of the searchable text of
  an event, and its error precisely when that text is longer than the limit: nothing within the
  limit is refused, and nothing beyond it is built. The texts are UTF-8 and the numbers have
  graphic characters only, as the decoder makes them.\<close>

theorem haystack_bound_exact:
  assumes "plain_event fl event" "limit \<le> usize_max"
  shows "\<exists>h. haystack fl event where_text where_thinking where_tools = Some h \<and>
    haystack_bound fl event where_text where_thinking where_tools limit =
      Some (if length h \<le> limit then Inr (length h) else Inl search_limit)"
  unfolding capped_def [symmetric]
proof (cases event)
  case (User u)
  then have "list_all (\<lambda>tu. plain_value fl (tu_input tu)) (tool_uses (User u))"
    using assms(1) by (simp add: plain_event_def)
  from message_bounded [OF this assms(2) concat_joined_parts(1), of where_tools where_text where_thinking]
  show "\<exists>h. haystack fl event where_text where_thinking where_tools = Some h \<and>
      haystack_bound fl event where_text where_thinking where_tools limit = Some (capped limit (length h))"
    unfolding haystack_def haystack_bound_def User entry.case by (elim exE conjE) (simp only: option.map, blast)
next
  case (Assistant a)
  then have "list_all (\<lambda>tu. plain_value fl (tu_input tu)) (tool_uses (Assistant a))"
    using assms(1) by (simp add: plain_event_def)
  from message_bounded [OF this assms(2) concat_joined_parts(2), of where_tools where_text where_thinking]
  show "\<exists>h. haystack fl event where_text where_thinking where_tools = Some h \<and>
      haystack_bound fl event where_text where_thinking where_tools limit = Some (capped limit (length h))"
    unfolding haystack_def haystack_bound_def Assistant entry.case by (elim exE conjE) (simp only: option.map, blast)
next
  case (System s)
  then show "\<exists>h. haystack fl event where_text where_thinking where_tools = Some h \<and>
      haystack_bound fl event where_text where_thinking where_tools limit = Some (capped limit (length h))"
    by (cases "filled (se_content s)")
      (auto simp: haystack_def haystack_bound_def search_add_capped [OF assms(2)] capped_def)
next
  case (Mode m)
  then show "\<exists>h. haystack fl event where_text where_thinking where_tools = Some h \<and>
      haystack_bound fl event where_text where_thinking where_tools limit = Some (capped limit (length h))"
    by (auto simp: haystack_def haystack_bound_def search_add_capped [OF assms(2)] capped_def)
next
  case (Other x)
  then show "\<exists>h. haystack fl event where_text where_thinking where_tools = Some h \<and>
      haystack_bound fl event where_text where_thinking where_tools limit = Some (capped limit (length h))"
    by (auto simp: haystack_def haystack_bound_def search_add_capped [OF assms(2)] capped_def)
next
  case (Attachment a)
  then show "\<exists>h. haystack fl event where_text where_thinking where_tools = Some h \<and>
      haystack_bound fl event where_text where_thinking where_tools limit = Some (capped limit (length h))"
    using attachment_bounded [of fl a limit] assms
    by (auto simp: haystack_def haystack_bound_def capped_def)
qed

text \<open>A note with a number, beyond a limit of ten bytes.\<close>

definition sample_note :: entry where
  "sample_note = Attachment \<lparr>ate_meta = sample_meta, attachment_type = ''note'',
     ate_detail = ADOther (JObject [(''n'', JNumber \<lparr>num_raw = Some ''1'', num_i64 = Some 1, num_u64 = Some 1, num_f64 = Some 1\<rparr>)])\<rparr>"

theorem haystack_bound_exact_witness:
  "\<exists>h. haystack half_floats sample_note True False False = Some h \<and>
    haystack_bound half_floats sample_note True False False 10 =
      Some (if length h \<le> 10 then Inr (length h) else Inl search_limit)"
proof (rule haystack_bound_exact)
  show "plain_event half_floats sample_note"
    by (simp add: plain_event_def sample_note_def attachment_parts_def wf_text_def wf_ascii is_continuation_def
        format_number_def integer_lexeme_def float_lexeme_def graphic_def)
  show "10 \<le> usize_max" by (simp add: usize_max_def)
qed

end
