(* ===== verification/RenderStats.thy ===== *)
theory RenderStats
  imports RenderLines
begin

text \<open>
  The corpus statistics of \<open>render.rs\<close>: counters, the fold of one transcript, the merge of the
  folds in the order of the transcripts, and the rows shown for them. Counts are unbounded where the
  code has \<open>u64\<close>. \<^const>\<open>None\<close> is the failed \<open>expect\<close> of a number no accessor reads.
\<close>

subsection \<open>Counters\<close>

record tallies =
  tc_order :: "string list"
  tc_counts :: "string \<rightharpoonup> nat"

definition tallies_new :: tallies where
  "tallies_new = \<lparr>tc_order = [], tc_counts = Map.empty\<rparr>"

definition tallies_bump :: "string \<Rightarrow> nat \<Rightarrow> tallies \<Rightarrow> tallies" where
  "tallies_bump key n c = (case tc_counts c key of
      Some seen \<Rightarrow> c\<lparr>tc_counts := (tc_counts c)(key \<mapsto> seen + n)\<rparr>
    | None \<Rightarrow> c\<lparr>tc_order := tc_order c @ [key], tc_counts := (tc_counts c)(key \<mapsto> n)\<rparr>)"

definition tallies_add :: "tallies \<Rightarrow> string \<Rightarrow> tallies" where
  "tallies_add c key = tallies_bump key 1 c"

definition tallies_merge :: "tallies \<Rightarrow> tallies \<Rightarrow> tallies" where
  "tallies_merge c other = foldl (\<lambda>c key. tallies_bump key (the (tc_counts other key)) c) c (tc_order other)"

definition tallies_ranked :: "tallies \<Rightarrow> (string \<times> nat) list" where
  "tallies_ranked c = stable_sort (by_key_desc snd) (map (\<lambda>k. (k, the (tc_counts c k))) (tc_order c))"

subsection \<open>The fold of a transcript\<close>

record slow_tool =
  sl_tool :: string
  sl_duration_ms :: int
  sl_is_error :: bool

record stats =
  st_files :: nat
  st_events :: nat
  st_kinds :: "(string \<times> nat) list"
  st_models :: "(string \<times> nat) list"
  st_tools :: "(string \<times> nat) list"
  st_tool_errors_by_name :: "(string \<times> nat) list"
  st_attachment_types :: "(string \<times> nat) list"
  st_text_chars :: nat
  st_thinking_chars :: nat
  st_tool_io_chars :: nat
  st_sessions :: nat
  st_first_timestamp :: "datetime option"
  st_last_timestamp :: "datetime option"
  st_interrupts :: nat
  st_tool_errors :: nat
  st_error_events :: "nat list option"
  st_slowest_tools :: "slow_tool list"
  st_sidechain :: nat

record stats_fold =
  sf_kinds :: tallies
  sf_models :: tallies
  sf_tools :: tallies
  sf_tool_errors_by_name :: tallies
  sf_attachment_types :: tallies
  sf_sessions :: "string set"
  sf_files :: nat
  sf_events :: nat
  sf_text_chars :: nat
  sf_thinking_chars :: nat
  sf_tool_io_chars :: nat
  sf_interrupts :: nat
  sf_tool_errors :: nat
  sf_error_events :: "nat list option"
  sf_sidechain :: nat
  sf_first :: "datetime option"
  sf_last :: "datetime option"

definition fold_default :: stats_fold where
  "fold_default = \<lparr>sf_kinds = tallies_new, sf_models = tallies_new, sf_tools = tallies_new,
     sf_tool_errors_by_name = tallies_new, sf_attachment_types = tallies_new, sf_sessions = {},
     sf_files = 0, sf_events = 0, sf_text_chars = 0, sf_thinking_chars = 0, sf_tool_io_chars = 0,
     sf_interrupts = 0, sf_tool_errors = 0, sf_error_events = None, sf_sidechain = 0,
     sf_first = None, sf_last = None\<rparr>"

definition earliest :: "datetime option \<Rightarrow> datetime \<Rightarrow> datetime option" where
  "earliest seen ts = Some (opt_default ts (opt_filter (\<lambda>t. dt_instant t \<le> dt_instant ts) seen))"

definition latest :: "datetime option \<Rightarrow> datetime \<Rightarrow> datetime option" where
  "latest seen ts = Some (opt_default ts (opt_filter (\<lambda>t. dt_instant ts \<le> dt_instant t) seen))"

definition one_if :: "bool \<Rightarrow> nat" where
  "one_if b = (if b then 1 else 0)"

definition stats_meta :: "entry_meta \<Rightarrow> stats_fold \<Rightarrow> stats_fold" where
  "stats_meta m f = f\<lparr>sf_sessions := insert (em_session_id m) (sf_sessions f),
     sf_sidechain := sf_sidechain f + one_if (is_sidechain m),
     sf_first := earliest (sf_first f) (timestamp m), sf_last := latest (sf_last f) (timestamp m)\<rparr>"

definition stats_result :: "nat \<Rightarrow> (string \<rightharpoonup> string) \<Rightarrow> stats_fold \<Rightarrow> tool_result_block \<Rightarrow> stats_fold" where
  "stats_result index names f r =
     (let f = f\<lparr>sf_tool_io_chars := sf_tool_io_chars f + char_len (tr_content r),
            sf_tool_errors := sf_tool_errors f + one_if (tr_is_error r)\<rparr>
      in if tr_is_error r then
           f\<lparr>sf_error_events := map_option (\<lambda>ix. if ix \<noteq> [] \<and> last ix = index then ix else ix @ [index]) (sf_error_events f),
             sf_tool_errors_by_name := (case names (tr_tool_use_id r) of
                 Some name \<Rightarrow> tallies_add (sf_tool_errors_by_name f) name
               | None \<Rightarrow> sf_tool_errors_by_name f)\<rparr>
         else f)"

type_synonym walk = "stats_fold \<times> (string \<rightharpoonup> string)"

fun stats_blocks :: "floats \<Rightarrow> content_block list \<Rightarrow> walk \<Rightarrow> walk option" where
  "stats_blocks fl [] w = Some w"
| "stats_blocks fl (CThinking t # bs) (f, names) =
     stats_blocks fl bs (f\<lparr>sf_thinking_chars := sf_thinking_chars f + char_len t\<rparr>, names)"
| "stats_blocks fl (CToolUse tu # bs) (f, names) =
     Option.bind (orjson_dumps fl (tu_input tu)) (\<lambda>t.
       stats_blocks fl bs (f\<lparr>sf_tools := tallies_add (sf_tools f) (tu_name tu),
         sf_tool_io_chars := sf_tool_io_chars f + length t\<rparr>, names(tu_id tu \<mapsto> tu_name tu)))"
| "stats_blocks fl (_ # bs) w = stats_blocks fl bs w"

definition stats_kind :: "env \<Rightarrow> floats \<Rightarrow> nat \<Rightarrow> entry \<Rightarrow> walk \<Rightarrow> walk option" where
  "stats_kind env fl index event = (\<lambda>(f, names). case event of
      User u \<Rightarrow> Some (foldl (stats_result index names)
        (f\<lparr>sf_interrupts := sf_interrupts f + one_if (user_interrupted env u)\<rparr>) (user_tool_results u), names)
    | Assistant a \<Rightarrow> stats_blocks fl (as_blocks a) (f\<lparr>sf_models := tallies_add (sf_models f) (as_model a)\<rparr>, names)
    | Mode m \<Rightarrow> Some (f\<lparr>sf_sessions := insert (mo_session_id m) (sf_sessions f)\<rparr>, names)
    | Attachment a \<Rightarrow> Some (f\<lparr>sf_attachment_types := tallies_add (sf_attachment_types f) (attachment_type a)\<rparr>, names)
    | _ \<Rightarrow> Some (f, names))"

definition stats_event :: "env \<Rightarrow> floats \<Rightarrow> nat \<Rightarrow> entry \<Rightarrow> walk \<Rightarrow> walk option" where
  "stats_event env fl index event = (\<lambda>(f, names).
     let f = f\<lparr>sf_events := sf_events f + 1, sf_kinds := tallies_add (sf_kinds f) (event_kind event),
           sf_text_chars := sf_text_chars f + char_len (entry_text event)\<rparr>;
         f = (case meta event of Some m \<Rightarrow> stats_meta m f | None \<Rightarrow> f)
     in stats_kind env fl index event (f, names))"

fun stats_walk :: "env \<Rightarrow> floats \<Rightarrow> nat \<Rightarrow> entry list \<Rightarrow> walk \<Rightarrow> walk option" where
  "stats_walk env fl index [] w = Some w"
| "stats_walk env fl index (e # es) w =
     Option.bind (stats_event env fl index e w) (stats_walk env fl (index + 1) es)"

definition fold_of :: "env \<Rightarrow> floats \<Rightarrow> entry list \<Rightarrow> stats_fold option" where
  "fold_of env fl entries =
     map_option fst (stats_walk env fl 0 entries (fold_default\<lparr>sf_files := 1, sf_error_events := Some []\<rparr>, Map.empty))"

definition fold_merge :: "stats_fold \<Rightarrow> stats_fold \<Rightarrow> stats_fold" where
  "fold_merge f other =
     \<lparr>sf_kinds = tallies_merge (sf_kinds f) (sf_kinds other),
      sf_models = tallies_merge (sf_models f) (sf_models other),
      sf_tools = tallies_merge (sf_tools f) (sf_tools other),
      sf_tool_errors_by_name = tallies_merge (sf_tool_errors_by_name f) (sf_tool_errors_by_name other),
      sf_attachment_types = tallies_merge (sf_attachment_types f) (sf_attachment_types other),
      sf_sessions = sf_sessions f \<union> sf_sessions other,
      sf_files = sf_files f + sf_files other,
      sf_events = sf_events f + sf_events other,
      sf_text_chars = sf_text_chars f + sf_text_chars other,
      sf_thinking_chars = sf_thinking_chars f + sf_thinking_chars other,
      sf_tool_io_chars = sf_tool_io_chars f + sf_tool_io_chars other,
      sf_interrupts = sf_interrupts f + sf_interrupts other,
      sf_tool_errors = sf_tool_errors f + sf_tool_errors other,
      sf_error_events = (if sf_files f = 0 then sf_error_events other else None),
      sf_sidechain = sf_sidechain f + sf_sidechain other,
      sf_first = (case sf_first other of None \<Rightarrow> sf_first f | Some ts \<Rightarrow> earliest (sf_first f) ts),
      sf_last = (case sf_last other of None \<Rightarrow> sf_last f | Some ts \<Rightarrow> latest (sf_last f) ts)\<rparr>"

definition fold_finish :: "stats_fold \<Rightarrow> stats" where
  "fold_finish f =
     \<lparr>st_files = sf_files f, st_events = sf_events f, st_kinds = tallies_ranked (sf_kinds f),
      st_models = tallies_ranked (sf_models f), st_tools = tallies_ranked (sf_tools f),
      st_tool_errors_by_name = tallies_ranked (sf_tool_errors_by_name f),
      st_attachment_types = tallies_ranked (sf_attachment_types f), st_text_chars = sf_text_chars f,
      st_thinking_chars = sf_thinking_chars f, st_tool_io_chars = sf_tool_io_chars f,
      st_sessions = card (sf_sessions f), st_first_timestamp = sf_first f, st_last_timestamp = sf_last f,
      st_interrupts = sf_interrupts f, st_tool_errors = sf_tool_errors f,
      st_error_events = sf_error_events f, st_slowest_tools = [], st_sidechain = sf_sidechain f\<rparr>"

fun merge_all :: "env \<Rightarrow> floats \<Rightarrow> entry list list \<Rightarrow> stats_fold \<Rightarrow> stats_fold option" where
  "merge_all env fl [] f = Some f"
| "merge_all env fl (t # ts) f =
     Option.bind (fold_of env fl t) (\<lambda>other. merge_all env fl ts (fold_merge f other))"

definition collect_stats :: "env \<Rightarrow> floats \<Rightarrow> entry list list \<Rightarrow> stats option" where
  "collect_stats env fl transcripts = map_option fold_finish (merge_all env fl transcripts fold_default)"

subsection \<open>Slow tools and rows\<close>

definition keep_slowest :: "slow_tool list \<Rightarrow> slow_tool list" where
  "keep_slowest tools = take 5 (stable_sort (by_key_desc sl_duration_ms) tools)"

definition slowest_tools :: "tool_fact list \<Rightarrow> slow_tool list" where
  "slowest_tools facts = keep_slowest (List.map_filter (\<lambda>f. map_option (\<lambda>d.
     \<lparr>sl_tool = tf_tool f, sl_duration_ms = d, sl_is_error = tf_is_error f\<rparr>) (tf_duration_ms f)) facts)"

definition render_slowest_tools :: "slow_tool list \<Rightarrow> string" where
  "render_slowest_tools tools =
     (if tools = [] then ''-'' else join middle_dot (map (\<lambda>t. sl_tool t @ '' '' @ dec_int (sl_duration_ms t) @ ''ms'' @
        (if sl_is_error t then '' [err]'' else [])) tools))"

definition render_stats :: "calendar \<Rightarrow> stats \<Rightarrow> string" where
  "render_stats cal s =
     join newline (map (\<lambda>(label, v). pad_right 12 label @ '' '' @ v)
       ([(''files'', dec_digits (st_files s)), (''events'', dec_digits (st_events s)),
         (''kinds'', render_histogram (st_kinds s)), (''models'', render_histogram (st_models s)),
         (''tools'', render_histogram (st_tools s)), (''tool errors'', render_histogram (st_tool_errors_by_name s)),
         (''attachments'', render_histogram (st_attachment_types s)), (''text'', human_size cal (st_text_chars s)),
         (''thinking'', human_size cal (st_thinking_chars s)), (''tool io'', human_size cal (st_tool_io_chars s)),
         (''sessions'', dec_digits (st_sessions s)),
         (''span'', render_span cal (st_first_timestamp s) (st_last_timestamp s)),
         (''interrupts'', dec_digits (st_interrupts s)), (''errors'', dec_digits (st_tool_errors s))] @
        (case st_error_events s of Some indexes \<Rightarrow> [(''error events'', render_indexes indexes)] | None \<Rightarrow> []) @
        [(''slowest tools'', render_slowest_tools (st_slowest_tools s)), (''sidechain'', dec_digits (st_sidechain s))]))"

end
