(* ===== verification/RenderViews.thy ===== *)
theory RenderViews
  imports RenderStats
begin

text \<open>
  The JSON projections of \<open>render.rs\<close>: an entry, the statistics, a tool fact, a denial, a session's
  writes and an attribution as trees for the command line. \<open>format_datetime\<close> takes chrono's
  calendar; the printers of \<^theory_text>\<open>RenderJson\<close> take it as their argument.
\<close>

subsection \<open>Leaves\<close>

definition obj :: "(string \<times> rjson) list \<Rightarrow> rjson" where
  "obj pairs = RObj pairs"

definition opt_json :: "('a \<Rightarrow> rjson) \<Rightarrow> 'a option \<Rightarrow> rjson" where
  "opt_json f v = (case v of Some x \<Rightarrow> f x | None \<Rightarrow> RNull)"

definition opt_str_json :: "string option \<Rightarrow> rjson" where
  "opt_str_json v = (case v of Some s \<Rightarrow> RStr s | None \<Rightarrow> RNull)"

definition opt_int_json :: "int option \<Rightarrow> rjson" where
  "opt_int_json v = (case v of Some i \<Rightarrow> RInt i | None \<Rightarrow> RNull)"

definition opt_bool_json :: "bool option \<Rightarrow> rjson" where
  "opt_bool_json v = (case v of Some b \<Rightarrow> RBool b | None \<Rightarrow> RNull)"

definition opt_value_json :: "json option \<Rightarrow> rjson" where
  "opt_value_json v = (case v of Some x \<Rightarrow> RValue x | None \<Rightarrow> RNull)"

definition str_arr :: "string list \<Rightarrow> rjson" where
  "str_arr items = RArr (map RStr items)"

definition format_datetime :: "calendar \<Rightarrow> datetime \<Rightarrow> string" where
  "format_datetime cal dt =
     (let micros = dt_nanos dt div 1000; digits = dec_digits micros in
      cal_iso cal dt @
      (if micros = 0 then [] else ''.'' @ replicate (6 - length digits) (CHR ''0'') @ digits) @
      cal_offset cal dt)"

subsection \<open>Entries\<close>

definition meta_json :: "entry_meta \<Rightarrow> rjson" where
  "meta_json m = obj
    [(''uuid'', RStr (uuid m)),
     (''parent_uuid'', opt_str_json (parent_uuid m)),
     (''session_id'', RStr (em_session_id m)),
     (''timestamp'', RDatetime (timestamp m)),
     (''cwd'', opt_str_json (em_cwd m)),
     (''git_branch'', opt_str_json (git_branch m)),
     (''cc_version'', opt_str_json (version m)),
     (''is_sidechain'', RBool (is_sidechain m)),
     (''is_meta'', RBool (is_meta m)),
     (''entrypoint'', opt_str_json (entrypoint m)),
     (''is_compact_summary'', RBool (is_compact_summary m)),
     (''is_visible_in_transcript_only'', RBool (is_visible_in_transcript_only m)),
     (''user_type'', opt_str_json (user_type m)),
     (''slug'', opt_str_json (slug m))]"

definition block_json :: "content_block \<Rightarrow> rjson" where
  "block_json block = (case block of
      CText t \<Rightarrow> obj [(''type'', RStr ''text''), (''text'', RStr t)]
    | CThinking t \<Rightarrow> obj [(''type'', RStr ''thinking''), (''thinking'', RStr t)]
    | CToolUse tu \<Rightarrow> obj
        [(''type'', RStr ''tool_use''), (''id'', RStr (tu_id tu)), (''name'', RStr (tu_name tu)),
         (''input'', RValue (tu_input tu))]
    | CToolResult r \<Rightarrow> obj
        [(''type'', RStr ''tool_result''), (''tool_use_id'', RStr (tr_tool_use_id r)),
         (''content'', RStr (tr_content r)), (''is_error'', RBool (tr_is_error r)),
         (''is_async'', RBool (tr_is_async r)), (''tool_use_result'', opt_value_json (tr_tool_use_result r)),
         (''denial_kind'', opt_str_json (tr_denial_kind r))]
    | CFallback f \<Rightarrow> obj
        [(''type'', RStr ''fallback''), (''from_model'', RStr (from_model f)), (''to_model'', RStr (to_model f))]
    | COther ty raw \<Rightarrow> obj [(''type'', RStr ty), (''raw'', RValue raw)])"

definition blocks_json :: "content_block list \<Rightarrow> rjson" where
  "blocks_json bs = RArr (map block_json bs)"

definition is_text_block :: "content_block \<Rightarrow> bool" where
  "is_text_block b = (case b of CText _ \<Rightarrow> True | _ \<Rightarrow> False)"

definition is_result_block :: "content_block \<Rightarrow> bool" where
  "is_result_block b = (case b of CToolResult _ \<Rightarrow> True | _ \<Rightarrow> False)"

definition user_blocks_json :: "content_block list \<Rightarrow> rjson" where
  "user_blocks_json bs = RArr (map block_json (filter is_text_block bs @ filter is_result_block bs))"

definition cache_creation_json :: "cache_creation \<Rightarrow> rjson" where
  "cache_creation_json c = obj
    [(''ephemeral_5m_input_tokens'', RInt (ephemeral_5m_input_tokens c)),
     (''ephemeral_1h_input_tokens'', RInt (ephemeral_1h_input_tokens c))]"

definition server_tool_use_json :: "server_tool_use \<Rightarrow> rjson" where
  "server_tool_use_json s = obj
    [(''web_search_requests'', RInt (web_search_requests s)),
     (''web_fetch_requests'', RInt (web_fetch_requests s))]"

definition usage_json :: "usage \<Rightarrow> rjson" where
  "usage_json u = obj
    [(''input_tokens'', RInt (input_tokens u)),
     (''output_tokens'', RInt (output_tokens u)),
     (''cache_read_input_tokens'', RInt (cache_read_input_tokens u)),
     (''cache_creation_input_tokens'', RInt (cache_creation_input_tokens u)),
     (''cache_creation'', opt_json cache_creation_json (us_cache_creation u)),
     (''service_tier'', opt_str_json (service_tier u)),
     (''inference_geo'', opt_str_json (inference_geo u)),
     (''server_tool_use'', opt_json server_tool_use_json (us_server_tool_use u))]"

definition attribution_json :: "attribution \<Rightarrow> rjson" where
  "attribution_json a = obj
    [(''plugin'', opt_str_json (plugin a)),
     (''skill'', opt_str_json (at_skill a)),
     (''mcp_server'', opt_str_json (mcp_server a)),
     (''mcp_tool'', opt_str_json (mcp_tool a))]"

definition api_error_json :: "api_error \<Rightarrow> rjson" where
  "api_error_json e = obj
    [(''error'', opt_str_json (ae_error e)),
     (''status'', opt_int_json (ae_status e)),
     (''details'', opt_str_json (ae_details e))]"

definition hook_info_json :: "hook_info \<Rightarrow> rjson" where
  "hook_info_json h = obj
    [(''command'', RStr (hi_command h)),
     (''duration_ms'', opt_int_json (hi_duration_ms h))]"

definition stop_hook_summary_json :: "stop_hook_summary \<Rightarrow> rjson" where
  "stop_hook_summary_json s = obj
    [(''hook_count'', opt_int_json (hook_count s)),
     (''hook_infos'', RArr (map hook_info_json (hook_infos s))),
     (''hook_errors'', str_arr (hook_errors s)),
     (''hook_additional_context'', str_arr (hook_additional_context s)),
     (''prevented_continuation'', RBool (prevented_continuation s)),
     (''stop_reason'', opt_str_json (sh_stop_reason s)),
     (''has_output'', RBool (has_output s)),
     (''tool_use_id'', opt_str_json (sh_tool_use_id s))]"

definition preserved_segment_json :: "preserved_segment \<Rightarrow> rjson" where
  "preserved_segment_json p = obj
    [(''head_uuid'', opt_str_json (head_uuid p)),
     (''anchor_uuid'', opt_str_json (ps_anchor_uuid p)),
     (''tail_uuid'', opt_str_json (tail_uuid p))]"

definition preserved_messages_json :: "preserved_messages \<Rightarrow> rjson" where
  "preserved_messages_json p = obj
    [(''anchor_uuid'', opt_str_json (pm_anchor_uuid p)),
     (''uuids'', str_arr (uuids p)),
     (''all_uuids'', str_arr (all_uuids p))]"

definition compact_boundary_json :: "compact_boundary \<Rightarrow> rjson" where
  "compact_boundary_json c = obj
    [(''trigger'', opt_str_json (cb_trigger c)),
     (''pre_tokens'', opt_int_json (pre_tokens c)),
     (''post_tokens'', opt_int_json (post_tokens c)),
     (''duration_ms'', opt_int_json (cb_duration_ms c)),
     (''cumulative_dropped_tokens'', opt_int_json (cumulative_dropped_tokens c)),
     (''pre_compact_discovered_tools'', str_arr (pre_compact_discovered_tools c)),
     (''preserved_segment'', opt_json preserved_segment_json (preserved_segment c)),
     (''preserved_messages'', opt_json preserved_messages_json (preserved_messages c)),
     (''logical_parent_uuid'', opt_str_json (logical_parent_uuid c)),
     (''precomputed'', opt_bool_json (precomputed c))]"

definition turn_duration_json :: "turn_duration \<Rightarrow> rjson" where
  "turn_duration_json t = obj
    [(''duration_ms'', opt_int_json (td_duration_ms t)),
     (''message_count'', opt_int_json (message_count t)),
     (''pending_workflow_count'', opt_int_json (pending_workflow_count t)),
     (''pending_background_agent_count'', opt_int_json (pending_background_agent_count t))]"

definition model_refusal_fallback_json :: "model_refusal_fallback \<Rightarrow> rjson" where
  "model_refusal_fallback_json m = obj
    [(''api_refusal_category'', opt_str_json (api_refusal_category m)),
     (''api_refusal_explanation'', opt_str_json (api_refusal_explanation m)),
     (''trigger'', opt_str_json (mr_trigger m)),
     (''direction'', opt_str_json (direction m)),
     (''original_model'', opt_str_json (original_model m)),
     (''fallback_model'', opt_str_json (fallback_model m)),
     (''retracted_message_uuids'', str_arr (retracted_message_uuids m)),
     (''refused_user_message_uuid'', opt_str_json (refused_user_message_uuid m))]"

definition system_detail_json :: "system_detail \<Rightarrow> rjson" where
  "system_detail_json detail = (case detail of
      SDStopHookSummary s \<Rightarrow> stop_hook_summary_json s
    | SDCompactBoundary c \<Rightarrow> compact_boundary_json c
    | SDTurnDuration t \<Rightarrow> turn_duration_json t
    | SDModelRefusalFallback m \<Rightarrow> model_refusal_fallback_json m
    | SDOther raw \<Rightarrow> obj [(''raw'', RValue raw)])"

definition attachment_detail_json :: "attachment_detail \<Rightarrow> rjson" where
  "attachment_detail_json detail = (case detail of
      ADHookSuccess h \<Rightarrow> obj
        [(''hook_name'', opt_str_json (hs_hook_name h)),
         (''hook_event'', opt_str_json (hs_hook_event h)),
         (''tool_use_id'', opt_str_json (hs_tool_use_id h)),
         (''command'', opt_str_json (hs_command h)),
         (''content'', opt_str_json (hs_content h)),
         (''stdout'', opt_str_json (hs_stdout h)),
         (''stderr'', opt_str_json (hs_stderr h)),
         (''exit_code'', opt_int_json (hs_exit_code h)),
         (''duration_ms'', opt_int_json (hs_duration_ms h))]
    | ADHookBlockingError h \<Rightarrow> obj
        [(''hook_name'', opt_str_json (hb_hook_name h)),
         (''hook_event'', opt_str_json (hb_hook_event h)),
         (''tool_use_id'', opt_str_json (hb_tool_use_id h)),
         (''blocking_error'', opt_value_json (blocking_error h))]
    | ADHookNonBlockingError h \<Rightarrow> obj
        [(''hook_name'', opt_str_json (hn_hook_name h)),
         (''hook_event'', opt_str_json (hn_hook_event h)),
         (''tool_use_id'', opt_str_json (hn_tool_use_id h)),
         (''command'', opt_str_json (hn_command h)),
         (''stdout'', opt_str_json (hn_stdout h)),
         (''stderr'', opt_str_json (hn_stderr h)),
         (''exit_code'', opt_int_json (hn_exit_code h)),
         (''duration_ms'', opt_int_json (hn_duration_ms h))]
    | ADHookCancelled h \<Rightarrow> obj
        [(''hook_name'', opt_str_json (hc_hook_name h)),
         (''hook_event'', opt_str_json (hc_hook_event h)),
         (''tool_use_id'', opt_str_json (hc_tool_use_id h)),
         (''command'', opt_str_json (hc_command h)),
         (''duration_ms'', opt_int_json (hc_duration_ms h)),
         (''timed_out'', opt_bool_json (timed_out h)),
         (''timeout_ms'', opt_int_json (timeout_ms h))]
    | ADHookAdditionalContext h \<Rightarrow> obj
        [(''hook_name'', opt_str_json (ha_hook_name h)),
         (''hook_event'', opt_str_json (ha_hook_event h)),
         (''tool_use_id'', opt_str_json (ha_tool_use_id h)),
         (''content'', str_arr (ha_content h))]
    | ADAsyncHookResponse h \<Rightarrow> obj
        [(''hook_name'', opt_str_json (ah_hook_name h)),
         (''hook_event'', opt_str_json (ah_hook_event h)),
         (''process_id'', opt_str_json (process_id h)),
         (''stdout'', opt_str_json (ah_stdout h)),
         (''stderr'', opt_str_json (ah_stderr h)),
         (''exit_code'', opt_int_json (ah_exit_code h)),
         (''response'', opt_value_json (ah_response h))]
    | ADQueuedCommand q \<Rightarrow> obj
        [(''prompt'', opt_str_json (qc_prompt q)),
         (''command_mode'', opt_str_json (command_mode q)),
         (''origin'', opt_str_json (origin q))]
    | ADDeferredToolsDelta d \<Rightarrow> obj
        [(''added_count'', RUInt (length (added_names d))),
         (''removed_count'', RUInt (length (removed_names d))),
         (''added_names'', str_arr (added_names d)),
         (''removed_names'', str_arr (removed_names d)),
         (''raw'', RValue (dt_raw d))]
    | ADOther raw \<Rightarrow> obj [(''raw'', RValue raw)])"

text \<open>The pairs of an entry, after its index and kind.\<close>

definition event_pairs :: "env \<Rightarrow> entry \<Rightarrow> (string \<times> rjson) list" where
  "event_pairs env event = (case event of
      User u \<Rightarrow>
        [(''meta'', meta_json (ue_meta u)),
         (''text'', RStr (user_text (ue_content u))),
         (''blocks'', user_blocks_json (user_blocks u)),
         (''interrupted'', RBool (user_interrupted env u)),
         (''is_agent_injected'', RBool (is_agent_injected env u)),
         (''prompt_id'', opt_str_json (prompt_id u)),
         (''prompt_source'', opt_str_json (prompt_source u)),
         (''queue_priority'', opt_str_json (queue_priority u)),
         (''image_paste_ids'', opt_json (\<lambda>ids. RArr (map RInt ids)) (image_paste_ids u)),
         (''source_tool_use_id'', opt_str_json (source_tool_use_id u)),
         (''source_tool_assistant_uuid'', opt_str_json (source_tool_assistant_uuid u)),
         (''mcp_meta'', opt_value_json (mcp_meta u)),
         (''permission_mode'', opt_str_json (permission_mode u)),
         (''interrupted_message_id'', opt_str_json (interrupted_message_id u))]
    | Assistant a \<Rightarrow>
        [(''meta'', meta_json (as_meta a)),
         (''model'', RStr (as_model a)),
         (''text'', RStr (joined_text (as_blocks a))),
         (''blocks'', blocks_json (as_blocks a)),
         (''stop_reason'', opt_str_json (as_stop_reason a)),
         (''usage'', opt_json usage_json (as_usage a)),
         (''request_id'', opt_str_json (request_id a)),
         (''forked_from'', opt_str_json (forked_from a)),
         (''attribution'', opt_json attribution_json (as_attribution a)),
         (''api_error'', opt_json api_error_json (as_api_error a))]
    | System s \<Rightarrow>
        [(''meta'', meta_json (se_meta s)),
         (''subtype'', RStr (subtype s)),
         (''content'', opt_str_json (se_content s)),
         (''level'', opt_str_json (level s)),
         (''detail'', system_detail_json (se_detail s))]
    | Mode m \<Rightarrow>
        [(''session_id'', RStr (mo_session_id m)),
         (''channel'', RStr (channel_text (channel m))),
         (''value'', RStr (mo_value m))]
    | Other x \<Rightarrow>
        [(''type'', RStr (oe_ty x)),
         (''raw'', RValue (oe_raw x))]
    | Attachment a \<Rightarrow>
        [(''meta'', meta_json (ate_meta a)),
         (''attachment_type'', RStr (attachment_type a)),
         (''detail'', attachment_detail_json (ate_detail a))])"

definition event_json :: "env \<Rightarrow> nat \<Rightarrow> entry \<Rightarrow> rjson" where
  "event_json env index event =
     obj ([(''i'', RUInt index), (''kind'', RStr (event_kind event))] @ event_pairs env event)"

subsection \<open>Statistics, facts and attribution\<close>

definition counts_obj :: "(string \<times> nat) list \<Rightarrow> rjson" where
  "counts_obj counts = RObj (map (\<lambda>(k, n). (k, RUInt n)) counts)"

definition slowest_tools_json :: "slow_tool list \<Rightarrow> rjson" where
  "slowest_tools_json tools = RArr (map (\<lambda>t. obj
     [(''tool'', RStr (sl_tool t)), (''duration_ms'', RInt (sl_duration_ms t)), (''is_error'', RBool (sl_is_error t))]) tools)"

definition stats_json :: "stats \<Rightarrow> rjson" where
  "stats_json s = obj (
    [(''files'', RUInt (st_files s)),
     (''events'', RUInt (st_events s)),
     (''kinds'', counts_obj (st_kinds s)),
     (''models'', counts_obj (st_models s)),
     (''tools'', counts_obj (st_tools s)),
     (''tool_errors_by_name'', counts_obj (st_tool_errors_by_name s)),
     (''attachment_types'', counts_obj (st_attachment_types s)),
     (''text_chars'', RUInt (st_text_chars s)),
     (''thinking_chars'', RUInt (st_thinking_chars s)),
     (''tool_io_chars'', RUInt (st_tool_io_chars s)),
     (''sessions'', RUInt (st_sessions s)),
     (''first_timestamp'', opt_json RDatetime (st_first_timestamp s)),
     (''last_timestamp'', opt_json RDatetime (st_last_timestamp s)),
     (''interrupts'', RUInt (st_interrupts s)),
     (''tool_errors'', RUInt (st_tool_errors s))] @
    (case st_error_events s of Some ix \<Rightarrow> [(''error_events'', RArr (map RUInt ix))] | None \<Rightarrow> []) @
    [(''slowest_tools'', slowest_tools_json (st_slowest_tools s)), (''sidechain'', RUInt (st_sidechain s))])"

definition fact_json :: "tool_fact \<Rightarrow> rjson" where
  "fact_json f = obj
    [(''ts'', RDatetime (tf_ts f)),
     (''session_id'', RStr (tf_session_id f)),
     (''path'', RStr (tf_path f)),
     (''cwd'', opt_str_json (tf_cwd f)),
     (''tool_use_id'', RStr (tf_tool_use_id f)),
     (''tool'', RStr (tf_tool f)),
     (''command_prefixes'', str_arr (tf_command_prefixes f)),
     (''command'', opt_str_json (tf_command f)),
     (''mcp_server'', opt_str_json (tf_mcp_server f)),
     (''mcp_tool'', opt_str_json (tf_mcp_tool f)),
     (''mcp_access'', opt_str_json (tf_mcp_access f)),
     (''file_path'', opt_str_json (tf_file_path f)),
     (''file_paths'', str_arr (tf_file_paths f)),
     (''is_error'', RBool (tf_is_error f)),
     (''denied'', RBool (tf_denied f)),
     (''denial_kind'', opt_str_json (tf_denial_kind f)),
     (''user_said'', opt_str_json (tf_user_said f)),
     (''duration_ms'', opt_int_json (tf_duration_ms f))]"

definition denial_json :: "tool_fact \<Rightarrow> rjson" where
  "denial_json f = obj
    [(''ts'', RDatetime (tf_ts f)),
     (''session'', RStr (tf_session_id f)),
     (''path'', RStr (tf_path f)),
     (''tool'', RStr (tf_tool f)),
     (''command'', opt_str_json (tf_command f)),
     (''file_path'', opt_str_json (tf_file_path f)),
     (''denial_kind'', opt_str_json (tf_denial_kind f)),
     (''user_said'', opt_str_json (tf_user_said f))]"

text \<open>\<open>usize as i64\<close>.\<close>

definition nat_as_i64 :: "nat \<Rightarrow> int" where
  "nat_as_i64 n = (let m = n mod 2 ^ 64 in if m < 2 ^ 63 then int m else int m - 2 ^ 64)"

definition blame_json :: "session_write \<Rightarrow> rjson" where
  "blame_json w = obj
    [(''session_id'', RStr (sw_session_id w)),
     (''path'', RStr (sw_transcript_path w)),
     (''tree'', RStr (sw_tree w)),
     (''first_write_ts'', RDatetime (first_write_ts w)),
     (''last_write_ts'', RDatetime (last_write_ts w)),
     (''writes'', RInt (nat_as_i64 (sw_writes w))),
     (''tools'', str_arr (sw_tools w)),
     (''first_prompt'', opt_str_json (sw_first_prompt w))]"

definition verdict_name :: "verdict \<Rightarrow> string" where
  "verdict_name v = (case v of Claude _ _ \<Rightarrow> ''claude'' | Generated _ \<Rightarrow> ''generated'' | External \<Rightarrow> ''external'')"

definition evidence_json :: "write_evidence \<Rightarrow> rjson" where
  "evidence_json ev = obj
    [(''ts'', RDatetime (ev_ts ev)),
     (''tool'', RStr (ev_tool ev)),
     (''tool_use_id'', RStr (ev_tool_use_id ev)),
     (''tree'', RStr (ev_tree ev)),
     (''path'', RStr (ev_transcript_path ev))]"

definition candidate_json :: "generated_candidate \<Rightarrow> rjson" where
  "candidate_json c = obj
    [(''session_id'', RStr (gc_session_id c)), (''path'', RStr (gc_transcript_path c)),
     (''window_start'', RDatetime (window_start c)), (''window_end'', RDatetime (window_end c)),
     (''bash'', RArr (map (\<lambda>(ts, command). obj [(''ts'', RDatetime ts), (''command'', RStr command)]) (gc_bash c)))]"

definition attribute_json :: "verdict \<Rightarrow> string \<Rightarrow> datetime \<Rightarrow> rjson" where
  "attribute_json v rel_target mtime = obj (
    [(''file'', RStr rel_target), (''mtime'', RDatetime mtime), (''verdict'', RStr (verdict_name v))] @
    (case v of
       Claude sid ev \<Rightarrow> [(''session_id'', RStr sid), (''evidence'', evidence_json ev)]
     | Generated cs \<Rightarrow> [(''candidates'', RArr (map candidate_json cs))]
     | External \<Rightarrow> []))"

end
