(* ===== verification/RenderPrint.thy ===== *)
theory RenderPrint
  imports HaystackProps RenderViews
begin

text \<open>
  What the printers of \<^theory_text>\<open>RenderJson\<close> write is JSON: compact or indented, the text of a tree is
  read back by \<open>pyjson_loads\<close> as the tree a reader sees (\<open>seen\<close>: dates as their texts, decoded
  values with the duplicate keys collapsed), and the compact text stays on one line.
\<close>

subsection \<open>What a reader sees\<close>

definition number_seen :: "floats \<Rightarrow> string \<Rightarrow> rjson option" where
  "number_seen fl t = (if list_all number_byte t then
     (case number_value fl t of Inr v \<Rightarrow> Some v | Inl _ \<Rightarrow> None) else None)"

function value_seen :: "floats \<Rightarrow> json \<Rightarrow> rjson" where
  "value_seen fl JNull = RNull"
| "value_seen fl (JBool b) = RBool b"
| "value_seen fl (JNumber n) = opt_default RNull (Option.bind (format_number fl n False) (number_seen fl))"
| "value_seen fl (JString s) = RStr s"
| "value_seen fl (JArray xs) = RArr (map (value_seen fl) xs)"
| "value_seen fl (JObject ps) = RObj (map (\<lambda>(key, v). (key, value_seen fl v)) (deduped_pairs ps))"
  by pat_completeness auto
termination
  by (relation "measure (\<lambda>(fl, v). size v)")
    (auto dest: size_deduped_pair simp: less_Suc_eq_le size_list_estimation')

fun seen :: "floats \<Rightarrow> (datetime \<Rightarrow> string) \<Rightarrow> rjson \<Rightarrow> rjson" where
  "seen fl dt (RUInt u) = opt_default RNull (number_seen fl (dec_digits u))"
| "seen fl dt (RDatetime d) = RStr (dt d)"
| "seen fl dt (RValue v) = value_seen fl v"
| "seen fl dt (RArr xs) = RArr (map (seen fl dt) xs)"
| "seen fl dt (RObj ps) = RObj (map (\<lambda>(key, j). (key, seen fl dt j)) ps)"
| "seen fl dt j = j"

text \<open>A decoded value whose numbers have a text of JSON; a leaf that its Rust type allows. The
  projections hold no float and no long integer of their own.\<close>

fun readable_value :: "floats \<Rightarrow> json \<Rightarrow> bool" where
  "readable_value fl (JNumber n) = is_some_and (\<lambda>t. number_seen fl t \<noteq> None) (format_number fl n False)"
| "readable_value fl (JString s) = wf_text s"
| "readable_value fl (JArray xs) = list_all (readable_value fl) xs"
| "readable_value fl (JObject ps) = list_all (\<lambda>(key, v). wf_text key \<and> readable_value fl v) ps"
| "readable_value fl _ = True"

fun leaf_ok :: "floats \<Rightarrow> (datetime \<Rightarrow> string) \<Rightarrow> rjson \<Rightarrow> bool" where
  "leaf_ok fl dt (RInt i) = (- (2 ^ 63) \<le> i \<and> i < 2 ^ 63)"
| "leaf_ok fl dt (RStr s) = wf_text s"
| "leaf_ok fl dt (RDatetime d) = wf_text (dt d)"
| "leaf_ok fl dt (RValue v) = readable_value fl v"
| "leaf_ok fl dt (RFloat f) = False"
| "leaf_ok fl dt (RRawNum l) = False"
| "leaf_ok fl dt j = True"

fun leaves :: "rjson \<Rightarrow> rjson list" where
  "leaves (RArr xs) = concat (map leaves xs)"
| "leaves (RObj ps) = concat (map (\<lambda>(key, j). leaves j) ps)"
| "leaves j = [j]"

fun keyed :: "rjson \<Rightarrow> bool" where
  "keyed (RArr xs) = list_all keyed xs"
| "keyed (RObj ps) = (distinct (map fst ps) \<and> list_all (\<lambda>(key, j). wf_text key \<and> keyed j) ps)"
| "keyed j = True"

subsection \<open>Texts on one line\<close>

definition one_line :: "string \<Rightarrow> bool" where
  "one_line t \<longleftrightarrow> list_all (\<lambda>c. 32 \<le> (of_char c :: nat)) t"

lemma one_line_simps [simp]:
  "one_line []" "one_line (c # t) \<longleftrightarrow> 32 \<le> (of_char c :: nat) \<and> one_line t" "one_line (a @ b) \<longleftrightarrow> one_line a \<and> one_line b"
  by (simp_all add: one_line_def)

lemma one_line_join: "one_line d \<Longrightarrow> \<forall>t\<in>set ts. one_line t \<Longrightarrow> one_line (join d ts)"
  by (induction d ts rule: join.induct) auto

lemma hex_digit_line: "d < 16 \<Longrightarrow> 32 \<le> (of_char (hex_digit d) :: nat)"
  by (simp add: hex_digit_def)

lemma hex4_line: "one_line (hex4 u)"
  by (simp add: hex4_def hex_digit_line)

lemma short_line: "short_escape c = Some e \<Longrightarrow> 32 \<le> (of_char e :: nat)"
  by (auto simp: short_escape_def split: if_splits)

lemma continuation_line: "is_continuation c \<Longrightarrow> 32 \<le> (of_char c :: nat)"
  by (auto simp: is_continuation_def)

lemma esc_line:
  assumes "wf_char ch"
  shows "one_line (esc_char ch)"
proof -
  obtain c cs where ch: "ch = c # cs" "list_all is_continuation cs"
      "code_point ch < 128 \<longleftrightarrow> cs = []" "128 \<le> code_point ch \<longrightarrow> 192 \<le> (of_char c :: nat)"
    using wf_char_shape [OF assms] by blast
  have "one_line cs" using ch(2) continuation_line by (auto simp: one_line_def list_all_iff)
  then show ?thesis using ch by (cases cs) (auto simp: esc_char_def short_line hex4_line split: option.splits)
qed

lemma encoded_line: "wf_text s \<Longrightarrow> one_line (encode_string s)"
  using esc_line by (auto simp: encode_string_def encode_string_contents_def one_line_def wf_text_def list_all_iff)

lemma number_line: "list_all number_byte t \<Longrightarrow> one_line t"
  by (auto simp: one_line_def list_all_iff number_byte_def is_ascii_digit_def)

subsection \<open>Leaves are read\<close>

lemma read_esc:
  assumes "wf_char ch" "starts_char t"
  shows "pyjson_string n acc (esc_char ch @ t) = pyjson_string n (acc @ ch) t"
proof -
  obtain c cs where ch: "ch = c # cs" "\<not> is_continuation c" "list_all is_continuation cs"
      "code_point ch < 128 \<longleftrightarrow> cs = []" "128 \<le> code_point ch \<longrightarrow> 192 \<le> (of_char c :: nat)"
    using wf_char_shape [OF assms(1)] by blast
  show ?thesis
  proof (cases cs)
    case Nil
    then have "esc_char ch = escape_ascii ch" using ch(1) by (simp add: esc_char_def escape_ascii_def unit_escape_def split: option.splits)
    then show ?thesis using read_escape [OF assms] by simp
  next
    case (Cons d ds)
    then have "192 \<le> (of_char c :: nat)" "esc_char ch = c # cs" using ch by (simp_all add: esc_char_def)
    moreover have "c \<noteq> byte 34" "c \<noteq> byte 92" using calculation(1) by auto
    ultimately show ?thesis using read_raw [OF ch(2,3) _ _ _ assms(2)] ch(1) by simp
  qed
qed

lemma read_escs:
  "list_all wf_char cs \<Longrightarrow>
   pyjson_string n acc (concat (map esc_char cs) @ byte 34 # t) = Inr (acc @ concat cs, t)"
proof (induction cs arbitrary: acc)
  case (Cons ch cs)
  have "starts_char (concat (map esc_char cs) @ byte 34 # t)"
    using Cons.prems esc_starts [of "hd cs" "concat (map esc_char (tl cs)) @ byte 34 # t"]
    by (cases cs) (auto simp: starts_char_def is_continuation_def)
  then show ?case using Cons by (simp add: read_esc)
qed simp

lemma read_string: "wf_text s \<Longrightarrow> read_as fl (RStr s) (encode_string s)"
  using read_quoted [of "encode_string_contents s @ [byte 34]" s] read_escs [of "chars s" _ "[]"]
  by (simp add: encode_string_def encode_string_contents_def wf_text_def)

lemma read_seen: "number_seen fl t = Some v \<Longrightarrow> read_as fl v t \<and> one_line t"
  by (auto simp: number_seen_def read_number number_line split: if_splits sum.splits)

lemma digits_seen: "\<exists>v. number_seen fl (dec_digits u) = Some v"
proof -
  have t: "list_all number_byte (dec_digits u)" "pyjson_number_lexeme (dec_digits u)" "\<not> float_lexeme (dec_digits u)"
    using dec_int_lexeme [of "int u"] dec_int_no_float [of "int u"] by (simp_all add: dec_int_def)
  then show ?thesis by (simp add: number_seen_def number_value_def split: option.splits)
qed

subsection \<open>Decoded values\<close>

definition value_prints :: "floats \<Rightarrow> json \<Rightarrow> bool" where
  "value_prints fl v \<longleftrightarrow> (\<exists>t. write_orjson fl v = Some t \<and> read_as fl (value_seen fl v) t \<and> one_line t) \<and>
     (\<forall>depth. \<exists>p. write_orjson_pretty fl v depth = Some p \<and> read_as fl (value_seen fl v) p)"

lemma blanks_indent: "blanks (indent depth)" "blanks (byte 10 # indent depth)"
  by (auto simp: indent_def blanks_def)

lemma pretty_join: "pretty_lines a b depth ts = a @ (byte 10 # indent (depth + 1)) @
    join (CHR '','' # byte 10 # indent (depth + 1)) ts @ (byte 10 # indent depth) @ b" if "ts \<noteq> []"
proof -
  have "indent (depth + 1) @ join (CHR '','' # byte 10 # indent (depth + 1)) ts =
      join ('','' @ [byte 10]) (map (\<lambda>t. indent (depth + 1) @ t) ts)"
    using that
  proof (induction ts)
    case (Cons t ts)
    then show ?case by (cases ts) (simp_all add: join_Cons_ne)
  qed simp
  then show ?thesis by (simp add: pretty_lines_def)
qed

lemma array_prints:
  assumes "\<forall>x\<in>set xs. \<exists>t. w x = Some t \<and> read_as fl (g x) t \<and> one_line t"
  shows "\<exists>t. map_option (\<lambda>ts. ''['' @ join '','' ts @ '']'') (those (map w xs)) = Some t \<and>
    read_as fl (RArr (map g xs)) t \<and> one_line t"
proof -
  obtain ts where ts: "list_all2 (\<lambda>x t. w x = Some t \<and> read_as fl (g x) t \<and> one_line t) xs ts"
    using list_all2_ex [OF assms] by (elim exE)
  have w: "those (map w xs) = Some ts" by (rule those_all2 [OF list_all2_mono [OF ts]]) simp
  have "list_all2 (read_as fl) (map g xs) ts" unfolding list_all2_map1 using ts by (rule list_all2_mono) simp
  then have "read_as fl (RArr (map g xs)) (''['' @ join '','' ts @ '']'')" using read_array [of fl _ ts "[]" "[]" "[]"] by simp
  moreover have "\<forall>t\<in>set ts. one_line t" using list_all2_right [OF ts] by blast
  ultimately show ?thesis using w one_line_join [of "'',''" ts] by simp
qed

lemma array_pretty:
  assumes "\<forall>x\<in>set xs. \<exists>t. w x = Some t \<and> read_as fl (g x) t" "xs \<noteq> []"
  shows "\<exists>t. map_option (pretty_lines ''['' '']'' depth) (those (map w xs)) = Some t \<and> read_as fl (RArr (map g xs)) t"
proof -
  obtain ts where ts: "list_all2 (\<lambda>x t. w x = Some t \<and> read_as fl (g x) t) xs ts"
    using list_all2_ex [OF assms(1)] by (elim exE)
  have w: "those (map w xs) = Some ts" by (rule those_all2 [OF list_all2_mono [OF ts]]) simp
  have "list_all2 (read_as fl) (map g xs) ts" unfolding list_all2_map1 using ts by (rule list_all2_mono) simp
  moreover have "ts \<noteq> []" using ts assms(2) by auto
  ultimately have "read_as fl (RArr (map g xs)) (pretty_lines ''['' '']'' depth ts)"
    unfolding pretty_join [OF \<open>ts \<noteq> []\<close>] by (intro read_array blanks_indent)
  then show ?thesis using w by simp
qed

definition member_prints :: "floats \<Rightarrow> ('a \<Rightarrow> string option) \<Rightarrow> ('a \<Rightarrow> rjson) \<Rightarrow> bool \<Rightarrow> string \<times> 'a \<Rightarrow> bool" where
  "member_prints fl w g line p \<longleftrightarrow> wf_text (fst p) \<and>
     (\<exists>t. w (snd p) = Some t \<and> read_as fl (g (snd p)) t \<and> (line \<longrightarrow> one_line t))"

lemma members_print:
  assumes "\<forall>p\<in>set ps. member_prints fl w g line p" "blanks c" "line \<longrightarrow> one_line c"
  shows "\<exists>ts. those (map (\<lambda>(key, item). map_option (\<lambda>t. encode_string key @ (CHR '':'' # c) @ t) (w item)) ps) = Some ts \<and>
    list_all2 (member_as fl) (map (\<lambda>(key, item). (key, g item)) ps) ts \<and> (line \<longrightarrow> (\<forall>t\<in>set ts. one_line t))"
proof -
  have ex: "\<forall>p\<in>set ps. \<exists>t. (case p of (key, item) \<Rightarrow> map_option (\<lambda>t. encode_string key @ (CHR '':'' # c) @ t) (w item)) = Some t \<and>
      member_as fl (case p of (key, item) \<Rightarrow> (key, g item)) t \<and> (line \<longrightarrow> one_line t)"
  proof
    fix p assume p: "p \<in> set ps"
    obtain key item where k: "p = (key, item)" by (cases p)
    obtain t where t: "w item = Some t" "read_as fl (g item) t" "line \<longrightarrow> one_line t" "wf_text key"
      using assms(1) p k by (auto simp: member_prints_def)
    have "member_as fl (key, g item) (encode_string key @ CHR '':'' # c @ t)"
      unfolding member_as_def using read_string [OF t(4)] t(2) assms(2) by auto
    moreover have "line \<longrightarrow> one_line (encode_string key @ CHR '':'' # c @ t)" using t(3) assms(3) encoded_line [OF t(4)] by simp
    ultimately show "\<exists>t. (case p of (key, item) \<Rightarrow> map_option (\<lambda>t. encode_string key @ (CHR '':'' # c) @ t) (w item)) = Some t \<and>
      member_as fl (case p of (key, item) \<Rightarrow> (key, g item)) t \<and> (line \<longrightarrow> one_line t)"
      unfolding k using t(1) by simp
  qed
  obtain ts where ts: "list_all2 (\<lambda>p t. (case p of (key, item) \<Rightarrow>
      map_option (\<lambda>t. encode_string key @ (CHR '':'' # c) @ t) (w item)) = Some t \<and>
      member_as fl (case p of (key, item) \<Rightarrow> (key, g item)) t \<and> (line \<longrightarrow> one_line t)) ps ts"
    using list_all2_ex [OF ex] by (elim exE)
  show ?thesis
  proof (intro exI conjI impI ballI)
    show "those (map (\<lambda>(key, item). map_option (\<lambda>t. encode_string key @ (CHR '':'' # c) @ t) (w item)) ps) = Some ts"
      by (rule those_all2 [OF list_all2_mono [OF ts]]) simp
    show "list_all2 (member_as fl) (map (\<lambda>(key, item). (key, g item)) ps) ts"
      unfolding list_all2_map1 using ts by (rule list_all2_mono) simp
    show "one_line t" if "line" "t \<in> set ts" for t using list_all2_right [OF ts that(2)] that(1) by blast
  qed
qed

lemma map_pair_keys: "map (fst \<circ> (\<lambda>(key, item). (key, g item))) ps = map fst ps"
  by (induction ps) auto

lemma object_prints:
  assumes "\<forall>p\<in>set ps. member_prints fl w g True p" "distinct (map fst ps)"
  shows "\<exists>t. map_option (\<lambda>ts. ''{'' @ join '','' ts @ ''}'')
      (those (map (\<lambda>(key, item). map_option (\<lambda>t. encode_string key @ '':'' @ t) (w item)) ps)) = Some t \<and>
    read_as fl (RObj (map (\<lambda>(key, item). (key, g item)) ps)) t \<and> one_line t"
proof -
  obtain ts where ts: "those (map (\<lambda>(key, item). map_option (\<lambda>t. encode_string key @ '':'' @ t) (w item)) ps) = Some ts"
      "list_all2 (member_as fl) (map (\<lambda>(key, item). (key, g item)) ps) ts" "\<forall>t\<in>set ts. one_line t"
    using members_print [OF assms(1), of "[]"] by auto
  have "read_as fl (RObj (map (\<lambda>(key, item). (key, g item)) ps)) (''{'' @ join '','' ts @ ''}'')"
    using read_object [OF ts(2), of "[]" "[]" "[]"] assms(2) by (simp add: map_pair_keys)
  then show ?thesis using ts(1,3) one_line_join [of "'',''" ts] by simp
qed

lemma object_pretty:
  assumes "\<forall>p\<in>set ps. member_prints fl w g False p" "distinct (map fst ps)" "ps \<noteq> []"
  shows "\<exists>t. map_option (pretty_lines ''{'' ''}'' depth)
      (those (map (\<lambda>(key, item). map_option (\<lambda>t. encode_string key @ '': '' @ t) (w item)) ps)) = Some t \<and>
    read_as fl (RObj (map (\<lambda>(key, item). (key, g item)) ps)) t"
proof -
  obtain ts where ts: "those (map (\<lambda>(key, item). map_option (\<lambda>t. encode_string key @ '': '' @ t) (w item)) ps) = Some ts"
      "list_all2 (member_as fl) (map (\<lambda>(key, item). (key, g item)) ps) ts"
    using members_print [OF assms(1), of "'' ''"] by auto
  have ne: "ts \<noteq> []" using ts(2) assms(3) by auto
  have "read_as fl (RObj (map (\<lambda>(key, item). (key, g item)) ps)) (pretty_lines ''{'' ''}'' depth ts)"
    unfolding pretty_join [OF ne] using assms(2) by (intro read_object blanks_indent ts(2)) (simp add: map_pair_keys)
  then show ?thesis using ts(1) by simp
qed

lemma readable_prints: "readable_value fl v \<Longrightarrow> value_prints fl v"
proof (induction v)
  case JNull
  then show ?case using read_literal(1) by (simp add: value_prints_def)
next
  case (JBool b)
  then show ?case using read_literal(2,3) by (cases b) (simp_all add: value_prints_def)
next
  case (JNumber n)
  then obtain t v where t: "format_number fl n False = Some t" "number_seen fl t = Some v"
    by (cases "format_number fl n False") auto
  then show ?case using read_seen [OF t(2)] by (simp add: value_prints_def)
next
  case (JString s)
  then show ?case using read_string encoded_line by (simp add: value_prints_def)
next
  case (JArray xs)
  have IH: "value_prints fl x" if "x \<in> set xs" for x using JArray that by (simp add: list_all_iff)
  have line: "\<exists>t. write_orjson fl (JArray xs) = Some t \<and> read_as fl (value_seen fl (JArray xs)) t \<and> one_line t"
    unfolding write_orjson.simps value_seen.simps by (rule array_prints) (use IH in \<open>simp add: value_prints_def\<close>)
  have "\<exists>p. write_orjson_pretty fl (JArray xs) depth = Some p \<and> read_as fl (value_seen fl (JArray xs)) p" for depth
  proof (cases "xs = []")
    case True
    then show ?thesis using line by auto
  next
    case False
    then show ?thesis unfolding write_orjson_pretty.simps value_seen.simps if_not_P [OF False]
      by (intro array_pretty) (use IH in \<open>simp_all add: value_prints_def\<close>)
  qed
  with line show ?case by (simp add: value_prints_def)
next
  case (JObject ps)
  have IH: "value_prints fl (snd p) \<and> wf_text (fst p)" if "p \<in> set (deduped_pairs ps)" for p
  proof -
    have p: "p \<in> set ps" using that deduped_pairs_subset by blast
    then have "readable_value fl (snd p)" "wf_text (fst p)" using JObject.prems by (auto simp: list_all_iff)
    then show ?thesis using JObject.IH [OF p, of "snd p"] by (cases p) simp
  qed
  have d: "distinct (map fst (deduped_pairs ps))" by (simp add: deduped_pairs_def distinct_od_of)
  have line: "\<exists>t. write_orjson fl (JObject ps) = Some t \<and> read_as fl (value_seen fl (JObject ps)) t \<and> one_line t"
    unfolding write_orjson.simps value_seen.simps
    by (rule object_prints [OF _ d]) (use IH in \<open>simp add: value_prints_def member_prints_def\<close>)
  have "\<exists>p. write_orjson_pretty fl (JObject ps) depth = Some p \<and> read_as fl (value_seen fl (JObject ps)) p" for depth
  proof (cases "ps = []")
    case True
    then show ?thesis using line by auto
  next
    case False
    have "deduped_pairs ps \<noteq> []"
    proof
      assume "deduped_pairs ps = []"
      then have "map_of (rev ps) = Map.empty" using map_of_od_of [of ps] by (simp add: deduped_pairs_def)
      then show False using False by (cases ps rule: rev_cases) (auto simp: fun_eq_iff split: if_splits)
    qed
    then show ?thesis unfolding write_orjson_pretty.simps value_seen.simps if_not_P [OF False]
      by (intro object_pretty d) (use IH in \<open>simp_all add: value_prints_def member_prints_def\<close>)
  qed
  with line show ?case by (simp add: value_prints_def)
qed

subsection \<open>Trees\<close>

definition prints :: "floats \<Rightarrow> (datetime \<Rightarrow> string) \<Rightarrow> rjson \<Rightarrow> bool" where
  "prints fl dt j \<longleftrightarrow> (\<exists>t. json_write fl dt j = Some t \<and> read_as fl (seen fl dt j) t \<and> one_line t) \<and>
     (\<forall>depth. \<exists>p. json_write_pretty fl dt depth j = Some p \<and> read_as fl (seen fl dt j) p)"

lemma tree_prints: "keyed j \<Longrightarrow> \<forall>l\<in>set (leaves j). leaf_ok fl dt l \<Longrightarrow> prints fl dt j"
proof (induction j)
  case RNull
  then show ?case using read_literal(1) [of fl] by (simp add: prints_def)
next
  case (RBool b)
  then show ?case using read_literal(2,3) [of fl] by (cases b) (simp_all add: prints_def)
next
  case (RInt i)
  then have "number_seen fl (dec_int i) = Some (RInt i)"
    using read_dec_int [of i fl] dec_int_lexeme [of i] by (simp add: number_seen_def)
  then show ?case using read_seen by (simp add: prints_def)
next
  case (RUInt u)
  obtain v where v: "number_seen fl (dec_digits u) = Some v" using digits_seen by blast
  then show ?case using read_seen [OF v] v by (simp add: prints_def)
next
  case (RStr s)
  then show ?case using read_string encoded_line by (simp add: prints_def)
next
  case (RDatetime d)
  then show ?case using read_string encoded_line by (simp add: prints_def)
next
  case (RValue v)
  then show ?case using readable_prints [of fl v] by (simp add: prints_def value_prints_def)
next
  case (RArr xs)
  have IH: "prints fl dt x" if "x \<in> set xs" for x using RArr that by (simp add: list_all_iff)
  have line: "\<exists>t. json_write fl dt (RArr xs) = Some t \<and> read_as fl (seen fl dt (RArr xs)) t \<and> one_line t"
    unfolding json_write.simps seen.simps by (rule array_prints) (use IH in \<open>simp add: prints_def\<close>)
  have "\<exists>p. json_write_pretty fl dt depth (RArr xs) = Some p \<and> read_as fl (seen fl dt (RArr xs)) p" for depth
  proof (cases "xs = []")
    case True
    then show ?thesis using line by auto
  next
    case False
    then show ?thesis unfolding json_write_pretty.simps seen.simps if_not_P [OF False]
      by (intro array_pretty) (use IH in \<open>simp_all add: prints_def\<close>)
  qed
  with line show ?case by (simp add: prints_def)
next
  case (RObj ps)
  have d: "distinct (map fst ps)" using RObj.prems by simp
  have IH: "prints fl dt (snd p) \<and> wf_text (fst p)" if "p \<in> set ps" for p
    using RObj.IH [OF that, of "snd p"] RObj.prems that by (cases p) (auto simp: list_all_iff)
  have line: "\<exists>t. json_write fl dt (RObj ps) = Some t \<and> read_as fl (seen fl dt (RObj ps)) t \<and> one_line t"
    unfolding json_write.simps seen.simps
    by (rule object_prints [OF _ d]) (use IH in \<open>simp add: prints_def member_prints_def\<close>)
  have "\<exists>p. json_write_pretty fl dt depth (RObj ps) = Some p \<and> read_as fl (seen fl dt (RObj ps)) p" for depth
  proof (cases "ps = []")
    case True
    then show ?thesis using line by auto
  next
    case False
    then show ?thesis unfolding json_write_pretty.simps seen.simps if_not_P [OF False]
      by (intro object_pretty d) (use IH in \<open>simp_all add: prints_def member_prints_def\<close>)
  qed
  with line show ?case by (simp add: prints_def)
qed simp_all

text \<open>What is printed, compact or indented, is read as the tree that is seen.\<close>

lemma printed_read:
  assumes "keyed j" "\<forall>l\<in>set (leaves j). leaf_ok fl dt l"
  shows "\<exists>line block. json_dumps fl dt j = Some line \<and> json_dumps_pretty fl dt j = Some block \<and> one_line line \<and>
    pyjson_loads fl line = Some (Inr (seen fl dt j)) \<and> pyjson_loads fl block = Some (Inr (seen fl dt j))"
  using tree_prints [OF assms] read_loads unfolding prints_def json_dumps_def json_dumps_pretty_def by blast

end
