(* ===== verification/RenderViewProps.thy ===== *)
theory RenderViewProps
  imports RenderPrint
begin

text \<open>
  The projection of an entry is printed as JSON: its keys are distinct in every object, so what the
  command line writes for an entry is read back as its projection.
\<close>

subsection \<open>Keys\<close>

lemma wf_ascii_text: "list_all (\<lambda>c. (of_char c :: nat) < 128) s \<Longrightarrow> wf_text s"
proof (induction s)
  case (Cons c s)
  then have "starts_char s" by (cases s) (auto simp: starts_char_def is_continuation_def)
  then show ?case using Cons starts_takeWhile [of s] by (simp add: wf_text_Cons wf_ascii)
qed simp

lemma keyed_obj: "keyed (obj ps) \<longleftrightarrow> distinct (map fst ps) \<and> list_all (\<lambda>p. wf_text (fst p)) ps \<and> list_all (\<lambda>p. keyed (snd p)) ps"
  by (auto simp: obj_def list_all_iff)

lemma keyed_options [simp]:
  "keyed (opt_str_json v1)" "keyed (opt_int_json v2)" "keyed (opt_bool_json v3)" "keyed (opt_value_json v4)" "keyed (str_arr v5)"
  by (simp_all add: opt_str_json_def opt_int_json_def opt_bool_json_def opt_value_json_def str_arr_def list_all_iff split: option.splits)

lemma keyed_opt_json [intro]: "(\<And>x. keyed (f x)) \<Longrightarrow> keyed (opt_json f v)"
  by (simp add: opt_json_def split: option.splits)

lemma keyed_map: "(\<And>x. keyed (f x)) \<Longrightarrow> keyed (RArr (map f xs))"
  by (simp add: list_all_iff)

named_theorems keyed_parts

lemma keyed_meta [keyed_parts]: "keyed (meta_json m)"
  by (simp add: meta_json_def keyed_obj wf_ascii_text)

lemma keyed_block [keyed_parts]: "keyed (block_json b)"
  by (cases b) (simp_all add: block_json_def keyed_obj wf_ascii_text)

lemma keyed_blocks [keyed_parts]: "keyed (blocks_json bs)" "keyed (user_blocks_json bs)"
  unfolding blocks_json_def user_blocks_json_def by (rule keyed_map keyed_block)+

lemma keyed_usage [keyed_parts]: "keyed (usage_json u)"
proof -
  have "keyed (cache_creation_json c)" "keyed (server_tool_use_json s)" for c s
    by (simp_all add: cache_creation_json_def server_tool_use_json_def keyed_obj wf_ascii_text)
  then have "keyed (opt_json cache_creation_json c)" "keyed (opt_json server_tool_use_json s)" for c s by blast+
  then show ?thesis by (simp add: usage_json_def keyed_obj wf_ascii_text)
qed

lemma keyed_small [keyed_parts]: "keyed (attribution_json a)" "keyed (api_error_json e)" "keyed (hook_info_json h)"
  by (simp_all add: attribution_json_def api_error_json_def hook_info_json_def keyed_obj wf_ascii_text)

lemma keyed_system [keyed_parts]: "keyed (system_detail_json d)"
proof (cases d)
  case (SDStopHookSummary s)
  have "keyed (RArr (map hook_info_json xs))" for xs by (rule keyed_map keyed_small)+
  then show ?thesis unfolding SDStopHookSummary by (simp add: system_detail_json_def stop_hook_summary_json_def keyed_obj wf_ascii_text del: keyed.simps(1))
next
  case (SDCompactBoundary c)
  have "keyed (preserved_segment_json x)" "keyed (preserved_messages_json y)" for x y
    by (simp_all add: preserved_segment_json_def preserved_messages_json_def keyed_obj wf_ascii_text)
  then have "keyed (opt_json preserved_segment_json x)" "keyed (opt_json preserved_messages_json y)" for x y by blast+
  then show ?thesis using SDCompactBoundary by (simp add: system_detail_json_def compact_boundary_json_def keyed_obj wf_ascii_text)
qed (simp_all add: system_detail_json_def turn_duration_json_def model_refusal_fallback_json_def keyed_obj wf_ascii_text)

lemma keyed_attachment [keyed_parts]: "keyed (attachment_detail_json d)"
  by (cases d) (simp_all add: attachment_detail_json_def keyed_obj wf_ascii_text)

lemma keyed_event: "keyed (event_json env index event)"
proof (cases event)
  case (User u)
  have "keyed (opt_json (\<lambda>ids. RArr (map RInt ids)) v)" for v by (intro keyed_opt_json keyed_map) simp
  then show ?thesis using User keyed_parts by (simp add: event_json_def event_pairs_def keyed_obj wf_ascii_text)
next
  case (Assistant a)
  have "keyed (opt_json usage_json x)" "keyed (opt_json attribution_json y)" "keyed (opt_json api_error_json z)" for x y z
    using keyed_parts by blast+
  then show ?thesis using Assistant keyed_parts by (simp add: event_json_def event_pairs_def keyed_obj wf_ascii_text)
qed (simp_all add: event_json_def event_pairs_def keyed_obj wf_ascii_text keyed_parts)

subsection \<open>The property\<close>

text \<open>C39: What the command line prints for an entry is JSON. The compact form stays on one line
  (nothing in it is a control character), and both the compact and the indented form are read back
  by the JSON reader as the same tree: the projection of the entry, its timestamps as their texts, its
  decoded values with duplicate keys collapsed. The leaves are what their types allow: texts in
  UTF-8, integers of 64 bits, decoded numbers with a text of JSON.\<close>

theorem entry_prints_as_json:
  assumes "\<forall>leaf\<in>set (leaves (event_json env index event)). leaf_ok fl (format_datetime cal) leaf"
  shows "\<exists>line block.
    json_dumps fl (format_datetime cal) (event_json env index event) = Some line \<and>
    json_dumps_pretty fl (format_datetime cal) (event_json env index event) = Some block \<and>
    list_all (\<lambda>c. 32 \<le> (of_char c :: nat)) line \<and>
    pyjson_loads fl line = Some (Inr (seen fl (format_datetime cal) (event_json env index event))) \<and>
    pyjson_loads fl block = Some (Inr (seen fl (format_datetime cal) (event_json env index event)))"
  using printed_read [OF keyed_event assms] by (simp add: one_line_def)

subsection \<open>A witness\<close>

definition sample_calendar :: calendar where
  "sample_calendar = \<lparr>cal_time = (\<lambda>_. ''03:04:05''), cal_span = (\<lambda>_. ''2026-01-02 03:04:05''),
     cal_iso = (\<lambda>_. ''2026-01-02T03:04:05''), cal_offset = (\<lambda>_. ''+00:00''), cal_tenths = (\<lambda>_ _. ''0.0'')\<rparr>"

definition sample_notice :: entry where
  "sample_notice = System \<lparr>
     se_meta = \<lparr>uuid = ''u1'', parent_uuid = None, em_session_id = ''s1'',
       timestamp = \<lparr>dt_secs = 1767323045, dt_nanos = 6000000, dt_offset = 0\<rparr>, em_cwd = Some ''/tmp'', git_branch = None,
       version = None, is_sidechain = False, is_meta = True, entrypoint = None, is_compact_summary = False,
       is_visible_in_transcript_only = False, user_type = None, slug = None\<rparr>,
     subtype = ''note'', se_content = Some [byte 10, byte 195, byte 169], level = None,
     se_detail = SDOther (JObject [(''k'', JNull), (''k'', JArray [JBool True])])\<rparr>"

lemma sample_wf: "wf_text [byte 10, byte 195, byte 169]"
  by (simp add: wf_text_def is_continuation_def wf_char_def code_point_def is_scalar_def utf8_of_def)

theorem entry_prints_as_json_witness:
  "\<exists>line block.
    json_dumps half_floats (format_datetime sample_calendar) (event_json (sample_env []) 7 sample_notice) = Some line \<and>
    json_dumps_pretty half_floats (format_datetime sample_calendar) (event_json (sample_env []) 7 sample_notice) = Some block \<and>
    list_all (\<lambda>c. 32 \<le> (of_char c :: nat)) line \<and>
    pyjson_loads half_floats line =
      Some (Inr (seen half_floats (format_datetime sample_calendar) (event_json (sample_env []) 7 sample_notice))) \<and>
    pyjson_loads half_floats block =
      Some (Inr (seen half_floats (format_datetime sample_calendar) (event_json (sample_env []) 7 sample_notice)))"
proof (rule entry_prints_as_json)
  have micros: "dec_digits 6000 = [byte 54, byte 48, byte 48, byte 48]" by (simp add: dec_digits.simps Let_def)
  have pad: "replicate 2 (CHR ''0'') = ''00''" by (simp add: numeral_2_eq_2)
  have digits: "wf_text (format_datetime sample_calendar \<lparr>dt_secs = 1767323045, dt_nanos = 6000000, dt_offset = 0\<rparr>)"
    by (simp add: format_datetime_def sample_calendar_def wf_ascii_text micros pad)
  show "\<forall>leaf\<in>set (leaves (event_json (sample_env []) 7 sample_notice)). leaf_ok half_floats (format_datetime sample_calendar) leaf"
    using sample_wf digits
    by (simp add: event_json_def event_pairs_def sample_notice_def event_kind_def obj_def meta_json_def system_detail_json_def
        opt_str_json_def wf_ascii_text)
qed

end
