(* ===== verification/RenderStatsProps.thy ===== *)
theory RenderStatsProps
  imports RenderStats
begin

text \<open>
  The statistics of a corpus, folded transcript by transcript and merged, are those counted over all
  entries at once.
\<close>

subsection \<open>Counters\<close>

definition tally :: "string list \<Rightarrow> tallies" where
  "tally xs = foldl tallies_add tallies_new xs"

definition seen_order :: "string list \<Rightarrow> string list" where
  "seen_order xs = rev (remdups (rev xs))"

definition ranked :: "string list \<Rightarrow> (string \<times> nat) list" where
  "ranked xs = stable_sort (by_key_desc snd) (map (\<lambda>k. (k, count_list xs k)) (seen_order xs))"

lemma seen_order_simps [simp]:
  "seen_order [] = []" "seen_order (xs @ [x]) = (if x \<in> set xs then seen_order xs else seen_order xs @ [x])"
  "set (seen_order xs) = set xs" "distinct (seen_order xs)"
  by (simp_all add: seen_order_def)

lemma seen_order_append: "seen_order (xs @ ys) = seen_order xs @ filter (\<lambda>y. y \<notin> set xs) (seen_order ys)"
proof (induction ys rule: rev_induct)
  case (snoc y ys)
  have "seen_order (xs @ ys @ [y]) = seen_order ((xs @ ys) @ [y])" by simp
  also have "\<dots> = seen_order xs @ filter (\<lambda>y. y \<notin> set xs) (seen_order (ys @ [y]))"
    unfolding seen_order_simps(2) snoc by simp
  finally show ?case .
qed simp

lemma tally_snoc [simp]: "tally [] = tallies_new" "tally (xs @ [x]) = tallies_add (tally xs) x"
  by (simp_all add: tally_def)

lemma tally_eq: "tally xs = \<lparr>tc_order = seen_order xs, tc_counts = (\<lambda>k. if k \<in> set xs then Some (count_list xs k) else None)\<rparr>"
proof (induction xs rule: rev_induct)
  case Nil
  then show ?case by (auto simp: tallies_new_def)
next
  case (snoc x xs)
  then show ?case by (auto simp: tallies_add_def tallies_bump_def fun_eq_iff)
qed

lemma ranked_tally: "tallies_ranked (tally xs) = ranked xs"
proof -
  have "map (\<lambda>k. (k, the (tc_counts (tally xs) k))) (seen_order xs) = map (\<lambda>k. (k, count_list xs k)) (seen_order xs)"
    by (rule map_cong) (simp_all add: tally_eq)
  moreover have "tc_order (tally xs) = seen_order xs" by (simp add: tally_eq)
  ultimately show ?thesis by (simp only: tallies_ranked_def ranked_def)
qed

lemma bump_all:
  "distinct ks \<Longrightarrow> foldl (\<lambda>c k. tallies_bump k (n k) c) c ks =
    \<lparr>tc_order = tc_order c @ filter (\<lambda>k. tc_counts c k = None) ks,
     tc_counts = (\<lambda>k. if k \<in> set ks then Some (opt_default 0 (tc_counts c k) + n k) else tc_counts c k)\<rparr>"
proof (induction ks rule: rev_induct)
  case (snoc k ks)
  then show ?case by (auto simp: tallies_bump_def fun_eq_iff split: option.splits)
qed simp

lemma merge_tally: "tallies_merge (tally xs) (tally ys) = tally (xs @ ys)"
  unfolding tallies_merge_def tally_eq
  by (simp add: bump_all seen_order_append fun_eq_iff)

subsection \<open>The first of the least\<close>

definition pick :: "('a \<Rightarrow> int) \<Rightarrow> 'a option \<Rightarrow> 'a \<Rightarrow> 'a option" where
  "pick r seen x = Some (opt_default x (opt_filter (\<lambda>y. r y \<le> r x) seen))"

definition first_least :: "('a \<Rightarrow> int) \<Rightarrow> 'a list \<Rightarrow> 'a option" where
  "first_least r xs = List.find (\<lambda>x. list_all (\<lambda>y. r x \<le> r y) xs) xs"

lemma pick_earliest: "earliest = pick dt_instant"
  by (simp add: fun_eq_iff earliest_def pick_def)

lemma pick_latest: "latest = pick (\<lambda>t. - dt_instant t)"
  by (simp add: fun_eq_iff latest_def pick_def)

lemma pick_merge:
  "(case foldl (pick r) None ys of None \<Rightarrow> s | Some y \<Rightarrow> pick r s y) = foldl (pick r) s ys"
proof (induction ys rule: rev_induct)
  case (snoc y ys)
  show ?case unfolding foldl_append foldl.simps snoc [symmetric]
    by (cases "foldl (pick r) None ys"; cases s) (auto simp: pick_def)
qed simp

lemma pick_least:
  "foldl (pick r) None xs = first_least r xs \<and>
   (case first_least r xs of None \<Rightarrow> xs = [] | Some m \<Rightarrow> list_all (\<lambda>y. r m \<le> r y) xs)"
proof (induction xs rule: rev_induct)
  case (snoc x xs)
  show ?case
  proof (cases "first_least r xs")
    case None
    then show ?thesis using snoc by (simp add: first_least_def pick_def)
  next
    case (Some m)
    then have m: "list_all (\<lambda>y. r m \<le> r y) xs" using snoc by simp
    show ?thesis
    proof (cases "r m \<le> r x")
      case True
      have "List.find (\<lambda>z. list_all (\<lambda>y. r z \<le> r y) xs \<and> r z \<le> r x) ys = List.find (\<lambda>z. list_all (\<lambda>y. r z \<le> r y) xs) ys"
        if "set ys \<subseteq> set xs" for ys
        using that
      proof (induction ys)
        case (Cons z zs)
        have "m \<in> set xs" using Some by (auto simp: first_least_def find_Some_iff)
        then have "r z \<le> r x" if "list_all (\<lambda>y. r z \<le> r y) xs" using that True by (force simp: list_all_iff)
        then show ?case using Cons by auto
      qed simp
      then have "first_least r (xs @ [x]) = Some m"
        using Some by (simp add: first_least_def find_append)
      then show ?thesis using snoc Some True m by (simp add: pick_def)
    next
      case False
      have "List.find (\<lambda>z. list_all (\<lambda>y. r z \<le> r y) xs \<and> r z \<le> r x) xs = None"
        using m False by (force simp: find_None_iff list_all_iff)
      then have "first_least r (xs @ [x]) = Some x"
        using m False by (simp add: first_least_def find_append) (auto simp: list_all_iff)
      then show ?thesis using snoc Some False m by (auto simp: pick_def list_all_iff)
    qed
  qed
qed (simp add: first_least_def)

subsection \<open>Counting over the entries\<close>

definition stat_results :: "entry \<Rightarrow> tool_result_block list" where
  "stat_results e = (case e of User u \<Rightarrow> user_tool_results u | _ \<Rightarrow> [])"

definition stat_uses :: "entry \<Rightarrow> tool_use_block list" where
  "stat_uses e = (case e of Assistant a \<Rightarrow> List.map_filter block_tool_use (as_blocks a) | _ \<Rightarrow> [])"

definition stat_thoughts :: "entry \<Rightarrow> string list" where
  "stat_thoughts e = (case e of Assistant a \<Rightarrow> thinking_texts (as_blocks a) | _ \<Rightarrow> [])"

definition stat_model :: "entry \<Rightarrow> string option" where
  "stat_model e = (case e of Assistant a \<Rightarrow> Some (as_model a) | _ \<Rightarrow> None)"

definition stat_attachment :: "entry \<Rightarrow> string option" where
  "stat_attachment e = (case e of Attachment a \<Rightarrow> Some (attachment_type a) | _ \<Rightarrow> None)"

definition stat_interrupt :: "env \<Rightarrow> entry \<Rightarrow> bool" where
  "stat_interrupt env e = (case e of User u \<Rightarrow> user_interrupted env u | _ \<Rightarrow> False)"

text \<open>The names of the calls made so far, by their ids; a failure counts under the name its call
  had when it came.\<close>

definition note_name :: "(string \<rightharpoonup> string) \<Rightarrow> tool_use_block \<Rightarrow> (string \<rightharpoonup> string)" where
  "note_name m tu = m(tu_id tu \<mapsto> tu_name tu)"

definition names_of :: "entry list \<Rightarrow> (string \<rightharpoonup> string)" where
  "names_of es = foldl note_name Map.empty (concat (map stat_uses es))"

definition failures :: "(string \<rightharpoonup> string) \<Rightarrow> tool_result_block list \<Rightarrow> string list" where
  "failures names rs = List.map_filter (\<lambda>r. if tr_is_error r then names (tr_tool_use_id r) else None) rs"

definition failed_names :: "entry list \<Rightarrow> string list" where
  "failed_names es = concat (map (\<lambda>i. failures (names_of (take i es)) (stat_results (es ! i))) [0..<length es])"

definition error_indexes :: "entry list \<Rightarrow> nat list" where
  "error_indexes es = filter (\<lambda>i. list_ex tr_is_error (stat_results (es ! i))) [0..<length es]"

definition input_texts :: "floats \<Rightarrow> entry list \<Rightarrow> string list option" where
  "input_texts fl es = those (map (\<lambda>tu. orjson_dumps fl (tu_input tu)) (concat (map stat_uses es)))"

definition result_chars :: "entry list \<Rightarrow> nat" where
  "result_chars es = sum_list (map (\<lambda>r. char_len (tr_content r)) (concat (map stat_results es)))"

definition io_chars :: "floats \<Rightarrow> entry list \<Rightarrow> nat option" where
  "io_chars fl es = map_option (\<lambda>ts. result_chars es + sum_list (map length ts)) (input_texts fl es)"

definition stamps :: "entry list \<Rightarrow> datetime list" where
  "stamps es = map timestamp (List.map_filter meta es)"

definition reference_stats :: "env \<Rightarrow> floats \<Rightarrow> entry list list \<Rightarrow> stats option" where
  "reference_stats env fl transcripts =
     (let es = concat transcripts in map_option (\<lambda>io.
        \<lparr>st_files = length transcripts, st_events = length es, st_kinds = ranked (map event_kind es),
         st_models = ranked (List.map_filter stat_model es),
         st_tools = ranked (map tu_name (concat (map stat_uses es))),
         st_tool_errors_by_name = ranked (concat (map failed_names transcripts)),
         st_attachment_types = ranked (List.map_filter stat_attachment es),
         st_text_chars = sum_list (map (\<lambda>e. char_len (entry_text e)) es),
         st_thinking_chars = sum_list (map char_len (concat (map stat_thoughts es))),
         st_tool_io_chars = io,
         st_sessions = card (set (List.map_filter session_id es)),
         st_first_timestamp = first_least dt_instant (stamps es),
         st_last_timestamp = first_least (\<lambda>t. - dt_instant t) (stamps es),
         st_interrupts = length (filter (stat_interrupt env) es),
         st_tool_errors = length (filter tr_is_error (concat (map stat_results es))),
         st_error_events = (if length transcripts = 1 then Some (error_indexes es) else None),
         st_slowest_tools = [],
         st_sidechain = length (filter is_sidechain (List.map_filter meta es))\<rparr>) (io_chars fl es))"

subsection \<open>A fold by what it holds\<close>

definition corpus_fold :: "env \<Rightarrow> nat \<Rightarrow> entry list \<Rightarrow> string list \<Rightarrow> nat \<Rightarrow> nat list option \<Rightarrow> stats_fold" where
  "corpus_fold env files es fails io errors =
     \<lparr>sf_kinds = tally (map event_kind es), sf_models = tally (List.map_filter stat_model es),
      sf_tools = tally (map tu_name (concat (map stat_uses es))), sf_tool_errors_by_name = tally fails,
      sf_attachment_types = tally (List.map_filter stat_attachment es),
      sf_sessions = set (List.map_filter session_id es), sf_files = files, sf_events = length es,
      sf_text_chars = sum_list (map (\<lambda>e. char_len (entry_text e)) es),
      sf_thinking_chars = sum_list (map char_len (concat (map stat_thoughts es))), sf_tool_io_chars = io,
      sf_interrupts = length (filter (stat_interrupt env) es),
      sf_tool_errors = length (filter tr_is_error (concat (map stat_results es))),
      sf_error_events = errors, sf_sidechain = length (filter is_sidechain (List.map_filter meta es)),
      sf_first = foldl earliest None (stamps es), sf_last = foldl latest None (stamps es)\<rparr>"

lemma map_filter_simps [simp]:
  "List.map_filter f [] = []" "List.map_filter f (x # xs) = (case f x of None \<Rightarrow> List.map_filter f xs | Some y \<Rightarrow> y # List.map_filter f xs)"
  "List.map_filter f (xs @ ys) = List.map_filter f xs @ List.map_filter f ys"
  by (simp_all add: List.map_filter_def split: option.splits)

lemma fold_default_corpus: "fold_default = corpus_fold env 0 [] [] 0 None"
  by (simp add: fold_default_def corpus_fold_def stamps_def)

lemma merge_corpus:
  "fold_merge (corpus_fold env n es fails io errors) (corpus_fold env m es' fails' io' errors') =
   corpus_fold env (n + m) (es @ es') (fails @ fails') (io + io') (if n = 0 then errors' else None)"
  unfolding fold_merge_def corpus_fold_def stats_fold.select_convs pick_earliest pick_latest pick_merge
  by (simp add: merge_tally stamps_def)

lemma finish_corpus:
  "fold_finish (corpus_fold env n es fails io errors) =
     \<lparr>st_files = n, st_events = length es, st_kinds = ranked (map event_kind es),
      st_models = ranked (List.map_filter stat_model es),
      st_tools = ranked (map tu_name (concat (map stat_uses es))),
      st_tool_errors_by_name = ranked fails,
      st_attachment_types = ranked (List.map_filter stat_attachment es),
      st_text_chars = sum_list (map (\<lambda>e. char_len (entry_text e)) es),
      st_thinking_chars = sum_list (map char_len (concat (map stat_thoughts es))),
      st_tool_io_chars = io,
      st_sessions = card (set (List.map_filter session_id es)),
      st_first_timestamp = first_least dt_instant (stamps es),
      st_last_timestamp = first_least (\<lambda>t. - dt_instant t) (stamps es),
      st_interrupts = length (filter (stat_interrupt env) es),
      st_tool_errors = length (filter tr_is_error (concat (map stat_results es))),
      st_error_events = errors, st_slowest_tools = [],
      st_sidechain = length (filter is_sidechain (List.map_filter meta es))\<rparr>"
  by (simp add: fold_finish_def corpus_fold_def ranked_tally pick_earliest pick_latest pick_least)

subsection \<open>One transcript\<close>

lemma failed_names_snoc: "failed_names (es @ [e]) = failed_names es @ failures (names_of es) (stat_results e)"
proof -
  have "map (\<lambda>i. failures (names_of (take i (es @ [e]))) (stat_results ((es @ [e]) ! i))) [0..<length es] =
      map (\<lambda>i. failures (names_of (take i es)) (stat_results (es ! i))) [0..<length es]"
    by (rule map_cong) (simp_all add: nth_append)
  moreover have "[0..<length (es @ [e])] = [0..<length es] @ [length es]" by simp
  ultimately show ?thesis unfolding failed_names_def by (simp only: map_append concat_append) simp
qed

lemma error_indexes_snoc:
  "error_indexes (es @ [e]) = error_indexes es @ (if list_ex tr_is_error (stat_results e) then [length es] else [])"
proof -
  have "filter (\<lambda>i. list_ex tr_is_error (stat_results ((es @ [e]) ! i))) [0..<length es] = error_indexes es"
    unfolding error_indexes_def by (rule filter_cong) (simp_all add: nth_append)
  then show ?thesis by (simp add: error_indexes_def)
qed

lemma error_indexes_less: "i \<in> set (error_indexes es) \<Longrightarrow> i < length es"
  by (simp add: error_indexes_def)

lemma names_of_append:
  "names_of (es @ [e]) = foldl note_name (names_of es) (stat_uses e)"
  by (simp add: names_of_def)

definition add_index :: "nat \<Rightarrow> bool \<Rightarrow> nat list \<Rightarrow> nat list" where
  "add_index i b ix = (if b \<and> \<not> (ix \<noteq> [] \<and> last ix = i) then ix @ [i] else ix)"

lemma results_fold:
  "foldl (stats_result i names) f rs = f\<lparr>
     sf_tool_io_chars := sf_tool_io_chars f + sum_list (map (\<lambda>r. char_len (tr_content r)) rs),
     sf_tool_errors := sf_tool_errors f + length (filter tr_is_error rs),
     sf_error_events := map_option (add_index i (list_ex tr_is_error rs)) (sf_error_events f),
     sf_tool_errors_by_name := foldl tallies_add (sf_tool_errors_by_name f) (failures names rs)\<rparr>"
proof (induction rs arbitrary: f)
  case Nil
  then show ?case by (simp add: failures_def add_index_def option.map_ident)
next
  case (Cons r rs)
  show ?case unfolding foldl.simps Cons
    by (cases "sf_error_events f")
      (auto simp: stats_result_def one_if_def failures_def add_index_def Let_def split: option.splits)
qed

lemma block_simps [simp]:
  "block_tool_use (CToolUse tu) = Some tu" "block_tool_use (CText t) = None" "block_tool_use (CThinking t) = None"
  "block_tool_use (CToolResult r) = None" "block_tool_use (CFallback fb) = None" "block_tool_use (COther ty raw) = None"
  by (simp_all add: block_tool_use_def)

lemma thinking_simps [simp]:
  "thinking_texts [] = []" "thinking_texts (CThinking t # bs) = t # thinking_texts bs"
  "thinking_texts (CToolUse tu # bs) = thinking_texts bs" "thinking_texts (CText t # bs) = thinking_texts bs"
  "thinking_texts (CToolResult r # bs) = thinking_texts bs" "thinking_texts (CFallback fb # bs) = thinking_texts bs"
  "thinking_texts (COther ty raw # bs) = thinking_texts bs"
  by (simp_all add: thinking_texts_def)

lemma blocks_fold:
  "stats_blocks fl bs (f, names) = map_option (\<lambda>ts. (f\<lparr>
     sf_thinking_chars := sf_thinking_chars f + sum_list (map char_len (thinking_texts bs)),
     sf_tools := foldl tallies_add (sf_tools f) (map tu_name (List.map_filter block_tool_use bs)),
     sf_tool_io_chars := sf_tool_io_chars f + sum_list (map length ts)\<rparr>,
     foldl note_name names (List.map_filter block_tool_use bs)))
   (those (map (\<lambda>tu. orjson_dumps fl (tu_input tu)) (List.map_filter block_tool_use bs)))"
proof (induction bs arbitrary: f names)
  case Nil
  then show ?case by simp
next
  case (Cons b bs)
  show ?case
  proof (cases b)
    case (CToolUse tu)
    show ?thesis unfolding CToolUse stats_blocks.simps Cons
      by (cases "orjson_dumps fl (tu_input tu)"; cases "those (map (\<lambda>tu. orjson_dumps fl (tu_input tu)) (List.map_filter block_tool_use bs))")
        (simp_all add: add.assoc note_name_def [symmetric])
  qed (simp_all add: Cons add.assoc)
qed

definition walk_state :: "env \<Rightarrow> entry list \<Rightarrow> nat \<Rightarrow> walk" where
  "walk_state env pre io = (corpus_fold env 1 pre (failed_names pre) io (Some (error_indexes pre)), names_of pre)"

lemma add_index_errors:
  "add_index (length pre) (list_ex tr_is_error (stat_results e)) (error_indexes pre) = error_indexes (pre @ [e])"
proof -
  have "\<not> (error_indexes pre \<noteq> [] \<and> last (error_indexes pre) = length pre)"
    using error_indexes_less [OF last_in_set, of pre] by auto
  then show ?thesis by (simp add: add_index_def error_indexes_snoc)
qed

lemma tally_append: "tally (xs @ ys) = foldl tallies_add (tally xs) ys"
  by (simp add: tally_def)

lemma meta_session: "meta e = Some m \<Longrightarrow> session_id e = Some (em_session_id m)"
  by (rule meta_session_id)

lemma event_step:
  "stats_event env fl (length pre) e (walk_state env pre io) =
   map_option (\<lambda>ts. walk_state env (pre @ [e]) (io + (result_chars [e] + sum_list (map length ts)))) (input_texts fl [e])"
proof (cases e)
  case (User u)
  then show ?thesis
    by (simp add: stats_event_def stats_kind_def stats_meta_def walk_state_def corpus_fold_def results_fold meta_def session_id_def
        stat_results_def stat_uses_def stat_thoughts_def stat_model_def stat_attachment_def stat_interrupt_def
        stamps_def result_chars_def input_texts_def one_if_def failed_names_snoc names_of_append tally_append
        add_index_errors [of pre e, unfolded User stat_results_def entry.case])
next
  case (Assistant a)
  then show ?thesis
    by (simp add: stats_event_def stats_kind_def stats_meta_def walk_state_def corpus_fold_def blocks_fold meta_def session_id_def
        stat_results_def stat_uses_def stat_thoughts_def stat_model_def stat_attachment_def stat_interrupt_def
        stamps_def result_chars_def input_texts_def one_if_def failed_names_snoc names_of_append tally_append
        error_indexes_snoc failures_def option.map_comp)
qed (simp_all add: stats_event_def stats_kind_def stats_meta_def walk_state_def corpus_fold_def meta_def session_id_def
        stat_results_def stat_uses_def stat_thoughts_def stat_model_def stat_attachment_def stat_interrupt_def
        stamps_def result_chars_def input_texts_def one_if_def failed_names_snoc names_of_append tally_append
        error_indexes_snoc failures_def)

lemma io_chars_append: "io_chars fl (xs @ ys) = Option.bind (io_chars fl xs) (\<lambda>a. map_option ((+) a) (io_chars fl ys))"
proof -
  have r: "result_chars (xs @ ys) = result_chars xs + result_chars ys" by (simp add: result_chars_def)
  have t: "input_texts fl (xs @ ys) = Option.bind (input_texts fl xs) (\<lambda>a. map_option ((@) a) (input_texts fl ys))"
    by (simp add: input_texts_def those_append)
  show ?thesis unfolding io_chars_def r t by (cases "input_texts fl xs"; cases "input_texts fl ys") simp_all
qed

lemma walk_corpus:
  "io_chars fl pre = Some io \<Longrightarrow>
   stats_walk env fl (length pre) es (walk_state env pre io) = map_option (walk_state env (pre @ es)) (io_chars fl (pre @ es))"
proof (induction es arbitrary: pre io)
  case (Cons e es)
  have split: "io_chars fl (pre @ e # es) = io_chars fl ((pre @ [e]) @ es)" by simp
  show ?case
  proof (cases "input_texts fl [e]")
    case None
    then have "io_chars fl (pre @ [e]) = None" by (simp add: io_chars_append Cons.prems) (simp add: io_chars_def)
    then have "io_chars fl (pre @ e # es) = None" unfolding split io_chars_append [of fl "pre @ [e]"] by simp
    then show ?thesis by (simp add: event_step None)
  next
    case (Some ts)
    then have "io_chars fl (pre @ [e]) = Some (io + (result_chars [e] + sum_list (map length ts)))"
      by (simp add: io_chars_append Cons.prems) (simp add: io_chars_def)
    from Cons.IH [OF this] show ?thesis by (simp add: event_step Some)
  qed
qed simp

lemma fold_of_corpus:
  "fold_of env fl t = map_option (\<lambda>io. corpus_fold env 1 t (failed_names t) io (Some (error_indexes t))) (io_chars fl t)"
proof -
  have start: "(fold_default\<lparr>sf_files := 1, sf_error_events := Some []\<rparr>, Map.empty) = walk_state env [] 0"
    by (simp add: walk_state_def fold_default_corpus [of env] corpus_fold_def failed_names_def error_indexes_def names_of_def)
  have "io_chars fl [] = Some 0" by (simp add: io_chars_def input_texts_def result_chars_def)
  from walk_corpus [OF this, of env t] show ?thesis
    unfolding fold_of_def start by (simp add: option.map_comp comp_def walk_state_def)
qed

subsection \<open>The corpus\<close>

lemma merge_all_corpus:
  "merge_all env fl ts (corpus_fold env n es fails io errors) = map_option (\<lambda>io'.
     corpus_fold env (n + length ts) (es @ concat ts) (fails @ concat (map failed_names ts)) (io + io')
       (if ts = [] then errors else if n = 0 \<and> length ts = 1 then Some (error_indexes (concat ts)) else None))
     (io_chars fl (concat ts))"
proof (induction ts arbitrary: n es fails io errors)
  case Nil
  then show ?case by (simp add: io_chars_def input_texts_def result_chars_def)
next
  case (Cons t ts)
  show ?case
  proof (cases "io_chars fl t")
    case None
    then show ?thesis by (simp add: fold_of_corpus io_chars_append)
  next
    case (Some a)
    show ?thesis
      by (simp add: fold_of_corpus Some merge_corpus Cons io_chars_append option.map_comp comp_def add.assoc)
  qed
qed

text \<open>C40: The statistics of a corpus, folded entry by entry, transcript by transcript and merged, are
  those counted over all its entries at once: every counter is ranked by count with ties in the order
  of first appearance, the span runs between the first of the earliest and the first of the latest
  timestamps, a failure counts under the name its call had in its own transcript, and the indexes of
  the failing events are kept for a corpus of one transcript only. Both fail together, on a tool input
  with a number that has no text.\<close>

theorem collect_stats_reference: "collect_stats env fl transcripts = reference_stats env fl transcripts"
proof -
  have "collect_stats env fl transcripts = map_option (\<lambda>io'. fold_finish (corpus_fold env (length transcripts)
      (concat transcripts) (concat (map failed_names transcripts)) io'
      (if length transcripts = 1 then Some (error_indexes (concat transcripts)) else None))) (io_chars fl (concat transcripts))"
    unfolding collect_stats_def fold_default_corpus [of env] merge_all_corpus
    by (cases "transcripts = []") (simp_all add: option.map_comp comp_def)
  then show ?thesis unfolding finish_corpus reference_stats_def Let_def .
qed

end
