(* ===== verification/Spec2Isabelle.thy ===== *)
theory Spec2Isabelle
  imports PatchFacts ToolFacts ActivityFacts Query Watch Rng Blame Facts Filters Buckets RawWindow SkillFraming Ids CacheProps CodexProps LedgerProps ExpiryProps ServiceProps CodecProps ReviewProps CodexReviewProps CodexProbeProps HaystackProps RenderViewProps RenderStatsProps
begin

text \<open>
  A verification library for the Rust engine of cc-transcript (\<open>src/rust/crates\<close>), which reads the
  transcripts that Claude Code and Codex leave on disk and answers questions about them, in a
  command line, from Python and from an owner process that serves requests on a pair of pipes.

  \<^bold>\<open>How the parts interact.\<close> Bytes of a transcript become entries (\<open>parse.rs\<close> for Claude Code,
  \<open>codex/parse.rs\<close> and \<open>codex/lower.rs\<close> for Codex), over JSON values whose duplicate keys are
  collapsed (\<open>value.rs\<close>). Tool calls inside entries are lowered to typed calls (\<open>toolcall.rs\<close>).
  Entries are lifted into turns with their calls and results (\<open>activity.rs\<close>, \<open>notifications.rs\<close>),
  and the lift is queried (\<open>query.rs\<close>), attributed to files (\<open>blame.rs\<close>), counted (\<open>facts.rs\<close>),
  filtered (\<open>filter.rs\<close>) and bucketed (\<open>buckets.rs\<close>). A live transcript is followed by polling
  (\<open>watch.rs\<close>). The snapshot store keeps generations of a source in a cache under a byte ledger
  (\<open>snapshot_cache.rs\<close>, \<open>snapshot_ledger.rs\<close>); the owner process (\<open>owner/src\<close>) queues requests on
  lanes, runs them within a scope of work and writes each answer in a bounded frame.

  \<^bold>\<open>Conventions.\<close> A string is the list of its UTF-8 bytes; a \<open>usize\<close> is a \<^typ>\<open>nat\<close>, and where the
  code would wrap, saturate or underflow the model says so (\<open>sat_add\<close>, \<open>option\<close>, machine words in
  \<open>Rng\<close>). An error is the left side of a sum; \<^const>\<open>None\<close> in a result is a panic (a failed
  \<open>unwrap\<close>, \<open>expect\<close>, assertion or index), and that no panic happens is proved. What is not under
  \<open>src/\<close> is an argument: the record \<open>env\<close> of \<open>Json\<close> and \<open>Parse\<close> (the sonic-rs decoder and encoder,
  RFC 3339, regular expressions), \<open>floats\<close> (reading a float lexeme, ryu), SHA-256, the clock, file
  system reads, the capacities the allocator reports. The few hypotheses on them (a digest has at
  least 16 bytes, a hexadecimal digest has no colon) are premises of the theorems that use them.
  Loops are structural recursions or functions with a measure. The one loop whose end depends on its
  data (\<open>uniform_below\<close> of \<open>rng.rs\<close>) is a partial function proved to return. Fuel is used once, by
  the recursive descent of \<open>pyjson_value\<close>: \<open>pyjson_loads\<close> starts it with one more than the length of
  the text, which is proved to be always enough (\<open>pyjson_loads_returns\<close>).

  \<^bold>\<open>The shared layer.\<close> \<open>Prelude\<close> (strings, sums, stable sorting and the locale of comparators),
  \<open>OrdDict\<close> (insertion-ordered dictionaries as a locale), \<open>PyStr\<close> (\<open>pystr.rs\<close>), \<open>Json\<close> and \<open>JsonText\<close>
  (\<open>value.rs\<close>, the text of strings), \<open>Samples\<close> (inputs the witnesses share).

  \<^bold>\<open>Transcripts.\<close> \<open>Types\<close> (\<open>types.rs\<close>), \<open>Protocol\<close> (\<open>protocol.rs\<close>), \<open>Parse\<close> (\<open>parse.rs\<close>: a parse is
  line-wise, a parsed entry is well-formed and retains bounded arenas), \<open>ToolCall\<close> with \<open>PatchFacts\<close>
  and \<open>ToolFacts\<close> (\<open>toolcall.rs\<close>: patch envelopes are read back as printed, names and aliases match,
  registries are checked, an input fails with the first unmet demand of its tool), \<open>Codex\<close>, \<open>CodexLower\<close>, \<open>CodexFacts\<close>,
  \<open>CodexProps\<close> (\<open>codex/\<close>: a rollout lowers without panic to one entry per line and shows each message
  once), \<open>CodexReview\<close> and
  \<open>CodexReviewProps\<close> (\<open>review_continuation.rs\<close>: lowering a growing rollout incrementally gives the rows of
  lowering it whole), \<open>CodexProbe\<close> and \<open>CodexProbeProps\<close> (\<open>probe.rs\<close>, \<open>gateway.rs\<close>: pending calls by the
  last event of their turn, the provider of a transcript).

  \<^bold>\<open>Sessions.\<close> \<open>Grouping\<close>, \<open>Activity\<close> and \<open>ActivityFacts\<close> (\<open>activity.rs\<close>: turns partition the entries,
  the oracle's verdict, the positional lift agrees, a tail extends a lift), \<open>Notifications\<close>
  (\<open>notifications.rs\<close>: the replayed queue is a set of waiting arrivals), \<open>Query\<close> (\<open>query.rs\<close>), \<open>Blame\<close> (\<open>blame.rs\<close>: attribution as a
  fold), \<open>Facts\<close> (\<open>facts.rs\<close>), \<open>Filters\<close> (\<open>filter.rs\<close>), \<open>Buckets\<close> (\<open>buckets.rs\<close>), \<open>Watch\<close> (\<open>watch.rs\<close>:
  polls compose, nothing is yielded twice), \<open>Rng\<close> (\<open>rng.rs\<close>), \<open>Ids\<close> (\<open>ids.rs\<close>: canonical JSON),
  \<open>RawWindow\<close> (\<open>snapshot_raw_window.rs\<close>) and \<open>SkillFraming\<close> (\<open>snapshot_skill_framing.rs\<close>: framing does
  not see how bytes are chunked).

  \<^bold>\<open>Store.\<close> \<open>SnapshotCache\<close>, \<open>CacheOps\<close>, \<open>CacheLatest\<close>, \<open>CacheEvict\<close>, \<open>CacheSteps\<close>, \<open>CacheFacts\<close>,
  \<open>CacheProps\<close> (\<open>snapshot_cache.rs\<close>: a state machine whose indexes agree in every reachable state,
  eviction of the least recently used, room is made or nothing is left), \<open>Ledger\<close>, \<open>LedgerFacts\<close>,
  \<open>LedgerProps\<close> (\<open>snapshot_ledger.rs\<close>: charges balance, shared allocations count holds), \<open>Expiry\<close>,
  \<open>ExpiryFacts\<close>, \<open>ExpiryProps\<close> (the deadlines of \<open>snapshot.rs\<close>: pruning is exact despite stale
  tickets).

  \<^bold>\<open>Owner.\<close> \<open>PyFloat\<close> (number texts of \<open>render.rs\<close>), \<open>PyJson\<close> (\<open>pyjson.rs\<close>, \<open>frame.rs\<close>), \<open>Service\<close>,
  \<open>ServiceFacts\<close>, \<open>ServiceProps\<close> (\<open>service.rs\<close> as a step relation over the reader and its worker
  threads: every admitted request is answered once, slots and requests agree, the lanes drain),
  \<open>Codec\<close>, \<open>CodecFacts\<close>, \<open>CodecProps\<close> (\<open>snapshot_codec.rs\<close>: clipped records fit and keep all but bulky strings, predicate records
  hold every item), \<open>Scope\<close> (\<open>scope.rs\<close>: a locale of operations that charge work), \<open>ReviewEvents\<close>,
  \<open>ReviewProps\<close> (\<open>review_events.rs\<close>: pages are exact and, without context, tile the snapshot).

  \<^bold>\<open>Rendering.\<close> \<open>RenderJson\<close>, \<open>RenderJsonFacts\<close>, \<open>RenderNumbers\<close>, \<open>RenderReads\<close>, \<open>RenderJsonProps\<close> (the JSON
  tree of \<open>render.rs\<close>, its orjson and Python writers and its reader: what is stored is loaded back,
  loading always returns), \<open>RenderViews\<close>, \<open>RenderPrint\<close>, \<open>RenderViewProps\<close> (the JSON projections: what is
  printed for an entry is one line of JSON that reads back as its projection), \<open>RenderText\<close> (turns,
  calls and results as text), \<open>RenderLines\<close> (one-line forms, searchable text, rows of facts, writes
  and verdicts), \<open>Haystack\<close>, \<open>HaystackProps\<close> (the bound on searchable text is exact), \<open>RenderStats\<close>, \<open>RenderStatsProps\<close> (the statistics
  of a corpus are those counted over all its entries).

  \<^bold>\<open>Granularity.\<close> A critical section under a mutex is one step. In \<open>Service\<close> a worker takes a job,
  replies, forgets the request and frees its slot in four steps that interleave with the reader and
  the other workers; the reader looks at the failure a worker may have noted, submits the frame it
  then holds, and writes a refusal in steps of their own; the answer of the owner and the failures
  of both pipes are arbitrary.

  \<^bold>\<open>Widths.\<close> The owners of a shared allocation are the code's \<open>u32\<close> and wrap (the claim on them
  is for fewer than \<open>2 ^ 32\<close> holds at a time); the random generator, the transport counter and the
  clock of the cache have their 64 bits. Counts of bytes, positions and the statistics are
  unbounded: each is bounded by the memory that holds what it counts. Assertions that restate a
  guarantee of \<open>Arc\<close> or of the allocator (a queued death has no strong reference, a table or a
  heap lands on its predicted capacity where the ledger is not the subject) are left out.

  \<^bold>\<open>Not modelled.\<close> The protocol of leases and cursors of \<open>NativeStore\<close> and its projections
  (\<open>snapshot.rs\<close>, \<open>snapshot_projection.rs\<close> and their satellites): tens of thousands of lines around one
  mutex, the file system and the clock, of which the cache, the ledger and the deadlines are the
  parts with a contract of their own. The prepared evidence on disk is a protocol of \<open>openat\<close> and
  \<open>renameat\<close> calls. \<open>command.rs\<close> walks the syntax tree of a C parser; \<open>cost.rs\<close>, \<open>mining.rs\<close> and the
  bounds of \<open>judge.rs\<close> compute in floating point; \<open>feedback.rs\<close> and \<open>corrections.rs\<close> are SQL; byte
  accounting of \<open>Vec\<close> and \<open>HashMap\<close> capacities is a fact of the allocator. The command line, the
  Python and the Swift bindings are glue. Each is listed with its reason in the manifest.
\<close>

end
